(* ===== verification/Prelude.thy ===== *)
theory Prelude
  imports Complex_Main "HOL-Library.Word"
begin

text \<open>
  Shared vocabulary of the development: the C integer types as words, the collections of
  rewrite rules the component theories feed, and generic facts about bit fields, population
  counts and counters. A C \<^verbatim>\<open>double\<close> is modelled by the type of real numbers throughout: rounding
  is not modelled. A C operation whose behaviour the language leaves undefined (a shift by
  the width or more, a signed overflow, a read of an indeterminate value) makes the model's
  result \<^term>\<open>None\<close>.
\<close>

unbundle bit_operations_syntax

section \<open>C types\<close>

type_synonym u8 = "8 word"
type_synonym u32 = "32 word"
type_synonym u64 = "64 word"

text \<open>The value of an unsigned operand in a floating-point context (the usual arithmetic conversions).\<close>

abbreviation dbl32 :: "u32 \<Rightarrow> real" where
  "dbl32 w \<equiv> real (unat w)"

abbreviation dbl64 :: "u64 \<Rightarrow> real" where
  "dbl64 w \<equiv> real (unat w)"

declare of_nat_unat [simp del]

lemma word_of_nat_unat [simp]: "of_nat (unat w) = (w :: 'a::len word)"
  by (simp add: of_nat_unat)

text \<open>
  Rule collections: \<open>record_simps\<close> unfolds the operations that update a statistics record,
  \<open>report_simps\<close> the operations that read it, and \<open>cap_simps\<close> the capacitance formulas.
\<close>

named_theorems record_simps
named_theorems report_simps
named_theorems cap_simps

section \<open>Population count\<close>

definition popcount :: "'a::len word \<Rightarrow> nat" where
  "popcount w = length (filter (bit w) [0..<LENGTH('a)])"

lemma popcount_card: "popcount (w :: 'a::len word) = card {i. i < LENGTH('a) \<and> bit w i}"
proof -
  have "popcount w = card (set (filter (bit w) [0..<LENGTH('a)]))"
    unfolding popcount_def by (rule distinct_card [symmetric]) simp
  also have "set (filter (bit w) [0..<LENGTH('a)]) = {i. i < LENGTH('a) \<and> bit w i}"
    by auto
  finally show ?thesis .
qed

lemma popcount_le: "popcount (w :: 'a::len word) \<le> LENGTH('a)"
  unfolding popcount_def by (metis length_filter_le length_upt minus_nat.diff_0)

lemma popcount_0 [simp]: "popcount (0 :: 'a::len word) = 0"
  by (simp add: popcount_def)

lemma popcount_eq_0_iff: "popcount (w :: 'a::len word) = 0 \<longleftrightarrow> w = 0"
proof
  assume "popcount w = 0"
  then have "\<forall>i<LENGTH('a). \<not> bit w i" by (simp add: popcount_def filter_empty_conv)
  then show "w = 0" by (intro bit_word_eqI) simp
qed simp

lemma popcount_mono:
  fixes v w :: "'a::len word"
  assumes "\<And>i. bit v i \<Longrightarrow> bit w i"
  shows "popcount v \<le> popcount w"
  unfolding popcount_card using assms by (intro card_mono) auto

lemma popcount_and_le: "popcount (v AND w) \<le> popcount (w :: 'a::len word)"
  by (rule popcount_mono) (simp add: bit_simps)

lemma popcount_or_le: "popcount (v OR w) \<le> popcount v + popcount (w :: 'a::len word)"
proof -
  have "{i. i < LENGTH('a) \<and> bit (v OR w) i} = {i. i < LENGTH('a) \<and> bit v i} \<union> {i. i < LENGTH('a) \<and> bit w i}"
    by (auto simp: bit_simps)
  then show ?thesis unfolding popcount_card by (metis card_Un_le)
qed

lemma popcount_mask_le: "popcount (w AND mask n) \<le> n"
  for w :: "'a::len word"
proof -
  have "popcount (w AND mask n) \<le> card {..<n}"
    unfolding popcount_card by (rule card_mono) (auto simp: bit_simps)
  then show ?thesis by simp
qed

section \<open>Counters\<close>

text \<open>Adding to a 64-bit counter that does not overflow is addition of the counted values.\<close>

lemma unat_add_no_overflow:
  "unat a + unat b < 2 ^ LENGTH('a) \<Longrightarrow> unat (a + b) = unat a + unat (b :: 'a::len word)"
  by (simp add: unat_word_ariths)

lemma unat_ucast_32_64 [simp]: "unat (ucast (w :: u32) :: u64) = unat w"
proof -
  have "unat w < 2 ^ 64" using unsigned_less [of w, where 'a=nat] by simp
  then show ?thesis by (simp add: unsigned_ucast_eq take_bit_nat_eq_self)
qed

section \<open>Bit fields of a natural number\<close>

text \<open>
  \<open>bit_fields w ds\<close> is the number whose consecutive \<open>w\<close>-bit fields are \<open>ds\<close>, lowest first.
  Adding neighbouring bit_fields (\<open>pair_sums\<close>) keeps the sum of the fields and doubles their
  width; the two lemmas \<open>masked_pair_sums\<close> and \<open>folded_pair_sums\<close> say that the two idioms
  a parallel bit count uses (mask both halves, then add; add, then mask) do exactly that.
\<close>

fun bit_fields :: "nat \<Rightarrow> nat list \<Rightarrow> nat" where
  "bit_fields w [] = 0"
| "bit_fields w (d # ds) = d + 2 ^ w * bit_fields w ds"

fun pair_sums :: "nat list \<Rightarrow> nat list" where
  "pair_sums (a # b # ds) = (a + b) # pair_sums ds"
| "pair_sums ds = ds"

fun even_mask :: "nat \<Rightarrow> nat \<Rightarrow> nat" where
  "even_mask w 0 = 0"
| "even_mask w (Suc n) = (2 ^ w - 1) + 2 ^ (2 * w) * even_mask w n"

lemma bit_nat_less_exp:
  fixes a :: nat
  assumes "a < 2 ^ w" and "bit a i"
  shows "i < w"
proof -
  have "bit (take_bit w a) i" using assms by (simp add: take_bit_nat_eq_self)
  then show ?thesis by (simp add: bit_take_bit_iff)
qed

lemma bit_field_add:
  fixes a u :: nat
  assumes "a < 2 ^ w"
  shows "bit (a + 2 ^ w * u) i \<longleftrightarrow> (if i < w then bit a i else bit u (i - w))"
proof -
  have p: "2 ^ w * u = push_bit w u"
    by (simp add: push_bit_eq_mult)
  have "bit (a + push_bit w u) i \<longleftrightarrow> bit a i \<or> bit (push_bit w u) i"
    by (rule bit_disjunctive_add_iff) (auto simp: bit_simps dest: bit_nat_less_exp [OF assms])
  then show ?thesis
    by (auto simp: p bit_simps dest: bit_nat_less_exp [OF assms])
qed

lemma field_and_mask:
  fixes a u c :: nat
  assumes "a < 2 ^ w"
  shows "(a + 2 ^ w * u) AND ((2 ^ w - 1) + 2 ^ (2 * w) * c) = a + 2 ^ (2 * w) * (drop_bit w u AND c)"
proof (rule bit_eqI)
  fix i
  have m: "(2 ^ w - 1) + 2 ^ (2 * w) * c = (2 ^ w - 1) + 2 ^ w * (2 ^ w * c)"
    by (simp add: mult_2 power_add)
  have r: "a + 2 ^ (2 * w) * (drop_bit w u AND c) = a + 2 ^ w * (2 ^ w * (drop_bit w u AND c))"
    by (simp add: mult_2 power_add)
  have one: "(2 ^ w - 1 :: nat) = mask w" by (simp add: mask_eq_exp_minus_1)
  have e: "bit (2 ^ w * v) j \<longleftrightarrow> w \<le> j \<and> bit v (j - w)" for v j :: nat
    using bit_field_add [of 0 w v j] by auto
  have l: "(2 ^ w - 1 :: nat) < 2 ^ w" by simp
  show "bit ((a + 2 ^ w * u) AND ((2 ^ w - 1) + 2 ^ (2 * w) * c)) i = bit (a + 2 ^ (2 * w) * (drop_bit w u AND c)) i"
    unfolding m r bit_and_iff bit_field_add [OF assms] bit_field_add [OF l] e
    unfolding one by (auto simp: bit_simps)
qed

lemma sum_list_pair_sums [simp]: "sum_list (pair_sums ds) = sum_list ds"
  by (induction ds rule: pair_sums.induct) auto

lemma drop_bit_fields: "d < 2 ^ w \<Longrightarrow> drop_bit w (d + 2 ^ w * v) = (v :: nat)"
  by (simp add: drop_bit_eq_div)

lemma masked_pair_sums:
  assumes "length ds = 2 * n" and "\<forall>d \<in> set ds. d < 2 ^ w"
  shows "(bit_fields w ds AND even_mask w n) + (drop_bit w (bit_fields w ds) AND even_mask w n)
         = bit_fields (2 * w) (pair_sums ds)"
  using assms
proof (induction ds arbitrary: n rule: pair_sums.induct)
  case (1 a b ds)
  then obtain m where n: "n = Suc m" by (cases n) auto
  let ?v = "bit_fields w ds" and ?c = "even_mask w m"
  have a: "a < 2 ^ w" and b: "b < 2 ^ w" using 1(3) by auto
  have ih: "(?v AND ?c) + (drop_bit w ?v AND ?c) = bit_fields (2 * w) (pair_sums ds)"
    using 1 n by auto
  have l: "bit_fields w (a # b # ds) AND even_mask w n = a + 2 ^ (2 * w) * (?v AND ?c)"
    using field_and_mask [OF a, of "b + 2 ^ w * ?v" ?c] drop_bit_fields [OF b, of ?v] n by simp
  have r: "drop_bit w (bit_fields w (a # b # ds)) AND even_mask w n = b + 2 ^ (2 * w) * (drop_bit w ?v AND ?c)"
    using field_and_mask [OF b, of ?v ?c] drop_bit_fields [OF a, of "b + 2 ^ w * ?v"] n by simp
  show ?case unfolding l r by (simp add: ih [symmetric] distrib_left)
qed auto

lemma fields_mod: "ds \<noteq> [] \<Longrightarrow> \<forall>d \<in> set ds. d < 2 ^ w \<Longrightarrow> bit_fields w ds mod 2 ^ w = hd ds"
  by (cases ds) auto

lemma div_add_no_carry:
  fixes b v B :: nat
  assumes "b + v mod B < B"
  shows "(b + v) div B = v div B"
proof -
  have "b + v = (b + v mod B) + v div B * B" by simp
  then have "(b + v) div B = ((b + v mod B) + v div B * B) div B" by (rule arg_cong)
  also have "\<dots> = v div B" using assms by (subst div_mult_self1) auto
  finally show ?thesis .
qed

lemma folded_pair_sums:
  assumes "length ds = 2 * n" and "\<forall>d \<in> set ds. 2 * d < 2 ^ w"
  shows "(bit_fields w ds + drop_bit w (bit_fields w ds)) AND even_mask w n = bit_fields (2 * w) (pair_sums ds)"
  using assms
proof (induction ds arbitrary: n rule: pair_sums.induct)
  case (1 a b ds)
  then obtain m where n: "n = Suc m" by (cases n) auto
  let ?v = "bit_fields w ds" and ?c = "even_mask w m"
  have a: "2 * a < 2 ^ w" and b: "2 * b < 2 ^ w" using 1(3) by auto
  have ab: "a + b < 2 ^ w" using a b by linarith
  have aw: "a < 2 ^ w" and bw: "b < 2 ^ w" using a b by simp_all
  have ih: "(?v + drop_bit w ?v) AND ?c = bit_fields (2 * w) (pair_sums ds)"
    using 1 n by auto
  have carry: "(b + ?v) div 2 ^ w = ?v div 2 ^ w"
  proof (cases "ds = []")
    case True then show ?thesis using bw by simp
  next
    case False
    then have "?v mod 2 ^ w = hd ds" using 1(3) by (intro fields_mod) force+
    moreover have "2 * hd ds < 2 ^ w" using False 1(3) by auto
    ultimately have "b + ?v mod 2 ^ w < 2 ^ w" using b by linarith
    then show ?thesis by (rule div_add_no_carry)
  qed
  have e: "bit_fields w (a # b # ds) + drop_bit w (bit_fields w (a # b # ds)) = (a + b) + 2 ^ w * (b + ?v + 2 ^ w * ?v)"
    unfolding bit_fields.simps drop_bit_fields [OF aw] by (simp add: algebra_simps)
  have d: "drop_bit w (b + ?v + 2 ^ w * ?v) = ?v + drop_bit w ?v"
    using carry by (simp add: drop_bit_eq_div)
  show ?case unfolding e n even_mask.simps field_and_mask [OF ab] d ih by simp
qed auto

lemma pair_sums_bound:
  "\<forall>d \<in> set ds. d \<le> m \<Longrightarrow> even (length ds) \<Longrightarrow> \<forall>d \<in> set (pair_sums ds). d \<le> 2 * m"
  by (induction ds rule: pair_sums.induct) auto

lemma length_pair_sums: "even (length ds) \<Longrightarrow> length (pair_sums ds) = length ds div 2"
  by (induction ds rule: pair_sums.induct) auto

lemma fields_of_bool: "bit_fields 1 (map of_bool bs) = horner_sum of_bool 2 bs"
  by (induction bs) auto

abbreviation bits :: "'a::len word \<Rightarrow> nat list" where
  "bits w \<equiv> map (\<lambda>i. of_bool (bit w i)) [0..<LENGTH('a)]"

lemma fields_bits: "bit_fields 1 (bits w) = unat (w :: 'a::len word)"
proof -
  have "bit_fields 1 (bits w)
        = bit_fields 1 (map of_bool (map (bit (unat w)) [0..<LENGTH('a)]))"
    by (simp add: bit_simps comp_def)
  also have "\<dots> = take_bit LENGTH('a) (unat w)"
    by (simp only: fields_of_bool horner_sum_bit_eq_take_bit)
  also have "\<dots> = unat w" by (simp add: take_bit_nat_eq_self)
  finally show ?thesis .
qed

lemma sum_list_bits: "sum_list (bits w) = popcount (w :: 'a::len word)"
proof -
  have "sum_list (map (\<lambda>i. of_bool (P i)) xs) = length (filter P xs)" for P and xs :: "nat list"
    by (induction xs) auto
  then show ?thesis unfolding popcount_def by simp
qed

lemma even_mask_closed: "even_mask w n = (2 ^ (2 * w * n) - 1) div (1 + 2 ^ w)"
proof -
  have "even_mask w n * (1 + 2 ^ w) + 1 = 2 ^ (2 * w * n)"
  proof (induction n)
    case (Suc n)
    let ?W = "2 ^ w :: nat" and ?e = "even_mask w n"
    have "even_mask w (Suc n) * (1 + ?W) + 1 = (?W - 1) * (1 + ?W) + 1 + ?W * ?W * (?e * (1 + ?W))"
      by (simp add: algebra_simps power_mult power2_eq_square mult_2 power_add)
    also have "(?W - 1) * (1 + ?W) + 1 = ?W * ?W" by (cases ?W) (simp_all add: algebra_simps)
    also have "?W * ?W + ?W * ?W * (?e * (1 + ?W)) = ?W * ?W * (?e * (1 + ?W) + 1)"
      by (simp add: algebra_simps)
    finally show ?case unfolding Suc by (simp add: power_add power_mult power2_eq_square algebra_simps)
  qed simp
  then have "2 ^ (2 * w * n) - 1 = even_mask w n * (1 + 2 ^ w)" by (metis diff_add_inverse2)
  then show ?thesis by (metis nonzero_mult_div_cancel_right add_is_0 zero_neq_one)
qed

lemma fields_less:
  "\<forall>d \<in> set ds. d < 2 ^ w \<Longrightarrow> bit_fields w ds < 2 ^ (w * length ds)"
proof (induction ds)
  case (Cons d ds)
  then have d: "d + 1 \<le> 2 ^ w" and f: "bit_fields w ds + 1 \<le> 2 ^ (w * length ds)" by auto
  have "d + 2 ^ w * bit_fields w ds + 1 \<le> 2 ^ w * (bit_fields w ds + 1)" using d by (simp add: algebra_simps)
  also have "\<dots> \<le> 2 ^ w * 2 ^ (w * length ds)" using f by (intro mult_left_mono) auto
  finally show ?case by (simp add: power_add)
qed simp

lemma fields_map_double: "bit_fields w (map ((*) 2) ds) = 2 * bit_fields w ds"
  by (induction ds) (auto simp: algebra_simps)

lemma pair_sums_less:
  assumes "\<forall>d \<in> set ds. d < 2 ^ w" and "0 < w" and "even (length ds)"
  shows "\<forall>d \<in> set (pair_sums ds). d < 2 ^ (2 * w)"
proof -
  have "(2::nat) ^ (w + 1) \<le> 2 ^ (2 * w)" using assms(2) by (intro power_increasing) auto
  then have "2 * (2 ^ w - 1) < (2 :: nat) ^ (2 * w)"
    by (simp add: diff_mult_distrib2) (metis diff_less less_le_trans not_le pos2 mult_pos_pos zero_less_power)
  moreover have "\<forall>d \<in> set (pair_sums ds). d \<le> 2 * (2 ^ w - 1)"
    using assms by (intro pair_sums_bound) fastforce+
  ultimately show ?thesis by fastforce
qed

text \<open>The same two steps on a machine word whose fields fill it exactly.\<close>

lemma masked_step:
  fixes x m :: "'a::len word"
  assumes x: "unat x = bit_fields w ds" and m: "unat m = even_mask w n"
    and len: "length ds = 2 * n" "w * (2 * n) = LENGTH('a)" and b: "\<forall>d \<in> set ds. d \<le> b" "b < 2 ^ w"
  shows "unat ((x AND m) + (drop_bit w x AND m)) = bit_fields (2 * w) (pair_sums ds)"
proof -
  have d: "\<forall>d \<in> set ds. d < 2 ^ w" using b by fastforce
  have s: "unat (x AND m) + unat (drop_bit w x AND m) = bit_fields (2 * w) (pair_sums ds)"
    using masked_pair_sums [OF len(1) d] by (simp add: unsigned_and_eq unat_drop_bit_eq x m)
  have "0 < w" using len(2) by (cases w) auto
  then have "\<forall>d \<in> set (pair_sums ds). d < 2 ^ (2 * w)" using d len(1) by (intro pair_sums_less) auto
  then have "bit_fields (2 * w) (pair_sums ds) < 2 ^ (2 * w * length (pair_sums ds))" by (rule fields_less)
  also have "2 * w * length (pair_sums ds) = LENGTH('a)" using len by (simp add: length_pair_sums)
  finally show ?thesis using s by (simp add: unat_add_no_overflow)
qed

lemma folded_step:
  fixes x m :: "'a::len word"
  assumes x: "unat x = bit_fields w ds" and m: "unat m = even_mask w n"
    and len: "length ds = 2 * n" "w * (2 * n) = LENGTH('a)" and b: "\<forall>d \<in> set ds. d \<le> b" "2 * b < 2 ^ w"
  shows "unat ((x + drop_bit w x) AND m) = bit_fields (2 * w) (pair_sums ds)"
proof -
  have d: "\<forall>d \<in> set ds. 2 * d < 2 ^ w" using b by fastforce
  have "bit_fields w (map ((*) 2) ds) < 2 ^ (w * length (map ((*) 2) ds))"
    using d by (intro fields_less) auto
  then have "2 * unat x < 2 ^ LENGTH('a)" using len by (simp add: x fields_map_double)
  moreover have "unat (drop_bit w x) \<le> unat x" by (metis unat_drop_bit_eq drop_bit_eq_div div_le_dividend)
  ultimately have "unat (x + drop_bit w x) = unat x + unat (drop_bit w x)"
    by (intro unat_add_no_overflow) linarith
  then show ?thesis
    using folded_pair_sums [OF len(1) d] by (simp add: unsigned_and_eq unat_drop_bit_eq x m)
qed

lemma fields_nth:
  "k < length ds \<Longrightarrow> \<forall>d \<in> set ds. d < 2 ^ w \<Longrightarrow> (bit_fields w ds div 2 ^ (w * k)) mod 2 ^ w = ds ! k"
proof (induction ds arbitrary: k)
  case (Cons d ds)
  show ?case
  proof (cases k)
    case 0 with Cons.prems show ?thesis by simp
  next
    case (Suc j)
    have "(d + 2 ^ w * bit_fields w ds) div 2 ^ (w * k) = bit_fields w ds div 2 ^ (w * j)"
      using Cons.prems by (simp add: Suc power_add div_mult2_eq)
    with Cons Suc show ?thesis by simp
  qed
qed simp

lemma popcount_not_mask: "m \<le> LENGTH('a) \<Longrightarrow> popcount (NOT x AND mask m) + popcount (x AND mask m) = m"
  for x :: "'a::len word"
proof -
  assume m: "m \<le> LENGTH('a)"
  let ?A = "{i. i < LENGTH('a) \<and> bit (NOT x AND mask m) i}" and ?B = "{i. i < LENGTH('a) \<and> bit (x AND mask m) i}"
  have "?A \<union> ?B = {..<m}" "?A \<inter> ?B = {}" using m by (auto simp: bit_simps)
  then have "card ?A + card ?B = m" by (metis card_Un_disjoint card_lessThan finite_lessThan finite_Un)
  then show ?thesis by (simp add: popcount_card)
qed

lemma unat_drop_bit_div: "unat (drop_bit k (w :: 'a::len word)) = unat w div 2 ^ k"
  unfolding unat_drop_bit_eq by (rule drop_bit_eq_div)

end
