(* ===== verification/Orion_Util.thy ===== *)
theory Orion_Util
  imports Prelude
begin

text \<open>
  Orion's utility layer (\<^verbatim>\<open>SIM_power_util.c\<close>, the Hamming macros of \<^verbatim>\<open>SIM_power.h\<close>): the
  Hamming distance in its parallel and its table form, the changed-group count, the rounded
  logarithm, the array reshaping heuristic and the report path strings. The distance is
  shown to count differing bits, to be a metric, and the two implementations to agree.
\<close>

section \<open>Constants and macros\<close>

definition BIGONE :: u64 where
  "BIGONE = 1"

definition BIGNONE :: u64 where
  "BIGNONE = - 1"

text \<open>
  \<open>HAMM_MASK(w)\<close> compares its argument, converted to \<^verbatim>\<open>u_int\<close>, with
  \<^verbatim>\<open>sizeof(LIB_Type_max_uint) >> 3\<close>, and \<^verbatim>\<open>sizeof\<close> of a 64-bit type is 8.
\<close>

definition HAMM_MASK :: "u32 \<Rightarrow> u64" where
  "HAMM_MASK w = (if w < drop_bit 3 8 then push_bit (unat w) BIGONE - 1 else BIGNONE)"

definition NEXT_DEPTH :: "int \<Rightarrow> int" where
  "NEXT_DEPTH d = (if d > 0 then d - 1 else d)"

definition TWO :: "nat \<Rightarrow> u64" where
  "TWO k = push_bit k BIGONE"

definition CYCL :: "nat \<Rightarrow> u64" where
  "CYCL k = BIGNONE div (1 + TWO (unat (TWO k)))"

definition BSUM :: "u64 \<Rightarrow> nat \<Rightarrow> u64" where
  "BSUM x k = (x + drop_bit (unat (TWO k)) x) AND CYCL k"

section \<open>Hamming distance\<close>

definition SIM_power_Hamming_slow :: "u64 \<Rightarrow> u64 \<Rightarrow> u64 \<Rightarrow> u32" where
  "SIM_power_Hamming_slow old_val new_val msk =
     (let x = (old_val XOR new_val) AND msk;
          x = (x AND CYCL 0) + (drop_bit (unat (TWO 0)) x AND CYCL 0);
          x = (x AND CYCL 1) + (drop_bit (unat (TWO 1)) x AND CYCL 1);
          x = BSUM x 2;
          x = BSUM x 3;
          x = BSUM x 4;
          x = BSUM x 5
      in ucast x)"

definition h_tab :: "u8 list" where
  "h_tab =
    [0, 1, 1, 2, 1, 2, 2, 3, 1, 2, 2, 3, 2, 3, 3, 4, 1, 2, 2, 3, 2, 3, 3, 4, 2, 3, 3, 4, 3, 4, 4, 5,
     1, 2, 2, 3, 2, 3, 3, 4, 2, 3, 3, 4, 3, 4, 4, 5, 2, 3, 3, 4, 3, 4, 4, 5, 3, 4, 4, 5, 4, 5, 5, 6,
     1, 2, 2, 3, 2, 3, 3, 4, 2, 3, 3, 4, 3, 4, 4, 5, 2, 3, 3, 4, 3, 4, 4, 5, 3, 4, 4, 5, 4, 5, 5, 6,
     2, 3, 3, 4, 3, 4, 4, 5, 3, 4, 4, 5, 4, 5, 5, 6, 3, 4, 4, 5, 4, 5, 5, 6, 4, 5, 5, 6, 5, 6, 6, 7,
     1, 2, 2, 3, 2, 3, 3, 4, 2, 3, 3, 4, 3, 4, 4, 5, 2, 3, 3, 4, 3, 4, 4, 5, 3, 4, 4, 5, 4, 5, 5, 6,
     2, 3, 3, 4, 3, 4, 4, 5, 3, 4, 4, 5, 4, 5, 5, 6, 3, 4, 4, 5, 4, 5, 5, 6, 4, 5, 5, 6, 5, 6, 6, 7,
     2, 3, 3, 4, 3, 4, 4, 5, 3, 4, 4, 5, 4, 5, 5, 6, 3, 4, 4, 5, 4, 5, 5, 6, 4, 5, 5, 6, 5, 6, 6, 7,
     3, 4, 4, 5, 4, 5, 5, 6, 4, 5, 5, 6, 5, 6, 6, 7, 4, 5, 5, 6, 5, 6, 6, 7, 5, 6, 6, 7, 6, 7, 7, 8]"

text \<open>\<open>SIM_power_init\<close> overwrites the 256 entries of the table in place and returns 0.\<close>

definition SIM_power_init :: "u8 list \<Rightarrow> u8 list \<times> int" where
  "SIM_power_init tab =
     (foldl (\<lambda>t i. t[i := ucast (SIM_power_Hamming_slow (of_nat i) 0 0xFF)]) tab [0..<256], 0)"

text \<open>Byte \<open>k\<close> of the union, with the bytes laid out lowest first.\<close>

definition byte_of :: "u64 \<Rightarrow> nat \<Rightarrow> u8" where
  "byte_of x k = ucast (drop_bit (8 * k) x)"

definition SIM_power_Hamming :: "u64 \<Rightarrow> u64 \<Rightarrow> u64 \<Rightarrow> u32" where
  "SIM_power_Hamming old_val new_val msk =
     (let x = (old_val XOR new_val) AND msk;
          h = (\<lambda>k. ucast (h_tab ! unat (byte_of x k)))
      in h 0 + h 1 + h 2 + h 3 + h 4 + h 5 + h 6 + h 7)"

text \<open>
  The loop of \<open>SIM_power_Hamming_group\<close>. A shift by \<open>width \<ge> 64\<close> is undefined, and every
  iteration performs one.
\<close>

fun Hamming_group_loop :: "u64 \<Rightarrow> u64 \<Rightarrow> u64 \<Rightarrow> u64 \<Rightarrow> u64 \<Rightarrow> u32 \<Rightarrow> nat \<Rightarrow> u32 \<Rightarrow> u32 option" where
  "Hamming_group_loop d1_new d1_old d2_new d2_old msk width 0 rval = Some rval"
| "Hamming_group_loop d1_new d1_old d2_new d2_old msk width (Suc n_grp) rval =
     (if 64 \<le> unat width then None
      else Hamming_group_loop
        (drop_bit (unat width) d1_new) (drop_bit (unat width) d1_old)
        (drop_bit (unat width) d2_new) (drop_bit (unat width) d2_old) msk width n_grp
        (if d1_new AND msk \<noteq> d1_old AND msk \<or> d2_new AND msk \<noteq> d2_old AND msk
         then rval + 1 else rval))"

definition SIM_power_Hamming_group :: "u64 \<Rightarrow> u64 \<Rightarrow> u64 \<Rightarrow> u64 \<Rightarrow> u32 \<Rightarrow> u32 \<Rightarrow> u32 option" where
  "SIM_power_Hamming_group d1_new d1_old d2_new d2_old width n_grp =
     Hamming_group_loop d1_new d1_old d2_new d2_old (HAMM_MASK width) width (unat n_grp) 0"

section \<open>Rounded logarithm and array reshaping\<close>

text \<open>The loop \<^verbatim>\<open>while (x >> rval) rval++\<close>: at \<open>rval = 64\<close> the shift is undefined.\<close>

function logtwo_loop :: "u64 \<Rightarrow> nat \<Rightarrow> nat option" where
  "logtwo_loop x rval =
     (if 64 \<le> rval then None
      else if drop_bit rval x \<noteq> 0 then logtwo_loop x (Suc rval) else Some rval)"
  by pat_completeness auto
termination
  by (relation "measure (\<lambda>(x, rval). 64 - rval)") auto

declare logtwo_loop.simps [simp del]

text \<open>With \<open>rval = 0\<close> the shift count \<^verbatim>\<open>rval - 1\<close> is the largest \<^verbatim>\<open>u_int\<close>: undefined.\<close>

definition SIM_power_logtwo :: "u64 \<Rightarrow> u32 option" where
  "SIM_power_logtwo x =
     (case logtwo_loop x 0 of
        None \<Rightarrow> None
      | Some rval \<Rightarrow>
          if rval = 0 then None
          else Some (of_nat (if x = push_bit (rval - 1) BIGONE then rval - 1 else rval)))"

text \<open>
  The two loops of \<open>SIM_power_squarify\<close> on \<^verbatim>\<open>int\<close> operands. C's division truncates, which on
  the operands that reach it without overflow is \<^term>\<open>(div)\<close> for non-negative numbers; a product
  outside the 32-bit range is undefined, and so is a shift that leaves it.
\<close>

definition int32 :: "int \<Rightarrow> bool" where
  "int32 i \<longleftrightarrow> - (2 ^ 31) \<le> i \<and> i < 2 ^ 31"

definition c_half :: "int \<Rightarrow> int" where
  "c_half i = sgn i * (\<bar>i\<bar> div 2)"

function squarify_rows :: "int \<Rightarrow> int \<Rightarrow> nat \<Rightarrow> int option" where
  "squarify_rows rows cols scale_factor =
     (if \<not> int32 (cols * 2) \<or> 31 \<le> scale_factor then None
      else if c_half rows \<le> cols * 2 then Some (2 ^ scale_factor)
      else squarify_rows (c_half rows) (cols * 2) (Suc scale_factor))"
  by pat_completeness auto
termination
  by (relation "measure (\<lambda>(rows, cols, scale_factor). 31 - scale_factor)") auto

declare squarify_rows.simps [simp del]

function squarify_cols :: "int \<Rightarrow> int \<Rightarrow> nat \<Rightarrow> int option" where
  "squarify_cols rows cols scale_factor =
     (if \<not> int32 (rows * 2) \<or> 31 \<le> scale_factor then None
      else if c_half cols \<le> rows * 2 then Some (- (2 ^ scale_factor))
      else squarify_cols (rows * 2) (c_half cols) (Suc scale_factor))"
  by pat_completeness auto
termination
  by (relation "measure (\<lambda>(rows, cols, scale_factor). 31 - scale_factor)") auto

declare squarify_cols.simps [simp del]

definition SIM_power_squarify :: "int \<Rightarrow> int \<Rightarrow> int option" where
  "SIM_power_squarify rows cols =
     (if rows = cols then Some 1
      else if rows > cols then squarify_rows rows cols 0
      else squarify_cols rows cols 0)"

section \<open>Report paths\<close>

text \<open>
  A path is a character buffer or \<^verbatim>\<open>NULL\<close>; the buffer's content is modelled up to its
  terminator. Printing appends one line to the output, kept as a list of entries.
\<close>

type_synonym path = "string option"
type_synonym energy_log = "(string \<times> real) list"

definition SIM_power_strcat :: "path \<Rightarrow> string \<Rightarrow> path" where
  "SIM_power_strcat dest src = map_option (\<lambda>d. d @ ''/'' @ src) dest"

definition SIM_power_res_path :: "path \<Rightarrow> nat \<Rightarrow> path" where
  "SIM_power_res_path p n = map_option (take n) p"

definition SIM_power_strlen :: "path \<Rightarrow> nat" where
  "SIM_power_strlen s = (case s of Some c \<Rightarrow> length c | None \<Rightarrow> 0)"

text \<open>
  \<open>SIM_print_stat_energy\<close> appends a conversion to the path, uses the whole buffer as the format
  string of the print and truncates the buffer again: the pair is the buffer afterwards and what
  was printed, a format string with its argument.
\<close>

definition energy_format :: string where
  "energy_format = ''%g'' @ [CHR 0x0A]"

definition SIM_print_stat_energy :: "path \<Rightarrow> real \<Rightarrow> int \<Rightarrow> path \<times> energy_log" where
  "SIM_print_stat_energy p Energy print_flag =
     (if print_flag \<noteq> 0
      then (case p of
              Some s \<Rightarrow> (let buf = s @ '': '' @ energy_format
                         in (SIM_power_res_path (Some buf) (length s), [(buf, Energy)]))
            | None \<Rightarrow> (None, [(energy_format, Energy)]))
      else (p, []))"

section \<open>The parallel bit count\<close>

lemma unat_TWO:
  "unat (TWO 0) = 1" "unat (TWO 1) = 2" "unat (TWO 2) = 4"
  "unat (TWO 3) = 8" "unat (TWO 4) = 16" "unat (TWO 5) = 32"
  by (simp_all add: TWO_def BIGONE_def)

lemma CYCL_even_mask:
  "unat (CYCL 0) = even_mask 1 32" "unat (CYCL 1) = even_mask 2 16" "unat (CYCL 2) = even_mask 4 8"
  "unat (CYCL 3) = even_mask 8 4" "unat (CYCL 4) = even_mask 16 2" "unat (CYCL 5) = even_mask 32 1"
  by (simp_all add: even_mask_closed CYCL_def TWO_def BIGONE_def BIGNONE_def unat_div)

lemma swar_popcount:
  fixes x :: u64
  defines "x1 \<equiv> (x AND CYCL 0) + (drop_bit (unat (TWO 0)) x AND CYCL 0)"
  defines "x2 \<equiv> (x1 AND CYCL 1) + (drop_bit (unat (TWO 1)) x1 AND CYCL 1)"
  shows "unat (BSUM (BSUM (BSUM (BSUM x2 2) 3) 4) 5) = popcount x"
proof -
  define d0 where "d0 = bits x"
  define d1 where "d1 = pair_sums d0"
  define d2 where "d2 = pair_sums d1"
  define d3 where "d3 = pair_sums d2"
  define d4 where "d4 = pair_sums d3"
  define d5 where "d5 = pair_sums d4"
  define d6 where "d6 = pair_sums d5"
  note ds = d1_def d2_def d3_def d4_def d5_def d6_def
  have l: "length d0 = 64" "length d1 = 32" "length d2 = 16" "length d3 = 8" "length d4 = 4" "length d5 = 2" "length d6 = 1"
    by (simp_all add: ds d0_def length_pair_sums)
  have b0: "\<forall>d\<in>set d0. d \<le> 1" by (auto simp: d0_def)
  have b1: "\<forall>d\<in>set d1. d \<le> 2" using pair_sums_bound [OF b0] l by (simp add: d1_def)
  have b2: "\<forall>d\<in>set d2. d \<le> 4" using pair_sums_bound [OF b1] l by (simp add: d2_def)
  have b3: "\<forall>d\<in>set d3. d \<le> 8" using pair_sums_bound [OF b2] l by (simp add: d3_def)
  have b4: "\<forall>d\<in>set d4. d \<le> 16" using pair_sums_bound [OF b3] l by (simp add: d4_def)
  have b5: "\<forall>d\<in>set d5. d \<le> 32" using pair_sums_bound [OF b4] l by (simp add: d5_def)
  have e0: "unat x = bit_fields 1 d0" unfolding d0_def by (rule fields_bits [symmetric])
  have e1: "unat x1 = bit_fields 2 d1"
    using masked_step [OF e0 CYCL_even_mask(1) _ _ b0] l by (simp add: x1_def d1_def unat_TWO)
  have e2: "unat x2 = bit_fields 4 d2"
    using masked_step [OF e1 CYCL_even_mask(2) _ _ b1] l unfolding x2_def d2_def unat_TWO by simp
  have e3: "unat (BSUM x2 2) = bit_fields 8 d3"
    using folded_step [OF e2 CYCL_even_mask(3) _ _ b2] l by (simp add: BSUM_def d3_def unat_TWO)
  have e4: "unat (BSUM (BSUM x2 2) 3) = bit_fields 16 d4"
    using folded_step [OF e3 CYCL_even_mask(4) _ _ b3] l by (simp add: BSUM_def [of _ 3] d4_def unat_TWO)
  have e5: "unat (BSUM (BSUM (BSUM x2 2) 3) 4) = bit_fields 32 d5"
    using folded_step [OF e4 CYCL_even_mask(5) _ _ b4] l by (simp add: BSUM_def [of _ 4] d5_def unat_TWO)
  have e6: "unat (BSUM (BSUM (BSUM (BSUM x2 2) 3) 4) 5) = bit_fields 64 d6"
    using folded_step [OF e5 CYCL_even_mask(6) _ _ b5] l by (simp add: BSUM_def [of _ 5] d6_def unat_TWO)
  also have "bit_fields 64 d6 = sum_list d6" using l(7) by (cases d6) auto
  also have "\<dots> = popcount x" unfolding ds sum_list_pair_sums d0_def by (rule sum_list_bits)
  finally show ?thesis .
qed

lemma unat_ucast_popcount: "unat x = popcount w \<Longrightarrow> unat (ucast (x :: u64) :: u32) = popcount (w :: u64)"
  using popcount_le [of w] by (simp add: unsigned_ucast_eq take_bit_nat_eq_self)

lemma Hamming_slow_popcount:
  "unat (SIM_power_Hamming_slow old_val new_val msk) = popcount ((old_val XOR new_val) AND msk)"
  unfolding SIM_power_Hamming_slow_def Let_def by (intro unat_ucast_popcount swar_popcount)

lemma h_tab_popcount: "h_tab = map (\<lambda>i. of_nat (popcount (of_nat i :: u8))) [0..<256]"
  by code_simp

lemma popcount_filter_shift:
  "length (filter (bit w) [a..<a + n]) = length (filter (bit (drop_bit a w)) [0..<n])"
  for w :: "'a::len word"
proof -
  have "[a..<a + n] = map (\<lambda>i. a + i) [0..<n]" by (simp add: map_add_upt add.commute)
  then show ?thesis by (simp add: filter_map comp_def bit_drop_bit_eq)
qed

lemma popcount_byte:
  "popcount (byte_of x k) = length (filter (bit x) [8 * k..<8 * k + 8])" if "k < 8"
proof -
  have "filter (bit (byte_of x k)) [0..<8] = filter (bit (drop_bit (8 * k) x)) [0..<8]"
    using that by (intro filter_cong) (auto simp: byte_of_def bit_simps)
  then show ?thesis by (simp add: popcount_def popcount_filter_shift)
qed

lemma popcount_bytes:
  "popcount (x :: u64) = popcount (byte_of x 0) + popcount (byte_of x 1) + popcount (byte_of x 2)
     + popcount (byte_of x 3) + popcount (byte_of x 4) + popcount (byte_of x 5)
     + popcount (byte_of x 6) + popcount (byte_of x 7)"
proof -
  have "[0..<64] = [0..<8] @ [8..<16] @ [16..<24] @ [24..<32] @ [32..<40] @ [40..<48] @ [48..<56] @ [56..<(64::nat)]"
    by code_simp
  then have "popcount x = length (filter (bit x) ([0..<8] @ [8..<16] @ [16..<24] @ [24..<32] @ [32..<40]
      @ [40..<48] @ [48..<56] @ [56..<(64::nat)]))"
    by (simp add: popcount_def)
  then show ?thesis by (simp add: popcount_byte)
qed

lemma h_tab_nth: "unat (h_tab ! unat b) = popcount (b :: u8)"
proof -
  have "unat b < 256" using unsigned_less [of b, where 'a=nat] by simp
  then have "h_tab ! unat b = of_nat (popcount b)" by (simp add: h_tab_popcount)
  moreover have "popcount b < 256" using popcount_le [of b] by simp
  ultimately show ?thesis by (simp add: unsigned_of_nat take_bit_nat_eq_self)
qed

lemma unat_ucast_8_32: "unat (ucast (w :: u8) :: u32) = unat w"
  using unsigned_less [of w, where 'a=nat] by (simp add: unsigned_ucast_eq take_bit_nat_eq_self)

lemma unat_sum8:
  fixes a b c d e f g h :: u32
  assumes "unat a \<le> 8" "unat b \<le> 8" "unat c \<le> 8" "unat d \<le> 8" "unat e \<le> 8" "unat f \<le> 8" "unat g \<le> 8" "unat h \<le> 8"
  shows "unat (a + b + c + d + e + f + g + h)
         = unat a + unat b + unat c + unat d + unat e + unat f + unat g + unat h"
  using assms by (simp add: unat_word_ariths)

lemma Hamming_popcount:
  "unat (SIM_power_Hamming old_val new_val msk) = popcount ((old_val XOR new_val) AND msk)"
proof -
  let ?x = "(old_val XOR new_val) AND msk"
  let ?h = "\<lambda>k. ucast (h_tab ! unat (byte_of ?x k)) :: u32"
  have h: "unat (?h k) = popcount (byte_of ?x k)" for k
    by (simp add: unat_ucast_8_32 h_tab_nth)
  have "unat (?h k) \<le> 8" for k
    unfolding h using popcount_le [of "byte_of ?x k"] by simp
  then have "unat (?h 0 + ?h 1 + ?h 2 + ?h 3 + ?h 4 + ?h 5 + ?h 6 + ?h 7)
     = unat (?h 0) + unat (?h 1) + unat (?h 2) + unat (?h 3) + unat (?h 4) + unat (?h 5) + unat (?h 6) + unat (?h 7)"
    by (intro unat_sum8)
  then show ?thesis unfolding SIM_power_Hamming_def Let_def h popcount_bytes [symmetric] .
qed

lemma foldl_list_update:
  "n \<le> length xs \<Longrightarrow> foldl (\<lambda>t i. t[i := f i]) xs [0..<n] = map f [0..<n] @ drop n xs"
proof (induction n)
  case (Suc n)
  then have "drop n xs = xs ! n # drop (Suc n) xs" by (simp add: Cons_nth_drop_Suc)
  with Suc show ?case by (simp add: list_update_append)
qed simp

lemma popcount_low_byte: "popcount (of_nat i AND 0xFF :: u64) = popcount (of_nat i :: u8)"
proof -
  have "(of_nat i :: u64) AND mask 8 = ucast (of_nat i :: u8)"
    by (rule bit_word_eqI) (auto simp: bit_simps)
  moreover have "mask 8 = (0xFF :: u64)" by (simp add: mask_eq_exp_minus_1)
  moreover have "popcount (ucast (v :: u8) :: u64) = popcount v" for v
    unfolding popcount_card by (rule arg_cong [where f = card]) (auto simp: bit_simps dest: bit_imp_le_length)
  ultimately show ?thesis by simp
qed

lemma ucast_popcount: "ucast (v :: u32) = (of_nat (unat v) :: u8)"
  by (simp add: of_nat_unat)

lemma init_table:
  "length tab = 256 \<Longrightarrow> SIM_power_init tab = (h_tab, 0)"
proof -
  assume l: "length tab = 256"
  have "ucast (SIM_power_Hamming_slow (of_nat i) 0 0xFF) = (of_nat (popcount (of_nat i :: u8)) :: u8)" for i
  proof -
    have "unat (SIM_power_Hamming_slow (of_nat i) 0 0xFF) = popcount (of_nat i :: u8)"
      unfolding Hamming_slow_popcount by (simp add: popcount_low_byte)
    then show ?thesis by (metis ucast_popcount)
  qed
  then show ?thesis
    unfolding SIM_power_init_def h_tab_popcount using l by (simp add: foldl_list_update)
qed

section \<open>The distance as a metric\<close>

lemma Hamming_zero_iff:
  "SIM_power_Hamming a b msk = 0 \<longleftrightarrow> a AND msk = b AND msk"
proof -
  have "SIM_power_Hamming a b msk = 0 \<longleftrightarrow> (a XOR b) AND msk = 0"
    by (metis Hamming_popcount popcount_eq_0_iff unsigned_0 unat_eq_zero)
  also have "\<dots> \<longleftrightarrow> a AND msk = b AND msk"
    by (auto simp: bit_eq_iff bit_simps)
  finally show ?thesis .
qed

lemma Hamming_sym: "SIM_power_Hamming a b msk = SIM_power_Hamming b a msk"
  by (simp add: SIM_power_Hamming_def xor.commute)

lemma Hamming_triangle:
  "unat (SIM_power_Hamming a c msk) \<le> unat (SIM_power_Hamming a b msk) + unat (SIM_power_Hamming b c msk)"
proof -
  have "popcount ((a XOR c) AND msk) \<le> popcount (((a XOR b) AND msk) OR ((b XOR c) AND msk))"
    by (rule popcount_mono) (auto simp: bit_simps)
  also have "\<dots> \<le> popcount ((a XOR b) AND msk) + popcount ((b XOR c) AND msk)"
    by (rule popcount_or_le)
  finally show ?thesis unfolding Hamming_popcount .
qed

section \<open>The mask macro and the changed-group count\<close>

lemma and_BIGNONE [simp]: "x AND BIGNONE = x"
  by (simp add: BIGNONE_def)

lemma HAMM_MASK_eq: "HAMM_MASK w = (if w = 0 then 0 else BIGNONE)"
proof -
  have "w < drop_bit 3 8 \<longleftrightarrow> w = 0" by (simp add: drop_bit_eq_div word_less_1)
  then show ?thesis by (simp add: HAMM_MASK_def BIGONE_def)
qed

lemma Hamming_group_loop_count:
  assumes "unat width < 64" and "width \<noteq> 0"
  shows "Hamming_group_loop a b c d BIGNONE width n rval
    = Some (rval + of_nat (length (filter (\<lambda>k. drop_bit (k * unat width) a \<noteq> drop_bit (k * unat width) b
        \<or> drop_bit (k * unat width) c \<noteq> drop_bit (k * unat width) d) [0..<n])))"
proof (induction n arbitrary: a b c d rval)
  case (Suc n)
  have u: "[0..<Suc n] = 0 # map Suc [0..<n]" by (simp add: upt_conv_Cons map_Suc_upt del: upt_Suc)
  show ?case using assms by (simp add: Suc u filter_map comp_def drop_bit_drop_bit add.commute del: upt_Suc)
qed simp

section \<open>The rounded logarithm and the reshaping loops\<close>

lemma drop_bit_zero_iff: "drop_bit n x = 0 \<longleftrightarrow> unat x < 2 ^ n" for x :: u64
proof -
  have "drop_bit n x = 0 \<longleftrightarrow> unat (drop_bit n x) = 0" by (simp add: unat_eq_zero)
  also have "\<dots> \<longleftrightarrow> unat x < 2 ^ n" unfolding unat_drop_bit_div by (simp add: div_eq_0_iff)
  finally show ?thesis .
qed

lemma logtwo_loop_result:
  assumes "r \<le> 63" and "unat x < 2 ^ 63" and "r = 0 \<or> 2 ^ (r - 1) \<le> unat x"
  shows "\<exists>n \<le> 63. logtwo_loop x r = Some n \<and> unat x < 2 ^ n \<and> (n = 0 \<or> 2 ^ (n - 1) \<le> unat x)"
  using assms
proof (induction x r rule: logtwo_loop.induct)
  case (1 x r)
  show ?case
  proof (cases "unat x < 2 ^ r")
    case True
    then show ?thesis using 1 by (subst logtwo_loop.simps) (auto simp: drop_bit_zero_iff)
  next
    case False
    then have "r \<noteq> 63" using 1(3) by auto
    then have "r < 63" using 1(2) by simp
    then show ?thesis using 1(1) 1(3) False 
      by (subst logtwo_loop.simps) (auto simp: drop_bit_zero_iff not_less)
  qed
qed

lemma logtwo_loop_big:
  "2 ^ 63 \<le> unat x \<Longrightarrow> logtwo_loop x r = None"
proof (induction x r rule: logtwo_loop.induct)
  case (1 x r)
  show ?case
  proof (cases "64 \<le> r")
    case False
    then have "(2::nat) ^ r \<le> 2 ^ 63" by (intro power_increasing) auto
    with 1(2) have "\<not> unat x < 2 ^ r" by linarith
    with 1 False show ?thesis by (subst logtwo_loop.simps) (simp add: drop_bit_zero_iff)
  qed (simp add: logtwo_loop.simps)
qed



lemma logtwo_spec:
  "case SIM_power_logtwo x of
     None \<Rightarrow> x = 0 \<or> 2 ^ 63 \<le> unat x
   | Some r \<Rightarrow> 0 < unat x \<and> unat x < 2 ^ 63 \<and> unat x \<le> 2 ^ unat r \<and> (r = 0 \<or> 2 ^ (unat r - 1) < unat x)"
proof (cases "unat x = 0 \<or> 2 ^ 63 \<le> unat x")
  case True
  moreover have "logtwo_loop 0 0 = Some 0" by (subst logtwo_loop.simps) simp
  ultimately have "SIM_power_logtwo x = None"
    by (auto simp: SIM_power_logtwo_def logtwo_loop_big unat_eq_zero)
  with True show ?thesis by (auto simp: unat_eq_zero)
next
  case False
  then obtain n where n: "n \<le> 63" "logtwo_loop x 0 = Some n" "unat x < 2 ^ n" "n = 0 \<or> 2 ^ (n - 1) \<le> unat x"
    using logtwo_loop_result [of 0 x] by auto
  with False have n0: "n \<noteq> 0" by (intro notI) simp
  have u: "unat (of_nat m :: u32) = m" if "m \<le> 63" for m
    using that by (simp add: unsigned_of_nat take_bit_nat_eq_self)
  have p: "unat (push_bit m BIGONE) = 2 ^ m" if "m < 63" for m
    using that unfolding BIGONE_def unsigned_push_bit_eq by (simp add: take_bit_nat_eq_self push_bit_eq_mult)
  have e: "x = push_bit (n - 1) BIGONE \<longleftrightarrow> unat x = 2 ^ (n - 1)"
    using p [of "n - 1"] n(1) n0 by (auto simp: word_unat_eq_iff)
  have n1: "2 ^ (n - 1) \<le> unat x" using n(4) n0 by simp
  show ?thesis
  proof (cases "unat x = 2 ^ (n - 1)")
    case True
    then have "SIM_power_logtwo x = Some (of_nat (n - 1))" using n(2) n0 e by (simp add: SIM_power_logtwo_def)
    moreover have "n - 1 \<noteq> 0 \<Longrightarrow> (2::nat) ^ (n - 1 - 1) < 2 ^ (n - 1)" by (intro power_strict_increasing) auto
    ultimately show ?thesis using True False n(1) u [of "n - 1"] by (auto simp: word_unat_eq_iff)
  next
    case neq: False
    then have "SIM_power_logtwo x = Some (of_nat n)" using n(2) n0 e by (simp add: SIM_power_logtwo_def)
    then show ?thesis using neq False n n1 u [of n] by auto
  qed
qed

text \<open>
  \<open>halvings long short k\<close>: halving \<open>long\<close> and doubling \<open>short\<close> leaves \<open>long\<close> strictly larger for
  \<open>0, \<dots>, k\<close> rounds and no longer larger after round \<open>k + 1\<close>.
\<close>

definition halvings :: "int \<Rightarrow> int \<Rightarrow> nat \<Rightarrow> bool" where
  "halvings long short k \<longleftrightarrow>
     (\<forall>j \<le> k. short * 2 ^ j < long div 2 ^ j) \<and> long div 2 ^ Suc k \<le> short * 2 ^ Suc k"

lemma halvings_Suc:
  assumes "short < long" and "halvings (long div 2) (short * 2) k"
  shows "halvings long short (Suc k)"
proof -
  have d: "long div 2 div 2 ^ j = long div 2 ^ Suc j" for j
    by (simp add: zdiv_zmult2_eq)
  have "short * 2 ^ j < long div 2 ^ j" if "j \<le> Suc k" for j
  proof (cases j)
    case (Suc i)
    then show ?thesis using assms(2) that d [of i] by (auto simp: halvings_def mult.assoc)
  qed (use assms in simp)
  then show ?thesis using assms(2) d [of "Suc k"] by (auto simp: halvings_def mult.assoc)
qed

lemma squarify_rows_spec:
  assumes "0 < cols" "cols < rows" "rows * 2 ^ s \<le> 2 ^ 30"
  shows "\<exists>k. squarify_rows rows cols s = Some (2 ^ (s + k)) \<and> halvings rows cols k"
  using assms
proof (induction rows cols s rule: squarify_rows.induct)
  case (1 rows cols s)
  have r: "2 \<le> rows" using 1(2,3) by linarith
  then have "2 * 2 ^ s \<le> rows * 2 ^ s" by (intro mult_right_mono) auto
  then have "(2::int) ^ Suc s \<le> 2 ^ 30" using 1(4) unfolding power_Suc by (rule order_trans)
  then have s: "s < 30" by (metis Suc_le_lessD one_less_numeral_iff power_le_imp_le_exp semiring_norm(76))
  have "rows * 1 \<le> rows * 2 ^ s" using r by (intro mult_left_mono) auto
  then have "rows \<le> 2 ^ 30" using 1(4) by linarith
  then have ok: "int32 (cols * 2)" using 1(2,3) by (simp add: int32_def)
  have h: "c_half rows = rows div 2" using r by (simp add: c_half_def)
  show ?case
  proof (cases "rows div 2 \<le> cols * 2")
    case True
    then have "halvings rows cols 0" using 1(3) by (simp add: halvings_def)
    then show ?thesis using True s ok h by (subst squarify_rows.simps) (auto intro: exI [of _ 0])
  next
    case False
    have "(rows div 2) * 2 * 2 ^ s \<le> rows * 2 ^ s" by (intro mult_right_mono) auto
    then have "(rows div 2) * 2 ^ Suc s \<le> 2 ^ 30" using 1(4) unfolding power_Suc mult.assoc by (rule order_trans)
    with 1(1,2) False s ok h obtain k where
      "squarify_rows (rows div 2) (cols * 2) (Suc s) = Some (2 ^ (Suc s + k))" "halvings (rows div 2) (cols * 2) k"
      by auto
    moreover from this have "halvings rows cols (Suc k)" using 1(3) by (intro halvings_Suc)
    ultimately show ?thesis using False s ok h by (subst squarify_rows.simps) (auto intro: exI [of _ "Suc k"])
  qed
qed

lemma squarify_cols_eq: "squarify_cols rows cols s = map_option uminus (squarify_rows cols rows s)"
proof (induction rows cols s rule: squarify_cols.induct)
  case (1 rows cols s)
  then show ?case by (subst squarify_cols.simps, subst squarify_rows.simps) auto
qed

lemma squarify_spec:
  "0 < cols \<Longrightarrow> cols < rows \<Longrightarrow> rows \<le> 2 ^ 30 \<Longrightarrow>
   \<exists>k. SIM_power_squarify rows cols = Some (2 ^ k) \<and> SIM_power_squarify cols rows = Some (- (2 ^ k))
       \<and> halvings rows cols k"
  using squarify_rows_spec [of cols rows 0] by (auto simp: SIM_power_squarify_def squarify_cols_eq)

section \<open>Properties\<close>

text \<open>
  C29: the table-driven Hamming distance and the branch-free parallel count are the same
  function, and both count the masked bits in which the two values differ, for all 64-bit
  operands.
\<close>

theorem SIM_power_Hamming_correct:
  "SIM_power_Hamming old_val new_val msk = SIM_power_Hamming_slow old_val new_val msk
   \<and> unat (SIM_power_Hamming old_val new_val msk) = popcount ((old_val XOR new_val) AND msk)"
  by (simp add: word_unat_eq_iff Hamming_popcount Hamming_slow_popcount)

text \<open>
  Initialisation recomputes the distance table from the parallel count; whatever the
  256 entries held before, it leaves exactly the compiled-in table and reports success.
\<close>

theorem SIM_power_init_table:
  "length tab = 256 \<Longrightarrow> SIM_power_init tab = (h_tab, 0)"
  by (rule init_table)

theorem SIM_power_init_table_witness:
  "SIM_power_init (replicate 256 0) = (h_tab, 0)"
  by (rule SIM_power_init_table) simp

text \<open>
  Under any mask the distance is a metric on the masked values (zero exactly on equal
  masked values, symmetric, triangle inequality), bounded by the number of bits in the mask.
\<close>

theorem SIM_power_Hamming_metric:
  "(SIM_power_Hamming a b msk = 0 \<longleftrightarrow> a AND msk = b AND msk)
   \<and> SIM_power_Hamming a b msk = SIM_power_Hamming b a msk
   \<and> unat (SIM_power_Hamming a c msk) \<le> unat (SIM_power_Hamming a b msk) + unat (SIM_power_Hamming b c msk)
   \<and> unat (SIM_power_Hamming a b msk) \<le> popcount msk"
  using Hamming_zero_iff Hamming_sym Hamming_triangle popcount_and_le
  by (metis Hamming_popcount)

text \<open>
  the mask macro compares the width with \<^verbatim>\<open>sizeof(u_int64_t) >> 3\<close>, which is 1, so it is
  the all-ones word for every positive width; the changed-group count therefore compares, for
  group \<open>k\<close>, everything from bit \<open>k * width\<close> upwards instead of the group alone, and counts the
  groups at or below the highest changed bit.
\<close>

theorem SIM_power_Hamming_group_counts:
  "0 < unat width \<Longrightarrow> unat width < 64 \<Longrightarrow>
   HAMM_MASK width = BIGNONE \<and>
   SIM_power_Hamming_group d1_new d1_old d2_new d2_old width n_grp =
     Some (of_nat (length (filter
       (\<lambda>k. drop_bit (k * unat width) d1_new \<noteq> drop_bit (k * unat width) d1_old
          \<or> drop_bit (k * unat width) d2_new \<noteq> drop_bit (k * unat width) d2_old) [0..<unat n_grp])))"
  by (auto simp: SIM_power_Hamming_group_def HAMM_MASK_eq Hamming_group_loop_count)

theorem SIM_power_Hamming_group_counts_witness:
  "SIM_power_Hamming_group 0x0100000000000000 0 0 0 8 8 = Some 8"
  using SIM_power_Hamming_group_counts [of 8 "0x0100000000000000" 0 0 0 8]
  by (simp add: upt_rec)

text \<open>
  On \<open>0 < x < 2 ^ 63\<close> the logarithm terminates without undefined behaviour and is the base-two
  logarithm rounded up; on zero and from \<open>2 ^ 63\<close> on, the code performs an undefined shift.
\<close>

theorem SIM_power_logtwo_rounds_up:
  "case SIM_power_logtwo x of
     None \<Rightarrow> x = 0 \<or> 2 ^ 63 \<le> unat x
   | Some r \<Rightarrow> 0 < unat x \<and> unat x < 2 ^ 63 \<and> unat x \<le> 2 ^ unat r \<and> (r = 0 \<or> 2 ^ (unat r - 1) < unat x)"
  by (rule logtwo_spec)

text \<open>
  For positive dimensions up to \<open>2 ^ 30\<close> reshaping terminates without overflow and returns
  \<open>2 ^ k\<close> (negated when the columns are the longer side), where \<open>k + 1\<close> is the number of halvings
  after which the longer side no longer exceeds the other one. Dividing by the returned factor
  itself leaves the longer side strictly longer: it is half of the balancing factor.
\<close>

theorem SIM_power_squarify_factor:
  "0 < cols \<Longrightarrow> cols < rows \<Longrightarrow> rows \<le> 2 ^ 30 \<Longrightarrow>
   \<exists>k. SIM_power_squarify rows cols = Some (2 ^ k) \<and> SIM_power_squarify cols rows = Some (- (2 ^ k))
       \<and> halvings rows cols k"
  by (rule squarify_spec)

theorem SIM_power_squarify_factor_witness:
  "\<exists>k. SIM_power_squarify 16 1 = Some (2 ^ k) \<and> SIM_power_squarify 1 16 = Some (- (2 ^ k))
       \<and> halvings 16 1 k"
  by (rule SIM_power_squarify_factor) simp_all

text \<open>
  Extending a report path and truncating it to its old length restores it, a null path
  included, and a report line leaves the path buffer as it was whether or not it prints.
\<close>

theorem SIM_power_path_restored:
  "SIM_power_res_path (SIM_power_strcat p s) (SIM_power_strlen p) = p
   \<and> fst (SIM_print_stat_energy p Energy print_flag) = p"
  by (cases p) (simp_all add: SIM_power_res_path_def SIM_power_strcat_def SIM_power_strlen_def
      SIM_print_stat_energy_def Let_def)

end
