(* ===== verification/Orion_Tech.thy ===== *)
theory Orion_Tech
  imports Orion_Util
begin

text \<open>
  The technology layer of Orion: the process parameters of \<^verbatim>\<open>SIM_power_test.h\<close>, the scaling factors,
  wire constants and transistor widths of \<^verbatim>\<open>SIM_power.h\<close> as functions of the build's technology
  point, and the capacitance, resistance and delay primitives of \<^verbatim>\<open>SIM_power_time.c\<close> with the driver
  sizing of \<^verbatim>\<open>SIM_power_util.c\<close>. The lemmas give positivity and monotonicity of the primitives, the
  bounds of the driver size and that resistance and width conversion are inverse.
\<close>

section \<open>Build configuration\<close>

text \<open>
  The macros \<^verbatim>\<open>PARM_TECH_POINT\<close>, \<^verbatim>\<open>Vdd\<close> (which may be left undefined) and \<^verbatim>\<open>PARM_Freq\<close> of the
  command line; \<open>build_tech\<close> is the configuration of the makefile.
\<close>

record tech =
  TECH_POINT :: nat
  Vdd_opt :: "real option"
  Freq :: real

definition build_tech :: tech where
  "build_tech = \<lparr>TECH_POINT = 18, Vdd_opt = Some 1.8, Freq = 10 ^ 9\<rparr>"

section \<open>Process parameters\<close>

definition PARM_AF :: real where
  "PARM_AF = 0.5"

definition PARM_MAXN :: int where
  "PARM_MAXN = 8"

definition PARM_MAXSUBARRAYS :: int where
  "PARM_MAXSUBARRAYS = 8"

definition PARM_MAXSPD :: int where
  "PARM_MAXSPD = 8"

definition PARM_VTHOUTDRNOR :: real where
  "PARM_VTHOUTDRNOR = 0.431"

definition PARM_res_fpalu :: int where
  "PARM_res_fpalu = 4"

definition PARM_VTHCOMPINV :: real where
  "PARM_VTHCOMPINV = 0.437"

definition PARM_BITOUT :: int where
  "PARM_BITOUT = 64"

definition PARM_Cndiffside :: real where
  "PARM_Cndiffside = 2.75 / 10 ^ 16"

definition PARM_ruu_decode_width :: int where
  "PARM_ruu_decode_width = 4"

definition PARM_ruu_issue_width :: int where
  "PARM_ruu_issue_width = 4"

definition PARM_amp_Idsat :: real where
  "PARM_amp_Idsat = 5 / 10 ^ 4"

definition PARM_VSINV :: real where
  "PARM_VSINV = 0.456"

definition PARM_Cpdiffovlp :: real where
  "PARM_Cpdiffovlp = 1.38 / 10 ^ 16"

definition PARM_Cgatepass :: real where
  "PARM_Cgatepass = 1.45 / 10 ^ 15"

definition PARM_Cpdiffarea :: real where
  "PARM_Cpdiffarea = 3.43 / 10 ^ 16"

definition PARM_GEN_POWER_FACTOR :: real where
  "PARM_GEN_POWER_FACTOR = 1.31"

definition PARM_VTHNAND60x90 :: real where
  "PARM_VTHNAND60x90 = 0.561"

definition PARM_Cpdiffside :: real where
  "PARM_Cpdiffside = 2.75 / 10 ^ 16"

definition PARM_Cpoxideovlp :: real where
  "PARM_Cpoxideovlp = 3.38 / 10 ^ 16"

definition PARM_opcode_length :: int where
  "PARM_opcode_length = 8"

definition PARM_FUDGEFACTOR :: real where
  "PARM_FUDGEFACTOR = 1"

definition PARM_Cndiffovlp :: real where
  "PARM_Cndiffovlp = 1.38 / 10 ^ 16"

definition PARM_VTHOUTDRIVE :: real where
  "PARM_VTHOUTDRIVE = 0.425"

definition PARM_Cndiffarea :: real where
  "PARM_Cndiffarea = 1.37 / 10 ^ 16"

definition PARM_VTHMUXDRV1 :: real where
  "PARM_VTHMUXDRV1 = 0.437"

definition PARM_inst_length :: int where
  "PARM_inst_length = 32"

definition PARM_VTHMUXDRV2 :: real where
  "PARM_VTHMUXDRV2 = 0.486"

definition PARM_NORMALIZE_SCALE :: real where
  "PARM_NORMALIZE_SCALE = 6.48873 / 10 ^ 10"

definition PARM_VTHMUXDRV3 :: real where
  "PARM_VTHMUXDRV3 = 0.437"

definition PARM_ADDRESS_BITS :: int where
  "PARM_ADDRESS_BITS = 64"

definition PARM_RUU_size :: int where
  "PARM_RUU_size = 16"

definition PARM_Cgate :: real where
  "PARM_Cgate = 1.95 / 10 ^ 15"

definition PARM_VTHNOR12x4x1 :: real where
  "PARM_VTHNOR12x4x1 = 0.503"

definition PARM_VTHNOR12x4x2 :: real where
  "PARM_VTHNOR12x4x2 = 0.452"

definition PARM_VTHOUTDRINV :: real where
  "PARM_VTHOUTDRINV = 0.437"

definition PARM_VTHNOR12x4x3 :: real where
  "PARM_VTHNOR12x4x3 = 0.417"

definition PARM_VTHEVALINV :: real where
  "PARM_VTHEVALINV = 0.267"

definition PARM_VTHNOR12x4x4 :: real where
  "PARM_VTHNOR12x4x4 = 0.39"

definition PARM_res_ialu :: int where
  "PARM_res_ialu = 4"

definition PARM_Cnoxideovlp :: real where
  "PARM_Cnoxideovlp = 2.63 / 10 ^ 16"

definition PARM_VTHOUTDRNAND :: real where
  "PARM_VTHOUTDRNAND = 0.441"

definition PARM_VTHINV100x60 :: real where
  "PARM_VTHINV100x60 = 0.438"

section \<open>Scaling factors, wires and transistor widths\<close>

definition BIGNUM :: real where
  "BIGNUM = 10 ^ 30"

definition RISE :: int where
  "RISE = 1"

definition FALL :: int where
  "FALL = 0"

definition NCH :: int where
  "NCH = 1"

definition PCH :: int where
  "PCH = 0"

definition CSCALE :: "tech \<Rightarrow> real" where
  "CSCALE T =
     (if TECH_POINT T = 7 then 84.2172
      else if TECH_POINT T = 10 then 84.2172
      else if TECH_POINT T = 11 then 84.2172
      else if TECH_POINT T = 18 then 19.7172
      else if TECH_POINT T = 25 then 10.2197
      else if TECH_POINT T = 35 then 5.2197
      else if TECH_POINT T = 40 then 1
      else 1)"

definition RSCALE :: "tech \<Rightarrow> real" where
  "RSCALE T =
     (if TECH_POINT T = 7 then 102.5
      else if TECH_POINT T = 10 then 80
      else if TECH_POINT T = 11 then 80
      else if TECH_POINT T = 18 then 20
      else if TECH_POINT T = 25 then 10.2571
      else if TECH_POINT T = 35 then 5.2571
      else if TECH_POINT T = 40 then 1
      else 1)"

definition LSCALE :: "tech \<Rightarrow> real" where
  "LSCALE T =
     (if TECH_POINT T = 7 then 0.0875
      else if TECH_POINT T = 10 then 0.125
      else if TECH_POINT T = 11 then 0.1375
      else if TECH_POINT T = 18 then 0.225
      else if TECH_POINT T = 25 then 0.3571
      else if TECH_POINT T = 35 then 0.4375
      else if TECH_POINT T = 40 then 0.5
      else 1)"

definition VSCALE :: "tech \<Rightarrow> real" where
  "VSCALE T =
     (if TECH_POINT T = 7 then 0.2
      else if TECH_POINT T = 10 then 0.38
      else if TECH_POINT T = 11 then 0.38
      else if TECH_POINT T = 18 then 0.4
      else if TECH_POINT T = 25 then 0.45
      else if TECH_POINT T = 35 then 0.5
      else if TECH_POINT T = 40 then 1
      else 1)"

definition VTSCALE :: "tech \<Rightarrow> real" where
  "VTSCALE T =
     (if TECH_POINT T = 7 then 0.183486
      else if TECH_POINT T = 10 then 0.49
      else if TECH_POINT T = 11 then 0.49
      else if TECH_POINT T = 18 then 0.5046
      else if TECH_POINT T = 25 then 0.5596
      else if TECH_POINT T = 35 then 0.6147
      else if TECH_POINT T = 40 then 1
      else 1)"

definition SSCALE :: "tech \<Rightarrow> real" where
  "SSCALE T =
     (if TECH_POINT T = 7 then 0.8
      else if TECH_POINT T = 10 then 0.8
      else if TECH_POINT T = 11 then 0.8
      else if TECH_POINT T = 18 then 0.85
      else if TECH_POINT T = 25 then 0.9
      else if TECH_POINT T = 35 then 0.95
      else if TECH_POINT T = 40 then 1
      else 1)"

definition MCSCALE :: "tech \<Rightarrow> real" where
  "MCSCALE T =
     (if TECH_POINT T = 7 then 5.2277
      else if TECH_POINT T = 10 then 5.2277
      else if TECH_POINT T = 11 then 5.2277
      else if TECH_POINT T = 18 then 4.125
      else if TECH_POINT T = 25 then 1
      else if TECH_POINT T = 35 then 1
      else if TECH_POINT T = 40 then 1
      else 1)"

definition MCSCALE2 :: "tech \<Rightarrow> real" where
  "MCSCALE2 T =
     (if TECH_POINT T = 7 then 3
      else if TECH_POINT T = 10 then 3
      else if TECH_POINT T = 11 then 3
      else if TECH_POINT T = 18 then 2.4444
      else if TECH_POINT T = 25 then 1
      else if TECH_POINT T = 35 then 1
      else if TECH_POINT T = 40 then 1
      else 1)"

definition MCSCALE3 :: "tech \<Rightarrow> real" where
  "MCSCALE3 T =
     (if TECH_POINT T = 7 then 1.5
      else if TECH_POINT T = 10 then 1.5
      else if TECH_POINT T = 11 then 1.5
      else if TECH_POINT T = 18 then 1.2
      else if TECH_POINT T = 25 then 1
      else if TECH_POINT T = 35 then 1
      else if TECH_POINT T = 40 then 1
      else 1)"

definition GEN_POWER_SCALE :: "tech \<Rightarrow> real" where
  "GEN_POWER_SCALE T =
     (if TECH_POINT T = 7 then (1 / PARM_GEN_POWER_FACTOR)
      else if TECH_POINT T = 10 then (1 / PARM_GEN_POWER_FACTOR)
      else if TECH_POINT T = 11 then (1 / PARM_GEN_POWER_FACTOR)
      else if TECH_POINT T = 18 then 1
      else if TECH_POINT T = 25 then PARM_GEN_POWER_FACTOR
      else if TECH_POINT T = 35 then (PARM_GEN_POWER_FACTOR * PARM_GEN_POWER_FACTOR)
      else if TECH_POINT T = 40 then (PARM_GEN_POWER_FACTOR * PARM_GEN_POWER_FACTOR * PARM_GEN_POWER_FACTOR)
      else (PARM_GEN_POWER_FACTOR * PARM_GEN_POWER_FACTOR * PARM_GEN_POWER_FACTOR * PARM_GEN_POWER_FACTOR))"

definition ASCALE :: "tech \<Rightarrow> real" where
  "ASCALE T = LSCALE T * LSCALE T"

definition MSCALE :: "tech \<Rightarrow> real" where
  "MSCALE T = LSCALE T * 0.624 / 0.225"

definition Cwordmetal :: "tech \<Rightarrow> real" where
  "Cwordmetal T = 1.8 / 10 ^ 15 * (CSCALE T * ASCALE T)"

definition Cbitmetal :: "tech \<Rightarrow> real" where
  "Cbitmetal T = 4.4 / 10 ^ 15 * (CSCALE T * ASCALE T)"

definition Cmetal :: "tech \<Rightarrow> real" where
  "Cmetal T = Cbitmetal T / 16"

definition CM2metal :: "tech \<Rightarrow> real" where
  "CM2metal T = Cbitmetal T / 16"

definition CM3metal :: "tech \<Rightarrow> real" where
  "CM3metal T = Cbitmetal T / 16"

definition CCmetal :: "tech \<Rightarrow> real" where
  "CCmetal T = Cmetal T * MCSCALE T"

definition CC2metal :: "tech \<Rightarrow> real" where
  "CC2metal T = Cmetal T * MCSCALE2 T"

definition CC3metal :: "tech \<Rightarrow> real" where
  "CC3metal T = Cmetal T * MCSCALE3 T"

definition CC3M2metal :: "tech \<Rightarrow> real" where
  "CC3M2metal T = CM2metal T * MCSCALE3 T"

definition CC3M3metal :: "tech \<Rightarrow> real" where
  "CC3M3metal T = CM3metal T * MCSCALE3 T"

definition Leff :: "tech \<Rightarrow> real" where
  "Leff T = 0.8 * LSCALE T"

definition Lamda :: "tech \<Rightarrow> real" where
  "Lamda T = Leff T * 0.5"

definition Cpolywire :: "tech \<Rightarrow> real" where
  "Cpolywire T = 0.25 / 10 ^ 15 * CSCALE T * LSCALE T"

definition Rnchannelstatic :: "tech \<Rightarrow> real" where
  "Rnchannelstatic T = 25800 * LSCALE T"

definition Rpchannelstatic :: "tech \<Rightarrow> real" where
  "Rpchannelstatic T = 61200 * LSCALE T"

definition Rnchannelon :: "tech \<Rightarrow> real" where
  "Rnchannelon T = 9723 * LSCALE T"

definition Rpchannelon :: "tech \<Rightarrow> real" where
  "Rpchannelon T = 22400 * LSCALE T"

definition Rbitmetal :: "tech \<Rightarrow> real" where
  "Rbitmetal T = 0.32 * (RSCALE T * ASCALE T)"

definition Rwordmetal :: "tech \<Rightarrow> real" where
  "Rwordmetal T = 0.08 * (RSCALE T * ASCALE T)"

definition Vdd :: "tech \<Rightarrow> real" where
  "Vdd T = (case Vdd_opt T of Some v \<Rightarrow> v | None \<Rightarrow> 5 * VSCALE T)"

definition Period :: "tech \<Rightarrow> real" where
  "Period T = 1 / Freq T"

definition krise :: "tech \<Rightarrow> real" where
  "krise T = 0.4 / 10 ^ 9 * LSCALE T"

definition tsensedata :: "tech \<Rightarrow> real" where
  "tsensedata T = 5.8 / 10 ^ 10 * LSCALE T"

definition tsensetag :: "tech \<Rightarrow> real" where
  "tsensetag T = 2.6 / 10 ^ 10 * LSCALE T"

definition tfalldata :: "tech \<Rightarrow> real" where
  "tfalldata T = 7 / 10 ^ 10 * LSCALE T"

definition tfalltag :: "tech \<Rightarrow> real" where
  "tfalltag T = 7 / 10 ^ 10 * LSCALE T"

definition Vbitpre :: "tech \<Rightarrow> real" where
  "Vbitpre T = 3.3 * SSCALE T"

definition Vt :: "tech \<Rightarrow> real" where
  "Vt T = 1.09 * VTSCALE T"

definition Vbitsense :: "tech \<Rightarrow> real" where
  "Vbitsense T = 0.1 * SSCALE T"

definition Powerfactor :: "tech \<Rightarrow> real" where
  "Powerfactor T = (Freq T) * Vdd T * Vdd T"

definition EnergyFactor :: "tech \<Rightarrow> real" where
  "EnergyFactor T = Vdd T * Vdd T"

definition SenseEnergyFactor :: "tech \<Rightarrow> real" where
  "SenseEnergyFactor T = Vdd T * Vdd T / 2"

definition Wdecdrivep :: "tech \<Rightarrow> real" where
  "Wdecdrivep T = 57 * LSCALE T"

definition Wdecdriven :: "tech \<Rightarrow> real" where
  "Wdecdriven T = 40 * LSCALE T"

definition Wdec3to8n :: "tech \<Rightarrow> real" where
  "Wdec3to8n T = 14.4 * LSCALE T"

definition Wdec3to8p :: "tech \<Rightarrow> real" where
  "Wdec3to8p T = 14.4 * LSCALE T"

definition WdecNORn :: "tech \<Rightarrow> real" where
  "WdecNORn T = 5.4 * LSCALE T"

definition WdecNORp :: "tech \<Rightarrow> real" where
  "WdecNORp T = 30.5 * LSCALE T"

definition Wdecinvn :: "tech \<Rightarrow> real" where
  "Wdecinvn T = 5 * LSCALE T"

definition Wdecinvp :: "tech \<Rightarrow> real" where
  "Wdecinvp T = 10 * LSCALE T"

definition Wworddrivemax :: "tech \<Rightarrow> real" where
  "Wworddrivemax T = 100 * LSCALE T"

definition Wmemcella :: "tech \<Rightarrow> real" where
  "Wmemcella T = 2.4 * LSCALE T"

definition Wmemcellr :: "tech \<Rightarrow> real" where
  "Wmemcellr T = 4 * LSCALE T"

definition Wmemcellw :: "tech \<Rightarrow> real" where
  "Wmemcellw T = 2.1 * LSCALE T"

definition Wmemcellbscale :: "real" where
  "Wmemcellbscale = 2"

definition Wbitpreequ :: "tech \<Rightarrow> real" where
  "Wbitpreequ T = 10 * LSCALE T"

definition Wbitmuxn :: "tech \<Rightarrow> real" where
  "Wbitmuxn T = 10 * LSCALE T"

definition WsenseQ1to4 :: "tech \<Rightarrow> real" where
  "WsenseQ1to4 T = 4 * LSCALE T"

definition Wcompinvp1 :: "tech \<Rightarrow> real" where
  "Wcompinvp1 T = 10 * LSCALE T"

definition Wcompinvn1 :: "tech \<Rightarrow> real" where
  "Wcompinvn1 T = 6 * LSCALE T"

definition Wcompinvp2 :: "tech \<Rightarrow> real" where
  "Wcompinvp2 T = 20 * LSCALE T"

definition Wcompinvn2 :: "tech \<Rightarrow> real" where
  "Wcompinvn2 T = 12 * LSCALE T"

definition Wcompinvp3 :: "tech \<Rightarrow> real" where
  "Wcompinvp3 T = 40 * LSCALE T"

definition Wcompinvn3 :: "tech \<Rightarrow> real" where
  "Wcompinvn3 T = 24 * LSCALE T"

definition Wevalinvp :: "tech \<Rightarrow> real" where
  "Wevalinvp T = 20 * LSCALE T"

definition Wevalinvn :: "tech \<Rightarrow> real" where
  "Wevalinvn T = 80 * LSCALE T"

definition Wcompn :: "tech \<Rightarrow> real" where
  "Wcompn T = 20 * LSCALE T"

definition Wcompp :: "tech \<Rightarrow> real" where
  "Wcompp T = 30 * LSCALE T"

definition Wcomppreequ :: "tech \<Rightarrow> real" where
  "Wcomppreequ T = 40 * LSCALE T"

definition Wmuxdrv12n :: "tech \<Rightarrow> real" where
  "Wmuxdrv12n T = 30 * LSCALE T"

definition Wmuxdrv12p :: "tech \<Rightarrow> real" where
  "Wmuxdrv12p T = 50 * LSCALE T"

definition WmuxdrvNORn :: "tech \<Rightarrow> real" where
  "WmuxdrvNORn T = 60 * LSCALE T"

definition WmuxdrvNORp :: "tech \<Rightarrow> real" where
  "WmuxdrvNORp T = 80 * LSCALE T"

definition Wmuxdrv3n :: "tech \<Rightarrow> real" where
  "Wmuxdrv3n T = 200 * LSCALE T"

definition Wmuxdrv3p :: "tech \<Rightarrow> real" where
  "Wmuxdrv3p T = 480 * LSCALE T"

definition Woutdrvseln :: "tech \<Rightarrow> real" where
  "Woutdrvseln T = 12 * LSCALE T"

definition Woutdrvselp :: "tech \<Rightarrow> real" where
  "Woutdrvselp T = 20 * LSCALE T"

definition Woutdrvnandn :: "tech \<Rightarrow> real" where
  "Woutdrvnandn T = 24 * LSCALE T"

definition Woutdrvnandp :: "tech \<Rightarrow> real" where
  "Woutdrvnandp T = 10 * LSCALE T"

definition Woutdrvnorn :: "tech \<Rightarrow> real" where
  "Woutdrvnorn T = 6 * LSCALE T"

definition Woutdrvnorp :: "tech \<Rightarrow> real" where
  "Woutdrvnorp T = 40 * LSCALE T"

definition Woutdrivern :: "tech \<Rightarrow> real" where
  "Woutdrivern T = 48 * LSCALE T"

definition Woutdriverp :: "tech \<Rightarrow> real" where
  "Woutdriverp T = 80 * LSCALE T"

definition Wbusdrvn :: "tech \<Rightarrow> real" where
  "Wbusdrvn T = 48 * LSCALE T"

definition Wbusdrvp :: "tech \<Rightarrow> real" where
  "Wbusdrvp T = 80 * LSCALE T"

definition Wcompdrivern :: "tech \<Rightarrow> real" where
  "Wcompdrivern T = 400 * LSCALE T"

definition Wcompdriverp :: "tech \<Rightarrow> real" where
  "Wcompdriverp T = 800 * LSCALE T"

definition Wcomparen2 :: "tech \<Rightarrow> real" where
  "Wcomparen2 T = 40 * LSCALE T"

definition Wcomparen1 :: "tech \<Rightarrow> real" where
  "Wcomparen1 T = 20 * LSCALE T"

definition Wmatchpchg :: "tech \<Rightarrow> real" where
  "Wmatchpchg T = 10 * LSCALE T"

definition Wmatchnorn :: "tech \<Rightarrow> real" where
  "Wmatchnorn T = 20 * LSCALE T"

definition Wmatchnorp :: "tech \<Rightarrow> real" where
  "Wmatchnorp T = 10 * LSCALE T"

definition WSelORn :: "tech \<Rightarrow> real" where
  "WSelORn T = 10 * LSCALE T"

definition WSelORprequ :: "tech \<Rightarrow> real" where
  "WSelORprequ T = 40 * LSCALE T"

definition WSelPn :: "tech \<Rightarrow> real" where
  "WSelPn T = 10 * LSCALE T"

definition WSelPp :: "tech \<Rightarrow> real" where
  "WSelPp T = 15 * LSCALE T"

definition WSelEnn :: "tech \<Rightarrow> real" where
  "WSelEnn T = 5 * LSCALE T"

definition WSelEnp :: "tech \<Rightarrow> real" where
  "WSelEnp T = 10 * LSCALE T"

definition BitWidth :: "tech \<Rightarrow> real" where
  "BitWidth T = 16 * LSCALE T"

definition Cout :: "tech \<Rightarrow> real" where
  "Cout T = 0.5 / 10 ^ 12 * LSCALE T"

definition RatCellHeight :: "tech \<Rightarrow> real" where
  "RatCellHeight T = 40 * LSCALE T"

definition BitlineSpacing :: "tech \<Rightarrow> real" where
  "BitlineSpacing T = 6 * LSCALE T"

definition WordlineSpacing :: "tech \<Rightarrow> real" where
  "WordlineSpacing T = 6 * LSCALE T"

definition RegCellHeight :: "tech \<Rightarrow> real" where
  "RegCellHeight T = 16 * LSCALE T"

definition RegCellWidth :: "tech \<Rightarrow> real" where
  "RegCellWidth T = 8 * LSCALE T"

definition CamCellHeight :: "tech \<Rightarrow> real" where
  "CamCellHeight T = 40 * LSCALE T"

definition CamCellWidth :: "tech \<Rightarrow> real" where
  "CamCellWidth T = 25 * LSCALE T"

definition MatchlineSpacing :: "tech \<Rightarrow> real" where
  "MatchlineSpacing T = 6 * LSCALE T"

definition TaglineSpacing :: "tech \<Rightarrow> real" where
  "TaglineSpacing T = 6 * LSCALE T"

definition CrsbarCellHeight :: "tech \<Rightarrow> real" where
  "CrsbarCellHeight T = 6 * LSCALE T"

definition CrsbarCellWidth :: "tech \<Rightarrow> real" where
  "CrsbarCellWidth T = 6 * LSCALE T"

definition POWER_SCALE :: "tech \<Rightarrow> real" where
  "POWER_SCALE T = GEN_POWER_SCALE T * PARM_NORMALIZE_SCALE * Powerfactor T"

definition I_ADD :: "tech \<Rightarrow> real" where
  "I_ADD T = (0.37 - 0.091) * POWER_SCALE T"

definition F_ADD :: "tech \<Rightarrow> real" where
  "F_ADD T = (1.307 - 0.452) * POWER_SCALE T"

definition I_ADD_CLOCK :: "tech \<Rightarrow> real" where
  "I_ADD_CLOCK T = 0.091 * POWER_SCALE T"

definition F_ADD_CLOCK :: "tech \<Rightarrow> real" where
  "F_ADD_CLOCK T = 0.452 * POWER_SCALE T"

section \<open>Capacitance, resistance and delay of a gate\<close>

text \<open>The build leaves \<^verbatim>\<open>Pdelta_w\<close> undefined, so the branches it guards are not compiled.\<close>

definition SIM_power_gatecap :: "tech \<Rightarrow> real \<Rightarrow> real \<Rightarrow> real" where
  "SIM_power_gatecap T width wirelength = width * Leff T * PARM_Cgate + wirelength * Cpolywire T * Leff T"

definition SIM_power_gatecappass :: "tech \<Rightarrow> real \<Rightarrow> real \<Rightarrow> real" where
  "SIM_power_gatecappass T width wirelength = SIM_power_gatecap T width wirelength"

definition SIM_power_draincap :: "tech \<Rightarrow> real \<Rightarrow> int \<Rightarrow> int \<Rightarrow> real" where
  "SIM_power_draincap T width nchannel stack =
     (let Cdiffside = (if nchannel \<noteq> 0 then PARM_Cndiffside else PARM_Cpdiffside);
          Cdiffarea = (if nchannel \<noteq> 0 then PARM_Cndiffarea else PARM_Cpdiffarea);
          Coverlap = (if nchannel \<noteq> 0 then PARM_Cndiffovlp + PARM_Cnoxideovlp
                      else PARM_Cpdiffovlp + PARM_Cpoxideovlp)
      in if width \<ge> 10
         then 3 * Leff T * width / 2 * Cdiffarea + 6 * Leff T * Cdiffside + width * Coverlap
              + real_of_int (stack - 1)
                * (Leff T * width * Cdiffarea + 4 * Leff T * Cdiffside + 2 * width * Coverlap)
         else 3 * Leff T * width * Cdiffarea + (6 * Leff T + width) * Cdiffside + width * Coverlap
              + real_of_int (stack - 1)
                * (Leff T * width * Cdiffarea + 2 * Leff T * Cdiffside + 2 * width * Coverlap))"

definition SIM_power_transresswitch :: "tech \<Rightarrow> real \<Rightarrow> int \<Rightarrow> int \<Rightarrow> real" where
  "SIM_power_transresswitch T width nchannel stack =
     (let restrans = (if nchannel \<noteq> 0 then Rnchannelstatic T else Rpchannelstatic T)
      in (1 + (real_of_int stack - 1) * 0.8) * restrans / width)"

definition SIM_power_transreson :: "tech \<Rightarrow> real \<Rightarrow> int \<Rightarrow> int \<Rightarrow> real" where
  "SIM_power_transreson T width nchannel stack =
     (let restrans = (if nchannel \<noteq> 0 then Rnchannelon T else Rpchannelon T)
      in real_of_int stack * restrans / width)"

definition SIM_power_restowidth :: "tech \<Rightarrow> real \<Rightarrow> int \<Rightarrow> real" where
  "SIM_power_restowidth T res nchannel =
     (let restrans = (if nchannel \<noteq> 0 then Rnchannelon T else Rpchannelon T)
      in restrans / res)"

definition SIM_power_horowitz :: "real \<Rightarrow> real \<Rightarrow> real \<Rightarrow> real \<Rightarrow> int \<Rightarrow> real" where
  "SIM_power_horowitz inputramptime tf vs1 vs2 rise =
     (let a = inputramptime / tf
      in if rise = RISE
         then (let b = 0.5
               in tf * sqrt \<bar>ln vs1 * ln vs1 + 2 * a * b * (1 - vs1)\<bar> + tf * (ln vs1 - ln vs2))
         else (let b = 0.4
               in tf * sqrt \<bar>ln (1 - vs1) * ln (1 - vs1) + 2 * a * b * vs1\<bar>
                  + tf * (ln (1 - vs1) - ln (1 - vs2))))"

text \<open>The driver size of \<^verbatim>\<open>SIM_power_util.c\<close>; the n-channel size it also computes is not used.\<close>

definition SIM_power_driver_size :: "tech \<Rightarrow> real \<Rightarrow> real \<Rightarrow> real" where
  "SIM_power_driver_size T driving_cap desiredrisetime =
     (let Rpdrive = desiredrisetime / (driving_cap * ln PARM_VSINV * - 1);
          psize = SIM_power_restowidth T Rpdrive PCH;
          psize = (if psize > Wworddrivemax T then Wworddrivemax T else psize)
      in if psize < 4 * LSCALE T then 4 * LSCALE T else psize)"

section \<open>Positivity of the constants\<close>

lemma parm_pos [simp]:
  "0 < PARM_AF" "0 < PARM_VTHOUTDRNOR" "0 < PARM_VTHCOMPINV" "0 < PARM_Cndiffside" "0 < PARM_VSINV" "0 < PARM_amp_Idsat"
  "0 < PARM_Cpdiffovlp" "0 < PARM_Cgatepass" "0 < PARM_Cpdiffarea" "0 < PARM_GEN_POWER_FACTOR"
  "0 < PARM_VTHNAND60x90" "0 < PARM_Cpdiffside" "0 < PARM_Cpoxideovlp" "0 < PARM_FUDGEFACTOR"
  "0 < PARM_Cndiffovlp" "0 < PARM_VTHOUTDRIVE" "0 < PARM_Cndiffarea" "0 < PARM_VTHMUXDRV1"
  "0 < PARM_VTHMUXDRV2" "0 < PARM_NORMALIZE_SCALE" "0 < PARM_VTHMUXDRV3" "0 < PARM_Cgate"
  "0 < PARM_VTHNOR12x4x1" "0 < PARM_VTHNOR12x4x2" "0 < PARM_VTHOUTDRINV" "0 < PARM_VTHNOR12x4x3"
  "0 < PARM_VTHEVALINV" "0 < PARM_VTHNOR12x4x4" "0 < PARM_Cnoxideovlp" "0 < PARM_VTHOUTDRNAND"
  "0 < PARM_VTHINV100x60"
  by (simp_all add: PARM_AF_def PARM_VTHOUTDRNOR_def PARM_VTHCOMPINV_def PARM_Cndiffside_def
      PARM_VSINV_def PARM_amp_Idsat_def PARM_Cpdiffovlp_def PARM_Cgatepass_def PARM_Cpdiffarea_def
      PARM_GEN_POWER_FACTOR_def PARM_VTHNAND60x90_def PARM_Cpdiffside_def PARM_Cpoxideovlp_def
      PARM_FUDGEFACTOR_def PARM_Cndiffovlp_def PARM_VTHOUTDRIVE_def PARM_Cndiffarea_def
      PARM_VTHMUXDRV1_def PARM_VTHMUXDRV2_def PARM_NORMALIZE_SCALE_def PARM_VTHMUXDRV3_def
      PARM_Cgate_def PARM_VTHNOR12x4x1_def PARM_VTHNOR12x4x2_def PARM_VTHOUTDRINV_def
      PARM_VTHNOR12x4x3_def PARM_VTHEVALINV_def PARM_VTHNOR12x4x4_def PARM_Cnoxideovlp_def
      PARM_VTHOUTDRNAND_def PARM_VTHINV100x60_def)

lemma parm_int_pos [simp]:
  "0 < PARM_MAXN" "0 < PARM_MAXSUBARRAYS" "0 < PARM_MAXSPD" "0 < PARM_res_fpalu" "0 < PARM_BITOUT"
  "0 < PARM_ruu_decode_width" "0 < PARM_ruu_issue_width" "0 < PARM_opcode_length" "0 < PARM_inst_length"
  "0 < PARM_ADDRESS_BITS" "0 < PARM_RUU_size" "0 < PARM_res_ialu"
  by (simp_all add: PARM_MAXN_def PARM_MAXSUBARRAYS_def PARM_MAXSPD_def PARM_res_fpalu_def
      PARM_BITOUT_def PARM_ruu_decode_width_def PARM_ruu_issue_width_def PARM_opcode_length_def
      PARM_inst_length_def PARM_ADDRESS_BITS_def PARM_RUU_size_def PARM_res_ialu_def)

lemma scale_pos [simp]:
  "0 < CSCALE T" "0 < RSCALE T" "0 < LSCALE T" "0 < VSCALE T" "0 < VTSCALE T" "0 < SSCALE T"
  "0 < MCSCALE T" "0 < MCSCALE2 T" "0 < MCSCALE3 T" "0 < GEN_POWER_SCALE T" "0 < ASCALE T"
  by (simp_all add: CSCALE_def RSCALE_def LSCALE_def VSCALE_def VTSCALE_def SSCALE_def MCSCALE_def
      MCSCALE2_def MCSCALE3_def GEN_POWER_SCALE_def ASCALE_def)

lemma tech_pos [simp]:
  "0 < MSCALE T" "0 < Cwordmetal T" "0 < Cbitmetal T" "0 < Cmetal T" "0 < CM2metal T" "0 < CM3metal T"
  "0 < CCmetal T" "0 < CC2metal T" "0 < CC3metal T" "0 < CC3M2metal T" "0 < CC3M3metal T" "0 < Leff T"
  "0 < Lamda T" "0 < Cpolywire T" "0 < Rnchannelstatic T" "0 < Rpchannelstatic T" "0 < Rnchannelon T"
  "0 < Rpchannelon T" "0 < Rbitmetal T" "0 < Rwordmetal T" "0 < krise T" "0 < tsensedata T"
  "0 < tsensetag T" "0 < tfalldata T" "0 < tfalltag T" "0 < Vbitpre T" "0 < Vt T" "0 < Vbitsense T"
  "0 < Wdecdrivep T" "0 < Wdecdriven T" "0 < Wdec3to8n T" "0 < Wdec3to8p T" "0 < WdecNORn T"
  "0 < WdecNORp T" "0 < Wdecinvn T" "0 < Wdecinvp T" "0 < Wworddrivemax T" "0 < Wmemcella T"
  "0 < Wmemcellr T" "0 < Wmemcellw T" "0 < Wbitpreequ T" "0 < Wbitmuxn T" "0 < WsenseQ1to4 T"
  "0 < Wcompinvp1 T" "0 < Wcompinvn1 T" "0 < Wcompinvp2 T" "0 < Wcompinvn2 T" "0 < Wcompinvp3 T"
  "0 < Wcompinvn3 T" "0 < Wevalinvp T" "0 < Wevalinvn T" "0 < Wcompn T" "0 < Wcompp T"
  "0 < Wcomppreequ T" "0 < Wmuxdrv12n T" "0 < Wmuxdrv12p T" "0 < WmuxdrvNORn T" "0 < WmuxdrvNORp T"
  "0 < Wmuxdrv3n T" "0 < Wmuxdrv3p T" "0 < Woutdrvseln T" "0 < Woutdrvselp T" "0 < Woutdrvnandn T"
  "0 < Woutdrvnandp T" "0 < Woutdrvnorn T" "0 < Woutdrvnorp T" "0 < Woutdrivern T" "0 < Woutdriverp T"
  "0 < Wbusdrvn T" "0 < Wbusdrvp T" "0 < Wcompdrivern T" "0 < Wcompdriverp T" "0 < Wcomparen2 T"
  "0 < Wcomparen1 T" "0 < Wmatchpchg T" "0 < Wmatchnorn T" "0 < Wmatchnorp T" "0 < WSelORn T"
  "0 < WSelORprequ T" "0 < WSelPn T" "0 < WSelPp T" "0 < WSelEnn T" "0 < WSelEnp T" "0 < BitWidth T"
  "0 < Cout T" "0 < RatCellHeight T" "0 < BitlineSpacing T" "0 < WordlineSpacing T"
  "0 < RegCellHeight T" "0 < RegCellWidth T" "0 < CamCellHeight T" "0 < CamCellWidth T"
  "0 < MatchlineSpacing T" "0 < TaglineSpacing T" "0 < CrsbarCellHeight T" "0 < CrsbarCellWidth T"
  by (simp_all add: MSCALE_def Cwordmetal_def Cbitmetal_def Cmetal_def CM2metal_def CM3metal_def
      CCmetal_def CC2metal_def CC3metal_def CC3M2metal_def CC3M3metal_def Leff_def Lamda_def
      Cpolywire_def Rnchannelstatic_def Rpchannelstatic_def Rnchannelon_def Rpchannelon_def
      Rbitmetal_def Rwordmetal_def krise_def tsensedata_def tsensetag_def tfalldata_def
      tfalltag_def Vbitpre_def Vt_def Vbitsense_def Wdecdrivep_def Wdecdriven_def Wdec3to8n_def
      Wdec3to8p_def WdecNORn_def WdecNORp_def Wdecinvn_def Wdecinvp_def Wworddrivemax_def
      Wmemcella_def Wmemcellr_def Wmemcellw_def Wbitpreequ_def Wbitmuxn_def WsenseQ1to4_def
      Wcompinvp1_def Wcompinvn1_def Wcompinvp2_def Wcompinvn2_def Wcompinvp3_def Wcompinvn3_def
      Wevalinvp_def Wevalinvn_def Wcompn_def Wcompp_def Wcomppreequ_def Wmuxdrv12n_def
      Wmuxdrv12p_def WmuxdrvNORn_def WmuxdrvNORp_def Wmuxdrv3n_def Wmuxdrv3p_def Woutdrvseln_def
      Woutdrvselp_def Woutdrvnandn_def Woutdrvnandp_def Woutdrvnorn_def Woutdrvnorp_def
      Woutdrivern_def Woutdriverp_def Wbusdrvn_def Wbusdrvp_def Wcompdrivern_def Wcompdriverp_def
      Wcomparen2_def Wcomparen1_def Wmatchpchg_def Wmatchnorn_def Wmatchnorp_def WSelORn_def
      WSelORprequ_def WSelPn_def WSelPp_def WSelEnn_def WSelEnp_def BitWidth_def Cout_def
      RatCellHeight_def BitlineSpacing_def WordlineSpacing_def RegCellHeight_def RegCellWidth_def
      CamCellHeight_def CamCellWidth_def MatchlineSpacing_def TaglineSpacing_def
      CrsbarCellHeight_def CrsbarCellWidth_def)

lemmas tech_nonneg [simp] = tech_pos [THEN less_imp_le] scale_pos [THEN less_imp_le] parm_pos [THEN less_imp_le]

lemmas tech_neq_0 [simp] = tech_pos [THEN less_imp_neq, THEN not_sym] scale_pos [THEN less_imp_neq, THEN not_sym]

lemma EnergyFactor_nonneg [simp]: "0 \<le> EnergyFactor T" "0 \<le> SenseEnergyFactor T"
  by (simp_all add: EnergyFactor_def SenseEnergyFactor_def)

section \<open>Capacitances, resistances and gate delays are positive\<close>

lemma gatecap_nonneg [simp]: "0 \<le> width \<Longrightarrow> 0 \<le> wirelength \<Longrightarrow> 0 \<le> SIM_power_gatecap T width wirelength"
  by (simp add: SIM_power_gatecap_def less_imp_le)

lemma gatecap_pos [simp]: "0 < width \<Longrightarrow> 0 \<le> wirelength \<Longrightarrow> 0 < SIM_power_gatecap T width wirelength"
  by (simp add: SIM_power_gatecap_def add_pos_nonneg less_imp_le)

lemma gatecappass_nonneg [simp]: "0 \<le> width \<Longrightarrow> 0 \<le> wirelength \<Longrightarrow> 0 \<le> SIM_power_gatecappass T width wirelength"
  by (simp add: SIM_power_gatecappass_def)

lemma gatecappass_pos [simp]: "0 < width \<Longrightarrow> 0 \<le> wirelength \<Longrightarrow> 0 < SIM_power_gatecappass T width wirelength"
  by (simp add: SIM_power_gatecappass_def)

lemma draincap_pos [simp]: "0 < width \<Longrightarrow> 1 \<le> stack \<Longrightarrow> 0 < SIM_power_draincap T width nchannel stack"
  unfolding SIM_power_draincap_def Let_def
  by (auto intro!: add_pos_nonneg add_nonneg_nonneg mult_pos_pos mult_nonneg_nonneg divide_pos_pos)

lemma transreson_pos [simp]: "0 < width \<Longrightarrow> 1 \<le> stack \<Longrightarrow> 0 < SIM_power_transreson T width nchannel stack"
  by (simp add: SIM_power_transreson_def)

lemma transresswitch_pos [simp]: "0 < width \<Longrightarrow> 1 \<le> stack \<Longrightarrow> 0 < SIM_power_transresswitch T width nchannel stack"
  by (auto simp: SIM_power_transresswitch_def Let_def intro!: divide_pos_pos mult_pos_pos add_pos_nonneg)

section \<open>Resistance and width\<close>

lemma restowidth_inverse: "width \<noteq> 0 \<Longrightarrow> SIM_power_restowidth T (SIM_power_transreson T width nchannel 1) nchannel = width"
  by (simp add: SIM_power_restowidth_def SIM_power_transreson_def Let_def)

lemma transreson_inverse: "res \<noteq> 0 \<Longrightarrow> SIM_power_transreson T (SIM_power_restowidth T res nchannel) nchannel 1 = res"
  by (simp add: SIM_power_restowidth_def SIM_power_transreson_def Let_def)

lemma driver_size_bounds:
  "4 * LSCALE T \<le> SIM_power_driver_size T c t \<and> SIM_power_driver_size T c t \<le> 100 * LSCALE T"
  using scale_pos(3) [of T] by (simp add: SIM_power_driver_size_def Let_def Wworddrivemax_def)

lemma driver_size_pos [simp]: "0 < SIM_power_driver_size T c t"
  using driver_size_bounds [of T c t] scale_pos(3) [of T] by linarith

lemma driver_size_meets:
  assumes "0 < c" and "0 < t" 
   and "4 * LSCALE T \<le> SIM_power_restowidth T (t / (c * - ln PARM_VSINV)) PCH"
   and "SIM_power_restowidth T (t / (c * - ln PARM_VSINV)) PCH \<le> Wworddrivemax T"
  shows "SIM_power_transreson T (SIM_power_driver_size T c t) PCH 1 * c * - ln PARM_VSINV = t"
proof -
  have "ln PARM_VSINV < 0" by (simp add: PARM_VSINV_def)
  then have n0: "t / (c * - ln PARM_VSINV) \<noteq> 0" using assms by simp
  have "SIM_power_driver_size T c t = SIM_power_restowidth T (t / (c * - ln PARM_VSINV)) PCH"
    using assms(3,4) by (simp add: SIM_power_driver_size_def Let_def)
  then have "SIM_power_transreson T (SIM_power_driver_size T c t) PCH 1 = t / (c * - ln PARM_VSINV)"
    using transreson_inverse [OF n0] by simp
  then show ?thesis using assms(1) \<open>ln PARM_VSINV < 0\<close> by simp
qed

section \<open>The gate delay\<close>

lemma horowitz_lower:
  assumes "0 \<le> inputramptime" "0 < tf" "0 < vs1" "vs1 < 1"
  shows "tf * (if rise = RISE then - ln vs2 else - ln (1 - vs2)) \<le> SIM_power_horowitz inputramptime tf vs1 vs2 rise"
proof -
  define a where "a = inputramptime / tf"
  have a: "0 \<le> a" using assms by (simp add: a_def)
  have s: "- ln v \<le> sqrt \<bar>ln v * ln v + d\<bar>" if "0 < v" "v < 1" "0 \<le> d" for v d :: real
  proof -
    have "(- ln v)\<^sup>2 \<le> \<bar>ln v * ln v + d\<bar>" using that by (simp add: power2_eq_square)
    then show ?thesis by (rule real_le_rsqrt)
  qed
  have r: "- ln vs1 \<le> sqrt \<bar>ln vs1 * ln vs1 + 2 * a * 0.5 * (1 - vs1)\<bar>"
    using assms a by (intro s) auto
  have f: "- ln (1 - vs1) \<le> sqrt \<bar>ln (1 - vs1) * ln (1 - vs1) + 2 * a * 0.4 * vs1\<bar>"
    using assms a by (intro s) auto
  show ?thesis unfolding SIM_power_horowitz_def Let_def a_def [symmetric]
    using mult_left_mono [OF r, of tf] mult_left_mono [OF f, of tf] assms(2) by (auto simp: algebra_simps)
qed

lemma horowitz_pos [simp]:
  assumes "0 \<le> inputramptime" "0 < tf" "0 < vs1" "vs1 < 1" "0 < vs2" "vs2 < 1"
  shows "0 < SIM_power_horowitz inputramptime tf vs1 vs2 rise"
proof -
  have "0 < tf * (if rise = RISE then - ln vs2 else - ln (1 - vs2))" using assms by simp
  then show ?thesis using horowitz_lower [OF assms(1-4), of rise vs2] by linarith
qed

lemma draincap_mono_stack:
  "0 < width \<Longrightarrow> s \<le> s' \<Longrightarrow> SIM_power_draincap T width n s \<le> SIM_power_draincap T width n s'"
  unfolding SIM_power_draincap_def Let_def
  by (auto intro!: mult_right_mono add_nonneg_nonneg mult_nonneg_nonneg simp: less_imp_le)

section \<open>Properties\<close>

text \<open>
  Finding the width that has a given on-resistance is the inverse of finding the
  on-resistance of a width, for either channel type and every technology point.
\<close>

theorem SIM_power_restowidth_inverse:
  "width \<noteq> 0 \<Longrightarrow> res \<noteq> 0 \<Longrightarrow>
   SIM_power_restowidth T (SIM_power_transreson T width nchannel 1) nchannel = width
   \<and> SIM_power_transreson T (SIM_power_restowidth T res nchannel) nchannel 1 = res"
  by (simp add: restowidth_inverse transreson_inverse)

theorem SIM_power_restowidth_inverse_witness:
  "SIM_power_restowidth build_tech (SIM_power_transreson build_tech 10 NCH 1) NCH = 10
   \<and> SIM_power_transreson build_tech (SIM_power_restowidth build_tech 5 NCH) NCH 1 = 5"
  using SIM_power_restowidth_inverse [of 10 5 build_tech NCH] by simp

text \<open>
  The sized driver is always between 4 and 100 length units, and whenever the width
  asked for by the load is inside that range, the driver charges the load to the
  switching threshold in exactly the desired rise time.
\<close>

theorem SIM_power_driver_size_meets:
  "4 * LSCALE T \<le> SIM_power_driver_size T c t \<and> SIM_power_driver_size T c t \<le> 100 * LSCALE T
   \<and> (0 < c \<and> 0 < t \<and> 4 * LSCALE T \<le> SIM_power_restowidth T (t / (c * - ln PARM_VSINV)) PCH
        \<and> SIM_power_restowidth T (t / (c * - ln PARM_VSINV)) PCH \<le> Wworddrivemax T
      \<longrightarrow> SIM_power_transreson T (SIM_power_driver_size T c t) PCH 1 * c * - ln PARM_VSINV = t)"
  using driver_size_bounds driver_size_meets by blast

theorem SIM_power_driver_size_meets_witness:
  "SIM_power_transreson build_tech (SIM_power_driver_size build_tech 1 (2240 * - ln PARM_VSINV)) PCH 1
     * 1 * - ln PARM_VSINV = 2240 * - ln PARM_VSINV"
proof -
  have "ln PARM_VSINV < 0" by (simp add: PARM_VSINV_def)
  then show ?thesis
    using SIM_power_driver_size_meets [of build_tech 1 "2240 * - ln PARM_VSINV"]
    by (simp add: SIM_power_restowidth_def Rpchannelon_def PCH_def Wworddrivemax_def build_tech_def LSCALE_def)
qed

text \<open>
  The gate delay is at least the intrinsic delay of the gate's time constant towards the
  output threshold, so it is positive for thresholds strictly inside the supply range and any
  non-negative input ramp.
\<close>

theorem SIM_power_horowitz_positive:
  "0 \<le> inputramptime \<Longrightarrow> 0 < tf \<Longrightarrow> 0 < vs1 \<Longrightarrow> vs1 < 1 \<Longrightarrow> 0 < vs2 \<Longrightarrow> vs2 < 1 \<Longrightarrow>
   tf * (if rise = RISE then - ln vs2 else - ln (1 - vs2)) \<le> SIM_power_horowitz inputramptime tf vs1 vs2 rise
   \<and> 0 < SIM_power_horowitz inputramptime tf vs1 vs2 rise"
  using horowitz_lower horowitz_pos by blast

theorem SIM_power_horowitz_positive_witness:
  "0 < SIM_power_horowitz 1 1 (1 / 2) (1 / 2) RISE"
  using SIM_power_horowitz_positive [of 1 1 "1 / 2" "1 / 2" RISE] by simp

end
