(* ===== verification/Orion_Meter.thy ===== *)
theory Orion_Meter
  imports Orion_Util "HOL-Library.Multiset"
begin

text \<open>
  The contract every Orion statistics object follows. An object keeps 64-bit event counters and one
  energy per counter; recording an event adds to the counters, reporting weighs them. The locale
  \<open>energy_meter\<close> states this interface once, with what its clients rely on: a sequence of recorded
  events is reported as the sum of the energies of the events, in whatever order they happened, as
  long as no counter wraps. \<open>clearable_meter\<close> adds the operation that resets the counters.
\<close>

section \<open>Weighted counters\<close>

definition energy :: "real list \<Rightarrow> u64 list \<Rightarrow> real" where
  "energy ws cs = sum_list (map2 (\<lambda>w c. dbl64 c * w) ws cs)"

definition bump :: "u64 list \<Rightarrow> u64 list \<Rightarrow> u64 list" where
  "bump cs ds = map2 (+) cs ds"

definition no_wrap :: "u64 list \<Rightarrow> u64 list \<Rightarrow> bool" where
  "no_wrap cs ds \<longleftrightarrow> list_all2 (\<lambda>c d. unat c + unat d < 2 ^ 64) cs ds"

fun run :: "('e \<Rightarrow> 's \<Rightarrow> 's option) \<Rightarrow> 'e list \<Rightarrow> 's \<Rightarrow> 's option" where
  "run step [] s = Some s"
| "run step (e # es) s = (case step e s of None \<Rightarrow> None | Some s' \<Rightarrow> run step es s')"

text \<open>The running sums of the increments stay in range.\<close>

fun no_wrap_run :: "u64 list \<Rightarrow> u64 list list \<Rightarrow> bool" where
  "no_wrap_run cs [] \<longleftrightarrow> True"
| "no_wrap_run cs (d # ds) \<longleftrightarrow> no_wrap cs d \<and> no_wrap_run (bump cs d) ds"

lemma run_append: "run step (xs @ ys) s = (case run step xs s of None \<Rightarrow> None | Some s' \<Rightarrow> run step ys s')"
  by (induction xs arbitrary: s) (auto split: option.splits)

lemma bump_commute: "bump (bump cs d) e = bump (bump cs e) d"
  unfolding bump_def by (intro nth_equalityI) (auto simp: ac_simps)

lemma bump_Nil [simp]: "bump [] ds = []" "bump cs [] = []"
  by (simp_all add: bump_def)

lemma length_bump [simp]: "length (bump cs ds) = min (length cs) (length ds)"
  by (simp add: bump_def)

lemma energy_Nil [simp]: "energy [] cs = 0" "energy ws [] = 0"
  by (simp_all add: energy_def)

lemma energy_Cons [simp]: "energy (w # ws) (c # cs) = dbl64 c * w + energy ws cs"
  by (simp add: energy_def)

lemma energy_append:
  "length ws = length cs \<Longrightarrow> energy (ws @ ws') (cs @ cs') = energy ws cs + energy ws' cs'"
  by (simp add: energy_def)

lemma energy_zero [simp]: "energy ws (replicate n 0) = 0"
proof (induction n arbitrary: ws)
  case (Suc n) then show ?case by (cases ws) auto
qed simp

lemma energy_nonneg: "\<forall>w \<in> set ws. 0 \<le> w \<Longrightarrow> 0 \<le> energy ws cs"
  unfolding energy_def by (intro sum_list_nonneg) (auto intro!: mult_nonneg_nonneg dest: set_zip_leftD)

lemma energy_bump:
  assumes "no_wrap cs ds"
  shows "energy ws (bump cs ds) = energy ws cs + energy ws ds"
  using assms unfolding no_wrap_def
proof (induction cs ds arbitrary: ws rule: list_all2_induct)
  case (Cons c cs d ds)
  then have "dbl64 (c + d) = dbl64 c + dbl64 d" by (simp add: unat_add_no_overflow)
  with Cons.IH show ?case by (cases ws) (simp_all add: bump_def distrib_right)
qed (simp add: bump_def)

lemma foldl_bump_mset:
  assumes "mset ds = mset ds'"
  shows "foldl bump cs ds = foldl bump cs ds'"
proof -
  have "fold (\<lambda>d c. bump c d) ds = fold (\<lambda>d c. bump c d) ds'"
  proof (rule fold_multiset_equiv [OF _ assms])
    show "(\<lambda>c. bump c x) \<circ> (\<lambda>c. bump c y) = (\<lambda>c. bump c y) \<circ> (\<lambda>c. bump c x)" for x y
      unfolding comp_def by (rule ext) (rule bump_commute)
  qed
  then show ?thesis by (simp add: foldl_conv_fold)
qed

lemma no_wrap_zero [simp]: "no_wrap (replicate n 0) ds \<longleftrightarrow> length ds = n"
proof -
  have "unat (d :: u64) < 2 ^ 64" for d using unsigned_less [of d, where 'a = nat] by simp
  then show ?thesis by (auto simp: no_wrap_def list_all2_conv_all_nth)
qed

lemma energy_take:
  "n \<le> length ws \<Longrightarrow> n \<le> length cs \<Longrightarrow> energy (take n ws) (take n cs) = (\<Sum>i\<leftarrow>[0..<n]. dbl64 (cs ! i) * ws ! i)"
proof -
  assume "n \<le> length ws" "n \<le> length cs"
  then have "map2 (\<lambda>w c. dbl64 c * w) (take n ws) (take n cs) = map (\<lambda>i. dbl64 (cs ! i) * ws ! i) [0..<n]"
    by (intro nth_equalityI) auto
  then show ?thesis by (simp add: energy_def)
qed

lemma bump_Cons [simp]: "bump (c # cs) (d # ds) = (c + d) # bump cs ds"
  by (simp add: bump_def)

lemma bump_zero: "length ds = length cs \<Longrightarrow> \<forall>d \<in> set ds. d = 0 \<Longrightarrow> bump cs ds = cs"
  by (intro nth_equalityI) (auto simp: bump_def)

section \<open>The interface\<close>

locale energy_meter =
  fixes step :: "'e \<Rightarrow> 's \<Rightarrow> 's option"
    and report :: "'s \<Rightarrow> real"
    and counters :: "'s \<Rightarrow> u64 list"
    and weights :: "'s \<Rightarrow> real list"
    and incs :: "'s \<Rightarrow> 'e \<Rightarrow> u64 list"
    and valid :: "'s \<Rightarrow> 'e \<Rightarrow> bool"
    and wf :: "'s \<Rightarrow> bool"
  assumes report_energy: "wf s \<Longrightarrow> report s = energy (weights s) (counters s)"
    and step_valid: "wf s \<Longrightarrow> valid s e \<Longrightarrow> \<exists>s'. step e s = Some s' \<and> wf s'
          \<and> counters s' = bump (counters s) (incs s e)
          \<and> weights s' = weights s \<and> incs s' = incs s \<and> valid s' = valid s"
begin

text \<open>Recording a sequence of valid events succeeds and adds up their increments.\<close>

lemma run_counters:
  "wf s \<Longrightarrow> \<forall>e \<in> set es. valid s e \<Longrightarrow>
   \<exists>s'. run step es s = Some s' \<and> wf s' \<and> counters s' = foldl bump (counters s) (map (incs s) es)
      \<and> weights s' = weights s"
proof (induction es arbitrary: s)
  case (Cons e es)
  then obtain s' where s': "step e s = Some s'" "wf s'" "counters s' = bump (counters s) (incs s e)"
      "weights s' = weights s" "incs s' = incs s" "valid s' = valid s"
    using step_valid [of s e] by auto
  then have "\<forall>e \<in> set es. valid s' e" using Cons.prems by simp
  from Cons.IH [OF s'(2) this] show ?case using s' by auto
qed simp

text \<open>The report depends on which events were recorded, not on their order.\<close>

lemma run_order_irrelevant:
  assumes "wf s" and "\<forall>e \<in> set es. valid s e" and "mset es = mset es'"
  shows "\<exists>s1 s2. run step es s = Some s1 \<and> run step es' s = Some s2 \<and> report s1 = report s2"
proof -
  have "\<forall>e \<in> set es'. valid s e" using assms by (metis set_mset_mset)
  then obtain s2 where 2: "run step es' s = Some s2" "wf s2" "weights s2 = weights s"
      "counters s2 = foldl bump (counters s) (map (incs s) es')"
    using run_counters assms(1) by blast
  obtain s1 where 1: "run step es s = Some s1" "wf s1" "weights s1 = weights s"
      "counters s1 = foldl bump (counters s) (map (incs s) es)"
    using run_counters [OF assms(1,2)] by blast
  have "mset (map (incs s) es) = mset (map (incs s) es')" using assms(3) by simp
  then have "counters s1 = counters s2" unfolding 1(4) 2(4) by (rule foldl_bump_mset)
  then show ?thesis using 1 2 by (simp add: report_energy)
qed

text \<open>Without wrap-around the report grows by the energy of each event.\<close>

lemma foldl_bump_energy:
  "no_wrap_run cs ds \<Longrightarrow> energy ws (foldl bump cs ds) = energy ws cs + sum_list (map (energy ws) ds)"
  by (induction ds arbitrary: cs) (auto simp: energy_bump)

lemma run_energy:
  assumes "wf s" and "\<forall>e \<in> set es. valid s e" and "no_wrap_run (counters s) (map (incs s) es)"
  shows "\<exists>s'. run step es s = Some s'
    \<and> report s' = report s + sum_list (map (\<lambda>e. energy (weights s) (incs s e)) es)"
  using run_counters [OF assms(1,2)] foldl_bump_energy [OF assms(3), of "weights s"] assms(1)
  by (auto simp: report_energy comp_def)

end

locale clearable_meter = energy_meter +
  fixes clear :: "'s \<Rightarrow> 's"
  assumes clear_wf: "wf s \<Longrightarrow> wf (clear s)"
    and clear_counters: "counters (clear s) = replicate (length (counters s)) 0"
    and clear_keeps: "weights (clear s) = weights s" "incs (clear s) = incs s" "valid (clear s) = valid s"
begin

lemma report_clear: "wf s \<Longrightarrow> report (clear s) = 0"
  by (simp add: report_energy clear_wf clear_counters clear_keeps)

text \<open>After a reset the report is exactly the energy of the events recorded since.\<close>

lemma run_after_clear:
  assumes "wf s" and "\<forall>e \<in> set es. valid s e"
    and "no_wrap_run (replicate (length (counters s)) 0) (map (incs s) es)"
  shows "\<exists>s'. run step es (clear s) = Some s'
    \<and> report s' = sum_list (map (\<lambda>e. energy (weights s) (incs s e)) es)"
  using run_energy [of "clear s" es] assms by (simp add: report_clear clear_wf clear_counters clear_keeps)

end

end
