(* ===== verification/Orion_Misc.thy ===== *)
theory Orion_Misc
  imports Orion_Tech Orion_Meter
begin

text \<open>
  The small Orion components of \<^verbatim>\<open>SIM_power_misc.c\<close>: the instruction selection arbiter, the data bus
  with its three encodings and the flip-flop. Selection arbiter, bus and flip-flop follow the meter
  contract; the bus-inversion encoder is shown to be decodable and to bound the switching per group.
\<close>

section \<open>Instruction selection logic\<close>

definition GENERIC_SEL :: int where
  "GENERIC_SEL = 1"

definition SEL_MAX_MODEL :: int where
  "SEL_MAX_MODEL = 2"

definition MAX_SEL_LEVEL :: nat where
  "MAX_SEL_LEVEL = 5"

record SIM_power_sel_t =
  sel_model :: int
  sel_width :: u32
  sel_n_anyreq :: u64
  sel_n_chgreq :: u64
  sel_n_grant :: u64
  sel_n_enc :: "u64 list"
  sel_e_anyreq :: real
  sel_e_chgreq :: real
  sel_e_grant :: real
  sel_e_enc :: "real list"

definition SIM_iwin_sel_anyreq_cap :: "tech \<Rightarrow> u32 \<Rightarrow> real" where
  "SIM_iwin_sel_anyreq_cap T width =
     SIM_power_draincap T (WSelORprequ T) PCH 1
     + dbl32 width * SIM_power_draincap T (WSelORn T) NCH 1
     + (SIM_power_draincap T (Wdecinvn T) NCH 1 + SIM_power_draincap T (Wdecinvp T) PCH 1
        + SIM_power_gatecap T (Wdecinvn T + Wdecinvp T) 1)"

definition SIM_iwin_sel_chgreq_cap :: "tech \<Rightarrow> real" where
  "SIM_iwin_sel_chgreq_cap T = SIM_power_gatecap T (WSelPn T + WSelPp T) 1"

definition SIM_iwin_sel_enc_cap :: "tech \<Rightarrow> u32 \<Rightarrow> real" where
  "SIM_iwin_sel_enc_cap T level =
     dbl32 level * SIM_power_draincap T (WSelPn T) NCH 1
     + SIM_power_draincap T (WSelPp T) PCH (sint level)
     + SIM_power_gatecap T (WSelEnn T + WSelEnp T) 20"

definition SIM_iwin_sel_grant_cap :: "tech \<Rightarrow> u32 \<Rightarrow> real" where
  "SIM_iwin_sel_grant_cap T width =
     SIM_power_draincap T (WSelEnn T) NCH 2 + 2 * SIM_power_draincap T (WSelEnp T) PCH 1
     + (SIM_power_draincap T (Wdecinvn T) NCH 1 + SIM_power_draincap T (Wdecinvp T) PCH 1
        + SIM_power_gatecap T (Wdecinvn T + Wdecinvp T) 1)
     + dbl32 width * SIM_power_gatecap T (WSelEnn T + WSelEnp T) 20"

text \<open>
  The two loops of \<open>SIM_iwin_sel_init\<close> write the first \<open>width\<close> elements of the two arrays of
  \<open>MAX_SEL_LEVEL\<close> elements: a larger width writes outside of them.
\<close>

definition SIM_iwin_sel_init :: "tech \<Rightarrow> SIM_power_sel_t \<Rightarrow> int \<Rightarrow> u32 \<Rightarrow> (SIM_power_sel_t \<times> int) option" where
  "SIM_iwin_sel_init T sel model width =
     (let sel = sel\<lparr>sel_model := model\<rparr>
      in if model \<noteq> 0 \<and> model < SEL_MAX_MODEL
         then if MAX_SEL_LEVEL < unat width then None
              else Some (sel\<lparr>sel_width := width, sel_n_anyreq := 0, sel_n_chgreq := 0, sel_n_grant := 0,
                     sel_n_enc := replicate (unat width) 0 @ drop (unat width) (sel_n_enc sel),
                     sel_e_anyreq := SIM_iwin_sel_anyreq_cap T width * EnergyFactor T,
                     sel_e_chgreq := SIM_iwin_sel_chgreq_cap T * EnergyFactor T,
                     sel_e_grant := SIM_iwin_sel_grant_cap T width,
                     sel_e_enc := map (\<lambda>i. SIM_iwin_sel_enc_cap T (of_nat (i + 1))) [0..<unat width]
                                  @ drop (unat width) (sel_e_enc sel)\<rparr>, 0)
         else Some (sel, - 1))"

text \<open>
  The scan of \<open>SIM_iwin_sel_record\<close> from request \<open>i\<close> on, with \<open>n\<close> requests left. \<^verbatim>\<open>1 << i\<close> is a shift of
  a signed 32-bit number, undefined from 31 on, and \<^verbatim>\<open>n_enc[i]\<close> exists below \<open>MAX_SEL_LEVEL\<close>.
\<close>

fun sel_scan :: "u32 \<Rightarrow> int \<Rightarrow> nat \<Rightarrow> nat \<Rightarrow> bool \<Rightarrow> SIM_power_sel_t \<Rightarrow> SIM_power_sel_t option" where
  "sel_scan req en i 0 pre_grant sel = Some sel"
| "sel_scan req en i (Suc n) pre_grant sel =
     (if 31 \<le> i then None
      else if bit req i
      then (let sel = sel\<lparr>sel_n_chgreq := sel_n_chgreq sel + ucast (sel_width sel - of_nat i)\<rparr>
            in if pre_grant then sel_scan req en (Suc i) n True sel
               else if MAX_SEL_LEVEL \<le> i then None
               else sel_scan req en (Suc i) n True
                      (sel\<lparr>sel_n_enc := (sel_n_enc sel)[i := sel_n_enc sel ! i + 1],
                           sel_n_grant := sel_n_grant sel + (if en \<noteq> 0 then 1 else 0)\<rparr>))
      else sel_scan req en (Suc i) n pre_grant sel)"

definition SIM_iwin_sel_record :: "SIM_power_sel_t \<Rightarrow> u32 \<Rightarrow> int \<Rightarrow> int \<Rightarrow> SIM_power_sel_t option" where
  "SIM_iwin_sel_record sel req en last_level =
     (if req \<noteq> 0
      then sel_scan req en 0 (unat (sel_width sel)) False
             (if last_level = 0 then sel\<lparr>sel_n_anyreq := sel_n_anyreq sel + 1\<rparr> else sel)
      else Some sel)"

definition SIM_iwin_sel_report :: "SIM_power_sel_t \<Rightarrow> real option" where
  "SIM_iwin_sel_report sel =
     (if MAX_SEL_LEVEL < unat (sel_width sel) then None
      else Some (dbl64 (sel_n_anyreq sel) * sel_e_anyreq sel + dbl64 (sel_n_chgreq sel) * sel_e_chgreq sel
             + dbl64 (sel_n_grant sel) * sel_e_grant sel
             + (\<Sum>i\<leftarrow>[0..<unat (sel_width sel)]. dbl64 (sel_n_enc sel ! i) * sel_e_enc sel ! i)))"

section \<open>Bus\<close>

definition RESULT_BUS :: int where
  "RESULT_BUS = 1"

definition GENERIC_BUS :: int where
  "GENERIC_BUS = 2"

definition BUS_MAX_MODEL :: int where
  "BUS_MAX_MODEL = 3"

definition IDENT_ENC :: int where
  "IDENT_ENC = 1"

definition TRANS_ENC :: int where
  "TRANS_ENC = 2"

definition BUSINV_ENC :: int where
  "BUSINV_ENC = 3"

definition BUS_MAX_ENC :: int where
  "BUS_MAX_ENC = 4"

record SIM_power_bus_t =
  bus_model :: int
  bus_encoding :: int
  bus_data_width :: u32
  bus_grp_width :: u32
  bus_n_switch :: u64
  bus_e_switch :: real
  bus_bit_width :: u32
  bus_mask :: u64

text \<open>
  The \<^verbatim>\<open>int\<close> result is stored back into an unsigned field, so it is modelled by its 32 bits. A
  negative encoding passes the range check and leaves the switch without a return value.
\<close>

definition SIM_bus_bitwidth :: "int \<Rightarrow> u32 \<Rightarrow> u32 \<Rightarrow> u32 option" where
  "SIM_bus_bitwidth encoding data_width grp_width =
     (if encoding \<noteq> 0 \<and> encoding < BUS_MAX_ENC
      then if encoding = IDENT_ENC \<or> encoding = TRANS_ENC then Some data_width
           else if encoding = BUSINV_ENC
           then (if grp_width = 0 then None
                 else Some (data_width + data_width div grp_width
                            + (if data_width mod grp_width \<noteq> 0 then 1 else 0)))
           else None
      else Some (- 1))"

text \<open>
  The group loop of the bus-inversion encoder. Every shift by 64 or more is undefined; below that
  \<open>done_width\<close> stays small enough not to wrap.
\<close>

function businv_loop :: "nat \<Rightarrow> nat \<Rightarrow> u64 \<Rightarrow> u64 \<Rightarrow> u64 \<Rightarrow> nat \<Rightarrow> u64 option" where
  "businv_loop grp_width data_width old_state new_data new_state done_width =
     (if done_width < data_width
      then let mask_data = push_bit grp_width BIGONE - 1;
               mask_bus = push_bit 1 mask_data + 1
           in if grp_width = 0 \<or> 64 \<le> grp_width + 1 \<or> 64 \<le> done_width + done_width div grp_width then None
              else businv_loop grp_width data_width
                     (drop_bit (grp_width + 1) old_state) (drop_bit grp_width new_data)
                     (new_state
                      + (if unat (SIM_power_Hamming (old_state AND mask_bus) (new_data AND mask_data) mask_bus)
                            > grp_width div 2
                         then push_bit (done_width + done_width div grp_width)
                                (NOT (new_data AND mask_data) AND mask_bus)
                         else push_bit (done_width + done_width div grp_width) (new_data AND mask_data)))
                     (done_width + grp_width)
      else Some new_state)"
  by pat_completeness auto
termination
  by (relation "measure (\<lambda>(grp_width, data_width, old_state, new_data, new_state, done_width). 64 - done_width)")
    auto

declare businv_loop.simps [simp del]

definition SIM_bus_state :: "SIM_power_bus_t \<Rightarrow> u64 \<Rightarrow> u64 \<Rightarrow> u64 \<Rightarrow> u64 option" where
  "SIM_bus_state bus old_data old_state new_data =
     (if bus_encoding bus = IDENT_ENC then Some new_data
      else if bus_encoding bus = TRANS_ENC then Some (new_data XOR old_data)
      else if bus_encoding bus = BUSINV_ENC
      then if 64 \<le> unat (bus_grp_width bus) then None
           else businv_loop (unat (bus_grp_width bus)) (unat (bus_data_width bus)) old_state new_data 0 0
      else None)"

definition SIM_resultbus_cap :: "tech \<Rightarrow> real" where
  "SIM_resultbus_cap T =
     (let reg_height = PARM_RUU_size * (RegCellHeight T + WordlineSpacing T * 3 * PARM_ruu_issue_width)
      in CCmetal T * (reg_height + 0.5 * PARM_res_ialu * 3200 * LSCALE T))"

text \<open>The driver sizes the broadcast branch computes do not enter the capacitance it returns.\<close>

definition SIM_generic_bus_cap :: "tech \<Rightarrow> u32 \<Rightarrow> u32 \<Rightarrow> real \<Rightarrow> real \<Rightarrow> real" where
  "SIM_generic_bus_cap T n_snd n_rcv len time =
     (let Ctotal = CCmetal T * len
      in if n_snd = 1 \<and> n_rcv = 1
         then (let n_size = Lamda T * 10; p_size = n_size * 2;
                   Ctotal = Ctotal + (SIM_power_gatecap T (n_size + p_size) 0
                     + SIM_power_draincap T n_size NCH 1 + SIM_power_draincap T p_size PCH 1);
                   n_size = n_size * 2.5; p_size = p_size * 2.5
               in Ctotal + (SIM_power_gatecap T (n_size + p_size) 0
                     + SIM_power_draincap T n_size NCH 1 + SIM_power_draincap T p_size PCH 1))
         else (let Ctotal = Ctotal + dbl32 n_rcv * SIM_power_gatecap T (Wdecinvn T + Wdecinvp T) 0
               in Ctotal + dbl32 n_snd * (SIM_power_draincap T (Wdecinvn T) NCH 1
                                          + SIM_power_draincap T (Wdecinvp T) PCH 1)))"

definition SIM_bus_init :: "tech \<Rightarrow> SIM_power_bus_t \<Rightarrow> int \<Rightarrow> int \<Rightarrow> u32 \<Rightarrow> u32 \<Rightarrow> u32 \<Rightarrow> u32 \<Rightarrow> real \<Rightarrow> real
    \<Rightarrow> (SIM_power_bus_t \<times> int) option" where
  "SIM_bus_init T bus model encoding width grp_width n_snd n_rcv len time =
     (let bus = bus\<lparr>bus_model := model\<rparr>
      in if model \<noteq> 0 \<and> model < BUS_MAX_MODEL
         then (let bus = bus\<lparr>bus_data_width := width, bus_grp_width := grp_width, bus_n_switch := 0\<rparr>;
                   finish = (\<lambda>bus. map_option
                     (\<lambda>bw. (bus\<lparr>bus_bit_width := bw, bus_mask := HAMM_MASK bw\<rparr>, 0))
                     (SIM_bus_bitwidth (bus_encoding bus) width (bus_grp_width bus)))
               in if model = RESULT_BUS
                  then finish (bus\<lparr>bus_encoding := IDENT_ENC,
                                   bus_e_switch := SIM_resultbus_cap T / 2 * EnergyFactor T\<rparr>)
                  else if model = GENERIC_BUS
                  then (let bus = bus\<lparr>bus_encoding := encoding\<rparr>
                        in if encoding \<noteq> 0 \<and> encoding < BUS_MAX_ENC
                           then finish (bus\<lparr>
                                  bus_e_switch := SIM_generic_bus_cap T n_snd n_rcv len time / 2 * EnergyFactor T,
                                  bus_grp_width := (if grp_width = 0 \<or> grp_width > width then width else grp_width)\<rparr>)
                           else Some (bus, - 1))
                  else finish bus)
         else Some (bus, - 1))"

definition SIM_bus_record :: "SIM_power_bus_t \<Rightarrow> u64 \<Rightarrow> u64 \<Rightarrow> SIM_power_bus_t" where
  "SIM_bus_record bus old_state new_state =
     bus\<lparr>bus_n_switch := bus_n_switch bus + ucast (SIM_power_Hamming new_state old_state (bus_mask bus))\<rparr>"

definition SIM_bus_report :: "SIM_power_bus_t \<Rightarrow> real" where
  "SIM_bus_report bus = dbl64 (bus_n_switch bus) * bus_e_switch bus"

section \<open>Flip-flop\<close>

definition NEG_DFF :: int where
  "NEG_DFF = 1"

definition FF_MAX_MODEL :: int where
  "FF_MAX_MODEL = 2"

record SIM_power_ff_t =
  ff_model :: int
  ff_n_switch :: u64
  ff_n_keep_1 :: u64
  ff_n_keep_0 :: u64
  ff_n_clock :: u64
  ff_e_switch :: real
  ff_e_keep_1 :: real
  ff_e_keep_0 :: real
  ff_e_clock :: real

definition SIM_fpfp_node_cap :: "tech \<Rightarrow> u32 \<Rightarrow> u32 \<Rightarrow> real" where
  "SIM_fpfp_node_cap T fan_in fan_out =
     dbl32 fan_in * SIM_power_draincap T (WdecNORn T) NCH 1
     + SIM_power_draincap T (WdecNORp T) PCH (sint fan_in)
     + dbl32 fan_out * SIM_power_gatecap T (WdecNORn T + WdecNORp T) 0"

definition SIM_fpfp_clock_cap :: "tech \<Rightarrow> real" where
  "SIM_fpfp_clock_cap T = 2 * SIM_power_gatecap T (WdecNORn T + WdecNORp T) 0"

definition SIM_fpfp_clear_stat :: "SIM_power_ff_t \<Rightarrow> SIM_power_ff_t" where
  "SIM_fpfp_clear_stat ff = ff\<lparr>ff_n_switch := 0, ff_n_keep_1 := 0, ff_n_keep_0 := 0, ff_n_clock := 0\<rparr>"

definition SIM_fpfp_init :: "tech \<Rightarrow> SIM_power_ff_t \<Rightarrow> int \<Rightarrow> real \<Rightarrow> SIM_power_ff_t \<times> int" where
  "SIM_fpfp_init T ff model load =
     (let ff = ff\<lparr>ff_model := model\<rparr>
      in if model \<noteq> 0 \<and> model < FF_MAX_MODEL
         then if model = NEG_DFF
              then (let ff = SIM_fpfp_clear_stat ff;
                        c1 = SIM_fpfp_node_cap T 2 1; c5 = c1; c6 = c1;
                        c2 = SIM_fpfp_node_cap T 2 3;
                        c3 = SIM_fpfp_node_cap T 3 2;
                        c4 = SIM_fpfp_node_cap T 2 3
                    in (ff\<lparr>ff_e_switch := (c4 + c1 + c2 + c3 + c5 + c6 + load) / 2 * EnergyFactor T,
                           ff_e_keep_1 := c3 * EnergyFactor T,
                           ff_e_keep_0 := c2 * EnergyFactor T,
                           ff_e_clock := SIM_fpfp_clock_cap T * EnergyFactor T\<rparr>, 0))
              else (ff, 0)
         else (ff, - 1))"

definition SIM_fpfp_report :: "SIM_power_ff_t \<Rightarrow> real" where
  "SIM_fpfp_report ff =
     ff_e_switch ff * dbl64 (ff_n_switch ff) + ff_e_clock ff * dbl64 (ff_n_clock ff)
     + ff_e_keep_0 ff * dbl64 (ff_n_keep_0 ff) + ff_e_keep_1 ff * dbl64 (ff_n_keep_1 ff)"

section \<open>Bus inversion\<close>

text \<open>The code word of one group and its decoding.\<close>

definition businv_code :: "nat \<Rightarrow> u64 \<Rightarrow> u64 \<Rightarrow> u64" where
  "businv_code g os d =
     (if popcount ((os XOR (d AND mask g)) AND mask (Suc g)) > g div 2
      then NOT (d AND mask g) AND mask (Suc g) else d AND mask g)"

definition businv_decode :: "nat \<Rightarrow> u64 \<Rightarrow> u64" where
  "businv_decode g c = (if bit c g then NOT c AND mask g else c)"

definition group_of :: "nat \<Rightarrow> nat \<Rightarrow> u64 \<Rightarrow> u64" where
  "group_of w k x = take_bit w (drop_bit (k * w) x)"

lemma businv_decode_code: "g < 64 \<Longrightarrow> businv_decode g (businv_code g os d) = d AND mask g"
  by (auto simp: businv_decode_def businv_code_def bit_simps intro!: bit_word_eqI)

lemma businv_code_distance:
  assumes "g < 64"
  shows "popcount ((businv_code g os d XOR os) AND mask (Suc g)) \<le> Suc g div 2"
proof -
  let ?x = "os XOR (d AND mask g)"
  have eq: "(NOT (d AND mask g) AND mask (Suc g) XOR os) AND mask (Suc g) = NOT ?x AND mask (Suc g)"
    "((d AND mask g) XOR os) AND mask (Suc g) = ?x AND mask (Suc g)"
    by (auto simp: bit_simps intro!: bit_word_eqI)
  have "popcount (NOT ?x AND mask (Suc g)) + popcount (?x AND mask (Suc g)) = Suc g"
    using assms by (intro popcount_not_mask) simp
  then show ?thesis unfolding businv_code_def using eq by auto
qed

lemma unat_businv_code: "g < 64 \<Longrightarrow> unat (businv_code g os d) < 2 ^ Suc g"
proof -
  assume g: "g < 64"
  have "businv_code g os d = businv_code g os d AND mask (Suc g)"
    by (auto simp: businv_code_def bit_simps intro!: bit_word_eqI)
  then have "unat (businv_code g os d) = take_bit (Suc g) (unat (businv_code g os d))"
    by (metis take_bit_eq_mask unsigned_take_bit_eq)
  then show ?thesis by (metis take_bit_nat_less_exp)
qed

fun businv_codes :: "nat \<Rightarrow> nat \<Rightarrow> u64 \<Rightarrow> u64 \<Rightarrow> nat list" where
  "businv_codes g 0 os d = []"
| "businv_codes g (Suc n) os d =
     unat (businv_code g os d) # businv_codes g n (drop_bit (Suc g) os) (drop_bit g d)"

lemma length_businv_codes [simp]: "length (businv_codes g n os d) = n"
  by (induction n arbitrary: os d) auto

lemma businv_codes_less: "g < 64 \<Longrightarrow> \<forall>c \<in> set (businv_codes g n os d). c < 2 ^ Suc g"
  by (induction n arbitrary: os d) (auto simp del: power_Suc intro: unat_businv_code)

lemma businv_codes_nth:
  "k < n \<Longrightarrow> businv_codes g n os d ! k = unat (businv_code g (drop_bit (k * Suc g) os) (drop_bit (k * g) d))"
proof (induction n arbitrary: k os d)
  case (Suc n)
  show ?case by (cases k) (use Suc in \<open>auto simp: ac_simps\<close>)
qed simp

lemma businv_masks:
  "push_bit g BIGONE - 1 = mask g" "push_bit 1 (mask g) + 1 = (mask (Suc g) :: u64)"
  by (simp_all add: BIGONE_def mask_eq_exp_minus_1 push_bit_eq_mult algebra_simps)

lemma businv_loop_step:
  assumes "0 < g" "g < 63" "k * Suc g < 64" "k * g < dw"
  shows "businv_loop g dw os d ns (k * g) =
    businv_loop g dw (drop_bit (Suc g) os) (drop_bit g d) (ns + push_bit (k * Suc g) (businv_code g os d)) (Suc k * g)"
proof -
  have e: "(os AND mask (Suc g) XOR d AND mask g) AND mask (Suc g) = (os XOR (d AND mask g)) AND mask (Suc g)"
    by (auto simp: bit_simps intro!: bit_word_eqI)
  have o: "k * g + k * g div g = k * Suc g" using assms(1) by simp
  show ?thesis
    unfolding businv_loop.simps [of g dw os d ns "k * g"] Let_def businv_masks Hamming_popcount e o
    using assms by (simp add: businv_code_def add.commute)
qed

lemma unat_push_add:
  fixes a c :: u64
  assumes "unat a < 2 ^ off" "unat c < 2 ^ w" "off + w \<le> 64"
  shows "unat (a + push_bit off c) = unat a + 2 ^ off * unat c"
    "unat (a + push_bit off c) < 2 ^ (off + w)"
proof -
  have "2 ^ off * (unat c + 1) \<le> 2 ^ off * 2 ^ w" using assms(2) by (intro mult_left_mono) auto
  then have l: "unat a + 2 ^ off * unat c < 2 ^ (off + w)" using assms(1) by (simp add: power_add)
  also have "\<dots> \<le> 2 ^ 64" using assms(3) by (intro power_increasing) auto
  finally have m: "unat a + 2 ^ off * unat c < 2 ^ 64" .
  then have "unat (push_bit off c) = 2 ^ off * unat c"
    unfolding unsigned_push_bit_eq by (simp add: take_bit_nat_eq_self push_bit_eq_mult mult.commute)
  then show "unat (a + push_bit off c) = unat a + 2 ^ off * unat c"
    using m by (simp add: unat_add_no_overflow)
  then show "unat (a + push_bit off c) < 2 ^ (off + w)" using l by simp
qed

lemma businv_loop_result:
  assumes "0 < g" "g < 63" "(k + n) * Suc g \<le> 64" "unat ns < 2 ^ (k * Suc g)"
  shows "\<exists>r. businv_loop g ((k + n) * g) os d ns (k * g) = Some r
    \<and> unat r = unat ns + 2 ^ (k * Suc g) * bit_fields (Suc g) (businv_codes g n os d)"
  using assms
proof (induction n arbitrary: k os d ns)
  case 0
  then show ?case by (subst businv_loop.simps) simp
next
  case (Suc n)
  let ?ns = "ns + push_bit (k * Suc g) (businv_code g os d)"
  have le: "Suc k * Suc g \<le> (k + Suc n) * Suc g" by (intro mult_right_mono) auto
  then have off: "k * Suc g + Suc g \<le> 64" using Suc.prems(3) by simp
  have g: "g < 64" using Suc.prems by simp
  note u = unat_push_add [OF Suc.prems(4) unat_businv_code [OF g, of os d] off]
  have "businv_loop g ((k + Suc n) * g) os d ns (k * g)
      = businv_loop g ((Suc k + n) * g) (drop_bit (Suc g) os) (drop_bit g d) ?ns (Suc k * g)"
    using businv_loop_step [of g k "(k + Suc n) * g" os d ns] Suc.prems off by (simp add: add_mult_distrib)
  moreover have "unat ?ns < 2 ^ (Suc k * Suc g)" using u(2) by (simp add: ac_simps)
  with Suc.IH [of "Suc k" ?ns "drop_bit (Suc g) os" "drop_bit g d"] Suc.prems obtain r where
    "businv_loop g ((Suc k + n) * g) (drop_bit (Suc g) os) (drop_bit g d) ?ns (Suc k * g) = Some r"
    "unat r = unat ?ns + 2 ^ (Suc k * Suc g) * bit_fields (Suc g) (businv_codes g n (drop_bit (Suc g) os) (drop_bit g d))"
    by (metis add_Suc_shift)
  moreover have "(2 :: nat) ^ (Suc k * Suc g) = 2 ^ (k * Suc g) * 2 ^ Suc g"
    by (metis mult_Suc power_add mult.commute)
  ultimately show ?case unfolding u(1) by (simp only: businv_codes.simps bit_fields.simps) (simp add: algebra_simps)
qed

lemma group_of_result:
  assumes "unat r = bit_fields w ds" "k < length ds" "\<forall>d \<in> set ds. d < 2 ^ w" "w \<le> 64"
  shows "unat (group_of w k r) = ds ! k"
proof -
  have "unat (group_of w k r) = (unat r div 2 ^ (w * k)) mod 2 ^ w"
    unfolding group_of_def unsigned_take_bit_eq by (simp only: take_bit_eq_mod unat_drop_bit_div mult.commute)
  then show ?thesis using assms fields_nth by simp
qed

lemma SIM_bus_state_groups:
  assumes "bus_encoding bus = BUSINV_ENC" "unat (bus_grp_width bus) = g" "unat (bus_data_width bus) = n * g"
    and "0 < g" "g < 63" "n * Suc g \<le> 64"
  shows "\<exists>s. SIM_bus_state bus od os d = Some s \<and>
    (\<forall>k<n. group_of (Suc g) k s = businv_code g (drop_bit (k * Suc g) os) (drop_bit (k * g) d))"
proof -
  obtain s where s: "businv_loop g (n * g) os d 0 0 = Some s" "unat s = bit_fields (Suc g) (businv_codes g n os d)"
    using businv_loop_result [of g 0 n 0 os d] assms by auto
  have "group_of (Suc g) k s = businv_code g (drop_bit (k * Suc g) os) (drop_bit (k * g) d)" if "k < n" for k
    using group_of_result [OF s(2), of k] businv_codes_less [of g n os d] businv_codes_nth [OF that] that assms(5)
    by (simp add: word_unat_eq_iff)
  then show ?thesis using s(1) assms
    by (simp add: SIM_bus_state_def BUSINV_ENC_def IDENT_ENC_def TRANS_ENC_def)
qed

lemma businv_group_distance:
  assumes "g < 63"
  shows "unat (SIM_power_Hamming (businv_code g (drop_bit (k * Suc g) os) d) (group_of (Suc g) k os) BIGNONE) \<le> Suc g div 2"
proof -
  let ?o = "drop_bit (k * Suc g) os"
  have "(businv_code g ?o d XOR group_of (Suc g) k os) AND BIGNONE = (businv_code g ?o d XOR ?o) AND mask (Suc g)"
    by (auto simp: BIGNONE_def businv_code_def group_of_def bit_simps intro!: bit_word_eqI)
  then show ?thesis unfolding Hamming_popcount using businv_code_distance assms by simp
qed

section \<open>Meters\<close>

abbreviation bus_step :: "u64 \<times> u64 \<Rightarrow> SIM_power_bus_t \<Rightarrow> SIM_power_bus_t option" where
  "bus_step e b \<equiv> Some (SIM_bus_record b (fst e) (snd e))"

abbreviation bus_incs :: "SIM_power_bus_t \<Rightarrow> u64 \<times> u64 \<Rightarrow> u64 list" where
  "bus_incs b e \<equiv> [ucast (SIM_power_Hamming (snd e) (fst e) (bus_mask b))]"

interpretation bus: energy_meter bus_step SIM_bus_report "\<lambda>b. [bus_n_switch b]" "\<lambda>b. [bus_e_switch b]"
  bus_incs "\<lambda>b e. True" "\<lambda>b. True"
  by unfold_locales (simp_all add: SIM_bus_report_def SIM_bus_record_def bump_def)

text \<open>The request that wins the scan: the lowest set bit below the width.\<close>

definition sel_winner :: "u32 \<Rightarrow> nat \<Rightarrow> nat \<Rightarrow> bool \<Rightarrow> nat option" where
  "sel_winner req i n pre_grant = (if pre_grant then None else find (bit req) [i..<i + n])"

lemma sel_winner_simps:
  "sel_winner req i n True = None" "sel_winner req i 0 pg = None"
  "sel_winner req i (Suc n) False = (if bit req i then Some i else sel_winner req (Suc i) n False)"
  by (simp_all add: sel_winner_def upt_conv_Cons del: upt_Suc)

definition sel_changes :: "u32 \<Rightarrow> u32 \<Rightarrow> nat \<Rightarrow> nat \<Rightarrow> u64" where
  "sel_changes req width i n = (\<Sum>j\<leftarrow>[i..<i + n]. if bit req j then ucast (width - of_nat j) else 0)"

lemma sel_changes_simps:
  "sel_changes req width i 0 = 0"
  "sel_changes req width i (Suc n) =
     (if bit req i then ucast (width - of_nat i) else 0) + sel_changes req width (Suc i) n"
  by (simp_all add: sel_changes_def upt_conv_Cons del: upt_Suc)

lemma sel_scan_result:
  "i + n \<le> MAX_SEL_LEVEL \<Longrightarrow>
   sel_scan req en i n pg sel = Some (sel\<lparr>
     sel_n_chgreq := sel_n_chgreq sel + sel_changes req (sel_width sel) i n,
     sel_n_enc := (case sel_winner req i n pg of None \<Rightarrow> sel_n_enc sel
                   | Some j \<Rightarrow> (sel_n_enc sel)[j := sel_n_enc sel ! j + 1]),
     sel_n_grant := sel_n_grant sel + (if sel_winner req i n pg \<noteq> None \<and> en \<noteq> 0 then 1 else 0)\<rparr>)"
proof (induction n arbitrary: i pg sel)
  case 0
  then show ?case by (simp add: sel_winner_simps sel_changes_simps)
next
  case (Suc n)
  then show ?case
    by (cases pg) (auto simp: sel_winner_simps sel_changes_simps MAX_SEL_LEVEL_def Let_def add.assoc)
qed

type_synonym sel_event = "u32 \<times> int \<times> int"

definition sel_step :: "sel_event \<Rightarrow> SIM_power_sel_t \<Rightarrow> SIM_power_sel_t option" where
  "sel_step e sel = (case e of (req, en, last_level) \<Rightarrow> SIM_iwin_sel_record sel req en last_level)"

definition sel_incs :: "SIM_power_sel_t \<Rightarrow> sel_event \<Rightarrow> u64 list" where
  "sel_incs sel e = (case e of (req, en, last_level) \<Rightarrow>
     (let w = unat (sel_width sel); win = sel_winner req 0 w False
      in [if req \<noteq> 0 \<and> last_level = 0 then 1 else 0, sel_changes req (sel_width sel) 0 w,
          if win \<noteq> None \<and> en \<noteq> 0 then 1 else 0]
         @ map (\<lambda>j. if win = Some j then 1 else 0) [0..<w]))"

definition sel_counters :: "SIM_power_sel_t \<Rightarrow> u64 list" where
  "sel_counters sel = [sel_n_anyreq sel, sel_n_chgreq sel, sel_n_grant sel] @ take (unat (sel_width sel)) (sel_n_enc sel)"

definition sel_weights :: "SIM_power_sel_t \<Rightarrow> real list" where
  "sel_weights sel = [sel_e_anyreq sel, sel_e_chgreq sel, sel_e_grant sel] @ take (unat (sel_width sel)) (sel_e_enc sel)"

definition sel_wf :: "SIM_power_sel_t \<Rightarrow> bool" where
  "sel_wf sel \<longleftrightarrow> unat (sel_width sel) \<le> MAX_SEL_LEVEL \<and> length (sel_n_enc sel) = MAX_SEL_LEVEL
     \<and> length (sel_e_enc sel) = MAX_SEL_LEVEL"

lemma sel_report_energy:
  "sel_wf sel \<Longrightarrow> SIM_iwin_sel_report sel = Some (energy (sel_weights sel) (sel_counters sel))"
  by (simp add: SIM_iwin_sel_report_def sel_wf_def sel_weights_def sel_counters_def energy_take add.assoc)

lemma bump_one_hot:
  "n \<le> length xs \<Longrightarrow> bump (take n xs) (map (\<lambda>j. if win = Some j then 1 else 0) [0..<n])
    = take n (case win of None \<Rightarrow> xs | Some j \<Rightarrow> xs[j := xs ! j + 1])"
  by (intro nth_equalityI) (auto simp: bump_def nth_list_update split: option.splits)

lemma sel_changes_0: "sel_changes 0 w i n = 0"
  by (simp add: sel_changes_def)

lemma sel_winner_0: "sel_winner 0 i n pg = None"
  by (simp add: sel_winner_def find_None_iff)

lemma sel_step_valid:
  assumes "sel_wf sel"
  shows "\<exists>sel'. sel_step e sel = Some sel' \<and> sel_wf sel' \<and> sel_counters sel' = bump (sel_counters sel) (sel_incs sel e)
    \<and> sel_weights sel' = sel_weights sel \<and> sel_incs sel' = sel_incs sel"
proof -
  obtain req en last_level where e: "e = (req, en, last_level)" by (cases e)
  let ?w = "unat (sel_width sel)" and ?win = "sel_winner req 0 (unat (sel_width sel)) False"
  define sel' where "sel' = sel\<lparr>
     sel_n_anyreq := sel_n_anyreq sel + (if req \<noteq> 0 \<and> last_level = 0 then 1 else 0),
     sel_n_chgreq := sel_n_chgreq sel + sel_changes req (sel_width sel) 0 ?w,
     sel_n_enc := (case ?win of None \<Rightarrow> sel_n_enc sel | Some j \<Rightarrow> (sel_n_enc sel)[j := sel_n_enc sel ! j + 1]),
     sel_n_grant := sel_n_grant sel + (if ?win \<noteq> None \<and> en \<noteq> 0 then 1 else 0)\<rparr>"
  have w: "?w \<le> MAX_SEL_LEVEL" "?w \<le> length (sel_n_enc sel)" using assms by (auto simp: sel_wf_def)
  have "sel_step e sel = Some sel'"
    using w(1) by (auto simp: e sel_step_def SIM_iwin_sel_record_def sel_scan_result sel'_def sel_changes_0 sel_winner_0 split: option.split)
  moreover have "sel_wf sel'" using assms by (auto simp: sel_wf_def sel'_def split: option.splits)
  moreover have "sel_counters sel' = bump (sel_counters sel) (sel_incs sel e)"
    by (simp add: e sel'_def sel_counters_def sel_incs_def Let_def bump_one_hot [OF w(2)] split del: if_split)
  moreover have "sel_weights sel' = sel_weights sel" "sel_incs sel' = sel_incs sel"
    by (auto simp: sel'_def sel_weights_def sel_incs_def fun_eq_iff)
  ultimately show ?thesis by blast
qed

interpretation sel: energy_meter sel_step "\<lambda>s. the (SIM_iwin_sel_report s)" sel_counters sel_weights sel_incs
  "\<lambda>s e. True" sel_wf
  by unfold_locales (use sel_report_energy sel_step_valid in auto)

section \<open>Properties\<close>

text \<open>
  The bus-inversion encoder. For a group width that divides the data width and whose code
  words fit a 64-bit bus, encoding never reaches an undefined shift, every group of the new bus
  state decodes to the group of the new data, and no group toggles more than half of its lines
  (rounded up), whatever the old bus state was.
\<close>

theorem SIM_bus_state_businv:
  "bus_encoding bus = BUSINV_ENC \<Longrightarrow> unat (bus_grp_width bus) = g \<Longrightarrow> unat (bus_data_width bus) = n * g \<Longrightarrow>
   0 < g \<Longrightarrow> g < 63 \<Longrightarrow> n * Suc g \<le> 64 \<Longrightarrow>
   \<exists>new_state. SIM_bus_state bus old_data old_state new_data = Some new_state \<and>
     (\<forall>k<n. businv_decode g (group_of (Suc g) k new_state) = group_of g k new_data
        \<and> unat (SIM_power_Hamming (group_of (Suc g) k new_state) (group_of (Suc g) k old_state) BIGNONE)
            \<le> Suc g div 2)"
proof -
  assume a: "bus_encoding bus = BUSINV_ENC" "unat (bus_grp_width bus) = g" "unat (bus_data_width bus) = n * g"
    "0 < g" "g < 63" "n * Suc g \<le> 64"
  obtain s where s: "SIM_bus_state bus old_data old_state new_data = Some s"
    "\<forall>k<n. group_of (Suc g) k s = businv_code g (drop_bit (k * Suc g) old_state) (drop_bit (k * g) new_data)"
    using SIM_bus_state_groups [OF a] by blast
  then show ?thesis using a(5) businv_group_distance [OF a(5)]
    by (auto simp: businv_decode_code group_of_def take_bit_eq_mask)
qed

theorem SIM_bus_state_businv_witness:
  "\<exists>new_state. SIM_bus_state \<lparr>bus_model = GENERIC_BUS, bus_encoding = BUSINV_ENC, bus_data_width = 32,
       bus_grp_width = 8, bus_n_switch = 0, bus_e_switch = 1, bus_bit_width = 36, bus_mask = BIGNONE\<rparr>
       0 0 0xFF00FF01 = Some new_state \<and>
     (\<forall>k<4. businv_decode 8 (group_of (Suc 8) k new_state) = group_of 8 k 0xFF00FF01
        \<and> unat (SIM_power_Hamming (group_of (Suc 8) k new_state) (group_of (Suc 8) k 0) BIGNONE) \<le> Suc 8 div 2)"
  by (rule SIM_bus_state_businv) simp_all

lemma SIM_iwin_sel_init_wf:
  assumes "SIM_iwin_sel_init T sel0 GENERIC_SEL width = Some (sel, 0)"
    "length (sel_n_enc sel0) = MAX_SEL_LEVEL" "length (sel_e_enc sel0) = MAX_SEL_LEVEL"
  shows "sel_wf sel" "sel_counters sel = replicate (3 + unat width) 0"
  using assms
  by (auto simp: SIM_iwin_sel_init_def GENERIC_SEL_def SEL_MAX_MODEL_def Let_def sel_wf_def sel_counters_def
      numeral_3_eq_3 split: if_splits)

text \<open>
  The selection arbiter. Initialised for at most five requests it reports no energy, and any
  sequence of request vectors recorded after that is accepted and reported as the sum of the
  energies of the requests, each one charged for its priority scan, its winner (the lowest
  request) and its grant.
\<close>

theorem SIM_iwin_sel_energy:
  "SIM_iwin_sel_init T sel0 GENERIC_SEL width = Some (sel, 0) \<Longrightarrow>
   length (sel_n_enc sel0) = MAX_SEL_LEVEL \<Longrightarrow> length (sel_e_enc sel0) = MAX_SEL_LEVEL \<Longrightarrow>
   no_wrap_run (sel_counters sel) (map (sel_incs sel) es) \<Longrightarrow>
   SIM_iwin_sel_report sel = Some 0 \<and>
   (\<exists>sel'. run sel_step es sel = Some sel'
      \<and> SIM_iwin_sel_report sel' = Some (\<Sum>e\<leftarrow>es. energy (sel_weights sel) (sel_incs sel e)))"
proof -
  assume a: "SIM_iwin_sel_init T sel0 GENERIC_SEL width = Some (sel, 0)"
    "length (sel_n_enc sel0) = MAX_SEL_LEVEL" "length (sel_e_enc sel0) = MAX_SEL_LEVEL"
    "no_wrap_run (sel_counters sel) (map (sel_incs sel) es)"
  note i = SIM_iwin_sel_init_wf [OF a(1-3)]
  have r0: "SIM_iwin_sel_report sel = Some 0"
    using sel_report_energy [OF i(1)] i(2) by simp
  obtain sel' where s: "run sel_step es sel = Some sel'" "sel_wf sel'"
    "sel_counters sel' = foldl bump (sel_counters sel) (map (sel_incs sel) es)" "sel_weights sel' = sel_weights sel"
    using sel.run_counters [OF i(1), of es] by blast
  have "SIM_iwin_sel_report sel' = Some (\<Sum>e\<leftarrow>es. energy (sel_weights sel) (sel_incs sel e))"
    using sel_report_energy [OF s(2)] sel.foldl_bump_energy [OF a(4), of "sel_weights sel"] i(2)
    by (simp add: s comp_def)
  then show ?thesis using r0 s(1) by blast
qed

theorem SIM_iwin_sel_energy_witness:
  "\<exists>sel. SIM_iwin_sel_init build_tech \<lparr>sel_model = 0, sel_width = 0, sel_n_anyreq = 7, sel_n_chgreq = 7,
        sel_n_grant = 7, sel_n_enc = [7, 7, 7, 7, 7], sel_e_anyreq = 0, sel_e_chgreq = 0, sel_e_grant = 0,
        sel_e_enc = [0, 0, 0, 0, 0]\<rparr> GENERIC_SEL 4 = Some (sel, 0)
     \<and> SIM_iwin_sel_report sel = Some 0
     \<and> (\<exists>sel'. run sel_step [(6, 1, 0)] sel = Some sel'
          \<and> SIM_iwin_sel_report sel' = Some (\<Sum>e\<leftarrow>[(6, 1, 0)]. energy (sel_weights sel) (sel_incs sel e)))"
proof -
  let ?s0 = "\<lparr>sel_model = 0, sel_width = 0, sel_n_anyreq = 7, sel_n_chgreq = 7,
        sel_n_grant = 7, sel_n_enc = [7, 7, 7, 7, 7], sel_e_anyreq = 0, sel_e_chgreq = 0, sel_e_grant = 0,
        sel_e_enc = [0, 0, 0, 0, 0]\<rparr> :: SIM_power_sel_t"
  obtain sel where s: "SIM_iwin_sel_init build_tech ?s0 GENERIC_SEL 4 = Some (sel, 0)"
    "sel_width sel = 4"
    by (simp add: SIM_iwin_sel_init_def MAX_SEL_LEVEL_def GENERIC_SEL_def SEL_MAX_MODEL_def Let_def)
  have l: "length (sel_n_enc ?s0) = MAX_SEL_LEVEL" "length (sel_e_enc ?s0) = MAX_SEL_LEVEL"
    by (simp_all add: MAX_SEL_LEVEL_def)
  have "no_wrap_run (sel_counters sel) (map (sel_incs sel) [(6, 1, 0)])"
    using SIM_iwin_sel_init_wf [OF s(1) l] s(2)
    by (simp add: sel_incs_def Let_def)
  from SIM_iwin_sel_energy [OF s(1) l this] s(1) show ?thesis by blast
qed

end
