(* ===== verification/Orion_Cam.thy ===== *)
theory Orion_Cam
  imports Orion_Tech
begin

text \<open>
  The capacitance models of content-addressable arrays, \<^verbatim>\<open>SIM_power_cam.c\<close>.
\<close>

definition SIM_cam_wordline_cap :: "tech \<Rightarrow> u32 \<Rightarrow> real \<Rightarrow> real \<Rightarrow> real" where
  "SIM_cam_wordline_cap T cols wire_cap tx_width =
     (let Cline = SIM_power_gatecappass T tx_width 2 * dbl32 cols + wire_cap;
          psize = SIM_power_driver_size T Cline (Period T / 8);
          nsize = psize * Wdecinvn T / Wdecinvp T
      in Cline + (SIM_power_draincap T nsize NCH 1 + SIM_power_draincap T psize PCH 1
                  + SIM_power_gatecap T (nsize + psize) 20))"

definition SIM_cam_comp_tagline_cap :: "tech \<Rightarrow> u32 \<Rightarrow> real \<Rightarrow> real" where
  "SIM_cam_comp_tagline_cap T rows taglinelength =
     dbl32 rows * SIM_power_gatecap T (Wcomparen2 T) 2 + CC3M2metal T * taglinelength
     + (SIM_power_draincap T (Wcompdrivern T) NCH 1 + SIM_power_draincap T (Wcompdriverp T) PCH 1
        + SIM_power_gatecap T (Wcompdrivern T + Wcompdriverp T) 1)"

definition SIM_cam_comp_mismatch_cap :: "tech \<Rightarrow> u32 \<Rightarrow> u32 \<Rightarrow> real \<Rightarrow> real" where
  "SIM_cam_comp_mismatch_cap T n_bits n_pre matchline_len =
     dbl32 n_pre * SIM_power_draincap T (Wmatchpchg T) PCH 1
     + dbl32 n_bits * (SIM_power_draincap T (Wcomparen1 T) NCH 1 + SIM_power_draincap T (Wcomparen1 T) NCH 2)
     + CC3M3metal T * matchline_len
     + SIM_power_gatecap T (Wmatchnorn T + Wmatchnorp T) 10"

definition SIM_cam_comp_miss_cap :: "tech \<Rightarrow> u32 \<Rightarrow> real" where
  "SIM_cam_comp_miss_cap T assoc =
     dbl32 assoc * SIM_power_draincap T (Wmatchnorn T) NCH 1
     + SIM_power_draincap T (Wmatchnorp T) PCH (sint assoc)"

text \<open>Drain and gate capacitance of the cross-coupled inverters, which both memory models add.\<close>

definition SIM_cam_tag_mem_cap :: "tech \<Rightarrow> u32 \<Rightarrow> u32 \<Rightarrow> int \<Rightarrow> u32 \<Rightarrow> int \<Rightarrow> real" where
  "SIM_cam_tag_mem_cap T read_ports write_ports share_rw end only_write =
     (if only_write \<noteq> 0 then SIM_power_draincap T (Wmemcellw T) NCH 1 * dbl32 write_ports
      else SIM_power_draincap T (Wmemcellr T) NCH 1 * dbl32 read_ports * dbl32 end / 2
           + (if share_rw = 0 then SIM_power_draincap T (Wmemcellw T) NCH 1 * dbl32 write_ports else 0))
     + (SIM_power_draincap T (Wmemcella T) NCH 1 + SIM_power_draincap T (Wmemcella T * Wmemcellbscale) PCH 1)
     + (SIM_power_gatecap T (Wmemcella T) 1 + SIM_power_gatecap T (Wmemcella T * Wmemcellbscale) 1)
     + SIM_power_gatecap T (Wcomparen1 T) 2 * dbl32 read_ports"

definition SIM_cam_data_mem_cap :: "tech \<Rightarrow> u32 \<Rightarrow> u32 \<Rightarrow> real" where
  "SIM_cam_data_mem_cap T read_ports write_ports =
     SIM_power_draincap T (Wmemcellw T) NCH 1 * dbl32 write_ports
     + (SIM_power_draincap T (Wmemcella T) NCH 1 + SIM_power_draincap T (Wmemcella T * Wmemcellbscale) PCH 1)
     + (SIM_power_gatecap T (Wmemcella T) 1 + SIM_power_gatecap T (Wmemcella T * Wmemcellbscale) 1)
     + (SIM_power_gatecap T (Woutdrvnandn T) 1 + SIM_power_gatecap T (Woutdrvnandp T) 1
        + SIM_power_gatecap T (Woutdrvnorn T) 1 + SIM_power_gatecap T (Woutdrvnorp T) 1) / 2 * dbl32 read_ports"

end
