(* ===== verification/Orion_Cells.thy ===== *)
theory Orion_Cells
  imports Orion_Cam Orion_Meter
begin

text \<open>
  The structural level of Orion's array model, \<^verbatim>\<open>SIM_power_array_l.c\<close>: decoder, wordlines, bitlines,
  sense amplifier, tag comparator, multiplexor, output driver, memory cell and precharge, each with
  its capacitance formulas, initialisation, record, report and reset. Each part is an instance of
  the meter contract.
\<close>

section \<open>Decoder\<close>

definition GENERIC_DEC :: int where
  "GENERIC_DEC = 1"

definition DEC_MAX_MODEL :: int where
  "DEC_MAX_MODEL = 2"

record SIM_power_dec_t =
  dec_model :: int
  dec_n_bits :: u32
  dec_n_chg_output :: u64
  dec_n_chg_addr :: u64
  dec_n_chg_l1 :: u64
  dec_e_chg_output :: real
  dec_e_chg_addr :: real
  dec_e_chg_l1 :: real
  dec_n_in_1st :: u32
  dec_n_in_2nd :: u32
  dec_n_out_0th :: u32
  dec_n_out_1st :: u32
  dec_addr_mask :: u64

definition SIM_array_dec_select_cap :: "tech \<Rightarrow> u32 \<Rightarrow> real" where
  "SIM_array_dec_select_cap T n_input =
     dbl32 n_input * SIM_power_draincap T (WdecNORn T) NCH 1 + SIM_power_draincap T (WdecNORp T) PCH (sint n_input)
     + (SIM_power_draincap T (Wdecinvn T) NCH 1 + SIM_power_draincap T (Wdecinvp T) PCH 1
        + SIM_power_gatecap T (Wdecinvn T + Wdecinvp T) 20)"

definition SIM_array_dec_chgaddr_cap :: "tech \<Rightarrow> u32 \<Rightarrow> real" where
  "SIM_array_dec_chgaddr_cap T n_gates =
     SIM_power_draincap T (Wdecdrivep T) PCH 1 + SIM_power_draincap T (Wdecdriven T) NCH 1
     + SIM_power_gatecap T (Wdecdrivep T) 1 + SIM_power_gatecap T (Wdecdriven T) 1
     + (SIM_power_draincap T (Wdecinvp T) PCH 1 + SIM_power_draincap T (Wdecinvn T) NCH 1
        + SIM_power_gatecap T (Wdecinvp T) 1 + SIM_power_gatecap T (Wdecinvn T) 1) / 2
     + dbl32 n_gates * SIM_power_gatecap T (Wdec3to8n T + Wdec3to8p T) 10"

definition SIM_array_dec_chgl1_cap :: "tech \<Rightarrow> u32 \<Rightarrow> u32 \<Rightarrow> u32 \<Rightarrow> real" where
  "SIM_array_dec_chgl1_cap T n_in_1st n_in_2nd n_gates =
     dbl32 n_in_1st * SIM_power_draincap T (Wdec3to8p T) PCH 1
     + SIM_power_draincap T (Wdec3to8n T) NCH (sint n_in_1st)
     + dbl32 n_gates * SIM_power_gatecap T (WdecNORn T + WdecNORp T) (dbl32 (n_in_2nd * 40 + 20))"

definition SIM_array_dec_clear_stat :: "SIM_power_dec_t \<Rightarrow> SIM_power_dec_t" where
  "SIM_array_dec_clear_stat d = d\<lparr>dec_n_chg_output := 0, dec_n_chg_l1 := 0, dec_n_chg_addr := 0\<rparr>"

text \<open>The geometry of the decoder tree; the last shift is undefined for very wide decoders.\<close>

definition dec_geometry :: "u32 \<Rightarrow> SIM_power_dec_t \<Rightarrow> SIM_power_dec_t option" where
  "dec_geometry n_bits d =
     (if n_bits \<ge> 4
      then (let n_in_1st = (if n_bits = 4 then 2 else 3)
            in if 64 \<le> unat (n_bits - n_in_1st) then None
               else Some (d\<lparr>dec_n_in_1st := n_in_1st,
                      dec_n_out_0th := ucast (push_bit (unat (n_in_1st - 1)) BIGONE),
                      dec_n_in_2nd := of_int \<lceil>dbl32 n_bits / dbl32 n_in_1st\<rceil>,
                      dec_n_out_1st := ucast (push_bit (unat (n_bits - n_in_1st)) BIGONE)\<rparr>))
      else if n_bits \<ge> 2
      then Some (d\<lparr>dec_n_in_1st := n_bits, dec_n_out_0th := ucast (push_bit (unat (n_bits - 1)) BIGONE),
                   dec_n_in_2nd := 0, dec_n_out_1st := 0\<rparr>)
      else Some (d\<lparr>dec_n_in_1st := 0, dec_n_in_2nd := 0, dec_n_out_0th := 0, dec_n_out_1st := 0\<rparr>))"

definition SIM_array_dec_init :: "tech \<Rightarrow> SIM_power_dec_t \<Rightarrow> int \<Rightarrow> u32 \<Rightarrow> (SIM_power_dec_t \<times> int) option" where
  "SIM_array_dec_init T d model n_bits =
     (let d = d\<lparr>dec_model := model\<rparr>
      in if model \<noteq> 0 \<and> model < DEC_MAX_MODEL
         then (let d = SIM_array_dec_clear_stat (d\<lparr>dec_n_bits := n_bits, dec_addr_mask := HAMM_MASK n_bits\<rparr>);
                   d = d\<lparr>dec_e_chg_output := 0, dec_e_chg_l1 := 0, dec_e_chg_addr := 0\<rparr>
               in map_option
                    (\<lambda>d. (d\<lparr>dec_e_chg_l1 :=
                              (if n_bits \<ge> 2
                               then SIM_array_dec_chgl1_cap T (dec_n_in_1st d) (dec_n_in_2nd d) (dec_n_out_1st d)
                                    * EnergyFactor T
                               else 0),
                            dec_e_chg_output :=
                              (if n_bits \<ge> 4 then SIM_array_dec_select_cap T (dec_n_in_2nd d) * EnergyFactor T else 0),
                            dec_e_chg_addr := SIM_array_dec_chgaddr_cap T (dec_n_out_0th d) * EnergyFactor T\<rparr>, 0))
                    (dec_geometry n_bits d))
         else Some (d, - 1))"

text \<open>The count of changed first-level groups: \<open>n\<close> rounds, each shifting the mask by one group.\<close>

fun dec_chg_l1 :: "u64 \<Rightarrow> u64 \<Rightarrow> u32 \<Rightarrow> u64 \<Rightarrow> nat \<Rightarrow> u32 option" where
  "dec_chg_l1 prev_addr curr_addr n_in_1st msk 0 = Some 0"
| "dec_chg_l1 prev_addr curr_addr n_in_1st msk (Suc n) =
     (if 64 \<le> unat n_in_1st then None
      else map_option (\<lambda>c. (if SIM_power_Hamming prev_addr curr_addr msk \<noteq> 0 then 1 else 0) + c)
             (dec_chg_l1 prev_addr curr_addr n_in_1st (push_bit (unat n_in_1st) msk) n))"

definition SIM_array_dec_record :: "SIM_power_dec_t \<Rightarrow> u64 \<Rightarrow> u64 \<Rightarrow> SIM_power_dec_t option" where
  "SIM_array_dec_record d prev_addr curr_addr =
     (let n_chg_bits = SIM_power_Hamming prev_addr curr_addr (dec_addr_mask d)
      in if n_chg_bits \<noteq> 0
         then map_option
                (\<lambda>n_chg_l1. d\<lparr>dec_n_chg_addr := dec_n_chg_addr d + ucast n_chg_bits,
                             dec_n_chg_l1 := dec_n_chg_l1 d + ucast n_chg_l1,
                             dec_n_chg_output := dec_n_chg_output d + (if dec_n_bits d \<ge> 4 then 1 else 0)\<rparr>)
                (if dec_n_bits d \<ge> 4
                 then dec_chg_l1 prev_addr curr_addr (dec_n_in_1st d) (HAMM_MASK (dec_n_in_1st d)) (unat (dec_n_in_2nd d))
                 else if dec_n_bits d \<ge> 2 then Some 1 else Some 0)
         else Some d)"

definition SIM_array_dec_report :: "SIM_power_dec_t \<Rightarrow> real" where
  "SIM_array_dec_report d =
     dbl64 (dec_n_chg_output d) * dec_e_chg_output d + dbl64 (dec_n_chg_l1 d) * dec_e_chg_l1 d
     + dbl64 (dec_n_chg_addr d) * dec_e_chg_addr d"

section \<open>Wordlines\<close>

definition CACHE_RW_WORDLINE :: int where
  "CACHE_RW_WORDLINE = 1"

definition CACHE_WO_WORDLINE :: int where
  "CACHE_WO_WORDLINE = 2"

definition CAM_RW_WORDLINE :: int where
  "CAM_RW_WORDLINE = 3"

definition CAM_WO_WORDLINE :: int where
  "CAM_WO_WORDLINE = 4"

definition WORDLINE_MAX_MODEL :: int where
  "WORDLINE_MAX_MODEL = 5"

record SIM_power_wordline_t =
  wl_model :: int
  wl_share_rw :: int
  wl_n_read :: u64
  wl_n_write :: u64
  wl_e_read :: real
  wl_e_write :: real

definition SIM_array_wordline_cap :: "tech \<Rightarrow> u32 \<Rightarrow> real \<Rightarrow> real \<Rightarrow> real" where
  "SIM_array_wordline_cap T cols wire_cap tx_width =
     (let Cline = SIM_power_gatecappass T tx_width (BitWidth T / 2 - tx_width) * dbl32 cols + wire_cap;
          psize = SIM_power_driver_size T Cline (Period T / 16);
          nsize = psize * Wdecinvn T / Wdecinvp T
      in Cline + (SIM_power_draincap T nsize NCH 1 + SIM_power_draincap T psize PCH 1
                  + SIM_power_gatecap T (nsize + psize) 20))"

definition SIM_array_wordline_clear_stat :: "SIM_power_wordline_t \<Rightarrow> SIM_power_wordline_t" where
  "SIM_array_wordline_clear_stat w = w\<lparr>wl_n_read := 0, wl_n_write := 0\<rparr>"

definition SIM_array_wordline_init :: "tech \<Rightarrow> SIM_power_wordline_t \<Rightarrow> int \<Rightarrow> int \<Rightarrow> u32 \<Rightarrow> real \<Rightarrow> u32
    \<Rightarrow> SIM_power_wordline_t \<times> int" where
  "SIM_array_wordline_init T w model share_rw cols wire_cap end =
     (let w = w\<lparr>wl_model := model\<rparr>
      in if model \<noteq> 0 \<and> model < WORDLINE_MAX_MODEL
         then (let w = SIM_array_wordline_clear_stat w
               in (if model = CAM_RW_WORDLINE
                   then (let e_read = SIM_cam_wordline_cap T (cols * end) wire_cap (Wmemcellr T) * EnergyFactor T
                         in w\<lparr>wl_e_read := e_read, wl_share_rw := share_rw,
                              wl_e_write := (if share_rw \<noteq> 0 then e_read
                                else SIM_cam_wordline_cap T (cols * 2) wire_cap (Wmemcellw T) * EnergyFactor T)\<rparr>)
                   else if model = CAM_WO_WORDLINE
                   then w\<lparr>wl_share_rw := 0, wl_e_read := 0,
                          wl_e_write := SIM_cam_wordline_cap T (cols * 2) wire_cap (Wmemcellw T) * EnergyFactor T\<rparr>
                   else if model = CACHE_WO_WORDLINE
                   then w\<lparr>wl_share_rw := 0, wl_e_read := 0,
                          wl_e_write := SIM_array_wordline_cap T (cols * 2) wire_cap (Wmemcellw T) * EnergyFactor T\<rparr>
                   else if model = CACHE_RW_WORDLINE
                   then (let e_read = SIM_array_wordline_cap T (cols * end) wire_cap (Wmemcellr T) * EnergyFactor T
                         in w\<lparr>wl_e_read := e_read, wl_share_rw := share_rw,
                              wl_e_write := (if share_rw \<noteq> 0 then e_read
                                else SIM_array_wordline_cap T (cols * 2) wire_cap (Wmemcellw T) * EnergyFactor T)\<rparr>)
                   else w, 0))
         else (w, - 1))"

definition SIM_array_wordline_record :: "SIM_power_wordline_t \<Rightarrow> int \<Rightarrow> u64 \<Rightarrow> SIM_power_wordline_t" where
  "SIM_array_wordline_record w rw n_switch =
     (if rw \<noteq> 0 then w\<lparr>wl_n_write := wl_n_write w + n_switch\<rparr> else w\<lparr>wl_n_read := wl_n_read w + n_switch\<rparr>)"

definition SIM_array_wordline_report :: "SIM_power_wordline_t \<Rightarrow> real" where
  "SIM_array_wordline_report w = dbl64 (wl_n_read w) * wl_e_read w + dbl64 (wl_n_write w) * wl_e_write w"

section \<open>Bitlines\<close>

definition RW_BITLINE :: int where
  "RW_BITLINE = 1"

definition WO_BITLINE :: int where
  "WO_BITLINE = 2"

definition BITLINE_MAX_MODEL :: int where
  "BITLINE_MAX_MODEL = 3"

record SIM_power_bitline_t =
  bl_model :: int
  bl_share_rw :: int
  bl_end :: u32
  bl_n_col_write :: u64
  bl_n_col_read :: u64
  bl_n_col_sel :: u64
  bl_e_col_write :: real
  bl_e_col_read :: real
  bl_e_col_sel :: real

definition SIM_array_column_read_cap :: "tech \<Rightarrow> u32 \<Rightarrow> real \<Rightarrow> u32 \<Rightarrow> u32 \<Rightarrow> u32 \<Rightarrow> u32 \<Rightarrow> real \<Rightarrow> int \<Rightarrow> real" where
  "SIM_array_column_read_cap T rows wire_cap end n_share_amp n_bitline_pre n_colsel_pre pre_size outdrv_model =
     dbl32 n_bitline_pre * SIM_power_draincap T pre_size PCH 1
     + dbl32 rows * SIM_power_draincap T (Wmemcellr T) NCH 1
     + wire_cap
     + (if end = 1
        then SIM_power_gatecap T (MSCALE T * (29.9 + 7.8)) 0 + SIM_power_gatecap T (MSCALE T * (47 + 12)) 0
        else if n_share_amp > 1
        then dbl32 (n_share_amp + 1) * SIM_power_draincap T (Wbitmuxn T) NCH 1
             + dbl32 n_colsel_pre * SIM_power_draincap T pre_size PCH 1
        else 0)
     + (if end = 2 then 2 * SIM_power_gatecap T (WsenseQ1to4 T) 10
        else if outdrv_model \<noteq> 0
        then SIM_power_gatecap T (Woutdrvnandn T) 1 + SIM_power_gatecap T (Woutdrvnandp T) 1
             + SIM_power_gatecap T (Woutdrvnorn T) 1 + SIM_power_gatecap T (Woutdrvnorp T) 1
        else 0)"

definition SIM_array_column_select_cap :: "tech \<Rightarrow> real" where
  "SIM_array_column_select_cap T = SIM_power_gatecap T (Wbitmuxn T) 1"

definition SIM_array_column_write_cap :: "tech \<Rightarrow> u32 \<Rightarrow> real \<Rightarrow> real" where
  "SIM_array_column_write_cap T rows wire_cap =
     (let Ctotal = dbl32 rows * SIM_power_draincap T (Wmemcellw T) NCH 1 + wire_cap;
          psize = SIM_power_driver_size T Ctotal (Period T / 8);
          nsize = psize * Wdecinvn T / Wdecinvp T
      in Ctotal + (SIM_power_draincap T psize PCH 1 + SIM_power_draincap T nsize NCH 1
                   + SIM_power_gatecap T (psize + nsize) 1))"

definition SIM_array_share_column_write_cap :: "tech \<Rightarrow> u32 \<Rightarrow> real \<Rightarrow> u32 \<Rightarrow> u32 \<Rightarrow> real \<Rightarrow> real" where
  "SIM_array_share_column_write_cap T rows wire_cap n_share_amp n_bitline_pre pre_size =
     (let Ctotal = dbl32 n_bitline_pre * SIM_power_draincap T pre_size PCH 1
            + dbl32 rows * SIM_power_draincap T (Wmemcellr T) NCH 1
            + wire_cap
            + (if n_share_amp > 1 then SIM_power_draincap T (Wbitmuxn T) NCH 1
               else 2 * SIM_power_gatecap T (WsenseQ1to4 T) 10);
          psize = SIM_power_driver_size T Ctotal (Period T / 8);
          nsize = psize * Wdecinvn T / Wdecinvp T
      in Ctotal + (SIM_power_draincap T psize PCH 1 + SIM_power_draincap T nsize NCH 1))"

definition SIM_array_share_column_read_cap :: "tech \<Rightarrow> u32 \<Rightarrow> real \<Rightarrow> u32 \<Rightarrow> u32 \<Rightarrow> u32 \<Rightarrow> real \<Rightarrow> real" where
  "SIM_array_share_column_read_cap T rows wire_cap n_share_amp n_bitline_pre n_colsel_pre pre_size =
     SIM_array_share_column_write_cap T rows wire_cap n_share_amp n_bitline_pre pre_size
     + (if n_share_amp > 1
        then dbl32 n_share_amp * SIM_power_draincap T (Wbitmuxn T) NCH 1
             + dbl32 n_colsel_pre * SIM_power_draincap T pre_size PCH 1
             + 2 * SIM_power_gatecap T (WsenseQ1to4 T) 10
        else 0)"

definition SIM_array_bitline_clear_stat :: "SIM_power_bitline_t \<Rightarrow> SIM_power_bitline_t" where
  "SIM_array_bitline_clear_stat b = b\<lparr>bl_n_col_write := 0, bl_n_col_read := 0, bl_n_col_sel := 0\<rparr>"

definition SIM_array_bitline_init :: "tech \<Rightarrow> SIM_power_bitline_t \<Rightarrow> int \<Rightarrow> int \<Rightarrow> u32 \<Rightarrow> u32 \<Rightarrow> real \<Rightarrow> u32 \<Rightarrow> u32 \<Rightarrow> u32
    \<Rightarrow> real \<Rightarrow> int \<Rightarrow> SIM_power_bitline_t \<times> int" where
  "SIM_array_bitline_init T b model share_rw end rows wire_cap n_share_amp n_bitline_pre n_colsel_pre pre_size outdrv_model =
     (let b = b\<lparr>bl_model := model\<rparr>
      in if model \<noteq> 0 \<and> model < BITLINE_MAX_MODEL
         then (let b = SIM_array_bitline_clear_stat (b\<lparr>bl_end := end\<rparr>)
               in (if model = RW_BITLINE
                   then (let b = b\<lparr>bl_e_col_sel := (if end = 2 then SIM_array_column_select_cap T * EnergyFactor T else 0),
                                   bl_share_rw := share_rw\<rparr>
                         in if share_rw \<noteq> 0
                            then b\<lparr>bl_e_col_read := SIM_array_share_column_read_cap T rows wire_cap n_share_amp
                                       n_bitline_pre n_colsel_pre pre_size * SenseEnergyFactor T,
                                   bl_e_col_write := SIM_array_share_column_write_cap T rows wire_cap n_share_amp
                                       n_bitline_pre pre_size * EnergyFactor T\<rparr>
                            else b\<lparr>bl_e_col_read := SIM_array_column_read_cap T rows wire_cap end n_share_amp
                                       n_bitline_pre n_colsel_pre pre_size outdrv_model
                                       * (if end = 2 then SenseEnergyFactor T else EnergyFactor T),
                                   bl_e_col_write := SIM_array_column_write_cap T rows wire_cap * EnergyFactor T\<rparr>)
                   else if model = WO_BITLINE
                   then b\<lparr>bl_share_rw := 0, bl_e_col_sel := 0, bl_e_col_read := 0,
                          bl_e_col_write := SIM_array_column_write_cap T rows wire_cap * EnergyFactor T\<rparr>
                   else b, 0))
         else (b, - 1))"

definition is_rw_bitline :: "int \<Rightarrow> bool" where
  "is_rw_bitline model \<longleftrightarrow> model = RW_BITLINE"

definition SIM_array_bitline_record :: "SIM_power_bitline_t \<Rightarrow> int \<Rightarrow> u32 \<Rightarrow> u64 \<Rightarrow> u64 \<Rightarrow> SIM_power_bitline_t" where
  "SIM_array_bitline_record b rw cols old_value new_value =
     (let msk = HAMM_MASK cols
      in if rw \<noteq> 0
         then b\<lparr>bl_n_col_write := bl_n_col_write b
                  + (if bl_share_rw b \<noteq> 0 then ucast cols else ucast (SIM_power_Hamming old_value new_value msk))\<rparr>
         else b\<lparr>bl_n_col_read := bl_n_col_read b
                  + (if bl_end b = 2 then ucast cols else ucast (SIM_power_Hamming msk (NOT new_value) msk))\<rparr>)"

definition SIM_array_bitline_report :: "SIM_power_bitline_t \<Rightarrow> real" where
  "SIM_array_bitline_report b =
     dbl64 (bl_n_col_write b) * bl_e_col_write b + dbl64 (bl_n_col_read b) * bl_e_col_read b
     + dbl64 (bl_n_col_sel b) * bl_e_col_sel b"

section \<open>Sense amplifier\<close>

definition GENERIC_AMP :: int where
  "GENERIC_AMP = 1"

definition AMP_MAX_MODEL :: int where
  "AMP_MAX_MODEL = 2"

record SIM_power_amp_t =
  amp_model :: int
  amp_n_access :: u64
  amp_e_access :: real

definition SIM_array_amp_energy :: "tech \<Rightarrow> real" where
  "SIM_array_amp_energy T = Vdd T / 8 * Period T * PARM_amp_Idsat"

definition SIM_array_amp_clear_stat :: "SIM_power_amp_t \<Rightarrow> SIM_power_amp_t" where
  "SIM_array_amp_clear_stat a = a\<lparr>amp_n_access := 0\<rparr>"

definition SIM_array_amp_init :: "tech \<Rightarrow> SIM_power_amp_t \<Rightarrow> int \<Rightarrow> SIM_power_amp_t \<times> int" where
  "SIM_array_amp_init T a model =
     (let a = a\<lparr>amp_model := model\<rparr>
      in if model \<noteq> 0 \<and> model < AMP_MAX_MODEL
         then ((SIM_array_amp_clear_stat a)\<lparr>amp_e_access := SIM_array_amp_energy T\<rparr>, 0)
         else (a, - 1))"

definition SIM_array_amp_record :: "SIM_power_amp_t \<Rightarrow> u32 \<Rightarrow> SIM_power_amp_t" where
  "SIM_array_amp_record a cols = a\<lparr>amp_n_access := amp_n_access a + ucast cols\<rparr>"

definition SIM_array_amp_report :: "SIM_power_amp_t \<Rightarrow> real" where
  "SIM_array_amp_report a = dbl64 (amp_n_access a) * amp_e_access a"

section \<open>Tag comparator\<close>

definition CACHE_COMP :: int where
  "CACHE_COMP = 1"

definition CAM_COMP :: int where
  "CAM_COMP = 2"

definition COMP_MAX_MODEL :: int where
  "COMP_MAX_MODEL = 3"

record SIM_power_comp_t =
  comp_cell_model :: int
  comp_n_bits :: u32
  comp_assoc :: u32
  comp_n_access :: u64
  comp_n_match :: u64
  comp_n_mismatch :: u64
  comp_n_miss :: u64
  comp_n_bit_match :: u64
  comp_n_bit_mismatch :: u64
  comp_n_chg_addr :: u64
  comp_e_access :: real
  comp_e_match :: real
  comp_e_mismatch :: real
  comp_e_miss :: real
  comp_e_bit_match :: real
  comp_e_bit_mismatch :: real
  comp_e_chg_addr :: real
  comp_mask :: u64

definition SIM_array_comp_base_cap :: "tech \<Rightarrow> real" where
  "SIM_array_comp_base_cap T =
     SIM_power_draincap T (Wevalinvp T) PCH 1 + SIM_power_draincap T (Wevalinvn T) NCH 1
     + SIM_power_gatecap T (Wevalinvp T) 1 + SIM_power_gatecap T (Wevalinvn T) 1
     + SIM_power_draincap T (Wcompinvp1 T) PCH 1 + SIM_power_draincap T (Wcompinvn1 T) NCH 1
     + SIM_power_gatecap T (Wcompinvp1 T) 1 + SIM_power_gatecap T (Wcompinvn1 T) 1
     + SIM_power_draincap T (Wcompinvp2 T) PCH 1 + SIM_power_draincap T (Wcompinvn2 T) NCH 1
     + SIM_power_gatecap T (Wcompinvp2 T) 1 + SIM_power_gatecap T (Wcompinvn2 T) 1
     + SIM_power_draincap T (Wcompinvp3 T) PCH 1 + SIM_power_draincap T (Wcompinvn3 T) NCH 1
     + SIM_power_gatecap T (Wcompinvp3 T) 1 + SIM_power_gatecap T (Wcompinvn3 T) 1"

definition SIM_array_comp_match_cap :: "tech \<Rightarrow> u32 \<Rightarrow> real" where
  "SIM_array_comp_match_cap T n_bits =
     dbl32 n_bits * (SIM_power_draincap T (Wcompn T) NCH 1 + SIM_power_draincap T (Wcompn T) NCH 2)"

definition SIM_array_comp_mismatch_cap :: "tech \<Rightarrow> u32 \<Rightarrow> real" where
  "SIM_array_comp_mismatch_cap T n_pre =
     dbl32 n_pre * SIM_power_draincap T (Wcomppreequ T) PCH 1
     + (SIM_power_gatecap T (WdecNORn T) 1 + SIM_power_gatecap T (WdecNORp T) 3)"

definition SIM_array_comp_miss_cap :: "tech \<Rightarrow> u32 \<Rightarrow> real" where
  "SIM_array_comp_miss_cap T assoc =
     dbl32 assoc * SIM_power_draincap T (WdecNORn T) NCH 1 + SIM_power_draincap T (WdecNORp T) PCH (sint assoc)"

definition SIM_array_comp_bit_match_cap :: "tech \<Rightarrow> real" where
  "SIM_array_comp_bit_match_cap T =
     2 * (SIM_power_draincap T (Wcompn T) NCH 1 + SIM_power_draincap T (Wcompn T) NCH 2)"

definition SIM_array_comp_bit_mismatch_cap :: "tech \<Rightarrow> real" where
  "SIM_array_comp_bit_mismatch_cap T =
     3 * SIM_power_draincap T (Wcompn T) NCH 1 + SIM_power_draincap T (Wcompn T) NCH 2"

definition SIM_array_comp_chgaddr_cap :: "tech \<Rightarrow> real" where
  "SIM_array_comp_chgaddr_cap T = SIM_power_gatecap T (Wcompn T) 1"

definition SIM_array_comp_clear_stat :: "SIM_power_comp_t \<Rightarrow> SIM_power_comp_t" where
  "SIM_array_comp_clear_stat c =
     c\<lparr>comp_n_access := 0, comp_n_miss := 0, comp_n_chg_addr := 0, comp_n_match := 0,
       comp_n_mismatch := 0, comp_n_bit_match := 0, comp_n_bit_mismatch := 0\<rparr>"

definition SIM_array_comp_init :: "tech \<Rightarrow> SIM_power_comp_t \<Rightarrow> int \<Rightarrow> u32 \<Rightarrow> u32 \<Rightarrow> u32 \<Rightarrow> real \<Rightarrow> real
    \<Rightarrow> SIM_power_comp_t \<times> int" where
  "SIM_array_comp_init T c model n_bits assoc n_pre matchline_len tagline_len =
     (let c = c\<lparr>comp_cell_model := model\<rparr>
      in if model \<noteq> 0 \<and> model < COMP_MAX_MODEL
         then (let c = SIM_array_comp_clear_stat
                         (c\<lparr>comp_n_bits := n_bits, comp_assoc := assoc, comp_mask := HAMM_MASK n_bits\<rparr>)
               in (if model = CACHE_COMP
                   then c\<lparr>comp_e_access := SIM_array_comp_base_cap T * EnergyFactor T,
                          comp_e_match := SIM_array_comp_match_cap T n_bits * EnergyFactor T,
                          comp_e_mismatch := SIM_array_comp_mismatch_cap T n_pre * EnergyFactor T,
                          comp_e_miss := SIM_array_comp_miss_cap T assoc * EnergyFactor T,
                          comp_e_bit_match := SIM_array_comp_bit_match_cap T * EnergyFactor T,
                          comp_e_bit_mismatch := SIM_array_comp_bit_mismatch_cap T * EnergyFactor T,
                          comp_e_chg_addr := SIM_array_comp_chgaddr_cap T * EnergyFactor T\<rparr>
                   else if model = CAM_COMP
                   then c\<lparr>comp_e_access := 0, comp_e_match := 0, comp_e_bit_match := 0, comp_e_bit_mismatch := 0,
                          comp_e_chg_addr := SIM_cam_comp_tagline_cap T assoc tagline_len * EnergyFactor T,
                          comp_e_mismatch := SIM_cam_comp_mismatch_cap T n_bits n_pre matchline_len * EnergyFactor T,
                          comp_e_miss := SIM_cam_comp_miss_cap T assoc * EnergyFactor T\<rparr>
                   else c, 0))
         else (c, - 1))"

definition SIM_array_comp_global_record :: "SIM_power_comp_t \<Rightarrow> u64 \<Rightarrow> u64 \<Rightarrow> int \<Rightarrow> SIM_power_comp_t" where
  "SIM_array_comp_global_record c prev_value curr_value miss =
     (let c = (if miss \<noteq> 0 then c\<lparr>comp_n_miss := comp_n_miss c + 1\<rparr> else c);
          H = SIM_power_Hamming prev_value curr_value (comp_mask c)
      in if comp_cell_model c = CACHE_COMP
         then c\<lparr>comp_n_access := comp_n_access c + 1,
                comp_n_chg_addr := comp_n_chg_addr c + ucast (H * comp_assoc c)\<rparr>
         else if comp_cell_model c = CAM_COMP then c\<lparr>comp_n_chg_addr := comp_n_chg_addr c + ucast H\<rparr>
         else c)"

text \<open>
  The result is the mismatch flag. \<^verbatim>\<open>comp->n_bits - H_dist\<close> is an unsigned 32-bit subtraction.
\<close>

definition SIM_array_comp_local_record :: "SIM_power_comp_t \<Rightarrow> u64 \<Rightarrow> u64 \<Rightarrow> u64 \<Rightarrow> int \<Rightarrow> SIM_power_comp_t \<times> int" where
  "SIM_array_comp_local_record c prev_tag curr_tag inp recover =
     (let mismatch = curr_tag \<noteq> inp;
          c = (if mismatch then c\<lparr>comp_n_mismatch := comp_n_mismatch c + 1\<rparr> else c);
          H = SIM_power_Hamming prev_tag curr_tag (comp_mask c);
          H_dist = SIM_power_Hamming curr_tag inp (comp_mask c)
      in (if comp_cell_model c = CACHE_COMP
          then (let c = c\<lparr>comp_n_chg_addr := comp_n_chg_addr c + ucast (if recover \<noteq> 0 then 2 * H else H)\<rparr>
                in if mismatch
                   then c\<lparr>comp_n_bit_mismatch := comp_n_bit_mismatch c + ucast H_dist,
                          comp_n_bit_match := comp_n_bit_match c + ucast (comp_n_bits c - H_dist)\<rparr>
                   else c\<lparr>comp_n_match := comp_n_match c + 1\<rparr>)
          else c, if mismatch then 1 else 0))"

definition SIM_array_comp_report :: "SIM_power_comp_t \<Rightarrow> real" where
  "SIM_array_comp_report c =
     dbl64 (comp_n_access c) * comp_e_access c + dbl64 (comp_n_match c) * comp_e_match c
     + dbl64 (comp_n_mismatch c) * comp_e_mismatch c + dbl64 (comp_n_miss c) * comp_e_miss c
     + dbl64 (comp_n_bit_match c) * comp_e_bit_match c + dbl64 (comp_n_chg_addr c) * comp_e_chg_addr c
     + dbl64 (comp_n_bit_mismatch c) * comp_e_bit_mismatch c"

section \<open>Multiplexor\<close>

definition GENERIC_MUX :: int where
  "GENERIC_MUX = 1"

definition MUX_MAX_MODEL :: int where
  "MUX_MAX_MODEL = 2"

record SIM_power_mux_t =
  mux_cell_model :: int
  mux_assoc :: u32
  mux_n_mismatch :: u64
  mux_n_chg_addr :: u64
  mux_e_mismatch :: real
  mux_e_chg_addr :: real

definition SIM_array_mux_mismatch_cap :: "tech \<Rightarrow> u32 \<Rightarrow> real" where
  "SIM_array_mux_mismatch_cap T n_nor_gates =
     SIM_power_draincap T (Wmuxdrv12n T) NCH 1 + SIM_power_draincap T (Wmuxdrv12p T) PCH 1
     + SIM_power_gatecap T (Wmuxdrv12n T) 1 + SIM_power_gatecap T (Wmuxdrv12p T) 1
     + dbl32 n_nor_gates * (SIM_power_gatecap T (WmuxdrvNORn T) 1 + SIM_power_gatecap T (WmuxdrvNORp T) 1)
     + (SIM_power_draincap T (WmuxdrvNORp T) PCH 2 + 2 * SIM_power_draincap T (WmuxdrvNORn T) NCH 1)
     + (SIM_power_gatecap T (Wmuxdrv3n T) 1 + SIM_power_gatecap T (Wmuxdrv3p T) 1
        + SIM_power_draincap T (Wmuxdrv3n T) NCH 1 + SIM_power_draincap T (Wmuxdrv3p T) PCH 1)"

definition SIM_array_mux_chgaddr_cap :: "tech \<Rightarrow> real" where
  "SIM_array_mux_chgaddr_cap T = SIM_power_gatecap T (WmuxdrvNORn T) 1 + SIM_power_gatecap T (WmuxdrvNORp T) 1"

definition SIM_array_mux_clear_stat :: "SIM_power_mux_t \<Rightarrow> SIM_power_mux_t" where
  "SIM_array_mux_clear_stat m = m\<lparr>mux_n_mismatch := 0, mux_n_chg_addr := 0\<rparr>"

definition SIM_array_mux_init :: "tech \<Rightarrow> SIM_power_mux_t \<Rightarrow> int \<Rightarrow> u32 \<Rightarrow> u32 \<Rightarrow> SIM_power_mux_t \<times> int" where
  "SIM_array_mux_init T m model n_gates assoc =
     (let m = m\<lparr>mux_cell_model := model\<rparr>
      in if model \<noteq> 0 \<and> model < MUX_MAX_MODEL
         then ((SIM_array_mux_clear_stat (m\<lparr>mux_assoc := assoc\<rparr>))\<lparr>
                  mux_e_mismatch := SIM_array_mux_mismatch_cap T n_gates * EnergyFactor T,
                  mux_e_chg_addr := SIM_array_mux_chgaddr_cap T * EnergyFactor T\<rparr>, 0)
         else (m, - 1))"

definition SIM_array_mux_record :: "SIM_power_mux_t \<Rightarrow> u64 \<Rightarrow> u64 \<Rightarrow> int \<Rightarrow> SIM_power_mux_t" where
  "SIM_array_mux_record m prev_addr curr_addr miss =
     m\<lparr>mux_n_chg_addr := mux_n_chg_addr m + (if prev_addr \<noteq> curr_addr then ucast (mux_assoc m) else 0),
       mux_n_mismatch := mux_n_mismatch m + ucast (if miss \<noteq> 0 then mux_assoc m else mux_assoc m - 1)\<rparr>"

definition SIM_array_mux_report :: "SIM_power_mux_t \<Rightarrow> real" where
  "SIM_array_mux_report m =
     dbl64 (mux_n_mismatch m) * mux_e_mismatch m + dbl64 (mux_n_chg_addr m) * mux_e_chg_addr m"

section \<open>Output driver\<close>

definition CACHE_OUTDRV :: int where
  "CACHE_OUTDRV = 1"

definition CAM_OUTDRV :: int where
  "CAM_OUTDRV = 2"

definition REG_OUTDRV :: int where
  "REG_OUTDRV = 3"

definition OUTDRV_MAX_MODEL :: int where
  "OUTDRV_MAX_MODEL = 4"

record SIM_power_out_t =
  out_model :: int
  out_item_width :: u32
  out_n_select :: u64
  out_n_chg_data :: u64
  out_n_out_1 :: u64
  out_n_out_0 :: u64
  out_e_select :: real
  out_e_chg_data :: real
  out_e_out_1 :: real
  out_e_out_0 :: real
  out_mask :: u64

definition SIM_array_outdrv_select_cap :: "tech \<Rightarrow> u32 \<Rightarrow> real" where
  "SIM_array_outdrv_select_cap T data_width =
     SIM_power_gatecap T (Woutdrvseln T) 1 + SIM_power_gatecap T (Woutdrvselp T) 1
     + SIM_power_draincap T (Woutdrvseln T) NCH 1 + SIM_power_draincap T (Woutdrvselp T) PCH 1
     + dbl32 data_width * (SIM_power_gatecap T (Woutdrvnandn T) 1 + SIM_power_gatecap T (Woutdrvnandp T) 1
         + SIM_power_gatecap T (Woutdrvnorn T) 1 + SIM_power_gatecap T (Woutdrvnorp T) 1)"

definition SIM_array_outdrv_chgdata_cap :: "tech \<Rightarrow> real" where
  "SIM_array_outdrv_chgdata_cap T =
     (SIM_power_gatecap T (Woutdrvnandn T) 1 + SIM_power_gatecap T (Woutdrvnandp T) 1
      + SIM_power_gatecap T (Woutdrvnorn T) 1 + SIM_power_gatecap T (Woutdrvnorp T) 1) / 2"

definition SIM_array_outdrv_outdata_cap :: "tech \<Rightarrow> u32 \<Rightarrow> real" where
  "SIM_array_outdrv_outdata_cap T val =
     (if val \<noteq> 0 then SIM_power_draincap T (Woutdrvnandn T) NCH 2 + 2 * SIM_power_draincap T (Woutdrvnandp T) PCH 1
      else 2 * SIM_power_draincap T (Woutdrvnorn T) NCH 1 + SIM_power_draincap T (Woutdrvnorp T) PCH 2)
     + (if val \<noteq> 0 then SIM_power_gatecap T (Woutdriverp T) 1 else SIM_power_gatecap T (Woutdrivern T) 1)"

definition SIM_array_outdrv_clear_stat :: "SIM_power_out_t \<Rightarrow> SIM_power_out_t" where
  "SIM_array_outdrv_clear_stat d = d\<lparr>out_n_select := 0, out_n_chg_data := 0, out_n_out_0 := 0, out_n_out_1 := 0\<rparr>"

definition SIM_array_outdrv_init :: "tech \<Rightarrow> SIM_power_out_t \<Rightarrow> int \<Rightarrow> u32 \<Rightarrow> SIM_power_out_t \<times> int" where
  "SIM_array_outdrv_init T d model item_width =
     (let d = d\<lparr>out_model := model\<rparr>
      in if model \<noteq> 0 \<and> model < OUTDRV_MAX_MODEL
         then (let d = (SIM_array_outdrv_clear_stat
                         (d\<lparr>out_item_width := item_width, out_mask := HAMM_MASK item_width\<rparr>))\<lparr>
                          out_e_select := SIM_array_outdrv_select_cap T item_width * EnergyFactor T,
                          out_e_out_1 := SIM_array_outdrv_outdata_cap T 1 * EnergyFactor T,
                          out_e_out_0 := SIM_array_outdrv_outdata_cap T 0 * EnergyFactor T\<rparr>
               in (if model = CACHE_OUTDRV
                   then d\<lparr>out_e_chg_data := SIM_array_outdrv_chgdata_cap T * EnergyFactor T\<rparr>
                   else if model = CAM_OUTDRV \<or> model = REG_OUTDRV then d\<lparr>out_e_chg_data := 0\<rparr>
                   else d, 0))
         else (d, - 1))"

text \<open>\<^verbatim>\<open>outdrv->item_width - n_1\<close> is an unsigned 32-bit subtraction.\<close>

definition SIM_array_outdrv_global_record :: "SIM_power_out_t \<Rightarrow> u64 \<Rightarrow> SIM_power_out_t" where
  "SIM_array_outdrv_global_record d data =
     (let n_1 = SIM_power_Hamming data 0 (out_mask d)
      in d\<lparr>out_n_select := out_n_select d + 1,
           out_n_out_1 := out_n_out_1 d + ucast n_1,
           out_n_out_0 := out_n_out_0 d + ucast (out_item_width d - n_1)\<rparr>)"

definition SIM_array_outdrv_local_record :: "SIM_power_out_t \<Rightarrow> u64 \<Rightarrow> u64 \<Rightarrow> int \<Rightarrow> SIM_power_out_t" where
  "SIM_array_outdrv_local_record d prev_data curr_data recover =
     (let H = SIM_power_Hamming prev_data curr_data (out_mask d)
      in d\<lparr>out_n_chg_data := out_n_chg_data d + ucast (if recover \<noteq> 0 then 2 * H else H)\<rparr>)"

definition SIM_array_outdrv_report :: "SIM_power_out_t \<Rightarrow> real" where
  "SIM_array_outdrv_report d =
     dbl64 (out_n_select d) * out_e_select d + dbl64 (out_n_chg_data d) * out_e_chg_data d
     + dbl64 (out_n_out_1 d) * out_e_out_1 d + dbl64 (out_n_out_0 d) * out_e_out_0 d"

section \<open>Memory cell\<close>

definition NORMAL_MEM :: int where
  "NORMAL_MEM = 1"

definition CAM_TAG_RW_MEM :: int where
  "CAM_TAG_RW_MEM = 2"

definition CAM_TAG_WO_MEM :: int where
  "CAM_TAG_WO_MEM = 3"

definition CAM_DATA_MEM :: int where
  "CAM_DATA_MEM = 4"

definition CAM_ATTACH_MEM :: int where
  "CAM_ATTACH_MEM = 5"

definition MEM_MAX_MODEL :: int where
  "MEM_MAX_MODEL = 6"

definition SIM_ARRAY_RW :: int where
  "SIM_ARRAY_RW = 0"

definition SIM_ARRAY_WO :: int where
  "SIM_ARRAY_WO = 1"

record SIM_power_mem_t =
  mem_model :: int
  mem_end :: u32
  mem_n_switch :: u64
  mem_e_switch :: real

definition SIM_array_mem_cap :: "tech \<Rightarrow> u32 \<Rightarrow> u32 \<Rightarrow> int \<Rightarrow> u32 \<Rightarrow> real" where
  "SIM_array_mem_cap T read_ports write_ports share_rw end =
     SIM_power_draincap T (Wmemcellr T) NCH 1 * dbl32 read_ports * dbl32 end / 2
     + (if share_rw = 0 then SIM_power_draincap T (Wmemcellw T) NCH 1 * dbl32 write_ports else 0)
     + (SIM_power_draincap T (Wmemcella T) NCH 1 + SIM_power_draincap T (Wmemcella T * Wmemcellbscale) PCH 1)
     + (SIM_power_gatecap T (Wmemcella T) 1 + SIM_power_gatecap T (Wmemcella T * Wmemcellbscale) 1)"

definition SIM_array_mem_clear_stat :: "SIM_power_mem_t \<Rightarrow> SIM_power_mem_t" where
  "SIM_array_mem_clear_stat m = m\<lparr>mem_n_switch := 0\<rparr>"

definition SIM_array_mem_init :: "tech \<Rightarrow> SIM_power_mem_t \<Rightarrow> int \<Rightarrow> u32 \<Rightarrow> u32 \<Rightarrow> int \<Rightarrow> u32 \<Rightarrow> SIM_power_mem_t \<times> int" where
  "SIM_array_mem_init T m model read_ports write_ports share_rw end =
     (let m = m\<lparr>mem_model := model\<rparr>
      in if model \<noteq> 0 \<and> model < MEM_MAX_MODEL
         then (let m = SIM_array_mem_clear_stat (m\<lparr>mem_end := end\<rparr>)
               in (m\<lparr>mem_e_switch :=
                     (if model = CAM_TAG_RW_MEM
                      then SIM_cam_tag_mem_cap T read_ports write_ports share_rw end SIM_ARRAY_RW
                      else if model = CAM_ATTACH_MEM \<or> model = CAM_TAG_WO_MEM
                      then SIM_cam_tag_mem_cap T read_ports write_ports share_rw end SIM_ARRAY_WO
                      else if model = CAM_DATA_MEM then SIM_cam_data_mem_cap T read_ports write_ports
                      else SIM_array_mem_cap T read_ports write_ports share_rw end) * EnergyFactor T\<rparr>, 0))
         else (m, - 1))"

definition SIM_array_mem_record :: "SIM_power_mem_t \<Rightarrow> u64 \<Rightarrow> u64 \<Rightarrow> u32 \<Rightarrow> SIM_power_mem_t" where
  "SIM_array_mem_record m prev_value curr_value width =
     m\<lparr>mem_n_switch := mem_n_switch m + ucast (SIM_power_Hamming prev_value curr_value (HAMM_MASK width))\<rparr>"

definition SIM_array_mem_report :: "SIM_power_mem_t \<Rightarrow> real" where
  "SIM_array_mem_report m = dbl64 (mem_n_switch m) * mem_e_switch m"

section \<open>Precharge\<close>

definition SINGLE_BITLINE :: int where
  "SINGLE_BITLINE = 1"

definition EQU_BITLINE :: int where
  "EQU_BITLINE = 2"

definition SINGLE_OTHER :: int where
  "SINGLE_OTHER = 3"

definition PRE_MAX_MODEL :: int where
  "PRE_MAX_MODEL = 4"

record SIM_power_arr_pre_t =
  pre_model :: int
  pre_n_charge :: u64
  pre_e_charge :: real

definition SIM_array_pre_cap :: "tech \<Rightarrow> real \<Rightarrow> real \<Rightarrow> real" where
  "SIM_array_pre_cap T width len = SIM_power_gatecap T width len"

definition n_pre_gate :: "int \<Rightarrow> u32" where
  "n_pre_gate model =
     (if model = SINGLE_BITLINE then 2 else if model = EQU_BITLINE then 3 else if model = SINGLE_OTHER then 1 else 0)"

definition n_pre_drain :: "int \<Rightarrow> u32" where
  "n_pre_drain model =
     (if model = SINGLE_BITLINE then 1 else if model = EQU_BITLINE then 2 else if model = SINGLE_OTHER then 1 else 0)"

definition SIM_array_pre_clear_stat :: "SIM_power_arr_pre_t \<Rightarrow> SIM_power_arr_pre_t" where
  "SIM_array_pre_clear_stat p = p\<lparr>pre_n_charge := 0\<rparr>"

definition SIM_array_pre_init :: "tech \<Rightarrow> SIM_power_arr_pre_t \<Rightarrow> int \<Rightarrow> real \<Rightarrow> SIM_power_arr_pre_t \<times> int" where
  "SIM_array_pre_init T p model pre_size =
     (let p = p\<lparr>pre_model := model\<rparr>
      in if model \<noteq> 0 \<and> model < PRE_MAX_MODEL
         then ((SIM_array_pre_clear_stat p)\<lparr>
                 pre_e_charge := SIM_array_pre_cap T pre_size 10 * dbl32 (n_pre_gate model) * EnergyFactor T\<rparr>, 0)
         else (p, - 1))"

definition SIM_array_pre_record :: "SIM_power_arr_pre_t \<Rightarrow> u64 \<Rightarrow> SIM_power_arr_pre_t" where
  "SIM_array_pre_record p n_charge = p\<lparr>pre_n_charge := pre_n_charge p + n_charge\<rparr>"

definition SIM_array_pre_report :: "SIM_power_arr_pre_t \<Rightarrow> real" where
  "SIM_array_pre_report p = dbl64 (pre_n_charge p) * pre_e_charge p"

section \<open>The parts as meters\<close>

text \<open>For every part: its events, its counters with their energies, and what an event adds.\<close>

lemmas [record_simps] =
  SIM_array_wordline_record_def SIM_array_bitline_record_def SIM_array_amp_record_def SIM_array_mux_record_def
  SIM_array_comp_global_record_def SIM_array_comp_local_record_def SIM_array_outdrv_global_record_def
  SIM_array_outdrv_local_record_def SIM_array_mem_record_def SIM_array_pre_record_def
  SIM_array_dec_clear_stat_def SIM_array_wordline_clear_stat_def SIM_array_bitline_clear_stat_def
  SIM_array_amp_clear_stat_def SIM_array_comp_clear_stat_def SIM_array_mux_clear_stat_def
  SIM_array_outdrv_clear_stat_def SIM_array_mem_clear_stat_def SIM_array_pre_clear_stat_def Let_def

lemmas [report_simps] =
  SIM_array_dec_report_def SIM_array_wordline_report_def SIM_array_bitline_report_def SIM_array_amp_report_def
  SIM_array_comp_report_def SIM_array_mux_report_def SIM_array_outdrv_report_def SIM_array_mem_report_def
  SIM_array_pre_report_def

lemma dec_chg_l1_Some:
  "unat n_in_1st < 64 \<Longrightarrow> \<exists>c. dec_chg_l1 prev_addr curr_addr n_in_1st msk n = Some c"
  by (induction n arbitrary: msk) auto

definition dec_wf :: "SIM_power_dec_t \<Rightarrow> bool" where
  "dec_wf d \<longleftrightarrow> unat (dec_n_in_1st d) < 64"

definition dec_groups :: "SIM_power_dec_t \<Rightarrow> u64 \<Rightarrow> u64 \<Rightarrow> u32" where
  "dec_groups d p c =
     (if dec_n_bits d \<ge> 4
      then the (dec_chg_l1 p c (dec_n_in_1st d) (HAMM_MASK (dec_n_in_1st d)) (unat (dec_n_in_2nd d)))
      else if dec_n_bits d \<ge> 2 then 1 else 0)"

definition dec_step :: "u64 \<times> u64 \<Rightarrow> SIM_power_dec_t \<Rightarrow> SIM_power_dec_t option" where
  "dec_step e d = SIM_array_dec_record d (fst e) (snd e)"

definition dec_counters :: "SIM_power_dec_t \<Rightarrow> u64 list" where
  "dec_counters d = [dec_n_chg_output d, dec_n_chg_l1 d, dec_n_chg_addr d]"

definition dec_weights :: "SIM_power_dec_t \<Rightarrow> real list" where
  "dec_weights d = [dec_e_chg_output d, dec_e_chg_l1 d, dec_e_chg_addr d]"

definition dec_incs :: "SIM_power_dec_t \<Rightarrow> u64 \<times> u64 \<Rightarrow> u64 list" where
  "dec_incs d e =
     (let h = SIM_power_Hamming (fst e) (snd e) (dec_addr_mask d)
      in if h = 0 then [0, 0, 0]
         else [if dec_n_bits d \<ge> 4 then 1 else 0, ucast (dec_groups d (fst e) (snd e)), ucast h])"

lemmas dec_meter_defs = dec_wf_def dec_step_def dec_counters_def dec_weights_def dec_incs_def

interpretation dec: clearable_meter dec_step SIM_array_dec_report dec_counters dec_weights dec_incs "\<lambda>d e. True" dec_wf
  SIM_array_dec_clear_stat
proof unfold_locales
  fix d and e :: "u64 \<times> u64"
  assume "dec_wf d"
  then obtain c where c: "dec_chg_l1 (fst e) (snd e) (dec_n_in_1st d) (HAMM_MASK (dec_n_in_1st d)) (unat (dec_n_in_2nd d)) = Some c"
    using dec_chg_l1_Some unfolding dec_wf_def by blast
  show "\<exists>d'. dec_step e d = Some d' \<and> dec_wf d' \<and> dec_counters d' = bump (dec_counters d) (dec_incs d e)
      \<and> dec_weights d' = dec_weights d \<and> dec_incs d' = dec_incs d \<and> (\<lambda>e. True) = (\<lambda>e. True)"
    using c \<open>dec_wf d\<close>
    by (auto simp: dec_meter_defs dec_groups_def SIM_array_dec_record_def Let_def fun_eq_iff)
qed (auto simp: dec_meter_defs dec_groups_def record_simps report_simps numeral_3_eq_3 fun_eq_iff)

definition wl_step :: "int \<times> u64 \<Rightarrow> SIM_power_wordline_t \<Rightarrow> SIM_power_wordline_t option" where
  "wl_step e w = Some (SIM_array_wordline_record w (fst e) (snd e))"

definition wl_counters :: "SIM_power_wordline_t \<Rightarrow> u64 list" where
  "wl_counters w = [wl_n_read w, wl_n_write w]"

definition wl_weights :: "SIM_power_wordline_t \<Rightarrow> real list" where
  "wl_weights w = [wl_e_read w, wl_e_write w]"

definition wl_incs :: "SIM_power_wordline_t \<Rightarrow> int \<times> u64 \<Rightarrow> u64 list" where
  "wl_incs w e = (if fst e \<noteq> 0 then [0, snd e] else [snd e, 0])"

interpretation wl: clearable_meter wl_step SIM_array_wordline_report wl_counters wl_weights wl_incs "\<lambda>w e. True"
  "\<lambda>w. True" SIM_array_wordline_clear_stat
  by unfold_locales (auto simp: wl_step_def wl_counters_def wl_weights_def wl_incs_def record_simps report_simps
      numeral_2_eq_2 fun_eq_iff)

type_synonym bl_event = "int \<times> u32 \<times> u64 \<times> u64"

definition bl_step :: "bl_event \<Rightarrow> SIM_power_bitline_t \<Rightarrow> SIM_power_bitline_t option" where
  "bl_step e b = (case e of (rw, cols, old_value, new_value) \<Rightarrow> Some (SIM_array_bitline_record b rw cols old_value new_value))"

definition bl_counters :: "SIM_power_bitline_t \<Rightarrow> u64 list" where
  "bl_counters b = [bl_n_col_write b, bl_n_col_read b, bl_n_col_sel b]"

definition bl_weights :: "SIM_power_bitline_t \<Rightarrow> real list" where
  "bl_weights b = [bl_e_col_write b, bl_e_col_read b, bl_e_col_sel b]"

definition bl_incs :: "SIM_power_bitline_t \<Rightarrow> bl_event \<Rightarrow> u64 list" where
  "bl_incs b e = (case e of (rw, cols, old_value, new_value) \<Rightarrow>
     if rw \<noteq> 0
     then [if bl_share_rw b \<noteq> 0 then ucast cols else ucast (SIM_power_Hamming old_value new_value (HAMM_MASK cols)), 0, 0]
     else [0, if bl_end b = 2 then ucast cols
              else ucast (SIM_power_Hamming (HAMM_MASK cols) (NOT new_value) (HAMM_MASK cols)), 0])"

interpretation bl: clearable_meter bl_step SIM_array_bitline_report bl_counters bl_weights bl_incs "\<lambda>b e. True"
  "\<lambda>b. True" SIM_array_bitline_clear_stat
  by unfold_locales (auto simp: bl_step_def bl_counters_def bl_weights_def bl_incs_def record_simps report_simps
      numeral_3_eq_3 fun_eq_iff split: prod.splits)

interpretation amp: clearable_meter "\<lambda>cols a. Some (SIM_array_amp_record a cols)" SIM_array_amp_report
  "\<lambda>a. [amp_n_access a]" "\<lambda>a. [amp_e_access a]" "\<lambda>a cols. [ucast cols]" "\<lambda>a e. True" "\<lambda>a. True"
  SIM_array_amp_clear_stat
  by unfold_locales (auto simp: record_simps report_simps)

interpretation pre: clearable_meter "\<lambda>n p. Some (SIM_array_pre_record p n)" SIM_array_pre_report
  "\<lambda>p. [pre_n_charge p]" "\<lambda>p. [pre_e_charge p]" "\<lambda>p n. [n]" "\<lambda>p e. True" "\<lambda>p. True" SIM_array_pre_clear_stat
  by unfold_locales (auto simp: record_simps report_simps bump_def)

type_synonym mem_event = "u64 \<times> u64 \<times> u32"

definition mem_step :: "mem_event \<Rightarrow> SIM_power_mem_t \<Rightarrow> SIM_power_mem_t option" where
  "mem_step e m = (case e of (prev_value, curr_value, width) \<Rightarrow> Some (SIM_array_mem_record m prev_value curr_value width))"

definition mem_incs :: "SIM_power_mem_t \<Rightarrow> mem_event \<Rightarrow> u64 list" where
  "mem_incs m e = (case e of (prev_value, curr_value, width) \<Rightarrow>
     [ucast (SIM_power_Hamming prev_value curr_value (HAMM_MASK width))])"

interpretation mem: clearable_meter mem_step SIM_array_mem_report "\<lambda>m. [mem_n_switch m]" "\<lambda>m. [mem_e_switch m]"
  mem_incs "\<lambda>m e. True" "\<lambda>m. True" SIM_array_mem_clear_stat
  by unfold_locales (auto simp: mem_step_def mem_incs_def record_simps report_simps fun_eq_iff split: prod.splits)

type_synonym mux_event = "u64 \<times> u64 \<times> int"

definition mux_step :: "mux_event \<Rightarrow> SIM_power_mux_t \<Rightarrow> SIM_power_mux_t option" where
  "mux_step e m = (case e of (prev_addr, curr_addr, miss) \<Rightarrow> Some (SIM_array_mux_record m prev_addr curr_addr miss))"

definition mux_counters :: "SIM_power_mux_t \<Rightarrow> u64 list" where
  "mux_counters m = [mux_n_mismatch m, mux_n_chg_addr m]"

definition mux_weights :: "SIM_power_mux_t \<Rightarrow> real list" where
  "mux_weights m = [mux_e_mismatch m, mux_e_chg_addr m]"

definition mux_incs :: "SIM_power_mux_t \<Rightarrow> mux_event \<Rightarrow> u64 list" where
  "mux_incs m e = (case e of (prev_addr, curr_addr, miss) \<Rightarrow>
     [ucast (if miss \<noteq> 0 then mux_assoc m else mux_assoc m - 1),
      if prev_addr \<noteq> curr_addr then ucast (mux_assoc m) else 0])"

interpretation mux: clearable_meter mux_step SIM_array_mux_report mux_counters mux_weights mux_incs "\<lambda>m e. True"
  "\<lambda>m. True" SIM_array_mux_clear_stat
  by unfold_locales (auto simp: mux_step_def mux_counters_def mux_weights_def mux_incs_def record_simps report_simps
      numeral_2_eq_2 fun_eq_iff split: prod.splits)

datatype out_event = Out_global u64 | Out_local u64 u64 int

fun out_step :: "out_event \<Rightarrow> SIM_power_out_t \<Rightarrow> SIM_power_out_t option" where
  "out_step (Out_global data) d = Some (SIM_array_outdrv_global_record d data)"
| "out_step (Out_local prev_data curr_data recover) d = Some (SIM_array_outdrv_local_record d prev_data curr_data recover)"

definition out_counters :: "SIM_power_out_t \<Rightarrow> u64 list" where
  "out_counters d = [out_n_select d, out_n_chg_data d, out_n_out_1 d, out_n_out_0 d]"

definition out_weights :: "SIM_power_out_t \<Rightarrow> real list" where
  "out_weights d = [out_e_select d, out_e_chg_data d, out_e_out_1 d, out_e_out_0 d]"

fun out_incs :: "SIM_power_out_t \<Rightarrow> out_event \<Rightarrow> u64 list" where
  "out_incs d (Out_global data) =
     (let n_1 = SIM_power_Hamming data 0 (out_mask d) in [1, 0, ucast n_1, ucast (out_item_width d - n_1)])"
| "out_incs d (Out_local prev_data curr_data recover) =
     (let H = SIM_power_Hamming prev_data curr_data (out_mask d) in [0, ucast (if recover \<noteq> 0 then 2 * H else H), 0, 0])"

lemma out_incs_cong:
  "out_mask d = out_mask d' \<Longrightarrow> out_item_width d = out_item_width d' \<Longrightarrow> out_incs d = out_incs d'"
proof (rule ext)
  fix e assume "out_mask d = out_mask d'" "out_item_width d = out_item_width d'"
  then show "out_incs d e = out_incs d' e" by (cases e) (simp_all add: Let_def)
qed

interpretation out: clearable_meter out_step SIM_array_outdrv_report out_counters out_weights out_incs "\<lambda>d e. True"
  "\<lambda>d. True" SIM_array_outdrv_clear_stat
proof unfold_locales
  fix d e
  show "\<exists>d'. out_step e d = Some d' \<and> True \<and> out_counters d' = bump (out_counters d) (out_incs d e)
      \<and> out_weights d' = out_weights d \<and> out_incs d' = out_incs d \<and> (\<lambda>e. True) = (\<lambda>e. True)"
    by (cases e) (auto simp: out_counters_def out_weights_def record_simps intro!: out_incs_cong)
qed (auto simp: out_counters_def out_weights_def record_simps report_simps numeral_eq_Suc intro!: out_incs_cong)

datatype comp_event = Comp_global u64 u64 int | Comp_local u64 u64 u64 int

fun comp_step :: "comp_event \<Rightarrow> SIM_power_comp_t \<Rightarrow> SIM_power_comp_t option" where
  "comp_step (Comp_global prev_value curr_value miss) c = Some (SIM_array_comp_global_record c prev_value curr_value miss)"
| "comp_step (Comp_local prev_tag curr_tag inp recover) c =
     Some (fst (SIM_array_comp_local_record c prev_tag curr_tag inp recover))"

definition comp_counters :: "SIM_power_comp_t \<Rightarrow> u64 list" where
  "comp_counters c = [comp_n_access c, comp_n_match c, comp_n_mismatch c, comp_n_miss c, comp_n_bit_match c,
     comp_n_chg_addr c, comp_n_bit_mismatch c]"

definition comp_weights :: "SIM_power_comp_t \<Rightarrow> real list" where
  "comp_weights c = [comp_e_access c, comp_e_match c, comp_e_mismatch c, comp_e_miss c, comp_e_bit_match c,
     comp_e_chg_addr c, comp_e_bit_mismatch c]"

fun comp_incs :: "SIM_power_comp_t \<Rightarrow> comp_event \<Rightarrow> u64 list" where
  "comp_incs c (Comp_global prev_value curr_value miss) =
     (let H = SIM_power_Hamming prev_value curr_value (comp_mask c); m = (if miss \<noteq> 0 then 1 else 0)
      in if comp_cell_model c = CACHE_COMP then [1, 0, 0, m, 0, ucast (H * comp_assoc c), 0]
         else if comp_cell_model c = CAM_COMP then [0, 0, 0, m, 0, ucast H, 0] else [0, 0, 0, m, 0, 0, 0])"
| "comp_incs c (Comp_local prev_tag curr_tag inp recover) =
     (let H = SIM_power_Hamming prev_tag curr_tag (comp_mask c); D = SIM_power_Hamming curr_tag inp (comp_mask c);
          m = (if curr_tag \<noteq> inp then 1 else 0)
      in if comp_cell_model c = CACHE_COMP
         then [0, 1 - m, m, 0, if curr_tag \<noteq> inp then ucast (comp_n_bits c - D) else 0,
               ucast (if recover \<noteq> 0 then 2 * H else H), if curr_tag \<noteq> inp then ucast D else 0]
         else [0, 0, m, 0, 0, 0, 0])"

lemma comp_incs_cong:
  "comp_mask c = comp_mask c' \<Longrightarrow> comp_cell_model c = comp_cell_model c' \<Longrightarrow> comp_assoc c = comp_assoc c' \<Longrightarrow>
   comp_n_bits c = comp_n_bits c' \<Longrightarrow> comp_incs c = comp_incs c'"
proof (rule ext)
  fix e assume "comp_mask c = comp_mask c'" "comp_cell_model c = comp_cell_model c'" "comp_assoc c = comp_assoc c'"
    "comp_n_bits c = comp_n_bits c'"
  then show "comp_incs c e = comp_incs c' e" by (cases e) (simp_all add: Let_def)
qed

interpretation comp: clearable_meter comp_step SIM_array_comp_report comp_counters comp_weights comp_incs "\<lambda>c e. True"
  "\<lambda>c. True" SIM_array_comp_clear_stat
proof unfold_locales
  fix c e
  show "\<exists>c'. comp_step e c = Some c' \<and> True \<and> comp_counters c' = bump (comp_counters c) (comp_incs c e)
      \<and> comp_weights c' = comp_weights c \<and> comp_incs c' = comp_incs c \<and> (\<lambda>e. True) = (\<lambda>e. True)"
    by (cases e) (auto simp: comp_counters_def comp_weights_def record_simps intro!: comp_incs_cong)
qed (auto simp: comp_counters_def comp_weights_def record_simps report_simps numeral_eq_Suc intro!: comp_incs_cong)

end
