(* ===== verification/Orion_Array.thy ===== *)
theory Orion_Array
  imports Orion_Cells "HOL-Library.Monad_Syntax" "HOL-Library.Sublist"
begin

text \<open>
  Orion's array model as a whole: the array of parts and its description, initialisation, report
  and reset of \<^verbatim>\<open>SIM_power_array_l.c\<close>, and the prototype-level operations of \<^verbatim>\<open>SIM_power_array_m.c\<close>
  that a cache, register file or router buffer calls on each access. Byte buffers live in an explicit
  memory, because callers may pass overlapping buffers. The callbacks through which the code reads
  the simulated cache entries are fields of the description.
\<close>

section \<open>The array and its description\<close>

definition SIM_NO_MODEL :: int where
  "SIM_NO_MODEL = 0"

definition SIM_ARRAY_READ :: int where
  "SIM_ARRAY_READ = 0"

definition SIM_ARRAY_WRITE :: int where
  "SIM_ARRAY_WRITE = 1"

definition SIM_ARRAY_RECOVER :: int where
  "SIM_ARRAY_RECOVER = 1"

record SIM_power_array_t =
  row_dec :: SIM_power_dec_t
  col_dec :: SIM_power_dec_t
  data_wordline :: SIM_power_wordline_t
  tag_wordline :: SIM_power_wordline_t
  data_bitline :: SIM_power_bitline_t
  tag_bitline :: SIM_power_bitline_t
  data_mem :: SIM_power_mem_t
  tag_mem :: SIM_power_mem_t
  tag_attach_mem :: SIM_power_mem_t
  data_amp :: SIM_power_amp_t
  tag_amp :: SIM_power_amp_t
  arr_comp :: SIM_power_comp_t
  arr_mux :: SIM_power_mux_t
  outdrv :: SIM_power_out_t
  row_dec_pre :: SIM_power_arr_pre_t
  col_dec_pre :: SIM_power_arr_pre_t
  data_bitline_pre :: SIM_power_arr_pre_t
  tag_bitline_pre :: SIM_power_arr_pre_t
  data_colsel_pre :: SIM_power_arr_pre_t
  tag_colsel_pre :: SIM_power_arr_pre_t
  comp_pre :: SIM_power_arr_pre_t

text \<open>The type parameters are what the code holds behind untyped pointers: a cache entry and a set.\<close>

record ('e, 's) SIM_power_array_info_t =
  share_rw :: int
  read_ports :: u32
  write_ports :: u32
  n_set :: u32
  blk_bits :: u32
  assoc :: u32
  row_dec_model :: int
  data_width :: u32
  col_dec_model :: int
  mux_model :: int
  outdrv_model :: int
  tag_addr_width :: u32
  tag_line_width :: u32
  comp_model :: int
  data_ndwl :: u32
  data_ndbl :: u32
  data_nspd :: u32
  data_n_share_amp :: u32
  data_end :: u32
  data_wordline_model :: int
  data_bitline_model :: int
  data_amp_model :: int
  data_mem_model :: int
  tag_ndwl :: u32
  tag_ndbl :: u32
  tag_nspd :: u32
  tag_n_share_amp :: u32
  tag_end :: u32
  tag_wordline_model :: int
  tag_bitline_model :: int
  tag_amp_model :: int
  tag_mem_model :: int
  tag_attach_mem_model :: int
  row_dec_pre_model :: int
  col_dec_pre_model :: int
  data_bitline_pre_model :: int
  tag_bitline_pre_model :: int
  data_colsel_pre_model :: int
  tag_colsel_pre_model :: int
  comp_pre_model :: int
  n_item :: u32
  eff_data_cols :: u32
  eff_tag_cols :: u32
  use_bit_width :: u32
  valid_bit_width :: u32
  write_policy :: int
  get_entry_valid_bit :: "'e \<Rightarrow> u32"
  get_entry_dirty_bit :: "'e \<Rightarrow> u32"
  get_set_use_bit :: "'s option \<Rightarrow> nat \<Rightarrow> u32"
  get_entry_tag :: "'e \<Rightarrow> u64"
  get_set_tag :: "'s option \<Rightarrow> nat \<Rightarrow> u64"
  data_arr_width :: real
  tag_arr_width :: real
  data_arr_height :: real
  tag_arr_height :: real

record SIM_array_port_state_t =
  row_addr :: u64
  col_addr :: u64
  tag_addr :: u64
  tag_line :: u64
  data_line :: "u8 list"

text \<open>A null entry is \<^term>\<open>None\<close>.\<close>

record ('e, 's) SIM_array_set_state_t =
  set_entry :: "'e option"
  set_entry_set :: "'s option"
  write_flag :: int
  write_back_flag :: int
  valid_bak :: u32
  dirty_bak :: u32
  tag_bak :: u64
  use_bak :: "u32 list"

section \<open>Initialisation\<close>

text \<open>The wire capacitances by port count and bitline ends, wordline first.\<close>

definition array_cmetal :: "tech \<Rightarrow> u32 \<Rightarrow> u32 \<Rightarrow> real \<times> real" where
  "array_cmetal T ports d_end =
     (if ports > 1 then (CC3M3metal T, CC3M2metal T)
      else if d_end = 2 then (CM3metal T, CC3M2metal T)
      else (CM3metal T, CM2metal T))"

text \<open>The size of the precharge transistors for a bitline of the given geometry.\<close>

definition array_pre_size :: "tech \<Rightarrow> u32 \<Rightarrow> real \<Rightarrow> real \<Rightarrow> real" where
  "array_pre_size T rows bitline_cmetal bitline_len =
     (let Cline = dbl32 rows * SIM_power_draincap T (Wmemcellr T) NCH 1 + bitline_cmetal * bitline_len;
          pre_size = SIM_power_driver_size T Cline (Period T / 8)
      in pre_size + pre_size * Wdecinvn T / Wdecinvp T)"

definition array_sanity :: "('e, 's) SIM_power_array_info_t \<Rightarrow> ('e, 's) SIM_power_array_info_t" where
  "array_sanity info =
     (let info = (if read_ports info = 0 then info\<lparr>share_rw := 0\<rparr> else info)
      in if share_rw info \<noteq> 0 then info\<lparr>data_end := 2, tag_end := 2\<rparr> else info)"

definition array_ports :: "('e, 's) SIM_power_array_info_t \<Rightarrow> u32" where
  "array_ports info = (if share_rw info \<noteq> 0 then read_ports info else read_ports info + write_ports info)"

text \<open>
  The data array in three steps: the row decoder with the bitlines of a set-associative or a fully
  associative array, the column side up to the output driver, and both in sequence.
\<close>

definition array_rows_init :: "tech \<Rightarrow> ('e, 's) SIM_power_array_info_t \<Rightarrow> SIM_power_array_t
    \<Rightarrow> (('e, 's) SIM_power_array_info_t \<times> SIM_power_array_t \<times> u32 \<times> real) option" where
  "array_rows_init T info arr = do {
     let ports = array_ports info;
     let bitline_cmetal = snd (array_cmetal T ports (data_end info));
     dec_width \<leftarrow> SIM_power_logtwo (ucast (n_set info));
     if dec_width \<noteq> 0
     then do {
       (d, _) \<leftarrow> SIM_array_dec_init T (row_dec arr) (row_dec_model info) dec_width;
       if data_ndbl info = 0 \<or> data_nspd info = 0 \<or> data_ndwl info = 0 then None
       else do {
         let rows = n_set info div data_ndbl info div data_nspd info;
         let cols = blk_bits info * assoc info * data_nspd info div data_ndwl info;
         let bitline_len = dbl32 rows * (RegCellHeight T + dbl32 ports * WordlineSpacing T);
         let wordline_len =
           (if data_end info = 2 then dbl32 cols * (RegCellWidth T + dbl32 (2 * ports) * BitlineSpacing T)
            else dbl32 cols * (RegCellWidth T + dbl32 (2 * ports - read_ports info) * BitlineSpacing T));
         let pre_size = array_pre_size T rows bitline_cmetal bitline_len;
         let n_bitline_pre = n_pre_drain (data_bitline_pre_model info);
         let n_colsel_pre = (if data_n_share_amp info > 1 then n_pre_drain (data_colsel_pre_model info) else 0);
         Some (info\<lparr>data_arr_width := wordline_len, data_arr_height := bitline_len\<rparr>,
               arr\<lparr>row_dec := d,
                   data_bitline := fst (SIM_array_bitline_init T (data_bitline arr) (data_bitline_model info)
                     (share_rw info) (data_end info) rows (bitline_len * bitline_cmetal) (data_n_share_amp info)
                     n_bitline_pre n_colsel_pre pre_size (outdrv_model info)),
                   data_bitline_pre := fst (SIM_array_pre_init T (data_bitline_pre arr)
                     (data_bitline_pre_model info) pre_size),
                   data_colsel_pre := (if data_n_share_amp info > 1
                     then fst (SIM_array_pre_init T (data_colsel_pre arr) (data_colsel_pre_model info) pre_size)
                     else data_colsel_pre arr),
                   data_amp := fst (SIM_array_amp_init T (data_amp arr) (data_amp_model info))\<rparr>,
               cols, wordline_len)
       }
     }
     else do {
       let rows = assoc info;
       let cols = blk_bits info;
       let bitline_len = dbl32 rows * (RegCellHeight T + dbl32 (write_ports info) * WordlineSpacing T);
       let wordline_len = dbl32 cols * (RegCellWidth T + dbl32 (2 * write_ports info) * BitlineSpacing T);
       Some (info\<lparr>data_arr_width := wordline_len, data_arr_height := bitline_len\<rparr>,
             arr\<lparr>data_bitline := fst (SIM_array_bitline_init T (data_bitline arr) (data_bitline_model info)
                   0 (data_end info) rows (bitline_len * bitline_cmetal) 1 0 0 0 (outdrv_model info))\<rparr>,
             cols, wordline_len)
     }
   }"

definition array_cols_init :: "tech \<Rightarrow> ('e, 's) SIM_power_array_info_t \<Rightarrow> SIM_power_array_t \<Rightarrow> u32 \<Rightarrow> real \<Rightarrow> real
    \<Rightarrow> SIM_power_array_t option" where
  "array_cols_init T info arr cols wordline_len wordline_cmetal = do {
     let arr = arr\<lparr>data_wordline := fst (SIM_array_wordline_init T (data_wordline arr) (data_wordline_model info)
                 (share_rw info) cols (wordline_len * wordline_cmetal) (data_end info))\<rparr>;
     dec_width \<leftarrow> SIM_power_logtwo (ucast (n_item info));
     arr \<leftarrow>
       (if dec_width \<noteq> 0
        then do {
          (d, _) \<leftarrow> SIM_array_dec_init T (col_dec arr) (col_dec_model info) dec_width;
          Some (arr\<lparr>arr_mux := fst (SIM_array_mux_init T (arr_mux arr) (mux_model info) (n_item info) (assoc info)),
                    col_dec := d\<rparr>)
        }
        else Some arr);
     Some (arr\<lparr>
       data_mem := fst (SIM_array_mem_init T (data_mem arr) (data_mem_model info) (read_ports info) (write_ports info)
         (share_rw info) (data_end info)),
       outdrv := fst (SIM_array_outdrv_init T (outdrv arr) (outdrv_model info) (data_width info))\<rparr>)
   }"

definition array_data_init :: "tech \<Rightarrow> ('e, 's) SIM_power_array_info_t \<Rightarrow> SIM_power_array_t
    \<Rightarrow> (('e, 's) SIM_power_array_info_t \<times> SIM_power_array_t) option" where
  "array_data_init T info arr = do {
     (info, arr, cols, wordline_len) \<leftarrow> array_rows_init T info arr;
     arr \<leftarrow> array_cols_init T info arr cols wordline_len (fst (array_cmetal T (array_ports info) (data_end info)));
     Some (info, arr)
   }"

text \<open>The tag array of a set-associative array.\<close>

definition array_tag_init_sets :: "tech \<Rightarrow> ('e, 's) SIM_power_array_info_t \<Rightarrow> SIM_power_array_t
    \<Rightarrow> (('e, 's) SIM_power_array_info_t \<times> SIM_power_array_t \<times> u32 \<times> real \<times> real \<times> real \<times> real \<times> real) option" where
  "array_tag_init_sets T info arr =
     (if tag_ndbl info = 0 \<or> tag_nspd info = 0 \<or> tag_ndwl info = 0 then None
      else
        (let ports = array_ports info;
             (wordline_cmetal, bitline_cmetal) = array_cmetal T ports (data_end info);
             rows = n_set info div tag_ndbl info div tag_nspd info;
             cols = tag_line_width info * assoc info * tag_nspd info div tag_ndwl info;
             bitline_len = dbl32 rows * (RegCellHeight T + dbl32 ports * WordlineSpacing T);
             wordline_len =
               (if tag_end info = 2 then dbl32 cols * (RegCellWidth T + dbl32 (2 * ports) * BitlineSpacing T)
                else dbl32 cols * (RegCellWidth T + dbl32 (2 * ports - read_ports info) * BitlineSpacing T));
             pre_size = array_pre_size T rows bitline_cmetal bitline_len;
             n_bitline_pre = n_pre_drain (tag_bitline_pre_model info);
             n_colsel_pre = (if tag_n_share_amp info > 1 then n_pre_drain (tag_colsel_pre_model info) else 0)
         in Some (info\<lparr>tag_arr_width := wordline_len, tag_arr_height := bitline_len\<rparr>,
                  arr\<lparr>tag_bitline := fst (SIM_array_bitline_init T (tag_bitline arr) (tag_bitline_model info)
                        (share_rw info) (tag_end info) rows (bitline_len * bitline_cmetal) (tag_n_share_amp info)
                        n_bitline_pre n_colsel_pre pre_size SIM_NO_MODEL),
                      tag_bitline_pre := fst (SIM_array_pre_init T (tag_bitline_pre arr)
                        (tag_bitline_pre_model info) pre_size),
                      tag_colsel_pre := (if tag_n_share_amp info > 1
                        then fst (SIM_array_pre_init T (tag_colsel_pre arr) (tag_colsel_pre_model info) pre_size)
                        else tag_colsel_pre arr),
                      tag_amp := fst (SIM_array_amp_init T (tag_amp arr) (tag_amp_model info))\<rparr>,
                  cols, wordline_len, wordline_cmetal, 0, 0, Wcomppreequ T)))"

text \<open>The tag array of a fully associative array.\<close>

definition array_tag_init_cam :: "tech \<Rightarrow> ('e, 's) SIM_power_array_info_t \<Rightarrow> SIM_power_array_t
    \<Rightarrow> ('e, 's) SIM_power_array_info_t \<times> SIM_power_array_t \<times> u32 \<times> real \<times> real \<times> real \<times> real \<times> real" where
  "array_tag_init_cam T info arr =
     (let ports = array_ports info;
          wordline_cmetal = CM3metal T;
          bitline_cmetal = CM2metal T;
          rows = assoc info;
          cols = tag_addr_width info;
          bitline_len = dbl32 rows * (CamCellHeight T + dbl32 ports * WordlineSpacing T
                          + dbl32 (read_ports info) * MatchlineSpacing T);
          wordline_len =
            (if tag_end info = 2
             then dbl32 cols * (CamCellWidth T + dbl32 (2 * ports) * BitlineSpacing T
                    + dbl32 (2 * read_ports info) * TaglineSpacing T)
             else dbl32 cols * (CamCellWidth T + dbl32 (2 * ports - read_ports info) * BitlineSpacing T
                    + dbl32 (2 * read_ports info) * TaglineSpacing T));
          arr =
            (if is_rw_bitline (tag_bitline_model info)
             then (let pre_size = array_pre_size T rows bitline_cmetal bitline_len;
                       n_bitline_pre = n_pre_drain (tag_bitline_pre_model info)
                   in arr\<lparr>tag_bitline := fst (SIM_array_bitline_init T (tag_bitline arr) (tag_bitline_model info)
                            (share_rw info) (tag_end info) rows (bitline_len * bitline_cmetal) 1 n_bitline_pre 0
                            pre_size SIM_NO_MODEL),
                          tag_bitline_pre := fst (SIM_array_pre_init T (tag_bitline_pre arr)
                            (tag_bitline_pre_model info) pre_size),
                          tag_amp := fst (SIM_array_amp_init T (tag_amp arr) (tag_amp_model info))\<rparr>)
             else arr\<lparr>tag_bitline := fst (SIM_array_bitline_init T (tag_bitline arr) (tag_bitline_model info)
                        0 (tag_end info) rows (bitline_len * bitline_cmetal) 1 0 0 0 SIM_NO_MODEL)\<rparr>)
      in (info\<lparr>tag_arr_width := wordline_len, tag_arr_height := bitline_len\<rparr>,
          arr\<lparr>tag_attach_mem := fst (SIM_array_mem_init T (tag_attach_mem arr) (tag_attach_mem_model info)
                (read_ports info) (write_ports info) (share_rw info) (tag_end info))\<rparr>,
          cols, wordline_len, wordline_cmetal, bitline_len, wordline_len, Wmatchpchg T))"

definition array_tag_init :: "tech \<Rightarrow> ('e, 's) SIM_power_array_info_t \<Rightarrow> SIM_power_array_t
    \<Rightarrow> (('e, 's) SIM_power_array_info_t \<times> SIM_power_array_t) option" where
  "array_tag_init T info arr =
     (if tag_mem_model info \<noteq> 0
      then do {
        (info, arr, cols, wordline_len, wordline_cmetal, tagline_len, matchline_len, comp_pre_size) \<leftarrow>
          (if n_set info > 1 then array_tag_init_sets T info arr else Some (array_tag_init_cam T info arr));
        Some (info, arr\<lparr>
          tag_wordline := fst (SIM_array_wordline_init T (tag_wordline arr) (tag_wordline_model info)
            (share_rw info) cols (wordline_len * wordline_cmetal) (tag_end info)),
          arr_comp := fst (SIM_array_comp_init T (arr_comp arr) (comp_model info) (tag_addr_width info) (assoc info)
            (n_pre_drain (comp_pre_model info)) matchline_len tagline_len),
          comp_pre := fst (SIM_array_pre_init T (comp_pre arr) (comp_pre_model info) comp_pre_size),
          tag_mem := fst (SIM_array_mem_init T (tag_mem arr) (tag_mem_model info) (read_ports info) (write_ports info)
            (share_rw info) (tag_end info))\<rparr>)
      }
      else Some (info, arr))"

definition SIM_array_power_init :: "tech \<Rightarrow> ('e, 's) SIM_power_array_info_t \<Rightarrow> SIM_power_array_t
    \<Rightarrow> (('e, 's) SIM_power_array_info_t \<times> SIM_power_array_t) option" where
  "SIM_array_power_init T info arr = do {
     let info = (array_sanity info)\<lparr>data_arr_width := 0, tag_arr_width := 0, data_arr_height := 0, tag_arr_height := 0\<rparr>;
     (info, arr) \<leftarrow> array_data_init T info arr;
     array_tag_init T info arr
   }"

section \<open>Report and reset\<close>

definition SIM_array_power_report :: "('e, 's) SIM_power_array_info_t \<Rightarrow> SIM_power_array_t \<Rightarrow> real" where
  "SIM_array_power_report info arr =
     (if row_dec_model info \<noteq> 0 then SIM_array_dec_report (row_dec arr) else 0)
     + (if col_dec_model info \<noteq> 0 then SIM_array_dec_report (col_dec arr) else 0)
     + (if data_wordline_model info \<noteq> 0 then SIM_array_wordline_report (data_wordline arr) else 0)
     + (if tag_wordline_model info \<noteq> 0 then SIM_array_wordline_report (tag_wordline arr) else 0)
     + (if data_bitline_model info \<noteq> 0 then SIM_array_bitline_report (data_bitline arr) else 0)
     + (if data_bitline_pre_model info \<noteq> 0 then SIM_array_pre_report (data_bitline_pre arr) else 0)
     + (if tag_bitline_model info \<noteq> 0 then SIM_array_bitline_report (tag_bitline arr) else 0)
     + (if data_mem_model info \<noteq> 0 then SIM_array_mem_report (data_mem arr) else 0)
     + (if tag_mem_model info \<noteq> 0 then SIM_array_mem_report (tag_mem arr) else 0)
     + (if data_amp_model info \<noteq> 0 then SIM_array_amp_report (data_amp arr) else 0)
     + (if tag_amp_model info \<noteq> 0 then SIM_array_amp_report (tag_amp arr) else 0)
     + (if comp_model info \<noteq> 0 then SIM_array_comp_report (arr_comp arr) else 0)
     + (if mux_model info \<noteq> 0 then SIM_array_mux_report (arr_mux arr) else 0)
     + (if outdrv_model info \<noteq> 0 then SIM_array_outdrv_report (outdrv arr) else 0)"

definition SIM_array_clear_stat :: "SIM_power_array_t \<Rightarrow> SIM_power_array_t" where
  "SIM_array_clear_stat arr =
     arr\<lparr>row_dec := SIM_array_dec_clear_stat (row_dec arr),
         col_dec := SIM_array_dec_clear_stat (col_dec arr),
         data_wordline := SIM_array_wordline_clear_stat (data_wordline arr),
         tag_wordline := SIM_array_wordline_clear_stat (tag_wordline arr),
         data_bitline := SIM_array_bitline_clear_stat (data_bitline arr),
         tag_bitline := SIM_array_bitline_clear_stat (tag_bitline arr),
         data_mem := SIM_array_mem_clear_stat (data_mem arr),
         tag_mem := SIM_array_mem_clear_stat (tag_mem arr),
         tag_attach_mem := SIM_array_mem_clear_stat (tag_attach_mem arr),
         data_amp := SIM_array_amp_clear_stat (data_amp arr),
         tag_amp := SIM_array_amp_clear_stat (tag_amp arr),
         arr_comp := SIM_array_comp_clear_stat (arr_comp arr),
         arr_mux := SIM_array_mux_clear_stat (arr_mux arr),
         outdrv := SIM_array_outdrv_clear_stat (outdrv arr),
         row_dec_pre := SIM_array_pre_clear_stat (row_dec_pre arr),
         col_dec_pre := SIM_array_pre_clear_stat (col_dec_pre arr),
         data_bitline_pre := SIM_array_pre_clear_stat (data_bitline_pre arr),
         tag_bitline_pre := SIM_array_pre_clear_stat (tag_bitline_pre arr),
         data_colsel_pre := SIM_array_pre_clear_stat (data_colsel_pre arr),
         tag_colsel_pre := SIM_array_pre_clear_stat (tag_colsel_pre arr),
         comp_pre := SIM_array_pre_clear_stat (comp_pre arr)\<rparr>"

section \<open>Prototype-level operations\<close>

definition IS_DIRECT_MAP :: "('e, 's) SIM_power_array_info_t \<Rightarrow> bool" where
  "IS_DIRECT_MAP info \<longleftrightarrow> assoc info = 1"

definition IS_FULLY_ASSOC :: "('e, 's) SIM_power_array_info_t \<Rightarrow> bool" where
  "IS_FULLY_ASSOC info \<longleftrightarrow> n_set info = 1 \<and> assoc info > 1"

definition IS_WRITE_THROUGH :: "('e, 's) SIM_power_array_info_t \<Rightarrow> bool" where
  "IS_WRITE_THROUGH info \<longleftrightarrow> write_policy info = 0"

definition IS_WRITE_BACK :: "('e, 's) SIM_power_array_info_t \<Rightarrow> bool" where
  "IS_WRITE_BACK info \<longleftrightarrow> write_policy info \<noteq> 0"

definition HAVE_TAG :: "('e, 's) SIM_power_array_info_t \<Rightarrow> bool" where
  "HAVE_TAG info \<longleftrightarrow> tag_mem_model info \<noteq> 0"

definition HAVE_USE_BIT :: "('e, 's) SIM_power_array_info_t \<Rightarrow> bool" where
  "HAVE_USE_BIT info \<longleftrightarrow> use_bit_width info \<noteq> 0"

definition HAVE_COL_DEC :: "('e, 's) SIM_power_array_info_t \<Rightarrow> bool" where
  "HAVE_COL_DEC info \<longleftrightarrow> col_dec_model info \<noteq> 0"

definition HAVE_COL_MUX :: "('e, 's) SIM_power_array_info_t \<Rightarrow> bool" where
  "HAVE_COL_MUX info \<longleftrightarrow> mux_model info \<noteq> 0"

definition SIM_array_port_state_init :: "('e, 's) SIM_power_array_info_t \<Rightarrow> SIM_array_port_state_t \<Rightarrow> SIM_array_port_state_t" where
  "SIM_array_port_state_init info port =
     (let port = (if IS_FULLY_ASSOC info \<or> share_rw info = 0
                  then port\<lparr>data_line := replicate (length (data_line port)) 0\<rparr> else port)
      in port\<lparr>tag_line := 0, row_addr := 0, col_addr := 0, tag_addr := 0\<rparr>)"

definition SIM_array_set_state_init :: "('e, 's) SIM_power_array_info_t \<Rightarrow> ('e, 's) SIM_array_set_state_t
    \<Rightarrow> ('e, 's) SIM_array_set_state_t" where
  "SIM_array_set_state_init info st =
     (let st = st\<lparr>set_entry := None, set_entry_set := None\<rparr>
      in if IS_FULLY_ASSOC info then st\<lparr>write_flag := 0, write_back_flag := 0\<rparr> else st)"

definition SIM_power_array_dec :: "('e, 's) SIM_power_array_info_t \<Rightarrow> SIM_power_array_t \<Rightarrow> SIM_array_port_state_t
    \<Rightarrow> u64 \<Rightarrow> int \<Rightarrow> (SIM_power_array_t \<times> SIM_array_port_state_t \<times> int) option" where
  "SIM_power_array_dec info arr port raddr rw =
     (if \<not> IS_FULLY_ASSOC info
      then do {
        (arr, port) \<leftarrow>
          (if row_dec_model info \<noteq> 0
           then do {
             d \<leftarrow> SIM_array_dec_record (row_dec arr) (row_addr port) raddr;
             Some (arr\<lparr>row_dec := d\<rparr>, port\<lparr>row_addr := raddr\<rparr>)
           }
           else Some (arr, port));
        let arr = arr\<lparr>data_wordline := SIM_array_wordline_record (data_wordline arr) rw (ucast (data_ndwl info))\<rparr>;
        let arr = (if HAVE_TAG info
                   then arr\<lparr>tag_wordline := SIM_array_wordline_record (tag_wordline arr) rw (ucast (tag_ndwl info))\<rparr>
                   else arr);
        Some (arr, port, 0)
      }
      else Some (arr, port, - 1))"

definition SIM_power_array_data_read :: "('e, 's) SIM_power_array_info_t \<Rightarrow> SIM_power_array_t \<Rightarrow> u64
    \<Rightarrow> SIM_power_array_t \<times> int" where
  "SIM_power_array_data_read info arr data =
     (if data_end info = 1
      then (arr\<lparr>data_bitline := SIM_array_bitline_record (data_bitline arr) SIM_ARRAY_READ (eff_data_cols info) 0 data\<rparr>, 0)
      else if \<not> IS_FULLY_ASSOC info
      then (arr\<lparr>data_bitline := SIM_array_bitline_record (data_bitline arr) SIM_ARRAY_READ (eff_data_cols info) 0 0,
                data_amp := SIM_array_amp_record (data_amp arr) (eff_data_cols info)\<rparr>, 0)
      else (arr, - 1))"

text \<open>
  Memory: a byte per address. A C \<^verbatim>\<open>char\<close> is signed on the build's target, so a byte passed to a
  64-bit parameter is sign-extended.
\<close>

type_synonym memory = "nat \<Rightarrow> u8"

definition char_arg :: "u8 \<Rightarrow> u64" where
  "char_arg b = scast b"

text \<open>The loop that drives the write bitlines and updates the latched line, byte \<open>i\<close> on.\<close>

fun write_bitlines :: "nat \<Rightarrow> nat \<Rightarrow> nat \<Rightarrow> nat \<Rightarrow> SIM_power_bitline_t \<Rightarrow> memory \<Rightarrow> SIM_power_bitline_t \<times> memory" where
  "write_bitlines line new_data i 0 b m = (b, m)"
| "write_bitlines line new_data i (Suc n) b m =
     write_bitlines line new_data (Suc i) n
       (SIM_array_bitline_record b SIM_ARRAY_WRITE 8 (char_arg (m (line + i))) (char_arg (m (new_data + i))))
       (m(line + i := m (new_data + i)))"

fun write_cells :: "nat \<Rightarrow> nat \<Rightarrow> nat \<Rightarrow> nat \<Rightarrow> SIM_power_mem_t \<Rightarrow> memory \<Rightarrow> SIM_power_mem_t" where
  "write_cells old_data new_data i 0 c m = c"
| "write_cells old_data new_data i (Suc n) c m =
     write_cells old_data new_data (Suc i) n
       (SIM_array_mem_record c (char_arg (m (old_data + i))) (char_arg (m (new_data + i))) 8) m"

definition SIM_power_array_data_write :: "('e, 's) SIM_power_array_info_t \<Rightarrow> SIM_power_array_t
    \<Rightarrow> ('e, 's) SIM_array_set_state_t \<Rightarrow> u32 \<Rightarrow> nat \<Rightarrow> nat \<Rightarrow> nat \<Rightarrow> memory
    \<Rightarrow> SIM_power_array_t \<times> ('e, 's) SIM_array_set_state_t \<times> memory" where
  "SIM_power_array_data_write info arr st n_items line old_data new_data m =
     (let (arr, st, m) =
        (if IS_FULLY_ASSOC info
         then (let (arr, st) =
                 (if write_flag st = 0
                  then (arr\<lparr>data_wordline := SIM_array_wordline_record (data_wordline arr) SIM_ARRAY_WRITE 1\<rparr>,
                        st\<lparr>write_flag := 1\<rparr>)
                  else (arr, st));
                 (b, m) = write_bitlines line new_data 0 (unat n_items) (data_bitline arr) m
               in (arr\<lparr>data_bitline := b\<rparr>, st, m))
         else if share_rw info \<noteq> 0
         then (let b = SIM_array_bitline_record (data_bitline arr) SIM_ARRAY_WRITE (eff_data_cols info) 0 0;
                   b = (if IS_DIRECT_MAP info \<and> data_ndbl info > 1
                        then SIM_array_bitline_record b SIM_ARRAY_WRITE (n_items * 8 * (data_ndbl info - 1)) 0 0 else b)
               in (arr\<lparr>data_bitline := b\<rparr>, st, m))
         else (let (b, m) = write_bitlines line new_data 0 (unat n_items) (data_bitline arr) m
               in (arr\<lparr>data_bitline := b\<rparr>, st, m)))
      in (arr\<lparr>data_mem := write_cells old_data new_data 0 (unat n_items) (data_mem arr) m\<rparr>, st, m))"

definition SIM_power_array_tag_read :: "('e, 's) SIM_power_array_info_t \<Rightarrow> SIM_power_array_t
    \<Rightarrow> ('e, 's) SIM_array_set_state_t \<Rightarrow> SIM_power_array_t \<times> ('e, 's) SIM_array_set_state_t" where
  "SIM_power_array_tag_read info arr st =
     (let (arr, st) =
        (if IS_FULLY_ASSOC info
         then (arr\<lparr>tag_wordline := SIM_array_wordline_record (tag_wordline arr) SIM_ARRAY_READ 1\<rparr>,
               st\<lparr>write_back_flag := 1\<rparr>)
         else (arr, st))
      in (arr\<lparr>tag_bitline := SIM_array_bitline_record (tag_bitline arr) SIM_ARRAY_READ (eff_tag_cols info) 0 0,
              tag_amp := SIM_array_amp_record (tag_amp arr) (eff_tag_cols info)\<rparr>, st))"

text \<open>
  In \<open>SIM_power_array_tag_update\<close> the pointer \<^verbatim>\<open>tag_attach_mem\<close> selects the attached cells of a
  fully associative array and the tag cells otherwise.
\<close>

definition attach_record :: "('e, 's) SIM_power_array_info_t \<Rightarrow> u64 \<Rightarrow> u64 \<Rightarrow> u32 \<Rightarrow> SIM_power_array_t \<Rightarrow> SIM_power_array_t" where
  "attach_record info prev_value curr_value width arr =
     (if IS_FULLY_ASSOC info
      then arr\<lparr>tag_attach_mem := SIM_array_mem_record (tag_attach_mem arr) prev_value curr_value width\<rparr>
      else arr\<lparr>tag_mem := SIM_array_mem_record (tag_mem arr) prev_value curr_value width\<rparr>)"

definition update_use_bits :: "('e, 's) SIM_power_array_info_t \<Rightarrow> ('e, 's) SIM_array_set_state_t \<Rightarrow> SIM_power_array_t
    \<Rightarrow> SIM_power_array_t option" where
  "update_use_bits info st arr =
     (if HAVE_USE_BIT info
      then if length (use_bak st) < unat (assoc info) then None
           else Some (fold (\<lambda>i. attach_record info (ucast (use_bak st ! i))
                                   (ucast (get_set_use_bit info (set_entry_set st) i)) (use_bit_width info))
                        [0..<unat (assoc info)] arr)
      else Some arr)"

definition SIM_power_array_tag_update :: "('e, 's) SIM_power_array_info_t \<Rightarrow> SIM_power_array_t \<Rightarrow> SIM_array_port_state_t
    \<Rightarrow> ('e, 's) SIM_array_set_state_t \<Rightarrow> (SIM_power_array_t \<times> SIM_array_port_state_t) option" where
  "SIM_power_array_tag_update info arr port st = do {
     let curr_tag = map_option (get_entry_tag info) (set_entry st);
     let (arr, port) =
       (if IS_FULLY_ASSOC info
        then (case curr_tag of
                Some t \<Rightarrow>
                  if t \<noteq> tag_bak st
                  then (let arr = (if write_back_flag st = 0
                          then arr\<lparr>tag_wordline := SIM_array_wordline_record (tag_wordline arr) SIM_ARRAY_WRITE 1\<rparr>
                          else arr);
                          arr = arr\<lparr>tag_bitline := SIM_array_bitline_record (tag_bitline arr) SIM_ARRAY_WRITE
                                   (eff_tag_cols info) (tag_line port) t\<rparr>
                        in (arr, if IS_WRITE_THROUGH info then port\<lparr>tag_line := t\<rparr> else port))
                  else (arr, port)
              | None \<Rightarrow> (arr, port))
        else (arr\<lparr>tag_bitline := SIM_array_bitline_record (tag_bitline arr) SIM_ARRAY_WRITE (eff_tag_cols info) 0 0\<rparr>, port));
     arr \<leftarrow> update_use_bits info st arr;
     let arr =
       (case set_entry st of
          Some e \<Rightarrow>
            (let arr = attach_record info (ucast (valid_bak st)) (ucast (get_entry_valid_bit info e)) (valid_bit_width info) arr;
                 arr = arr\<lparr>tag_mem := SIM_array_mem_record (tag_mem arr) (tag_bak st) (get_entry_tag info e) (tag_addr_width info)\<rparr>
             in if IS_WRITE_BACK info
                then attach_record info (ucast (dirty_bak st)) (ucast (get_entry_dirty_bit info e)) 1 arr
                else arr)
        | None \<Rightarrow> arr);
     Some (arr, port)
   }"

text \<open>The comparator loop over the ways, with the miss flag it accumulates.\<close>

definition compare_ways :: "('e, 's) SIM_power_array_info_t \<Rightarrow> 's option \<Rightarrow> u64 \<Rightarrow> nat \<Rightarrow> SIM_power_comp_t \<times> int
    \<Rightarrow> SIM_power_comp_t \<times> int" where
  "compare_ways info s tag_input i cm =
     (let (c, mismatch) = SIM_array_comp_local_record (fst cm) 0 (get_set_tag info s i) tag_input SIM_ARRAY_RECOVER
      in (c, if mismatch \<noteq> 0 then 1 else snd cm))"

definition SIM_power_array_tag_compare :: "('e, 's) SIM_power_array_info_t \<Rightarrow> SIM_power_array_t \<Rightarrow> SIM_array_port_state_t
    \<Rightarrow> u64 \<Rightarrow> u64 \<Rightarrow> ('e, 's) SIM_array_set_state_t \<Rightarrow> (SIM_power_array_t \<times> SIM_array_port_state_t) option" where
  "SIM_power_array_tag_compare info arr port tag_input caddr st = do {
     let (c, miss) = fold (compare_ways info (set_entry_set st) tag_input) [0..<unat (assoc info)] (arr_comp arr, 0);
     let arr = arr\<lparr>arr_comp := SIM_array_comp_global_record c (tag_addr port) tag_input miss\<rparr>;
     arr \<leftarrow> (if HAVE_COL_DEC info
             then map_option (\<lambda>d. arr\<lparr>col_dec := d\<rparr>) (SIM_array_dec_record (col_dec arr) (col_addr port) caddr)
             else Some arr);
     let arr = (if HAVE_COL_MUX info
                then arr\<lparr>arr_mux := SIM_array_mux_record (arr_mux arr) (col_addr port) caddr miss\<rparr> else arr);
     let port = port\<lparr>tag_addr := tag_input\<rparr>;
     Some (arr, if HAVE_COL_DEC info then port\<lparr>col_addr := caddr\<rparr> else port)
   }"

text \<open>A little-endian load of \<open>sz\<close> bytes; other sizes than 1, 2, 4 and 8 record nothing.\<close>

definition load_uint :: "memory \<Rightarrow> nat \<Rightarrow> nat \<Rightarrow> u64" where
  "load_uint m a sz = (\<Sum>k\<leftarrow>[0..<sz]. push_bit (8 * k) (ucast (m (a + k))))"

definition output_sizes :: "nat list" where
  "output_sizes = [1, 2, 4, 8]"

definition SIM_power_array_output :: "('e, 's) SIM_power_array_info_t \<Rightarrow> SIM_power_array_t \<Rightarrow> nat \<Rightarrow> u32 \<Rightarrow> nat \<Rightarrow> (nat \<Rightarrow> nat)
    \<Rightarrow> memory \<Rightarrow> SIM_power_array_t" where
  "SIM_power_array_output info arr data_size len data_out data_all m =
     (if data_size \<in> set output_sizes
      then (let d = fold (\<lambda>i d. SIM_array_outdrv_global_record d (load_uint m (data_out + i * data_size) data_size))
                      [0..<unat len] (outdrv arr);
                d = (if \<not> IS_FULLY_ASSOC info
                     then fold (\<lambda>i. fold (\<lambda>j d. SIM_array_outdrv_local_record d 0
                                   (load_uint m (data_all i + j * data_size) data_size) SIM_ARRAY_RECOVER)
                                 [0..<unat (n_item info)])
                            [0..<unat (assoc info)] d
                     else d)
            in arr\<lparr>outdrv := d\<rparr>)
      else arr)"

section \<open>Statistical energy\<close>

text \<open>
  The statistics functions thread a path buffer and print one line per item. \<open>stat_line\<close> is the
  recurring triple of statements: extend the path by a name, print an energy, restore the path.
\<close>

type_synonym stat_state = "path \<times> energy_log"

definition stat_print :: "real \<Rightarrow> int \<Rightarrow> stat_state \<Rightarrow> stat_state" where
  "stat_print E depth s = (let (p, l) = SIM_print_stat_energy (fst s) E depth in (p, snd s @ l))"

definition stat_enter :: "string \<Rightarrow> stat_state \<Rightarrow> stat_state" where
  "stat_enter name s = (SIM_power_strcat (fst s) name, snd s)"

definition stat_leave :: "nat \<Rightarrow> stat_state \<Rightarrow> stat_state" where
  "stat_leave len s = (SIM_power_res_path (fst s) len, snd s)"

definition stat_line :: "string \<Rightarrow> real \<Rightarrow> int \<Rightarrow> nat \<Rightarrow> stat_state \<Rightarrow> stat_state" where
  "stat_line name E depth len s = stat_leave len (stat_print E depth (stat_enter name s))"

text \<open>
  A block prints its atomic lines under its own name, then its total, and restores the path; it
  returns the total.
\<close>

definition stat_block :: "string \<Rightarrow> (string \<times> real) list \<Rightarrow> int \<Rightarrow> int \<Rightarrow> stat_state \<Rightarrow> real \<times> stat_state" where
  "stat_block name items next_depth next_next_depth s =
     (let path_len = SIM_power_strlen (fst s);
          s = stat_enter name s;
          next_path_len = SIM_power_strlen (fst s);
          s = fold (\<lambda>(n, E). stat_line n E next_next_depth next_path_len) items s;
          Estruct = sum_list (map snd items)
      in (Estruct, stat_leave path_len (stat_print Estruct next_depth s)))"

text \<open>A structure without sub-items: one line.\<close>

definition stat_leaf :: "string \<Rightarrow> real \<Rightarrow> int \<Rightarrow> stat_state \<Rightarrow> real \<times> stat_state" where
  "stat_leaf name E next_depth s =
     (E, stat_leave (SIM_power_strlen (fst s)) (stat_print E next_depth (stat_enter name s)))"

text \<open>A structure the description leaves out, and the accumulation of the structures' energies.\<close>

definition stat_skip :: "stat_state \<Rightarrow> real \<times> stat_state" where
  "stat_skip s = (0, s)"

fun stat_seq :: "(stat_state \<Rightarrow> real \<times> stat_state) list \<Rightarrow> real \<Rightarrow> stat_state \<Rightarrow> real \<times> stat_state" where
  "stat_seq [] Eavg s = (Eavg, s)"
| "stat_seq (f # fs) Eavg s = (let (Estruct, s) = f s in stat_seq fs (Eavg + Estruct) s)"

definition avg :: "int \<Rightarrow> real" where
  "avg max_avg = (if max_avg \<noteq> 0 then 1 else 0.5)"

text \<open>The extra widths of the central-buffer case: next-packet and next-cell pointers.\<close>

definition central_width :: "('e, 's) SIM_power_array_info_t \<Rightarrow> path \<Rightarrow> u32 option option" where
  "central_width info p =
     (if case p of Some s \<Rightarrow> sublist ''central buffer'' s | None \<Rightarrow> False
      then map_option Some (SIM_power_logtwo (ucast (n_set info)))
      else Some None)"

definition reg_stat_bitline :: "('e, 's) SIM_power_array_info_t \<Rightarrow> SIM_power_array_t \<Rightarrow> real \<Rightarrow> real \<Rightarrow> int \<Rightarrow> u32 option
    \<Rightarrow> (string \<times> real) list" where
  "reg_stat_bitline info arr n_read n_write max_avg share =
     (let e_read = bl_e_col_read (data_bitline arr); e_write = bl_e_col_write (data_bitline arr);
          e_pre = pre_e_charge (data_bitline_pre arr); cols = dbl32 (eff_data_cols info);
          both = (case share of Some w \<Rightarrow> dbl32 (w + w) | None \<Rightarrow> 0);
          one = (case share of Some w \<Rightarrow> dbl32 w | None \<Rightarrow> 0)
      in [(''read'',
           if bl_end (data_bitline arr) = 2
           then e_read * cols * n_read + e_read * both * n_read + e_read * both * n_write
           else e_read * cols * avg max_avg * n_read + e_read * both * avg max_avg * n_read
                + e_read * both * avg max_avg * n_write),
          (''write'',
           e_write * dbl32 (data_width info) * avg max_avg * n_write + e_write * both * avg max_avg * n_write
           + e_write * one * avg max_avg * n_write + e_write * one * avg max_avg * n_read),
          (''precharge'', e_pre * cols * n_read + e_pre * both * n_read + e_pre * both * n_write)])"

definition reg_stat_mem :: "('e, 's) SIM_power_array_info_t \<Rightarrow> SIM_power_array_t \<Rightarrow> real \<Rightarrow> real \<Rightarrow> int \<Rightarrow> u32 option \<Rightarrow> real" where
  "reg_stat_mem info arr n_read n_write max_avg share =
     (let e = mem_e_switch (data_mem arr);
          both = (case share of Some w \<Rightarrow> dbl32 (w + w) | None \<Rightarrow> 0);
          one = (case share of Some w \<Rightarrow> dbl32 w | None \<Rightarrow> 0)
      in e * dbl32 (data_width info) * avg max_avg * n_write + e * both * avg max_avg * n_write
         + e * one * avg max_avg * n_write + e * one * avg max_avg * n_read)"

definition reg_stat_amp :: "('e, 's) SIM_power_array_info_t \<Rightarrow> SIM_power_array_t \<Rightarrow> real \<Rightarrow> real \<Rightarrow> u32 option \<Rightarrow> real" where
  "reg_stat_amp info arr n_read n_write share =
     (let e = amp_e_access (data_amp arr); both = (case share of Some w \<Rightarrow> dbl32 (w + w) | None \<Rightarrow> 0)
      in e * dbl32 (eff_data_cols info) * n_read + e * both * n_read + e * both * n_write)"

definition reg_stat_outdrv :: "('e, 's) SIM_power_array_info_t \<Rightarrow> SIM_power_array_t \<Rightarrow> real \<Rightarrow> int \<Rightarrow> (string \<times> real) list" where
  "reg_stat_outdrv info arr n_read max_avg =
     (let d = outdrv arr
      in [(''enable'', out_e_select d * n_read),
          (''data'', out_e_chg_data d * dbl32 (out_item_width d) * avg max_avg * dbl32 (n_item info)
                     * dbl32 (assoc info) * n_read)]
         @ (if out_e_out_1 d \<ge> out_e_out_0 d \<or> max_avg = 0
            then [(''output 1'', out_e_out_1 d * dbl32 (out_item_width d) * avg max_avg * n_read)] else [])
         @ (if out_e_out_1 d < out_e_out_0 d \<or> max_avg = 0
            then [(''output 0'', out_e_out_0 d * dbl32 (out_item_width d) * avg max_avg * n_read)] else []))"

definition SIM_reg_stat_energy :: "('e, 's) SIM_power_array_info_t \<Rightarrow> SIM_power_array_t \<Rightarrow> real \<Rightarrow> real \<Rightarrow> int \<Rightarrow> int
    \<Rightarrow> stat_state \<Rightarrow> (real \<times> stat_state) option" where
  "SIM_reg_stat_energy info arr n_read n_write print_depth max_avg s = do {
     share \<leftarrow> central_width info (fst s);
     let next_depth = NEXT_DEPTH print_depth;
     let next_next_depth = NEXT_DEPTH next_depth;
     let (Eavg, s) = stat_seq
       [if row_dec_model info \<noteq> 0
        then stat_block ''row decoder''
               [(''input'', dec_e_chg_addr (row_dec arr) * dbl32 (dec_n_bits (row_dec arr)) * avg max_avg * (n_read + n_write)),
                (''output'', dec_e_chg_output (row_dec arr) * (n_read + n_write)),
                (''internal node'', dec_e_chg_l1 (row_dec arr) * dbl32 (dec_n_in_2nd (row_dec arr)) * (n_read + n_write))]
               next_depth next_next_depth
        else stat_skip,
        stat_block ''wordline''
          [(''read'', wl_e_read (data_wordline arr) * n_read), (''write'', wl_e_write (data_wordline arr) * n_write)]
          next_depth next_next_depth,
        stat_block ''bitline'' (reg_stat_bitline info arr n_read n_write max_avg share) next_depth next_next_depth,
        stat_leaf ''memory cell'' (reg_stat_mem info arr n_read n_write max_avg share) next_depth,
        if data_end info = 2
        then stat_leaf ''sense amplifier'' (reg_stat_amp info arr n_read n_write share) next_depth else stat_skip,
        if outdrv_model info \<noteq> 0
        then stat_block ''output driver'' (reg_stat_outdrv info arr n_read max_avg) next_depth next_next_depth
        else stat_skip] 0 s;
     Some (Eavg, stat_print Eavg print_depth s)
   }"

section \<open>The statistics printer\<close>

lemma NEXT_DEPTH_0 [simp]: "NEXT_DEPTH 0 = 0"
  by (simp add: NEXT_DEPTH_def)

lemma fst_stat_print [simp]: "fst (stat_print E depth s) = fst s"
  by (cases "fst s") (simp_all add: stat_print_def SIM_print_stat_energy_def SIM_power_res_path_def Let_def)

lemma stat_print_0 [simp]: "stat_print E 0 s = s"
  by (simp add: stat_print_def SIM_print_stat_energy_def)

lemma fst_stat_enter [simp]: "SIM_power_res_path (fst (stat_enter name s)) (SIM_power_strlen (fst s)) = fst s"
  by (cases "fst s") (simp_all add: stat_enter_def SIM_power_strcat_def SIM_power_res_path_def SIM_power_strlen_def)

lemma fst_stat_line [simp]: "len = SIM_power_strlen (fst s) \<Longrightarrow> fst (stat_line name E depth len s) = fst s"
  by (simp add: stat_line_def stat_leave_def)

lemma stat_line_0 [simp]: "len = SIM_power_strlen (fst s) \<Longrightarrow> stat_line name E 0 len s = s"
  by (intro prod_eqI) (simp_all add: stat_line_def stat_leave_def, simp add: stat_enter_def)

lemma fst_stat_lines:
  "len = SIM_power_strlen (fst s) \<Longrightarrow> fst (fold (\<lambda>(n, E). stat_line n E depth len) items s) = fst s"
proof (induction items arbitrary: s)
  case (Cons a items)
  then show ?case using Cons.IH [of "stat_line (fst a) (snd a) depth len s"] by (simp add: case_prod_beta)
qed simp

lemma stat_lines_0:
  "len = SIM_power_strlen (fst s) \<Longrightarrow> fold (\<lambda>(n, E). stat_line n E 0 len) items s = s"
  by (induction items arbitrary: s) auto

lemma stat_block_path [simp]: "fst (snd (stat_block name items d dd s)) = fst s"
  by (simp add: stat_block_def Let_def stat_leave_def fst_stat_lines)

lemma stat_block_energy [simp]: "fst (stat_block name items d dd s) = sum_list (map snd items)"
  by (simp add: stat_block_def Let_def)

lemma stat_block_0 [simp]: "snd (stat_block name items 0 0 s) = s"
  by (intro prod_eqI) (simp_all add: stat_block_def Let_def stat_leave_def stat_lines_0, simp add: stat_enter_def)

lemma stat_leaf_path [simp]: "fst (snd (stat_leaf name E d s)) = fst s"
  by (simp add: stat_leaf_def stat_leave_def)

lemma stat_leaf_energy [simp]: "fst (stat_leaf name E d s) = E"
  by (simp add: stat_leaf_def)

lemma stat_leaf_0 [simp]: "snd (stat_leaf name E 0 s) = s"
  by (intro prod_eqI) (simp_all add: stat_leaf_def stat_leave_def, simp add: stat_enter_def)

text \<open>The energy the statistics compute, without the printing.\<close>

definition reg_energy :: "('e, 's) SIM_power_array_info_t \<Rightarrow> SIM_power_array_t \<Rightarrow> real \<Rightarrow> real \<Rightarrow> int \<Rightarrow> u32 option \<Rightarrow> real" where
  "reg_energy info arr n_read n_write max_avg share =
     (if row_dec_model info \<noteq> 0
      then dec_e_chg_addr (row_dec arr) * dbl32 (dec_n_bits (row_dec arr)) * avg max_avg * (n_read + n_write)
           + (dec_e_chg_output (row_dec arr) * (n_read + n_write)
              + dec_e_chg_l1 (row_dec arr) * dbl32 (dec_n_in_2nd (row_dec arr)) * (n_read + n_write))
      else 0)
     + (wl_e_read (data_wordline arr) * n_read + wl_e_write (data_wordline arr) * n_write)
     + sum_list (map snd (reg_stat_bitline info arr n_read n_write max_avg share))
     + reg_stat_mem info arr n_read n_write max_avg share
     + (if data_end info = 2 then reg_stat_amp info arr n_read n_write share else 0)
     + (if outdrv_model info \<noteq> 0 then sum_list (map snd (reg_stat_outdrv info arr n_read max_avg)) else 0)"

lemma stat_skip_simps [simp]: "fst (stat_skip s) = 0" "snd (stat_skip s) = s"
  by (simp_all add: stat_skip_def)

lemma stat_seq_result:
  assumes "\<forall>(f, E) \<in> set fs. \<forall>s. fst (f s) = E \<and> fst (snd (f s)) = fst s"
  shows "fst (stat_seq (map fst fs) Eavg s) = Eavg + sum_list (map snd fs) \<and> fst (snd (stat_seq (map fst fs) Eavg s)) = fst s"
  using assms by (induction fs arbitrary: Eavg s) (auto simp: case_prod_beta)

lemma stat_seq_quiet:
  "\<forall>f \<in> set fs. \<forall>s. snd (f s) = s \<Longrightarrow> snd (stat_seq fs Eavg s) = s"
  by (induction fs arbitrary: Eavg s) (auto simp: case_prod_beta)

lemma reg_stat_energy_result:
  assumes "central_width info (fst s) = Some share"
  shows "\<exists>s'. SIM_reg_stat_energy info arr n_read n_write depth max_avg s = Some (reg_energy info arr n_read n_write max_avg share, s')
    \<and> fst s' = fst s \<and> (depth = 0 \<longrightarrow> s' = s)"
proof -
  define fs where "fs d dd =
       [(if row_dec_model info \<noteq> 0
        then stat_block ''row decoder''
               [(''input'', dec_e_chg_addr (row_dec arr) * dbl32 (dec_n_bits (row_dec arr)) * avg max_avg * (n_read + n_write)),
                (''output'', dec_e_chg_output (row_dec arr) * (n_read + n_write)),
                (''internal node'', dec_e_chg_l1 (row_dec arr) * dbl32 (dec_n_in_2nd (row_dec arr)) * (n_read + n_write))]
               d dd
        else stat_skip, fst (
        if row_dec_model info \<noteq> 0
        then (dec_e_chg_addr (row_dec arr) * dbl32 (dec_n_bits (row_dec arr)) * avg max_avg * (n_read + n_write)
           + (dec_e_chg_output (row_dec arr) * (n_read + n_write)
              + dec_e_chg_l1 (row_dec arr) * dbl32 (dec_n_in_2nd (row_dec arr)) * (n_read + n_write)), ())
        else (0, ()))),
        (stat_block ''wordline''
          [(''read'', wl_e_read (data_wordline arr) * n_read), (''write'', wl_e_write (data_wordline arr) * n_write)]
          d dd, wl_e_read (data_wordline arr) * n_read + wl_e_write (data_wordline arr) * n_write),
        (stat_block ''bitline'' (reg_stat_bitline info arr n_read n_write max_avg share) d dd,
          sum_list (map snd (reg_stat_bitline info arr n_read n_write max_avg share))),
        (stat_leaf ''memory cell'' (reg_stat_mem info arr n_read n_write max_avg share) d,
          reg_stat_mem info arr n_read n_write max_avg share),
        (if data_end info = 2
        then stat_leaf ''sense amplifier'' (reg_stat_amp info arr n_read n_write share) d else stat_skip,
          if data_end info = 2 then reg_stat_amp info arr n_read n_write share else 0),
        (if outdrv_model info \<noteq> 0
        then stat_block ''output driver'' (reg_stat_outdrv info arr n_read max_avg) d dd
        else stat_skip, if outdrv_model info \<noteq> 0 then sum_list (map snd (reg_stat_outdrv info arr n_read max_avg)) else 0)]" for d dd
  have ok: "\<forall>(f, E) \<in> set (fs d dd). \<forall>s. fst (f s) = E \<and> fst (snd (f s)) = fst s" for d dd
    by (simp add: fs_def)
  have quiet: "\<forall>f \<in> set (map fst (fs 0 0)). \<forall>s. snd (f s) = s" by (simp add: fs_def)
  have total: "sum_list (map snd (fs d dd)) = reg_energy info arr n_read n_write max_avg share" for d dd
    by (simp add: fs_def reg_energy_def)
  let ?r = "stat_seq (map fst (fs (NEXT_DEPTH depth) (NEXT_DEPTH (NEXT_DEPTH depth)))) 0 s"
  have "SIM_reg_stat_energy info arr n_read n_write depth max_avg s = Some (fst ?r, stat_print (fst ?r) depth (snd ?r))"
    using assms by (simp add: SIM_reg_stat_energy_def fs_def case_prod_beta Let_def del: stat_seq.simps)
  moreover have "fst ?r = reg_energy info arr n_read n_write max_avg share" "fst (snd ?r) = fst s"
    using stat_seq_result [OF ok, where Eavg = 0 and s = s] total by simp_all
  moreover have "depth = 0 \<Longrightarrow> snd ?r = s" using stat_seq_quiet [OF quiet, of 0 s] by simp
  ultimately show ?thesis by simp
qed

section \<open>Reset\<close>

lemma report_cleared:
  "SIM_array_dec_report (SIM_array_dec_clear_stat d) = 0"
  "SIM_array_wordline_report (SIM_array_wordline_clear_stat w) = 0"
  "SIM_array_bitline_report (SIM_array_bitline_clear_stat b) = 0"
  "SIM_array_pre_report (SIM_array_pre_clear_stat p) = 0"
  "SIM_array_mem_report (SIM_array_mem_clear_stat m) = 0"
  "SIM_array_amp_report (SIM_array_amp_clear_stat a) = 0"
  "SIM_array_comp_report (SIM_array_comp_clear_stat c) = 0"
  "SIM_array_mux_report (SIM_array_mux_clear_stat x) = 0"
  "SIM_array_outdrv_report (SIM_array_outdrv_clear_stat out) = 0"
  using wl.report_clear bl.report_clear pre.report_clear mem.report_clear amp.report_clear comp.report_clear
    mux.report_clear out.report_clear
  by (simp_all add: SIM_array_dec_report_def SIM_array_dec_clear_stat_def)

lemma array_report_clear: "SIM_array_power_report info (SIM_array_clear_stat arr) = 0"
  unfolding SIM_array_power_report_def SIM_array_clear_stat_def
  by (simp add: report_cleared cong: if_cong split del: if_split)

section \<open>Writing through overlapping buffers\<close>

lemma SIM_power_Hamming_same [simp]: "SIM_power_Hamming a a msk = 0"
  by (simp add: Hamming_zero_iff)

lemma write_bitlines_memory:
  assumes "\<forall>i j. i < k + n \<longrightarrow> j < k + n \<longrightarrow> line + i \<noteq> new_data + j"
  shows "snd (write_bitlines line new_data k n b m) =
    (\<lambda>a. if line + k \<le> a \<and> a < line + k + n then m (new_data + (a - line)) else m a)"
  using assms
proof (induction n arbitrary: k b m)
  case (Suc n)
  have d: "line + k \<noteq> new_data + j" if "j < Suc k + n" for j using Suc.prems that by auto
  have "(m(line + k := m (new_data + k))) (new_data + (a - line)) = m (new_data + (a - line))"
    if "line + k \<le> a" "a < line + k + Suc n" for a
  proof -
    have "line + k \<noteq> new_data + (a - line)" using that by (intro d) auto
    then show ?thesis by simp
  qed
  moreover have "snd (write_bitlines line new_data (Suc k) n b' m') =
      (\<lambda>a. if line + Suc k \<le> a \<and> a < line + Suc k + n then m' (new_data + (a - line)) else m' a)" for b' m'
    using Suc.prems by (intro Suc.IH) simp
  ultimately show ?case by (auto simp: fun_eq_iff)
qed (auto simp: fun_eq_iff)

lemma write_cells_equal:
  "\<forall>i. k \<le> i \<and> i < k + n \<longrightarrow> m (old_data + i) = m (new_data + i) \<Longrightarrow> write_cells old_data new_data k n c m = c"
  by (induction n arbitrary: k c) (auto simp: SIM_array_mem_record_def)


lemma data_write_separate:
  assumes "\<not> IS_FULLY_ASSOC info" "share_rw info = 0"
  shows "SIM_power_array_data_write info arr st n_items line old_data new_data m =
    (let r = write_bitlines line new_data 0 (unat n_items) (data_bitline arr) m
     in (arr\<lparr>data_bitline := fst r, data_mem := write_cells old_data new_data 0 (unat n_items) (data_mem arr) (snd r)\<rparr>, st, snd r))"
  using assms by (simp add: SIM_power_array_data_write_def Let_def case_prod_beta)

section \<open>Tag comparison\<close>

lemma comp_local_miss_count:
  "comp_n_miss (fst (SIM_array_comp_local_record c p t i r)) = comp_n_miss c"
  "snd (SIM_array_comp_local_record c p t i r) = (if t \<noteq> i then 1 else 0)"
  by (auto simp: SIM_array_comp_local_record_def Let_def)

lemma compare_ways_fold:
  "comp_n_miss (fst (fold (compare_ways info s tag) ways cm)) = comp_n_miss (fst cm)"
  "snd (fold (compare_ways info s tag) ways cm) = (if \<exists>i \<in> set ways. get_set_tag info s i \<noteq> tag then 1 else snd cm)"
  by (induction ways arbitrary: cm) (auto simp: compare_ways_def case_prod_beta comp_local_miss_count)

lemma comp_global_miss_count:
  "comp_n_miss (SIM_array_comp_global_record c p t miss) = comp_n_miss c + (if miss \<noteq> 0 then 1 else 0)"
  by (simp add: SIM_array_comp_global_record_def Let_def)

lemma tag_compare_comp:
  assumes "SIM_power_array_tag_compare info arr port tag_input caddr st = Some (arr', port')"
  shows "arr_comp arr' =
    (let r = fold (compare_ways info (set_entry_set st) tag_input) [0..<unat (assoc info)] (arr_comp arr, 0)
     in SIM_array_comp_global_record (fst r) (tag_addr port) tag_input (snd r))"
  using assms unfolding SIM_power_array_tag_compare_def case_prod_beta Let_def
  by (cases "HAVE_COL_DEC info"; cases "HAVE_COL_MUX info") (auto simp: bind_eq_Some_conv simp del: fold_simps)

lemma tag_compare_miss:
  assumes "SIM_power_array_tag_compare info arr port tag_input caddr st = Some (arr', port')"
  shows "comp_n_miss (arr_comp arr') = comp_n_miss (arr_comp arr)
    + (if \<exists>i < unat (assoc info). get_set_tag info (set_entry_set st) i \<noteq> tag_input then 1 else 0)"
  unfolding tag_compare_comp [OF assms] Let_def comp_global_miss_count compare_ways_fold by auto

section \<open>When initialisation is defined\<close>

lemma logtwo_u32:
  "SIM_power_logtwo (ucast (x :: u32)) = None \<longleftrightarrow> x = 0"
  "SIM_power_logtwo (ucast x) = Some r \<Longrightarrow> unat r \<le> 32"
  "SIM_power_logtwo (ucast x) = Some r \<Longrightarrow> r = 0 \<longleftrightarrow> unat x = 1"
proof -
  have x: "unat x < 2 ^ 32" using unsigned_less [of x, where 'a = nat] by simp
  note s = logtwo_spec [of "ucast x :: u64"]
  show "SIM_power_logtwo (ucast x) = None \<longleftrightarrow> x = 0"
    using s x by (cases "SIM_power_logtwo (ucast x)") (auto simp: word_unat_eq_iff)
  assume r: "SIM_power_logtwo (ucast x) = Some r"
  then have r1: "r = 0 \<or> 2 ^ (unat r - 1) < unat x" and r2: "0 < unat x" "unat x \<le> 2 ^ unat r" using s by auto
  show "unat r \<le> 32"
  proof (rule ccontr)
    assume n: "\<not> unat r \<le> 32"
    then have "r \<noteq> 0" by auto
    then have "(2::nat) ^ (unat r - 1) < 2 ^ 32" using r1 x by simp
    then have "unat r - 1 < 32" by (rule power_less_imp_less_exp [rotated]) simp
    then show False using n by simp
  qed
  show "r = 0 \<longleftrightarrow> unat x = 1" using r1 r2 by (auto simp: unat_eq_zero [symmetric])
qed

lemma dec_init_Some: "unat n_bits \<le> 32 \<Longrightarrow> \<exists>d'. SIM_array_dec_init T d model n_bits = Some d'"
proof -
  assume n: "unat n_bits \<le> 32"
  have "unat (n_bits - k) < 64" if "n_bits \<ge> 4" "k = 2 \<or> k = 3" for k
  proof -
    have "unat (n_bits - k) \<le> unat n_bits"
      using that by (intro word_sub_le [THEN word_le_nat_alt [THEN iffD1]]) (auto intro: order_trans [rotated])
    then show ?thesis using n by simp
  qed
  from this [of 2] this [of 3] have "\<exists>g. dec_geometry n_bits d = Some g" for d
    by (cases "n_bits \<ge> 4"; cases "n_bits = 4") (simp_all add: dec_geometry_def Let_def not_le)
  then have "\<exists>r. map_option f (dec_geometry n_bits d) = Some r" for f :: "SIM_power_dec_t \<Rightarrow> SIM_power_dec_t \<times> int" and d
    by (metis option.simps(9))
  then show ?thesis unfolding SIM_array_dec_init_def Let_def
    by (cases "model \<noteq> 0 \<and> model < DEC_MAX_MODEL") (simp_all only: simp_thms if_True if_False, blast)
qed

definition array_divisors_ok :: "('e, 's) SIM_power_array_info_t \<Rightarrow> bool" where
  "array_divisors_ok info \<longleftrightarrow>
     n_set info \<noteq> 0 \<and> n_item info \<noteq> 0
     \<and> (n_set info \<noteq> 1 \<longrightarrow> data_ndbl info \<noteq> 0 \<and> data_nspd info \<noteq> 0 \<and> data_ndwl info \<noteq> 0)
     \<and> (n_set info \<noteq> 1 \<and> tag_mem_model info \<noteq> 0 \<longrightarrow> tag_ndbl info \<noteq> 0 \<and> tag_nspd info \<noteq> 0 \<and> tag_ndwl info \<noteq> 0)"

lemma logtwo_u32_cases:
  obtains "x = 0" "SIM_power_logtwo (ucast (x :: u32)) = None"
  | "x = 1" "SIM_power_logtwo (ucast x) = Some 0"
  | w where "x \<noteq> 0" "x \<noteq> 1" "SIM_power_logtwo (ucast x) = Some w" "w \<noteq> 0" "unat w \<le> 32"
proof (cases "SIM_power_logtwo (ucast x)")
  case None
  then show ?thesis using that(1) logtwo_u32(1) by blast
next
  case (Some w)
  have one: "unat x = 1 \<longleftrightarrow> x = 1" by (auto simp: word_unat_eq_iff)
  have "x \<noteq> 0" using Some logtwo_u32(1) [of x] by auto
  then show ?thesis using that(2,3) Some logtwo_u32(2,3) [OF Some] one by (cases "w = 0") auto
qed

lemma array_rows_init_cases:
  assumes "array_rows_init T info arr = Some (info', arr', cols, wl)"
  shows "\<exists>w h. info' = info\<lparr>data_arr_width := w, data_arr_height := h\<rparr>"
  using assms unfolding array_rows_init_def Let_def
  by (auto simp: bind_eq_Some_conv split: if_splits)

lemma array_rows_init_defined:
  "(\<exists>r. array_rows_init T info arr = Some r) \<longleftrightarrow>
     n_set info \<noteq> 0 \<and> (n_set info \<noteq> 1 \<longrightarrow> data_ndbl info \<noteq> 0 \<and> data_nspd info \<noteq> 0 \<and> data_ndwl info \<noteq> 0)"
proof (cases rule: logtwo_u32_cases [of "n_set info"])
  case (3 w)
  then obtain d where "SIM_array_dec_init T (row_dec arr) (row_dec_model info) w = Some d"
    using dec_init_Some by blast
  then show ?thesis unfolding array_rows_init_def Let_def using 3 by (cases d) auto
qed (simp_all add: array_rows_init_def Let_def)

lemma array_cols_init_defined:
  "(\<exists>r. array_cols_init T info arr cols wl wc = Some r) \<longleftrightarrow> n_item info \<noteq> 0"
proof (cases rule: logtwo_u32_cases [of "n_item info"])
  case (3 w)
  then obtain d where "SIM_array_dec_init T (col_dec arr) (col_dec_model info) w = Some d"
    using dec_init_Some by blast
  then show ?thesis unfolding array_cols_init_def Let_def using 3 by (cases d) simp
qed (simp_all add: array_cols_init_def Let_def)

lemma array_data_init_info:
  assumes "array_data_init T info arr = Some (info', arr')"
  shows "\<exists>w h. info' = info\<lparr>data_arr_width := w, data_arr_height := h\<rparr>"
  using assms array_rows_init_cases unfolding array_data_init_def by (auto simp: bind_eq_Some_conv split: prod.splits)

lemma array_data_init_defined:
  "(\<exists>r. array_data_init T info arr = Some r) \<longleftrightarrow>
     n_set info \<noteq> 0 \<and> n_item info \<noteq> 0
     \<and> (n_set info \<noteq> 1 \<longrightarrow> data_ndbl info \<noteq> 0 \<and> data_nspd info \<noteq> 0 \<and> data_ndwl info \<noteq> 0)"
proof (cases "array_rows_init T info arr")
  case None
  then show ?thesis using array_rows_init_defined [of T info arr] by (auto simp: array_data_init_def)
next
  case (Some r)
  obtain info' arr' cols wl where r: "r = (info', arr', cols, wl)" by (cases r)
  have "n_item info' = n_item info" using array_rows_init_cases [of T info arr] Some r by auto
  then show ?thesis
    using Some r array_rows_init_defined [of T info arr]
      array_cols_init_defined [of T info' arr' cols wl "fst (array_cmetal T (array_ports info') (data_end info'))"]
    by (auto simp: array_data_init_def bind_eq_Some_conv)
qed

lemma bind_total: "(\<exists>r. (x \<bind> (\<lambda>y. Some (f y))) = Some r) \<longleftrightarrow> (\<exists>y. x = Some y)"
  by (cases x) auto

lemma array_tag_init_defined:
  assumes "n_set info \<noteq> 0"
  shows "(\<exists>r. array_tag_init T info arr = Some r) \<longleftrightarrow>
    (n_set info \<noteq> 1 \<and> tag_mem_model info \<noteq> 0 \<longrightarrow> tag_ndbl info \<noteq> 0 \<and> tag_nspd info \<noteq> 0 \<and> tag_ndwl info \<noteq> 0)"
proof -
  have "1 < n_set info \<longleftrightarrow> n_set info \<noteq> 1" using assms by (metis word_greater_zero_iff word_less_1 not_less_iff_gr_or_eq)
  moreover have "(\<exists>r. array_tag_init_sets T info arr = Some r) \<longleftrightarrow> tag_ndbl info \<noteq> 0 \<and> tag_nspd info \<noteq> 0 \<and> tag_ndwl info \<noteq> 0"
    by (auto simp: array_tag_init_sets_def case_prod_beta Let_def)
  ultimately show ?thesis
    unfolding array_tag_init_def case_prod_beta by (cases "tag_mem_model info = 0"; cases "1 < n_set info") (simp_all add: bind_total del: split_paired_Ex)
qed

lemma array_sanity_keeps:
  "n_set (array_sanity info) = n_set info" "n_item (array_sanity info) = n_item info"
  "data_ndbl (array_sanity info) = data_ndbl info" "data_nspd (array_sanity info) = data_nspd info"
  "data_ndwl (array_sanity info) = data_ndwl info" "tag_mem_model (array_sanity info) = tag_mem_model info"
  "tag_ndbl (array_sanity info) = tag_ndbl info" "tag_nspd (array_sanity info) = tag_nspd info"
  "tag_ndwl (array_sanity info) = tag_ndwl info"
  by (simp_all add: array_sanity_def Let_def)

lemma array_power_init_defined:
  "(\<exists>r. SIM_array_power_init T info arr = Some r) \<longleftrightarrow> array_divisors_ok info"
proof -
  define i where "i = (array_sanity info)\<lparr>data_arr_width := 0, tag_arr_width := 0, data_arr_height := 0, tag_arr_height := 0\<rparr>"
  have i: "n_set i = n_set info" "n_item i = n_item info" "data_ndbl i = data_ndbl info" "data_nspd i = data_nspd info"
    "data_ndwl i = data_ndwl info" "tag_mem_model i = tag_mem_model info" "tag_ndbl i = tag_ndbl info"
    "tag_nspd i = tag_nspd info" "tag_ndwl i = tag_ndwl info"
    by (simp_all add: i_def array_sanity_keeps)
  have e: "SIM_array_power_init T info arr = array_data_init T i arr \<bind> (\<lambda>(info, arr). array_tag_init T info arr)"
    by (simp add: SIM_array_power_init_def i_def)
  show ?thesis
  proof (cases "array_data_init T i arr")
    case None
    then show ?thesis using array_data_init_defined [of T i arr] by (auto simp: e array_divisors_ok_def i)
  next
    case (Some r)
    obtain info' arr' where r: "r = (info', arr')" by (cases r)
    then obtain w h where "info' = i\<lparr>data_arr_width := w, data_arr_height := h\<rparr>"
      using array_data_init_info Some by blast
    then show ?thesis
      using Some r array_data_init_defined [of T i arr] array_tag_init_defined [of info' T arr']
      by (simp add: e array_divisors_ok_def i)
  qed
qed

section \<open>Zeroed structures\<close>

text \<open>The structures as a zeroing allocation leaves them, for concrete runs.\<close>

definition zero_dec :: SIM_power_dec_t where
  "zero_dec = \<lparr>dec_model = 0, dec_n_bits = 0, dec_n_chg_output = 0, dec_n_chg_addr = 0, dec_n_chg_l1 = 0,
     dec_e_chg_output = 0, dec_e_chg_addr = 0, dec_e_chg_l1 = 0, dec_n_in_1st = 0, dec_n_in_2nd = 0,
     dec_n_out_0th = 0, dec_n_out_1st = 0, dec_addr_mask = 0\<rparr>"

definition zero_wordline :: SIM_power_wordline_t where
  "zero_wordline = \<lparr>wl_model = 0, wl_share_rw = 0, wl_n_read = 0, wl_n_write = 0, wl_e_read = 0, wl_e_write = 0\<rparr>"

definition zero_bitline :: SIM_power_bitline_t where
  "zero_bitline = \<lparr>bl_model = 0, bl_share_rw = 0, bl_end = 0, bl_n_col_write = 0, bl_n_col_read = 0, bl_n_col_sel = 0,
     bl_e_col_write = 0, bl_e_col_read = 0, bl_e_col_sel = 0\<rparr>"

definition zero_mem :: SIM_power_mem_t where
  "zero_mem = \<lparr>mem_model = 0, mem_end = 0, mem_n_switch = 0, mem_e_switch = 0\<rparr>"

definition zero_amp :: SIM_power_amp_t where
  "zero_amp = \<lparr>amp_model = 0, amp_n_access = 0, amp_e_access = 0\<rparr>"

definition zero_pre :: SIM_power_arr_pre_t where
  "zero_pre = \<lparr>pre_model = 0, pre_n_charge = 0, pre_e_charge = 0\<rparr>"

definition zero_comp :: SIM_power_comp_t where
  "zero_comp = \<lparr>comp_cell_model = 0, comp_n_bits = 0, comp_assoc = 0, comp_n_access = 0, comp_n_match = 0, comp_n_mismatch = 0,
     comp_n_miss = 0, comp_n_bit_match = 0, comp_n_bit_mismatch = 0, comp_n_chg_addr = 0, comp_e_access = 0,
     comp_e_match = 0, comp_e_mismatch = 0, comp_e_miss = 0, comp_e_bit_match = 0, comp_e_bit_mismatch = 0,
     comp_e_chg_addr = 0, comp_mask = 0\<rparr>"

definition zero_mux :: SIM_power_mux_t where
  "zero_mux = \<lparr>mux_cell_model = 0, mux_assoc = 0, mux_n_mismatch = 0, mux_n_chg_addr = 0, mux_e_mismatch = 0, mux_e_chg_addr = 0\<rparr>"

definition zero_out :: SIM_power_out_t where
  "zero_out = \<lparr>out_model = 0, out_item_width = 0, out_n_select = 0, out_n_chg_data = 0, out_n_out_1 = 0, out_n_out_0 = 0,
     out_e_select = 0, out_e_chg_data = 0, out_e_out_1 = 0, out_e_out_0 = 0, out_mask = 0\<rparr>"

definition zero_array :: SIM_power_array_t where
  "zero_array = \<lparr>row_dec = zero_dec, col_dec = zero_dec, data_wordline = zero_wordline, tag_wordline = zero_wordline,
     data_bitline = zero_bitline, tag_bitline = zero_bitline, data_mem = zero_mem, tag_mem = zero_mem,
     tag_attach_mem = zero_mem, data_amp = zero_amp, tag_amp = zero_amp, arr_comp = zero_comp, arr_mux = zero_mux,
     outdrv = zero_out, row_dec_pre = zero_pre, col_dec_pre = zero_pre, data_bitline_pre = zero_pre,
     tag_bitline_pre = zero_pre, data_colsel_pre = zero_pre, tag_colsel_pre = zero_pre, comp_pre = zero_pre\<rparr>"

definition zero_info :: "(nat, nat list) SIM_power_array_info_t" where
  "zero_info = \<lparr>share_rw = 0, read_ports = 0, write_ports = 0, n_set = 0, blk_bits = 0, assoc = 0, row_dec_model = 0,
     data_width = 0, col_dec_model = 0, mux_model = 0, outdrv_model = 0, tag_addr_width = 0, tag_line_width = 0,
     comp_model = 0, data_ndwl = 0, data_ndbl = 0, data_nspd = 0, data_n_share_amp = 0, data_end = 0,
     data_wordline_model = 0, data_bitline_model = 0, data_amp_model = 0, data_mem_model = 0, tag_ndwl = 0,
     tag_ndbl = 0, tag_nspd = 0, tag_n_share_amp = 0, tag_end = 0, tag_wordline_model = 0, tag_bitline_model = 0,
     tag_amp_model = 0, tag_mem_model = 0, tag_attach_mem_model = 0, row_dec_pre_model = 0, col_dec_pre_model = 0,
     data_bitline_pre_model = 0, tag_bitline_pre_model = 0, data_colsel_pre_model = 0, tag_colsel_pre_model = 0,
     comp_pre_model = 0, n_item = 0, eff_data_cols = 0, eff_tag_cols = 0, use_bit_width = 0, valid_bit_width = 0,
     write_policy = 0, get_entry_valid_bit = (\<lambda>e. 1), get_entry_dirty_bit = (\<lambda>e. 0), get_set_use_bit = (\<lambda>s i. 0),
     get_entry_tag = of_nat, get_set_tag = (\<lambda>s i. of_nat (the s ! i)), data_arr_width = 0, tag_arr_width = 0,
     data_arr_height = 0, tag_arr_height = 0\<rparr>"

definition zero_port :: SIM_array_port_state_t where
  "zero_port = \<lparr>row_addr = 0, col_addr = 0, tag_addr = 0, tag_line = 0, data_line = []\<rparr>"

definition zero_set_state :: "(nat, nat list) SIM_array_set_state_t" where
  "zero_set_state = \<lparr>set_entry = None, set_entry_set = None, write_flag = 0, write_back_flag = 0, valid_bak = 0,
     dirty_bak = 0, tag_bak = 0, use_bak = []\<rparr>"

lemma tag_compare_Some:
  "\<not> HAVE_COL_DEC info \<Longrightarrow> \<exists>r. SIM_power_array_tag_compare info arr port tag_input caddr st = Some r"
  unfolding SIM_power_array_tag_compare_def case_prod_beta Let_def by simp

section \<open>Properties\<close>

text \<open>
  Array initialisation is free of undefined behaviour (division by zero, undefined shifts)
  exactly for descriptions with a positive set and item count whose sub-array counts are non-zero
  where they are divided by; a fully associative array does not need them.
\<close>

theorem SIM_array_power_init_defined:
  "(\<exists>r. SIM_array_power_init T info arr = Some r) \<longleftrightarrow> array_divisors_ok info"
  by (rule array_power_init_defined)

text \<open>
  Resetting the statistics of an array makes its report zero under every description, and
  leaves every per-event energy of the data path as initialisation computed it.
\<close>

theorem SIM_array_clear_stat_report:
  "SIM_array_power_report info (SIM_array_clear_stat arr) = 0
   \<and> dec_weights (row_dec (SIM_array_clear_stat arr)) = dec_weights (row_dec arr)
   \<and> wl_weights (data_wordline (SIM_array_clear_stat arr)) = wl_weights (data_wordline arr)
   \<and> bl_weights (data_bitline (SIM_array_clear_stat arr)) = bl_weights (data_bitline arr)
   \<and> out_weights (outdrv (SIM_array_clear_stat arr)) = out_weights (outdrv arr)"
  by (simp add: array_report_clear)
    (simp add: SIM_array_clear_stat_def dec.clear_keeps wl.clear_keeps bl.clear_keeps out.clear_keeps)

text \<open>
  The statistical energy of a buffer is a fixed expression of the expected read and write
  counts (the atomic energies weighted by the access counts, plus the pointer overhead of a central
  buffer); printing at any depth does not change it, the caller's path buffer is restored, and
  depth 0 prints nothing.
\<close>

theorem SIM_reg_stat_energy_total:
  "central_width info (fst s) = Some share \<Longrightarrow>
   \<exists>s'. SIM_reg_stat_energy info arr n_read n_write print_depth max_avg s
          = Some (reg_energy info arr n_read n_write max_avg share, s')
      \<and> fst s' = fst s \<and> (print_depth = 0 \<longrightarrow> s' = s)"
  by (rule reg_stat_energy_result)

theorem SIM_reg_stat_energy_total_witness:
  "\<exists>s'. SIM_reg_stat_energy zero_info zero_array 1 1 2 0 (Some ''buffer'', [])
          = Some (reg_energy zero_info zero_array 1 1 0 None, s') \<and> fst s' = Some ''buffer''"
proof -
  have "central_width zero_info (fst (Some ''buffer'', [] :: energy_log)) = Some None"
    by (simp add: central_width_def sublist_code)
  from SIM_reg_stat_energy_total [OF this, of zero_array 1 1 2 0] show ?thesis by auto
qed

text \<open>
  A buffer write with separate bitlines copies the new bytes into the latched line. When the
  caller passes the latched line also as the old contents of the cells, the line has already been
  overwritten when the cells are compared, so no memory cell switch is ever counted.
\<close>

theorem SIM_power_array_data_write_overlap:
  "\<not> IS_FULLY_ASSOC info \<Longrightarrow> share_rw info = 0 \<Longrightarrow>
   \<forall>i j. i < unat n_items \<longrightarrow> j < unat n_items \<longrightarrow> line + i \<noteq> new_data + j \<Longrightarrow>
   (case SIM_power_array_data_write info arr st n_items line line new_data m of
      (arr', st', m') \<Rightarrow> data_mem arr' = data_mem arr \<and> st' = st
        \<and> (\<forall>i < unat n_items. m' (line + i) = m (new_data + i)))"
proof -
  assume a: "\<not> IS_FULLY_ASSOC info" "share_rw info = 0"
    "\<forall>i j. i < unat n_items \<longrightarrow> j < unat n_items \<longrightarrow> line + i \<noteq> new_data + j"
  let ?m = "snd (write_bitlines line new_data 0 (unat n_items) (data_bitline arr) m)"
  have m: "?m = (\<lambda>x. if line \<le> x \<and> x < line + unat n_items then m (new_data + (x - line)) else m x)"
    using write_bitlines_memory [of 0 "unat n_items"] a(3) by simp
  have line: "?m (line + i) = m (new_data + i)" if "i < unat n_items" for i
    using that by (simp add: m)
  have new: "?m (new_data + i) = m (new_data + i)" if "i < unat n_items" for i
  proof -
    have "\<not> (line \<le> new_data + i \<and> new_data + i < line + unat n_items)"
    proof
      assume h: "line \<le> new_data + i \<and> new_data + i < line + unat n_items"
      then have "new_data + i - line < unat n_items" by linarith
      from a(3) [rule_format, OF this that] h show False by simp
    qed
    then show ?thesis by (auto simp: m)
  qed
  have "write_cells line new_data 0 (unat n_items) (data_mem arr) ?m = data_mem arr"
    using line new by (intro write_cells_equal) auto
  then show ?thesis using line by (simp add: data_write_separate [OF a(1,2)] Let_def)
qed

theorem SIM_power_array_data_write_overlap_witness:
  "case SIM_power_array_data_write zero_info zero_array zero_set_state 8 0 0 100 (\<lambda>a. if a < 100 then 0 else 255) of
     (arr', st', m') \<Rightarrow> data_mem arr' = data_mem zero_array \<and> st' = zero_set_state
       \<and> (\<forall>i < unat (8 :: u32). m' (0 + i) = (if 100 + i < 100 then 0 else 255))"
  using SIM_power_array_data_write_overlap [of zero_info 8 0 100 zero_array zero_set_state "\<lambda>a. if a < 100 then 0 else 255"]
  by (simp add: IS_FULLY_ASSOC_def zero_info_def)

text \<open>
  A tag comparison records a miss as soon as any way mismatches. In an array of two or more
  ways with different tags this happens on every access, also on a hit.
\<close>

theorem SIM_power_array_tag_compare_hit_counted_as_miss:
  "SIM_power_array_tag_compare info arr port tag_input caddr st = Some (arr', port') \<Longrightarrow>
   i < unat (assoc info) \<Longrightarrow> get_set_tag info (set_entry_set st) i = tag_input \<Longrightarrow>
   j < unat (assoc info) \<Longrightarrow> get_set_tag info (set_entry_set st) j \<noteq> tag_input \<Longrightarrow>
   comp_n_miss (arr_comp arr') = comp_n_miss (arr_comp arr) + 1"
  using tag_compare_miss [of info arr port tag_input caddr st arr' port'] by auto

theorem SIM_power_array_tag_compare_hit_counted_as_miss_witness:
  "\<exists>arr' port'. SIM_power_array_tag_compare (zero_info\<lparr>assoc := 2\<rparr>) zero_array zero_port 5 0
       (zero_set_state\<lparr>set_entry_set := Some [5, 7]\<rparr>) = Some (arr', port') \<and> comp_n_miss (arr_comp arr') = 1"
proof -
  let ?i = "zero_info\<lparr>assoc := 2\<rparr>" and ?s = "zero_set_state\<lparr>set_entry_set := Some [5, 7]\<rparr>"
  obtain arr' port' where r: "SIM_power_array_tag_compare ?i zero_array zero_port 5 0 ?s = Some (arr', port')"
    using tag_compare_Some [of ?i zero_array zero_port 5 0 ?s] by (auto simp: HAVE_COL_DEC_def zero_info_def)
  show ?thesis
    using SIM_power_array_tag_compare_hit_counted_as_miss [OF r, of 0 1] r
    by (simp add: zero_info_def zero_array_def zero_comp_def)
qed

end
