(* ===== verification/Orion_Router.thy ===== *)
theory Orion_Router
  imports Orion_Misc Orion_Array
begin

text \<open>
  The power model of an on-chip router, \<^verbatim>\<open>SIM_power_router.c\<close>: crossbars, arbiters and the router that
  combines them with buffers. Crossbar and arbiter are event meters; the router's statistical energy
  walks over its parts and splits the power into buffers, switch and arbiters. \<^term>\<open>None\<close> stands for
  undefined behaviour and for a floating-point result that is not finite.
\<close>

section \<open>Crossbar\<close>

definition MATRIX_CROSSBAR :: int where
  "MATRIX_CROSSBAR = 1"

definition MULTREE_CROSSBAR :: int where
  "MULTREE_CROSSBAR = 2"

definition CROSSBAR_MAX_MODEL :: int where
  "CROSSBAR_MAX_MODEL = 3"

definition TRANS_GATE :: int where
  "TRANS_GATE = 0"

definition TRISTATE_GATE :: int where
  "TRISTATE_GATE = 1"

definition N_GATE :: int where
  "N_GATE = 0"

definition NP_GATE :: int where
  "NP_GATE = 1"

record SIM_power_crossbar_t =
  xb_model :: int
  xb_n_in :: u32
  xb_n_out :: u32
  xb_data_width :: u32
  xb_degree :: u32
  xb_connect_type :: int
  xb_trans_type :: int
  xb_n_chg_in :: u64
  xb_n_chg_int :: u64
  xb_n_chg_out :: u64
  xb_n_chg_ctr :: u64
  xb_e_chg_in :: real
  xb_e_chg_int :: real
  xb_e_chg_out :: real
  xb_e_chg_ctr :: real
  xb_depth :: u32
  xb_mask :: u64

text \<open>
  An unknown connection type leaves the transistor capacitance uninitialised. \<open>Nsize\<close> is the size the
  caller passes by reference, \<^term>\<open>None\<close> for a null pointer.
\<close>

definition SIM_crossbar_in_cap :: "tech \<Rightarrow> real \<Rightarrow> u32 \<Rightarrow> int \<Rightarrow> int \<Rightarrow> real option \<Rightarrow> real option" where
  "SIM_crossbar_in_cap T wire_cap n_out connect_type trans_type Nsize = do {
     Ctrans \<leftarrow>
       (if connect_type = TRANS_GATE
        then (let nsize = (case Nsize of Some x \<Rightarrow> x | None \<Rightarrow> Wmemcellr T);
                  psize = nsize * Wdecinvp T / Wdecinvn T
              in Some (SIM_power_draincap T nsize NCH 1
                       + (if trans_type = NP_GATE then SIM_power_draincap T psize PCH 1 else 0)))
        else if connect_type = TRISTATE_GATE
        then Some (SIM_power_gatecap T (Woutdrvnandn T + Woutdrvnandp T) 0
                   + SIM_power_gatecap T (Woutdrvnorn T + Woutdrvnorp T) 0)
        else None);
     let Ctotal = wire_cap + dbl32 n_out * Ctrans;
     let psize = SIM_power_driver_size T Ctotal (Period T / 3);
     let nsize = psize * Wdecinvn T / Wdecinvp T;
     let Ctotal = Ctotal + (SIM_power_draincap T nsize NCH 1 + SIM_power_draincap T psize PCH 1
                            + SIM_power_gatecap T (nsize + psize) 0);
     Some (Ctotal / 2)
   }"

text \<open>
  \<open>resize\<close> says that the caller passed the address of \<open>Nsize\<close>; the second component is the value
  written through it.
\<close>

definition SIM_crossbar_out_cap :: "tech \<Rightarrow> real \<Rightarrow> u32 \<Rightarrow> int \<Rightarrow> int \<Rightarrow> bool \<Rightarrow> (real \<times> real option) option" where
  "SIM_crossbar_out_cap T len n_in connect_type trans_type resize = do {
     let Ctotal = CC3metal T * len + (SIM_power_draincap T (Woutdrivern T) NCH 1
           + SIM_power_draincap T (Woutdriverp T) PCH 1 + SIM_power_gatecap T (Woutdrivern T + Woutdriverp T) 0);
     (Ctrans, Nsize) \<leftarrow>
       (if connect_type = TRANS_GATE
        then (let (psize, nsize) =
                (if resize
                 then (let psize = SIM_power_driver_size T Ctotal (Period T / 3)
                       in (psize, psize * Wdecinvn T / Wdecinvp T))
                 else (Wmemcellr T * Wdecinvp T / Wdecinvn T, Wmemcellr T))
              in Some (SIM_power_draincap T nsize NCH 1
                       + (if trans_type = NP_GATE then SIM_power_draincap T psize PCH 1 else 0),
                       if resize then Some nsize else None))
        else if connect_type = TRISTATE_GATE
        then Some (SIM_power_draincap T (Woutdrivern T) NCH 1 + SIM_power_draincap T (Woutdriverp T) PCH 1, None)
        else None);
     Some ((Ctotal + dbl32 n_in * Ctrans) / 2, Nsize)
   }"

definition SIM_crossbar_int_cap :: "tech \<Rightarrow> u32 \<Rightarrow> int \<Rightarrow> int \<Rightarrow> real" where
  "SIM_crossbar_int_cap T degree connect_type trans_type =
     (if connect_type = TRANS_GATE
      then dbl32 (degree + 1)
           * (SIM_power_draincap T (Wmemcellr T) NCH 1
              + (if trans_type = NP_GATE then SIM_power_draincap T (Wmemcellr T * Wdecinvp T / Wdecinvn T) PCH 1 else 0))
      else if connect_type = TRISTATE_GATE
      then dbl32 degree * (SIM_power_draincap T (Woutdrivern T) NCH 1 + SIM_power_draincap T (Woutdriverp T) PCH 1)
           + (SIM_power_gatecap T (Woutdrvnandn T + Woutdrvnandp T) 0
              + SIM_power_gatecap T (Woutdrvnorn T + Woutdrvnorp T) 0)
      else 0) / 2"

definition SIM_crossbar_ctr_cap :: "tech \<Rightarrow> real \<Rightarrow> u32 \<Rightarrow> bool \<Rightarrow> bool \<Rightarrow> u32 \<Rightarrow> int \<Rightarrow> int \<Rightarrow> real option" where
  "SIM_crossbar_ctr_cap T len width prev_ctr next_ctr degree connect_type trans_type = do {
     Cgate \<leftarrow>
       (if connect_type = TRANS_GATE
        then Some (SIM_power_gatecap T (Wmemcellr T) 0
                   + (if trans_type = NP_GATE then SIM_power_gatecap T (Wmemcellr T * Wdecinvp T / Wdecinvn T) 0 else 0))
        else if connect_type = TRISTATE_GATE
        then Some (SIM_power_gatecap T (Woutdrvnandn T + Woutdrvnandp T) 0
                   + SIM_power_gatecap T (Woutdrvnorn T + Woutdrvnorp T) 0)
        else None);
     Some (Cmetal T * len + dbl32 width * Cgate
       + (if \<not> (connect_type = TRANS_GATE \<and> trans_type = N_GATE \<and> \<not> prev_ctr)
          then SIM_power_draincap T (Wdecinvn T) NCH 1 + SIM_power_draincap T (Wdecinvp T) PCH 1
               + SIM_power_gatecap T (Wdecinvn T + Wdecinvp T) 0
          else 0)
       + (if prev_ctr
          then dbl32 degree * SIM_power_draincap T (WdecNORn T) NCH 1 + SIM_power_draincap T (WdecNORp T) PCH (sint degree)
          else 0)
       + (if next_ctr then SIM_power_gatecap T (WdecNORn T + WdecNORp T) (dbl32 (degree * 40 + 20)) else 0))
   }"

text \<open>
  \<^verbatim>\<open>(u_int)ceil(log(n_in) / log(degree))\<close>. No input or degree 1 gives an infinity or no number,
  whose conversion is undefined; the logarithm of degree 0 is minus infinity, so the quotient is 0.
\<close>

definition crossbar_depth :: "u32 \<Rightarrow> u32 \<Rightarrow> u32 option" where
  "crossbar_depth n_in degree =
     (if n_in = 0 \<or> degree = 1 then None
      else if degree = 0 then Some 0
      else Some (of_int \<lceil>ln (dbl32 n_in) / ln (dbl32 degree)\<rceil>))"

definition crossbar_matrix_init :: "tech \<Rightarrow> SIM_power_crossbar_t \<Rightarrow> real \<Rightarrow> real \<Rightarrow> (SIM_power_crossbar_t \<times> real) option" where
  "crossbar_matrix_init T xb in_len out_len = do {
     let in_length = max in_len (dbl32 (xb_n_out xb * xb_data_width xb) * CrsbarCellWidth T);
     let out_length = max out_len (dbl32 (xb_n_in xb * xb_data_width xb) * CrsbarCellHeight T);
     (out_cap, Nsize) \<leftarrow> SIM_crossbar_out_cap T out_length (xb_n_in xb) (xb_connect_type xb) (xb_trans_type xb) True;
     in_cap \<leftarrow> SIM_crossbar_in_cap T (in_length * CC3metal T) (xb_n_out xb) (xb_connect_type xb) (xb_trans_type xb) Nsize;
     ctr_cap \<leftarrow> SIM_crossbar_ctr_cap T (in_length / 2) (xb_data_width xb) False False 0 (xb_connect_type xb) (xb_trans_type xb);
     Some (xb\<lparr>xb_e_chg_out := out_cap * EnergyFactor T, xb_e_chg_in := in_cap * EnergyFactor T,
              xb_e_chg_ctr := ctr_cap * EnergyFactor T, xb_e_chg_int := 0\<rparr>, in_length)
   }"

definition crossbar_multree_init :: "tech \<Rightarrow> SIM_power_crossbar_t \<Rightarrow> SIM_power_crossbar_t option" where
  "crossbar_multree_init T xb = do {
     let ct = xb_connect_type xb;
     let tt = xb_trans_type xb;
     let bits = dbl32 (xb_n_in xb * xb_data_width xb);
     let half = dbl32 (xb_n_out xb div 2);
     let in_wire_cap = bits * CrsbarCellWidth T * half * CCmetal T + bits * (5 * Lamda T) * half * CC3metal T;
     let ctr_length = bits * CrsbarCellWidth T * half / 2;
     (out_cap, _) \<leftarrow> SIM_crossbar_out_cap T 0 (xb_degree xb) ct tt False;
     in_cap \<leftarrow> SIM_crossbar_in_cap T in_wire_cap (xb_n_out xb) ct tt None;
     depth \<leftarrow> crossbar_depth (xb_n_in xb) (xb_degree xb);
     e_chg_ctr \<leftarrow>
       (if depth = 1
        then map_option (\<lambda>c. c * EnergyFactor T)
               (SIM_crossbar_ctr_cap T ctr_length (xb_data_width xb) False False (xb_degree xb) ct tt)
        else do {
          first \<leftarrow> SIM_crossbar_ctr_cap T ctr_length (xb_data_width xb) False True (xb_degree xb) ct tt;
          last \<leftarrow> SIM_crossbar_ctr_cap T 0 (xb_data_width xb) True False (xb_degree xb) ct tt;
          middle \<leftarrow> SIM_crossbar_ctr_cap T 0 (xb_data_width xb) True True (xb_degree xb) ct tt;
          Some (first * EnergyFactor T + last * EnergyFactor T
                + (if depth > 2 then dbl32 (depth - 2) * middle * EnergyFactor T else 0))
        });
     Some (xb\<lparr>xb_e_chg_out := out_cap * EnergyFactor T, xb_e_chg_in := in_cap * EnergyFactor T,
              xb_e_chg_int := SIM_crossbar_int_cap T (xb_degree xb) ct tt * EnergyFactor T,
              xb_depth := depth, xb_e_chg_ctr := e_chg_ctr\<rparr>)
   }"

text \<open>
  The result: the crossbar, the return code and the request wire length, written only by the
  matrix model (\<^term>\<open>None\<close> when it is not written).
\<close>

definition SIM_crossbar_init :: "tech \<Rightarrow> SIM_power_crossbar_t \<Rightarrow> int \<Rightarrow> u32 \<Rightarrow> u32 \<Rightarrow> u32 \<Rightarrow> u32 \<Rightarrow> int \<Rightarrow> int \<Rightarrow> real \<Rightarrow> real
    \<Rightarrow> (SIM_power_crossbar_t \<times> int \<times> real option) option" where
  "SIM_crossbar_init T crsbar model n_in n_out width degree connect_type trans_type in_len out_len =
     (let crsbar = crsbar\<lparr>xb_model := model\<rparr>
      in if model \<noteq> 0 \<and> model < CROSSBAR_MAX_MODEL
         then (let crsbar = crsbar\<lparr>xb_n_in := n_in, xb_n_out := n_out, xb_data_width := width,
                     xb_degree := degree, xb_connect_type := connect_type, xb_trans_type := trans_type,
                     xb_mask := HAMM_MASK width,
                     xb_n_chg_in := 0, xb_n_chg_int := 0, xb_n_chg_out := 0, xb_n_chg_ctr := 0\<rparr>
               in if model = MATRIX_CROSSBAR
                  then map_option (\<lambda>(xb, req_len). (xb, 0, Some req_len)) (crossbar_matrix_init T crsbar in_len out_len)
                  else if model = MULTREE_CROSSBAR
                  then map_option (\<lambda>xb. (xb, 0, None)) (crossbar_multree_init T crsbar)
                  else Some (crsbar, 0, None))
         else Some (crsbar, - 1, None))"

definition SIM_crossbar_record :: "SIM_power_crossbar_t \<Rightarrow> int \<Rightarrow> u64 \<Rightarrow> u64 \<Rightarrow> u32 \<Rightarrow> u32 \<Rightarrow> SIM_power_crossbar_t" where
  "SIM_crossbar_record xb io new_data old_data new_port old_port =
     (if xb_model xb = MATRIX_CROSSBAR
      then if io \<noteq> 0
           then xb\<lparr>xb_n_chg_in := xb_n_chg_in xb + ucast (SIM_power_Hamming new_data old_data (xb_mask xb))\<rparr>
           else xb\<lparr>xb_n_chg_out := xb_n_chg_out xb + ucast (SIM_power_Hamming new_data old_data (xb_mask xb)),
                   xb_n_chg_ctr := xb_n_chg_ctr xb + (if new_port \<noteq> old_port then 1 else 0)\<rparr>
      else xb)"

definition SIM_crossbar_report :: "SIM_power_crossbar_t \<Rightarrow> real" where
  "SIM_crossbar_report xb =
     dbl64 (xb_n_chg_in xb) * xb_e_chg_in xb + dbl64 (xb_n_chg_out xb) * xb_e_chg_out xb
     + dbl64 (xb_n_chg_int xb) * xb_e_chg_int xb + dbl64 (xb_n_chg_ctr xb) * xb_e_chg_ctr xb"

text \<open>
  The statistical energy prints its items directly under the caller's path. The overflow warning
  is a diagnostic and not part of the energy log.
\<close>

definition SIM_crossbar_stat_energy :: "SIM_power_crossbar_t \<Rightarrow> int \<Rightarrow> int \<Rightarrow> real \<Rightarrow> stat_state \<Rightarrow> real \<times> stat_state" where
  "SIM_crossbar_stat_energy xb print_depth max_avg n_data s =
     (let n_data = (if n_data > dbl32 (xb_n_out xb) then dbl32 (xb_n_out xb) else n_data);
          next_depth = NEXT_DEPTH print_depth;
          (Eavg, s) =
            (if xb_model xb = MATRIX_CROSSBAR \<or> xb_model xb = MULTREE_CROSSBAR
             then stat_seq
               [stat_leaf ''input'' (xb_e_chg_in xb * dbl32 (xb_data_width xb) * avg max_avg * n_data) next_depth,
                stat_leaf ''output'' (xb_e_chg_out xb * dbl32 (xb_data_width xb) * avg max_avg * n_data) next_depth,
                stat_leaf ''control'' (xb_e_chg_ctr xb * n_data) next_depth,
                if xb_model xb = MULTREE_CROSSBAR \<and> xb_depth xb > 1
                then stat_leaf ''internal node''
                       (xb_e_chg_int xb * dbl32 (xb_data_width xb) * dbl32 (xb_depth xb - 1) * avg max_avg * n_data) next_depth
                else stat_skip] 0 s
             else (0, s))
      in (Eavg, stat_print Eavg print_depth s))"

section \<open>Arbiter\<close>

definition RR_ARBITER :: int where
  "RR_ARBITER = 1"

definition MATRIX_ARBITER :: int where
  "MATRIX_ARBITER = 2"

definition QUEUE_ARBITER :: int where
  "QUEUE_ARBITER = 3"

definition ARBITER_MAX_MODEL :: int where
  "ARBITER_MAX_MODEL = 4"

record SIM_power_arbiter_t =
  arb_model :: int
  arb_req_width :: u32
  arb_n_chg_req :: u64
  arb_n_chg_grant :: u64
  arb_n_chg_carry :: u64
  arb_n_chg_carry_in :: u64
  arb_n_chg_mint :: u64
  arb_e_chg_req :: real
  arb_e_chg_grant :: real
  arb_e_chg_carry :: real
  arb_e_chg_carry_in :: real
  arb_e_chg_mint :: real
  arb_pri_ff :: SIM_power_ff_t
  arb_queue :: SIM_power_array_t
  arb_mask :: u64

definition SIM_rr_arbiter_req_cap :: "tech \<Rightarrow> real \<Rightarrow> real" where
  "SIM_rr_arbiter_req_cap T len =
     2 * SIM_power_gatecap T (WdecNORn T + WdecNORp T) 0
     + (SIM_power_draincap T (Wdecinvn T) NCH 1 + SIM_power_draincap T (Wdecinvp T) PCH 1
        + SIM_power_gatecap T (Wdecinvn T + Wdecinvp T) 0)
     + len * Cmetal T"

definition SIM_rr_arbiter_pri_cap :: "tech \<Rightarrow> real" where
  "SIM_rr_arbiter_pri_cap T = SIM_power_gatecap T (WdecNORn T + WdecNORp T) 0"

definition SIM_rr_arbiter_grant_cap :: "tech \<Rightarrow> real" where
  "SIM_rr_arbiter_grant_cap T =
     2 * SIM_power_draincap T (WdecNORn T) NCH 1 + SIM_power_draincap T (WdecNORp T) PCH 2"

definition SIM_rr_arbiter_carry_cap :: "tech \<Rightarrow> real" where
  "SIM_rr_arbiter_carry_cap T =
     (2 * SIM_power_draincap T (WdecNORn T) NCH 1 + SIM_power_draincap T (WdecNORp T) PCH 2)
     + SIM_power_gatecap T (WdecNORn T + WdecNORp T) 0"

definition SIM_rr_arbiter_carry_in_cap :: "tech \<Rightarrow> real" where
  "SIM_rr_arbiter_carry_in_cap T =
     2 * SIM_power_gatecap T (WdecNORn T + WdecNORp T) 0
     + (2 * SIM_power_draincap T (WdecNORn T) NCH 1 + SIM_power_draincap T (WdecNORp T) PCH 2)"

definition SIM_matrix_arbiter_req_cap :: "tech \<Rightarrow> u32 \<Rightarrow> real \<Rightarrow> real" where
  "SIM_matrix_arbiter_req_cap T req_width len =
     dbl32 (req_width - 1) * SIM_power_gatecap T (WdecNORn T + WdecNORp T) 0
     + (SIM_power_draincap T (Wdecinvn T) NCH 1 + SIM_power_draincap T (Wdecinvp T) PCH 1
        + SIM_power_gatecap T (Wdecinvn T + Wdecinvp T) 0)
     + SIM_power_gatecap T (WdecNORn T + WdecNORp T) 0
     + len * Cmetal T"

definition SIM_matrix_arbiter_pri_cap :: "tech \<Rightarrow> u32 \<Rightarrow> real" where
  "SIM_matrix_arbiter_pri_cap T req_width = 2 * SIM_power_gatecap T (WdecNORn T + WdecNORp T) 0"

definition SIM_matrix_arbiter_grant_cap :: "tech \<Rightarrow> u32 \<Rightarrow> real" where
  "SIM_matrix_arbiter_grant_cap T req_width =
     dbl32 req_width * SIM_power_draincap T (WdecNORn T) NCH 1 + SIM_power_draincap T (WdecNORp T) PCH (sint req_width)"

definition SIM_matrix_arbiter_int_cap :: "tech \<Rightarrow> real" where
  "SIM_matrix_arbiter_int_cap T =
     (2 * SIM_power_draincap T (WdecNORn T) NCH 1 + SIM_power_draincap T (WdecNORp T) PCH 2)
     + SIM_power_gatecap T (WdecNORn T + WdecNORp T) 0"

definition SIM_arbiter_clear_stat :: "SIM_power_arbiter_t \<Rightarrow> SIM_power_arbiter_t" where
  "SIM_arbiter_clear_stat arb =
     arb\<lparr>arb_n_chg_req := 0, arb_n_chg_grant := 0, arb_n_chg_mint := 0, arb_n_chg_carry := 0, arb_n_chg_carry_in := 0,
         arb_queue := SIM_array_clear_stat (arb_queue arb), arb_pri_ff := SIM_fpfp_clear_stat (arb_pri_ff arb)\<rparr>"

text \<open>
  The description of the queue is updated by the array initialisation, so it is part of the
  result; the result code is -1 as soon as the flip-flop model is refused.
\<close>

definition SIM_arbiter_init :: "tech \<Rightarrow> SIM_power_arbiter_t \<Rightarrow> int \<Rightarrow> int \<Rightarrow> u32 \<Rightarrow> real \<Rightarrow> ('e, 's) SIM_power_array_info_t
    \<Rightarrow> (SIM_power_arbiter_t \<times> ('e, 's) SIM_power_array_info_t \<times> int) option" where
  "SIM_arbiter_init T arb arbiter_model ff_mod req_width len info =
     (let arb = arb\<lparr>arb_model := arbiter_model\<rparr>
      in if arbiter_model \<noteq> 0 \<and> arbiter_model < ARBITER_MAX_MODEL
         then (let arb = (SIM_arbiter_clear_stat (arb\<lparr>arb_req_width := req_width\<rparr>))\<lparr>arb_mask := HAMM_MASK req_width\<rparr>
               in if arbiter_model = RR_ARBITER
                  then (let (ff, err) = SIM_fpfp_init T (arb_pri_ff arb) ff_mod (SIM_rr_arbiter_pri_cap T)
                        in Some (arb\<lparr>arb_e_chg_req := SIM_rr_arbiter_req_cap T len / 2 * EnergyFactor T,
                                arb_e_chg_grant := SIM_rr_arbiter_grant_cap T * EnergyFactor T,
                                arb_e_chg_carry := SIM_rr_arbiter_carry_cap T / 2 * EnergyFactor T,
                                arb_e_chg_carry_in := SIM_rr_arbiter_carry_in_cap T / 2 * EnergyFactor T,
                                arb_e_chg_mint := 0, arb_pri_ff := ff\<rparr>, info, if err \<noteq> 0 then - 1 else 0))
                  else if arbiter_model = MATRIX_ARBITER
                  then (let (ff, err) = SIM_fpfp_init T (arb_pri_ff arb) ff_mod (SIM_matrix_arbiter_pri_cap T req_width)
                        in Some (arb\<lparr>arb_e_chg_req := SIM_matrix_arbiter_req_cap T req_width len / 2 * EnergyFactor T,
                                arb_e_chg_grant := SIM_matrix_arbiter_grant_cap T req_width * EnergyFactor T,
                                arb_e_chg_mint := SIM_matrix_arbiter_int_cap T / 2 * EnergyFactor T,
                                arb_e_chg_carry := 0, arb_e_chg_carry_in := 0, arb_pri_ff := ff\<rparr>,
                                info, if err \<noteq> 0 then - 1 else 0))
                  else if arbiter_model = QUEUE_ARBITER
                  then map_option (\<lambda>(info, q). (arb\<lparr>arb_e_chg_req := 0, arb_e_chg_grant := 0, arb_e_chg_mint := 0,
                                arb_e_chg_carry := 0, arb_e_chg_carry_in := 0, arb_queue := q\<rparr>, info, 0))
                         (SIM_array_power_init T info (arb_queue arb))
                  else Some (arb, info, 0))
         else Some (arb, info, - 1))"

text \<open>The products of 32-bit widths wrap before they are added to the 64-bit counters.\<close>

definition SIM_arbiter_record :: "SIM_power_arbiter_t \<Rightarrow> u64 \<Rightarrow> u64 \<Rightarrow> u32 \<Rightarrow> u32 \<Rightarrow> SIM_power_arbiter_t" where
  "SIM_arbiter_record arb new_req old_req new_grant old_grant =
     (let req = arb_n_chg_req arb + ucast (SIM_power_Hamming new_req old_req (arb_mask arb));
          grant = arb_n_chg_grant arb + (if new_grant \<noteq> old_grant then 1 else 0);
          w = arb_req_width arb; ff = arb_pri_ff arb
      in if arb_model arb = MATRIX_ARBITER
         then arb\<lparr>arb_n_chg_req := req, arb_n_chg_grant := grant,
                  arb_n_chg_mint := arb_n_chg_mint arb + ucast ((w - 1) * w div 2),
                  arb_pri_ff := ff\<lparr>ff_n_switch := ff_n_switch ff + ucast ((w - 1) div 2)\<rparr>\<rparr>
         else if arb_model arb = RR_ARBITER
         then arb\<lparr>arb_n_chg_req := req, arb_n_chg_grant := grant,
                  arb_n_chg_carry := arb_n_chg_carry arb + ucast (w div 2),
                  arb_n_chg_carry_in := arb_n_chg_carry_in arb + ucast (w div 2 - 1),
                  arb_pri_ff := ff\<lparr>ff_n_switch := ff_n_switch ff + 2\<rparr>\<rparr>
         else arb)"

definition SIM_arbiter_report :: "SIM_power_arbiter_t \<Rightarrow> real" where
  "SIM_arbiter_report arb =
     (let ff = arb_pri_ff arb;
          pri = dbl64 (ff_n_switch ff) * ff_e_switch ff + dbl64 (ff_n_keep_1 ff) * ff_e_keep_1 ff
                + dbl64 (ff_n_keep_0 ff) * ff_e_keep_0 ff + dbl64 (ff_n_clock ff) * ff_e_clock ff
      in if arb_model arb = MATRIX_ARBITER
         then dbl64 (arb_n_chg_req arb) * arb_e_chg_req arb + dbl64 (arb_n_chg_grant arb) * arb_e_chg_grant arb
              + dbl64 (arb_n_chg_mint arb) * arb_e_chg_mint arb + pri
         else if arb_model arb = RR_ARBITER
         then dbl64 (arb_n_chg_req arb) * arb_e_chg_req arb + dbl64 (arb_n_chg_grant arb) * arb_e_chg_grant arb
              + dbl64 (arb_n_chg_carry arb) * arb_e_chg_carry arb
              + dbl64 (arb_n_chg_carry_in arb) * arb_e_chg_carry_in arb + pri
         else - 1)"

text \<open>
  The statistical energy of an arbiter over one cycle: the expected number of grants, the items
  of the two combinational models, and the walk itself. For an idle arbiter the C division yields
  an infinite period and no grant, as here.
\<close>

definition arbiter_n_grant :: "real \<Rightarrow> real" where
  "arbiter_n_grant n_req = (if n_req \<ge> 1 then 1 else 1 / of_int \<lceil>1 / n_req\<rceil>)"

definition arbiter_rr_stat :: "SIM_power_arbiter_t \<Rightarrow> real \<Rightarrow> real \<Rightarrow> int \<Rightarrow> int \<Rightarrow> int
    \<Rightarrow> (stat_state \<Rightarrow> real \<times> stat_state) list" where
  "arbiter_rr_stat arb n_req n_grant max_avg next_depth next_next_depth =
     (let w = dbl32 (arb_req_width arb); ff = arb_pri_ff arb
      in [stat_leaf ''request'' (arb_e_chg_req arb * n_req) next_depth,
          stat_leaf ''grant'' (arb_e_chg_grant arb * n_grant) next_depth,
          stat_leaf ''carry'' (arb_e_chg_carry arb * w * avg max_avg * n_grant) next_depth,
          stat_leaf ''internal carry'' (arb_e_chg_carry_in arb * (w * avg max_avg - 1) * n_grant) next_depth,
          stat_block ''priority''
            [(''switch'', ff_e_switch ff * 2 * n_grant),
             (''keep 0'', ff_e_keep_0 ff * (w - 2 * n_grant)),
             (''clock'', ff_e_clock ff * w)] next_depth next_next_depth])"

definition arbiter_matrix_stat :: "SIM_power_arbiter_t \<Rightarrow> real \<Rightarrow> real \<Rightarrow> int \<Rightarrow> int \<Rightarrow> int
    \<Rightarrow> (stat_state \<Rightarrow> real \<times> stat_state) list" where
  "arbiter_matrix_stat arb n_req n_grant max_avg next_depth next_next_depth =
     (let w = arb_req_width arb; ff = arb_pri_ff arb;
          total_pri = dbl32 (w * (w - 1)) * 0.5;
          n_chg_pri = dbl32 (w - 1) * avg max_avg;
          keep = (total_pri - n_chg_pri * n_grant) * avg max_avg
      in [stat_leaf ''request'' (arb_e_chg_req arb * n_req) next_depth,
          stat_leaf ''grant'' (arb_e_chg_grant arb * n_grant) next_depth,
          stat_block ''priority''
            ([(''switch'', ff_e_switch ff * n_chg_pri * n_grant)]
             @ (if ff_e_keep_0 ff \<ge> ff_e_keep_1 ff \<or> max_avg = 0 then [(''keep 0'', ff_e_keep_0 ff * keep)] else [])
             @ (if ff_e_keep_0 ff < ff_e_keep_1 ff \<or> max_avg = 0 then [(''keep 1'', ff_e_keep_1 ff * keep)] else [])
             @ [(''clock'', ff_e_clock ff * total_pri)]) next_depth next_next_depth,
          stat_leaf ''internal node''
            (if max_avg \<noteq> 0 then arb_e_chg_mint arb * (min n_req (dbl32 w * 0.5) + 2) * dbl32 (w - 1)
             else arb_e_chg_mint arb * (n_req + 1) * dbl32 (w - 1) * 0.5) next_depth])"

definition SIM_arbiter_stat_energy :: "SIM_power_arbiter_t \<Rightarrow> ('e, 's) SIM_power_array_info_t \<Rightarrow> real \<Rightarrow> int \<Rightarrow> int
    \<Rightarrow> stat_state \<Rightarrow> (real \<times> stat_state) option" where
  "SIM_arbiter_stat_energy arb info n_req print_depth max_avg s = do {
     let next_depth = NEXT_DEPTH print_depth;
     let next_next_depth = NEXT_DEPTH next_depth;
     let n_req = (if n_req > dbl32 (arb_req_width arb) then dbl32 (arb_req_width arb) else n_req);
     let n_grant = arbiter_n_grant n_req;
     (Eavg, s) \<leftarrow>
       (if arb_model arb = RR_ARBITER
        then Some (stat_seq (arbiter_rr_stat arb n_req n_grant max_avg next_depth next_next_depth) 0 s)
        else if arb_model arb = MATRIX_ARBITER
        then Some (stat_seq (arbiter_matrix_stat arb n_req n_grant max_avg next_depth next_next_depth) 0 s)
        else if arb_model arb = QUEUE_ARBITER
        then map_option (\<lambda>(E, s'). (E, stat_leave (SIM_power_strlen (fst s)) s'))
               (SIM_reg_stat_energy info (arb_queue arb) n_req n_grant next_depth max_avg (stat_enter ''queue'' s))
        else Some (0, s));
     Some (Eavg, stat_print Eavg print_depth s)
   }"

section \<open>Router\<close>

record SIM_power_router_t =
  rt_crossbar :: SIM_power_crossbar_t
  rt_in_buf :: SIM_power_array_t
  rt_cache_in_buf :: SIM_power_array_t
  rt_mc_in_buf :: SIM_power_array_t
  rt_io_in_buf :: SIM_power_array_t
  rt_out_buf :: SIM_power_array_t
  rt_central_buf :: SIM_power_array_t
  rt_in_cbuf_crsbar :: SIM_power_crossbar_t
  rt_out_cbuf_crsbar :: SIM_power_crossbar_t
  rt_in_arb :: SIM_power_arbiter_t
  rt_cache_in_arb :: SIM_power_arbiter_t
  rt_mc_in_arb :: SIM_power_arbiter_t
  rt_io_in_arb :: SIM_power_arbiter_t
  rt_out_arb :: SIM_power_arbiter_t
  rt_cbuf_ff :: SIM_power_ff_t

record ('e, 's) SIM_power_router_info_t =
  ri_n_in :: u32
  ri_n_cache_in :: u32
  ri_n_mc_in :: u32
  ri_n_io_in :: u32
  ri_n_out :: u32
  ri_n_cache_out :: u32
  ri_n_mc_out :: u32
  ri_n_io_out :: u32
  ri_flit_width :: u32
  ri_n_v_channel :: u32
  ri_n_v_class :: u32
  ri_cache_class :: u32
  ri_mc_class :: u32
  ri_io_class :: u32
  ri_in_share_buf :: int
  ri_out_share_buf :: int
  ri_in_share_switch :: int
  ri_out_share_switch :: int
  ri_crossbar_model :: int
  ri_degree :: u32
  ri_connect_type :: int
  ri_trans_type :: int
  ri_crossbar_in_len :: real
  ri_crossbar_out_len :: real
  ri_in_buf :: int
  ri_cache_in_buf :: int
  ri_mc_in_buf :: int
  ri_io_in_buf :: int
  ri_out_buf :: int
  ri_central_buf :: int
  ri_in_buf_info :: "('e, 's) SIM_power_array_info_t"
  ri_cache_in_buf_info :: "('e, 's) SIM_power_array_info_t"
  ri_mc_in_buf_info :: "('e, 's) SIM_power_array_info_t"
  ri_io_in_buf_info :: "('e, 's) SIM_power_array_info_t"
  ri_out_buf_info :: "('e, 's) SIM_power_array_info_t"
  ri_central_buf_info :: "('e, 's) SIM_power_array_info_t"
  ri_pipe_depth :: u32
  ri_cbuf_ff_model :: int
  ri_in_arb_model :: int
  ri_out_arb_model :: int
  ri_in_arb_ff_model :: int
  ri_out_arb_ff_model :: int
  ri_in_arb_queue_info :: "('e, 's) SIM_power_array_info_t"
  ri_cache_in_arb_queue_info :: "('e, 's) SIM_power_array_info_t"
  ri_mc_in_arb_queue_info :: "('e, 's) SIM_power_array_info_t"
  ri_io_in_arb_queue_info :: "('e, 's) SIM_power_array_info_t"
  ri_out_arb_queue_info :: "('e, 's) SIM_power_array_info_t"
  ri_n_total_in :: u32
  ri_n_total_out :: u32
  ri_in_n_switch :: u32
  ri_cache_n_switch :: u32
  ri_mc_n_switch :: u32
  ri_io_n_switch :: u32
  ri_n_switch_in :: u32
  ri_n_switch_out :: u32

text \<open>A step that is taken only when the description asks for the part.\<close>

definition init_if :: "bool \<Rightarrow> ('a \<Rightarrow> 'a option) \<Rightarrow> 'a \<Rightarrow> 'a option" where
  "init_if b f x = (if b then f x else Some x)"

type_synonym ('e, 's) router_state = "('e, 's) SIM_power_router_info_t \<times> SIM_power_router_t"

text \<open>
  Initialisation in the order of the code: the main crossbar with the request wire length it
  reports, the buffers, the central buffer with its two crossbars, the input arbiters and last the
  output arbiter, which needs the wire length. The return codes of the parts are ignored.
\<close>

definition router_crossbar_init :: "tech \<Rightarrow> ('e, 's) router_state \<Rightarrow> (('e, 's) router_state \<times> real) option" where
  "router_crossbar_init T ir = (case ir of (info, r) \<Rightarrow>
     if ri_crossbar_model info \<noteq> 0
     then map_option (\<lambda>(xb, _, req_len). ((info, r\<lparr>rt_crossbar := xb\<rparr>), case req_len of Some l \<Rightarrow> l | None \<Rightarrow> 0))
       (SIM_crossbar_init T (rt_crossbar r) (ri_crossbar_model info) (ri_n_switch_in info) (ri_n_switch_out info)
          (ri_flit_width info) (ri_degree info) (ri_connect_type info) (ri_trans_type info)
          (ri_crossbar_in_len info) (ri_crossbar_out_len info))
     else Some (ir, 0))"

definition router_buffers_init :: "tech \<Rightarrow> ('e, 's) router_state \<Rightarrow> ('e, 's) router_state option" where
  "router_buffers_init T ir = do {
     (info, r) \<leftarrow> init_if (ri_in_buf (fst ir) \<noteq> 0) (\<lambda>(info, r).
       map_option (\<lambda>(i, a). (info\<lparr>ri_in_buf_info := i\<rparr>, r\<lparr>rt_in_buf := a\<rparr>))
         (SIM_array_power_init T (ri_in_buf_info info) (rt_in_buf r))) ir;
     (info, r) \<leftarrow> init_if (ri_cache_in_buf info \<noteq> 0) (\<lambda>(info, r).
       map_option (\<lambda>(i, a). (info\<lparr>ri_cache_in_buf_info := i\<rparr>, r\<lparr>rt_cache_in_buf := a\<rparr>))
         (SIM_array_power_init T (ri_cache_in_buf_info info) (rt_cache_in_buf r))) (info, r);
     (info, r) \<leftarrow> init_if (ri_mc_in_buf info \<noteq> 0) (\<lambda>(info, r).
       map_option (\<lambda>(i, a). (info\<lparr>ri_mc_in_buf_info := i\<rparr>, r\<lparr>rt_mc_in_buf := a\<rparr>))
         (SIM_array_power_init T (ri_mc_in_buf_info info) (rt_mc_in_buf r))) (info, r);
     (info, r) \<leftarrow> init_if (ri_io_in_buf info \<noteq> 0) (\<lambda>(info, r).
       map_option (\<lambda>(i, a). (info\<lparr>ri_io_in_buf_info := i\<rparr>, r\<lparr>rt_io_in_buf := a\<rparr>))
         (SIM_array_power_init T (ri_io_in_buf_info info) (rt_io_in_buf r))) (info, r);
     init_if (ri_out_buf info \<noteq> 0) (\<lambda>(info, r).
       map_option (\<lambda>(i, a). (info\<lparr>ri_out_buf_info := i\<rparr>, r\<lparr>rt_out_buf := a\<rparr>))
         (SIM_array_power_init T (ri_out_buf_info info) (rt_out_buf r))) (info, r)
   }"

definition router_central_init :: "tech \<Rightarrow> ('e, 's) router_state \<times> real \<Rightarrow> (('e, 's) router_state \<times> real) option" where
  "router_central_init T irl = (case irl of ((info, r), req_len) \<Rightarrow>
     if ri_central_buf info \<noteq> 0
     then do {
       (i, a) \<leftarrow> SIM_array_power_init T (ri_central_buf_info info) (rt_central_buf r);
       let cbuf_width = data_arr_width i + tag_arr_width i;
       (xin, _, _) \<leftarrow> SIM_crossbar_init T (rt_in_cbuf_crsbar r) MATRIX_CROSSBAR (ri_n_switch_in info)
         (ri_pipe_depth info * write_ports i) (ri_flit_width info) 0 (ri_connect_type info) (ri_trans_type info) cbuf_width 0;
       (xout, _, _) \<leftarrow> SIM_crossbar_init T (rt_out_cbuf_crsbar r) MATRIX_CROSSBAR
         (ri_pipe_depth info * read_ports i) (ri_n_switch_out info) (ri_flit_width info) 0
         (ri_connect_type info) (ri_trans_type info) 0 cbuf_width;
       Some ((info\<lparr>ri_central_buf_info := i\<rparr>,
              r\<lparr>rt_central_buf := a, rt_in_cbuf_crsbar := xin, rt_out_cbuf_crsbar := xout,
                rt_cbuf_ff := fst (SIM_fpfp_init T (rt_cbuf_ff r) (ri_cbuf_ff_model info) 0)\<rparr>),
             data_arr_height i)
     }
     else Some irl)"

definition router_in_arbs_init :: "tech \<Rightarrow> ('e, 's) router_state \<Rightarrow> ('e, 's) router_state option" where
  "router_in_arbs_init T ir = do {
     let model = ri_in_arb_model (fst ir);
     let ff = ri_in_arb_ff_model (fst ir);
     (info, r) \<leftarrow> init_if (model \<noteq> 0) (\<lambda>(info, r).
       map_option (\<lambda>(a, i, _). (info\<lparr>ri_in_arb_queue_info := i\<rparr>, r\<lparr>rt_in_arb := a\<rparr>))
         (SIM_arbiter_init T (rt_in_arb r) model ff (ri_n_v_class info) 0 (ri_in_arb_queue_info info))) ir;
     (info, r) \<leftarrow> init_if (model \<noteq> 0 \<and> ri_n_cache_in info \<noteq> 0) (\<lambda>(info, r).
       map_option (\<lambda>(a, i, _). (info\<lparr>ri_cache_in_arb_queue_info := i\<rparr>, r\<lparr>rt_cache_in_arb := a\<rparr>))
         (SIM_arbiter_init T (rt_cache_in_arb r) model ff (ri_cache_class info) 0 (ri_cache_in_arb_queue_info info))) (info, r);
     (info, r) \<leftarrow> init_if (model \<noteq> 0 \<and> ri_n_mc_in info \<noteq> 0) (\<lambda>(info, r).
       map_option (\<lambda>(a, i, _). (info\<lparr>ri_mc_in_arb_queue_info := i\<rparr>, r\<lparr>rt_mc_in_arb := a\<rparr>))
         (SIM_arbiter_init T (rt_mc_in_arb r) model ff (ri_mc_class info) 0 (ri_mc_in_arb_queue_info info))) (info, r);
     init_if (model \<noteq> 0 \<and> ri_n_io_in info \<noteq> 0) (\<lambda>(info, r).
       map_option (\<lambda>(a, i, _). (info\<lparr>ri_io_in_arb_queue_info := i\<rparr>, r\<lparr>rt_io_in_arb := a\<rparr>))
         (SIM_arbiter_init T (rt_io_in_arb r) model ff (ri_io_class info) 0 (ri_io_in_arb_queue_info info))) (info, r)
   }"

definition router_out_arb_init :: "tech \<Rightarrow> real \<Rightarrow> ('e, 's) router_state \<Rightarrow> ('e, 's) router_state option" where
  "router_out_arb_init T req_len ir = init_if (ri_out_arb_model (fst ir) \<noteq> 0) (\<lambda>(info, r).
     map_option (\<lambda>(a, i, _). (info\<lparr>ri_out_arb_queue_info := i\<rparr>, r\<lparr>rt_out_arb := a\<rparr>))
       (SIM_arbiter_init T (rt_out_arb r) (ri_out_arb_model info) (ri_out_arb_ff_model info) (ri_n_total_in info - 1)
          req_len (ri_out_arb_queue_info info))) ir"

definition SIM_router_power_init :: "tech \<Rightarrow> ('e, 's) SIM_power_router_info_t \<Rightarrow> SIM_power_router_t
    \<Rightarrow> (('e, 's) SIM_power_router_info_t \<times> SIM_power_router_t) option" where
  "SIM_router_power_init T info router = do {
     (ir, req_len) \<leftarrow> router_crossbar_init T (info, router);
     ir \<leftarrow> router_buffers_init T ir;
     (ir, req_len) \<leftarrow> router_central_init T (ir, req_len);
     ir \<leftarrow> router_in_arbs_init T ir;
     router_out_arb_init T req_len ir
   }"

text \<open>The obsolete report prints the switch energy and the total: the log of printed lines.\<close>

definition SIM_router_power_report :: "('e, 's) SIM_power_router_info_t \<Rightarrow> SIM_power_router_t \<Rightarrow> energy_log" where
  "SIM_router_power_report info router =
     (if ri_crossbar_model info \<noteq> 0
      then (let epart = SIM_crossbar_report (rt_crossbar router)
            in [(''switch: %g'', epart), (''total energy: %g'', epart)])
      else [(''total energy: %g'', 0)])"

text \<open>
  The statistical energy. \<open>stat_part\<close> is the recurring pattern of a call under an extended path
  that is restored afterwards; \<open>stat_parts\<close> accumulates the energies of the parts in order.
\<close>

type_synonym stat_fun = "stat_state \<Rightarrow> (real \<times> stat_state) option"

definition stat_part :: "bool \<Rightarrow> string \<Rightarrow> stat_fun \<Rightarrow> stat_fun" where
  "stat_part b name f s =
     (if b then map_option (\<lambda>(E, s'). (E, stat_leave (SIM_power_strlen (fst s)) s')) (f (stat_enter name s))
      else Some (0, s))"

fun stat_parts :: "stat_fun list \<Rightarrow> real \<Rightarrow> stat_fun" where
  "stat_parts [] Eavg s = Some (Eavg, s)"
| "stat_parts (f # fs) Eavg s = do { (E, s) \<leftarrow> f s; stat_parts fs (Eavg + E) s }"

text \<open>A quotient whose divisor is zero is not finite.\<close>

definition stat_div :: "real \<Rightarrow> real \<Rightarrow> (real \<Rightarrow> stat_fun) \<Rightarrow> stat_fun" where
  "stat_div x y f s = (if y = 0 then None else f (x / y) s)"

definition router_buf_parts :: "('e, 's) SIM_power_router_info_t \<Rightarrow> SIM_power_router_t \<Rightarrow> int \<Rightarrow> int \<Rightarrow> real \<Rightarrow> stat_fun list" where
  "router_buf_parts info r d max_avg e_fin =
     [stat_part (ri_in_buf info \<noteq> 0) ''input buffer''
        (let e = e_fin * dbl32 (ri_n_in info) in SIM_reg_stat_energy (ri_in_buf_info info) (rt_in_buf r) e e d max_avg),
      stat_part (ri_cache_in_buf info \<noteq> 0) ''cache input buffer''
        (let e = e_fin * dbl32 (ri_n_cache_in info)
         in SIM_reg_stat_energy (ri_cache_in_buf_info info) (rt_cache_in_buf r) e e d max_avg),
      stat_part (ri_mc_in_buf info \<noteq> 0) ''memory controller input buffer''
        (let e = e_fin * dbl32 (ri_n_mc_in info)
         in SIM_reg_stat_energy (ri_mc_in_buf_info info) (rt_mc_in_buf r) e e d max_avg),
      stat_part (ri_io_in_buf info \<noteq> 0) ''I/O input buffer''
        (let e = e_fin * dbl32 (ri_n_io_in info)
         in SIM_reg_stat_energy (ri_io_in_buf_info info) (rt_io_in_buf r) e e d max_avg),
      stat_part (ri_out_buf info \<noteq> 0) ''output buffer''
        (stat_div (e_fin * dbl32 (ri_n_total_in info)) (dbl32 (ri_n_total_out info))
           (\<lambda>q. let e = q * dbl32 (ri_n_out info)
                in SIM_reg_stat_energy (ri_out_buf_info info) (rt_out_buf r) e e d max_avg))]"

definition central_regs_stat :: "('e, 's) SIM_power_router_info_t \<Rightarrow> SIM_power_router_t \<Rightarrow> int \<Rightarrow> real \<Rightarrow> stat_state \<Rightarrow> real \<times> stat_state" where
  "central_regs_stat info r d e_cbuf_rw s =
     (let cb = ri_central_buf_info info;
          n_regs = n_set cb * (read_ports cb + write_ports cb);
          len = SIM_power_strlen (fst s);
          pipe = dbl32 (ri_pipe_depth info - 1);
          keep = ff_e_keep_0 (rt_cbuf_ff r) * pipe * (dbl32 n_regs - 2 * (e_cbuf_rw + e_cbuf_rw));
          clock = ff_e_clock (rt_cbuf_ff r) * pipe * dbl32 n_regs;
          s = stat_line ''central buffer pipeline registers/keep 0'' keep (NEXT_DEPTH d) len s;
          s = stat_line ''central buffer pipeline registers/clock'' clock (NEXT_DEPTH d) len s;
          s = stat_line ''central buffer pipeline registers'' (keep + clock) d len s
      in (keep + clock, s))"

definition router_switch_parts :: "('e, 's) SIM_power_router_info_t \<Rightarrow> SIM_power_router_t \<Rightarrow> int \<Rightarrow> int \<Rightarrow> real \<Rightarrow> stat_fun list" where
  "router_switch_parts info r d max_avg e_fin =
     (let e_cbuf_fin = e_fin * dbl32 (ri_n_total_in info);
          cb = ri_central_buf info \<noteq> 0;
          cinfo = ri_central_buf_info info;
          rw = stat_div (e_cbuf_fin * dbl32 (ri_flit_width info)) (dbl32 (blk_bits cinfo))
      in [stat_part (ri_crossbar_model info \<noteq> 0) ''crossbar''
            (\<lambda>s. Some (SIM_crossbar_stat_energy (rt_crossbar r) d max_avg e_cbuf_fin s)),
          stat_part cb ''central buffer''
            (rw (\<lambda>e. SIM_reg_stat_energy cinfo (rt_central_buf r) e e d max_avg)),
          stat_part cb ''central buffer input crossbar''
            (\<lambda>s. Some (SIM_crossbar_stat_energy (rt_in_cbuf_crsbar r) d max_avg e_cbuf_fin s)),
          stat_part cb ''central buffer output crossbar''
            (\<lambda>s. Some (SIM_crossbar_stat_energy (rt_out_cbuf_crsbar r) d max_avg e_cbuf_fin s)),
          (\<lambda>s. if cb then rw (\<lambda>e s. Some (central_regs_stat info r d e s)) s else Some (0, s))])"

text \<open>An arbiter instantiated \<open>n\<close> times per port: its energy is multiplied.\<close>

definition arb_part :: "SIM_power_arbiter_t \<Rightarrow> ('e, 's) SIM_power_array_info_t \<Rightarrow> real \<Rightarrow> u32 \<Rightarrow> real \<Rightarrow> int \<Rightarrow> int \<Rightarrow> stat_fun" where
  "arb_part arb info x n ports d max_avg =
     stat_div x (dbl32 n) (\<lambda>q s. map_option (\<lambda>(E, s). (E * dbl32 n * ports, s)) (SIM_arbiter_stat_energy arb info q d max_avg s))"

definition router_arb_parts :: "('e, 's) SIM_power_router_info_t \<Rightarrow> SIM_power_router_t \<Rightarrow> int \<Rightarrow> int \<Rightarrow> real \<Rightarrow> stat_fun list" where
  "router_arb_parts info r d max_avg e_fin =
     (let inp = ri_in_arb_model info \<noteq> 0
      in [stat_part inp ''input arbiter''
            (arb_part (rt_in_arb r) (ri_in_arb_queue_info info) e_fin (ri_in_n_switch info) (dbl32 (ri_n_in info)) d max_avg),
          stat_part (inp \<and> ri_n_cache_in info \<noteq> 0) ''cache input arbiter''
            (arb_part (rt_cache_in_arb r) (ri_cache_in_arb_queue_info info) e_fin (ri_cache_n_switch info)
               (dbl32 (ri_n_cache_in info)) d max_avg),
          stat_part (inp \<and> ri_n_mc_in info \<noteq> 0) ''memory controller input arbiter''
            (arb_part (rt_mc_in_arb r) (ri_mc_in_arb_queue_info info) e_fin (ri_mc_n_switch info)
               (dbl32 (ri_n_mc_in info)) d max_avg),
          stat_part (inp \<and> ri_n_io_in info \<noteq> 0) ''I/O input arbiter''
            (arb_part (rt_io_in_arb r) (ri_io_in_arb_queue_info info) e_fin (ri_io_n_switch info)
               (dbl32 (ri_n_io_in info)) d max_avg),
          stat_part (ri_out_arb_model info \<noteq> 0) ''output arbiter''
            (arb_part (rt_out_arb r) (ri_out_arb_queue_info info) (e_fin * dbl32 (ri_n_total_in info))
               (ri_n_switch_out info) 1 d max_avg)])"

text \<open>
  The line printed under \<open>plot_flag\<close>: the powers of buffers, switch, arbiters and of the whole
  router, and the three shares.
\<close>

definition router_plot_line :: "int \<Rightarrow> real \<Rightarrow> real \<Rightarrow> real \<Rightarrow> real \<Rightarrow> real list" where
  "router_plot_line plot_flag Pbuf Pswitch Parbiter Ptotal =
     (if plot_flag \<noteq> 0
      then [Pbuf, Pswitch, Parbiter, Ptotal, Pbuf / Ptotal, Pswitch / Ptotal, Parbiter / Ptotal] else [])"

text \<open>The energy, the plot line and the printer's state.\<close>

definition SIM_router_stat_energy :: "('e, 's) SIM_power_router_info_t \<Rightarrow> SIM_power_router_t \<Rightarrow> int \<Rightarrow> int \<Rightarrow> real \<Rightarrow> int \<Rightarrow> real
    \<Rightarrow> stat_state \<Rightarrow> (real \<times> real list \<times> stat_state) option" where
  "SIM_router_stat_energy info r print_depth max_avg e_fin plot_flag freq s = do {
     let d = NEXT_DEPTH print_depth;
     (Eavg, s) \<leftarrow> stat_parts (router_buf_parts info r d max_avg e_fin) 0 s;
     let Pbuf = Eavg * freq;
     (Eavg, s) \<leftarrow> stat_parts (router_switch_parts info r d max_avg e_fin) Eavg s;
     let Pswitch = Eavg * freq - Pbuf;
     (Eavg, s) \<leftarrow> stat_parts (router_arb_parts info r d max_avg e_fin) Eavg s;
     let Ptotal = Eavg * freq;
     let Parbiter = Ptotal - Pbuf - Pswitch;
     Some (Eavg, router_plot_line plot_flag Pbuf Pswitch Parbiter Ptotal, stat_print Eavg print_depth s)
   }"

section \<open>Crossbar and arbiter as meters\<close>

type_synonym xb_event = "int \<times> u64 \<times> u64 \<times> u32 \<times> u32"

definition xb_step :: "xb_event \<Rightarrow> SIM_power_crossbar_t \<Rightarrow> SIM_power_crossbar_t option" where
  "xb_step e xb = (case e of (io, new_data, old_data, new_port, old_port) \<Rightarrow>
     Some (SIM_crossbar_record xb io new_data old_data new_port old_port))"

definition xb_counters :: "SIM_power_crossbar_t \<Rightarrow> u64 list" where
  "xb_counters xb = [xb_n_chg_in xb, xb_n_chg_out xb, xb_n_chg_int xb, xb_n_chg_ctr xb]"

definition xb_weights :: "SIM_power_crossbar_t \<Rightarrow> real list" where
  "xb_weights xb = [xb_e_chg_in xb, xb_e_chg_out xb, xb_e_chg_int xb, xb_e_chg_ctr xb]"

definition xb_incs :: "SIM_power_crossbar_t \<Rightarrow> xb_event \<Rightarrow> u64 list" where
  "xb_incs xb e = (case e of (io, new_data, old_data, new_port, old_port) \<Rightarrow>
     (let H = ucast (SIM_power_Hamming new_data old_data (xb_mask xb))
      in if xb_model xb \<noteq> MATRIX_CROSSBAR then [0, 0, 0, 0]
         else if io \<noteq> 0 then [H, 0, 0, 0] else [0, H, 0, if new_port \<noteq> old_port then 1 else 0]))"

interpretation xb: energy_meter xb_step SIM_crossbar_report xb_counters xb_weights xb_incs "\<lambda>x e. True" "\<lambda>x. True"
  by unfold_locales (auto simp: xb_step_def xb_counters_def xb_weights_def xb_incs_def SIM_crossbar_record_def
      SIM_crossbar_report_def Let_def fun_eq_iff split: prod.splits)

type_synonym arb_event = "u64 \<times> u64 \<times> u32 \<times> u32"

definition arb_step :: "arb_event \<Rightarrow> SIM_power_arbiter_t \<Rightarrow> SIM_power_arbiter_t option" where
  "arb_step e arb = (case e of (new_req, old_req, new_grant, old_grant) \<Rightarrow>
     Some (SIM_arbiter_record arb new_req old_req new_grant old_grant))"

definition arb_wf :: "SIM_power_arbiter_t \<Rightarrow> bool" where
  "arb_wf arb \<longleftrightarrow> arb_model arb = MATRIX_ARBITER \<or> arb_model arb = RR_ARBITER"

definition arb_counters :: "SIM_power_arbiter_t \<Rightarrow> u64 list" where
  "arb_counters arb = (let ff = arb_pri_ff arb
     in [arb_n_chg_req arb, arb_n_chg_grant arb, arb_n_chg_mint arb, arb_n_chg_carry arb, arb_n_chg_carry_in arb,
         ff_n_switch ff, ff_n_keep_1 ff, ff_n_keep_0 ff, ff_n_clock ff])"

text \<open>Each model weighs only its own internal nodes.\<close>

definition arb_weights :: "SIM_power_arbiter_t \<Rightarrow> real list" where
  "arb_weights arb = (let ff = arb_pri_ff arb
     in [arb_e_chg_req arb, arb_e_chg_grant arb]
        @ (if arb_model arb = MATRIX_ARBITER then [arb_e_chg_mint arb, 0, 0]
           else [0, arb_e_chg_carry arb, arb_e_chg_carry_in arb])
        @ [ff_e_switch ff, ff_e_keep_1 ff, ff_e_keep_0 ff, ff_e_clock ff])"

definition arb_incs :: "SIM_power_arbiter_t \<Rightarrow> arb_event \<Rightarrow> u64 list" where
  "arb_incs arb e = (case e of (new_req, old_req, new_grant, old_grant) \<Rightarrow>
     (let w = arb_req_width arb
      in [ucast (SIM_power_Hamming new_req old_req (arb_mask arb)), if new_grant \<noteq> old_grant then 1 else 0]
         @ (if arb_model arb = MATRIX_ARBITER then [ucast ((w - 1) * w div 2), 0, 0, ucast ((w - 1) div 2)]
            else [0, ucast (w div 2), ucast (w div 2 - 1), 2])
         @ [0, 0, 0]))"

lemmas arb_meter_defs = arb_step_def arb_wf_def arb_counters_def arb_weights_def arb_incs_def

interpretation arb: clearable_meter arb_step SIM_arbiter_report arb_counters arb_weights arb_incs "\<lambda>a e. True" arb_wf
  SIM_arbiter_clear_stat
proof unfold_locales
  fix s assume "arb_wf s"
  then show "SIM_arbiter_report s = energy (arb_weights s) (arb_counters s)"
    by (auto simp: arb_meter_defs SIM_arbiter_report_def Let_def MATRIX_ARBITER_def RR_ARBITER_def)
next
  fix s and e :: arb_event assume "arb_wf s"
  then show "\<exists>s'. arb_step e s = Some s' \<and> arb_wf s' \<and> arb_counters s' = bump (arb_counters s) (arb_incs s e)
      \<and> arb_weights s' = arb_weights s \<and> arb_incs s' = arb_incs s \<and> (\<lambda>e. True) = (\<lambda>e. True)"
    by (cases e) (auto simp: arb_meter_defs SIM_arbiter_record_def Let_def fun_eq_iff MATRIX_ARBITER_def RR_ARBITER_def)
qed (auto simp: arb_meter_defs SIM_arbiter_clear_stat_def SIM_fpfp_clear_stat_def Let_def fun_eq_iff numeral_eq_Suc)

section \<open>The printer does not influence the energies\<close>

text \<open>
  A statistics function is pure in its energy when the energy depends on the path only (not on the
  print depth or on what was printed before), the path is restored, and depth 0 prints nothing.
\<close>

definition stat_pure :: "(int \<Rightarrow> stat_fun) \<Rightarrow> (path \<Rightarrow> real option) \<Rightarrow> bool" where
  "stat_pure F G \<longleftrightarrow> (\<forall>d p l. case G p of None \<Rightarrow> F d (p, l) = None
     | Some E \<Rightarrow> \<exists>l'. F d (p, l) = Some (E, (p, l')) \<and> (d = 0 \<longrightarrow> l' = l))"

lemma stat_pure_None: "stat_pure F G \<Longrightarrow> G p = None \<Longrightarrow> F d (p, l) = None"
  unfolding stat_pure_def by (drule spec [of _ d], drule spec [of _ p], drule spec [of _ l]) simp

lemma stat_pure_Some:
  "stat_pure F G \<Longrightarrow> G p = Some E \<Longrightarrow> \<exists>l'. F d (p, l) = Some (E, (p, l')) \<and> (d = 0 \<longrightarrow> l' = l)"
  unfolding stat_pure_def by (drule spec [of _ d], drule spec [of _ p], drule spec [of _ l]) simp

lemma stat_pureI:
  "(\<And>d p l. G p = None \<Longrightarrow> F d (p, l) = None) \<Longrightarrow>
   (\<And>d p l E. G p = Some E \<Longrightarrow> \<exists>l'. F d (p, l) = Some (E, (p, l')) \<and> (d = 0 \<longrightarrow> l' = l)) \<Longrightarrow> stat_pure F G"
  unfolding stat_pure_def by (auto split: option.split)

lemma stat_pure_next: "stat_pure F G \<Longrightarrow> stat_pure (\<lambda>d. F (NEXT_DEPTH d)) G"
proof (intro stat_pureI)
  fix d p l E assume "stat_pure F G" "G p = Some E"
  from stat_pure_Some [OF this, of "NEXT_DEPTH d" l]
  show "\<exists>l'. F (NEXT_DEPTH d) (p, l) = Some (E, p, l') \<and> (d = 0 \<longrightarrow> l' = l)" by auto
qed (rule stat_pure_None)

lemma stat_pure_skip: "stat_pure (\<lambda>d s. Some (0, s)) (\<lambda>p. Some 0)"
  by (intro stat_pureI) auto

lemma snd_stat_enter [simp]: "snd (stat_enter name s) = snd s"
  by (simp add: stat_enter_def)

lemma stat_leave_enter:
  "stat_leave (SIM_power_strlen p) (fst (stat_enter name (p, l)), l') = (p, l')"
  using fst_stat_enter [of name "(p, l)"] by (simp add: stat_leave_def)

lemma stat_pure_part:
  assumes "stat_pure F G"
  shows "stat_pure (\<lambda>d. stat_part b name (F d)) (\<lambda>p. if b then G (SIM_power_strcat p name) else Some 0)"
proof (intro stat_pureI)
  fix d p l
  assume "(if b then G (SIM_power_strcat p name) else Some 0) = None"
  then show "stat_part b name (F d) (p, l) = None"
    using stat_pure_None [OF assms] by (auto simp: stat_part_def stat_enter_def split: if_splits)
next
  fix d p l E
  assume h: "(if b then G (SIM_power_strcat p name) else Some 0) = Some E"
  show "\<exists>l'. stat_part b name (F d) (p, l) = Some (E, p, l') \<and> (d = 0 \<longrightarrow> l' = l)"
  proof (cases b)
    case True
    then obtain l' where "F d (SIM_power_strcat p name, l) = Some (E, (SIM_power_strcat p name, l'))" "d = 0 \<longrightarrow> l' = l"
      using h stat_pure_Some [OF assms, of "SIM_power_strcat p name" E d l] by auto
    then show ?thesis using True stat_leave_enter [of p name l l'] by (auto simp: stat_part_def stat_enter_def)
  qed (use h in \<open>simp add: stat_part_def\<close>)
qed

lemma stat_pure_div:
  "(\<And>q. stat_pure (\<lambda>d. F d q) (G q)) \<Longrightarrow> stat_pure (\<lambda>d. stat_div x y (F d)) (\<lambda>p. if y = 0 then None else G (x / y) p)"
proof (intro stat_pureI)
  fix d p l assume h: "\<And>q. stat_pure (\<lambda>d. F d q) (G q)"
  show "stat_div x y (F d) (p, l) = None" if "(if y = 0 then None else G (x / y) p) = None"
    using that stat_pure_None [OF h [of "x / y"]] by (auto simp: stat_div_def split: if_splits)
  show "\<exists>l'. stat_div x y (F d) (p, l) = Some (E, p, l') \<and> (d = 0 \<longrightarrow> l' = l)"
    if "(if y = 0 then None else G (x / y) p) = Some E" for E
    using that stat_pure_Some [OF h [of "x / y"], of p E d l] by (auto simp: stat_div_def split: if_splits)
qed

text \<open>A list of parts: the energies are added up in order.\<close>

fun energies :: "(path \<Rightarrow> real option) list \<Rightarrow> real \<Rightarrow> path \<Rightarrow> real option" where
  "energies [] E p = Some E"
| "energies (g # gs) E p = g p \<bind> (\<lambda>e. energies gs (E + e) p)"

lemma energies_add: "energies gs (E + x) p = map_option (\<lambda>y. y + x) (energies gs E p)"
proof (induction gs arbitrary: E)
  case (Cons g gs)
  have "energies gs (E + x + e) p = map_option (\<lambda>y. y + x) (energies gs (E + e) p)" for e
    using Cons.IH [of "E + e"] by (simp only: ac_simps)
  then show ?case by (cases "g p") simp_all
qed simp

definition parts_pure :: "(int \<Rightarrow> stat_fun list) \<Rightarrow> (path \<Rightarrow> real option) list \<Rightarrow> bool" where
  "parts_pure L gs \<longleftrightarrow> (\<forall>E. stat_pure (\<lambda>d. stat_parts (L d) E) (energies gs E))"

lemma parts_pure_Nil: "parts_pure (\<lambda>d. []) []"
  unfolding parts_pure_def by (intro allI stat_pureI) auto

lemma parts_pure_Cons:
  assumes "stat_pure f g" "parts_pure L gs"
  shows "parts_pure (\<lambda>d. f d # L d) (g # gs)"
  unfolding parts_pure_def
proof (intro allI stat_pureI)
  note L = assms(2) [unfolded parts_pure_def, THEN spec]
  fix E d p l
  show "stat_parts (f d # L d) E (p, l) = None" if "energies (g # gs) E p = None"
    using that stat_pure_None [OF assms(1)] stat_pure_Some [OF assms(1), of p _ d l] stat_pure_None [OF L]
    by (cases "g p") (force simp: bind_eq_None_conv)+
  fix E' assume "energies (g # gs) E p = Some E'"
  then obtain e where e: "g p = Some e" "energies gs (E + e) p = Some E'" by (auto simp: bind_eq_Some_conv)
  from stat_pure_Some [OF assms(1) e(1)] obtain l1 where 1: "f d (p, l) = Some (e, (p, l1))" "d = 0 \<longrightarrow> l1 = l" by blast
  from stat_pure_Some [OF L e(2)] obtain l2 where
    "stat_parts (L d) (E + e) (p, l1) = Some (E', (p, l2))" "d = 0 \<longrightarrow> l2 = l1" by blast
  then show "\<exists>l'. stat_parts (f d # L d) E (p, l) = Some (E', p, l') \<and> (d = 0 \<longrightarrow> l' = l)"
    using 1 by auto
qed

lemma stat_pure_reg:
  "stat_pure (\<lambda>d. SIM_reg_stat_energy info arr n_read n_write d max_avg)
     (\<lambda>p. map_option (reg_energy info arr n_read n_write max_avg) (central_width info p))"
proof (intro stat_pureI)
  fix d p l E assume "map_option (reg_energy info arr n_read n_write max_avg) (central_width info p) = Some E"
  then obtain share where "central_width info p = Some share" "E = reg_energy info arr n_read n_write max_avg share" by auto
  then show "\<exists>l'. SIM_reg_stat_energy info arr n_read n_write d max_avg (p, l) = Some (E, p, l') \<and> (d = 0 \<longrightarrow> l' = l)"
    using reg_stat_energy_result [of info "(p, l)" share arr n_read n_write d max_avg] by auto
qed (simp add: SIM_reg_stat_energy_def)

text \<open>Sequences of blocks and leaves are pure; the printed total closes a structure.\<close>

lemma stat_pure_total:
  assumes "stat_pure F G"
  shows "stat_pure (\<lambda>d s. map_option (\<lambda>(E, s). (E, stat_print E d s)) (F d s)) G"
proof (intro stat_pureI)
  fix d p l E assume "G p = Some E"
  then obtain l' where l': "F d (p, l) = Some (E, (p, l'))" "d = 0 \<longrightarrow> l' = l" using stat_pure_Some [OF assms] by blast
  then show "\<exists>l'. map_option (\<lambda>(E, s). (E, stat_print E d s)) (F d (p, l)) = Some (E, p, l') \<and> (d = 0 \<longrightarrow> l' = l)"
    by (cases "stat_print E d (p, l')") (use fst_stat_print [of E d "(p, l')"] in auto)
qed (simp add: stat_pure_None [OF assms])

definition seq_pure :: "(int \<Rightarrow> stat_state \<Rightarrow> real \<times> stat_state) \<Rightarrow> real \<Rightarrow> bool" where
  "seq_pure f E \<longleftrightarrow> (\<forall>d s. fst (f d s) = E \<and> fst (snd (f d s)) = fst s) \<and> (\<forall>s. snd (f 0 s) = s)"

lemma seq_pure_simps [simp]:
  "seq_pure (\<lambda>d. stat_leaf name E d) E" "seq_pure (\<lambda>d. stat_skip) 0"
  "seq_pure (\<lambda>d. stat_block name items d (NEXT_DEPTH d)) (sum_list (map snd items))"
  by (simp_all add: seq_pure_def)

lemma seq_pure_if: "seq_pure f E \<Longrightarrow> seq_pure g E' \<Longrightarrow> seq_pure (\<lambda>d. if b then f d else g d) (if b then E else E')"
  by simp

definition seqs_pure :: "(int \<Rightarrow> (stat_state \<Rightarrow> real \<times> stat_state) list) \<Rightarrow> real \<Rightarrow> bool" where
  "seqs_pure L t \<longleftrightarrow> (\<forall>E. seq_pure (\<lambda>d. stat_seq (L d) E) (E + t))"

lemma seqs_pure_Nil: "seqs_pure (\<lambda>d. []) 0"
  by (simp add: seqs_pure_def seq_pure_def)

lemma seqs_pure_Cons: "seq_pure f e \<Longrightarrow> seqs_pure L t \<Longrightarrow> seqs_pure (\<lambda>d. f d # L d) (e + t)"
  by (simp add: seqs_pure_def seq_pure_def case_prod_beta del: split_paired_All)

lemma seq_pure_items: "seq_pure (\<lambda>d. stat_block name (items @ rest) d (NEXT_DEPTH d)) (sum_list (map snd (items @ rest)))"
  by (rule seq_pure_simps)

lemmas seqs_pure_intros = seqs_pure_Cons seqs_pure_Nil seq_pure_if seq_pure_simps seq_pure_items

lemma stat_pure_of_seq:
  assumes "seq_pure f E"
  shows "stat_pure (\<lambda>d s. Some (f d s)) (\<lambda>p. Some E)"
proof (intro stat_pureI)
  fix d p l E' assume "Some E = Some E'"
  moreover have "fst (f d (p, l)) = E" "fst (snd (f d (p, l))) = p" "d = 0 \<longrightarrow> snd (f d (p, l)) = (p, l)"
    using assms by (auto simp: seq_pure_def)
  ultimately show "\<exists>l'. Some (f d (p, l)) = Some (E', p, l') \<and> (d = 0 \<longrightarrow> l' = l)"
    by (cases "f d (p, l)") auto
qed simp

lemma stat_pure_seq: "seqs_pure L t \<Longrightarrow> stat_pure (\<lambda>d s. Some (stat_seq (L d) 0 s)) (\<lambda>p. Some t)"
proof -
  assume "seqs_pure L t"
  then have "seq_pure (\<lambda>d. stat_seq (L d) 0) (0 + t)" unfolding seqs_pure_def by (rule spec)
  then show ?thesis using stat_pure_of_seq [of "\<lambda>d. stat_seq (L d) 0" t] by (simp only: add_0)
qed

lemma stat_pure_crossbar:
  "\<exists>G. stat_pure (\<lambda>d s. Some (SIM_crossbar_stat_energy xb d max_avg n s)) G"
proof -
  define m where "m = (if n > dbl32 (xb_n_out xb) then dbl32 (xb_n_out xb) else n)"
  define L where "L d =
     [stat_leaf ''input'' (xb_e_chg_in xb * dbl32 (xb_data_width xb) * avg max_avg * m) d,
      stat_leaf ''output'' (xb_e_chg_out xb * dbl32 (xb_data_width xb) * avg max_avg * m) d,
      stat_leaf ''control'' (xb_e_chg_ctr xb * m) d,
      if xb_model xb = MULTREE_CROSSBAR \<and> xb_depth xb > 1
      then stat_leaf ''internal node''
             (xb_e_chg_int xb * dbl32 (xb_data_width xb) * dbl32 (xb_depth xb - 1) * avg max_avg * m) d
      else stat_skip]" for d
  have "\<exists>t. seqs_pure L t"
    unfolding L_def by (rule exI) (rule seqs_pure_intros)+
  then obtain t where "stat_pure (\<lambda>d s. Some (stat_seq (L d) 0 s)) (\<lambda>p. Some t)" using stat_pure_seq by blast
  note t = stat_pure_total [OF stat_pure_next [OF this]] stat_pure_total [OF stat_pure_skip]
  show ?thesis
  proof (cases "xb_model xb = MATRIX_CROSSBAR \<or> xb_model xb = MULTREE_CROSSBAR")
    case True
    then have "Some (SIM_crossbar_stat_energy xb d max_avg n s)
        = map_option (\<lambda>(E, s). (E, stat_print E d s)) (Some (stat_seq (L (NEXT_DEPTH d)) 0 s))" for d s
      by (simp only: SIM_crossbar_stat_energy_def Let_def m_def L_def option.map(2) if_True)
    then show ?thesis using t(1) by (auto simp only:)
  next
    case False
    then have "Some (SIM_crossbar_stat_energy xb d max_avg n s) = map_option (\<lambda>(E, s). (E, stat_print E d s)) (Some (0, s))" for d s
      by (simp add: SIM_crossbar_stat_energy_def Let_def)
    then show ?thesis using t(2) by (auto simp only:)
  qed
qed

lemma arbiter_rr_stat_pure: "\<exists>t. seqs_pure (\<lambda>d. arbiter_rr_stat arb n g max_avg d (NEXT_DEPTH d)) t"
  unfolding arbiter_rr_stat_def Let_def by (rule exI) (rule seqs_pure_intros)+

lemma arbiter_matrix_stat_pure: "\<exists>t. seqs_pure (\<lambda>d. arbiter_matrix_stat arb n g max_avg d (NEXT_DEPTH d)) t"
  unfolding arbiter_matrix_stat_def Let_def by (rule exI) (rule seqs_pure_intros)+

lemma stat_pure_arbiter:
  "\<exists>G. stat_pure (\<lambda>d. SIM_arbiter_stat_energy arb info n d max_avg) G"
proof -
  define m where "m = (if n > dbl32 (arb_req_width arb) then dbl32 (arb_req_width arb) else n)"
  define g where "g = arbiter_n_grant m"
  define F where "F d s = (if arb_model arb = RR_ARBITER
        then Some (stat_seq (arbiter_rr_stat arb m g max_avg d (NEXT_DEPTH d)) 0 s)
        else if arb_model arb = MATRIX_ARBITER
        then Some (stat_seq (arbiter_matrix_stat arb m g max_avg d (NEXT_DEPTH d)) 0 s)
        else stat_part (arb_model arb = QUEUE_ARBITER) ''queue'' (SIM_reg_stat_energy info (arb_queue arb) m g d max_avg) s)" for d s
  have "\<exists>G. stat_pure F G"
    unfolding F_def using stat_pure_seq arbiter_rr_stat_pure [of arb m g max_avg] arbiter_matrix_stat_pure [of arb m g max_avg]
      stat_pure_part [OF stat_pure_reg] by (cases "arb_model arb = RR_ARBITER"; cases "arb_model arb = MATRIX_ARBITER") (simp, blast)+
  then obtain G where "stat_pure F G" ..
  from stat_pure_total [OF stat_pure_next [OF this]]
  have "stat_pure (\<lambda>d s. map_option (\<lambda>(E, s). (E, stat_print E d s)) (F (NEXT_DEPTH d) s)) G" .
  moreover have "SIM_arbiter_stat_energy arb info n d max_avg s = map_option (\<lambda>(E, s). (E, stat_print E d s)) (F (NEXT_DEPTH d) s)" for d s
    by (simp add: SIM_arbiter_stat_energy_def F_def Let_def m_def [symmetric] g_def [symmetric] stat_part_def
        map_option_bind map_conv_bind_option comp_def case_prod_beta)
  then have "(\<lambda>d. SIM_arbiter_stat_energy arb info n d max_avg)
      = (\<lambda>d s. map_option (\<lambda>(E, s). (E, stat_print E d s)) (F (NEXT_DEPTH d) s))" by (intro ext)
  ultimately show ?thesis by auto
qed


lemma stat_pure_arb_part:
  "\<exists>G. stat_pure (\<lambda>d. arb_part arb info x n ports d max_avg) G"
proof -
  have "\<forall>q. \<exists>G. stat_pure (\<lambda>d. SIM_arbiter_stat_energy arb info q d max_avg) G"
    using stat_pure_arbiter by blast
  then obtain G where G: "\<And>q. stat_pure (\<lambda>d. SIM_arbiter_stat_energy arb info q d max_avg) (G q)" by metis
  have "stat_pure (\<lambda>d s. map_option (\<lambda>(E, s). (E * dbl32 n * ports, s)) (SIM_arbiter_stat_energy arb info q d max_avg s))
      (\<lambda>p. map_option (\<lambda>E. E * dbl32 n * ports) (G q p))" for q
  proof (intro stat_pureI)
    fix d p l E assume "map_option (\<lambda>E. E * dbl32 n * ports) (G q p) = Some E"
    then show "\<exists>l'. map_option (\<lambda>(E, s). (E * dbl32 n * ports, s)) (SIM_arbiter_stat_energy arb info q d max_avg (p, l))
        = Some (E, p, l') \<and> (d = 0 \<longrightarrow> l' = l)"
      using stat_pure_Some [OF G [of q], of p _ d l] by auto
  qed (use stat_pure_None [OF G] in auto)
  from stat_pure_div [where F = "\<lambda>d q s. map_option (\<lambda>(E, s). (E * dbl32 n * ports, s)) (SIM_arbiter_stat_energy arb info q d max_avg s)", OF this]
  show ?thesis unfolding arb_part_def by blast
qed

lemma central_regs_pure: "seq_pure (\<lambda>d. central_regs_stat info r d e) (fst (central_regs_stat info r 0 e (None, [])))"
  by (simp add: seq_pure_def central_regs_stat_def Let_def)

lemma stat_pure_ex_if:
  "stat_pure F G \<Longrightarrow> \<exists>G. stat_pure (\<lambda>d s. if b then F d s else Some (0, s)) G"
  using stat_pure_skip by (cases b) auto

lemma parts_pure_ConsE: "\<exists>g. stat_pure f g \<Longrightarrow> \<exists>gs. parts_pure L gs \<Longrightarrow> \<exists>gs. parts_pure (\<lambda>d. f d # L d) gs"
  using parts_pure_Cons by blast

lemma stat_pure_partE: "\<exists>G. stat_pure F G \<Longrightarrow> \<exists>G. stat_pure (\<lambda>d. stat_part b name (F d)) G"
  using stat_pure_part by blast

lemma stat_pure_regE: "\<exists>G. stat_pure (\<lambda>d. SIM_reg_stat_energy info arr n_read n_write d max_avg) G"
  using stat_pure_reg by blast

lemma stat_pure_divE: "(\<And>q. \<exists>G. stat_pure (\<lambda>d. F d q) G) \<Longrightarrow> \<exists>G. stat_pure (\<lambda>d. stat_div x y (F d)) G"
  using stat_pure_div [of F _ x y] by metis

lemma parts_pure_NilE: "\<exists>gs. parts_pure (\<lambda>d. []) gs"
  using parts_pure_Nil by blast

lemmas parts_pure_intros = parts_pure_ConsE parts_pure_NilE stat_pure_partE stat_pure_regE stat_pure_divE
  stat_pure_crossbar stat_pure_arb_part

lemma router_buf_parts_pure: "\<exists>gs. parts_pure (\<lambda>d. router_buf_parts info r d max_avg e_fin) gs"
  unfolding router_buf_parts_def Let_def by (rule parts_pure_intros)+

lemma router_arb_parts_pure: "\<exists>gs. parts_pure (\<lambda>d. router_arb_parts info r d max_avg e_fin) gs"
  unfolding router_arb_parts_def Let_def by (rule parts_pure_intros)+

lemma central_regs_part: "\<exists>G. stat_pure (\<lambda>d s. if b then stat_div x y (\<lambda>e s. Some (central_regs_stat info r d e s)) s else Some (0, s)) G"
proof -
  have "\<And>q. \<exists>G. stat_pure (\<lambda>d s. Some (central_regs_stat info r d q s)) G"
    using stat_pure_of_seq [OF central_regs_pure] by blast
  then obtain G where "stat_pure (\<lambda>d. stat_div x y (\<lambda>e s. Some (central_regs_stat info r d e s))) G"
    using stat_pure_divE [of "\<lambda>d e s. Some (central_regs_stat info r d e s)" x y] by blast
  then show ?thesis by (rule stat_pure_ex_if)
qed

lemma router_switch_parts_pure: "\<exists>gs. parts_pure (\<lambda>d. router_switch_parts info r d max_avg e_fin) gs"
  unfolding router_switch_parts_def Let_def by (rule parts_pure_intros central_regs_part)+


lemma stat_pure_eq:
  assumes "stat_pure F G"
  shows "\<exists>L. (\<forall>d l. F d (p, l) = map_option (\<lambda>E. (E, p, L d l)) (G p)) \<and> (\<forall>l. L 0 l = l)"
proof (cases "G p")
  case None
  then show ?thesis using stat_pure_None [OF assms None] by (intro exI [of _ "\<lambda>d l. l"]) simp
next
  case (Some E)
  from stat_pure_Some [OF assms Some] have "\<forall>d l. \<exists>l'. F d (p, l) = Some (E, p, l') \<and> (d = 0 \<longrightarrow> l' = l)" by blast
  then show ?thesis using Some by (simp add: choice_iff) blast
qed

lemma parts_pureD: "parts_pure L gs \<Longrightarrow> stat_pure (\<lambda>d. stat_parts (L (NEXT_DEPTH d)) E) (energies gs E)"
  unfolding parts_pure_def by (intro stat_pure_next [of "\<lambda>d. stat_parts (L d) E"]) blast

lemma energies_from_0: "energies gs E p = map_option (\<lambda>y. y + E) (energies gs 0 p)"
  using energies_add [of gs 0 E p] by simp

lemma parts_pure_eq:
  assumes "parts_pure L gs"
  shows "\<exists>R. (\<forall>E d l. stat_parts (L (NEXT_DEPTH d)) E (p, l) = map_option (\<lambda>y. (E + y, p, R E d l)) (energies gs 0 p))
    \<and> (\<forall>E l. R E 0 l = l)"
proof -
  have "\<forall>E. \<exists>R. (\<forall>d l. stat_parts (L (NEXT_DEPTH d)) E (p, l) = map_option (\<lambda>y. (y, p, R d l)) (energies gs E p)) \<and> (\<forall>l. R 0 l = l)"
    using stat_pure_eq [OF parts_pureD [OF assms]] by blast
  then obtain R where R: "\<And>E d l. stat_parts (L (NEXT_DEPTH d)) E (p, l) = map_option (\<lambda>y. (y, p, R E d l)) (energies gs E p)"
    "\<And>E l. R E 0 l = l" by metis
  have "stat_parts (L (NEXT_DEPTH d)) E (p, l) = map_option (\<lambda>y. (E + y, p, R E d l)) (energies gs 0 p)" for E d l
    by (subst R(1)) (simp add: energies_from_0 [of gs E p] option.map_comp comp_def add.commute)
  then show ?thesis using R(2) by blast
qed

lemma stat_print_pair: "\<exists>log. stat_print E d (p, l) = (p, log) \<and> (d = 0 \<longrightarrow> log = l)"
  using fst_stat_print [of E d "(p, l)"] by (cases "stat_print E d (p, l)") auto

lemma router_stat_energy_split:
  "\<exists>parts. \<forall>print_depth plot_flag freq log.
     case parts of
       None \<Rightarrow> SIM_router_stat_energy info r print_depth max_avg e_fin plot_flag freq (p, log) = None
     | Some (Ebuf, Eswitch, Earb) \<Rightarrow>
         \<exists>log'. SIM_router_stat_energy info r print_depth max_avg e_fin plot_flag freq (p, log)
             = Some (Ebuf + Eswitch + Earb,
                     router_plot_line plot_flag (Ebuf * freq) (Eswitch * freq) (Earb * freq) ((Ebuf + Eswitch + Earb) * freq),
                     (p, log'))
           \<and> (print_depth = 0 \<longrightarrow> log' = log)"
proof -
  obtain bs ss as where "parts_pure (\<lambda>d. router_buf_parts info r d max_avg e_fin) bs"
    "parts_pure (\<lambda>d. router_switch_parts info r d max_avg e_fin) ss"
    "parts_pure (\<lambda>d. router_arb_parts info r d max_avg e_fin) as"
    using router_buf_parts_pure router_switch_parts_pure router_arb_parts_pure by blast
  note eqs = this [THEN parts_pure_eq, of p]
  obtain B where B: "\<And>E d l. stat_parts (router_buf_parts info r (NEXT_DEPTH d) max_avg e_fin) E (p, l)
      = map_option (\<lambda>y. (E + y, p, B E d l)) (energies bs 0 p)" "\<And>E l. B E 0 l = l" using eqs(1) by blast
  obtain S where S: "\<And>E d l. stat_parts (router_switch_parts info r (NEXT_DEPTH d) max_avg e_fin) E (p, l)
      = map_option (\<lambda>y. (E + y, p, S E d l)) (energies ss 0 p)" "\<And>E l. S E 0 l = l" using eqs(2) by blast
  obtain A where A: "\<And>E d l. stat_parts (router_arb_parts info r (NEXT_DEPTH d) max_avg e_fin) E (p, l)
      = map_option (\<lambda>y. (E + y, p, A E d l)) (energies as 0 p)" "\<And>E l. A E 0 l = l" using eqs(3) by blast
  note run = SIM_router_stat_energy_def Let_def B(1) S(1) A(1)
  show ?thesis
  proof (cases "energies bs 0 p = None \<or> energies ss 0 p = None \<or> energies as 0 p = None")
    case True
    then have "SIM_router_stat_energy info r d max_avg e_fin plot_flag freq (p, log) = None" for d plot_flag freq log
      by (cases "energies bs 0 p"; cases "energies ss 0 p") (auto simp: run)
    then show ?thesis by (intro exI [of _ None]) simp
  next
    case False
    then obtain b s a where e: "energies bs 0 p = Some b" "energies ss 0 p = Some s" "energies as 0 p = Some a" by auto
    have "SIM_router_stat_energy info r d max_avg e_fin plot_flag freq (p, log)
        = Some (b + s + a, router_plot_line plot_flag (b * freq) (s * freq) (a * freq) ((b + s + a) * freq),
            stat_print (b + s + a) d (p, A (b + s) d (S b d (B 0 d log))))" for d plot_flag freq log
      by (simp add: run e algebra_simps)
    then show ?thesis using stat_print_pair B(2) S(2) A(2)
      by (intro exI [of _ "Some (b, s, a)"]) (simp, metis)
  qed
qed


section \<open>Further properties\<close>

lemma ceiling_log_least:
  fixes n b :: nat
  assumes "1 < b" "0 < n"
  defines "k \<equiv> nat \<lceil>ln (real n) / ln (real b)\<rceil>"
  shows "n \<le> b ^ k" "j < k \<Longrightarrow> b ^ j < n" "real_of_int \<lceil>ln (real n) / ln (real b)\<rceil> = real k"
proof -
  have lb: "0 < ln (real b)" "0 \<le> ln (real n)" using assms by simp_all
  have le: "n \<le> b ^ i \<longleftrightarrow> ln (real n) / ln (real b) \<le> real i" for i
  proof -
    have "n \<le> b ^ i \<longleftrightarrow> ln (real n) \<le> ln (real (b ^ i))" using assms by (subst ln_le_cancel_iff) auto
    also have "\<dots> \<longleftrightarrow> ln (real n) \<le> real i * ln (real b)" using assms by (simp add: ln_realpow)
    also have "\<dots> \<longleftrightarrow> ln (real n) / ln (real b) \<le> real i" using lb by (simp add: pos_divide_le_eq)
    finally show ?thesis .
  qed
  show "n \<le> b ^ k" unfolding le k_def by linarith
  show "b ^ j < n" if "j < k" using that le [of j] unfolding k_def by (simp add: not_le [symmetric])
  show "real_of_int \<lceil>ln (real n) / ln (real b)\<rceil> = real k"
  proof -
    have "0 \<le> ln (real n) / ln (real b)" using lb by simp
    then show ?thesis unfolding k_def by linarith
  qed
qed

lemma crossbar_depth_result:
  assumes "n_in \<noteq> 0" "1 < degree"
  shows "\<exists>d. crossbar_depth n_in degree = Some d \<and> unat n_in \<le> unat degree ^ unat d
    \<and> (\<forall>j < unat d. unat degree ^ j < unat n_in)"
proof -
  let ?n = "unat n_in" and ?b = "unat degree"
  define k where "k = nat \<lceil>ln (real ?n) / ln (real ?b)\<rceil>"
  have nb: "0 < ?n" "1 < ?b" using assms by (simp_all add: unat_gt_0 word_less_nat_alt)
  note c = ceiling_log_least [OF nb(2,1), folded k_def]
  have "k \<le> 32"
  proof (rule ccontr)
    assume "\<not> k \<le> 32"
    then have "?b ^ 32 < ?n" using c(2) [of 32] by simp
    moreover have "(2 :: nat) ^ 32 \<le> ?b ^ 32" using nb(2) by (intro power_mono) auto
    moreover have "?n < 2 ^ 32" using unsigned_less [of n_in, where 'a = nat] by simp
    ultimately show False by linarith
  qed
  moreover have "\<lceil>ln (real ?n) / ln (real ?b)\<rceil> = int k" using c(3) by linarith
  ultimately have "crossbar_depth n_in degree = Some (of_int (int k))" "unat (of_int (int k) :: u32) = k"
    using assms by (auto simp: crossbar_depth_def unat_of_nat take_bit_nat_eq_self)
  then show ?thesis using c(1,2) by auto
qed


lemma crossbar_init_zero:
  assumes "SIM_crossbar_init T xb0 MATRIX_CROSSBAR n_in n_out w degree ct tt in_len out_len = Some (xb, err, req)"
  shows "xb_model xb = MATRIX_CROSSBAR" "xb_counters xb = [0, 0, 0, 0]" "xb_mask xb = HAMM_MASK w"
  using assms
  by (auto simp: SIM_crossbar_init_def MATRIX_CROSSBAR_def CROSSBAR_MAX_MODEL_def Let_def crossbar_matrix_init_def
      xb_counters_def bind_eq_Some_conv case_prod_beta)

lemma arbiter_init_zero:
  assumes "SIM_arbiter_init T arb0 model NEG_DFF w len info = Some (arb, info', err)"
    "model = RR_ARBITER \<or> model = MATRIX_ARBITER"
  shows "arb_wf arb" "arb_counters arb = [0, 0, 0, 0, 0, 0, 0, 0, 0]" "arb_req_width arb = w" "arb_model arb = model" "err = 0" "info' = info"
proof -
  have ff: "SIM_fpfp_init T ff NEG_DFF l = (fst (SIM_fpfp_init T ff NEG_DFF l), 0)" for ff l
    by (simp add: SIM_fpfp_init_def NEG_DFF_def FF_MAX_MODEL_def Let_def)
  have n: "ff_n_switch (fst (SIM_fpfp_init T ff NEG_DFF l)) = 0" "ff_n_keep_1 (fst (SIM_fpfp_init T ff NEG_DFF l)) = 0"
    "ff_n_keep_0 (fst (SIM_fpfp_init T ff NEG_DFF l)) = 0" "ff_n_clock (fst (SIM_fpfp_init T ff NEG_DFF l)) = 0" for ff l
    by (simp_all add: SIM_fpfp_init_def NEG_DFF_def FF_MAX_MODEL_def SIM_fpfp_clear_stat_def Let_def)
  show "arb_wf arb" "arb_counters arb = [0, 0, 0, 0, 0, 0, 0, 0, 0]" "arb_req_width arb = w" "arb_model arb = model" "err = 0" "info' = info"
    using assms(2) assms(1) [symmetric]
    unfolding SIM_arbiter_init_def RR_ARBITER_def MATRIX_ARBITER_def QUEUE_ARBITER_def ARBITER_MAX_MODEL_def Let_def
    by (elim disjE; (subst (asm) ff)?; simp add: arb_wf_def arb_counters_def SIM_arbiter_clear_stat_def n
        RR_ARBITER_def MATRIX_ARBITER_def Let_def)+
qed

section \<open>Zeroed router structures\<close>

definition zero_crossbar :: SIM_power_crossbar_t where
  "zero_crossbar = \<lparr>xb_model = 0, xb_n_in = 0, xb_n_out = 0, xb_data_width = 0, xb_degree = 0, xb_connect_type = 0,
     xb_trans_type = 0, xb_n_chg_in = 0, xb_n_chg_int = 0, xb_n_chg_out = 0, xb_n_chg_ctr = 0, xb_e_chg_in = 0,
     xb_e_chg_int = 0, xb_e_chg_out = 0, xb_e_chg_ctr = 0, xb_depth = 0, xb_mask = 0\<rparr>"

definition zero_ff :: SIM_power_ff_t where
  "zero_ff = \<lparr>ff_model = 0, ff_n_switch = 0, ff_n_keep_1 = 0, ff_n_keep_0 = 0, ff_n_clock = 0, ff_e_switch = 0,
     ff_e_keep_1 = 0, ff_e_keep_0 = 0, ff_e_clock = 0\<rparr>"

definition zero_arbiter :: SIM_power_arbiter_t where
  "zero_arbiter = \<lparr>arb_model = 0, arb_req_width = 0, arb_n_chg_req = 0, arb_n_chg_grant = 0, arb_n_chg_carry = 0,
     arb_n_chg_carry_in = 0, arb_n_chg_mint = 0, arb_e_chg_req = 0, arb_e_chg_grant = 0, arb_e_chg_carry = 0,
     arb_e_chg_carry_in = 0, arb_e_chg_mint = 0, arb_pri_ff = zero_ff, arb_queue = zero_array, arb_mask = 0\<rparr>"

definition zero_router :: SIM_power_router_t where
  "zero_router = \<lparr>rt_crossbar = zero_crossbar, rt_in_buf = zero_array, rt_cache_in_buf = zero_array,
     rt_mc_in_buf = zero_array, rt_io_in_buf = zero_array, rt_out_buf = zero_array, rt_central_buf = zero_array,
     rt_in_cbuf_crsbar = zero_crossbar, rt_out_cbuf_crsbar = zero_crossbar, rt_in_arb = zero_arbiter,
     rt_cache_in_arb = zero_arbiter, rt_mc_in_arb = zero_arbiter, rt_io_in_arb = zero_arbiter, rt_out_arb = zero_arbiter,
     rt_cbuf_ff = zero_ff\<rparr>"

definition zero_router_info :: "(nat, nat list) SIM_power_router_info_t" where
  "zero_router_info = \<lparr>ri_n_in = 0, ri_n_cache_in = 0, ri_n_mc_in = 0, ri_n_io_in = 0, ri_n_out = 0, ri_n_cache_out = 0,
     ri_n_mc_out = 0, ri_n_io_out = 0, ri_flit_width = 0, ri_n_v_channel = 0, ri_n_v_class = 0, ri_cache_class = 0,
     ri_mc_class = 0, ri_io_class = 0, ri_in_share_buf = 0, ri_out_share_buf = 0, ri_in_share_switch = 0,
     ri_out_share_switch = 0, ri_crossbar_model = 0, ri_degree = 0, ri_connect_type = 0, ri_trans_type = 0,
     ri_crossbar_in_len = 0, ri_crossbar_out_len = 0, ri_in_buf = 0, ri_cache_in_buf = 0, ri_mc_in_buf = 0,
     ri_io_in_buf = 0, ri_out_buf = 0, ri_central_buf = 0, ri_in_buf_info = zero_info, ri_cache_in_buf_info = zero_info,
     ri_mc_in_buf_info = zero_info, ri_io_in_buf_info = zero_info, ri_out_buf_info = zero_info,
     ri_central_buf_info = zero_info, ri_pipe_depth = 0, ri_cbuf_ff_model = 0, ri_in_arb_model = 0, ri_out_arb_model = 0,
     ri_in_arb_ff_model = 0, ri_out_arb_ff_model = 0, ri_in_arb_queue_info = zero_info,
     ri_cache_in_arb_queue_info = zero_info, ri_mc_in_arb_queue_info = zero_info, ri_io_in_arb_queue_info = zero_info,
     ri_out_arb_queue_info = zero_info, ri_n_total_in = 0, ri_n_total_out = 0, ri_in_n_switch = 0, ri_cache_n_switch = 0,
     ri_mc_n_switch = 0, ri_io_n_switch = 0, ri_n_switch_in = 0, ri_n_switch_out = 0\<rparr>"

section \<open>Properties\<close>



text \<open>
  A matrix crossbar reports no energy after initialisation, and any sequence of traversals
  recorded after that is reported as the sum of the energies of the traversals: an input traversal
  is charged for the data bits that toggle, an output traversal for those and for a change of the
  connected input port.
\<close>

theorem SIM_crossbar_energy:
  "SIM_crossbar_init T xb0 MATRIX_CROSSBAR n_in n_out w degree connect_type trans_type in_len out_len = Some (xb, err, req) \<Longrightarrow>
   no_wrap_run [0, 0, 0, 0] (map (xb_incs xb) es) \<Longrightarrow>
   SIM_crossbar_report xb = 0 \<and>
   (\<exists>xb'. run xb_step es xb = Some xb' \<and> SIM_crossbar_report xb' = (\<Sum>e\<leftarrow>es. energy (xb_weights xb) (xb_incs xb e)))"
  using xb.run_energy [of es xb] crossbar_init_zero [of T xb0 n_in n_out w degree connect_type trans_type in_len out_len xb err req]
    xb.report_energy [of xb] energy_zero [of "xb_weights xb" 4] by (simp add: numeral_eq_Suc)

theorem SIM_crossbar_energy_witness:
  "\<exists>xb. SIM_crossbar_init build_tech zero_crossbar MATRIX_CROSSBAR 5 5 64 0 TRISTATE_GATE N_GATE 0 0 = Some (xb, 0, Some (dbl32 (5 * 64) * CrsbarCellWidth build_tech))
     \<and> (\<exists>xb'. run xb_step [(1, 255, 0, 0, 0)] xb = Some xb' \<and> SIM_crossbar_report xb' = energy (xb_weights xb) (xb_incs xb (1, 255, 0, 0, 0)))"
proof -
  obtain xb req where x: "SIM_crossbar_init build_tech zero_crossbar MATRIX_CROSSBAR 5 5 64 0 TRISTATE_GATE N_GATE 0 0 = Some (xb, 0, Some req)"
    "req = max 0 (dbl32 (5 * 64) * CrsbarCellWidth build_tech)"
    by (simp add: SIM_crossbar_init_def MATRIX_CROSSBAR_def CROSSBAR_MAX_MODEL_def Let_def crossbar_matrix_init_def
        SIM_crossbar_in_cap_def SIM_crossbar_out_cap_def SIM_crossbar_ctr_cap_def TRANS_GATE_def TRISTATE_GATE_def)
  have "no_wrap_run [0, 0, 0, 0] (map (xb_incs xb) [(1, 255, 0, 0, 0)])"
    using crossbar_init_zero(1) [OF x(1)] no_wrap_zero [of 4 "xb_incs xb (1, 255, 0, 0, 0)"]
    by (simp add: xb_incs_def Let_def numeral_eq_Suc)
  from SIM_crossbar_energy [OF x(1) this] x show ?thesis
    by (simp add: CrsbarCellWidth_def Lamda_def Leff_def LSCALE_def max_def)
qed

text \<open>
  A round-robin or matrix arbiter with its priority flip-flops reports no energy after
  initialisation, and any sequence of arbitrations recorded after that is reported as the sum of
  their energies, in any order.
\<close>

theorem SIM_arbiter_energy:
  "SIM_arbiter_init T arb0 model NEG_DFF w len info = Some (arb, info', err) \<Longrightarrow>
   model = RR_ARBITER \<or> model = MATRIX_ARBITER \<Longrightarrow>
   no_wrap_run (replicate 9 0) (map (arb_incs arb) es) \<Longrightarrow> mset es' = mset es \<Longrightarrow>
   err = 0 \<and> SIM_arbiter_report arb = 0 \<and>
   (\<exists>arb' arb''. run arb_step es arb = Some arb' \<and> run arb_step es' arb = Some arb''
      \<and> SIM_arbiter_report arb' = (\<Sum>e\<leftarrow>es. energy (arb_weights arb) (arb_incs arb e))
      \<and> SIM_arbiter_report arb'' = SIM_arbiter_report arb')"
proof -
  assume a: "SIM_arbiter_init T arb0 model NEG_DFF w len info = Some (arb, info', err)"
    "model = RR_ARBITER \<or> model = MATRIX_ARBITER" "no_wrap_run (replicate 9 0) (map (arb_incs arb) es)" "mset es' = mset es"
  note i = arbiter_init_zero [OF a(1,2)]
  have z: "arb_counters arb = replicate 9 0" using i(2) by (simp add: numeral_eq_Suc)
  have r0: "SIM_arbiter_report arb = 0" using arb.report_energy [OF i(1)] z by simp
  obtain arb' where "run arb_step es arb = Some arb'" "SIM_arbiter_report arb' = (\<Sum>e\<leftarrow>es. energy (arb_weights arb) (arb_incs arb e))"
    using arb.run_energy [OF i(1), of es] a(3) z r0 by auto
  moreover obtain arb'' where "run arb_step es' arb = Some arb''" "SIM_arbiter_report arb'' = SIM_arbiter_report arb'"
    using arb.run_order_irrelevant [OF i(1), of es' es] a(4) calculation(1) by auto
  ultimately show ?thesis using i(5) r0 by blast
qed

theorem SIM_arbiter_energy_witness:
  "\<exists>arb. SIM_arbiter_init build_tech zero_arbiter RR_ARBITER NEG_DFF 4 0 zero_info = Some (arb, zero_info, 0)
     \<and> SIM_arbiter_report arb = 0
     \<and> (\<exists>arb'. run arb_step [(3, 0, 1, 0)] arb = Some arb'
          \<and> SIM_arbiter_report arb' = energy (arb_weights arb) (arb_incs arb (3, 0, 1, 0)))"
proof -
  obtain arb err where x: "SIM_arbiter_init build_tech zero_arbiter RR_ARBITER NEG_DFF 4 0 zero_info = Some (arb, zero_info, err)"
    by (simp add: SIM_arbiter_init_def RR_ARBITER_def ARBITER_MAX_MODEL_def Let_def case_prod_beta)
  have "no_wrap_run (replicate 9 0) (map (arb_incs arb) [(3, 0, 1, 0)])"
    by (simp add: arb_incs_def Let_def)
  from SIM_arbiter_energy [OF x _ this refl] x show ?thesis by auto
qed

text \<open>
  The round-robin arbiter computes its carry activity in unsigned arithmetic: with fewer than
  two requesters every arbitration is charged for 4294967295 internal carry switches.
\<close>

theorem SIM_arbiter_record_rr_wraps:
  "arb_model arb = RR_ARBITER \<Longrightarrow> unat (arb_req_width arb) < 2 \<Longrightarrow>
   arb_n_chg_carry_in (SIM_arbiter_record arb new_req old_req new_grant old_grant) = arb_n_chg_carry_in arb + 4294967295"
proof -
  assume "arb_model arb = RR_ARBITER" "unat (arb_req_width arb) < 2"
  moreover from this(2) have "arb_req_width arb div 2 = 0" by (simp add: word_arith_nat_div)
  moreover have "ucast (- 1 :: u32) = (4294967295 :: u64)" by (simp add: unsigned_minus_1_eq_mask mask_eq_exp_minus_1)
  ultimately show ?thesis by (simp add: SIM_arbiter_record_def Let_def RR_ARBITER_def MATRIX_ARBITER_def)
qed

theorem SIM_arbiter_record_rr_wraps_witness:
  "arb_n_chg_carry_in (SIM_arbiter_record (zero_arbiter\<lparr>arb_model := RR_ARBITER, arb_req_width := 1\<rparr>) 1 0 0 0) = 4294967295"
  using SIM_arbiter_record_rr_wraps [of "zero_arbiter\<lparr>arb_model := RR_ARBITER, arb_req_width := 1\<rparr>" 1 0 0 0]
  by (simp add: zero_arbiter_def)

text \<open>
  The depth of a multiplexer-tree crossbar is the least number of levels with which
  multiplexers of the given degree reach all inputs.
\<close>

theorem crossbar_depth_least:
  "n_in \<noteq> 0 \<Longrightarrow> 1 < degree \<Longrightarrow>
   \<exists>d. crossbar_depth n_in degree = Some d \<and> unat n_in \<le> unat degree ^ unat d
     \<and> (\<forall>j < unat d. unat degree ^ j < unat n_in)"
  by (rule crossbar_depth_result)

theorem crossbar_depth_least_witness:
  "\<exists>d. crossbar_depth 5 2 = Some d \<and> (5 :: nat) \<le> 2 ^ unat d \<and> (\<forall>j < unat d. 2 ^ j < (5 :: nat))"
  using crossbar_depth_least [of 5 2] by simp

end
