(* ===== verification/Orion_Module.thy ===== *)
theory Orion_Module
  imports Orion_Router
begin

text \<open>
  The module layer that a simulator links against: \<^verbatim>\<open>SIM_router_power.c\<close> turns the build parameters of
  \<^verbatim>\<open>SIM_port.h\<close> into a router description and wraps the buffer operations; \<^verbatim>\<open>SIM_reg_power.c\<close> does the
  same for a register file. The parameters are a record, because the repository ships three sets of
  them.
\<close>

section \<open>Build parameters\<close>

record port_parm =
  pp_read_port :: u32
  pp_write_port :: u32
  pp_n_regs :: u32
  pp_reg_width :: u32
  pp_ndwl :: u32
  pp_ndbl :: u32
  pp_nspd :: u32
  pp_in_port :: u32
  pp_cache_in_port :: u32
  pp_mc_in_port :: u32
  pp_io_in_port :: u32
  pp_out_port :: u32
  pp_cache_out_port :: u32
  pp_mc_out_port :: u32
  pp_io_out_port :: u32
  pp_flit_width :: u32
  pp_v_channel :: u32
  pp_v_class :: u32
  pp_cache_class :: u32
  pp_mc_class :: u32
  pp_io_class :: u32
  pp_in_share_buf :: int
  pp_out_share_buf :: int
  pp_in_share_switch :: int
  pp_out_share_switch :: int
  pp_crossbar_model :: int
  pp_crsbar_degree :: u32
  pp_connect_type :: int
  pp_trans_type :: int
  pp_crossbar_in_len :: real
  pp_crossbar_out_len :: real
  pp_in_buf :: int
  pp_in_buf_set :: u32
  pp_in_buf_rport :: u32
  pp_cache_in_buf :: int
  pp_cache_in_buf_set :: u32
  pp_cache_in_buf_rport :: u32
  pp_mc_in_buf :: int
  pp_mc_in_buf_set :: u32
  pp_mc_in_buf_rport :: u32
  pp_io_in_buf :: int
  pp_io_in_buf_set :: u32
  pp_io_in_buf_rport :: u32
  pp_out_buf :: int
  pp_out_buf_set :: u32
  pp_out_buf_wport :: u32
  pp_central_buf :: int
  pp_cbuf_set :: u32
  pp_cbuf_rport :: u32
  pp_cbuf_wport :: u32
  pp_cbuf_width :: u32
  pp_pipe_depth :: u32
  pp_wordline_model :: int
  pp_bitline_model :: int
  pp_mem_model :: int
  pp_row_dec_model :: int
  pp_row_dec_pre_model :: int
  pp_outdrv_model :: int
  pp_data_end :: u32
  pp_amp_model :: int
  pp_bitline_pre_model :: int
  pp_in_arb_model :: int
  pp_in_arb_ff_model :: int
  pp_out_arb_model :: int
  pp_out_arb_ff_model :: int

definition SIM_port :: port_parm where
  "SIM_port = \<lparr>pp_read_port = 1, pp_write_port = 1, pp_n_regs = 64, pp_reg_width = 32, pp_ndwl = 1, pp_ndbl = 1,
     pp_nspd = 1, pp_in_port = 4, pp_cache_in_port = 1, pp_mc_in_port = 0, pp_io_in_port = 0, pp_out_port = 4,
     pp_cache_out_port = 1, pp_mc_out_port = 0, pp_io_out_port = 0, pp_flit_width = 128, pp_v_channel = 1,
     pp_v_class = 0, pp_cache_class = 0, pp_mc_class = 0, pp_io_class = 0, pp_in_share_buf = 1, pp_out_share_buf = 1,
     pp_in_share_switch = 1, pp_out_share_switch = 1, pp_crossbar_model = MATRIX_CROSSBAR, pp_crsbar_degree = 4,
     pp_connect_type = TRISTATE_GATE, pp_trans_type = NP_GATE, pp_crossbar_in_len = 0, pp_crossbar_out_len = 0,
     pp_in_buf = 1, pp_in_buf_set = 64, pp_in_buf_rport = 1, pp_cache_in_buf = 1, pp_cache_in_buf_set = 64,
     pp_cache_in_buf_rport = 1, pp_mc_in_buf = 0, pp_mc_in_buf_set = 0, pp_mc_in_buf_rport = 0, pp_io_in_buf = 0,
     pp_io_in_buf_set = 0, pp_io_in_buf_rport = 0, pp_out_buf = 0, pp_out_buf_set = 0, pp_out_buf_wport = 0,
     pp_central_buf = 0, pp_cbuf_set = 2560, pp_cbuf_rport = 2, pp_cbuf_wport = 2, pp_cbuf_width = 4, pp_pipe_depth = 4,
     pp_wordline_model = CACHE_RW_WORDLINE, pp_bitline_model = RW_BITLINE, pp_mem_model = NORMAL_MEM,
     pp_row_dec_model = GENERIC_DEC, pp_row_dec_pre_model = SINGLE_OTHER, pp_outdrv_model = REG_OUTDRV,
     pp_data_end = 2, pp_amp_model = GENERIC_AMP, pp_bitline_pre_model = EQU_BITLINE, pp_in_arb_model = MATRIX_ARBITER,
     pp_in_arb_ff_model = NEG_DFF, pp_out_arb_model = MATRIX_ARBITER, pp_out_arb_ff_model = NEG_DFF\<rparr>"

section \<open>Router description\<close>

text \<open>
  A buffer without tags. The callbacks the code sets to null pointers are never called on an array
  without tags, so the model leaves them. A zero line width divides by zero.
\<close>

definition SIM_buf_set_para :: "port_parm \<Rightarrow> ('e, 's) SIM_power_array_info_t \<Rightarrow> int \<Rightarrow> u32 \<Rightarrow> u32 \<Rightarrow> u32 \<Rightarrow> u32 \<Rightarrow> int
    \<Rightarrow> ('e, 's) SIM_power_array_info_t option" where
  "SIM_buf_set_para P info share_buf n_read_port n_write_port n_entry line_width outdrv_flag =
     (if line_width = 0 then None
      else Some (info\<lparr>share_rw := 0, read_ports := n_read_port, write_ports := n_write_port, n_set := n_entry,
        blk_bits := line_width, assoc := 1, data_width := line_width, data_end := pp_data_end P,
        data_ndwl := 1, data_ndbl := 1, data_nspd := 1, data_n_share_amp := 1,
        row_dec_model := (if share_buf \<noteq> 0 then pp_row_dec_model P else SIM_NO_MODEL),
        row_dec_pre_model := (if share_buf \<noteq> 0 then pp_row_dec_pre_model P else SIM_NO_MODEL),
        data_wordline_model := pp_wordline_model P, data_bitline_model := pp_bitline_model P,
        data_bitline_pre_model := pp_bitline_pre_model P, data_mem_model := pp_mem_model P,
        data_amp_model := (if pp_data_end P = 2 then pp_amp_model P else SIM_NO_MODEL),
        outdrv_model := (if outdrv_flag \<noteq> 0 then pp_outdrv_model P else SIM_NO_MODEL),
        data_colsel_pre_model := SIM_NO_MODEL, col_dec_model := SIM_NO_MODEL, col_dec_pre_model := SIM_NO_MODEL,
        mux_model := SIM_NO_MODEL, tag_wordline_model := SIM_NO_MODEL, tag_bitline_model := SIM_NO_MODEL,
        tag_bitline_pre_model := SIM_NO_MODEL, tag_mem_model := SIM_NO_MODEL, tag_attach_mem_model := SIM_NO_MODEL,
        tag_amp_model := SIM_NO_MODEL, tag_colsel_pre_model := SIM_NO_MODEL, comp_model := SIM_NO_MODEL,
        comp_pre_model := SIM_NO_MODEL, write_policy := 0,
        n_item := line_width div line_width, eff_data_cols := line_width * 1 * 1\<rparr>))"

definition router_set_general :: "port_parm \<Rightarrow> ('e, 's) SIM_power_router_info_t \<Rightarrow> ('e, 's) SIM_power_router_info_t" where
  "router_set_general P info =
     (let n_v_channel = max (pp_v_channel P) 1;
          n_v_class = max n_v_channel (pp_v_class P);
          share = (\<lambda>x. if n_v_class > 1 then x else 0)
      in info\<lparr>ri_n_in := pp_in_port P, ri_n_cache_in := pp_cache_in_port P, ri_n_mc_in := pp_mc_in_port P,
              ri_n_io_in := pp_io_in_port P,
              ri_n_total_in := pp_in_port P + pp_cache_in_port P + pp_mc_in_port P + pp_io_in_port P,
              ri_n_out := pp_out_port P, ri_n_cache_out := pp_cache_out_port P, ri_n_mc_out := pp_mc_out_port P,
              ri_n_io_out := pp_io_out_port P,
              ri_n_total_out := pp_out_port P + pp_cache_out_port P + pp_mc_out_port P + pp_io_out_port P,
              ri_flit_width := pp_flit_width P,
              ri_n_v_channel := n_v_channel, ri_n_v_class := n_v_class,
              ri_cache_class := max (pp_cache_class P) 1, ri_mc_class := max (pp_mc_class P) 1,
              ri_io_class := max (pp_io_class P) 1,
              ri_in_share_buf := share (pp_in_share_buf P), ri_out_share_buf := share (pp_out_share_buf P),
              ri_in_share_switch := share (pp_in_share_switch P), ri_out_share_switch := share (pp_out_share_switch P),
              ri_crossbar_model := pp_crossbar_model P, ri_degree := pp_crsbar_degree P,
              ri_connect_type := pp_connect_type P, ri_trans_type := pp_trans_type P,
              ri_crossbar_in_len := pp_crossbar_in_len P, ri_crossbar_out_len := pp_crossbar_out_len P\<rparr>)"

text \<open>An output driver is needed when separate buffers share a switch.\<close>

definition need_outdrv :: "int \<Rightarrow> int \<Rightarrow> int" where
  "need_outdrv share_buf share_switch = (if share_buf = 0 \<and> share_switch \<noteq> 0 then 1 else 0)"

text \<open>The input buffer of one kind of local port: sharing needs more than one virtual class.\<close>

definition local_in_buf :: "port_parm \<Rightarrow> ('e, 's) SIM_power_router_info_t \<Rightarrow> u32 \<Rightarrow> u32 \<Rightarrow> int \<Rightarrow> u32 \<Rightarrow> u32
    \<Rightarrow> ('e, 's) SIM_power_array_info_t \<Rightarrow> (int \<times> ('e, 's) SIM_power_array_info_t) option" where
  "local_in_buf P info ports classes buf rport sets binfo =
     (if ports \<noteq> 0
      then if buf \<noteq> 0
           then (let share_buf = (if classes > 1 then ri_in_share_buf info else 0);
                     out = (if classes > 1 then need_outdrv share_buf (ri_in_share_switch info) else 0)
                 in map_option (Pair buf) (SIM_buf_set_para P binfo share_buf rport 1 sets (pp_flit_width P) out))
           else Some (buf, binfo)
      else Some (0, binfo))"

definition router_set_bufs :: "port_parm \<Rightarrow> ('e, 's) SIM_power_router_info_t \<Rightarrow> ('e, 's) SIM_power_router_info_t option" where
  "router_set_bufs P info = do {
     in_info \<leftarrow> init_if (pp_in_buf P \<noteq> 0)
       (\<lambda>i. SIM_buf_set_para P i (ri_in_share_buf info) (pp_in_buf_rport P) 1 (pp_in_buf_set P) (pp_flit_width P)
              (need_outdrv (ri_in_share_buf info) (ri_in_share_switch info))) (ri_in_buf_info info);
     (cache, cache_info) \<leftarrow> local_in_buf P info (pp_cache_in_port P) (pp_cache_class P) (pp_cache_in_buf P)
       (pp_cache_in_buf_rport P) (pp_cache_in_buf_set P) (ri_cache_in_buf_info info);
     (mc, mc_info) \<leftarrow> local_in_buf P info (pp_mc_in_port P) (pp_mc_class P) (pp_mc_in_buf P)
       (pp_mc_in_buf_rport P) (pp_mc_in_buf_set P) (ri_mc_in_buf_info info);
     (io, io_info) \<leftarrow> local_in_buf P info (pp_io_in_port P) (pp_io_class P) (pp_io_in_buf P)
       (pp_io_in_buf_rport P) (pp_io_in_buf_set P) (ri_io_in_buf_info info);
     out_info \<leftarrow> init_if (pp_out_buf P \<noteq> 0)
       (\<lambda>i. SIM_buf_set_para P i (ri_out_share_buf info) 1 (pp_out_buf_wport P) (pp_out_buf_set P) (pp_flit_width P) 0)
       (ri_out_buf_info info);
     cb_info \<leftarrow> init_if (pp_central_buf P \<noteq> 0)
       (\<lambda>i. SIM_buf_set_para P i 1 (pp_cbuf_rport P) (pp_cbuf_wport P) (pp_cbuf_set P)
              (pp_cbuf_width P * pp_flit_width P) 0) (ri_central_buf_info info);
     let info = info\<lparr>ri_in_buf := pp_in_buf P, ri_in_buf_info := in_info,
       ri_cache_in_buf := cache, ri_cache_in_buf_info := cache_info, ri_mc_in_buf := mc, ri_mc_in_buf_info := mc_info,
       ri_io_in_buf := io, ri_io_in_buf_info := io_info, ri_out_buf := pp_out_buf P, ri_out_buf_info := out_info,
       ri_central_buf := pp_central_buf P, ri_central_buf_info := cb_info\<rparr>;
     Some (if pp_central_buf P \<noteq> 0 then info\<lparr>ri_pipe_depth := pp_pipe_depth P, ri_cbuf_ff_model := NEG_DFF\<rparr> else info)
   }"

text \<open>The request queue of a queuing arbiter: one entry per requester, wide enough to name one.\<close>

definition queue_para :: "port_parm \<Rightarrow> u32 \<Rightarrow> ('e, 's) SIM_power_array_info_t \<Rightarrow> ('e, 's) SIM_power_array_info_t option" where
  "queue_para P n i = do { w \<leftarrow> SIM_power_logtwo (ucast n); SIM_buf_set_para P i 0 1 1 n w 0 }"

definition router_set_arbs :: "port_parm \<Rightarrow> ('e, 's) SIM_power_router_info_t \<Rightarrow> ('e, 's) SIM_power_router_info_t option" where
  "router_set_arbs P info = do {
     let qin = (ri_n_v_class info > 1 \<and> pp_in_arb_model P = QUEUE_ARBITER);
     q \<leftarrow> init_if qin (queue_para P (ri_n_v_class info)) (ri_in_arb_queue_info info);
     qc \<leftarrow> init_if (qin \<and> ri_cache_class info > 1) (queue_para P (ri_cache_class info)) (ri_cache_in_arb_queue_info info);
     qm \<leftarrow> init_if (qin \<and> ri_mc_class info > 1) (queue_para P (ri_mc_class info)) (ri_mc_in_arb_queue_info info);
     qi \<leftarrow> init_if (qin \<and> ri_io_class info > 1) (queue_para P (ri_io_class info)) (ri_io_in_arb_queue_info info);
     let in_model = (if ri_n_v_class info > 1 then pp_in_arb_model P else SIM_NO_MODEL);
     let out = (pp_in_port P + pp_cache_in_port P + pp_mc_in_port P + pp_io_in_port P > 2);
     let out_model = (if out then pp_out_arb_model P else SIM_NO_MODEL);
     qo \<leftarrow> init_if (out_model = QUEUE_ARBITER) (queue_para P (ri_n_total_in info - 1)) (ri_out_arb_queue_info info);
     Some (info\<lparr>ri_in_arb_queue_info := q, ri_cache_in_arb_queue_info := qc, ri_mc_in_arb_queue_info := qm,
       ri_io_in_arb_queue_info := qi, ri_in_arb_model := in_model,
       ri_in_arb_ff_model := (if in_model \<noteq> 0 \<and> in_model \<noteq> QUEUE_ARBITER then pp_in_arb_ff_model P else SIM_NO_MODEL),
       ri_out_arb_model := out_model, ri_out_arb_queue_info := qo,
       ri_out_arb_ff_model := (if out_model \<noteq> 0 \<and> out_model \<noteq> QUEUE_ARBITER then pp_out_arb_ff_model P else SIM_NO_MODEL)\<rparr>)
   }"

text \<open>How many switch ports the input buffer of one port takes.\<close>

definition n_switch_of :: "('e, 's) SIM_power_router_info_t \<Rightarrow> int \<Rightarrow> ('e, 's) SIM_power_array_info_t \<Rightarrow> u32 \<Rightarrow> u32" where
  "n_switch_of info buf binfo classes =
     (if buf \<noteq> 0
      then if ri_in_share_buf info \<noteq> 0 then read_ports binfo
           else if ri_in_share_switch info \<noteq> 0 then 1 else classes
      else 1)"

definition router_set_switch :: "('e, 's) SIM_power_router_info_t \<Rightarrow> ('e, 's) SIM_power_router_info_t" where
  "router_set_switch info =
     (let i = n_switch_of info (ri_in_buf info) (ri_in_buf_info info) (ri_n_v_class info);
          c = n_switch_of info (ri_cache_in_buf info) (ri_cache_in_buf_info info) (ri_cache_class info);
          m = n_switch_of info (ri_mc_in_buf info) (ri_mc_in_buf_info info) (ri_mc_class info);
          o' = n_switch_of info (ri_io_in_buf info) (ri_io_in_buf_info info) (ri_io_class info)
      in info\<lparr>ri_in_n_switch := i, ri_cache_n_switch := c, ri_mc_n_switch := m, ri_io_n_switch := o',
              ri_n_switch_in := ri_n_in info * i + ri_n_cache_in info * c + ri_n_mc_in info * m + ri_n_io_in info * o',
              ri_n_switch_out := ri_n_cache_out info + ri_n_mc_out info + ri_n_io_out info
                + (if ri_out_buf info \<noteq> 0
                   then if ri_out_share_buf info \<noteq> 0 then ri_n_out info * write_ports (ri_out_buf_info info)
                        else if ri_out_share_switch info \<noteq> 0 then ri_n_out info
                        else ri_n_out info * ri_n_v_class info
                   else ri_n_out info)\<rparr>)"

definition mainpe__power___SIM_router_power_init :: "tech \<Rightarrow> port_parm \<Rightarrow> ('e, 's) SIM_power_router_info_t \<Rightarrow> SIM_power_router_t
    \<Rightarrow> (('e, 's) SIM_power_router_info_t \<times> SIM_power_router_t) option" where
  "mainpe__power___SIM_router_power_init T P info router = do {
     info \<leftarrow> router_set_bufs P (router_set_general P info);
     info \<leftarrow> router_set_arbs P info;
     SIM_router_power_init T (router_set_switch info) router
   }"

section \<open>Buffer accesses\<close>

text \<open>
  The wrappers pass no port state: with a row decoder the array operation would follow the null
  pointer.
\<close>

definition array_dec_null :: "('e, 's) SIM_power_array_info_t \<Rightarrow> SIM_power_array_t \<Rightarrow> int \<Rightarrow> SIM_power_array_t option" where
  "array_dec_null info arr rw =
     (if \<not> IS_FULLY_ASSOC info \<and> row_dec_model info \<noteq> 0 then None
      else map_option fst (SIM_power_array_dec info arr
             \<lparr>row_addr = 0, col_addr = 0, tag_addr = 0, tag_line = 0, data_line = []\<rparr> 0 rw))"

definition SIM_buf_power_data_read :: "('e, 's) SIM_power_array_info_t \<Rightarrow> SIM_power_array_t \<Rightarrow> u64 \<Rightarrow> SIM_power_array_t option" where
  "SIM_buf_power_data_read info arr data = do {
     let arr = arr\<lparr>data_bitline_pre := SIM_array_pre_record (data_bitline_pre arr) (ucast (blk_bits info))\<rparr>;
     arr \<leftarrow> array_dec_null info arr SIM_ARRAY_READ;
     Some (fst (SIM_power_array_data_read info arr data))
   }"

text \<open>The set state is a null pointer, which only a fully associative array would follow.\<close>

definition SIM_buf_power_data_write :: "port_parm \<Rightarrow> ('e, 's) SIM_power_array_info_t \<Rightarrow> SIM_power_array_t \<Rightarrow> nat \<Rightarrow> nat \<Rightarrow> nat \<Rightarrow> memory
    \<Rightarrow> (SIM_power_array_t \<times> memory) option" where
  "SIM_buf_power_data_write P info arr line old_data new_data m =
     (if IS_FULLY_ASSOC info then None
      else do {
        arr \<leftarrow> array_dec_null info arr SIM_ARRAY_WRITE;
        let (arr, st, m) = SIM_power_array_data_write info arr
          \<lparr>set_entry = None, set_entry_set = None, write_flag = 0, write_back_flag = 0, valid_bak = 0, dirty_bak = 0,
           tag_bak = 0, use_bak = []\<rparr> (pp_flit_width P div 8) line old_data new_data m;
        Some (arr, m)
      })"

section \<open>Register file\<close>

text \<open>
  A register file port is the generic port state with a data line of one \<^verbatim>\<open>int\<close>, four bytes. The
  initialisation loop writes the size of every port, but initialises the first one each time.
\<close>

record SIM_reg_port_state_t =
  reg_port :: SIM_array_port_state_t
  reg_data_line_size :: u32

definition sizeof_int :: nat where
  "sizeof_int = 4"

definition sizeof_max_uint :: nat where
  "sizeof_max_uint = 8"

fun reg_port_loop :: "('e, 's) SIM_power_array_info_t \<Rightarrow> nat \<Rightarrow> nat \<Rightarrow> SIM_reg_port_state_t list \<Rightarrow> SIM_reg_port_state_t list option" where
  "reg_port_loop info i 0 port = Some port"
| "reg_port_loop info i (Suc n) port =
     (if i < length port
      then (let port = port[i := (port ! i)\<lparr>reg_data_line_size := of_nat sizeof_int\<rparr>];
                port = port[0 := (port ! 0)\<lparr>reg_port := SIM_array_port_state_init info (reg_port (port ! 0))\<rparr>]
            in reg_port_loop info (Suc i) n port)
      else None)"

definition SIM_reg_port_state_init :: "('e, 's) SIM_power_array_info_t \<Rightarrow> SIM_reg_port_state_t list \<Rightarrow> u32
    \<Rightarrow> SIM_reg_port_state_t list option" where
  "SIM_reg_port_state_init info port n_port = reg_port_loop info 0 (unat n_port) port"

definition reg_set_para :: "port_parm \<Rightarrow> ('e, 's) SIM_power_array_info_t \<Rightarrow> ('e, 's) SIM_power_array_info_t option" where
  "reg_set_para P info =
     (if pp_reg_width P = 0 then None
      else Some (info\<lparr>share_rw := 0, read_ports := pp_read_port P, write_ports := pp_write_port P, n_set := pp_n_regs P,
        blk_bits := pp_reg_width P, assoc := 1, data_width := pp_reg_width P, data_end := pp_data_end P,
        data_ndwl := pp_ndwl P, data_ndbl := pp_ndbl P, data_nspd := pp_nspd P, data_n_share_amp := 1,
        row_dec_model := pp_row_dec_model P, row_dec_pre_model := pp_row_dec_pre_model P,
        data_wordline_model := pp_wordline_model P, data_bitline_model := pp_bitline_model P,
        data_bitline_pre_model := pp_bitline_pre_model P, data_mem_model := pp_mem_model P,
        data_amp_model := (if pp_data_end P = 2 then pp_amp_model P else SIM_NO_MODEL),
        outdrv_model := pp_outdrv_model P,
        data_colsel_pre_model := SIM_NO_MODEL, col_dec_model := SIM_NO_MODEL, col_dec_pre_model := SIM_NO_MODEL,
        mux_model := SIM_NO_MODEL, tag_wordline_model := SIM_NO_MODEL, tag_bitline_model := SIM_NO_MODEL,
        tag_bitline_pre_model := SIM_NO_MODEL, tag_mem_model := SIM_NO_MODEL, tag_attach_mem_model := SIM_NO_MODEL,
        tag_amp_model := SIM_NO_MODEL, tag_colsel_pre_model := SIM_NO_MODEL, comp_model := SIM_NO_MODEL,
        comp_pre_model := SIM_NO_MODEL, write_policy := 0,
        n_item := pp_reg_width P div pp_reg_width P, eff_data_cols := pp_reg_width P * 1 * pp_nspd P\<rparr>))"

text \<open>\<^term>\<open>None\<close> for the ports stands for a null pointer, which leaves them alone.\<close>

definition SIM_reg_power_init :: "tech \<Rightarrow> port_parm \<Rightarrow> ('e, 's) SIM_power_array_info_t \<Rightarrow> SIM_power_array_t
    \<Rightarrow> SIM_reg_port_state_t list option \<Rightarrow> SIM_reg_port_state_t list option
    \<Rightarrow> (('e, 's) SIM_power_array_info_t \<times> SIM_power_array_t
        \<times> SIM_reg_port_state_t list option \<times> SIM_reg_port_state_t list option) option" where
  "SIM_reg_power_init T P info arr read_port write_port = do {
     info \<leftarrow> reg_set_para P info;
     rp \<leftarrow> (case read_port of Some ps \<Rightarrow> map_option Some (SIM_reg_port_state_init info ps (read_ports info)) | None \<Rightarrow> Some None);
     wp \<leftarrow> (case write_port of Some ps \<Rightarrow> map_option Some (SIM_reg_port_state_init info ps (write_ports info)) | None \<Rightarrow> Some None);
     (info, arr) \<leftarrow> SIM_array_power_init T info arr;
     Some (info, arr, rp, wp)
   }"

definition SIM_reg_power_report :: "('e, 's) SIM_power_array_info_t \<Rightarrow> SIM_power_array_t \<Rightarrow> real" where
  "SIM_reg_power_report info arr = SIM_array_power_report info arr"

definition SIM_reg_power_dec :: "('e, 's) SIM_power_array_info_t \<Rightarrow> SIM_power_array_t \<Rightarrow> SIM_reg_port_state_t list
    \<Rightarrow> SIM_reg_port_state_t list \<Rightarrow> nat \<Rightarrow> u64 \<Rightarrow> int
    \<Rightarrow> (SIM_power_array_t \<times> SIM_reg_port_state_t list \<times> SIM_reg_port_state_t list \<times> int) option" where
  "SIM_reg_power_dec info arr read_port write_port port raddr rw =
     (if rw \<noteq> 0
      then if port < length write_port
           then map_option (\<lambda>(arr, p, r). (arr, read_port, write_port[port := (write_port ! port)\<lparr>reg_port := p\<rparr>], r))
                  (SIM_power_array_dec info arr (reg_port (write_port ! port)) raddr rw)
           else None
      else if port < length read_port
           then map_option (\<lambda>(arr, p, r). (arr, read_port[port := (read_port ! port)\<lparr>reg_port := p\<rparr>], write_port, r))
                  (SIM_power_array_dec info arr (reg_port (read_port ! port)) raddr rw)
           else None)"

text \<open>The \<^verbatim>\<open>int\<close> argument is converted to the 64-bit parameter, sign bit included.\<close>

definition SIM_reg_power_data_read :: "('e, 's) SIM_power_array_info_t \<Rightarrow> SIM_power_array_t \<Rightarrow> u32 \<Rightarrow> SIM_power_array_t \<times> int" where
  "SIM_reg_power_data_read info arr data = SIM_power_array_data_read info arr (scast data)"

text \<open>
  The write passes the size of its 64-bit arguments, and the addresses of the port's data line and
  of the two arguments.
\<close>

definition SIM_reg_power_data_write :: "('e, 's) SIM_power_array_info_t \<Rightarrow> SIM_power_array_t \<Rightarrow> nat \<Rightarrow> nat \<Rightarrow> nat \<Rightarrow> memory
    \<Rightarrow> (SIM_power_array_t \<times> memory) option" where
  "SIM_reg_power_data_write info arr line old_data new_data m =
     (if IS_FULLY_ASSOC info then None
      else (let (arr, st, m) = SIM_power_array_data_write info arr
              \<lparr>set_entry = None, set_entry_set = None, write_flag = 0, write_back_flag = 0, valid_bak = 0, dirty_bak = 0,
               tag_bak = 0, use_bak = []\<rparr> (of_nat sizeof_max_uint) line old_data new_data m
            in Some (arr, m)))"

definition SIM_reg_power_output :: "('e, 's) SIM_power_array_info_t \<Rightarrow> SIM_power_array_t \<Rightarrow> nat \<Rightarrow> memory \<Rightarrow> SIM_power_array_t option" where
  "SIM_reg_power_output info arr data m =
     (if \<not> IS_FULLY_ASSOC info \<and> n_item info \<noteq> 0 \<and> assoc info \<noteq> 0 then None
      else Some (SIM_power_array_output info arr sizeof_int 1 data (\<lambda>i. 0) m))"

section \<open>Initialisation is defined\<close>

text \<open>
  The parameter sets without a central buffer and without queuing arbiters, with a matrix crossbar
  of a known connection and non-empty buffers.
\<close>

definition parm_ok :: "port_parm \<Rightarrow> bool" where
  "parm_ok P \<longleftrightarrow> pp_flit_width P \<noteq> 0 \<and> pp_crossbar_model P = MATRIX_CROSSBAR
     \<and> (pp_connect_type P = TRANS_GATE \<or> pp_connect_type P = TRISTATE_GATE)
     \<and> pp_central_buf P = 0 \<and> pp_in_arb_model P \<noteq> QUEUE_ARBITER \<and> pp_out_arb_model P \<noteq> QUEUE_ARBITER
     \<and> (pp_in_buf P \<noteq> 0 \<longrightarrow> pp_in_buf_set P \<noteq> 0) \<and> (pp_cache_in_buf P \<noteq> 0 \<longrightarrow> pp_cache_in_buf_set P \<noteq> 0)
     \<and> (pp_mc_in_buf P \<noteq> 0 \<longrightarrow> pp_mc_in_buf_set P \<noteq> 0) \<and> (pp_io_in_buf P \<noteq> 0 \<longrightarrow> pp_io_in_buf_set P \<noteq> 0)
     \<and> (pp_out_buf P \<noteq> 0 \<longrightarrow> pp_out_buf_set P \<noteq> 0)"

lemma crossbar_init_Some:
  assumes "connect_type = TRANS_GATE \<or> connect_type = TRISTATE_GATE"
  shows "\<exists>xb req. SIM_crossbar_init T xb0 MATRIX_CROSSBAR n_in n_out w degree connect_type tt in_len out_len = Some (xb, 0, Some req)"
  using assms
  by (auto simp: SIM_crossbar_init_def MATRIX_CROSSBAR_def CROSSBAR_MAX_MODEL_def Let_def crossbar_matrix_init_def
        SIM_crossbar_in_cap_def SIM_crossbar_out_cap_def SIM_crossbar_ctr_cap_def TRANS_GATE_def TRISTATE_GATE_def)

lemma arbiter_init_Some:
  assumes "model \<noteq> QUEUE_ARBITER"
  shows "\<exists>arb err. SIM_arbiter_init T arb0 model ff w len info = Some (arb, info, err)"
  using assms unfolding SIM_arbiter_init_def Let_def case_prod_beta by simp

lemma buf_para_Some:
  assumes "line_width \<noteq> 0" "n_entry \<noteq> 0"
  shows "\<exists>i. SIM_buf_set_para P info share r w n_entry line_width out = Some i \<and> array_divisors_ok i \<and> assoc i = 1
    \<and> blk_bits i = line_width \<and> eff_data_cols i = line_width \<and> read_ports i = r \<and> share_rw i = 0 \<and> data_ndwl i = 1
    \<and> tag_mem_model i = 0 \<and> row_dec_model i = (if share \<noteq> 0 then pp_row_dec_model P else 0)"
proof -
  have "line_width div line_width \<noteq> 0" using assms(1) by (simp add: div_word_self)
  then show ?thesis using assms by (simp add: SIM_buf_set_para_def array_divisors_ok_def SIM_NO_MODEL_def)
qed

lemma local_in_buf_Some:
  assumes "pp_flit_width P \<noteq> 0" "buf \<noteq> 0 \<longrightarrow> sets \<noteq> 0"
  shows "\<exists>b i. local_in_buf P info ports classes buf rport sets binfo = Some (b, i) \<and> (b \<noteq> 0 \<longrightarrow> array_divisors_ok i)"
proof (cases "ports \<noteq> 0 \<and> buf \<noteq> 0")
  case True
  then show ?thesis using buf_para_Some [OF assms(1), of sets P binfo] assms(2) unfolding local_in_buf_def Let_def by fastforce
qed (auto simp: local_in_buf_def)

lemma init_if_Some: "(b \<longrightarrow> (\<exists>y. f x = Some y)) \<Longrightarrow> \<exists>y. init_if b f x = Some y"
  by (simp add: init_if_def)


text \<open>What array initialisation keeps of a description without tags.\<close>

lemma array_init_keeps:
  assumes "SIM_array_power_init T info arr = Some (info', arr')" "tag_mem_model info = 0" "share_rw info = 0"
  shows "\<exists>w h. info' = info\<lparr>data_arr_width := w, tag_arr_width := 0, data_arr_height := h, tag_arr_height := 0\<rparr>"
proof -
  let ?i = "(array_sanity info)\<lparr>data_arr_width := 0, tag_arr_width := 0, data_arr_height := 0, tag_arr_height := 0\<rparr>"
  obtain i a where i: "array_data_init T ?i arr = Some (i, a)" "array_tag_init T i a = Some (info', arr')"
    using assms(1) by (auto simp: SIM_array_power_init_def bind_eq_Some_conv)
  then obtain w h where ih: "i = ?i\<lparr>data_arr_width := w, data_arr_height := h\<rparr>" using array_data_init_info by blast
  have s: "array_sanity info = info" using assms(3) by (cases info) (simp add: array_sanity_def)
  have "info' = i" using i(2) assms(2) by (simp add: array_tag_init_def ih s)
  then have "info' = info\<lparr>data_arr_width := w, tag_arr_width := 0, data_arr_height := h, tag_arr_height := 0\<rparr>"
    unfolding ih s by (cases info) simp
  then show ?thesis by blast
qed

lemma set_general_simps:
  "ri_in_buf_info (router_set_general P info) = ri_in_buf_info info"
  "ri_flit_width (router_set_general P info) = pp_flit_width P"
  "ri_crossbar_model (router_set_general P info) = pp_crossbar_model P"
  "ri_connect_type (router_set_general P info) = pp_connect_type P"
  "ri_in_share_buf (router_set_general P info) = (if max (max (pp_v_channel P) 1) (pp_v_class P) > 1 then pp_in_share_buf P else 0)"
  "ri_n_v_class (router_set_general P info) = max (max (pp_v_channel P) 1) (pp_v_class P)"
  by (simp_all add: router_set_general_def Let_def)

lemma set_bufs_Some:
  assumes "parm_ok P"
  shows "\<exists>info'. router_set_bufs P info = Some info'
    \<and> (ri_in_buf info' \<noteq> 0 \<longrightarrow> array_divisors_ok (ri_in_buf_info info') \<and> assoc (ri_in_buf_info info') = 1
         \<and> tag_mem_model (ri_in_buf_info info') = 0 \<and> share_rw (ri_in_buf_info info') = 0
         \<and> row_dec_model (ri_in_buf_info info') = (if ri_in_share_buf info \<noteq> 0 then pp_row_dec_model P else 0))
    \<and> (ri_cache_in_buf info' \<noteq> 0 \<longrightarrow> array_divisors_ok (ri_cache_in_buf_info info'))
    \<and> (ri_mc_in_buf info' \<noteq> 0 \<longrightarrow> array_divisors_ok (ri_mc_in_buf_info info'))
    \<and> (ri_io_in_buf info' \<noteq> 0 \<longrightarrow> array_divisors_ok (ri_io_in_buf_info info'))
    \<and> (ri_out_buf info' \<noteq> 0 \<longrightarrow> array_divisors_ok (ri_out_buf_info info'))
    \<and> ri_central_buf info' = 0 \<and> ri_crossbar_model info' = ri_crossbar_model info \<and> ri_connect_type info' = ri_connect_type info
    \<and> ri_in_buf info' = pp_in_buf P"
proof -
  note ok = assms [unfolded parm_ok_def]
  have fw: "pp_flit_width P \<noteq> 0" using ok by blast
  obtain i where i: "init_if (pp_in_buf P \<noteq> 0)
       (\<lambda>i. SIM_buf_set_para P i (ri_in_share_buf info) (pp_in_buf_rport P) 1 (pp_in_buf_set P) (pp_flit_width P)
              (need_outdrv (ri_in_share_buf info) (ri_in_share_switch info))) (ri_in_buf_info info) = Some i"
    "pp_in_buf P \<noteq> 0 \<longrightarrow> array_divisors_ok i \<and> assoc i = 1 \<and> tag_mem_model i = 0 \<and> share_rw i = 0
       \<and> row_dec_model i = (if ri_in_share_buf info \<noteq> 0 then pp_row_dec_model P else 0)"
    using buf_para_Some [OF fw, of "pp_in_buf_set P"] ok unfolding init_if_def by metis
  obtain o' where o: "init_if (pp_out_buf P \<noteq> 0)
       (\<lambda>i. SIM_buf_set_para P i (ri_out_share_buf info) 1 (pp_out_buf_wport P) (pp_out_buf_set P) (pp_flit_width P) 0)
       (ri_out_buf_info info) = Some o'" "pp_out_buf P \<noteq> 0 \<longrightarrow> array_divisors_ok o'"
    using buf_para_Some [OF fw, of "pp_out_buf_set P"] ok unfolding init_if_def by metis
  have L: "\<exists>b i. local_in_buf P info ports classes buf rport sets binfo = Some (b, i) \<and> (b \<noteq> 0 \<longrightarrow> array_divisors_ok i)"
    if "buf \<noteq> 0 \<longrightarrow> sets \<noteq> 0" for ports classes buf rport sets binfo
    using local_in_buf_Some [OF fw that] .
  obtain cb ci where c: "local_in_buf P info (pp_cache_in_port P) (pp_cache_class P) (pp_cache_in_buf P)
       (pp_cache_in_buf_rport P) (pp_cache_in_buf_set P) (ri_cache_in_buf_info info) = Some (cb, ci)" "cb \<noteq> 0 \<longrightarrow> array_divisors_ok ci"
    using L [of "pp_cache_in_buf P" "pp_cache_in_buf_set P"] ok by blast
  obtain mb mi where m: "local_in_buf P info (pp_mc_in_port P) (pp_mc_class P) (pp_mc_in_buf P)
       (pp_mc_in_buf_rport P) (pp_mc_in_buf_set P) (ri_mc_in_buf_info info) = Some (mb, mi)" "mb \<noteq> 0 \<longrightarrow> array_divisors_ok mi"
    using L [of "pp_mc_in_buf P" "pp_mc_in_buf_set P"] ok by blast
  obtain ib ii where ii: "local_in_buf P info (pp_io_in_port P) (pp_io_class P) (pp_io_in_buf P)
       (pp_io_in_buf_rport P) (pp_io_in_buf_set P) (ri_io_in_buf_info info) = Some (ib, ii)" "ib \<noteq> 0 \<longrightarrow> array_divisors_ok ii"
    using L [of "pp_io_in_buf P" "pp_io_in_buf_set P"] ok by blast
  show ?thesis
    unfolding router_set_bufs_def i(1) o(1) c(1) m(1) ii(1) using i(2) o(2) c(2) m(2) ii(2) ok
    by (simp add: init_if_def)
qed

lemma set_arbs_Some:
  assumes "parm_ok P"
  shows "\<exists>info'. router_set_arbs P info = Some info' \<and> ri_in_arb_model info' \<noteq> QUEUE_ARBITER \<and> ri_out_arb_model info' \<noteq> QUEUE_ARBITER
    \<and> ri_crossbar_model info' = ri_crossbar_model info \<and> ri_connect_type info' = ri_connect_type info
    \<and> ri_in_buf info' = ri_in_buf info \<and> ri_in_buf_info info' = ri_in_buf_info info
    \<and> ri_cache_in_buf info' = ri_cache_in_buf info \<and> ri_cache_in_buf_info info' = ri_cache_in_buf_info info
    \<and> ri_mc_in_buf info' = ri_mc_in_buf info \<and> ri_mc_in_buf_info info' = ri_mc_in_buf_info info
    \<and> ri_io_in_buf info' = ri_io_in_buf info \<and> ri_io_in_buf_info info' = ri_io_in_buf_info info
    \<and> ri_out_buf info' = ri_out_buf info \<and> ri_out_buf_info info' = ri_out_buf_info info
    \<and> ri_central_buf info' = ri_central_buf info"
  using assms unfolding router_set_arbs_def Let_def init_if_def parm_ok_def
  by (simp add: SIM_NO_MODEL_def QUEUE_ARBITER_def)

lemma set_switch_simps:
  "ri_in_arb_model (router_set_switch info) = ri_in_arb_model info"
  "ri_out_arb_model (router_set_switch info) = ri_out_arb_model info"
  "ri_crossbar_model (router_set_switch info) = ri_crossbar_model info"
  "ri_connect_type (router_set_switch info) = ri_connect_type info"
  "ri_in_buf (router_set_switch info) = ri_in_buf info"
  "ri_in_buf_info (router_set_switch info) = ri_in_buf_info info"
  "ri_cache_in_buf (router_set_switch info) = ri_cache_in_buf info"
  "ri_cache_in_buf_info (router_set_switch info) = ri_cache_in_buf_info info"
  "ri_mc_in_buf (router_set_switch info) = ri_mc_in_buf info"
  "ri_mc_in_buf_info (router_set_switch info) = ri_mc_in_buf_info info"
  "ri_io_in_buf (router_set_switch info) = ri_io_in_buf info"
  "ri_io_in_buf_info (router_set_switch info) = ri_io_in_buf_info info"
  "ri_out_buf (router_set_switch info) = ri_out_buf info"
  "ri_out_buf_info (router_set_switch info) = ri_out_buf_info info"
  "ri_central_buf (router_set_switch info) = ri_central_buf info"
  by (simp_all add: router_set_switch_def Let_def)

text \<open>The initialisation of the router proper, part by part.\<close>

definition bufs_ok :: "('e, 's) SIM_power_router_info_t \<Rightarrow> bool" where
  "bufs_ok info \<longleftrightarrow> (ri_in_buf info \<noteq> 0 \<longrightarrow> array_divisors_ok (ri_in_buf_info info))
    \<and> (ri_cache_in_buf info \<noteq> 0 \<longrightarrow> array_divisors_ok (ri_cache_in_buf_info info))
    \<and> (ri_mc_in_buf info \<noteq> 0 \<longrightarrow> array_divisors_ok (ri_mc_in_buf_info info))
    \<and> (ri_io_in_buf info \<noteq> 0 \<longrightarrow> array_divisors_ok (ri_io_in_buf_info info))
    \<and> (ri_out_buf info \<noteq> 0 \<longrightarrow> array_divisors_ok (ri_out_buf_info info))"

lemma array_init_Some: "array_divisors_ok i \<Longrightarrow> \<exists>i' a'. SIM_array_power_init T i a = Some (i', a')"
  using array_power_init_defined [of T i a] by auto

lemma init_if_map:
  assumes "b \<longrightarrow> (\<exists>i a. f = Some (i, a))"
  shows "\<exists>i a. init_if b (\<lambda>(info, r). map_option (\<lambda>(i, a). (U i info, V a r)) f) (info, r) = Some (if b then (U i info, V a r) else (info, r))"
  using assms by (auto simp: init_if_def)

lemma buffers_init_Some:
  assumes "bufs_ok info"
  shows "\<exists>info' r'. router_buffers_init T (info, r) = Some (info', r') \<and> ri_central_buf info' = ri_central_buf info
    \<and> ri_in_arb_model info' = ri_in_arb_model info \<and> ri_out_arb_model info' = ri_out_arb_model info
    \<and> (if ri_in_buf info \<noteq> 0
       then \<exists>a. SIM_array_power_init T (ri_in_buf_info info) (rt_in_buf r) = Some (ri_in_buf_info info', a)
       else ri_in_buf_info info' = ri_in_buf_info info)"
proof -
  note ok = assms [unfolded bufs_ok_def]
  obtain i1 a1 where 1: "ri_in_buf info \<noteq> 0 \<longrightarrow> SIM_array_power_init T (ri_in_buf_info info) (rt_in_buf r) = Some (i1, a1)"
    using array_init_Some ok by blast
  obtain i2 a2 where 2: "ri_cache_in_buf info \<noteq> 0 \<longrightarrow> SIM_array_power_init T (ri_cache_in_buf_info info) (rt_cache_in_buf r) = Some (i2, a2)"
    using array_init_Some ok by blast
  obtain i3 a3 where 3: "ri_mc_in_buf info \<noteq> 0 \<longrightarrow> SIM_array_power_init T (ri_mc_in_buf_info info) (rt_mc_in_buf r) = Some (i3, a3)"
    using array_init_Some ok by blast
  obtain i4 a4 where 4: "ri_io_in_buf info \<noteq> 0 \<longrightarrow> SIM_array_power_init T (ri_io_in_buf_info info) (rt_io_in_buf r) = Some (i4, a4)"
    using array_init_Some ok by blast
  obtain i5 a5 where 5: "ri_out_buf info \<noteq> 0 \<longrightarrow> SIM_array_power_init T (ri_out_buf_info info) (rt_out_buf r) = Some (i5, a5)"
    using array_init_Some ok by blast
  show ?thesis
    unfolding router_buffers_init_def init_if_def
    by (cases "ri_in_buf info = 0"; cases "ri_cache_in_buf info = 0"; cases "ri_mc_in_buf info = 0";
        cases "ri_io_in_buf info = 0"; cases "ri_out_buf info = 0") (simp_all add: 1 2 3 4 5)
qed

lemma in_arbs_init_Some:
  assumes "ri_in_arb_model info \<noteq> QUEUE_ARBITER"
  shows "\<exists>info' r'. router_in_arbs_init T (info, r) = Some (info', r') \<and> ri_out_arb_model info' = ri_out_arb_model info
    \<and> ri_in_buf_info info' = ri_in_buf_info info"
proof (cases "ri_in_arb_model info = 0")
  case True
  then show ?thesis by (simp add: router_in_arbs_init_def init_if_def)
next
  case False
  let ?m = "ri_in_arb_model info" and ?f = "ri_in_arb_ff_model info"
  obtain a1 e1 where 1: "SIM_arbiter_init T (rt_in_arb r) ?m ?f (ri_n_v_class info) 0 (ri_in_arb_queue_info info) = Some (a1, ri_in_arb_queue_info info, e1)"
    using arbiter_init_Some [OF assms] by blast
  obtain a2 e2 where 2: "SIM_arbiter_init T (rt_cache_in_arb r) ?m ?f (ri_cache_class info) 0 (ri_cache_in_arb_queue_info info) = Some (a2, ri_cache_in_arb_queue_info info, e2)"
    using arbiter_init_Some [OF assms] by blast
  obtain a3 e3 where 3: "SIM_arbiter_init T (rt_mc_in_arb r) ?m ?f (ri_mc_class info) 0 (ri_mc_in_arb_queue_info info) = Some (a3, ri_mc_in_arb_queue_info info, e3)"
    using arbiter_init_Some [OF assms] by blast
  obtain a4 e4 where 4: "SIM_arbiter_init T (rt_io_in_arb r) ?m ?f (ri_io_class info) 0 (ri_io_in_arb_queue_info info) = Some (a4, ri_io_in_arb_queue_info info, e4)"
    using arbiter_init_Some [OF assms] by blast
  show ?thesis using False unfolding router_in_arbs_init_def init_if_def Let_def
    by (cases "ri_n_cache_in info = 0"; cases "ri_n_mc_in info = 0"; cases "ri_n_io_in info = 0") (simp_all add: 1 2 3 4)
qed


lemma SIM_router_power_init_Some:
  assumes "bufs_ok info" "ri_crossbar_model info = MATRIX_CROSSBAR" "ri_central_buf info = 0"
    "ri_connect_type info = TRANS_GATE \<or> ri_connect_type info = TRISTATE_GATE"
    "ri_in_arb_model info \<noteq> QUEUE_ARBITER" "ri_out_arb_model info \<noteq> QUEUE_ARBITER"
  shows "\<exists>info' r'. SIM_router_power_init T info r = Some (info', r')
    \<and> (if ri_in_buf info \<noteq> 0
       then \<exists>a a'. SIM_array_power_init T (ri_in_buf_info info) a = Some (ri_in_buf_info info', a')
       else ri_in_buf_info info' = ri_in_buf_info info)"
proof -
  obtain xb req where x: "SIM_crossbar_init T (rt_crossbar r) MATRIX_CROSSBAR (ri_n_switch_in info) (ri_n_switch_out info)
      (ri_flit_width info) (ri_degree info) (ri_connect_type info) (ri_trans_type info)
      (ri_crossbar_in_len info) (ri_crossbar_out_len info) = Some (xb, 0, Some req)"
    using crossbar_init_Some [OF assms(4)] by blast
  have 1: "router_crossbar_init T (info, r) = Some ((info, r\<lparr>rt_crossbar := xb\<rparr>), req)"
    unfolding router_crossbar_init_def assms(2) prod.case x by (simp add: MATRIX_CROSSBAR_def)
  obtain i2 r2 where 2: "router_buffers_init T (info, r\<lparr>rt_crossbar := xb\<rparr>) = Some (i2, r2)"
    "ri_central_buf i2 = ri_central_buf info" "ri_in_arb_model i2 = ri_in_arb_model info" "ri_out_arb_model i2 = ri_out_arb_model info"
    "if ri_in_buf info \<noteq> 0 then \<exists>a. SIM_array_power_init T (ri_in_buf_info info) (rt_in_buf (r\<lparr>rt_crossbar := xb\<rparr>)) = Some (ri_in_buf_info i2, a)
     else ri_in_buf_info i2 = ri_in_buf_info info"
    using buffers_init_Some [OF assms(1)] by blast
  have 3: "router_central_init T ((i2, r2), req) = Some ((i2, r2), req)"
    using 2(2) assms(3) by (simp add: router_central_init_def)
  obtain i4 r4 where 4: "router_in_arbs_init T (i2, r2) = Some (i4, r4)" "ri_out_arb_model i4 = ri_out_arb_model i2"
    "ri_in_buf_info i4 = ri_in_buf_info i2"
    using in_arbs_init_Some [of i2] 2(3) assms(5) by metis
  obtain a e where 5: "SIM_arbiter_init T (rt_out_arb r4) (ri_out_arb_model i4) (ri_out_arb_ff_model i4) (ri_n_total_in i4 - 1)
      req (ri_out_arb_queue_info i4) = Some (a, ri_out_arb_queue_info i4, e)"
    using arbiter_init_Some [of "ri_out_arb_model i4"] 4(2) 2(4) assms(6) by metis
  have "\<exists>i5 r5. router_out_arb_init T req (i4, r4) = Some (i5, r5) \<and> ri_in_buf_info i5 = ri_in_buf_info i4"
    by (simp add: router_out_arb_init_def init_if_def 5)
  then obtain i5 r5 where 6: "router_out_arb_init T req (i4, r4) = Some (i5, r5)" "ri_in_buf_info i5 = ri_in_buf_info i4" by blast
  have "SIM_router_power_init T info r = Some (i5, r5)"
    by (simp add: SIM_router_power_init_def 1 2(1) 3 4(1) 6(1))
  then show ?thesis using 2(5) 4(3) 6(2) by (auto split: if_splits)
qed

text \<open>A buffer access is defined exactly when the array has no row decoder.\<close>

lemma buf_read_defined:
  assumes "assoc info = 1"
  shows "(\<exists>arr'. SIM_buf_power_data_read info arr data = Some arr') \<longleftrightarrow> row_dec_model info = 0"
  using assms by (simp add: SIM_buf_power_data_read_def array_dec_null_def SIM_power_array_dec_def IS_FULLY_ASSOC_def Let_def)

lemma module_init_result:
  assumes "parm_ok P"
  shows "\<exists>info' r'. mainpe__power___SIM_router_power_init T P info r = Some (info', r')
    \<and> (pp_in_buf P \<noteq> 0 \<longrightarrow> assoc (ri_in_buf_info info') = 1
         \<and> row_dec_model (ri_in_buf_info info') = (if 1 < max (pp_v_channel P) (pp_v_class P) \<and> pp_in_share_buf P \<noteq> 0 then pp_row_dec_model P else 0))"
proof -
  obtain i1 where 1: "router_set_bufs P (router_set_general P info) = Some i1" "ri_central_buf i1 = 0"
    "ri_crossbar_model i1 = ri_crossbar_model (router_set_general P info)" "ri_connect_type i1 = ri_connect_type (router_set_general P info)"
    "ri_in_buf i1 = pp_in_buf P" "bufs_ok i1"
    "ri_in_buf i1 \<noteq> 0 \<longrightarrow> assoc (ri_in_buf_info i1) = 1 \<and> tag_mem_model (ri_in_buf_info i1) = 0 \<and> share_rw (ri_in_buf_info i1) = 0
      \<and> row_dec_model (ri_in_buf_info i1) = (if ri_in_share_buf (router_set_general P info) \<noteq> 0 then pp_row_dec_model P else 0)"
    using set_bufs_Some [OF assms, of "router_set_general P info"] unfolding bufs_ok_def by blast
  obtain i2 where 2: "router_set_arbs P i1 = Some i2" "ri_in_arb_model i2 \<noteq> QUEUE_ARBITER" "ri_out_arb_model i2 \<noteq> QUEUE_ARBITER"
    "ri_crossbar_model i2 = ri_crossbar_model i1" "ri_connect_type i2 = ri_connect_type i1" "ri_in_buf i2 = ri_in_buf i1"
    "ri_in_buf_info i2 = ri_in_buf_info i1" "ri_central_buf i2 = ri_central_buf i1" "bufs_ok i2"
    using set_arbs_Some [OF assms, of i1] 1(6) unfolding bufs_ok_def by (metis (no_types, lifting))
  let ?i = "router_set_switch i2"
  have "bufs_ok ?i" using 2(9) by (simp add: bufs_ok_def set_switch_simps)
  then obtain i3 r3 where 3: "SIM_router_power_init T ?i r = Some (i3, r3)"
    "if ri_in_buf ?i \<noteq> 0 then \<exists>a a'. SIM_array_power_init T (ri_in_buf_info ?i) a = Some (ri_in_buf_info i3, a')
     else ri_in_buf_info i3 = ri_in_buf_info ?i"
    using SIM_router_power_init_Some [of ?i T r] 1 2 assms by (auto simp: set_switch_simps set_general_simps parm_ok_def)
  have v: "max (max (pp_v_channel P) 1) (pp_v_class P) > 1 \<longleftrightarrow> 1 < max (pp_v_channel P) (pp_v_class P)" by (auto simp: max_def)
  have "mainpe__power___SIM_router_power_init T P info r = Some (i3, r3)"
    by (simp add: mainpe__power___SIM_router_power_init_def 1(1) 2(1) 3(1))
  moreover have "assoc (ri_in_buf_info i3) = 1
      \<and> row_dec_model (ri_in_buf_info i3) = (if 1 < max (pp_v_channel P) (pp_v_class P) \<and> pp_in_share_buf P \<noteq> 0 then pp_row_dec_model P else 0)"
    if nz: "pp_in_buf P \<noteq> 0"
  proof -
    obtain a a' where "SIM_array_power_init T (ri_in_buf_info i1) a = Some (ri_in_buf_info i3, a')"
      using 3(2) nz unfolding set_switch_simps 2(6,7) 1(5) by auto
    from array_init_keeps [OF this] 1(5,7) nz obtain w h where
      "ri_in_buf_info i3 = (ri_in_buf_info i1)\<lparr>data_arr_width := w, tag_arr_width := 0, data_arr_height := h, tag_arr_height := 0\<rparr>" by auto
    then show ?thesis using 1(5,7) nz v by (auto simp: set_general_simps)
  qed
  ultimately show ?thesis by blast
qed


lemma buf_read_result:
  assumes "row_dec_model info = 0" "tag_mem_model info = 0" "data_end info = 2" "assoc info = 1" "bl_end (data_bitline arr) = 2"
  shows "SIM_buf_power_data_read info arr data = Some (arr\<lparr>
     data_bitline_pre := SIM_array_pre_record (data_bitline_pre arr) (ucast (blk_bits info)),
     data_wordline := SIM_array_wordline_record (data_wordline arr) 0 (ucast (data_ndwl info)),
     data_bitline := (data_bitline arr)\<lparr>bl_n_col_read := bl_n_col_read (data_bitline arr) + ucast (eff_data_cols info)\<rparr>,
     data_amp := SIM_array_amp_record (data_amp arr) (eff_data_cols info)\<rparr>)"
  using assms
  by (simp add: SIM_buf_power_data_read_def array_dec_null_def SIM_power_array_dec_def IS_FULLY_ASSOC_def HAVE_TAG_def
      SIM_power_array_data_read_def SIM_array_bitline_record_def SIM_ARRAY_READ_def Let_def)

lemma dbl64_add: "unat a + unat b < 2 ^ 64 \<Longrightarrow> dbl64 (a + b) = dbl64 a + dbl64 b"
  by (simp add: unat_add_no_overflow)

section \<open>Properties\<close>

text \<open>
  For every parameter set with a matrix crossbar of known connection, no central buffer, no
  queuing arbiter and non-empty buffers, module initialisation is free of undefined behaviour,
  whatever the structures held before. Reads of the input buffer through the module's wrapper are
  defined afterwards, whatever the counters are, exactly when the buffer got no row decoder, that is
  unless virtual channels share it.
\<close>

theorem router_module_init_defined:
  "parm_ok P \<Longrightarrow>
   \<exists>info' r'. mainpe__power___SIM_router_power_init T P info r = Some (info', r') \<and>
     (pp_in_buf P \<noteq> 0 \<longrightarrow> (\<forall>arr data. (\<exists>arr'. SIM_buf_power_data_read (ri_in_buf_info info') arr data = Some arr')
        \<longleftrightarrow> \<not> (1 < max (pp_v_channel P) (pp_v_class P) \<and> pp_in_share_buf P \<noteq> 0 \<and> pp_row_dec_model P \<noteq> 0)))"
proof -
  assume "parm_ok P"
  from module_init_result [OF this] obtain info' r' where r: "mainpe__power___SIM_router_power_init T P info r = Some (info', r')"
    "pp_in_buf P \<noteq> 0 \<longrightarrow> assoc (ri_in_buf_info info') = 1
         \<and> row_dec_model (ri_in_buf_info info') = (if 1 < max (pp_v_channel P) (pp_v_class P) \<and> pp_in_share_buf P \<noteq> 0 then pp_row_dec_model P else 0)"
    by blast
  then show ?thesis using buf_read_defined [of "ri_in_buf_info info'"] by auto
qed

theorem router_module_init_defined_witness:
  "\<exists>info' r'. mainpe__power___SIM_router_power_init build_tech SIM_port zero_router_info zero_router = Some (info', r')
     \<and> (\<exists>arr'. SIM_buf_power_data_read (ri_in_buf_info info') zero_array 255 = Some arr')"
proof -
  have "parm_ok SIM_port" by (simp add: parm_ok_def SIM_port_def MATRIX_ARBITER_def QUEUE_ARBITER_def)
  from router_module_init_defined [OF this, of build_tech zero_router_info zero_router] show ?thesis
    by (auto simp: SIM_port_def)
qed

text \<open>
  A read of a double-ended router buffer without row decoder is charged for one wordline, and
  for the precharge, the bitline swing and the sense amplifier of each column: the buffer's report
  grows by exactly these energies, unless a counter wraps.
\<close>

theorem SIM_buf_power_data_read_energy:
  "row_dec_model info = 0 \<Longrightarrow> tag_mem_model info = 0 \<Longrightarrow> data_end info = 2 \<Longrightarrow> assoc info = 1 \<Longrightarrow>
   bl_end (data_bitline arr) = 2 \<Longrightarrow> data_ndwl info = 1 \<Longrightarrow>
   data_wordline_model info \<noteq> 0 \<Longrightarrow> data_bitline_model info \<noteq> 0 \<Longrightarrow> data_bitline_pre_model info \<noteq> 0 \<Longrightarrow> data_amp_model info \<noteq> 0 \<Longrightarrow>
   no_wrap [pre_n_charge (data_bitline_pre arr), wl_n_read (data_wordline arr), bl_n_col_read (data_bitline arr), amp_n_access (data_amp arr)]
     [ucast (blk_bits info), 1, ucast (eff_data_cols info), ucast (eff_data_cols info)] \<Longrightarrow>
   \<exists>arr'. SIM_buf_power_data_read info arr data = Some arr' \<and>
     SIM_array_power_report info arr' = SIM_array_power_report info arr
       + dbl32 (blk_bits info) * pre_e_charge (data_bitline_pre arr) + wl_e_read (data_wordline arr)
       + dbl32 (eff_data_cols info) * (bl_e_col_read (data_bitline arr) + amp_e_access (data_amp arr))"
proof -
  assume a: "row_dec_model info = 0" "tag_mem_model info = 0" "data_end info = 2" "assoc info = 1" "bl_end (data_bitline arr) = 2"
    "data_ndwl info = 1" "data_wordline_model info \<noteq> 0" "data_bitline_model info \<noteq> 0" "data_bitline_pre_model info \<noteq> 0"
    "data_amp_model info \<noteq> 0"
    "no_wrap [pre_n_charge (data_bitline_pre arr), wl_n_read (data_wordline arr), bl_n_col_read (data_bitline arr), amp_n_access (data_amp arr)]
      [ucast (blk_bits info), 1, ucast (eff_data_cols info), ucast (eff_data_cols info)]"
  have w: "unat (pre_n_charge (data_bitline_pre arr)) + unat (ucast (blk_bits info) :: u64) < 2 ^ 64"
    "unat (wl_n_read (data_wordline arr)) + unat (1 :: u64) < 2 ^ 64"
    "unat (bl_n_col_read (data_bitline arr)) + unat (ucast (eff_data_cols info) :: u64) < 2 ^ 64"
    "unat (amp_n_access (data_amp arr)) + unat (ucast (eff_data_cols info) :: u64) < 2 ^ 64"
    using a(11) unfolding no_wrap_def by simp_all
  have n: "dbl64 (pre_n_charge (data_bitline_pre arr) + ucast (blk_bits info)) = dbl64 (pre_n_charge (data_bitline_pre arr)) + dbl32 (blk_bits info)"
    "dbl64 (wl_n_read (data_wordline arr) + 1) = dbl64 (wl_n_read (data_wordline arr)) + 1"
    "dbl64 (bl_n_col_read (data_bitline arr) + ucast (eff_data_cols info)) = dbl64 (bl_n_col_read (data_bitline arr)) + dbl32 (eff_data_cols info)"
    "dbl64 (amp_n_access (data_amp arr) + ucast (eff_data_cols info)) = dbl64 (amp_n_access (data_amp arr)) + dbl32 (eff_data_cols info)"
    using dbl64_add [OF w(1)] dbl64_add [OF w(2)] dbl64_add [OF w(3)] dbl64_add [OF w(4)] by (simp_all add: unat_ucast_32_64)
  have one: "(ucast (1 :: u32) :: u64) = 1" by simp
  show ?thesis
    unfolding buf_read_result [OF a(1-5)] SIM_array_power_report_def SIM_array_pre_report_def SIM_array_wordline_report_def
      SIM_array_bitline_report_def SIM_array_amp_report_def SIM_array_pre_record_def SIM_array_wordline_record_def SIM_array_amp_record_def
    using a(6-10) by (simp add: n one ring_distribs split del: if_split cong: if_cong)
qed


theorem SIM_buf_power_data_read_energy_witness:
  "\<exists>arr'. SIM_buf_power_data_read (zero_info\<lparr>data_end := 2, assoc := 1, data_ndwl := 1, blk_bits := 128, eff_data_cols := 128,
        data_wordline_model := 1, data_bitline_model := 1, data_bitline_pre_model := 1, data_amp_model := 1\<rparr>)
       (zero_array\<lparr>data_bitline := zero_bitline\<lparr>bl_end := 2, bl_e_col_read := 3\<rparr>, data_amp := zero_amp\<lparr>amp_e_access := 2\<rparr>,
          data_wordline := zero_wordline\<lparr>wl_e_read := 7\<rparr>\<rparr>) 0 = Some arr'
     \<and> SIM_array_power_report (zero_info\<lparr>data_end := 2, assoc := 1, data_ndwl := 1, blk_bits := 128, eff_data_cols := 128,
        data_wordline_model := 1, data_bitline_model := 1, data_bitline_pre_model := 1, data_amp_model := 1\<rparr>) arr' = 647"
proof -
  let ?i = "zero_info\<lparr>data_end := 2, assoc := 1, data_ndwl := 1, blk_bits := 128, eff_data_cols := 128,
        data_wordline_model := 1, data_bitline_model := 1, data_bitline_pre_model := 1, data_amp_model := 1\<rparr>"
  let ?a = "zero_array\<lparr>data_bitline := zero_bitline\<lparr>bl_end := 2, bl_e_col_read := 3\<rparr>, data_amp := zero_amp\<lparr>amp_e_access := 2\<rparr>,
          data_wordline := zero_wordline\<lparr>wl_e_read := 7\<rparr>\<rparr>"
  note z = zero_info_def zero_array_def zero_bitline_def zero_amp_def zero_wordline_def zero_pre_def
  have nw: "no_wrap [pre_n_charge (data_bitline_pre ?a), wl_n_read (data_wordline ?a), bl_n_col_read (data_bitline ?a), amp_n_access (data_amp ?a)]
      [ucast (blk_bits ?i), 1, ucast (eff_data_cols ?i), ucast (eff_data_cols ?i)]"
    by (simp add: no_wrap_def z)
  have "SIM_array_power_report ?i ?a = 0"
    by (simp add: SIM_array_power_report_def report_simps z zero_mem_def)
  with SIM_buf_power_data_read_energy [OF _ _ _ _ _ _ _ _ _ _ nw, of 0] show ?thesis
    by (simp add: z)
qed

text \<open>
  The register file's write wrapper copies eight bytes into the data line of the port, which
  is a four-byte integer: the four bytes behind it are overwritten with the upper half of the new
  value.
\<close>

theorem SIM_reg_power_data_write_overruns:
  "assoc info = 1 \<Longrightarrow> share_rw info = 0 \<Longrightarrow> \<forall>i j. i < 8 \<longrightarrow> j < 8 \<longrightarrow> line + i \<noteq> new_data + j \<Longrightarrow>
   \<exists>arr' m'. SIM_reg_power_data_write info arr line old_data new_data m = Some (arr', m') \<and>
     (\<forall>i < sizeof_max_uint - sizeof_int. m' (line + sizeof_int + i) = m (new_data + sizeof_int + i))"
proof -
  assume a: "assoc info = 1" "share_rw info = 0" "\<forall>i j. i < 8 \<longrightarrow> j < 8 \<longrightarrow> line + i \<noteq> new_data + j"
  then have f: "\<not> IS_FULLY_ASSOC info" by (simp add: IS_FULLY_ASSOC_def)
  have m: "snd (write_bitlines line new_data 0 8 b m) =
     (\<lambda>a. if line \<le> a \<and> a < line + 8 then m (new_data + (a - line)) else m a)" for b
    using write_bitlines_memory [of 0 8 line new_data b m] a(3) by simp
  show ?thesis using f
    by (simp add: SIM_reg_power_data_write_def data_write_separate [OF f a(2)] Let_def m sizeof_max_uint_def sizeof_int_def add.assoc)
qed

theorem SIM_reg_power_data_write_overruns_witness:
  "\<exists>arr' m'. SIM_reg_power_data_write (zero_info\<lparr>assoc := 1\<rparr>) zero_array 0 100 200 (\<lambda>a. if a < 200 then 0 else 255) = Some (arr', m')
     \<and> m' 7 = 255"
proof -
  from SIM_reg_power_data_write_overruns [of "zero_info\<lparr>assoc := 1\<rparr>" 0 200 zero_array 100 "\<lambda>a. if a < 200 then 0 else 255"]
  obtain arr' m' where "SIM_reg_power_data_write (zero_info\<lparr>assoc := 1\<rparr>) zero_array 0 100 200 (\<lambda>a. if a < 200 then 0 else 255) = Some (arr', m')"
    "\<forall>i < sizeof_max_uint - sizeof_int. m' (sizeof_int + i) = 255"
    by (auto simp: zero_info_def)
  moreover from this(2) have "m' (sizeof_int + 3) = 255" by (rule spec [of _ 3, THEN mp]) (simp add: sizeof_max_uint_def sizeof_int_def)
  ultimately show ?thesis by (simp add: sizeof_int_def)
qed

text \<open>
  The register file's output wrapper passes no table of stored values, although every array
  that is not fully associative reads it: the call is never defined after initialisation.
\<close>

theorem SIM_reg_power_output_undefined:
  "SIM_reg_power_init T P info arr read_port write_port = Some (info', arr', rp, wp) \<Longrightarrow>
   SIM_reg_power_output info' arr'' data m = None"
proof -
  assume "SIM_reg_power_init T P info arr read_port write_port = Some (info', arr', rp, wp)"
  then obtain i where i: "reg_set_para P info = Some i" "SIM_array_power_init T i arr = Some (info', arr')"
    by (auto simp: SIM_reg_power_init_def bind_eq_Some_conv)
  then have "assoc i = 1" "n_item i \<noteq> 0" "tag_mem_model i = 0" "share_rw i = 0"
    by (auto simp: reg_set_para_def SIM_NO_MODEL_def div_word_self split: if_splits)
  then have "assoc info' = 1" "n_item info' \<noteq> 0" using array_init_keeps [OF i(2)] by auto
  then show ?thesis by (simp add: SIM_reg_power_output_def IS_FULLY_ASSOC_def)
qed

theorem SIM_reg_power_output_undefined_witness:
  "\<exists>info' arr'. SIM_reg_power_init build_tech SIM_port zero_info zero_array None None = Some (info', arr', None, None)
     \<and> SIM_reg_power_output info' arr' 0 (\<lambda>a. 0) = None"
proof -
  obtain i where i: "reg_set_para SIM_port zero_info = Some i" "array_divisors_ok i"
    by (simp add: reg_set_para_def SIM_port_def array_divisors_ok_def SIM_NO_MODEL_def zero_info_def)
  then obtain info' arr' where "SIM_reg_power_init build_tech SIM_port zero_info zero_array None None = Some (info', arr', None, None)"
    using array_init_Some [OF i(2), of build_tech zero_array] by (auto simp: SIM_reg_power_init_def)
  then show ?thesis using SIM_reg_power_output_undefined by blast
qed

end
