(* ===== verification/Orion_Permu.thy ===== *)
theory Orion_Permu
  imports Orion_Misc "HOL-Library.Monad_Syntax"
begin

unbundle bit_operations_syntax

text \<open>
  The two permutation units of \<^verbatim>\<open>SIM_power_permu.c\<close>: OMFLIP, four omega and flip stages controlled by
  two control words, and GRP, a tree that groups the bits selected by a control word. The models
  keep the data path of the units, since their energies depend on the values of the internal nodes.
\<close>

section \<open>OMFLIP\<close>

definition OMFLIP_PERMU :: int where
  "OMFLIP_PERMU = 1"

definition GRP_PERMU :: int where
  "GRP_PERMU = 2"

definition FIRST_STG :: u32 where
  "FIRST_STG = 0x01"

definition SECOND_STG :: u32 where
  "SECOND_STG = 0x02"

definition THIRD_STG :: u32 where
  "THIRD_STG = 0x04"

definition FOURTH_STG :: u32 where
  "FOURTH_STG = 0x08"

definition ALL_PASS :: u32 where
  "ALL_PASS = 0x0F"

definition is_omega :: "u32 \<Rightarrow> bool" where
  "is_omega x \<longleftrightarrow> x = 0"

definition is_flip :: "u32 \<Rightarrow> bool" where
  "is_flip x \<longleftrightarrow> x \<noteq> 0"

record SIM_power_omflip_t =
  om_data_width :: u32
  om_n_chg_in :: u64
  om_n_chg_out :: u64
  om_n_chg_stg :: u64
  om_n_chg_int :: u64
  om_n_chg_pass :: u64
  om_n_chg_ctr :: u64
  om_e_chg_in :: real
  om_e_chg_out :: real
  om_e_chg_stg :: real
  om_e_chg_int :: real
  om_e_chg_pass :: real
  om_e_chg_ctr :: real
  om_in :: u64
  om_out :: u64
  om_stg :: "u64 list"
  om_inn :: "u64 list"
  om_pass :: u32
  om_ctr :: "u64 list"
  om_data_mask :: u64
  om_ctr_mask :: u64

definition WomfPASSn :: "tech \<Rightarrow> real" where
  "WomfPASSn T = 6 * Lamda T"

definition WomfPASSp :: "tech \<Rightarrow> real" where
  "WomfPASSp T = 6 * Lamda T"

definition WomfNOTn :: "tech \<Rightarrow> real" where
  "WomfNOTn T = 3 * Lamda T"

definition WomfNOTp :: "tech \<Rightarrow> real" where
  "WomfNOTp T = 6 * Lamda T"

definition SIM_omflip_out_cap :: "tech \<Rightarrow> real" where
  "SIM_omflip_out_cap T =
     (SIM_power_draincap T (WomfPASSn T) NCH 1 + SIM_power_draincap T (WomfPASSp T) PCH 1)
     + (SIM_power_draincap T (WomfNOTn T) NCH 1 + SIM_power_draincap T (WomfNOTp T) PCH 1
        + SIM_power_gatecap T (WomfNOTn T + WomfNOTp T) 0)"

definition SIM_omflip_in_cap :: "tech \<Rightarrow> real \<Rightarrow> real" where
  "SIM_omflip_in_cap T len =
     (SIM_power_draincap T (WomfNOTn T) NCH 1 + SIM_power_draincap T (WomfNOTp T) PCH 1
      + SIM_power_gatecap T (WomfNOTn T + WomfNOTp T) 0)
     + CCmetal T * len
     + (2 * SIM_power_draincap T (WomfPASSn T) NCH 1 + SIM_power_draincap T (WomfPASSp T) PCH 1)"

definition SIM_omflip_stg_cap :: "tech \<Rightarrow> real \<Rightarrow> real" where
  "SIM_omflip_stg_cap T len =
     (SIM_power_draincap T (WomfPASSn T) NCH 1 + SIM_power_draincap T (WomfPASSp T) PCH 1)
     + (SIM_power_draincap T (WomfNOTn T) NCH 1 + SIM_power_draincap T (WomfNOTp T) PCH 1
        + SIM_power_gatecap T (WomfNOTn T + WomfNOTp T) 0)
     + CCmetal T * len
     + (2 * SIM_power_draincap T (WomfPASSn T) NCH 1 + SIM_power_draincap T (WomfPASSp T) PCH 1)"

definition SIM_omflip_int_cap :: "tech \<Rightarrow> real" where
  "SIM_omflip_int_cap T =
     (SIM_power_draincap T (WomfNOTn T) NCH 1 + SIM_power_draincap T (WomfNOTp T) PCH 1
      + SIM_power_gatecap T (WomfNOTn T + WomfNOTp T) 0)
     + (SIM_power_draincap T (WomfPASSn T) NCH 1 + 2 * SIM_power_draincap T (WomfPASSp T) PCH 1)"

definition SIM_omflip_ctr_cap :: "tech \<Rightarrow> u32 \<Rightarrow> real \<Rightarrow> real" where
  "SIM_omflip_ctr_cap T n_ctr len = dbl32 n_ctr * SIM_power_gatecap T (WomfPASSn T + WomfPASSp T) 0 + CCmetal T * len"

definition SIM_omflip_reset :: "SIM_power_omflip_t \<Rightarrow> SIM_power_omflip_t" where
  "SIM_omflip_reset om = om\<lparr>om_pass := ALL_PASS, om_ctr := [0, 0, 0, 0], om_in := 0, om_out := 0,
     om_stg := [0, 0, 0], om_inn := [0, 0, 0, 0]\<rparr>"

text \<open>The loop that interleaves the two halves, from bit \<open>i\<close> on with \<open>n\<close> bits to go.\<close>

fun omega_mangle :: "nat \<Rightarrow> nat \<Rightarrow> u64 \<Rightarrow> u64 \<Rightarrow> u64 \<Rightarrow> u64" where
  "omega_mangle i 0 low_out high_out rval = rval"
| "omega_mangle i (Suc n) low_out high_out rval =
     omega_mangle (Suc i) n (drop_bit 1 low_out) (drop_bit 1 high_out)
       (rval + (push_bit (i + i) (low_out AND 1) OR push_bit (i + i + 1) (high_out AND 1)))"

definition SIM_omflip_omega :: "u64 \<Rightarrow> nat \<Rightarrow> u64 \<Rightarrow> bool \<Rightarrow> u64 \<Rightarrow> u64" where
  "SIM_omflip_omega inp width msk pass ctr =
     (if pass then inp
      else (let low_in = inp AND msk;
                high_in = drop_bit width inp AND msk;
                low_out = (low_in AND NOT ctr) OR (high_in AND ctr);
                high_out = (low_in AND ctr) OR (high_in AND NOT ctr)
            in omega_mangle 0 width low_out high_out 0))"

text \<open>The loop that separates even and odd bits.\<close>

fun flip_split :: "nat \<Rightarrow> nat \<Rightarrow> u64 \<Rightarrow> u64 \<Rightarrow> u64 \<Rightarrow> u64 \<times> u64" where
  "flip_split i 0 inp low_in high_in = (low_in, high_in)"
| "flip_split i (Suc n) inp low_in high_in =
     flip_split (Suc i) n (drop_bit 1 (drop_bit 1 inp))
       (low_in + push_bit i (inp AND 1)) (high_in + push_bit i (drop_bit 1 inp AND 1))"

definition SIM_omflip_flip :: "u64 \<Rightarrow> nat \<Rightarrow> bool \<Rightarrow> u64 \<Rightarrow> u64" where
  "SIM_omflip_flip inp width pass ctr =
     (if pass then inp
      else (let (low_in, high_in) = flip_split 0 width inp 0 0;
                low_out = (low_in AND NOT ctr) OR (high_in AND ctr);
                high_out = (low_in AND ctr) OR (high_in AND NOT ctr)
            in low_out + push_bit width high_out))"

text \<open>
  One record. An active stage counts the switching of its control lines and internal nodes and
  latches them; every stage counts the switching of its output node.
\<close>

definition omflip_active :: "nat \<Rightarrow> u64 \<Rightarrow> u64 \<Rightarrow> SIM_power_omflip_t \<Rightarrow> SIM_power_omflip_t" where
  "omflip_active k ctr stg om =
     om\<lparr>om_n_chg_ctr := om_n_chg_ctr om + ucast (SIM_power_Hamming ctr (om_ctr om ! k) (om_ctr_mask om)),
        om_n_chg_int := om_n_chg_int om + ucast (SIM_power_Hamming stg (om_inn om ! k) (om_data_mask om)),
        om_ctr := (om_ctr om)[k := ctr], om_inn := (om_inn om)[k := stg]\<rparr>"

definition omflip_node :: "nat \<Rightarrow> u64 \<Rightarrow> SIM_power_omflip_t \<Rightarrow> SIM_power_omflip_t" where
  "omflip_node k stg om =
     om\<lparr>om_n_chg_stg := om_n_chg_stg om + ucast (SIM_power_Hamming stg (om_stg om ! k) (om_data_mask om)),
        om_stg := (om_stg om)[k := stg]\<rparr>"

definition SIM_omflip_record :: "SIM_power_omflip_t \<Rightarrow> u64 \<Rightarrow> u32 \<Rightarrow> u64 \<Rightarrow> int \<Rightarrow> SIM_power_omflip_t" where
  "SIM_omflip_record omflip inp mode op reset =
     (let om = (if reset \<noteq> 0 then SIM_omflip_reset omflip else omflip);
          w = unat (om_data_width om div 2); cm = om_ctr_mask om;
          lo = op AND cm; hi = drop_bit w op AND cm;
          f1 = is_flip (mode AND FIRST_STG); f2 = is_flip (mode AND SECOND_STG);
          \<comment> \<open>first stage\<close>
          om = (if \<not> f1 then omflip_active 0 lo inp om else om);
          p1 = (if \<not> f1 then 0 else FIRST_STG);
          s1 = (if \<not> f1 then SIM_omflip_omega inp w cm False lo else SIM_omflip_omega inp w cm True 0);
          om = om\<lparr>om_n_chg_in := om_n_chg_in om + ucast (SIM_power_Hamming inp (om_in om) (om_data_mask om)), om_in := inp\<rparr>;
          om = omflip_node 0 s1 om;
          \<comment> \<open>second stage\<close>
          c2 = (if f1 then lo else hi);
          om = (if f1 \<or> f2 then omflip_active 1 c2 s1 om else om);
          p2 = (if f1 \<or> f2 then 0 else SECOND_STG);
          s2 = (if f1 \<or> f2 then SIM_omflip_flip s1 w False c2 else SIM_omflip_flip s1 w True 0);
          om = omflip_node 1 s2 om;
          \<comment> \<open>third stage\<close>
          om = (if f1 \<and> f2 then omflip_active 2 hi s2 om else om);
          p3 = (if f1 \<and> f2 then 0 else THIRD_STG);
          s3 = (if f1 \<and> f2 then SIM_omflip_flip s2 w False hi else SIM_omflip_flip s2 w True 0);
          om = omflip_node 2 s3 om;
          \<comment> \<open>fourth stage\<close>
          om = (if \<not> f2 then omflip_active 3 hi s3 om else om);
          p4 = (if \<not> f2 then 0 else FOURTH_STG);
          s4 = (if \<not> f2 then SIM_omflip_omega s3 w cm False hi else SIM_omflip_omega s3 w cm True 0);
          pass = p1 OR p2 OR p3 OR p4
      in om\<lparr>om_n_chg_out := om_n_chg_out om + ucast (SIM_power_Hamming s4 (om_out om) (om_data_mask om)), om_out := s4,
            om_n_chg_pass := om_n_chg_pass om + ucast (SIM_power_Hamming (ucast pass) (ucast (om_pass om)) (ucast ALL_PASS)),
            om_pass := pass\<rparr>)"

text \<open>
  The test variant counts one transition from the latched state without latching anything. The
  counters are assigned at their first use; those of the control lines and internal nodes are
  first used in the first stage, when it is active.
\<close>

definition omflip_count :: "nat \<Rightarrow> u64 \<Rightarrow> u64 \<Rightarrow> SIM_power_omflip_t \<Rightarrow> SIM_power_omflip_t" where
  "omflip_count k ctr stg om =
     om\<lparr>om_n_chg_ctr := om_n_chg_ctr om + ucast (SIM_power_Hamming ctr (om_ctr om ! k) (om_ctr_mask om)),
        om_n_chg_int := om_n_chg_int om + ucast (SIM_power_Hamming stg (om_inn om ! k) (om_data_mask om))\<rparr>"

definition SIM_omflip_record_test :: "SIM_power_omflip_t \<Rightarrow> u64 \<Rightarrow> u32 \<Rightarrow> u64 \<Rightarrow> SIM_power_omflip_t \<times> u64" where
  "SIM_omflip_record_test om inp mode op =
     (let w = unat (om_data_width om div 2); cm = om_ctr_mask om; dm = om_data_mask om;
          lo = op AND cm; hi = drop_bit w op AND cm;
          f1 = is_flip (mode AND FIRST_STG); f2 = is_flip (mode AND SECOND_STG);
          om = (if \<not> f1
                then om\<lparr>om_n_chg_ctr := ucast (SIM_power_Hamming lo (om_ctr om ! 0) cm),
                        om_n_chg_int := ucast (SIM_power_Hamming inp (om_inn om ! 0) dm)\<rparr>
                else om);
          p1 = (if \<not> f1 then 0 else FIRST_STG);
          s1 = (if \<not> f1 then SIM_omflip_omega inp w cm False lo else SIM_omflip_omega inp w cm True 0);
          om = om\<lparr>om_n_chg_in := ucast (SIM_power_Hamming inp (om_in om) dm),
                  om_n_chg_stg := ucast (SIM_power_Hamming s1 (om_stg om ! 0) dm)\<rparr>;
          c2 = (if f1 then lo else hi);
          om = (if f1 \<or> f2 then omflip_count 1 c2 s1 om else om);
          p2 = (if f1 \<or> f2 then 0 else SECOND_STG);
          s2 = (if f1 \<or> f2 then SIM_omflip_flip s1 w False c2 else SIM_omflip_flip s1 w True 0);
          om = om\<lparr>om_n_chg_stg := om_n_chg_stg om + ucast (SIM_power_Hamming s2 (om_stg om ! 1) dm)\<rparr>;
          om = (if f1 \<and> f2 then omflip_count 2 hi s2 om else om);
          p3 = (if f1 \<and> f2 then 0 else THIRD_STG);
          s3 = (if f1 \<and> f2 then SIM_omflip_flip s2 w False hi else SIM_omflip_flip s2 w True 0);
          om = om\<lparr>om_n_chg_stg := om_n_chg_stg om + ucast (SIM_power_Hamming s3 (om_stg om ! 2) dm)\<rparr>;
          om = (if \<not> f2 then omflip_count 3 hi s3 om else om);
          p4 = (if \<not> f2 then 0 else FOURTH_STG);
          s4 = (if \<not> f2 then SIM_omflip_omega s3 w cm False hi else SIM_omflip_omega s3 w cm True 0);
          pass = p1 OR p2 OR p3 OR p4
      in (om\<lparr>om_n_chg_out := ucast (SIM_power_Hamming s4 (om_out om) dm),
             om_n_chg_pass := ucast (SIM_power_Hamming (ucast pass) (ucast (om_pass om)) (ucast ALL_PASS))\<rparr>, s4))"


section \<open>GRP\<close>

definition N_ONEHOT :: nat where
  "N_ONEHOT = 32 + 16 + 8 + 4 + 2 + 1"

record SIM_power_grp_t =
  gr_data_width :: u32
  gr_n_chg_in :: u64
  gr_n_chg_zin :: "u64 list"
  gr_n_chg_lin :: "u64 list"
  gr_n_chg_rin :: "u64 list"
  gr_n_chg_oin :: u64
  gr_n_chg_out :: u64
  gr_e_chg_in :: real
  gr_e_chg_zin :: "real list"
  gr_e_chg_lin :: "real list"
  gr_e_chg_rin :: "real list"
  gr_e_chg_oin :: real
  gr_e_chg_out :: real
  gr_in :: u64
  gr_zin :: "u64 list"
  gr_win :: "u64 list"
  gr_lin :: "u32 list"
  gr_rin :: "u32 list"
  gr_zoin :: u64
  gr_woin :: u64
  gr_out :: u64
  gr_n_stg :: u32
  gr_mask :: u64

definition WgrpL1NOTn :: "tech \<Rightarrow> real" where
  "WgrpL1NOTn T = 3 * Lamda T"

definition WgrpL1NOTp :: "tech \<Rightarrow> real" where
  "WgrpL1NOTp T = 6 * Lamda T"

definition WgrpL2NOTn :: "tech \<Rightarrow> real" where
  "WgrpL2NOTn T = 9 * Lamda T"

definition WgrpL2NOTp :: "tech \<Rightarrow> real" where
  "WgrpL2NOTp T = 18 * Lamda T"

definition WgrpL3NOTn :: "tech \<Rightarrow> real" where
  "WgrpL3NOTn T = 27 * Lamda T"

definition WgrpL3NOTp :: "tech \<Rightarrow> real" where
  "WgrpL3NOTp T = 54 * Lamda T"

definition WgrpL4NOTn :: "tech \<Rightarrow> real" where
  "WgrpL4NOTn T = 81 * Lamda T"

definition WgrpL4NOTp :: "tech \<Rightarrow> real" where
  "WgrpL4NOTp T = 162 * Lamda T"

definition WgrpPASSn :: "tech \<Rightarrow> real" where
  "WgrpPASSn T = 6 * Lamda T"

definition WgrpPASSp :: "tech \<Rightarrow> real" where
  "WgrpPASSp T = 6 * Lamda T"

definition Wgrp2NANDn :: "tech \<Rightarrow> real" where
  "Wgrp2NANDn T = 3 * Lamda T"

definition Wgrp2NANDp :: "tech \<Rightarrow> real" where
  "Wgrp2NANDp T = 3 * Lamda T"

definition Wgrp2NORn :: "tech \<Rightarrow> real" where
  "Wgrp2NORn T = 3 * Lamda T"

definition Wgrp2NORp :: "tech \<Rightarrow> real" where
  "Wgrp2NORp T = 12 * Lamda T"

text \<open>The stages are numbered from 1, at most 7 here; \<open>grp_track k\<close> is \<^verbatim>\<open>(1 << k) + 1\<close>.\<close>

definition grp_track :: "nat \<Rightarrow> real" where
  "grp_track k = 2 ^ k + 1"

definition grp_pass_cap :: "tech \<Rightarrow> real" where
  "grp_pass_cap T = SIM_power_draincap T (WgrpPASSn T) NCH 1 + SIM_power_draincap T (WgrpPASSp T) PCH 1"

definition grp_prev_cap :: "tech \<Rightarrow> nat \<Rightarrow> real" where
  "grp_prev_cap T stg =
     grp_track (stg - 2) * 2 * WordlineSpacing T * CCmetal T + grp_track (stg - 2) * grp_pass_cap T"

definition SIM_grp_in_cap :: "tech \<Rightarrow> real" where
  "SIM_grp_in_cap T = 2 * SIM_power_gatecap T (Wgrp2NANDn T + Wgrp2NANDp T) 0"

definition SIM_grp_zin_cap :: "tech \<Rightarrow> nat \<Rightarrow> real" where
  "SIM_grp_zin_cap T stg =
     (if stg = 1 then SIM_power_draincap T (Wgrp2NANDn T) NCH 2 + 2 * SIM_power_draincap T (Wgrp2NANDp T) PCH 1
      else grp_prev_cap T stg)
     + (0.75 * grp_track (stg - 1) * 2 * WordlineSpacing T + (grp_track (stg - 1) - 1) * BitlineSpacing T) * CCmetal T
     + 0.75 * grp_track (stg - 1) * grp_pass_cap T"

definition grp_not_cap :: "tech \<Rightarrow> real \<Rightarrow> real \<Rightarrow> real" where
  "grp_not_cap T n p = SIM_power_draincap T n NCH 1 + SIM_power_draincap T p PCH 1 + SIM_power_gatecap T (n + p) 0"

definition SIM_grp_lin_cap :: "tech \<Rightarrow> nat \<Rightarrow> real" where
  "SIM_grp_lin_cap T stg =
     (if stg = 1
      then grp_not_cap T (WgrpL1NOTn T) (WgrpL1NOTp T) + 0.5 * SIM_power_gatecap T (Wgrp2NANDn T + Wgrp2NANDp T) 0
      else grp_prev_cap T stg)
     + grp_track (stg + 1) * 2 * BitlineSpacing T * CCmetal T
     + grp_track (stg + 1) * SIM_power_gatecap T (WgrpPASSn T + WgrpPASSp T) 0
     + (if stg > 1
        then grp_not_cap T (WgrpL1NOTn T) (WgrpL1NOTp T) + grp_not_cap T (WgrpL2NOTn T) (WgrpL2NOTp T)
             + grp_not_cap T (WgrpL3NOTn T) (WgrpL3NOTp T)
        else 0)
     + (if stg > 4 then grp_not_cap T (WgrpL4NOTn T) (WgrpL4NOTp T) else 0)"

definition SIM_grp_rin_cap :: "tech \<Rightarrow> nat \<Rightarrow> real" where
  "SIM_grp_rin_cap T stg =
     (if stg = 1
      then grp_not_cap T (WgrpL1NOTn T) (WgrpL1NOTp T) + 0.5 * SIM_power_gatecap T (Wgrp2NANDn T + Wgrp2NANDp T) 0
      else grp_prev_cap T stg)
     + (grp_track (stg - 1) * 2 * WordlineSpacing T + (grp_track (stg - 1) - 1) * 2 * BitlineSpacing T) * CCmetal T
     + grp_track (stg - 1) * grp_pass_cap T"

definition SIM_grp_oin_cap :: "tech \<Rightarrow> nat \<Rightarrow> real" where
  "SIM_grp_oin_cap T stg =
     (if stg = 1 then SIM_power_draincap T (Wgrp2NANDn T) NCH 2 + 2 * SIM_power_draincap T (Wgrp2NANDp T) PCH 1
      else grp_prev_cap T stg)
     + SIM_power_gatecap T (Wgrp2NORn T + Wgrp2NORp T) 0"

definition SIM_grp_out_cap :: "tech \<Rightarrow> real" where
  "SIM_grp_out_cap T = 2 * SIM_power_draincap T (Wgrp2NORn T) NCH 1 + SIM_power_draincap T (Wgrp2NORp T) PCH 2"

definition SIM_grp_reset :: "SIM_power_grp_t \<Rightarrow> SIM_power_grp_t" where
  "SIM_grp_reset g = g\<lparr>gr_in := 0, gr_out := 0, gr_zoin := 0, gr_woin := 0, gr_zin := replicate 6 0, gr_win := replicate 6 0,
     gr_lin := replicate N_ONEHOT 0, gr_rin := replicate N_ONEHOT 0\<rparr>"

text \<open>
  The routing of one stage: block \<open>i\<close> of \<open>2 ^ stg\<close> bits is the low half followed by the shifted
  high half. \<open>lin\<close> holds, per block, how many bits of its low half are selected. The two shifts of
  \<open>zin\<close> by half a block in each iteration are one shift by a block.
\<close>

definition ZBIT :: int where
  "ZBIT = 1"

definition WBIT :: int where
  "WBIT = 0"

definition grp_block :: "nat \<Rightarrow> u32 list \<Rightarrow> nat \<Rightarrow> u64 \<Rightarrow> int \<Rightarrow> u64 \<Rightarrow> u64" where
  "grp_block i lin stg msk zw zin =
     (let p_wid = 2 ^ (stg - 1); high = drop_bit p_wid zin AND msk
      in push_bit (i * 2 ^ stg) (zin AND msk)
         + push_bit (i * 2 ^ stg) (push_bit (if zw = ZBIT then p_wid - unat (lin ! i) else unat (lin ! i)) high))"

primrec grp_stg_loop :: "nat \<Rightarrow> nat \<Rightarrow> u32 list \<Rightarrow> nat \<Rightarrow> u64 \<Rightarrow> int \<Rightarrow> u64 \<Rightarrow> u64 \<Rightarrow> u64" where
  "grp_stg_loop 0 i lin stg msk zw zin rval = rval"
| "grp_stg_loop (Suc n) i lin stg msk zw zin rval =
     grp_stg_loop n (Suc i) lin stg msk zw (drop_bit (2 ^ stg) zin) (rval + grp_block i lin stg msk zw zin)"

definition SIM_grp_stg :: "u64 \<Rightarrow> u32 list \<Rightarrow> u32 \<Rightarrow> nat \<Rightarrow> int \<Rightarrow> u64" where
  "SIM_grp_stg zin lin width stg zw =
     grp_stg_loop (unat width div 2 ^ stg) 0 lin stg (HAMM_MASK (of_nat (2 ^ (stg - 1)))) zw zin 0"

text \<open>
  The one-hot counts. \<open>store\<close> tells the recording variant, which adds to the counters and latches
  the counts, from the test variant, which only counts the transitions of this input. The two local
  arrays are updated in place.
\<close>

definition grp_onehot :: "bool \<Rightarrow> nat \<Rightarrow> nat \<Rightarrow> u32 \<Rightarrow> u32 \<Rightarrow> SIM_power_grp_t \<Rightarrow> SIM_power_grp_t" where
  "grp_onehot store s k l r g =
     (let g = g\<lparr>gr_n_chg_lin := (gr_n_chg_lin g)[s := gr_n_chg_lin g ! s + (if l \<noteq> gr_lin g ! k then 1 else 0)],
                gr_n_chg_rin := (gr_n_chg_rin g)[s := gr_n_chg_rin g ! s + (if r \<noteq> gr_rin g ! k then 1 else 0)]\<rparr>
      in if store then g\<lparr>gr_lin := (gr_lin g)[k := l], gr_rin := (gr_rin g)[k := r]\<rparr> else g)"

type_synonym grp_locals = "SIM_power_grp_t \<times> u32 list \<times> u32 list"

fun grp_first_loop :: "bool \<Rightarrow> nat \<Rightarrow> nat \<Rightarrow> u64 \<Rightarrow> grp_locals \<Rightarrow> grp_locals" where
  "grp_first_loop store i 0 op s = s"
| "grp_first_loop store i (Suc n) op (g, lin, rin) =
     (let l = ucast (op AND 1); op = drop_bit 1 op; r = ucast (op AND 1); op = drop_bit 1 op
      in grp_first_loop store (Suc i) n op (grp_onehot store 0 i l r g, lin[i := l], rin[i := r]))"

fun grp_count_loop :: "bool \<Rightarrow> nat \<Rightarrow> nat \<Rightarrow> nat \<Rightarrow> nat \<Rightarrow> grp_locals \<Rightarrow> grp_locals" where
  "grp_count_loop store stg base i 0 s = s"
| "grp_count_loop store stg base i (Suc n) (g, lin, rin) =
     (let lin = lin[i := lin ! (i + i) + rin ! (i + i)];
          rin = rin[i := lin ! (i + i + 1) + rin ! (i + i + 1)]
      in grp_count_loop store stg base (Suc i) n (grp_onehot store (stg - 1) (i + base) (lin ! i) (rin ! i) g, lin, rin))"

text \<open>The transitions of the z and w nodes of a stage.\<close>

definition grp_nodes :: "bool \<Rightarrow> nat \<Rightarrow> u64 \<Rightarrow> u64 \<Rightarrow> SIM_power_grp_t \<Rightarrow> SIM_power_grp_t" where
  "grp_nodes store s zin win g =
     (let n = ucast (SIM_power_Hamming zin (gr_zin g ! s) (gr_mask g) + SIM_power_Hamming win (gr_win g ! s) (gr_mask g))
      in if store
         then g\<lparr>gr_n_chg_zin := (gr_n_chg_zin g)[s := gr_n_chg_zin g ! s + n],
                gr_zin := (gr_zin g)[s := zin], gr_win := (gr_win g)[s := win]\<rparr>
         else g\<lparr>gr_n_chg_zin := (gr_n_chg_zin g)[s := n],
                gr_n_chg_lin := (gr_n_chg_lin g)[s := 0], gr_n_chg_rin := (gr_n_chg_rin g)[s := 0]\<rparr>)"

type_synonym grp_state = "grp_locals \<times> u64 \<times> u64 \<times> nat"

definition grp_stage :: "bool \<Rightarrow> nat \<Rightarrow> grp_state \<Rightarrow> grp_state" where
  "grp_stage store stg st = (case st of ((g, lin, rin), zin, win, base) \<Rightarrow>
     (let base = base + 64 div 2 ^ (stg - 1);
          (g, lin, rin) = grp_count_loop store stg base 0 (unat (gr_data_width g) div 2 ^ stg)
                            (grp_nodes store (stg - 1) zin win g, lin, rin)
      in ((g, lin, rin), SIM_grp_stg zin lin (gr_data_width g) stg ZBIT, SIM_grp_stg win lin (gr_data_width g) stg WBIT, base)))"

definition grp_enter :: "bool \<Rightarrow> u64 \<Rightarrow> SIM_power_grp_t \<Rightarrow> SIM_power_grp_t" where
  "grp_enter store inp g =
     (let n = ucast (SIM_power_Hamming inp (gr_in g) (gr_mask g))
      in if store then g\<lparr>gr_n_chg_in := gr_n_chg_in g + n, gr_in := inp\<rparr> else g\<lparr>gr_n_chg_in := n\<rparr>)"

definition grp_first :: "bool \<Rightarrow> u64 \<Rightarrow> u64 \<Rightarrow> SIM_power_grp_t \<Rightarrow> grp_state" where
  "grp_first store inp op g =
     (let zin = inp AND NOT op; win = inp AND op; width = gr_data_width g;
          s = grp_first_loop store 0 (unat width div 2) op (grp_nodes store 0 zin win g, replicate 32 0, replicate 32 0);
          lin = fst (snd s)
      in (s, SIM_grp_stg zin lin width 1 ZBIT, SIM_grp_stg win lin width 1 WBIT, 0))"

text \<open>
  Stages 2 to 6 run while \<^verbatim>\<open>1 << stg <= data_width\<close>; the assertion of the initialisation bounds the
  width by 64.
\<close>

definition grp_tree :: "bool \<Rightarrow> u64 \<Rightarrow> u64 \<Rightarrow> SIM_power_grp_t \<Rightarrow> grp_state" where
  "grp_tree store inp op g =
     fold (grp_stage store) (filter (\<lambda>stg. 2 ^ stg \<le> unat (gr_data_width g)) [2..<7]) (grp_first store inp op g)"

text \<open>The final shift is undefined when all 64 bits are unselected.\<close>

definition grp_leave :: "bool \<Rightarrow> grp_state \<Rightarrow> (SIM_power_grp_t \<times> u64) option" where
  "grp_leave store st = (case st of ((g, lin, rin), zin, win, base) \<Rightarrow>
     (let n = ucast (SIM_power_Hamming zin (gr_zoin g) (gr_mask g) + SIM_power_Hamming win (gr_woin g) (gr_mask g));
          g = (if store then g\<lparr>gr_n_chg_oin := gr_n_chg_oin g + n, gr_zoin := zin, gr_woin := win\<rparr>
               else g\<lparr>gr_n_chg_oin := n\<rparr>);
          sh = unat (gr_data_width g - lin ! 0 - rin ! 0);
          out = zin + push_bit sh win;
          n = ucast (SIM_power_Hamming out (gr_out g) (gr_mask g))
      in if 64 \<le> sh then None
         else Some (if store then g\<lparr>gr_n_chg_out := gr_n_chg_out g + n, gr_out := out\<rparr> else g\<lparr>gr_n_chg_out := n\<rparr>, out)))"

definition grp_run :: "bool \<Rightarrow> SIM_power_grp_t \<Rightarrow> u64 \<Rightarrow> u64 \<Rightarrow> (SIM_power_grp_t \<times> u64) option" where
  "grp_run store g inp op = grp_leave store (grp_tree store inp op (grp_enter store inp g))"

definition SIM_grp_record :: "SIM_power_grp_t \<Rightarrow> u64 \<Rightarrow> u64 \<Rightarrow> int \<Rightarrow> SIM_power_grp_t option" where
  "SIM_grp_record grp inp op reset =
     map_option fst (grp_run True (if reset \<noteq> 0 then SIM_grp_reset grp else grp) inp op)"

definition SIM_grp_record_test :: "SIM_power_grp_t \<Rightarrow> u64 \<Rightarrow> u64 \<Rightarrow> (SIM_power_grp_t \<times> u64) option" where
  "SIM_grp_record_test grp inp op = grp_run False grp inp op"

section \<open>The permutation unit\<close>

text \<open>The union of the two units: only the member that \<open>model\<close> selects is ever accessed.\<close>

record SIM_power_permu_t =
  pm_model :: int
  pm_omflip :: SIM_power_omflip_t
  pm_grp :: SIM_power_grp_t

definition omflip_init :: "tech \<Rightarrow> u32 \<Rightarrow> SIM_power_omflip_t \<Rightarrow> SIM_power_omflip_t" where
  "omflip_init T width om =
     (let unit_height = 3 * WordlineSpacing T;
          unit_dist = 1.5 * dbl32 width * BitlineSpacing T
      in (SIM_omflip_reset (om\<lparr>om_data_width := width, om_n_chg_in := 0, om_n_chg_out := 0, om_n_chg_stg := 0,
            om_n_chg_int := 0, om_n_chg_pass := 0, om_n_chg_ctr := 0\<rparr>))\<lparr>
           om_data_mask := HAMM_MASK width, om_ctr_mask := HAMM_MASK (width div 2),
           om_e_chg_in := SIM_omflip_in_cap T (unit_dist + (0.5 + 0.25 * dbl32 width) * unit_height) / 2 * EnergyFactor T,
           om_e_chg_out := SIM_omflip_out_cap T / 2 * EnergyFactor T,
           om_e_chg_stg := SIM_omflip_stg_cap T (unit_dist + (0.5 + 1.25 * dbl32 width) * WordlineSpacing T) / 2 * EnergyFactor T,
           om_e_chg_int := SIM_omflip_int_cap T / 2 * EnergyFactor T,
           om_e_chg_pass := SIM_omflip_ctr_cap T width (dbl32 width * unit_height) / 2 * EnergyFactor T,
           om_e_chg_ctr := SIM_omflip_ctr_cap T 2 (dbl32 width * unit_height / 2) / 2 * EnergyFactor T\<rparr>)"

definition grp_init :: "tech \<Rightarrow> u32 \<Rightarrow> SIM_power_grp_t \<Rightarrow> SIM_power_grp_t option" where
  "grp_init T width g = do {
     let g = SIM_grp_reset (g\<lparr>gr_data_width := width, gr_n_chg_in := 0, gr_n_chg_oin := 0, gr_n_chg_out := 0,
       gr_n_chg_zin := replicate 6 0, gr_n_chg_lin := replicate 6 0, gr_n_chg_rin := replicate 6 0\<rparr>);
     n_stg \<leftarrow> SIM_power_logtwo (ucast width);
     let n = unat n_stg;
     let per_stage = (\<lambda>f. map (\<lambda>stg. f stg) [1..<n + 1] @ replicate (6 - n) 0);
     Some (g\<lparr>gr_n_stg := n_stg, gr_mask := HAMM_MASK width,
       gr_e_chg_in := SIM_grp_in_cap T / 2 * EnergyFactor T, gr_e_chg_out := SIM_grp_out_cap T / 2 * EnergyFactor T,
       gr_e_chg_zin := per_stage (\<lambda>stg. SIM_grp_zin_cap T stg / 2 * EnergyFactor T),
       gr_e_chg_lin := per_stage (\<lambda>stg. SIM_grp_lin_cap T stg * 2 * EnergyFactor T),
       gr_e_chg_rin := per_stage (\<lambda>stg. SIM_grp_rin_cap T stg * 2 * EnergyFactor T),
       gr_e_chg_oin := SIM_grp_oin_cap T (n + 1) / 2 * EnergyFactor T\<rparr>)
   }"

text \<open>A failed assertion stops the program: \<^term>\<open>None\<close>.\<close>

definition SIM_permu_init :: "tech \<Rightarrow> SIM_power_permu_t \<Rightarrow> int \<Rightarrow> u32 \<Rightarrow> (SIM_power_permu_t \<times> int) option" where
  "SIM_permu_init T permu model width =
     (if width \<noteq> 0 \<and> width \<le> 64 \<and> width mod 2 = 0
      then (let permu = permu\<lparr>pm_model := model\<rparr>
            in if model = OMFLIP_PERMU then Some (permu\<lparr>pm_omflip := omflip_init T width (pm_omflip permu)\<rparr>, 0)
               else if model = GRP_PERMU then map_option (\<lambda>g. (permu\<lparr>pm_grp := g\<rparr>, 0)) (grp_init T width (pm_grp permu))
               else Some (permu, - 1))
      else None)"

definition SIM_permu_record :: "SIM_power_permu_t \<Rightarrow> u64 \<Rightarrow> u32 \<Rightarrow> u64 \<Rightarrow> int \<Rightarrow> (SIM_power_permu_t \<times> int) option" where
  "SIM_permu_record permu inp mode op reset =
     (if pm_model permu = OMFLIP_PERMU
      then Some (permu\<lparr>pm_omflip := SIM_omflip_record (pm_omflip permu) inp mode op reset\<rparr>, 0)
      else if pm_model permu = GRP_PERMU
      then map_option (\<lambda>g. (permu\<lparr>pm_grp := g\<rparr>, 0)) (SIM_grp_record (pm_grp permu) inp op reset)
      else Some (permu, - 1))"

text \<open>An unknown model falls off the end of a function with a result.\<close>

definition SIM_permu_record_test :: "SIM_power_permu_t \<Rightarrow> u64 \<Rightarrow> u32 \<Rightarrow> u64 \<Rightarrow> (SIM_power_permu_t \<times> u64) option" where
  "SIM_permu_record_test permu inp mode op =
     (if pm_model permu = OMFLIP_PERMU
      then (let (om, out) = SIM_omflip_record_test (pm_omflip permu) inp mode op in Some (permu\<lparr>pm_omflip := om\<rparr>, out))
      else if pm_model permu = GRP_PERMU
      then map_option (\<lambda>(g, out). (permu\<lparr>pm_grp := g\<rparr>, out)) (SIM_grp_record_test (pm_grp permu) inp op)
      else None)"

definition omflip_report :: "SIM_power_omflip_t \<Rightarrow> real" where
  "omflip_report om =
     dbl64 (om_n_chg_in om) * om_e_chg_in om + dbl64 (om_n_chg_out om) * om_e_chg_out om
     + dbl64 (om_n_chg_stg om) * om_e_chg_stg om + dbl64 (om_n_chg_int om) * om_e_chg_int om
     + dbl64 (om_n_chg_pass om) * om_e_chg_pass om + dbl64 (om_n_chg_ctr om) * om_e_chg_ctr om"

definition grp_report :: "SIM_power_grp_t \<Rightarrow> real" where
  "grp_report g =
     dbl64 (gr_n_chg_in g) * gr_e_chg_in g + dbl64 (gr_n_chg_oin g) * gr_e_chg_oin g + dbl64 (gr_n_chg_out g) * gr_e_chg_out g
     + (\<Sum>i\<leftarrow>[0..<6]. dbl64 (gr_n_chg_zin g ! i) * gr_e_chg_zin g ! i + dbl64 (gr_n_chg_lin g ! i) * gr_e_chg_lin g ! i
          + dbl64 (gr_n_chg_rin g ! i) * gr_e_chg_rin g ! i)"

definition SIM_permu_report :: "SIM_power_permu_t \<Rightarrow> real" where
  "SIM_permu_report permu =
     (if pm_model permu = OMFLIP_PERMU then omflip_report (pm_omflip permu)
      else if pm_model permu = GRP_PERMU then grp_report (pm_grp permu)
      else - 1)"

definition SIM_permu_max_energy :: "SIM_power_permu_t \<Rightarrow> real" where
  "SIM_permu_max_energy permu =
     (if pm_model permu = OMFLIP_PERMU
      then (let om = pm_omflip permu; w = dbl32 (om_data_width om)
            in om_e_chg_in om * w + om_e_chg_stg om * w * 3 + om_e_chg_int om * w * 4 + om_e_chg_out om * w
               + om_e_chg_pass om * 4 + om_e_chg_ctr om * w)
      else if pm_model permu = GRP_PERMU
      then (let g = pm_grp permu; w = gr_data_width g
            in (\<Sum>i\<leftarrow>[0..<unat (gr_n_stg g)]. gr_e_chg_zin g ! i * dbl32 w * 2 + gr_e_chg_lin g ! i * dbl32 (drop_bit (i + 1) w)
                  + gr_e_chg_rin g ! i * dbl32 (drop_bit (i + 1) w))
               + gr_e_chg_oin g * dbl32 w * 2)
      else - 1)"

section \<open>Omega and flip stages\<close>

lemma plus_or_disjoint: "(\<And>k. \<not> (bit (a :: u64) k \<and> bit b k)) \<Longrightarrow> a + b = a OR b"
  by (rule disjunctive_add_eq_or) (auto simp: bit_eq_iff bit_simps)

lemma omega_mangle_bit:
  "i + n \<le> 32 \<Longrightarrow> (\<And>k. bit r k \<Longrightarrow> k < 2 * i) \<Longrightarrow>
   bit (omega_mangle i n lo hi r) j \<longleftrightarrow>
     (if j < 2 * i then bit r j
      else j < 2 * (i + n) \<and> (if even j then bit lo (j div 2 - i) else bit hi (j div 2 - i)))"
proof (induction n arbitrary: i lo hi r)
  case 0
  then show ?case by auto
next
  case (Suc n)
  define y where "y = push_bit (i + i) (lo AND 1) OR push_bit (i + i + 1) (hi AND 1)"
  have y: "bit y k \<longleftrightarrow> k = 2 * i \<and> bit lo 0 \<or> k = 2 * i + 1 \<and> bit hi 0" for k
    unfolding y_def bit_or_iff bit_push_bit_iff bit_and_iff using Suc.prems(1) by (auto simp: bit_1_iff)
  have r: "r + y = r OR y"
    by (rule plus_or_disjoint) (use Suc.prems(2) y in fastforce)
  have b: "bit (r + y) k \<Longrightarrow> k < 2 * Suc i" for k using Suc.prems(2) [of k] unfolding r by (auto simp: bit_or_iff y)
  have step: "omega_mangle i (Suc n) lo hi r = omega_mangle (Suc i) n (drop_bit 1 lo) (drop_bit 1 hi) (r + y)"
    by (simp only: omega_mangle.simps y_def)
  have IH: "bit (omega_mangle i (Suc n) lo hi r) j \<longleftrightarrow>
     (if j < 2 * Suc i then bit (r + y) j
      else j < 2 * (Suc i + n) \<and> (if even j then bit (drop_bit 1 lo) (j div 2 - Suc i) else bit (drop_bit 1 hi) (j div 2 - Suc i)))"
    unfolding step using Suc.prems(1) by (intro Suc.IH b) auto
  show ?case
  proof (cases "2 * Suc i \<le> j")
    case True
    then have "Suc i \<le> j div 2" by auto
    then have "Suc (j div 2 - Suc i) = j div 2 - i" by (simp add: Suc_diff_Suc)
    then show ?thesis using True unfolding IH by (simp add: bit_drop_bit_eq)
  next
    case False
    then have "j < 2 * i \<or> j = 2 * i \<or> j = 2 * i + 1" by presburger
    then show ?thesis unfolding IH using False Suc.prems(2) [of j] by (auto simp: r bit_or_iff y)
  qed
qed

lemma flip_split_bit:
  "i + n \<le> 32 \<Longrightarrow> (\<And>k. bit lo k \<or> bit hi k \<Longrightarrow> k < i) \<Longrightarrow>
   (bit (fst (flip_split i n x lo hi)) j \<longleftrightarrow> (if j < i then bit lo j else j < i + n \<and> bit x (2 * (j - i)))) \<and>
   (bit (snd (flip_split i n x lo hi)) j \<longleftrightarrow> (if j < i then bit hi j else j < i + n \<and> bit x (2 * (j - i) + 1)))"
proof (induction n arbitrary: i x lo hi)
  case 0
  then show ?case by auto
next
  case (Suc n)
  define l where "l = push_bit i (x AND 1)"
  define h where "h = push_bit i (drop_bit 1 x AND 1)"
  have b: "bit l k \<longleftrightarrow> k = i \<and> bit x 0" "bit h k \<longleftrightarrow> k = i \<and> bit x 1" for k
    unfolding l_def h_def bit_push_bit_iff bit_and_iff bit_drop_bit_eq using Suc.prems(1) by (auto simp: bit_1_iff)
  have s: "lo + l = lo OR l" "hi + h = hi OR h"
    using Suc.prems(2) [of i] by (auto intro!: plus_or_disjoint simp: b)
  have p: "bit (lo + l) k \<or> bit (hi + h) k \<Longrightarrow> k < Suc i" for k
    using Suc.prems(2) [of k] unfolding s by (auto simp: bit_or_iff b)
  have x2: "bit (drop_bit 1 (drop_bit 1 x)) k = bit x (k + 2)" for k by (simp add: bit_drop_bit_eq)
  have step: "flip_split i (Suc n) x lo hi = flip_split (Suc i) n (drop_bit 1 (drop_bit 1 x)) (lo + l) (hi + h)"
    by (simp only: flip_split.simps l_def h_def)
  have IH: "(bit (fst (flip_split i (Suc n) x lo hi)) j \<longleftrightarrow> (if j < Suc i then bit (lo + l) j else j < Suc i + n \<and> bit x (2 * (j - Suc i) + 2))) \<and>
   (bit (snd (flip_split i (Suc n) x lo hi)) j \<longleftrightarrow> (if j < Suc i then bit (hi + h) j else j < Suc i + n \<and> bit x (2 * (j - Suc i) + 1 + 2)))"
    using Suc.IH [of "Suc i" "lo + l" "hi + h" "drop_bit 1 (drop_bit 1 x)", OF _ p] Suc.prems(1) unfolding step x2 by simp
  consider "j < i" | "j = i" | "Suc i \<le> j" by linarith
  then show ?case
  proof cases
    case 3
    then have "2 * (j - Suc i) + 2 = 2 * (j - i)" "2 * (j - Suc i) + 1 + 2 = 2 * (j - i) + 1" by simp_all
    then show ?thesis using 3 IH by simp
  qed (use Suc.prems IH in \<open>auto simp: s bit_or_iff b\<close>)
qed

text \<open>Where each output bit of a stage of half width \<open>w\<close> comes from.\<close>

definition omega_src :: "nat \<Rightarrow> u64 \<Rightarrow> nat \<Rightarrow> nat" where
  "omega_src w c j = (if even j = bit c (j div 2) then w + j div 2 else j div 2)"

definition flip_src :: "nat \<Rightarrow> u64 \<Rightarrow> nat \<Rightarrow> nat" where
  "flip_src w c j = (if j < w then 2 * j + (if bit c j then 1 else 0) else 2 * (j - w) + (if bit c (j - w) then 0 else 1))"

lemma omega_flip_src: "j < 2 * w \<Longrightarrow> flip_src w c (omega_src w c j) = j \<and> omega_src w c j < 2 * w"
  unfolding omega_src_def flip_src_def by (cases "even j") (auto elim!: evenE oddE)

lemma flip_omega_src: "j < 2 * w \<Longrightarrow> omega_src w c (flip_src w c j) = j \<and> flip_src w c j < 2 * w"
  unfolding omega_src_def flip_src_def by (cases "j < w") auto

lemma omega_bit:
  assumes "w \<le> 32" "\<forall>i < w. bit m i"
  shows "bit (SIM_omflip_omega x w m False c) j \<longleftrightarrow> j < 2 * w \<and> bit x (omega_src w c j)"
  unfolding SIM_omflip_omega_def Let_def
  using omega_mangle_bit [of 0 w 0] assms
  by (auto simp: omega_src_def bit_simps)

lemma flip_bit:
  assumes "w \<le> 32"
  shows "bit (SIM_omflip_flip x w False c) j \<longleftrightarrow> j < 2 * w \<and> bit x (flip_src w c j)"
proof -
  let ?l = "fst (flip_split 0 w x 0 0)" and ?h = "snd (flip_split 0 w x 0 0)"
  note b = flip_split_bit [of 0 w 0 0 x, simplified, OF assms, THEN conjunct1] flip_split_bit [of 0 w 0 0 x, simplified, OF assms, THEN conjunct2]
  define a where "a = (?l AND NOT c) OR (?h AND c)"
  define h where "h = push_bit w ((?l AND c) OR (?h AND NOT c))"
  have a: "bit a k \<longleftrightarrow> k < w \<and> bit x (flip_src w c k)" for k
    unfolding a_def using assms by (auto simp: bit_simps b flip_src_def)
  have h: "bit h k \<longleftrightarrow> w \<le> k \<and> k < 2 * w \<and> bit x (flip_src w c k)" for k
    unfolding h_def bit_push_bit_iff using assms by (auto simp: bit_simps b flip_src_def)
  have "a + h = a OR h" by (rule plus_or_disjoint) (auto simp: a h)
  moreover have "SIM_omflip_flip x w False c = a + h"
    by (simp only: SIM_omflip_flip_def case_prod_beta Let_def a_def h_def if_False)
  ultimately show ?thesis by (auto simp: bit_or_iff a h)
qed

text \<open>
  A unit of width \<open>2 * w\<close> realises a fixed permutation: output bit \<open>j\<close> is input bit \<open>p j\<close>, and bits
  above the width are zero.
\<close>

definition realises :: "nat \<Rightarrow> (u64 \<Rightarrow> u64) \<Rightarrow> (nat \<Rightarrow> nat) \<Rightarrow> bool" where
  "realises n f p \<longleftrightarrow> bij_betw p {..<n} {..<n} \<and>
     (\<forall>x. (\<forall>k. bit x k \<longrightarrow> k < n) \<longrightarrow> (\<forall>j. bit (f x) j \<longleftrightarrow> j < n \<and> bit x (p j)))"

lemma realises_id: "realises n (\<lambda>x. x) (\<lambda>j. j)"
  unfolding realises_def by (auto simp: bij_betw_def)

lemma realises_comp:
  assumes "realises n f p" "realises n g q"
  shows "realises n (\<lambda>x. g (f x)) (\<lambda>j. p (q j))"
proof -
  have "bij_betw (p \<circ> q) {..<n} {..<n}" using assms by (auto simp: realises_def intro: bij_betw_trans)
  moreover have "q j < n" if "j < n" for j using assms(2) that by (auto simp: realises_def bij_betw_def)
  ultimately show ?thesis using assms by (simp add: realises_def comp_def) blast
qed

lemma realises_if: "realises n f p \<Longrightarrow> realises n g q \<Longrightarrow> \<exists>p. realises n (\<lambda>x. if b then f x else g x) p"
  by (cases b) auto

lemma realises_omega:
  assumes "w \<le> 32" "\<forall>i < w. bit m i"
  shows "realises (2 * w) (\<lambda>x. SIM_omflip_omega x w m False c) (omega_src w c)"
proof -
  have "bij_betw (omega_src w c) {..<2 * w} {..<2 * w}"
    by (rule bij_betw_byWitness [where f' = "flip_src w c"]) (use omega_flip_src flip_omega_src in auto)
  then show ?thesis by (simp add: realises_def omega_bit [OF assms])
qed

lemma realises_flip:
  assumes "w \<le> 32"
  shows "realises (2 * w) (\<lambda>x. SIM_omflip_flip x w False c) (flip_src w c)"
proof -
  have "bij_betw (flip_src w c) {..<2 * w} {..<2 * w}"
    by (rule bij_betw_byWitness [where f' = "omega_src w c"]) (use omega_flip_src flip_omega_src in auto)
  then show ?thesis by (simp add: realises_def flip_bit [OF assms])
qed

lemma realises_pass: "realises n (\<lambda>x. SIM_omflip_omega x w m True c) (\<lambda>j. j)" "realises n (\<lambda>x. SIM_omflip_flip x w True c) (\<lambda>j. j)"
  using realises_id by (simp_all add: SIM_omflip_omega_def SIM_omflip_flip_def)

text \<open>The data path of a record, without the counters.\<close>

definition omflip_path :: "nat \<Rightarrow> u64 \<Rightarrow> u32 \<Rightarrow> u64 \<Rightarrow> u64 \<Rightarrow> u64" where
  "omflip_path w cm mode op x =
     (let f1 = is_flip (mode AND FIRST_STG); f2 = is_flip (mode AND SECOND_STG); lo = op AND cm; hi = drop_bit w op AND cm;
          c2 = (if f1 then lo else hi);
          s1 = (if \<not> f1 then SIM_omflip_omega x w cm False lo else SIM_omflip_omega x w cm True 0);
          s2 = (if f1 \<or> f2 then SIM_omflip_flip s1 w False c2 else SIM_omflip_flip s1 w True 0);
          s3 = (if f1 \<and> f2 then SIM_omflip_flip s2 w False hi else SIM_omflip_flip s2 w True 0)
      in if \<not> f2 then SIM_omflip_omega s3 w cm False hi else SIM_omflip_omega s3 w cm True 0)"

lemma omflip_record_out:
  "om_out (SIM_omflip_record om x mode op reset) = omflip_path (unat (om_data_width om div 2)) (om_ctr_mask om) mode op x"
  unfolding SIM_omflip_record_def omflip_path_def Let_def
  by (simp add: SIM_omflip_reset_def)

lemma omflip_test_out:
  "snd (SIM_omflip_record_test om x mode op) = omflip_path (unat (om_data_width om div 2)) (om_ctr_mask om) mode op x"
  unfolding SIM_omflip_record_test_def omflip_path_def Let_def by simp

lemma omflip_path_realises:
  assumes "w \<le> 32" "\<forall>i < w. bit m i"
  shows "\<exists>p. realises (2 * w) (omflip_path w m mode op) p"
proof -
  note r = realises_omega [OF assms] realises_flip [OF assms(1)] realises_pass
  let ?f1 = "is_flip (mode AND FIRST_STG)" and ?f2 = "is_flip (mode AND SECOND_STG)"
  let ?lo = "op AND m" and ?hi = "drop_bit w op AND m"
  have 1: "\<exists>p. realises (2 * w) (\<lambda>x. if \<not> ?f1 then SIM_omflip_omega x w m False ?lo else SIM_omflip_omega x w m True 0) p"
    and 2: "\<exists>p. realises (2 * w) (\<lambda>x. if ?f1 \<or> ?f2 then SIM_omflip_flip x w False (if ?f1 then ?lo else ?hi) else SIM_omflip_flip x w True 0) p"
    and 3: "\<exists>p. realises (2 * w) (\<lambda>x. if ?f1 \<and> ?f2 then SIM_omflip_flip x w False ?hi else SIM_omflip_flip x w True 0) p"
    and 4: "\<exists>p. realises (2 * w) (\<lambda>x. if \<not> ?f2 then SIM_omflip_omega x w m False ?hi else SIM_omflip_omega x w m True 0) p"
    by (rule realises_if [OF r(1,3)] realises_if [OF r(2,4)])+
  obtain p1 p2 p3 p4 where
    "realises (2 * w) (\<lambda>x. if \<not> ?f1 then SIM_omflip_omega x w m False ?lo else SIM_omflip_omega x w m True 0) p1"
    "realises (2 * w) (\<lambda>x. if ?f1 \<or> ?f2 then SIM_omflip_flip x w False (if ?f1 then ?lo else ?hi) else SIM_omflip_flip x w True 0) p2"
    "realises (2 * w) (\<lambda>x. if ?f1 \<and> ?f2 then SIM_omflip_flip x w False ?hi else SIM_omflip_flip x w True 0) p3"
    "realises (2 * w) (\<lambda>x. if \<not> ?f2 then SIM_omflip_omega x w m False ?hi else SIM_omflip_omega x w m True 0) p4"
    using 1 2 3 4 by blast
  from realises_comp [OF realises_comp [OF realises_comp [OF this(1,2)] this(3)] this(4)]
  show ?thesis unfolding omflip_path_def Let_def by blast
qed

lemma HAMM_MASK_bits: "w \<noteq> 0 \<Longrightarrow> bit (HAMM_MASK w) i \<longleftrightarrow> i < 64"
  by (simp add: HAMM_MASK_eq BIGNONE_def bit_simps)

lemma omflip_init_path:
  fixes w :: u32
  assumes "w \<noteq> 0" "w \<le> 64" "w mod 2 = 0"
  shows "\<exists>p. realises (unat w) (omflip_path (unat (w div 2)) (HAMM_MASK (w div 2)) mode op) p"
proof -
  have le: "unat w \<le> 64" using assms(2) by (simp add: word_le_nat_alt)
  have ev: "unat w mod 2 = 0" using assms(3) using unat_mod [of w 2] by simp
  have h: "unat (w div 2) = unat w div 2" by (simp add: unat_div)
  have "unat w \<noteq> 0" using assms(1) by (simp add: unat_eq_0)
  then have "unat (w div 2) \<noteq> 0" using ev h by presburger
  then have "w div 2 \<noteq> 0" by (metis unat_0)
  then have "\<forall>i < unat w div 2. bit (HAMM_MASK (w div 2)) i" using HAMM_MASK_bits le by auto
  moreover have "2 * (unat w div 2) = unat w" "unat w div 2 \<le> 32" using ev le by auto
  ultimately show ?thesis using omflip_path_realises [of "unat w div 2" "HAMM_MASK (w div 2)" mode op] unfolding h by metis
qed

text \<open>
  C31: an initialised OMFLIP unit is a permutation network. For each mode and control word there is
  one permutation of the bit positions such that recording any data word of the configured width
  leaves that word permuted at the output and returns 0; the test variant computes the same word.
\<close>

theorem SIM_permu_omflip_permutes:
  assumes "SIM_permu_init T permu OMFLIP_PERMU width = Some (pm, r)"
  shows "r = 0 \<and> (\<exists>p. bij_betw p {..<unat width} {..<unat width} \<and>
    (\<forall>x reset. (\<forall>k. bit x k \<longrightarrow> k < unat width) \<longrightarrow>
       (\<exists>pm' out. SIM_permu_record pm x mode op reset = Some (pm', 0) \<and> out = om_out (pm_omflip pm') \<and>
          (\<forall>j. bit out j \<longleftrightarrow> j < unat width \<and> bit x (p j)) \<and>
          map_option snd (SIM_permu_record_test pm x mode op) = Some out)))"
proof -
  have w: "width \<noteq> 0" "width \<le> 64" "width mod 2 = 0"
    and pm: "pm = permu\<lparr>pm_model := OMFLIP_PERMU, pm_omflip := omflip_init T width (pm_omflip permu)\<rparr>" "r = 0"
    using assms by (auto simp: SIM_permu_init_def Let_def split: if_splits)
  obtain p where p: "realises (unat width) (omflip_path (unat (width div 2)) (HAMM_MASK (width div 2)) mode op) p"
    using omflip_init_path [OF w] by blast
  have o: "om_data_width (pm_omflip pm) = width" "om_ctr_mask (pm_omflip pm) = HAMM_MASK (width div 2)"
    by (simp_all add: pm omflip_init_def SIM_omflip_reset_def Let_def)
  have rec: "SIM_permu_record pm x mode op reset = Some (pm\<lparr>pm_omflip := SIM_omflip_record (pm_omflip pm) x mode op reset\<rparr>, 0)" for x reset
    by (simp add: SIM_permu_record_def pm)
  have tst: "map_option snd (SIM_permu_record_test pm x mode op) = Some (snd (SIM_omflip_record_test (pm_omflip pm) x mode op))" for x
    by (simp add: SIM_permu_record_test_def pm case_prod_beta Let_def)
  show ?thesis unfolding rec tst using p
    by (intro conjI pm exI [of _ p]) (auto simp: realises_def omflip_record_out omflip_test_out o)
qed

theorem SIM_permu_omflip_permutes_witness:
  "\<forall>permu. \<exists>pm p. SIM_permu_init build_tech permu OMFLIP_PERMU 8 = Some (pm, 0) \<and> bij_betw p {..<8::nat} {..<8} \<and>
     (\<exists>pm'. SIM_permu_record pm 1 1 5 0 = Some (pm', 0) \<and>
       (\<forall>j. bit (om_out (pm_omflip pm')) j \<longleftrightarrow> j < 8 \<and> bit (1::u64) (p j)))"
proof
  fix permu :: SIM_power_permu_t
  obtain pm where i: "SIM_permu_init build_tech permu OMFLIP_PERMU 8 = Some (pm, 0)" by (simp add: SIM_permu_init_def Let_def)
  show "\<exists>pm p. SIM_permu_init build_tech permu OMFLIP_PERMU 8 = Some (pm, 0) \<and> bij_betw p {..<8::nat} {..<8} \<and>
     (\<exists>pm'. SIM_permu_record pm 1 1 5 0 = Some (pm', 0) \<and>
       (\<forall>j. bit (om_out (pm_omflip pm')) j \<longleftrightarrow> j < 8 \<and> bit (1::u64) (p j)))"
    using SIM_permu_omflip_permutes [OF i, where mode = 1 and op = 5] i
    by simp (metis bit_1_iff zero_less_numeral)
qed

text \<open>
  Omega and flip stages with the same control word undo each other, in both orders, on data of
  the width of the stage.
\<close>

theorem SIM_omflip_omega_flip_inverse:
  assumes "w \<le> 32" "\<forall>i < w. bit m i" "\<forall>k. bit x k \<longrightarrow> k < 2 * w"
  shows "SIM_omflip_flip (SIM_omflip_omega x w m False c) w False c = x \<and>
         SIM_omflip_omega (SIM_omflip_flip x w False c) w m False c = x"
proof -
  have "bit (SIM_omflip_flip (SIM_omflip_omega x w m False c) w False c) j = bit x j"
    "bit (SIM_omflip_omega (SIM_omflip_flip x w False c) w m False c) j = bit x j" for j
    unfolding flip_bit [OF assms(1)] omega_bit [OF assms(1,2)]
    using assms(3) omega_flip_src [of j w c] flip_omega_src [of j w c] by (cases "j < 2 * w"; auto)+
  then show ?thesis by (simp add: bit_eq_iff)
qed

theorem SIM_omflip_omega_flip_inverse_witness:
  "SIM_omflip_flip (SIM_omflip_omega 11 2 3 False 2) 2 False 2 = 11 \<and> SIM_omflip_omega 11 2 3 False 2 = 13"
proof -
  have "bit (11::u64) k \<longrightarrow> k < 2 * 2" for k
    using bit_take_bit_iff [of 4 "11::u64" k] by auto
  moreover have "\<forall>i < 2. bit (3::u64) i" by (auto simp: less_2_cases_iff)
  moreover have "SIM_omflip_omega 11 2 3 False 2 = 13" by code_simp
  ultimately show ?thesis using SIM_omflip_omega_flip_inverse [of 2 3 11 2] by simp
qed

text \<open>
  The test variant counts what recording the same input would add to counters at zero, with one
  exception: when the first stage is a flip stage, the control and internal counters keep what an
  earlier call left in them, because only an active first stage resets them.
\<close>

theorem SIM_omflip_record_test_counts:
  "let t = fst (SIM_omflip_record_test om x mode op);
       r = SIM_omflip_record (om\<lparr>om_n_chg_in := 0, om_n_chg_out := 0, om_n_chg_stg := 0, om_n_chg_int := 0,
             om_n_chg_pass := 0, om_n_chg_ctr := 0\<rparr>) x mode op 0;
       stale = is_flip (mode AND FIRST_STG)
   in om_n_chg_in t = om_n_chg_in r \<and> om_n_chg_stg t = om_n_chg_stg r \<and> om_n_chg_out t = om_n_chg_out r \<and>
      om_n_chg_pass t = om_n_chg_pass r \<and>
      om_n_chg_ctr t = (if stale then om_n_chg_ctr om else 0) + om_n_chg_ctr r \<and>
      om_n_chg_int t = (if stale then om_n_chg_int om else 0) + om_n_chg_int r \<and>
      om_out t = om_out om \<and> om_stg t = om_stg om \<and> om_inn t = om_inn om \<and> om_ctr t = om_ctr om \<and> om_pass t = om_pass om"
proof (cases "is_flip (mode AND FIRST_STG)")
  case True
  show ?thesis
  proof (cases "is_flip (mode AND SECOND_STG)")
    case f2: True
    show ?thesis unfolding SIM_omflip_record_test_def SIM_omflip_record_def
      by (simp add: True f2 Let_def omflip_active_def omflip_count_def omflip_node_def)
  next
    case f2: False
    show ?thesis unfolding SIM_omflip_record_test_def SIM_omflip_record_def
      by (simp add: True f2 Let_def omflip_active_def omflip_count_def omflip_node_def)
  qed
next
  case False
  show ?thesis
  proof (cases "is_flip (mode AND SECOND_STG)")
    case f2: True
    show ?thesis unfolding SIM_omflip_record_test_def SIM_omflip_record_def
      by (simp add: False f2 Let_def omflip_active_def omflip_count_def omflip_node_def)
  next
    case f2: False
    show ?thesis unfolding SIM_omflip_record_test_def SIM_omflip_record_def
      by (simp add: False f2 Let_def omflip_active_def omflip_count_def omflip_node_def)
  qed
qed

lemma grp_run_width_2:
  assumes "gr_data_width g = 2"
  shows "\<exists>g'. grp_run True g 3 0 = Some (g', 5) \<and> gr_out g' = 5"
proof -
  have "filter (\<lambda>stg. 2 ^ stg \<le> (2::nat)) [2..<7] = []" by (simp add: upt_conv_Cons)
  then show ?thesis
    using assms
    by (simp add: grp_run_def grp_tree_def grp_enter_def grp_first_def grp_nodes_def grp_leave_def Let_def SIM_grp_stg_def
        grp_block_def grp_onehot_def ZBIT_def WBIT_def HAMM_MASK_eq BIGNONE_def)
qed

text \<open>
  The GRP unit does not permute. The stage masks come from \<^const>\<open>HAMM_MASK\<close>, which is all ones
  for every width but 0, so the bits of neighbouring blocks are added in: a unit of width 2 that
  selects nothing should pass the word 3 through, and outputs 5.
\<close>

theorem SIM_permu_grp_not_permutation:
  "\<exists>pm pm'. SIM_permu_init T permu GRP_PERMU 2 = Some (pm, 0) \<and> SIM_permu_record pm 3 0 0 0 = Some (pm', 0) \<and>
     gr_out (pm_grp pm') = 5"
proof -
  obtain n where "SIM_power_logtwo 2 = Some n" using logtwo_spec [of 2] by (auto split: option.splits)
  then obtain g where g: "grp_init T 2 (pm_grp permu) = Some g" "gr_data_width g = 2"
    by (auto simp: grp_init_def SIM_grp_reset_def Let_def)
  obtain g' where g': "grp_run True g 3 0 = Some (g', 5)" "gr_out g' = 5" using grp_run_width_2 [OF g(2)] by blast
  show ?thesis
    by (rule exI [of _ "permu\<lparr>pm_model := GRP_PERMU, pm_grp := g\<rparr>"])
      (simp add: SIM_permu_init_def SIM_permu_record_def SIM_grp_record_def g g' OMFLIP_PERMU_def GRP_PERMU_def Let_def)
qed

end
