(* ===== verification/Popnet_Base.thy ===== *)
theory Popnet_Base
  imports Prelude "HOL-Library.Monad_Syntax"
begin

text \<open>
  Vocabulary of the network simulator: the enumerations and constants of \<^verbatim>\<open>index.h\<close>, flits
  (\<^verbatim>\<open>flit.cc\<close>), events (\<^verbatim>\<open>mess_event.cc\<close>), the random generator (\<^verbatim>\<open>SRGen.cc\<close>), and the indexed
  access to nested vectors that every router operation uses. A \<^verbatim>\<open>long\<close> is an integer, a
  \<^verbatim>\<open>double\<close> a real number. An operation returns \<^term>\<open>None\<close> where the program aborts on an
  assertion, throws, or leaves the defined part of the language (an index out of range).
\<close>

section \<open>Sequential loops\<close>

text \<open>\<^term>\<open>foldM f xs s\<close> runs the body \<open>f\<close> for the elements of \<open>xs\<close> in order.\<close>

fun foldM :: "('a \<Rightarrow> 's \<Rightarrow> 's option) \<Rightarrow> 'a list \<Rightarrow> 's \<Rightarrow> 's option" where
  "foldM f [] s = Some s"
| "foldM f (x # xs) s = f x s \<bind> foldM f xs"

lemma foldM_append: "foldM f (xs @ ys) s = foldM f xs s \<bind> foldM f ys"
  by (induction xs arbitrary: s) (auto split: bind_splits)

lemma foldM_invariant:
  "foldM f xs s = Some s' \<Longrightarrow> I s \<Longrightarrow> (\<And>x s s'. x \<in> set xs \<Longrightarrow> f x s = Some s' \<Longrightarrow> I s \<Longrightarrow> I s') \<Longrightarrow> I s'"
proof (induction xs arbitrary: s)
  case (Cons x xs)
  then obtain t where t: "f x s = Some t" "foldM f xs t = Some s'" by (auto split: bind_splits)
  show ?case by (rule Cons.IH [OF t(2)]) (use Cons.prems t in auto)
qed simp

lemma foldM_total:
  "I s \<Longrightarrow> (\<And>x s. x \<in> set xs \<Longrightarrow> I s \<Longrightarrow> \<exists>s'. f x s = Some s' \<and> I s') \<Longrightarrow> \<exists>s'. foldM f xs s = Some s' \<and> I s'"
proof (induction xs arbitrary: s)
  case (Cons x xs)
  obtain t where "f x s = Some t" "I t" using Cons.prems by fastforce
  then show ?case using Cons by simp
qed simp

section \<open>Vectors\<close>

definition vat :: "'a list \<Rightarrow> int \<Rightarrow> 'a option" where
  "vat xs i = (if 0 \<le> i \<and> i < int (length xs) then Some (xs ! nat i) else None)"

definition vupd :: "'a list \<Rightarrow> int \<Rightarrow> ('a \<Rightarrow> 'a) \<Rightarrow> 'a list option" where
  "vupd xs i f = (if 0 \<le> i \<and> i < int (length xs) then Some (xs[nat i := f (xs ! nat i)]) else None)"

definition vat2 :: "'a list list \<Rightarrow> int \<Rightarrow> int \<Rightarrow> 'a option" where
  "vat2 xs i j = vat xs i \<bind> (\<lambda>r. vat r j)"

definition vupd2 :: "'a list list \<Rightarrow> int \<Rightarrow> int \<Rightarrow> ('a \<Rightarrow> 'a) \<Rightarrow> 'a list list option" where
  "vupd2 xs i j f = vat xs i \<bind> (\<lambda>r. vupd r j f \<bind> (\<lambda>r'. vupd xs i (\<lambda>_. r')))"

text \<open>The shape of a vector of \<open>n\<close> vectors of \<open>m\<close> elements.\<close>

definition shape :: "'a list list \<Rightarrow> int \<Rightarrow> int \<Rightarrow> bool" where
  "shape xs n m \<longleftrightarrow> int (length xs) = n \<and> (\<forall>r \<in> set xs. int (length r) = m)"

lemma vat_Some_iff: "(\<exists>x. vat xs i = Some x) \<longleftrightarrow> 0 \<le> i \<and> i < int (length xs)"
  by (simp add: vat_def)

lemma vupd_Some_iff: "(\<exists>ys. vupd xs i f = Some ys) \<longleftrightarrow> 0 \<le> i \<and> i < int (length xs)"
  by (simp add: vupd_def)

lemma vupd_length: "vupd xs i f = Some ys \<Longrightarrow> length ys = length xs"
  by (auto simp: vupd_def split: if_splits)

lemma vat_Nil [simp]: "vat [] i = None"
  by (simp add: vat_def)

lemma vat_Cons [simp]: "vat (x # xs) i = (if i = 0 then Some x else vat xs (i - 1))"
proof (cases "0 < i")
  case True
  then have "nat i = Suc (nat (i - 1))" by simp
  then show ?thesis using True by (auto simp: vat_def)
qed (auto simp: vat_def)

lemma vupd_Nil [simp]: "vupd [] i f = None"
  by (simp add: vupd_def)

lemma vupd_Cons [simp]: "vupd (x # xs) i f = (if i = 0 then Some (f x # xs) else map_option (Cons x) (vupd xs (i - 1) f))"
proof (cases "0 < i")
  case True
  then have "nat i = Suc (nat (i - 1))" by simp
  then show ?thesis using True by (auto simp: vupd_def)
qed (auto simp: vupd_def)

lemma vat_vupd: "vupd xs i f = Some ys \<Longrightarrow> vat ys j = (if j = i then map_option f (vat xs i) else vat xs j)"
  by (auto simp: vupd_def vat_def nth_list_update nat_eq_iff split: if_splits)

lemma vat2_vupd2:
  "vupd2 xs i j f = Some ys \<Longrightarrow> vat2 ys a b = (if a = i \<and> b = j then map_option f (vat2 xs i j) else vat2 xs a b)"
  by (auto simp: vupd2_def vat2_def vat_vupd split: bind_splits if_splits)

lemma shape_vupd2: "vupd2 xs i j f = Some ys \<Longrightarrow> shape ys n m = shape xs n m"
proof -
  assume u: "vupd2 xs i j f = Some ys"
  then obtain r r' where *: "vat xs i = Some r" "vupd r j f = Some r'" "vupd xs i (\<lambda>_. r') = Some ys"
    by (auto simp: vupd2_def split: bind_splits)
  then have i: "nat i < length xs" "r = xs ! nat i" "ys = xs[nat i := r']" "length r' = length r"
    by (auto simp: vat_def vupd_def split: if_splits)
  then have "length ys = length xs" "map length ys = map length xs"
    by (simp_all add: map_update list_update_same_conv)
  moreover have "(\<forall>r \<in> set zs. int (length r) = m) \<longleftrightarrow> (\<forall>l \<in> set (map length zs). int l = m)" for zs :: "'a list list"
    by simp
  ultimately show ?thesis unfolding shape_def by metis
qed

lemma vat2_shape: "shape xs n m \<Longrightarrow> (\<exists>x. vat2 xs i j = Some x) \<longleftrightarrow> 0 \<le> i \<and> i < n \<and> 0 \<le> j \<and> j < m"
  by (auto simp: vat2_def vat_def shape_def split: bind_splits if_splits)

lemma vupd2_Some_iff: "(\<exists>ys. vupd2 xs i j f = Some ys) \<longleftrightarrow> (\<exists>x. vat2 xs i j = Some x)"
  by (auto simp: vupd2_def vat2_def vupd_def vat_def split: bind_splits if_splits)

lemma vupd2_shape_Some: "shape xs n m \<Longrightarrow> (\<exists>ys. vupd2 xs i j f = Some ys) \<longleftrightarrow> 0 \<le> i \<and> i < n \<and> 0 \<le> j \<and> j < m"
  by (simp only: vupd2_Some_iff vat2_shape)

lemma shape_replicate [simp]: "0 \<le> n \<Longrightarrow> 0 \<le> m \<Longrightarrow> shape (replicate (nat n) (replicate (nat m) x)) n m"
  by (auto simp: shape_def)

lemma vat2_replicate:
  "vat2 (replicate n (replicate m x)) i j = (if 0 \<le> i \<and> i < int n \<and> 0 \<le> j \<and> j < int m then Some x else None)"
  by (auto simp: vat2_def vat_def)

section \<open>Enumerations and constants\<close>

datatype mess_type = EVG | ROUTER | WIRE | CREDIT

datatype routing_type = XY | TXY | CHIPLET_ROUTING | CHIPLET_STAR_TOPO_ROUTING

datatype VC_state_type = INIT | ROUTING | VC_AB | SW_AB | SW_TR | HOME

datatype flit_type = HEADER | BODY | TAIL | SINGLE

datatype vc_share_type = SHARE | MONO

datatype VC_usage_type = USED | FREE

type_synonym time_type = real
type_synonym add_type = "int list"
type_synonym VC_type = "int \<times> int"
type_synonym Atom_type = u64
type_synonym Data_type = "u64 list"

definition VC_NULL :: VC_type where
  "VC_NULL = (- 1, - 1)"

definition BUFF_BOUND :: int where
  "BUFF_BOUND = 100"

definition PIPE_DELAY :: time_type where
  "PIPE_DELAY = 1.0"

definition CREDIT_DELAY :: time_type where
  "CREDIT_DELAY = 1.0"

definition REPORT_PERIOD :: time_type where
  "REPORT_PERIOD = 2000"

definition S_ELPS :: time_type where
  "S_ELPS = 0.00000001"

definition MAX_64 :: u64 where
  "MAX_64 = 0xffffffffffffffff"

definition CORR_EFF :: real where
  "CORR_EFF = 0.8"

definition POWER_NOM :: real where
  "POWER_NOM = 10 ^ 9"

section \<open>Flits\<close>

text \<open>The finish time is never set: \<^term>\<open>None\<close> stands for the indeterminate value.\<close>

record flit_template =
  flit_id :: int
  flit_type_of :: flit_type
  sor_addr :: add_type
  des_addr :: add_type
  start_time :: time_type
  finish_time :: "time_type option"
  flit_data :: Data_type

definition flit_default :: flit_template where
  "flit_default = \<lparr>flit_id = 0, flit_type_of = HEADER, sor_addr = [], des_addr = [], start_time = 0,
     finish_time = Some 0, flit_data = []\<rparr>"

definition mk_flit :: "int \<Rightarrow> flit_type \<Rightarrow> add_type \<Rightarrow> add_type \<Rightarrow> time_type \<Rightarrow> Data_type \<Rightarrow> flit_template" where
  "mk_flit a b c d e f = \<lparr>flit_id = a, flit_type_of = b, sor_addr = c, des_addr = d, start_time = e,
     finish_time = None, flit_data = f\<rparr>"

definition isHeader :: "flit_type \<Rightarrow> bool" where
  "isHeader ft \<longleftrightarrow> ft = HEADER \<or> ft = SINGLE"

definition isTail :: "flit_type \<Rightarrow> bool" where
  "isTail ft \<longleftrightarrow> ft = TAIL \<or> ft = SINGLE"

section \<open>Events\<close>

record mess_event =
  event_start :: time_type
  event_type :: mess_type
  ev_src :: add_type
  ev_des :: add_type
  ev_pc :: int
  ev_vc :: int
  get_flit :: flit_template

definition mess_event_timed :: "time_type \<Rightarrow> mess_type \<Rightarrow> mess_event" where
  "mess_event_timed t mt = \<lparr>event_start = t, event_type = mt, ev_src = [], ev_des = [], ev_pc = 0, ev_vc = 0,
     get_flit = flit_default\<rparr>"

definition mess_event_credit :: "time_type \<Rightarrow> mess_type \<Rightarrow> add_type \<Rightarrow> add_type \<Rightarrow> int \<Rightarrow> int \<Rightarrow> mess_event" where
  "mess_event_credit t mt a b c d = \<lparr>event_start = t, event_type = mt, ev_src = a, ev_des = b, ev_pc = c, ev_vc = d,
     get_flit = flit_default\<rparr>"

definition mess_event_wire ::
    "time_type \<Rightarrow> mess_type \<Rightarrow> add_type \<Rightarrow> add_type \<Rightarrow> int \<Rightarrow> int \<Rightarrow> flit_template \<Rightarrow> mess_event" where
  "mess_event_wire t mt a b c d f = \<lparr>event_start = t, event_type = mt, ev_src = a, ev_des = b, ev_pc = c, ev_vc = d,
     get_flit = f\<rparr>"

lemmas event_defs = mess_event_timed_def mess_event_credit_def mess_event_wire_def

section \<open>Random numbers\<close>

text \<open>
  The C library's \<^verbatim>\<open>random\<close> is a parameter: the sequence of its results, each between 0 and
  \<^verbatim>\<open>RAND_MAX\<close>, and the number of results already consumed.
\<close>

record SRGen =
  draws :: "nat \<Rightarrow> nat"
  drawn :: nat

definition RAND_MAX :: nat where
  "RAND_MAX = 2147483647"

definition sflat01 :: "SRGen \<Rightarrow> real \<times> SRGen" where
  "sflat01 g = (real (draws g (drawn g)) * 1.0 / real RAND_MAX, g\<lparr>drawn := Suc (drawn g)\<rparr>)"

text \<open>Conversion of a floating-point value to \<^verbatim>\<open>long\<close> truncates.\<close>

definition c_long :: "real \<Rightarrow> int" where
  "c_long x = (if 0 \<le> x then \<lfloor>x\<rfloor> else \<lceil>x\<rceil>)"

definition flat_l :: "int \<Rightarrow> int \<Rightarrow> SRGen \<Rightarrow> (int \<times> SRGen) option" where
  "flat_l low high g =
     (if low < high
      then let (a, g) = sflat01 g; val = c_long (real_of_int (high - low) * a + real_of_int low)
           in if low \<le> val \<and> val < high then Some (val, g) else None
      else None)"

definition flat_ull :: "u64 \<Rightarrow> u64 \<Rightarrow> SRGen \<Rightarrow> (u64 \<times> SRGen) option" where
  "flat_ull low high g =
     (if low < high
      then let (a, g) = sflat01 g; val = \<lfloor>dbl64 (high - low) * a + dbl64 low\<rfloor>
           in if int (unat low) \<le> val \<and> val < int (unat high) then Some (word_of_int val, g) else None
      else None)"

lemma flat_l_range: "flat_l low high g = Some (v, g') \<Longrightarrow> low \<le> v \<and> v < high \<and> g' = g\<lparr>drawn := Suc (drawn g)\<rparr>"
  by (auto simp: flat_l_def sflat01_def Let_def split: if_splits)

end
