(* ===== verification/Popnet_Queue.thy ===== *)
theory Popnet_Queue
  imports Popnet_Base "HOL-Library.Multiset"
begin

text \<open>
  The event queue of \<^verbatim>\<open>mess_queue.cc\<close>. A \<^verbatim>\<open>std::multiset\<close> ordered by event time inserts an
  element behind the elements that compare equal and iterates from the earliest on, so it is the
  list of its elements in iteration order. The contract a client needs, what comes out first after
  an insertion, is a locale, interpreted on the list.
\<close>

section \<open>The queue\<close>

record mess_queue =
  current_time :: time_type
  last_time :: time_type
  mess_counter :: int
  m_q :: "mess_event list"
  total_finished :: int

definition event_less :: "mess_event \<Rightarrow> mess_event \<Rightarrow> bool" where
  "event_less a b \<longleftrightarrow> event_start a < event_start b"

fun multiset_insert :: "mess_event \<Rightarrow> mess_event list \<Rightarrow> mess_event list" where
  "multiset_insert x [] = [x]"
| "multiset_insert x (y # ys) = (if event_less x y then x # y # ys else y # multiset_insert x ys)"

definition add_message :: "mess_event \<Rightarrow> mess_queue \<Rightarrow> mess_queue" where
  "add_message x q = q\<lparr>mess_counter := mess_counter q + 1, m_q := multiset_insert x (m_q q)\<rparr>"

definition get_message :: "mess_queue \<Rightarrow> mess_event option" where
  "get_message q = (case m_q q of [] \<Rightarrow> None | x # _ \<Rightarrow> Some x)"

definition remove_top_message :: "mess_queue \<Rightarrow> mess_queue option" where
  "remove_top_message q = (case m_q q of [] \<Rightarrow> None | _ # xs \<Rightarrow> Some (q\<lparr>m_q := xs\<rparr>))"

definition message_queue_size :: "mess_queue \<Rightarrow> nat" where
  "message_queue_size q = length (m_q q)"

definition TotFin_inc :: "mess_queue \<Rightarrow> mess_queue" where
  "TotFin_inc q = q\<lparr>total_finished := total_finished q + 1\<rparr>"

definition TIME_0 :: time_type where
  "TIME_0 = 0"

definition mess_queue_init :: "time_type \<Rightarrow> mess_queue" where
  "mess_queue_init t0 =
     add_message (mess_event_timed TIME_0 ROUTER)
       \<lparr>current_time = t0, last_time = 0, mess_counter = 0, m_q = [], total_finished = 0\<rparr>"

section \<open>The contract\<close>

text \<open>
  An event queue: events with a time, a state with an invariant, and the contents as the list of
  pending events. \<open>peek\<close> yields an event of least time, the one that was inserted first among those.
\<close>

locale event_queue =
  fixes time :: "'e \<Rightarrow> 't :: linorder"
    and insert :: "'e \<Rightarrow> 'q \<Rightarrow> 'q"
    and peek :: "'q \<Rightarrow> 'e option"
    and pop :: "'q \<Rightarrow> 'q option"
    and pending :: "'q \<Rightarrow> 'e list"
    and invar :: "'q \<Rightarrow> bool"
  assumes insert_invar: "invar q \<Longrightarrow> invar (insert e q)"
    and insert_pending: "mset (pending (insert e q)) = add_mset e (mset (pending q))"
    and insert_fifo: "invar q \<Longrightarrow> filter (\<lambda>x. time x = t) (pending (insert e q))
        = filter (\<lambda>x. time x = t) (pending q) @ (if time e = t then [e] else [])"
    and invar_sorted: "invar q \<Longrightarrow> sorted (map time (pending q))"
    and peek_hd: "peek q = (case pending q of [] \<Rightarrow> None | e # _ \<Rightarrow> Some e)"
    and pop_invar: "invar q \<Longrightarrow> pop q = Some q' \<Longrightarrow> invar q'"
    and pop_tl: "map_option pending (pop q) = (case pending q of [] \<Rightarrow> None | _ # es \<Rightarrow> Some es)"
begin

lemma set_insert: "set (pending (insert e q)) = Set.insert e (set (pending q))"
  using arg_cong [OF insert_pending, of set_mset, of e q] by simp

lemma length_insert: "length (pending (insert e q)) = Suc (length (pending q))"
  using arg_cong [OF insert_pending, of size, of e q] by simp

lemma pop_Some_iff: "(\<exists>q'. pop q = Some q') \<longleftrightarrow> (\<exists>e. peek q = Some e)"
  using pop_tl [of q] peek_hd [of q] by (cases "pending q"; cases "pop q") auto

text \<open>The event that is processed next is the earliest one.\<close>

lemma peek_min: "invar q \<Longrightarrow> peek q = Some e \<Longrightarrow> e' \<in> set (pending q) \<Longrightarrow> time e \<le> time e'"
  using invar_sorted [of q] peek_hd [of q] by (cases "pending q") auto

text \<open>Nothing is lost: the popped event and the rest are the queue's contents.\<close>

lemma pop_pending: "peek q = Some e \<Longrightarrow> pop q = Some q' \<Longrightarrow> pending q = e # pending q'"
  using pop_tl [of q] peek_hd [of q] by (cases "pending q") auto

text \<open>A bound on the times of all pending events survives insertions above the bound.\<close>

lemma bounded_insert: "\<forall>x \<in> set (pending q). b \<le> time x \<Longrightarrow> b \<le> time e \<Longrightarrow> \<forall>x \<in> set (pending (insert e q)). b \<le> time x"
  by (simp add: set_insert)

lemma bounded_pop:
  assumes "invar q" "peek q = Some e" "pop q = Some q'"
  shows "\<forall>x \<in> set (pending q'). time e \<le> time x"
  using peek_min [OF assms(1,2)] pop_pending [OF assms(2,3)] by simp

end

section \<open>The list implements the contract\<close>

abbreviation queue_sorted :: "mess_queue \<Rightarrow> bool" where
  "queue_sorted q \<equiv> sorted (map event_start (m_q q))"

lemma mset_multiset_insert: "mset (multiset_insert x ys) = add_mset x (mset ys)"
  by (induction ys) auto

lemma set_multiset_insert: "set (multiset_insert x ys) = insert x (set ys)"
  by (induction ys) auto

lemma sorted_multiset_insert: "sorted (map event_start ys) \<Longrightarrow> sorted (map event_start (multiset_insert x ys))"
  by (induction ys) (auto simp: event_less_def set_multiset_insert not_less)

lemma filter_multiset_insert:
  "sorted (map event_start ys) \<Longrightarrow>
   filter (\<lambda>y. event_start y = t) (multiset_insert x ys)
     = filter (\<lambda>y. event_start y = t) ys @ (if event_start x = t then [x] else [])"
proof (induction ys)
  case (Cons y ys)
  have "filter (\<lambda>z. event_start z = event_start x) ys = []" if "event_start x < event_start y"
    using Cons.prems that by (auto simp: filter_empty_conv)
  then show ?case using Cons by (auto simp: event_less_def)
qed simp

interpretation mq: event_queue event_start add_message get_message remove_top_message m_q queue_sorted
  by unfold_locales
    (auto simp: add_message_def get_message_def remove_top_message_def mset_multiset_insert sorted_multiset_insert
      filter_multiset_insert split: list.splits)

section \<open>Properties\<close>

text \<open>
  C26: the event queue is a stable priority queue. Messages come out in order of their times, and
  messages of equal time in the order in which they were added: after adding any sequence of messages to
  an empty queue, the queue holds exactly these messages, sorted by time, and those of one time in
  the order of insertion.
\<close>

theorem add_message_stable:
  "let q = fold add_message es (q0\<lparr>m_q := []\<rparr>)
   in mset (m_q q) = mset es \<and> queue_sorted q \<and>
      filter (\<lambda>x. event_start x = t) (m_q q) = filter (\<lambda>x. event_start x = t) es \<and>
      mess_counter q = mess_counter q0 + int (length es)"
proof -
  have "queue_sorted (fold add_message es q) \<and>
      mset (m_q (fold add_message es q)) = mset es + mset (m_q q) \<and>
      filter (\<lambda>x. event_start x = t) (m_q (fold add_message es q))
        = filter (\<lambda>x. event_start x = t) (m_q q) @ filter (\<lambda>x. event_start x = t) es \<and>
      mess_counter (fold add_message es q) = mess_counter q + int (length es)" if "queue_sorted q" for q
    using that
  proof (induction es arbitrary: q)
    case (Cons e es)
    then show ?case
      using Cons.IH [OF mq.insert_invar [OF Cons.prems]] mq.insert_fifo [OF Cons.prems, of t e]
      by (simp add: mq.insert_pending) (simp add: add_message_def)
  qed simp
  from this [of "q0\<lparr>m_q := []\<rparr>"] show ?thesis by simp
qed

end
