(* ===== verification/Popnet_Routing.thy ===== *)
theory Popnet_Routing
  imports Popnet_Base
begin

text \<open>
  The topology and the routing algorithms: which output ports an algorithm offers for a destination
  (\<^verbatim>\<open>sim_routing.cc\<close>), and which router and input port an output port is wired to
  (\<^verbatim>\<open>getNextAddress\<close>, \<^verbatim>\<open>getWirePc\<close>, \<^verbatim>\<open>getFromRouter\<close>, \<^verbatim>\<open>getFromPort\<close> of \<^verbatim>\<open>sim_router.cc\<close>). The
  first argument \<open>n\<close> of these functions is the router's \<^verbatim>\<open>ary_size_\<close>, the second its address.
\<close>

section \<open>Wiring\<close>

text \<open>The conjunction is evaluated from the left and stops at the first failure.\<close>

definition isCentral :: "add_type \<Rightarrow> int \<Rightarrow> bool option" where
  "isCentral address centerXY = do {
     a0 \<leftarrow> vat address 0;
     if a0 \<noteq> centerXY then Some False
     else do {
       a1 \<leftarrow> vat address 1;
       if a1 \<noteq> centerXY then Some False
       else do {
         a2 \<leftarrow> vat address 2;
         if a2 \<noteq> 0 then Some False
         else do { a3 \<leftarrow> vat address 3; Some (a3 = 0) }
       }
     }
   }"

text \<open>\<^verbatim>\<open>ldiv\<close> truncates and is undefined for a zero divisor.\<close>

definition ldiv :: "int \<Rightarrow> int \<Rightarrow> (int \<times> int) option" where
  "ldiv a b = (if b = 0 then None else let q = sgn a * sgn b * (\<bar>a\<bar> div \<bar>b\<bar>) in Some (q, a - q * b))"

definition step_up :: "int \<Rightarrow> int \<Rightarrow> int" where
  "step_up n x = (if x + 1 = n then 0 else x + 1)"

definition step_down :: "int \<Rightarrow> int \<Rightarrow> int" where
  "step_down n x = (if x - 1 = - 1 then n - 1 else x - 1)"

definition getNextAddress :: "int \<Rightarrow> add_type \<Rightarrow> int \<Rightarrow> add_type option" where
  "getNextAddress n address port = do {
     let t = port - 1;
     let centerXY = n - 1;
     c \<leftarrow> isCentral address centerXY;
     if c then do { (q, r) \<leftarrow> ldiv t centerXY; Some [q, r, 0, 0] }
     else do {
       let p = t div 2;
       if p = int (length address) then Some [centerXY, centerXY, 0, 0]
       else if t mod 2 = 1 then vupd address p (step_up n)
       else vupd address p (step_down n)
     }
   }"

definition getWirePc :: "int \<Rightarrow> add_type \<Rightarrow> int \<Rightarrow> int option" where
  "getWirePc n address port = do {
     let centerPort = 2 * int (length address) + 1;
     let centerXY = n - 1;
     c \<leftarrow> isCentral address centerXY;
     if c then Some centerPort
     else if port = centerPort then do { a0 \<leftarrow> vat address 0; a1 \<leftarrow> vat address 1; Some (a0 * centerXY + a1 + 1) }
     else Some (port + (if port mod 2 = 1 then 1 else - 1))
   }"

definition getFromRouter :: "int \<Rightarrow> add_type \<Rightarrow> int \<Rightarrow> add_type option" where
  "getFromRouter n address port = do {
     let centerXY = n - 1;
     let t = port - 1;
     c \<leftarrow> isCentral address centerXY;
     if c then do { (q, r) \<leftarrow> ldiv t centerXY; Some [q, r, 0, 0] }
     else do {
       let p = t div 2;
       if p = int (length address) then Some [centerXY, centerXY, 0, 0]
       else if t mod 2 = 1 then vupd address p (step_up n)
       else vupd address p (step_down n)
     }
   }"

definition getFromPort :: "int \<Rightarrow> add_type \<Rightarrow> int \<Rightarrow> int option" where
  "getFromPort n address port = do {
     let centerXY = n - 1;
     let centerPort = 2 * int (length address) + 1;
     c \<leftarrow> isCentral address centerXY;
     if c then Some centerPort
     else if centerPort = port then do { a0 \<leftarrow> vat address 0; a1 \<leftarrow> vat address 1; Some (a0 * centerXY + a1 + 1) }
     else Some (port + (if port mod 2 = 1 then 1 else - 1))
   }"

definition STAR_TOPO_4_2_INNER :: time_type where
  "STAR_TOPO_4_2_INNER = 47.8721"

definition STAR_TOPO_4_2_OUTER :: time_type where
  "STAR_TOPO_4_2_OUTER = 124.4789"

definition SHORT_WIRE_DELAY :: time_type where
  "SHORT_WIRE_DELAY = 9.57"

definition getWireDelay :: "int \<Rightarrow> add_type \<Rightarrow> int \<Rightarrow> time_type option" where
  "getWireDelay n address port = do {
     let centerXY = n - 1;
     c \<leftarrow> isCentral address centerXY;
     if c then do {
       (chipletX, _) \<leftarrow> ldiv (port - 1) centerXY;
       Some (if chipletX = 1 \<or> chipletX = 2 then STAR_TOPO_4_2_INNER else STAR_TOPO_4_2_OUTER)
     }
     else if 2 * int (length address) + 1 = port then do {
       a0 \<leftarrow> vat address 0;
       Some (if a0 = 1 \<or> a0 = 2 then STAR_TOPO_4_2_INNER else STAR_TOPO_4_2_OUTER)
     }
     else Some SHORT_WIRE_DELAY
   }"

section \<open>Routing algorithms\<close>

text \<open>Each algorithm is modelled by the list of output channels it adds for the header of a packet.\<close>

definition TXY_y :: "int \<Rightarrow> int \<Rightarrow> VC_type list" where
  "TXY_y n yoffset =
     (if \<bar>yoffset\<bar> * 2 \<le> n
      then if yoffset < 0 then [(3, 0)] else if yoffset > 0 then [(4, 1)] else []
      else if yoffset < 0 then [(4, 0)] else if yoffset > 0 then [(3, 1)] else [])"

definition TXY_algorithm :: "int \<Rightarrow> add_type \<Rightarrow> add_type \<Rightarrow> VC_type list option" where
  "TXY_algorithm n address des = do {
     d0 \<leftarrow> vat des 0; a0 \<leftarrow> vat address 0; d1 \<leftarrow> vat des 1; a1 \<leftarrow> vat address 1;
     let xoffset = d0 - a0;
     let yoffset = d1 - a1;
     Some (if \<bar>xoffset\<bar> * 2 \<le> n
           then if xoffset < 0 then [(1, 0)] else if xoffset > 0 then [(2, 1)] else TXY_y n yoffset
           else if xoffset < 0 then [(2, 0)] else if xoffset > 0 then [(1, 1)] else TXY_y n yoffset)
   }"

definition XY_algorithm :: "int \<Rightarrow> add_type \<Rightarrow> add_type \<Rightarrow> VC_type list option" where
  "XY_algorithm n address des = do {
     d0 \<leftarrow> vat des 0; a0 \<leftarrow> vat address 0; d1 \<leftarrow> vat des 1; a1 \<leftarrow> vat address 1;
     let xoffset = d0 - a0;
     let yoffset = d1 - a1;
     Some (if yoffset < 0 then [(3, 0), (3, 1), (3, 2), (3, 3)]
           else if yoffset > 0 then [(4, 0), (4, 1), (4, 2), (4, 3)]
           else if xoffset < 0 then [(1, 0), (1, 1), (1, 2), (1, 3)]
           else if xoffset > 0 then [(2, 0), (2, 1), (2, 2), (2, 3)]
           else [])
   }"

text \<open>The differences of the first components of two addresses, as many as the first has.\<close>

definition deltas :: "add_type \<Rightarrow> add_type \<Rightarrow> add_type \<Rightarrow> int list option" where
  "deltas ref des address =
     (if length ref \<le> length des \<and> length ref \<le> length address
      then Some (map (\<lambda>i. des ! i - address ! i) [0..<length ref]) else None)"

definition two_vcs :: "int \<Rightarrow> VC_type list" where
  "two_vcs port = map (\<lambda>i. (port, i)) [0, 1]"

definition chiplet_routing_alg :: "int \<Rightarrow> add_type \<Rightarrow> add_type \<Rightarrow> VC_type list option" where
  "chiplet_routing_alg n address des = do {
     delta \<leftarrow> deltas des des address;
     d0 \<leftarrow> vat delta 0; d1 \<leftarrow> (if d0 = 0 then vat delta 1 else Some 1);
     if d0 = 0 \<and> d1 = 0
     then do {
       d2 \<leftarrow> vat delta 2;
       if d2 = 0 then do { d3 \<leftarrow> vat delta 3; Some (two_vcs (if d3 < 0 then 7 else 8)) }
       else Some (two_vcs (if d2 < 0 then 5 else 6))
     }
     else do {
       a2 \<leftarrow> vat address 2; a3 \<leftarrow> (if a2 = 0 then vat address 3 else Some 1);
       if a2 = 0 \<and> a3 = 0
       then do {
         d1 \<leftarrow> (if d0 = 0 then vat delta 1 else Some 0);
         Some (two_vcs (if d0 = 0 then if d1 < 0 then 3 else 4 else if d0 < 0 then 1 else 2))
       }
       else Some (two_vcs (if a2 > 0 then 5 else 7))
     }
   }"

definition addRoutingForDifferentVC :: "int \<Rightarrow> VC_type list" where
  "addRoutingForDifferentVC port = two_vcs port"

text \<open>The port is returned only for a non-zero component, otherwise the caller's variable keeps its value.\<close>

definition checkAddressIndex :: "int list \<Rightarrow> int \<Rightarrow> int option \<Rightarrow> (bool \<times> int option) option" where
  "checkAddressIndex d idx port = do {
     x \<leftarrow> vat d idx;
     Some (if x = 0 then (True, port) else (False, Some (2 * idx + (if x > 0 then 2 else 1))))
   }"

text \<open>The variable \<^verbatim>\<open>port\<close> starts indeterminate.\<close>

definition chiplet_star_topo_routing_alg :: "int \<Rightarrow> add_type \<Rightarrow> add_type \<Rightarrow> VC_type list option" where
  "chiplet_star_topo_routing_alg n address des = do {
     let addrLen = int (length address);
     delta \<leftarrow> deltas address des address;
     let centerXY = n - 1;
     c \<leftarrow> isCentral address centerXY;
     if c then do { d0 \<leftarrow> vat des 0; d1 \<leftarrow> vat des 1; Some (addRoutingForDifferentVC (d0 * centerXY + d1 + 1)) }
     else do {
       d0 \<leftarrow> vat delta 0; d1 \<leftarrow> (if d0 = 0 then vat delta 1 else Some 1);
       if d0 = 0 \<and> d1 = 0
       then do {
         (zero, port) \<leftarrow> checkAddressIndex delta 2 None;
         (_, port) \<leftarrow> (if zero then checkAddressIndex delta 3 port else Some (zero, port));
         port \<leftarrow> port;
         Some (addRoutingForDifferentVC port)
       }
       else do {
         a2 \<leftarrow> vat address 2; a3 \<leftarrow> (if a2 = 0 then vat address 3 else Some 1);
         if a2 = 0 \<and> a3 = 0 then Some (addRoutingForDifferentVC (2 * addrLen + 1))
         else Some (addRoutingForDifferentVC (if a2 > 0 then 5 else 7))
       }
     }
   }"

text \<open>The algorithm a configuration selects; other numbers fail an assertion in the constructor.\<close>

definition routing_alg_of :: "int \<Rightarrow> routing_type option" where
  "routing_alg_of k = (if k = 0 then Some XY else if k = 1 then Some TXY else if k = 2 then Some CHIPLET_ROUTING
     else if k = 3 then Some CHIPLET_STAR_TOPO_ROUTING else None)"

fun curr_algorithm :: "routing_type \<Rightarrow> int \<Rightarrow> add_type \<Rightarrow> add_type \<Rightarrow> VC_type list option" where
  "curr_algorithm XY = XY_algorithm"
| "curr_algorithm TXY = TXY_algorithm"
| "curr_algorithm CHIPLET_ROUTING = chiplet_routing_alg"
| "curr_algorithm CHIPLET_STAR_TOPO_ROUTING = chiplet_star_topo_routing_alg"

section \<open>Addresses and links\<close>

definition valid_addr :: "int \<Rightarrow> add_type \<Rightarrow> bool" where
  "valid_addr n a \<longleftrightarrow> (\<forall>x \<in> set a. 0 \<le> x \<and> x < n)"

lemma length_2E: "length a = 2 \<Longrightarrow> (\<And>x y. a = [x, y] \<Longrightarrow> P) \<Longrightarrow> P"
  by (auto simp: length_Suc_conv numeral_2_eq_2)

lemma length_4E: "length a = 4 \<Longrightarrow> (\<And>w x y z. a = [w, x, y, z] \<Longrightarrow> P) \<Longrightarrow> P"
  by (auto simp: length_Suc_conv eval_nat_numeral)

lemma step_up_down [simp]: "0 \<le> x \<Longrightarrow> x < n \<Longrightarrow> step_down n (step_up n x) = x" "0 \<le> x \<Longrightarrow> x < n \<Longrightarrow> step_up n (step_down n x) = x"
  by (auto simp: step_up_def step_down_def)

lemma step_range: "0 \<le> x \<Longrightarrow> x < n \<Longrightarrow> 0 \<le> step_up n x \<and> step_up n x < n \<and> 0 \<le> step_down n x \<and> step_down n x < n"
  by (auto simp: step_up_def step_down_def)

lemma isCentral_4: "isCentral [w, x, y, z] c = Some (w = c \<and> x = c \<and> y = 0 \<and> z = 0)"
  by (simp add: isCentral_def)

lemma isCentral_2: "isCentral [x, y] c = (if x = c \<and> y = c then None else Some False)"
  by (simp add: isCentral_def)

text \<open>
  The channels that the topology provides: the ring links of a router that is not the hub, the link
  of a gateway to the hub, and the links of the hub to the gateways.
\<close>

definition linked :: "int \<Rightarrow> add_type \<Rightarrow> int \<Rightarrow> bool" where
  "linked n a p \<longleftrightarrow> (case isCentral a (n - 1) of
       None \<Rightarrow> False
     | Some True \<Rightarrow> length a = 4 \<and> 1 \<le> p \<and> 2 \<le> n
     | Some False \<Rightarrow>
         if p = 2 * int (length a) + 1 then length a = 4 \<and> a ! 1 < n - 1 \<and> a ! 2 = 0 \<and> a ! 3 = 0
         else 1 \<le> p \<and> p \<le> 2 * int (length a) \<and>
              (\<exists>b. getNextAddress n a p = Some b \<and> isCentral b (n - 1) = Some False))"

lemma ldiv_pos: "0 \<le> t \<Longrightarrow> 0 < c \<Longrightarrow> ldiv t c = Some (t div c, t mod c)"
  by (cases "t = 0") (auto simp: ldiv_def minus_div_mult_eq_mod Let_def)

lemma ring_link:
  assumes "valid_addr n a" "isCentral a (n - 1) = Some False" "1 \<le> p" "p \<le> 2 * int (length a)"
    and b: "getNextAddress n a p = Some b" "isCentral b (n - 1) = Some False"
  shows "\<exists>q. getWirePc n a p = Some q \<and> getFromRouter n b q = Some a \<and> getFromPort n b q = Some p"
proof -
  define i where "i = (p - 1) div 2"
  have i: "0 \<le> i" "i < int (length a)" using assms(3,4) unfolding i_def by linarith+
  define x where "x = a ! nat i"
  have x: "0 \<le> x" "x < n" using assms(1) i unfolding x_def valid_addr_def by (auto simp: nat_less_iff)
  let ?q = "p + (if p mod 2 = 1 then 1 else - 1)"
  have q: "getWirePc n a p = Some ?q"
    using assms(2,4) by (simp add: getWirePc_def Let_def)
  have b': "b = a[nat i := (if (p - 1) mod 2 = 1 then step_up n x else step_down n x)]" "length b = length a"
    using b(1) i assms(2,4) unfolding getNextAddress_def Let_def i_def [symmetric] x_def
    by (auto simp: vupd_def split: if_splits)
  have qi: "(?q - 1) div 2 = i" "(?q - 1) mod 2 = 1 \<longleftrightarrow> (p - 1) mod 2 = 0" "?q \<noteq> 2 * int (length a) + 1"
    "?q + (if ?q mod 2 = 1 then 1 else - 1) = p"
    using assms(3,4) unfolding i_def by presburger+
  have bi: "b ! nat i = (if (p - 1) mod 2 = 1 then step_up n x else step_down n x)" and ba: "b[nat i := x] = a"
    using i by (auto simp: b'(1) x_def nat_less_iff)
  have "getFromRouter n b ?q = Some a"
    unfolding getFromRouter_def b(2) Let_def bind.bind_lunit qi(1)
    using i qi(2) bi ba x by (auto simp: vupd_def b'(2))
  moreover have "getFromPort n b ?q = Some p"
    unfolding getFromPort_def b(2) Let_def bind.bind_lunit using qi(3,4) b'(2) by auto
  ultimately show ?thesis using q by blast
qed

lemma hub_link:
  assumes "valid_addr n [w, x, y, z]" "x < n - 1" "y = 0" "z = 0"
  shows "getWirePc n [w, x, y, z] 9 = Some (w * (n - 1) + x + 1)"
    "getNextAddress n [w, x, y, z] 9 = Some [n - 1, n - 1, 0, 0]"
    "getFromRouter n [n - 1, n - 1, 0, 0] (w * (n - 1) + x + 1) = Some [w, x, y, z]"
    "getFromPort n [n - 1, n - 1, 0, 0] (w * (n - 1) + x + 1) = Some 9"
  using assms
  by (simp_all add: getWirePc_def getNextAddress_def getFromRouter_def getFromPort_def isCentral_4 ldiv_pos valid_addr_def Let_def)

lemma gateway_link:
  assumes "1 \<le> p" "2 \<le> n"
  shows "getWirePc n [n - 1, n - 1, 0, 0] p = Some 9"
    "getNextAddress n [n - 1, n - 1, 0, 0] p = Some [(p - 1) div (n - 1), (p - 1) mod (n - 1), 0, 0]"
    "getFromRouter n [(p - 1) div (n - 1), (p - 1) mod (n - 1), 0, 0] 9 = Some [n - 1, n - 1, 0, 0]"
    "getFromPort n [(p - 1) div (n - 1), (p - 1) mod (n - 1), 0, 0] 9 = Some p"
proof -
  have "(p - 1) mod (n - 1) < n - 1" by (rule pos_mod_bound) (use assms in simp)
  then have "(p - 1) mod (n - 1) \<noteq> n - 1" by linarith
  moreover have "(p - 1) div (n - 1) * (n - 1) + (p - 1) mod (n - 1) + 1 = p"
    using div_mult_mod_eq [of "p - 1" "n - 1"] by linarith
  ultimately show
    "getWirePc n [n - 1, n - 1, 0, 0] p = Some 9"
    "getNextAddress n [n - 1, n - 1, 0, 0] p = Some [(p - 1) div (n - 1), (p - 1) mod (n - 1), 0, 0]"
    "getFromRouter n [(p - 1) div (n - 1), (p - 1) mod (n - 1), 0, 0] 9 = Some [n - 1, n - 1, 0, 0]"
    "getFromPort n [(p - 1) div (n - 1), (p - 1) mod (n - 1), 0, 0] 9 = Some p"
    using assms
    by (simp_all add: getWirePc_def getNextAddress_def getFromRouter_def getFromPort_def isCentral_4 ldiv_pos Let_def)
qed



section \<open>Delivery\<close>

text \<open>
  The router a packet is in after a hop: the candidates an algorithm offers must all lead to the
  same router.
\<close>

definition next_hop :: "routing_type \<Rightarrow> int \<Rightarrow> add_type \<Rightarrow> add_type \<Rightarrow> add_type option" where
  "next_hop alg n des a = do {
     cs \<leftarrow> curr_algorithm alg n a des;
     (case remdups (map (\<lambda>c. getNextAddress n a (fst c)) cs) of [b] \<Rightarrow> b | _ \<Rightarrow> None)
   }"

fun hops :: "nat \<Rightarrow> ('a \<Rightarrow> 'a option) \<Rightarrow> 'a \<Rightarrow> 'a option" where
  "hops 0 nxt a = Some a"
| "hops (Suc k) nxt a = nxt a \<bind> hops k nxt"

text \<open>A routing function that comes one step closer to the destination with every hop delivers.\<close>

locale routing_progress =
  fixes nxt :: "'a \<Rightarrow> 'a option" and dist :: "'a \<Rightarrow> nat" and good :: "'a \<Rightarrow> bool" and dest :: 'a
  assumes progress: "good a \<Longrightarrow> a \<noteq> dest \<Longrightarrow> \<exists>b. nxt a = Some b \<and> good b \<and> dist a = Suc (dist b)"
    and arrived: "good a \<Longrightarrow> dist a = 0 \<longleftrightarrow> a = dest"
begin

lemma delivers: "good a \<Longrightarrow> hops (dist a) nxt a = Some dest"
proof (induction "dist a" arbitrary: a)
  case 0
  then show ?case using arrived [of a] by simp
next
  case (Suc k)
  then obtain b where "nxt a = Some b" "good b" "dist a = Suc (dist b)"
    using progress [of a] arrived [of a] by force
  then show ?case using Suc by simp
qed

lemma not_earlier: "good a \<Longrightarrow> k < dist a \<Longrightarrow> \<exists>b. hops k nxt a = Some b \<and> good b \<and> b \<noteq> dest"
proof (induction k arbitrary: a)
  case 0
  then show ?case using arrived [of a] by auto
next
  case (Suc k)
  then obtain b where "nxt a = Some b" "good b" "dist a = Suc (dist b)"
    using progress [of a] arrived [of a] by force
  then show ?case using Suc by simp
qed

end

lemma remdups_const: "cs \<noteq> [] \<Longrightarrow> \<forall>c \<in> set cs. f c = b \<Longrightarrow> remdups (map f cs) = [b]"
proof (induction cs)
  case (Cons c cs)
  then show ?case by (cases cs) auto
qed simp

lemma next_hop_port:
  assumes "curr_algorithm alg n a des = Some cs" "cs \<noteq> []" "\<forall>c \<in> set cs. fst c = p" "getNextAddress n a p = Some b"
  shows "next_hop alg n des a = Some b"
  using assms remdups_const [of cs "\<lambda>c. getNextAddress n a (fst c)" "Some b"] by (simp add: next_hop_def)

text \<open>What a ring link does in two and in four dimensions.\<close>

lemma next_2:
  assumes "\<not> (x = n - 1 \<and> y = n - 1)"
  shows "getNextAddress n [x, y] 1 = Some [step_down n x, y]" "getNextAddress n [x, y] 2 = Some [step_up n x, y]"
    "getNextAddress n [x, y] 3 = Some [x, step_down n y]" "getNextAddress n [x, y] 4 = Some [x, step_up n y]"
  using assms by (auto simp: getNextAddress_def isCentral_2 Let_def)

lemma next_4:
  assumes "\<not> (w = n - 1 \<and> x = n - 1 \<and> y = 0 \<and> z = 0)"
  shows "getNextAddress n [w, x, y, z] 1 = Some [step_down n w, x, y, z]" "getNextAddress n [w, x, y, z] 2 = Some [step_up n w, x, y, z]"
    "getNextAddress n [w, x, y, z] 3 = Some [w, step_down n x, y, z]" "getNextAddress n [w, x, y, z] 4 = Some [w, step_up n x, y, z]"
    "getNextAddress n [w, x, y, z] 5 = Some [w, x, step_down n y, z]" "getNextAddress n [w, x, y, z] 6 = Some [w, x, step_up n y, z]"
    "getNextAddress n [w, x, y, z] 7 = Some [w, x, y, step_down n z]" "getNextAddress n [w, x, y, z] 8 = Some [w, x, y, step_up n z]"
    "getNextAddress n [w, x, y, z] 9 = Some [n - 1, n - 1, 0, 0]"
  using assms by (auto simp: getNextAddress_def isCentral_4 Let_def)

subsection \<open>Dimension order on a mesh\<close>

definition XY_dist :: "add_type \<Rightarrow> add_type \<Rightarrow> nat" where
  "XY_dist d a = nat (\<bar>d ! 0 - a ! 0\<bar> + \<bar>d ! 1 - a ! 1\<bar>)"

text \<open>
  The router \<open>(n - 1, n - 1)\<close> of a two-dimensional network cannot forward: the test for the hub of
  the star topology reads components its address does not have. A route avoids it when that router
  is neither the source nor the turning point.
\<close>

definition XY_good :: "int \<Rightarrow> add_type \<Rightarrow> add_type \<Rightarrow> bool" where
  "XY_good n d a \<longleftrightarrow> length a = 2 \<and> length d = 2 \<and> valid_addr n a \<and> valid_addr n d \<and>
     (a = d \<or> \<not> (a ! 0 = n - 1 \<and> (a ! 1 = n - 1 \<or> d ! 1 = n - 1 \<and> d ! 0 \<noteq> n - 1)))"

lemma XY_progress:
  assumes "XY_good n d a" "a \<noteq> d"
  shows "\<exists>b. next_hop XY n d a = Some b \<and> XY_good n d b \<and> XY_dist d a = Suc (XY_dist d b)"
proof -
  obtain x y where a: "a = [x, y]" using assms(1) by (auto simp: XY_good_def elim: length_2E)
  obtain u v where d: "d = [u, v]" using assms(1) by (auto simp: XY_good_def elim: length_2E)
  have r: "0 \<le> x" "x < n" "0 \<le> y" "y < n" "0 \<le> u" "u < n" "0 \<le> v" "v < n"
    and g: "\<not> (x = n - 1 \<and> (y = n - 1 \<or> v = n - 1 \<and> u \<noteq> n - 1))" and ne: "x \<noteq> u \<or> y \<noteq> v"
    using assms by (auto simp: XY_good_def valid_addr_def a d)
  note nx = next_2 [of x n y]
  consider "v < y" | "v > y" | "v = y" "u < x" | "v = y" "u > x" using ne by linarith
  then show ?thesis
  proof cases
    case 1
    have "next_hop XY n d a = Some [x, step_down n y]"
      by (rule next_hop_port [where p = 3]) (use 1 g nx in \<open>auto simp: a d XY_algorithm_def\<close>)
    then show ?thesis using 1 r g by (auto simp: a d XY_good_def XY_dist_def valid_addr_def step_down_def)
  next
    case 2
    have "next_hop XY n d a = Some [x, step_up n y]"
      by (rule next_hop_port [where p = 4]) (use 2 g nx in \<open>auto simp: a d XY_algorithm_def\<close>)
    then show ?thesis using 2 r g by (auto simp: a d XY_good_def XY_dist_def valid_addr_def step_up_def)
  next
    case 3
    have "next_hop XY n d a = Some [step_down n x, y]"
      by (rule next_hop_port [where p = 1]) (use 3 g nx in \<open>auto simp: a d XY_algorithm_def\<close>)
    then show ?thesis using 3 r g by (auto simp: a d XY_good_def XY_dist_def valid_addr_def step_down_def)
  next
    case 4
    have "next_hop XY n d a = Some [step_up n x, y]"
      by (rule next_hop_port [where p = 2]) (use 4 g nx in \<open>auto simp: a d XY_algorithm_def\<close>)
    then show ?thesis using 4 r g by (auto simp: a d XY_good_def XY_dist_def valid_addr_def step_up_def)
  qed
qed

interpretation xy: routing_progress "next_hop XY n d" "XY_dist d" "XY_good n d" d for n d
proof unfold_locales
  show "XY_good n d a \<Longrightarrow> a \<noteq> d \<Longrightarrow> \<exists>b. next_hop XY n d a = Some b \<and> XY_good n d b \<and> XY_dist d a = Suc (XY_dist d b)" for a
    by (rule XY_progress)
  show "XY_dist d a = 0 \<longleftrightarrow> a = d" if "XY_good n d a" for a
    using that by (auto simp: XY_good_def XY_dist_def elim!: length_2E)
qed

subsection \<open>Shortest way round a torus\<close>

definition ring_dist :: "int \<Rightarrow> int \<Rightarrow> int \<Rightarrow> int" where
  "ring_dist n u x = min \<bar>u - x\<bar> (n - \<bar>u - x\<bar>)"

definition TXY_dist :: "int \<Rightarrow> add_type \<Rightarrow> add_type \<Rightarrow> nat" where
  "TXY_dist n d a = nat (ring_dist n (d ! 0) (a ! 0) + ring_dist n (d ! 1) (a ! 1))"

text \<open>The route turns at \<open>(d ! 0, a ! 1)\<close>; these conditions keep the corner router off it.\<close>

definition TXY_good :: "int \<Rightarrow> add_type \<Rightarrow> add_type \<Rightarrow> bool" where
  "TXY_good n d a \<longleftrightarrow> length a = 2 \<and> length d = 2 \<and> valid_addr n a \<and> valid_addr n d \<and> 
     d ! 0 \<noteq> n - 1 \<and> (a ! 0 = d ! 0 \<or> a ! 1 \<noteq> n - 1)"

lemma ring_dist_step:
  assumes "0 \<le> x" "x < n" "0 \<le> u" "u < n" "u \<noteq> x"
  shows "(\<bar>u - x\<bar> * 2 \<le> n) = (u < x) \<Longrightarrow> ring_dist n u x = ring_dist n u (step_down n x) + 1"
    "(\<bar>u - x\<bar> * 2 \<le> n) = (x < u) \<Longrightarrow> ring_dist n u x = ring_dist n u (step_up n x) + 1"
  using assms by (auto simp: ring_dist_def step_up_def step_down_def min_def split: if_splits)

lemma ring_dist_pos: "0 \<le> x \<Longrightarrow> x < n \<Longrightarrow> 0 \<le> u \<Longrightarrow> u < n \<Longrightarrow> 0 \<le> ring_dist n u x \<and> (ring_dist n u x = 0 \<longleftrightarrow> u = x)"
  by (auto simp: ring_dist_def)

lemma TXY_candidates:
  "TXY_algorithm n [x, y] [u, v] = Some
     (if u \<noteq> x then [(if (\<bar>u - x\<bar> * 2 \<le> n) = (u < x) then 1 else 2, if x < u then 1 else 0)]
      else if v \<noteq> y then [(if (\<bar>v - y\<bar> * 2 \<le> n) = (v < y) then 3 else 4, if y < v then 1 else 0)]
      else [])"
  by (simp add: TXY_algorithm_def TXY_y_def)

lemma TXY_progress:
  assumes "TXY_good n d a" "a \<noteq> d"
  shows "\<exists>b. next_hop TXY n d a = Some b \<and> TXY_good n d b \<and> TXY_dist n d a = Suc (TXY_dist n d b)"
proof -
  obtain x y where a: "a = [x, y]" using assms(1) by (auto simp: TXY_good_def elim: length_2E)
  obtain u v where d: "d = [u, v]" using assms(1) by (auto simp: TXY_good_def elim: length_2E)
  have r: "0 \<le> x" "x < n" "0 \<le> y" "y < n" "0 \<le> u" "u < n" "0 \<le> v" "v < n"
    and g: "u \<noteq> n - 1" "x = u \<or> y \<noteq> n - 1" and ne: "x \<noteq> u \<or> y \<noteq> v"
    using assms by (auto simp: TXY_good_def valid_addr_def a d)
  note nx = next_2 [of x n y]
  have closer: "\<exists>b. next_hop TXY n d a = Some b \<and> TXY_good n d b \<and> TXY_dist n d a = Suc (TXY_dist n d b)"
    if "next_hop TXY n d a = Some [p, q]" "0 \<le> p" "p < n" "0 \<le> q" "q < n" "p = u \<or> q \<noteq> n - 1"
      "ring_dist n u x + ring_dist n v y = ring_dist n u p + ring_dist n v q + 1" for p q
    using that r g ring_dist_pos [of p n u] ring_dist_pos [of q n v]
    by (auto simp: TXY_good_def TXY_dist_def a d valid_addr_def nat_eq_iff)
  show ?thesis
  proof (cases "u = x")
    case False
    show ?thesis
    proof (cases "(\<bar>u - x\<bar> * 2 \<le> n) = (u < x)")
      case True
      have "next_hop TXY n d a = Some [step_down n x, y]"
        by (rule next_hop_port [where p = 1]) (use True False g nx in \<open>auto simp: a d TXY_candidates\<close>)
      then show ?thesis by (rule closer) (use False r g step_range [of x n] ring_dist_step(1) [of x n u] True in auto)
    next
      case F: False
      have "next_hop TXY n d a = Some [step_up n x, y]"
        by (rule next_hop_port [where p = 2]) (use F False g nx in \<open>auto simp: a d TXY_candidates\<close>)
      then show ?thesis by (rule closer) (use False r g step_range [of x n] ring_dist_step(2) [of x n u] F in auto)
    qed
  next
    case True
    then have "v \<noteq> y" using ne by simp
    show ?thesis
    proof (cases "(\<bar>v - y\<bar> * 2 \<le> n) = (v < y)")
      case T: True
      have "next_hop TXY n d a = Some [x, step_down n y]"
        by (rule next_hop_port [where p = 3]) (use T True \<open>v \<noteq> y\<close> g nx in \<open>auto simp: a d TXY_candidates\<close>)
      then show ?thesis by (rule closer) (use True r g step_range [of y n] ring_dist_step(1) [of y n v] T \<open>v \<noteq> y\<close> in auto)
    next
      case F: False
      have "next_hop TXY n d a = Some [x, step_up n y]"
        by (rule next_hop_port [where p = 4]) (use F True \<open>v \<noteq> y\<close> g nx in \<open>auto simp: a d TXY_candidates\<close>)
      then show ?thesis by (rule closer) (use True r g step_range [of y n] ring_dist_step(2) [of y n v] F \<open>v \<noteq> y\<close> in auto)
    qed
  qed
qed

interpretation txy: routing_progress "next_hop TXY n d" "TXY_dist n d" "TXY_good n d" d for n d
proof unfold_locales
  show "TXY_good n d a \<Longrightarrow> a \<noteq> d \<Longrightarrow> \<exists>b. next_hop TXY n d a = Some b \<and> TXY_good n d b \<and> TXY_dist n d a = Suc (TXY_dist n d b)" for a
    by (rule TXY_progress)
  show "TXY_dist n d a = 0 \<longleftrightarrow> a = d" if g: "TXY_good n d a" for a
  proof -
    obtain x y where a: "a = [x, y]" using g by (auto simp: TXY_good_def elim: length_2E)
    obtain u v where d: "d = [u, v]" using g by (auto simp: TXY_good_def elim: length_2E)
    show ?thesis using g ring_dist_pos [of x n u] ring_dist_pos [of y n v]
      by (auto simp: TXY_good_def TXY_dist_def a d valid_addr_def)
  qed
qed

subsection \<open>Chiplets on a mesh\<close>

definition chiplet_dist :: "add_type \<Rightarrow> add_type \<Rightarrow> nat" where
  "chiplet_dist d a =
     (if d ! 0 = a ! 0 \<and> d ! 1 = a ! 1 then nat \<bar>d ! 2 - a ! 2\<bar> + nat \<bar>d ! 3 - a ! 3\<bar>
      else nat (a ! 2) + nat (a ! 3) + nat \<bar>d ! 0 - a ! 0\<bar> + nat \<bar>d ! 1 - a ! 1\<bar> + nat (d ! 2) + nat (d ! 3))"

text \<open>The second chiplet coordinates keep the route away from the gateway of chiplet \<open>(n - 1, n - 1)\<close>.\<close>

definition chiplet_good :: "int \<Rightarrow> add_type \<Rightarrow> add_type \<Rightarrow> bool" where
  "chiplet_good n d a \<longleftrightarrow> length a = 4 \<and> length d = 4 \<and> valid_addr n a \<and> valid_addr n d \<and> a ! 1 \<noteq> n - 1 \<and> d ! 1 \<noteq> n - 1"

lemma chiplet_candidates:
  "chiplet_routing_alg n [a0, a1, a2, a3] [d0, d1, d2, d3] = Some (two_vcs
     (if d0 = a0 \<and> d1 = a1 then if d2 = a2 then if d3 < a3 then 7 else 8 else if d2 < a2 then 5 else 6
      else if a2 = 0 \<and> a3 = 0 then if d0 = a0 then if d1 < a1 then 3 else 4 else if d0 < a0 then 1 else 2
      else if a2 > 0 then 5 else 7))"
  by (simp add: chiplet_routing_alg_def deltas_def upt_conv_Cons)

lemma two_vcs_port: "two_vcs p \<noteq> []" "\<forall>c \<in> set (two_vcs p). fst c = p"
  by (simp_all add: two_vcs_def)

lemma chiplet_progress:
  assumes "chiplet_good n d a" "a \<noteq> d"
  shows "\<exists>b. next_hop CHIPLET_ROUTING n d a = Some b \<and> chiplet_good n d b \<and> chiplet_dist d a = Suc (chiplet_dist d b)"
proof -
  obtain a0 a1 a2 a3 where a: "a = [a0, a1, a2, a3]" using assms(1) by (auto simp: chiplet_good_def elim: length_4E)
  obtain d0 d1 d2 d3 where d: "d = [d0, d1, d2, d3]" using assms(1) by (auto simp: chiplet_good_def elim: length_4E)
  note g = assms [unfolded chiplet_good_def a d valid_addr_def, simplified]
  have nx: "\<not> (a0 = n - 1 \<and> a1 = n - 1 \<and> a2 = 0 \<and> a3 = 0)" using g by auto
  have closer: ?thesis
    if "chiplet_routing_alg n a d = Some (two_vcs p)" "getNextAddress n a p = Some [b0, b1, b2, b3]"
      "valid_addr n [b0, b1, b2, b3]" "b1 \<noteq> n - 1" "chiplet_dist d a = Suc (chiplet_dist d [b0, b1, b2, b3])" for p b0 b1 b2 b3
  proof -
    have "next_hop CHIPLET_ROUTING n d a = Some [b0, b1, b2, b3]"
      by (rule next_hop_port [OF _ two_vcs_port]) (use that in auto)
    then show ?thesis using that assms(1) by (auto simp: chiplet_good_def)
  qed
  consider "d0 = a0" "d1 = a1" "d2 = a2" "d3 < a3" | "d0 = a0" "d1 = a1" "d2 = a2" "a3 < d3"
    | "d0 = a0" "d1 = a1" "d2 < a2" | "d0 = a0" "d1 = a1" "a2 < d2"
    | "d0 \<noteq> a0" "0 < a2" | "d0 = a0" "d1 \<noteq> a1" "0 < a2"
    | "d0 \<noteq> a0" "a2 = 0" "0 < a3" | "d0 = a0" "d1 \<noteq> a1" "a2 = 0" "0 < a3"
    | "d0 = a0" "d1 < a1" "d1 \<noteq> a1" "a2 = 0" "a3 = 0" | "d0 = a0" "a1 < d1" "d1 \<noteq> a1" "a2 = 0" "a3 = 0"
    | "d0 < a0" "d0 \<noteq> a0" "a2 = 0" "a3 = 0" | "a0 < d0" "d0 \<noteq> a0" "a2 = 0" "a3 = 0"
    using g by (metis less_linear less_irrefl order_le_less)
  then show ?thesis
  proof cases
    case 1
    show ?thesis by (rule closer [OF _ next_4(7) [OF nx, folded a]])
      (use 1 g in \<open>simp_all add: chiplet_candidates a d chiplet_dist_def valid_addr_def step_down_def\<close>)
  next
    case 2
    show ?thesis by (rule closer [OF _ next_4(8) [OF nx, folded a]])
      (use 2 g in \<open>simp_all add: chiplet_candidates a d chiplet_dist_def valid_addr_def step_up_def\<close>)
  next
    case 3
    show ?thesis by (rule closer [OF _ next_4(5) [OF nx, folded a]])
      (use 3 g in \<open>simp_all add: chiplet_candidates a d chiplet_dist_def valid_addr_def step_down_def\<close>)
  next
    case 4
    show ?thesis by (rule closer [OF _ next_4(6) [OF nx, folded a]])
      (use 4 g in \<open>simp_all add: chiplet_candidates a d chiplet_dist_def valid_addr_def step_up_def\<close>)
  next
    case 5
    show ?thesis by (rule closer [OF _ next_4(5) [OF nx, folded a]])
      (use 5 g in \<open>simp_all add: chiplet_candidates a d chiplet_dist_def valid_addr_def step_down_def\<close>)
  next
    case 6
    show ?thesis by (rule closer [OF _ next_4(5) [OF nx, folded a]])
      (use 6 g in \<open>simp_all add: chiplet_candidates a d chiplet_dist_def valid_addr_def step_down_def\<close>)
  next
    case 7
    show ?thesis by (rule closer [OF _ next_4(7) [OF nx, folded a]])
      (use 7 g in \<open>simp_all add: chiplet_candidates a d chiplet_dist_def valid_addr_def step_down_def\<close>)
  next
    case 8
    show ?thesis by (rule closer [OF _ next_4(7) [OF nx, folded a]])
      (use 8 g in \<open>simp_all add: chiplet_candidates a d chiplet_dist_def valid_addr_def step_down_def\<close>)
  next
    case 9
    show ?thesis by (rule closer [OF _ next_4(3) [OF nx, folded a]])
      (use 9 g in \<open>auto simp: chiplet_candidates a d chiplet_dist_def valid_addr_def step_down_def\<close>)
  next
    case 10
    show ?thesis by (rule closer [OF _ next_4(4) [OF nx, folded a]])
      (use 10 g in \<open>auto simp: chiplet_candidates a d chiplet_dist_def valid_addr_def step_up_def\<close>)
  next
    case 11
    show ?thesis by (rule closer [OF _ next_4(1) [OF nx, folded a]])
      (use 11 g in \<open>auto simp: chiplet_candidates a d chiplet_dist_def valid_addr_def step_down_def\<close>)
  next
    case 12
    show ?thesis by (rule closer [OF _ next_4(2) [OF nx, folded a]])
      (use 12 g in \<open>auto simp: chiplet_candidates a d chiplet_dist_def valid_addr_def step_up_def\<close>)
  qed
qed

interpretation chiplet: routing_progress "next_hop CHIPLET_ROUTING n d" "chiplet_dist d" "chiplet_good n d" d for n d
proof unfold_locales
  show "chiplet_good n d a \<Longrightarrow> a \<noteq> d \<Longrightarrow>
      \<exists>b. next_hop CHIPLET_ROUTING n d a = Some b \<and> chiplet_good n d b \<and> chiplet_dist d a = Suc (chiplet_dist d b)" for a
    by (rule chiplet_progress)
  show "chiplet_dist d a = 0 \<longleftrightarrow> a = d" if g: "chiplet_good n d a" for a
  proof -
    obtain a0 a1 a2 a3 where a: "a = [a0, a1, a2, a3]" using g by (auto simp: chiplet_good_def elim: length_4E)
    obtain d0 d1 d2 d3 where d: "d = [d0, d1, d2, d3]" using g by (auto simp: chiplet_good_def elim: length_4E)
    show ?thesis using g by (auto simp: chiplet_good_def chiplet_dist_def a d valid_addr_def split: if_splits)
  qed
qed

subsection \<open>Chiplets around a hub\<close>

definition hub :: "int \<Rightarrow> add_type" where
  "hub n = [n - 1, n - 1, 0, 0]"

definition star_dist :: "int \<Rightarrow> add_type \<Rightarrow> add_type \<Rightarrow> nat" where
  "star_dist n d a =
     (if a = hub n then Suc (nat (d ! 2) + nat (d ! 3))
      else if d ! 0 = a ! 0 \<and> d ! 1 = a ! 1 then nat \<bar>d ! 2 - a ! 2\<bar> + nat \<bar>d ! 3 - a ! 3\<bar>
      else nat (a ! 2) + nat (a ! 3) + 2 + nat (d ! 2) + nat (d ! 3))"

definition star_good :: "int \<Rightarrow> add_type \<Rightarrow> add_type \<Rightarrow> bool" where
  "star_good n d a \<longleftrightarrow> length a = 4 \<and> length d = 4 \<and> valid_addr n a \<and> valid_addr n d \<and> d ! 1 \<noteq> n - 1 \<and>
     (a = hub n \<or> \<not> (a ! 0 = n - 1 \<and> a ! 1 = n - 1))"

lemma star_candidates:
  assumes "\<not> (a0 = n - 1 \<and> a1 = n - 1)" "[a0, a1, a2, a3] \<noteq> [d0, d1, d2, d3]"
  shows "chiplet_star_topo_routing_alg n [a0, a1, a2, a3] [d0, d1, d2, d3] = Some (two_vcs
     (if d0 = a0 \<and> d1 = a1 then if d2 = a2 then if a3 < d3 then 8 else 7 else if a2 < d2 then 6 else 5
      else if a2 = 0 \<and> a3 = 0 then 9 else if a2 > 0 then 5 else 7))"
  using assms
  by (auto simp: chiplet_star_topo_routing_alg_def deltas_def upt_conv_Cons isCentral_4 checkAddressIndex_def
      addRoutingForDifferentVC_def)

lemma star_hub_next:
  assumes "star_good n d (hub n)"
  shows "next_hop CHIPLET_STAR_TOPO_ROUTING n d (hub n) = Some [d ! 0, d ! 1, 0, 0]"
proof -
  obtain d0 d1 d2 d3 where d: "d = [d0, d1, d2, d3]" using assms by (auto simp: star_good_def elim: length_4E)
  have r: "0 \<le> d0" "d0 < n" "0 \<le> d1" "d1 < n - 1" using assms by (auto simp: star_good_def d valid_addr_def)
  have "chiplet_star_topo_routing_alg n (hub n) d = Some (two_vcs (d0 * (n - 1) + d1 + 1))"
    by (simp add: chiplet_star_topo_routing_alg_def deltas_def upt_conv_Cons isCentral_4 addRoutingForDifferentVC_def d hub_def)
  moreover have "getNextAddress n (hub n) (d0 * (n - 1) + d1 + 1) = Some [d0, d1, 0, 0]"
    using r by (simp add: getNextAddress_def isCentral_4 hub_def ldiv_pos)
  ultimately show ?thesis
    using next_hop_port [OF _ two_vcs_port] by (simp add: d)
qed

lemma star_progress:
  assumes "star_good n d a" "a \<noteq> d"
  shows "\<exists>b. next_hop CHIPLET_STAR_TOPO_ROUTING n d a = Some b \<and> star_good n d b \<and> star_dist n d a = Suc (star_dist n d b)"
proof (cases "a = hub n")
  case True
  then have "next_hop CHIPLET_STAR_TOPO_ROUTING n d a = Some [d ! 0, d ! 1, 0, 0]" using star_hub_next assms(1) by simp
  then show ?thesis using True assms(1)
    by (auto simp: star_good_def star_dist_def hub_def valid_addr_def elim!: length_4E)
next
  case False
  obtain a0 a1 a2 a3 where a: "a = [a0, a1, a2, a3]" using assms(1) by (auto simp: star_good_def elim: length_4E)
  obtain d0 d1 d2 d3 where d: "d = [d0, d1, d2, d3]" using assms(1) by (auto simp: star_good_def elim: length_4E)
  have nc: "\<not> (a0 = n - 1 \<and> a1 = n - 1)" using assms(1) False by (auto simp: star_good_def a)
  note g = assms [unfolded star_good_def a d valid_addr_def, simplified]
  have nx: "\<not> (a0 = n - 1 \<and> a1 = n - 1 \<and> a2 = 0 \<and> a3 = 0)" using nc by auto
  have closer: ?thesis
    if "chiplet_star_topo_routing_alg n a d = Some (two_vcs p)" "getNextAddress n a p = Some [b0, b1, b2, b3]"
      "valid_addr n [b0, b1, b2, b3]" "[b0, b1, b2, b3] = hub n \<or> \<not> (b0 = n - 1 \<and> b1 = n - 1)"
      "star_dist n d a = Suc (star_dist n d [b0, b1, b2, b3])" for p b0 b1 b2 b3
  proof -
    have "next_hop CHIPLET_STAR_TOPO_ROUTING n d a = Some [b0, b1, b2, b3]"
      by (rule next_hop_port [OF _ two_vcs_port]) (use that in auto)
    then show ?thesis using that assms(1) by (auto simp: star_good_def)
  qed
  have nh: "[a0, a1, y, z] \<noteq> hub n" for y z using nc by (auto simp: hub_def)
  note simps = star_candidates a d star_dist_def valid_addr_def nh
  consider "d0 = a0" "d1 = a1" "d2 = a2" "d3 < a3" | "d0 = a0" "d1 = a1" "d2 = a2" "a3 < d3"
    | "d0 = a0" "d1 = a1" "d2 < a2" | "d0 = a0" "d1 = a1" "a2 < d2"
    | "d0 \<noteq> a0" "0 < a2" | "d0 = a0" "d1 \<noteq> a1" "0 < a2"
    | "d0 \<noteq> a0" "a2 = 0" "0 < a3" | "d0 = a0" "d1 \<noteq> a1" "a2 = 0" "0 < a3"
    | "d0 \<noteq> a0" "a2 = 0" "a3 = 0" | "d0 = a0" "d1 \<noteq> a1" "a2 = 0" "a3 = 0"
    using g by (metis less_linear order_le_less)
  then show ?thesis
  proof cases
    case 1
    show ?thesis by (rule closer [OF _ next_4(7) [OF nx, folded a]])
      (use 1 g nc in \<open>simp_all add: simps step_down_def\<close>)
  next
    case 2
    show ?thesis by (rule closer [OF _ next_4(8) [OF nx, folded a]])
      (use 2 g nc in \<open>simp_all add: simps step_up_def\<close>)
  next
    case 3
    show ?thesis by (rule closer [OF _ next_4(5) [OF nx, folded a]])
      (use 3 g nc in \<open>simp_all add: simps step_down_def\<close>)
  next
    case 4
    show ?thesis by (rule closer [OF _ next_4(6) [OF nx, folded a]])
      (use 4 g nc in \<open>simp_all add: simps step_up_def\<close>)
  next
    case 5
    show ?thesis by (rule closer [OF _ next_4(5) [OF nx, folded a]])
      (use 5 g nc in \<open>simp_all add: simps step_down_def\<close>)
  next
    case 6
    show ?thesis by (rule closer [OF _ next_4(5) [OF nx, folded a]])
      (use 6 g nc in \<open>simp_all add: simps step_down_def\<close>)
  next
    case 7
    show ?thesis by (rule closer [OF _ next_4(7) [OF nx, folded a]])
      (use 7 g nc in \<open>simp_all add: simps step_down_def\<close>)
  next
    case 8
    show ?thesis by (rule closer [OF _ next_4(7) [OF nx, folded a]])
      (use 8 g nc in \<open>simp_all add: simps step_down_def\<close>)
  next
    case 9
    show ?thesis by (rule closer [OF _ next_4(9) [OF nx, folded a]])
      (use 9 g nc in \<open>simp_all add: simps hub_def\<close>)
  next
    case 10
    show ?thesis by (rule closer [OF _ next_4(9) [OF nx, folded a]])
      (use 10 g nc in \<open>simp_all add: simps hub_def\<close>)
  qed
qed

interpretation star: routing_progress "next_hop CHIPLET_STAR_TOPO_ROUTING n d" "star_dist n d" "star_good n d"
    d for n d
proof unfold_locales
  show "star_good n d a \<Longrightarrow> a \<noteq> d \<Longrightarrow>
      \<exists>b. next_hop CHIPLET_STAR_TOPO_ROUTING n d a = Some b \<and> star_good n d b \<and> star_dist n d a = Suc (star_dist n d b)" for a
    by (rule star_progress)
  show "star_dist n d a = 0 \<longleftrightarrow> a = d" if g: "star_good n d a" for a
  proof -
    obtain a0 a1 a2 a3 where a: "a = [a0, a1, a2, a3]" using g by (auto simp: star_good_def elim: length_4E)
    obtain d0 d1 d2 d3 where d: "d = [d0, d1, d2, d3]" using g by (auto simp: star_good_def elim: length_4E)
    show ?thesis using g by (auto simp: star_good_def star_dist_def hub_def a d valid_addr_def split: if_splits)
  qed
qed

section \<open>Properties\<close>



text \<open>
  C17: on the mesh of chiplets every packet reaches its destination over the gateways, in as many
  hops as the route has, provided the second chiplet coordinates of source and destination are not
  \<open>n - 1\<close>, which keeps the route away from the router that the topology takes for a hub.
\<close>

theorem chiplet_mesh_delivers:
  assumes "chiplet_good n d a"
  shows "hops (chiplet_dist d a) (next_hop CHIPLET_ROUTING n d) a = Some d \<and>
    (\<forall>k < chiplet_dist d a. \<exists>b. hops k (next_hop CHIPLET_ROUTING n d) a = Some b \<and> b \<noteq> d)"
  using chiplet.delivers [OF assms] chiplet.not_earlier [OF assms] by blast

theorem chiplet_mesh_delivers_witness:
  "chiplet_dist [2, 0, 1, 3] [0, 1, 2, 2] = 11 \<and>
   hops 11 (next_hop CHIPLET_ROUTING 4 [2, 0, 1, 3]) [0, 1, 2, 2] = Some [2, 0, 1, 3]"
  using chiplet_mesh_delivers [of 4 "[2, 0, 1, 3]" "[0, 1, 2, 2]"]
  by (simp add: chiplet_good_def valid_addr_def chiplet_dist_def)



text \<open>
  C37: the test for the hub misfires outside the star topology. In a two-dimensional network the
  router \<open>(n - 1, n - 1)\<close> cannot send to any other router, since the test reads address components
  that do not exist; in a mesh of chiplets the gateway of chiplet \<open>(n - 1, n - 1)\<close> sends a packet
  for its neighbour \<open>(n - 2, n - 1)\<close> to the gateway of chiplet \<open>(0, 0)\<close>.
\<close>

theorem hub_test_misfires:
  "next_hop XY n d [n - 1, n - 1] = None \<and> next_hop TXY n d [n - 1, n - 1] = None \<and>
   (3 \<le> n \<longrightarrow> next_hop CHIPLET_ROUTING n [n - 2, n - 1, 0, 0] [n - 1, n - 1, 0, 0] = Some [0, 0, 0, 0])"
proof -
  have none: "getNextAddress n [n - 1, n - 1] p = None" for p by (simp add: getNextAddress_def isCentral_2 Let_def)
  have "next_hop XY n d [n - 1, n - 1] = None" "next_hop TXY n d [n - 1, n - 1] = None"
    by (auto simp: next_hop_def none split: bind_splits list.splits dest!: arg_cong [where f = set])
  moreover have "next_hop CHIPLET_ROUTING n [n - 2, n - 1, 0, 0] [n - 1, n - 1, 0, 0] = Some [0, 0, 0, 0]" if "3 \<le> n"
    by (rule next_hop_port [OF _ two_vcs_port, where p = 1])
      (use that in \<open>simp_all add: chiplet_candidates getNextAddress_def isCentral_4 ldiv_pos\<close>)
  ultimately show ?thesis by blast
qed

theorem hub_test_misfires_witness:
  "next_hop XY 4 [1, 1] [3, 3] = None \<and> next_hop CHIPLET_ROUTING 4 [2, 3, 0, 0] [3, 3, 0, 0] = Some [0, 0, 0, 0]"
  using hub_test_misfires [of 4 "[1, 1]"] by simp

end
