(* ===== verification/Popnet_Router.thy ===== *)
theory Popnet_Router
  imports Popnet_Queue Popnet_Routing
begin

text \<open>
  The router of \<^verbatim>\<open>sim_router.cc\<close>, \<^verbatim>\<open>sim_routing.cc\<close> and \<^verbatim>\<open>sim_vcarb.cc\<close>: input and output modules,
  packet injection, and the five pipeline stages. The state of an operation is the router and the
  global objects it uses: the event queue, the random generator and the delay log. The power module is
  only written to; the router keeps the sequence of calls made to it, in order, and the theory of the
  power module interprets that sequence.
\<close>

section \<open>Input module\<close>

record input_template =
  in_input :: "flit_template list list list"
  in_states :: "VC_state_type list list"
  in_routing :: "VC_type list list list"
  in_crouting :: "VC_type list list"
  ibuff_full :: bool

definition input_template_init :: "int \<Rightarrow> int \<Rightarrow> input_template" where
  "input_template_init a b =
     \<lparr>in_input = replicate (nat a) (replicate (nat b) []), in_states = replicate (nat a) (replicate (nat b) INIT),
      in_routing = replicate (nat a) (replicate (nat b) []), in_crouting = replicate (nat a) (replicate (nat b) VC_NULL),
      ibuff_full = False\<rparr>"

definition input_at :: "int \<Rightarrow> int \<Rightarrow> input_template \<Rightarrow> flit_template list option" where
  "input_at a b m = vat2 (in_input m) a b"

definition input_add_flit :: "int \<Rightarrow> int \<Rightarrow> flit_template \<Rightarrow> input_template \<Rightarrow> input_template option" where
  "input_add_flit a b c m = do { xs \<leftarrow> vupd2 (in_input m) a b (\<lambda>q. q @ [c]); Some (m\<lparr>in_input := xs\<rparr>) }"

text \<open>Erasing the first element of an empty vector is undefined.\<close>

definition input_remove_flit :: "int \<Rightarrow> int \<Rightarrow> input_template \<Rightarrow> input_template option" where
  "input_remove_flit a b m = do {
     q \<leftarrow> vat2 (in_input m) a b;
     if q = [] then None else do { xs \<leftarrow> vupd2 (in_input m) a b tl; Some (m\<lparr>in_input := xs\<rparr>) }
   }"

definition input_get_flit :: "int \<Rightarrow> int \<Rightarrow> input_template \<Rightarrow> flit_template option" where
  "input_get_flit a b m = do { q \<leftarrow> vat2 (in_input m) a b; if q = [] then None else Some (hd q) }"

definition state_at :: "int \<Rightarrow> int \<Rightarrow> input_template \<Rightarrow> VC_state_type option" where
  "state_at a b m = vat2 (in_states m) a b"

definition state_update :: "int \<Rightarrow> int \<Rightarrow> VC_state_type \<Rightarrow> input_template \<Rightarrow> input_template option" where
  "state_update a b c m = do { xs \<leftarrow> vupd2 (in_states m) a b (\<lambda>_. c); Some (m\<lparr>in_states := xs\<rparr>) }"

definition crouting_at :: "int \<Rightarrow> int \<Rightarrow> input_template \<Rightarrow> VC_type option" where
  "crouting_at a b m = vat2 (in_crouting m) a b"

definition crouting_assign :: "int \<Rightarrow> int \<Rightarrow> VC_type \<Rightarrow> input_template \<Rightarrow> input_template option" where
  "crouting_assign a b c m = do { xs \<leftarrow> vupd2 (in_crouting m) a b (\<lambda>_. c); Some (m\<lparr>in_crouting := xs\<rparr>) }"

definition clear_crouting :: "int \<Rightarrow> int \<Rightarrow> input_template \<Rightarrow> input_template option" where
  "clear_crouting a b m = crouting_assign a b VC_NULL m"

definition routing_at :: "int \<Rightarrow> int \<Rightarrow> input_template \<Rightarrow> VC_type list option" where
  "routing_at a b m = vat2 (in_routing m) a b"

definition add_routing :: "int \<Rightarrow> int \<Rightarrow> VC_type \<Rightarrow> input_template \<Rightarrow> input_template option" where
  "add_routing a b c m = do { xs \<leftarrow> vupd2 (in_routing m) a b (\<lambda>r. r @ [c]); Some (m\<lparr>in_routing := xs\<rparr>) }"

definition clear_routing :: "int \<Rightarrow> int \<Rightarrow> input_template \<Rightarrow> input_template option" where
  "clear_routing a b m = do { xs \<leftarrow> vupd2 (in_routing m) a b (\<lambda>_. []); Some (m\<lparr>in_routing := xs\<rparr>) }"

section \<open>Output module\<close>

record output_template =
  om_buffer_size :: int
  om_counter :: "int list list"
  om_assign :: "VC_type list list"
  om_usage :: "VC_usage_type list list"
  om_outbuffers :: "flit_template list list"
  om_outadd :: "VC_type list list"
  om_localcounter :: "int list"

definition output_template_init :: "int \<Rightarrow> int \<Rightarrow> int \<Rightarrow> int \<Rightarrow> output_template" where
  "output_template_init a b c d =
     \<lparr>om_buffer_size = c, om_counter = replicate (nat a) (replicate (nat b) c),
      om_assign = replicate (nat a) (replicate (nat b) VC_NULL), om_usage = replicate (nat a) (replicate (nat b) FREE),
      om_outbuffers = replicate (nat a) [], om_outadd = replicate (nat a) [], om_localcounter = replicate (nat a) d\<rparr>"

definition counter_at :: "int \<Rightarrow> int \<Rightarrow> output_template \<Rightarrow> int option" where
  "counter_at a b m = vat2 (om_counter m) a b"

definition counter_inc :: "int \<Rightarrow> int \<Rightarrow> output_template \<Rightarrow> output_template option" where
  "counter_inc a b m = do { xs \<leftarrow> vupd2 (om_counter m) a b (\<lambda>x. x + 1); Some (m\<lparr>om_counter := xs\<rparr>) }"

definition counter_dec :: "int \<Rightarrow> int \<Rightarrow> output_template \<Rightarrow> output_template option" where
  "counter_dec a b m = do { xs \<leftarrow> vupd2 (om_counter m) a b (\<lambda>x. x - 1); Some (m\<lparr>om_counter := xs\<rparr>) }"

definition usage_at :: "int \<Rightarrow> int \<Rightarrow> output_template \<Rightarrow> VC_usage_type option" where
  "usage_at a b m = vat2 (om_usage m) a b"

definition assign_at :: "int \<Rightarrow> int \<Rightarrow> output_template \<Rightarrow> VC_type option" where
  "assign_at a b m = vat2 (om_assign m) a b"

definition acquire :: "int \<Rightarrow> int \<Rightarrow> VC_type \<Rightarrow> output_template \<Rightarrow> output_template option" where
  "acquire a b c m = do {
     us \<leftarrow> vupd2 (om_usage m) a b (\<lambda>_. USED);
     asg \<leftarrow> vupd2 (om_assign m) a b (\<lambda>_. c);
     Some (m\<lparr>om_usage := us, om_assign := asg\<rparr>)
   }"

definition release :: "int \<Rightarrow> int \<Rightarrow> output_template \<Rightarrow> output_template option" where
  "release a b m = do {
     us \<leftarrow> vupd2 (om_usage m) a b (\<lambda>_. FREE);
     asg \<leftarrow> vupd2 (om_assign m) a b (\<lambda>_. VC_NULL);
     Some (m\<lparr>om_usage := us, om_assign := asg\<rparr>)
   }"

definition output_add_flit :: "int \<Rightarrow> flit_template \<Rightarrow> output_template \<Rightarrow> output_template option" where
  "output_add_flit a b m = do {
     bs \<leftarrow> vupd (om_outbuffers m) a (\<lambda>q. q @ [b]);
     cs \<leftarrow> vupd (om_localcounter m) a (\<lambda>x. x - 1);
     Some (m\<lparr>om_outbuffers := bs, om_localcounter := cs\<rparr>)
   }"

definition output_remove_flit :: "int \<Rightarrow> output_template \<Rightarrow> output_template option" where
  "output_remove_flit a m = do {
     q \<leftarrow> vat (om_outbuffers m) a;
     if q = [] then None else do {
       bs \<leftarrow> vupd (om_outbuffers m) a tl;
       cs \<leftarrow> vupd (om_localcounter m) a (\<lambda>x. x + 1);
       Some (m\<lparr>om_outbuffers := bs, om_localcounter := cs\<rparr>)
     }
   }"

definition output_get_flit :: "int \<Rightarrow> output_template \<Rightarrow> flit_template option" where
  "output_get_flit a m = do { q \<leftarrow> vat (om_outbuffers m) a; if q = [] then None else Some (hd q) }"

definition get_add :: "int \<Rightarrow> output_template \<Rightarrow> VC_type option" where
  "get_add a m = do { q \<leftarrow> vat (om_outadd m) a; if q = [] then None else Some (hd q) }"

definition remove_add :: "int \<Rightarrow> output_template \<Rightarrow> output_template option" where
  "remove_add a m = do {
     q \<leftarrow> vat (om_outadd m) a;
     if q = [] then None else do { xs \<leftarrow> vupd (om_outadd m) a tl; Some (m\<lparr>om_outadd := xs\<rparr>) }
   }"

definition add_add :: "int \<Rightarrow> VC_type \<Rightarrow> output_template \<Rightarrow> output_template option" where
  "add_add a b m = do { xs \<leftarrow> vupd (om_outadd m) a (\<lambda>q. q @ [b]); Some (m\<lparr>om_outadd := xs\<rparr>) }"

definition localcounter_at :: "int \<Rightarrow> output_template \<Rightarrow> int option" where
  "localcounter_at a m = vat (om_localcounter m) a"

section \<open>Routers\<close>

datatype power_call =
    power_buffer_read int Data_type
  | power_buffer_write int Data_type
  | power_crossbar_trav int int Data_type
  | power_vc_arbit int int Atom_type u64
  | power_link_traversal int Data_type

text \<open>
  A trace file is the sequence of numbers in it; the trace of a router that has none is \<^term>\<open>None\<close>. A
  file ends with a newline, so that reading its last number does not yet report the end of the file.
\<close>

type_synonym trace = "real list"

record sim_router_template =
  address :: add_type
  input_module :: input_template
  output_module :: output_template
  power_module :: "power_call list"
  init_data :: Data_type
  ary_size :: int
  flit_size :: int
  physic_ports :: int
  vc_number :: int
  buffer_size :: int
  outbuffer_size :: int
  total_delay :: time_type
  routing_alg :: routing_type
  local_input_time :: time_type
  packet_counter :: int
  localinFile :: "trace option"

text \<open>
  What the language leaves open and the program uses: the conversion of a floating-point value to a
  64-bit word, which is only defined for values in range, and the words behind the ten entries of
  the mask table, which it reads in networks with more than ten input channels per router.
\<close>

record popnet_env =
  cast64 :: "real \<Rightarrow> u64"
  mask_past :: "nat \<Rightarrow> u64"

type_synonym delay_line = "time_type \<times> add_type \<times> add_type \<times> time_type"

record sim_shared =
  mess_q :: mess_queue
  srgen :: SRGen
  delay_info :: "delay_line list"

type_synonym rs = "sim_router_template \<times> sim_shared"

definition on_input :: "(input_template \<Rightarrow> input_template option) \<Rightarrow> rs \<Rightarrow> rs option" where
  "on_input f s = do { m \<leftarrow> f (input_module (fst s)); Some ((fst s)\<lparr>input_module := m\<rparr>, snd s) }"

definition on_output :: "(output_template \<Rightarrow> output_template option) \<Rightarrow> rs \<Rightarrow> rs option" where
  "on_output f s = do { m \<leftarrow> f (output_module (fst s)); Some ((fst s)\<lparr>output_module := m\<rparr>, snd s) }"

definition on_power :: "power_call \<Rightarrow> rs \<Rightarrow> rs" where
  "on_power c s = ((fst s)\<lparr>power_module := power_module (fst s) @ [c]\<rparr>, snd s)"

definition send :: "mess_event \<Rightarrow> rs \<Rightarrow> rs" where
  "send e s = (fst s, (snd s)\<lparr>mess_q := add_message e (mess_q (snd s))\<rparr>)"

definition draw_l :: "int \<Rightarrow> int \<Rightarrow> rs \<Rightarrow> (int \<times> rs) option" where
  "draw_l low high s = do { (v, g) \<leftarrow> flat_l low high (srgen (snd s)); Some (v, (fst s, (snd s)\<lparr>srgen := g\<rparr>)) }"

definition draw_ull :: "u64 \<Rightarrow> u64 \<Rightarrow> rs \<Rightarrow> (u64 \<times> rs) option" where
  "draw_ull low high s = do { (v, g) \<leftarrow> flat_ull low high (srgen (snd s)); Some (v, (fst s, (snd s)\<lparr>srgen := g\<rparr>)) }"

abbreviation now :: "rs \<Rightarrow> time_type" where
  "now s \<equiv> current_time (mess_q (snd s))"

abbreviation ports :: "sim_router_template \<Rightarrow> int list" where
  "ports rt \<equiv> [0..physic_ports rt - 1]"

abbreviation vcs :: "sim_router_template \<Rightarrow> int list" where
  "vcs rt \<equiv> [0..vc_number rt - 1]"

section \<open>Packet injection\<close>

text \<open>One number from a trace: \<^term>\<open>Some (None, [])\<close> at the end of the file.\<close>

definition read_long :: "trace \<Rightarrow> (int option \<times> trace) option" where
  "read_long f = (case f of [] \<Rightarrow> Some (None, []) | x # xs \<Rightarrow> if x = of_int \<lfloor>x\<rfloor> then Some (Some \<lfloor>x\<rfloor>, xs) else None)"

fun read_addr :: "nat \<Rightarrow> trace \<Rightarrow> (add_type option \<times> trace) option" where
  "read_addr 0 f = Some (Some [], f)"
| "read_addr (Suc k) f = do {
     (x, f) \<leftarrow> read_long f;
     (case x of
        None \<Rightarrow> Some (None, f)
      | Some x \<Rightarrow> do { (a, f) \<leftarrow> read_addr k f; Some (map_option (Cons x) a, f) })
   }"

text \<open>The data of a flit, derived from the previous one.\<close>

definition gen_word :: "popnet_env \<Rightarrow> int \<Rightarrow> rs \<times> Data_type \<Rightarrow> (rs \<times> Data_type) option" where
  "gen_word E i sd = (case sd of (s, d) \<Rightarrow> do {
     x \<leftarrow> vat (init_data (fst s)) i;
     (r, s) \<leftarrow> draw_ull 0 MAX_64 s;
     let v = cast64 E (dbl64 x * CORR_EFF + dbl64 r);
     xs \<leftarrow> vupd (init_data (fst s)) i (\<lambda>_. v);
     Some (((fst s)\<lparr>init_data := xs\<rparr>, snd s), d @ [v])
   })"

definition gen_data :: "popnet_env \<Rightarrow> rs \<Rightarrow> (rs \<times> Data_type) option" where
  "gen_data E s = foldM (gen_word E) [0..flit_size (fst s) - 1] (s, [])"

text \<open>The injection channel with the shortest queue, the first of these.\<close>

definition shortest_vc :: "sim_router_template \<Rightarrow> VC_type option" where
  "shortest_vc rt = do {
     q0 \<leftarrow> input_at 0 0 (input_module rt);
     foldM (\<lambda>i vc_t. do {
       q \<leftarrow> input_at 0 i (input_module rt);
       let t = int (length q);
       Some (if snd vc_t > t then (i, t) else vc_t)
     }) (vcs rt) (0, int (length q0))
   }"

definition inject_header :: "flit_template \<Rightarrow> rs \<Rightarrow> (rs \<times> int) option" where
  "inject_header fl s = do {
     vc_t \<leftarrow> shortest_vc (fst s);
     let v = fst vc_t;
     q \<leftarrow> input_at 0 v (input_module (fst s));
     s \<leftarrow> (if length q = 0 then on_input (state_update 0 v ROUTING) s else Some s);
     s \<leftarrow> (if length q > 100 then on_input (\<lambda>m. Some (m\<lparr>ibuff_full := True\<rparr>)) s else Some s);
     s \<leftarrow> on_input (input_add_flit 0 v fl) s;
     Some (s, v)
   }"

definition inject_flit :: "popnet_env \<Rightarrow> int \<Rightarrow> add_type \<Rightarrow> add_type \<Rightarrow> time_type \<Rightarrow> int \<Rightarrow> int \<Rightarrow> rs \<times> int \<Rightarrow> (rs \<times> int) option" where
  "inject_flit E a b c d e l sv = (case sv of (s, v) \<Rightarrow> do {
     (s, dat) \<leftarrow> gen_data E s;
     (s, v) \<leftarrow>
       (if l = 0 then inject_header (mk_flit a (if e = 1 then SINGLE else HEADER) b c d dat) s
        else do { s \<leftarrow> on_input (input_add_flit 0 v (mk_flit a (if l = e - 1 then TAIL else BODY) b c d dat)) s; Some (s, v) });
     Some (on_power (power_buffer_write 0 dat) s, v)
   })"

text \<open>The channel is set by the header; before, the variable has no value that is used.\<close>

definition inject_packet :: "popnet_env \<Rightarrow> int \<Rightarrow> add_type \<Rightarrow> add_type \<Rightarrow> time_type \<Rightarrow> int \<Rightarrow> rs \<Rightarrow> rs option" where
  "inject_packet E a b c d e s =
     (if list_ex (\<lambda>x. x < 0 \<or> x \<ge> ary_size (fst s)) b \<or> list_ex (\<lambda>x. x < 0 \<or> x \<ge> ary_size (fst s)) c then None
      else map_option fst (foldM (inject_flit E a b c d e) [0..e - 1] (s, 0)))"

lemma read_long_shorter: "read_long f = Some (Some x, f') \<Longrightarrow> length f' < length f"
  by (auto simp: read_long_def split: list.splits if_splits)

lemma read_addr_shorter: "read_addr k f = Some (a, f') \<Longrightarrow> length f' \<le> length f"
proof (induction k arbitrary: a f)
  case (Suc k)
  then show ?case
    by (fastforce simp: read_long_def split: list.splits if_splits bind_splits option.splits prod.splits)
qed simp

text \<open>
  The loop of \<^verbatim>\<open>receive_packet\<close>: every packet consumes numbers of the trace. When the trace ends before the size of a
  packet, the variable keeps the size \<open>prev\<close> of the packet before, which has no value in the first round, and the
  next round ends at the first address.
\<close>

function receive_packet_loop :: "popnet_env \<Rightarrow> nat \<Rightarrow> time_type \<Rightarrow> int option \<Rightarrow> rs \<Rightarrow> trace \<Rightarrow> rs option" where
  "receive_packet_loop E cube_s event_time prev s f =
     (if \<not> ibuff_full (input_module (fst s)) \<and> local_input_time (fst s) \<le> event_time + S_ELPS
      then do {
        (sor, f1) \<leftarrow> read_addr cube_s f;
        (case sor of
           None \<Rightarrow> Some ((fst s)\<lparr>localinFile := Some f1\<rparr>, snd s)
         | Some sor_addr_t \<Rightarrow> do {
             (des, f2) \<leftarrow> read_addr cube_s f1;
             (case des of
                None \<Rightarrow> Some ((fst s)\<lparr>localinFile := Some f2\<rparr>, snd s)
              | Some des_addr_t \<Rightarrow> do {
                  (size, f3) \<leftarrow> read_long f2;
                  pack_size_t \<leftarrow> (if size = None then prev else size);
                  s1 \<leftarrow> inject_packet E (packet_counter (fst s)) sor_addr_t des_addr_t (local_input_time (fst s)) pack_size_t s;
                  let s2 = ((fst s1)\<lparr>packet_counter := packet_counter (fst s1) + 1\<rparr>, snd s1);
                  (case f3 of
                     [] \<Rightarrow> if size = None \<and> cube_s = 0 then None else Some ((fst s2)\<lparr>localinFile := Some []\<rparr>, snd s2)
                   | t # f4 \<Rightarrow> receive_packet_loop E cube_s event_time (Some pack_size_t) ((fst s2)\<lparr>local_input_time := t\<rparr>, snd s2) f4)
                })
           })
      }
      else Some ((fst s)\<lparr>localinFile := Some f\<rparr>, snd s))"
  by pat_completeness auto
termination
proof (relation "measure (\<lambda>(E, cube_s, event_time, prev, s, f). length f)")
  fix E cube_s event_time prev s f p1 sor f1 a p2 des f2 b p3 size f3 n s1 s2 t f4
  assume r: "read_addr cube_s f = Some p1" "(sor, f1) = p1" "read_addr cube_s f1 = Some p2" "(des, f2) = p2"
    "read_long f2 = Some p3" "(size, f3) = p3" "f3 = t # f4"
  have "length f1 \<le> length f" "length f2 \<le> length f1" using read_addr_shorter r(1-4) by blast+
  moreover have "length f4 < length f2" using r(5-7) by (auto simp: read_long_def split: list.splits if_splits)
  ultimately have "length f4 < length f" by simp
  then show "((E, cube_s, event_time, Some n, ((fst s2)\<lparr>local_input_time := t\<rparr>, snd s2), f4), E, cube_s, event_time, prev, s, f)
      \<in> measure (\<lambda>(E, cube_s, event_time, prev, s, f). length f)" by simp
qed simp

definition receive_packet :: "popnet_env \<Rightarrow> nat \<Rightarrow> rs \<Rightarrow> rs option" where
  "receive_packet E cube_s s =
     (if \<not> ibuff_full (input_module (fst s)) \<and> local_input_time (fst s) \<le> now s + S_ELPS
      then localinFile (fst s) \<bind> receive_packet_loop E cube_s (now s) None s
      else Some s)"

section \<open>Credits and flits from the network\<close>

definition receive_credit :: "int \<Rightarrow> int \<Rightarrow> rs \<Rightarrow> rs option" where
  "receive_credit a b = on_output (counter_inc a b)"

definition receive_flit :: "int \<Rightarrow> int \<Rightarrow> flit_template \<Rightarrow> rs \<Rightarrow> rs option" where
  "receive_flit a b c s = do {
     s \<leftarrow> on_input (input_add_flit a b c) s;
     let s = on_power (power_buffer_write a (flit_data c)) s;
     if isHeader (flit_type_of c)
     then do {
       q \<leftarrow> input_at a b (input_module (fst s));
       if length q = 1 then on_input (state_update a b ROUTING) s else Some s
     }
     else do {
       st \<leftarrow> state_at a b (input_module (fst s));
       if st = INIT then on_input (state_update a b SW_AB) s else Some s
     }
   }"

section \<open>Switch arbitration\<close>

text \<open>An element of a vector: the only one, or one drawn at random when there are several.\<close>

definition pick :: "'a list \<Rightarrow> rs \<Rightarrow> ('a \<times> rs) option" where
  "pick xs s =
     (if length xs > 1 then do { (w, s) \<leftarrow> draw_l 0 (int (length xs)) s; x \<leftarrow> vat xs w; Some (x, s) }
      else do { x \<leftarrow> vat xs 0; Some (x, s) })"

text \<open>The channels of an input port that can send: their output channel has credit and buffer space.\<close>

definition sw_candidate :: "sim_router_template \<Rightarrow> int \<Rightarrow> int \<Rightarrow> int list \<Rightarrow> int list option" where
  "sw_candidate rt i j vc_i_t = do {
     st \<leftarrow> state_at i j (input_module rt);
     if st = SW_AB
     then do {
       out_t \<leftarrow> crouting_at i j (input_module rt);
       c \<leftarrow> counter_at (fst out_t) (snd out_t) (output_module rt);
       l \<leftarrow> (if c > 0 then localcounter_at (fst out_t) (output_module rt) else Some 0);
       Some (if c > 0 \<and> l > 0 then vc_i_t @ [j] else vc_i_t)
     }
     else Some vc_i_t
   }"

text \<open>
  The map from output ports to requests is the list of its insertions: port and requesting channel.
  Looking up a port yields its requests in insertion order.
\<close>

type_synonym ('k, 'v) requests = "('k \<times> 'v) list"

definition requests_of :: "('k, 'v) requests \<Rightarrow> 'k \<Rightarrow> 'v list" where
  "requests_of m k = map snd (filter (\<lambda>r. fst r = k) m)"

definition sw_request :: "int \<Rightarrow> rs \<times> (int, VC_type) requests \<Rightarrow> (rs \<times> (int, VC_type) requests) option" where
  "sw_request i sm = (case sm of (s, vc_o_map) \<Rightarrow> do {
     vc_i_t \<leftarrow> foldM (sw_candidate (fst s) i) (vcs (fst s)) [];
     if vc_i_t = [] then Some (s, vc_o_map)
     else do {
       (j, s) \<leftarrow> pick vc_i_t s;
       r_t \<leftarrow> crouting_at i j (input_module (fst s));
       Some (s, vc_o_map @ [(fst r_t, (i, j))])
     }
   })"

definition sw_grant :: "(int, VC_type) requests \<Rightarrow> int \<Rightarrow> rs \<Rightarrow> rs option" where
  "sw_grant vc_o_map i s =
     (if requests_of vc_o_map i = [] then Some s
      else do {
        (vc_win, s) \<leftarrow> pick (requests_of vc_o_map i) s;
        s \<leftarrow> on_input (state_update (fst vc_win) (snd vc_win) SW_TR) s;
        _ \<leftarrow> input_get_flit (fst vc_win) (snd vc_win) (input_module (fst s));
        Some s
      })"

definition sw_arbitration :: "rs \<Rightarrow> rs option" where
  "sw_arbitration s = do {
     (s, vc_o_map) \<leftarrow> foldM sw_request (ports (fst s)) (s, []);
     if vc_o_map = [] then Some s else foldM (sw_grant vc_o_map) (ports (fst s)) s
   }"

section \<open>From the input to the output buffer\<close>

definition send_credit :: "int \<Rightarrow> int \<Rightarrow> rs \<Rightarrow> rs option" where
  "send_credit i j s = do {
     cre_add_t \<leftarrow> getFromRouter (ary_size (fst s)) (address (fst s)) i;
     cre_pc_t \<leftarrow> getFromPort (ary_size (fst s)) (address (fst s)) i;
     Some (send (mess_event_credit (now s + CREDIT_DELAY) CREDIT (address (fst s)) cre_add_t cre_pc_t j) s)
   }"

text \<open>A full injection buffer that has drained below the bound accepts packets again.\<close>

definition resume_injection :: "popnet_env \<Rightarrow> nat \<Rightarrow> int \<Rightarrow> int \<Rightarrow> rs \<Rightarrow> rs option" where
  "resume_injection E cube_s i j s =
     (if i = 0 \<and> ibuff_full (input_module (fst s))
      then do {
        q \<leftarrow> input_at 0 j (input_module (fst s));
        if int (length q) < BUFF_BOUND
        then do { s \<leftarrow> on_input (\<lambda>m. Some (m\<lparr>ibuff_full := False\<rparr>)) s; receive_packet E cube_s s }
        else Some s
      }
      else Some s)"

definition outbuffer_state :: "vc_share_type \<Rightarrow> int \<Rightarrow> int \<Rightarrow> nat \<Rightarrow> flit_template \<Rightarrow> rs \<Rightarrow> rs option" where
  "outbuffer_state share i j in_size_t flit_t s =
     (if in_size_t > 1
      then if isTail (flit_type_of flit_t)
           then if share = MONO \<and> i \<noteq> 0 then None else on_input (state_update i j ROUTING) s
           else on_input (state_update i j SW_AB) s
      else on_input (state_update i j INIT) s)"

definition outbuffer_flit :: "popnet_env \<Rightarrow> nat \<Rightarrow> vc_share_type \<Rightarrow> int \<Rightarrow> int \<Rightarrow> rs \<Rightarrow> rs option" where
  "outbuffer_flit E cube_s share i j s = do {
     st \<leftarrow> state_at i j (input_module (fst s));
     if st = SW_TR
     then do {
       out_t \<leftarrow> crouting_at i j (input_module (fst s));
       s \<leftarrow> on_output (counter_dec (fst out_t) (snd out_t)) s;
       s \<leftarrow> (if i \<noteq> 0 then send_credit i j s else Some s);
       q \<leftarrow> input_at i j (input_module (fst s));
       flit_t \<leftarrow> input_get_flit i j (input_module (fst s));
       s \<leftarrow> on_input (input_remove_flit i j) s;
       let s = on_power (power_buffer_read i (flit_data flit_t)) s;
       let s = on_power (power_crossbar_trav i (fst out_t) (flit_data flit_t)) s;
       s \<leftarrow> on_output (output_add_flit (fst out_t) flit_t) s;
       s \<leftarrow> resume_injection E cube_s i j s;
       s \<leftarrow> on_output (add_add (fst out_t) out_t) s;
       s \<leftarrow> (if isTail (flit_type_of flit_t) then on_output (release (fst out_t) (snd out_t)) s else Some s);
       outbuffer_state share i j (length q) flit_t s
     }
     else Some s
   }"

definition flit_outbuffer :: "popnet_env \<Rightarrow> nat \<Rightarrow> vc_share_type \<Rightarrow> rs \<Rightarrow> rs option" where
  "flit_outbuffer E cube_s share s =
     foldM (\<lambda>i s. foldM (outbuffer_flit E cube_s share i) (vcs (fst s)) s) (ports (fst s)) s"

section \<open>Onto the wire\<close>

definition flit_traversal_port :: "int \<Rightarrow> rs \<Rightarrow> rs option" where
  "flit_traversal_port i s = do {
     q \<leftarrow> vat (om_outbuffers (output_module (fst s))) i;
     if q = [] then Some s
     else do {
       delay \<leftarrow> getWireDelay (ary_size (fst s)) (address (fst s)) i;
       let flit_delay_t = delay + now s;
       wire_pc_t \<leftarrow> getWirePc (ary_size (fst s)) (address (fst s)) i;
       wire_add_t \<leftarrow> getNextAddress (ary_size (fst s)) (address (fst s)) i;
       flit_t \<leftarrow> output_get_flit i (output_module (fst s));
       outadd_t \<leftarrow> get_add i (output_module (fst s));
       let s = on_power (power_link_traversal i (flit_data flit_t)) s;
       s \<leftarrow> on_output (output_remove_flit i) s;
       s \<leftarrow> on_output (remove_add i) s;
       Some (send (mess_event_wire flit_delay_t WIRE (address (fst s)) wire_add_t wire_pc_t (snd outadd_t) flit_t) s)
     }
   }"

definition flit_traversal :: "rs \<Rightarrow> rs option" where
  "flit_traversal s = foldM flit_traversal_port [1..physic_ports (fst s) - 1] s"

section \<open>Virtual channel arbitration\<close>

definition vc_free :: "vc_share_type \<Rightarrow> sim_router_template \<Rightarrow> VC_type \<Rightarrow> VC_type list \<Rightarrow> VC_type list option" where
  "vc_free share rt v_t vc_acq_t =
     (if share = SHARE
      then do { u \<leftarrow> usage_at (fst v_t) (snd v_t) (output_module rt); Some (if u = FREE then vc_acq_t @ [v_t] else vc_acq_t) }
      else do {
        c \<leftarrow> counter_at (fst v_t) (snd v_t) (output_module rt);
        if c = buffer_size rt
        then do { u \<leftarrow> usage_at (fst v_t) (snd v_t) (output_module rt); Some (if u = FREE then vc_acq_t @ [v_t] else vc_acq_t) }
        else Some vc_acq_t
      })"

definition vc_selection :: "vc_share_type \<Rightarrow> int \<Rightarrow> int \<Rightarrow> rs \<Rightarrow> (VC_type \<times> rs) option" where
  "vc_selection share a b s = do {
     vc_can_t \<leftarrow> routing_at a b (input_module (fst s));
     if vc_can_t = [] then None
     else do {
       vc_acq_t \<leftarrow> foldM (vc_free share (fst s)) vc_can_t [];
       if vc_acq_t = [] then Some ((- 1, - 1), s) else pick vc_acq_t s
     }
   }"

definition VC_MASK :: "u64 list" where
  "VC_MASK = [1, 2, 4, 8, 16, 32, 64, 128, 258, 512]"

definition vc_mask_at :: "popnet_env \<Rightarrow> int \<Rightarrow> u64 option" where
  "vc_mask_at E k =
     (if k < 0 then None else if k < int (length VC_MASK) then Some (VC_MASK ! nat k) else Some (mask_past E (nat k - length VC_MASK)))"

type_synonym vc_requests = "(VC_type, VC_type) requests \<times> u64"

definition vc_request_of :: "popnet_env \<Rightarrow> vc_share_type \<Rightarrow> int \<Rightarrow> int \<Rightarrow> rs \<times> vc_requests \<Rightarrow> (rs \<times> vc_requests) option" where
  "vc_request_of E share i j st = (case st of (s, m, req) \<Rightarrow> do {
     x \<leftarrow> state_at i j (input_module (fst s));
     if x = VC_AB
     then do {
       (vc_t, s) \<leftarrow> vc_selection share i j s;
       if fst vc_t \<ge> 0 \<and> snd vc_t \<ge> 0
       then do { msk \<leftarrow> vc_mask_at E (i * vc_number (fst s) + j); Some (s, m @ [(vc_t, (i, j))], req OR msk) }
       else Some (s, m, req)
     }
     else Some (s, m, req)
   })"

definition vc_grant :: "vc_requests \<Rightarrow> int \<Rightarrow> int \<Rightarrow> rs \<Rightarrow> rs option" where
  "vc_grant r i j s = do {
     u \<leftarrow> usage_at i j (output_module (fst s));
     if u = FREE \<and> requests_of (fst r) (i, j) \<noteq> []
     then do {
       (vc_win, s) \<leftarrow> pick (requests_of (fst r) (i, j)) s;
       s \<leftarrow> on_input (state_update (fst vc_win) (snd vc_win) SW_AB) s;
       s \<leftarrow> on_input (crouting_assign (fst vc_win) (snd vc_win) (i, j)) s;
       s \<leftarrow> on_output (acquire i j vc_win) s;
       Some (on_power (power_vc_arbit i j (snd r) (word_of_int (fst vc_win * vc_number (fst s) + snd vc_win))) s)
     }
     else Some s
   }"

definition vc_arbitration :: "popnet_env \<Rightarrow> vc_share_type \<Rightarrow> rs \<Rightarrow> rs option" where
  "vc_arbitration E share s = do {
     (s, r) \<leftarrow> foldM (\<lambda>i st. foldM (vc_request_of E share i) (vcs (fst s)) st) (ports (fst s)) (s, [], 0);
     if fst r = [] then Some s
     else foldM (\<lambda>i s. foldM (vc_grant r i) (vcs (fst s)) s) [1..physic_ports (fst s) - 1] s
   }"

section \<open>Routing decision\<close>

definition accept_flit :: "time_type \<Rightarrow> flit_template \<Rightarrow> rs \<Rightarrow> rs" where
  "accept_flit a b s =
     (if isTail (flit_type_of b)
      then let t = a - start_time b
           in ((fst s)\<lparr>total_delay := total_delay (fst s) + t\<rparr>,
               (snd s)\<lparr>mess_q := TotFin_inc (mess_q (snd s)),
                       delay_info := delay_info (snd s) @ [(start_time b, sor_addr b, des_addr b, t)]\<rparr>)
      else s)"

text \<open>The header of a packet: delivered here, or given its candidate output channels.\<close>

definition route_header :: "int \<Rightarrow> int \<Rightarrow> flit_template \<Rightarrow> rs \<Rightarrow> rs option" where
  "route_header i j flit_t s =
     (if address (fst s) = des_addr flit_t
      then do {
        let s = accept_flit (now s) flit_t s;
        s \<leftarrow> on_input (input_remove_flit i j) s;
        q \<leftarrow> input_at i j (input_module (fst s));
        on_input (state_update i j (if flit_type_of flit_t = HEADER then HOME else if length q > 0 then ROUTING else INIT)) s
      }
      else do {
        s \<leftarrow> on_input (clear_routing i j) s;
        s \<leftarrow> on_input (clear_crouting i j) s;
        cs \<leftarrow> curr_algorithm (routing_alg (fst s)) (ary_size (fst s)) (address (fst s)) (des_addr flit_t);
        s \<leftarrow> on_input (foldM (add_routing i j) cs) s;
        on_input (state_update i j VC_AB) s
      })"

text \<open>The other flits of a packet for this router.\<close>

definition accept_body :: "int \<Rightarrow> int \<Rightarrow> rs \<Rightarrow> rs option" where
  "accept_body i j s = do {
     q \<leftarrow> input_at i j (input_module (fst s));
     if q = [] then Some s
     else do {
       flit_t \<leftarrow> input_get_flit i j (input_module (fst s));
       if isHeader (flit_type_of flit_t) then None
       else do {
         let s = accept_flit (now s) flit_t s;
         s \<leftarrow> on_input (input_remove_flit i j) s;
         if flit_type_of flit_t = TAIL
         then on_input (state_update i j (if length q > 1 then ROUTING else INIT)) s
         else Some s
       }
     }
   }"

text \<open>Port 0 is the injection port; the other ports return credits and check that a packet starts with a header.\<close>

definition decide_channel :: "int \<Rightarrow> int \<Rightarrow> rs \<Rightarrow> rs option" where
  "decide_channel i j s = do {
     s \<leftarrow>
       (if i = 0 then Some s
        else do {
          q \<leftarrow> input_at i j (input_module (fst s));
          if q \<noteq> [] \<and> address (fst s) = des_addr (hd q) then send_credit i j s else Some s
        });
     st \<leftarrow> state_at i j (input_module (fst s));
     if st = ROUTING
     then do {
       flit_t \<leftarrow> input_get_flit i j (input_module (fst s));
       if i \<noteq> 0 \<and> \<not> isHeader (flit_type_of flit_t) then None else route_header i j flit_t s
     }
     else if st = HOME then accept_body i j s
     else Some s
   }"

definition routing_decision :: "rs \<Rightarrow> rs option" where
  "routing_decision s = do {
     s \<leftarrow> foldM (decide_channel 0) (vcs (fst s)) s;
     foldM (\<lambda>i s. foldM (decide_channel i) (vcs (fst s)) s) [1..physic_ports (fst s) - 1] s
   }"

section \<open>One cycle of a router\<close>

definition router_sim_pwr :: "popnet_env \<Rightarrow> nat \<Rightarrow> vc_share_type \<Rightarrow> rs \<Rightarrow> rs option" where
  "router_sim_pwr E cube_s share s = do {
     s \<leftarrow> flit_traversal s;
     s \<leftarrow> flit_outbuffer E cube_s share s;
     s \<leftarrow> sw_arbitration s;
     s \<leftarrow> vc_arbitration E share s;
     routing_decision s
   }"

section \<open>Construction and the final check\<close>

definition init_words :: "int \<Rightarrow> SRGen \<Rightarrow> (Data_type \<times> SRGen) option" where
  "init_words g r = foldM (\<lambda>_ (d, r). do { (v, r) \<leftarrow> flat_ull 0 MAX_64 r; Some (d @ [v], r) }) [0..g - 1] ([], r)"

text \<open>
  The constructor. The first number of the local trace is the time of the first packet; without a
  trace, or with an empty one, the time keeps its initial value 0.
\<close>

definition sim_router_init ::
    "int \<Rightarrow> int \<Rightarrow> int \<Rightarrow> int \<Rightarrow> add_type \<Rightarrow> int \<Rightarrow> int \<Rightarrow> int \<Rightarrow> trace option \<Rightarrow> SRGen \<Rightarrow> (sim_router_template \<times> SRGen) option" where
  "sim_router_init a b c d e f g alg file r = do {
     (dat, r) \<leftarrow> init_words g r;
     algorithm \<leftarrow> routing_alg_of alg;
     Some (\<lparr>address = e, input_module = input_template_init a b, output_module = output_template_init a b c d,
            power_module = [], init_data = dat, ary_size = f, flit_size = g, physic_ports = a, vc_number = b,
            buffer_size = c, outbuffer_size = d, total_delay = 0, routing_alg = algorithm,
            local_input_time = (case file of Some (t # _) \<Rightarrow> t | _ \<Rightarrow> 0), packet_counter = 0,
            localinFile = map_option tl file\<rparr>, r)
   }"

datatype check_line = Check_counter int | Input_not_empty | Input_state_wrong | Output_counter_wrong
  | Output_not_free | Output_buffer_not_empty | Local_counter_not_reset

definition empty_check_channel :: "sim_router_template \<Rightarrow> int \<Rightarrow> int \<Rightarrow> check_line list \<Rightarrow> check_line list option" where
  "empty_check_channel rt i j ls = do {
     q \<leftarrow> input_at i j (input_module rt);
     st \<leftarrow> state_at i j (input_module rt);
     c \<leftarrow> counter_at i j (output_module rt);
     u \<leftarrow> usage_at i j (output_module rt);
     a \<leftarrow> assign_at i j (output_module rt);
     Some (ls @ (if q \<noteq> [] then [Input_not_empty] else []) @ (if st \<noteq> INIT then [Input_state_wrong] else [])
           @ [Check_counter c] @ (if c \<noteq> buffer_size rt then [Output_counter_wrong] else [])
           @ (if u \<noteq> FREE then [Output_not_free] else []) @ (if a \<noteq> VC_NULL then [Output_not_free] else []))
   }"

definition empty_check_port :: "sim_router_template \<Rightarrow> int \<Rightarrow> check_line list \<Rightarrow> check_line list option" where
  "empty_check_port rt i ls = do {
     ls \<leftarrow> foldM (empty_check_channel rt i) (vcs rt) ls;
     b \<leftarrow> vat (om_outbuffers (output_module rt)) i;
     a \<leftarrow> vat (om_outadd (output_module rt)) i;
     l \<leftarrow> localcounter_at i (output_module rt);
     Some (ls @ (if b \<noteq> [] then [Output_buffer_not_empty] else []) @ (if a \<noteq> [] then [Output_buffer_not_empty] else [])
           @ (if l \<noteq> outbuffer_size rt then [Local_counter_not_reset] else []))
   }"

definition empty_check :: "sim_router_template \<Rightarrow> check_line list option" where
  "empty_check rt = foldM (empty_check_port rt) (ports rt) []"

end
