(* ===== verification/Popnet_Channels.thy ===== *)
theory Popnet_Channels
  imports Popnet_Router
begin

text \<open>
  The router's nested vectors seen as functions on channels. Every access of the pipeline is an
  access to a vector of a router whose vectors have the configured shape; on such a router the
  accesses are defined, and the operations of the input and output modules are updates at one
  channel of the abstract state. The pipeline stages are analysed on that abstract state.
\<close>

section \<open>Symbolic execution\<close>

text \<open>\<^term>\<open>ok r Q\<close>: the computation \<open>r\<close> is defined and its result satisfies \<open>Q\<close>.\<close>

definition ok :: "'a option \<Rightarrow> ('a \<Rightarrow> bool) \<Rightarrow> bool" where
  "ok r Q \<longleftrightarrow> (\<exists>x. r = Some x \<and> Q x)"

lemma ok_Some [simp]: "ok (Some x) Q = Q x"
  by (simp add: ok_def)

lemma ok_None [simp]: "\<not> ok None Q"
  by (simp add: ok_def)

lemma ok_bind: "ok r (\<lambda>x. ok (f x) Q) \<Longrightarrow> ok (r \<bind> f) Q"
  by (auto simp: ok_def)

lemma ok_mono: "ok r P \<Longrightarrow> (\<And>x. P x \<Longrightarrow> Q x) \<Longrightarrow> ok r Q"
  by (auto simp: ok_def)

lemma ok_if [simp]: "ok (if b then x else y) Q \<longleftrightarrow> (if b then ok x Q else ok y Q)"
  by simp

text \<open>
  Loops: the invariant speaks about the set of elements already visited; the elements of the loop
  are distinct.
\<close>

lemma foldM_visit_from:
  assumes "I Z s" "distinct xs" "set xs \<inter> Z = {}"
    and step: "\<And>x Z s. x \<in> set xs \<Longrightarrow> x \<notin> Z \<Longrightarrow> I Z s \<Longrightarrow> ok (f x s) (I (insert x Z))"
  shows "ok (foldM f xs s) (I (Z \<union> set xs))"
  using assms
proof (induction xs arbitrary: Z s)
  case (Cons x xs)
  have "ok (f x s) (I (insert x Z))" using Cons.prems by simp
  then obtain t where t: "f x s = Some t" "I (insert x Z) t" by (auto simp: ok_def)
  have "ok (foldM f xs t) (I (insert x Z \<union> set xs))"
    using Cons.prems by (intro Cons.IH) (auto simp: t)
  then show ?case by (simp add: t)
qed simp

lemma foldM_visit:
  assumes "I {} s" "distinct xs"
    and "\<And>x Z s. x \<in> set xs \<Longrightarrow> x \<notin> Z \<Longrightarrow> I Z s \<Longrightarrow> ok (f x s) (I (insert x Z))"
  shows "ok (foldM f xs s) (I (set xs))"
  using foldM_visit_from [where I = I and Z = "{}" and xs = xs and f = f] assms by simp

lemma foldM_ok:
  assumes "I s" "\<And>x s. x \<in> set xs \<Longrightarrow> I s \<Longrightarrow> ok (f x s) I"
  shows "ok (foldM f xs s) I"
  using foldM_total [of I s xs f] assms by (auto simp: ok_def)

lemma foldM_grid:
  assumes "I {} s" "distinct xs" "distinct ys"
    and inner: "\<And>Z s. I Z s \<Longrightarrow> zs s = ys"
    and step: "\<And>i j Z s. i \<in> set xs \<Longrightarrow> j \<in> set ys \<Longrightarrow> (i, j) \<notin> Z \<Longrightarrow> I Z s \<Longrightarrow> ok (f i j s) (I (insert (i, j) Z))"
  shows "ok (foldM (\<lambda>i s. foldM (f i) (zs s) s) xs s) (I (set xs \<times> set ys))"
proof -
  show ?thesis
  proof (rule foldM_visit [where I = "\<lambda>X. I (X \<times> set ys)"])
    fix x X s
    assume x: "x \<in> set xs" "x \<notin> X" and I: "I (X \<times> set ys) s"
    have "ok (foldM (f x) ys s) (I (X \<times> set ys \<union> {x} \<times> set ys))"
    proof (rule foldM_visit [where I = "\<lambda>Y. I (X \<times> set ys \<union> {x} \<times> Y)"])
      fix j Y s
      assume j: "j \<in> set ys" "j \<notin> Y" "I (X \<times> set ys \<union> {x} \<times> Y) s"
      have "ok (f x j s) (I (insert (x, j) (X \<times> set ys \<union> {x} \<times> Y)))"
        using x(2) j(2) by (intro step [OF x(1) j(1) _ j(3)]) simp
      moreover have "insert (x, j) (X \<times> set ys \<union> {x} \<times> Y) = X \<times> set ys \<union> {x} \<times> insert j Y" by blast
      ultimately show "ok (f x j s) (I (X \<times> set ys \<union> {x} \<times> insert j Y))" by (simp only:)
    qed (use I assms(3) in simp_all)
    moreover have "X \<times> set ys \<union> {x} \<times> set ys = insert x X \<times> set ys" by blast
    ultimately show "ok (foldM (f x) (zs s) s) (I (insert x X \<times> set ys))" using inner [OF I] by (simp only:)
  qed (use assms(1,2) in simp_all)
qed

section \<open>Vectors as functions\<close>

definition look :: "'a list \<Rightarrow> int \<Rightarrow> 'a" where
  "look xs i = the (vat xs i)"

definition look2 :: "'a list list \<Rightarrow> VC_type \<Rightarrow> 'a" where
  "look2 xs c = the (vat2 xs (fst c) (snd c))"

definition put :: "'a list \<Rightarrow> int \<Rightarrow> 'a \<Rightarrow> 'a list" where
  "put xs i v = xs[nat i := v]"

definition put2 :: "'a list list \<Rightarrow> VC_type \<Rightarrow> 'a \<Rightarrow> 'a list list" where
  "put2 xs c v = xs[nat (fst c) := (xs ! nat (fst c))[nat (snd c) := v]]"

definition inside :: "int \<Rightarrow> int \<Rightarrow> VC_type \<Rightarrow> bool" where
  "inside n m c \<longleftrightarrow> 0 \<le> fst c \<and> fst c < n \<and> 0 \<le> snd c \<and> snd c < m"

lemma vat_look: "0 \<le> i \<Longrightarrow> i < int (length xs) \<Longrightarrow> vat xs i = Some (look xs i)"
  by (simp add: look_def vat_def)

lemma vupd_put: "0 \<le> i \<Longrightarrow> i < int (length xs) \<Longrightarrow> vupd xs i f = Some (put xs i (f (look xs i)))"
  by (simp add: look_def vat_def vupd_def put_def)

lemma look_put: "0 \<le> i \<Longrightarrow> i < int (length xs) \<Longrightarrow> look (put xs i v) = (look xs)(i := v)"
  by (auto simp: look_def vat_def put_def nth_list_update nat_eq_iff fun_eq_iff)

lemma length_put [simp]: "length (put xs i v) = length xs"
  by (simp add: put_def)

lemma vat2_look2:
  assumes "shape xs n m" "inside n m (i, j)"
  shows "vat2 xs i j = Some (look2 xs (i, j))"
proof -
  have "\<exists>x. vat2 xs i j = Some x" using assms vat2_shape [of xs n m i j] by (simp add: inside_def)
  then show ?thesis by (auto simp: look2_def)
qed

lemma vupd2_put2:
  assumes "shape xs n m" "inside n m (i, j)"
  shows "vupd2 xs i j f = Some (put2 xs (i, j) (f (look2 xs (i, j))))"
proof -
  have "nat i < length xs" "xs ! nat i \<in> set xs" using assms by (auto simp: shape_def inside_def)
  then have "int (length (xs ! nat i)) = m" using assms by (simp add: shape_def)
  then show ?thesis
    using assms by (simp add: vupd2_def vupd_def look2_def vat2_def vat_def put2_def shape_def inside_def)
qed

lemma look2_put2:
  assumes "shape xs n m" "inside n m c"
  shows "look2 (put2 xs c v) = (look2 xs)(c := v)"
proof -
  obtain i j where c: "c = (i, j)" by (cases c)
  have "vupd2 xs i j (\<lambda>_. v) = Some (put2 xs (i, j) v)" using vupd2_put2 [OF assms(1), of i j] assms(2) c by simp
  then have "vat2 (put2 xs (i, j) v) a b = (if a = i \<and> b = j then map_option (\<lambda>_. v) (vat2 xs i j) else vat2 xs a b)" for a b
    by (rule vat2_vupd2)
  moreover obtain y where "vat2 xs i j = Some y" using vat2_look2 [OF assms(1), of i j] assms(2) c by simp
  ultimately show ?thesis by (auto simp: look2_def fun_eq_iff c)
qed

lemma shape_put2:
  assumes "shape xs n m" "inside n m c"
  shows "shape (put2 xs c v) n m"
  using shape_vupd2 [OF vupd2_put2 [OF assms(1), of "fst c" "snd c" "\<lambda>_. v"], of n m] assms by simp

section \<open>The abstract state\<close>

record chans =
  buf :: "VC_type \<Rightarrow> flit_template list"
  st :: "VC_type \<Rightarrow> VC_state_type"
  rts :: "VC_type \<Rightarrow> VC_type list"
  cr :: "VC_type \<Rightarrow> VC_type"
  ctr :: "VC_type \<Rightarrow> int"
  own :: "VC_type \<Rightarrow> VC_usage_type \<times> VC_type"
  outs :: "int \<Rightarrow> flit_template list \<times> int"
  oa :: "int \<Rightarrow> VC_type list"

definition abs_router :: "sim_router_template \<Rightarrow> chans" where
  "abs_router rt =
     \<lparr>buf = look2 (in_input (input_module rt)), st = look2 (in_states (input_module rt)),
      rts = look2 (in_routing (input_module rt)), cr = look2 (in_crouting (input_module rt)),
      ctr = look2 (om_counter (output_module rt)),
      own = (\<lambda>c. (look2 (om_usage (output_module rt)) c, look2 (om_assign (output_module rt)) c)),
      outs = (\<lambda>i. (look (om_outbuffers (output_module rt)) i, look (om_localcounter (output_module rt)) i)),
      oa = look (om_outadd (output_module rt))\<rparr>"

definition in_shape :: "int \<Rightarrow> int \<Rightarrow> input_template \<Rightarrow> bool" where
  "in_shape n m im \<longleftrightarrow> shape (in_input im) n m \<and> shape (in_states im) n m \<and> shape (in_routing im) n m \<and> shape (in_crouting im) n m"

definition out_shape :: "int \<Rightarrow> int \<Rightarrow> output_template \<Rightarrow> bool" where
  "out_shape n m om \<longleftrightarrow> shape (om_counter om) n m \<and> shape (om_usage om) n m \<and> shape (om_assign om) n m \<and>
     int (length (om_outbuffers om)) = n \<and> int (length (om_localcounter om)) = n \<and> int (length (om_outadd om)) = n"

definition wf_router :: "sim_router_template \<Rightarrow> bool" where
  "wf_router rt \<longleftrightarrow> 1 \<le> physic_ports rt \<and> in_shape (physic_ports rt) (vc_number rt) (input_module rt) \<and>
     out_shape (physic_ports rt) (vc_number rt) (output_module rt)"

definition chan :: "sim_router_template \<Rightarrow> VC_type \<Rightarrow> bool" where
  "chan rt c \<longleftrightarrow> inside (physic_ports rt) (vc_number rt) c"

definition port :: "sim_router_template \<Rightarrow> int \<Rightarrow> bool" where
  "port rt i \<longleftrightarrow> 0 \<le> i \<and> i < physic_ports rt"

lemma chan_port: "chan rt c \<Longrightarrow> port rt (fst c)"
  by (simp add: chan_def port_def inside_def)

subsection \<open>Writing one entry\<close>

definition set_buf :: "VC_type \<Rightarrow> flit_template list \<Rightarrow> sim_router_template \<Rightarrow> sim_router_template" where
  "set_buf c v rt = rt\<lparr>input_module := (input_module rt)\<lparr>in_input := put2 (in_input (input_module rt)) c v\<rparr>\<rparr>"

definition set_st :: "VC_type \<Rightarrow> VC_state_type \<Rightarrow> sim_router_template \<Rightarrow> sim_router_template" where
  "set_st c v rt = rt\<lparr>input_module := (input_module rt)\<lparr>in_states := put2 (in_states (input_module rt)) c v\<rparr>\<rparr>"

definition set_rts :: "VC_type \<Rightarrow> VC_type list \<Rightarrow> sim_router_template \<Rightarrow> sim_router_template" where
  "set_rts c v rt = rt\<lparr>input_module := (input_module rt)\<lparr>in_routing := put2 (in_routing (input_module rt)) c v\<rparr>\<rparr>"

definition set_cr :: "VC_type \<Rightarrow> VC_type \<Rightarrow> sim_router_template \<Rightarrow> sim_router_template" where
  "set_cr c v rt = rt\<lparr>input_module := (input_module rt)\<lparr>in_crouting := put2 (in_crouting (input_module rt)) c v\<rparr>\<rparr>"

definition set_ctr :: "VC_type \<Rightarrow> int \<Rightarrow> sim_router_template \<Rightarrow> sim_router_template" where
  "set_ctr c v rt = rt\<lparr>output_module := (output_module rt)\<lparr>om_counter := put2 (om_counter (output_module rt)) c v\<rparr>\<rparr>"

definition set_own :: "VC_type \<Rightarrow> VC_usage_type \<times> VC_type \<Rightarrow> sim_router_template \<Rightarrow> sim_router_template" where
  "set_own c v rt = rt\<lparr>output_module := (output_module rt)\<lparr>om_usage := put2 (om_usage (output_module rt)) c (fst v),
     om_assign := put2 (om_assign (output_module rt)) c (snd v)\<rparr>\<rparr>"

definition set_outs :: "int \<Rightarrow> flit_template list \<times> int \<Rightarrow> sim_router_template \<Rightarrow> sim_router_template" where
  "set_outs i v rt = rt\<lparr>output_module := (output_module rt)\<lparr>om_outbuffers := put (om_outbuffers (output_module rt)) i (fst v),
     om_localcounter := put (om_localcounter (output_module rt)) i (snd v)\<rparr>\<rparr>"

definition set_oa :: "int \<Rightarrow> VC_type list \<Rightarrow> sim_router_template \<Rightarrow> sim_router_template" where
  "set_oa i v rt = rt\<lparr>output_module := (output_module rt)\<lparr>om_outadd := put (om_outadd (output_module rt)) i v\<rparr>\<rparr>"

lemmas set_defs = set_buf_def set_st_def set_rts_def set_cr_def set_ctr_def set_own_def set_outs_def set_oa_def
lemmas shape_defs = wf_router_def in_shape_def out_shape_def chan_def port_def

text \<open>What no operation of the pipeline changes.\<close>

definition same_setup :: "sim_router_template \<Rightarrow> sim_router_template \<Rightarrow> bool" where
  "same_setup a b \<longleftrightarrow> address a = address b \<and> ary_size a = ary_size b \<and> physic_ports a = physic_ports b \<and>
     vc_number a = vc_number b \<and> routing_alg a = routing_alg b \<and> outbuffer_size a = outbuffer_size b \<and>
     flit_size a = flit_size b \<and> length (init_data a) = length (init_data b)"

lemma same_setup_refl [simp]: "same_setup a a"
  by (simp add: same_setup_def)

lemma same_setup_trans: "same_setup a b \<Longrightarrow> same_setup b c \<Longrightarrow> same_setup a c"
  by (simp add: same_setup_def)

lemma setup_set [simp]:
  "same_setup a (set_buf c v1 rt) = same_setup a rt" "same_setup a (set_st c v2 rt) = same_setup a rt"
  "same_setup a (set_rts c v3 rt) = same_setup a rt" "same_setup a (set_cr c v4 rt) = same_setup a rt"
  "same_setup a (set_ctr c v5 rt) = same_setup a rt" "same_setup a (set_own c v6 rt) = same_setup a rt"
  "same_setup a (set_outs i v7 rt) = same_setup a rt" "same_setup a (set_oa i v8 rt) = same_setup a rt"
  by (simp_all add: set_defs same_setup_def)

lemma consts_set [simp]:
  "address (set_buf c v1 rt) = address rt" "address (set_st c v2 rt) = address rt"
  "address (set_rts c v3 rt) = address rt" "address (set_cr c v4 rt) = address rt"
  "address (set_ctr c v5 rt) = address rt" "address (set_own c v6 rt) = address rt"
  "address (set_outs i v7 rt) = address rt" "address (set_oa i v8 rt) = address rt"
  "ary_size (set_buf c v1 rt) = ary_size rt" "ary_size (set_st c v2 rt) = ary_size rt"
  "ary_size (set_rts c v3 rt) = ary_size rt" "ary_size (set_cr c v4 rt) = ary_size rt"
  "ary_size (set_ctr c v5 rt) = ary_size rt" "ary_size (set_own c v6 rt) = ary_size rt"
  "ary_size (set_outs i v7 rt) = ary_size rt" "ary_size (set_oa i v8 rt) = ary_size rt"
  "routing_alg (set_buf c v1 rt) = routing_alg rt" "routing_alg (set_st c v2 rt) = routing_alg rt"
  "routing_alg (set_rts c v3 rt) = routing_alg rt" "routing_alg (set_cr c v4 rt) = routing_alg rt"
  "routing_alg (set_ctr c v5 rt) = routing_alg rt" "routing_alg (set_own c v6 rt) = routing_alg rt"
  "routing_alg (set_outs i v7 rt) = routing_alg rt" "routing_alg (set_oa i v8 rt) = routing_alg rt"
  by (simp_all add: set_defs)

lemma dims_set [simp]:
  "vc_number (set_buf c v1 rt) = vc_number rt" "vc_number (set_st c v2 rt) = vc_number rt"
  "vc_number (set_rts c v3 rt) = vc_number rt" "vc_number (set_cr c v4 rt) = vc_number rt"
  "vc_number (set_ctr c v5 rt) = vc_number rt" "vc_number (set_own c v6 rt) = vc_number rt"
  "vc_number (set_outs i v7 rt) = vc_number rt" "vc_number (set_oa i v8 rt) = vc_number rt"
  "physic_ports (set_buf c v1 rt) = physic_ports rt" "physic_ports (set_st c v2 rt) = physic_ports rt"
  "physic_ports (set_rts c v3 rt) = physic_ports rt" "physic_ports (set_cr c v4 rt) = physic_ports rt"
  "physic_ports (set_ctr c v5 rt) = physic_ports rt" "physic_ports (set_own c v6 rt) = physic_ports rt"
  "physic_ports (set_outs i v7 rt) = physic_ports rt" "physic_ports (set_oa i v8 rt) = physic_ports rt"
  "outbuffer_size (set_buf c v1 rt) = outbuffer_size rt" "outbuffer_size (set_st c v2 rt) = outbuffer_size rt"
  "outbuffer_size (set_rts c v3 rt) = outbuffer_size rt" "outbuffer_size (set_cr c v4 rt) = outbuffer_size rt"
  "outbuffer_size (set_ctr c v5 rt) = outbuffer_size rt" "outbuffer_size (set_own c v6 rt) = outbuffer_size rt"
  "outbuffer_size (set_outs i v7 rt) = outbuffer_size rt" "outbuffer_size (set_oa i v8 rt) = outbuffer_size rt"
  by (simp_all add: set_defs)

lemma ibuff_full_set [simp]:
  "ibuff_full (input_module (set_buf c v1 rt)) = ibuff_full (input_module rt)"
  "ibuff_full (input_module (set_st c v2 rt)) = ibuff_full (input_module rt)"
  "ibuff_full (input_module (set_rts c v3 rt)) = ibuff_full (input_module rt)"
  "ibuff_full (input_module (set_cr c v4 rt)) = ibuff_full (input_module rt)"
  "ibuff_full (input_module (set_ctr c v5 rt)) = ibuff_full (input_module rt)"
  "ibuff_full (input_module (set_own c v6 rt)) = ibuff_full (input_module rt)"
  "ibuff_full (input_module (set_outs i v7 rt)) = ibuff_full (input_module rt)"
  "ibuff_full (input_module (set_oa i v8 rt)) = ibuff_full (input_module rt)"
  by (simp_all add: set_defs)

lemma chan_set [simp]:
  "chan (set_buf c v1 rt) = chan rt" "chan (set_st c v2 rt) = chan rt" "chan (set_rts c v3 rt) = chan rt"
  "chan (set_cr c v4 rt) = chan rt" "chan (set_ctr c v5 rt) = chan rt" "chan (set_own c v6 rt) = chan rt"
  "chan (set_outs i v7 rt) = chan rt" "chan (set_oa i v8 rt) = chan rt"
  "port (set_buf c v1 rt) = port rt" "port (set_st c v2 rt) = port rt" "port (set_rts c v3 rt) = port rt"
  "port (set_cr c v4 rt) = port rt" "port (set_ctr c v5 rt) = port rt" "port (set_own c v6 rt) = port rt"
  "port (set_outs i v7 rt) = port rt" "port (set_oa i v8 rt) = port rt"
  by (simp_all add: fun_eq_iff chan_def port_def)

lemma wf_set [simp]:
  "wf_router rt \<Longrightarrow> chan rt c \<Longrightarrow> wf_router (set_buf c v1 rt)" "wf_router rt \<Longrightarrow> chan rt c \<Longrightarrow> wf_router (set_st c v2 rt)"
  "wf_router rt \<Longrightarrow> chan rt c \<Longrightarrow> wf_router (set_rts c v3 rt)" "wf_router rt \<Longrightarrow> chan rt c \<Longrightarrow> wf_router (set_cr c v4 rt)"
  "wf_router rt \<Longrightarrow> chan rt c \<Longrightarrow> wf_router (set_ctr c v5 rt)" "wf_router rt \<Longrightarrow> chan rt c \<Longrightarrow> wf_router (set_own c v6 rt)"
  "wf_router rt \<Longrightarrow> wf_router (set_outs i v7 rt)" "wf_router rt \<Longrightarrow> wf_router (set_oa i v8 rt)"
  by (simp_all add: set_defs shape_defs shape_put2)

lemma abs_set [simp]:
  "wf_router rt \<Longrightarrow> chan rt c \<Longrightarrow> abs_router (set_buf c v1 rt) = (abs_router rt)\<lparr>buf := (buf (abs_router rt))(c := v1)\<rparr>"
  "wf_router rt \<Longrightarrow> chan rt c \<Longrightarrow> abs_router (set_st c v2 rt) = (abs_router rt)\<lparr>st := (st (abs_router rt))(c := v2)\<rparr>"
  "wf_router rt \<Longrightarrow> chan rt c \<Longrightarrow> abs_router (set_rts c v3 rt) = (abs_router rt)\<lparr>rts := (rts (abs_router rt))(c := v3)\<rparr>"
  "wf_router rt \<Longrightarrow> chan rt c \<Longrightarrow> abs_router (set_cr c v4 rt) = (abs_router rt)\<lparr>cr := (cr (abs_router rt))(c := v4)\<rparr>"
  "wf_router rt \<Longrightarrow> chan rt c \<Longrightarrow> abs_router (set_ctr c v5 rt) = (abs_router rt)\<lparr>ctr := (ctr (abs_router rt))(c := v5)\<rparr>"
  "wf_router rt \<Longrightarrow> chan rt c \<Longrightarrow> abs_router (set_own c v6 rt) = (abs_router rt)\<lparr>own := (own (abs_router rt))(c := v6)\<rparr>"
  "wf_router rt \<Longrightarrow> port rt i \<Longrightarrow> abs_router (set_outs i v7 rt) = (abs_router rt)\<lparr>outs := (outs (abs_router rt))(i := v7)\<rparr>"
  "wf_router rt \<Longrightarrow> port rt i \<Longrightarrow> abs_router (set_oa i v8 rt) = (abs_router rt)\<lparr>oa := (oa (abs_router rt))(i := v8)\<rparr>"
  by (auto simp: set_defs shape_defs abs_router_def look2_put2 look_put fun_eq_iff)

subsection \<open>The operations of the modules\<close>

lemma input_module_reads:
  assumes "wf_router rt" "chan rt (i, j)"
  shows "input_at i j (input_module rt) = Some (buf (abs_router rt) (i, j))"
    "state_at i j (input_module rt) = Some (st (abs_router rt) (i, j))"
    "crouting_at i j (input_module rt) = Some (cr (abs_router rt) (i, j))"
    "routing_at i j (input_module rt) = Some (rts (abs_router rt) (i, j))"
    "input_get_flit i j (input_module rt) = (if buf (abs_router rt) (i, j) = [] then None else Some (hd (buf (abs_router rt) (i, j))))"
  using assms
  by (simp_all add: input_at_def state_at_def crouting_at_def routing_at_def input_get_flit_def abs_router_def shape_defs
      vat2_look2 [of _ "physic_ports rt" "vc_number rt"])

lemma output_module_reads:
  assumes "wf_router rt" "chan rt (i, j)"
  shows "counter_at i j (output_module rt) = Some (ctr (abs_router rt) (i, j))"
    "usage_at i j (output_module rt) = Some (fst (own (abs_router rt) (i, j)))"
    "assign_at i j (output_module rt) = Some (snd (own (abs_router rt) (i, j)))"
  using assms
  by (simp_all add: counter_at_def usage_at_def assign_at_def abs_router_def shape_defs
      vat2_look2 [of _ "physic_ports rt" "vc_number rt"])

lemma output_port_reads:
  assumes "wf_router rt" "port rt i"
  shows "vat (om_outbuffers (output_module rt)) i = Some (fst (outs (abs_router rt) i))"
    "localcounter_at i (output_module rt) = Some (snd (outs (abs_router rt) i))"
    "vat (om_outadd (output_module rt)) i = Some (oa (abs_router rt) i)"
    "output_get_flit i (output_module rt) = (if fst (outs (abs_router rt) i) = [] then None else Some (hd (fst (outs (abs_router rt) i))))"
    "get_add i (output_module rt) = (if oa (abs_router rt) i = [] then None else Some (hd (oa (abs_router rt) i)))"
  using assms
  by (simp_all add: localcounter_at_def output_get_flit_def get_add_def abs_router_def shape_defs vat_look)

lemmas reads = input_module_reads output_module_reads output_port_reads

lemma input_module_runs:
  assumes "wf_router (fst s)" "chan (fst s) (i, j)"
  shows "on_input (state_update i j x) s = Some (set_st (i, j) x (fst s), snd s)"
    "on_input (crouting_assign i j d) s = Some (set_cr (i, j) d (fst s), snd s)"
    "on_input (clear_crouting i j) s = Some (set_cr (i, j) VC_NULL (fst s), snd s)"
    "on_input (clear_routing i j) s = Some (set_rts (i, j) [] (fst s), snd s)"
    "on_input (input_add_flit i j f) s = Some (set_buf (i, j) (buf (abs_router (fst s)) (i, j) @ [f]) (fst s), snd s)"
    "on_input (input_remove_flit i j) s =
       (if buf (abs_router (fst s)) (i, j) = [] then None else Some (set_buf (i, j) (tl (buf (abs_router (fst s)) (i, j))) (fst s), snd s))"
  using assms
  by (simp_all add: on_input_def state_update_def crouting_assign_def clear_crouting_def clear_routing_def input_add_flit_def
      input_remove_flit_def set_defs abs_router_def shape_defs vat2_look2 [of _ "physic_ports (fst s)" "vc_number (fst s)"]
      vupd2_put2 [of _ "physic_ports (fst s)" "vc_number (fst s)"])

lemma output_module_runs:
  assumes "wf_router (fst s)" "chan (fst s) (i, j)"
  shows "on_output (counter_inc i j) s = Some (set_ctr (i, j) (ctr (abs_router (fst s)) (i, j) + 1) (fst s), snd s)"
    "on_output (counter_dec i j) s = Some (set_ctr (i, j) (ctr (abs_router (fst s)) (i, j) - 1) (fst s), snd s)"
    "on_output (acquire i j c) s = Some (set_own (i, j) (USED, c) (fst s), snd s)"
    "on_output (release i j) s = Some (set_own (i, j) (FREE, VC_NULL) (fst s), snd s)"
  using assms
  by (simp_all add: on_output_def counter_inc_def counter_dec_def acquire_def release_def set_defs abs_router_def shape_defs
      vupd2_put2 [of _ "physic_ports (fst s)" "vc_number (fst s)"])

lemma output_port_runs:
  assumes "wf_router (fst s)" "port (fst s) i"
  shows "on_output (output_add_flit i f) s =
      Some (set_outs i (fst (outs (abs_router (fst s)) i) @ [f], snd (outs (abs_router (fst s)) i) - 1) (fst s), snd s)"
    "on_output (output_remove_flit i) s = (if fst (outs (abs_router (fst s)) i) = [] then None
      else Some (set_outs i (tl (fst (outs (abs_router (fst s)) i)), snd (outs (abs_router (fst s)) i) + 1) (fst s), snd s))"
    "on_output (remove_add i) s = (if oa (abs_router (fst s)) i = [] then None else Some (set_oa i (tl (oa (abs_router (fst s)) i)) (fst s), snd s))"
    "on_output (add_add i d) s = Some (set_oa i (oa (abs_router (fst s)) i @ [d]) (fst s), snd s)"
  using assms
  by (simp_all add: on_output_def output_add_flit_def output_remove_flit_def remove_add_def add_add_def set_defs abs_router_def
      shape_defs vat_look vupd_put)

lemma put2_look2:
  assumes "shape xs n m" "inside n m c"
  shows "put2 xs c (look2 xs c) = xs"
proof -
  have "nat (fst c) < length xs" "xs ! nat (fst c) \<in> set xs" using assms by (auto simp: shape_def inside_def)
  then have "int (length (xs ! nat (fst c))) = m" using assms by (simp add: shape_def)
  then show ?thesis using assms by (simp add: put2_def look2_def vat2_def vat_def shape_def inside_def)
qed

lemma set_st_same: "wf_router rt \<Longrightarrow> chan rt c \<Longrightarrow> set_st c (st (abs_router rt) c) rt = rt"
  by (simp add: set_st_def abs_router_def shape_defs put2_look2 [of _ "physic_ports rt" "vc_number rt"])

lemma set_rts_twice: "set_rts c v (set_rts c u rt) = set_rts c v rt"
proof -
  have "put2 (put2 xs c u) c v = put2 xs c v" for xs :: "VC_type list list list"
    by (cases "nat (fst c) < length xs") (simp_all add: put2_def list_update_beyond)
  then show ?thesis by (simp add: set_rts_def)
qed

lemma add_routing_runs:
  assumes "wf_router (fst s)" "chan (fst s) (i, j)"
  shows "on_input (foldM (add_routing i j) cs) s = Some (set_rts (i, j) (rts (abs_router (fst s)) (i, j) @ cs) (fst s), snd s)"
  using assms
proof (induction cs arbitrary: s)
  case Nil
  then show ?case
    by (simp add: on_input_def set_rts_def abs_router_def shape_defs put2_look2 [of _ "physic_ports (fst s)" "vc_number (fst s)"])
next
  case (Cons c cs)
  have "on_input (add_routing i j c) s = Some (set_rts (i, j) (rts (abs_router (fst s)) (i, j) @ [c]) (fst s), snd s)"
    using Cons.prems
    by (simp add: on_input_def add_routing_def set_defs abs_router_def shape_defs vupd2_put2 [of _ "physic_ports (fst s)" "vc_number (fst s)"])
  moreover have "on_input (foldM (add_routing i j) (c # cs)) s = on_input (add_routing i j c) s \<bind> on_input (foldM (add_routing i j) cs)"
    by (cases "add_routing i j c (input_module (fst s))") (simp_all add: on_input_def)
  ultimately show ?case
    using Cons.IH [of "(set_rts (i, j) (rts (abs_router (fst s)) (i, j) @ [c]) (fst s), snd s)"] Cons.prems
    by (simp add: set_rts_twice del: foldM.simps)
qed

lemmas runs = input_module_runs output_module_runs output_port_runs add_routing_runs

text \<open>The power log is not part of the abstract state.\<close>

definition log_power :: "power_call \<Rightarrow> sim_router_template \<Rightarrow> sim_router_template" where
  "log_power p rt = rt\<lparr>power_module := power_module rt @ [p]\<rparr>"

lemma on_power_eq [simp]: "on_power p s = (log_power p (fst s), snd s)"
  by (simp add: on_power_def log_power_def)

lemma log_power_same [simp]:
  "abs_router (log_power p rt) = abs_router rt" "wf_router (log_power p rt) = wf_router rt"
  "chan (log_power p rt) = chan rt" "port (log_power p rt) = port rt" "same_setup a (log_power p rt) = same_setup a rt"
  "input_module (log_power p rt) = input_module rt" "output_module (log_power p rt) = output_module rt"
  "address (log_power p rt) = address rt" "ary_size (log_power p rt) = ary_size rt"
  "physic_ports (log_power p rt) = physic_ports rt" "vc_number (log_power p rt) = vc_number rt"
  "routing_alg (log_power p rt) = routing_alg rt" "outbuffer_size (log_power p rt) = outbuffer_size rt"
  by (auto simp: log_power_def abs_router_def shape_defs same_setup_def fun_eq_iff)

lemma log_power_set [simp]:
  "set_buf c v1 (log_power p rt) = log_power p (set_buf c v1 rt)" "set_st c v2 (log_power p rt) = log_power p (set_st c v2 rt)"
  "set_rts c v3 (log_power p rt) = log_power p (set_rts c v3 rt)" "set_cr c v4 (log_power p rt) = log_power p (set_cr c v4 rt)"
  "set_ctr c v5 (log_power p rt) = log_power p (set_ctr c v5 rt)" "set_own c v6 (log_power p rt) = log_power p (set_own c v6 rt)"
  "set_outs i v7 (log_power p rt) = log_power p (set_outs i v7 rt)" "set_oa i v8 (log_power p rt) = log_power p (set_oa i v8 rt)"
  by (simp_all add: log_power_def set_defs)

end
