(* ===== verification/Popnet_Invariant.thy ===== *)
theory Popnet_Invariant
  imports Popnet_Channels
begin

text \<open>
  The invariant of a router and its preservation by every pipeline stage, with an account of the
  flits: a flit of the router stays in it, leaves on a wire to the neighbour of its output port, or is
  delivered here, which happens only at its destination.
\<close>

section \<open>Accounting for flits\<close>

definition flits :: "sim_router_template \<Rightarrow> flit_template multiset" where
  "flits rt = mset (concat (concat (in_input (input_module rt)))) + mset (concat (om_outbuffers (output_module rt)))"

lemma mset_concat_update:
  "k < length xs \<Longrightarrow> mset (concat (xs[k := y])) + mset (xs ! k) = mset (concat xs) + mset y"
proof (induction xs arbitrary: k)
  case (Cons x xs)
  then show ?case by (cases k) (auto simp: ac_simps)
qed simp

lemma mset_exchange:
  fixes a :: "'a multiset"
  assumes "a + r = t + r'" "r' + b = r + v"
  shows "a + b = t + v"
proof -
  have "(a + b) + r = (a + r) + b" by (simp only: ac_simps)
  also have "\<dots> = t + (r' + b)" by (simp only: assms(1) add.assoc)
  also have "\<dots> = t + (r + v)" by (simp only: assms(2))
  also have "\<dots> = (t + v) + r" by (simp only: ac_simps)
  finally show ?thesis by simp
qed

lemma flits_set_buf:
  assumes "wf_router rt" "chan rt c"
  shows "flits (set_buf c v rt) + mset (buf (abs_router rt) c) = flits rt + mset v"
proof -
  let ?xs = "in_input (input_module rt)"
  have i: "nat (fst c) < length ?xs" "?xs ! nat (fst c) \<in> set ?xs" using assms by (auto simp: shape_defs shape_def inside_def)
  then have "int (length (?xs ! nat (fst c))) = vc_number rt" using assms by (simp add: shape_defs shape_def)
  then have j: "nat (snd c) < length (?xs ! nat (fst c))" using assms(2) by (auto simp: chan_def inside_def nat_less_iff)
  have b: "buf (abs_router rt) c = ?xs ! nat (fst c) ! nat (snd c)"
    using assms i j by (simp add: abs_router_def look2_def vat2_def vat_def shape_defs inside_def shape_def)
  have "mset (concat (concat (put2 ?xs c v))) + mset (buf (abs_router rt) c) = mset (concat (concat ?xs)) + mset v"
  proof -
    define r where "r = ?xs ! nat (fst c)"
    have cc: "concat (concat ys) = concat (map concat ys)" for ys :: "flit_template list list list"
      by (induction ys) auto
    have "mset (concat (map concat (?xs[nat (fst c) := r[nat (snd c) := v]]))) + mset (map concat ?xs ! nat (fst c))
        = mset (concat (map concat ?xs)) + mset (concat (r[nat (snd c) := v]))"
      unfolding map_update by (rule mset_concat_update) (use i in simp)
    moreover have "map concat ?xs ! nat (fst c) = concat r" using i(1) by (simp add: r_def)
    ultimately have e1: "mset (concat (map concat (?xs[nat (fst c) := r[nat (snd c) := v]]))) + mset (concat r)
        = mset (concat (map concat ?xs)) + mset (concat (r[nat (snd c) := v]))" by (simp only:)
    have e2: "mset (concat (r[nat (snd c) := v])) + mset (r ! nat (snd c)) = mset (concat r) + mset v"
      by (rule mset_concat_update) (use j r_def in simp)
    note mset_exchange [OF e1 e2]
    then show ?thesis by (simp only: put2_def b cc r_def)
  qed
  then show ?thesis by (simp add: flits_def set_buf_def ac_simps)
qed

lemma flits_set_outs:
  assumes "wf_router rt" "port rt i"
  shows "flits (set_outs i v rt) + mset (fst (outs (abs_router rt) i)) = flits rt + mset (fst v)"
proof -
  let ?xs = "om_outbuffers (output_module rt)"
  have "fst (outs (abs_router rt) i) = ?xs ! nat i" "nat i < length ?xs"
    using assms by (auto simp: abs_router_def look_def vat_def shape_defs)
  then show ?thesis
    using mset_concat_update [of "nat i" ?xs "fst v"] by (simp add: flits_def set_outs_def put_def ac_simps)
qed

lemma flits_same [simp]:
  "flits (set_st c v2 rt) = flits rt" "flits (set_rts c v3 rt) = flits rt" "flits (set_cr c v4 rt) = flits rt"
  "flits (set_ctr c v5 rt) = flits rt" "flits (set_own c v6 rt) = flits rt" "flits (set_oa i v8 rt) = flits rt"
  "flits (log_power p rt) = flits rt"
  by (simp_all add: flits_def set_defs log_power_def)

lemma flits_pop_buf:
  assumes "wf_router rt" "chan rt c" "buf (abs_router rt) c \<noteq> []"
  shows "flits rt = add_mset (hd (buf (abs_router rt) c)) (flits (set_buf c (tl (buf (abs_router rt) c)) rt))"
  using flits_set_buf [OF assms(1,2), of "tl (buf (abs_router rt) c)"] assms(3) by (cases "buf (abs_router rt) c") auto

lemma flits_pop_outs:
  assumes "wf_router rt" "port rt i" "fst (outs (abs_router rt) i) \<noteq> []"
  shows "flits rt = add_mset (hd (fst (outs (abs_router rt) i))) (flits (set_outs i (tl (fst (outs (abs_router rt) i)), n) rt))"
  using flits_set_outs [OF assms(1,2), of "(tl (fst (outs (abs_router rt) i)), n)"] assms(3)
  by (cases "fst (outs (abs_router rt) i)") auto

lemma flits_push_outs:
  assumes "wf_router rt" "port rt i"
  shows "flits (set_outs i (fst (outs (abs_router rt) i) @ [f], n) rt) = add_mset f (flits rt)"
  using flits_set_outs [OF assms, of "(fst (outs (abs_router rt) i) @ [f], n)"] by simp

lemma flits_push_buf:
  assumes "wf_router rt" "chan rt c"
  shows "flits (set_buf c (buf (abs_router rt) c @ [f]) rt) = add_mset f (flits rt)"
  using flits_set_buf [OF assms, of "buf (abs_router rt) c @ [f]"] by simp

section \<open>What a router does to the rest of the simulator\<close>

text \<open>The flits on the wires among a set of events.\<close>

definition wires :: "mess_event multiset \<Rightarrow> flit_template multiset" where
  "wires es = image_mset get_flit (filter_mset (\<lambda>e. event_type e = WIRE) es)"

lemma wires_add [simp]: "wires (a + b) = wires a + wires b" "wires {#} = {#}"
  "wires (add_mset e a) = (if event_type e = WIRE then add_mset (get_flit e) (wires a) else wires a)"
  by (simp_all add: wires_def)

definition out_link :: "sim_router_template \<Rightarrow> int \<Rightarrow> bool" where
  "out_link rt i \<longleftrightarrow> 1 \<le> i \<and> i < physic_ports rt \<and> getWireDelay (ary_size rt) (address rt) i \<noteq> None \<and>
     getWirePc (ary_size rt) (address rt) i \<noteq> None \<and> getNextAddress (ary_size rt) (address rt) i \<noteq> None"

definition in_link :: "sim_router_template \<Rightarrow> int \<Rightarrow> bool" where
  "in_link rt i \<longleftrightarrow> 1 \<le> i \<and> i < physic_ports rt \<and>
     getFromRouter (ary_size rt) (address rt) i \<noteq> None \<and> getFromPort (ary_size rt) (address rt) i \<noteq> None"

text \<open>An event that a router sends at time \<open>t\<close>: a flit over an output link, or a credit over an input link.\<close>

definition sent_ok :: "sim_router_template \<Rightarrow> time_type \<Rightarrow> mess_event \<Rightarrow> bool" where
  "sent_ok rt t e \<longleftrightarrow>
     (event_type e = WIRE \<and> (\<exists>i d. out_link rt i \<and> getWireDelay (ary_size rt) (address rt) i = Some d \<and>
        event_start e = d + t \<and> getNextAddress (ary_size rt) (address rt) i = Some (ev_des e) \<and>
        getWirePc (ary_size rt) (address rt) i = Some (ev_pc e) \<and> 0 \<le> ev_vc e \<and> ev_vc e < vc_number rt)) \<or>
     (event_type e = CREDIT \<and> (\<exists>i. in_link rt i \<and> event_start e = t + CREDIT_DELAY \<and>
        getFromRouter (ary_size rt) (address rt) i = Some (ev_des e) \<and>
        getFromPort (ary_size rt) (address rt) i = Some (ev_pc e) \<and> 0 \<le> ev_vc e \<and> ev_vc e < vc_number rt))"

text \<open>
  From \<open>s\<close> to \<open>s'\<close> the router sends the events \<open>new\<close> and delivers the flits \<open>acc\<close>.
\<close>

definition progress_by :: "mess_event multiset \<Rightarrow> flit_template multiset \<Rightarrow> rs \<Rightarrow> rs \<Rightarrow> bool" where
  "progress_by new acc s s' \<longleftrightarrow>
     mset (m_q (mess_q (snd s'))) = mset (m_q (mess_q (snd s))) + new \<and>
     (\<forall>e \<in># new. sent_ok (fst s) (now s) e) \<and>
     flits (fst s) = flits (fst s') + wires new + acc \<and>
     (\<forall>f \<in># acc. des_addr f = address (fst s)) \<and>
     total_finished (mess_q (snd s')) = total_finished (mess_q (snd s)) + int (size {# f \<in># acc. isTail (flit_type_of f) #})"

definition steady :: "rs \<Rightarrow> rs \<Rightarrow> bool" where
  "steady s s' \<longleftrightarrow> same_setup (fst s) (fst s') \<and> now s' = now s \<and> draws (srgen (snd s')) = draws (srgen (snd s)) \<and>
     ibuff_full (input_module (fst s')) = ibuff_full (input_module (fst s)) \<and>
     (queue_sorted (mess_q (snd s)) \<longrightarrow> queue_sorted (mess_q (snd s')))"

definition progress :: "rs \<Rightarrow> rs \<Rightarrow> bool" where
  "progress s s' \<longleftrightarrow> steady s s' \<and> (\<exists>new acc. progress_by new acc s s')"

lemma steady_refl [simp]: "steady s s"
  by (simp add: steady_def)

lemma steady_trans: "steady a b \<Longrightarrow> steady b c \<Longrightarrow> steady a c"
  by (auto simp: steady_def intro: same_setup_trans)

lemma link_setup: "same_setup a b \<Longrightarrow> out_link b = out_link a" "same_setup a b \<Longrightarrow> in_link b = in_link a"
  by (auto simp: same_setup_def out_link_def in_link_def fun_eq_iff)

lemma sent_setup: "same_setup a b \<Longrightarrow> sent_ok b = sent_ok a"
  by (auto simp: sent_ok_def fun_eq_iff link_setup) (auto simp: same_setup_def)

lemma progress_refl [simp]: "progress s s"
  unfolding progress_def progress_by_def by (auto intro!: exI [of _ "{#}"])

lemma progress_by_trans:
  assumes "steady a b" "progress_by n1 c1 a b" "progress_by n2 c2 b c"
  shows "progress_by (n1 + n2) (c1 + c2) a c"
proof -
  have s: "same_setup (fst a) (fst b)" "now b = now a" using assms(1) by (simp_all add: steady_def)
  have "sent_ok (fst b) = sent_ok (fst a)" "address (fst b) = address (fst a)"
    using s(1) by (auto simp: sent_setup) (simp add: same_setup_def)
  then show ?thesis using assms(2,3) s(2) unfolding progress_by_def by (auto simp: ac_simps)
qed

lemma progress_trans: "progress a b \<Longrightarrow> progress b c \<Longrightarrow> progress a c"
  unfolding progress_def using progress_by_trans steady_trans by blast

lemma progress_silent:
  assumes "steady s s'" "mess_q (snd s') = mess_q (snd s)" "flits (fst s') = flits (fst s)"
  shows "progress s s'"
  unfolding progress_def progress_by_def using assms by (auto intro!: exI [of _ "{#}"])

section \<open>The invariant\<close>

definition out_ok :: "sim_router_template \<Rightarrow> VC_type \<Rightarrow> bool" where
  "out_ok r d \<longleftrightarrow> chan r d \<and> out_link r (fst d)"

text \<open>The routing algorithm offers existing channels for the destination.\<close>

definition routable :: "sim_router_template \<Rightarrow> add_type \<Rightarrow> bool" where
  "routable r d \<longleftrightarrow> d = address r \<or>
     (\<exists>cs. curr_algorithm (routing_alg r) (ary_size r) (address r) d = Some cs \<and> cs \<noteq> [] \<and> (\<forall>c \<in> set cs. out_ok r c))"

text \<open>
  A queue of flits is a sequence of packets, each a header, body flits and a tail for one destination, or
  a single flit. \<^term>\<open>seq (Some d) fs\<close>: the sequence starts within a packet for \<open>d\<close>.
\<close>

definition after :: "flit_template \<Rightarrow> add_type option" where
  "after f = (if isTail (flit_type_of f) then None else Some (des_addr f))"

definition fits :: "add_type option \<Rightarrow> flit_template \<Rightarrow> bool" where
  "fits p f \<longleftrightarrow> (case p of None \<Rightarrow> isHeader (flit_type_of f) | Some d \<Rightarrow> \<not> isHeader (flit_type_of f) \<and> des_addr f = d)"

fun seq :: "add_type option \<Rightarrow> flit_template list \<Rightarrow> bool" where
  "seq p [] = True"
| "seq p (f # fs) \<longleftrightarrow> fits p f \<and> seq (after f) fs"

definition held :: "sim_router_template \<Rightarrow> chans \<Rightarrow> VC_type \<Rightarrow> bool" where
  "held r A c \<longleftrightarrow> chan r (cr A c) \<and> own A (cr A c) = (USED, c)"

definition phase_ok :: "sim_router_template \<Rightarrow> chans \<Rightarrow> VC_type \<Rightarrow> bool" where
  "phase_ok r A c \<longleftrightarrow> (case st A c of
       INIT \<Rightarrow> buf A c = []
     | ROUTING \<Rightarrow> buf A c \<noteq> [] \<and> seq None (buf A c) \<and> \<not> held r A c
     | VC_AB \<Rightarrow> buf A c \<noteq> [] \<and> seq None (buf A c) \<and> \<not> held r A c \<and> rts A c \<noteq> [] \<and> (\<forall>d \<in> set (rts A c). out_ok r d)
     | SW_AB \<Rightarrow> buf A c \<noteq> [] \<and> (\<exists>p. seq p (buf A c)) \<and> held r A c
     | SW_TR \<Rightarrow> buf A c \<noteq> [] \<and> (\<exists>p. seq p (buf A c)) \<and> held r A c \<and> ctr A (cr A c) > 0 \<and> snd (outs A (fst (cr A c))) > 0
     | HOME \<Rightarrow> seq (Some (address r)) (buf A c) \<and> \<not> held r A c)"

text \<open>Packets are injected whole: a queue of the injection port ends with the end of a packet.\<close>

definition whole :: "sim_router_template \<Rightarrow> chans \<Rightarrow> VC_type \<Rightarrow> bool" where
  "whole r A c \<longleftrightarrow> (if buf A c = [] then st A c = INIT \<and> \<not> held r A c else isTail (flit_type_of (last (buf A c))))"

definition chan_inv :: "sim_router_template \<Rightarrow> chans \<Rightarrow> VC_type \<Rightarrow> bool" where
  "chan_inv r A c \<longleftrightarrow> (\<forall>f \<in> set (buf A c). routable r (des_addr f)) \<and> (buf A c \<noteq> [] \<longrightarrow> fst c = 0 \<or> in_link r (fst c)) \<and>
     phase_ok r A c \<and> (fst c = 0 \<longrightarrow> whole r A c)"

text \<open>An output channel is free, or owned by the one input channel that is routed to it.\<close>

definition own_inv :: "sim_router_template \<Rightarrow> chans \<Rightarrow> VC_type \<Rightarrow> bool" where
  "own_inv r A d \<longleftrightarrow> 0 \<le> ctr A d \<and>
     (own A d = (FREE, VC_NULL) \<or>
      fst (own A d) = USED \<and> out_ok r d \<and> chan r (snd (own A d)) \<and> cr A (snd (own A d)) = d \<and>
        st A (snd (own A d)) \<in> {INIT, SW_AB, SW_TR})"

text \<open>The local counter is the space left in the output buffer.\<close>

definition port_inv :: "sim_router_template \<Rightarrow> chans \<Rightarrow> int \<Rightarrow> bool" where
  "port_inv r A i \<longleftrightarrow> length (oa A i) = length (fst (outs A i)) \<and>
     snd (outs A i) = outbuffer_size r - int (length (fst (outs A i))) \<and> 0 \<le> snd (outs A i) \<and>
     (fst (outs A i) \<noteq> [] \<longrightarrow> out_link r i) \<and> (\<forall>d \<in> set (oa A i). chan r d)"

text \<open>At most one flit is switched to an output port.\<close>

definition exclusive :: "sim_router_template \<Rightarrow> chans \<Rightarrow> bool" where
  "exclusive r A \<longleftrightarrow> (\<forall>c c'. chan r c \<and> chan r c' \<and> st A c = SW_TR \<and> st A c' = SW_TR \<and> fst (cr A c) = fst (cr A c') \<longrightarrow> c = c')"

definition INV :: "sim_router_template \<Rightarrow> chans \<Rightarrow> bool" where
  "INV r A \<longleftrightarrow> (\<forall>c. chan r c \<longrightarrow> chan_inv r A c \<and> own_inv r A c) \<and> (\<forall>i. port r i \<longrightarrow> port_inv r A i) \<and> exclusive r A"

definition router_inv :: "sim_router_template \<Rightarrow> bool" where
  "router_inv rt \<longleftrightarrow> wf_router rt \<and> INV rt (abs_router rt)"

lemma INV_D:
  "INV r A \<Longrightarrow> chan r c \<Longrightarrow> chan_inv r A c" "INV r A \<Longrightarrow> chan r c \<Longrightarrow> own_inv r A c"
  "INV r A \<Longrightarrow> port r i \<Longrightarrow> port_inv r A i" "INV r A \<Longrightarrow> exclusive r A"
  unfolding INV_def by blast+

lemma INV_I:
  "(\<And>c. chan r c \<Longrightarrow> chan_inv r A c) \<Longrightarrow> (\<And>c. chan r c \<Longrightarrow> own_inv r A c) \<Longrightarrow>
   (\<And>i. port r i \<Longrightarrow> port_inv r A i) \<Longrightarrow> exclusive r A \<Longrightarrow> INV r A"
  unfolding INV_def by blast

lemma exclusive_D:
  "exclusive r A \<Longrightarrow> chan r c \<Longrightarrow> chan r c' \<Longrightarrow> st A c = SW_TR \<Longrightarrow> st A c' = SW_TR \<Longrightarrow> fst (cr A c) = fst (cr A c') \<Longrightarrow> c = c'"
  unfolding exclusive_def by blast

lemma exclusive_mono:
  assumes "exclusive r A" "\<And>c. chan r c \<Longrightarrow> st B c = SW_TR \<Longrightarrow> st A c = SW_TR \<and> cr B c = cr A c"
  shows "exclusive r B"
  unfolding exclusive_def
proof (intro allI impI)
  fix c c'
  assume "chan r c \<and> chan r c' \<and> st B c = SW_TR \<and> st B c' = SW_TR \<and> fst (cr B c) = fst (cr B c')"
  then show "c = c'" using assms(2) [of c] assms(2) [of c'] exclusive_D [OF assms(1), of c c'] by simp
qed

lemma seq_tl: "seq p fs \<Longrightarrow> fs \<noteq> [] \<Longrightarrow> seq (after (hd fs)) (tl fs)"
  by (cases fs) auto

lemma seq_append: "seq p (fs @ gs) \<longleftrightarrow> seq p fs \<and> seq (if fs = [] then p else after (last fs)) gs"
  by (induction fs arbitrary: p) auto

lemma setup_defs:
  assumes "same_setup a b"
  shows "chan b = chan a" "port b = port a" "out_ok b = out_ok a" "routable b = routable a" "address b = address a"
    "held b = held a" "vc_number b = vc_number a" "physic_ports b = physic_ports a"
  using assms
  by (auto simp: same_setup_def chan_def port_def out_ok_def out_link_def routable_def held_def fun_eq_iff)

lemma INV_setup: "same_setup a b \<Longrightarrow> INV b = INV a"
proof -
  assume s: "same_setup a b"
  note e = setup_defs [OF s] link_setup [OF s]
  have o: "outbuffer_size b = outbuffer_size a" using s by (simp add: same_setup_def)
  have p: "phase_ok b = phase_ok a" "whole b = whole a"
    by (auto simp: phase_ok_def whole_def e fun_eq_iff split: VC_state_type.splits)
  show ?thesis
    unfolding fun_eq_iff INV_def chan_inv_def own_inv_def port_inv_def exclusive_def by (simp only: e o p simp_thms)
qed

text \<open>A step keeps the invariant and makes progress in the sense above.\<close>

definition step_ok :: "rs \<Rightarrow> rs \<Rightarrow> bool" where
  "step_ok s s' \<longleftrightarrow> router_inv (fst s') \<and> progress s s'"

lemma step_okI:
  assumes "wf_router (fst s')" "INV (fst s) (abs_router (fst s'))" "steady s s'" "progress_by new acc s s'"
  shows "step_ok s s'"
proof -
  have "same_setup (fst s) (fst s')" using assms(3) by (simp add: steady_def)
  then show ?thesis using assms INV_setup unfolding step_ok_def router_inv_def progress_def by auto
qed

lemma step_ok_trans: "step_ok a b \<Longrightarrow> step_ok b c \<Longrightarrow> step_ok a c"
  unfolding step_ok_def using progress_trans by blast

lemma step_ok_refl: "router_inv (fst s) \<Longrightarrow> step_ok s s"
  by (simp add: step_ok_def)

section \<open>Onto the wire\<close>

lemma INV_outs:
  assumes inv: "INV r A" and p: "port_inv r (A\<lparr>outs := (outs A)(i := v), oa := (oa A)(i := w)\<rparr>) i"
    and le: "\<And>c. chan r c \<Longrightarrow> st A c = SW_TR \<Longrightarrow> fst (cr A c) = i \<Longrightarrow> 0 < snd v"
  shows "INV r (A\<lparr>outs := (outs A)(i := v), oa := (oa A)(i := w)\<rparr>)" (is "INV r ?B")
proof -
  have "chan_inv r ?B c" if "chan r c" "chan_inv r A c" for c
    using that le [OF that(1)] by (cases "st A c") (auto simp: chan_inv_def phase_ok_def held_def whole_def)
  moreover have "own_inv r ?B c = own_inv r A c" for c by (simp add: own_inv_def)
  moreover have "port_inv r ?B k" if "port_inv r A k" for k
    using that p by (cases "k = i") (auto simp: port_inv_def)
  moreover have "exclusive r ?B = exclusive r A" by (simp add: exclusive_def)
  ultimately show ?thesis using inv unfolding INV_def by blast
qed

lemma flit_traversal_port_ok:
  assumes "router_inv (fst s)" "1 \<le> i" "i < physic_ports (fst s)"
  shows "ok (flit_traversal_port i s) (step_ok s)"
proof -
  let ?A = "abs_router (fst s)"
  have wf: "wf_router (fst s)" and inv: "INV (fst s) ?A" using assms(1) by (simp_all add: router_inv_def)
  have p: "port (fst s) i" using assms by (simp add: port_def)
  note P = inv [unfolded INV_def, THEN conjunct2, THEN conjunct1, rule_format, OF p, unfolded port_inv_def]
  show ?thesis
  proof (cases "fst (outs ?A i) = []")
    case True
    then show ?thesis using wf p assms(1) by (simp add: flit_traversal_port_def reads step_ok_refl)
  next
    case False
    then have l: "out_link (fst s) i" "oa ?A i \<noteq> []" using P by auto
    then obtain d q b where link: "getWireDelay (ary_size (fst s)) (address (fst s)) i = Some d"
        "getWirePc (ary_size (fst s)) (address (fst s)) i = Some q" "getNextAddress (ary_size (fst s)) (address (fst s)) i = Some b"
      unfolding out_link_def by auto
    define f where "f = hd (fst (outs ?A i))"
    define e where "e = mess_event_wire (d + now s) WIRE (address (fst s)) b q (snd (hd (oa ?A i))) f"
    define rt where "rt = set_oa i (tl (oa ?A i)) (set_outs i (tl (fst (outs ?A i)), snd (outs ?A i) + 1) (log_power (power_link_traversal i (flit_data f)) (fst s)))"
    have run: "flit_traversal_port i s = Some (send e (rt, snd s))"
      using wf p False l link
      by (simp add: flit_traversal_port_def reads runs Let_def f_def [symmetric] e_def rt_def)
    have vc: "chan (fst s) (hd (oa ?A i))" using l P by (cases "oa ?A i") auto
    have "step_ok s (send e (rt, snd s))"
    proof (rule step_okI [where new = "{#e#}" and acc = "{#}"])
      show "wf_router (fst (send e (rt, snd s)))" using wf by (simp add: send_def rt_def)
      show "steady s (send e (rt, snd s))"
        by (auto simp: steady_def send_def add_message_def sorted_multiset_insert rt_def)
      show "INV (fst s) (abs_router (fst (send e (rt, snd s))))"
      proof -
        have "INV (fst s) (?A\<lparr>outs := (outs ?A)(i := (tl (fst (outs ?A i)), snd (outs ?A i) + 1)), oa := (oa ?A)(i := tl (oa ?A i))\<rparr>)"
          using P False by (intro INV_outs [OF inv]) (cases "fst (outs ?A i)"; cases "oa ?A i"; auto simp: port_inv_def)+
        then show ?thesis using wf p by (simp add: send_def rt_def)
      qed
      show "progress_by {#e#} {#} s (send e (rt, snd s))"
        using flits_pop_outs [OF wf p False, of "snd (outs ?A i) + 1"] l link vc wf
        by (auto simp: progress_by_def send_def add_message_def mset_multiset_insert rt_def e_def f_def event_defs
            sent_ok_def chan_def inside_def)
    qed
    then show ?thesis by (simp add: run)
  qed
qed

lemma foldM_step:
  assumes "router_inv (fst s)" "\<And>x t. x \<in> set xs \<Longrightarrow> step_ok s t \<Longrightarrow> ok (f x t) (step_ok t)"
  shows "ok (foldM f xs s) (step_ok s)"
proof (rule foldM_ok)
  fix x t
  assume "x \<in> set xs" "step_ok s t"
  then show "ok (f x t) (step_ok s)" using assms(2) step_ok_trans by (blast intro: ok_mono)
qed (use assms in \<open>simp add: step_ok_refl\<close>)

lemma step_setup: "step_ok s t \<Longrightarrow> same_setup (fst s) (fst t)"
  by (simp add: step_ok_def progress_def steady_def)

lemma flit_traversal_ok: "router_inv (fst s) \<Longrightarrow> ok (flit_traversal s) (step_ok s)"
  unfolding flit_traversal_def
proof (rule foldM_step)
  fix i t
  assume "i \<in> set [1..physic_ports (fst s) - 1]" "step_ok s t"
  then show "ok (flit_traversal_port i t) (step_ok t)"
    using setup_defs(8) [OF step_setup, of s t] by (intro flit_traversal_port_ok) (auto simp: step_ok_def)
qed

section \<open>From the input to the output buffer\<close>

definition credit_event :: "sim_router_template \<Rightarrow> time_type \<Rightarrow> int \<Rightarrow> int \<Rightarrow> mess_event" where
  "credit_event rt t i j = mess_event_credit (t + CREDIT_DELAY) CREDIT (address rt)
     (the (getFromRouter (ary_size rt) (address rt) i)) (the (getFromPort (ary_size rt) (address rt) i)) j"

lemma send_credit_run: "in_link (fst s) i \<Longrightarrow> send_credit i j s = Some (send (credit_event (fst s) (now s) i j) s)"
  by (auto simp: send_credit_def in_link_def credit_event_def)

lemma credit_sent: "in_link rt i \<Longrightarrow> 0 \<le> j \<Longrightarrow> j < vc_number rt \<Longrightarrow> sent_ok rt t (credit_event rt t i j) \<and> event_type (credit_event rt t i j) = CREDIT"
  unfolding sent_ok_def by (auto simp: credit_event_def event_defs in_link_def)

lemma resume_injection_idle: "\<not> ibuff_full (input_module (fst s)) \<Longrightarrow> resume_injection E k i j s = Some s"
  by (simp add: resume_injection_def)

text \<open>The abstract effect of moving the first flit of channel \<open>c\<close> to its output port.\<close>

definition next_phase :: "flit_template list \<Rightarrow> VC_state_type" where
  "next_phase q = (if length q > 1 then if isTail (flit_type_of (hd q)) then ROUTING else SW_AB else INIT)"

definition switch :: "VC_type \<Rightarrow> chans \<Rightarrow> chans" where
  "switch c A = (let d = cr A c; f = hd (buf A c); p = fst d in
     A\<lparr>buf := (buf A)(c := tl (buf A c)), st := (st A)(c := next_phase (buf A c)), ctr := (ctr A)(d := ctr A d - 1),
       own := (if isTail (flit_type_of f) then (own A)(d := (FREE, VC_NULL)) else own A),
       outs := (outs A)(p := (fst (outs A p) @ [f], snd (outs A p) - 1)), oa := (oa A)(p := oa A p @ [d])\<rparr>)"

lemma switch_sel [simp]:
  "buf (switch c A) = (buf A)(c := tl (buf A c))" "st (switch c A) = (st A)(c := next_phase (buf A c))"
  "ctr (switch c A) = (ctr A)(cr A c := ctr A (cr A c) - 1)"
  "own (switch c A) = (if isTail (flit_type_of (hd (buf A c))) then (own A)(cr A c := (FREE, VC_NULL)) else own A)"
  "outs (switch c A) = (outs A)(fst (cr A c) := (fst (outs A (fst (cr A c))) @ [hd (buf A c)], snd (outs A (fst (cr A c))) - 1))"
  "oa (switch c A) = (oa A)(fst (cr A c) := oa A (fst (cr A c)) @ [cr A c])" "rts (switch c A) = rts A" "cr (switch c A) = cr A"
  by (simp_all add: switch_def Let_def)

lemma next_phase_not_SW_TR [simp]: "next_phase q \<noteq> SW_TR"
  by (simp add: next_phase_def)

lemma held_inj: "held r A c \<Longrightarrow> held r A c' \<Longrightarrow> cr A c = cr A c' \<Longrightarrow> c = c'"
  by (simp add: held_def)

lemma switch_chan_inv:
  assumes inv: "INV r A" and c: "chan r c" "st A c = SW_TR" and c': "chan r c'"
  shows "chan_inv r (switch c A) c'"
proof -
  note I = INV_D(1) [OF inv c(1)] INV_D(1) [OF inv c'] and ex = INV_D(4) [OF inv]
  define d where "d = cr A c"
  have h: "held r A c" "buf A c \<noteq> []" using I c by (auto simp: chan_inv_def phase_ok_def)
  show ?thesis
  proof (cases "c' = c")
    case True
    obtain f fs where b: "buf A c = f # fs" using h by (cases "buf A c") auto
    have "seq (after f) fs" using I(1) c b by (auto simp: chan_inv_def phase_ok_def)
    then show ?thesis
      using I(1) h b True
      by (cases fs) (auto simp: chan_inv_def phase_ok_def next_phase_def held_def after_def whole_def)
  next
    case False
    then have own: "own A d = (USED, c)" using h by (simp add: held_def d_def)
    have ne: "cr A c' \<noteq> d" if "held r A c'" using held_inj [OF h(1) that] False by (auto simp: d_def)
    have np: "fst (cr A c') \<noteq> fst d" if "st A c' = SW_TR" using exclusive_D [OF ex c(1) c' c(2) that] False by (auto simp: d_def)
    have held: "held r (switch c A) c' = held r A c'"
      using ne own by (auto simp: held_def d_def)
    have "phase_ok r (switch c A) c'"
    proof (cases "st A c' = SW_TR")
      case True
      then have "held r A c'" using I(2) by (simp add: chan_inv_def phase_ok_def)
      then show ?thesis using I(2) False ne np [OF True] True by (auto simp: chan_inv_def phase_ok_def held d_def)
    next
      case st: False
      then show ?thesis using I(2) False by (cases "st A c'") (simp_all add: chan_inv_def phase_ok_def held)
    qed
    moreover have "whole r (switch c A) c' = whole r A c'" using False by (simp add: whole_def held)
    ultimately show ?thesis using I(2) False by (auto simp: chan_inv_def)
  qed
qed

lemma switch_INV:
  assumes inv: "INV r A" and c: "chan r c" "st A c = SW_TR"
  shows "INV r (switch c A)"
proof -
  note I = INV_D(1) [OF inv c(1)] and ex = INV_D(4) [OF inv]
  have h: "held r A c" "ctr A (cr A c) > 0" "snd (outs A (fst (cr A c))) > 0" "buf A c \<noteq> []"
    using c I by (auto simp: chan_inv_def phase_ok_def)
  then have d: "chan r (cr A c)" "port r (fst (cr A c))" by (auto simp: held_def dest: chan_port)
  then have l: "out_link r (fst (cr A c))"
    using INV_D(2) [OF inv d(1)] h(1) by (auto simp: held_def own_inv_def out_ok_def)
  have "own_inv r (switch c A) d'" if "chan r d'" for d'
  proof -
    note o = INV_D(2) [OF inv that]
    show ?thesis
    proof (cases "d' = cr A c")
      case True
      then show ?thesis using o h c d l
        by (auto simp: own_inv_def held_def next_phase_def out_ok_def)
    next
      case False
      then show ?thesis using o by (auto simp: own_inv_def next_phase_def)
    qed
  qed
  moreover have "port_inv r (switch c A) i" if "port r i" for i
    using INV_D(3) [OF inv that] h(3) d l by (auto simp: port_inv_def)
  moreover have "exclusive r (switch c A)"
    by (rule exclusive_mono [OF ex]) (auto split: if_splits)
  ultimately show ?thesis using switch_chan_inv [OF inv c] by (intro INV_I)
qed

lemma in_link_set [simp]: "in_link (set_ctr c v rt) = in_link rt"
  by (simp add: in_link_def fun_eq_iff)

lemma credit_event_set [simp]: "credit_event (set_ctr c v rt) = credit_event rt"
  by (simp add: credit_event_def fun_eq_iff)

definition maybe_credit :: "int \<Rightarrow> int \<Rightarrow> rs \<Rightarrow> sim_shared" where
  "maybe_credit i j s = (if i = 0 then snd s else snd (send (credit_event (fst s) (now s) i j) s))"

lemma outbuffer_state_run:
  assumes "wf_router (fst s)" "chan (fst s) (i, j)"
  shows "outbuffer_state SHARE i j n f s =
    Some (set_st (i, j) (if n > 1 then if isTail (flit_type_of f) then ROUTING else SW_AB else INIT) (fst s), snd s)"
  using assms by (simp add: outbuffer_state_def runs)

lemma outbuffer_flit_run:
  assumes wf: "wf_router (fst s)" and inv: "INV (fst s) (abs_router (fst s))" and c: "chan (fst s) (i, j)"
    and full: "\<not> ibuff_full (input_module (fst s))" and tr: "st (abs_router (fst s)) (i, j) = SW_TR"
  defines "A \<equiv> abs_router (fst s)"
  defines "d \<equiv> cr A (i, j)" and "f \<equiv> hd (buf A (i, j))"
  defines "rel \<equiv> if isTail (flit_type_of f) then set_own d (FREE, VC_NULL) else id"
  shows "outbuffer_flit E k SHARE i j s = Some (log_power (power_crossbar_trav i (fst d) (flit_data f)) (log_power (power_buffer_read i (flit_data f))
      (set_st (i, j) (next_phase (buf A (i, j))) (rel (set_oa (fst d) (oa A (fst d) @ [d])
        (set_outs (fst d) (fst (outs A (fst d)) @ [f], snd (outs A (fst d)) - 1)
          (set_buf (i, j) (tl (buf A (i, j))) (set_ctr d (ctr A d - 1) (fst s)))))))), maybe_credit i j s)"
proof -
  have I: "chan_inv (fst s) A (i, j)" using INV_D(1) [OF inv c] by (simp add: A_def)
  then have h: "held (fst s) A (i, j)" "buf A (i, j) \<noteq> []" "i = 0 \<or> in_link (fst s) i"
    using tr by (auto simp: chan_inv_def phase_ok_def A_def)
  have d: "chan (fst s) d" using h(1) by (simp add: held_def d_def)
  then have p: "port (fst s) (fst d)" by (rule chan_port)
  have cred: "(if i \<noteq> 0 then send_credit i j (set_ctr d v (fst s), snd s) else Some (set_ctr d v (fst s), snd s))
      = Some (set_ctr d v (fst s), maybe_credit i j s)" for v
    using h(3) by (auto simp: send_credit_run maybe_credit_def send_def)
  show ?thesis
    using wf c d p full tr h(2) unfolding A_def [symmetric]
    by (simp add: outbuffer_flit_def reads runs d_def [symmetric] A_def [symmetric] cred Let_def resume_injection_idle
        outbuffer_state_run next_phase_def f_def [symmetric] rel_def)
qed

lemma progress_credit:
  assumes "chan (fst s) (i, j)" "i = 0 \<or> in_link (fst s) i" "same_setup (fst s) rt"
    "ibuff_full (input_module rt) = ibuff_full (input_module (fst s))" "flits rt + acc = flits (fst s)"
    "\<forall>f \<in># acc. des_addr f = address (fst s)" "\<not> (\<exists>f \<in># acc. isTail (flit_type_of f))"
  shows "progress s (rt, maybe_credit i j s)"
proof -
  have "steady s (rt, maybe_credit i j s)"
    using assms(3,4) by (auto simp: steady_def maybe_credit_def send_def add_message_def sorted_multiset_insert)
  moreover have z: "{# f \<in># acc. isTail (flit_type_of f) #} = {#}" using assms(7) by (auto simp: filter_mset_eq_mempty_iff)
  have "progress_by (if i = 0 then {#} else {#credit_event (fst s) (now s) i j#}) acc s (rt, maybe_credit i j s)"
    using credit_sent [of "fst s" i j "now s"] assms
    by (auto simp: progress_by_def maybe_credit_def send_def add_message_def mset_multiset_insert chan_def inside_def z)
  ultimately show ?thesis unfolding progress_def by blast
qed

lemma outbuffer_flit_ok:
  assumes "router_inv (fst s)" "chan (fst s) (i, j)" "\<not> ibuff_full (input_module (fst s))"
  shows "ok (outbuffer_flit E k SHARE i j s) (\<lambda>s'. step_ok s s' \<and> st (abs_router (fst s')) (i, j) \<noteq> SW_TR \<and>
      (\<forall>c. c \<noteq> (i, j) \<longrightarrow> st (abs_router (fst s')) c = st (abs_router (fst s)) c))"
proof (cases "st (abs_router (fst s)) (i, j) = SW_TR")
  case False
  then show ?thesis using assms by (simp add: outbuffer_flit_def reads router_inv_def step_ok_refl)
next
  case True
  have wf: "wf_router (fst s)" and inv: "INV (fst s) (abs_router (fst s))" using assms(1) by (simp_all add: router_inv_def)
  define A where "A = abs_router (fst s)"
  define d where "d = cr A (i, j)"
  define f where "f = hd (buf A (i, j))"
  define rel where "rel = (if isTail (flit_type_of f) then set_own d (FREE, VC_NULL) else id)"
  define rt where "rt = log_power (power_crossbar_trav i (fst d) (flit_data f)) (log_power (power_buffer_read i (flit_data f))
      (set_st (i, j) (next_phase (buf A (i, j))) (rel (set_oa (fst d) (oa A (fst d) @ [d])
        (set_outs (fst d) (fst (outs A (fst d)) @ [f], snd (outs A (fst d)) - 1)
          (set_buf (i, j) (tl (buf A (i, j))) (set_ctr d (ctr A d - 1) (fst s))))))))"
  have run: "outbuffer_flit E k SHARE i j s = Some (rt, maybe_credit i j s)"
    using outbuffer_flit_run [OF wf inv assms(2,3) True] by (simp add: rt_def rel_def f_def d_def A_def)
  have I: "chan_inv (fst s) A (i, j)" using INV_D(1) [OF inv assms(2)] by (simp add: A_def)
  then have h: "held (fst s) A (i, j)" "buf A (i, j) \<noteq> []" "i = 0 \<or> in_link (fst s) i"
    using True by (auto simp: chan_inv_def phase_ok_def A_def)
  have d: "chan (fst s) d" using h(1) by (simp add: held_def d_def)
  then have p: "port (fst s) (fst d)" by (rule chan_port)
  have absr: "abs_router rt = switch (i, j) A" and w: "wf_router rt"
    using wf assms(2) d p by (simp_all add: rt_def rel_def switch_def Let_def A_def d_def f_def)
  have same: "same_setup (fst s) rt" "ibuff_full (input_module rt) = ibuff_full (input_module (fst s))"
    by (simp_all add: rt_def rel_def)
  have "flits rt = flits (fst s)"
    using flits_pop_buf [of "set_ctr d (ctr A d - 1) (fst s)" "(i, j)"] wf assms(2) d p h(2)
      flits_push_outs [of "set_buf (i, j) (tl (buf A (i, j))) (set_ctr d (ctr A d - 1) (fst s))" "fst d" f]
    by (simp add: rt_def rel_def A_def f_def)
  then have "progress s (rt, maybe_credit i j s)"
    by (intro progress_credit [OF assms(2) h(3) same, of "{#}"]) simp_all
  moreover have "router_inv rt"
    using switch_INV [OF inv assms(2) True] w INV_setup [OF same(1)] by (simp add: router_inv_def absr A_def)
  ultimately show ?thesis by (simp add: run step_ok_def absr A_def)
qed

lemma chan_mem: "i \<in> set (ports rt) \<Longrightarrow> j \<in> set (vcs rt) \<Longrightarrow> chan rt (i, j)"
  by (simp add: chan_def inside_def)

lemma chan_grid: "set (ports rt) \<times> set (vcs rt) = {c. chan rt c}"
  by (auto simp: chan_def inside_def)

lemma flit_outbuffer_ok:
  assumes "router_inv (fst s)" "\<not> ibuff_full (input_module (fst s))"
  shows "ok (flit_outbuffer E k SHARE s) (\<lambda>s'. step_ok s s' \<and> (\<forall>c. chan (fst s') c \<longrightarrow> st (abs_router (fst s')) c \<noteq> SW_TR))"
proof -
  define I where "I = (\<lambda>Z t. step_ok s t \<and> (\<forall>c \<in> Z. st (abs_router (fst t)) c \<noteq> SW_TR))"
  have "ok (flit_outbuffer E k SHARE s) (I (set (ports (fst s)) \<times> set (vcs (fst s))))"
    unfolding flit_outbuffer_def
  proof (rule foldM_grid)
    show "I {} s" using assms(1) by (simp add: I_def step_ok_refl)
  next
    fix Z t
    assume "I Z t"
    then show "vcs (fst t) = vcs (fst s)" using setup_defs(7) [OF step_setup, of s t] by (simp add: I_def)
  next
    fix i j Z t
    assume ij: "i \<in> set (ports (fst s))" "j \<in> set (vcs (fst s))" and I: "I Z t"
    then have t: "step_ok s t" by (simp add: I_def)
    have "ok (outbuffer_flit E k SHARE i j t) (\<lambda>t'. step_ok t t' \<and> st (abs_router (fst t')) (i, j) \<noteq> SW_TR \<and>
        (\<forall>c. c \<noteq> (i, j) \<longrightarrow> st (abs_router (fst t')) c = st (abs_router (fst t)) c))"
    proof (rule outbuffer_flit_ok)
      show "chan (fst t) (i, j)" using chan_mem [OF ij] setup_defs(1) [OF step_setup [OF t]] by simp
      show "router_inv (fst t)" "\<not> ibuff_full (input_module (fst t))"
        using t assms(2) by (auto simp: step_ok_def progress_def steady_def)
    qed
    then show "ok (outbuffer_flit E k SHARE i j t) (I (insert (i, j) Z))"
    proof (rule ok_mono)
      fix t'
      assume *: "step_ok t t' \<and> st (abs_router (fst t')) (i, j) \<noteq> SW_TR \<and>
        (\<forall>c. c \<noteq> (i, j) \<longrightarrow> st (abs_router (fst t')) c = st (abs_router (fst t)) c)"
      have "st (abs_router (fst t')) c \<noteq> SW_TR" if "c \<in> insert (i, j) Z" for c
        using that * I by (cases "c = (i, j)") (simp_all add: I_def del: split_paired_All)
      then show "I (insert (i, j) Z) t'" using * step_ok_trans [OF t] by (simp add: I_def)
    qed
  qed simp_all
  then show ?thesis
    by (rule ok_mono) (use setup_defs(1) [OF step_setup, of s] in \<open>auto simp: I_def chan_def inside_def\<close>)
qed

section \<open>Switch arbitration\<close>

text \<open>The generator never returns its greatest value, for which the range check of \<^verbatim>\<open>flat_l\<close> fails.\<close>

definition lucky :: "rs \<Rightarrow> bool" where
  "lucky s \<longleftrightarrow> (\<forall>k. draws (srgen (snd s)) k < RAND_MAX)"

definition drew :: "rs \<Rightarrow> rs \<Rightarrow> bool" where
  "drew s s' \<longleftrightarrow> fst s' = fst s \<and> mess_q (snd s') = mess_q (snd s) \<and> draws (srgen (snd s')) = draws (srgen (snd s))"

lemma drew_refl [simp]: "drew s s"
  by (simp add: drew_def)

lemma drew_trans: "drew a b \<Longrightarrow> drew b c \<Longrightarrow> drew a c"
  by (simp add: drew_def)

lemma drew_lucky: "drew s s' \<Longrightarrow> lucky s' = lucky s"
  by (simp add: drew_def lucky_def)

lemma step_lucky: "step_ok s s' \<Longrightarrow> lucky s' = lucky s"
  by (simp add: step_ok_def progress_def steady_def lucky_def)

lemma drew_step: "router_inv (fst s) \<Longrightarrow> drew s s' \<Longrightarrow> step_ok s s'"
  unfolding step_ok_def by (auto intro!: progress_silent simp: drew_def steady_def)

lemma flat_l_defined:
  assumes "0 \<le> low" "low < high" "draws g (drawn g) < RAND_MAX"
  shows "\<exists>v. flat_l low high g = Some (v, g\<lparr>drawn := Suc (drawn g)\<rparr>) \<and> low \<le> v \<and> v < high"
proof -
  define a where "a = real (draws g (drawn g)) * 1.0 / real RAND_MAX"
  have a: "0 \<le> a" "a < 1" using assms(3) by (simp_all add: a_def RAND_MAX_def)
  define x where "x = real_of_int (high - low) * a"
  have x: "0 \<le> x" "x < real_of_int (high - low)" using a assms(2) by (simp_all add: x_def mult_less_cancel_left2)
  have "low \<le> c_long (x + real_of_int low) \<and> c_long (x + real_of_int low) < high"
    using x assms(1) floor_less_iff [of x "high - low"] by (auto simp: c_long_def le_floor_iff)
  then show ?thesis
    unfolding flat_l_def sflat01_def Let_def prod.case a_def [symmetric] x_def [symmetric] using assms(2) by simp
qed

lemma pick_ok:
  assumes "lucky s" "xs \<noteq> []"
  shows "ok (pick xs s) (\<lambda>(x, s'). x \<in> set xs \<and> drew s s')"
proof (cases "length xs > 1")
  case True
  then have "0 < int (length xs)" by linarith
  then obtain v where "flat_l 0 (int (length xs)) (srgen (snd s)) = Some (v, (srgen (snd s))\<lparr>drawn := Suc (drawn (srgen (snd s)))\<rparr>)"
      "0 \<le> v" "v < int (length xs)"
    using flat_l_defined [of 0 "int (length xs)" "srgen (snd s)"] assms(1) by (auto simp: lucky_def)
  moreover from this have "vat xs v = Some (xs ! nat v)" "xs ! nat v \<in> set xs" by (auto simp: vat_def)
  ultimately show ?thesis using True by (simp add: pick_def draw_l_def drew_def)
next
  case False
  then obtain x where "xs = [x]" using assms(2) by (cases xs) auto
  then show ?thesis by (simp add: pick_def drew_def)
qed

definition ready :: "chans \<Rightarrow> VC_type \<Rightarrow> bool" where
  "ready A c \<longleftrightarrow> st A c = SW_AB \<and> ctr A (cr A c) > 0 \<and> snd (outs A (fst (cr A c))) > 0"

lemma INV_held_link:
  assumes "INV r A" "chan r c" "st A c \<in> {SW_AB, SW_TR}"
  shows "chan r (cr A c)" "port r (fst (cr A c))"
  using INV_D(1) [OF assms(1,2)] assms(3) by (auto simp: chan_inv_def phase_ok_def held_def dest: chan_port)

lemma sw_candidates_ok:
  assumes "router_inv rt" "i \<in> set (ports rt)"
  shows "ok (foldM (sw_candidate rt i) (vcs rt) []) (\<lambda>js. \<forall>j \<in> set js. chan rt (i, j) \<and> ready (abs_router rt) (i, j))"
proof (rule foldM_ok)
  fix j js
  assume j: "j \<in> set (vcs rt)" and js: "\<forall>j \<in> set js. chan rt (i, j) \<and> ready (abs_router rt) (i, j)"
  have wf: "wf_router rt" and inv: "INV rt (abs_router rt)" using assms(1) by (simp_all add: router_inv_def)
  have c: "chan rt (i, j)" using assms(2) j by (rule chan_mem)
  show "ok (sw_candidate rt i j js) (\<lambda>js. \<forall>j \<in> set js. chan rt (i, j) \<and> ready (abs_router rt) (i, j))"
  proof (cases "st (abs_router rt) (i, j) = SW_AB")
    case True
    then show ?thesis
      using wf c js INV_held_link [OF inv c] by (simp add: sw_candidate_def reads) (auto simp: ready_def)
  qed (use wf c js in \<open>simp add: sw_candidate_def reads\<close>)
qed simp

definition sw_asked :: "sim_router_template \<Rightarrow> (int, VC_type) requests \<Rightarrow> bool" where
  "sw_asked rt m \<longleftrightarrow> (\<forall>(p, c) \<in> set m. chan rt c \<and> ready (abs_router rt) c \<and> p = fst (cr (abs_router rt) c))"

lemma sw_request_ok:
  assumes "router_inv (fst s)" "lucky s" "i \<in> set (ports (fst s))" "sw_asked (fst s) m"
  shows "ok (sw_request i (s, m)) (\<lambda>(s', m'). drew s s' \<and> sw_asked (fst s) m')"
proof -
  from sw_candidates_ok [OF assms(1,3)] obtain js where js: "foldM (sw_candidate (fst s) i) (vcs (fst s)) [] = Some js"
      "\<forall>j \<in> set js. chan (fst s) (i, j) \<and> ready (abs_router (fst s)) (i, j)"
    by (auto simp: ok_def)
  have wf: "wf_router (fst s)" using assms(1) by (simp add: router_inv_def)
  show ?thesis
  proof (cases "js = []")
    case True
    then show ?thesis using js assms(4) by (simp add: sw_request_def)
  next
    case False
    from pick_ok [OF assms(2) False] obtain j s' where j: "pick js s = Some (j, s')" "j \<in> set js" "drew s s'"
      by (auto simp: ok_def)
    then have "chan (fst s) (i, j)" "ready (abs_router (fst s)) (i, j)" "fst s' = fst s" using js by (auto simp: drew_def)
    then show ?thesis
      using js(1) j False wf assms(4) by (simp add: sw_request_def reads) (auto simp: sw_asked_def)
  qed
qed

lemma sw_requests_ok:
  assumes "router_inv (fst s)" "lucky s"
  shows "ok (foldM sw_request (ports (fst s)) (s, [])) (\<lambda>(s', m). drew s s' \<and> sw_asked (fst s) m)"
proof (rule foldM_ok)
  fix i sm
  assume i: "i \<in> set (ports (fst s))" and sm: "case sm of (s', m) \<Rightarrow> drew s s' \<and> sw_asked (fst s) m"
  obtain t m where t: "sm = (t, m)" by (cases sm)
  then have d: "drew s t" and m: "sw_asked (fst s) m" using sm by simp_all
  then have f: "fst t = fst s" by (simp add: drew_def)
  have "ok (sw_request i (t, m)) (\<lambda>(s', m'). drew t s' \<and> sw_asked (fst t) m')"
    by (rule sw_request_ok) (simp_all only: f assms(1) i m drew_lucky [OF d] assms(2))
  then show "ok (sw_request i sm) (\<lambda>(s', m). drew s s' \<and> sw_asked (fst s) m)"
    unfolding t f by (elim ok_mono) (auto intro: drew_trans [OF d])
qed (simp add: sw_asked_def)

lemma grant_INV:
  assumes inv: "INV r A" and c: "chan r c" "ready A c"
    and only: "\<And>c'. chan r c' \<Longrightarrow> st A c' = SW_TR \<Longrightarrow> fst (cr A c') \<noteq> fst (cr A c)"
  shows "INV r (A\<lparr>st := (st A)(c := SW_TR)\<rparr>)" (is "INV r ?B")
proof (rule INV_I)
  fix c'
  assume c': "chan r c'"
  have held: "held r ?B = held r A" by (simp add: held_def fun_eq_iff)
  show "chan_inv r ?B c'"
    using INV_D(1) [OF inv c'] c by (cases "st A c'") (auto simp: chan_inv_def phase_ok_def ready_def held whole_def)
  show "own_inv r ?B c'" using INV_D(2) [OF inv c'] c by (auto simp: own_inv_def ready_def)
next
  show "port_inv r ?B i" if "port r i" for i using INV_D(3) [OF inv that] by (simp add: port_inv_def)
next
  show "exclusive r ?B"
    unfolding exclusive_def
  proof (intro allI impI)
    fix a b
    assume "chan r a \<and> chan r b \<and> st ?B a = SW_TR \<and> st ?B b = SW_TR \<and> fst (cr ?B a) = fst (cr ?B b)"
    then show "a = b" using only [of a] only [of b] exclusive_D [OF INV_D(4) [OF inv], of a b] by (auto split: if_splits)
  qed
qed

definition granting :: "rs \<Rightarrow> int set \<Rightarrow> rs \<Rightarrow> bool" where
  "granting s Z t \<longleftrightarrow> step_ok s t \<and>
     (\<exists>S. abs_router (fst t) = (abs_router (fst s))\<lparr>st := S\<rparr> \<and>
       (\<forall>c. chan (fst s) c \<longrightarrow> S c = st (abs_router (fst s)) c \<or>
          st (abs_router (fst s)) c = SW_AB \<and> S c = SW_TR \<and> fst (cr (abs_router (fst s)) c) \<in> Z))"

lemma sw_grant_ok:
  assumes g: "granting s Z t" and s: "lucky s" "sw_asked (fst s) m" and i: "i \<notin> Z"
    and none: "\<And>c. chan (fst s) c \<Longrightarrow> st (abs_router (fst s)) c \<noteq> SW_TR"
  shows "ok (sw_grant m i t) (granting s (insert i Z))"
proof (cases "requests_of m i = []")
  case True
  then show ?thesis using g unfolding sw_grant_def by (simp add: granting_def) blast
next
  case False
  let ?A = "abs_router (fst s)"
  from g obtain S where step: "step_ok s t" and S: "abs_router (fst t) = ?A\<lparr>st := S\<rparr>"
      "\<And>c. chan (fst s) c \<Longrightarrow> S c = st ?A c \<or> st ?A c = SW_AB \<and> S c = SW_TR \<and> fst (cr ?A c) \<in> Z"
    unfolding granting_def by blast
  note same = step_setup [OF step]
  have "lucky t" using step_lucky [OF step] s(1) by simp
  from pick_ok [OF this False] obtain c t' where c: "pick (requests_of m i) t = Some (c, t')" "c \<in> set (requests_of m i)" "drew t t'"
    by (auto simp: ok_def)
  have r: "router_inv (fst t')" "step_ok s t'"
    using step_ok_trans [OF step drew_step [OF _ c(3)]] step by (auto simp: step_ok_def)
  then have wf: "wf_router (fst t')" and same': "same_setup (fst s) (fst t')" using step_setup by (auto simp: router_inv_def)
  have A': "abs_router (fst t') = ?A\<lparr>st := S\<rparr>" using c(3) S(1) by (simp add: drew_def)
  have inv: "INV (fst s) (?A\<lparr>st := S\<rparr>)" using r(1) A' INV_setup [OF same'] by (simp add: router_inv_def)
  have "(i, c) \<in> set m" using c(2) by (auto simp: requests_of_def)
  then have q: "chan (fst s) c" "ready ?A c" "fst (cr ?A c) = i" using s(2) by (auto simp: sw_asked_def)
  then have Sc: "S c = SW_AB" using S(2) [OF q(1)] i by (auto simp: ready_def)
  have inv': "INV (fst s) (?A\<lparr>st := S(c := SW_TR)\<rparr>)"
  proof -
    have "fst (cr ?A c') \<noteq> fst (cr ?A c)" if "chan (fst s) c'" "S c' = SW_TR" for c'
      using S(2) [OF that(1)] none [OF that(1)] that(2) i q(3) by auto
    then show ?thesis using grant_INV [OF inv, of c] q Sc by (simp add: ready_def)
  qed
  have ch: "chan (fst t') (fst c, snd c)" using q(1) setup_defs(1) [OF same'] by simp
  have "buf ?A c \<noteq> []" using INV_D(1) [OF inv q(1)] Sc by (simp add: chan_inv_def phase_ok_def)
  then have run: "sw_grant m i t = Some (set_st c SW_TR (fst t'), snd t')"
    using c(1) False wf ch A' by (simp add: sw_grant_def runs reads)
  let ?t = "(set_st c SW_TR (fst t'), snd t')"
  have absr: "abs_router (fst ?t) = ?A\<lparr>st := S(c := SW_TR)\<rparr>" using wf ch A' by simp
  have "step_ok t' ?t"
    unfolding step_ok_def
  proof
    have "same_setup (fst s) (fst ?t)" using same' by simp
    then show "router_inv (fst ?t)" using inv' absr wf ch INV_setup by (simp add: router_inv_def)
    show "progress t' ?t" by (rule progress_silent) (simp_all add: steady_def)
  qed
  then have "step_ok s ?t" by (rule step_ok_trans [OF r(2)])
  moreover have "(S(c := SW_TR)) c' = st ?A c' \<or> st ?A c' = SW_AB \<and> (S(c := SW_TR)) c' = SW_TR \<and> fst (cr ?A c') \<in> insert i Z"
    if "chan (fst s) c'" for c'
    using S(2) [OF that] q by (auto simp: ready_def)
  ultimately have "granting s (insert i Z) ?t" unfolding granting_def absr by blast
  then show ?thesis by (simp add: run)
qed

lemma sw_arbitration_ok:
  assumes "router_inv (fst s)" "lucky s" "\<And>c. chan (fst s) c \<Longrightarrow> st (abs_router (fst s)) c \<noteq> SW_TR"
  shows "ok (sw_arbitration s) (step_ok s)"
proof -
  from sw_requests_ok [OF assms(1,2)] obtain t m where t: "foldM sw_request (ports (fst s)) (s, []) = Some (t, m)" "drew s t" "sw_asked (fst s) m"
    by (auto simp: ok_def)
  have f: "fst t = fst s" using t(2) by (simp add: drew_def)
  have st: "step_ok s t" using drew_step [OF assms(1) t(2)] .
  show ?thesis
  proof (cases "m = []")
    case True
    then show ?thesis using t(1) st by (simp add: sw_arbitration_def)
  next
    case False
    have "ok (foldM (sw_grant m) (ports (fst t)) t) (granting t (set (ports (fst t))))"
    proof (rule foldM_visit)
      show "granting t {} t" using assms(1) f unfolding granting_def by (auto simp: step_ok_refl intro!: exI [of _ "st (abs_router (fst s))"])
    next
      fix i Z u
      assume "i \<notin> Z" "granting t Z u"
      then show "ok (sw_grant m i u) (granting t (insert i Z))"
        using assms(3) t(2,3) drew_lucky [OF t(2)] assms(2) f by (intro sw_grant_ok) simp_all
    qed simp
    then have "ok (foldM (sw_grant m) (ports (fst t)) t) (step_ok s)"
      by (rule ok_mono) (auto simp: granting_def intro: step_ok_trans [OF st])
    then show ?thesis using t(1) False by (simp add: sw_arbitration_def)
  qed
qed

section \<open>Virtual channel arbitration\<close>

lemma vc_free_ok:
  assumes "wf_router rt" "\<forall>d \<in> set ds. chan rt d"
  shows "foldM (vc_free SHARE rt) ds acc = Some (acc @ filter (\<lambda>d. fst (own (abs_router rt) d) = FREE) ds)"
  using assms(2)
proof (induction ds arbitrary: acc)
  case (Cons d ds)
  have "chan rt (fst d, snd d)" using Cons.prems by simp
  then have "vc_free SHARE rt d acc = Some (if fst (own (abs_router rt) d) = FREE then acc @ [d] else acc)"
    using assms(1) by (simp add: vc_free_def reads)
  then show ?case using Cons by simp
qed simp

lemma vc_selection_ok:
  assumes "router_inv (fst s)" "lucky s" "chan (fst s) (a, b)" "st (abs_router (fst s)) (a, b) = VC_AB"
  shows "ok (vc_selection SHARE a b s) (\<lambda>(d, s'). drew s s' \<and> (d = (- 1, - 1) \<or> out_ok (fst s) d))"
proof -
  let ?A = "abs_router (fst s)"
  have wf: "wf_router (fst s)" and inv: "INV (fst s) ?A" using assms(1) by (simp_all add: router_inv_def)
  have r: "rts ?A (a, b) \<noteq> []" "\<forall>d \<in> set (rts ?A (a, b)). out_ok (fst s) d"
    using INV_D(1) [OF inv assms(3)] assms(4) by (simp_all add: chan_inv_def phase_ok_def)
  define free where "free = filter (\<lambda>d. fst (own ?A d) = FREE) (rts ?A (a, b))"
  have f: "foldM (vc_free SHARE (fst s)) (rts ?A (a, b)) [] = Some free"
    using vc_free_ok [OF wf, of "rts ?A (a, b)" "[]"] r(2) by (simp add: free_def out_ok_def)
  show ?thesis
  proof (cases "free = []")
    case True
    then show ?thesis using wf assms(3) r(1) f by (simp add: vc_selection_def reads)
  next
    case False
    have "ok (pick free s) (\<lambda>(d, s'). drew s s' \<and> (d = (- 1, - 1) \<or> out_ok (fst s) d))"
      by (rule ok_mono [OF pick_ok [OF assms(2) False]]) (use r(2) free_def in auto)
    then show ?thesis using wf assms(3) r(1) f False by (simp add: vc_selection_def reads)
  qed
qed

definition vc_asked :: "rs \<Rightarrow> VC_type set \<Rightarrow> rs \<times> vc_requests \<Rightarrow> bool" where
  "vc_asked s Z x \<longleftrightarrow> drew s (fst x) \<and> distinct (map snd (fst (snd x))) \<and>
     (\<forall>q \<in> set (fst (snd x)). out_ok (fst s) (fst q) \<and> chan (fst s) (snd q) \<and> st (abs_router (fst s)) (snd q) = VC_AB \<and>
        snd q \<in> Z)"

lemma vc_asked_D:
  assumes "vc_asked s Z x" "(d, c) \<in> set (fst (snd x))"
  shows "out_ok (fst s) d" "chan (fst s) c" "st (abs_router (fst s)) c = VC_AB" "c \<in> Z"
  using assms unfolding vc_asked_def by force+

lemma vc_asked_add:
  assumes "vc_asked s Z (t, m, q)" "c \<notin> Z" "drew s t'" "out_ok (fst s) v" "chan (fst s) c" "st (abs_router (fst s)) c = VC_AB"
  shows "vc_asked s (insert c Z) (t', m @ [(v, c)], q')"
proof -
  have "c \<notin> snd ` set m" using assms(1,2) by (auto simp: vc_asked_def)
  then show ?thesis using assms by (auto simp: vc_asked_def simp del: split_paired_All)
qed

lemma vc_request_of_ok:
  assumes "router_inv (fst s)" "lucky s" "chan (fst s) (i, j)" "(i, j) \<notin> Z" "vc_asked s Z x"
  shows "ok (vc_request_of E SHARE i j x) (vc_asked s (insert (i, j) Z))"
proof -
  obtain t m q where x: "x = (t, m, q)" by (cases x) auto
  then have d: "drew s t" using assms(5) by (simp add: vc_asked_def)
  then have f: "fst t = fst s" by (simp add: drew_def)
  have wf: "wf_router (fst s)" using assms(1) by (simp add: router_inv_def)
  have msk: "\<exists>w. vc_mask_at E (i * vc_number (fst s) + j) = Some w"
    using assms(3) by (auto simp: vc_mask_at_def chan_def inside_def not_less intro!: add_nonneg_nonneg mult_nonneg_nonneg)
  show ?thesis
  proof (cases "st (abs_router (fst s)) (i, j) = VC_AB")
    case False
    then show ?thesis using assms(3,5) wf f by (auto simp: x vc_request_of_def reads vc_asked_def)
  next
    case True
    from vc_selection_ok [of t, unfolded f, OF assms(1) _ assms(3) True] drew_lucky [OF d] assms(2)
    obtain v t' where v: "vc_selection SHARE i j t = Some (v, t')" "drew t t'" "v = (- 1, - 1) \<or> out_ok (fst s) v"
      by (auto simp: ok_def)
    note d' = drew_trans [OF d v(2)]
    have f': "fst t' = fst s" using d' by (simp add: drew_def)
    show ?thesis
    proof (cases "fst v \<ge> 0 \<and> snd v \<ge> 0")
      case ge: True
      then have "out_ok (fst s) v" using v(3) by auto
      from vc_asked_add [OF assms(5) [unfolded x] assms(4) d' this assms(3) True] show ?thesis
        using assms(3) wf f True v(1) ge msk f' by (auto simp: x vc_request_of_def reads)
    next
      case False
      then show ?thesis using assms(3,5) wf f True v(1) d' by (auto simp: x vc_request_of_def reads vc_asked_def)
    qed
  qed
qed

lemma acquire_INV:
  assumes inv: "INV r A" and c: "chan r c" "st A c = VC_AB" and d: "out_ok r d" "fst (own A d) = FREE"
  shows "INV r (A\<lparr>st := (st A)(c := SW_AB), cr := (cr A)(c := d), own := (own A)(d := (USED, c))\<rparr>)" (is "INV r ?B")
proof (rule INV_I)
  fix c'
  assume c': "chan r c'"
  note I = INV_D(1) [OF inv c'] and O = INV_D(2) [OF inv c']
  show "chan_inv r ?B c'"
  proof (cases "c' = c")
    case True
    then show ?thesis using I c d by (auto simp: chan_inv_def phase_ok_def held_def out_ok_def whole_def)
  next
    case False
    then have held: "held r ?B c' = held r A c'" using d(2) by (auto simp: held_def)
    show ?thesis using I False by (cases "st A c'") (auto simp: chan_inv_def phase_ok_def held whole_def)
  qed
  show "own_inv r ?B c'"
    using O c d by (cases "c' = d") (auto simp: own_inv_def)
next
  show "port_inv r ?B i" if "port r i" for i using INV_D(3) [OF inv that] by (simp add: port_inv_def)
next
  show "exclusive r ?B" by (rule exclusive_mono [OF INV_D(4) [OF inv]]) (use c in \<open>auto split: if_splits\<close>)
qed

lemma vc_grant_ok:
  assumes "step_ok s t" and s: "lucky s" and v: "vc_asked s Y (s, r)"
    and pend: "\<And>d c. (d, c) \<in> set (fst r) \<Longrightarrow> d \<notin> Z \<Longrightarrow> st (abs_router (fst t)) c = VC_AB"
    and ij: "chan (fst s) (i, j)" "(i, j) \<notin> Z"
  shows "ok (vc_grant r i j t) (\<lambda>t'. step_ok s t' \<and>
      (\<forall>d c. (d, c) \<in> set (fst r) \<longrightarrow> d \<notin> insert (i, j) Z \<longrightarrow> st (abs_router (fst t')) c = VC_AB))"
proof -
  note same = step_setup [OF assms(1)]
  have wf: "wf_router (fst t)" and inv: "INV (fst s) (abs_router (fst t))"
    using assms(1) INV_setup [OF same] by (simp_all add: step_ok_def router_inv_def)
  have ij': "chan (fst t) (i, j)" using ij(1) setup_defs(1) [OF same] by simp
  show ?thesis
  proof (cases "fst (own (abs_router (fst t)) (i, j)) = FREE \<and> requests_of (fst r) (i, j) \<noteq> []")
    case False
    then show ?thesis using wf ij' assms(1) pend by (auto simp: vc_grant_def reads)
  next
    case True
    have "lucky t" using step_lucky [OF assms(1)] s by simp
    from pick_ok [OF this, of "requests_of (fst r) (i, j)"] True obtain c u where c: "pick (requests_of (fst r) (i, j)) t = Some (c, u)" "c \<in> set (requests_of (fst r) (i, j))" "drew t u"
      by (auto simp: ok_def)
    have m: "((i, j), c) \<in> set (fst r)" using c(2) by (auto simp: requests_of_def)
    then have q: "chan (fst s) c" "out_ok (fst s) (i, j)" using vc_asked_D [OF v] by simp_all
    have stc: "st (abs_router (fst t)) c = VC_AB" using pend [OF m ij(2)] .
    have ch: "chan (fst t) (fst c, snd c)" using q(1) setup_defs(1) [OF same] by simp
    have u: "fst u = fst t" "step_ok s u" using step_ok_trans [OF assms(1) drew_step [OF _ c(3)]] assms(1) c(3) by (auto simp: drew_def step_ok_def)
    define rt where "rt = log_power (power_vc_arbit i j (snd r) (word_of_int (fst c * vc_number (fst t) + snd c)))
      (set_own (i, j) (USED, c) (set_cr c (i, j) (set_st c SW_AB (fst t))))"
    have run: "vc_grant r i j t = Some (rt, snd u)"
      using True c(1) wf ij' ch u(1) by (simp add: vc_grant_def reads runs rt_def)
    let ?A = "abs_router (fst t)"
    have absr: "abs_router rt = ?A\<lparr>st := (st ?A)(c := SW_AB), cr := (cr ?A)(c := (i, j)), own := (own ?A)((i, j) := (USED, c))\<rparr>"
      and w: "wf_router rt" using wf ch ij' by (simp_all add: rt_def)
    have "INV (fst s) (abs_router rt)" unfolding absr using acquire_INV [OF inv q(1) stc q(2)] True by simp
    moreover have "same_setup (fst s) rt" using same by (simp add: rt_def)
    ultimately have "router_inv rt" using w INV_setup by (simp add: router_inv_def)
    moreover have "progress u (rt, snd u)" using u(1) by (intro progress_silent) (simp_all add: steady_def rt_def)
    ultimately have "step_ok s (rt, snd u)" using step_ok_trans [OF u(2), of "(rt, snd u)"] by (simp add: step_ok_def)
    moreover have "st (abs_router rt) c' = VC_AB" if "(d, c') \<in> set (fst r)" "d \<notin> insert (i, j) Z" for d c'
    proof -
      have "inj_on snd (set (fst r))" using v by (simp add: vc_asked_def distinct_map)
      then have "c' \<noteq> c" using m that by (auto dest: inj_onD [of snd _ "((i, j), c)" "(d, c)"])
      then show ?thesis using pend [OF that(1)] that(2) by (simp add: absr)
    qed
    ultimately show ?thesis by (simp add: run del: split_paired_All)
  qed
qed

lemma vc_arbitration_ok:
  assumes "router_inv (fst s)" "lucky s"
  shows "ok (vc_arbitration E SHARE s) (step_ok s)"
proof -
  have "ok (foldM (\<lambda>i st. foldM (vc_request_of E SHARE i) (vcs (fst s)) st) (ports (fst s)) (s, [], 0))
      (vc_asked s (set (ports (fst s)) \<times> set (vcs (fst s))))"
  proof (rule foldM_grid)
    show "vc_asked s {} (s, [], 0)" by (simp add: vc_asked_def)
  next
    fix i j Z x
    assume "i \<in> set (ports (fst s))" "j \<in> set (vcs (fst s))" "(i, j) \<notin> Z" "vc_asked s Z x"
    then show "ok (vc_request_of E SHARE i j x) (vc_asked s (insert (i, j) Z))"
      using assms by (intro vc_request_of_ok chan_mem)
  qed simp_all
  then obtain t r where t: "foldM (\<lambda>i st. foldM (vc_request_of E SHARE i) (vcs (fst s)) st) (ports (fst s)) (s, [], 0) = Some (t, r)"
      "vc_asked s (set (ports (fst s)) \<times> set (vcs (fst s))) (t, r)"
    by (auto simp: ok_def)
  have d: "drew s t" and f: "fst t = fst s" using t(2) by (auto simp: vc_asked_def drew_def)
  note st = drew_step [OF assms(1) d]
  have v: "vc_asked t (set (ports (fst s)) \<times> set (vcs (fst s))) (t, r)" using t(2) f by (simp add: vc_asked_def)
  show ?thesis
  proof (cases "fst r = []")
    case True
    then show ?thesis using t(1) st by (simp add: vc_arbitration_def)
  next
    case False
    define I where "I = (\<lambda>Z u. step_ok t u \<and> (\<forall>d c. (d, c) \<in> set (fst r) \<longrightarrow> d \<notin> Z \<longrightarrow> st (abs_router (fst u)) c = VC_AB))"
    have "ok (foldM (\<lambda>i s. foldM (vc_grant r i) (vcs (fst s)) s) [1..physic_ports (fst t) - 1] t)
        (I (set [1..physic_ports (fst t) - 1] \<times> set (vcs (fst t))))"
    proof (rule foldM_grid)
      show "I {} t" using vc_asked_D(3) [OF v] assms(1) f by (auto simp: I_def step_ok_refl)
    next
      fix Z u
      assume "I Z u"
      then show "vcs (fst u) = vcs (fst t)" using setup_defs(7) [OF step_setup, of t u] by (simp add: I_def)
    next
      fix i j Z u
      assume ij: "i \<in> set [1..physic_ports (fst t) - 1]" "j \<in> set (vcs (fst t))" "(i, j) \<notin> Z" and I: "I Z u"
      then have "chan (fst t) (i, j)" by (simp add: chan_def inside_def)
      moreover have "lucky t" using drew_lucky [OF d] assms(2) by simp
      ultimately show "ok (vc_grant r i j u) (I (insert (i, j) Z))"
        using I ij(3) vc_grant_ok [OF _ _ v, of u Z i j] unfolding I_def by blast
    qed simp_all
    then have "ok (foldM (\<lambda>i s. foldM (vc_grant r i) (vcs (fst s)) s) [1..physic_ports (fst t) - 1] t) (step_ok s)"
      by (rule ok_mono) (auto simp: I_def intro: step_ok_trans [OF st])
    then show ?thesis using t(1) False by (simp add: vc_arbitration_def)
  qed
qed

section \<open>Routing decision\<close>

definition bill :: "time_type \<Rightarrow> flit_template \<Rightarrow> sim_router_template \<Rightarrow> sim_router_template" where
  "bill t f rt = (if isTail (flit_type_of f) then rt\<lparr>total_delay := total_delay rt + (t - start_time f)\<rparr> else rt)"

definition receipt :: "time_type \<Rightarrow> flit_template \<Rightarrow> sim_shared \<Rightarrow> sim_shared" where
  "receipt t f sh = (if isTail (flit_type_of f)
     then sh\<lparr>mess_q := TotFin_inc (mess_q sh), delay_info := delay_info sh @ [(start_time f, sor_addr f, des_addr f, t - start_time f)]\<rparr>
     else sh)"

lemma accept_flit_eq: "accept_flit t f s = (bill t f (fst s), receipt t f (snd s))"
  by (simp add: accept_flit_def bill_def receipt_def Let_def)

lemma bill_same [simp]:
  "abs_router (bill t f rt) = abs_router rt" "wf_router (bill t f rt) = wf_router rt" "chan (bill t f rt) = chan rt"
  "port (bill t f rt) = port rt" "same_setup a (bill t f rt) = same_setup a rt" "input_module (bill t f rt) = input_module rt"
  "output_module (bill t f rt) = output_module rt" "address (bill t f rt) = address rt" "flits (bill t f rt) = flits rt"
  by (auto simp: bill_def abs_router_def shape_defs same_setup_def fun_eq_iff flits_def)

lemma bill_set [simp]:
  "set_buf c v1 (bill t f rt) = bill t f (set_buf c v1 rt)" "set_st c v2 (bill t f rt) = bill t f (set_st c v2 rt)"
  by (simp_all add: bill_def set_defs)

lemma receipt_same [simp]:
  "m_q (mess_q (receipt t f sh)) = m_q (mess_q sh)" "current_time (mess_q (receipt t f sh)) = current_time (mess_q sh)"
  "srgen (receipt t f sh) = srgen sh"
  "total_finished (mess_q (receipt t f sh)) = total_finished (mess_q sh) + (if isTail (flit_type_of f) then 1 else 0)"
  by (simp_all add: receipt_def TotFin_inc_def)

lemma maybe_credit_now [simp]: "current_time (mess_q (maybe_credit i j s)) = now s"
  by (simp add: maybe_credit_def send_def add_message_def)

lemma progress_deliver:
  assumes "chan (fst s) (i, j)" "i = 0 \<or> in_link (fst s) i" "same_setup (fst s) rt"
    "ibuff_full (input_module rt) = ibuff_full (input_module (fst s))" "flits (fst s) = add_mset f (flits rt)"
    "des_addr f = address (fst s)"
  shows "progress s (rt, receipt (now s) f (maybe_credit i j s))"
proof -
  let ?s' = "(rt, receipt (now s) f (maybe_credit i j s))"
  have "steady s ?s'"
    using assms(3,4) by (auto simp: steady_def maybe_credit_def send_def add_message_def sorted_multiset_insert)
  moreover have "progress_by (if i = 0 then {#} else {#credit_event (fst s) (now s) i j#}) {#f#} s ?s'"
    using credit_sent [of "fst s" i j "now s"] assms
    by (auto simp: progress_by_def maybe_credit_def send_def add_message_def mset_multiset_insert chan_def inside_def)
  ultimately show ?thesis unfolding progress_def by blast
qed

lemma idle_INV:
  fixes q :: "flit_template list" and l :: "VC_type list" and d :: VC_type
  assumes inv: "INV r A" and c: "chan r c" "st A c \<notin> {INIT, SW_AB, SW_TR}" "x \<noteq> SW_TR"
  defines "B \<equiv> A\<lparr>buf := (buf A)(c := q), st := (st A)(c := x), rts := (rts A)(c := l), cr := (cr A)(c := d)\<rparr>"
  assumes ok: "chan_inv r B c"
  shows "INV r B"
proof (rule INV_I)
  fix c'
  assume c': "chan r c'"
  note I = INV_D(1) [OF inv c'] and O = INV_D(2) [OF inv c']
  show "chan_inv r B c'"
  proof (cases "c' = c")
    case False
    then have held: "held r B c' = held r A c'" by (auto simp: held_def B_def)
    have "phase_ok r B c' = phase_ok r A c'" unfolding phase_ok_def held using False by (cases "st A c'") (simp_all add: B_def)
    moreover have "whole r B c' = whole r A c'" unfolding whole_def held using False by (simp add: B_def)
    ultimately show ?thesis using I False by (simp add: chan_inv_def) (simp add: B_def)
  qed (use ok in simp)
  show "own_inv r B c'" using O c(2) by (auto simp: own_inv_def B_def)
next
  show "port_inv r B i" if "port r i" for i using INV_D(3) [OF inv that] by (simp add: port_inv_def B_def)
next
  show "exclusive r B" by (rule exclusive_mono [OF INV_D(4) [OF inv]]) (use c in \<open>auto simp: B_def split: if_splits\<close>)
qed

lemma receive_INV:
  assumes inv: "INV r A" and c: "chan r c" "st A c \<in> {ROUTING, HOME}" and x: "x \<noteq> SW_TR"
    and ok: "chan_inv r (A\<lparr>buf := (buf A)(c := q), st := (st A)(c := x)\<rparr>) c"
  shows "INV r (A\<lparr>buf := (buf A)(c := q), st := (st A)(c := x)\<rparr>)"
proof -
  have "A\<lparr>buf := (buf A)(c := q), st := (st A)(c := x), rts := (rts A)(c := rts A c), cr := (cr A)(c := cr A c)\<rparr>
      = A\<lparr>buf := (buf A)(c := q), st := (st A)(c := x)\<rparr>" by (cases A) simp
  then show ?thesis using idle_INV [OF inv c(1), where x = x and q = q and l = "rts A c" and d = "cr A c"] c(2) x ok by auto
qed

lemma first_flit:
  assumes "INV r A" "chan r c" "buf A c \<noteq> []"
  shows "routable r (des_addr (hd (buf A c)))" "fst c = 0 \<or> in_link r (fst c)"
  using INV_D(1) [OF assms(1,2)] assms(3) by (auto simp: chan_inv_def)

text \<open>The header of a packet that has arrived, or a single flit.\<close>

lemma deliver_header_INV:
  assumes inv: "INV r A" and c: "chan r c" "st A c = ROUTING" and b: "buf A c = f # fs" and home: "des_addr f = address r"
  shows "INV r (A\<lparr>buf := (buf A)(c := fs), st := (st A)(c := (if flit_type_of f = HEADER then HOME else if fs \<noteq> [] then ROUTING else INIT))\<rparr>)"
proof -
  note I = INV_D(1) [OF inv c(1)]
  have "isHeader (flit_type_of f)" "seq (after f) fs" using I c(2) b by (auto simp: chan_inv_def phase_ok_def fits_def)
  then show ?thesis
    using I c b home by (intro receive_INV [OF inv c(1)])
      (auto simp: chan_inv_def phase_ok_def held_def after_def whole_def isTail_def isHeader_def split: if_splits)
qed

lemma deliver_body_INV:
  assumes inv: "INV r A" and c: "chan r c" "st A c = HOME" and b: "buf A c = f # fs"
  shows "\<not> isHeader (flit_type_of f)" "des_addr f = address r"
    "INV r (A\<lparr>buf := (buf A)(c := fs), st := (st A)(c := (if flit_type_of f = TAIL then if fs \<noteq> [] then ROUTING else INIT else HOME))\<rparr>)"
proof -
  note I = INV_D(1) [OF inv c(1)]
  show f: "\<not> isHeader (flit_type_of f)" "des_addr f = address r" using I c(2) b by (auto simp: chan_inv_def phase_ok_def fits_def)
  have "seq (after f) fs" using I c(2) b by (simp add: chan_inv_def phase_ok_def)
  then show "INV r (A\<lparr>buf := (buf A)(c := fs), st := (st A)(c := (if flit_type_of f = TAIL then if fs \<noteq> [] then ROUTING else INIT else HOME))\<rparr>)"
    using I c b f by (intro receive_INV [OF inv c(1)])
      (auto simp: chan_inv_def phase_ok_def held_def after_def whole_def isTail_def isHeader_def split: if_splits)
qed

lemma route_INV:
  assumes inv: "INV r A" and c: "chan r c" "st A c = ROUTING" and cs: "cs \<noteq> []" "\<forall>d \<in> set cs. out_ok r d"
  shows "INV r (A\<lparr>st := (st A)(c := VC_AB), rts := (rts A)(c := cs), cr := (cr A)(c := VC_NULL)\<rparr>)"
proof -
  have e: "A\<lparr>buf := (buf A)(c := buf A c), st := (st A)(c := VC_AB), rts := (rts A)(c := cs), cr := (cr A)(c := VC_NULL)\<rparr>
      = A\<lparr>st := (st A)(c := VC_AB), rts := (rts A)(c := cs), cr := (cr A)(c := VC_NULL)\<rparr>" by (cases A) simp
  show ?thesis
    unfolding e [symmetric]
    by (rule idle_INV [OF inv c(1)])
      (use c cs INV_D(1) [OF inv c(1)] in \<open>auto simp: chan_inv_def phase_ok_def held_def whole_def VC_NULL_def chan_def inside_def\<close>)
qed

definition credited :: "int \<Rightarrow> int \<Rightarrow> rs \<Rightarrow> sim_shared" where
  "credited i j s = (if buf (abs_router (fst s)) (i, j) \<noteq> [] \<and> address (fst s) = des_addr (hd (buf (abs_router (fst s)) (i, j)))
     then maybe_credit i j s else snd s)"

lemma credit_phase:
  assumes "wf_router (fst s)" "INV (fst s) (abs_router (fst s))" "chan (fst s) (i, j)"
  shows "(if i = 0 then Some s
        else do {
          q \<leftarrow> input_at i j (input_module (fst s));
          if q \<noteq> [] \<and> address (fst s) = des_addr (hd q) then send_credit i j s else Some s
        }) = Some (fst s, credited i j s)"
  using first_flit(2) [OF assms(2,3)] assms(1,3)
  by (auto simp: reads credited_def maybe_credit_def send_credit_run send_def)

lemma progress_credited:
  assumes "INV (fst s) (abs_router (fst s))" "chan (fst s) (i, j)" "same_setup (fst s) rt"
    "ibuff_full (input_module rt) = ibuff_full (input_module (fst s))" "flits rt = flits (fst s)"
  shows "progress s (rt, credited i j s)"
proof (cases "buf (abs_router (fst s)) (i, j) \<noteq> [] \<and> address (fst s) = des_addr (hd (buf (abs_router (fst s)) (i, j)))")
  case True
  then show ?thesis
    using progress_credit [of s i j rt "{#}"] first_flit(2) [OF assms(1,2)] assms by (simp add: credited_def)
next
  case False
  then show ?thesis
    using assms by (auto intro!: progress_silent simp: credited_def steady_def)
qed

lemma step_deliver:
  assumes "router_inv (fst s)" "chan (fst s) (i, j)" "buf (abs_router (fst s)) (i, j) = f # fs" "des_addr f = address (fst s)"
    and inv: "INV (fst s) ((abs_router (fst s))\<lparr>buf := (buf (abs_router (fst s)))((i, j) := fs), st := (st (abs_router (fst s)))((i, j) := x)\<rparr>)"
  shows "step_ok s (bill (now s) f (set_st (i, j) x (set_buf (i, j) fs (fst s))), receipt (now s) f (maybe_credit i j s))"
    (is "step_ok s (?rt, _)")
proof -
  have wf: "wf_router (fst s)" and I: "INV (fst s) (abs_router (fst s))" using assms(1) by (simp_all add: router_inv_def)
  have "flits (fst s) = add_mset f (flits ?rt)" using flits_pop_buf [OF wf assms(2)] assms(3) by simp
  then have "progress s (?rt, receipt (now s) f (maybe_credit i j s))"
    using first_flit(2) [OF I assms(2)] assms(2-4) by (intro progress_deliver) simp_all
  moreover have "INV ?rt = INV (fst s)" by (rule INV_setup) simp
  ultimately show ?thesis using wf assms(2) inv by (simp add: step_ok_def router_inv_def)
qed

lemma route_header_ok:
  assumes "router_inv (fst s)" "chan (fst s) (i, j)" "st (abs_router (fst s)) (i, j) = ROUTING"
  shows "ok (route_header i j (hd (buf (abs_router (fst s)) (i, j))) (fst s, credited i j s)) (step_ok s)"
proof -
  let ?A = "abs_router (fst s)"
  have wf: "wf_router (fst s)" and inv: "INV (fst s) ?A" using assms(1) by (simp_all add: router_inv_def)
  have "buf ?A (i, j) \<noteq> []" using INV_D(1) [OF inv assms(2)] assms(3) by (simp add: chan_inv_def phase_ok_def)
  then obtain f fs where b: "buf ?A (i, j) = f # fs" by (cases "buf ?A (i, j)") auto
  show ?thesis
  proof (cases "address (fst s) = des_addr f")
    case True
    let ?x = "if flit_type_of f = HEADER then HOME else if fs \<noteq> [] then ROUTING else INIT"
    have cred: "credited i j s = maybe_credit i j s" using b True by (simp add: credited_def)
    have "route_header i j f (fst s, credited i j s) =
        Some (bill (now s) f (set_st (i, j) ?x (set_buf (i, j) fs (fst s))), receipt (now s) f (maybe_credit i j s))"
      using wf assms(2) b True by (simp add: route_header_def accept_flit_eq runs reads cred Let_def)
    moreover have "step_ok s (bill (now s) f (set_st (i, j) ?x (set_buf (i, j) fs (fst s))), receipt (now s) f (maybe_credit i j s))"
      using True by (intro step_deliver [OF assms(1,2) b] deliver_header_INV [OF inv assms(2,3) b]) simp_all
    ultimately show ?thesis using b by simp
  next
    case False
    then obtain cs where cs: "curr_algorithm (routing_alg (fst s)) (ary_size (fst s)) (address (fst s)) (des_addr f) = Some cs"
        "cs \<noteq> []" "\<forall>c \<in> set cs. out_ok (fst s) c"
      using first_flit(1) [OF inv assms(2)] b by (auto simp: routable_def)
    define rt where "rt = set_st (i, j) VC_AB (set_rts (i, j) cs (set_cr (i, j) VC_NULL (set_rts (i, j) [] (fst s))))"
    have run: "route_header i j f (fst s, credited i j s) = Some (rt, credited i j s)"
      using wf assms(2) False cs(1) by (simp add: route_header_def runs rt_def)
    have "abs_router rt = ?A\<lparr>st := (st ?A)((i, j) := VC_AB), rts := (rts ?A)((i, j) := cs), cr := (cr ?A)((i, j) := VC_NULL)\<rparr>"
      using wf assms(2) by (simp add: rt_def)
    moreover have "INV rt = INV (fst s)" by (rule INV_setup) (simp add: rt_def)
    ultimately have "router_inv rt"
      using route_INV [OF inv assms(2,3) cs(2,3)] wf assms(2) by (simp add: router_inv_def) (simp add: rt_def)
    moreover have "progress s (rt, credited i j s)"
      using progress_credited [OF inv assms(2)] by (simp add: rt_def)
    ultimately show ?thesis using b run by (simp add: step_ok_def)
  qed
qed

lemma accept_body_ok:
  assumes "router_inv (fst s)" "chan (fst s) (i, j)" "st (abs_router (fst s)) (i, j) = HOME"
  shows "ok (accept_body i j (fst s, credited i j s)) (step_ok s)"
proof -
  let ?A = "abs_router (fst s)"
  have wf: "wf_router (fst s)" and inv: "INV (fst s) ?A" using assms(1) by (simp_all add: router_inv_def)
  show ?thesis
  proof (cases "buf ?A (i, j)")
    case Nil
    then show ?thesis using wf assms by (simp add: accept_body_def reads credited_def step_ok_refl)
  next
    case (Cons f fs)
    note d = deliver_body_INV [OF inv assms(2,3) Cons]
    let ?x = "if flit_type_of f = TAIL then if fs \<noteq> [] then ROUTING else INIT else HOME"
    have cred: "credited i j s = maybe_credit i j s" using Cons d(2) by (simp add: credited_def)
    have st: "flit_type_of f \<noteq> TAIL \<Longrightarrow> set_st (i, j) HOME (set_buf (i, j) fs (fst s)) = set_buf (i, j) fs (fst s)"
      using set_st_same [of "set_buf (i, j) fs (fst s)" "(i, j)"] wf assms(2,3) by simp
    have "accept_body i j (fst s, credited i j s) =
        Some (bill (now s) f (set_st (i, j) ?x (set_buf (i, j) fs (fst s))), receipt (now s) f (maybe_credit i j s))"
      using wf assms(2) Cons d(1) st by (simp add: accept_body_def accept_flit_eq runs reads cred Let_def)
    moreover have "step_ok s (bill (now s) f (set_st (i, j) ?x (set_buf (i, j) fs (fst s))), receipt (now s) f (maybe_credit i j s))"
      using d(2,3) by (intro step_deliver [OF assms(1,2) Cons])
    ultimately show ?thesis by simp
  qed
qed

lemma decide_channel_ok:
  assumes "router_inv (fst s)" "chan (fst s) (i, j)"
  shows "ok (decide_channel i j s) (step_ok s)"
proof -
  let ?A = "abs_router (fst s)"
  have wf: "wf_router (fst s)" and inv: "INV (fst s) ?A" using assms(1) by (simp_all add: router_inv_def)
  note I = INV_D(1) [OF inv assms(2)]
  have run: "decide_channel i j s =
      (if st ?A (i, j) = ROUTING
       then do {
         flit_t \<leftarrow> input_get_flit i j (input_module (fst s));
         if i \<noteq> 0 \<and> \<not> isHeader (flit_type_of flit_t) then None else route_header i j flit_t (fst s, credited i j s)
       }
       else if st ?A (i, j) = HOME then accept_body i j (fst s, credited i j s)
       else Some (fst s, credited i j s))"
    unfolding decide_channel_def credit_phase [OF wf inv assms(2)] using wf assms(2) by (simp add: reads)
  show ?thesis
  proof (cases "st ?A (i, j) = ROUTING")
    case True
    then have "buf ?A (i, j) \<noteq> []" "isHeader (flit_type_of (hd (buf ?A (i, j))))"
      using I by (auto simp: chan_inv_def phase_ok_def fits_def neq_Nil_conv)
    then show ?thesis using run True wf assms(2) route_header_ok [OF assms True] by (simp add: reads)
  next
    case False
    have "step_ok s (fst s, credited i j s)"
      using progress_credited [OF inv assms(2)] assms(1) by (simp add: step_ok_def)
    then show ?thesis using run False accept_body_ok [OF assms] by simp
  qed
qed

lemma routing_decision_ok:
  assumes "router_inv (fst s)"
  shows "ok (routing_decision s) (step_ok s)"
proof -
  have True: "0 < physic_ports (fst s)" using assms by (simp add: router_inv_def wf_router_def)
  have step: "ok (decide_channel i j t) (step_ok s)" if "step_ok s t" "chan (fst s) (i, j)" for i j t
  proof -
    have "ok (decide_channel i j t) (step_ok t)"
      using that setup_defs(1) [OF step_setup [OF that(1)]] by (intro decide_channel_ok) (simp_all add: step_ok_def)
    then show ?thesis by (rule ok_mono) (rule step_ok_trans [OF that(1)])
  qed
  have "ok (foldM (decide_channel 0) (vcs (fst s)) s) (step_ok s)"
    by (rule foldM_ok) (use assms True step in \<open>simp_all add: step_ok_refl chan_def inside_def\<close>)
  then obtain t where t: "foldM (decide_channel 0) (vcs (fst s)) s = Some t" "step_ok s t" by (auto simp: ok_def)
  have "ok (foldM (\<lambda>i s. foldM (decide_channel i) (vcs (fst s)) s) [1..physic_ports (fst t) - 1] t) (step_ok s)"
  proof (rule foldM_ok)
    fix i u
    assume i: "i \<in> set [1..physic_ports (fst t) - 1]" and u: "step_ok s u"
    show "ok (foldM (decide_channel i) (vcs (fst u)) u) (step_ok s)"
    proof (rule foldM_ok)
      fix j v
      assume j: "j \<in> set (vcs (fst u))" and v: "step_ok s v"
      have "chan (fst s) (i, j)"
        using i j setup_defs(8) [OF step_setup [OF t(2)]] setup_defs(7) [OF step_setup [OF u]] by (simp add: chan_def inside_def)
      then show "ok (decide_channel i j v) (step_ok s)" using step v by blast
    qed (use u in simp)
  qed (use t in simp)
  then show ?thesis by (simp add: routing_decision_def t(1))
qed

section \<open>One cycle\<close>

lemma step_idle: "step_ok s t \<Longrightarrow> ibuff_full (input_module (fst t)) = ibuff_full (input_module (fst s))"
  by (simp add: step_ok_def progress_def steady_def)

lemma step_inv: "step_ok s t \<Longrightarrow> router_inv (fst t)"
  by (simp add: step_ok_def)

lemma router_sim_pwr_ok:
  assumes "router_inv (fst s)" "\<not> ibuff_full (input_module (fst s))" "lucky s"
  shows "ok (router_sim_pwr E k SHARE s) (step_ok s)"
proof -
  obtain t1 where t1: "flit_traversal s = Some t1" "step_ok s t1"
    using flit_traversal_ok [OF assms(1)] by (auto simp: ok_def)
  obtain t2 where t2: "flit_outbuffer E k SHARE t1 = Some t2" "step_ok t1 t2" "\<And>c. chan (fst t2) c \<Longrightarrow> st (abs_router (fst t2)) c \<noteq> SW_TR"
    using flit_outbuffer_ok [OF step_inv [OF t1(2)], of E k] step_idle [OF t1(2)] assms(2) by (auto simp: ok_def)
  have l: "lucky t2" using step_lucky [OF t1(2)] step_lucky [OF t2(2)] assms(3) by simp
  obtain t3 where t3: "sw_arbitration t2 = Some t3" "step_ok t2 t3"
    using sw_arbitration_ok [OF step_inv [OF t2(2)] l t2(3)] by (auto simp: ok_def)
  obtain t4 where t4: "vc_arbitration E SHARE t3 = Some t4" "step_ok t3 t4"
    using vc_arbitration_ok [OF step_inv [OF t3(2)], of E] step_lucky [OF t3(2)] l by (auto simp: ok_def)
  obtain t5 where t5: "routing_decision t4 = Some t5" "step_ok t4 t5"
    using routing_decision_ok [OF step_inv [OF t4(2)]] by (auto simp: ok_def)
  have "step_ok s t5"
    using t1(2) t2(2) t3(2) t4(2) t5(2) by (blast intro: step_ok_trans)
  then show ?thesis by (simp add: router_sim_pwr_def t1(1) t2(1) t3(1) t4(1) t5(1))
qed

end
