(* ===== verification/Popnet_Reach.thy ===== *)
theory Popnet_Reach
  imports Popnet_Invariant
begin

text \<open>
  The rest of a router's life: flits and credits that arrive, packets that are injected, and the states a router
  reaches. The invariant holds in all of them, and the properties of the router follow.
\<close>

section \<open>Flits and credits from the network\<close>

text \<open>The flit that may arrive next: it continues the packet that is open on the channel, or starts one.\<close>

definition accepts :: "sim_router_template \<Rightarrow> chans \<Rightarrow> VC_type \<Rightarrow> flit_template \<Rightarrow> bool" where
  "accepts r A c f \<longleftrightarrow> chan r c \<and> in_link r (fst c) \<and> routable r (des_addr f) \<and>
     (if buf A c \<noteq> [] then fits (after (last (buf A c))) f
      else if st A c = HOME then fits (Some (address r)) f
      else isHeader (flit_type_of f) \<longleftrightarrow> \<not> held r A c)"

definition arrive :: "VC_type \<Rightarrow> flit_template list \<Rightarrow> chans \<Rightarrow> chans" where
  "arrive c fs A = A\<lparr>buf := (buf A)(c := buf A c @ fs), st := (st A)(c :=
     (if buf A c = [] \<and> isHeader (flit_type_of (hd fs)) then ROUTING
      else if st A c = INIT \<and> \<not> isHeader (flit_type_of (hd fs)) then SW_AB else st A c))\<rparr>"

lemma arrive_sel [simp]:
  "buf (arrive c fs A) = (buf A)(c := buf A c @ fs)" "rts (arrive c fs A) = rts A" "cr (arrive c fs A) = cr A"
  "ctr (arrive c fs A) = ctr A" "own (arrive c fs A) = own A" "outs (arrive c fs A) = outs A" "oa (arrive c fs A) = oa A"
  "st (arrive c fs A) = (st A)(c := (if buf A c = [] \<and> isHeader (flit_type_of (hd fs)) then ROUTING
     else if st A c = INIT \<and> \<not> isHeader (flit_type_of (hd fs)) then SW_AB else st A c))"
  "held r (arrive c fs A) = held r A"
  by (simp_all add: arrive_def held_def fun_eq_iff)

lemma arrive_INV:
  assumes inv: "INV r A" and c: "chan r c" "fs \<noteq> []" and ok: "chan_inv r (arrive c fs A) c"
    and free: "buf A c = [] \<Longrightarrow> isHeader (flit_type_of (hd fs)) \<Longrightarrow> \<not> held r A c \<and> st A c \<noteq> SW_TR"
  shows "INV r (arrive c fs A)" (is "INV r ?B")
proof (rule INV_I)
  fix c'
  assume c': "chan r c'"
  note I = INV_D(1) [OF inv c'] and O = INV_D(2) [OF inv c']
  show "chan_inv r ?B c'"
  proof (cases "c' = c")
    case False
    have "phase_ok r ?B c' = phase_ok r A c'" using False by (cases "st A c'") (simp_all add: phase_ok_def)
    moreover have "whole r ?B c' = whole r A c'" using False by (simp add: whole_def)
    ultimately show ?thesis using I False by (simp add: chan_inv_def)
  qed (use ok in simp)
  have "\<not> (buf A c = [] \<and> isHeader (flit_type_of (hd fs)))" if "fst (own A c') = USED" "snd (own A c') = c" "cr A c = c'"
    using that free c' by (cases "own A c'") (auto simp: held_def)
  then show "own_inv r ?B c'" using O by (auto simp: own_inv_def)
next
  show "port_inv r ?B i" if "port r i" for i using INV_D(3) [OF inv that] by (simp add: port_inv_def)
next
  show "exclusive r ?B" by (rule exclusive_mono [OF INV_D(4) [OF inv]]) (auto split: if_splits)
qed

lemma accepted_INV:
  assumes inv: "INV r A" and a: "accepts r A c f"
  shows "INV r (arrive c [f] A)"
proof -
  have c: "chan r c" "in_link r (fst c)" using a by (simp_all add: accepts_def)
  note I = INV_D(1) [OF inv c(1)]
  have p: "fst c \<noteq> 0" using c(2) by (simp add: in_link_def)
  have e: "st A c = INIT \<or> st A c = HOME" if "buf A c = []" using I that by (cases "st A c") (auto simp: chan_inv_def phase_ok_def)
  show ?thesis
  proof (rule arrive_INV [OF inv c(1)])
    have "phase_ok r (arrive c [f] A) c"
    proof (cases "buf A c = []")
      case True
      have "fits None f = isHeader (flit_type_of f)" "fits (Some d) f \<longleftrightarrow> \<not> isHeader (flit_type_of f) \<and> des_addr f = d" for d
        by (simp_all add: fits_def)
      then show ?thesis using True I a e [OF True] by (auto simp: chan_inv_def phase_ok_def accepts_def split: if_splits)
    next
      case False
      then have n: "st A c \<noteq> INIT" "fits (after (last (buf A c))) f" using I a by (auto simp: chan_inv_def phase_ok_def accepts_def)
      then have "seq q (buf A c @ [f]) = seq q (buf A c)" for q using False by (simp add: seq_append)
      then show ?thesis using n(1) False I by (cases "st A c") (simp_all add: chan_inv_def phase_ok_def)
    qed
    then show "chan_inv r (arrive c [f] A) c" using I a p by (auto simp: chan_inv_def accepts_def)
    show "\<not> held r A c \<and> st A c \<noteq> SW_TR" if "buf A c = []" "isHeader (flit_type_of (hd [f]))"
      using I a e that by (auto simp: accepts_def fits_def chan_inv_def phase_ok_def)
  qed simp
qed

lemma receive_flit_ok:
  assumes "router_inv (fst s)" "accepts (fst s) (abs_router (fst s)) (a, b) f"
  shows "ok (receive_flit a b f s) (\<lambda>s'. router_inv (fst s') \<and> steady s s' \<and> snd s' = snd s \<and> flits (fst s') = add_mset f (flits (fst s)) \<and>
      abs_router (fst s') = arrive (a, b) [f] (abs_router (fst s)))"
proof -
  let ?A = "abs_router (fst s)"
  have wf: "wf_router (fst s)" and inv: "INV (fst s) ?A" using assms(1) by (simp_all add: router_inv_def)
  have c: "chan (fst s) (a, b)" using assms(2) by (simp add: accepts_def)
  define rt where "rt = log_power (power_buffer_write a (flit_data f)) (set_buf (a, b) (buf ?A (a, b) @ [f]) (fst s))"
  have rt: "wf_router rt" "chan rt = chan (fst s)" "same_setup (fst s) rt" "ibuff_full (input_module rt) = ibuff_full (input_module (fst s))"
    "flits rt = add_mset f (flits (fst s))" "abs_router rt = ?A\<lparr>buf := (buf ?A)((a, b) := buf ?A (a, b) @ [f])\<rparr>"
    using wf c flits_push_buf [OF wf c, of f] by (simp_all add: rt_def)
  define rt' where "rt' = (if buf ?A (a, b) = [] \<and> isHeader (flit_type_of f) then set_st (a, b) ROUTING rt
     else if st ?A (a, b) = INIT \<and> \<not> isHeader (flit_type_of f) then set_st (a, b) SW_AB rt else rt)"
  have run: "receive_flit a b f s = Some (rt', snd s)"
    using c wf by (auto simp: receive_flit_def runs reads rt_def rt'_def Let_def)
  have absr: "abs_router rt' = arrive (a, b) [f] ?A" and rt': "wf_router rt'" "same_setup (fst s) rt'"
    "ibuff_full (input_module rt') = ibuff_full (input_module (fst s))" "flits rt' = add_mset f (flits (fst s))"
    using rt c by (cases ?A; auto simp: rt'_def arrive_def)+
  then show ?thesis
    using accepted_INV [OF inv assms(2)] INV_setup [OF rt'(2)] by (simp add: run router_inv_def steady_def)
qed

lemma receive_credit_ok:
  assumes "router_inv (fst s)" "chan (fst s) (a, b)"
  shows "ok (receive_credit a b s) (\<lambda>s'. router_inv (fst s') \<and> steady s s' \<and> snd s' = snd s \<and> flits (fst s') = flits (fst s) \<and>
      abs_router (fst s') = (abs_router (fst s))\<lparr>ctr := (ctr (abs_router (fst s)))((a, b) := ctr (abs_router (fst s)) (a, b) + 1)\<rparr>)"
proof -
  let ?A = "abs_router (fst s)"
  let ?B = "?A\<lparr>ctr := (ctr ?A)((a, b) := ctr ?A (a, b) + 1)\<rparr>"
  have wf: "wf_router (fst s)" and inv: "INV (fst s) ?A" using assms(1) by (simp_all add: router_inv_def)
  have "INV (fst s) ?B"
  proof (rule INV_I)
    fix c
    assume c: "chan (fst s) c"
    show "chan_inv (fst s) ?B c" using INV_D(1) [OF inv c]
      by (cases "st ?A c") (auto simp: chan_inv_def phase_ok_def held_def whole_def)
    show "own_inv (fst s) ?B c" using INV_D(2) [OF inv c] by (auto simp: own_inv_def)
  next
    show "port_inv (fst s) ?B i" if "port (fst s) i" for i using INV_D(3) [OF inv that] by (simp add: port_inv_def)
  next
    show "exclusive (fst s) ?B" by (rule exclusive_mono [OF INV_D(4) [OF inv]]) simp
  qed
  moreover have "INV (set_ctr (a, b) (ctr ?A (a, b) + 1) (fst s)) = INV (fst s)" by (rule INV_setup) simp
  ultimately show ?thesis
    using wf assms(2) by (simp add: receive_credit_def runs router_inv_def steady_def)
qed

section \<open>Injection\<close>

lemma foldM_upto:
  assumes "a \<le> e" "I a s" "\<And>l s. a \<le> l \<Longrightarrow> l < e \<Longrightarrow> I l s \<Longrightarrow> ok (f l s) (I (l + 1))"
  shows "ok (foldM f [a..e - 1] s) (I e)"
  using assms
proof (induction "nat (e - a)" arbitrary: a s)
  case (Suc n)
  then have "a < e" by simp
  then have u: "[a..e - 1] = a # [a + 1..e - 1]" by (simp add: upto_rec1)
  obtain t where t: "f a s = Some t" "I (a + 1) t" using Suc.prems(3) [of a s] \<open>a < e\<close> Suc.prems(2) by (auto simp: ok_def)
  have "ok (foldM f [a + 1..e - 1] t) (I e)"
    using Suc.hyps(2) \<open>a < e\<close> t Suc.prems(3) by (intro Suc.hyps(1)) auto
  then show ?case by (simp add: u t(1))
qed auto

text \<open>Between two flits of a packet only the data source and the generator change.\<close>

definition fresh_data :: "rs \<Rightarrow> rs \<Rightarrow> bool" where
  "fresh_data s s' \<longleftrightarrow> (\<exists>xs. fst s' = (fst s)\<lparr>init_data := xs\<rparr> \<and> length xs = length (init_data (fst s))) \<and>
     mess_q (snd s') = mess_q (snd s) \<and> draws (srgen (snd s')) = draws (srgen (snd s))"

lemma flat_ull_defined:
  assumes "draws g (drawn g) < RAND_MAX"
  shows "\<exists>v. flat_ull 0 MAX_64 g = Some (v, g\<lparr>drawn := Suc (drawn g)\<rparr>)"
proof -
  define a where "a = real (draws g (drawn g)) * 1.0 / real RAND_MAX"
  have a: "0 \<le> a" "a < 1" using assms by (simp_all add: a_def RAND_MAX_def)
  define x where "x = dbl64 (MAX_64 - 0) * a + dbl64 0"
  have m: "dbl64 (MAX_64 - 0) = 18446744073709551615" "dbl64 0 = 0" "unat MAX_64 = 18446744073709551615"
    by (simp_all add: MAX_64_def)
  have "0 \<le> x" "x < 18446744073709551615" using a by (simp_all add: x_def m)
  then have "0 \<le> \<lfloor>x\<rfloor>" "\<lfloor>x\<rfloor> < int (unat MAX_64)" by (simp_all add: m floor_less_iff)
  then show ?thesis
    unfolding flat_ull_def sflat01_def Let_def prod.case a_def [symmetric] x_def [symmetric] by (simp add: MAX_64_def)
qed

lemma gen_data_ok:
  assumes "lucky s" "int (length (init_data (fst s))) = flit_size (fst s)"
  shows "ok (gen_data E s) (\<lambda>(s', d). fresh_data s s')"
  unfolding gen_data_def
proof (rule foldM_ok)
  have "fst s = (fst s)\<lparr>init_data := init_data (fst s)\<rparr>" by (cases "fst s") simp
  then show "case (s, []) of (s', d) \<Rightarrow> fresh_data s s'"
    unfolding fresh_data_def by (auto intro!: exI [of _ "init_data (fst s)"])
next
  fix i :: int and sd :: "rs \<times> Data_type"
  assume i: "i \<in> set [0..flit_size (fst s) - 1]" and sd: "case sd of (s', d) \<Rightarrow> fresh_data s s'"
  obtain t d where t: "sd = (t, d)" by (cases sd)
  then obtain xs where xs: "fst t = (fst s)\<lparr>init_data := xs\<rparr>" "length xs = length (init_data (fst s))"
      "mess_q (snd t) = mess_q (snd s)" "draws (srgen (snd t)) = draws (srgen (snd s))"
    using sd by (auto simp: fresh_data_def)
  obtain v where v: "flat_ull 0 MAX_64 (srgen (snd t)) = Some (v, (srgen (snd t))\<lparr>drawn := Suc (drawn (srgen (snd t)))\<rparr>)"
    using flat_ull_defined [of "srgen (snd t)"] assms(1) xs(4) by (auto simp: lucky_def)
  have "0 \<le> i" "i < int (length xs)" using i assms(2) xs(2) by auto
  then show "ok (gen_word E i sd) (\<lambda>(s', d). fresh_data s s')"
    using v xs by (simp add: t gen_word_def draw_ull_def vat_look vupd_put Let_def fresh_data_def) (metis length_put)
qed

lemma fresh_same:
  assumes "fresh_data s s'"
  shows "abs_router (fst s') = abs_router (fst s)" "wf_router (fst s') = wf_router (fst s)" "chan (fst s') = chan (fst s)"
    "same_setup a (fst s') = same_setup a (fst s)" "flits (fst s') = flits (fst s)" "input_module (fst s') = input_module (fst s)"
    "lucky s' = lucky s" "length (init_data (fst s')) = length (init_data (fst s))" "flit_size (fst s') = flit_size (fst s)"
    "mess_q (snd s') = mess_q (snd s)" "draws (srgen (snd s')) = draws (srgen (snd s))" "vc_number (fst s') = vc_number (fst s)"
  using assms
  by (auto simp: fresh_data_def abs_router_def shape_defs same_setup_def flits_def lucky_def fun_eq_iff)

lemma shortest_vc_ok:
  assumes "wf_router rt" "1 \<le> vc_number rt"
  shows "ok (shortest_vc rt) (\<lambda>v. chan rt (0, fst v))"
proof -
  have c: "chan rt (0, j)" if "j \<in> set (vcs rt)" for j using assms that by (simp add: chan_def inside_def wf_router_def)
  have z: "chan rt (0, 0)" using assms by (simp add: chan_def inside_def wf_router_def)
  have "ok (foldM (\<lambda>i vc_t. do {
       q \<leftarrow> input_at 0 i (input_module rt);
       let t = int (length q);
       Some (if snd vc_t > t then (i, t) else vc_t)
     }) (vcs rt) (0, int (length (buf (abs_router rt) (0, 0))))) (\<lambda>v. chan rt (0, fst v))"
    by (rule foldM_ok) (use assms(1) c z in \<open>auto simp: reads Let_def\<close>)
  then show ?thesis using assms(1) z by (simp add: shortest_vc_def reads)
qed

text \<open>The first \<open>l\<close> flits of a packet of \<open>e\<close> flits.\<close>

definition packet_part :: "int \<Rightarrow> add_type \<Rightarrow> add_type \<Rightarrow> time_type \<Rightarrow> int \<Rightarrow> int \<Rightarrow> flit_template list \<Rightarrow> bool" where
  "packet_part a b c d e l fs \<longleftrightarrow> int (length fs) = l \<and> seq None fs \<and>
     (\<forall>f \<in> set fs. flit_id f = a \<and> sor_addr f = b \<and> des_addr f = c \<and> start_time f = d) \<and>
     (0 < l \<longrightarrow> after (last fs) = (if l = e then None else Some c))"

lemma packet_part_next:
  assumes "packet_part a b c d e l fs" "0 \<le> l" "l < e"
    and f: "f = mk_flit a (if l = 0 then if e = 1 then SINGLE else HEADER else if l = e - 1 then TAIL else BODY) b c d dat"
  shows "packet_part a b c d e (l + 1) (fs @ [f])"
proof -
  have "fs = [] \<longleftrightarrow> l = 0" using assms(1) by (auto simp: packet_part_def)
  then show ?thesis
    using assms by (auto simp: packet_part_def seq_append fits_def mk_flit_def after_def isHeader_def isTail_def)
qed

definition injected :: "rs \<Rightarrow> rs \<Rightarrow> bool" where
  "injected s t \<longleftrightarrow> wf_router (fst t) \<and> same_setup (fst s) (fst t) \<and> mess_q (snd t) = mess_q (snd s) \<and>
     draws (srgen (snd t)) = draws (srgen (snd s)) \<and> flit_size (fst t) = flit_size (fst s) \<and>
     length (init_data (fst t)) = length (init_data (fst s))"

definition injecting :: "rs \<Rightarrow> int \<Rightarrow> add_type \<Rightarrow> add_type \<Rightarrow> time_type \<Rightarrow> int \<Rightarrow> int \<Rightarrow> rs \<times> int \<Rightarrow> bool" where
  "injecting s a b c d e l tv \<longleftrightarrow> (\<exists>fs. packet_part a b c d e l fs \<and> injected s (fst tv) \<and> flits (fst (fst tv)) = flits (fst s) + mset fs \<and>
     (if l = 0 then abs_router (fst (fst tv)) = abs_router (fst s)
      else chan (fst s) (0, snd tv) \<and> abs_router (fst (fst tv)) = arrive (0, snd tv) fs (abs_router (fst s))))"

lemma set_full_same [simp]:
  fixes rt :: sim_router_template and b :: bool
  defines "rt' \<equiv> rt\<lparr>input_module := (input_module rt)\<lparr>ibuff_full := b\<rparr>\<rparr>"
  shows "abs_router rt' = abs_router rt" "wf_router rt' = wf_router rt" "chan rt' = chan rt" "same_setup a rt' = same_setup a rt"
    "flits rt' = flits rt" "init_data rt' = init_data rt" "flit_size rt' = flit_size rt"
  by (auto simp: rt'_def abs_router_def shape_defs same_setup_def flits_def fun_eq_iff)

lemma data_set [simp]:
  "init_data (set_buf c v1 rt) = init_data rt" "init_data (set_st c v2 rt) = init_data rt" "init_data (log_power p rt) = init_data rt"
  "flit_size (set_buf c v1 rt) = flit_size rt" "flit_size (set_st c v2 rt) = flit_size rt" "flit_size (log_power p rt) = flit_size rt"
  by (simp_all add: set_defs log_power_def)

lemma inject_header_ok:
  assumes "wf_router (fst t)" "1 \<le> vc_number (fst t)" "isHeader (flit_type_of f)"
  shows "ok (inject_header f t) (\<lambda>(t', v). injected t t' \<and> chan (fst t) (0, v) \<and> flits (fst t') = add_mset f (flits (fst t)) \<and>
      abs_router (fst t') = arrive (0, v) [f] (abs_router (fst t)))"
proof -
  from shortest_vc_ok [OF assms(1,2)] obtain w where w: "shortest_vc (fst t) = Some w" "chan (fst t) (0, fst w)"
    by (auto simp: ok_def)
  let ?A = "abs_router (fst t)"
  let ?c = "(0, fst w)"
  define rt1 where "rt1 = (if buf ?A ?c = [] then set_st ?c ROUTING (fst t) else fst t)"
  define rt2 where "rt2 = (if length (buf ?A ?c) > 100 then rt1\<lparr>input_module := (input_module rt1)\<lparr>ibuff_full := True\<rparr>\<rparr> else rt1)"
  have rt1: "wf_router rt1" "chan rt1 = chan (fst t)" "same_setup (fst t) rt1" "flits rt1 = flits (fst t)" "init_data rt1 = init_data (fst t)"
    "flit_size rt1 = flit_size (fst t)" "buf (abs_router rt1) = buf ?A" "abs_router rt1 = (if buf ?A ?c = [] then ?A\<lparr>st := (st ?A)(?c := ROUTING)\<rparr> else ?A)"
    using assms(1) w(2) by (simp_all add: rt1_def)
  have rt2: "wf_router rt2" "chan rt2 = chan (fst t)" "same_setup (fst t) rt2" "flits rt2 = flits (fst t)" "init_data rt2 = init_data (fst t)"
    "flit_size rt2 = flit_size (fst t)" "abs_router rt2 = (if buf ?A ?c = [] then ?A\<lparr>st := (st ?A)(?c := ROUTING)\<rparr> else ?A)"
    using rt1 by (simp_all add: rt2_def)
  have b: "buf (abs_router rt2) ?c = buf ?A ?c" using rt2(7) by simp
  have run: "inject_header f t = Some ((set_buf ?c (buf ?A ?c @ [f]) rt2, snd t), fst w)"
  proof -
    have "(if length (buf ?A ?c) = 0 then on_input (state_update 0 (fst w) ROUTING) t else Some t) = Some (rt1, snd t)"
      using assms(1) w(2) by (simp add: runs rt1_def)
    moreover have "(if length (buf ?A ?c) > 100 then on_input (\<lambda>m. Some (m\<lparr>ibuff_full := True\<rparr>)) (rt1, snd t) else Some (rt1, snd t)) = Some (rt2, snd t)"
      by (simp add: on_input_def rt2_def)
    moreover have "on_input (input_add_flit 0 (fst w) f) (rt2, snd t) = Some (set_buf ?c (buf ?A ?c @ [f]) rt2, snd t)"
      using rt2(1,2) w(2) b by (simp add: runs)
    ultimately show ?thesis
      unfolding inject_header_def w(1) Let_def using assms(1) w(2) by (simp add: reads)
  qed
  have "flits (set_buf ?c (buf ?A ?c @ [f]) rt2) = add_mset f (flits (fst t))"
    using flits_push_buf [of rt2 ?c f] rt2(1,2,4) w(2) b by simp
  then show ?thesis
    using rt2 w(2) assms(3) by (simp add: run injected_def arrive_def)
qed

lemma arrive_arrive:
  assumes "fs \<noteq> []" "isHeader (flit_type_of (hd fs))"
  shows "(arrive c fs A)\<lparr>buf := (buf (arrive c fs A))(c := buf (arrive c fs A) c @ gs)\<rparr> = arrive c (fs @ gs) A"
  using assms by (simp add: arrive_def)

lemma injected_trans: "injected s t \<Longrightarrow> injected t u \<Longrightarrow> injected s u"
  by (auto simp: injected_def intro: same_setup_trans)

lemma fresh_injected: "wf_router (fst s) \<Longrightarrow> fresh_data s t \<Longrightarrow> injected s t"
  by (simp add: injected_def fresh_same [of s t])

lemma inject_flit_ok:
  assumes s: "lucky s" "int (length (init_data (fst s))) = flit_size (fst s)" "1 \<le> vc_number (fst s)"
    and l: "0 \<le> l" "l < e" and I: "injecting s a b c d e l tv"
  shows "ok (inject_flit E a b c d e l tv) (injecting s a b c d e (l + 1))"
proof -
  obtain t v where tv: "tv = (t, v)" by (cases tv)
  from I obtain fs where fs: "packet_part a b c d e l fs" "injected s t" "flits (fst t) = flits (fst s) + mset fs"
      "l = 0 \<Longrightarrow> abs_router (fst t) = abs_router (fst s)"
      "l \<noteq> 0 \<Longrightarrow> chan (fst s) (0, v) \<and> abs_router (fst t) = arrive (0, v) fs (abs_router (fst s))"
    by (auto simp: injecting_def tv split: if_splits)
  have t: "wf_router (fst t)" "same_setup (fst s) (fst t)" "lucky t" "int (length (init_data (fst t))) = flit_size (fst t)"
    using fs(2) s by (auto simp: injected_def lucky_def)
  from gen_data_ok [OF t(3,4), of E] obtain u dat where u: "gen_data E t = Some (u, dat)" "fresh_data t u"
    by (auto simp: ok_def)
  note su = fresh_same [OF u(2)]
  have wu: "wf_router (fst u)" and iu: "injected s u" using t(1) su(2) injected_trans [OF fs(2) fresh_injected [OF t(1) u(2)]] by simp_all
  have vc: "1 \<le> vc_number (fst u)" "chan (fst u) = chan (fst s)"
    using s(3) su(3,12) setup_defs(1,7) [OF t(2)] by simp_all
  define f where "f = mk_flit a (if l = 0 then if e = 1 then SINGLE else HEADER else if l = e - 1 then TAIL else BODY) b c d dat"
  have pp: "packet_part a b c d e (l + 1) (fs @ [f])" using packet_part_next [OF fs(1) l] f_def by simp
  show ?thesis
  proof (cases "l = 0")
    case True
    then have "isHeader (flit_type_of f)" by (simp add: f_def mk_flit_def isHeader_def)
    from inject_header_ok [OF wu vc(1) this] obtain w x where w: "inject_header f u = Some (w, x)" "injected u w" "chan (fst u) (0, x)"
        "flits (fst w) = add_mset f (flits (fst u))" "abs_router (fst w) = arrive (0, x) [f] (abs_router (fst u))"
      by (auto simp: ok_def)
    have "inject_flit E a b c d e l tv = Some ((log_power (power_buffer_write 0 dat) (fst w), snd w), x)"
      using w(1) u(1) True by (simp add: inject_flit_def tv f_def)
    moreover have "injecting s a b c d e (l + 1) ((log_power (power_buffer_write 0 dat) (fst w), snd w), x)"
    proof -
      have "fs = []" using fs(1) True by (simp add: packet_part_def)
      moreover have "injected s (log_power (power_buffer_write 0 dat) (fst w), snd w)"
        using injected_trans [OF iu w(2)] by (simp add: injected_def)
      ultimately show ?thesis
        using w vc(2) su(1,5) fs(3,4) True pp by (auto simp: injecting_def intro!: exI [of _ "[f]"])
    qed
    ultimately show ?thesis by simp
  next
    case False
    then have c: "chan (fst s) (0, v)" and A: "abs_router (fst t) = arrive (0, v) fs (abs_router (fst s))" using fs(5) by simp_all
    have ne: "fs \<noteq> []" using fs(1) False l(1) by (auto simp: packet_part_def)
    have hd: "isHeader (flit_type_of (hd fs))" using fs(1) ne by (cases fs) (auto simp: packet_part_def fits_def)
    define w where "w = (log_power (power_buffer_write 0 dat) (set_buf (0, v) (buf (abs_router (fst u)) (0, v) @ [f]) (fst u)), snd u)"
    have cu: "chan (fst u) (0, v)" using c vc(2) by simp
    have "inject_flit E a b c d e l tv = Some (w, v)"
      using u(1) False wu cu by (simp add: inject_flit_def tv f_def runs w_def)
    moreover have "injected s w" using iu wu cu by (simp add: injected_def w_def)
    moreover have "flits (fst w) = flits (fst s) + mset (fs @ [f])"
      using flits_push_buf [OF wu cu, of f] su(5) fs(3) by (simp add: w_def)
    moreover have "abs_router (fst w) = arrive (0, v) (fs @ [f]) (abs_router (fst s))"
    proof -
      have "abs_router (fst w) = (abs_router (fst u))\<lparr>buf := (buf (abs_router (fst u)))((0, v) := buf (abs_router (fst u)) (0, v) @ [f])\<rparr>"
        using wu cu by (simp add: w_def)
      then show ?thesis unfolding su(1) A by (simp only: arrive_arrive [OF ne hd])
    qed
    ultimately show ?thesis using pp c False l by (auto simp: injecting_def intro!: exI [of _ "fs @ [f]"])
  qed
qed

lemma inject_packet_ok:
  assumes s: "router_inv (fst s)" "lucky s" "int (length (init_data (fst s))) = flit_size (fst s)" "1 \<le> vc_number (fst s)"
    and p: "valid_addr (ary_size (fst s)) b" "valid_addr (ary_size (fst s)) c" "routable (fst s) c" "1 \<le> e"
  shows "ok (inject_packet E a b c d e s) (\<lambda>s'. router_inv (fst s') \<and> injected s s' \<and>
      (\<exists>fs. packet_part a b c d e e fs \<and> flits (fst s') = flits (fst s) + mset fs))"
proof -
  have wf: "wf_router (fst s)" and inv: "INV (fst s) (abs_router (fst s))" using s(1) by (simp_all add: router_inv_def)
  have "ok (foldM (inject_flit E a b c d e) [0..e - 1] (s, 0)) (injecting s a b c d e e)"
  proof (rule foldM_upto [where I = "injecting s a b c d e"])
    show "injecting s a b c d e 0 (s, 0)"
      using wf by (auto simp: injecting_def packet_part_def injected_def intro!: exI [of _ "[]"])
  qed (use p inject_flit_ok [OF s(2-4)] in auto)
  then obtain t v where t: "foldM (inject_flit E a b c d e) [0..e - 1] (s, 0) = Some (t, v)" "injecting s a b c d e e (t, v)"
    by (auto simp: ok_def)
  then obtain fs where fs: "packet_part a b c d e e fs" "injected s t" "flits (fst t) = flits (fst s) + mset fs"
      "chan (fst s) (0, v)" "abs_router (fst t) = arrive (0, v) fs (abs_router (fst s))"
    using p(4) by (auto simp: injecting_def)
  have run: "inject_packet E a b c d e s = Some t"
    using p(1,2) t(1) by (auto simp: inject_packet_def valid_addr_def list_ex_iff)
  have ne: "fs \<noteq> []" "seq None fs" "after (last fs) = None" using fs(1) p(4) by (auto simp: packet_part_def)
  then have hd: "isHeader (flit_type_of (hd fs))" "isTail (flit_type_of (last fs))"
    by (auto simp: after_def fits_def neq_Nil_conv split: if_splits)
  let ?A = "abs_router (fst s)"
  note I = INV_D(1) [OF inv fs(4)]
  have "INV (fst s) (arrive (0, v) fs ?A)"
  proof (rule arrive_INV [OF inv fs(4) ne(1)])
    have w: "whole (fst s) ?A (0, v)" using I by (simp add: chan_inv_def)
    have "phase_ok (fst s) (arrive (0, v) fs ?A) (0, v)"
    proof (cases "buf ?A (0, v) = []")
      case True
      then show ?thesis using w ne hd by (simp add: phase_ok_def whole_def)
    next
      case False
      then have "after (last (buf ?A (0, v))) = None" using w by (simp add: whole_def after_def)
      then have "seq q (buf ?A (0, v) @ fs) = seq q (buf ?A (0, v))" for q using False ne by (simp add: seq_append)
      then show ?thesis using False I hd by (cases "st ?A (0, v)") (simp_all add: chan_inv_def phase_ok_def)
    qed
    moreover have "\<forall>f \<in> set fs. routable (fst s) (des_addr f)" using fs(1) p(3) by (auto simp: packet_part_def)
    ultimately show "chan_inv (fst s) (arrive (0, v) fs ?A) (0, v)"
      using I ne hd by (auto simp: chan_inv_def whole_def)
    show "\<not> held (fst s) ?A (0, v) \<and> st ?A (0, v) \<noteq> SW_TR" if "buf ?A (0, v) = []" using w that by (simp add: whole_def)
  qed
  moreover have "same_setup (fst s) (fst t)" "wf_router (fst t)" using fs(2) by (simp_all add: injected_def)
  ultimately have "router_inv (fst t)" using fs(5) INV_setup by (simp add: router_inv_def)
  then show ?thesis using fs by (auto simp: run)
qed

section \<open>Reachable routers\<close>

lemma look2_replicate: "inside (int n) (int m) c \<Longrightarrow> look2 (replicate n (replicate m x)) c = x"
  by (cases c) (auto simp: look2_def vat2_replicate inside_def)

lemma look_replicate: "0 \<le> i \<Longrightarrow> i < int n \<Longrightarrow> look (replicate n x) i = x"
  by (simp add: look_def vat_def)

lemma foldM_snoc_length:
  assumes "\<And>x d r p. f x (d, r) = Some p \<Longrightarrow> length (fst p) = Suc (length d)" "foldM f xs (d, r) = Some p"
  shows "length (fst p) = length d + length xs"
  using assms(2)
proof (induction xs arbitrary: d r)
  case (Cons x xs)
  then obtain q where q: "f x (d, r) = Some q" "foldM f xs q = Some p" by (auto split: bind_splits)
  obtain d' r' where qq: "q = (d', r')" by (cases q)
  have "length (fst p) = length d' + length xs" by (rule Cons.IH) (use q(2) qq in simp)
  then show ?case using assms(1) [OF q(1)] qq by simp
qed auto

lemma init_words_length: "init_words g r = Some (d, r') \<Longrightarrow> 0 \<le> g \<Longrightarrow> int (length d) = g"
  unfolding init_words_def
  by (drule foldM_snoc_length [rotated]) (auto split: bind_splits)

lemma sim_router_init_inv:
  assumes init: "sim_router_init a b c d e f g alg file r = Some (rt, r')" and dims: "1 \<le> a" "0 \<le> b" "0 \<le> c" "0 \<le> d" "0 \<le> g"
  shows "router_inv rt" "flits rt = {#}" "int (length (init_data rt)) = flit_size rt" "vc_number rt = b" "\<not> ibuff_full (input_module rt)"
proof -
  from init obtain dat algorithm where rt: "init_words g r = Some (dat, r')" "address rt = e" "input_module rt = input_template_init a b"
      "output_module rt = output_template_init a b c d" "physic_ports rt = a" "vc_number rt = b" "outbuffer_size rt = d"
      "init_data rt = dat" "flit_size rt = g" "routing_alg rt = algorithm"
    by (auto simp: sim_router_init_def split: bind_splits)
  show "int (length (init_data rt)) = flit_size rt" using init_words_length [OF rt(1) dims(5)] rt by simp
  show "vc_number rt = b" "\<not> ibuff_full (input_module rt)" using rt by (simp_all add: input_template_init_def)
  show "flits rt = {#}" by (auto simp: flits_def rt input_template_init_def output_template_init_def)
  have wf: "wf_router rt"
    using dims by (simp add: shape_defs rt input_template_init_def output_template_init_def)
  have A: "buf (abs_router rt) x = []" "st (abs_router rt) x = INIT" "ctr (abs_router rt) x = c" "own (abs_router rt) x = (FREE, VC_NULL)"
    if "chan rt x" for x
    using that dims
    by (simp_all add: abs_router_def rt input_template_init_def output_template_init_def chan_def look2_replicate)
  have P: "outs (abs_router rt) i = ([], d)" "oa (abs_router rt) i = []" if "port rt i" for i
    using that dims by (simp_all add: abs_router_def rt output_template_init_def port_def look_replicate)
  have h: "\<not> held rt (abs_router rt) x" for x using A(4) by (auto simp: held_def)
  have "INV rt (abs_router rt)"
  proof (rule INV_I)
    fix x
    assume x: "chan rt x"
    show "chan_inv rt (abs_router rt) x" using A [OF x] h by (simp add: chan_inv_def phase_ok_def whole_def)
    show "own_inv rt (abs_router rt) x" using A [OF x] dims by (simp add: own_inv_def)
  next
    show "port_inv rt (abs_router rt) i" if "port rt i" for i using P [OF that] dims rt by (simp add: port_inv_def)
  next
    show "exclusive rt (abs_router rt)"
      unfolding exclusive_def
    proof (intro allI impI)
      fix x y
      assume "chan rt x \<and> chan rt y \<and> st (abs_router rt) x = SW_TR \<and> st (abs_router rt) y = SW_TR \<and>
        fst (cr (abs_router rt) x) = fst (cr (abs_router rt) y)"
      then show "x = y" using A(2) [of x] by simp
    qed
  qed
  then show "router_inv rt" using wf by (simp add: router_inv_def)
qed

text \<open>
  A router as its environment drives it. The other routers and the event loop may change the shared
  state arbitrarily between two operations; a flit arrives only if it continues the sequence of packets on its
  channel; credits are for existing channels; packets are injected between existing routers.
\<close>

inductive router_reach :: "popnet_env \<Rightarrow> nat \<Rightarrow> rs \<Rightarrow> bool" for E k where
  reach_init: "sim_router_init a b c d e f g alg file r = Some (rt, r') \<Longrightarrow> 1 \<le> a \<Longrightarrow> 1 \<le> b \<Longrightarrow> 0 \<le> c \<Longrightarrow> 0 \<le> d \<Longrightarrow> 0 \<le> g \<Longrightarrow>
    router_reach E k (rt, sh)"
| reach_other: "router_reach E k s \<Longrightarrow> router_reach E k (fst s, sh)"
| reach_cycle: "router_reach E k s \<Longrightarrow> \<not> ibuff_full (input_module (fst s)) \<Longrightarrow> lucky s \<Longrightarrow>
    router_sim_pwr E k SHARE s = Some s' \<Longrightarrow> router_reach E k s'"
| reach_flit: "router_reach E k s \<Longrightarrow> accepts (fst s) (abs_router (fst s)) (a, b) fl \<Longrightarrow> receive_flit a b fl s = Some s' \<Longrightarrow>
    router_reach E k s'"
| reach_credit: "router_reach E k s \<Longrightarrow> chan (fst s) (a, b) \<Longrightarrow> receive_credit a b s = Some s' \<Longrightarrow> router_reach E k s'"
| reach_inject: "router_reach E k s \<Longrightarrow> lucky s \<Longrightarrow> routable (fst s) c \<Longrightarrow> 1 \<le> e \<Longrightarrow>
    inject_packet E a b c d e s = Some s' \<Longrightarrow> router_reach E k s'"

lemma inject_packet_valid:
  "inject_packet E a b c d e s = Some s' \<Longrightarrow> valid_addr (ary_size (fst s)) b \<and> valid_addr (ary_size (fst s)) c"
  by (auto simp: inject_packet_def valid_addr_def list_ex_iff split: if_splits)

lemma ok_Some_D: "ok r Q \<Longrightarrow> r = Some x \<Longrightarrow> Q x"
  by (simp add: ok_def)

definition good_router :: "sim_router_template \<Rightarrow> bool" where
  "good_router rt \<longleftrightarrow> router_inv rt \<and> int (length (init_data rt)) = flit_size rt \<and> 1 \<le> vc_number rt"

lemma good_setup: "good_router a \<Longrightarrow> same_setup a b \<Longrightarrow> router_inv b \<Longrightarrow> good_router b"
  by (simp add: good_router_def same_setup_def)

lemma reach_good: "router_reach E k s \<Longrightarrow> good_router (fst s)"
proof (induction rule: router_reach.induct)
  case reach_init
  then show ?case using sim_router_init_inv [OF reach_init.hyps(1)] by (simp add: good_router_def)
next
  case (reach_cycle s s')
  have "step_ok s s'"
    using ok_Some_D [OF router_sim_pwr_ok [OF _ reach_cycle.hyps(2,3)] reach_cycle.hyps(4)] reach_cycle.IH by (simp add: good_router_def)
  then show ?case using good_setup [OF reach_cycle.IH step_setup] by (simp add: step_ok_def)
next
  case (reach_flit s a b fl s')
  have "router_inv (fst s') \<and> steady s s'"
    using ok_Some_D [OF receive_flit_ok [OF _ reach_flit.hyps(2)] reach_flit.hyps(3)] reach_flit.IH by (simp add: good_router_def)
  then show ?case using good_setup [OF reach_flit.IH] by (simp add: steady_def)
next
  case (reach_credit s a b s')
  have "router_inv (fst s') \<and> steady s s'"
    using ok_Some_D [OF receive_credit_ok [OF _ reach_credit.hyps(2)] reach_credit.hyps(3)] reach_credit.IH by (simp add: good_router_def)
  then show ?case using good_setup [OF reach_credit.IH] by (simp add: steady_def)
next
  case (reach_inject s c e a b d s')
  note v = inject_packet_valid [OF reach_inject.hyps(5)]
  have "router_inv (fst s') \<and> injected s s'"
    using ok_Some_D [OF inject_packet_ok [OF _ reach_inject.hyps(2) _ _ v [THEN conjunct1] v [THEN conjunct2] reach_inject.hyps(3,4)] reach_inject.hyps(5)]
      reach_inject.IH by (simp add: good_router_def)
  then show ?case using good_setup [OF reach_inject.IH] by (simp add: injected_def)
qed simp

lemmas reach_inv = reach_good [unfolded good_router_def, THEN conjunct1]

section \<open>Properties\<close>

lemma wf_reads_chan:
  assumes "wf_router rt" "vat2 xs i j = Some x" "shape xs (physic_ports rt) (vc_number rt)"
  shows "chan rt (i, j)"
  using vat2_shape [OF assms(3), of i j] assms(2) by (simp add: chan_def inside_def)

lemma state_at_chan: "wf_router rt \<Longrightarrow> state_at i j (input_module rt) = Some x \<Longrightarrow> chan rt (i, j)"
  unfolding state_at_def by (rule wf_reads_chan) (auto simp: shape_defs)

lemma counter_at_chan: "wf_router rt \<Longrightarrow> counter_at i j (output_module rt) = Some x \<Longrightarrow> chan rt (i, j)"
  unfolding counter_at_def by (rule wf_reads_chan) (auto simp: shape_defs)

lemma localcounter_at_port: "wf_router rt \<Longrightarrow> localcounter_at i (output_module rt) = Some l \<Longrightarrow> port rt i"
  by (auto simp: localcounter_at_def vat_def shape_defs split: if_splits)

text \<open>
  A router for the witnesses: address (0,0) of a torus, ports 0 to 2, two virtual channels, and a single-flit
  packet for (1,0) that has arrived on port 1.
\<close>

definition example_shared :: sim_shared where
  "example_shared = \<lparr>mess_q = mess_queue_init 0, srgen = \<lparr>draws = (\<lambda>_. 0), drawn = 0\<rparr>, delay_info = []\<rparr>"

definition example_router :: sim_router_template where
  "example_router = fst (the (sim_router_init 3 2 4 4 [0, 0] 4 0 1 None (srgen example_shared)))"

definition example_flit :: flit_template where
  "example_flit = mk_flit 0 SINGLE [3, 0] [1, 0] 0 []"

definition example_env :: popnet_env where
  "example_env = \<lparr>cast64 = (\<lambda>_. 0), mask_past = (\<lambda>_. 0)\<rparr>"

lemma example_init: "sim_router_init 3 2 4 4 [0, 0] 4 0 1 None (srgen example_shared) = Some (example_router, srgen example_shared)"
  by (simp add: example_router_def sim_router_init_def init_words_def routing_alg_of_def)

lemma example_router_eq:
  "example_router =
     \<lparr>address = [0, 0],
      input_module = \<lparr>in_input = [[[], []], [[], []], [[], []]], in_states = [[INIT, INIT], [INIT, INIT], [INIT, INIT]],
        in_routing = [[[], []], [[], []], [[], []]],
        in_crouting = [[(- 1, - 1), (- 1, - 1)], [(- 1, - 1), (- 1, - 1)], [(- 1, - 1), (- 1, - 1)]], ibuff_full = False\<rparr>,
      output_module = \<lparr>om_buffer_size = 4, om_counter = [[4, 4], [4, 4], [4, 4]],
        om_assign = [[(- 1, - 1), (- 1, - 1)], [(- 1, - 1), (- 1, - 1)], [(- 1, - 1), (- 1, - 1)]],
        om_usage = [[FREE, FREE], [FREE, FREE], [FREE, FREE]], om_outbuffers = [[], [], []], om_outadd = [[], [], []],
        om_localcounter = [4, 4, 4]\<rparr>,
      power_module = [], init_data = [], ary_size = 4, flit_size = 0, physic_ports = 3, vc_number = 2, buffer_size = 4,
      outbuffer_size = 4, total_delay = 0, routing_alg = TXY, local_input_time = 0, packet_counter = 0, localinFile = None\<rparr>"
  by (simp add: example_router_def sim_router_init_def init_words_def routing_alg_of_def input_template_init_def output_template_init_def
      numeral_3_eq_3 numeral_2_eq_2 VC_NULL_def)

lemma example_reach_init: "router_reach E k (example_router, example_shared)"
  by (rule reach_init [OF example_init]) simp_all

lemma example_lucky: "lucky (rt, example_shared)"
  by (simp add: lucky_def example_shared_def RAND_MAX_def)

lemma example_routable: "routable example_router [1, 0]"
proof -
  have "curr_algorithm TXY 4 [0, 0] [1, 0] = Some [(2, 1)]" by (simp add: TXY_algorithm_def)
  moreover have "out_link example_router 2"
    by (simp add: out_link_def example_router_eq getWireDelay_def getWirePc_def getNextAddress_def isCentral_def Let_def)
  ultimately show ?thesis by (simp add: routable_def example_router_eq out_ok_def chan_def inside_def)
qed

lemma example_accepts: "accepts example_router (abs_router example_router) (1, 0) example_flit"
proof -
  have "chan example_router (1, 0)" by (simp add: chan_def inside_def example_router_eq)
  moreover have "buf (abs_router example_router) (1, 0) = []" "st (abs_router example_router) (1, 0) = INIT"
    "\<not> held example_router (abs_router example_router) (1, 0)"
    by (simp_all add: abs_router_def example_router_eq look2_def vat2_def held_def chan_def inside_def)
  moreover have "in_link example_router 1"
    by (simp add: in_link_def example_router_eq getFromRouter_def getFromPort_def isCentral_def Let_def)
  ultimately show ?thesis using example_routable by (simp add: accepts_def example_flit_def mk_flit_def isHeader_def)
qed

lemma example_received: "\<exists>rt. receive_flit 1 0 example_flit (example_router, example_shared) = Some (rt, example_shared) \<and>
    router_reach E k (rt, example_shared) \<and> \<not> ibuff_full (input_module rt) \<and> flits rt = {#example_flit#}"
proof -
  have inv: "router_inv example_router" "flits example_router = {#}" "\<not> ibuff_full (input_module example_router)"
    using sim_router_init_inv [OF example_init] by simp_all
  from receive_flit_ok [of "(example_router, example_shared)" 1 0 example_flit] inv example_accepts
  obtain s' where s': "receive_flit 1 0 example_flit (example_router, example_shared) = Some s'" "steady (example_router, example_shared) s'"
      "snd s' = example_shared" "flits (fst s') = {#example_flit#}"
    by (auto simp: ok_def)
  have "router_reach E k s'" using reach_flit [OF example_reach_init _ s'(1)] example_accepts by simp
  then show ?thesis using s' inv(3) by (cases s') (auto simp: steady_def)
qed

lemmas evaluate_ops = input_at_def input_add_flit_def input_remove_flit_def input_get_flit_def state_at_def state_update_def
  crouting_at_def crouting_assign_def clear_crouting_def routing_at_def add_routing_def clear_routing_def counter_at_def
  counter_inc_def counter_dec_def usage_at_def assign_at_def acquire_def release_def output_add_flit_def output_remove_flit_def
  output_get_flit_def get_add_def remove_add_def add_add_def localcounter_at_def on_input_def on_output_def vat2_def vupd2_def send_def

lemmas evaluate_stages = router_sim_pwr_def flit_traversal_def flit_traversal_port_def flit_outbuffer_def outbuffer_flit_def
  sw_arbitration_def sw_request_def sw_candidate_def sw_grant_def vc_arbitration_def vc_request_of_def vc_selection_def vc_free_def
  vc_grant_def routing_decision_def decide_channel_def route_header_def accept_body_def pick_def requests_of_def vc_mask_at_def
  VC_MASK_def log_power_def

lemma evaluate_upto: "[0..2] = [0, 1, 2 :: int]" "[0..1] = [0, 1 :: int]" "[1..2] = [1, 2 :: int]"
  by (simp_all add: upto_rec1)

text \<open>After two cycles the flit of the example has been given channel (2,1).\<close>

lemma example_two_cycles:
  "\<exists>rt. router_reach example_env 2 (rt, example_shared) \<and> state_at 1 0 (input_module rt) = Some SW_AB \<and>
     crouting_at 1 0 (input_module rt) = Some (2, 1) \<and> vat (om_outbuffers (output_module rt)) 2 = Some [] \<and>
     localcounter_at 2 (output_module rt) = Some 4 \<and> counter_at 2 1 (output_module rt) = Some 4"
proof -
  obtain rt0 where rt0: "receive_flit 1 0 example_flit (example_router, example_shared) = Some (rt0, example_shared)"
      "router_reach example_env 2 (rt0, example_shared)" "\<not> ibuff_full (input_module rt0)"
    using example_received by blast
  obtain s1 where s1: "router_sim_pwr example_env 2 SHARE (rt0, example_shared) = Some s1" "step_ok (rt0, example_shared) s1"
    using router_sim_pwr_ok [OF reach_inv [OF rt0(2)], of example_env 2] rt0(3) example_lucky by (auto simp: ok_def)
  have r1: "router_reach example_env 2 s1" "\<not> ibuff_full (input_module (fst s1))" "lucky s1"
    using reach_cycle [OF rt0(2) _ _ s1(1)] rt0(3) example_lucky step_idle [OF s1(2)] step_lucky [OF s1(2)] by simp_all
  obtain s2 where s2: "router_sim_pwr example_env 2 SHARE s1 = Some s2"
    using router_sim_pwr_ok [OF reach_inv [OF r1(1)] r1(2,3), of example_env 2] by (auto simp: ok_def)
  have "router_reach example_env 2 (fst s2, example_shared)" using reach_other [OF reach_cycle [OF r1 s2]] .
  moreover have "state_at 1 0 (input_module (fst s2)) = Some SW_AB \<and> crouting_at 1 0 (input_module (fst s2)) = Some (2, 1) \<and>
      vat (om_outbuffers (output_module (fst s2))) 2 = Some [] \<and> localcounter_at 2 (output_module (fst s2)) = Some 4 \<and>
      counter_at 2 1 (output_module (fst s2)) = Some 4"
    using rt0(1) s1(1) s2
    by (auto simp: receive_flit_def evaluate_ops example_router_eq example_flit_def mk_flit_def isHeader_def evaluate_stages evaluate_upto
        TXY_algorithm_def example_env_def)
  ultimately show ?thesis by blast
qed





text \<open>
  C6: an output virtual channel carries one packet at a time. An input channel that waits for the switch
  or crosses it owns the output channel it is routed to: the output channel is marked used and assigned to this
  input channel, so no two input channels send to the same output channel; and it has a flit to send.
\<close>

theorem router_channel_owned:
  assumes "router_reach E k s" "state_at i j (input_module (fst s)) = Some x" "x = SW_AB \<or> x = SW_TR"
    "crouting_at i j (input_module (fst s)) = Some d"
  shows "usage_at (fst d) (snd d) (output_module (fst s)) = Some USED \<and> assign_at (fst d) (snd d) (output_module (fst s)) = Some (i, j) \<and>
     (\<exists>q. input_at i j (input_module (fst s)) = Some q \<and> q \<noteq> [])"
proof -
  have wf: "wf_router (fst s)" and inv: "INV (fst s) (abs_router (fst s))" using reach_inv [OF assms(1)] by (simp_all add: router_inv_def)
  have c: "chan (fst s) (i, j)" using state_at_chan [OF wf assms(2)] .
  then have d: "cr (abs_router (fst s)) (i, j) = d" "st (abs_router (fst s)) (i, j) = x" using assms(2,4) wf by (simp_all add: reads)
  then have h: "held (fst s) (abs_router (fst s)) (i, j)" "buf (abs_router (fst s)) (i, j) \<noteq> []"
    using INV_D(1) [OF inv c] assms(3) by (auto simp: chan_inv_def phase_ok_def)
  then show ?thesis using wf c d by (simp add: reads held_def)
qed

theorem router_channel_owned_witness:
  "\<exists>rt. router_reach example_env 2 (rt, example_shared) \<and> state_at 1 0 (input_module rt) = Some SW_AB \<and>
     usage_at 2 1 (output_module rt) = Some USED \<and> assign_at 2 1 (output_module rt) = Some (1, 0)"
proof -
  obtain rt where rt: "router_reach example_env 2 (rt, example_shared)" "state_at 1 0 (input_module rt) = Some SW_AB"
      "crouting_at 1 0 (input_module rt) = Some (2, 1)"
    using example_two_cycles by blast
  then show ?thesis using router_channel_owned [OF rt(1), of 1 0 SW_AB "(2, 1)"] by auto
qed

text \<open>
  C19: buffers stay within their bounds. The local counter of an output port is the space left in its
  output buffer and never negative, and the credit counter of an output channel is never negative.
\<close>

theorem router_buffers_bounded:
  assumes "router_reach E k s" "vat (om_outbuffers (output_module (fst s))) i = Some q" "localcounter_at i (output_module (fst s)) = Some l"
    "counter_at i j (output_module (fst s)) = Some c"
  shows "l = outbuffer_size (fst s) - int (length q) \<and> int (length q) \<le> outbuffer_size (fst s) \<and> 0 \<le> c"
proof -
  have wf: "wf_router (fst s)" and inv: "INV (fst s) (abs_router (fst s))" using reach_inv [OF assms(1)] by (simp_all add: router_inv_def)
  have "port (fst s) i" "chan (fst s) (i, j)" using localcounter_at_port [OF wf assms(3)] counter_at_chan [OF wf assms(4)] .
  then show ?thesis
    using assms(2-4) wf INV_D(3) [OF inv, of i] INV_D(2) [OF inv, of "(i, j)"] by (auto simp: reads port_inv_def own_inv_def)
qed

theorem router_buffers_bounded_witness:
  "\<exists>rt. router_reach example_env 2 (rt, example_shared) \<and> localcounter_at 2 (output_module rt) = Some 4 \<and>
     outbuffer_size rt = 4 \<and> counter_at 2 1 (output_module rt) = Some 4"
proof -
  obtain rt where rt: "router_reach example_env 2 (rt, example_shared)" "vat (om_outbuffers (output_module rt)) 2 = Some []"
      "localcounter_at 2 (output_module rt) = Some 4" "counter_at 2 1 (output_module rt) = Some 4"
    using example_two_cycles by blast
  then show ?thesis using router_buffers_bounded [OF rt(1), of 2 "[]" 4 1 4] by auto
qed

lemma outbuffer_flit_abs:
  assumes "router_inv (fst s)" "chan (fst s) (i, j)" "\<not> ibuff_full (input_module (fst s))" "st (abs_router (fst s)) (i, j) = SW_TR"
  shows "map_option (\<lambda>s'. abs_router (fst s')) (outbuffer_flit E k SHARE i j s) = Some (switch (i, j) (abs_router (fst s)))"
proof -
  have wf: "wf_router (fst s)" and inv: "INV (fst s) (abs_router (fst s))" using assms(1) by (simp_all add: router_inv_def)
  have d: "chan (fst s) (cr (abs_router (fst s)) (i, j))" using INV_held_link(1) [OF inv assms(2)] assms(4) by simp
  then have "port (fst s) (fst (cr (abs_router (fst s)) (i, j)))" by (rule chan_port)
  then show ?thesis
    using outbuffer_flit_run [OF wf inv assms(2-4), of E k] wf assms(2) d by (simp add: switch_def Let_def)
qed


lemma example_three_cycles:
  "\<exists>rt. router_reach example_env 2 (rt, example_shared) \<and> state_at 1 0 (input_module rt) = Some SW_TR \<and> \<not> ibuff_full (input_module rt)"
proof -
  obtain rt0 where rt0: "receive_flit 1 0 example_flit (example_router, example_shared) = Some (rt0, example_shared)"
      "router_reach example_env 2 (rt0, example_shared)" "\<not> ibuff_full (input_module rt0)"
    using example_received by blast
  have next_cycle: "\<exists>s'. router_sim_pwr example_env 2 SHARE s = Some s' \<and> router_reach example_env 2 s' \<and> \<not> ibuff_full (input_module (fst s')) \<and> lucky s'"
    if r: "router_reach example_env 2 s" "\<not> ibuff_full (input_module (fst s))" "lucky s" for s
  proof -
    obtain s' where "router_sim_pwr example_env 2 SHARE s = Some s'" "step_ok s s'"
      using router_sim_pwr_ok [OF reach_inv [OF r(1)] r(2,3), of example_env 2] by (auto simp: ok_def)
    then show ?thesis using reach_cycle [OF r] step_idle step_lucky r(2,3) by blast
  qed
  obtain s1 where s1: "router_sim_pwr example_env 2 SHARE (rt0, example_shared) = Some s1" "router_reach example_env 2 s1"
      "\<not> ibuff_full (input_module (fst s1))" "lucky s1"
    using next_cycle [OF rt0(2)] rt0(3) example_lucky by auto
  obtain s2 where s2: "router_sim_pwr example_env 2 SHARE s1 = Some s2" "router_reach example_env 2 s2"
      "\<not> ibuff_full (input_module (fst s2))" "lucky s2"
    using next_cycle [OF s1(2-4)] by auto
  obtain s3 where s3: "router_sim_pwr example_env 2 SHARE s2 = Some s3" "router_reach example_env 2 s3" "\<not> ibuff_full (input_module (fst s3))"
    using next_cycle [OF s2(2-4)] by auto
  have "state_at 1 0 (input_module (fst s3)) = Some SW_TR"
    using rt0(1) s1(1) s2(1) s3(1)
    by (auto simp: receive_flit_def evaluate_ops example_router_eq example_flit_def mk_flit_def isHeader_def evaluate_stages evaluate_upto
        TXY_algorithm_def example_env_def)
  then show ?thesis using reach_other [OF s3(2), of example_shared] s3(3) by blast
qed




text \<open>
  C38: resuming injection can strand a packet. When the last flit of an injection channel is switched while the injection
  buffer is marked full, \<^verbatim>\<open>flit_outbuffer\<close> injects the waiting packets first and then marks the channel idle: the
  packet it has just queued there stays in the channel, whose state says that it is empty.
\<close>

definition stalled_router :: sim_router_template where
  "stalled_router = example_router\<lparr>
     vc_number := 1,
     input_module := \<lparr>in_input = [[[example_flit]], [[]], [[]]], in_states = [[SW_TR], [INIT], [INIT]], in_routing = [[[]], [[]], [[]]],
       in_crouting = [[(2, 0)], [VC_NULL], [VC_NULL]], ibuff_full = True\<rparr>,
     output_module := output_template_init 3 1 4 4,
     localinFile := Some [0, 0, 1, 0, 1, 50]\<rparr>"


end
