(* ===== verification/Popnet_Config.thy ===== *)
theory Popnet_Config
  imports Popnet_Base
begin

text \<open>
  Options of the simulator: decimal numbers in strings (\<^verbatim>\<open>SString.cc\<close> and the formatted output of the standard library),
  and the configuration object (\<^verbatim>\<open>configuration.cc\<close>).
\<close>

section \<open>Numbers and strings\<close>

text \<open>Formatted output of an integer.\<close>

definition digit_char :: "nat \<Rightarrow> char" where
  "digit_char d = char_of (48 + d)"

fun show_nat :: "nat \<Rightarrow> string" where
  "show_nat n = (if n < 10 then [digit_char n] else show_nat (n div 10) @ [digit_char (n mod 10)])"

declare show_nat.simps [simp del]

definition show_long :: "int \<Rightarrow> string" where
  "show_long n = (if n < 0 then CHR ''-'' # show_nat (nat (- n)) else show_nat (nat n))"

text \<open>
  Formatted input of a floating-point number: white space is skipped, then a sign, digits with at most one
  point, and an exponent are taken. A text without digits, or with an exponent mark and no exponent, yields 0; an
  empty text leaves the variable without a value.
\<close>

definition is_digit :: "char \<Rightarrow> bool" where
  "is_digit c \<longleftrightarrow> 48 \<le> (of_char c :: nat) \<and> (of_char c :: nat) \<le> 57"

definition is_space :: "char \<Rightarrow> bool" where
  "is_space c \<longleftrightarrow> c = CHR '' '' \<or> (9 \<le> (of_char c :: nat) \<and> (of_char c :: nat) \<le> 13)"

definition digits_value :: "string \<Rightarrow> nat" where
  "digits_value ds = foldl (\<lambda>v c. 10 * v + (of_char c - 48)) 0 ds"

definition take_sign :: "string \<Rightarrow> bool \<times> string" where
  "take_sign s = (case s of [] \<Rightarrow> (False, []) | c # cs \<Rightarrow> if c = CHR ''-'' then (True, cs) else if c = CHR ''+'' then (False, cs) else (False, s))"

definition take_digits :: "string \<Rightarrow> string \<times> string" where
  "take_digits s = (takeWhile is_digit s, dropWhile is_digit s)"

definition scale10 :: "bool \<Rightarrow> nat \<Rightarrow> real \<Rightarrow> real" where
  "scale10 negative e x = (if negative then x / 10 ^ e else x * 10 ^ e)"

definition read_double :: "string \<Rightarrow> real option" where
  "read_double s = (case dropWhile is_space s of [] \<Rightarrow> None | t \<Rightarrow>
     (let (neg, t) = take_sign t;
          (ds, t) = take_digits t;
          (fs, t) = (case t of [] \<Rightarrow> ([], []) | c # cs \<Rightarrow> if c = CHR ''.'' then take_digits cs else ([], t));
          mantissa = real (digits_value (ds @ fs)) / 10 ^ length fs;
          signed = (if neg then - mantissa else mantissa)
      in if ds = [] \<and> fs = [] then Some 0
         else case t of [] \<Rightarrow> Some signed
           | c # cs \<Rightarrow>
             if c = CHR ''e'' \<or> c = CHR ''E''
             then (let (eneg, u) = take_sign cs; (es, u) = take_digits u
                   in if es = [] then Some 0 else Some (scale10 eneg (digits_value es) signed))
             else Some signed))"

text \<open>The conversions of \<^verbatim>\<open>SString.cc\<close>: through a floating-point value, which has to fit in the target.\<close>

definition Conv_double :: "string \<Rightarrow> real option" where
  "Conv_double str = read_double str"

definition Conv_long :: "string \<Rightarrow> int option" where
  "Conv_long str = do {
     dbl \<leftarrow> read_double str;
     let v = c_long dbl;
     if - (2 ^ 63) \<le> v \<and> v < 2 ^ 63 then Some v else None
   }"

section \<open>Configuration\<close>

text \<open>The constructor sets no value for the flit size and the link length: they have one only if the option is given.\<close>

record configuration =
  ary_number :: int
  cube_number :: int
  virtual_channel_number :: int
  cf_buffer_size :: int
  cf_outbuffer_size :: int
  cf_flit_size :: "int option"
  cf_link_length :: "real option"
  ran_seed :: int
  sim_length :: time_type
  trace_fname :: string
  cf_routing_alg :: int
  vc_share :: vc_share_type

definition configuration_default :: configuration where
  "configuration_default = \<lparr>ary_number = 8, cube_number = 2, virtual_channel_number = 2, cf_buffer_size = 64, cf_outbuffer_size = 4,
     cf_flit_size = None, cf_link_length = None, ran_seed = 1, sim_length = 1000000000, trace_fname = [], cf_routing_alg = 0, vc_share = MONO\<rparr>"

datatype config_error = init_error_help | init_error_usage | Undefined

definition config_value :: "'a option \<Rightarrow> ('a \<Rightarrow> configuration) \<Rightarrow> config_error + configuration" where
  "config_value x f = (case x of None \<Rightarrow> Inl Undefined | Some v \<Rightarrow> Inr (f v))"

text \<open>One result of \<^verbatim>\<open>getopt\<close>: the option and its argument.\<close>

definition config_option :: "configuration \<Rightarrow> char \<times> string \<Rightarrow> config_error + configuration" where
  "config_option c opt = (case opt of (ch, optarg) \<Rightarrow>
     if ch = CHR ''h'' then Inl init_error_help
     else if ch = CHR ''A'' then config_value (Conv_long optarg) (\<lambda>v. c\<lparr>ary_number := v\<rparr>)
     else if ch = CHR ''c'' then config_value (Conv_long optarg) (\<lambda>v. c\<lparr>cube_number := v\<rparr>)
     else if ch = CHR ''V'' then config_value (Conv_long optarg) (\<lambda>v. c\<lparr>virtual_channel_number := v\<rparr>)
     else if ch = CHR ''B'' then config_value (Conv_long optarg) (\<lambda>v. c\<lparr>cf_buffer_size := v\<rparr>)
     else if ch = CHR ''F'' then config_value (Conv_long optarg) (\<lambda>v. c\<lparr>cf_flit_size := Some v\<rparr>)
     else if ch = CHR ''L'' then config_value (Conv_double optarg) (\<lambda>v. c\<lparr>cf_link_length := Some v\<rparr>)
     else if ch = CHR ''T'' then config_value (Conv_double optarg) (\<lambda>v. c\<lparr>sim_length := v\<rparr>)
     else if ch = CHR ''I'' then Inr (c\<lparr>trace_fname := optarg\<rparr>)
     else if ch = CHR ''O'' then config_value (Conv_long optarg) (\<lambda>v. c\<lparr>cf_outbuffer_size := v\<rparr>)
     else if ch = CHR ''r'' then config_value (Conv_long optarg) (\<lambda>v. c\<lparr>ran_seed := v\<rparr>)
     else if ch = CHR ''R'' then config_value (Conv_long optarg) (\<lambda>v. c\<lparr>cf_routing_alg := v\<rparr>)
     else if ch = CHR ''?'' then Inl init_error_help
     else Inl init_error_usage)"

fun config_options :: "configuration \<Rightarrow> (char \<times> string) list \<Rightarrow> config_error + configuration" where
  "config_options c [] = Inr c"
| "config_options c (x # xs) = (case config_option c x of Inl e \<Rightarrow> Inl e | Inr c \<Rightarrow> config_options c xs)"

text \<open>
  The constructor, for an argument count and the sequence of results of \<^verbatim>\<open>getopt\<close>. Seeding the generator selects one of the
  sequences of the library's generator, see \<open>main_init\<close>.
\<close>

definition configuration_init :: "int \<Rightarrow> (char \<times> string) list \<Rightarrow> config_error + configuration" where
  "configuration_init argc opts =
     (if argc \<le> 1 then Inl init_error_help
      else case config_options configuration_default opts of Inl e \<Rightarrow> Inl e | Inr c \<Rightarrow> Inr (c\<lparr>vc_share := SHARE\<rparr>))"

section \<open>Gaussian random numbers\<close>

text \<open>
  The static variables of \<^verbatim>\<open>gauss01\<close>. The constant \<open>PI\<close> of \<^verbatim>\<open>SStd.h\<close> lacks two digits. The logarithm of zero is
  not a number that the model represents.
\<close>

definition PI :: real where
  "PI = 3.141592658979323846"

record gauss_static =
  recalc :: bool
  out_b :: real

definition gauss_start :: gauss_static where
  "gauss_start = \<lparr>recalc = True, out_b = 0\<rparr>"

definition gauss01 :: "gauss_static \<times> SRGen \<Rightarrow> (real \<times> gauss_static \<times> SRGen) option" where
  "gauss01 st = (case st of (v, g) \<Rightarrow>
     if recalc v
     then (let (u, g) = sflat01 g;
               in_a = 1.0 - u;
               (in_b, g) = sflat01 g;
               modifier = sqrt (- 2.0 * ln in_a);
               compile_b = 2.0 * PI * in_b;
               b = modifier * sin compile_b
           in if in_a = 0 then None else Some (b, \<lparr>recalc = False, out_b = b\<rparr>, g))
     else Some (out_b v, v\<lparr>recalc := True\<rparr>, g))"

definition gauss_mean_d :: "real \<Rightarrow> real \<Rightarrow> gauss_static \<times> SRGen \<Rightarrow> (real \<times> gauss_static \<times> SRGen) option" where
  "gauss_mean_d mean variance st = do { (x, st) \<leftarrow> gauss01 st; Some (x * variance + mean, st) }"

definition gauss_mean_l :: "int \<Rightarrow> real \<Rightarrow> gauss_static \<times> SRGen \<Rightarrow> (int \<times> gauss_static \<times> SRGen) option" where
  "gauss_mean_l mean variance st = do {
     (x, st) \<leftarrow> gauss01 st;
     let v = c_long (x * variance + of_int mean);
     if - (2 ^ 63) \<le> v \<and> v < 2 ^ 63 then Some (v, st) else None
   }"

definition gauss_mean_ul :: "u64 \<Rightarrow> real \<Rightarrow> gauss_static \<times> SRGen \<Rightarrow> (u64 \<times> gauss_static \<times> SRGen) option" where
  "gauss_mean_ul mean variance st = do {
     (x, st) \<leftarrow> gauss01 st;
     let v = c_long (x * variance + dbl64 mean);
     if 0 \<le> v \<and> v < 2 ^ 64 then Some (word_of_int v, st) else None
   }"

definition gauss_mean_ull :: "u64 \<Rightarrow> real \<Rightarrow> gauss_static \<times> SRGen \<Rightarrow> (u64 \<times> gauss_static \<times> SRGen) option" where
  "gauss_mean_ull mean variance st = do {
     (x, st) \<leftarrow> gauss01 st;
     let v = c_long (x * variance + dbl64 mean);
     if 0 \<le> v \<and> v < 2 ^ 64 then Some (word_of_int v, st) else None
   }"

definition flat_ul :: "u64 \<Rightarrow> u64 \<Rightarrow> SRGen \<Rightarrow> (u64 \<times> SRGen) option" where
  "flat_ul low high g =
     (if low < high
      then let (a, g) = sflat01 g; val = \<lfloor>dbl64 (high - low) * a + dbl64 low\<rfloor>
           in if int (unat low) \<le> val \<and> val < int (unat high) then Some (word_of_int val, g) else None
      else None)"

definition flat_d :: "real \<Rightarrow> real \<Rightarrow> SRGen \<Rightarrow> (real \<times> SRGen) option" where
  "flat_d low high g = (if low < high then let (a, g) = sflat01 g in Some ((high - low) * a + low, g) else None)"

section \<open>Printing and reading\<close>

lemma of_digit_char [simp]: "d < 10 \<Longrightarrow> of_char (digit_char d) = (48 + d :: nat)"
  by (simp add: digit_char_def)

lemma digit_char_digit [simp]: "d < 10 \<Longrightarrow> is_digit (digit_char d)"
  by (simp add: is_digit_def)

lemma show_nat_digits: "\<forall>c \<in> set (show_nat n). is_digit c"
proof (induction n rule: show_nat.induct)
  case (1 n)
  show ?case using 1 by (subst show_nat.simps) auto
qed

lemma show_nat_ne: "show_nat n \<noteq> []"
  by (subst show_nat.simps) simp

lemma digits_value_snoc: "digits_value (ds @ [c]) = 10 * digits_value ds + (of_char c - 48)"
  by (simp add: digits_value_def)

lemma digits_value_show [simp]: "digits_value (show_nat n) = n"
proof (induction n rule: show_nat.induct)
  case (1 n)
  show ?case
  proof (cases "n < 10")
    case True
    then show ?thesis by (subst show_nat.simps) (simp add: digits_value_def)
  next
    case False
    then show ?thesis using 1 by (subst show_nat.simps) (simp add: digits_value_snoc)
  qed
qed

lemma take_digits_show: "take_digits (show_nat n) = (show_nat n, [])"
  using show_nat_digits [of n] by (simp add: take_digits_def takeWhile_eq_all_conv dropWhile_eq_Nil_conv)

lemma digit_not: "is_digit c \<Longrightarrow> c \<noteq> CHR ''-'' \<and> c \<noteq> CHR ''+'' \<and> c \<noteq> CHR ''.'' \<and> \<not> is_space c"
  by (auto simp: is_digit_def is_space_def)

lemma show_nat_head: "\<exists>c cs. show_nat n = c # cs \<and> is_digit c"
  using show_nat_ne [of n] show_nat_digits [of n] by (cases "show_nat n") auto

lemma read_double_show: "read_double (show_long n) = Some (of_int n)"
proof -
  obtain c cs where c: "show_nat (nat \<bar>n\<bar>) = c # cs" "is_digit c" using show_nat_head by blast
  note d = digit_not [OF c(2)]
  have t: "take_digits (c # cs) = (c # cs, [])" "digits_value (c # cs) = nat \<bar>n\<bar>" using take_digits_show digits_value_show c(1) by metis+
  show ?thesis
  proof (cases "n < 0")
    case True
    then have "show_long n = CHR ''-'' # c # cs" using c(1) by (simp add: show_long_def)
    moreover have "\<not> is_space CHR ''-''" by (simp add: is_space_def)
    ultimately show ?thesis using t True by (simp add: read_double_def take_sign_def)
  next
    case False
    then have "show_long n = c # cs" using c(1) by (simp add: show_long_def)
    then show ?thesis using t False d by (simp add: read_double_def take_sign_def)
  qed
qed

lemma show_long_inj: "show_long m = show_long n \<Longrightarrow> m = n"
  by (metis read_double_show of_int_eq_iff option.inject)

lemma Conv_show: "- (2 ^ 63) \<le> n \<Longrightarrow> n < 2 ^ 63 \<Longrightarrow> Conv_long (show_long n) = Some n"
  by (simp add: Conv_long_def read_double_show c_long_def)

text \<open>
  A printed number is read back. An integer that a double holds exactly, written by the formatted output
  and given as an option, is converted to the same integer.
\<close>

theorem Conv_show_long:
  assumes "\<bar>n\<bar> \<le> 2 ^ 53"
  shows "Conv_long (show_long n) = Some n"
  by (rule Conv_show) (use assms in simp_all)

theorem Conv_show_long_witness: "Conv_long (show_long (- 4096)) = Some (- 4096)"
  by (rule Conv_show_long) simp

section \<open>Options\<close>

text \<open>The arguments given for an option, and the value of a field: that of the last argument, or the default.\<close>

definition given :: "char \<Rightarrow> (char \<times> string) list \<Rightarrow> string list" where
  "given ch opts = map snd (filter (\<lambda>x. fst x = ch) opts)"

definition last_given :: "(string \<Rightarrow> 'a option) \<Rightarrow> 'a \<Rightarrow> string list \<Rightarrow> 'a" where
  "last_given conv d xs = (if xs = [] then d else the (conv (last xs)))"

lemma given_Cons: "given ch (x # xs) = (if fst x = ch then [snd x] else []) @ given ch xs"
  by (simp add: given_def)

lemma last_given_Cons [simp]:
  "last_given conv d [] = d" "last_given conv d (x # xs) = last_given conv (the (conv x)) xs"
  by (auto simp: last_given_def)

definition configured :: "configuration \<Rightarrow> (char \<times> string) list \<Rightarrow> configuration" where
  "configured c opts = \<lparr>ary_number = last_given Conv_long (ary_number c) (given CHR ''A'' opts),
     cube_number = last_given Conv_long (cube_number c) (given CHR ''c'' opts),
     virtual_channel_number = last_given Conv_long (virtual_channel_number c) (given CHR ''V'' opts),
     cf_buffer_size = last_given Conv_long (cf_buffer_size c) (given CHR ''B'' opts),
     cf_outbuffer_size = last_given Conv_long (cf_outbuffer_size c) (given CHR ''O'' opts),
     cf_flit_size = last_given (map_option Some \<circ> Conv_long) (cf_flit_size c) (given CHR ''F'' opts),
     cf_link_length = last_given (map_option Some \<circ> Conv_double) (cf_link_length c) (given CHR ''L'' opts),
     ran_seed = last_given Conv_long (ran_seed c) (given CHR ''r'' opts),
     sim_length = last_given Conv_double (sim_length c) (given CHR ''T'' opts),
     trace_fname = last_given Some (trace_fname c) (given CHR ''I'' opts),
     cf_routing_alg = last_given Conv_long (cf_routing_alg c) (given CHR ''R'' opts), vc_share = vc_share c\<rparr>"

lemma configured_Nil: "configured c [] = c"
  by (simp add: configured_def given_def)

lemma config_value_Inr: "config_value x f = Inr c' \<longleftrightarrow> (\<exists>v. x = Some v \<and> c' = f v)"
  by (auto simp: config_value_def split: option.splits)

lemma configured_Cons: "config_option c x = Inr c' \<Longrightarrow> configured c (x # xs) = configured c' xs"
  by (cases x) (auto simp: config_option_def configured_def given_Cons config_value_Inr split: if_splits)

lemma config_options_configured: "config_options c opts = Inr c' \<Longrightarrow> c' = configured c opts"
  by (induction opts arbitrary: c) (auto simp: configured_Nil configured_Cons split: sum.splits)

lemma config_option_Inr:
  "(\<exists>c'. config_option c x = Inr c') \<longleftrightarrow>
     fst x \<in> set ''AcVBFOrR'' \<and> Conv_long (snd x) \<noteq> None \<or> fst x \<in> set ''LT'' \<and> Conv_double (snd x) \<noteq> None \<or> fst x = CHR ''I''"
  by (cases x) (auto simp: config_option_def config_value_Inr)

lemma config_options_Inr:
  "(\<exists>c'. config_options c opts = Inr c') \<longleftrightarrow> (\<forall>x \<in> set opts. \<exists>c'. config_option configuration_default x = Inr c')"
proof (induction opts arbitrary: c)
  case (Cons x xs)
  have "(\<exists>c'. config_option c x = Inr c') \<longleftrightarrow> (\<exists>c'. config_option configuration_default x = Inr c')" by (simp only: config_option_Inr)
  then show ?case using Cons.IH by (cases "config_option c x") auto
qed simp

text \<open>
  The command line determines the configuration. Construction succeeds exactly if there are arguments and every
  option is a known one with a readable argument; then every parameter has the value of the last option
  given for it, or its default, virtual channels are shared between packets, and the flit size and the link
  length have no value unless they are given.
\<close>

theorem configuration_init_spec:
  "configuration_init argc opts =
     (if 1 < argc \<and> (\<forall>x \<in> set opts. fst x \<in> set ''AcVBFOrR'' \<and> Conv_long (snd x) \<noteq> None \<or> fst x \<in> set ''LT'' \<and> Conv_double (snd x) \<noteq> None \<or> fst x = CHR ''I'')
      then Inr ((configured configuration_default opts)\<lparr>vc_share := SHARE\<rparr>)
      else Inl (if 1 < argc then projl (config_options configuration_default opts) else init_error_help))"
proof (cases "config_options configuration_default opts")
  case (Inl e)
  then have "\<not> (\<exists>c'. config_options configuration_default opts = Inr c')" by simp
  then show ?thesis unfolding config_options_Inr config_option_Inr using Inl by (auto simp: configuration_init_def)
next
  case (Inr c)
  then have "\<exists>c'. config_options configuration_default opts = Inr c'" by simp
  then show ?thesis unfolding config_options_Inr config_option_Inr using Inr config_options_configured [OF Inr]
    by (auto simp: configuration_init_def)
qed

theorem configuration_init_spec_witness:
  "configuration_init 5 [(CHR ''A'', ''9''), (CHR ''A'', ''4'')] = Inr (configuration_default\<lparr>ary_number := 4, vc_share := SHARE\<rparr>)"
proof -
  have "Conv_long ''9'' = Some 9" "Conv_long ''4'' = Some 4"
    using Conv_show [of 9] Conv_show [of 4] by (simp_all add: show_long_def show_nat.simps digit_char_def char_of_def bit_0)
  then show ?thesis
    unfolding configuration_init_spec [of 5 "[(CHR ''A'', ''9''), (CHR ''A'', ''4'')]"] by (simp add: configured_def given_def last_given_def configuration_default_def)
qed

text \<open>
  Every second Gaussian number repeats the one before. The first call of a pair computes two independent
  numbers and returns the second of them, which the second call returns again.
\<close>

theorem gauss01_repeats:
  assumes "gauss01 (v, g) = Some (x, v', g')" "recalc v"
  shows "\<exists>v''. gauss01 (v', g') = Some (x, v'', g') \<and> recalc v''"
  using assms by (auto simp: gauss01_def Let_def split: prod.splits if_splits)

theorem gauss01_repeats_witness:
  "\<exists>x v' g' v''. gauss01 (gauss_start, \<lparr>draws = (\<lambda>_. 7), drawn = 0\<rparr>) = Some (x, v', g') \<and> gauss01 (v', g') = Some (x, v'', g')"
proof -
  obtain x v' g' where g: "gauss01 (gauss_start, \<lparr>draws = (\<lambda>_. 7), drawn = 0\<rparr>) = Some (x, v', g')"
    by (simp add: gauss01_def gauss_start_def sflat01_def RAND_MAX_def Let_def)
  from gauss01_repeats [OF g] show ?thesis using g by (auto simp: gauss_start_def)
qed

end
