(* ===== verification/Popnet_Power.thy ===== *)
theory Popnet_Power
  imports Orion_Module Popnet_Reach
begin

text \<open>
  The power module of a router (\<^verbatim>\<open>power_template\<close> of \<^verbatim>\<open>sim_router.cc\<close>): the last data seen by every buffer, crossbar
  port and link, and the Orion structures that count the transitions. A router keeps the sequence of its
  calls; \<open>power_replay\<close> runs them on the module.
\<close>

section \<open>State and construction\<close>

record power_template =
  pw_flit_size :: int
  router_info :: "(nat, nat list) SIM_power_router_info_t"
  router_power :: SIM_power_router_t
  arbiter_vc_power :: SIM_power_arbiter_t
  link_power :: SIM_power_bus_t
  buffer_write :: "u64 list list"
  buffer_read :: "u64 list list"
  crossbar_read :: "u64 list list"
  crossbar_write :: "u64 list list"
  link_traversal :: "u64 list list"
  crossbar_input :: "int list"
  arbiter_vc_req :: "u64 list list"
  arbiter_vc_grant :: "u64 list list"

definition ATOM_WIDTH :: u32 where
  "ATOM_WIDTH = 64"

definition zero_bus :: SIM_power_bus_t where
  "zero_bus = \<lparr>bus_model = 0, bus_encoding = 0, bus_data_width = 0, bus_grp_width = 0, bus_n_switch = 0, bus_e_switch = 0,
     bus_bit_width = 0, bus_mask = 0\<rparr>"

text \<open>
  Constructor: \<open>a\<close> physical ports, \<open>b\<close> virtual channels, flits of \<open>c\<close> words, and the link length of the configuration.
  Vectors of data start with zeros, the arbiter's requests and grants with ones.
\<close>

definition power_template_init :: "tech \<Rightarrow> port_parm \<Rightarrow> real \<Rightarrow> int \<Rightarrow> int \<Rightarrow> int \<Rightarrow> power_template option" where
  "power_template_init T P link_len a b c = do {
     (info, rp) \<leftarrow> mainpe__power___SIM_router_power_init T P zero_router_info zero_router;
     (arb, _) \<leftarrow> SIM_arbiter_init T zero_arbiter 1 1 (word_of_int (a * b)) 0 zero_info;
     (bus, _) \<leftarrow> SIM_bus_init T zero_bus GENERIC_BUS IDENT_ENC ATOM_WIDTH 0 1 1 link_len 0;
     let data = replicate (nat a) (replicate (nat c) 0);
     let ones = replicate (nat a) (replicate (nat b) 1);
     Some \<lparr>pw_flit_size = c, router_info = info, router_power = rp, arbiter_vc_power = arb, link_power = bus,
       buffer_write = data, buffer_read = data, crossbar_read = data, crossbar_write = data, link_traversal = data,
       crossbar_input = replicate (nat a) 0, arbiter_vc_req = ones, arbiter_vc_grant = ones\<rparr>
   }"

section \<open>Recording\<close>

definition power_buffer_read_word :: "int \<Rightarrow> Data_type \<Rightarrow> int \<Rightarrow> power_template \<Rightarrow> power_template option" where
  "power_buffer_read_word in_port read_d i p = do {
     d \<leftarrow> vat read_d i;
     arr \<leftarrow> SIM_buf_power_data_read (ri_in_buf_info (router_info p)) (rt_in_buf (router_power p)) d;
     br \<leftarrow> vupd2 (buffer_read p) in_port i (\<lambda>_. d);
     Some (p\<lparr>router_power := (router_power p)\<lparr>rt_in_buf := arr\<rparr>, buffer_read := br\<rparr>)
   }"

definition record_buffer_read :: "int \<Rightarrow> Data_type \<Rightarrow> power_template \<Rightarrow> power_template option" where
  "record_buffer_read in_port read_d p = foldM (power_buffer_read_word in_port read_d) [0..pw_flit_size p - 1] p"

definition power_link_word :: "int \<Rightarrow> Data_type \<Rightarrow> int \<Rightarrow> power_template \<Rightarrow> power_template option" where
  "power_link_word in_port read_d i p = do {
     old_d \<leftarrow> vat2 (link_traversal p) in_port i;
     new_d \<leftarrow> vat read_d i;
     lt \<leftarrow> vupd2 (link_traversal p) in_port i (\<lambda>_. new_d);
     Some (p\<lparr>link_power := SIM_bus_record (link_power p) old_d new_d, link_traversal := lt\<rparr>)
   }"

definition record_link_traversal :: "int \<Rightarrow> Data_type \<Rightarrow> power_template \<Rightarrow> power_template option" where
  "record_link_traversal in_port read_d p = foldM (power_link_word in_port read_d) [0..pw_flit_size p - 1] p"

text \<open>
  The wrapper gets the addresses of two local 64-bit variables, here bytes 0 to 7 (\<open>old_d\<close>, used twice) and 8 to 15
  (\<open>new_d\<close>) of a memory. Accesses to the bytes of one variable beyond its end are undefined: the wrapper reads and writes
  as many bytes as a flit has.
\<close>

definition word_bytes :: "u64 \<Rightarrow> u64 \<Rightarrow> memory" where
  "word_bytes old new i = (if i < 8 then ucast (drop_bit (8 * i) old) else if i < 16 then ucast (drop_bit (8 * (i - 8)) new) else 0)"

definition power_buffer_write_word :: "port_parm \<Rightarrow> int \<Rightarrow> Data_type \<Rightarrow> int \<Rightarrow> power_template \<Rightarrow> power_template option" where
  "power_buffer_write_word P in_port write_d i p = do {
     old_d \<leftarrow> vat2 (buffer_write p) in_port i;
     new_d \<leftarrow> vat write_d i;
     arr \<leftarrow> (if unat (pp_flit_width P div 8) > 8 then None
       else map_option fst (SIM_buf_power_data_write P (ri_in_buf_info (router_info p)) (rt_in_buf (router_power p)) 0 0 8 (word_bytes old_d new_d)));
     bw \<leftarrow> vupd2 (buffer_write p) in_port i (\<lambda>_. new_d);
     Some (p\<lparr>router_power := (router_power p)\<lparr>rt_in_buf := arr\<rparr>, buffer_write := bw\<rparr>)
   }"

definition record_buffer_write :: "port_parm \<Rightarrow> int \<Rightarrow> Data_type \<Rightarrow> power_template \<Rightarrow> power_template option" where
  "record_buffer_write P in_port write_d p = foldM (power_buffer_write_word P in_port write_d) [0..pw_flit_size p - 1] p"

definition power_crossbar_word :: "int \<Rightarrow> int \<Rightarrow> Data_type \<Rightarrow> int \<Rightarrow> power_template \<Rightarrow> power_template option" where
  "power_crossbar_word in_port out_port trav_d i p = do {
     d \<leftarrow> vat trav_d i;
     old_in \<leftarrow> vat2 (crossbar_read p) in_port i;
     let xb = SIM_crossbar_record (rt_crossbar (router_power p)) 1 d old_in 1 1;
     old_out \<leftarrow> vat2 (crossbar_write p) out_port i;
     last_in \<leftarrow> vat (crossbar_input p) out_port;
     let xb = SIM_crossbar_record xb 0 d old_out (word_of_int last_in) (word_of_int in_port);
     xr \<leftarrow> vupd2 (crossbar_read p) in_port i (\<lambda>_. d);
     xw \<leftarrow> vupd2 (crossbar_write p) out_port i (\<lambda>_. d);
     xi \<leftarrow> vupd (crossbar_input p) out_port (\<lambda>_. in_port);
     Some (p\<lparr>router_power := (router_power p)\<lparr>rt_crossbar := xb\<rparr>, crossbar_read := xr, crossbar_write := xw, crossbar_input := xi\<rparr>)
   }"

definition record_crossbar_trav :: "int \<Rightarrow> int \<Rightarrow> Data_type \<Rightarrow> power_template \<Rightarrow> power_template option" where
  "record_crossbar_trav in_port out_port trav_d p = foldM (power_crossbar_word in_port out_port trav_d) [0..pw_flit_size p - 1] p"

text \<open>The grants are 64-bit values that are passed on as 32-bit arguments.\<close>

definition record_vc_arbit :: "int \<Rightarrow> int \<Rightarrow> u64 \<Rightarrow> u64 \<Rightarrow> power_template \<Rightarrow> power_template option" where
  "record_vc_arbit pc vc req gra p = do {
     old_req \<leftarrow> vat2 (arbiter_vc_req p) pc vc;
     old_gra \<leftarrow> vat2 (arbiter_vc_grant p) pc vc;
     rs \<leftarrow> vupd2 (arbiter_vc_req p) pc vc (\<lambda>_. req);
     gs \<leftarrow> vupd2 (arbiter_vc_grant p) pc vc (\<lambda>_. gra);
     Some (p\<lparr>arbiter_vc_power := SIM_arbiter_record (arbiter_vc_power p) req old_req (ucast gra) (ucast old_gra),
             arbiter_vc_req := rs, arbiter_vc_grant := gs\<rparr>)
   }"

fun power_call_run :: "port_parm \<Rightarrow> power_call \<Rightarrow> power_template \<Rightarrow> power_template option" where
  "power_call_run P (power_buffer_read i d) = record_buffer_read i d"
| "power_call_run P (power_buffer_write i d) = record_buffer_write P i d"
| "power_call_run P (power_crossbar_trav i j d) = record_crossbar_trav i j d"
| "power_call_run P (power_vc_arbit i j req gra) = record_vc_arbit i j req gra"
| "power_call_run P (power_link_traversal i d) = record_link_traversal i d"

definition power_replay :: "port_parm \<Rightarrow> power_call list \<Rightarrow> power_template \<Rightarrow> power_template option" where
  "power_replay P = foldM (power_call_run P)"

section \<open>Reports\<close>

definition power_arbiter_report :: "power_template \<Rightarrow> real" where
  "power_arbiter_report p = SIM_arbiter_report (arbiter_vc_power p)"

definition power_buffer_report :: "power_template \<Rightarrow> real" where
  "power_buffer_report p = SIM_array_power_report (ri_in_buf_info (router_info p)) (rt_in_buf (router_power p))"

definition power_crossbar_report :: "power_template \<Rightarrow> real" where
  "power_crossbar_report p = SIM_crossbar_report (rt_crossbar (router_power p))"

definition power_link_report :: "power_template \<Rightarrow> real" where
  "power_link_report p = SIM_bus_report (link_power p)"

section \<open>Link energy\<close>

text \<open>The number of bits in which two sequences of words differ, and the bit changes on the links of a router for a
  sequence of flits and ports.\<close>

definition flips :: "u64 list \<Rightarrow> u64 list \<Rightarrow> nat" where
  "flips xs ys = (\<Sum>(x, y)\<leftarrow>zip xs ys. popcount (y XOR x))"

fun link_flips :: "(int \<Rightarrow> u64 list) \<Rightarrow> (int \<times> u64 list) list \<Rightarrow> nat" where
  "link_flips prev [] = 0"
| "link_flips prev ((i, d) # xs) = flips (prev i) d + link_flips (prev(i := d)) xs"

lemma flips_take_Suc: "k < length xs \<Longrightarrow> k < length ys \<Longrightarrow>
    flips (take (Suc k) xs) (take (Suc k) ys) = flips (take k xs) (take k ys) + popcount (ys ! k XOR xs ! k)"
  by (simp add: flips_def take_Suc_conv_app_nth)

definition link_ok :: "int \<Rightarrow> int \<Rightarrow> power_template \<Rightarrow> bool" where
  "link_ok n m p \<longleftrightarrow> shape (link_traversal p) n m \<and> pw_flit_size p = m \<and> 0 \<le> m \<and> bus_mask (link_power p) = BIGNONE"

lemma record_link_row:
  assumes "link_ok n m p" "0 \<le> i" "i < n" "int (length d) = m"
  shows "\<exists>p'. record_link_traversal i d p = Some p' \<and> link_ok n m p' \<and> look (link_traversal p') = (look (link_traversal p))(i := d) \<and>
      link_power p' = (link_power p)\<lparr>bus_n_switch := bus_n_switch (link_power p) + of_nat (flips (look (link_traversal p) i) d)\<rparr>"
proof -
  define row where "row = look (link_traversal p) i"
  have sh: "shape (link_traversal p) n m" "int (length (link_traversal p)) = n" using assms(1) by (simp_all add: link_ok_def shape_def)
  have row: "int (length row) = m" "row = link_traversal p ! nat i"
    using sh(1) assms(2,3) by (auto simp: row_def look_def vat_def shape_def)
  define I where "I = (\<lambda>l q. q = p\<lparr>link_power := (link_power p)\<lparr>bus_n_switch := bus_n_switch (link_power p)
      + of_nat (flips (take (nat l) row) (take (nat l) d))\<rparr>, link_traversal := put (link_traversal p) i (take (nat l) d @ drop (nat l) row)\<rparr>)"
  have "ok (foldM (power_link_word i d) [0..m - 1] p) (I m)"
  proof (rule foldM_upto)
    show "0 \<le> m" using assms(1) by (simp add: link_ok_def)
    show "I 0 p"
      using assms(2,3) sh row(2) by (cases p) (simp add: I_def flips_def put_def)
  next
    fix l q
    assume l: "0 \<le> l" "l < m" and I: "I l q"
    let ?k = "nat l"
    have k: "?k < length row" "?k < length d" "nat (l + 1) = Suc ?k" using l row(1) assms(4) by linarith+
    have i: "nat i < length (link_traversal p)" using assms(2,3) sh(2) by linarith
    have old: "vat2 (link_traversal q) i l = Some (row ! ?k)"
      using I k i assms(2,3) sh(2) l by (simp add: I_def vat2_def vat_def put_def nth_append min_def)
    have new: "vat d l = Some (d ! ?k)" using k l by (simp add: vat_def)
    have "(take ?k d @ drop ?k row)[?k := d ! ?k] = take (Suc ?k) d @ drop (Suc ?k) row"
      using k by (simp add: list_update_append take_Suc_conv_app_nth Cons_nth_drop_Suc [symmetric] min_def)
    then have upd: "vupd2 (link_traversal q) i l (\<lambda>_. d ! ?k) = Some (put (link_traversal p) i (take (Suc ?k) d @ drop (Suc ?k) row))"
      using I k i assms(2,3) sh(2) l by (simp add: I_def vupd2_def vupd_def vat_def put_def min_def)
    have mask: "bus_mask (link_power p) = BIGNONE" using assms(1) by (simp add: link_ok_def)
    have "ucast (SIM_power_Hamming (d ! ?k) (row ! ?k) BIGNONE) = (of_nat (popcount (d ! ?k XOR row ! ?k)) :: u64)"
    proof -
      have "unat (SIM_power_Hamming (d ! ?k) (row ! ?k) BIGNONE) = popcount (d ! ?k XOR row ! ?k)"
        by (simp add: Hamming_popcount BIGNONE_def)
      then show ?thesis by (metis of_nat_unat)
    qed
    then show "ok (power_link_word i d l q) (I (l + 1))"
      using I old new upd mask k
      by (simp add: power_link_word_def I_def SIM_bus_record_def flips_take_Suc)
  qed
  then obtain q where q: "foldM (power_link_word i d) [0..m - 1] p = Some q" "I m q" by (auto simp: ok_def)
  have full: "take (nat m) d = d" "take (nat m) row = row" "drop (nat m) row = []" using row(1) assms(4) by auto
  have "look (put (link_traversal p) i d) = (look (link_traversal p))(i := d)" by (rule look_put) (use assms(2,3) sh(2) in simp_all)
  moreover have "shape (put (link_traversal p) i d) n m"
    using sh assms(4) by (auto simp: shape_def put_def dest: set_update_subset_insert [THEN subsetD])
  moreover have "q = p\<lparr>link_power := (link_power p)\<lparr>bus_n_switch := bus_n_switch (link_power p) + of_nat (flips row d)\<rparr>,
      link_traversal := put (link_traversal p) i d\<rparr>"
    using q(2) unfolding I_def full by simp
  ultimately show ?thesis
    using q(1) assms(1) by (simp add: record_link_traversal_def link_ok_def row_def)
qed

lemma replay_links:
  assumes "link_ok n m p" "\<forall>(i, d) \<in> set xs. 0 \<le> i \<and> i < n \<and> int (length d) = m"
  shows "\<exists>p'. power_replay P (map (\<lambda>(i, d). power_link_traversal i d) xs) p = Some p' \<and>
      link_power p' = (link_power p)\<lparr>bus_n_switch := bus_n_switch (link_power p) + of_nat (link_flips (look (link_traversal p)) xs)\<rparr>"
  using assms
proof (induction xs arbitrary: p)
  case (Cons x xs)
  obtain i d where x: "x = (i, d)" by (cases x)
  from record_link_row [OF Cons.prems(1), of i d] Cons.prems(2) x
  obtain q where q: "record_link_traversal i d p = Some q" "link_ok n m q" "look (link_traversal q) = (look (link_traversal p))(i := d)"
      "link_power q = (link_power p)\<lparr>bus_n_switch := bus_n_switch (link_power p) + of_nat (flips (look (link_traversal p) i) d)\<rparr>"
    by auto
  from Cons.IH [OF q(2)] Cons.prems(2) obtain p' where "power_replay P (map (\<lambda>(i, d). power_link_traversal i d) xs) q = Some p'"
      "link_power p' = (link_power q)\<lparr>bus_n_switch := bus_n_switch (link_power q) + of_nat (link_flips (look (link_traversal q)) xs)\<rparr>"
    by auto
  then show ?case using q x by (simp add: power_replay_def)
qed (auto simp: power_replay_def)

lemma generic_bus_init:
  "\<exists>bus. SIM_bus_init T zero_bus GENERIC_BUS IDENT_ENC ATOM_WIDTH 0 1 1 len 0 = Some (bus, 0) \<and> bus_mask bus = BIGNONE \<and> bus_n_switch bus = 0"
proof -
  have "SIM_bus_bitwidth IDENT_ENC ATOM_WIDTH ATOM_WIDTH = Some ATOM_WIDTH" by (simp add: SIM_bus_bitwidth_def IDENT_ENC_def BUS_MAX_ENC_def)
  moreover have "HAMM_MASK ATOM_WIDTH = BIGNONE" by (simp add: HAMM_MASK_def ATOM_WIDTH_def BIGNONE_def)
  moreover have "GENERIC_BUS \<noteq> 0 \<and> GENERIC_BUS < BUS_MAX_MODEL \<and> GENERIC_BUS \<noteq> RESULT_BUS \<and> IDENT_ENC \<noteq> 0 \<and> IDENT_ENC < BUS_MAX_ENC"
    by (simp add: GENERIC_BUS_def RESULT_BUS_def BUS_MAX_MODEL_def IDENT_ENC_def BUS_MAX_ENC_def)
  ultimately show ?thesis by (simp add: SIM_bus_init_def Let_def)
qed

lemma power_init_link:
  assumes "power_template_init T P len a b c = Some p" "0 \<le> c"
  shows "0 \<le> a \<Longrightarrow> link_ok a c p" "bus_n_switch (link_power p) = 0" "\<And>i. 0 \<le> i \<Longrightarrow> i < a \<Longrightarrow> look (link_traversal p) i = replicate (nat c) 0"
proof -
  obtain bus where b: "SIM_bus_init T zero_bus GENERIC_BUS IDENT_ENC ATOM_WIDTH 0 1 1 len 0 = Some (bus, 0)" "bus_mask bus = BIGNONE" "bus_n_switch bus = 0"
    using generic_bus_init by blast
  from assms(1) b(1) have bus: "link_power p = bus" "link_traversal p = replicate (nat a) (replicate (nat c) 0)" "pw_flit_size p = c"
    by (auto simp: power_template_init_def Let_def split: bind_splits)
  then show "0 \<le> a \<Longrightarrow> link_ok a c p" "bus_n_switch (link_power p) = 0" "\<And>i. 0 \<le> i \<Longrightarrow> i < a \<Longrightarrow> look (link_traversal p) i = replicate (nat c) 0"
    using b(2,3) assms(2) by (simp_all add: link_ok_def look_replicate)
qed

lemma power_init_example: "\<exists>p. power_template_init build_tech SIM_port 1000 5 2 1 = Some p"
proof -
  have "parm_ok SIM_port" by (simp add: parm_ok_def SIM_port_def MATRIX_ARBITER_def QUEUE_ARBITER_def)
  then obtain info rp where m: "mainpe__power___SIM_router_power_init build_tech SIM_port zero_router_info zero_router = Some (info, rp)"
    using module_init_result by blast
  obtain arb err where arb: "SIM_arbiter_init build_tech zero_arbiter 1 1 (word_of_int (5 * 2)) 0 zero_info = Some (arb, zero_info, err)"
    using arbiter_init_Some [of 1 build_tech zero_arbiter 1 "word_of_int (5 * 2)" 0 zero_info] by (auto simp: QUEUE_ARBITER_def)
  obtain bus where bus: "SIM_bus_init build_tech zero_bus GENERIC_BUS IDENT_ENC ATOM_WIDTH 0 1 1 1000 0 = Some (bus, 0)"
    using generic_bus_init by blast
  show ?thesis
    using m arb bus unfolding power_template_init_def Let_def by simp
qed

section \<open>Properties\<close>

text \<open>
  The reported link energy of a router is the switching energy of the link times the number of bits that change
  on its links. For every sequence of flits over the ports of a freshly constructed module, the recording is
  defined, and the report counts, for each flit, the bits in which it differs from the previous flit on the same port
  (the first one from zero), unless the 64-bit counter wraps.
\<close>

theorem power_link_energy:
  assumes "power_template_init T P len a b c = Some p" "0 \<le> c" "\<forall>(i, d) \<in> set xs. 0 \<le> i \<and> i < a \<and> int (length d) = c"
    "link_flips (\<lambda>_. replicate (nat c) 0) xs < 2 ^ 64"
  shows "\<exists>p'. power_replay P (map (\<lambda>(i, d). power_link_traversal i d) xs) p = Some p' \<and>
     power_link_report p' = real (link_flips (\<lambda>_. replicate (nat c) 0) xs) * bus_e_switch (link_power p)"
proof (cases "xs = []")
  case True
  then show ?thesis
    using power_init_link(2) [OF assms(1,2)] by (simp add: power_replay_def power_link_report_def SIM_bus_report_def)
next
  case False
  then have a: "0 \<le> a" using assms(3) by (cases xs) auto
  note i = power_init_link(1) [OF assms(1,2) a] power_init_link(2,3) [OF assms(1,2)]
  have cong: "link_flips f xs = link_flips g xs" if "\<And>i. 0 \<le> i \<Longrightarrow> i < a \<Longrightarrow> f i = g i" for f g
    using that assms(3)
  proof (induction xs arbitrary: f g)
    case (Cons x xs)
    obtain j d where x: "x = (j, d)" by (cases x)
    have "(f(j := d)) i = (g(j := d)) i" if "0 \<le> i" "i < a" for i using Cons.prems(1) that by simp
    moreover have "\<forall>(i, d) \<in> set xs. 0 \<le> i \<and> i < a \<and> int (length d) = c" using Cons.prems(2) by simp
    ultimately have "link_flips (f(j := d)) xs = link_flips (g(j := d)) xs" by (rule Cons.IH)
    moreover have "f j = g j" using Cons.prems x by simp
    ultimately show ?case using x by simp
  qed simp
  have e: "link_flips (look (link_traversal p)) xs = link_flips (\<lambda>_. replicate (nat c) 0) xs" by (rule cong) (rule i(3))
  from replay_links [OF i(1) assms(3), of P] obtain p' where "power_replay P (map (\<lambda>(i, d). power_link_traversal i d) xs) p = Some p'"
      "link_power p' = (link_power p)\<lparr>bus_n_switch := of_nat (link_flips (\<lambda>_. replicate (nat c) 0) xs)\<rparr>"
    using i(2) e by auto
  moreover have "unat (of_nat (link_flips (\<lambda>_. replicate (nat c) 0) xs) :: u64) = link_flips (\<lambda>_. replicate (nat c) 0) xs"
    using assms(4) by (simp add: unsigned_of_nat take_bit_nat_eq_self)
  ultimately show ?thesis by (simp add: power_link_report_def SIM_bus_report_def)
qed

theorem power_link_energy_witness:
  "\<exists>p p'. power_template_init build_tech SIM_port 1000 5 2 1 = Some p \<and>
     power_replay SIM_port [power_link_traversal 1 [15], power_link_traversal 2 [1], power_link_traversal 1 [12]] p = Some p' \<and>
     power_link_report p' = 7 * bus_e_switch (link_power p)"
proof -
  obtain p where p: "power_template_init build_tech SIM_port 1000 5 2 1 = Some p" using power_init_example by blast
  have n: "link_flips (\<lambda>_. replicate (nat 1) 0) [(1, [15]), (2, [1]), (1, [12])] = 7"
    by (simp add: flips_def popcount_def upt_conv_Cons bit_numeral_rec del: bit_1_iff)
  from power_link_energy [OF p, of "[(1, [15]), (2, [1]), (1, [12])]"] show ?thesis using p unfolding n by auto
qed



end
