(* ===== verification/Popnet_Network.thy ===== *)
theory Popnet_Network
  imports Popnet_Reach Popnet_Config Popnet_Power
begin

text \<open>
  The network and its driver: the routers and the global trace (\<^verbatim>\<open>sim_foundation.cc\<close>), the event loop (\<^verbatim>\<open>mess_queue.cc\<close>) and the
  main program. The file system is a parameter, a function from names to traces. The state is the network and the
  objects that the routers share: event queue, generator and delay log.
\<close>

section \<open>Construction\<close>

record sim_foundation =
  inter_network :: "sim_router_template list"
  sf_ary_size :: int
  sf_cube_size :: int
  router_counter :: int
  sf_packet_counter :: int
  inFile :: trace

type_synonym net = "sim_foundation \<times> sim_shared"

text \<open>The name of a router's local trace.\<close>

definition local_name :: "string \<Rightarrow> add_type \<Rightarrow> string" where
  "local_name base a = foldl (\<lambda>name x. name @ ''.'' @ show_long x) base a"

text \<open>The address after \<open>a\<close>: the last digit is incremented, and carries run from the last digit to the first.\<close>

definition carry_digit :: "int \<Rightarrow> int \<Rightarrow> add_type \<Rightarrow> add_type option" where
  "carry_digit n j a = do {
     x \<leftarrow> vat a j;
     if x = n then do { a \<leftarrow> vupd a j (\<lambda>_. 0); vupd a (j - 1) (\<lambda>y. y + 1) } else Some a
   }"

definition next_add :: "int \<Rightarrow> int \<Rightarrow> add_type \<Rightarrow> add_type option" where
  "next_add n c a = do {
     a \<leftarrow> vupd a (c - 1) (\<lambda>x. x + 1);
     foldM (carry_digit n) (rev [1..c - 1]) a
   }"

definition phy_ports :: "configuration \<Rightarrow> int" where
  "phy_ports cf = (let p = cube_number cf * 2 + 1
     in if cf_routing_alg cf = 3 then max p (cube_number cf * cube_number cf) + 1 else p)"

definition router_total :: "int \<Rightarrow> int \<Rightarrow> int" where
  "router_total n c = fold (\<lambda>_ k. k * n) [0..c - 2] n"

definition add_router :: "configuration \<Rightarrow> int \<Rightarrow> (string \<Rightarrow> trace option) \<Rightarrow> int
    \<Rightarrow> sim_router_template list \<times> add_type \<times> SRGen \<Rightarrow> (sim_router_template list \<times> add_type \<times> SRGen) option" where
  "add_router cf fsize files i p = (case p of (rs, a, g) \<Rightarrow> do {
     (r, g) \<leftarrow> sim_router_init (phy_ports cf) (virtual_channel_number cf) (cf_buffer_size cf) (cf_outbuffer_size cf) a
        (ary_number cf) fsize (cf_routing_alg cf) (files (local_name (trace_fname cf) a)) g;
     a \<leftarrow> next_add (ary_number cf) (cube_number cf) a;
     Some (rs @ [r], a, g)
   })"

text \<open>The first number of the global trace is the time of the first packet; without one the time has no value.\<close>

definition init_file :: "configuration \<Rightarrow> (string \<Rightarrow> trace option) \<Rightarrow> net \<Rightarrow> net option" where
  "init_file cf files n = do {
     f \<leftarrow> files (trace_fname cf);
     (case f of [] \<Rightarrow> None
      | t # f \<Rightarrow> Some ((fst n)\<lparr>inFile := f\<rparr>, (snd n)\<lparr>mess_q := add_message (mess_event_timed t EVG) (mess_q (snd n))\<rparr>))
   }"

definition sim_foundation_init :: "configuration \<Rightarrow> (string \<Rightarrow> trace option) \<Rightarrow> sim_shared \<Rightarrow> net option" where
  "sim_foundation_init cf files sh = do {
     fsize \<leftarrow> cf_flit_size cf;
     let total = router_total (ary_number cf) (cube_number cf);
     (rs, _, g) \<leftarrow> foldM (add_router cf fsize files) [0..total - 1] ([], replicate (nat (cube_number cf)) 0, srgen sh);
     init_file cf files
       (\<lparr>inter_network = rs, sf_ary_size = ary_number cf, sf_cube_size = cube_number cf, router_counter = total,
         sf_packet_counter = 0, inFile = []\<rparr>, sh\<lparr>srgen := g\<rparr>)
   }"

text \<open>
  The objects of the main program: the generator is seeded by the configuration (the library's sequence for a seed is a
  parameter), and the queue starts with the first cycle.
\<close>

definition main_init :: "(int \<Rightarrow> nat \<Rightarrow> nat) \<Rightarrow> configuration \<Rightarrow> (string \<Rightarrow> trace option) \<Rightarrow> net option" where
  "main_init rnd cf files = sim_foundation_init cf files
     \<lparr>mess_q = mess_queue_init TIME_0, srgen = \<lparr>draws = rnd (ran_seed cf), drawn = 0\<rparr>, delay_info = []\<rparr>"

section \<open>Routers by address\<close>

definition add_index :: "int \<Rightarrow> add_type \<Rightarrow> int option" where
  "add_index n a = (case a of [] \<Rightarrow> None | x # xs \<Rightarrow> Some (foldl (\<lambda>i y. i * n + y) x xs))"

definition router_of :: "sim_foundation \<Rightarrow> add_type \<Rightarrow> sim_router_template option" where
  "router_of sf a = do { i \<leftarrow> add_index (sf_ary_size sf) a; vat (inter_network sf) i }"

text \<open>An operation on the router at a position, with the shared objects.\<close>

definition at_router :: "int \<Rightarrow> (rs \<Rightarrow> rs option) \<Rightarrow> net \<Rightarrow> net option" where
  "at_router i f n = do {
     r \<leftarrow> vat (inter_network (fst n)) i;
     (r, sh) \<leftarrow> f (r, snd n);
     rs \<leftarrow> vupd (inter_network (fst n)) i (\<lambda>_. r);
     Some ((fst n)\<lparr>inter_network := rs\<rparr>, sh)
   }"

definition on_router :: "add_type \<Rightarrow> (rs \<Rightarrow> rs option) \<Rightarrow> net \<Rightarrow> net option" where
  "on_router a f n = do { i \<leftarrow> add_index (sf_ary_size (fst n)) a; at_router i f n }"

definition valid_address :: "sim_foundation \<Rightarrow> add_type \<Rightarrow> bool" where
  "valid_address sf a \<longleftrightarrow> int (length a) = sf_cube_size sf \<and> list_all (\<lambda>x. \<not> (x \<ge> sf_ary_size sf \<or> x < 0)) a"

section \<open>Messages\<close>

definition post :: "mess_event \<Rightarrow> net \<Rightarrow> net" where
  "post e n = (fst n, (snd n)\<lparr>mess_q := add_message e (mess_q (snd n))\<rparr>)"

text \<open>A number that has to be there: reading at the end of the file fails an assertion.\<close>

definition need :: "('a option \<times> trace) option \<Rightarrow> ('a \<times> trace) option" where
  "need r = do { (x, f) \<leftarrow> r; map_option (\<lambda>v. (v, f)) x }"

definition receive_EVG_message :: "popnet_env \<Rightarrow> mess_event \<Rightarrow> net \<Rightarrow> net option" where
  "receive_EVG_message E mesg n = do {
     let c = nat (sf_cube_size (fst n));
     (sor_addr_t, f) \<leftarrow> need (read_addr c (inFile (fst n)));
     (des_addr_t, f) \<leftarrow> need (read_addr c f);
     (pack_size_t, f) \<leftarrow> need (read_long f);
     n \<leftarrow> on_router sor_addr_t (receive_packet E c) n;
     let n = ((fst n)\<lparr>sf_packet_counter := sf_packet_counter (fst n) + 1, inFile := tl f\<rparr>, snd n);
     Some (case f of [] \<Rightarrow> n | t # _ \<Rightarrow> post (mess_event_timed t EVG) n)
   }"

definition receive_ROUTER_message :: "popnet_env \<Rightarrow> vc_share_type \<Rightarrow> mess_event \<Rightarrow> net \<Rightarrow> net option" where
  "receive_ROUTER_message E share mesg n =
     foldM (\<lambda>i. at_router i (router_sim_pwr E (nat (sf_cube_size (fst n))) share)) [0..router_counter (fst n) - 1]
       (post (mess_event_timed (event_start mesg + PIPE_DELAY) ROUTER) n)"

definition receive_WIRE_message :: "mess_event \<Rightarrow> net \<Rightarrow> net option" where
  "receive_WIRE_message mesg = on_router (ev_des mesg) (receive_flit (ev_pc mesg) (ev_vc mesg) (get_flit mesg))"

definition receive_CREDIT_message :: "mess_event \<Rightarrow> net \<Rightarrow> net option" where
  "receive_CREDIT_message mesg = on_router (ev_des mesg) (receive_credit (ev_pc mesg) (ev_vc mesg))"

section \<open>The event loop\<close>

text \<open>The local variables of the loop, and the progress lines it has printed: time, incoming and finished packets.\<close>

record simulation =
  network :: net
  report_t :: time_type
  total_incoming :: int
  printed :: "(time_type \<times> int \<times> int) list"

abbreviation queue_of :: "simulation \<Rightarrow> mess_queue" where
  "queue_of s \<equiv> mess_q (snd (network s))"

definition running :: "time_type \<Rightarrow> simulation \<Rightarrow> bool" where
  "running len s \<longleftrightarrow> message_queue_size (queue_of s) > 0 \<and> current_time (queue_of s) \<le> len"

definition progress_line :: "simulation \<Rightarrow> simulation" where
  "progress_line s =
     (let q = queue_of s
      in if current_time q > report_t s
         then s\<lparr>printed := printed s @ [(current_time q, total_incoming s, total_finished q)], report_t := report_t s + REPORT_PERIOD\<rparr>
         else s)"

definition dispatch :: "popnet_env \<Rightarrow> vc_share_type \<Rightarrow> mess_event \<Rightarrow> net \<Rightarrow> net option" where
  "dispatch E share m n = (case event_type m of
       EVG \<Rightarrow> receive_EVG_message E m n
     | ROUTER \<Rightarrow> receive_ROUTER_message E share m n
     | WIRE \<Rightarrow> receive_WIRE_message m n
     | CREDIT \<Rightarrow> receive_CREDIT_message m n)"

definition take_message :: "simulation \<Rightarrow> (mess_event \<times> simulation) option" where
  "take_message s = do {
     m \<leftarrow> get_message (queue_of s);
     q \<leftarrow> remove_top_message (queue_of s);
     if current_time q \<le> event_start m + S_ELPS
     then Some (m, s\<lparr>network := (fst (network s), (snd (network s))\<lparr>mess_q := q\<lparr>current_time := event_start m\<rparr>\<rparr>)\<rparr>)
     else None
   }"

definition simulator_step :: "popnet_env \<Rightarrow> vc_share_type \<Rightarrow> simulation \<Rightarrow> simulation option" where
  "simulator_step E share s = do {
     (m, s) \<leftarrow> take_message s;
     let s = progress_line s;
     n \<leftarrow> dispatch E share m (network s);
     Some (s\<lparr>network := n, total_incoming := total_incoming s + (if event_type m = EVG then 1 else 0)\<rparr>)
   }"

definition simulation_start :: "net \<Rightarrow> simulation" where
  "simulation_start n = \<lparr>network = n, report_t = 0, total_incoming = 0, printed = []\<rparr>"

section \<open>Results\<close>

text \<open>A quotient of floating-point numbers; there is no number for a zero divisor.\<close>

definition quotient :: "real \<Rightarrow> real \<Rightarrow> real option" where
  "quotient a b = (if b = 0 then None else Some (a / b))"

record sim_results =
  res_finished :: int
  res_delay :: "real option"
  res_mem :: "real option"
  res_crossbar :: "real option"
  res_arbiter :: "real option"
  res_link :: "real option"
  res_power :: "real option"

definition router_power_of :: "tech \<Rightarrow> port_parm \<Rightarrow> real \<Rightarrow> sim_router_template \<Rightarrow> power_template option" where
  "router_power_of T P len r = power_template_init T P len (physic_ports r) (vc_number r) (flit_size r) \<bind> power_replay P (power_module r)"

fun mapM :: "('a \<Rightarrow> 'b option) \<Rightarrow> 'a list \<Rightarrow> 'b list option" where
  "mapM f [] = Some []"
| "mapM f (x # xs) = do { y \<leftarrow> f x; ys \<leftarrow> mapM f xs; Some (y # ys) }"

definition simulation_results :: "tech \<Rightarrow> port_parm \<Rightarrow> real \<Rightarrow> net \<Rightarrow> sim_results option" where
  "simulation_results T P len n = do {
     ps \<leftarrow> mapM (router_power_of T P len) (inter_network (fst n));
     let total_delay = sum_list (map total_delay (inter_network (fst n)));
     let tot_f = total_finished (mess_q (snd n));
     let time = current_time (mess_q (snd n));
     let mem = sum_list (map power_buffer_report ps);
     let crossbar = sum_list (map power_crossbar_report ps);
     let arbiter = sum_list (map power_arbiter_report ps);
     let link = sum_list (map power_link_report ps);
     let scaled = (\<lambda>x. map_option (\<lambda>y. y * POWER_NOM) (quotient x time));
     Some \<lparr>res_finished = tot_f, res_delay = quotient total_delay (of_int tot_f), res_mem = scaled mem, res_crossbar = scaled crossbar,
       res_arbiter = scaled arbiter, res_link = scaled link,
       res_power = (if time = 0 then None else Some ((mem / time + crossbar / time + arbiter / time + link / time) * POWER_NOM))\<rparr>
   }"

definition simulation_check :: "sim_foundation \<Rightarrow> check_line list option" where
  "simulation_check sf = foldM (\<lambda>r ls. do { xs \<leftarrow> empty_check r; Some (ls @ xs) }) (inter_network sf) []"

section \<open>Addresses are positions\<close>

text \<open>The position of an address as a sum of weighted digits.\<close>

definition weight :: "int \<Rightarrow> add_type \<Rightarrow> int" where
  "weight n a = (\<Sum>k<length a. a ! k * n ^ (length a - 1 - k))"

lemma weight_Nil [simp]: "weight n [] = 0"
  by (simp add: weight_def)

lemma weight_snoc: "weight n (a @ [x]) = weight n a * n + x"
proof -
  have "(\<Sum>k<length a. (a @ [x]) ! k * n ^ (length a - k)) = (\<Sum>k<length a. a ! k * n ^ (length a - 1 - k)) * n"
    unfolding sum_distrib_right
  proof (rule sum.cong)
    fix k assume "k \<in> {..<length a}"
    then have "length a - k = Suc (length a - 1 - k)" by simp
    then show "(a @ [x]) ! k * n ^ (length a - k) = a ! k * n ^ (length a - 1 - k) * n" using \<open>k \<in> _\<close> by (simp add: nth_append)
  qed simp
  then show ?thesis by (simp add: weight_def)
qed

lemma add_index_weight: "a \<noteq> [] \<Longrightarrow> add_index n a = Some (weight n a)"
proof (induction a rule: rev_induct)
  case (snoc x a)
  then show ?case
  proof (cases a)
    case (Cons y ys)
    then have "foldl (\<lambda>i. (+) (i * n)) y ys = weight n a" using snoc.IH by (simp add: add_index_def)
    moreover have "add_index n (a @ [x]) = Some (foldl (\<lambda>i. (+) (i * n)) y ys * n + x)" using Cons by (simp add: add_index_def)
    ultimately show ?thesis by (simp add: weight_snoc)
  qed (simp add: add_index_def weight_def)
qed simp

lemma weight_update:
  assumes "j < length a"
  shows "weight n (a[j := x]) = weight n a + (x - a ! j) * n ^ (length a - 1 - j)"
proof -
  let ?w = "\<lambda>k. n ^ (length a - 1 - k)"
  have "weight n (a[j := x]) = (\<Sum>k<length a. a ! k * ?w k + (if k = j then (x - a ! j) * ?w j else 0))"
    unfolding weight_def length_list_update by (rule sum.cong) (auto simp: nth_list_update algebra_simps)
  then show ?thesis using assms by (simp add: sum.distrib weight_def)
qed

lemma weight_bound:
  assumes "valid_addr n a" "0 < n"
  shows "0 \<le> weight n a \<and> weight n a < n ^ length a"
  using assms(1)
proof (induction a rule: rev_induct)
  case (snoc x a)
  then have x: "0 \<le> x" "x < n" "0 \<le> weight n a" "weight n a < n ^ length a" by (auto simp: valid_addr_def)
  then have "weight n a * n + x < (weight n a + 1) * n" by (simp add: algebra_simps)
  also have "\<dots> \<le> n ^ length a * n" using x assms(2) by (intro mult_right_mono) auto
  finally show ?case using x assms(2) by (simp add: weight_snoc mult.commute)
qed simp

lemma weight_inject:
  assumes "valid_addr n a" "valid_addr n b" "length a = length b" "weight n a = weight n b"
  shows "a = b"
  using assms
proof (induction a arbitrary: b rule: rev_induct)
  case (snoc x a)
  obtain c y where b: "b = c @ [y]" using snoc.prems(3) by (cases b rule: rev_cases) auto
  have x: "0 \<le> x" "x < n" "0 \<le> y" "y < n" "valid_addr n a" "valid_addr n c" using snoc.prems b by (auto simp: valid_addr_def)
  have e: "weight n a * n + x = weight n c * n + y" using snoc.prems(4) b by (simp add: weight_snoc)
  have "x = (weight n a * n + x) mod n" "y = (weight n c * n + y) mod n" using x by (simp_all add: mod_pos_pos_trivial)
  then have "x = y" using e by metis
  moreover have "a = c" using snoc.IH [of c] x e b snoc.prems(3) \<open>x = y\<close> by auto
  ultimately show ?case using b by simp
qed simp

text \<open>Incrementing an address: between two carries the digits behind \<open>j\<close> are in range.\<close>

definition carrying :: "int \<Rightarrow> nat \<Rightarrow> int \<Rightarrow> int \<Rightarrow> add_type \<Rightarrow> bool" where
  "carrying n c w j a \<longleftrightarrow> length a = c \<and> weight n a = w \<and>
     (\<forall>k < c. 0 \<le> a ! k \<and> a ! k \<le> (if int k = j then n else n - 1))"

lemma carry_digit_ok:
  assumes "carrying n c w j a" "1 \<le> j" "j < int c" "1 \<le> n"
  shows "ok (carry_digit n j a) (carrying n c w (j - 1))"
proof -
  let ?k = "nat j"
  have k: "?k < length a" "length a = c" "1 \<le> ?k" "nat (j - 1) = ?k - 1" "int (?k - 1) = j - 1" "int ?k = j"
    using assms by (auto simp: carrying_def)
  have dg: "0 \<le> a ! k" "int k \<noteq> j \<Longrightarrow> a ! k \<le> n - 1" "a ! ?k \<le> n" if "k < c" for k
    using assms(1) that k by (auto simp: carrying_def split: if_splits)
  show ?thesis
  proof (cases "a ! ?k = n")
    case True
    define b where "b = a[?k := 0, ?k - 1 := a ! (?k - 1) + 1]"
    have p: "?k - 1 < length (a[?k := 0])" "a[?k := 0] ! (?k - 1) = a ! (?k - 1)" using k by auto
    have e: "length a - 1 - (?k - 1) = Suc (length a - 1 - ?k)" using k(1,3) by linarith
    have "weight n b = weight n a"
    proof -
      have "weight n b = weight n a + (0 - n) * n ^ (length a - 1 - ?k) + 1 * n ^ (length a - 1 - (?k - 1))"
        unfolding b_def weight_update [OF p(1)] weight_update [OF k(1)] p(2) using True by simp
      then show ?thesis unfolding e by simp
    qed
    moreover have "carry_digit n j a = Some b"
      using k p True assms(2,3) by (simp add: carry_digit_def vat_def vupd_def b_def)
    moreover have "0 \<le> b ! m \<and> b ! m \<le> (if int m = j - 1 then n else n - 1)" if "m < c" for m
      using dg [OF that] dg [of "?k - 1"] that k assms(4) by (auto simp: b_def nth_list_update)
    ultimately show ?thesis using assms(1) by (simp add: carrying_def b_def)
  next
    case False
    then have "carry_digit n j a = Some a" using k by (simp add: carry_digit_def vat_def)
    moreover have "a ! m \<le> n - 1" if "m < c" for m using dg [OF that] False k by (cases "m = ?k") auto
    moreover have "n - 1 \<le> n" by simp
    ultimately show ?thesis using assms(1) dg(1) by (fastforce simp: carrying_def)
  qed
qed

lemma carries_ok:
  assumes "carrying n c w j a" "0 \<le> j" "j < int c" "1 \<le> n"
  shows "ok (foldM (carry_digit n) (rev [1..j]) a) (carrying n c w 0)"
  using assms
proof (induction "nat j" arbitrary: j a)
  case (Suc m)
  then have j: "1 \<le> j" "m = nat (j - 1)" by simp_all
  have u: "rev [1..j] = j # rev [1..j - 1]" using j(1) by (simp add: upto_rec2)
  from carry_digit_ok [OF Suc.prems(1) j(1) Suc.prems(3,4)] obtain b where b: "carry_digit n j a = Some b" "carrying n c w (j - 1) b"
    by (auto simp: ok_def)
  have "ok (foldM (carry_digit n) (rev [1..j - 1]) b) (carrying n c w 0)"
    by (rule Suc.hyps(1) [OF j(2) b(2)]) (use j Suc.prems in auto)
  then show ?case using u b(1) by simp
qed auto

lemma next_add_ok:
  assumes "valid_addr n a" "length a = nat c" "1 \<le> c" "1 \<le> n"
  shows "ok (next_add n c a) (\<lambda>b. length b = length a \<and> weight n b = weight n a + 1 \<and> (weight n b < n ^ length a \<longrightarrow> valid_addr n b))"
proof -
  let ?k = "nat (c - 1)"
  define b where "b = a[?k := a ! ?k + 1]"
  have k: "?k < length a" "length a - 1 - ?k = 0" "int ?k = c - 1" using assms by auto
  have up: "vupd a (c - 1) (\<lambda>x. x + 1) = Some b" using k assms by (simp add: vupd_def b_def)
  have "carrying n (nat c) (weight n a + 1) (c - 1) b"
    unfolding carrying_def
  proof (intro conjI allI impI)
    fix m assume m: "m < nat c"
    then have "0 \<le> a ! m \<and> a ! m < n" using assms(1,2) by (simp add: valid_addr_def)
    then show "0 \<le> b ! m" "b ! m \<le> (if int m = c - 1 then n else n - 1)" using m assms(2) k by (auto simp: b_def nth_list_update)
  qed (use assms k weight_update [OF k(1), of n "a ! ?k + 1"] in \<open>simp_all add: b_def\<close>)
  from carries_ok [OF this] assms have "ok (foldM (carry_digit n) (rev [1..c - 1]) b) (carrying n (nat c) (weight n a + 1) 0)" by simp
  then obtain d where d: "foldM (carry_digit n) (rev [1..c - 1]) b = Some d" "carrying n (nat c) (weight n a + 1) 0 d"
    by (auto simp: ok_def)
  have "valid_addr n d" if "weight n d < n ^ length a"
  proof -
    obtain x ys where x: "d = x # ys" using d(2) assms by (cases d) (auto simp: carrying_def)
    have dg: "0 \<le> d ! k" "d ! k \<le> (if k = 0 then n else n - 1)" if "k < length d" for k using d(2) that by (auto simp: carrying_def split: if_splits)
    have v: "valid_addr n ys" using dg x by (auto simp: valid_addr_def in_set_conv_nth) (metis Suc_less_eq dg(1) length_Cons nth_Cons_Suc, metis One_nat_def Suc_less_eq add_diff_cancel_left' diff_Suc_1' dg(2) int_ops(2) length_Cons nat.distinct(1) nth_Cons_Suc zle_diff1_eq)
    have "x \<noteq> n"
    proof
      assume "x = n"
      have "weight n d = x * n ^ length ys + weight n ys"
        unfolding x weight_def by (simp add: sum.lessThan_Suc_shift del: sum.lessThan_Suc)
      moreover have "0 \<le> weight n ys" using weight_bound [OF v] assms(4) by simp
      moreover have "length a = Suc (length ys)" using d(2) x assms(2) by (simp add: carrying_def)
      ultimately show False using that \<open>x = n\<close> by simp
    qed
    then show ?thesis using v x dg [of 0] by (auto simp: valid_addr_def)
  qed
  then show ?thesis using up d by (auto simp: next_add_def carrying_def assms(2))
qed

lemma router_total_power: "1 \<le> c \<Longrightarrow> router_total n c = n ^ nat c"
proof -
  have "fold (\<lambda>_ k. k * n) xs m = m * n ^ length xs" for xs :: "int list" and m by (induction xs arbitrary: m) (simp_all add: ac_simps)
  moreover assume "1 \<le> c"
  then have "nat c = Suc (nat (c - 1))" "length [0..c - 2] = nat (c - 1)" by simp_all
  ultimately show ?thesis by (simp add: router_total_def)
qed

lemma sim_router_init_address: "sim_router_init a b c d e f g alg file r = Some (rt, r') \<Longrightarrow> address rt = e"
  by (auto simp: sim_router_init_def split: bind_splits)

text \<open>The network under construction: the router at position \<open>k\<close> has the address of weight \<open>k\<close>.\<close>

definition addressed :: "int \<Rightarrow> nat \<Rightarrow> sim_router_template list \<Rightarrow> bool" where
  "addressed n c rs \<longleftrightarrow> (\<forall>k < length rs. valid_addr n (address (rs ! k)) \<and> length (address (rs ! k)) = c \<and> weight n (address (rs ! k)) = int k)"

lemma addressed_snoc: "addressed n c rs \<Longrightarrow> valid_addr n (address r) \<Longrightarrow> length (address r) = c \<Longrightarrow> weight n (address r) = int (length rs) \<Longrightarrow>
    addressed n c (rs @ [r])"
  by (auto simp: addressed_def nth_append less_Suc_eq)

lemma add_routers_addressed:
  assumes "foldM (add_router cf fsize files) xs (rs, a, g) = Some (rs', a', g')" "1 \<le> cube_number cf" "1 \<le> ary_number cf"
    and "addressed (ary_number cf) (nat (cube_number cf)) rs" "length a = nat (cube_number cf)" "weight (ary_number cf) a = int (length rs)"
    and "int (length rs + length xs) \<le> ary_number cf ^ nat (cube_number cf)"
    and "int (length rs) < ary_number cf ^ nat (cube_number cf) \<longrightarrow> valid_addr (ary_number cf) a"
  shows "addressed (ary_number cf) (nat (cube_number cf)) rs' \<and> length rs' = length rs + length xs"
  using assms
proof (induction xs arbitrary: rs a g)
  case (Cons x xs)
  from Cons.prems(1) obtain q where q: "add_router cf fsize files x (rs, a, g) = Some q" "foldM (add_router cf fsize files) xs q = Some (rs', a', g')"
    by (auto split: bind_splits)
  then obtain r g1 b where r: "sim_router_init (phy_ports cf) (virtual_channel_number cf) (cf_buffer_size cf) (cf_outbuffer_size cf) a
        (ary_number cf) fsize (cf_routing_alg cf) (files (local_name (trace_fname cf) a)) g = Some (r, g1)"
      "next_add (ary_number cf) (cube_number cf) a = Some b" "foldM (add_router cf fsize files) xs (rs @ [r], b, g1) = Some (rs', a', g')"
    by (auto simp: add_router_def split: bind_splits)
  have v: "valid_addr (ary_number cf) a" using Cons.prems(7,8) by simp
  have b: "length b = length a" "weight (ary_number cf) b = weight (ary_number cf) a + 1"
      "weight (ary_number cf) b < ary_number cf ^ length a \<longrightarrow> valid_addr (ary_number cf) b"
    using ok_Some_D [OF next_add_ok [OF v Cons.prems(5,2,3)] r(2)] by simp_all
  have "addressed (ary_number cf) (nat (cube_number cf)) (rs @ [r])"
    using addressed_snoc [OF Cons.prems(4)] v Cons.prems(5,6) sim_router_init_address [OF r(1)] by simp
  from Cons.IH [OF r(3) Cons.prems(2,3) this] show ?case using b Cons.prems(5-7) by simp
qed simp

lemma sim_foundation_addressed:
  assumes "sim_foundation_init cf files sh = Some n" "1 \<le> cube_number cf" "1 \<le> ary_number cf"
  shows "addressed (ary_number cf) (nat (cube_number cf)) (inter_network (fst n)) \<and> int (length (inter_network (fst n))) = ary_number cf ^ nat (cube_number cf) \<and>
    sf_ary_size (fst n) = ary_number cf \<and> sf_cube_size (fst n) = cube_number cf \<and> router_counter (fst n) = ary_number cf ^ nat (cube_number cf)"
proof -
  let ?t = "router_total (ary_number cf) (cube_number cf)"
  from assms(1) obtain fsize rs a g f where c: "foldM (add_router cf fsize files) [0..?t - 1] ([], replicate (nat (cube_number cf)) 0, srgen sh) = Some (rs, a, g)"
      "fst n = \<lparr>inter_network = rs, sf_ary_size = ary_number cf, sf_cube_size = cube_number cf, router_counter = ?t, sf_packet_counter = 0, inFile = f\<rparr>"
    by (auto simp: sim_foundation_init_def init_file_def Let_def split: bind_splits list.splits)
  have t: "?t = ary_number cf ^ nat (cube_number cf)" "1 \<le> ?t" using assms(2,3) by (simp_all add: router_total_power)
  have "weight m (replicate k 0) = 0" for m k by (simp add: weight_def)
  then have "addressed (ary_number cf) (nat (cube_number cf)) rs \<and> length rs = nat ?t"
    using add_routers_addressed [OF c(1) assms(2,3)] t assms(3) by (simp add: addressed_def valid_addr_def)
  then show ?thesis using c(2) t by simp
qed

lemma router_of_addressed:
  assumes "addressed n c (inter_network sf)" "int (length (inter_network sf)) = n ^ c" "sf_ary_size sf = n" "1 \<le> n" "1 \<le> c"
    "valid_addr n a" "length a = c"
  shows "\<exists>r. router_of sf a = Some r \<and> address r = a"
proof -
  have w: "0 \<le> weight n a" "weight n a < int (length (inter_network sf))" using weight_bound [OF assms(6)] assms by simp_all
  let ?k = "nat (weight n a)"
  have k: "?k < length (inter_network sf)" using w by linarith
  let ?r = "inter_network sf ! ?k"
  have "address ?r = a" by (rule weight_inject) (use assms k w in \<open>auto simp: addressed_def\<close>)
  moreover have "a \<noteq> []" using assms by auto
  then have "router_of sf a = Some ?r" using w assms(3) by (simp add: router_of_def add_index_weight vat_def)
  ultimately show ?thesis by simp
qed

lemma valid_address_iff: "valid_address sf a \<longleftrightarrow> int (length a) = sf_cube_size sf \<and> valid_addr (sf_ary_size sf) a"
  by (auto simp: valid_address_def valid_addr_def list_all_iff)

section \<open>Properties of the construction\<close>

text \<open>
  C27: routers are found by their address. The constructed network has one router for every address of the
  cube, and looking up a valid address yields the router that was built with this address.
\<close>

theorem router_lookup:
  assumes "sim_foundation_init cf files sh = Some n" "1 \<le> cube_number cf" "1 \<le> ary_number cf"
  shows "int (length (inter_network (fst n))) = ary_number cf ^ nat (cube_number cf) \<and>
    (\<forall>a. valid_address (fst n) a \<longrightarrow> (\<exists>r. router_of (fst n) a = Some r \<and> address r = a))"
proof -
  note i = sim_foundation_addressed [OF assms]
  have "\<exists>r. router_of (fst n) a = Some r \<and> address r = a" if "valid_address (fst n) a" for a
    by (rule router_of_addressed [where n = "ary_number cf" and c = "nat (cube_number cf)"]) (use i assms that in \<open>auto simp: valid_address_iff\<close>)
  then show ?thesis using i by simp
qed

text \<open>A network for the witnesses: two by two routers, flits without data, and one packet.\<close>

definition example_config :: configuration where
  "example_config = configuration_default\<lparr>ary_number := 2, cf_flit_size := Some 0, cf_routing_alg := 1, trace_fname := ''t'', sim_length := 100\<rparr>"

definition example_files :: "string \<Rightarrow> trace option" where
  "example_files name = (if name = ''t'' then Some [3, 0, 0, 1, 0, 1] else if name = ''t.0.0'' then Some [3, 0, 0, 1, 0, 1] else None)"

lemma example_network: "\<exists>n. sim_foundation_init example_config example_files example_shared = Some n"
proof -
  have u: "router_total 2 2 = 4" "[0..3 :: int] = [0, 1, 2, 3]" by (simp_all add: router_total_power upto_rec1)
  show ?thesis
    by (simp add: sim_foundation_init_def example_config_def configuration_default_def u add_router_def next_add_def carry_digit_def
        numeral_2_eq_2 sim_router_init_def init_words_def routing_alg_of_def init_file_def example_files_def)
qed

theorem router_lookup_witness:
  "\<exists>n r. sim_foundation_init example_config example_files example_shared = Some n \<and> router_of (fst n) [1, 0] = Some r \<and> address r = [1, 0]"
proof -
  obtain n where n: "sim_foundation_init example_config example_files example_shared = Some n" using example_network by blast
  have "valid_address (fst n) [1, 0]"
    using sim_foundation_addressed [OF n] by (simp add: valid_address_def example_config_def configuration_default_def)
  then show ?thesis using router_lookup [OF n] n by (simp add: example_config_def configuration_default_def)
qed

lemma local_name_append: "local_name base a = base @ concat (map (\<lambda>x. CHR ''.'' # show_long x) a)"
  by (induction a arbitrary: base) (simp_all add: local_name_def)

lemma show_long_no_point: "CHR ''.'' \<notin> set (show_long n)"
proof -
  have "CHR ''.'' \<notin> set (show_nat k)" for k using show_nat_digits [of k] digit_not [of "CHR ''.''"] by blast
  then show ?thesis by (simp add: show_long_def)
qed

lemma split_at_point:
  assumes "xs @ ys = us @ vs" "p \<notin> set xs" "p \<notin> set us" "ys = [] \<or> hd ys = p" "vs = [] \<or> hd vs = p"
  shows "xs = us \<and> ys = vs"
  using assms by (auto simp: append_eq_append_conv2 Cons_eq_append_conv append_eq_Cons_conv) (metis hd_append2 hd_in_set)+

lemma names_inject:
  assumes "concat (map (\<lambda>x. CHR ''.'' # show_long x) a) = concat (map (\<lambda>x. CHR ''.'' # show_long x) b)"
  shows "a = b"
  using assms
proof (induction a arbitrary: b)
  case (Cons x xs)
  then obtain y ys where b: "b = y # ys" by (cases b) auto
  have hd: "concat (map (\<lambda>x. CHR ''.'' # show_long x) zs) = [] \<or> hd (concat (map (\<lambda>x. CHR ''.'' # show_long x) zs)) = CHR ''.''" for zs
    by (cases zs) auto
  have "show_long x = show_long y \<and> concat (map (\<lambda>x. CHR ''.'' # show_long x) xs) = concat (map (\<lambda>x. CHR ''.'' # show_long x) ys)"
    by (rule split_at_point [where p = "CHR ''.''"]) (use Cons.prems b show_long_no_point hd in simp_all)
  then show ?case using Cons.IH b show_long_inj by blast
qed (metis concat.simps(1) concat_eq_Nil_conv list.distinct(1) list.set_intros(1) list.simps(8) list.simps(9) neq_Nil_conv)

text \<open>
  No two routers read the same local trace: the file names of distinct addresses differ.
\<close>

theorem local_name_injective: "local_name base a = local_name base b \<longleftrightarrow> a = b"
  using names_inject by (auto simp: local_name_append)

end
