(* ===== verification/Popnet_Clock.thy ===== *)
theory Popnet_Clock
  imports Popnet_Network
begin

text \<open>
  The event loop over time: which events an operation may schedule, why the loop ends, and why simulated time does not run
  backwards. None of it depends on the invariant of the routers.
\<close>

section \<open>Operations only schedule later events\<close>

text \<open>
  What an operation may do to the queue at time \<open>t\<close>: add events of time at least \<open>t + 1\<close> that are not packets of the global
  trace. Unlike the router's invariant this holds in every state.
\<close>

definition emits :: "time_type \<Rightarrow> mess_queue \<Rightarrow> mess_queue \<Rightarrow> bool" where
  "emits t q q' \<longleftrightarrow> current_time q' = current_time q \<and> (queue_sorted q \<longrightarrow> queue_sorted q') \<and>
     (\<exists>new. mset (m_q q') = mset (m_q q) + new \<and> (\<forall>e \<in># new. t + 1 \<le> event_start e \<and> event_type e \<noteq> EVG))"

abbreviation later :: "rs \<Rightarrow> rs \<Rightarrow> bool" where
  "later s s' \<equiv> emits (now s) (mess_q (snd s)) (mess_q (snd s'))"

lemma emits_refl [simp]: "emits t q q"
  by (auto simp: emits_def intro!: exI [of _ "{#}"])

lemma emits_trans: "emits t a b \<Longrightarrow> emits t b c \<Longrightarrow> emits t a c"
  unfolding emits_def by (metis (no_types, lifting) add.assoc union_iff)

lemma emits_same: "m_q q' = m_q q \<Longrightarrow> current_time q' = current_time q \<Longrightarrow> emits t q q'"
  by (auto simp: emits_def intro!: exI [of _ "{#}"])

lemma emits_now: "emits t q q' \<Longrightarrow> current_time q' = current_time q"
  by (simp add: emits_def)

lemma emits_add: "t + 1 \<le> event_start e \<Longrightarrow> event_type e \<noteq> EVG \<Longrightarrow> emits t q (add_message e q)"
  unfolding emits_def using mq.insert_invar mq.insert_pending
  by (auto simp: add_message_def intro!: exI [of _ "{#e#}"])

lemma later_trans: "later s t \<Longrightarrow> later t u \<Longrightarrow> later s u"
  using emits_trans [of "now s" "mess_q (snd s)" "mess_q (snd t)" "mess_q (snd u)"] by (simp add: emits_now)

text \<open>Operations that leave the queue alone, and those that only schedule.\<close>

lemma on_input_snd: "on_input f s = Some s' \<Longrightarrow> snd s' = snd s"
  by (auto simp: on_input_def split: bind_splits)

lemma on_output_snd: "on_output f s = Some s' \<Longrightarrow> snd s' = snd s"
  by (auto simp: on_output_def split: bind_splits)

lemma on_power_snd [simp]: "snd (on_power c s) = snd s"
  by (simp add: on_power_def)

lemma draw_l_queue: "draw_l a b s = Some (x, s') \<Longrightarrow> mess_q (snd s') = mess_q (snd s)"
  by (auto simp: draw_l_def split: bind_splits)

lemma draw_ull_queue: "draw_ull a b s = Some (x, s') \<Longrightarrow> mess_q (snd s') = mess_q (snd s)"
  by (auto simp: draw_ull_def split: bind_splits)

lemma pick_queue: "pick xs s = Some (x, s') \<Longrightarrow> mess_q (snd s') = mess_q (snd s)"
  by (auto simp: pick_def dest!: draw_l_queue split: bind_splits if_splits)

lemma gen_data_queue: "gen_data E s = Some (s', d) \<Longrightarrow> mess_q (snd s') = mess_q (snd s)"
  unfolding gen_data_def
  by (drule foldM_invariant [where I = "\<lambda>p. mess_q (snd (fst p)) = mess_q (snd s)"])
    (auto simp: gen_word_def Let_def dest!: draw_ull_queue split: bind_splits)

lemma inject_header_queue: "inject_header fl s = Some (s', v) \<Longrightarrow> mess_q (snd s') = mess_q (snd s)"
  by (auto simp: inject_header_def Let_def dest!: on_input_snd split: bind_splits if_splits)

lemma inject_packet_queue: "inject_packet E a b c d e s = Some s' \<Longrightarrow> mess_q (snd s') = mess_q (snd s)"
proof -
  assume "inject_packet E a b c d e s = Some s'"
  then obtain p where p: "foldM (inject_flit E a b c d e) [0..e - 1] (s, 0) = Some p" "s' = fst p"
    by (auto simp: inject_packet_def split: if_splits)
  have "mess_q (snd (fst p)) = mess_q (snd s)"
    by (rule foldM_invariant [OF p(1), where I = "\<lambda>p. mess_q (snd (fst p)) = mess_q (snd s)"])
      (auto simp: inject_flit_def dest!: on_input_snd inject_header_queue gen_data_queue split: bind_splits if_splits)
  then show ?thesis using p(2) by simp
qed

declare receive_packet_loop.simps [simp del]

text \<open>One round of the injection loop: it stops, or injects a packet and stops or goes on with a shorter trace.\<close>

definition counted :: "rs \<Rightarrow> rs" where
  "counted s = ((fst s)\<lparr>packet_counter := packet_counter (fst s) + 1\<rparr>, snd s)"

lemma receive_packet_loop_cases:
  assumes "receive_packet_loop E k t p s f = Some s'"
  obtains (stop) f' where "s' = ((fst s)\<lparr>localinFile := Some f'\<rparr>, snd s)"
  | (last_one) a b c e s1 where "\<not> ibuff_full (input_module (fst s))" "inject_packet E a b c (local_input_time (fst s)) e s = Some s1"
      "s' = ((fst (counted s1))\<lparr>localinFile := Some []\<rparr>, snd s1)"
  | (more) a b c e s1 t' f4 p' where "\<not> ibuff_full (input_module (fst s))" "inject_packet E a b c (local_input_time (fst s)) e s = Some s1"
      "receive_packet_loop E k t p' ((fst (counted s1))\<lparr>local_input_time := t'\<rparr>, snd s1) f4 = Some s'" "length f4 < length f"
proof -
  note run = assms [unfolded receive_packet_loop.simps [of E k t p s f]]
  show ?thesis
  proof (cases "\<not> ibuff_full (input_module (fst s)) \<and> local_input_time (fst s) \<le> t + S_ELPS")
    case True
    from run True obtain sor f1 where r1: "read_addr k f = Some (sor, f1)"
        "(case sor of None \<Rightarrow> Some ((fst s)\<lparr>localinFile := Some f1\<rparr>, snd s)
          | Some sor_addr_t \<Rightarrow> do {
             (des, f2) \<leftarrow> read_addr k f1;
             (case des of
                None \<Rightarrow> Some ((fst s)\<lparr>localinFile := Some f2\<rparr>, snd s)
              | Some des_addr_t \<Rightarrow> do {
                  (size, f3) \<leftarrow> read_long f2;
                  pack_size_t \<leftarrow> (if size = None then p else size);
                  s1 \<leftarrow> inject_packet E (packet_counter (fst s)) sor_addr_t des_addr_t (local_input_time (fst s)) pack_size_t s;
                  (case f3 of
                     [] \<Rightarrow> if size = None \<and> k = 0 then None else Some ((fst (counted s1))\<lparr>localinFile := Some []\<rparr>, snd s1)
                   | t' # f4 \<Rightarrow> receive_packet_loop E k t (Some pack_size_t) ((fst (counted s1))\<lparr>local_input_time := t'\<rparr>, snd s1) f4)
                })
           }) = Some s'"
      unfolding counted_def Let_def fst_conv snd_conv by (auto split: bind_splits)
    show ?thesis
    proof (cases sor)
      case None
      then show ?thesis using r1(2) stop [of f1] by simp
    next
      case (Some a)
      with r1(2) obtain des f2 where r2: "read_addr k f1 = Some (des, f2)" by (auto split: bind_splits)
      show ?thesis
      proof (cases des)
        case None
        then show ?thesis using r1(2) r2 Some stop [of f2] by simp
      next
        case d: (Some d)
        with r1(2) r2 Some obtain size n f3 s1 where r3: "read_long f2 = Some (size, f3)" "(if size = None then p else size) = Some n"
            "inject_packet E (packet_counter (fst s)) a d (local_input_time (fst s)) n s = Some s1"
          by (auto split: bind_splits)
        have l: "length f3 \<le> length f"
          using read_addr_shorter [OF r1(1)] read_addr_shorter [OF r2] r3(1) by (auto simp: read_long_def split: list.splits if_splits)
        show ?thesis
        proof (cases f3)
          case Nil
          then show ?thesis using last_one [OF _ r3(3)] True r1(2) r2 r3 Some d by (simp split: if_splits)
        next
          case (Cons t' f4)
          then show ?thesis using more [OF _ r3(3), of "Some n" t' f4] True r1(2) r2 r3 Some d l by simp
        qed
      qed
    qed
  qed (use run stop [of f] in auto)
qed

lemma receive_packet_loop_queue: "receive_packet_loop E k t p s f = Some s' \<Longrightarrow> mess_q (snd s') = mess_q (snd s)"
proof (induction f arbitrary: s p rule: length_induct)
  case (1 f)
  from 1(2) show ?case
  proof (cases rule: receive_packet_loop_cases)
    case (more a b c e s1 t' f4 p')
    have "mess_q (snd s') = mess_q (snd ((fst (counted s1))\<lparr>local_input_time := t'\<rparr>, snd s1))"
      using 1(1) more(3,4) by blast
    then show ?thesis using inject_packet_queue [OF more(2)] by simp
  qed (auto dest: inject_packet_queue)
qed

lemma receive_packet_queue: "receive_packet E k s = Some s' \<Longrightarrow> mess_q (snd s') = mess_q (snd s)"
  by (auto simp: receive_packet_def dest: receive_packet_loop_queue split: bind_splits if_splits)

lemma resume_injection_queue: "resume_injection E k i j s = Some s' \<Longrightarrow> mess_q (snd s') = mess_q (snd s)"
  by (auto simp: resume_injection_def dest!: on_input_snd receive_packet_queue split: bind_splits if_splits)

lemma outbuffer_state_snd: "outbuffer_state share i j n f s = Some s' \<Longrightarrow> snd s' = snd s"
  by (auto simp: outbuffer_state_def dest: on_input_snd split: if_splits)

section \<open>Stages of a cycle\<close>

lemma later_foldM:
  assumes "foldM f xs s = Some s'" "\<And>x s s'. f x s = Some s' \<Longrightarrow> later s s'"
  shows "later s s'"
  by (rule foldM_invariant [OF assms(1), where I = "later s"]) (use assms(2) later_trans in auto)

lemma later_foldM_fst:
  assumes "foldM f xs p = Some p'" "\<And>x p p'. f x p = Some p' \<Longrightarrow> later (fst p) (fst p')"
  shows "later (fst p) (fst p')"
  by (rule foldM_invariant [OF assms(1), where I = "\<lambda>q. later (fst p) (fst q)"]) (use assms(2) later_trans in auto)

lemma quiet_later: "mess_q (snd s') = mess_q (snd s) \<Longrightarrow> later s s'"
  by simp

lemma send_snd [simp]: "mess_q (snd (send e s)) = add_message e (mess_q (snd s))"
  by (simp add: send_def)

lemma send_credit_later: "send_credit i j s = Some s' \<Longrightarrow> later s s'"
  by (auto simp: send_credit_def CREDIT_DELAY_def event_defs intro!: emits_add split: bind_splits)

lemma wire_delay: "getWireDelay n a i = Some d \<Longrightarrow> 1 \<le> d"
  by (auto simp: getWireDelay_def Let_def STAR_TOPO_4_2_INNER_def STAR_TOPO_4_2_OUTER_def SHORT_WIRE_DELAY_def split: bind_splits if_splits)

lemma flit_traversal_port_later: "flit_traversal_port i s = Some s' \<Longrightarrow> later s s'"
  by (auto simp: flit_traversal_port_def Let_def event_defs dest!: on_output_snd wire_delay intro!: emits_add split: bind_splits if_splits)

lemma flit_traversal_later: "flit_traversal s = Some s' \<Longrightarrow> later s s'"
  unfolding flit_traversal_def by (erule later_foldM) (rule flit_traversal_port_later)

lemma outbuffer_flit_later: "outbuffer_flit E k share i j s = Some s' \<Longrightarrow> later s s'"
  by (auto simp: outbuffer_flit_def Let_def dest!: on_output_snd on_input_snd resume_injection_queue outbuffer_state_snd send_credit_later
      split: bind_splits if_splits)

lemma flit_outbuffer_later: "flit_outbuffer E k share s = Some s' \<Longrightarrow> later s s'"
  unfolding flit_outbuffer_def by (elim later_foldM) (rule outbuffer_flit_later)

lemma sw_arbitration_later: "sw_arbitration s = Some s' \<Longrightarrow> later s s'"
proof -
  assume "sw_arbitration s = Some s'"
  then obtain t m where t: "foldM sw_request (ports (fst s)) (s, []) = Some (t, m)" "s' = t \<or> foldM (sw_grant m) (ports (fst t)) t = Some s'"
    by (auto simp: sw_arbitration_def split: bind_splits if_splits)
  have "later (fst p) (fst p')" if "sw_request i p = Some p'" for i p p'
    using that by (auto simp: sw_request_def dest!: pick_queue split: bind_splits if_splits prod.splits)
  from later_foldM_fst [OF t(1) this] have "later s t" by simp
  moreover have "later t s'" if "foldM (sw_grant m) (ports (fst t)) t = Some s'"
    by (rule later_foldM [OF that]) (auto simp: sw_grant_def dest!: pick_queue on_input_snd split: bind_splits if_splits)
  ultimately show ?thesis using t(2) later_trans by auto
qed

lemma vc_selection_queue: "vc_selection share a b s = Some (v, s') \<Longrightarrow> mess_q (snd s') = mess_q (snd s)"
  by (auto simp: vc_selection_def dest!: pick_queue split: bind_splits if_splits)

lemma vc_grant_queue: "vc_grant r i j s = Some s' \<Longrightarrow> mess_q (snd s') = mess_q (snd s)"
  by (auto simp: vc_grant_def dest!: pick_queue on_input_snd on_output_snd split: bind_splits if_splits)

lemma vc_request_of_queue: "vc_request_of E share i j p = Some p' \<Longrightarrow> mess_q (snd (fst p')) = mess_q (snd (fst p))"
  by (auto simp: vc_request_of_def dest!: vc_selection_queue split: bind_splits if_splits prod.splits)

lemma vc_arbitration_later: "vc_arbitration E share s = Some s' \<Longrightarrow> later s s'"
proof -
  assume "vc_arbitration E share s = Some s'"
  then obtain t r where t: "foldM (\<lambda>i. foldM (vc_request_of E share i) (vcs (fst s))) (ports (fst s)) (s, [], 0) = Some (t, r)"
      "s' = t \<or> foldM (\<lambda>i s. foldM (vc_grant r i) (vcs (fst s)) s) [1..physic_ports (fst t) - 1] t = Some s'"
    by (auto simp: vc_arbitration_def split: bind_splits if_splits)
  have "later (fst p) (fst p')" if "foldM (vc_request_of E share i) (vcs (fst s)) p = Some p'" for i p p'
    by (rule later_foldM_fst [OF that]) (simp add: vc_request_of_queue)
  from later_foldM_fst [OF t(1) this] have "later s t" by simp
  moreover have "later t s'" if "foldM (\<lambda>i s. foldM (vc_grant r i) (vcs (fst s)) s) [1..physic_ports (fst t) - 1] t = Some s'"
    by (rule later_foldM [OF that], erule later_foldM) (simp add: vc_grant_queue)
  ultimately show ?thesis using t(2) later_trans by auto
qed

lemma accept_flit_later: "later s (accept_flit t f s)"
  by (auto simp: accept_flit_def Let_def TotFin_inc_def intro: emits_same)

lemma route_header_later: "route_header i j f s = Some s' \<Longrightarrow> later s s'"
  using accept_flit_later [of s "now s" f]
  by (auto simp: route_header_def Let_def dest!: on_input_snd split: bind_splits if_splits)

lemma accept_body_later: "accept_body i j s = Some s' \<Longrightarrow> later s s'"
  by (auto simp: accept_body_def Let_def accept_flit_later dest!: on_input_snd split: bind_splits if_splits)

lemma decide_channel_later:
  assumes "decide_channel i j s = Some s'"
  shows "later s s'"
proof -
  from assms obtain t x where t: "(if i = 0 then Some s else do { q \<leftarrow> input_at i j (input_module (fst s));
        if q \<noteq> [] \<and> address (fst s) = des_addr (hd q) then send_credit i j s else Some s }) = Some t"
      "(if x = ROUTING
        then do { flit_t \<leftarrow> input_get_flit i j (input_module (fst t)); if i \<noteq> 0 \<and> \<not> isHeader (flit_type_of flit_t) then None else route_header i j flit_t t }
        else if x = HOME then accept_body i j t else Some t) = Some s'"
    unfolding decide_channel_def bind_eq_Some_conv by blast
  have "later s t" using t(1) send_credit_later by (auto split: if_splits bind_splits)
  moreover have "later t s'" using t(2) route_header_later accept_body_later by (auto split: if_splits bind_splits)
  ultimately show ?thesis by (rule later_trans)
qed

lemma routing_decision_later: "routing_decision s = Some s' \<Longrightarrow> later s s'"
proof -
  assume "routing_decision s = Some s'"
  then obtain t where t: "foldM (decide_channel 0) (vcs (fst s)) s = Some t"
      "foldM (\<lambda>i s. foldM (decide_channel i) (vcs (fst s)) s) [1..physic_ports (fst t) - 1] t = Some s'"
    by (auto simp: routing_decision_def split: bind_splits)
  have "later s t" by (rule later_foldM [OF t(1)]) (rule decide_channel_later)
  moreover have "later t s'" by (rule later_foldM [OF t(2)], erule later_foldM) (rule decide_channel_later)
  ultimately show ?thesis by (rule later_trans)
qed

lemma router_sim_pwr_later:
  assumes "router_sim_pwr E k share s = Some s'"
  shows "later s s'"
proof -
  from assms obtain a b c d where "flit_traversal s = Some a" "flit_outbuffer E k share a = Some b" "sw_arbitration b = Some c"
      "vc_arbitration E share c = Some d" "routing_decision d = Some s'"
    unfolding router_sim_pwr_def bind_eq_Some_conv by blast
  then show ?thesis
    by (meson flit_traversal_later flit_outbuffer_later sw_arbitration_later vc_arbitration_later routing_decision_later later_trans)
qed

section \<open>Handlers\<close>

lemma at_router_emits:
  assumes "at_router i f n = Some n'" "\<And>s s'. f s = Some s' \<Longrightarrow> later s s'"
  shows "emits (current_time (mess_q (snd n))) (mess_q (snd n)) (mess_q (snd n')) \<and> inFile (fst n') = inFile (fst n) \<and> sf_cube_size (fst n') = sf_cube_size (fst n)"
  using assms(1) by (auto simp: at_router_def dest!: assms(2) split: bind_splits)

lemma on_router_quiet:
  assumes "on_router a f n = Some n'" "\<And>s s'. f s = Some s' \<Longrightarrow> mess_q (snd s') = mess_q (snd s)"
  shows "mess_q (snd n') = mess_q (snd n) \<and> inFile (fst n') = inFile (fst n) \<and> sf_cube_size (fst n') = sf_cube_size (fst n)"
  using assms(1) by (auto simp: on_router_def at_router_def dest!: assms(2) split: bind_splits)

lemma receive_flit_snd: "receive_flit a b c s = Some s' \<Longrightarrow> snd s' = snd s"
  by (auto simp: receive_flit_def Let_def dest!: on_input_snd split: bind_splits if_splits)

lemma receive_credit_snd: "receive_credit a b s = Some s' \<Longrightarrow> snd s' = snd s"
  by (auto simp: receive_credit_def dest: on_output_snd)

lemma receive_ROUTER_emits:
  assumes "receive_ROUTER_message E share m n = Some n'" "event_start m = current_time (mess_q (snd n))"
  shows "emits (event_start m) (mess_q (snd n)) (mess_q (snd n')) \<and> inFile (fst n') = inFile (fst n) \<and> sf_cube_size (fst n') = sf_cube_size (fst n)"
proof -
  let ?t = "event_start m"
  let ?I = "\<lambda>x. emits ?t (mess_q (snd n)) (mess_q (snd x)) \<and> inFile (fst x) = inFile (fst n) \<and> sf_cube_size (fst x) = sf_cube_size (fst n)"
  show ?thesis
  proof (rule foldM_invariant [OF assms(1) [unfolded receive_ROUTER_message_def], where I = ?I])
    show "?I (post (mess_event_timed (?t + PIPE_DELAY) ROUTER) n)"
      by (simp add: post_def emits_add event_defs PIPE_DELAY_def)
  next
    fix i x x'
    assume x: "at_router i (router_sim_pwr E (nat (sf_cube_size (fst n))) share) x = Some x'" and I: "?I x"
    have "current_time (mess_q (snd x)) = ?t" using I emits_now assms(2) by force
    then show "?I x'" using at_router_emits [OF x router_sim_pwr_later] I emits_trans by fastforce
  qed
qed

text \<open>The time of the record that follows the current one in the trace, and the trace after it.\<close>

definition next_record :: "nat \<Rightarrow> trace \<Rightarrow> trace" where
  "next_record c f = drop (2 * c + 1) f"

lemma read_addr_drop: "read_addr c f = Some (Some a, f') \<Longrightarrow> f' = drop c f \<and> c \<le> length f"
proof (induction c arbitrary: f a)
  case (Suc c)
  then show ?case by (cases f) (auto simp: read_long_def split: bind_splits if_splits prod.splits)
qed simp

lemma need_Some: "need r = Some (v, f) \<longleftrightarrow> r = Some (Some v, f)"
  by (auto simp: need_def split: bind_splits)

lemma receive_EVG_queue:
  assumes "receive_EVG_message E m n = Some n'"
  shows "length (inFile (fst n')) < length (inFile (fst n)) \<and> sf_cube_size (fst n') = sf_cube_size (fst n) \<and>
    (let f = next_record (nat (sf_cube_size (fst n))) (inFile (fst n))
     in inFile (fst n') = tl f \<and> mess_q (snd n') = (if f = [] then mess_q (snd n) else add_message (mess_event_timed (hd f) EVG) (mess_q (snd n))))"
proof -
  let ?c = "nat (sf_cube_size (fst n))"
  from assms obtain a b k f1 f2 f3 x where r: "read_addr ?c (inFile (fst n)) = Some (Some a, f1)" "read_addr ?c f1 = Some (Some b, f2)"
      "read_long f2 = Some (Some k, f3)" "on_router a (receive_packet E ?c) n = Some x"
      "n' = (case f3 of [] \<Rightarrow> ((fst x)\<lparr>sf_packet_counter := sf_packet_counter (fst x) + 1, inFile := tl f3\<rparr>, snd x)
        | t # _ \<Rightarrow> post (mess_event_timed t EVG) ((fst x)\<lparr>sf_packet_counter := sf_packet_counter (fst x) + 1, inFile := tl f3\<rparr>, snd x))"
    unfolding receive_EVG_message_def Let_def by (auto simp: bind_eq_Some_conv need_Some)
  have f3: "f3 = tl f2" "f2 \<noteq> []" using r(3) by (auto simp: read_long_def split: list.splits if_splits)
  note d = read_addr_drop [OF r(1)] read_addr_drop [OF r(2)]
  have f: "f3 = next_record ?c (inFile (fst n))" "length f3 < length (inFile (fst n))"
    using d f3 by (auto simp: next_record_def tl_drop drop_Suc mult_2 add.commute)
  note q = on_router_quiet [OF r(4) receive_packet_queue]
  show ?thesis using f q r(5) by (cases f3) (auto simp: Let_def post_def f(1) [symmetric])
qed

lemma dispatch_effect:
  assumes "dispatch E share m n = Some n'" "event_start m = current_time (mess_q (snd n))"
  shows "if event_type m = EVG then receive_EVG_message E m n = Some n'
    else emits (event_start m) (mess_q (snd n)) (mess_q (snd n')) \<and> inFile (fst n') = inFile (fst n) \<and> sf_cube_size (fst n') = sf_cube_size (fst n)"
proof (cases "event_type m")
  case WIRE
  then show ?thesis
    using assms on_router_quiet [of "ev_des m" "receive_flit (ev_pc m) (ev_vc m) (get_flit m)" n n'] receive_flit_snd
    by (auto simp: dispatch_def receive_WIRE_message_def)
next
  case CREDIT
  then show ?thesis
    using assms on_router_quiet [of "ev_des m" "receive_credit (ev_pc m) (ev_vc m)" n n'] receive_credit_snd
    by (auto simp: dispatch_def receive_CREDIT_message_def)
qed (use assms receive_ROUTER_emits in \<open>auto simp: dispatch_def\<close>)

section \<open>The loop ends\<close>

definition time_left :: "time_type \<Rightarrow> mess_event \<Rightarrow> nat" where
  "time_left len e = (if event_start e \<le> len then nat \<lfloor>len - event_start e\<rfloor> + 1 else 0)"

lemma time_left_less: "event_start m \<le> len \<Longrightarrow> event_start m + 1 \<le> event_start e \<Longrightarrow> time_left len e < time_left len m"
proof -
  assume a: "event_start m \<le> len" "event_start m + 1 \<le> event_start e"
  then have "\<lfloor>len - event_start e\<rfloor> \<le> \<lfloor>len - event_start m - 1\<rfloor>" by (intro floor_mono) simp
  then have "\<lfloor>len - event_start e\<rfloor> + 1 \<le> \<lfloor>len - event_start m\<rfloor>" by simp
  then show ?thesis using a by (auto simp: time_left_def)
qed

definition loop_rank :: "time_type \<Rightarrow> simulation \<Rightarrow> nat \<times> nat \<times> nat multiset" where
  "loop_rank len s = (length (inFile (fst (network s))), if current_time (queue_of s) \<le> len then 1 else 0,
     image_mset (time_left len) (mset (m_q (queue_of s))))"

definition loop_order :: "((nat \<times> nat \<times> nat multiset) \<times> (nat \<times> nat \<times> nat multiset)) set" where
  "loop_order = less_than <*lex*> less_than <*lex*> mult less_than"

lemma wf_loop_order: "wf loop_order"
  by (simp add: loop_order_def wf_lex_prod wf_mult)

lemma take_message_effect:
  assumes "take_message s = Some (m, s')"
  shows "m_q (queue_of s) = m # m_q (queue_of s') \<and> current_time (queue_of s') = event_start m \<and> fst (network s') = fst (network s) \<and>
    current_time (queue_of s) \<le> event_start m + S_ELPS"
  using assms by (auto simp: take_message_def get_message_def remove_top_message_def split: bind_splits list.splits if_splits)

lemma progress_line_network [simp]: "network (progress_line s) = network s"
  by (simp add: progress_line_def Let_def)

lemma simulator_step_cases:
  assumes "simulator_step E share s = Some s'"
  obtains m s1 where "take_message s = Some (m, s1)" "dispatch E share m (network s1) = Some (network s')"
proof -
  from assms obtain m s1 where s1: "take_message s = Some (m, s1)"
    by (auto simp: simulator_step_def split: bind_splits)
  then obtain n where n: "dispatch E share m (network s1) = Some n" using assms by (auto simp: simulator_step_def Let_def split: bind_splits)
  then have "network s' = n" using assms s1 by (auto simp: simulator_step_def Let_def)
  then show ?thesis using that s1 n by simp
qed

lemma simulator_step_order:
  assumes "running len s" "simulator_step E share s = Some s'"
  shows "(loop_rank len s', loop_rank len s) \<in> loop_order"
proof -
  from simulator_step_cases [OF assms(2)] obtain m s1 where
    m: "take_message s = Some (m, s1)" "dispatch E share m (network s1) = Some (network s')" by blast
  note t = take_message_effect [OF m(1)]
  have run: "current_time (queue_of s) \<le> len" using assms(1) by (simp add: running_def)
  show ?thesis
  proof (cases "event_type m = EVG")
    case True
    then have "receive_EVG_message E m (network s1) = Some (network s')" using dispatch_effect [OF m(2)] t by simp
    then have "length (inFile (fst (network s'))) < length (inFile (fst (network s)))" using receive_EVG_queue t by metis
    then show ?thesis by (simp add: loop_rank_def loop_order_def)
  next
    case False
    then have e: "emits (event_start m) (queue_of s1) (queue_of s')" "inFile (fst (network s')) = inFile (fst (network s))"
      using dispatch_effect [OF m(2)] t by auto
    then obtain new where new: "mset (m_q (queue_of s')) = mset (m_q (queue_of s1)) + new" "\<forall>e \<in># new. event_start m + 1 \<le> event_start e"
      by (auto simp: emits_def)
    have now: "current_time (queue_of s') = event_start m" using emits_now [OF e(1)] t by simp
    show ?thesis
    proof (cases "event_start m \<le> len")
      case True
      have "(image_mset (time_left len) (mset (m_q (queue_of s1))) + image_mset (time_left len) new,
          image_mset (time_left len) (mset (m_q (queue_of s1))) + {#time_left len m#}) \<in> mult less_than"
        by (rule one_step_implies_mult) (use new(2) True time_left_less in auto)
      then show ?thesis using e(2) run now True new(1) t by (simp add: loop_rank_def loop_order_def)
    next
      case False
      then show ?thesis using e(2) run now by (simp add: loop_rank_def loop_order_def)
    qed
  qed
qed

function simulator :: "popnet_env \<Rightarrow> vc_share_type \<Rightarrow> time_type \<Rightarrow> simulation \<Rightarrow> simulation option" where
  "simulator E share len s =
     (if running len s then do { s \<leftarrow> simulator_step E share s; simulator E share len s } else Some s)"
  by pat_completeness auto
termination
proof (relation "inv_image loop_order (\<lambda>(E, share, len, s). loop_rank len s)")
  show "wf (inv_image loop_order (\<lambda>(E, share, len, s). loop_rank len s))" by (rule wf_inv_image [OF wf_loop_order])
next
  fix E share len s s'
  assume "running len s" "simulator_step E share s = Some s'"
  then show "((E, share, len, s'), (E, share, len, s)) \<in> inv_image loop_order (\<lambda>(E, share, len, s). loop_rank len s)"
    using simulator_step_order by simp
qed

declare simulator.simps [simp del]

section \<open>Time\<close>

text \<open>A trace whose record times do not decrease, from time \<open>t\<close> on.\<close>

function trace_from :: "nat \<Rightarrow> time_type \<Rightarrow> trace \<Rightarrow> bool" where
  "trace_from c t f = (case next_record c f of [] \<Rightarrow> True | t' # f' \<Rightarrow> t \<le> t' \<and> trace_from c t' f')"
  by pat_completeness auto
termination
proof (relation "measure (\<lambda>(c, t, f). length f)")
  fix c :: nat and t :: time_type and f f' :: trace and t'
  assume "next_record c f = t' # f'"
  then have "length (drop (2 * c + 1) f) = Suc (length f')" by (simp add: next_record_def)
  then show "((c, t', f'), c, t, f) \<in> measure (\<lambda>(c, t, f). length f)" by simp
qed simp

declare trace_from.simps [simp del]

definition timely :: "simulation \<Rightarrow> bool" where
  "timely s \<longleftrightarrow> queue_sorted (queue_of s) \<and> (\<forall>e \<in> set (m_q (queue_of s)). current_time (queue_of s) \<le> event_start e) \<and>
     (\<forall>e \<in> set (m_q (queue_of s)). event_type e = EVG \<longrightarrow>
        trace_from (nat (sf_cube_size (fst (network s)))) (event_start e) (inFile (fst (network s)))) \<and>
     length (filter (\<lambda>e. event_type e = EVG) (m_q (queue_of s))) \<le> 1"

lemma S_ELPS_nonneg: "0 \<le> S_ELPS"
  by (simp add: S_ELPS_def)

lemma timely_take:
  assumes "timely s" "running len s"
  shows "\<exists>m s1. take_message s = Some (m, s1) \<and> current_time (queue_of s) \<le> event_start m"
proof -
  obtain m q where q: "m_q (queue_of s) = m # q" using assms(2) by (cases "m_q (queue_of s)") (auto simp: running_def message_queue_size_def)
  then have "current_time (queue_of s) \<le> event_start m" using assms(1) by (simp add: timely_def)
  then show ?thesis using q S_ELPS_nonneg by (simp add: take_message_def get_message_def remove_top_message_def)
qed

lemma one_EVG: "length (filter P xs) \<le> 1 \<longleftrightarrow> size (filter_mset P (mset xs)) \<le> 1"
  by (metis mset_filter size_mset)

lemma timely_step:
  assumes "timely s" "running len s" "simulator_step E share s = Some s'"
  shows "timely s' \<and> current_time (queue_of s) \<le> current_time (queue_of s')"
proof -
  from simulator_step_cases [OF assms(3)] obtain m s1 where
    m: "take_message s = Some (m, s1)" "dispatch E share m (network s1) = Some (network s')" by blast
  note t = take_message_effect [OF m(1)]
  let ?c = "nat (sf_cube_size (fst (network s)))" and ?f = "inFile (fst (network s))"
  have ge: "current_time (queue_of s) \<le> event_start m" using timely_take [OF assms(1,2)] m(1) by auto
  have s: "queue_sorted (queue_of s1)" "\<forall>e \<in> set (m_q (queue_of s1)). event_start m \<le> event_start e"
      "\<forall>e \<in> set (m_q (queue_of s)). event_type e = EVG \<longrightarrow> trace_from ?c (event_start e) ?f"
      "length (filter (\<lambda>e. event_type e = EVG) (m_q (queue_of s))) \<le> 1"
    using assms(1) t by (auto simp: timely_def)
  show ?thesis
  proof (cases "event_type m = EVG")
    case True
    then have r: "receive_EVG_message E m (network s1) = Some (network s')" using dispatch_effect [OF m(2)] t by simp
    have none: "\<forall>e \<in> set (m_q (queue_of s1)). event_type e \<noteq> EVG" using s(4) t True by (auto simp: filter_empty_conv)
    have tr: "trace_from ?c (event_start m) ?f" using s(3) t True by simp
    let ?g = "next_record ?c ?f"
    note q = receive_EVG_queue [OF r]
    have c: "sf_cube_size (fst (network s')) = sf_cube_size (fst (network s))" "inFile (fst (network s')) = tl ?g" using q t by (auto simp: Let_def)
    show ?thesis
    proof (cases ?g)
      case Nil
      then have "queue_of s' = queue_of s1" using q t by (simp add: Let_def)
      then show ?thesis using s none t ge by (auto simp: timely_def filter_empty_conv)
    next
      case (Cons t' f')
      let ?e = "mess_event_timed t' EVG"
      have qq: "queue_of s' = add_message ?e (queue_of s1)" using q t Cons by (simp add: Let_def)
      have t': "event_start m \<le> t'" "trace_from ?c t' f'" using tr Cons by (simp_all add: trace_from.simps [of _ _ ?f])
      have "filter (\<lambda>e. event_type e = EVG) (m_q (queue_of s1)) = []" using none by (simp add: filter_empty_conv)
      then have "length (filter (\<lambda>e. event_type e = EVG) (m_q (queue_of s'))) \<le> 1"
        unfolding one_EVG qq mq.insert_pending by (simp flip: mset_filter)
      moreover have "set (m_q (queue_of s')) = insert ?e (set (m_q (queue_of s1)))" unfolding qq by (rule mq.set_insert)
      moreover have "queue_sorted (queue_of s')" unfolding qq by (rule mq.insert_invar [OF s(1)])
      moreover have "current_time (queue_of s') = event_start m" using t by (simp add: qq add_message_def)
      ultimately show ?thesis using s(2) none t' c Cons ge by (auto simp: timely_def mess_event_timed_def)
    qed
  next
    case False
    then have e: "emits (event_start m) (queue_of s1) (queue_of s')" "inFile (fst (network s')) = ?f"
        "sf_cube_size (fst (network s')) = sf_cube_size (fst (network s))"
      using dispatch_effect [OF m(2)] t by auto
    then obtain new where new: "mset (m_q (queue_of s')) = mset (m_q (queue_of s1)) + new"
        "\<forall>e \<in># new. event_start m + 1 \<le> event_start e \<and> event_type e \<noteq> EVG"
      by (auto simp: emits_def)
    have now: "current_time (queue_of s') = event_start m" "queue_sorted (queue_of s')" using e(1) t s(1) by (simp_all add: emits_def)
    have set: "set (m_q (queue_of s')) = set (m_q (queue_of s1)) \<union> set_mset new" using arg_cong [OF new(1), of set_mset] by simp
    have z: "filter_mset (\<lambda>e. event_type e = EVG) new = {#}" using new(2) by (auto intro!: multiset_eqI simp: count_eq_zero_iff)
    have "length (filter (\<lambda>e. event_type e = EVG) (m_q (queue_of s'))) \<le> 1"
      using s(4) t False unfolding one_EVG new(1) filter_union_mset z by simp
    moreover have "\<forall>e \<in> set (m_q (queue_of s')). event_start m \<le> event_start e" using set s(2) new(2) by force
    moreover have "\<forall>e \<in> set (m_q (queue_of s')). event_type e = EVG \<longrightarrow> trace_from ?c (event_start e) ?f" using set s(3) new(2) t by auto
    ultimately show ?thesis using now e ge by (simp add: timely_def)
  qed
qed

text \<open>States that the program reaches from its start.\<close>

inductive sim_reach :: "popnet_env \<Rightarrow> vc_share_type \<Rightarrow> time_type \<Rightarrow> net \<Rightarrow> simulation \<Rightarrow> bool" for E share len n where
  sim_start: "sim_reach E share len n (simulation_start n)"
| sim_next: "sim_reach E share len n s \<Longrightarrow> running len s \<Longrightarrow> simulator_step E share s = Some s' \<Longrightarrow> sim_reach E share len n s'"

lemma simulator_reach: "simulator E share len s = Some s' \<Longrightarrow> sim_reach E share len n s \<Longrightarrow> sim_reach E share len n s' \<and> \<not> running len s'"
proof (induction E share len s rule: simulator.induct)
  case (1 E share len s)
  show ?case
  proof (cases "running len s")
    case True
    then obtain t where t: "simulator_step E share s = Some t" "simulator E share len t = Some s'"
      using 1(2) by (subst (asm) simulator.simps) (auto split: bind_splits)
    show ?thesis by (rule 1(1) [OF True t]) (rule sim_next [OF 1(3) True t(1)])
  qed (use 1 in \<open>subst (asm) simulator.simps, simp\<close>)
qed

lemma main_init_timely:
  assumes "main_init rnd cf files = Some n" "files (trace_fname cf) = Some (t # f)" "0 \<le> t" "trace_from (nat (cube_number cf)) t f"
  shows "timely (simulation_start n)"
proof -
  from assms(1,2) have n: "mess_q (snd n) = add_message (mess_event_timed t EVG) (mess_queue_init TIME_0)" "inFile (fst n) = f" "sf_cube_size (fst n) = cube_number cf"
    by (auto simp: main_init_def sim_foundation_init_def init_file_def Let_def split: bind_splits)
  show ?thesis
    using assms(3,4) by (auto simp: timely_def simulation_start_def n mess_queue_init_def add_message_def event_defs TIME_0_def event_less_def)
qed

lemma reach_timely: "sim_reach E share len n s \<Longrightarrow> timely (simulation_start n) \<Longrightarrow> timely s"
  by (induction rule: sim_reach.induct) (use timely_step in blast)+

section \<open>Properties of the simulation\<close>

text \<open>
  C8: the main loop ends. There is no infinite sequence of steps of the event loop, from any state and for every
  simulation length: a step consumes a part of the trace, or replaces an event by events that are at
  least one cycle later, or passes the end of the simulation.
\<close>

theorem simulator_terminates: "wf {(s', s). running len s \<and> simulator_step E share s = Some s'}"
proof (rule wf_subset [OF wf_inv_image [OF wf_loop_order]])
  show "{(s', s). running len s \<and> simulator_step E share s = Some s'} \<subseteq> inv_image loop_order (loop_rank len)"
    using simulator_step_order by auto
qed

text \<open>
  C9: simulated time never runs backwards. If the records of the global trace are in the order of their times, then
  in every state that the simulation reaches the next message is at or after the current time, so the
  assertion of the loop holds, and processing it does not decrease the time.
\<close>

theorem simulated_time_monotone:
  assumes "main_init rnd cf files = Some n" "files (trace_fname cf) = Some (t # f)" "0 \<le> t" "trace_from (nat (cube_number cf)) t f"
    and "sim_reach E share len n s" "running len s"
  shows "(\<exists>m s1. take_message s = Some (m, s1) \<and> current_time (queue_of s) \<le> event_start m) \<and>
    (\<forall>s'. simulator_step E share s = Some s' \<longrightarrow> current_time (queue_of s) \<le> current_time (queue_of s'))"
proof -
  have "timely s" using reach_timely [OF assms(5) main_init_timely [OF assms(1-4)]] .
  then show ?thesis using timely_take timely_step assms(6) by blast
qed

lemma example_main: "main_init (\<lambda>_ _. 0) example_config example_files = sim_foundation_init example_config example_files example_shared"
  by (simp add: main_init_def example_shared_def TIME_0_def)

theorem simulated_time_monotone_witness:
  "\<exists>n m s1. main_init (\<lambda>_ _. 0) example_config example_files = Some n \<and> take_message (simulation_start n) = Some (m, s1) \<and>
     current_time (queue_of (simulation_start n)) \<le> event_start m"
proof -
  obtain n where n: "main_init (\<lambda>_ _. 0) example_config example_files = Some n" using example_network example_main by auto
  have f: "example_files (trace_fname example_config) = Some [3, 0, 0, 1, 0, 1]" by (simp add: example_files_def example_config_def)
  have t: "trace_from (nat (cube_number example_config)) 3 [0, 0, 1, 0, 1]"
    by (simp add: example_config_def configuration_default_def trace_from.simps next_record_def)
  have "current_time (queue_of (simulation_start n)) = 0 \<and> m_q (queue_of (simulation_start n)) \<noteq> []"
    using n f by (auto simp: main_init_def sim_foundation_init_def init_file_def Let_def simulation_start_def mess_queue_init_def add_message_def
        event_defs TIME_0_def event_less_def split: bind_splits)
  then have "running 100 (simulation_start n)" by (simp add: running_def message_queue_size_def)
  from simulated_time_monotone [OF n f _ t sim_start this, of example_env SHARE] show ?thesis using n by auto
qed



end
