(* ===== verification/Sniper_Base.thy ===== *)
theory Sniper_Base
  imports Prelude "HOL-Library.Monad_Syntax"
begin

text \<open>
  Vocabulary of the processor simulator (\<^verbatim>\<open>sniper/common\<close>): the integer utilities of \<^verbatim>\<open>misc/utils.cc\<close>,
  the two pseudo random generators (\<^verbatim>\<open>misc/rng.h\<close>, \<^verbatim>\<open>misc/random.h\<close>) and the mapping of addresses to
  home nodes (\<^verbatim>\<open>address_home_lookup.cc\<close>). Unsigned integers are words of the width the code declares,
  so that sums and shifts wrap as they do there. An operation returns \<^term>\<open>None\<close> where an assertion
  of the code fails, where it reports a fatal error, or where the language leaves the result undefined
  (a shift by the width or more, a division by zero, an access outside an array).
\<close>

section \<open>Shifts and divisions\<close>

text \<open>
  \<open>x >> s\<close>, \<open>x << s\<close> and \<open>x % m\<close> on unsigned operands, undefined for a shift by the width of the
  left operand or more and for a zero divisor.
\<close>

definition shr :: "'a::len word \<Rightarrow> nat \<Rightarrow> 'a word option" where
  "shr x s = (if s < LENGTH('a) then Some (drop_bit s x) else None)"

definition shl :: "'a::len word \<Rightarrow> nat \<Rightarrow> 'a word option" where
  "shl x s = (if s < LENGTH('a) then Some (push_bit s x) else None)"

definition umod :: "'a::len word \<Rightarrow> 'a word \<Rightarrow> 'a word option" where
  "umod x m = (if m = 0 then None else Some (x mod m))"

definition udiv :: "'a::len word \<Rightarrow> 'a word \<Rightarrow> 'a word option" where
  "udiv x m = (if m = 0 then None else Some (x div m))"

lemma shr_Some [simp]: "s < LENGTH('a) \<Longrightarrow> shr (x :: 'a::len word) s = Some (drop_bit s x)"
  by (simp add: shr_def)

lemma shl_Some [simp]: "s < LENGTH('a) \<Longrightarrow> shl (x :: 'a::len word) s = Some (push_bit s x)"
  by (simp add: shl_def)

lemma umod_Some [simp]: "m \<noteq> 0 \<Longrightarrow> umod x m = Some (x mod m)"
  by (simp add: umod_def)

lemma udiv_Some [simp]: "m \<noteq> 0 \<Longrightarrow> udiv x m = Some (x div m)"
  by (simp add: udiv_def)

lemma umod_zero [simp]: "umod x 0 = None"
  by (simp add: umod_def)

lemma unat_two_power: "k < LENGTH('a) \<Longrightarrow> unat (2 ^ k :: 'a::len word) = 2 ^ k"
proof -
  assume "k < LENGTH('a)"
  then have "(2::nat) ^ k < 2 ^ LENGTH('a)" by simp
  then have "unat (of_nat (2 ^ k) :: 'a word) = 2 ^ k" by (simp only: unsigned_of_nat take_bit_nat_eq_self of_nat_id)
  then show ?thesis by simp
qed

lemma sint_eq_unat:
  fixes w :: "'a::len word"
  assumes "unat w < 2 ^ (LENGTH('a) - 1)"
  shows "sint w = int (unat w)"
proof -
  have "uint w < 2 ^ (LENGTH('a) - 1)" using assms by (metis of_nat_less_iff of_nat_numeral of_nat_power of_nat_unat)
  then have "signed_take_bit (LENGTH('a) - 1) (uint w) = uint w"
    by (intro signed_take_bit_int_eq_self) (auto intro: order_trans [of _ 0])
  then show ?thesis by (simp add: sint_uint of_nat_unat)
qed

lemma unat_ucast_64_32: "unat (w::u64) < 2 ^ 32 \<Longrightarrow> unat (ucast w :: u32) = unat w"
  by (simp add: unsigned_ucast_eq take_bit_nat_eq_self)

lemma unat_push_bit_no_overflow:
  fixes w :: "'a::len word"
  assumes "unat w * 2 ^ k < 2 ^ LENGTH('a)"
  shows "unat (push_bit k w) = unat w * 2 ^ k"
proof -
  have "unat (push_bit k w) = take_bit LENGTH('a) (push_bit k (unat w))"
    unfolding unsigned_push_bit_eq by (simp only: of_nat_id)
  also have "\<dots> = push_bit k (unat w)" using assms by (intro take_bit_nat_eq_self) (simp add: push_bit_eq_mult)
  finally show ?thesis by (simp add: push_bit_eq_mult)
qed

lemma unat_and_mask: "unat ((w :: 'a::len word) AND mask k) = unat w mod 2 ^ k"
  unfolding take_bit_eq_mask [symmetric] unsigned_take_bit_eq by (rule take_bit_eq_mod)

section \<open>Integer utilities\<close>

definition isPower2 :: "u32 \<Rightarrow> bool" where
  "isPower2 n \<longleftrightarrow> n AND (n - 1) = 0"

definition floorLog2 :: "u32 \<Rightarrow> int" where
  "floorLog2 n = (if n = 0 then -1 else
     let (p, n) = (if n AND 0xffff0000 \<noteq> 0 then (16, drop_bit 16 n) else (0, n));
         (p, n) = (if n AND 0x0000ff00 \<noteq> 0 then (p + 8, drop_bit 8 n) else (p, n));
         (p, n) = (if n AND 0x000000f0 \<noteq> 0 then (p + 4, drop_bit 4 n) else (p, n));
         (p, n) = (if n AND 0x0000000c \<noteq> 0 then (p + 2, drop_bit 2 n) else (p, n))
     in if n AND 0x00000002 \<noteq> 0 then p + 1 else p)"

definition ceilLog2 :: "u32 \<Rightarrow> int" where
  "ceilLog2 n = floorLog2 (n - 1) + 1"

text \<open>The loop \<^verbatim>\<open>for (result = 1; n &= n - 1; ++result)\<close> clears the lowest set bit in every round.\<close>

lemma and_pred_less:
  fixes n :: "'a::len word"
  assumes "n \<noteq> 0"
  shows "unat (n AND (n - 1)) < unat n"
proof -
  have "unat (n AND (n - 1)) \<le> unat (n - 1)" by (simp add: word_and_le1 word_le_nat_alt [symmetric])
  also have "\<dots> = unat n - 1" using assms by (rule unat_minus_one)
  also have "\<dots> < unat n" using assms by (simp add: unat_gt_0)
  finally show ?thesis .
qed

function countBits_loop :: "u64 \<Rightarrow> u64 \<Rightarrow> u64" where
  "countBits_loop n result = (let n' = n AND (n - 1) in if n' = 0 then result else countBits_loop n' (result + 1))"
  by auto
termination
proof (relation "measure (\<lambda>(n, _). unat n)")
  fix n result x :: u64
  assume "x = n AND (n - 1)" "x \<noteq> 0"
  then show "((x, result + 1), n, result) \<in> measure (\<lambda>(n, _). unat n)"
    using and_pred_less [of n] by (cases "n = 0") auto
qed simp

declare countBits_loop.simps [simp del]

definition countBits :: "u64 \<Rightarrow> u64" where
  "countBits n = (if n = 0 then 0 else countBits_loop n 1)"


lemma and_upper_half:
  fixes n :: u32
  assumes "unat n < 2 ^ (2 * k)"
  shows "n AND push_bit k (mask k) \<noteq> 0 \<longleftrightarrow> drop_bit k n \<noteq> 0"
proof -
  have b: "\<not> bit n i" if "2 * k \<le> i" for i
    using bit_nat_less_exp [OF assms, of i] that by (auto simp: bit_simps)
  show ?thesis
  proof
    assume "n AND push_bit k (mask k) \<noteq> 0"
    then obtain i where "bit (n AND push_bit k (mask k)) i" by (auto simp: bit_eq_iff)
    then have "bit (drop_bit k n) (i - k)" by (auto simp: bit_simps)
    then show "drop_bit k n \<noteq> 0" by auto
  next
    assume "drop_bit k n \<noteq> 0"
    then obtain i where i: "bit n (k + i)" by (auto simp: bit_eq_iff bit_simps)
    moreover have "i < k" using b [of "k + i"] i by (cases "i < k") auto
    ultimately have "bit (n AND push_bit k (mask k)) (k + i)"
      using bit_imp_le_length [OF i] by (simp add: bit_simps)
    then show "n AND push_bit k (mask k) \<noteq> 0" by auto
  qed
qed

text \<open>
  One halving step of \<^const>\<open>floorLog2\<close>: while the high half is populated, shift it down and count.
  \<open>log_state m k p n\<close> says that \<open>n\<close> is the quotient of \<open>m\<close> by the power of two counted so far,
  is not zero, and fits in \<open>k\<close> bits.
\<close>

definition log_state :: "u32 \<Rightarrow> nat \<Rightarrow> int \<times> u32 \<Rightarrow> bool" where
  "log_state m k s \<longleftrightarrow> 0 \<le> fst s \<and> unat (snd s) = unat m div 2 ^ nat (fst s) \<and> snd s \<noteq> 0 \<and> unat (snd s) < 2 ^ k"

lemma log_state_step:
  assumes "log_state m (2 * k) s" and "c = push_bit k (mask k)" and "q = fst s + int k"
  shows "log_state m k (if snd s AND c \<noteq> 0 then (q, drop_bit k (snd s)) else s)"
proof -
  let ?n = "snd s"
  have l: "unat ?n < 2 ^ (2 * k)" using assms by (simp add: log_state_def)
  have d: "unat (drop_bit k ?n) = unat ?n div 2 ^ k" unfolding unat_drop_bit_eq by (rule drop_bit_eq_div)
  have z: "drop_bit k ?n = 0 \<longleftrightarrow> unat ?n < 2 ^ k"
    by (metis d div_eq_0_iff power_eq_0_iff unat_eq_zero zero_neq_numeral)
  show ?thesis
  proof (cases "?n AND c \<noteq> 0")
    case True
    then have nz: "drop_bit k ?n \<noteq> 0" using and_upper_half [OF l] assms(2) by simp
    have "unat ?n div 2 ^ k < 2 ^ k" using l by (simp add: less_mult_imp_div_less mult_2 power_add)
    then show ?thesis using True assms nz
      by (simp add: log_state_def d nat_add_distrib power_add div_mult2_eq)
  next
    case False
    then have "unat ?n < 2 ^ k" using and_upper_half [OF l] assms(2) z by simp
    then show ?thesis using False assms by (simp add: log_state_def)
  qed
qed

lemma floorLog2_bounds:
  assumes "n \<noteq> 0"
  shows "0 \<le> floorLog2 n \<and> 2 ^ nat (floorLog2 n) \<le> unat n \<and> unat n < 2 ^ Suc (nat (floorLog2 n))"
proof -
  define s1 where "s1 = (if n AND 0xffff0000 \<noteq> 0 then (16, drop_bit 16 n) else (0 :: int, n))"
  define s2 where "s2 = (if snd s1 AND 0x0000ff00 \<noteq> 0 then (fst s1 + 8, drop_bit 8 (snd s1)) else s1)"
  define s3 where "s3 = (if snd s2 AND 0x000000f0 \<noteq> 0 then (fst s2 + 4, drop_bit 4 (snd s2)) else s2)"
  define s4 where "s4 = (if snd s3 AND 0x0000000c \<noteq> 0 then (fst s3 + 2, drop_bit 2 (snd s3)) else s3)"
  have f: "floorLog2 n = (if snd s4 AND 0x00000002 \<noteq> 0 then fst s4 + 1 else fst s4)"
    using assms by (simp add: floorLog2_def s1_def s2_def s3_def s4_def Let_def split_beta)
  have m: "0xffff0000 = (push_bit 16 (mask 16) :: u32)" "0xff00 = (push_bit 8 (mask 8) :: u32)"
    "0xf0 = (push_bit 4 (mask 4) :: u32)" "0xc = (push_bit 2 (mask 2) :: u32)" "0x2 = (push_bit 1 (mask 1) :: u32)"
    by (simp_all add: push_bit_eq_mult mask_eq_exp_minus_1)
  have s0: "log_state n (2 * 16) (0, n)"
    using assms unsigned_less [of n, where 'a=nat] by (simp add: log_state_def)
  have "log_state n 16 s1" unfolding s1_def using log_state_step [OF s0 m(1), of 16] by (auto split: if_splits)
  then have "log_state n 8 s2" unfolding s2_def
    by (intro log_state_step [OF _ m(2)]) simp_all
  then have "log_state n 4 s3" unfolding s3_def
    by (intro log_state_step [OF _ m(3)]) simp_all
  then have "log_state n 2 s4" unfolding s4_def
    by (intro log_state_step [OF _ m(4)]) simp_all
  then have "log_state n 1 (if snd s4 AND 0x2 \<noteq> 0 then (fst s4 + 1, drop_bit 1 (snd s4)) else s4)"
    by (intro log_state_step [OF _ m(5)]) simp_all
  then obtain q where q: "log_state n 1 (floorLog2 n, q)"
    unfolding f by (cases s4) (auto split: if_splits)
  have u: "unat n div 2 ^ nat (floorLog2 n) = 1"
  proof -
    have "q \<noteq> 0" and l: "unat q < 2" using q unfolding log_state_def snd_conv power_one_right by blast+
    then have "unat q \<noteq> 0" by (simp add: unat_eq_zero)
    with l have "unat q = 1" by linarith
    then show ?thesis using q by (simp add: log_state_def)
  qed
  have "2 ^ nat (floorLog2 n) \<le> unat n" using u by (metis div_less leI zero_neq_one)
  moreover have "unat n < 2 ^ Suc (nat (floorLog2 n))" using u dividend_less_times_div [of "2 ^ nat (floorLog2 n)" "unat n"] by simp
  ultimately show ?thesis using q by (simp add: log_state_def)
qed


text \<open>Hence the value is the integer logarithm: it is the only exponent with these bounds.\<close>

lemma floorLog2_eqI:
  assumes "2 ^ k \<le> unat n" and "unat n < 2 ^ Suc k"
  shows "floorLog2 n = int k"
proof -
  have n: "n \<noteq> 0" using assms(1) by (intro notI) simp
  note b = floorLog2_bounds [OF n]
  have "2 ^ k < (2::nat) ^ Suc (nat (floorLog2 n))" "2 ^ nat (floorLog2 n) < (2::nat) ^ Suc k"
    using b assms by linarith+
  then have "k < Suc (nat (floorLog2 n))" "nat (floorLog2 n) < Suc k"
    using power_less_imp_less_exp [of "2::nat"] by (meson one_less_numeral_iff semiring_norm(76))+
  then show ?thesis using b by linarith
qed

lemma floorLog2_less_32: "n \<noteq> 0 \<Longrightarrow> floorLog2 n < 32"
proof -
  assume n: "n \<noteq> 0"
  have "(2::nat) ^ nat (floorLog2 n) < 2 ^ 32"
    using floorLog2_bounds [OF n] unsigned_less [of n, where 'a=nat] by simp
  then have "nat (floorLog2 n) < 32" by (rule power_less_imp_less_exp [of "2::nat", rotated]) simp
  then show ?thesis by linarith
qed

lemma floorLog2_power [simp]: "k < 32 \<Longrightarrow> floorLog2 (2 ^ k) = int k"
  by (rule floorLog2_eqI) (simp_all add: unat_two_power)

text \<open>Clearing the lowest set bit: \<open>n AND (n - 1)\<close> has exactly one bit less.\<close>

lemma lowest_bit_split:
  fixes n :: "'a::len word"
  assumes "n \<noteq> 0"
  obtains k where "bit n k" "\<And>i. bit (n AND (n - 1)) i \<longleftrightarrow> bit n i \<and> i \<noteq> k"
proof -
  note push_bit_Suc [simp del]
  define k where "k = (LEAST i. bit n i)"
  obtain i where "bit n i" using assms by (auto simp: bit_eq_iff)
  then have k: "bit n k" unfolding k_def by (rule LeastI)
  have below: "\<not> bit n i" if "i < k" for i using not_less_Least that unfolding k_def by blast
  have kl: "k < LENGTH('a)" using k by (rule bit_imp_le_length)
  define h where "h = drop_bit (Suc k) (unat n)"
  have un: "unat n = 2 ^ k + 2 ^ Suc k * h"
  proof (rule bit_eqI)
    fix i
    have "2 ^ k + 2 ^ Suc k * h = 2 ^ k + push_bit (Suc k) h" by (simp add: push_bit_eq_mult)
    moreover have "bit (2 ^ k + push_bit (Suc k) h) i \<longleftrightarrow> bit (2 ^ k :: nat) i \<or> bit (push_bit (Suc k) h) i"
      by (rule bit_disjunctive_add_iff) (auto simp: bit_simps)
    moreover have "i < k \<or> i = k \<or> k < i" by linarith
    ultimately show "bit (unat n) i \<longleftrightarrow> bit (2 ^ k + 2 ^ Suc k * h) i"
      by (elim disjE) (use k below [of i] in \<open>auto simp: h_def bit_simps Suc_le_eq\<close>)
  qed
  have um: "unat (n - 1) = mask k + push_bit (Suc k) h"
    using unat_minus_one [OF assms] un by (simp add: mask_eq_exp_minus_1 push_bit_eq_mult ac_simps)
  have bm: "bit (n - 1) i \<longleftrightarrow> i < k \<or> (k < i \<and> bit n i)" if "i < LENGTH('a)" for i
  proof -
    have "bit (unat (n - 1)) i \<longleftrightarrow> bit (mask k :: nat) i \<or> bit (push_bit (Suc k) h) i"
      unfolding um by (rule bit_disjunctive_add_iff) (auto simp: bit_simps)
    then show ?thesis using that by (auto simp: h_def bit_simps Suc_le_eq)
  qed
  show thesis
  proof (rule that [OF k])
    fix i show "bit (n AND (n - 1)) i \<longleftrightarrow> bit n i \<and> i \<noteq> k"
      using bm below by (metis bit_and_iff bit_imp_le_length linorder_neqE_nat less_irrefl)
  qed
qed

lemma popcount_clear_lowest:
  fixes n :: "'a::len word"
  assumes "n \<noteq> 0"
  shows "popcount n = Suc (popcount (n AND (n - 1)))"
proof -
  obtain k where k: "bit n k" "\<And>i. bit (n AND (n - 1)) i \<longleftrightarrow> bit n i \<and> i \<noteq> k"
    using lowest_bit_split [OF assms] by blast
  have "{i. i < LENGTH('a) \<and> bit n i} = insert k {i. i < LENGTH('a) \<and> bit (n AND (n - 1)) i}"
    using k bit_imp_le_length [OF k(1)] by auto
  then show ?thesis unfolding popcount_card using k by simp
qed

lemma countBits_loop_popcount: "n \<noteq> 0 \<Longrightarrow> countBits_loop n r + 1 = r + of_nat (popcount n)"
proof (induction n r rule: countBits_loop.induct)
  case (1 n r)
  show ?case
  proof (cases "n AND (n - 1) = 0")
    case True
    then show ?thesis using popcount_clear_lowest [OF 1(2)] by (simp add: countBits_loop.simps)
  next
    case False
    then show ?thesis using popcount_clear_lowest [OF 1(2)] 1(1) [OF refl False]
      by (simp add: countBits_loop.simps [of n] Let_def algebra_simps)
  qed
qed

lemma countBits_popcount: "countBits n = of_nat (popcount n)"
  using countBits_loop_popcount [of n 1] by (auto simp: countBits_def)

text \<open>\<^const>\<open>isPower2\<close> holds of the powers of two and of zero.\<close>

lemma isPower2_iff: "isPower2 n \<longleftrightarrow> n = 0 \<or> (\<exists>k < 32. n = 2 ^ k)"
proof
  assume p: "isPower2 n"
  show "n = 0 \<or> (\<exists>k < 32. n = 2 ^ k)"
  proof (cases "n = 0")
    case False
    obtain k where k: "bit n k" "\<And>i. bit (n AND (n - 1)) i \<longleftrightarrow> bit n i \<and> i \<noteq> k"
      using lowest_bit_split [OF False] by blast
    have "bit n i \<longleftrightarrow> i = k" for i using p k(1) k(2) [of i] by (auto simp: isPower2_def)
    then have "n = 2 ^ k" using bit_imp_le_length [OF k(1)] by (intro bit_word_eqI) (auto simp: bit_simps)
    then show ?thesis using bit_imp_le_length [OF k(1)] by auto
  qed simp
next
  assume "n = 0 \<or> (\<exists>k < 32. n = 2 ^ k)"
  then show "isPower2 n"
  proof
    assume "\<exists>k < 32. n = 2 ^ k"
    then obtain k where k: "k < 32" "n = 2 ^ k" by blast
    then have nz: "n \<noteq> 0" by simp
    obtain j where j: "bit n j" "\<And>i. bit (n AND (n - 1)) i \<longleftrightarrow> bit n i \<and> i \<noteq> j"
      using lowest_bit_split [OF nz] by blast
    then have "j = k" using k by (auto simp: bit_simps)
    then have "n AND (n - 1) = 0" using j k by (intro bit_word_eqI) (auto simp: bit_simps)
    then show ?thesis by (simp add: isPower2_def)
  qed (simp add: isPower2_def)
qed


section \<open>Pseudo random generators\<close>

text \<open>\<^verbatim>\<open>rng.h\<close>: a step returns the new state and the value drawn.\<close>

definition RNG_A :: u64 where "RNG_A = 0x5DEECE66D"
definition RNG_C :: u64 where "RNG_C = 0xB"
definition RNG_M :: u64 where "RNG_M = push_bit 48 1 - 1"

definition rng_next :: "u64 \<Rightarrow> u64 \<times> u64" where
  "rng_next state = (let state = (RNG_A * state + RNG_C) AND RNG_M in (state, drop_bit 16 state))"

definition rng_seed :: "u64 \<Rightarrow> u64" where
  "rng_seed seed = push_bit 16 seed + 0x330E"

text \<open>\<^verbatim>\<open>random.h\<close>: the generator of \<^verbatim>\<open>rand(3)\<close>, whose state is a 32-bit word.\<close>

definition Random_seed_next :: "u32 \<Rightarrow> u32" where
  "Random_seed_next seed = seed * 1103515245 + 12345"

definition Random_next :: "u32 \<Rightarrow> u32 \<Rightarrow> (u32 \<times> u32) option" where
  "Random_next seed limit = (let seed = Random_seed_next seed in umod (seed div 65536) limit \<bind> (\<lambda>v. Some (seed, v)))"

text \<open>
  The multiplier is one modulo four and the increment is odd, so the generator has the full
  period: from every seed every other seed is reached. \<open>2 ^ k\<close> steps act on the seed as an affine
  map whose factor is one modulo \<open>2 ^ (k + 2)\<close> and whose offset is an odd multiple of \<open>2 ^ k\<close>.
\<close>

fun lcg :: "int \<Rightarrow> int \<Rightarrow> nat \<Rightarrow> int \<Rightarrow> int" where
  "lcg a c 0 s = s"
| "lcg a c (Suc n) s = a * lcg a c n s + c"

lemma lcg_add: "lcg a c (m + n) s = lcg a c m (lcg a c n s)"
  by (induction m) auto

lemma lcg_power_two:
  assumes "a mod 4 = 1" and "odd c"
  shows "\<exists>A C. (\<forall>s. lcg a c (2 ^ k) s = A * s + C) \<and> A mod 2 ^ (k + 2) = 1 \<and> (\<exists>d. C = 2 ^ k * d \<and> odd d)"
proof (induction k)
  case 0
  show ?case using assms by (intro exI [of _ a] exI [of _ c]) auto
next
  case (Suc k)
  then obtain A d where f: "\<And>s. lcg a c (2 ^ k) s = A * s + 2 ^ k * d" and m: "A mod 2 ^ (k + 2) = 1" and d: "odd d"
    by blast
  define q where "q = A div 2 ^ (k + 2)"
  have A: "A = 2 ^ (k + 2) * q + 1" using m by (metis q_def mult_div_mod_eq)
  have "lcg a c (2 ^ Suc k) s = A * A * s + 2 ^ Suc k * ((2 ^ (k + 1) * q + 1) * d)" for s
  proof -
    have "lcg a c (2 ^ Suc k) s = lcg a c (2 ^ k) (lcg a c (2 ^ k) s)"
      by (simp add: mult_2 lcg_add)
    also have "\<dots> = A * (A * s) + (A * (2 ^ k * d) + 2 ^ k * d)" by (simp add: f algebra_simps)
    also have "A * (2 ^ k * d) + 2 ^ k * d = 2 ^ Suc k * ((2 ^ (k + 1) * q + 1) * d)"
      unfolding A by (simp add: algebra_simps)
    finally show ?thesis by (simp add: algebra_simps)
  qed
  moreover have "A * A mod 2 ^ (Suc k + 2) = 1"
  proof -
    have "A * A = 1 + 2 ^ (Suc k + 2) * (q + 2 ^ (k + 1) * q * q)"
      unfolding A by (simp add: algebra_simps power_add)
    then show ?thesis by (simp only: mod_mult_self2 one_mod_2_pow_eq) simp
  qed
  moreover have "odd ((2 ^ (k + 1) * q + 1) * d)" using d by simp
  ultimately show ?case by (intro exI [of _ "A * A"] exI [of _ "2 ^ Suc k * ((2 ^ (k + 1) * q + 1) * d)"]) blast
qed

lemma lcg_reaches:
  assumes "a mod 4 = 1" and "odd c"
  shows "\<exists>n. lcg a c n s mod 2 ^ k = t mod 2 ^ k"
proof (induction k)
  case (Suc k)
  then obtain n where n: "lcg a c n s mod 2 ^ k = t mod 2 ^ k" by blast
  define x where "x = lcg a c n s"
  obtain A d where f: "\<And>s. lcg a c (2 ^ k) s = A * s + 2 ^ k * d" and m: "A mod 2 ^ (k + 2) = 1" and d: "odd d"
    using lcg_power_two [OF assms, of k] by blast
  obtain e where e: "t - x = 2 ^ k * e"
    using n by (metis x_def mod_eq_dvd_iff dvd_def)
  show ?case
  proof (cases "even e")
    case True
    then have "2 ^ Suc k dvd t - x" using e by (auto elim!: evenE)
    then show ?thesis by (metis x_def mod_eq_dvd_iff)
  next
    case False
    have "A mod 2 ^ (k + 2) = 1 mod 2 ^ (k + 2)" by (simp only: m one_mod_2_pow_eq) simp
    then have "2 ^ (k + 2) dvd A - 1" by (simp only: mod_eq_dvd_iff)
    then have "2 ^ Suc k dvd (A - 1) * x" by (intro dvd_mult2) (rule dvd_trans [of _ "2 ^ (k + 2)"], simp_all add: le_imp_power_dvd)
    moreover have "2 ^ Suc k dvd 2 ^ k * (d - e)" using d False by simp
    moreover have "lcg a c (2 ^ k + n) s - t = (A - 1) * x + 2 ^ k * (d - e)"
    proof -
      have "t = x + 2 ^ k * e" using e by linarith
      moreover have "lcg a c (2 ^ k + n) s = A * x + 2 ^ k * d" by (simp only: lcg_add f x_def)
      ultimately show ?thesis by (simp only: left_diff_distrib right_diff_distrib mult_1)
    qed
    ultimately have "2 ^ Suc k dvd lcg a c (2 ^ k + n) s - t" by (simp only: dvd_add)
    then show ?thesis by (metis mod_eq_dvd_iff)
  qed
qed simp

lemma Random_seeds_lcg: "(Random_seed_next ^^ n) s = word_of_int (lcg 1103515245 12345 n (uint s))"
proof (induction n)
  case (Suc n)
  have "(Random_seed_next ^^ Suc n) s = Random_seed_next (word_of_int (lcg 1103515245 12345 n (uint s)))"
    by (simp only: funpow.simps comp_apply Suc)
  also have "\<dots> = word_of_int (lcg 1103515245 12345 (Suc n) (uint s))"
    by (simp only: lcg.simps Random_seed_next_def of_int_add of_int_mult of_int_numeral mult.commute)
  finally show ?case .
qed simp

lemma Random_full_period: "\<exists>n. (Random_seed_next ^^ n) s = t"
proof -
  obtain n where "lcg 1103515245 12345 n (uint s) mod 2 ^ 32 = uint t mod 2 ^ 32"
    using lcg_reaches [of 1103515245 12345 "uint s" 32 "uint t"] by auto
  then have "word_of_int (lcg 1103515245 12345 n (uint s)) = (word_of_int (uint t) :: u32)"
    by (simp only: word_of_int_eq_iff take_bit_eq_mod) simp
  then show ?thesis by (auto simp: Random_seeds_lcg)
qed


section \<open>Home nodes of addresses\<close>

record AddressHomeLookup =
  ahl_param :: u32
  ahl_mask :: u64
  ahl_core_list :: "int list"
  ahl_total_modules :: u32
  ahl_cache_block_size :: u32

definition AddressHomeLookup_new :: "u32 \<Rightarrow> int list \<Rightarrow> u32 \<Rightarrow> AddressHomeLookup option" where
  "AddressHomeLookup_new param core_list block_size = do {
     one \<leftarrow> shl (1 :: u64) (unat param);
     (if unat param < 31 \<and> sint block_size \<le> 2 ^ unat param then Some () else None);
     Some \<lparr>ahl_param = param, ahl_mask = one - 1, ahl_core_list = core_list,
       ahl_total_modules = of_nat (length core_list), ahl_cache_block_size = block_size\<rparr> }"

text \<open>
  \<^verbatim>\<open>(address >> m_ahl_param) % m_total_modules\<close> is computed in 64 bits and then stored in a 32-bit
  signed integer, whose range the assertion checks.
\<close>

definition getHome :: "AddressHomeLookup \<Rightarrow> u64 \<Rightarrow> int option" where
  "getHome a address = do {
     block \<leftarrow> shr address (unat (ahl_param a));
     r \<leftarrow> umod block (ucast (ahl_total_modules a));
     let module_num = sint (ucast r :: u32);
     (if 0 \<le> module_num \<and> module_num < sint (ahl_total_modules a) then Some () else None);
     (if nat module_num < length (ahl_core_list a) then Some (ahl_core_list a ! nat module_num) else None) }"

definition getLinearBlock :: "AddressHomeLookup \<Rightarrow> u64 \<Rightarrow> u64 option" where
  "getLinearBlock a address = shr address (unat (ahl_param a)) \<bind> (\<lambda>b. udiv b (ucast (ahl_total_modules a)))"

definition getLinearAddress :: "AddressHomeLookup \<Rightarrow> u64 \<Rightarrow> u64 option" where
  "getLinearAddress a address = do {
     b \<leftarrow> getLinearBlock a address;
     s \<leftarrow> shl b (unat (ahl_param a));
     Some (s OR (address AND ahl_mask a)) }"


definition ahl_wf :: "AddressHomeLookup \<Rightarrow> bool" where
  "ahl_wf a \<longleftrightarrow> unat (ahl_param a) < 31 \<and> ahl_mask a = mask (unat (ahl_param a))
     \<and> unat (ahl_total_modules a) = length (ahl_core_list a)
     \<and> ahl_core_list a \<noteq> [] \<and> length (ahl_core_list a) < 2 ^ 31"

lemma AddressHomeLookup_new_wf:
  assumes "AddressHomeLookup_new param core_list block_size = Some a"
    and "core_list \<noteq> []" and "length core_list < 2 ^ 31"
  shows "ahl_wf a"
proof -
  have "take_bit 32 (length core_list) = length core_list" using assms(3) by (simp add: take_bit_nat_eq_self)
  then have "unat (of_nat (length core_list) :: u32) = length core_list" by (simp add: unsigned_of_nat)
  then show ?thesis using assms
    by (auto simp: AddressHomeLookup_new_def ahl_wf_def shl_def mask_eq_exp_minus_1 push_bit_eq_mult split: bind_splits if_splits)
qed

text \<open>On a well-formed lookup, in terms of natural numbers: the home is the block number modulo the
  number of modules, and the linear address numbers the blocks of one home consecutively.\<close>

lemma getHome_nat:
  assumes "ahl_wf a"
  shows "getHome a x = Some (ahl_core_list a ! (unat x div 2 ^ unat (ahl_param a) mod length (ahl_core_list a)))"
proof -
  let ?p = "unat (ahl_param a)" and ?n = "length (ahl_core_list a)"
  have n: "unat (ahl_total_modules a) = ?n" "0 < ?n" "?n < 2 ^ 31" "?p < 31" using assms by (auto simp: ahl_wf_def)
  have nz: "(ucast (ahl_total_modules a) :: u64) \<noteq> 0"
    using n by (metis unat_0 unat_ucast_32_64 less_numeral_extra(3))
  define r where "r = unat x div 2 ^ ?p mod ?n"
  have rl: "r < ?n" using n by (simp add: r_def)
  have ur: "unat (drop_bit ?p x mod ucast (ahl_total_modules a)) = r"
    unfolding unat_mod unat_drop_bit_eq unat_ucast_32_64 n(1) r_def by (simp only: drop_bit_eq_div)
  have u32: "unat (ucast (drop_bit ?p x mod ucast (ahl_total_modules a)) :: u32) = r"
    using rl n(3) ur by (subst unat_ucast_64_32) auto
  have s: "sint (ucast (drop_bit ?p x mod ucast (ahl_total_modules a)) :: u32) = int r"
    using rl n(3) u32 by (subst sint_eq_unat) auto
  have sn: "sint (ahl_total_modules a) = int ?n" using n by (subst sint_eq_unat) auto
  show ?thesis unfolding getHome_def
    using n(4) nz rl by (simp add: s sn Let_def) (simp add: r_def)
qed

lemma getLinearAddress_nat:
  assumes "ahl_wf a"
  obtains l where "getLinearAddress a x = Some l"
    "unat l = unat x div 2 ^ unat (ahl_param a) div length (ahl_core_list a) * 2 ^ unat (ahl_param a)
              + unat x mod 2 ^ unat (ahl_param a)"
proof -
  let ?p = "unat (ahl_param a)" and ?n = "length (ahl_core_list a)"
  have n: "unat (ahl_total_modules a) = ?n" "0 < ?n" "?p < 31" "ahl_mask a = mask ?p" using assms by (auto simp: ahl_wf_def)
  have nz: "(ucast (ahl_total_modules a) :: u64) \<noteq> 0"
    using n by (metis unat_0 unat_ucast_32_64 less_numeral_extra(3))
  define b where "b = drop_bit ?p x div ucast (ahl_total_modules a)"
  have ub: "unat b = unat x div 2 ^ ?p div ?n"
    unfolding b_def unat_div unat_drop_bit_eq unat_ucast_32_64 n(1) by (simp only: drop_bit_eq_div)
  define l where "l = push_bit ?p b OR (x AND mask ?p)"
  have e: "getLinearAddress a x = Some l"
    using n nz by (simp add: getLinearAddress_def getLinearBlock_def b_def l_def)
  have "unat x div 2 ^ ?p div ?n * 2 ^ ?p \<le> unat x div 2 ^ ?p * 2 ^ ?p" by (simp add: div_le_dividend)
  also have "\<dots> \<le> unat x" by (simp add: div_times_less_eq_dividend)
  also have "unat x < 2 ^ 64" using unsigned_less [of x, where 'a=nat] by simp
  finally have up: "unat (push_bit ?p b) = unat b * 2 ^ ?p"
    by (intro unat_push_bit_no_overflow) (simp add: ub)
  have "l = push_bit ?p b + (x AND mask ?p)"
    unfolding l_def by (rule disjunctive_add [symmetric]) (auto simp: bit_simps)
  moreover have "unat (push_bit ?p b) + unat (x AND mask ?p) \<le> unat x"
  proof -
    have "unat x div 2 ^ ?p div ?n * 2 ^ ?p \<le> unat x div 2 ^ ?p * 2 ^ ?p" by (simp add: div_le_dividend)
    then show ?thesis using div_mult_mod_eq [of "unat x" "2 ^ ?p"] unfolding up ub unat_and_mask by linarith
  qed
  ultimately have "unat l = unat b * 2 ^ ?p + unat x mod 2 ^ ?p"
    using unat_add_no_overflow [of "push_bit ?p b" "x AND mask ?p"] unsigned_less [of x, where 'a=nat]
    by (simp only: up unat_and_mask)
  then show thesis using that [OF e] ub by simp
qed

text \<open>No two addresses of one home share a linear address.\<close>

lemma linear_address_injective:
  assumes "ahl_wf a" and "distinct (ahl_core_list a)"
    and "getHome a x = getHome a y" and "getLinearAddress a x = getLinearAddress a y"
  shows "x = y"
proof -
  let ?q = "2 ^ unat (ahl_param a) :: nat" and ?n = "length (ahl_core_list a)"
  have n: "0 < ?n" using assms(1) by (auto simp: ahl_wf_def)
  have h: "unat x div ?q mod ?n = unat y div ?q mod ?n"
    using assms(2,3) n by (simp add: getHome_nat [OF assms(1)] nth_eq_iff_index_eq)
  obtain l where e: "getLinearAddress a x = Some l" and lx: "unat l = unat x div ?q div ?n * ?q + unat x mod ?q"
    by (rule getLinearAddress_nat [OF assms(1)])
  obtain l' where "getLinearAddress a y = Some l'" "unat l' = unat y div ?q div ?n * ?q + unat y mod ?q"
    by (rule getLinearAddress_nat [OF assms(1)])
  then have ly: "unat l = unat y div ?q div ?n * ?q + unat y mod ?q" using e assms(4) by simp
  have "unat x mod ?q = unat l mod ?q" "unat y mod ?q = unat l mod ?q"
    "unat x div ?q div ?n = unat l div ?q" "unat y div ?q div ?n = unat l div ?q"
    by (simp add: lx, simp add: ly, simp add: lx, simp add: ly)
  then have "unat x mod ?q = unat y mod ?q" "unat x div ?q div ?n = unat y div ?q div ?n" by simp_all
  moreover from this(2) h have "unat x div ?q = unat y div ?q" by (metis div_mult_mod_eq)
  ultimately have "unat x = unat y" by (metis div_mult_mod_eq)
  then show ?thesis by (rule word_unat_eq_iff [THEN iffD2])
qed

end
