(* ===== verification/Sniper_Block.thy ===== *)
theory Sniper_Block
  imports Sniper_Base
begin

text \<open>
  The tag side of a cache line (\<^verbatim>\<open>cache_block_info.cc\<close>, \<^verbatim>\<open>pr_l2_cache_block_info.cc\<close>,
  \<^verbatim>\<open>shared_cache_block_info.cc\<close>): the fields every line has, the three classes of lines, the usage and
  option bit fields, and the set of first-level caches that hold a line of a private second-level cache.
\<close>

section \<open>Line states and memory components\<close>

datatype cstate_t = INVALID | SHARED | SHARED_UPGRADING | EXCLUSIVE | OWNED | MODIFIED
  | INVALID_COLD | INVALID_EVICT | INVALID_COHERENCY

definition CacheState_readable :: "cstate_t \<Rightarrow> bool" where
  "CacheState_readable c \<longleftrightarrow> c = MODIFIED \<or> c = OWNED \<or> c = SHARED \<or> c = EXCLUSIVE"

definition CacheState_writable :: "cstate_t \<Rightarrow> bool" where
  "CacheState_writable c \<longleftrightarrow> c = MODIFIED"

type_synonym component_t = nat

definition INVALID_MEM_COMPONENT :: component_t where "INVALID_MEM_COMPONENT = 0"
definition L1_ICACHE :: component_t where "L1_ICACHE = 2"
definition L1_DCACHE :: component_t where "L1_DCACHE = 3"

section \<open>The fields of a line\<close>

record block_info =
  m_tag :: u64
  m_cstate :: cstate_t
  m_owner :: u64
  m_used :: u8
  m_options :: u8

definition CacheBlockInfo_new :: "u64 \<Rightarrow> cstate_t \<Rightarrow> u64 \<Rightarrow> block_info" where
  "CacheBlockInfo_new tag cstate options =
     \<lparr>m_tag = tag, m_cstate = cstate, m_owner = 0, m_used = 0, m_options = ucast options\<rparr>"

definition CacheBlockInfo_invalidate :: "block_info \<Rightarrow> block_info" where
  "CacheBlockInfo_invalidate b = b\<lparr>m_tag := NOT 0, m_cstate := INVALID\<rparr>"

definition CacheBlockInfo_clone :: "block_info \<Rightarrow> block_info \<Rightarrow> block_info" where
  "CacheBlockInfo_clone b src =
     b\<lparr>m_tag := m_tag src, m_cstate := m_cstate src, m_owner := m_owner src, m_used := m_used src, m_options := m_options src\<rparr>"

definition isValid :: "block_info \<Rightarrow> bool" where
  "isValid b \<longleftrightarrow> m_tag b \<noteq> NOT 0"

datatype option_t = PREFETCH | WARMUP

fun option_index :: "option_t \<Rightarrow> nat" where
  "option_index PREFETCH = 0"
| "option_index WARMUP = 1"

definition getOptionName :: "nat \<Rightarrow> string" where
  "getOptionName opt = (if opt < 2 then [''prefetch'', ''warmup''] ! opt else ''invalid'')"

definition hasOption :: "block_info \<Rightarrow> option_t \<Rightarrow> bool" where
  "hasOption b opt \<longleftrightarrow> m_options b AND push_bit (option_index opt) 1 \<noteq> 0"

definition setOption :: "option_t \<Rightarrow> block_info \<Rightarrow> block_info" where
  "setOption opt b = b\<lparr>m_options := m_options b OR push_bit (option_index opt) 1\<rparr>"

definition clearOption :: "option_t \<Rightarrow> block_info \<Rightarrow> block_info" where
  "clearOption opt b = b\<lparr>m_options := m_options b AND ucast (NOT (push_bit (option_index opt) 1 :: u64))\<rparr>"

definition BitsUsedOffset :: nat where "BitsUsedOffset = 3"

definition updateUsage_mask :: "u8 \<Rightarrow> block_info \<Rightarrow> bool \<times> block_info" where
  "updateUsage_mask used b =
     (let new_bits_set = used AND NOT (m_used b) \<noteq> 0 in (new_bits_set, b\<lparr>m_used := m_used b OR used\<rparr>))"

definition usage_mask :: "u32 \<Rightarrow> u32 \<Rightarrow> u64 option" where
  "usage_mask offset sz = do {
     let first = drop_bit BitsUsedOffset offset;
     let last_elem = drop_bit BitsUsedOffset (offset + sz - 1);
     f \<leftarrow> shl (1 :: u64) (unat first);
     l \<leftarrow> shl (1 :: u64) (unat last_elem + 1);
     let first_mask = f - 1;
     let last_mask = l - 1;
     Some (last_mask AND NOT first_mask) }"

definition updateUsage :: "u32 \<Rightarrow> u32 \<Rightarrow> block_info \<Rightarrow> (bool \<times> block_info) option" where
  "updateUsage offset sz b = usage_mask offset sz \<bind> (\<lambda>m. Some (updateUsage_mask (ucast m) b))"

section \<open>The classes of lines\<close>

datatype cache_t = PR_L1_CACHE | PR_L2_CACHE | SHARED_CACHE

datatype cache_block =
    PrL1CacheBlockInfo (binfo: block_info)
  | PrL2CacheBlockInfo (binfo: block_info) (m_cached_loc_bitvec: u32)
  | SharedCacheBlockInfo (binfo: block_info)

abbreviation getTag :: "cache_block \<Rightarrow> u64" where "getTag b \<equiv> m_tag (binfo b)"
abbreviation getCState :: "cache_block \<Rightarrow> cstate_t" where "getCState b \<equiv> m_cstate (binfo b)"

fun with_info :: "(block_info \<Rightarrow> block_info) \<Rightarrow> cache_block \<Rightarrow> cache_block" where
  "with_info f (PrL1CacheBlockInfo i) = PrL1CacheBlockInfo (f i)"
| "with_info f (PrL2CacheBlockInfo i v) = PrL2CacheBlockInfo (f i) v"
| "with_info f (SharedCacheBlockInfo i) = SharedCacheBlockInfo (f i)"

fun block_class :: "cache_block \<Rightarrow> cache_t" where
  "block_class (PrL1CacheBlockInfo _) = PR_L1_CACHE"
| "block_class (PrL2CacheBlockInfo _ _) = PR_L2_CACHE"
| "block_class (SharedCacheBlockInfo _) = SHARED_CACHE"

fun cache_block_create :: "cache_t \<Rightarrow> cache_block" where
  "cache_block_create PR_L1_CACHE = PrL1CacheBlockInfo (CacheBlockInfo_new (NOT 0) INVALID 0)"
| "cache_block_create PR_L2_CACHE = PrL2CacheBlockInfo (CacheBlockInfo_new (NOT 0) INVALID 0) 0"
| "cache_block_create SHARED_CACHE = SharedCacheBlockInfo (CacheBlockInfo_new (NOT 0) INVALID 0)"

definition setTag :: "u64 \<Rightarrow> cache_block \<Rightarrow> cache_block" where
  "setTag tag = with_info (m_tag_update (\<lambda>_. tag))"

definition setCState :: "cstate_t \<Rightarrow> cache_block \<Rightarrow> cache_block" where
  "setCState cstate = with_info (m_cstate_update (\<lambda>_. cstate))"

definition setOwner :: "u64 \<Rightarrow> cache_block \<Rightarrow> cache_block" where
  "setOwner owner = with_info (m_owner_update (\<lambda>_. owner))"

text \<open>
  The virtual methods. Cloning into a second-level line reads the location bits of its argument
  through a cast, so the argument must be one too.
\<close>

fun block_invalidate :: "cache_block \<Rightarrow> cache_block" where
  "block_invalidate (PrL1CacheBlockInfo i) = PrL1CacheBlockInfo (CacheBlockInfo_invalidate i)"
| "block_invalidate (PrL2CacheBlockInfo i v) = PrL2CacheBlockInfo (CacheBlockInfo_invalidate i) 0"
| "block_invalidate (SharedCacheBlockInfo i) = SharedCacheBlockInfo (CacheBlockInfo_invalidate i)"

fun block_clone :: "cache_block \<Rightarrow> cache_block \<Rightarrow> cache_block option" where
  "block_clone (PrL1CacheBlockInfo i) src = Some (PrL1CacheBlockInfo (CacheBlockInfo_clone i (binfo src)))"
| "block_clone (PrL2CacheBlockInfo i v) (PrL2CacheBlockInfo j w) = Some (PrL2CacheBlockInfo (CacheBlockInfo_clone i j) w)"
| "block_clone (PrL2CacheBlockInfo i v) src = None"
| "block_clone (SharedCacheBlockInfo i) src = Some (SharedCacheBlockInfo (CacheBlockInfo_clone i (binfo src)))"

section \<open>Locations of a second-level line\<close>

definition getCachedLoc :: "u32 \<Rightarrow> component_t option" where
  "getCachedLoc v =
     (if v = push_bit L1_ICACHE 1 OR push_bit L1_DCACHE 1 then None
      else if v = push_bit L1_ICACHE 1 then Some L1_ICACHE
      else if v = push_bit L1_DCACHE 1 then Some L1_DCACHE
      else if v = 0 then Some INVALID_MEM_COMPONENT
      else None)"

definition setCachedLoc :: "component_t \<Rightarrow> u32 \<Rightarrow> u32 option" where
  "setCachedLoc loc v = do {
     bit1 \<leftarrow> shl (1 :: u32) loc;
     (if loc \<noteq> INVALID_MEM_COMPONENT \<and> v AND bit1 = 0 then Some (v OR bit1) else None) }"

definition clearCachedLoc :: "component_t \<Rightarrow> u32 \<Rightarrow> u32 option" where
  "clearCachedLoc loc v = do {
     bit1 \<leftarrow> shl (1 :: u32) loc;
     (if loc \<noteq> INVALID_MEM_COMPONENT \<and> v AND bit1 \<noteq> 0 then Some (v AND NOT bit1) else None) }"

section \<open>Facts\<close>

lemma binfo_with_info [simp]: "binfo (with_info f b) = f (binfo b)"
  by (cases b) auto

lemma block_class_with_info [simp]: "block_class (with_info f b) = block_class b"
  by (cases b) auto

lemma block_class_create [simp]: "block_class (cache_block_create t) = t"
  by (cases t) auto

lemma binfo_create [simp]: "binfo (cache_block_create t) = CacheBlockInfo_new (NOT 0) INVALID 0"
  by (cases t) auto

lemma create_invalid [simp]: "\<not> isValid (binfo (cache_block_create t))"
  by (simp add: isValid_def CacheBlockInfo_new_def)

lemma getTag_setTag [simp]: "getTag (setTag t b) = t"
  by (simp add: setTag_def)

lemma block_class_setTag [simp]: "block_class (setTag t b) = block_class b"
  by (simp add: setTag_def)

lemma block_invalidate_invalid [simp]: "\<not> isValid (binfo (block_invalidate b))"
  by (cases b) (auto simp: CacheBlockInfo_invalidate_def isValid_def)

lemma getTag_invalidate [simp]: "getTag (block_invalidate b) = NOT 0"
  by (cases b) (auto simp: CacheBlockInfo_invalidate_def)

lemma block_class_invalidate [simp]: "block_class (block_invalidate b) = block_class b"
  by (cases b) auto

lemma CacheBlockInfo_clone_eq [simp]: "CacheBlockInfo_clone b src = src"
  by (simp add: CacheBlockInfo_clone_def)

text \<open>Cloning a line of the same class yields an equal line.\<close>

lemma block_clone_same_class: "block_class b = block_class src \<Longrightarrow> block_clone b src = Some src"
  by (cases b; cases src) auto

lemma block_clone_class: "block_clone b src = Some c \<Longrightarrow> block_class c = block_class b \<and> binfo c = binfo src"
  by (cases b; cases src) auto

lemma block_clone_total: "(block_class b = PR_L2_CACHE \<Longrightarrow> block_class src = PR_L2_CACHE) \<Longrightarrow> \<exists>c. block_clone b src = Some c"
  by (cases b; cases src) auto

text \<open>The option bits are independent of each other.\<close>

lemma hasOption_bit: "hasOption b opt \<longleftrightarrow> bit (m_options b) (option_index opt)"
proof -
  have "hasOption b opt \<longleftrightarrow> m_options b AND 2 ^ option_index opt \<noteq> 0"
    by (simp add: hasOption_def push_bit_eq_mult)
  then show ?thesis by (simp add: bit_iff_and_push_bit_not_eq_0 push_bit_eq_mult)
qed

lemma option_index_less: "option_index opt < 8"
  by (cases opt) auto

lemma option_index_inj: "option_index a = option_index b \<longleftrightarrow> a = b"
  by (cases a; cases b) auto

lemma hasOption_setOption: "hasOption (setOption opt b) opt' \<longleftrightarrow> opt' = opt \<or> hasOption b opt'"
  unfolding hasOption_bit using option_index_less [of opt'] option_index_inj [of opt' opt]
  by (auto simp: setOption_def bit_simps)

lemma hasOption_clearOption: "hasOption (clearOption opt b) opt' \<longleftrightarrow> opt' \<noteq> opt \<and> hasOption b opt'"
  unfolding hasOption_bit using option_index_less [of opt'] option_index_inj [of opt' opt]
  by (auto simp: clearOption_def bit_simps)

text \<open>
  The usage bits: an access to \<open>sz\<close> bytes at \<open>offset\<close> of a line of at most 64 bytes marks exactly
  the 8-byte elements that it touches.
\<close>

lemma usage_mask_bits:
  assumes "0 < unat sz" and "unat offset + unat sz \<le> 64"
  obtains m where "usage_mask offset sz = Some m"
    "\<And>i. bit m i \<longleftrightarrow> unat offset div 8 \<le> i \<and> i \<le> (unat offset + unat sz - 1) div 8"
proof -
  define e where "e = unat offset + unat sz - 1"
  have oe: "unat offset \<le> e" "e < 64" using assms by (auto simp: e_def)
  have ue: "unat (offset + sz - 1) = e"
  proof -
    have s: "unat (offset + sz) = unat offset + unat sz"
      using assms by (intro unat_add_no_overflow) simp
    then have "offset + sz \<noteq> 0" using assms(1) by (metis add_gr_0 unat_0 less_numeral_extra(3))
    from unat_minus_one [OF this] show ?thesis by (simp add: s e_def)
  qed
  have f: "unat (drop_bit BitsUsedOffset offset) = unat offset div 8" "unat (drop_bit BitsUsedOffset (offset + sz - 1)) = e div 8"
    by (simp_all add: BitsUsedOffset_def unat_drop_bit_div ue)
  have l: "e div 8 < 8" "unat offset div 8 \<le> e div 8" using oe by (auto intro: div_le_mono simp: less_mult_imp_div_less)
  define m :: u64 where "m = mask (e div 8 + 1) AND NOT (mask (unat offset div 8))"
  have "usage_mask offset sz = Some m"
    using l unfolding usage_mask_def Let_def f m_def by (simp add: mask_eq_exp_minus_1 push_bit_eq_mult)
  moreover have "bit m i \<longleftrightarrow> unat offset div 8 \<le> i \<and> i \<le> e div 8" for i
    using l by (auto simp: m_def bit_simps)
  ultimately show thesis using that unfolding e_def by blast
qed

text \<open>A touched element that was unused makes \<^const>\<open>updateUsage\<close> return true, and afterwards it is used.\<close>

lemma updateUsage_bits:
  assumes "0 < unat sz" and "unat offset + unat sz \<le> 64"
  obtains b' where "updateUsage offset sz b = Some (\<exists>i. unat offset div 8 \<le> i \<and> i \<le> (unat offset + unat sz - 1) div 8 \<and> \<not> bit (m_used b) i, b')"
    "\<And>i. bit (m_used b') i \<longleftrightarrow> bit (m_used b) i \<or> (unat offset div 8 \<le> i \<and> i \<le> (unat offset + unat sz - 1) div 8)"
    "b' = b\<lparr>m_used := m_used b'\<rparr>"
proof -
  obtain m where m: "usage_mask offset sz = Some m"
    "\<And>i. bit m i \<longleftrightarrow> unat offset div 8 \<le> i \<and> i \<le> (unat offset + unat sz - 1) div 8"
    using usage_mask_bits [OF assms] by blast
  have l: "i < 8" if "i \<le> (unat offset + unat sz - 1) div 8" for i
    using assms that by (intro le_less_trans [OF that]) (auto intro: less_mult_imp_div_less)
  have bm: "bit (ucast m :: u8) i \<longleftrightarrow> bit m i" for i using m(2) [of i] l [of i] by (auto simp: bit_simps)
  have n: "ucast m AND NOT (m_used b) \<noteq> 0 \<longleftrightarrow> (\<exists>i. bit m i \<and> \<not> bit (m_used b) i)"
    unfolding bit_eq_iff using bm m(2) l by (auto simp: bit_simps)
  show thesis
  proof (rule that [of "b\<lparr>m_used := m_used b OR ucast m\<rparr>"])
    show "updateUsage offset sz b = Some (\<exists>i. unat offset div 8 \<le> i \<and> i \<le> (unat offset + unat sz - 1) div 8 \<and> \<not> bit (m_used b) i, b\<lparr>m_used := m_used b OR ucast m\<rparr>)"
      using n m(2) by (simp add: updateUsage_def m(1) updateUsage_mask_def)
    show "bit (m_used (b\<lparr>m_used := m_used b OR ucast m\<rparr>)) i \<longleftrightarrow> bit (m_used b) i \<or> (unat offset div 8 \<le> i \<and> i \<le> (unat offset + unat sz - 1) div 8)" for i
      using bm m(2) by (simp add: bit_or_iff)
  qed simp
qed

text \<open>Setting and clearing a location of a second-level line undo each other.\<close>

lemma setCachedLoc_clear: "setCachedLoc loc v = Some w \<Longrightarrow> clearCachedLoc loc w = Some v"
  by (auto simp: setCachedLoc_def clearCachedLoc_def shl_def bit_eq_iff bit_simps split: if_splits)

end
