(* ===== verification/Sniper_Set.thy ===== *)
theory Sniper_Set
  imports Sniper_Block
begin

text \<open>
  Cache sets (\<^verbatim>\<open>cache_set.cc\<close>): the lines of a set, their data bytes, lookup, invalidation, reads and
  writes, and insertion. The two virtual methods of the replacement policy are arguments of the
  operations that call them; the type parameter of the record is the state that the policy's class adds.
  The interface \<open>replacement_policy\<close> states what a policy promises, and what every set does with it
  is proved there once: lookups after insertions, evictions and invalidations.
\<close>

section \<open>State\<close>

text \<open>The statistics object that the sets of one cache share (\<^verbatim>\<open>CacheSetInfoLRU\<close>).\<close>

record CacheSetInfoLRU =
  si_associativity :: u32
  si_access :: "u64 list"
  si_attempts :: "u64 list option"

text \<open>
  The controller a policy may query (\<^verbatim>\<open>CacheCntlr\<close>): its answer about a line, and how often it was told
  to add the cost of a query.
\<close>

record CacheCntlr =
  isInLowerLevelCache :: "cache_block \<Rightarrow> bool"
  qbs_lookups :: nat

record repl_env =
  set_info :: "CacheSetInfoLRU option"
  cntlr :: "CacheCntlr option"

record 'p cache_set =
  cs_blocks :: "cache_block list"
  cs_data :: "u8 list option"
  cs_associativity :: u32
  cs_blocksize :: u32
  cs_policy :: 'p

definition with_policy :: "'p \<Rightarrow> 'q cache_set \<Rightarrow> 'p cache_set" where
  "with_policy p s = \<lparr>cs_blocks = cs_blocks s, cs_data = cs_data s, cs_associativity = cs_associativity s,
     cs_blocksize = cs_blocksize s, cs_policy = p\<rparr>"

type_synonym 'p get_index = "'p cache_set \<Rightarrow> repl_env \<Rightarrow> (nat \<times> 'p \<times> repl_env) option"
type_synonym 'p update_index = "nat \<Rightarrow> 'p cache_set \<Rightarrow> repl_env \<Rightarrow> ('p \<times> repl_env) option"

section \<open>Operations\<close>

definition CacheSet_new :: "cache_t \<Rightarrow> u32 \<Rightarrow> u32 \<Rightarrow> bool \<Rightarrow> 'p \<Rightarrow> 'p cache_set" where
  "CacheSet_new cache_type associativity blocksize fault_injection p =
     \<lparr>cs_blocks = replicate (unat associativity) (cache_block_create cache_type),
      cs_data = (if fault_injection then Some (replicate (unat (associativity * blocksize)) 0) else None),
      cs_associativity = associativity, cs_blocksize = blocksize, cs_policy = p\<rparr>"

definition memcpy_from :: "u8 list \<Rightarrow> nat \<Rightarrow> nat \<Rightarrow> u8 list option" where
  "memcpy_from d off n = (if off + n \<le> length d then Some (take n (drop off d)) else None)"

definition memcpy_to :: "u8 list \<Rightarrow> nat \<Rightarrow> u8 list \<Rightarrow> nat \<Rightarrow> u8 list option" where
  "memcpy_to d off src n =
     (if off + n \<le> length d \<and> n \<le> length src then Some (take off d @ take n src @ drop (off + n) d) else None)"

text \<open>The position of a byte of a line in the data of the set (\<^verbatim>\<open>getDataPtr\<close>), computed in 32 bits.\<close>

definition data_index :: "'p cache_set \<Rightarrow> nat \<Rightarrow> u32 \<Rightarrow> nat" where
  "data_index s line offset = unat (of_nat line * cs_blocksize s + offset)"

definition CacheSet_read_line ::
  "'p update_index \<Rightarrow> nat \<Rightarrow> u32 \<Rightarrow> bool \<Rightarrow> u32 \<Rightarrow> bool \<Rightarrow> 'p cache_set \<Rightarrow> repl_env \<Rightarrow> (u8 list option \<times> 'p cache_set \<times> repl_env) option" where
  "CacheSet_read_line upd line offset out_buff bytes update_replacement s e = do {
     (if offset + bytes \<le> cs_blocksize s then Some () else None);
     out \<leftarrow> (case cs_data s of
         Some d \<Rightarrow> if out_buff then map_option Some (memcpy_from d (data_index s line offset) (unat bytes)) else Some None
       | None \<Rightarrow> Some None);
     (p, e) \<leftarrow> (if update_replacement then upd line s e else Some (cs_policy s, e));
     Some (out, s\<lparr>cs_policy := p\<rparr>, e) }"

definition CacheSet_write_line ::
  "'p update_index \<Rightarrow> nat \<Rightarrow> u32 \<Rightarrow> u8 list option \<Rightarrow> u32 \<Rightarrow> bool \<Rightarrow> 'p cache_set \<Rightarrow> repl_env \<Rightarrow> ('p cache_set \<times> repl_env) option" where
  "CacheSet_write_line upd line offset in_buff bytes update_replacement s e = do {
     (if offset + bytes \<le> cs_blocksize s then Some () else None);
     data \<leftarrow> (case (in_buff, cs_data s) of
         (Some src, Some d) \<Rightarrow> map_option Some (memcpy_to d (data_index s line offset) src (unat bytes))
       | _ \<Rightarrow> Some (cs_data s));
     let s = s\<lparr>cs_data := data\<rparr>;
     (p, e) \<leftarrow> (if update_replacement then upd line s e else Some (cs_policy s, e));
     Some (s\<lparr>cs_policy := p\<rparr>, e) }"

text \<open>\<^verbatim>\<open>for (SInt32 index = m_associativity-1; index >= 0; index--)\<close>: the number of iterations, and the search.\<close>

definition down_count :: "u32 \<Rightarrow> nat" where
  "down_count associativity = nat (sint (associativity - 1) + 1)"

fun find_down :: "cache_block list \<Rightarrow> u64 \<Rightarrow> nat \<Rightarrow> nat option" where
  "find_down bs tag 0 = None"
| "find_down bs tag (Suc i) = (if getTag (bs ! i) = tag then Some i else find_down bs tag i)"

definition CacheSet_find :: "'p cache_set \<Rightarrow> u64 \<Rightarrow> nat option" where
  "CacheSet_find s tag = find_down (cs_blocks s) tag (down_count (cs_associativity s))"

definition CacheSet_invalidate :: "u64 \<Rightarrow> 'p cache_set \<Rightarrow> bool \<times> 'p cache_set" where
  "CacheSet_invalidate tag s =
     (case find_down (cs_blocks s) tag (down_count (cs_associativity s)) of
        Some i \<Rightarrow> (True, s\<lparr>cs_blocks := (cs_blocks s)[i := block_invalidate (cs_blocks s ! i)]\<rparr>)
      | None \<Rightarrow> (False, s))"

definition isValidReplacement :: "'p cache_set \<Rightarrow> nat \<Rightarrow> bool" where
  "isValidReplacement s i \<longleftrightarrow> getCState (cs_blocks s ! i) \<noteq> SHARED_UPGRADING"

record insert_result =
  ir_eviction :: bool
  ir_evict_block :: cache_block
  ir_evict_data :: "u8 list option"

definition CacheSet_insert ::
  "'p get_index \<Rightarrow> cache_block \<Rightarrow> u8 list option \<Rightarrow> cache_block \<Rightarrow> bool \<Rightarrow> 'p cache_set \<Rightarrow> repl_env
     \<Rightarrow> (insert_result \<times> 'p cache_set \<times> repl_env) option" where
  "CacheSet_insert get block fill_buff evict_block evict_buff s e = do {
     (index, p, e) \<leftarrow> get s e;
     (if index < unat (cs_associativity s) then Some () else None);
     let old = cs_blocks s ! index;
     res \<leftarrow> (if isValid (binfo old) then do {
           ev \<leftarrow> block_clone evict_block old;
           d \<leftarrow> (case cs_data s of
               Some d \<Rightarrow> if evict_buff then map_option Some (memcpy_from d (data_index s index 0) (unat (cs_blocksize s))) else Some None
             | None \<Rightarrow> Some None);
           Some \<lparr>ir_eviction = True, ir_evict_block = ev, ir_evict_data = d\<rparr> }
         else Some \<lparr>ir_eviction = False, ir_evict_block = evict_block, ir_evict_data = None\<rparr>);
     new \<leftarrow> block_clone old block;
     data \<leftarrow> (case (fill_buff, cs_data s) of
         (Some src, Some d) \<Rightarrow> map_option Some (memcpy_to d (data_index s index 0) src (unat (cs_blocksize s)))
       | _ \<Rightarrow> Some (cs_data s));
     Some (res, s\<lparr>cs_blocks := (cs_blocks s)[index := new], cs_data := data, cs_policy := p\<rparr>, e) }"

section \<open>Well-formed sets\<close>

text \<open>
  All lines of a set have the class of the cache, the data bytes (when kept) are one block per line and
  their positions fit in 32 bits, and no two valid lines have the same tag.
\<close>

definition data_ok :: "u32 \<Rightarrow> u32 \<Rightarrow> u8 list option \<Rightarrow> bool" where
  "data_ok a b d \<longleftrightarrow> (case d of None \<Rightarrow> True | Some d \<Rightarrow> length d = unat a * unat b)"

definition set_wf :: "cache_t \<Rightarrow> 'p cache_set \<Rightarrow> bool" where
  "set_wf t s \<longleftrightarrow> length (cs_blocks s) = unat (cs_associativity s)
     \<and> 0 < unat (cs_associativity s) \<and> unat (cs_associativity s) < 2 ^ 31
     \<and> unat (cs_associativity s) * unat (cs_blocksize s) < 2 ^ 32
     \<and> (\<forall>b \<in> set (cs_blocks s). block_class b = t)
     \<and> data_ok (cs_associativity s) (cs_blocksize s) (cs_data s)"

definition tags_distinct :: "'p cache_set \<Rightarrow> bool" where
  "tags_distinct s \<longleftrightarrow> (\<forall>i < length (cs_blocks s). \<forall>j < length (cs_blocks s).
     isValid (binfo (cs_blocks s ! i)) \<longrightarrow> getTag (cs_blocks s ! i) = getTag (cs_blocks s ! j) \<longrightarrow> i = j)"

text \<open>What the set stores: the line of every valid tag.\<close>

definition set_map :: "'p cache_set \<Rightarrow> u64 \<Rightarrow> cache_block option" where
  "set_map s tag = (if tag = NOT 0 then None else map_option ((!) (cs_blocks s)) (CacheSet_find s tag))"

lemma with_policy_simps [simp]:
  "cs_blocks (with_policy p s) = cs_blocks s" "cs_data (with_policy p s) = cs_data s"
  "cs_associativity (with_policy p s) = cs_associativity s" "cs_blocksize (with_policy p s) = cs_blocksize s"
  "cs_policy (with_policy p s) = p"
  by (simp_all add: with_policy_def)

lemma set_wf_policy [simp]: "set_wf t (s\<lparr>cs_policy := p\<rparr>) = set_wf t s"
  by (simp add: set_wf_def)

lemma set_wf_with_policy [simp]: "set_wf t (with_policy p s) = set_wf t s"
  by (simp add: set_wf_def)

lemma down_count_eq: "0 < unat a \<Longrightarrow> unat a < 2 ^ 31 \<Longrightarrow> down_count a = unat a"
proof -
  assume a: "0 < unat a" "unat a < 2 ^ 31"
  then have "unat (a - 1) = unat a - 1" by (intro unat_minus_one) auto
  then have "sint (a - 1) = int (unat a - 1)" using a by (subst sint_eq_unat) auto
  then show ?thesis using a by (simp add: down_count_def)
qed

lemma find_down_Some: "find_down bs tag n = Some i \<Longrightarrow> i < n \<and> getTag (bs ! i) = tag"
  by (induction n) (auto split: if_splits simp: less_Suc_eq)

lemma find_down_None: "find_down bs tag n = None \<longleftrightarrow> (\<forall>i < n. getTag (bs ! i) \<noteq> tag)"
  by (induction n) (auto simp: less_Suc_eq)

lemma CacheSet_find_Some: "set_wf t s \<Longrightarrow> CacheSet_find s tag = Some i \<Longrightarrow> i < length (cs_blocks s) \<and> getTag (cs_blocks s ! i) = tag"
  by (auto simp: CacheSet_find_def set_wf_def down_count_eq dest: find_down_Some)

lemma CacheSet_find_None: "set_wf t s \<Longrightarrow> CacheSet_find s tag = None \<longleftrightarrow> (\<forall>i < length (cs_blocks s). getTag (cs_blocks s ! i) \<noteq> tag)"
  by (auto simp: CacheSet_find_def set_wf_def down_count_eq find_down_None)

text \<open>With distinct tags the search finds the only line of a tag.\<close>

lemma set_map_Some_iff:
  assumes "set_wf t s" and "tags_distinct s"
  shows "set_map s tag = Some b \<longleftrightarrow> tag \<noteq> NOT 0 \<and> (\<exists>i < length (cs_blocks s). cs_blocks s ! i = b \<and> getTag b = tag)"
proof
  assume l: "set_map s tag = Some b"
  then obtain i where "tag \<noteq> NOT 0" "CacheSet_find s tag = Some i" "b = cs_blocks s ! i"
    by (auto simp: set_map_def split: if_splits)
  then show "tag \<noteq> NOT 0 \<and> (\<exists>i < length (cs_blocks s). cs_blocks s ! i = b \<and> getTag b = tag)"
    using CacheSet_find_Some [OF assms(1)] by blast
next
  assume r: "tag \<noteq> NOT 0 \<and> (\<exists>i < length (cs_blocks s). cs_blocks s ! i = b \<and> getTag b = tag)"
  then obtain i where i: "i < length (cs_blocks s)" "cs_blocks s ! i = b" "getTag b = tag" "tag \<noteq> NOT 0" by blast
  then obtain j where j: "CacheSet_find s tag = Some j"
    using CacheSet_find_None [OF assms(1), of tag] by (cases "CacheSet_find s tag") auto
  have "j < length (cs_blocks s)" "getTag (cs_blocks s ! j) = tag" using CacheSet_find_Some [OF assms(1) j] by auto
  then have "i = j" using assms(2) [unfolded tags_distinct_def, rule_format, of i j] i by (simp add: isValid_def)
  then show "set_map s tag = Some b" using i j by (simp add: set_map_def)
qed

lemma map_eqI: "(\<And>x y. m x = Some y \<longleftrightarrow> n x = Some y) \<Longrightarrow> m = n"
  by (rule ext) (metis not_None_eq)

section \<open>Replacing one line\<close>

text \<open>Storing a line with a fresh tag in way \<open>i\<close> forgets the tag that was there and adds the new one.\<close>

lemma replace_line:
  assumes "set_wf t s" and "tags_distinct s" and "i < length (cs_blocks s)"
    and "getTag b \<noteq> NOT 0 \<Longrightarrow> \<forall>j < length (cs_blocks s). getTag (cs_blocks s ! j) \<noteq> getTag b" and "block_class b = t"
    and "s' = s\<lparr>cs_blocks := (cs_blocks s)[i := b], cs_data := d, cs_policy := p\<rparr>"
    and "data_ok (cs_associativity s) (cs_blocksize s) d"
  shows "set_wf t s'" and "tags_distinct s'"
    and "set_map s' = (if getTag b = NOT 0 then (set_map s)(getTag (cs_blocks s ! i) := None)
                       else (set_map s)(getTag (cs_blocks s ! i) := None, getTag b \<mapsto> b))"
proof -
  have bl: "cs_blocks s' = (cs_blocks s)[i := b]" using assms(6) by simp
  show wf: "set_wf t s'" using assms(1,5,7) set_update_subset_insert [of "cs_blocks s" i b]
    by (auto simp: assms(6) set_wf_def)
  show td: "tags_distinct s'"
    using assms(2,3,4) unfolding tags_distinct_def bl isValid_def
    by (auto simp: nth_list_update split: if_splits)
  show "set_map s' = (if getTag b = NOT 0 then (set_map s)(getTag (cs_blocks s ! i) := None)
                       else (set_map s)(getTag (cs_blocks s ! i) := None, getTag b \<mapsto> b))"
  proof (rule map_eqI)
    fix x y
    have un: "j = i" if "j < length (cs_blocks s)" "getTag (cs_blocks s ! j) = getTag (cs_blocks s ! i)" "getTag (cs_blocks s ! j) \<noteq> NOT 0" for j
      using assms(2,3) that unfolding tags_distinct_def isValid_def by blast
    have fr: "getTag (cs_blocks s ! j) \<noteq> getTag b" if "getTag b \<noteq> NOT 0" "j < length (cs_blocks s)" for j
      using assms(4) that by blast
    have L: "set_map s' x = Some y \<longleftrightarrow> x \<noteq> NOT 0 \<and> getTag y = x \<and> (y = b \<or> (\<exists>j < length (cs_blocks s). j \<noteq> i \<and> cs_blocks s ! j = y))"
      unfolding set_map_Some_iff [OF wf td] bl length_list_update
      using assms(3) by (metis nth_list_update_eq nth_list_update_neq)
    have R: "set_map s x = Some y \<longleftrightarrow> x \<noteq> NOT 0 \<and> getTag y = x \<and> (\<exists>j < length (cs_blocks s). cs_blocks s ! j = y)"
      unfolding set_map_Some_iff [OF assms(1,2)] by blast
    consider "x = NOT 0" | "x \<noteq> NOT 0" "x = getTag b" | "x \<noteq> NOT 0" "x \<noteq> getTag b" "x = getTag (cs_blocks s ! i)"
      | "x \<noteq> NOT 0" "x \<noteq> getTag b" "x \<noteq> getTag (cs_blocks s ! i)" by blast
    then show "set_map s' x = Some y \<longleftrightarrow> (if getTag b = NOT 0 then (set_map s)(getTag (cs_blocks s ! i) := None)
       else (set_map s)(getTag (cs_blocks s ! i) := None, getTag b \<mapsto> b)) x = Some y"
    proof cases
      case 1
      then show ?thesis using L R by auto
    next
      case 2
      then have "\<not> (\<exists>j < length (cs_blocks s). j \<noteq> i \<and> cs_blocks s ! j = y \<and> getTag y = x)" using fr by auto
      then show ?thesis using L 2 by auto
    next
      case 3
      then have "\<not> (\<exists>j < length (cs_blocks s). j \<noteq> i \<and> cs_blocks s ! j = y \<and> getTag y = x)" using un by metis
      then show ?thesis using L 3 by auto
    next
      case 4
      then have "getTag y = x \<Longrightarrow> (\<exists>j < length (cs_blocks s). cs_blocks s ! j = y) \<longleftrightarrow> (\<exists>j < length (cs_blocks s). j \<noteq> i \<and> cs_blocks s ! j = y)" by metis
      then show ?thesis using L R 4 by auto
    qed
  qed
qed


lemma invalidate_spec:
  assumes "set_wf t s" and "tags_distinct s" and "tag \<noteq> NOT 0" and "CacheSet_invalidate tag s = (found, s')"
  shows "set_wf t s' \<and> tags_distinct s' \<and> set_map s' = (set_map s)(tag := None) \<and> (found \<longleftrightarrow> set_map s tag \<noteq> None)
    \<and> cs_policy s' = cs_policy s \<and> cs_associativity s' = cs_associativity s"
proof (cases "CacheSet_find s tag")
  case None
  then have e: "s' = s" "\<not> found" using assms(4) by (auto simp: CacheSet_invalidate_def CacheSet_find_def)
  moreover have "set_map s tag = None" using None by (simp add: set_map_def)
  ultimately show ?thesis using assms(1,2) by (auto simp: fun_upd_idem)
next
  case (Some i)
  have i: "i < length (cs_blocks s)" "getTag (cs_blocks s ! i) = tag" using CacheSet_find_Some [OF assms(1) Some] by auto
  let ?b = "block_invalidate (cs_blocks s ! i)"
  have e: "s' = s\<lparr>cs_blocks := (cs_blocks s)[i := ?b]\<rparr>" "found"
    using assms(4) Some by (auto simp: CacheSet_invalidate_def CacheSet_find_def)
  then have e': "s' = s\<lparr>cs_blocks := (cs_blocks s)[i := ?b], cs_data := cs_data s, cs_policy := cs_policy s\<rparr>" by simp
  have c: "block_class ?b = t" "data_ok (cs_associativity s) (cs_blocksize s) (cs_data s)"
    using assms(1) i(1) by (auto simp: set_wf_def)
  have fr: "getTag ?b \<noteq> NOT 0 \<Longrightarrow> \<forall>j<length (cs_blocks s). getTag (cs_blocks s ! j) \<noteq> getTag ?b" by simp
  note r = replace_line [OF assms(1,2) i(1) fr c(1) e' c(2)]
  have "set_map s tag \<noteq> None" using Some assms(3) by (simp add: set_map_def)
  then show ?thesis using r i(2) e by simp
qed

section \<open>Data bytes\<close>

lemma memcpy_from_Some: "off + n \<le> length d \<Longrightarrow> memcpy_from d off n = Some (take n (drop off d))"
  by (simp add: memcpy_from_def)

lemma memcpy_to_length: "memcpy_to d off src n = Some d' \<Longrightarrow> length d' = length d"
  by (auto simp: memcpy_to_def split: if_splits)

lemma memcpy_to_from: "memcpy_to d off src n = Some d' \<Longrightarrow> memcpy_from d' off n = Some (take n src)"
  by (auto simp: memcpy_to_def memcpy_from_def split: if_splits)

text \<open>The bytes of a line are in the data of the set: no access leaves the array.\<close>

lemma data_index_bound:
  assumes "set_wf t s" and "line < length (cs_blocks s)" and "unat off + n \<le> unat (cs_blocksize s)"
  shows "data_index s line off = line * unat (cs_blocksize s) + unat off"
    and "cs_data s = Some d \<Longrightarrow> data_index s line off + n \<le> length d"
proof -
  let ?a = "unat (cs_associativity s)" and ?b = "unat (cs_blocksize s)"
  have l: "line < ?a" "?a * ?b < 2 ^ 32" using assms(1,2) by (auto simp: set_wf_def)
  have le: "line * ?b + ?b \<le> ?a * ?b" using l(1) by (metis Suc_leI add.commute mult_Suc mult_le_mono1)
  have "line < 2 ^ 32" using l(1) unsigned_less [of "cs_associativity s", where 'a=nat] by simp
  then have ul: "unat (of_nat line :: u32) = line" by (simp add: unsigned_of_nat take_bit_nat_eq_self)
  have um: "unat (of_nat line * cs_blocksize s) = line * ?b" using le l(2) by (simp add: unat_mult_lem [THEN iffD1] ul)
  show d: "data_index s line off = line * ?b + unat off"
    unfolding data_index_def using le l(2) assms(3) by (subst unat_add_no_overflow) (auto simp: um)
  show "cs_data s = Some d \<Longrightarrow> data_index s line off + n \<le> length d"
    unfolding d using assms(1,3) le by (simp add: set_wf_def data_ok_def)
qed

lemma CacheSet_insertE:
  assumes "CacheSet_insert get b fill ev evb s e = Some (r, s', e')"
  obtains i p new d where "get s e = Some (i, p, e')" "i < unat (cs_associativity s)"
    "block_clone (cs_blocks s ! i) b = Some new"
    "s' = s\<lparr>cs_blocks := (cs_blocks s)[i := new], cs_data := d, cs_policy := p\<rparr>"
    "(case (fill, cs_data s) of
         (Some src, Some d) \<Rightarrow> map_option Some (memcpy_to d (data_index s i 0) src (unat (cs_blocksize s)))
       | _ \<Rightarrow> Some (cs_data s)) = Some d"
    "ir_eviction r \<longleftrightarrow> isValid (binfo (cs_blocks s ! i))"
    "isValid (binfo (cs_blocks s ! i)) \<Longrightarrow> block_clone ev (cs_blocks s ! i) = Some (ir_evict_block r)"
    "\<not> isValid (binfo (cs_blocks s ! i)) \<Longrightarrow> ir_evict_block r = ev"
  using assms unfolding CacheSet_insert_def Let_def
  by (auto simp del: map_option_eq_Some split: bind_splits if_splits)

section \<open>The contract of a replacement policy\<close>

text \<open>
  \<open>inv\<close> is the invariant of the policy's own state in the environment it shares with other sets,
  \<open>ready\<close> a condition under which a victim is found. The victim is a way of the set, and both methods keep
  the invariant and the dimensions of the shared statistics, on which alone the invariant depends: so
  an operation on one set keeps the invariants of the others.
\<close>

definition env_shape :: "repl_env \<Rightarrow> (u32 \<times> nat \<times> nat option) option" where
  "env_shape e = map_option (\<lambda>si. (si_associativity si, length (si_access si), map_option length (si_attempts si))) (set_info e)"

locale replacement_policy =
  fixes get :: "'p get_index" and upd :: "'p update_index"
    and inv :: "'p cache_set \<Rightarrow> repl_env \<Rightarrow> bool" and ready :: "'p cache_set \<Rightarrow> repl_env \<Rightarrow> bool"
  assumes inv_cong: "inv s e \<Longrightarrow> cs_policy s' = cs_policy s \<Longrightarrow> cs_associativity s' = cs_associativity s
      \<Longrightarrow> env_shape e' = env_shape e \<Longrightarrow> inv s' e'"
    and get_sound: "set_wf t s \<Longrightarrow> inv s e \<Longrightarrow> get s e = Some (i, p, e')
      \<Longrightarrow> i < length (cs_blocks s) \<and> inv (s\<lparr>cs_policy := p\<rparr>) e' \<and> env_shape e' = env_shape e"
    and get_total: "set_wf t s \<Longrightarrow> inv s e \<Longrightarrow> ready s e \<Longrightarrow> \<exists>r. get s e = Some r"
    and upd_sound: "set_wf t s \<Longrightarrow> inv s e \<Longrightarrow> i < length (cs_blocks s) \<Longrightarrow> upd i s e = Some (p, e')
      \<Longrightarrow> inv (s\<lparr>cs_policy := p\<rparr>) e' \<and> env_shape e' = env_shape e"
begin

lemma insert_spec:
  assumes wf: "set_wf t s" and td: "tags_distinct s" and iv: "inv s e"
    and new: "getTag b \<noteq> NOT 0" "set_map s (getTag b) = None" "block_class b = t"
    and ins: "CacheSet_insert get b fill ev evb s e = Some (r, s', e')"
  shows "set_wf t s'" and "tags_distinct s'" and "inv s' e'" and "env_shape e' = env_shape e"
    and "cs_associativity s' = cs_associativity s" and "cs_blocksize s' = cs_blocksize s"
    and "set_map s' = (if ir_eviction r then (set_map s)(getTag (ir_evict_block r) := None, getTag b \<mapsto> b)
                       else (set_map s)(getTag b \<mapsto> b))"
    and "ir_eviction r \<Longrightarrow> map_option binfo (set_map s (getTag (ir_evict_block r))) = Some (binfo (ir_evict_block r))"
proof -
  from ins obtain i p new d where i: "get s e = Some (i, p, e')" "i < unat (cs_associativity s)"
    and n: "block_clone (cs_blocks s ! i) b = Some new"
    and s': "s' = s\<lparr>cs_blocks := (cs_blocks s)[i := new], cs_data := d, cs_policy := p\<rparr>"
    and d: "(case (fill, cs_data s) of
         (Some src, Some d) \<Rightarrow> map_option Some (memcpy_to d (data_index s i 0) src (unat (cs_blocksize s)))
       | _ \<Rightarrow> Some (cs_data s)) = Some d"
    and ev: "ir_eviction r \<longleftrightarrow> isValid (binfo (cs_blocks s ! i))"
      "isValid (binfo (cs_blocks s ! i)) \<Longrightarrow> block_clone ev (cs_blocks s ! i) = Some (ir_evict_block r)"
    by (rule CacheSet_insertE) blast
  have il: "i < length (cs_blocks s)" using i(2) wf by (simp add: set_wf_def)
  have "block_class (cs_blocks s ! i) = t" using wf il by (simp add: set_wf_def)
  then have nb: "new = b" using n block_clone_same_class [of "cs_blocks s ! i" b] new(3) by simp
  have d': "data_ok (cs_associativity s) (cs_blocksize s) d"
    using d wf by (auto simp: set_wf_def data_ok_def dest: memcpy_to_length split: option.splits)
  have fr: "\<forall>j<length (cs_blocks s). getTag (cs_blocks s ! j) \<noteq> getTag b"
    using new(1,2) CacheSet_find_None [OF wf] by (auto simp: set_map_def)
  note r = replace_line [OF wf td il fr new(3) s' [unfolded nb] d']
  show "set_wf t s'" "tags_distinct s'" using r by simp_all
  show "env_shape e' = env_shape e" using get_sound [OF wf iv i(1)] by simp
  show "inv s' e'" using get_sound [OF wf iv i(1)] s' inv_cong [of "s\<lparr>cs_policy := p\<rparr>" e' s' e'] by simp
  show "cs_associativity s' = cs_associativity s" "cs_blocksize s' = cs_blocksize s" using s' by simp_all
  have old: "set_map s (getTag (cs_blocks s ! i)) = (if isValid (binfo (cs_blocks s ! i)) then Some (cs_blocks s ! i) else None)"
    using set_map_Some_iff [OF wf td, of "getTag (cs_blocks s ! i)" "cs_blocks s ! i"] il
    by (cases "getTag (cs_blocks s ! i) = NOT 0") (auto simp: isValid_def set_map_def)
  have eb: "binfo (ir_evict_block r) = binfo (cs_blocks s ! i)" if "ir_eviction r"
    using that ev block_clone_class by metis
  show "set_map s' = (if ir_eviction r then (set_map s)(getTag (ir_evict_block r) := None, getTag b \<mapsto> b)
                       else (set_map s)(getTag b \<mapsto> b))"
    using r(3) new(1) eb old ev(1) by (auto simp: fun_upd_idem)
  show "ir_eviction r \<Longrightarrow> map_option binfo (set_map s (getTag (ir_evict_block r))) = Some (binfo (ir_evict_block r))"
    using eb old ev(1) by auto
qed

lemma insert_total:
  assumes "set_wf t s" and "inv s e" and "ready s e" and "block_class b = t"
    and "block_class ev = PR_L2_CACHE \<Longrightarrow> t = PR_L2_CACHE"
    and "\<And>f. fill = Some f \<Longrightarrow> unat (cs_blocksize s) \<le> length f"
  shows "\<exists>r. CacheSet_insert get b fill ev evb s e = Some r"
proof -
  obtain i p e' where g: "get s e = Some (i, p, e')" using get_total [OF assms(1-3)] by auto
  have i: "i < length (cs_blocks s)" using get_sound [OF assms(1,2) g] by simp
  then have c: "block_class (cs_blocks s ! i) = t" "i < unat (cs_associativity s)" using assms(1) by (auto simp: set_wf_def)
  have m: "data_index s i 0 + unat (cs_blocksize s) \<le> length d" if "cs_data s = Some d" for d
    using data_index_bound(2) [OF assms(1) i _ that, of 0] by simp
  obtain x where x: "block_clone ev (cs_blocks s ! i) = Some x" using block_clone_total [of ev "cs_blocks s ! i"] assms(5) c(1) by auto
  define evd where "evd = (case cs_data s of Some d \<Rightarrow> if evb then map_option Some (memcpy_from d (data_index s i 0) (unat (cs_blocksize s))) else Some None
             | None \<Rightarrow> Some None)"
  define fd where "fd = (case (fill, cs_data s) of
         (Some src, Some d) \<Rightarrow> map_option Some (memcpy_to d (data_index s i 0) src (unat (cs_blocksize s)))
       | _ \<Rightarrow> Some (cs_data s))"
  have "\<exists>y. evd = Some y" "\<exists>y. fd = Some y"
    using m assms(6) by (auto simp: evd_def fd_def memcpy_from_def memcpy_to_def split: option.splits)
  then obtain y z where "evd = Some y" "fd = Some z" by blast
  then show ?thesis using c(2) x block_clone_same_class [of "cs_blocks s ! i" b] c(1) assms(4)
    unfolding CacheSet_insert_def g Let_def evd_def fd_def
    by (cases "isValid (binfo (cs_blocks s ! i))") auto
qed

lemma read_line_spec:
  assumes "set_wf t s" and "inv s e" and "line < length (cs_blocks s)"
    and "CacheSet_read_line upd line off buf bytes ur s e = Some (out, s', e')"
  shows "inv s' e'" and "env_shape e' = env_shape e" and "s' = s\<lparr>cs_policy := cs_policy s'\<rparr>"
  using assms upd_sound [OF assms(1-3)]
  by (auto simp: CacheSet_read_line_def split: bind_splits if_splits)

lemma write_line_spec:
  assumes "set_wf t s" and "inv s e" and "line < length (cs_blocks s)"
    and "CacheSet_write_line upd line off buf bytes ur s e = Some (s', e')"
  shows "set_wf t s'" and "inv s' e'" and "cs_blocks s' = cs_blocks s" and "env_shape e' = env_shape e"
    and "cs_associativity s' = cs_associativity s" and "cs_blocksize s' = cs_blocksize s"
proof -
  from assms(4) obtain d p where d: "(case (buf, cs_data s) of
         (Some src, Some d) \<Rightarrow> map_option Some (memcpy_to d (data_index s line off) src (unat bytes))
       | _ \<Rightarrow> Some (cs_data s)) = Some d"
    and u: "(if ur then upd line (s\<lparr>cs_data := d\<rparr>) e else Some (cs_policy s, e)) = Some (p, e')"
    and s': "s' = s\<lparr>cs_data := d, cs_policy := p\<rparr>"
    unfolding CacheSet_write_line_def Let_def by (auto simp del: map_option_eq_Some split: bind_splits if_splits)
  have "data_ok (cs_associativity s) (cs_blocksize s) d"
    using d assms(1) by (auto simp: set_wf_def data_ok_def dest: memcpy_to_length split: option.splits)
  then have wf: "set_wf t (s\<lparr>cs_data := d\<rparr>)" using assms(1) by (simp add: set_wf_def)
  have iv: "inv (s\<lparr>cs_data := d\<rparr>) e" using inv_cong [OF assms(2), of "s\<lparr>cs_data := d\<rparr>" e] by simp
  show "set_wf t s'" "cs_blocks s' = cs_blocks s" "cs_associativity s' = cs_associativity s" "cs_blocksize s' = cs_blocksize s" using wf by (auto simp: s' set_wf_def)
  have "inv s' e' \<and> env_shape e' = env_shape e"
  proof (cases ur)
    case True
    then show ?thesis using upd_sound [OF wf iv, of line p e'] u assms(3) by (simp add: s')
  next
    case False
    then show ?thesis using u s' inv_cong [OF assms(2), of s' e'] by auto
  qed
  then show "inv s' e'" "env_shape e' = env_shape e" by simp_all
qed

end

text \<open>A policy that fills an invalid line first evicts nothing while there is one.\<close>

locale fills_invalid = replacement_policy +
  assumes get_invalid: "set_wf t s \<Longrightarrow> inv s e \<Longrightarrow> j < length (cs_blocks s) \<Longrightarrow> \<not> isValid (binfo (cs_blocks s ! j))
      \<Longrightarrow> get s e = Some (i, p, e') \<Longrightarrow> \<not> isValid (binfo (cs_blocks s ! i))"
begin

lemma insert_no_eviction:
  assumes "set_wf t s" and "inv s e" and "j < length (cs_blocks s)" and "\<not> isValid (binfo (cs_blocks s ! j))"
    and "CacheSet_insert get b fill ev evb s e = Some (r, s', e')"
  shows "\<not> ir_eviction r"
  using assms(5) by (rule CacheSet_insertE) (use get_invalid [OF assms(1-4)] in blast)

end

end
