(* ===== verification/Sniper_LRU.thy ===== *)
theory Sniper_LRU
  imports Sniper_Set
begin

text \<open>
  Least-recently-used replacement with query-based selection (\<^verbatim>\<open>cache_set_lru.cc\<close>). The age of every
  way is a byte; the ages stay a permutation of the way numbers, and read as the list of ways from the
  youngest to the oldest (\<open>recency\<close>) they are a move-to-front list: an access moves its way to the
  front, and the victim is the last.
\<close>

section \<open>Operations\<close>

text \<open>The first loop of most policies: the first invalid line.\<close>

definition first_invalid :: "'p cache_set \<Rightarrow> nat option" where
  "first_invalid s = List.find (\<lambda>i. \<not> isValid (binfo (cs_blocks s ! i))) [0..<unat (cs_associativity s)]"

record CacheSetLRU =
  lru_num_attempts :: u8
  lru_bits :: "u8 list"

definition CacheSetLRU_new :: "u32 \<Rightarrow> u8 \<Rightarrow> CacheSetLRU" where
  "CacheSetLRU_new associativity num_attempts =
     \<lparr>lru_num_attempts = num_attempts, lru_bits = map of_nat [0..<unat associativity]\<rparr>"

definition moveToMRU :: "nat \<Rightarrow> nat \<Rightarrow> u8 list \<Rightarrow> u8 list" where
  "moveToMRU associativity accessed_index ages =
     (let ages = fold (\<lambda>i ages. if ages ! i < ages ! accessed_index then ages[i := ages ! i + 1] else ages) [0..<associativity] ages
      in ages[accessed_index := 0])"

definition CacheSetInfoLRU_new :: "u32 \<Rightarrow> u8 \<Rightarrow> CacheSetInfoLRU" where
  "CacheSetInfoLRU_new associativity num_attempts =
     \<lparr>si_associativity = associativity, si_access = replicate (unat associativity) 0,
      si_attempts = (if num_attempts > 1 then Some (replicate (unat num_attempts) 0) else None)\<rparr>"

definition si_increment :: "nat \<Rightarrow> CacheSetInfoLRU \<Rightarrow> CacheSetInfoLRU option" where
  "si_increment index si =
     (if index < unat (si_associativity si) \<and> index < length (si_access si)
      then Some (si\<lparr>si_access := (si_access si)[index := si_access si ! index + 1]\<rparr>) else None)"

definition si_incrementAttempt :: "nat \<Rightarrow> CacheSetInfoLRU \<Rightarrow> CacheSetInfoLRU option" where
  "si_incrementAttempt attempt si =
     (case si_attempts si of
        Some l \<Rightarrow> if attempt < length l then Some (si\<lparr>si_attempts := Some (l[attempt := l ! attempt + 1])\<rparr>) else None
      | None \<Rightarrow> if attempt = 0 then Some si else None)"

text \<open>A call through the pointer to the statistics object, and the query of the controller.\<close>

definition on_set_info :: "(CacheSetInfoLRU \<Rightarrow> CacheSetInfoLRU option) \<Rightarrow> repl_env \<Rightarrow> repl_env option" where
  "on_set_info f e = set_info e \<bind> f \<bind> (\<lambda>si. Some (e\<lparr>set_info := Some si\<rparr>))"

definition qbs_query :: "repl_env \<Rightarrow> cache_block \<Rightarrow> bool option" where
  "qbs_query e b = cntlr e \<bind> (\<lambda>c. Some (isInLowerLevelCache c b))"

definition incrementQBSLookupCost :: "repl_env \<Rightarrow> repl_env" where
  "incrementQBSLookupCost e = e\<lparr>cntlr := map_option (\<lambda>c. c\<lparr>qbs_lookups := qbs_lookups c + 1\<rparr>) (cntlr e)\<rparr>"

text \<open>The search for the oldest line that may be replaced.\<close>

definition lru_scan :: "'p cache_set \<Rightarrow> u8 list \<Rightarrow> nat" where
  "lru_scan s ages = fst (fold (\<lambda>i (index, max_bits). if ages ! i > max_bits \<and> isValidReplacement s i then (i, ages ! i) else (index, max_bits))
     [0..<unat (cs_associativity s)] (0, 0))"

text \<open>The attempts from number \<open>attempt\<close> on, of which \<open>k\<close> are left.\<close>

fun lru_attempts :: "'p cache_set \<Rightarrow> nat \<Rightarrow> nat \<Rightarrow> nat \<Rightarrow> u8 list \<Rightarrow> repl_env \<Rightarrow> (nat \<times> u8 list \<times> repl_env) option" where
  "lru_attempts s num_attempts 0 attempt ages e = None"
| "lru_attempts s num_attempts (Suc k) attempt ages e = do {
     let index = lru_scan s ages;
     (if index < unat (cs_associativity s) then Some () else None);
     qbs_reject \<leftarrow> (if attempt + 1 < num_attempts then qbs_query e (cs_blocks s ! index) else Some False);
     (if qbs_reject
      then lru_attempts s num_attempts k (attempt + 1) (moveToMRU (unat (cs_associativity s)) index ages) (incrementQBSLookupCost e)
      else do {
        e \<leftarrow> on_set_info (si_incrementAttempt attempt) e;
        Some (index, moveToMRU (unat (cs_associativity s)) index ages, e) }) }"

definition CacheSetLRU_getReplacementIndex :: "CacheSetLRU get_index" where
  "CacheSetLRU_getReplacementIndex s e = (let p = cs_policy s; n = unat (cs_associativity s) in
     case first_invalid s of
       Some i \<Rightarrow> Some (i, p\<lparr>lru_bits := moveToMRU n i (lru_bits p)\<rparr>, e)
     | None \<Rightarrow> do {
         (i, ages, e) \<leftarrow> lru_attempts s (unat (lru_num_attempts p)) (unat (lru_num_attempts p)) 0 (lru_bits p) e;
         Some (i, p\<lparr>lru_bits := ages\<rparr>, e) })"

definition CacheSetLRU_updateReplacementIndex :: "CacheSetLRU update_index" where
  "CacheSetLRU_updateReplacementIndex accessed_index s e = do {
     let p = cs_policy s;
     e \<leftarrow> on_set_info (si_increment (unat (lru_bits p ! accessed_index))) e;
     Some (p\<lparr>lru_bits := moveToMRU (unat (cs_associativity s)) accessed_index (lru_bits p)\<rparr>, e) }"

section \<open>The ages are a permutation\<close>

definition age_perm :: "nat \<Rightarrow> u8 list \<Rightarrow> bool" where
  "age_perm n ages \<longleftrightarrow> length ages = n \<and> n \<le> 256 \<and> distinct ages \<and> (\<forall>b \<in> set ages. unat b < n)"

lemma age_perm_init: "n \<le> 256 \<Longrightarrow> age_perm n (map of_nat [0..<n])"
proof -
  assume n: "n \<le> 256"
  have u: "unat (of_nat i :: u8) = i" if "i < n" for i
    using that n by (simp add: unsigned_of_nat take_bit_nat_eq_self)
  have "inj_on (of_nat :: nat \<Rightarrow> u8) {0..<n}" by (rule inj_onI) (metis atLeastLessThan_iff u)
  then show ?thesis using n u by (auto simp: age_perm_def distinct_map)
qed

text \<open>The new age of a way when the way of age \<open>a\<close> is accessed.\<close>

definition new_age :: "u8 \<Rightarrow> u8 \<Rightarrow> u8" where
  "new_age a b = (if b < a then b + 1 else if b = a then 0 else b)"

lemma new_age_unat: "unat (new_age a b) = (if unat b < unat a then Suc (unat b) else if b = a then 0 else unat b)"
proof -
  have "unat (b + 1) = unat b + 1" if "unat b < unat a"
    using that unsigned_less [of a, where 'a=nat] by (subst unat_add_no_overflow) auto
  then show ?thesis by (auto simp: new_age_def word_less_nat_alt)
qed

lemma inj_new_age: "inj (new_age a)"
proof (rule injI)
  fix x y assume "new_age a x = new_age a y"
  then have "unat (new_age a x) = unat (new_age a y)" by simp
  then have "unat x = unat y" unfolding new_age_unat word_unat_eq_iff [of _ a] by (auto split: if_splits)
  then show "x = y" by (simp add: word_unat_eq_iff)
qed

lemma moveToMRU_loop:
  fixes ages :: "u8 list"
  assumes "k \<le> length ages" and "acc < length ages"
  shows "fold (\<lambda>i ages. if ages ! i < ages ! acc then ages[i := ages ! i + 1] else ages) [0..<k] ages
         = map (\<lambda>b. if b < ages ! acc then b + 1 else b) (take k ages) @ drop k ages"
  using assms(1)
proof (induction k)
  case (Suc k)
  let ?f = "\<lambda>b. if b < ages ! acc then b + 1 else b"
  let ?xs = "map ?f (take k ages) @ drop k ages"
  have a: "?xs ! acc = ages ! acc" using assms(2) by (auto simp: nth_append)
  have k: "?xs ! k = ages ! k" using Suc.prems by (simp add: nth_append)
  have "?xs[k := ?f (ages ! k)] = map ?f (take (Suc k) ages) @ drop (Suc k) ages"
    using Suc.prems by (intro nth_equalityI) (auto simp: nth_append nth_list_update min_def less_Suc_eq)
  moreover have "?xs[k := ages ! k] = ?xs" using list_update_id [of ?xs k] unfolding k .
  moreover have "fold (\<lambda>i ages. if ages ! i < ages ! acc then ages[i := ages ! i + 1] else ages) [0..<Suc k] ages
      = (if ages ! k < ages ! acc then ?xs[k := ages ! k + 1] else ?xs)"
    using Suc.IH Suc.prems a k by simp
  ultimately show ?case by (cases "ages ! k < ages ! acc") simp_all
qed simp

lemma moveToMRU_map:
  assumes "age_perm n ages" and "acc < n"
  shows "moveToMRU n acc ages = map (new_age (ages ! acc)) ages"
proof (rule nth_equalityI)
  have l: "length ages = n" "distinct ages" using assms(1) by (auto simp: age_perm_def)
  have e: "moveToMRU n acc ages = (map (\<lambda>b. if b < ages ! acc then b + 1 else b) ages)[acc := 0]"
    using moveToMRU_loop [of n ages acc] assms(2) l(1) by (simp add: moveToMRU_def)
  show "length (moveToMRU n acc ages) = length (map (new_age (ages ! acc)) ages)" by (simp add: e)
  fix i assume "i < length (moveToMRU n acc ages)"
  then have i: "i < n" by (simp add: e l)
  then have "ages ! i = ages ! acc \<longleftrightarrow> i = acc" using l assms(2) by (simp add: nth_eq_iff_index_eq)
  then show "moveToMRU n acc ages ! i = map (new_age (ages ! acc)) ages ! i"
    using i l by (auto simp: e new_age_def nth_list_update)
qed

lemma moveToMRU_perm: "age_perm n ages \<Longrightarrow> acc < n \<Longrightarrow> age_perm n (moveToMRU n acc ages)"
proof -
  assume a: "age_perm n ages" "acc < n"
  have "unat (ages ! acc) < n" using a by (auto simp: age_perm_def)
  then show ?thesis using a(1) unfolding moveToMRU_map [OF a] age_perm_def
    by (auto simp: distinct_map new_age_unat intro: inj_on_subset [OF inj_new_age])
qed


text \<open>All ages occur.\<close>

lemma age_perm_set: "age_perm n ages \<Longrightarrow> unat ` set ages = {0..<n}"
proof -
  assume a: "age_perm n ages"
  have "inj_on unat (set ages)" by (rule inj_onI) (simp add: word_unat_eq_iff)
  then have "card (unat ` set ages) = n" using a by (simp add: card_image age_perm_def distinct_card)
  moreover have "unat ` set ages \<subseteq> {0..<n}" using a by (auto simp: age_perm_def)
  ultimately show ?thesis by (intro card_subset_eq) auto
qed

lemma age_perm_surj: "age_perm n ages \<Longrightarrow> k < n \<Longrightarrow> \<exists>i < n. unat (ages ! i) = k"
proof -
  assume a: "age_perm n ages" "k < n"
  then obtain b where "b \<in> set ages" "unat b = k" using age_perm_set [OF a(1)] by (metis atLeastLessThan_iff image_iff le0)
  then show ?thesis using a(1) by (auto simp: in_set_conv_nth age_perm_def)
qed

lemma age_perm_inj: "age_perm n ages \<Longrightarrow> i < n \<Longrightarrow> j < n \<Longrightarrow> unat (ages ! i) = unat (ages ! j) \<longleftrightarrow> i = j"
  by (auto simp: age_perm_def word_unat_eq_iff [symmetric] nth_eq_iff_index_eq)

section \<open>The ways in order of recency\<close>

definition recency :: "u8 list \<Rightarrow> nat list" where
  "recency ages = sort_key (\<lambda>i. unat (ages ! i)) [0..<length ages]"

lemma set_recency [simp]: "set (recency ages) = {0..<length ages}"
  by (simp add: recency_def)

lemma distinct_recency [simp]: "distinct (recency ages)"
  by (simp add: recency_def)

lemma length_recency [simp]: "length (recency ages) = length ages"
  by (simp add: recency_def)

lemma sorted_key_unique:
  assumes "distinct xs" "distinct ys" "set xs = set ys" "sorted (map k xs)" "sorted (map k ys)" "inj_on k (set xs)"
  shows "xs = ys"
proof -
  have "map k xs = map k ys"
    using assms by (intro sorted_distinct_set_unique) (auto simp: distinct_map)
  then show ?thesis by (rule map_inj_on) (use assms in simp)
qed

lemma recency_eqI:
  assumes "age_perm n ages" "distinct xs" "set xs = {0..<n}" "sorted (map (\<lambda>i. unat (ages ! i)) xs)"
  shows "recency ages = xs"
proof (rule sorted_key_unique [where k = "\<lambda>i. unat (ages ! i)"])
  show "set (recency ages) = set xs" using assms by (simp add: age_perm_def)
  show "sorted (map (\<lambda>i. unat (ages ! i)) (recency ages))" by (simp add: recency_def)
  show "inj_on (\<lambda>i. unat (ages ! i)) (set (recency ages))"
    using assms(1) age_perm_inj [OF assms(1)] by (auto simp: inj_on_def age_perm_def)
qed (use assms in auto)

text \<open>The position of a way in the list is its age.\<close>

lemma recency_nth: "age_perm n ages \<Longrightarrow> k < n \<Longrightarrow> unat (ages ! (recency ages ! k)) = k"
proof -
  assume a: "age_perm n ages" "k < n"
  let ?f = "\<lambda>i. unat (ages ! i)"
  have l: "length ages = n" using a by (simp add: age_perm_def)
  have "inj_on ?f {0..<n}" using age_perm_inj [OF a(1)] by (auto simp: inj_on_def)
  then have d: "distinct (map ?f (recency ages))" by (simp add: distinct_map l)
  have "set (map ?f (recency ages)) = unat ` set ages" 
  proof -
    have "set ages = (!) ages ` {0..<n}" by (metis l map_nth set_map set_upt)
    then show ?thesis by (simp add: l image_image)
  qed
  then have "map ?f (recency ages) = [0..<n]"
    using d age_perm_set [OF a(1)] by (intro sorted_distinct_set_unique) (auto simp: recency_def)
  then have "map ?f (recency ages) ! k = [0..<n] ! k" by simp
  then show ?thesis using a(2) l by simp
qed

text \<open>An access moves the way to the front and keeps the order of the others.\<close>

lemma recency_moveToMRU:
  assumes "age_perm n ages" and "acc < n"
  shows "recency (moveToMRU n acc ages) = acc # remove1 acc (recency ages)"
proof (rule recency_eqI [OF moveToMRU_perm [OF assms]])
  have l: "length ages = n" using assms(1) by (simp add: age_perm_def)
  show "distinct (acc # remove1 acc (recency ages))" by (simp add: distinct_remove1)
  show "set (acc # remove1 acc (recency ages)) = {0..<n}" using assms(2) l by (auto simp: set_remove1_eq)
  let ?g = "\<lambda>i. unat (moveToMRU n acc ages ! i)" and ?f = "\<lambda>i. unat (ages ! i)"
  have g: "?g i = (if ?f i < ?f acc then Suc (?f i) else if i = acc then 0 else ?f i)" if "i < n" for i
    using that assms l age_perm_inj [OF assms(1) that assms(2)]
    by (simp add: moveToMRU_map new_age_unat word_unat_eq_iff)
  have mono: "?g x \<le> ?g y" if "x < n" "y < n" "x \<noteq> acc" "y \<noteq> acc" "?f x \<le> ?f y" for x y
    using that age_perm_inj [OF assms(1) that(2) assms(2)] by (auto simp: g)
  have s: "sorted_wrt (\<lambda>x y. ?f x \<le> ?f y) (remove1 acc (recency ages))"
  proof -
    have "sorted (map ?f (remove1 acc (recency ages)))"
      by (rule sorted_map_remove1) (simp add: recency_def)
    then show ?thesis by (simp add: sorted_wrt_map)
  qed
  have "sorted_wrt (\<lambda>x y. ?g x \<le> ?g y) (remove1 acc (recency ages))"
    by (rule sorted_wrt_mono_rel [OF _ s]) (auto simp: set_remove1_eq l intro!: mono)
  moreover have "?g acc = 0" using g [OF assms(2)] by simp
  ultimately show "sorted (map ?g (acc # remove1 acc (recency ages)))" by (simp add: sorted_wrt_map)
qed

lemma recency_init: "n \<le> 256 \<Longrightarrow> recency (map of_nat [0..<n]) = [0..<n]"
proof -
  assume n: "n \<le> 256"
  have "unat (of_nat i :: u8) = i" if "i < n" for i
    using that n by (simp add: unsigned_of_nat take_bit_nat_eq_self)
  then have "map (\<lambda>i. unat ((map of_nat [0..<n] :: u8 list) ! i)) [0..<n] = [0..<n]" by (intro nth_equalityI) auto
  then show ?thesis by (intro recency_eqI [OF age_perm_init [OF n]]) simp_all
qed

section \<open>The victim\<close>

lemma first_invalid_Some: "first_invalid s = Some i \<Longrightarrow> i < unat (cs_associativity s) \<and> \<not> isValid (binfo (cs_blocks s ! i))"
  by (auto simp: first_invalid_def find_Some_iff)

lemma first_invalid_None: "first_invalid s = None \<longleftrightarrow> (\<forall>i < unat (cs_associativity s). isValid (binfo (cs_blocks s ! i)))"
  by (auto simp: first_invalid_def find_None_iff)

lemma lru_scan_less: "0 < unat (cs_associativity s) \<Longrightarrow> lru_scan s ages < unat (cs_associativity s)"
proof -
  assume n: "0 < unat (cs_associativity s)"
  let ?st = "\<lambda>i (index, max_bits). if ages ! i > max_bits \<and> isValidReplacement s i then (i, ages ! i) else (index, max_bits)"
  have "fst (fold ?st xs a) < m" if "set xs \<subseteq> {0..<m}" "fst a < m" for xs a and m :: nat
    using that by (induction xs arbitrary: a) (auto split: prod.splits)
  from this [of "[0..<unat (cs_associativity s)]" _ "(0, 0)"] show ?thesis using n by (simp add: lru_scan_def)
qed

text \<open>When every line may be replaced, the scan finds the way of the greatest age.\<close>

lemma lru_scan_max:
  assumes "\<forall>i < unat (cs_associativity s). isValidReplacement s i" and "j < unat (cs_associativity s)"
  shows "ages ! j \<le> ages ! lru_scan s ages"
proof -
  let ?st = "\<lambda>i (index, max_bits). if ages ! i > max_bits \<and> isValidReplacement s i then (i, ages ! i) else (index, max_bits)"
  have "\<forall>j < k. ages ! j \<le> snd (fold ?st [0..<k] (0, 0))" "snd (fold ?st [0..<k] (0, 0)) \<le> ages ! fst (fold ?st [0..<k] (0, 0))"
    if "k \<le> unat (cs_associativity s)" for k
    using that
  proof (induction k)
    case (Suc k)
    {
      case 1 then show ?case using Suc assms(1) by (auto simp: less_Suc_eq split: prod.splits)
    next
      case 2 then show ?case using Suc assms(1) by (auto split: prod.splits)
    }
  qed auto
  then show ?thesis using assms(2) unfolding lru_scan_def by (meson order.trans order_refl)
qed

lemma lru_scan_oldest:
  assumes "age_perm n ages" and "n = unat (cs_associativity s)" and "0 < n" and "\<forall>i < n. isValidReplacement s i"
  shows "lru_scan s ages = last (recency ages)"
proof -
  have l: "length ages = n" using assms(1) by (simp add: age_perm_def)
  let ?v = "last (recency ages)"
  have v: "?v = recency ages ! (n - 1)" using assms(3) l by (metis last_conv_nth length_recency less_numeral_extra(3) list.size(3))
  have vn: "?v < n" using assms(3) l last_in_set [of "recency ages"] by (metis set_recency atLeastLessThan_iff length_greater_0_conv length_recency)
  have "unat (ages ! ?v) = n - 1" using recency_nth [OF assms(1), of "n - 1"] assms(3) v by simp
  moreover have "unat (ages ! ?v) \<le> unat (ages ! lru_scan s ages)"
    using lru_scan_max [of s ?v ages] assms vn by (simp add: word_le_nat_alt)
  moreover have s: "lru_scan s ages < n" using lru_scan_less [of s ages] assms by simp
  moreover have "unat (ages ! lru_scan s ages) < n" using s assms(1) by (auto simp: age_perm_def)
  ultimately have "unat (ages ! lru_scan s ages) = unat (ages ! ?v)" by linarith
  then show ?thesis using age_perm_inj [OF assms(1) s vn] by blast
qed


section \<open>The contract\<close>

definition lru_inv :: "CacheSetLRU cache_set \<Rightarrow> repl_env \<Rightarrow> bool" where
  "lru_inv s e \<longleftrightarrow> age_perm (unat (cs_associativity s)) (lru_bits (cs_policy s))
     \<and> 0 < unat (lru_num_attempts (cs_policy s))
     \<and> (\<exists>si. set_info e = Some si \<and> si_associativity si = cs_associativity s \<and> length (si_access si) = unat (cs_associativity s)
          \<and> (if unat (lru_num_attempts (cs_policy s)) = 1 then si_attempts si = None
             else \<exists>l. si_attempts si = Some l \<and> length l = unat (lru_num_attempts (cs_policy s))))"

definition lru_ready :: "CacheSetLRU cache_set \<Rightarrow> repl_env \<Rightarrow> bool" where
  "lru_ready s e \<longleftrightarrow> 1 < unat (lru_num_attempts (cs_policy s)) \<longrightarrow> cntlr e \<noteq> None"

text \<open>The invariant of the statistics object alone.\<close>

definition si_ok :: "u32 \<Rightarrow> nat \<Rightarrow> repl_env \<Rightarrow> bool" where
  "si_ok assoc attempts e \<longleftrightarrow> env_shape e = Some (assoc, unat assoc, if attempts = 1 then None else Some attempts)"

lemma si_ok_alt: "si_ok assoc attempts e \<longleftrightarrow> (\<exists>si. set_info e = Some si \<and> si_associativity si = assoc \<and> length (si_access si) = unat assoc
     \<and> (if attempts = 1 then si_attempts si = None else \<exists>l. si_attempts si = Some l \<and> length l = attempts))"
  by (auto simp: si_ok_def env_shape_def)

lemma lru_inv_alt: "lru_inv s e \<longleftrightarrow> age_perm (unat (cs_associativity s)) (lru_bits (cs_policy s))
   \<and> 0 < unat (lru_num_attempts (cs_policy s)) \<and> si_ok (cs_associativity s) (unat (lru_num_attempts (cs_policy s))) e"
  by (simp add: lru_inv_def si_ok_alt)

lemma si_ok_attempt:
  assumes "si_ok a n e" and "k < n"
  obtains e' where "on_set_info (si_incrementAttempt k) e = Some e'" "si_ok a n e'" "cntlr e' = cntlr e"
  using assms by (fastforce simp: si_ok_alt on_set_info_def si_incrementAttempt_def split: if_splits)

lemma si_ok_increment:
  assumes "si_ok a n e" and "k < unat a"
  obtains e' where "on_set_info (si_increment k) e = Some e'" "si_ok a n e'" "cntlr e' = cntlr e"
  using assms by (fastforce simp: si_ok_alt on_set_info_def si_increment_def split: if_splits)

lemma si_ok_qbs [simp]: "si_ok a n (incrementQBSLookupCost e) = si_ok a n e"
  by (simp add: si_ok_alt incrementQBSLookupCost_def)

lemma cntlr_qbs [simp]: "cntlr (incrementQBSLookupCost e) = None \<longleftrightarrow> cntlr e = None"
  by (simp add: incrementQBSLookupCost_def)

text \<open>The attempts return a way and keep the ages a permutation; the last one is never rejected, so they end with a way.\<close>

lemma lru_attempts_sound:
  assumes "lru_attempts s num k attempt ages e = Some (i, ages', e')"
    and "age_perm (unat (cs_associativity s)) ages" and "si_ok a num e" and "attempt + k = num"
  shows "i < unat (cs_associativity s) \<and> age_perm (unat (cs_associativity s)) ages' \<and> si_ok a num e'"
  using assms
proof (induction s num k attempt ages e rule: lru_attempts.induct)
  case (2 s num k attempt ages e)
  let ?n = "unat (cs_associativity s)" and ?x = "lru_scan s ages"
  have x: "?x < ?n" using 2(2) by (auto simp: Let_def split: if_splits)
  have p: "age_perm ?n (moveToMRU ?n ?x ages)" using moveToMRU_perm [OF 2(3) x] .
  obtain e1 where e1: "on_set_info (si_incrementAttempt attempt) e = Some e1" "si_ok a num e1"
    using si_ok_attempt [OF 2(4), of attempt] 2(5) by auto
  from 2(2) x obtain q where q: "(if attempt + 1 < num then qbs_query e (cs_blocks s ! ?x) else Some False) = Some q"
    by (auto simp: Let_def split: bind_splits if_splits)
  show ?case
  proof (cases q)
    case True
    then show ?thesis using 2(1) [OF refl _ q True] 2(2,4,5) x p q by (simp add: Let_def)
  next
    case False
    then show ?thesis using 2(2) x p q e1 by (auto simp: Let_def)
  qed
qed simp

lemma lru_attempts_total:
  assumes "0 < k" and "0 < unat (cs_associativity s)" and "si_ok a num e" and "attempt + k = num" and "1 < num \<longrightarrow> cntlr e \<noteq> None"
  shows "\<exists>r. lru_attempts s num k attempt ages e = Some r"
  using assms
proof (induction k arbitrary: attempt ages e)
  case (Suc k)
  let ?n = "unat (cs_associativity s)" and ?x = "lru_scan s ages"
  have x: "?x < ?n" using lru_scan_less [OF Suc(3)] .
  obtain e1 where e1: "on_set_info (si_incrementAttempt attempt) e = Some e1"
    using si_ok_attempt [OF Suc(4), of attempt] Suc(5) by auto
  show ?case
  proof (cases "attempt + 1 < num")
    case True
    then obtain q where q: "qbs_query e (cs_blocks s ! ?x) = Some q" using Suc(6) by (auto simp: qbs_query_def)
    have "\<exists>r. lru_attempts s num k (attempt + 1) (moveToMRU ?n ?x ages) (incrementQBSLookupCost e) = Some r"
      using Suc True by (intro Suc.IH) auto
    then show ?thesis using True q x e1 by (cases q) (auto simp: Let_def)
  next
    case False
    then show ?thesis using x e1 by (simp add: Let_def)
  qed
qed simp

interpretation lru: fills_invalid CacheSetLRU_getReplacementIndex CacheSetLRU_updateReplacementIndex lru_inv lru_ready
proof unfold_locales
  show "lru_inv s e \<Longrightarrow> cs_policy s' = cs_policy s \<Longrightarrow> cs_associativity s' = cs_associativity s \<Longrightarrow> env_shape e' = env_shape e \<Longrightarrow> lru_inv s' e'" for s s' e e'
    by (simp add: lru_inv_alt si_ok_def)
  show "i < length (cs_blocks s) \<and> lru_inv (s\<lparr>cs_policy := p\<rparr>) e' \<and> env_shape e' = env_shape e"
    if h: "set_wf t s" "lru_inv s e" "CacheSetLRU_getReplacementIndex s e = Some (i, p, e')" for t s e i p e'
  proof (cases "first_invalid s")
    case None
    then obtain ages where a: "lru_attempts s (unat (lru_num_attempts (cs_policy s))) (unat (lru_num_attempts (cs_policy s))) 0 (lru_bits (cs_policy s)) e = Some (i, ages, e')"
      and p: "p = (cs_policy s)\<lparr>lru_bits := ages\<rparr>"
      using h(3) by (auto simp: CacheSetLRU_getReplacementIndex_def Let_def split: bind_splits)
    show ?thesis using lru_attempts_sound [OF a, of "cs_associativity s"] h(1,2) by (simp add: lru_inv_alt p set_wf_def si_ok_def)
  next
    case (Some j)
    then show ?thesis using h first_invalid_Some [OF Some] moveToMRU_perm
      by (auto simp: CacheSetLRU_getReplacementIndex_def Let_def lru_inv_alt set_wf_def)
  qed
  show "\<exists>r. CacheSetLRU_getReplacementIndex s e = Some r" if h: "set_wf t s" "lru_inv s e" "lru_ready s e" for t s e
  proof (cases "first_invalid s")
    case None
    have "\<exists>r. lru_attempts s (unat (lru_num_attempts (cs_policy s))) (unat (lru_num_attempts (cs_policy s))) 0 (lru_bits (cs_policy s)) e = Some r"
      using h by (intro lru_attempts_total [where a = "cs_associativity s"]) (auto simp: lru_inv_alt lru_ready_def set_wf_def)
    then show ?thesis using None by (auto simp: CacheSetLRU_getReplacementIndex_def Let_def)
  qed (simp add: CacheSetLRU_getReplacementIndex_def Let_def)
  show "lru_inv (s\<lparr>cs_policy := p\<rparr>) e' \<and> env_shape e' = env_shape e"
    if h: "set_wf t s" "lru_inv s e" "i < length (cs_blocks s)" "CacheSetLRU_updateReplacementIndex i s e = Some (p, e')" for t s e i p e'
  proof -
    let ?b = "lru_bits (cs_policy s)" and ?n = "unat (cs_associativity s)"
    have i: "i < ?n" and a: "age_perm ?n ?b" using h by (auto simp: set_wf_def lru_inv_alt)
    have "unat (?b ! i) < ?n" using i a by (auto simp: age_perm_def)
    then obtain e1 where e1: "on_set_info (si_increment (unat (?b ! i))) e = Some e1" "si_ok (cs_associativity s) (unat (lru_num_attempts (cs_policy s))) e1"
      using si_ok_increment h(2) by (metis lru_inv_alt)
    show ?thesis using h(2,4) e1 moveToMRU_perm [OF a i] by (auto simp: CacheSetLRU_updateReplacementIndex_def lru_inv_alt si_ok_def Let_def)
  qed
  show "\<not> isValid (binfo (cs_blocks s ! i))"
    if h: "set_wf t s" "j < length (cs_blocks s)" "\<not> isValid (binfo (cs_blocks s ! j))"
      "CacheSetLRU_getReplacementIndex s e = Some (i, p, e')" for t s e i p e' j
    using h first_invalid_None [of s] first_invalid_Some [of s]
    by (cases "first_invalid s") (auto simp: CacheSetLRU_getReplacementIndex_def Let_def set_wf_def)
qed


section \<open>Sequences of hits\<close>

fun lru_hits :: "nat list \<Rightarrow> CacheSetLRU cache_set \<Rightarrow> repl_env \<Rightarrow> (CacheSetLRU cache_set \<times> repl_env) option" where
  "lru_hits [] s e = Some (s, e)"
| "lru_hits (w # ws) s e = CacheSetLRU_updateReplacementIndex w s e \<bind> (\<lambda>(p, e). lru_hits ws (s\<lparr>cs_policy := p\<rparr>) e)"

definition move_front :: "nat \<Rightarrow> nat list \<Rightarrow> nat list" where
  "move_front w r = w # remove1 w r"

lemma lru_hit_total:
  assumes "set_wf t s" "lru_inv s e" "w < unat (cs_associativity s)"
  obtains p e' where "CacheSetLRU_updateReplacementIndex w s e = Some (p, e')"
    "lru_bits p = moveToMRU (unat (cs_associativity s)) w (lru_bits (cs_policy s))" "lru_num_attempts p = lru_num_attempts (cs_policy s)"
proof -
  let ?b = "lru_bits (cs_policy s)" and ?n = "unat (cs_associativity s)"
  have "unat (?b ! w) < ?n" using assms(2,3) by (auto simp: age_perm_def lru_inv_alt)
  then obtain e1 where "on_set_info (si_increment (unat (?b ! w))) e = Some e1"
    using si_ok_increment assms(2) by (metis lru_inv_alt)
  then show thesis using that [of "(cs_policy s)\<lparr>lru_bits := moveToMRU ?n w ?b\<rparr>" e1]
    by (simp add: CacheSetLRU_updateReplacementIndex_def Let_def)
qed

lemma lru_hits_recency:
  assumes "set_wf t s" "lru_inv s e" "set ws \<subseteq> {0..<unat (cs_associativity s)}"
  shows "\<exists>s' e'. lru_hits ws s e = Some (s', e') \<and> lru_inv s' e' \<and> s' = s\<lparr>cs_policy := cs_policy s'\<rparr>
    \<and> lru_num_attempts (cs_policy s') = lru_num_attempts (cs_policy s)
    \<and> recency (lru_bits (cs_policy s')) = fold move_front ws (recency (lru_bits (cs_policy s)))"
  using assms
proof (induction ws arbitrary: s e)
  case (Cons w ws)
  let ?n = "unat (cs_associativity s)"
  have w: "w < ?n" and a: "age_perm ?n (lru_bits (cs_policy s))" using Cons.prems by (auto simp: lru_inv_alt)
  obtain p e1 where u: "CacheSetLRU_updateReplacementIndex w s e = Some (p, e1)"
    and p: "lru_bits p = moveToMRU ?n w (lru_bits (cs_policy s))" "lru_num_attempts p = lru_num_attempts (cs_policy s)"
    using lru_hit_total [OF Cons.prems(1,2) w] by blast
  have i: "lru_inv (s\<lparr>cs_policy := p\<rparr>) e1"
    using lru.upd_sound [OF Cons.prems(1,2) _ u] w Cons.prems(1) by (simp add: set_wf_def)
  have wf: "set_wf t (s\<lparr>cs_policy := p\<rparr>)" using Cons.prems(1) by simp
  have ss: "set ws \<subseteq> {0..<unat (cs_associativity (s\<lparr>cs_policy := p\<rparr>))}" using Cons.prems(3) by simp
  from Cons.IH [OF wf i ss] show ?case
    using u p recency_moveToMRU [OF a w] by (auto simp: move_front_def)
qed simp


text \<open>In the list of ways, a way stands before all those not accessed since its last access.\<close>

definition before :: "nat \<Rightarrow> nat \<Rightarrow> nat list \<Rightarrow> bool" where
  "before v w r \<longleftrightarrow> (\<exists>as bs. r = as @ v # bs \<and> w \<in> set bs)"

lemma before_move_front: "before v w r \<Longrightarrow> x \<noteq> v \<Longrightarrow> x \<noteq> w \<Longrightarrow> before v w (move_front x r)"
proof -
  assume b: "before v w r" and x: "x \<noteq> v" "x \<noteq> w"
  then obtain as bs where r: "r = as @ v # bs" "w \<in> set bs" by (auto simp: before_def)
  show ?thesis
  proof (cases "x \<in> set as")
    case True
    then have "move_front x r = (x # remove1 x as) @ v # bs" by (simp add: move_front_def r remove1_append)
    then show ?thesis using r unfolding before_def by blast
  next
    case False
    then have "move_front x r = (x # as) @ v # remove1 x bs" using x by (simp add: move_front_def r remove1_append)
    moreover have "w \<in> set (remove1 x bs)" using r x by simp
    ultimately show ?thesis unfolding before_def by blast
  qed
qed

lemma before_fold: "before v w r \<Longrightarrow> v \<notin> set xs \<Longrightarrow> w \<notin> set xs \<Longrightarrow> before v w (fold move_front xs r)"
proof (induction xs arbitrary: r)
  case (Cons x xs)
  then have "before v w (move_front x r)" by (intro before_move_front) auto
  then show ?case using Cons by simp
qed simp

lemma move_front_set: "w \<in> set r \<Longrightarrow> set (move_front w r) = set r" "distinct r \<Longrightarrow> distinct (move_front w r)"
  by (auto simp: move_front_def distinct_remove1 set_remove1_subset dest: in_set_remove1 [THEN iffD2] notin_set_remove1 set_mp [OF set_remove1_subset])

lemma fold_move_front_set: "set ws \<subseteq> set r \<Longrightarrow> distinct r \<Longrightarrow> set (fold move_front ws r) = set r \<and> distinct (fold move_front ws r)"
  by (induction ws arbitrary: r) (auto simp: move_front_set)

lemma before_not_last: "distinct r \<Longrightarrow> before v w r \<Longrightarrow> last r \<noteq> v"
proof -
  assume d: "distinct r" and "before v w r"
  then obtain as bs where r: "r = as @ v # bs" "w \<in> set bs" by (auto simp: before_def)
  then have "bs \<noteq> []" by auto
  then have "last r \<in> set bs" using r(1) by simp
  then show ?thesis using d r(1) by auto
qed

lemma last_move_front:
  assumes "distinct r" "set ws \<subseteq> set r" "v = last (fold move_front ws r)" "ws = us @ v # vs" "v \<notin> set vs"
  shows "set r - {v} \<subseteq> set vs"
proof (rule ccontr)
  assume "\<not> set r - {v} \<subseteq> set vs"
  then obtain w where w: "w \<in> set r" "w \<noteq> v" "w \<notin> set vs" by blast
  define r1 where "r1 = fold move_front us r"
  have r1: "set r1 = set r" "distinct r1" using fold_move_front_set [of us r] assms(1,2) unfolding assms(4) r1_def by simp_all
  have "w \<in> set (remove1 v r1)" using w r1 by simp
  then have "before v w ([] @ v # remove1 v r1)" unfolding before_def by blast
  then have "before v w (move_front v r1)" by (simp add: move_front_def)
  then have "before v w (fold move_front ws r)" using before_fold [OF _ assms(5) w(3)] unfolding assms(4) r1_def by simp
  moreover have "distinct (fold move_front ws r)" using fold_move_front_set assms by blast
  ultimately show False using before_not_last assms(3) by blast
qed

text \<open>The victim, when the set is full and no line is being upgraded: one attempt evicts the oldest way.\<close>

lemma lru_victim_oldest:
  assumes "set_wf t s" "lru_inv s e" "lru_num_attempts (cs_policy s) = 1"
    and "\<forall>b \<in> set (cs_blocks s). isValid (binfo b) \<and> getCState b \<noteq> SHARED_UPGRADING"
  shows "CacheSetLRU_getReplacementIndex s e =
    (let r = recency (lru_bits (cs_policy s)); ages = moveToMRU (unat (cs_associativity s)) (last r) (lru_bits (cs_policy s))
     in Some (last r, (cs_policy s)\<lparr>lru_bits := ages\<rparr>, e))"
proof -
  let ?n = "unat (cs_associativity s)" and ?b = "lru_bits (cs_policy s)"
  have n: "length (cs_blocks s) = ?n" "0 < ?n" using assms(1) by (auto simp: set_wf_def)
  have a: "age_perm ?n ?b" and si: "si_ok (cs_associativity s) 1 e" using assms(2,3) by (auto simp: lru_inv_alt)
  have f: "first_invalid s = None" using assms(4) n by (auto simp: first_invalid_None)
  have v: "\<forall>i < ?n. isValidReplacement s i" using assms(4) n by (auto simp: isValidReplacement_def)
  note sc = lru_scan_oldest [OF a refl n(2) v]
  have ln: "last (recency ?b) < ?n" using sc lru_scan_less [OF n(2), of ?b] by simp
  obtain info where "set_info e = Some info" "si_attempts info = None" using si by (auto simp: si_ok_alt)
  then have "on_set_info (si_incrementAttempt 0) e = Some e" by (simp add: on_set_info_def si_incrementAttempt_def)
  then show ?thesis using f sc ln assms(3) by (simp add: CacheSetLRU_getReplacementIndex_def Let_def numeral_eq_Suc)
qed

lemma recency_victim: "age_perm n ages \<Longrightarrow> 0 < n \<Longrightarrow>
  recency (moveToMRU n (last (recency ages)) ages) = last (recency ages) # butlast (recency ages)"
proof -
  assume a: "age_perm n ages" "0 < n"
  have l: "length ages = n" using a(1) by (simp add: age_perm_def)
  have ne: "recency ages \<noteq> []" using a(2) l by (metis length_recency less_numeral_extra(3) list.size(3))
  then have "last (recency ages) < n" using last_in_set [OF ne] l by simp
  moreover have "remove1 (last r) r = butlast r" if "distinct r" "r \<noteq> []" for r :: "nat list"
    using that by (induction r) (auto split: if_splits)
  ultimately show ?thesis using recency_moveToMRU [OF a(1)] ne by simp
qed

end
