(* ===== verification/Sniper_Policies.thy ===== *)
theory Sniper_Policies
  imports Sniper_LRU
begin

text \<open>
  The other replacement policies (\<^verbatim>\<open>cache_set_mru.cc\<close>, \<^verbatim>\<open>cache_set_nmru.cc\<close>, \<^verbatim>\<open>cache_set_nru.cc\<close>,
  \<^verbatim>\<open>cache_set_plru.cc\<close>, \<^verbatim>\<open>cache_set_random.cc\<close>, \<^verbatim>\<open>cache_set_round_robin.cc\<close>, \<^verbatim>\<open>cache_set_srrip.cc\<close>), each with
  the invariant of its state and the condition under which it finds a victim, as instances of the
  contract of replacement policies. The random and round-robin policies call themselves again when
  they reject a line; a search that never ends is the value \<^term>\<open>None\<close>.
\<close>

section \<open>Most recently used\<close>

record CacheSetMRU =
  mru_bits :: "u8 list"

definition CacheSetMRU_new :: "u32 \<Rightarrow> CacheSetMRU" where
  "CacheSetMRU_new associativity = \<lparr>mru_bits = map of_nat [0..<unat associativity]\<rparr>"

definition CacheSetMRU_updateReplacementIndex :: "CacheSetMRU update_index" where
  "CacheSetMRU_updateReplacementIndex accessed_index s e =
     Some ((cs_policy s)\<lparr>mru_bits := moveToMRU (unat (cs_associativity s)) accessed_index (mru_bits (cs_policy s))\<rparr>, e)"

text \<open>The loop over the ages, and in it over the ways.\<close>

definition mru_search :: "CacheSetMRU cache_set \<Rightarrow> nat option" where
  "mru_search s = map_option snd (List.find (\<lambda>(target, i). unat (mru_bits (cs_policy s) ! i) = target \<and> isValidReplacement s i)
     (List.product [0..<unat (cs_associativity s)] [0..<unat (cs_associativity s)]))"

definition CacheSetMRU_getReplacementIndex :: "CacheSetMRU get_index" where
  "CacheSetMRU_getReplacementIndex s e = do {
     i \<leftarrow> (case first_invalid s of Some i \<Rightarrow> Some i | None \<Rightarrow> mru_search s);
     (p, e) \<leftarrow> CacheSetMRU_updateReplacementIndex i s e;
     Some (i, p, e) }"

definition mru_inv :: "CacheSetMRU cache_set \<Rightarrow> repl_env \<Rightarrow> bool" where
  "mru_inv s e \<longleftrightarrow> age_perm (unat (cs_associativity s)) (mru_bits (cs_policy s))"

text \<open>A line that may be overwritten: invalid, or not being upgraded.\<close>

definition replaceable :: "'p cache_set \<Rightarrow> repl_env \<Rightarrow> bool" where
  "replaceable s e \<longleftrightarrow> (\<exists>i < unat (cs_associativity s). \<not> isValid (binfo (cs_blocks s ! i)) \<or> isValidReplacement s i)"

lemma find_SomeD: "List.find P xs = Some x \<Longrightarrow> x \<in> set xs \<and> P x"
  by (auto simp: find_Some_iff)

lemma mru_search_Some: "mru_search s = Some i \<Longrightarrow> i < unat (cs_associativity s) \<and> isValidReplacement s i"
  by (fastforce simp: mru_search_def dest: find_SomeD)

lemma mru_search_total:
  assumes "age_perm (unat (cs_associativity s)) (mru_bits (cs_policy s))" and "i < unat (cs_associativity s)" and "isValidReplacement s i"
  shows "\<exists>v. mru_search s = Some v"
proof -
  have "unat (mru_bits (cs_policy s) ! i) < unat (cs_associativity s)" using assms by (auto simp: age_perm_def)
  then have "List.find (\<lambda>(target, i). unat (mru_bits (cs_policy s) ! i) = target \<and> isValidReplacement s i)
     (List.product [0..<unat (cs_associativity s)] [0..<unat (cs_associativity s)]) \<noteq> None"
    using assms(2,3) by (auto simp: find_None_iff)
  then show ?thesis by (auto simp: mru_search_def)
qed

lemma mru_get_cases:
  assumes "CacheSetMRU_getReplacementIndex s e = Some (i, p, e')"
  shows "(first_invalid s = Some i \<or> (first_invalid s = None \<and> mru_search s = Some i)) \<and> CacheSetMRU_updateReplacementIndex i s e = Some (p, e')"
  using assms by (auto simp: CacheSetMRU_getReplacementIndex_def split: bind_splits option.splits)

interpretation mru: fills_invalid CacheSetMRU_getReplacementIndex CacheSetMRU_updateReplacementIndex mru_inv replaceable
proof unfold_locales
  show "mru_inv s e \<Longrightarrow> cs_policy s' = cs_policy s \<Longrightarrow> cs_associativity s' = cs_associativity s \<Longrightarrow> env_shape e' = env_shape e \<Longrightarrow> mru_inv s' e'" for s s' e e'
    by (simp add: mru_inv_def si_ok_def)
  show u: "mru_inv (s\<lparr>cs_policy := p\<rparr>) e' \<and> env_shape e' = env_shape e"
    if "set_wf t s" "mru_inv s e" "i < length (cs_blocks s)" "CacheSetMRU_updateReplacementIndex i s e = Some (p, e')" for t s e i p e'
    using that moveToMRU_perm by (auto simp: mru_inv_def CacheSetMRU_updateReplacementIndex_def set_wf_def)
  show "i < length (cs_blocks s) \<and> mru_inv (s\<lparr>cs_policy := p\<rparr>) e' \<and> env_shape e' = env_shape e"
    if h: "set_wf t s" "mru_inv s e" "CacheSetMRU_getReplacementIndex s e = Some (i, p, e')" for t s e i p e'
  proof -
    have "i < length (cs_blocks s)"
      using mru_get_cases [OF h(3)] first_invalid_Some [of s i] mru_search_Some [of s i] h(1) by (auto simp: set_wf_def)
    then show ?thesis using u [OF h(1,2)] mru_get_cases [OF h(3)] by blast
  qed
  show "\<exists>r. CacheSetMRU_getReplacementIndex s e = Some r" if h: "set_wf t s" "mru_inv s e" "replaceable s e" for t s e
  proof (cases "first_invalid s")
    case None
    then obtain i where "i < unat (cs_associativity s)" "isValidReplacement s i"
      using h(3) first_invalid_None [of s] by (auto simp: replaceable_def)
    then obtain v where "mru_search s = Some v" using mru_search_total h(2) by (auto simp: mru_inv_def)
    then show ?thesis using None by (simp add: CacheSetMRU_getReplacementIndex_def CacheSetMRU_updateReplacementIndex_def)
  qed (simp add: CacheSetMRU_getReplacementIndex_def CacheSetMRU_updateReplacementIndex_def)
  show "\<not> isValid (binfo (cs_blocks s ! i))"
    if "set_wf t s" "j < length (cs_blocks s)" "\<not> isValid (binfo (cs_blocks s ! j))"
      "CacheSetMRU_getReplacementIndex s e = Some (i, p, e')" for t s e i p e' j
    using mru_get_cases [OF that(4)] that(1-3) first_invalid_None [of s] first_invalid_Some [of s i] by (auto simp: set_wf_def)
qed

section \<open>Searches from a pointer\<close>

text \<open>
  \<^verbatim>\<open>(m_replacement_pointer + 1) % m_associativity\<close>, stored in a byte, and the loop that looks at every
  way once, starting at the pointer.
\<close>

definition advance :: "u32 \<Rightarrow> u8 \<Rightarrow> u8" where
  "advance associativity ptr = ucast ((ucast ptr + 1) mod associativity :: u32)"

fun cyc_find :: "u32 \<Rightarrow> (nat \<Rightarrow> bool) \<Rightarrow> nat \<Rightarrow> u8 \<Rightarrow> u8 option" where
  "cyc_find associativity P 0 ptr = None"
| "cyc_find associativity P (Suc k) ptr =
     (if P (unat ptr) then Some ptr else cyc_find associativity P k (advance associativity ptr))"

lemma advance_unat:
  assumes "unat ptr < unat a" and "unat a \<le> 256"
  shows "unat (advance a ptr) = (unat ptr + 1) mod unat a"
proof -
  have p: "unat (ucast ptr :: u32) = unat ptr"
    using unsigned_less [of ptr, where 'a=nat] by (simp add: unsigned_ucast_eq take_bit_nat_eq_self)
  have "unat (ucast ptr + 1 :: u32) = unat ptr + 1"
    using unsigned_less [of ptr, where 'a=nat] by (subst unat_add_no_overflow) (auto simp: p)
  then have m: "unat ((ucast ptr + 1) mod a :: u32) = (unat ptr + 1) mod unat a" by (simp add: unat_mod)
  have "(unat ptr + 1) mod unat a < unat a" using assms(1) by (intro mod_less_divisor) simp
  then have "(unat ptr + 1) mod unat a < 2 ^ 8" using assms(2) by simp
  then show ?thesis unfolding advance_def unsigned_ucast_eq m by (simp add: take_bit_nat_eq_self)
qed

lemma cyc_find_Some:
  "cyc_find a P k ptr = Some q \<Longrightarrow> unat ptr < unat a \<Longrightarrow> unat a \<le> 256 \<Longrightarrow> P (unat q) \<and> unat q < unat a"
  by (induction k arbitrary: ptr) (auto simp: advance_unat split: if_splits)

lemma cyc_find_None:
  "cyc_find a P k ptr = None \<Longrightarrow> unat ptr < unat a \<Longrightarrow> unat a \<le> 256 \<Longrightarrow> j < k \<Longrightarrow> \<not> P ((unat ptr + j) mod unat a)"
proof (induction k arbitrary: ptr j)
  case (Suc k)
  show ?case
  proof (cases j)
    case 0
    then show ?thesis using Suc.prems by (auto split: if_splits)
  next
    case (Suc i)
    have "\<not> P ((unat (advance a ptr) + i) mod unat a)"
      using Suc.IH [of "advance a ptr" i] Suc.prems Suc by (auto simp: advance_unat split: if_splits)
    then show ?thesis using Suc.prems Suc by (simp add: advance_unat mod_simps)
  qed
qed simp

lemma cyc_find_total:
  assumes "unat ptr < unat a" and "unat a \<le> 256" and "i < unat a" and "P i"
  shows "\<exists>q. cyc_find a P (unat a) ptr = Some q"
proof (rule ccontr)
  assume "\<not> ?thesis"
  then have n: "cyc_find a P (unat a) ptr = None" by simp
  define j where "j = (i + unat a - unat ptr) mod unat a"
  have "j < unat a" using assms(1) by (simp add: j_def)
  moreover have "(unat ptr + j) mod unat a = i"
  proof -
    have "(unat ptr + j) mod unat a = (unat ptr + (i + unat a - unat ptr)) mod unat a" unfolding j_def by (simp only: mod_add_right_eq)
    also have "unat ptr + (i + unat a - unat ptr) = i + unat a" using assms(1) by simp
    finally show ?thesis using assms(3) by simp
  qed
  ultimately show False using cyc_find_None [OF n assms(1,2)] assms(4) by metis
qed

section \<open>Not most recently used\<close>

record CacheSetNMRU =
  nmru_bits :: "u8 list"
  nmru_pointer :: u8

definition CacheSetNMRU_new :: "u32 \<Rightarrow> CacheSetNMRU" where
  "CacheSetNMRU_new associativity = \<lparr>nmru_bits = map of_nat [0..<unat associativity], nmru_pointer = 0\<rparr>"

definition CacheSetNMRU_updateReplacementIndex :: "CacheSetNMRU update_index" where
  "CacheSetNMRU_updateReplacementIndex accessed_index s e =
     Some ((cs_policy s)\<lparr>nmru_bits := moveToMRU (unat (cs_associativity s)) accessed_index (nmru_bits (cs_policy s))\<rparr>, e)"

definition CacheSetNMRU_getReplacementIndex :: "CacheSetNMRU get_index" where
  "CacheSetNMRU_getReplacementIndex s e = (case first_invalid s of
      Some i \<Rightarrow> do { (p, e) \<leftarrow> CacheSetNMRU_updateReplacementIndex i s e; Some (i, p, e) }
    | None \<Rightarrow> do {
        q \<leftarrow> cyc_find (cs_associativity s) (\<lambda>i. nmru_bits (cs_policy s) ! i \<noteq> 0 \<and> isValidReplacement s i)
               (unat (cs_associativity s)) (nmru_pointer (cs_policy s));
        let s = s\<lparr>cs_policy := (cs_policy s)\<lparr>nmru_pointer := advance (cs_associativity s) q\<rparr>\<rparr>;
        (p, e) \<leftarrow> CacheSetNMRU_updateReplacementIndex (unat q) s e;
        Some (unat q, p, e) })"

definition nmru_inv :: "CacheSetNMRU cache_set \<Rightarrow> repl_env \<Rightarrow> bool" where
  "nmru_inv s e \<longleftrightarrow> age_perm (unat (cs_associativity s)) (nmru_bits (cs_policy s))
     \<and> unat (nmru_pointer (cs_policy s)) < unat (cs_associativity s)"

definition nmru_ready :: "CacheSetNMRU cache_set \<Rightarrow> repl_env \<Rightarrow> bool" where
  "nmru_ready s e \<longleftrightarrow> (\<exists>i < unat (cs_associativity s). \<not> isValid (binfo (cs_blocks s ! i))
     \<or> (nmru_bits (cs_policy s) ! i \<noteq> 0 \<and> isValidReplacement s i))"

interpretation nmru: fills_invalid CacheSetNMRU_getReplacementIndex CacheSetNMRU_updateReplacementIndex nmru_inv nmru_ready
proof unfold_locales
  show "nmru_inv s e \<Longrightarrow> cs_policy s' = cs_policy s \<Longrightarrow> cs_associativity s' = cs_associativity s \<Longrightarrow> env_shape e' = env_shape e \<Longrightarrow> nmru_inv s' e'" for s s' e e'
    by (simp add: nmru_inv_def si_ok_def)
  show u: "nmru_inv (s\<lparr>cs_policy := p\<rparr>) e' \<and> env_shape e' = env_shape e"
    if "set_wf t s" "nmru_inv s e" "i < length (cs_blocks s)" "CacheSetNMRU_updateReplacementIndex i s e = Some (p, e')" for t s e i p e'
    using that moveToMRU_perm by (auto simp: nmru_inv_def CacheSetNMRU_updateReplacementIndex_def set_wf_def)
  show "i < length (cs_blocks s) \<and> nmru_inv (s\<lparr>cs_policy := p\<rparr>) e' \<and> env_shape e' = env_shape e"
    if h: "set_wf t s" "nmru_inv s e" "CacheSetNMRU_getReplacementIndex s e = Some (i, p, e')" for t s e i p e'
  proof (cases "first_invalid s")
    case None
    then obtain q where q: "cyc_find (cs_associativity s) (\<lambda>i. nmru_bits (cs_policy s) ! i \<noteq> 0 \<and> isValidReplacement s i)
               (unat (cs_associativity s)) (nmru_pointer (cs_policy s)) = Some q"
      and i: "i = unat q"
      and ee: "e' = e"
      and u1: "p = (cs_policy s)\<lparr>nmru_pointer := advance (cs_associativity s) q, nmru_bits := moveToMRU (unat (cs_associativity s)) i (nmru_bits (cs_policy s))\<rparr>"
      using h(3) by (auto simp: CacheSetNMRU_getReplacementIndex_def CacheSetNMRU_updateReplacementIndex_def split: bind_splits)
    have a: "age_perm (unat (cs_associativity s)) (nmru_bits (cs_policy s))" "unat (nmru_pointer (cs_policy s)) < unat (cs_associativity s)"
      "unat (cs_associativity s) \<le> 256" using h(2) by (auto simp: nmru_inv_def age_perm_def)
    have l: "unat q < unat (cs_associativity s)" using cyc_find_Some [OF q a(2,3)] by simp
    then show ?thesis using h(1) a moveToMRU_perm [OF a(1) l] by (auto simp: i u1 ee nmru_inv_def set_wf_def advance_unat)
  next
    case (Some j)
    then have "i = j" "CacheSetNMRU_updateReplacementIndex i s e = Some (p, e')"
      using h(3) by (auto simp: CacheSetNMRU_getReplacementIndex_def split: bind_splits)
    then show ?thesis using u [OF h(1,2)] first_invalid_Some [OF Some] h(1) by (auto simp: set_wf_def)
  qed
  show "\<exists>r. CacheSetNMRU_getReplacementIndex s e = Some r" if h: "set_wf t s" "nmru_inv s e" "nmru_ready s e" for t s e
  proof (cases "first_invalid s")
    case None
    then obtain i where "i < unat (cs_associativity s)" "nmru_bits (cs_policy s) ! i \<noteq> 0 \<and> isValidReplacement s i"
      using h(3) first_invalid_None [of s] by (auto simp: nmru_ready_def)
    then obtain q where "cyc_find (cs_associativity s) (\<lambda>i. nmru_bits (cs_policy s) ! i \<noteq> 0 \<and> isValidReplacement s i)
               (unat (cs_associativity s)) (nmru_pointer (cs_policy s)) = Some q"
      using cyc_find_total [of "nmru_pointer (cs_policy s)" "cs_associativity s" i "\<lambda>i. nmru_bits (cs_policy s) ! i \<noteq> 0 \<and> isValidReplacement s i"] h(2)
      by (auto simp: nmru_inv_def age_perm_def)
    then show ?thesis using None by (simp add: CacheSetNMRU_getReplacementIndex_def CacheSetNMRU_updateReplacementIndex_def)
  qed (simp add: CacheSetNMRU_getReplacementIndex_def CacheSetNMRU_updateReplacementIndex_def)
  show "\<not> isValid (binfo (cs_blocks s ! i))"
    if "set_wf t s" "j < length (cs_blocks s)" "\<not> isValid (binfo (cs_blocks s ! j))"
      "CacheSetNMRU_getReplacementIndex s e = Some (i, p, e')" for t s e i p e' j
    using that first_invalid_None [of s] first_invalid_Some [of s]
    by (cases "first_invalid s") (auto simp: set_wf_def CacheSetNMRU_getReplacementIndex_def split: bind_splits)
qed


section \<open>Not recently used\<close>

record CacheSetNRU =
  nru_bits :: "u8 list"
  nru_num_bits_set :: u8
  nru_pointer :: u8

definition CacheSetNRU_new :: "u32 \<Rightarrow> CacheSetNRU" where
  "CacheSetNRU_new associativity = \<lparr>nru_bits = replicate (unat associativity) 0, nru_num_bits_set = 0, nru_pointer = 0\<rparr>"

definition CacheSetNRU_updateReplacementIndex :: "CacheSetNRU update_index" where
  "CacheSetNRU_updateReplacementIndex accessed_index s e = (let p = cs_policy s;
       p = p\<lparr>nru_bits := (nru_bits p)[accessed_index := 1], nru_num_bits_set := nru_num_bits_set p + 1\<rparr>
     in Some (if ucast (nru_num_bits_set p) = cs_associativity s
              then p\<lparr>nru_num_bits_set := 0, nru_bits := replicate (unat (cs_associativity s)) 0\<rparr> else p, e))"

definition CacheSetNRU_getReplacementIndex :: "CacheSetNRU get_index" where
  "CacheSetNRU_getReplacementIndex s e = (case first_invalid s of
      Some i \<Rightarrow> do { (p, e) \<leftarrow> CacheSetNRU_updateReplacementIndex i s e; Some (i, p, e) }
    | None \<Rightarrow> (let have_zero_bit = list_ex (\<lambda>i. nru_bits (cs_policy s) ! i = 0 \<and> isValidReplacement s i) [0..<unat (cs_associativity s)]
      in do {
        q \<leftarrow> cyc_find (cs_associativity s) (\<lambda>i. (nru_bits (cs_policy s) ! i = 0 \<or> \<not> have_zero_bit) \<and> isValidReplacement s i)
               (unat (cs_associativity s)) (nru_pointer (cs_policy s));
        let s = s\<lparr>cs_policy := (cs_policy s)\<lparr>nru_pointer := advance (cs_associativity s) q\<rparr>\<rparr>;
        (p, e) \<leftarrow> CacheSetNRU_updateReplacementIndex (unat q) s e;
        Some (unat q, p, e) }))"

definition nru_inv :: "CacheSetNRU cache_set \<Rightarrow> repl_env \<Rightarrow> bool" where
  "nru_inv s e \<longleftrightarrow> length (nru_bits (cs_policy s)) = unat (cs_associativity s) \<and> unat (cs_associativity s) \<le> 256
     \<and> unat (nru_pointer (cs_policy s)) < unat (cs_associativity s)"

lemma nru_update_inv:
  "nru_inv s e \<Longrightarrow> CacheSetNRU_updateReplacementIndex i s e = Some (p, e') \<Longrightarrow> nru_inv (s\<lparr>cs_policy := p\<rparr>) e' \<and> nru_pointer p = nru_pointer (cs_policy s) \<and> e' = e"
  by (auto simp: nru_inv_def CacheSetNRU_updateReplacementIndex_def Let_def)

interpretation nru: fills_invalid CacheSetNRU_getReplacementIndex CacheSetNRU_updateReplacementIndex nru_inv replaceable
proof unfold_locales
  show "nru_inv s e \<Longrightarrow> cs_policy s' = cs_policy s \<Longrightarrow> cs_associativity s' = cs_associativity s \<Longrightarrow> env_shape e' = env_shape e \<Longrightarrow> nru_inv s' e'" for s s' e e'
    by (simp add: nru_inv_def si_ok_def)
  show "nru_inv (s\<lparr>cs_policy := p\<rparr>) e' \<and> env_shape e' = env_shape e"
    if "nru_inv s e" "CacheSetNRU_updateReplacementIndex i s e = Some (p, e')" for s e i p e'
    using nru_update_inv [OF that] by auto
  show "i < length (cs_blocks s) \<and> nru_inv (s\<lparr>cs_policy := p\<rparr>) e' \<and> env_shape e' = env_shape e"
    if h: "set_wf t s" "nru_inv s e" "CacheSetNRU_getReplacementIndex s e = Some (i, p, e')" for t s e i p e'
  proof (cases "first_invalid s")
    case None
    define z where "z = list_ex (\<lambda>i. nru_bits (cs_policy s) ! i = 0 \<and> isValidReplacement s i) [0..<unat (cs_associativity s)]"
    from None h(3) obtain q where q: "cyc_find (cs_associativity s) (\<lambda>i. (nru_bits (cs_policy s) ! i = 0 \<or> \<not> z) \<and> isValidReplacement s i)
               (unat (cs_associativity s)) (nru_pointer (cs_policy s)) = Some q" and i: "i = unat q"
      and u: "CacheSetNRU_updateReplacementIndex i (s\<lparr>cs_policy := (cs_policy s)\<lparr>nru_pointer := advance (cs_associativity s) q\<rparr>\<rparr>) e = Some (p, e')"
      by (auto simp: CacheSetNRU_getReplacementIndex_def z_def Let_def split: bind_splits)
    have a: "unat (nru_pointer (cs_policy s)) < unat (cs_associativity s)" "unat (cs_associativity s) \<le> 256"
      using h(2) by (auto simp: nru_inv_def)
    have l: "unat q < unat (cs_associativity s)" using cyc_find_Some [OF q a] by simp
    have "nru_inv (s\<lparr>cs_policy := (cs_policy s)\<lparr>nru_pointer := advance (cs_associativity s) q\<rparr>\<rparr>) e"
      using h(2) l a by (auto simp: nru_inv_def advance_unat)
    then show ?thesis using nru_update_inv [OF _ u] l h(1) by (auto simp: i set_wf_def)
  next
    case (Some j)
    then show ?thesis using h first_invalid_Some [OF Some] nru_update_inv [OF h(2), of j p e']
      by (auto simp: CacheSetNRU_getReplacementIndex_def set_wf_def split: bind_splits)
  qed
  show "\<exists>r. CacheSetNRU_getReplacementIndex s e = Some r" if h: "set_wf t s" "nru_inv s e" "replaceable s e" for t s e
  proof (cases "first_invalid s")
    case None
    define z where "z = list_ex (\<lambda>i. nru_bits (cs_policy s) ! i = 0 \<and> isValidReplacement s i) [0..<unat (cs_associativity s)]"
    from None obtain i where "i < unat (cs_associativity s)" "isValidReplacement s i"
      using h(3) first_invalid_None [of s] by (auto simp: replaceable_def)
    then have "\<exists>j < unat (cs_associativity s). (nru_bits (cs_policy s) ! j = 0 \<or> \<not> z) \<and> isValidReplacement s j"
      by (cases z) (auto simp: z_def list_ex_iff)
    then obtain q where "cyc_find (cs_associativity s) (\<lambda>i. (nru_bits (cs_policy s) ! i = 0 \<or> \<not> z) \<and> isValidReplacement s i)
               (unat (cs_associativity s)) (nru_pointer (cs_policy s)) = Some q"
      using cyc_find_total [where P = "\<lambda>i. (nru_bits (cs_policy s) ! i = 0 \<or> \<not> z) \<and> isValidReplacement s i"] h(2)
      unfolding nru_inv_def by blast
    then show ?thesis using None by (simp add: CacheSetNRU_getReplacementIndex_def CacheSetNRU_updateReplacementIndex_def z_def Let_def)
  qed (simp add: CacheSetNRU_getReplacementIndex_def CacheSetNRU_updateReplacementIndex_def Let_def)
  show "\<not> isValid (binfo (cs_blocks s ! i))"
    if "set_wf t s" "j < length (cs_blocks s)" "\<not> isValid (binfo (cs_blocks s ! j))"
      "CacheSetNRU_getReplacementIndex s e = Some (i, p, e')" for t s e i p e' j
    using that first_invalid_None [of s] first_invalid_Some [of s]
    by (cases "first_invalid s") (auto simp: set_wf_def CacheSetNRU_getReplacementIndex_def split: bind_splits)
qed

section \<open>Tree of bits\<close>

type_synonym CacheSetPLRU = "u8 list"

definition CacheSetPLRU_new :: "u32 \<Rightarrow> CacheSetPLRU option" where
  "CacheSetPLRU_new associativity = (if associativity = 4 \<or> associativity = 8 then Some (replicate 8 0) else None)"

definition plru_update :: "u32 \<Rightarrow> nat \<Rightarrow> u8 list \<Rightarrow> u8 list option" where
  "plru_update associativity accessed_index b =
     (if associativity = 4 then Some
        (if accessed_index = 0 then b[0 := 1, 1 := 1]
         else if accessed_index = 1 then b[0 := 1, 1 := 0]
         else if accessed_index = 2 then b[0 := 0, 2 := 1]
         else if accessed_index = 3 then b[0 := 0, 2 := 0] else b)
      else if associativity = 8 then Some
        (if accessed_index = 0 then b[0 := 1, 1 := 1, 2 := 1]
         else if accessed_index = 1 then b[0 := 1, 1 := 1, 2 := 0]
         else if accessed_index = 2 then b[0 := 1, 1 := 0, 3 := 1]
         else if accessed_index = 3 then b[0 := 1, 1 := 0, 3 := 0]
         else if accessed_index = 4 then b[0 := 0, 4 := 1, 5 := 1]
         else if accessed_index = 5 then b[0 := 0, 4 := 1, 5 := 0]
         else if accessed_index = 6 then b[0 := 0, 4 := 0, 6 := 1]
         else if accessed_index = 7 then b[0 := 0, 4 := 0, 6 := 0] else b)
      else None)"

definition CacheSetPLRU_updateReplacementIndex :: "CacheSetPLRU update_index" where
  "CacheSetPLRU_updateReplacementIndex accessed_index s e =
     plru_update (cs_associativity s) accessed_index (cs_policy s) \<bind> (\<lambda>b. Some (b, e))"

definition plru_victim :: "u32 \<Rightarrow> u8 list \<Rightarrow> nat option" where
  "plru_victim associativity b =
     (if associativity = 4 then Some
        (if b ! 0 = 0 then (if b ! 1 = 0 then 0 else 1) else (if b ! 2 = 0 then 2 else 3))
      else if associativity = 8 then Some
        (if b ! 0 = 0
         then (if b ! 1 = 0 then (if b ! 2 = 0 then 0 else 1) else (if b ! 3 = 0 then 2 else 3))
         else (if b ! 4 = 0 then (if b ! 5 = 0 then 4 else 5) else (if b ! 6 = 0 then 6 else 7)))
      else None)"

definition CacheSetPLRU_getReplacementIndex :: "CacheSetPLRU get_index" where
  "CacheSetPLRU_getReplacementIndex s e = (case first_invalid s of
      Some i \<Rightarrow> do { (p, e) \<leftarrow> CacheSetPLRU_updateReplacementIndex i s e; Some (i, p, e) }
    | None \<Rightarrow> do {
        retValue \<leftarrow> plru_victim (cs_associativity s) (cs_policy s);
        (if isValidReplacement s retValue then Some () else None);
        (p, e) \<leftarrow> CacheSetPLRU_updateReplacementIndex retValue s e;
        Some (retValue, p, e) })"

definition plru_inv :: "CacheSetPLRU cache_set \<Rightarrow> repl_env \<Rightarrow> bool" where
  "plru_inv s e \<longleftrightarrow> (cs_associativity s = 4 \<or> cs_associativity s = 8) \<and> length (cs_policy s) = 8"

definition plru_ready :: "CacheSetPLRU cache_set \<Rightarrow> repl_env \<Rightarrow> bool" where
  "plru_ready s e \<longleftrightarrow> (\<exists>i < unat (cs_associativity s). \<not> isValid (binfo (cs_blocks s ! i)))
     \<or> (\<forall>i < unat (cs_associativity s). isValidReplacement s i)"

lemma plru_victim_less: "plru_victim a b = Some i \<Longrightarrow> i < unat a"
  by (auto simp: plru_victim_def split: if_splits)

lemma plru_total: "a = 4 \<or> a = 8 \<Longrightarrow> \<exists>v. plru_victim a b = Some v" "a = 4 \<or> a = 8 \<Longrightarrow> \<exists>b'. plru_update a i b = Some b'"
  by (auto simp: plru_victim_def plru_update_def)

lemma plru_update_length: "plru_update a i b = Some b' \<Longrightarrow> length b' = length b"
  by (auto simp: plru_update_def split: if_splits)

text \<open>After an access the tree points away from the accessed way.\<close>

lemma plru_victim_not_accessed:
  assumes "length b = 8" and "i < unat a" and "plru_update a i b = Some b'" and "plru_victim a b' = Some v"
  shows "v \<noteq> i"
proof -
  consider "a = 4" | "a \<noteq> 4" "a = 8" using assms(3) by (auto simp: plru_update_def split: if_splits)
  then show ?thesis
  proof cases
    case 1
    then consider "i = 0" | "i = 1" | "i = 2" | "i = 3" using assms(2) by fastforce
    then show ?thesis by cases (use assms(1,3,4) 1 in \<open>auto simp: plru_update_def plru_victim_def split: if_splits\<close>)
  next
    case 2
    then consider "i = 0" | "i = 1" | "i = 2" | "i = 3" | "i = 4" | "i = 5" | "i = 6" | "i = 7" using assms(2) by fastforce
    then show ?thesis by cases (use assms(1,3,4) 2 in \<open>auto simp: plru_update_def plru_victim_def split: if_splits\<close>)
  qed
qed

lemma plru_update_inv:
  "plru_inv s e \<Longrightarrow> CacheSetPLRU_updateReplacementIndex i s e = Some (p, e') \<Longrightarrow> plru_inv (s\<lparr>cs_policy := p\<rparr>) e' \<and> env_shape e' = env_shape e"
  by (auto simp: plru_inv_def CacheSetPLRU_updateReplacementIndex_def dest: plru_update_length split: bind_splits)

interpretation plru: fills_invalid CacheSetPLRU_getReplacementIndex CacheSetPLRU_updateReplacementIndex plru_inv plru_ready
proof unfold_locales
  show "plru_inv s e \<Longrightarrow> cs_policy s' = cs_policy s \<Longrightarrow> cs_associativity s' = cs_associativity s \<Longrightarrow> env_shape e' = env_shape e \<Longrightarrow> plru_inv s' e'" for s s' e e'
    by (simp add: plru_inv_def si_ok_def)
  show "plru_inv (s\<lparr>cs_policy := p\<rparr>) e' \<and> env_shape e' = env_shape e"
    if "plru_inv s e" "CacheSetPLRU_updateReplacementIndex i s e = Some (p, e')" for s e i p e'
    by (rule plru_update_inv [OF that])
  show "i < length (cs_blocks s) \<and> plru_inv (s\<lparr>cs_policy := p\<rparr>) e' \<and> env_shape e' = env_shape e"
    if h: "set_wf t s" "plru_inv s e" "CacheSetPLRU_getReplacementIndex s e = Some (i, p, e')" for t s e i p e'
  proof -
    have "i < unat (cs_associativity s)" "CacheSetPLRU_updateReplacementIndex i s e = Some (p, e')"
      using h(3) first_invalid_Some [of s i] plru_victim_less
      by (auto simp: CacheSetPLRU_getReplacementIndex_def split: option.splits bind_splits if_splits)
    then show ?thesis using plru_update_inv [OF h(2)] h(1) by (auto simp: set_wf_def)
  qed
  show "\<exists>r. CacheSetPLRU_getReplacementIndex s e = Some r" if h: "set_wf t s" "plru_inv s e" "plru_ready s e" for t s e
  proof -
    have a: "cs_associativity s = 4 \<or> cs_associativity s = 8" using h(2) by (simp add: plru_inv_def)
    have u: "\<exists>r. CacheSetPLRU_updateReplacementIndex i s e = Some r" for i
      using plru_total(2) [OF a, of i "cs_policy s"] by (auto simp: CacheSetPLRU_updateReplacementIndex_def)
    show ?thesis
    proof (cases "first_invalid s")
      case None
      obtain v where v: "plru_victim (cs_associativity s) (cs_policy s) = Some v" using plru_total(1) [OF a] by blast
      have "isValidReplacement s v" using None h(3) plru_victim_less [OF v] first_invalid_None [of s] by (auto simp: plru_ready_def)
      then show ?thesis using None v u [of v] by (auto simp: CacheSetPLRU_getReplacementIndex_def)
    next
      case (Some j)
      then show ?thesis using u [of j] by (auto simp: CacheSetPLRU_getReplacementIndex_def)
    qed
  qed
  show "\<not> isValid (binfo (cs_blocks s ! i))"
    if "set_wf t s" "j < length (cs_blocks s)" "\<not> isValid (binfo (cs_blocks s ! j))"
      "CacheSetPLRU_getReplacementIndex s e = Some (i, p, e')" for t s e i p e' j
    using that first_invalid_None [of s] first_invalid_Some [of s]
    by (cases "first_invalid s") (auto simp: set_wf_def CacheSetPLRU_getReplacementIndex_def split: bind_splits)
qed


section \<open>Random\<close>

type_synonym CacheSetRandom = u32

text \<open>\<^verbatim>\<open>m_rand.next()\<close> has the default limit 32768. A rejected line makes the method call itself again.\<close>

partial_function (option) random_victim :: "CacheSetRandom cache_set \<Rightarrow> u32 \<Rightarrow> (nat \<times> u32) option" where
  "random_victim s seed = (case first_invalid s of
      Some i \<Rightarrow> Some (i, seed)
    | None \<Rightarrow> Option.bind (Random_next seed 32768) (\<lambda>(seed, v).
        Option.bind (umod v (cs_associativity s)) (\<lambda>index.
        if isValidReplacement s (unat index) then Some (unat index, seed) else random_victim s seed)))"

definition CacheSetRandom_getReplacementIndex :: "CacheSetRandom get_index" where
  "CacheSetRandom_getReplacementIndex s e = random_victim s (cs_policy s) \<bind> (\<lambda>(i, seed). Some (i, seed, e))"

definition CacheSetRandom_updateReplacementIndex :: "CacheSetRandom update_index" where
  "CacheSetRandom_updateReplacementIndex accessed_index s e = Some (cs_policy s, e)"

text \<open>The way drawn for a seed.\<close>

definition random_way :: "'p cache_set \<Rightarrow> u32 \<Rightarrow> nat" where
  "random_way s seed = unat (seed div 65536 mod 32768 mod cs_associativity s)"

lemma random_victim_unfold:
  assumes "first_invalid s = None" and "cs_associativity s \<noteq> 0"
  shows "random_victim s seed = (let seed' = Random_seed_next seed in
    if isValidReplacement s (random_way s seed') then Some (random_way s seed', seed') else random_victim s seed')"
  using assms by (subst random_victim.simps) (simp add: Random_next_def random_way_def Let_def)

lemma random_way_less: "cs_associativity s \<noteq> 0 \<Longrightarrow> random_way s seed < unat (cs_associativity s)"
  by (simp add: random_way_def unat_mod unat_gt_0)

lemma random_victim_sound_pair:
  assumes "random_victim s seed = Some r"
  shows "cs_associativity s \<noteq> 0 \<longrightarrow> fst r < unat (cs_associativity s)
    \<and> (if first_invalid s = None then isValidReplacement s (fst r) else first_invalid s = Some (fst r))"
proof (rule random_victim.raw_induct [where P = "\<lambda>s seed r. cs_associativity s \<noteq> 0 \<longrightarrow> fst r < unat (cs_associativity s)
    \<and> (if first_invalid s = None then isValidReplacement s (fst r) else first_invalid s = Some (fst r))", OF _ assms])
  fix f s seed r
  assume ih: "\<And>s seed r. f s seed = Some r \<Longrightarrow> cs_associativity s \<noteq> 0 \<longrightarrow> fst r < unat (cs_associativity s)
      \<and> (if first_invalid s = None then isValidReplacement s (fst r) else first_invalid s = Some (fst r))"
    and r: "(case first_invalid s of None \<Rightarrow> Random_next seed 32768 \<bind> (\<lambda>(seed, v). umod v (cs_associativity s) \<bind>
        (\<lambda>index. if isValidReplacement s (unat index) then Some (unat index, seed) else f s seed)) | Some i \<Rightarrow> Some (i, seed)) = Some r"
  show "cs_associativity s \<noteq> 0 \<longrightarrow> fst r < unat (cs_associativity s)
      \<and> (if first_invalid s = None then isValidReplacement s (fst r) else first_invalid s = Some (fst r))"
  proof
    assume nz: "cs_associativity s \<noteq> 0"
    have w: "unat (v mod cs_associativity s) < unat (cs_associativity s)" for v
      using nz by (simp add: unat_mod unat_gt_0)
    show "fst r < unat (cs_associativity s)
      \<and> (if first_invalid s = None then isValidReplacement s (fst r) else first_invalid s = Some (fst r))"
    proof (cases "first_invalid s")
      case None
      then obtain seed' v where n: "Random_next seed 32768 = Some (seed', v)" using r by (auto split: bind_splits)
      show ?thesis
      proof (cases "isValidReplacement s (unat (v mod cs_associativity s))")
        case True
        then show ?thesis using None n r nz w [of v] by auto
      next
        case False
        then have "f s seed' = Some r" using None n r nz by simp
        from ih [OF this] show ?thesis using nz by simp
      qed
    next
      case (Some i)
      then show ?thesis using r first_invalid_Some [OF Some] by auto
    qed
  qed
qed

lemmas random_victim_sound = random_victim_sound_pair [where r = "(i, seed')" for i seed', THEN mp, unfolded fst_conv]

text \<open>If the \<open>n\<close>-th seed from here draws a line that may be replaced, the search ends.\<close>

lemma random_victim_ends:
  assumes "first_invalid s = None" and "cs_associativity s \<noteq> 0"
  shows "isValidReplacement s (random_way s ((Random_seed_next ^^ Suc n) seed)) \<Longrightarrow> \<exists>r. random_victim s seed = Some r"
proof (induction n arbitrary: seed)
  case 0
  then show ?case by (subst random_victim_unfold [OF assms]) (simp add: Let_def)
next
  case (Suc n)
  have "\<exists>r. random_victim s (Random_seed_next seed) = Some r"
    using Suc.prems by (intro Suc.IH) (simp only: funpow_Suc_right comp_apply)
  then show ?case by (subst random_victim_unfold [OF assms]) (auto simp: Let_def)
qed

definition random_inv :: "CacheSetRandom cache_set \<Rightarrow> repl_env \<Rightarrow> bool" where
  "random_inv s e \<longleftrightarrow> unat (cs_associativity s) \<le> 32768"

lemma random_total:
  assumes "0 < unat (cs_associativity s)" and "unat (cs_associativity s) \<le> 32768" and "replaceable s e"
  shows "\<exists>r. random_victim s seed = Some r"
proof (cases "first_invalid s")
  case None
  have nz: "cs_associativity s \<noteq> 0" using assms(1) by auto
  from None obtain i where i: "i < unat (cs_associativity s)" "isValidReplacement s i"
    using assms(3) first_invalid_None [of s] by (auto simp: replaceable_def)
  define t :: u32 where "t = of_nat (i * 65536)"
  have "i * 65536 < 2 ^ 32" using i(1) assms(2) by simp
  then have "take_bit 32 (i * 65536) = i * 65536" by (rule take_bit_nat_eq_self)
  then have ut: "unat t = i * 65536" unfolding t_def unsigned_of_nat by (simp del: of_nat_mult)
  have "random_way s t = i" using i(1) assms(2) by (simp add: random_way_def unat_mod unat_div ut)
  moreover obtain n where "(Random_seed_next ^^ n) (Random_seed_next seed) = t" using Random_full_period by blast
  then have "(Random_seed_next ^^ Suc n) seed = t" by (simp only: funpow_Suc_right comp_apply)
  ultimately show ?thesis using random_victim_ends [OF None nz] i(2) by metis
next
  case (Some i)
  then show ?thesis by (subst random_victim.simps) simp
qed

interpretation random: fills_invalid CacheSetRandom_getReplacementIndex CacheSetRandom_updateReplacementIndex random_inv replaceable
proof unfold_locales
  show "random_inv s e \<Longrightarrow> cs_policy s' = cs_policy s \<Longrightarrow> cs_associativity s' = cs_associativity s \<Longrightarrow> env_shape e' = env_shape e \<Longrightarrow> random_inv s' e'" for s s' e e'
    by (simp add: random_inv_def si_ok_def)
  show "random_inv (s\<lparr>cs_policy := p\<rparr>) e' \<and> env_shape e' = env_shape e"
    if "random_inv s e" "CacheSetRandom_updateReplacementIndex i s e = Some (p, e')" for s e i p e'
    using that by (auto simp: random_inv_def CacheSetRandom_updateReplacementIndex_def)
  have nz: "set_wf t s \<Longrightarrow> cs_associativity s \<noteq> 0" for t and s :: "CacheSetRandom cache_set" by (auto simp: set_wf_def)
  show "i < length (cs_blocks s) \<and> random_inv (s\<lparr>cs_policy := p\<rparr>) e' \<and> env_shape e' = env_shape e"
    if h: "set_wf t s" "random_inv s e" "CacheSetRandom_getReplacementIndex s e = Some (i, p, e')" for t s e i p e'
    using h random_victim_sound [OF _ nz [OF h(1)], of "cs_policy s" i p]
    by (auto simp: CacheSetRandom_getReplacementIndex_def random_inv_def set_wf_def split: bind_splits)
  show "\<exists>r. CacheSetRandom_getReplacementIndex s e = Some r" if h: "set_wf t s" "random_inv s e" "replaceable s e" for t s e
    using random_total [of s e "cs_policy s"] h by (auto simp: CacheSetRandom_getReplacementIndex_def set_wf_def random_inv_def)
  show "\<not> isValid (binfo (cs_blocks s ! i))"
    if h: "set_wf t s" "j < length (cs_blocks s)" "\<not> isValid (binfo (cs_blocks s ! j))"
      "CacheSetRandom_getReplacementIndex s e = Some (i, p, e')" for t s e i p e' j
    using h random_victim_sound [OF _ nz [OF h(1)], of "cs_policy s" i p] first_invalid_None [of s] first_invalid_Some [of s i]
    by (auto simp: CacheSetRandom_getReplacementIndex_def set_wf_def split: bind_splits if_splits)
qed


section \<open>Round robin\<close>

type_synonym CacheSetRoundRobin = u32

definition CacheSetRoundRobin_new :: "u32 \<Rightarrow> CacheSetRoundRobin" where
  "CacheSetRoundRobin_new associativity = associativity - 1"

definition rr_prev :: "u32 \<Rightarrow> u32 \<Rightarrow> u32" where
  "rr_prev associativity i = (if i = 0 then associativity - 1 else i - 1)"

partial_function (option) rr_victim :: "CacheSetRoundRobin cache_set \<Rightarrow> u32 \<Rightarrow> (nat \<times> u32) option" where
  "rr_victim s replacement_index =
     (let curr_replacement_index = replacement_index; replacement_index = rr_prev (cs_associativity s) replacement_index
      in if \<not> isValidReplacement s (unat replacement_index) then rr_victim s replacement_index
         else Some (unat curr_replacement_index, replacement_index))"

definition CacheSetRoundRobin_getReplacementIndex :: "CacheSetRoundRobin get_index" where
  "CacheSetRoundRobin_getReplacementIndex s e = rr_victim s (cs_policy s) \<bind> (\<lambda>(i, n). Some (i, n, e))"

definition CacheSetRoundRobin_updateReplacementIndex :: "CacheSetRoundRobin update_index" where
  "CacheSetRoundRobin_updateReplacementIndex accessed_index s e = Some (cs_policy s, e)"

definition rr_inv :: "CacheSetRoundRobin cache_set \<Rightarrow> repl_env \<Rightarrow> bool" where
  "rr_inv s e \<longleftrightarrow> unat (cs_policy s) < unat (cs_associativity s)"

definition rr_ready :: "CacheSetRoundRobin cache_set \<Rightarrow> repl_env \<Rightarrow> bool" where
  "rr_ready s e \<longleftrightarrow> (\<exists>i < unat (cs_associativity s). isValidReplacement s i)"

lemma rr_prev_less:
  assumes "unat i < unat a"
  shows "unat (rr_prev a i) < unat a" and "unat (rr_prev a i) = (if unat i = 0 then unat a - 1 else unat i - 1)"
proof -
  have "a \<noteq> 0" using assms by (intro notI) simp
  then have "unat (a - 1) = unat a - 1" by (rule unat_minus_one)
  moreover have "i \<noteq> 0 \<Longrightarrow> unat (i - 1) = unat i - 1" by (rule unat_minus_one)
  ultimately show "unat (rr_prev a i) < unat a" and "unat (rr_prev a i) = (if unat i = 0 then unat a - 1 else unat i - 1)"
    using assms by (auto simp: rr_prev_def unat_eq_zero)
qed

text \<open>The way returned is the one whose predecessor in the round may be replaced.\<close>

lemma rr_victim_sound:
  assumes "rr_victim s k = Some r"
  shows "unat k < unat (cs_associativity s) \<longrightarrow>
    fst r < unat (cs_associativity s) \<and> unat (snd r) < unat (cs_associativity s) \<and> isValidReplacement s (unat (snd r))
    \<and> snd r = rr_prev (cs_associativity s) (of_nat (fst r))"
proof (rule rr_victim.raw_induct [where P = "\<lambda>s k r. unat k < unat (cs_associativity s) \<longrightarrow>
    fst r < unat (cs_associativity s) \<and> unat (snd r) < unat (cs_associativity s) \<and> isValidReplacement s (unat (snd r))
    \<and> snd r = rr_prev (cs_associativity s) (of_nat (fst r))", OF _ assms])
  fix f s k r
  let ?P = "\<lambda>s k r. unat k < unat (cs_associativity s) \<longrightarrow>
    fst r < unat (cs_associativity s) \<and> unat (snd r) < unat (cs_associativity s) \<and> isValidReplacement s (unat (snd r))
    \<and> snd r = rr_prev (cs_associativity s) (of_nat (fst r))"
  assume ih: "\<And>s k r. f s k = Some r \<Longrightarrow> ?P s k r"
    and r: "(let curr = k; k = rr_prev (cs_associativity s) k
      in if \<not> isValidReplacement s (unat k) then f s k else Some (unat curr, k)) = Some r"
  show "?P s k r"
  proof
    assume k: "unat k < unat (cs_associativity s)"
    show "fst r < unat (cs_associativity s) \<and> unat (snd r) < unat (cs_associativity s) \<and> isValidReplacement s (unat (snd r))
      \<and> snd r = rr_prev (cs_associativity s) (of_nat (fst r))"
    proof (cases "isValidReplacement s (unat (rr_prev (cs_associativity s) k))")
      case True
      then show ?thesis using r k rr_prev_less(1) [OF k] by (auto simp: Let_def)
    next
      case False
      then have "f s (rr_prev (cs_associativity s) k) = Some r" using r by (simp add: Let_def)
      from ih [OF this] rr_prev_less(1) [OF k] show ?thesis by blast
    qed
  qed
qed

text \<open>Going down from the pointer reaches every way: the search ends when some line may be replaced.\<close>

lemma rr_total_from:
  assumes "unat k < unat (cs_associativity s)" and "i < unat (cs_associativity s)" and "isValidReplacement s i"
  shows "\<exists>r. rr_victim s k = Some r"
  using assms(1)
proof (induction "if i < unat k then unat k - Suc i else unat k + unat (cs_associativity s) - Suc i" arbitrary: k rule: less_induct)
  case less
  let ?n = "unat (cs_associativity s)" and ?p = "rr_prev (cs_associativity s) k"
  show ?case
  proof (cases "isValidReplacement s (unat ?p)")
    case True
    then show ?thesis by (subst rr_victim.simps) (simp add: Let_def)
  next
    case False
    then have ne: "unat ?p \<noteq> i" using assms(3) by auto
    note p = rr_prev_less [OF less.prems]
    have "(if i < unat ?p then unat ?p - Suc i else unat ?p + ?n - Suc i) < (if i < unat k then unat k - Suc i else unat k + ?n - Suc i)"
      using p(2) ne assms(2) less.prems by auto
    then obtain r where "rr_victim s ?p = Some r" using less.hyps p(1) by blast
    then show ?thesis using False by (subst rr_victim.simps) (simp add: Let_def)
  qed
qed

interpretation rr: replacement_policy CacheSetRoundRobin_getReplacementIndex CacheSetRoundRobin_updateReplacementIndex rr_inv rr_ready
proof unfold_locales
  show "rr_inv s e \<Longrightarrow> cs_policy s' = cs_policy s \<Longrightarrow> cs_associativity s' = cs_associativity s \<Longrightarrow> env_shape e' = env_shape e \<Longrightarrow> rr_inv s' e'" for s s' e e'
    by (simp add: rr_inv_def si_ok_def)
  show "i < length (cs_blocks s) \<and> rr_inv (s\<lparr>cs_policy := p\<rparr>) e' \<and> env_shape e' = env_shape e"
    if h: "set_wf t s" "rr_inv s e" "CacheSetRoundRobin_getReplacementIndex s e = Some (i, p, e')" for t s e i p e'
    using h rr_victim_sound [of s "cs_policy s" "(i, p)"]
    by (auto simp: CacheSetRoundRobin_getReplacementIndex_def rr_inv_def set_wf_def split: bind_splits)
  show "\<exists>r. CacheSetRoundRobin_getReplacementIndex s e = Some r" if h: "set_wf t s" "rr_inv s e" "rr_ready s e" for t s e
  proof -
    obtain i where "i < unat (cs_associativity s)" "isValidReplacement s i" using h(3) by (auto simp: rr_ready_def)
    then obtain r where "rr_victim s (cs_policy s) = Some r" using rr_total_from h(2) unfolding rr_inv_def by blast
    then show ?thesis by (simp add: CacheSetRoundRobin_getReplacementIndex_def split: prod.splits)
  qed
  show "rr_inv (s\<lparr>cs_policy := p\<rparr>) e' \<and> env_shape e' = env_shape e"
    if "rr_inv s e" "CacheSetRoundRobin_updateReplacementIndex i s e = Some (p, e')" for s e i p e'
    using that by (auto simp: CacheSetRoundRobin_updateReplacementIndex_def rr_inv_def)
qed


section \<open>Static re-reference interval prediction\<close>

record CacheSetSRRIP =
  srrip_max :: u8
  srrip_insert :: u8
  srrip_num_attempts :: u8
  srrip_bits :: "u8 list"
  srrip_pointer :: u8

definition CacheSetSRRIP_new :: "u8 \<Rightarrow> u32 \<Rightarrow> u8 \<Rightarrow> CacheSetSRRIP option" where
  "CacheSetSRRIP_new numbits associativity num_attempts = (if unat numbits < 31
     then let m = (2 ^ unat numbits - 1 :: u8)
          in Some \<lparr>srrip_max = m, srrip_insert = m - 1, srrip_num_attempts = num_attempts,
               srrip_bits = replicate (unat associativity) (m - 1), srrip_pointer = 0\<rparr>
     else None)"

text \<open>
  The state of the search: predictions, pointer, number of rejections and environment. The inner loop
  either returns a way (\<open>Inl\<close>) or has looked at \<open>k\<close> pointer positions without result (\<open>Inr\<close>);
  after a rejection the pointer stays.
\<close>

type_synonym srrip_state = "u8 list \<times> u8 \<times> nat \<times> repl_env"

fun srrip_inner :: "CacheSetSRRIP cache_set \<Rightarrow> nat \<Rightarrow> srrip_state \<Rightarrow> (nat \<times> srrip_state + srrip_state) option" where
  "srrip_inner s 0 st = Some (Inr st)"
| "srrip_inner s (Suc k) (rrip, ptr, attempt, e) =
     (if rrip ! unat ptr \<ge> srrip_max (cs_policy s)
      then do {
        let index = unat ptr;
        qbs_reject \<leftarrow> (if attempt + 1 < unat (srrip_num_attempts (cs_policy s)) then qbs_query e (cs_blocks s ! index) else Some False);
        (if qbs_reject
         then srrip_inner s k (rrip[index := 0], ptr, attempt + 1, incrementQBSLookupCost e)
         else do {
           let ptr = advance (cs_associativity s) ptr;
           let rrip = rrip[index := srrip_insert (cs_policy s)];
           e \<leftarrow> on_set_info (si_incrementAttempt attempt) e;
           (if isValidReplacement s index then Some (Inl (index, rrip, ptr, attempt, e)) else None) }) }
      else srrip_inner s k (rrip, advance (cs_associativity s) ptr, attempt, e))"

text \<open>The counters that have not reached the maximum are incremented after every fruitless round.\<close>

definition srrip_age :: "u8 \<Rightarrow> u8 list \<Rightarrow> u8 list" where
  "srrip_age m rrip = map (\<lambda>b. if b < m then b + 1 else b) rrip"

fun srrip_outer :: "CacheSetSRRIP cache_set \<Rightarrow> nat \<Rightarrow> srrip_state \<Rightarrow> (nat \<times> srrip_state) option" where
  "srrip_outer s 0 st = None"
| "srrip_outer s (Suc j) st = (case srrip_inner s (unat (cs_associativity s)) st of
      None \<Rightarrow> None
    | Some (Inl r) \<Rightarrow> Some r
    | Some (Inr (rrip, ptr, attempt, e)) \<Rightarrow> srrip_outer s j (srrip_age (srrip_max (cs_policy s)) rrip, ptr, attempt, e))"

definition CacheSetSRRIP_getReplacementIndex :: "CacheSetSRRIP get_index" where
  "CacheSetSRRIP_getReplacementIndex s e = (let p = cs_policy s in case first_invalid s of
      Some i \<Rightarrow> Some (i, p\<lparr>srrip_bits := (srrip_bits p)[i := srrip_insert p]\<rparr>, e)
    | None \<Rightarrow> do {
        (index, rrip, ptr, attempt, e) \<leftarrow> srrip_outer s (unat (srrip_max p) + 1) (srrip_bits p, srrip_pointer p, 0, e);
        Some (index, p\<lparr>srrip_bits := rrip, srrip_pointer := ptr\<rparr>, e) })"

definition CacheSetSRRIP_updateReplacementIndex :: "CacheSetSRRIP update_index" where
  "CacheSetSRRIP_updateReplacementIndex accessed_index s e = do {
     let p = cs_policy s;
     e \<leftarrow> on_set_info (si_increment (unat (srrip_bits p ! accessed_index))) e;
     Some (if srrip_bits p ! accessed_index > 0
           then p\<lparr>srrip_bits := (srrip_bits p)[accessed_index := srrip_bits p ! accessed_index - 1]\<rparr> else p, e) }"

definition srrip_inv :: "CacheSetSRRIP cache_set \<Rightarrow> repl_env \<Rightarrow> bool" where
  "srrip_inv s e \<longleftrightarrow> (let p = cs_policy s; n = unat (cs_associativity s) in
     length (srrip_bits p) = n \<and> n \<le> 256 \<and> unat (srrip_pointer p) < n \<and> 0 < unat (srrip_num_attempts p)
     \<and> si_ok (cs_associativity s) (unat (srrip_num_attempts p)) e)"

definition srrip_ready :: "CacheSetSRRIP cache_set \<Rightarrow> repl_env \<Rightarrow> bool" where
  "srrip_ready s e \<longleftrightarrow> (\<exists>i < unat (cs_associativity s). \<not> isValid (binfo (cs_blocks s ! i)))
     \<or> (srrip_num_attempts (cs_policy s) = 1 \<and> (\<forall>i < unat (cs_associativity s). isValidReplacement s i))"

text \<open>What the search keeps, from one position of the pointer to the next.\<close>

definition srrip_st_ok :: "CacheSetSRRIP cache_set \<Rightarrow> srrip_state \<Rightarrow> bool" where
  "srrip_st_ok s st \<longleftrightarrow> (case st of (rrip, ptr, attempt, e) \<Rightarrow> length rrip = unat (cs_associativity s)
     \<and> unat ptr < unat (cs_associativity s) \<and> attempt < unat (srrip_num_attempts (cs_policy s))
     \<and> si_ok (cs_associativity s) (unat (srrip_num_attempts (cs_policy s))) e)"

lemma srrip_inner_sound:
  assumes "unat (cs_associativity s) \<le> 256" and "srrip_inner s k st = Some r" and "srrip_st_ok s st"
  shows "case r of Inl (i, st') \<Rightarrow> i < unat (cs_associativity s) \<and> srrip_st_ok s st' | Inr st' \<Rightarrow> srrip_st_ok s st'"
  using assms(2,3)
proof (induction k arbitrary: st)
  case (Suc k)
  obtain rrip ptr attempt e where st: "st = (rrip, ptr, attempt, e)" by (cases st)
  let ?a = "cs_associativity s" and ?num = "unat (srrip_num_attempts (cs_policy s))"
  have ok: "length rrip = unat ?a" "unat ptr < unat ?a" "attempt < ?num" "si_ok ?a ?num e"
    using Suc.prems(2) by (auto simp: srrip_st_ok_def st)
  have ad: "unat (advance ?a ptr) < unat ?a" using advance_unat [OF ok(2) assms(1)] ok(2) by simp
  obtain e1 where e1: "on_set_info (si_incrementAttempt attempt) e = Some e1" "si_ok ?a ?num e1"
    using si_ok_attempt [OF ok(4,3)] by blast
  show ?case
  proof (cases "rrip ! unat ptr \<ge> srrip_max (cs_policy s)")
    case True
    then obtain q where q: "(if attempt + 1 < ?num then qbs_query e (cs_blocks s ! unat ptr) else Some False) = Some q"
      using Suc.prems(1) by (auto simp: st Let_def split: bind_splits if_splits)
    show ?thesis
    proof (cases q)
      case True
      then have a: "attempt + 1 < ?num" using q by (auto split: if_splits)
      have "srrip_inner s k (rrip[unat ptr := 0], ptr, attempt + 1, incrementQBSLookupCost e) = Some r"
        using Suc.prems(1) \<open>rrip ! unat ptr \<ge> _\<close> q True by (simp add: st Let_def)
      from Suc.IH [OF this] show ?thesis using ok a by (simp add: srrip_st_ok_def)
    next
      case False
      then have "r = Inl (unat ptr, rrip[unat ptr := srrip_insert (cs_policy s)], advance ?a ptr, attempt, e1)"
        using Suc.prems(1) \<open>rrip ! unat ptr \<ge> _\<close> q e1 by (auto simp: st Let_def split: if_splits)
      then show ?thesis using ok ad e1 by (simp add: srrip_st_ok_def)
    qed
  next
    case False
    then have "srrip_inner s k (rrip, advance ?a ptr, attempt, e) = Some r" using Suc.prems(1) by (simp add: st)
    from Suc.IH [OF this] show ?thesis using ok ad by (simp add: srrip_st_ok_def)
  qed
qed auto

lemma srrip_outer_sound:
  assumes "unat (cs_associativity s) \<le> 256"
  shows "srrip_outer s j st = Some (i, st') \<Longrightarrow> srrip_st_ok s st \<Longrightarrow> i < unat (cs_associativity s) \<and> srrip_st_ok s st'"
proof (induction j arbitrary: st)
  case (Suc j)
  then obtain r where r: "srrip_inner s (unat (cs_associativity s)) st = Some r" by (auto split: option.splits)
  note ok = srrip_inner_sound [OF assms r Suc.prems(2)]
  show ?case
  proof (cases r)
    case (Inl x)
    then show ?thesis using ok Suc.prems(1) r by auto
  next
    case (Inr st1)
    obtain rrip ptr attempt e where st1: "st1 = (rrip, ptr, attempt, e)" by (cases st1)
    have "srrip_outer s j (srrip_age (srrip_max (cs_policy s)) rrip, ptr, attempt, e) = Some (i, st')"
      using Suc.prems(1) r Inr st1 by simp
    from Suc.IH [OF this] show ?thesis using ok Inr st1 by (simp add: srrip_st_ok_def srrip_age_def)
  qed
qed simp

text \<open>
  With a single attempt, a round over all ways finds one that has reached the maximum if there is one,
  and otherwise leaves the predictions and comes back to the same pointer.
\<close>

lemma srrip_inner_single:
  assumes "unat (cs_associativity s) \<le> 256" and "unat (srrip_num_attempts (cs_policy s)) = 1"
    and "\<forall>i < unat (cs_associativity s). isValidReplacement s i"
    and "srrip_st_ok s (rrip, ptr, 0, e)"
  shows "(\<exists>r. srrip_inner s k (rrip, ptr, 0, e) = Some (Inl r))
    \<or> (\<exists>ptr'. srrip_inner s k (rrip, ptr, 0, e) = Some (Inr (rrip, ptr', 0, e)) \<and> unat ptr' < unat (cs_associativity s)
         \<and> (\<forall>j < k. rrip ! ((unat ptr + j) mod unat (cs_associativity s)) < srrip_max (cs_policy s)))"
  using assms(4)
proof (induction k arbitrary: ptr)
  case 0
  then show ?case by (simp add: srrip_st_ok_def)
next
  case (Suc k)
  let ?a = "cs_associativity s"
  have ok: "unat ptr < unat ?a" "si_ok ?a 1 e" using Suc.prems assms(2) by (auto simp: srrip_st_ok_def)
  obtain e1 where e1: "on_set_info (si_incrementAttempt 0) e = Some e1" using si_ok_attempt [OF ok(2), of 0] by auto
  show ?case
  proof (cases "rrip ! unat ptr \<ge> srrip_max (cs_policy s)")
    case True
    then show ?thesis using assms(2,3) ok e1 by (simp add: Let_def)
  next
    case False
    note ad = advance_unat [OF ok(1) assms(1)]
    have st: "srrip_st_ok s (rrip, advance ?a ptr, 0, e)" using Suc.prems ok(1) ad by (simp add: srrip_st_ok_def)
    have step: "srrip_inner s (Suc k) (rrip, ptr, 0, e) = srrip_inner s k (rrip, advance ?a ptr, 0, e)" using False by simp
    have "rrip ! ((unat ptr + j) mod unat ?a) < srrip_max (cs_policy s)"
      if "\<forall>j < k. rrip ! ((unat (advance ?a ptr) + j) mod unat ?a) < srrip_max (cs_policy s)" "j < Suc k" for j
    proof (cases j)
      case 0
      then show ?thesis using False ok(1) by simp
    next
      case (Suc i)
      then show ?thesis using that ad by (simp add: mod_simps)
    qed
    then show ?thesis unfolding step using Suc.IH [OF st] by blast
  qed
qed

lemma srrip_outer_single:
  assumes "unat (cs_associativity s) \<le> 256" and "unat (srrip_num_attempts (cs_policy s)) = 1"
    and "\<forall>i < unat (cs_associativity s). isValidReplacement s i"
  shows "srrip_st_ok s (rrip, ptr, 0, e) \<Longrightarrow> unat (srrip_max (cs_policy s)) \<le> unat (rrip ! 0) + j
    \<Longrightarrow> \<exists>r. srrip_outer s (Suc j) (rrip, ptr, 0, e) = Some r"
proof (induction j arbitrary: rrip ptr)
  case (0 rrip ptr)
  let ?n = "unat (cs_associativity s)"
  have p: "unat ptr < ?n" using 0(1) by (simp add: srrip_st_ok_def)
  have "(?n - unat ptr) mod ?n < ?n" "(unat ptr + (?n - unat ptr) mod ?n) mod ?n = 0" using p by (simp_all add: mod_simps)
  moreover have "\<not> rrip ! 0 < srrip_max (cs_policy s)" using 0(2) by (simp add: word_less_nat_alt)
  ultimately have "\<not> (\<forall>j < ?n. rrip ! ((unat ptr + j) mod ?n) < srrip_max (cs_policy s))" by metis
  then show ?case using srrip_inner_single [OF assms 0(1), of ?n] by auto
next
  case (Suc j)
  let ?n = "unat (cs_associativity s)" and ?m = "srrip_max (cs_policy s)"
  from srrip_inner_single [OF assms Suc.prems(1), of ?n] show ?case
  proof (elim disjE exE conjE)
    fix r assume "srrip_inner s ?n (rrip, ptr, 0, e) = Some (Inl r)"
    then show ?thesis by (cases r) simp
  next
    fix ptr' assume r: "srrip_inner s ?n (rrip, ptr, 0, e) = Some (Inr (rrip, ptr', 0, e))" and p: "unat ptr' < ?n"
    have l: "length rrip = ?n" using Suc.prems(1) by (simp add: srrip_st_ok_def)
    have "0 < ?n" using p by simp
    then have a0: "srrip_age ?m rrip ! 0 = (if rrip ! 0 < ?m then rrip ! 0 + 1 else rrip ! 0)" using l by (simp add: srrip_age_def)
    have "unat (rrip ! 0 + 1) = unat (rrip ! 0) + 1" if "rrip ! 0 < ?m"
      using that unsigned_less [of ?m, where 'a=nat] by (subst unat_add_no_overflow) (auto simp: word_less_nat_alt)
    then have "unat ?m \<le> unat (srrip_age ?m rrip ! 0) + j" using Suc.prems(2) unfolding a0 by (auto simp: word_less_nat_alt)
    moreover have "srrip_st_ok s (srrip_age ?m rrip, ptr', 0, e)" using Suc.prems(1) p by (simp add: srrip_st_ok_def srrip_age_def)
    ultimately obtain x where "srrip_outer s (Suc j) (srrip_age ?m rrip, ptr', 0, e) = Some x" using Suc.IH by blast
    then show ?thesis using r by (cases x) (simp del: srrip_outer.simps add: srrip_outer.simps(2) [of s "Suc j"])
  qed
qed

interpretation srrip: fills_invalid CacheSetSRRIP_getReplacementIndex CacheSetSRRIP_updateReplacementIndex srrip_inv srrip_ready
proof unfold_locales
  show "srrip_inv s e \<Longrightarrow> cs_policy s' = cs_policy s \<Longrightarrow> cs_associativity s' = cs_associativity s \<Longrightarrow> env_shape e' = env_shape e \<Longrightarrow> srrip_inv s' e'" for s s' e e'
    by (simp add: srrip_inv_def si_ok_def)
  show "i < length (cs_blocks s) \<and> srrip_inv (s\<lparr>cs_policy := p\<rparr>) e' \<and> env_shape e' = env_shape e"
    if h: "set_wf t s" "srrip_inv s e" "CacheSetSRRIP_getReplacementIndex s e = Some (i, p, e')" for t s e i p e'
  proof (cases "first_invalid s")
    case None
    have st: "srrip_st_ok s (srrip_bits (cs_policy s), srrip_pointer (cs_policy s), 0, e)" and n: "unat (cs_associativity s) \<le> 256"
      using h(2) by (auto simp: srrip_inv_def srrip_st_ok_def Let_def)
    from None h(3) obtain rrip ptr attempt where o: "srrip_outer s (unat (srrip_max (cs_policy s)) + 1) (srrip_bits (cs_policy s), srrip_pointer (cs_policy s), 0, e) = Some (i, rrip, ptr, attempt, e')"
      and p: "p = (cs_policy s)\<lparr>srrip_bits := rrip, srrip_pointer := ptr\<rparr>"
      by (auto simp: CacheSetSRRIP_getReplacementIndex_def Let_def simp del: srrip_outer.simps split: bind_splits)
    show ?thesis using srrip_outer_sound [OF n o st] h(1,2) by (simp add: p srrip_st_ok_def srrip_inv_def Let_def set_wf_def si_ok_def)
  next
    case (Some j)
    then show ?thesis using h first_invalid_Some [OF Some]
      by (auto simp: CacheSetSRRIP_getReplacementIndex_def srrip_inv_def Let_def set_wf_def)
  qed
  show "\<exists>r. CacheSetSRRIP_getReplacementIndex s e = Some r" if h: "set_wf t s" "srrip_inv s e" "srrip_ready s e" for t s e
  proof (cases "first_invalid s")
    case None
    have v: "srrip_num_attempts (cs_policy s) = 1" "\<forall>i < unat (cs_associativity s). isValidReplacement s i"
      using h(3) None first_invalid_None [of s] by (auto simp: srrip_ready_def)
    have st: "srrip_st_ok s (srrip_bits (cs_policy s), srrip_pointer (cs_policy s), 0, e)" and n: "unat (cs_associativity s) \<le> 256"
      using h(2) by (auto simp: srrip_inv_def srrip_st_ok_def Let_def)
    obtain r where "srrip_outer s (unat (srrip_max (cs_policy s)) + 1) (srrip_bits (cs_policy s), srrip_pointer (cs_policy s), 0, e) = Some r"
      using srrip_outer_single [OF n _ v(2) st, of "unat (srrip_max (cs_policy s))"] v(1) by auto
    then show ?thesis using None by (auto simp: CacheSetSRRIP_getReplacementIndex_def Let_def simp del: srrip_outer.simps split: prod.splits)
  qed (simp add: CacheSetSRRIP_getReplacementIndex_def Let_def)
  show "srrip_inv (s\<lparr>cs_policy := p\<rparr>) e' \<and> env_shape e' = env_shape e"
    if h: "set_wf t s" "srrip_inv s e" "i < length (cs_blocks s)" "CacheSetSRRIP_updateReplacementIndex i s e = Some (p, e')" for t s e i p e'
  proof -
    let ?n = "unat (srrip_num_attempts (cs_policy s))"
    obtain e1 where o: "on_set_info (si_increment (unat (srrip_bits (cs_policy s) ! i))) e = Some e1"
      using h(4) by (auto simp: CacheSetSRRIP_updateReplacementIndex_def Let_def split: bind_splits)
    have k: "unat (srrip_bits (cs_policy s) ! i) < unat (cs_associativity s)"
      using o h(2) by (auto simp: on_set_info_def si_increment_def srrip_inv_def si_ok_alt Let_def split: bind_splits if_splits)
    have so: "si_ok (cs_associativity s) ?n e" using h(2) by (simp add: srrip_inv_def Let_def)
    obtain e2 where "on_set_info (si_increment (unat (srrip_bits (cs_policy s) ! i))) e = Some e2" "si_ok (cs_associativity s) ?n e2"
      using si_ok_increment [OF so k] by blast
    then have "si_ok (cs_associativity s) ?n e1" using o by simp
    then show ?thesis using h(2,4) o by (auto simp: CacheSetSRRIP_updateReplacementIndex_def srrip_inv_def Let_def si_ok_def split: if_splits)
  qed
  show "\<not> isValid (binfo (cs_blocks s ! i))"
    if "set_wf t s" "j < length (cs_blocks s)" "\<not> isValid (binfo (cs_blocks s ! j))"
      "CacheSetSRRIP_getReplacementIndex s e = Some (i, p, e')" for t s e i p e' j
    using that first_invalid_None [of s] first_invalid_Some [of s]
    by (cases "first_invalid s") (auto simp: set_wf_def CacheSetSRRIP_getReplacementIndex_def Let_def)
qed

end
