(* ===== verification/Sniper_Index.thy ===== *)
theory Sniper_Index
  imports Sniper_Policies
begin

text \<open>
  The dispatch over the replacement policies (\<^verbatim>\<open>CacheSet::createCacheSet\<close> and the two virtual methods) as
  an instance of their contract, and the splitting of addresses into tags and set indices
  (\<^verbatim>\<open>cache_base.cc\<close>) under the seven hash functions.
\<close>

section \<open>Sets of a configured policy\<close>

datatype ReplacementPolicy = ROUND_ROBIN | LRU | LRU_QBS | NRU | MRU | NMRU | PLRU | SRRIP | SRRIP_QBS | RANDOM

definition parsePolicyType :: "string \<Rightarrow> ReplacementPolicy option" where
  "parsePolicyType policy =
     (if policy = ''round_robin'' then Some ROUND_ROBIN
      else if policy = ''lru'' then Some LRU
      else if policy = ''lru_qbs'' then Some LRU_QBS
      else if policy = ''nru'' then Some NRU
      else if policy = ''mru'' then Some MRU
      else if policy = ''nmru'' then Some NMRU
      else if policy = ''plru'' then Some PLRU
      else if policy = ''srrip'' then Some SRRIP
      else if policy = ''srrip_qbs'' then Some SRRIP_QBS
      else if policy = ''random'' then Some RANDOM
      else None)"

datatype policy_state =
    P_RoundRobin CacheSetRoundRobin
  | P_LRU CacheSetLRU
  | P_NRU CacheSetNRU
  | P_MRU CacheSetMRU
  | P_NMRU CacheSetNMRU
  | P_PLRU CacheSetPLRU
  | P_SRRIP CacheSetSRRIP
  | P_Random CacheSetRandom

text \<open>
  The integers of the configuration are a function of the key (the values for the core at hand);
  \<open>seed\<close> is the time the random policy starts from.
\<close>

definition getNumQBSAttempts :: "ReplacementPolicy \<Rightarrow> (string \<Rightarrow> int) \<Rightarrow> string \<Rightarrow> u8" where
  "getNumQBSAttempts policy cfg cfgname =
     (if policy = LRU_QBS \<or> policy = SRRIP_QBS then word_of_int (cfg (cfgname @ ''/qbs/attempts'')) else 1)"

definition create_policy :: "(string \<Rightarrow> int) \<Rightarrow> u32 \<Rightarrow> string \<Rightarrow> ReplacementPolicy \<Rightarrow> u32 \<Rightarrow> policy_state option" where
  "create_policy cfg seed cfgname policy associativity = (case policy of
      ROUND_ROBIN \<Rightarrow> Some (P_RoundRobin (CacheSetRoundRobin_new associativity))
    | LRU \<Rightarrow> Some (P_LRU (CacheSetLRU_new associativity (getNumQBSAttempts policy cfg cfgname)))
    | LRU_QBS \<Rightarrow> Some (P_LRU (CacheSetLRU_new associativity (getNumQBSAttempts policy cfg cfgname)))
    | NRU \<Rightarrow> Some (P_NRU (CacheSetNRU_new associativity))
    | MRU \<Rightarrow> Some (P_MRU (CacheSetMRU_new associativity))
    | NMRU \<Rightarrow> Some (P_NMRU (CacheSetNMRU_new associativity))
    | PLRU \<Rightarrow> map_option P_PLRU (CacheSetPLRU_new associativity)
    | SRRIP \<Rightarrow> map_option P_SRRIP (CacheSetSRRIP_new (word_of_int (cfg (cfgname @ ''/srrip/bits''))) associativity (getNumQBSAttempts policy cfg cfgname))
    | SRRIP_QBS \<Rightarrow> map_option P_SRRIP (CacheSetSRRIP_new (word_of_int (cfg (cfgname @ ''/srrip/bits''))) associativity (getNumQBSAttempts policy cfg cfgname))
    | RANDOM \<Rightarrow> Some (P_Random seed))"

definition createCacheSet ::
  "(string \<Rightarrow> int) \<Rightarrow> u32 \<Rightarrow> bool \<Rightarrow> string \<Rightarrow> string \<Rightarrow> cache_t \<Rightarrow> u32 \<Rightarrow> u32 \<Rightarrow> policy_state cache_set option" where
  "createCacheSet cfg seed fault_injection cfgname policy_name cache_type associativity blocksize = do {
     policy \<leftarrow> parsePolicyType policy_name;
     p \<leftarrow> create_policy cfg seed cfgname policy associativity;
     Some (CacheSet_new cache_type associativity blocksize fault_injection p) }"

definition createCacheSetInfo :: "(string \<Rightarrow> int) \<Rightarrow> string \<Rightarrow> string \<Rightarrow> u32 \<Rightarrow> CacheSetInfoLRU option option" where
  "createCacheSetInfo cfg cfgname policy_name associativity = do {
     policy \<leftarrow> parsePolicyType policy_name;
     Some (if policy \<in> {LRU, LRU_QBS, SRRIP, SRRIP_QBS}
           then Some (CacheSetInfoLRU_new associativity (getNumQBSAttempts policy cfg cfgname)) else None) }"

text \<open>The virtual methods.\<close>

definition lift_get :: "('p \<Rightarrow> policy_state) \<Rightarrow> 'p get_index \<Rightarrow> 'p \<Rightarrow> policy_state get_index" where
  "lift_get C g p s e = g (with_policy p s) e \<bind> (\<lambda>(i, p, e). Some (i, C p, e))"

definition lift_upd :: "('p \<Rightarrow> policy_state) \<Rightarrow> 'p update_index \<Rightarrow> 'p \<Rightarrow> policy_state update_index" where
  "lift_upd C u p i s e = u i (with_policy p s) e \<bind> (\<lambda>(p, e). Some (C p, e))"

definition getReplacementIndex :: "policy_state get_index" where
  "getReplacementIndex s e = (case cs_policy s of
      P_RoundRobin p \<Rightarrow> lift_get P_RoundRobin CacheSetRoundRobin_getReplacementIndex p s e
    | P_LRU p \<Rightarrow> lift_get P_LRU CacheSetLRU_getReplacementIndex p s e
    | P_NRU p \<Rightarrow> lift_get P_NRU CacheSetNRU_getReplacementIndex p s e
    | P_MRU p \<Rightarrow> lift_get P_MRU CacheSetMRU_getReplacementIndex p s e
    | P_NMRU p \<Rightarrow> lift_get P_NMRU CacheSetNMRU_getReplacementIndex p s e
    | P_PLRU p \<Rightarrow> lift_get P_PLRU CacheSetPLRU_getReplacementIndex p s e
    | P_SRRIP p \<Rightarrow> lift_get P_SRRIP CacheSetSRRIP_getReplacementIndex p s e
    | P_Random p \<Rightarrow> lift_get P_Random CacheSetRandom_getReplacementIndex p s e)"

definition updateReplacementIndex :: "policy_state update_index" where
  "updateReplacementIndex i s e = (case cs_policy s of
      P_RoundRobin p \<Rightarrow> lift_upd P_RoundRobin CacheSetRoundRobin_updateReplacementIndex p i s e
    | P_LRU p \<Rightarrow> lift_upd P_LRU CacheSetLRU_updateReplacementIndex p i s e
    | P_NRU p \<Rightarrow> lift_upd P_NRU CacheSetNRU_updateReplacementIndex p i s e
    | P_MRU p \<Rightarrow> lift_upd P_MRU CacheSetMRU_updateReplacementIndex p i s e
    | P_NMRU p \<Rightarrow> lift_upd P_NMRU CacheSetNMRU_updateReplacementIndex p i s e
    | P_PLRU p \<Rightarrow> lift_upd P_PLRU CacheSetPLRU_updateReplacementIndex p i s e
    | P_SRRIP p \<Rightarrow> lift_upd P_SRRIP CacheSetSRRIP_updateReplacementIndex p i s e
    | P_Random p \<Rightarrow> lift_upd P_Random CacheSetRandom_updateReplacementIndex p i s e)"

fun policy_inv :: "policy_state \<Rightarrow> policy_state cache_set \<Rightarrow> repl_env \<Rightarrow> bool" where
  "policy_inv (P_RoundRobin p) s e = rr_inv (with_policy p s) e"
| "policy_inv (P_LRU p) s e = lru_inv (with_policy p s) e"
| "policy_inv (P_NRU p) s e = nru_inv (with_policy p s) e"
| "policy_inv (P_MRU p) s e = mru_inv (with_policy p s) e"
| "policy_inv (P_NMRU p) s e = nmru_inv (with_policy p s) e"
| "policy_inv (P_PLRU p) s e = plru_inv (with_policy p s) e"
| "policy_inv (P_SRRIP p) s e = srrip_inv (with_policy p s) e"
| "policy_inv (P_Random p) s e = random_inv (with_policy p s) e"

fun policy_ready :: "policy_state \<Rightarrow> policy_state cache_set \<Rightarrow> repl_env \<Rightarrow> bool" where
  "policy_ready (P_RoundRobin p) s e = rr_ready (with_policy p s) e"
| "policy_ready (P_LRU p) s e = lru_ready (with_policy p s) e"
| "policy_ready (P_NRU p) s e = replaceable (with_policy p s) e"
| "policy_ready (P_MRU p) s e = replaceable (with_policy p s) e"
| "policy_ready (P_NMRU p) s e = nmru_ready (with_policy p s) e"
| "policy_ready (P_PLRU p) s e = plru_ready (with_policy p s) e"
| "policy_ready (P_SRRIP p) s e = srrip_ready (with_policy p s) e"
| "policy_ready (P_Random p) s e = replaceable (with_policy p s) e"

definition set_inv :: "policy_state cache_set \<Rightarrow> repl_env \<Rightarrow> bool" where
  "set_inv s e \<longleftrightarrow> policy_inv (cs_policy s) s e"

definition set_ready :: "policy_state cache_set \<Rightarrow> repl_env \<Rightarrow> bool" where
  "set_ready s e \<longleftrightarrow> policy_ready (cs_policy s) s e"

lemma with_policy_update [simp]: "(with_policy p s)\<lparr>cs_policy := q\<rparr> = with_policy q s"
  by (simp add: with_policy_def)

lemma with_policy_ignores [simp]: "with_policy p (s\<lparr>cs_policy := q\<rparr>) = with_policy p s"
  by (simp add: with_policy_def)

context replacement_policy
begin

lemma lift_get_sound:
  assumes "set_wf t s" and "inv (with_policy p s) e" and "lift_get C get p s e = Some (i, q, e')"
  shows "i < length (cs_blocks s) \<and> (\<exists>p'. q = C p' \<and> inv (with_policy p' s) e') \<and> env_shape e' = env_shape e"
proof -
  from assms(3) obtain p' where g: "get (with_policy p s) e = Some (i, p', e')" and q: "q = C p'"
    by (auto simp: lift_get_def split: bind_splits)
  show ?thesis using get_sound [OF _ assms(2) g, of t] assms(1) q by auto
qed

lemma lift_get_total:
  assumes "set_wf t s" and "inv (with_policy p s) e" and "ready (with_policy p s) e"
  shows "lift_get C get p s e \<noteq> None"
proof -
  obtain r where "get (with_policy p s) e = Some r" using get_total [OF _ assms(2,3), of t] assms(1) by auto
  then show ?thesis by (cases r) (simp add: lift_get_def)
qed

lemma lift_upd_sound:
  assumes "set_wf t s" and "inv (with_policy p s) e" and "i < length (cs_blocks s)" and "lift_upd C upd p i s e = Some (q, e')"
  shows "(\<exists>p'. q = C p' \<and> inv (with_policy p' s) e') \<and> env_shape e' = env_shape e"
proof -
  from assms(4) obtain p' where u: "upd i (with_policy p s) e = Some (p', e')" and q: "q = C p'"
    by (auto simp: lift_upd_def split: bind_splits)
  show ?thesis using upd_sound [OF _ assms(2) _ u, of t] assms(1,3) q by auto
qed

lemma inv_with_policy:
  "inv (with_policy p s) e \<Longrightarrow> cs_associativity s' = cs_associativity s \<Longrightarrow> env_shape e' = env_shape e \<Longrightarrow> inv (with_policy p s') e'"
  by (erule inv_cong) simp_all

end

interpretation sets: replacement_policy getReplacementIndex updateReplacementIndex set_inv set_ready
proof unfold_locales
  show "set_inv s' e'" if "set_inv s e" "cs_policy s' = cs_policy s" "cs_associativity s' = cs_associativity s" "env_shape e' = env_shape e" for s s' e e'
    using that unfolding set_inv_def
    by (cases "cs_policy s") (auto intro: rr.inv_with_policy lru.inv_with_policy nru.inv_with_policy mru.inv_with_policy
        nmru.inv_with_policy plru.inv_with_policy srrip.inv_with_policy random.inv_with_policy)
  show "i < length (cs_blocks s) \<and> set_inv (s\<lparr>cs_policy := p\<rparr>) e' \<and> env_shape e' = env_shape e"
    if "set_wf t s" "set_inv s e" "getReplacementIndex s e = Some (i, p, e')" for t s e i p e'
    using that unfolding set_inv_def getReplacementIndex_def
    by (cases "cs_policy s") (auto dest: rr.lift_get_sound lru.lift_get_sound nru.lift_get_sound mru.lift_get_sound
        nmru.lift_get_sound plru.lift_get_sound srrip.lift_get_sound random.lift_get_sound)
  show "\<exists>r. getReplacementIndex s e = Some r" if "set_wf t s" "set_inv s e" "set_ready s e" for t s e
  proof -
    have "getReplacementIndex s e \<noteq> None" using that unfolding set_inv_def getReplacementIndex_def set_ready_def
      by (cases "cs_policy s") (simp_all only: policy_state.case policy_inv.simps policy_ready.simps, (rule rr.lift_get_total lru.lift_get_total
        nru.lift_get_total mru.lift_get_total nmru.lift_get_total plru.lift_get_total srrip.lift_get_total random.lift_get_total; assumption)+)
    then show ?thesis by blast
  qed
  show "set_inv (s\<lparr>cs_policy := p\<rparr>) e' \<and> env_shape e' = env_shape e"
    if "set_wf t s" "set_inv s e" "i < length (cs_blocks s)" "updateReplacementIndex i s e = Some (p, e')" for t s e i p e'
    using that unfolding set_inv_def updateReplacementIndex_def
    by (cases "cs_policy s") (auto dest: rr.lift_upd_sound lru.lift_upd_sound nru.lift_upd_sound mru.lift_upd_sound
        nmru.lift_upd_sound plru.lift_upd_sound srrip.lift_upd_sound random.lift_upd_sound)
qed


section \<open>Tags and set indices\<close>

datatype hash_t = HASH_MASK | HASH_MOD | HASH_RNG1_MOD | HASH_RNG2_MOD | HASH_PRIME_DIS | HASH_XOR_MOD | HASH_MER_MOD

definition parseAddressHash :: "string \<Rightarrow> hash_t option" where
  "parseAddressHash hash_name =
     (if hash_name = ''mask'' then Some HASH_MASK
      else if hash_name = ''mod'' then Some HASH_MOD
      else if hash_name = ''rng1_mod'' then Some HASH_RNG1_MOD
      else if hash_name = ''rng2_mod'' then Some HASH_RNG2_MOD
      else if hash_name = ''prime_dis'' then Some HASH_PRIME_DIS
      else if hash_name = ''xor_mod'' then Some HASH_XOR_MOD
      else if hash_name = ''mersenne_mod'' then Some HASH_MER_MOD
      else None)"

record CacheBase =
  cb_name :: string
  cb_cache_size :: u64
  cb_associativity :: u32
  cb_blocksize :: u32
  cb_hash :: hash_t
  cb_num_sets :: u32
  cb_ahl :: "AddressHomeLookup option"
  cb_log_blocksize :: u32
  cb_log_num_sets :: u32

definition CacheBase_new :: "string \<Rightarrow> u32 \<Rightarrow> u32 \<Rightarrow> u32 \<Rightarrow> hash_t \<Rightarrow> AddressHomeLookup option \<Rightarrow> CacheBase option" where
  "CacheBase_new name num_sets associativity cache_block_size hash ahl =
     (let log_sets = floorLog2 num_sets in
      if 0 \<le> log_sets \<and> (ucast num_sets = (2 ^ nat log_sets :: u64) \<or> hash \<noteq> HASH_MASK)
      then Some \<lparr>cb_name = name, cb_cache_size = ucast num_sets * ucast associativity * ucast cache_block_size,
        cb_associativity = associativity, cb_blocksize = cache_block_size, cb_hash = hash, cb_num_sets = num_sets, cb_ahl = ahl,
        cb_log_blocksize = word_of_int (floorLog2 cache_block_size), cb_log_num_sets = word_of_int log_sets\<rparr>
      else None)"

definition hash_index :: "'a CacheBase_scheme \<Rightarrow> u64 \<Rightarrow> u32 option" where
  "hash_index c block_num = (let n = (ucast (cb_num_sets c) :: u64) in case cb_hash c of
      HASH_MASK \<Rightarrow> Some (ucast (block_num AND ucast (cb_num_sets c - 1)))
    | HASH_MOD \<Rightarrow> map_option ucast (umod block_num n)
    | HASH_RNG1_MOD \<Rightarrow> (let (state, r) = rng_next (rng_seed block_num) in map_option ucast (umod r n))
    | HASH_RNG2_MOD \<Rightarrow> (let (state, r) = rng_next (rng_seed block_num); (state, r) = rng_next state in map_option ucast (umod r n))
    | HASH_PRIME_DIS \<Rightarrow> do {
        si \<leftarrow> umod block_num n;
        Ti \<leftarrow> shr block_num (unat (cb_log_num_sets c));
        map_option ucast (umod (3 * Ti + si) n) }
    | HASH_XOR_MOD \<Rightarrow> do {
        si \<leftarrow> umod block_num n;
        t \<leftarrow> shr block_num (unat (cb_log_num_sets c));
        ti \<leftarrow> umod t n;
        Some (ucast (si XOR ti)) }
    | HASH_MER_MOD \<Rightarrow> map_option ucast (umod block_num (ucast (cb_num_sets c - 1))))"

definition splitAddress :: "'a CacheBase_scheme \<Rightarrow> u64 \<Rightarrow> (u64 \<times> u32) option" where
  "splitAddress c addr = do {
     tag \<leftarrow> shr addr (unat (cb_log_blocksize c));
     linearAddress \<leftarrow> (case cb_ahl c of Some a \<Rightarrow> getLinearAddress a addr | None \<Rightarrow> Some addr);
     block_num \<leftarrow> shr linearAddress (unat (cb_log_blocksize c));
     set_index \<leftarrow> hash_index c block_num;
     Some (tag, set_index) }"

definition splitAddress_offset :: "'a CacheBase_scheme \<Rightarrow> u64 \<Rightarrow> (u64 \<times> u32 \<times> u32) option" where
  "splitAddress_offset c addr = (let block_offset = ucast (addr AND ucast (cb_blocksize c - 1)) in
     splitAddress c addr \<bind> (\<lambda>(tag, set_index). Some (tag, set_index, block_offset)))"

definition tagToAddress :: "'a CacheBase_scheme \<Rightarrow> u64 \<Rightarrow> u64 option" where
  "tagToAddress c tag = shl tag (unat (cb_log_blocksize c))"

text \<open>The parameters under which every hash yields a set of the cache.\<close>

definition geometry_ok :: "'a CacheBase_scheme \<Rightarrow> bool" where
  "geometry_ok c \<longleftrightarrow> cb_num_sets c \<noteq> 0 \<and> cb_blocksize c \<noteq> 0
     \<and> int (unat (cb_log_blocksize c)) = floorLog2 (cb_blocksize c) \<and> int (unat (cb_log_num_sets c)) = floorLog2 (cb_num_sets c)
     \<and> (cb_hash c = HASH_MASK \<or> cb_hash c = HASH_XOR_MOD \<longrightarrow> isPower2 (cb_num_sets c))
     \<and> (cb_hash c = HASH_MER_MOD \<longrightarrow> cb_num_sets c \<noteq> 1)
     \<and> (case cb_ahl c of None \<Rightarrow> True | Some a \<Rightarrow> ahl_wf a \<and> unat (cb_log_blocksize c) \<le> unat (ahl_param a))"

lemma floorLog2_zero [simp]: "floorLog2 0 = -1"
  by (simp add: floorLog2_def)

lemma unat_floorLog2: "x \<noteq> 0 \<Longrightarrow> int (unat (word_of_int (floorLog2 x) :: u32)) = floorLog2 x"
proof -
  assume x: "x \<noteq> 0"
  have b: "0 \<le> floorLog2 x" "floorLog2 x < 32" using floorLog2_bounds [OF x] floorLog2_less_32 [OF x] by auto
  have "uint (word_of_int (floorLog2 x) :: u32) = take_bit 32 (floorLog2 x)" by (simp add: unsigned_of_int)
  also have "\<dots> = floorLog2 x" using b by (intro take_bit_int_eq_self) auto
  finally show ?thesis by (simp add: of_nat_unat)
qed

lemma CacheBase_new_geometry:
  assumes "CacheBase_new name num_sets assoc bs hash ahl = Some c" and "bs \<noteq> 0"
    and "hash = HASH_XOR_MOD \<Longrightarrow> isPower2 num_sets" and "hash = HASH_MER_MOD \<Longrightarrow> num_sets \<noteq> 1"
    and "\<And>a. ahl = Some a \<Longrightarrow> ahl_wf a \<and> floorLog2 bs \<le> int (unat (ahl_param a))"
  shows "geometry_ok c"
proof -
  have c: "c = \<lparr>cb_name = name, cb_cache_size = ucast num_sets * ucast assoc * ucast bs,
        cb_associativity = assoc, cb_blocksize = bs, cb_hash = hash, cb_num_sets = num_sets, cb_ahl = ahl,
        cb_log_blocksize = word_of_int (floorLog2 bs), cb_log_num_sets = word_of_int (floorLog2 num_sets)\<rparr>"
    and l: "0 \<le> floorLog2 num_sets" and h: "ucast num_sets = (2 ^ nat (floorLog2 num_sets) :: u64) \<or> hash \<noteq> HASH_MASK"
    using assms(1) unfolding CacheBase_new_def Let_def by (auto split: if_splits)
  have ns: "num_sets \<noteq> 0" using l by (intro notI) simp
  have p: "isPower2 num_sets" if "hash = HASH_MASK"
  proof -
    have b: "nat (floorLog2 num_sets) < 32" using floorLog2_less_32 [OF ns] by simp
    have "unat (ucast num_sets :: u64) = unat (2 ^ nat (floorLog2 num_sets) :: u64)" using that h by simp
    then have "unat num_sets = 2 ^ nat (floorLog2 num_sets)" using b by (simp add: unat_two_power)
    then have "unat num_sets = unat (2 ^ nat (floorLog2 num_sets) :: u32)" using b by (simp add: unat_two_power)
    then have "num_sets = 2 ^ nat (floorLog2 num_sets)" by (rule word_unat_eq_iff [THEN iffD2])
    then show ?thesis using b isPower2_iff by blast
  qed
  have "case ahl of None \<Rightarrow> True | Some a \<Rightarrow> ahl_wf a \<and> unat (word_of_int (floorLog2 bs) :: u32) \<le> unat (ahl_param a)"
    using assms(5) unat_floorLog2 [OF assms(2)] by (cases ahl) (auto simp del: of_nat_le_iff simp add: of_nat_le_iff [where 'a=int, symmetric])
  then show ?thesis using assms(2-4) ns p unat_floorLog2 [OF assms(2)] unat_floorLog2 [OF ns] unfolding geometry_ok_def c
    by (auto split: option.splits)
qed

text \<open>Every address has a tag, and a set index below the number of sets.\<close>

lemma geometry_logs:
  assumes "geometry_ok c"
  shows "unat (cb_log_blocksize c) < 32" and "unat (cb_log_num_sets c) < 32"
    and "2 ^ unat (cb_log_blocksize c) \<le> unat (cb_blocksize c)" and "2 ^ unat (cb_log_num_sets c) \<le> unat (cb_num_sets c)"
proof -
  have nz: "cb_num_sets c \<noteq> 0" "cb_blocksize c \<noteq> 0" and
    l: "floorLog2 (cb_blocksize c) = int (unat (cb_log_blocksize c))" "floorLog2 (cb_num_sets c) = int (unat (cb_log_num_sets c))"
    using assms by (auto simp: geometry_ok_def)
  show "unat (cb_log_blocksize c) < 32" "unat (cb_log_num_sets c) < 32"
    using floorLog2_less_32 [OF nz(1)] floorLog2_less_32 [OF nz(2)] unfolding l by simp_all
  show "2 ^ unat (cb_log_blocksize c) \<le> unat (cb_blocksize c)" "2 ^ unat (cb_log_num_sets c) \<le> unat (cb_num_sets c)"
    using floorLog2_bounds [OF nz(1)] floorLog2_bounds [OF nz(2)] unfolding l by simp_all
qed

lemma umod_index:
  assumes "n \<noteq> (0 :: u32)"
  shows "\<exists>i. map_option ucast (umod x (ucast n :: u64)) = Some (i :: u32) \<and> unat i = unat x mod unat n"
proof -
  have nz: "(ucast n :: u64) \<noteq> 0" using assms by (metis unat_0 unat_eq_zero unat_ucast_32_64)
  have m: "unat (x mod ucast n :: u64) = unat x mod unat n" by (simp add: unat_mod)
  have "unat x mod unat n < unat n" using assms by (intro mod_less_divisor) (simp add: unat_gt_0)
  also have "\<dots> < 2 ^ 32" using unsigned_less [of n, where 'a=nat] by simp
  finally have "unat (ucast (x mod ucast n :: u64) :: u32) = unat x mod unat n" using m by (subst unat_ucast_64_32) auto
  then show ?thesis using nz by simp
qed

lemma xor_less_power:
  fixes x y :: nat
  assumes "x < 2 ^ k" and "y < 2 ^ k"
  shows "x XOR y < 2 ^ k"
proof -
  have "take_bit k (x XOR y) = x XOR y" using assms by (simp add: take_bit_nat_eq_self)
  then show ?thesis by (metis take_bit_nat_less_exp)
qed

lemma hash_index_in_range:
  assumes g: "geometry_ok c"
  shows "\<exists>i. hash_index c b = Some i \<and> unat i < unat (cb_num_sets c)"
proof -
  let ?n = "cb_num_sets c"
  have nz: "?n \<noteq> 0" using g by (simp add: geometry_ok_def)
  have pos: "0 < unat ?n" using nz by (simp add: unat_gt_0)
  have nz64: "(ucast ?n :: u64) \<noteq> 0" using nz by (metis unat_0 unat_eq_zero unat_ucast_32_64)
  have pred: "unat (?n - 1) = unat ?n - 1" using nz by (rule unat_minus_one)
  have md: "\<exists>i. map_option ucast (umod x (ucast ?n :: u64)) = Some (i :: u32) \<and> unat i < unat ?n" for x
    using umod_index [OF nz, of x] pos by auto
  have m64: "unat (x mod ucast ?n :: u64) < unat ?n" for x using pos by (simp add: unat_mod)
  have l: "unat (cb_log_num_sets c) < 64" using geometry_logs(2) [OF g] by simp
  show ?thesis
  proof (cases "cb_hash c")
    case HASH_MASK
    have "unat (b AND ucast (?n - 1)) \<le> unat (ucast (?n - 1) :: u64)" by (simp only: word_le_nat_alt [symmetric] word_and_le1)
    then have le: "unat (b AND ucast (?n - 1)) < unat ?n" using pos pred by simp
    then have "unat (ucast (b AND ucast (?n - 1)) :: u32) < unat ?n"
      using unsigned_less [of ?n, where 'a=nat] by (subst unat_ucast_64_32) auto
    then show ?thesis using HASH_MASK by (simp add: hash_index_def)
  next
    case HASH_XOR_MOD
    then obtain k where k: "k < 32" "?n = 2 ^ k" using g nz by (auto simp: geometry_ok_def isPower2_iff)
    then have un: "unat ?n = 2 ^ k" by (simp add: unat_two_power)
    define x where "x = (b mod ucast ?n) XOR (drop_bit (unat (cb_log_num_sets c)) b mod ucast ?n)"
    have "unat x < 2 ^ k" unfolding x_def unsigned_xor_eq
      by (rule xor_less_power) (use m64 in \<open>simp_all add: un [symmetric]\<close>)
    moreover have "(2 :: nat) ^ k < 2 ^ 32" using k(1) by (intro power_strict_increasing) auto
    ultimately have "unat (ucast x :: u32) < unat ?n" using un by (subst unat_ucast_64_32) auto
    then show ?thesis using HASH_XOR_MOD l nz64 by (simp add: hash_index_def x_def Let_def)
  next
    case HASH_MER_MOD
    then have "?n - 1 \<noteq> 0" using g by (auto simp: geometry_ok_def)
    then obtain i where i: "map_option ucast (umod b (ucast (?n - 1) :: u64)) = Some (i :: u32)" "unat i = unat b mod unat (?n - 1)"
      using umod_index by blast
    have "0 < unat (?n - 1)" using \<open>?n - 1 \<noteq> 0\<close> by (simp add: unat_gt_0)
    then have "unat i < unat (?n - 1)" unfolding i(2) by (rule mod_less_divisor)
    then show ?thesis using i(1) HASH_MER_MOD pred pos by (auto simp: hash_index_def)
  qed (use md l nz64 in \<open>auto simp: hash_index_def Let_def split_beta\<close>)
qed


lemma splitAddress_total:
  assumes g: "geometry_ok c"
  shows "\<exists>i. splitAddress c a = Some (drop_bit (unat (cb_log_blocksize c)) a, i) \<and> unat i < unat (cb_num_sets c)"
proof -
  have l: "unat (cb_log_blocksize c) < 64" using geometry_logs(1) [OF g] by simp
  obtain la where la: "(case cb_ahl c of Some h \<Rightarrow> getLinearAddress h a | None \<Rightarrow> Some a) = Some la"
  proof (cases "cb_ahl c")
    case (Some h)
    then have "ahl_wf h" using g by (simp add: geometry_ok_def)
    then show thesis using that Some getLinearAddress_nat [of h a] by auto
  qed (use that in simp)
  obtain i where "hash_index c (drop_bit (unat (cb_log_blocksize c)) la) = Some i" "unat i < unat (cb_num_sets c)"
    using hash_index_in_range [OF g] by blast
  then show ?thesis using l la by (simp add: splitAddress_def)
qed

text \<open>All addresses of one block have the same tag and set.\<close>

lemma linear_block_eq:
  assumes "ahl_wf h" and "k \<le> unat (ahl_param h)" and "unat x div 2 ^ k = unat y div 2 ^ k"
    and "getLinearAddress h x = Some lx" and "getLinearAddress h y = Some ly"
  shows "drop_bit k lx = drop_bit k ly"
proof -
  define d where "d = unat (ahl_param h) - k"
  have p: "unat (ahl_param h) = k + d" using assms(2) by (simp add: d_def)
  have f: "unat l div 2 ^ k = unat z div 2 ^ k div 2 ^ d div length (ahl_core_list h) * 2 ^ d + unat z div 2 ^ k mod 2 ^ d"
    if "getLinearAddress h z = Some l" for z l
  proof -
    obtain l' where l': "getLinearAddress h z = Some l'"
      "unat l' = unat z div 2 ^ (k + d) div length (ahl_core_list h) * 2 ^ (k + d) + unat z mod 2 ^ (k + d)"
      using getLinearAddress_nat [OF assms(1), of z] unfolding p by blast
    then have "unat l = (unat z div 2 ^ (k + d) div length (ahl_core_list h) * 2 ^ d) * 2 ^ k + unat z mod 2 ^ (k + d)"
      using that by (simp add: power_add ac_simps)
    then have "unat l div 2 ^ k = unat z div 2 ^ (k + d) div length (ahl_core_list h) * 2 ^ d + unat z mod 2 ^ (k + d) div 2 ^ k" by simp
    then show ?thesis by (simp add: power_add div_mult2_eq mod_mult2_eq)
  qed
  have "unat lx div 2 ^ k = unat ly div 2 ^ k" using f [OF assms(4)] f [OF assms(5)] assms(3) by simp
  then show ?thesis by (simp add: word_unat_eq_iff unat_drop_bit_div)
qed

lemma splitAddress_same_block:
  assumes g: "geometry_ok c" and e: "drop_bit (unat (cb_log_blocksize c)) a = drop_bit (unat (cb_log_blocksize c)) b"
  shows "splitAddress c a = splitAddress c b"
proof -
  let ?k = "unat (cb_log_blocksize c)"
  have l: "?k < 64" using geometry_logs(1) [OF g] by simp
  have u: "unat a div 2 ^ ?k = unat b div 2 ^ ?k" using e by (metis unat_drop_bit_div)
  show ?thesis
  proof (cases "cb_ahl c")
    case None
    then show ?thesis using l e by (simp add: splitAddress_def)
  next
    case (Some h)
    then have h: "ahl_wf h" "?k \<le> unat (ahl_param h)" using g by (auto simp: geometry_ok_def)
    obtain la where la: "getLinearAddress h a = Some la" by (rule getLinearAddress_nat [OF h(1)])
    moreover obtain lb where lb: "getLinearAddress h b = Some lb" by (rule getLinearAddress_nat [OF h(1)])
    moreover have "drop_bit ?k la = drop_bit ?k lb" using linear_block_eq [OF h u la lb] .
    ultimately show ?thesis using Some l e by (simp add: splitAddress_def)
  qed
qed

text \<open>The address rebuilt from a tag is the first of the block, so it splits into the same tag and set.\<close>

lemma tagToAddress_total: "geometry_ok c \<Longrightarrow> tagToAddress c t = Some (push_bit (unat (cb_log_blocksize c)) t)"
  using geometry_logs(1) [of c] by (simp add: tagToAddress_def)

lemma tagToAddress_split:
  assumes g: "geometry_ok c" and s: "splitAddress c a = Some (t, i)"
  shows "\<exists>a'. tagToAddress c t = Some a' \<and> a' = a AND NOT (mask (unat (cb_log_blocksize c))) \<and> splitAddress c a' = Some (t, i)"
proof -
  let ?k = "unat (cb_log_blocksize c)"
  have t: "t = drop_bit ?k a" using splitAddress_total [OF g, of a] s by auto
  have e: "push_bit ?k t = a AND NOT (mask ?k)"
    unfolding t by (intro bit_word_eqI) (auto simp: bit_simps)
  have "drop_bit ?k (push_bit ?k t) = drop_bit ?k a"
    unfolding t by (intro bit_word_eqI) (auto simp: bit_simps dest: bit_imp_le_length)
  then have "splitAddress c (push_bit ?k t) = splitAddress c a" by (rule splitAddress_same_block [OF g])
  then show ?thesis using tagToAddress_total [OF g, of t] e s by simp
qed

end
