(* ===== verification/Sniper_Cache.thy ===== *)
theory Sniper_Cache
  imports Sniper_Index
begin

text \<open>
  Set-associative caches (\<^verbatim>\<open>cache.cc\<close>) and the fault injector they call (\<^verbatim>\<open>fault_injection.cc\<close>,
  \<^verbatim>\<open>fault_injector_random.cc\<close>). A cache implements a partial function from memory blocks to lines:
  every operation keeps the invariant of the cache and acts on that function as its name says.
\<close>

section \<open>Fault injection\<close>

datatype fault_type_t = FAULT_TYPE_TOGGLE | FAULT_TYPE_SET0 | FAULT_TYPE_SET1

datatype fault_injector_t = FAULT_INJECTOR_NONE | FAULT_INJECTOR_RANDOM

datatype FaultInjector =
    FaultInjectorBase
  | FaultInjectorRandom (fi_active: bool) (fi_rng: u64)

text \<open>\<^verbatim>\<open>FaultinjectionManager::create\<close> returns no manager, a manager, or reports an unknown name.\<close>

definition FaultinjectionManager_create :: "string \<Rightarrow> string \<Rightarrow> (fault_type_t \<times> fault_injector_t) option option" where
  "FaultinjectionManager_create s_type s_injector =
     (if s_type = ''none'' then Some None
      else do {
        type \<leftarrow> (if s_type = ''toggle'' then Some FAULT_TYPE_TOGGLE
                 else if s_type = ''set0'' then Some FAULT_TYPE_SET0
                 else if s_type = ''set1'' then Some FAULT_TYPE_SET1 else None);
        injector \<leftarrow> (if s_injector = ''none'' then Some FAULT_INJECTOR_NONE
                     else if s_injector = ''random'' then Some FAULT_INJECTOR_RANDOM else None);
        Some (Some (type, injector)) })"

definition getFaultInjector :: "fault_injector_t \<Rightarrow> component_t \<Rightarrow> FaultInjector" where
  "getFaultInjector injector mem_component = (case injector of
      FAULT_INJECTOR_NONE \<Rightarrow> FaultInjectorBase
    | FAULT_INJECTOR_RANDOM \<Rightarrow> FaultInjectorRandom (mem_component = L1_DCACHE) (rng_seed 0))"

definition applyFault :: "fault_type_t \<Rightarrow> u32 \<Rightarrow> u8 list \<Rightarrow> u8 list \<Rightarrow> u8 list option" where
  "applyFault type data_size data fault =
     (if unat data_size \<le> length data \<and> unat data_size \<le> length fault
      then Some (fold (\<lambda>i data. data[i := (case type of
             FAULT_TYPE_TOGGLE \<Rightarrow> data ! i XOR fault ! i
           | FAULT_TYPE_SET0 \<Rightarrow> data ! i AND NOT (fault ! i)
           | FAULT_TYPE_SET1 \<Rightarrow> data ! i OR fault ! i)]) [0..<unat data_size] data)
      else None)"

text \<open>
  \<^verbatim>\<open>preRead\<close> of the random injector, on the fault bytes from position \<open>off\<close> on: with a small probability
  one bit is set.
\<close>

definition preRead :: "FaultInjector \<Rightarrow> u32 \<Rightarrow> nat \<Rightarrow> u8 list option \<Rightarrow> (FaultInjector \<times> u8 list option) option" where
  "preRead fi data_size off fault = (case fi of
      FaultInjectorBase \<Rightarrow> Some (fi, fault)
    | FaultInjectorRandom active rng \<Rightarrow>
        if \<not> active then Some (fi, fault)
        else let (rng, r) = rng_next rng in
          if r mod 0xffff \<noteq> 0 then Some (FaultInjectorRandom active rng, fault)
          else let (rng, r) = rng_next rng in do {
            loc \<leftarrow> umod r (ucast data_size);
            let bit_location = (ucast loc :: u32);
            let i = off + unat (bit_location div 8);
            d \<leftarrow> fault;
            (if i < length d
             then Some (FaultInjectorRandom active rng, Some (d[i := d ! i OR push_bit (unat (bit_location mod 8)) 1]))
             else None) })"

definition postWrite :: "FaultInjector \<Rightarrow> u32 \<Rightarrow> nat \<Rightarrow> u8 list option \<Rightarrow> FaultInjector \<times> u8 list option" where
  "postWrite fi data_size off fault = (fi, fault)"

section \<open>The cache\<close>

record Cache = CacheBase +
  c_enabled :: bool
  c_num_accesses :: u64
  c_num_hits :: u64
  c_cache_type :: cache_t
  c_sets :: "policy_state cache_set list"
  c_set_info :: "CacheSetInfoLRU option"
  c_fault_injector :: "FaultInjector option"

fun create_sets :: "nat \<Rightarrow> (nat \<Rightarrow> policy_state cache_set option) \<Rightarrow> policy_state cache_set list option" where
  "create_sets 0 f = Some []"
| "create_sets (Suc n) f = do { ss \<leftarrow> create_sets n f; s \<leftarrow> f n; Some (ss @ [s]) }"

text \<open>\<open>seeds i\<close> is the time at which set \<open>i\<close> is made, the seed of its random generator.\<close>

definition Cache_new ::
  "(string \<Rightarrow> int) \<Rightarrow> (nat \<Rightarrow> u32) \<Rightarrow> string \<Rightarrow> string \<Rightarrow> u32 \<Rightarrow> u32 \<Rightarrow> u32 \<Rightarrow> string \<Rightarrow> cache_t \<Rightarrow> hash_t \<Rightarrow> FaultInjector option \<Rightarrow> bool
     \<Rightarrow> AddressHomeLookup option \<Rightarrow> Cache option" where
  "Cache_new cfg seeds name cfgname num_sets associativity cache_block_size policy_name cache_type hash fault_injector fault_manager ahl = do {
     b \<leftarrow> CacheBase_new name num_sets associativity cache_block_size hash ahl;
     si \<leftarrow> createCacheSetInfo cfg cfgname policy_name associativity;
     ss \<leftarrow> create_sets (unat num_sets) (\<lambda>i. createCacheSet cfg (seeds i) fault_manager cfgname policy_name cache_type associativity cache_block_size);
     Some (CacheBase.extend b \<lparr>c_enabled = False, c_num_accesses = 0, c_num_hits = 0, c_cache_type = cache_type, c_sets = ss,
       c_set_info = si, c_fault_injector = fault_injector\<rparr>) }"

definition cache_env :: "Cache \<Rightarrow> CacheCntlr option \<Rightarrow> repl_env" where
  "cache_env c cn = \<lparr>set_info = c_set_info c, cntlr = cn\<rparr>"

text \<open>\<^verbatim>\<open>m_sets[set_index]\<close>, and storing the set and the shared statistics back.\<close>

definition get_set :: "Cache \<Rightarrow> u32 \<Rightarrow> policy_state cache_set option" where
  "get_set c i = (if unat i < length (c_sets c) then Some (c_sets c ! unat i) else None)"

definition put_set :: "u32 \<Rightarrow> policy_state cache_set \<Rightarrow> repl_env \<Rightarrow> Cache \<Rightarrow> Cache" where
  "put_set i s e c = c\<lparr>c_sets := (c_sets c)[unat i := s], c_set_info := set_info e\<rparr>"

definition invalidateSingleLine :: "u64 \<Rightarrow> Cache \<Rightarrow> (bool \<times> Cache) option" where
  "invalidateSingleLine addr c = do {
     (tag, set_index) \<leftarrow> splitAddress c addr;
     (if set_index < cb_num_sets c then Some () else None);
     s \<leftarrow> get_set c set_index;
     let (found, s) = CacheSet_invalidate tag s;
     Some (found, put_set set_index s (cache_env c None) c) }"

datatype access_t = LOAD | STORE

text \<open>
  The result of an access is the position of the line found, and the bytes read. The injector is
  applied to the data of the line before a read and after a write.
\<close>

definition accessSingleLine ::
  "u64 \<Rightarrow> access_t \<Rightarrow> u8 list option \<Rightarrow> u32 \<Rightarrow> bool \<Rightarrow> Cache \<Rightarrow> ((nat \<times> nat) option \<times> u8 list option \<times> Cache) option" where
  "accessSingleLine addr access_type buff bytes update_replacement c = do {
     (tag, set_index, block_offset) \<leftarrow> splitAddress_offset c addr;
     s \<leftarrow> get_set c set_index;
     (case CacheSet_find s tag of
        None \<Rightarrow> Some (None, None, c)
      | Some line_index \<Rightarrow>
          (case access_type of
             LOAD \<Rightarrow> do {
               (fi, d) \<leftarrow> (case c_fault_injector c of
                   None \<Rightarrow> Some (None, cs_data s)
                 | Some f \<Rightarrow> map_option (apfst Some) (preRead f bytes (data_index s line_index block_offset) (cs_data s)));
               (out, s, e) \<leftarrow> CacheSet_read_line updateReplacementIndex line_index block_offset (buff \<noteq> None) bytes update_replacement
                 (s\<lparr>cs_data := d\<rparr>) (cache_env c None);
               Some (Some (unat set_index, line_index), out, (put_set set_index s e c)\<lparr>c_fault_injector := fi\<rparr>) }
           | STORE \<Rightarrow> do {
               (s, e) \<leftarrow> CacheSet_write_line updateReplacementIndex line_index block_offset buff bytes update_replacement s (cache_env c None);
               let (fi, d) = (case c_fault_injector c of
                   None \<Rightarrow> (None, cs_data s)
                 | Some f \<Rightarrow> apfst Some (postWrite f bytes (data_index s line_index block_offset) (cs_data s)));
               Some (Some (unat set_index, line_index), None, (put_set set_index (s\<lparr>cs_data := d\<rparr>) e c)\<lparr>c_fault_injector := fi\<rparr>) })) }"

definition insertSingleLine ::
  "u64 \<Rightarrow> u8 list option \<Rightarrow> cache_block \<Rightarrow> bool \<Rightarrow> CacheCntlr option \<Rightarrow> Cache
     \<Rightarrow> (insert_result \<times> u64 \<times> CacheCntlr option \<times> Cache) option" where
  "insertSingleLine addr fill_buff evict_block evict_buff cn c = do {
     (tag, set_index) \<leftarrow> splitAddress c addr;
     let block = setTag tag (cache_block_create (c_cache_type c));
     s \<leftarrow> get_set c set_index;
     (r, s, e) \<leftarrow> CacheSet_insert getReplacementIndex block fill_buff evict_block evict_buff s (cache_env c cn);
     evict_addr \<leftarrow> tagToAddress c (getTag (ir_evict_block r));
     (fi, d) \<leftarrow> (case c_fault_injector c of
         None \<Rightarrow> Some (None, cs_data s)
       | Some f \<Rightarrow> CacheSet_find s tag \<bind> (\<lambda>line_index. Some (apfst Some (postWrite f (cs_blocksize s) (data_index s line_index 0) (cs_data s)))));
     Some (r, evict_addr, cntlr e, (put_set set_index (s\<lparr>cs_data := d\<rparr>) e c)\<lparr>c_fault_injector := fi\<rparr>) }"

definition peekSingleLine :: "u64 \<Rightarrow> Cache \<Rightarrow> (nat \<times> nat) option option" where
  "peekSingleLine addr c = do {
     (tag, set_index) \<leftarrow> splitAddress c addr;
     s \<leftarrow> get_set c set_index;
     Some (map_option (\<lambda>i. (unat set_index, i)) (CacheSet_find s tag)) }"

definition updateCounters :: "bool \<Rightarrow> Cache \<Rightarrow> Cache" where
  "updateCounters cache_hit c = (if c_enabled c
     then (let c = c\<lparr>c_num_accesses := c_num_accesses c + 1\<rparr> in if cache_hit then c\<lparr>c_num_hits := c_num_hits c + 1\<rparr> else c)
     else c)"

definition updateHits :: "u64 \<Rightarrow> Cache \<Rightarrow> Cache" where
  "updateHits hits c = (if c_enabled c
     then c\<lparr>c_num_accesses := c_num_accesses c + hits, c_num_hits := c_num_hits c + hits\<rparr> else c)"

definition Cache_enable :: "Cache \<Rightarrow> Cache" where
  "Cache_enable c = c\<lparr>c_enabled := True\<rparr>"

definition Cache_disable :: "Cache \<Rightarrow> Cache" where
  "Cache_disable c = c\<lparr>c_enabled := False\<rparr>"

section \<open>The invariant, and the function a cache implements\<close>

definition set_good :: "Cache \<Rightarrow> policy_state cache_set \<Rightarrow> bool" where
  "set_good c s \<longleftrightarrow> set_wf (c_cache_type c) s \<and> tags_distinct s \<and> set_inv s (cache_env c None)
     \<and> cs_associativity s = cb_associativity c \<and> cs_blocksize s = cb_blocksize c"

text \<open>Every line is in the set that the addresses of its block index.\<close>

definition placed :: "Cache \<Rightarrow> bool" where
  "placed c \<longleftrightarrow> (\<forall>i < length (c_sets c). \<forall>t. set_map (c_sets c ! i) t \<noteq> None \<longrightarrow> (\<exists>a. splitAddress c a = Some (t, of_nat i)))"

definition cache_inv :: "Cache \<Rightarrow> bool" where
  "cache_inv c \<longleftrightarrow> geometry_ok c \<and> 1 < unat (cb_blocksize c) \<and> length (c_sets c) = unat (cb_num_sets c)
     \<and> (\<forall>s \<in> set (c_sets c). set_good c s) \<and> placed c"

definition block_of :: "Cache \<Rightarrow> u64 \<Rightarrow> u64" where
  "block_of c addr = drop_bit (unat (cb_log_blocksize c)) addr"

definition cache_lookup :: "Cache \<Rightarrow> u64 \<Rightarrow> cache_block option" where
  "cache_lookup c addr = (case splitAddress c addr of
     Some (t, i) \<Rightarrow> get_set c i \<bind> (\<lambda>s. set_map s t) | None \<Rightarrow> None)"


lemma env_shape_cache_env: "env_shape (cache_env c cn) = env_shape (cache_env c None)"
  by (simp add: env_shape_def cache_env_def)

lemma cache_split:
  assumes "cache_inv c"
  obtains i s where "splitAddress c a = Some (block_of c a, i)" "get_set c i = Some s" "s = c_sets c ! unat i"
    "unat i < length (c_sets c)" "unat i < unat (cb_num_sets c)" "set_good c s"
proof -
  have g: "geometry_ok c" and l: "length (c_sets c) = unat (cb_num_sets c)" and sg: "\<forall>s \<in> set (c_sets c). set_good c s"
    using assms by (auto simp: cache_inv_def)
  obtain i where i: "splitAddress c a = Some (block_of c a, i)" "unat i < unat (cb_num_sets c)"
    using splitAddress_total [OF g, of a] unfolding block_of_def by blast
  then show thesis using that [of i "c_sets c ! unat i"] l sg by (simp add: get_set_def)
qed

lemma block_of_valid: "cache_inv c \<Longrightarrow> block_of c a \<noteq> NOT 0"
proof -
  assume inv: "cache_inv c"
  then have g: "geometry_ok c" and b: "1 < unat (cb_blocksize c)" by (auto simp: cache_inv_def)
  let ?k = "unat (cb_log_blocksize c)"
  have "cb_blocksize c \<noteq> 0" using b by (intro notI) simp
  then have "unat (cb_blocksize c) < 2 ^ Suc ?k" using floorLog2_bounds [of "cb_blocksize c"] g by (metis geometry_ok_def nat_int)
  then have "0 < ?k" using b by (cases ?k) auto
  then have "\<not> bit (block_of c a) 63" by (auto simp: block_of_def bit_simps dest: bit_imp_le_length)
  moreover have "bit (NOT 0 :: u64) 63" by (simp add: bit_simps)
  ultimately show ?thesis by metis
qed

text \<open>Changing one set: the other sets keep their invariants because the dimensions of the statistics stay.\<close>

lemma same_geometry:
  assumes "cb_num_sets c' = cb_num_sets c" "cb_hash c' = cb_hash c" "cb_log_num_sets c' = cb_log_num_sets c"
    "cb_log_blocksize c' = cb_log_blocksize c" "cb_ahl c' = cb_ahl c" "cb_blocksize c' = cb_blocksize c"
  shows "splitAddress c' = splitAddress c" "geometry_ok c' = geometry_ok c"
  unfolding splitAddress_def hash_index_def geometry_ok_def assms by (rule refl)+

lemma put_set_simps [simp]:
  "cb_num_sets (put_set i s e c) = cb_num_sets c" "cb_hash (put_set i s e c) = cb_hash c"
  "cb_log_num_sets (put_set i s e c) = cb_log_num_sets c" "cb_log_blocksize (put_set i s e c) = cb_log_blocksize c"
  "cb_ahl (put_set i s e c) = cb_ahl c" "cb_blocksize (put_set i s e c) = cb_blocksize c"
  "cb_associativity (put_set i s e c) = cb_associativity c" "c_cache_type (put_set i s e c) = c_cache_type c"
  "c_sets (put_set i s e c) = (c_sets c)[unat i := s]" "c_set_info (put_set i s e c) = set_info e"
  "c_fault_injector (put_set i s e c) = c_fault_injector c"
  by (simp_all add: put_set_def)

lemma put_set_inv:
  assumes inv: "cache_inv c" and sp: "splitAddress c a = Some (t, i)" and s: "get_set c i = Some s"
    and s': "set_wf (c_cache_type c) s'" "tags_distinct s'" "set_inv s' e'" "cs_associativity s' = cs_associativity s" "cs_blocksize s' = cs_blocksize s"
    and sh: "env_shape e' = env_shape (cache_env c None)"
    and m: "\<forall>x. set_map s' x \<noteq> None \<longrightarrow> x = t \<or> set_map s x \<noteq> None"
    and c': "c' = (put_set i s' e' c)\<lparr>c_fault_injector := fi\<rparr>"
  shows "cache_inv c'" and "splitAddress c b = Some (x, j) \<Longrightarrow> cache_lookup c' b = (if j = i then set_map s' x else cache_lookup c b)"
    and "splitAddress c' = splitAddress c"
proof -
  have g: "splitAddress c' = splitAddress c" "geometry_ok c' = geometry_ok c"
    unfolding c' by (rule same_geometry; simp)+
  have il: "unat i < length (c_sets c)" and si: "s = c_sets c ! unat i" using s by (auto simp: get_set_def split: if_splits)
  have ss: "c_sets c' = (c_sets c)[unat i := s']" by (simp add: c')
  have sg: "set_good c s0" if "s0 \<in> set (c_sets c)" for s0 using inv that by (simp add: cache_inv_def)
  have env: "env_shape (cache_env c' None) = env_shape (cache_env c None)" "env_shape (cache_env c' None) = env_shape e'"
    using sh by (auto simp: c' env_shape_def cache_env_def)
  have good': "set_good c' s0" if "set_good c s0" for s0
    using that sets.inv_cong [of s0 "cache_env c None" s0 "cache_env c' None"] env(1) by (simp add: set_good_def c')
  have "set_good c s" using sg il si by simp
  then have gs': "set_good c' s'"
    using s' sets.inv_cong [of s' e' s' "cache_env c' None"] env(2) by (simp add: set_good_def c')
  have all: "set_good c' s0" if "s0 \<in> set (c_sets c')" for s0
    using that set_update_subset_insert [of "c_sets c" "unat i" s'] gs' good' sg unfolding ss by blast
  have "placed c'" unfolding placed_def g(1)
  proof (intro allI impI)
    fix k x assume k: "k < length (c_sets c')" and x: "set_map (c_sets c' ! k) x \<noteq> None"
    have pl: "placed c" using inv by (simp add: cache_inv_def)
    show "\<exists>a. splitAddress c a = Some (x, of_nat k)"
    proof (cases "k = unat i")
      case True
      then have "set_map s' x \<noteq> None" using x il by (simp add: ss)
      then consider "x = t" | "set_map (c_sets c ! k) x \<noteq> None" using m si True by blast
      then show ?thesis
      proof cases
        case 1
        then show ?thesis using sp True by auto
      next
        case 2
        then show ?thesis using pl il True unfolding placed_def by blast
      qed
    next
      case False
      then show ?thesis using x k pl unfolding placed_def ss by auto
    qed
  qed
  then show "cache_inv c'" using inv all g by (simp add: cache_inv_def ss) (simp add: c')
  show "cache_lookup c' b = (if j = i then set_map s' x else cache_lookup c b)" if "splitAddress c b = Some (x, j)"
    using that il by (auto simp: cache_lookup_def g(1) get_set_def ss nth_list_update word_unat_eq_iff)
  show "splitAddress c' = splitAddress c" by (rule g)
qed

text \<open>Two addresses of different blocks have different tags; equal tags mean equal sets.\<close>

lemma cache_lookup_eq:
  assumes "cache_inv c"
  obtains i s where "splitAddress c a = Some (block_of c a, i)" "get_set c i = Some s" "cache_lookup c a = set_map s (block_of c a)" "set_good c s"
proof -
  obtain i s where "splitAddress c a = Some (block_of c a, i)" "get_set c i = Some s" "set_good c s" by (rule cache_split [OF assms])
  then show thesis using that by (simp add: cache_lookup_def)
qed

lemma same_tag_same_set:
  assumes "cache_inv c" and "splitAddress c a = Some (t, i)" and "splitAddress c b = Some (t, j)"
  shows "i = j"
proof -
  have g: "geometry_ok c" using assms(1) by (simp add: cache_inv_def)
  have "t = drop_bit (unat (cb_log_blocksize c)) a" using splitAddress_total [OF g, of a] assms(2) by auto
  moreover have "t = drop_bit (unat (cb_log_blocksize c)) b" using splitAddress_total [OF g, of b] assms(3) by auto
  ultimately have "drop_bit (unat (cb_log_blocksize c)) a = drop_bit (unat (cb_log_blocksize c)) b" by (rule subst)
  from splitAddress_same_block [OF g this] show ?thesis using assms(2,3) by simp
qed

section \<open>The operations on the function\<close>

lemma invalidateSingleLine_spec:
  assumes inv: "cache_inv c"
  shows "\<exists>c'. invalidateSingleLine addr c = Some (cache_lookup c addr \<noteq> None, c') \<and> cache_inv c' \<and> block_of c' = block_of c
    \<and> cache_lookup c' = (\<lambda>b. if block_of c b = block_of c addr then None else cache_lookup c b)"
proof -
  obtain i s where sp: "splitAddress c addr = Some (block_of c addr, i)" and s: "get_set c i = Some s" and sl: "s = c_sets c ! unat i"
    and il: "unat i < length (c_sets c)" "unat i < unat (cb_num_sets c)" and gd: "set_good c s"
    by (rule cache_split [OF inv, of addr])
  obtain found s' where r: "CacheSet_invalidate (block_of c addr) s = (found, s')" by fastforce
  have sg: "set_wf (c_cache_type c) s" "tags_distinct s" "set_inv s (cache_env c None)" using gd by (auto simp: set_good_def)
  note sp' = invalidate_spec [OF sg(1,2) block_of_valid [OF inv] r]
  define c' where "c' = put_set i s' (cache_env c None) c"
  have c'': "c' = (put_set i s' (cache_env c None) c)\<lparr>c_fault_injector := c_fault_injector c\<rparr>" by (simp add: c'_def put_set_def)
  have i': "set_inv s' (cache_env c None)" using sets.inv_cong [OF sg(3)] sp' by simp
  have bs: "cs_blocksize s' = cs_blocksize s" using r by (auto simp: CacheSet_invalidate_def split: option.splits)
  have mm: "\<forall>x. set_map s' x \<noteq> None \<longrightarrow> x = block_of c addr \<or> set_map s x \<noteq> None" using sp' by (auto split: if_splits)
  have k: "set_wf (c_cache_type c) s'" "tags_distinct s'" "cs_associativity s' = cs_associativity s" using sp' by auto
  note p = put_set_inv [OF inv sp s k(1,2) i' k(3) bs refl mm c'']
  have ci: "cache_inv c'" by (rule p(1))
  have lk: "cache_lookup c' b = (if block_of c b = block_of c addr then None else cache_lookup c b)" for b
  proof -
    obtain j sj where b: "splitAddress c b = Some (block_of c b, j)" "get_set c j = Some sj" "cache_lookup c b = set_map sj (block_of c b)"
      by (rule cache_lookup_eq [OF inv])
    have q: "cache_lookup c' b = (if j = i then set_map s' (block_of c b) else cache_lookup c b)" by (rule p(2) [OF b(1)])
    show ?thesis
    proof (cases "block_of c b = block_of c addr")
      case True
      then have "i = j" using same_tag_same_set [OF inv sp] b(1) by simp
      then show ?thesis using q sp' True by simp
    next
      case False
      then show ?thesis using q sp' b s by auto
    qed
  qed
  have "found \<longleftrightarrow> cache_lookup c addr \<noteq> None" using sp' sp s by (simp add: cache_lookup_def)
  then have "invalidateSingleLine addr c = Some (cache_lookup c addr \<noteq> None, c')"
    using sp s r il by (simp add: invalidateSingleLine_def c'_def word_less_nat_alt)
  moreover have "block_of c' = block_of c" by (simp add: c'_def block_of_def fun_eq_iff)
  ultimately show ?thesis using ci lk by blast
qed


text \<open>The tag of a line that a set stores is the block of the address rebuilt from it.\<close>

lemma stored_tag_address:
  assumes inv: "cache_inv c" and s: "get_set c i = Some s" and t: "set_map s t \<noteq> None" and a: "tagToAddress c t = Some ea"
  shows "splitAddress c ea = Some (t, i)" and "block_of c ea = t"
proof -
  have g: "geometry_ok c" and pl: "placed c" using inv by (auto simp: cache_inv_def)
  have il: "unat i < length (c_sets c)" "s = c_sets c ! unat i" using s by (auto simp: get_set_def split: if_splits)
  then obtain x where "splitAddress c x = Some (t, of_nat (unat i))" using pl t unfolding placed_def by blast
  then have "splitAddress c x = Some (t, i)" by simp
  from tagToAddress_split [OF g this] a show sp: "splitAddress c ea = Some (t, i)" by auto
  show "block_of c ea = t" using splitAddress_total [OF g, of ea] sp by (auto simp: block_of_def)
qed

lemma insertSingleLineE:
  assumes "insertSingleLine addr fill ev evb cn c = Some (r, ea, cn', c')" and "splitAddress c addr = Some (t, i)" and "get_set c i = Some s"
  obtains s' e' fi where "CacheSet_insert getReplacementIndex (setTag t (cache_block_create (c_cache_type c))) fill ev evb s (cache_env c cn) = Some (r, s', e')"
    "tagToAddress c (getTag (ir_evict_block r)) = Some ea" "c' = (put_set i s' e' c)\<lparr>c_fault_injector := fi\<rparr>" "cn' = cntlr e'"
proof -
  from assms(1) obtain x where x: "CacheSet_insert getReplacementIndex (setTag t (cache_block_create (c_cache_type c))) fill ev evb s (cache_env c cn) = Some x"
    unfolding insertSingleLine_def assms(2,3) Let_def bind.bind_lunit prod.case
    by (cases "CacheSet_insert getReplacementIndex (setTag t (cache_block_create (c_cache_type c))) fill ev evb s (cache_env c cn)") simp_all
  obtain r0 s' e' where x0: "x = (r0, s', e')" by (cases x)
  note st = assms(1) [unfolded insertSingleLine_def assms(2,3) Let_def bind.bind_lunit prod.case x x0]
  obtain a where a: "tagToAddress c (getTag (ir_evict_block r0)) = Some a" using st by (cases "tagToAddress c (getTag (ir_evict_block r0))") simp_all
  have "r = r0 \<and> ea = a \<and> cn' = cntlr e' \<and> (\<exists>fi. c' = (put_set i s' e' c)\<lparr>c_fault_injector := fi\<rparr>)"
  proof (cases "c_fault_injector c")
    case None
    then show ?thesis using st a by auto
  next
    case (Some f)
    then show ?thesis using st a by (cases "CacheSet_find s' t") (auto simp: postWrite_def)
  qed
  then show thesis using that x x0 a by blast
qed

lemma insertSingleLine_spec:
  assumes inv: "cache_inv c" and miss: "cache_lookup c addr = None"
    and ins: "insertSingleLine addr fill ev evb cn c = Some (r, ea, cn', c')"
  shows "cache_inv c' \<and> block_of c' = block_of c
    \<and> cache_lookup c' = (\<lambda>b. if block_of c b = block_of c addr then Some (setTag (block_of c addr) (cache_block_create (c_cache_type c)))
                          else if ir_eviction r \<and> block_of c b = block_of c ea then None else cache_lookup c b)
    \<and> (ir_eviction r \<longrightarrow> map_option binfo (cache_lookup c ea) = Some (binfo (ir_evict_block r)))"
proof -
  obtain i s where sp: "splitAddress c addr = Some (block_of c addr, i)" and s: "get_set c i = Some s"
    and lk: "cache_lookup c addr = set_map s (block_of c addr)" and gd: "set_good c s"
    by (rule cache_lookup_eq [OF inv])
  let ?t = "block_of c addr" and ?b = "setTag (block_of c addr) (cache_block_create (c_cache_type c))"
  from ins sp s obtain s' e' fi where si: "CacheSet_insert getReplacementIndex ?b fill ev evb s (cache_env c cn) = Some (r, s', e')"
    and ea: "tagToAddress c (getTag (ir_evict_block r)) = Some ea" and c': "c' = (put_set i s' e' c)\<lparr>c_fault_injector := fi\<rparr>"
    by (rule insertSingleLineE)
  have sg: "set_wf (c_cache_type c) s" "tags_distinct s" "set_inv s (cache_env c None)" using gd by (auto simp: set_good_def)
  have iv: "set_inv s (cache_env c cn)" using sets.inv_cong [OF sg(3), of s "cache_env c cn"] env_shape_cache_env by simp
  have nb: "getTag ?b \<noteq> NOT 0" "set_map s (getTag ?b) = None" "block_class ?b = c_cache_type c"
    using block_of_valid [OF inv] miss lk by simp_all
  note sps = sets.insert_spec [OF sg(1,2) iv nb si]
  have sh: "env_shape e' = env_shape (cache_env c None)" using sps(4) env_shape_cache_env by simp
  have mm: "\<forall>x. set_map s' x \<noteq> None \<longrightarrow> x = ?t \<or> set_map s x \<noteq> None" using sps(7) by (auto split: if_splits)
  note p = put_set_inv [OF inv sp s sps(1-3,5,6) sh mm c']
  have evs: "splitAddress c ea = Some (getTag (ir_evict_block r), i)" "block_of c ea = getTag (ir_evict_block r)" if "ir_eviction r"
    using stored_tag_address [OF inv s _ ea] sps(8) that by auto
  have lk': "cache_lookup c' b = (if block_of c b = ?t then Some ?b else if ir_eviction r \<and> block_of c b = block_of c ea then None else cache_lookup c b)" for b
  proof -
    obtain j sj where b: "splitAddress c b = Some (block_of c b, j)" "get_set c j = Some sj" "cache_lookup c b = set_map sj (block_of c b)"
      by (rule cache_lookup_eq [OF inv])
    have q: "cache_lookup c' b = (if j = i then set_map s' (block_of c b) else cache_lookup c b)" by (rule p(2) [OF b(1)])
    have i1: "block_of c b = ?t \<Longrightarrow> j = i" using same_tag_same_set [OF inv sp] b(1) by simp
    have i2: "ir_eviction r \<Longrightarrow> block_of c b = block_of c ea \<Longrightarrow> j = i" using same_tag_same_set [OF inv evs(1)] b(1) evs(2) by simp
    show ?thesis
    proof (cases "j = i")
      case True
      then have "cache_lookup c b = set_map s (block_of c b)" using b s by simp
      then show ?thesis using q True sps(7) evs(2) by auto
    next
      case False
      then show ?thesis using q i1 i2 by auto
    qed
  qed
  have "map_option binfo (cache_lookup c ea) = Some (binfo (ir_evict_block r))" if "ir_eviction r"
    using evs [OF that] s sps(8) [OF that] by (simp add: cache_lookup_def)
  moreover have "block_of c' = block_of c" by (simp add: c' block_of_def fun_eq_iff)
  ultimately show ?thesis using p(1) lk' by blast
qed

text \<open>Insertion succeeds whenever the policy finds a victim.\<close>

lemma insertSingleLine_total:
  assumes inv: "cache_inv c" and miss: "cache_lookup c addr = None"
    and rdy: "\<And>s. s \<in> set (c_sets c) \<Longrightarrow> set_ready s (cache_env c cn)"
    and ev: "block_class ev = PR_L2_CACHE \<Longrightarrow> c_cache_type c = PR_L2_CACHE"
    and fill: "\<And>f. fill = Some f \<Longrightarrow> unat (cb_blocksize c) \<le> length f"
  shows "\<exists>x. insertSingleLine addr fill ev evb cn c = Some x"
proof -
  obtain i s where sp: "splitAddress c addr = Some (block_of c addr, i)" and s: "get_set c i = Some s" and sl: "s = c_sets c ! unat i"
    and il: "unat i < length (c_sets c)" and il2: "unat i < unat (cb_num_sets c)" and gd: "set_good c s"
    by (rule cache_split [OF inv])
  let ?t = "block_of c addr" and ?b = "setTag (block_of c addr) (cache_block_create (c_cache_type c))"
  have g: "geometry_ok c" using inv by (simp add: cache_inv_def)
  have sg: "set_wf (c_cache_type c) s" "tags_distinct s" "set_inv s (cache_env c None)" "cs_blocksize s = cb_blocksize c"
    using gd by (auto simp: set_good_def)
  have iv: "set_inv s (cache_env c cn)" using sets.inv_cong [OF sg(3), of s "cache_env c cn"] env_shape_cache_env by simp
  have rd: "set_ready s (cache_env c cn)" using rdy sl il by simp
  have bc: "block_class ?b = c_cache_type c" by simp
  have fl: "\<And>f. fill = Some f \<Longrightarrow> unat (cs_blocksize s) \<le> length f" using fill sg(4) by simp
  obtain r s' e' where si: "CacheSet_insert getReplacementIndex ?b fill ev evb s (cache_env c cn) = Some (r, s', e')"
  proof -
    have "\<exists>x. CacheSet_insert getReplacementIndex ?b fill ev evb s (cache_env c cn) = Some x"
      by (rule sets.insert_total [OF sg(1) iv rd bc]) (use ev fl in auto)
    then show thesis using that by auto
  qed
  have nb: "getTag ?b \<noteq> NOT 0" "set_map s (getTag ?b) = None"
    using block_of_valid [OF inv] miss sp s by (simp_all add: cache_lookup_def)
  note sps = sets.insert_spec [OF sg(1,2) iv nb bc si]
  have "set_map s' ?t \<noteq> None" using sps(7) by auto
  then obtain li where "CacheSet_find s' ?t = Some li" by (auto simp: set_map_def split: if_splits)
  then show ?thesis using sp s si tagToAddress_total [OF g]
    by (cases "c_fault_injector c") (simp_all add: insertSingleLine_def Let_def postWrite_def)
qed


text \<open>An access changes the order of replacement and the data, and finds the line exactly when it is there.\<close>

lemma preRead_data_ok: "preRead f bytes off d = Some (f', d') \<Longrightarrow> data_ok a b d \<Longrightarrow> data_ok a b d'"
  by (cases f) (auto simp: preRead_def data_ok_def Let_def split_beta split: if_splits bind_splits option.splits)

lemma set_map_cong: "cs_blocks s' = cs_blocks s \<Longrightarrow> cs_associativity s' = cs_associativity s \<Longrightarrow> set_map s' = set_map s"
  by (simp add: set_map_def CacheSet_find_def fun_eq_iff)

lemma tags_distinct_cong: "cs_blocks s' = cs_blocks s \<Longrightarrow> tags_distinct s' = tags_distinct s"
  by (simp add: tags_distinct_def)

lemma put_set_same_lines:
  assumes inv: "cache_inv c" and sp: "splitAddress c a = Some (t, i)" and s: "get_set c i = Some s"
    and wf: "set_wf (c_cache_type c) s'" and iv: "set_inv s' e'" and l: "cs_blocks s' = cs_blocks s"
    and a: "cs_associativity s' = cs_associativity s" "cs_blocksize s' = cs_blocksize s"
    and sh: "env_shape e' = env_shape (cache_env c None)" and c': "c' = (put_set i s' e' c)\<lparr>c_fault_injector := fi\<rparr>"
  shows "cache_inv c' \<and> block_of c' = block_of c \<and> cache_lookup c' = cache_lookup c"
proof -
  have il: "unat i < length (c_sets c)" "s = c_sets c ! unat i" using s by (auto simp: get_set_def split: if_splits)
  have "set_good c s" using inv il by (simp add: cache_inv_def)
  then have td: "tags_distinct s'" using tags_distinct_cong [OF l] by (simp add: set_good_def)
  note sm = set_map_cong [OF l a(1)]
  have mm: "\<forall>x. set_map s' x \<noteq> None \<longrightarrow> x = t \<or> set_map s x \<noteq> None" by (simp add: sm)
  note p = put_set_inv [OF inv sp s wf td iv a sh mm c']
  have "cache_lookup c' b = cache_lookup c b" for b
  proof -
    obtain j sj where b: "splitAddress c b = Some (block_of c b, j)" "get_set c j = Some sj" "cache_lookup c b = set_map sj (block_of c b)"
      by (rule cache_lookup_eq [OF inv])
    show ?thesis using p(2) [OF b(1)] b s by (auto simp: sm)
  qed
  moreover have "block_of c' = block_of c" by (simp add: c' block_of_def fun_eq_iff)
  ultimately show ?thesis using p(1) by blast
qed

lemma accessSingleLine_spec:
  assumes inv: "cache_inv c" and acc: "accessSingleLine addr access_type buff bytes ur c = Some (pos, out, c')"
  shows "cache_inv c' \<and> block_of c' = block_of c \<and> cache_lookup c' = cache_lookup c \<and> (pos \<noteq> None \<longleftrightarrow> cache_lookup c addr \<noteq> None)"
proof -
  obtain i s where sp: "splitAddress c addr = Some (block_of c addr, i)" and s: "get_set c i = Some s"
    and lk: "cache_lookup c addr = set_map s (block_of c addr)" and gd: "set_good c s"
    by (rule cache_lookup_eq [OF inv])
  have sg: "set_wf (c_cache_type c) s" "set_inv s (cache_env c None)" using gd by (auto simp: set_good_def)
  let ?t = "block_of c addr"
  obtain off where so: "splitAddress_offset c addr = Some (?t, i, off)" using sp by (simp add: splitAddress_offset_def Let_def)
  show ?thesis
  proof (cases "CacheSet_find s ?t")
    case None
    then show ?thesis using acc inv so s lk by (simp add: accessSingleLine_def set_map_def)
  next
    case (Some li)
    have hit: "cache_lookup c addr \<noteq> None" using lk Some block_of_valid [OF inv] by (simp add: set_map_def)
    have ll: "li < length (cs_blocks s)" using CacheSet_find_Some [OF sg(1) Some] by simp
    note st = acc [unfolded accessSingleLine_def so bind.bind_lunit prod.case s Some option.case]
    show ?thesis
    proof (cases access_type)
      case LOAD
      from st LOAD obtain fi d where fd: "(case c_fault_injector c of None \<Rightarrow> Some (None, cs_data s)
          | Some f \<Rightarrow> map_option (apfst Some) (preRead f bytes (data_index s li off) (cs_data s))) = Some (fi, d)"
        by (auto simp del: map_option_eq_Some split: bind_splits)
      note st2 = st [unfolded LOAD access_t.case fd bind.bind_lunit prod.case]
      from st2 obtain s2 e2 where r: "CacheSet_read_line updateReplacementIndex li off (buff \<noteq> None) bytes ur (s\<lparr>cs_data := d\<rparr>) (cache_env c None) = Some (out, s2, e2)"
        and c': "c' = (put_set i s2 e2 c)\<lparr>c_fault_injector := fi\<rparr>" and pos: "pos = Some (unat i, li)"
        by (auto split: bind_splits)
      have "data_ok (cs_associativity s) (cs_blocksize s) d"
        using fd sg(1) preRead_data_ok by (auto simp: set_wf_def split: option.splits)
      then have wf1: "set_wf (c_cache_type c) (s\<lparr>cs_data := d\<rparr>)" using sg(1) by (simp add: set_wf_def)
      have iv1: "set_inv (s\<lparr>cs_data := d\<rparr>) (cache_env c None)" using sets.inv_cong [OF sg(2)] by simp
      have ll1: "li < length (cs_blocks (s\<lparr>cs_data := d\<rparr>))" using ll by simp
      note rs = sets.read_line_spec [OF wf1 iv1 ll1 r]
      have f: "set_wf (c_cache_type c) s2" "cs_blocks s2 = cs_blocks s" "cs_associativity s2 = cs_associativity s" "cs_blocksize s2 = cs_blocksize s"
        using wf1 by (subst rs(3), simp)+
      show ?thesis using put_set_same_lines [OF inv sp s f(1) rs(1) f(2-4) rs(2) c'] pos hit by simp
    next
      case STORE
      note st1 = st [unfolded STORE access_t.case]
      from st1 obtain s1 e1 where w: "CacheSet_write_line updateReplacementIndex li off buff bytes ur s (cache_env c None) = Some (s1, e1)"
        by (auto split: bind_splits)
      note st2 = st1 [unfolded w bind.bind_lunit prod.case Let_def]
      have "\<exists>fi. c' = (put_set i s1 e1 c)\<lparr>c_fault_injector := fi\<rparr> \<and> pos = Some (unat i, li)"
        using st2 by (cases "c_fault_injector c") (auto simp: postWrite_def)
      then obtain fi where c': "c' = (put_set i s1 e1 c)\<lparr>c_fault_injector := fi\<rparr>" and pos: "pos = Some (unat i, li)" by blast
      note ws = sets.write_line_spec [OF sg ll w]
      show ?thesis using put_set_same_lines [OF inv sp s ws(1-3,5,6,4) c'] pos hit by simp
    qed
  qed
qed


section \<open>A new cache\<close>

lemma create_sets_Some: "create_sets n f = Some ss \<Longrightarrow> length ss = n \<and> (\<forall>i < n. f i = Some (ss ! i))"
proof (induction n arbitrary: ss)
  case (Suc n)
  then obtain xs s where x: "create_sets n f = Some xs" "f n = Some s" "ss = xs @ [s]" by (auto split: bind_splits)
  then show ?case using Suc.IH [OF x(1)] by (auto simp: nth_append less_Suc_eq)
qed simp

lemma CacheSet_new_simps [simp]:
  "cs_policy (CacheSet_new t assoc bs fault p) = p" "cs_associativity (CacheSet_new t assoc bs fault p) = assoc"
  "cs_blocksize (CacheSet_new t assoc bs fault p) = bs"
  by (simp_all add: CacheSet_new_def)

lemma CacheSet_new_wf:
  assumes "0 < unat assoc" and "unat assoc < 2 ^ 31" and "unat assoc * unat bs < 2 ^ 32"
  shows "set_wf t (CacheSet_new t assoc bs fault p)" "tags_distinct (CacheSet_new t assoc bs fault p)"
    "set_map (CacheSet_new t assoc bs fault p) = (\<lambda>_. None)"
proof -
  have "unat (assoc * bs) = unat assoc * unat bs" using assms(3) by (simp add: unat_mult_lem [THEN iffD1])
  then show wf: "set_wf t (CacheSet_new t assoc bs fault p)" using assms by (simp add: set_wf_def CacheSet_new_def data_ok_def)
  show "tags_distinct (CacheSet_new t assoc bs fault p)" by (simp add: tags_distinct_def CacheSet_new_def isValid_def CacheBlockInfo_new_def)
  show "set_map (CacheSet_new t assoc bs fault p) = (\<lambda>_. None)"
  proof (rule ext)
    fix x
    have "x \<noteq> NOT 0 \<Longrightarrow> CacheSet_find (CacheSet_new t assoc bs fault p) x = None"
      unfolding CacheSet_find_None [OF wf] by (auto simp: CacheSet_new_def CacheBlockInfo_new_def)
    then show "set_map (CacheSet_new t assoc bs fault p) x = None" by (simp add: set_map_def)
  qed
qed

lemma si_ok_new: "num \<noteq> 0 \<Longrightarrow> si_ok assoc (unat num) \<lparr>set_info = Some (CacheSetInfoLRU_new assoc num), cntlr = cn\<rparr>"
proof -
  assume "num \<noteq> 0"
  then have "0 < unat num" by (simp add: unat_gt_0)
  moreover have "num > 1 \<longleftrightarrow> 1 < unat num" by (simp add: word_less_nat_alt)
  ultimately show ?thesis by (auto simp: si_ok_def env_shape_def CacheSetInfoLRU_new_def)
qed

text \<open>The policies start in their invariant, for up to 256 ways and at least one attempt.\<close>

lemma create_policy_inv:
  assumes "create_policy cfg seed cfgname policy assoc = Some p" and "0 < unat assoc" and "unat assoc \<le> 256"
    and "getNumQBSAttempts policy cfg cfgname \<noteq> 0"
    and "si = (if policy \<in> {LRU, LRU_QBS, SRRIP, SRRIP_QBS} then Some (CacheSetInfoLRU_new assoc (getNumQBSAttempts policy cfg cfgname)) else None)"
  shows "set_inv (CacheSet_new t assoc bs fault p) \<lparr>set_info = si, cntlr = None\<rparr>"
proof -
  let ?s = "CacheSet_new t assoc bs fault p" and ?n = "getNumQBSAttempts policy cfg cfgname"
  have n: "0 < unat ?n" using assms(4) by (simp add: unat_gt_0)
  have rr: "unat (assoc - 1) < unat assoc" using assms(2) unat_minus_one [of assoc] by fastforce
  note ap = age_perm_init [OF assms(3)] and so = si_ok_new [OF assms(4), of assoc None]
  show ?thesis using assms(1,2,3,5) n rr ap so unfolding set_inv_def
    by (cases policy) (auto simp: create_policy_def rr_inv_def lru_inv_alt nru_inv_def mru_inv_def nmru_inv_def plru_inv_def srrip_inv_def random_inv_def
        CacheSetRoundRobin_new_def CacheSetLRU_new_def CacheSetNRU_new_def CacheSetMRU_new_def CacheSetNMRU_new_def CacheSetPLRU_new_def CacheSetSRRIP_new_def
        Let_def split: if_splits)
qed

lemma Cache_new_inv:
  assumes new: "Cache_new cfg seeds name cfgname num_sets assoc bs policy_name ct hash fi fm ahl = Some c"
    and dims: "0 < unat assoc" "unat assoc \<le> 256" "1 < unat bs" "unat assoc * unat bs < 2 ^ 32"
    and hash: "hash = HASH_XOR_MOD \<longrightarrow> isPower2 num_sets" "hash = HASH_MER_MOD \<longrightarrow> num_sets \<noteq> 1"
    and ahl: "\<forall>a. ahl = Some a \<longrightarrow> ahl_wf a \<and> floorLog2 bs \<le> int (unat (ahl_param a))"
    and qbs: "\<forall>p. parsePolicyType policy_name = Some p \<longrightarrow> getNumQBSAttempts p cfg cfgname \<noteq> 0"
  shows "cache_inv c" and "cache_lookup c = (\<lambda>_. None)"
proof -
  from new obtain b si ss where b: "CacheBase_new name num_sets assoc bs hash ahl = Some b"
    and si: "createCacheSetInfo cfg cfgname policy_name assoc = Some si"
    and ss: "create_sets (unat num_sets) (\<lambda>i. createCacheSet cfg (seeds i) fm cfgname policy_name ct assoc bs) = Some ss"
    and c: "c = CacheBase.extend b \<lparr>c_enabled = False, c_num_accesses = 0, c_num_hits = 0, c_cache_type = ct, c_sets = ss, c_set_info = si, c_fault_injector = fi\<rparr>"
    by (auto simp: Cache_new_def split: bind_splits)
  have bf: "cb_num_sets b = num_sets" "cb_associativity b = assoc" "cb_blocksize b = bs"
    using b by (auto simp: CacheBase_new_def Let_def split: if_splits)
  have cf: "cb_num_sets c = num_sets" "cb_associativity c = assoc" "cb_blocksize c = bs" "cb_hash c = cb_hash b" "cb_log_num_sets c = cb_log_num_sets b"
    "cb_log_blocksize c = cb_log_blocksize b" "cb_ahl c = cb_ahl b" "c_sets c = ss" "c_cache_type c = ct" "c_set_info c = si"
    by (simp_all add: c CacheBase.extend_def bf)
  have "bs \<noteq> 0" using dims(3) by (intro notI) simp
  then have "geometry_ok b" using CacheBase_new_geometry [OF b] hash ahl by blast
  then have g: "geometry_ok c" using same_geometry(2) [of c b] cf bf by simp
  note cs = create_sets_Some [OF ss]
  obtain pol where pol: "parsePolicyType policy_name = Some pol"
    and si': "si = (if pol \<in> {LRU, LRU_QBS, SRRIP, SRRIP_QBS} then Some (CacheSetInfoLRU_new assoc (getNumQBSAttempts pol cfg cfgname)) else None)"
    using si unfolding createCacheSetInfo_def by (cases "parsePolicyType policy_name") auto
  have each: "\<exists>p. create_policy cfg (seeds i) cfgname pol assoc = Some p \<and> ss ! i = CacheSet_new ct assoc bs fm p" if "i < length ss" for i
  proof -
    have "createCacheSet cfg (seeds i) fm cfgname policy_name ct assoc bs = Some (ss ! i)" using cs that by auto
    then show ?thesis unfolding createCacheSet_def pol by (auto split: bind_splits)
  qed
  have a31: "unat assoc < 2 ^ 31" using dims(2) by simp
  have good: "set_good c s" if "s \<in> set ss" for s
  proof -
    from that obtain i where "i < length ss" "s = ss ! i" by (auto simp: in_set_conv_nth)
    then obtain p where p: "create_policy cfg (seeds i) cfgname pol assoc = Some p" "s = CacheSet_new ct assoc bs fm p" using each by blast
    have "set_inv s (cache_env c None)"
      using create_policy_inv [OF p(1) dims(1,2) _ si'] qbs pol by (simp add: p(2) cache_env_def cf)
    then show ?thesis using CacheSet_new_wf(1,2) [OF dims(1) a31 dims(4), of ct fm p] by (simp add: set_good_def p(2) cf)
  qed
  have empty: "set_map (ss ! i) = (\<lambda>_. None)" if "i < length ss" for i
    using each [OF that] CacheSet_new_wf(3) [OF dims(1) a31 dims(4)] by auto
  show "cache_inv c" using g dims(3) cs good empty by (auto simp: cache_inv_def placed_def cf)
  show "cache_lookup c = (\<lambda>_. None)" using empty by (auto simp: cache_lookup_def get_set_def cf fun_eq_iff split: option.splits)
qed

section \<open>Writes through the pointer to a line\<close>

text \<open>
  A lookup returns a pointer to the line, through which the caller changes the state, owner, options or usage of the
  line (\<^verbatim>\<open>setCState\<close>, \<^verbatim>\<open>setOwner\<close>, \<^verbatim>\<open>setOption\<close>, \<^verbatim>\<open>updateUsage\<close>), and never its tag.
\<close>

definition CacheSet_edit :: "nat \<Rightarrow> (cache_block \<Rightarrow> cache_block) \<Rightarrow> 'p cache_set \<Rightarrow> 'p cache_set" where
  "CacheSet_edit j f s = s\<lparr>cs_blocks := (cs_blocks s)[j := f (cs_blocks s ! j)]\<rparr>"

definition edit_line :: "u64 \<Rightarrow> (cache_block \<Rightarrow> cache_block) \<Rightarrow> Cache \<Rightarrow> Cache option" where
  "edit_line addr f c = do {
     (tag, i) \<leftarrow> splitAddress c addr;
     s \<leftarrow> get_set c i;
     j \<leftarrow> CacheSet_find s tag;
     Some (put_set i (CacheSet_edit j f s) (cache_env c None) c) }"

definition keeps_tag :: "(cache_block \<Rightarrow> cache_block) \<Rightarrow> bool" where
  "keeps_tag f \<longleftrightarrow> (\<forall>b. getTag (f b) = getTag b \<and> block_class (f b) = block_class b)"

lemma keeps_tag_setters: "keeps_tag (setCState st)" "keeps_tag (setOwner w)"
  by (simp_all add: keeps_tag_def setCState_def setOwner_def)

lemma CacheSet_edit_simps [simp]:
  "cs_associativity (CacheSet_edit j f s) = cs_associativity s" "cs_blocksize (CacheSet_edit j f s) = cs_blocksize s"
  "cs_policy (CacheSet_edit j f s) = cs_policy s" "cs_data (CacheSet_edit j f s) = cs_data s"
  "cs_blocks (CacheSet_edit j f s) = (cs_blocks s)[j := f (cs_blocks s ! j)]"
  by (simp_all add: CacheSet_edit_def)

lemma CacheSet_edit_spec:
  assumes wf: "set_wf t s" and td: "tags_distinct s" and j: "CacheSet_find s tag = Some j" and v: "tag \<noteq> NOT 0" and f: "keeps_tag f"
  shows "set_wf t (CacheSet_edit j f s)" and "tags_distinct (CacheSet_edit j f s)"
    and "set_map (CacheSet_edit j f s) = (set_map s)(tag := map_option f (set_map s tag))"
proof -
  have jl: "j < length (cs_blocks s)" and jt: "getTag (cs_blocks s ! j) = tag" using CacheSet_find_Some [OF wf j] by auto
  have tag: "getTag ((cs_blocks s)[j := f (cs_blocks s ! j)] ! k) = getTag (cs_blocks s ! k)" if "k < length (cs_blocks s)" for k
    using that f by (cases "k = j") (auto simp: keeps_tag_def)
  have cl: "block_class ((cs_blocks s)[j := f (cs_blocks s ! j)] ! k) = block_class (cs_blocks s ! k)" if "k < length (cs_blocks s)" for k
    using that f by (cases "k = j") (auto simp: keeps_tag_def)
  show wf': "set_wf t (CacheSet_edit j f s)" using wf cl unfolding set_wf_def by (auto simp: all_set_conv_all_nth simp del: nth_list_update)
  show td': "tags_distinct (CacheSet_edit j f s)"
    using td unfolding tags_distinct_def isValid_def by (simp add: tag del: nth_list_update)
  show "set_map (CacheSet_edit j f s) = (set_map s)(tag := map_option f (set_map s tag))"
  proof (intro ext)
    fix x
    have fx: "CacheSet_find (CacheSet_edit j f s) x = CacheSet_find s x" for x
      unfolding CacheSet_find_def CacheSet_edit_simps
    proof -
      have le: "down_count (cs_associativity s) \<le> length (cs_blocks s)" using wf by (simp add: set_wf_def down_count_eq)
      have "find_down ((cs_blocks s)[j := f (cs_blocks s ! j)]) x n = find_down (cs_blocks s) x n" if "n \<le> length (cs_blocks s)" for n
        using that by (induction n) (auto simp: tag simp del: nth_list_update)
      from this [OF le] show "find_down ((cs_blocks s)[j := f (cs_blocks s ! j)]) x (down_count (cs_associativity s)) = find_down (cs_blocks s) x (down_count (cs_associativity s))" .
    qed
    show "set_map (CacheSet_edit j f s) x = ((set_map s)(tag := map_option f (set_map s tag))) x"
    proof (cases "x = tag")
      case True
      then show ?thesis using j jl v by (simp add: set_map_def fx)
    next
      case False
      then have "CacheSet_find s x \<noteq> Some j" using jt CacheSet_find_Some [OF wf, of x j] by blast
      then show ?thesis using False by (cases "CacheSet_find s x") (auto simp: set_map_def fx)
    qed
  qed
qed

lemma edit_line_spec:
  assumes inv: "cache_inv c" and f: "keeps_tag f" and e: "edit_line addr f c = Some c'"
  shows "cache_inv c'" and "block_of c' = block_of c"
    and "cache_lookup c' = (\<lambda>b. if block_of c b = block_of c addr then map_option f (cache_lookup c b) else cache_lookup c b)"
proof -
  obtain i s where sp: "splitAddress c addr = Some (block_of c addr, i)" and s: "get_set c i = Some s" and gd: "set_good c s"
    by (rule cache_split [OF inv, of addr])
  obtain j where j: "CacheSet_find s (block_of c addr) = Some j" and c': "c' = put_set i (CacheSet_edit j f s) (cache_env c None) c"
    using e sp s by (auto simp: edit_line_def split: option.splits bind_splits)
  have sg: "set_wf (c_cache_type c) s" "tags_distinct s" "set_inv s (cache_env c None)" using gd by (auto simp: set_good_def)
  note ed = CacheSet_edit_spec [OF sg(1,2) j block_of_valid [OF inv] f]
  have iv: "set_inv (CacheSet_edit j f s) (cache_env c None)" by (rule sets.inv_cong [OF sg(3)]) simp_all
  have mm: "\<forall>x. set_map (CacheSet_edit j f s) x \<noteq> None \<longrightarrow> x = block_of c addr \<or> set_map s x \<noteq> None" by (auto simp: ed(3))
  have c'': "c' = (put_set i (CacheSet_edit j f s) (cache_env c None) c)\<lparr>c_fault_injector := c_fault_injector c\<rparr>" by (simp add: c' put_set_def)
  note p = put_set_inv [OF inv sp s ed(1,2) iv CacheSet_edit_simps(1,2) refl mm c'']
  show "cache_inv c'" by (rule p(1))
  show "block_of c' = block_of c" by (simp add: c' block_of_def fun_eq_iff)
  show "cache_lookup c' = (\<lambda>b. if block_of c b = block_of c addr then map_option f (cache_lookup c b) else cache_lookup c b)"
  proof
    fix b
    obtain k sk where b: "splitAddress c b = Some (block_of c b, k)" "get_set c k = Some sk" "cache_lookup c b = set_map sk (block_of c b)"
      by (rule cache_lookup_eq [OF inv])
    have q: "cache_lookup c' b = (if k = i then set_map (CacheSet_edit j f s) (block_of c b) else cache_lookup c b)" by (rule p(2) [OF b(1)])
    have "i = k" if "block_of c b = block_of c addr" using same_tag_same_set [OF inv sp] b(1) that by simp
    then show "cache_lookup c' b = (if block_of c b = block_of c addr then map_option f (cache_lookup c b) else cache_lookup c b)"
      using q b s by (auto simp: ed(3))
  qed
qed

end
