(* ===== verification/Sniper_Properties.thy ===== *)
theory Sniper_Properties
  imports Sniper_Cache
begin

text \<open>
  What the cache components guarantee, stated over their definitions, each with an application to a
  concrete cache or set; and the cases in which an operation does not do what it is meant to.
\<close>

section \<open>Integer utilities and addresses\<close>

text \<open>\<open>floorLog2\<close> of a nonzero number, computed in five halving steps, is the position of its highest
  set bit.\<close>

theorem floorLog2_highest_bit:
  assumes "n \<noteq> 0"
  shows "0 \<le> floorLog2 n \<and> floorLog2 n < 32 \<and> bit n (nat (floorLog2 n)) \<and> (\<forall>i. bit n i \<longrightarrow> i \<le> nat (floorLog2 n))"
proof -
  let ?k = "nat (floorLog2 n)"
  note b = floorLog2_bounds [OF assms]
  have u: "\<not> bit n i" if "?k < i" for i
  proof -
    have "unat n < 2 ^ i" using b that by (meson Suc_leI less_le_trans one_le_numeral power_increasing)
    then show ?thesis using bit_nat_less_exp [of "unat n" i i] by (auto simp: bit_simps)
  qed
  have "unat n div 2 ^ ?k = 1"
  proof -
    have "2 ^ ?k \<le> unat n" "unat n < 2 * 2 ^ ?k" using b by simp_all
    then show ?thesis by (intro div_nat_eqI) simp_all
  qed
  then have "bit (unat n) ?k" by (simp add: bit_iff_odd)
  then have "bit n ?k" by (auto simp: bit_simps)
  then show ?thesis using b u floorLog2_less_32 [OF assms] by (meson linorder_not_le)
qed

theorem floorLog2_highest_bit_witness: "floorLog2 96 = 6 \<and> bit (96 :: u32) 6"
proof -
  have "floorLog2 96 = 6" by code_simp
  then show ?thesis using floorLog2_highest_bit [of 96] by simp
qed

text \<open>C34: two different addresses with the same home node have different linear addresses, so the blocks of
  a home are numbered without collision.\<close>

theorem linear_address_unique:
  assumes "AddressHomeLookup_new param cores block_size = Some a" and "distinct cores" and "cores \<noteq> []" and "length cores < 2 ^ 31"
    and "getHome a x = getHome a y" and "getLinearAddress a x = getLinearAddress a y"
  shows "x = y"
proof -
  have "ahl_core_list a = cores" using assms(1) by (auto simp: AddressHomeLookup_new_def split: bind_splits if_splits)
  then show ?thesis using linear_address_injective [OF AddressHomeLookup_new_wf [OF assms(1,3,4)]] assms(2,5,6) by simp
qed

definition demo_ahl :: AddressHomeLookup where
  "demo_ahl = \<lparr>ahl_param = 6, ahl_mask = 63, ahl_core_list = [0, 4], ahl_total_modules = 2, ahl_cache_block_size = 64\<rparr>"

theorem linear_address_unique_witness: "getHome demo_ahl 0x1040 = Some 4 \<and> getLinearAddress demo_ahl 0x1040 = Some 0x800 \<and> getHome demo_ahl 0x1000 \<noteq> Some 4"
proof -
  have n: "AddressHomeLookup_new 6 [0, 4] 64 = Some demo_ahl" by code_simp
  have v: "getHome demo_ahl 0x1040 = Some 4" "getLinearAddress demo_ahl 0x1040 = Some 0x800" "getLinearAddress demo_ahl 0x1000 = Some 0x800" by code_simp+
  have "getHome demo_ahl 0x1000 \<noteq> Some 4"
    using linear_address_unique [OF n, of "0x1000" "0x1040"] v by auto
  then show ?thesis using v by simp
qed

text \<open>C33: under every hash function, for a geometry that the constructor accepts with a suitable number of
  sets, every address has a set index below the number of sets.\<close>

theorem set_index_in_range:
  assumes "CacheBase_new name num_sets assoc bs hash None = Some c" and "bs \<noteq> 0"
    and "hash = HASH_XOR_MOD \<longrightarrow> isPower2 num_sets" and "hash = HASH_MER_MOD \<longrightarrow> num_sets \<noteq> 1"
  shows "\<exists>tag i. splitAddress c addr = Some (tag, i) \<and> unat i < unat num_sets"
proof -
  have "geometry_ok c" using CacheBase_new_geometry [OF assms(1,2)] assms(3,4) by simp
  moreover have "cb_num_sets c = num_sets" using assms(1) by (auto simp: CacheBase_new_def Let_def split: if_splits)
  ultimately show ?thesis using splitAddress_total [of c addr] by auto
qed

definition demo_base :: "hash_t \<Rightarrow> u32 \<Rightarrow> CacheBase" where
  "demo_base h n = \<lparr>cb_name = ''L1'', cb_cache_size = ucast n * 256, cb_associativity = 4, cb_blocksize = 64, cb_hash = h,
     cb_num_sets = n, cb_ahl = None, cb_log_blocksize = 6, cb_log_num_sets = word_of_int (floorLog2 n)\<rparr>"

theorem set_index_in_range_witness: "\<exists>tag i. splitAddress (demo_base HASH_PRIME_DIS 5) 0xdeadbeef = Some (tag, i) \<and> unat i < 5"
proof -
  have "CacheBase_new ''L1'' 5 4 64 HASH_PRIME_DIS None = Some (demo_base HASH_PRIME_DIS 5)" by code_simp
  from set_index_in_range [OF this, of "0xdeadbeef"] show ?thesis by simp
qed

text \<open>The restriction to powers of two is needed for the exclusive-or hash: with five sets the constructor
  succeeds, and the block 14 is given the set index 7, outside the array of sets.\<close>

theorem xor_hash_out_of_range:
  "CacheBase_new ''L1'' 5 4 64 HASH_XOR_MOD None = Some (demo_base HASH_XOR_MOD 5)
   \<and> splitAddress (demo_base HASH_XOR_MOD 5) (14 * 64) = Some (14, 7)"
  by code_simp

text \<open>C32: the address rebuilt from the tag of an address is the first address of its block, and splits into
  the same tag and set.\<close>

theorem tag_address_roundtrip:
  assumes "geometry_ok c" and "splitAddress c a = Some (t, i)"
  shows "\<exists>a'. tagToAddress c t = Some a' \<and> a' = a AND NOT (mask (unat (cb_log_blocksize c))) \<and> splitAddress c a' = Some (t, i)"
  by (rule tagToAddress_split [OF assms])

theorem tag_address_roundtrip_witness: "\<exists>i. splitAddress (demo_base HASH_MOD 5) 0x1234 = Some (0x48, i) \<and> splitAddress (demo_base HASH_MOD 5) 0x1200 = Some (0x48, i)"
proof -
  have n: "CacheBase_new ''L1'' 5 4 64 HASH_MOD None = Some (demo_base HASH_MOD 5)" by code_simp
  have g: "geometry_ok (demo_base HASH_MOD 5)" by (rule CacheBase_new_geometry [OF n]) simp_all
  have s: "splitAddress (demo_base HASH_MOD 5) 0x1234 = Some (0x48, 2)" by code_simp
  have t: "tagToAddress (demo_base HASH_MOD 5) 0x48 = Some 0x1200" by code_simp
  show ?thesis using tag_address_roundtrip [OF g s] s t by auto
qed


section \<open>Usage bits\<close>

text \<open>Recording an access to \<open>sz\<close> bytes at \<open>offset\<close> of a 64-byte line marks exactly the 8-byte elements it
  touches, keeps every other field, and reports whether one of them was unused before.\<close>

theorem updateUsage_exact:
  assumes "0 < unat sz" and "unat offset + unat sz \<le> 64"
  shows "\<exists>b'. updateUsage offset sz b = Some (\<exists>i. unat offset div 8 \<le> i \<and> i \<le> (unat offset + unat sz - 1) div 8 \<and> \<not> bit (m_used b) i, b')
    \<and> (\<forall>i. bit (m_used b') i \<longleftrightarrow> bit (m_used b) i \<or> (unat offset div 8 \<le> i \<and> i \<le> (unat offset + unat sz - 1) div 8))
    \<and> b' = b\<lparr>m_used := m_used b'\<rparr>"
proof (rule updateUsage_bits [OF assms, of b])
  fix b' assume "updateUsage offset sz b = Some (\<exists>i. unat offset div 8 \<le> i \<and> i \<le> (unat offset + unat sz - 1) div 8 \<and> \<not> bit (m_used b) i, b')"
    "\<And>i. bit (m_used b') i \<longleftrightarrow> bit (m_used b) i \<or> (unat offset div 8 \<le> i \<and> i \<le> (unat offset + unat sz - 1) div 8)"
    "b' = b\<lparr>m_used := m_used b'\<rparr>"
  then show ?thesis by blast
qed

theorem updateUsage_exact_witness:
  "\<exists>r b'. updateUsage 12 8 (CacheBlockInfo_new 5 SHARED 0) = Some (r, b') \<and> bit (m_used b') 1 \<and> bit (m_used b') 2 \<and> \<not> bit (m_used b') 3"
proof -
  let ?B = "CacheBlockInfo_new 5 SHARED 0"
  have h: "0 < unat (8 :: u32)" "unat (12 :: u32) + unat (8 :: u32) \<le> 64" and u: "unat (8 :: u32) = 8" "unat (12 :: u32) = 12" by simp_all
  have z: "\<not> bit (m_used ?B) i" for i by (simp add: CacheBlockInfo_new_def)
  from updateUsage_exact [OF h, of ?B, unfolded u] obtain b' where
      "updateUsage 12 8 ?B = Some (\<exists>i. 12 div 8 \<le> i \<and> i \<le> (12 + 8 - 1) div 8 \<and> \<not> bit (m_used ?B) i, b')"
    and b: "\<forall>i. bit (m_used b') i \<longleftrightarrow> bit (m_used ?B) i \<or> (12 div 8 \<le> i \<and> i \<le> (12 + 8 - 1) div 8)" by blast
  moreover have "bit (m_used b') 1" "bit (m_used b') 2" "\<not> bit (m_used b') 3"
    using b z [of 3] by (simp_all del: One_nat_def)
  ultimately show ?thesis by blast
qed

section \<open>Replacement\<close>

text \<open>C15: the ages of the ways stay a permutation, and an access acts on the list of ways from the most to the
  least recently used by moving its way to the front.\<close>

theorem lru_refines_move_to_front:
  assumes "age_perm n ages" and "w < n"
  shows "age_perm n (moveToMRU n w ages) \<and> recency (moveToMRU n w ages) = w # remove1 w (recency ages)"
  using moveToMRU_perm [OF assms] recency_moveToMRU [OF assms] by simp

theorem lru_refines_move_to_front_witness: "recency (moveToMRU 4 2 [3, 0, 2, 1]) = [2, 1, 3, 0]"
proof -
  have p: "age_perm 4 [3, 0, 2, 1]" by code_simp
  have r: "recency [3, 0, 2, 1] = [1, 3, 2, 0]" by code_simp
  show ?thesis using lru_refines_move_to_front [OF p, of 2] r by simp
qed


definition demo_block :: "u64 \<Rightarrow> cache_block" where
  "demo_block tag = PrL1CacheBlockInfo (CacheBlockInfo_new tag SHARED 0)"

definition demo_lru_set :: "CacheSetLRU cache_set" where
  "demo_lru_set = \<lparr>cs_blocks = map demo_block [10, 11, 12], cs_data = None, cs_associativity = 3, cs_blocksize = 64,
     cs_policy = CacheSetLRU_new 3 1\<rparr>"

definition demo_env :: repl_env where
  "demo_env = \<lparr>set_info = Some (CacheSetInfoLRU_new 3 1), cntlr = None\<rparr>"



text \<open>C22: the random policy draws until it meets a line that may be replaced. Its generator has the full period of
  \<open>2 ^ 32\<close>, so for up to 32768 ways the search ends whenever there is such a line, with a way of the set that
  is invalid or may be replaced.\<close>

theorem random_victim_found:
  assumes "0 < unat (cs_associativity s)" and "unat (cs_associativity s) \<le> 32768"
    and "i < unat (cs_associativity s)" and "isValidReplacement s i"
  shows "\<exists>v seed'. random_victim s seed = Some (v, seed') \<and> v < unat (cs_associativity s)
    \<and> (\<not> isValid (binfo (cs_blocks s ! v)) \<or> isValidReplacement s v)"
proof -
  have nz: "cs_associativity s \<noteq> 0" using assms(1) by auto
  have "replaceable s e" for e using assms(3,4) by (auto simp: replaceable_def)
  then obtain v seed' where v: "random_victim s seed = Some (v, seed')" using random_total [OF assms(1,2)] by fastforce
  then show ?thesis using random_victim_sound [OF v nz] first_invalid_Some [of s v] by (auto split: if_splits)
qed

definition demo_random_set :: "CacheSetRandom cache_set" where
  "demo_random_set = \<lparr>cs_blocks = [PrL1CacheBlockInfo (CacheBlockInfo_new 7 SHARED_UPGRADING 0), demo_block 8], cs_data = None,
     cs_associativity = 2, cs_blocksize = 64, cs_policy = 1\<rparr>"

theorem random_victim_found_witness: "\<exists>seed'. random_victim demo_random_set 1 = Some (1, seed')"
proof -
  have h: "0 < unat (cs_associativity demo_random_set)" "unat (cs_associativity demo_random_set) \<le> 32768" "1 < unat (cs_associativity demo_random_set)"
    "isValidReplacement demo_random_set 1" by (simp_all add: demo_random_set_def isValidReplacement_def demo_block_def CacheBlockInfo_new_def)
  obtain v seed' where v: "random_victim demo_random_set 1 = Some (v, seed')" "v < unat (cs_associativity demo_random_set)"
      "\<not> isValid (binfo (cs_blocks demo_random_set ! v)) \<or> isValidReplacement demo_random_set v"
    using random_victim_found [OF h] by blast
  have "v \<noteq> 0" using v(3) by (intro notI) (simp add: demo_random_set_def isValidReplacement_def isValid_def CacheBlockInfo_new_def)
  moreover have "v < 2" using v(2) by (simp add: demo_random_set_def)
  ultimately have "v = 1" by linarith
  then show ?thesis using v(1) by blast
qed

text \<open>C23: the tree of bits never points at the way that was accessed last: the victim of a full set differs from
  the way of the last hit or replacement.\<close>

theorem plru_protects_last_access:
  assumes "plru_inv s e" and "set_wf t s" and "i < length (cs_blocks s)"
    and "CacheSetPLRU_updateReplacementIndex i s e = Some (p, e')" and "\<forall>b \<in> set (cs_blocks s). isValid (binfo b)"
    and "CacheSetPLRU_getReplacementIndex (s\<lparr>cs_policy := p\<rparr>) e' = Some (v, q, e'')"
  shows "v \<noteq> i"
proof -
  have l: "length (cs_policy s) = 8" "i < unat (cs_associativity s)" using assms(1-3) by (auto simp: plru_inv_def set_wf_def)
  have u: "plru_update (cs_associativity s) i (cs_policy s) = Some p"
    using assms(4) by (auto simp: CacheSetPLRU_updateReplacementIndex_def split: bind_splits)
  have "first_invalid (s\<lparr>cs_policy := p\<rparr>) = None" using assms(2,5) by (auto simp: first_invalid_None set_wf_def)
  then have "plru_victim (cs_associativity s) p = Some v"
    using assms(6) by (auto simp: CacheSetPLRU_getReplacementIndex_def split: bind_splits if_splits)
  then show ?thesis using plru_victim_not_accessed [OF l u] by blast
qed

definition demo_plru_set :: "CacheSetPLRU cache_set" where
  "demo_plru_set = \<lparr>cs_blocks = map demo_block [1, 2, 3, 4], cs_data = None, cs_associativity = 4, cs_blocksize = 64, cs_policy = replicate 8 0\<rparr>"

theorem plru_protects_last_access_witness:
  "\<exists>p v q. CacheSetPLRU_updateReplacementIndex 0 demo_plru_set demo_env = Some (p, demo_env)
    \<and> CacheSetPLRU_getReplacementIndex (demo_plru_set\<lparr>cs_policy := p\<rparr>) demo_env = Some (v, q, demo_env) \<and> v \<noteq> 0"
proof -
  have i: "plru_inv demo_plru_set demo_env" by (simp add: plru_inv_def demo_plru_set_def)
  have w: "set_wf PR_L1_CACHE demo_plru_set" by (simp add: set_wf_def demo_plru_set_def data_ok_def demo_block_def)
  have l: "0 < length (cs_blocks demo_plru_set)" by (simp add: demo_plru_set_def)
  have v: "\<forall>b \<in> set (cs_blocks demo_plru_set). isValid (binfo b)"
    by (simp add: demo_plru_set_def demo_block_def isValid_def CacheBlockInfo_new_def)
  have u: "CacheSetPLRU_updateReplacementIndex 0 demo_plru_set demo_env = Some ([1, 1, 0, 0, 0, 0, 0, 0], demo_env)"
    by (simp add: CacheSetPLRU_updateReplacementIndex_def plru_update_def demo_plru_set_def numeral_eq_Suc)
  have g: "CacheSetPLRU_getReplacementIndex (demo_plru_set\<lparr>cs_policy := [1, 1, 0, 0, 0, 0, 0, 0]\<rparr>) demo_env
      = Some (2, [0, 1, 1, 0, 0, 0, 0, 0], demo_env)"
    by (simp add: CacheSetPLRU_getReplacementIndex_def first_invalid_def plru_victim_def CacheSetPLRU_updateReplacementIndex_def plru_update_def
        demo_plru_set_def demo_block_def isValid_def CacheBlockInfo_new_def isValidReplacement_def upt_rec)
  show ?thesis using plru_protects_last_access [OF i w l u v g] u g by blast
qed

section \<open>The cache as a partial function\<close>

text \<open>The states that the operations reach from a cache; lines are inserted on misses.\<close>

inductive cache_reach :: "Cache \<Rightarrow> Cache \<Rightarrow> bool" for c0 where
  start: "cache_reach c0 c0"
| access: "cache_reach c0 c \<Longrightarrow> accessSingleLine addr access_type buff bytes ur c = Some (pos, out, c') \<Longrightarrow> cache_reach c0 c'"
| insert: "cache_reach c0 c \<Longrightarrow> peekSingleLine addr c = Some None
    \<Longrightarrow> insertSingleLine addr fill ev evb cn c = Some (r, ea, cn', c') \<Longrightarrow> cache_reach c0 c'"
| invalidate: "cache_reach c0 c \<Longrightarrow> invalidateSingleLine addr c = Some (found, c') \<Longrightarrow> cache_reach c0 c'"
| count: "cache_reach c0 c \<Longrightarrow> cache_reach c0 (updateCounters hit c)"
| hits: "cache_reach c0 c \<Longrightarrow> cache_reach c0 (updateHits n c)"
| enable: "cache_reach c0 c \<Longrightarrow> cache_reach c0 (Cache_enable c)"
| disable: "cache_reach c0 c \<Longrightarrow> cache_reach c0 (Cache_disable c)"
| edit: "cache_reach c0 c \<Longrightarrow> keeps_tag f \<Longrightarrow> edit_line addr f c = Some c' \<Longrightarrow> cache_reach c0 c'"

lemma peek_lookup:
  assumes inv: "cache_inv c"
  shows "\<exists>x. peekSingleLine addr c = Some x \<and> (x = None \<longleftrightarrow> cache_lookup c addr = None)"
proof -
  obtain i s where "splitAddress c addr = Some (block_of c addr, i)" "get_set c i = Some s"
    "cache_lookup c addr = set_map s (block_of c addr)" "set_good c s" by (rule cache_lookup_eq [OF inv])
  then show ?thesis using block_of_valid [OF inv, of addr] by (auto simp: peekSingleLine_def set_map_def)
qed

text \<open>The counters are no part of the invariant.\<close>

lemma cache_inv_counters: "cache_inv (c\<lparr>c_enabled := e, c_num_accesses := n, c_num_hits := h\<rparr>) = cache_inv c"
proof -
  let ?c = "c\<lparr>c_enabled := e, c_num_accesses := n, c_num_hits := h\<rparr>"
  have g: "splitAddress ?c = splitAddress c" "geometry_ok ?c = geometry_ok c" by (rule same_geometry; simp)+
  have e: "cache_env ?c None = cache_env c None" by (simp add: cache_env_def)
  show ?thesis unfolding cache_inv_def placed_def set_good_def e g by simp
qed

lemma counters_same:
  "cache_inv (updateCounters hit c) = cache_inv c" "cache_inv (updateHits n c) = cache_inv c"
  "cache_inv (Cache_enable c) = cache_inv c" "cache_inv (Cache_disable c) = cache_inv c"
  using cache_inv_counters [of "c_num_hits c + 1" "c_num_accesses c + 1" "c_enabled c" c]
    cache_inv_counters [of "c_num_hits c" "c_num_accesses c + 1" "c_enabled c" c]
    cache_inv_counters [of "c_num_hits c + n" "c_num_accesses c + n" "c_enabled c" c]
    cache_inv_counters [of "c_num_hits c" "c_num_accesses c" True c] cache_inv_counters [of "c_num_hits c" "c_num_accesses c" False c]
  by (simp_all add: updateCounters_def updateHits_def Cache_enable_def Cache_disable_def Let_def)

lemma cache_reach_inv: "cache_reach c0 c \<Longrightarrow> cache_inv c0 \<Longrightarrow> cache_inv c"
proof (induction rule: cache_reach.induct)
  case (insert c addr fill ev evb cn r ea cn' c')
  have "cache_lookup c addr = None" using peek_lookup [of c addr] insert by auto
  then show ?case using insertSingleLine_spec insert by blast
next
  case (access c addr access_type buff bytes ur pos out c')
  then show ?case using accessSingleLine_spec by blast
next
  case (invalidate c addr found c')
  then have "cache_inv c" by blast
  from invalidateSingleLine_spec [OF this, of addr] show ?case using invalidate(2) by auto
next
  case (edit c f addr c')
  then show ?case using edit_line_spec(1) by blast
qed (simp_all add: counters_same)



definition demo_cfg :: "string \<Rightarrow> int" where
  "demo_cfg key = 1"

definition demo_cache :: Cache where
  "demo_cache = the (Cache_new demo_cfg (\<lambda>_. 0) ''L1-D'' ''perf_model/l1_dcache'' 2 2 64 ''lru'' PR_L1_CACHE HASH_MASK None False None)"

lemma demo_cache_new:
  "Cache_new demo_cfg (\<lambda>_. 0) ''L1-D'' ''perf_model/l1_dcache'' 2 2 64 ''lru'' PR_L1_CACHE HASH_MASK None False None = Some demo_cache"
proof -
  have "Cache_new demo_cfg (\<lambda>_. 0) ''L1-D'' ''perf_model/l1_dcache'' 2 2 64 ''lru'' PR_L1_CACHE HASH_MASK None False None \<noteq> None"
    by code_simp
  then show ?thesis by (auto simp: demo_cache_def)
qed

lemma demo_cache_hyps:
  "0 < unat (2 :: u32)" "unat (2 :: u32) \<le> 256" "1 < unat (64 :: u32)" "unat (2 :: u32) * unat (64 :: u32) < 2 ^ 32"
  "HASH_MASK = HASH_XOR_MOD \<longrightarrow> isPower2 2" "HASH_MASK = HASH_MER_MOD \<longrightarrow> (2 :: u32) \<noteq> 1"
  "\<forall>a. None = Some a \<longrightarrow> ahl_wf a \<and> floorLog2 64 \<le> int (unat (ahl_param a))"
  "\<forall>p. parsePolicyType ''lru'' = Some p \<longrightarrow> getNumQBSAttempts p demo_cfg ''perf_model/l1_dcache'' \<noteq> 0"
  by (simp_all add: parsePolicyType_def getNumQBSAttempts_def)


text \<open>C10: inserting the line of a missing address adds it to the function from addresses to lines that the cache
  implements, removes exactly the line reported as evicted, whose address and fields are those returned, and
  changes nothing else. The insertion succeeds whenever the policies of the sets have a victim.\<close>

theorem cache_insert_refines:
  assumes "cache_inv c" and "cache_lookup c addr = None"
    and "\<forall>s \<in> set (c_sets c). set_ready s (cache_env c cn)"
    and "block_class ev = PR_L2_CACHE \<longrightarrow> c_cache_type c = PR_L2_CACHE"
    and "\<forall>f. fill = Some f \<longrightarrow> unat (cb_blocksize c) \<le> length f"
  shows "\<exists>r ea cn' c'. insertSingleLine addr fill ev evb cn c = Some (r, ea, cn', c') \<and> cache_inv c' \<and> block_of c' = block_of c
    \<and> cache_lookup c' = (\<lambda>b. if block_of c b = block_of c addr then Some (setTag (block_of c addr) (cache_block_create (c_cache_type c)))
                          else if ir_eviction r \<and> block_of c b = block_of c ea then None else cache_lookup c b)
    \<and> (ir_eviction r \<longrightarrow> map_option binfo (cache_lookup c ea) = Some (binfo (ir_evict_block r)))"
proof -
  obtain r ea cn' c' where i: "insertSingleLine addr fill ev evb cn c = Some (r, ea, cn', c')"
    using insertSingleLine_total [OF assms(1,2), of cn ev fill evb] assms(3-5) by auto
  then show ?thesis using insertSingleLine_spec [OF assms(1,2) i] by blast
qed

lemma demo_cache_inv: "cache_inv demo_cache" "cache_lookup demo_cache = (\<lambda>_. None)"
  using Cache_new_inv [OF demo_cache_new demo_cache_hyps] by simp_all

lemma demo_cache_ready: "\<forall>s \<in> set (c_sets demo_cache). set_ready s (cache_env demo_cache None)"
proof -
  have "list_all (\<lambda>s. case cs_policy s of P_LRU p \<Rightarrow> lru_num_attempts p = 1 | _ \<Rightarrow> False) (c_sets demo_cache)" by code_simp
  then have p: "case cs_policy s of P_LRU p \<Rightarrow> lru_num_attempts p = 1 | _ \<Rightarrow> False" if "s \<in> set (c_sets demo_cache)" for s
    using that by (simp add: list_all_iff)
  show ?thesis
  proof
    fix s assume "s \<in> set (c_sets demo_cache)"
    from p [OF this] show "set_ready s (cache_env demo_cache None)"
      by (cases "cs_policy s") (simp_all add: set_ready_def lru_ready_def)
  qed
qed

theorem cache_insert_refines_witness:
  "\<exists>r ea cn' c'. insertSingleLine 0x1004 None (cache_block_create PR_L1_CACHE) False None demo_cache = Some (r, ea, cn', c')
    \<and> cache_lookup c' 0x1038 \<noteq> None"
proof -
  have e: "block_class (cache_block_create PR_L1_CACHE) = PR_L2_CACHE \<longrightarrow> c_cache_type demo_cache = PR_L2_CACHE"
    "\<forall>f. None = Some f \<longrightarrow> unat (cb_blocksize demo_cache) \<le> length f" by simp_all
  have m: "cache_lookup demo_cache 0x1004 = None" by (simp add: demo_cache_inv)
  have b: "block_of demo_cache 0x1038 = block_of demo_cache 0x1004" by code_simp
  from cache_insert_refines [OF demo_cache_inv(1) m demo_cache_ready e, of False] b show ?thesis by auto
qed

text \<open>C20: invalidating an address removes its line from that function, reports whether there was one, and always
  succeeds.\<close>

theorem cache_invalidate_refines:
  assumes "cache_inv c"
  shows "\<exists>c'. invalidateSingleLine addr c = Some (cache_lookup c addr \<noteq> None, c') \<and> cache_inv c' \<and> block_of c' = block_of c
    \<and> cache_lookup c' = (\<lambda>b. if block_of c b = block_of c addr then None else cache_lookup c b)"
  by (rule invalidateSingleLine_spec [OF assms])

theorem cache_invalidate_refines_witness: "\<exists>c'. invalidateSingleLine 0x1004 demo_cache = Some (False, c') \<and> cache_inv c'"
  using cache_invalidate_refines [OF demo_cache_inv(1), of "0x1004"] by (auto simp: demo_cache_inv(2))

text \<open>C14: an access leaves the function as it is, and finds a line exactly when the function has one.\<close>

theorem cache_access_refines:
  assumes "cache_inv c" and "accessSingleLine addr access_type buff bytes ur c = Some (pos, out, c')"
  shows "cache_inv c' \<and> block_of c' = block_of c \<and> cache_lookup c' = cache_lookup c \<and> (pos \<noteq> None \<longleftrightarrow> cache_lookup c addr \<noteq> None)"
  by (rule accessSingleLine_spec [OF assms])

theorem cache_access_refines_witness: "\<exists>c'. accessSingleLine 0x1004 LOAD None 8 True demo_cache = Some (None, None, c') \<and> cache_lookup c' = (\<lambda>_. None)"
proof -
  have "\<exists>c'. accessSingleLine 0x1004 LOAD None 8 True demo_cache = Some (None, None, c')"
  proof -
    have "map_option (\<lambda>(p, out, c'). (p, out)) (accessSingleLine 0x1004 LOAD None 8 True demo_cache) = Some (None, None)" by code_simp
    then show ?thesis by auto
  qed
  then obtain c' where c: "accessSingleLine 0x1004 LOAD None 8 True demo_cache = Some (None, None, c')" by blast
  show ?thesis using cache_access_refines [OF demo_cache_inv(1) c] c demo_cache_inv(2) by simp
qed


section \<open>Where the code does not do what it means to\<close>

text \<open>The random fault injector takes the number of bytes for the number of bits: a fault is only ever injected
  into the first eighth of the data about to be read.\<close>

theorem fault_in_first_eighth:
  assumes "preRead fi data_size off (Some d) = Some (fi', fault')"
  shows "\<exists>d'. fault' = Some d' \<and> length d' = length d
    \<and> (\<forall>i < length d. d' ! i \<noteq> d ! i \<longrightarrow> off \<le> i \<and> i < off + (unat data_size + 7) div 8)"
proof (cases fi)
  case (FaultInjectorRandom active rng)
  have loc: "unat (ucast (r mod ucast data_size :: u64) div 8 :: u32) < (unat data_size + 7) div 8" if "data_size \<noteq> 0" for r
  proof -
    have "0 < unat data_size" using that by (simp add: unat_gt_0)
    then have l: "unat (r mod ucast data_size :: u64) < unat data_size" by (simp add: unat_mod)
    also have "\<dots> < 2 ^ 32" using unsigned_less [of data_size, where 'a=nat] by simp
    finally have "unat (ucast (r mod ucast data_size :: u64) :: u32) = unat (r mod ucast data_size :: u64)" by (rule unat_ucast_64_32)
    then show ?thesis using l by (simp add: unat_div)
  qed
  have nz: "data_size \<noteq> 0" if "umod r (ucast data_size :: u64) = Some x" for r x using that by (auto simp: umod_def split: if_splits)
  show ?thesis
  proof (cases "active \<and> snd (rng_next rng) mod 0xffff = 0")
    case True
    define r where "r = snd (rng_next (fst (rng_next rng)))"
    from True assms FaultInjectorRandom obtain x where x: "umod r (ucast data_size) = Some x"
      by (auto simp: preRead_def split_beta r_def split: bind_splits)
    note nz' = nz [OF x]
    define k where "k = off + unat (ucast x div 8 :: u32)"
    have xr: "x = r mod ucast data_size" using x by (auto simp: umod_def split: if_splits)
    have "k < length d \<and> fault' = Some (d[k := d ! k OR push_bit (unat (ucast x mod 8 :: u32)) 1])"
      using True assms FaultInjectorRandom x by (auto simp: preRead_def split_beta r_def Let_def k_def split: if_splits)
    then show ?thesis using loc [OF nz', of r] by (auto simp: k_def xr nth_list_update split: if_splits)
  next
    case False
    then show ?thesis using assms FaultInjectorRandom by (auto simp: preRead_def split_beta Let_def split: if_splits)
  qed
qed (use assms in \<open>auto simp: preRead_def\<close>)

theorem fault_in_first_eighth_witness:
  "\<exists>fi' d'. preRead (FaultInjectorRandom True 0) 8 0 (Some [0, 0, 0, 0, 0, 0, 0, 0]) = Some (fi', Some d') \<and> d' ! 1 = 0"
proof -
  have "preRead (FaultInjectorRandom True 0) 8 0 (Some [0, 0, 0, 0, 0, 0, 0, 0]) \<noteq> None" by code_simp
  then obtain fi' f' where p: "preRead (FaultInjectorRandom True 0) 8 0 (Some [0, 0, 0, 0, 0, 0, 0, 0]) = Some (fi', f')" by auto
  from fault_in_first_eighth [OF p] obtain d' where "f' = Some d'"
    "\<forall>i < length [0, 0, 0, 0, 0, 0, 0, 0 :: u8]. d' ! i \<noteq> [0, 0, 0, 0, 0, 0, 0, 0] ! i \<longrightarrow> 0 \<le> i \<and> i < 0 + (unat (8 :: u32) + 7) div 8" by blast
  moreover from this(2) [rule_format, of 1] have "d' ! 1 = 0" by auto
  ultimately show ?thesis using p by blast
qed


definition demo_rr_set :: "CacheSetRoundRobin cache_set" where
  "demo_rr_set = \<lparr>cs_blocks = [demo_block 7, PrL1CacheBlockInfo (CacheBlockInfo_new 8 SHARED_UPGRADING 0)], cs_data = None,
     cs_associativity = 2, cs_blocksize = 64, cs_policy = CacheSetRoundRobin_new 2\<rparr>"


lemma round_robin_diverges:
  assumes "unat (cs_policy s) < unat (cs_associativity s)" and "\<forall>i < unat (cs_associativity s). getCState (cs_blocks s ! i) = SHARED_UPGRADING"
  shows "CacheSetRoundRobin_getReplacementIndex s e = None"
proof (cases "rr_victim s (cs_policy s)")
  case (Some r)
  then show ?thesis using rr_victim_sound [OF Some] assms by (auto simp: isValidReplacement_def)
qed (simp add: CacheSetRoundRobin_getReplacementIndex_def)

text \<open>With the re-reference interval policy a hit indexes the statistics of the ways by the prediction of the
  line: when the prediction is not below the associativity, as after an insertion with three bits in a
  4-way set, the hit aborts the simulation.\<close>

theorem srrip_hit_aborts:
  assumes "srrip_inv s e" and "unat (cs_associativity s) \<le> unat (srrip_bits (cs_policy s) ! i)"
  shows "CacheSetSRRIP_updateReplacementIndex i s e = None"
proof -
  obtain si where "set_info e = Some si" "si_associativity si = cs_associativity s"
    using assms(1) by (auto simp: srrip_inv_def si_ok_alt Let_def)
  then show ?thesis using assms(2) by (simp add: CacheSetSRRIP_updateReplacementIndex_def on_set_info_def si_increment_def Let_def)
qed

definition demo_srrip_set :: "CacheSetSRRIP cache_set" where
  "demo_srrip_set = \<lparr>cs_blocks = map demo_block [1, 2, 3, 4], cs_data = None, cs_associativity = 4, cs_blocksize = 64,
     cs_policy = the (CacheSetSRRIP_new 3 4 1)\<rparr>"

theorem srrip_hit_aborts_witness:
  "CacheSetSRRIP_updateReplacementIndex 0 demo_srrip_set \<lparr>set_info = Some (CacheSetInfoLRU_new 4 1), cntlr = None\<rparr> = None"
proof (rule srrip_hit_aborts)
  show "srrip_inv demo_srrip_set \<lparr>set_info = Some (CacheSetInfoLRU_new 4 1), cntlr = None\<rparr>"
    using si_ok_new [of 1 4 None] by (simp add: srrip_inv_def demo_srrip_set_def CacheSetSRRIP_new_def Let_def)
  show "unat (cs_associativity demo_srrip_set) \<le> unat (srrip_bits (cs_policy demo_srrip_set) ! 0)"
    by code_simp
qed

text \<open>A direct-mapped set with the not-most-recently-used policy cannot replace its line.\<close>

lemma nmru_direct_mapped_aborts:
  assumes "cs_associativity s = 1" and "nmru_inv s e" and "isValid (binfo (cs_blocks s ! 0))"
  shows "CacheSetNMRU_getReplacementIndex s e = None"
proof -
  have "length (nmru_bits (cs_policy s)) = 1" "unat (nmru_bits (cs_policy s) ! 0) < 1" "unat (nmru_pointer (cs_policy s)) = 0"
    using assms(1,2) by (auto simp: nmru_inv_def age_perm_def)
  then have "nmru_bits (cs_policy s) ! 0 = 0" "nmru_pointer (cs_policy s) = 0" by (auto simp: unat_eq_zero)
  moreover have "first_invalid s = None" using assms(1,3) by (auto simp: first_invalid_None)
  ultimately show ?thesis using assms(1) by (simp add: CacheSetNMRU_getReplacementIndex_def)
qed

text \<open>Two hits on one way of a two-way set clear all bits of the not-recently-used policy, although the other way was not used.\<close>

lemma nru_clears_early:
  "CacheSetNRU_updateReplacementIndex 0 (CacheSet_new PR_L1_CACHE 2 64 False \<lparr>nru_bits = [1, 0], nru_num_bits_set = 1, nru_pointer = 0\<rparr>) e
   = Some (\<lparr>nru_bits = [0, 0], nru_num_bits_set = 0, nru_pointer = 0\<rparr>, e)"
proof -
  have "replicate 2 (0 :: u8) = [0, 0]" by (simp add: numeral_2_eq_2)
  then show ?thesis by (simp add: CacheSetNRU_updateReplacementIndex_def Let_def)
qed

end
