(* ===== verification/Sniper_Directory.thy ===== *)
theory Sniper_Directory
  imports Sniper_Base
begin

text \<open>
  The tag directory (\<^verbatim>\<open>directory_schemes\<close>, \<^verbatim>\<open>dram_directory_cache.cc\<close>): the entry of a line with its sharers,
  the table of entries, which are made on first use, and the set-associative cache of entries with the list of
  replaced entries that are still being invalidated. The lemmas show that the cache implements a partial
  function from addresses to entries. Core numbers are integers, \<open>-1\<close> for none.

  A constructor leaves the forwarder of an entry and the replacement pointers uninitialised; their first
  values are parameters.
\<close>

section \<open>Entries\<close>

datatype dstate_t = D_UNCACHED | D_SHARED | D_OWNED | D_MODIFIED | D_EXCLUSIVE

definition INVALID_CORE_ID :: int where "INVALID_CORE_ID = - 1"
definition INVALID_ADDRESS :: u64 where "INVALID_ADDRESS = NOT 0"

datatype entry_class =
    DirectoryEntryLimitedNoBroadcast (m_rand_num: u32)
  | DirectoryEntryLimitless (m_software_trap_enabled: bool) (m_software_trap_penalty: u64)

record DirectoryEntry =
  de_address :: u64
  de_dstate :: dstate_t
  de_owner :: int
  de_forwarder :: int
  de_sharers :: "bool list"
  de_class :: entry_class

text \<open>\<^verbatim>\<open>m_sharers[sharer_id]\<close>, out of range for a core the bit set has no place for.\<close>

definition hasSharer :: "int \<Rightarrow> DirectoryEntry \<Rightarrow> bool option" where
  "hasSharer i e = (if 0 \<le> i \<and> nat i < length (de_sharers e) then Some (de_sharers e ! nat i) else None)"

definition getNumSharers :: "DirectoryEntry \<Rightarrow> nat" where
  "getNumSharers e = length (filter id (de_sharers e))"

definition getSharersList :: "DirectoryEntry \<Rightarrow> bool \<times> int list" where
  "getSharersList e = (False, map int (filter ((!) (de_sharers e)) [0..<length (de_sharers e)]))"

definition put_sharer :: "int \<Rightarrow> bool \<Rightarrow> DirectoryEntry \<Rightarrow> DirectoryEntry" where
  "put_sharer i b e = e\<lparr>de_sharers := (de_sharers e)[nat i := b]\<rparr>"

definition addSharer :: "int \<Rightarrow> u32 \<Rightarrow> DirectoryEntry \<Rightarrow> (bool \<times> DirectoryEntry) option" where
  "addSharer i max_hw_sharers e = do {
     has \<leftarrow> hasSharer i e;
     (if has then None
      else case de_class e of
        DirectoryEntryLimitedNoBroadcast r \<Rightarrow>
          if getNumSharers e \<ge> unat max_hw_sharers then Some (False, e) else Some (True, put_sharer i True e)
      | DirectoryEntryLimitless t p \<Rightarrow>
          Some (True, put_sharer i True
            (if length (de_sharers e) = unat max_hw_sharers then e\<lparr>de_class := DirectoryEntryLimitless True p\<rparr> else e))) }"

definition removeSharer :: "int \<Rightarrow> DirectoryEntry \<Rightarrow> DirectoryEntry option" where
  "removeSharer i e = do {
     has \<leftarrow> hasSharer i e;
     (if has then Some (put_sharer i False e) else None) }"

definition setOwner_entry :: "int \<Rightarrow> DirectoryEntry \<Rightarrow> DirectoryEntry option" where
  "setOwner_entry i e =
     (if i = INVALID_CORE_ID then Some (e\<lparr>de_owner := i\<rparr>)
      else do { has \<leftarrow> hasSharer i e; (if has then Some (e\<lparr>de_owner := i\<rparr>) else None) })"

definition getOneSharer :: "DirectoryEntry \<Rightarrow> (int \<times> DirectoryEntry) option" where
  "getOneSharer e = (let l = snd (getSharersList e) in case de_class e of
      DirectoryEntryLimitedNoBroadcast r \<Rightarrow>
        if l = [] then None
        else do {
          (r, index) \<leftarrow> Random_next r (of_nat (length l));
          Some (l ! unat index, e\<lparr>de_class := DirectoryEntryLimitedNoBroadcast r\<rparr>) }
    | DirectoryEntryLimitless t p \<Rightarrow> (case l of [] \<Rightarrow> None | i # _ \<Rightarrow> Some (i, e)))"

definition entry_getLatency :: "DirectoryEntry \<Rightarrow> u64" where
  "entry_getLatency e = (case de_class e of
      DirectoryEntryLimitedNoBroadcast r \<Rightarrow> 0
    | DirectoryEntryLimitless t p \<Rightarrow> if t then p else 0)"

section \<open>The table of entries\<close>

datatype DirectoryType = FULL_MAP | LIMITED_NO_BROADCAST | LIMITLESS

definition parseDirectoryType :: "string \<Rightarrow> DirectoryType option" where
  "parseDirectoryType s =
     (if s = ''full_map'' then Some FULL_MAP
      else if s = ''limited_no_broadcast'' then Some LIMITED_NO_BROADCAST
      else if s = ''limitless'' then Some LIMITLESS
      else None)"

text \<open>\<open>d_created\<close> counts the entries made so far, and selects the uninitialised forwarder of the next one.\<close>

record Directory =
  d_type :: DirectoryType
  d_num_entries :: u32
  d_num_entries_allocated :: u64
  d_max_hw_sharers :: u32
  d_use_max_hw_sharers :: u32
  d_max_num_sharers :: u32
  d_limitless_software_trap_penalty :: u64
  d_entry_list :: "DirectoryEntry option list"
  d_created :: nat
  d_uninit :: "nat \<Rightarrow> int"

definition Directory_new :: "(nat \<Rightarrow> int) \<Rightarrow> u64 \<Rightarrow> string \<Rightarrow> u32 \<Rightarrow> u32 \<Rightarrow> u32 \<Rightarrow> Directory option" where
  "Directory_new uninit penalty type_str num_entries max_hw_sharers max_num_sharers = do {
     t \<leftarrow> parseDirectoryType type_str;
     Some \<lparr>d_type = t, d_num_entries = num_entries, d_num_entries_allocated = 0, d_max_hw_sharers = max_hw_sharers,
       d_use_max_hw_sharers = max_hw_sharers, d_max_num_sharers = max_num_sharers,
       d_limitless_software_trap_penalty = (if t = LIMITLESS then penalty else 0),
       d_entry_list = replicate (unat num_entries) None, d_created = 0, d_uninit = uninit\<rparr> }"

text \<open>The size of the bit set that holds the sharers.\<close>

definition sharers_size :: "u32 \<Rightarrow> nat" where
  "sharers_size n =
     (if n \<le> 64 then 64 else if n \<le> 128 then 128 else if n \<le> 256 then 256 else if n \<le> 1024 then 1024 else unat n)"

definition createDirectoryEntry :: "Directory \<Rightarrow> DirectoryEntry \<times> Directory" where
  "createDirectoryEntry d =
     (\<lparr>de_address = INVALID_ADDRESS, de_dstate = D_UNCACHED, de_owner = INVALID_CORE_ID, de_forwarder = d_uninit d (d_created d),
       de_sharers = replicate (sharers_size (d_max_num_sharers d)) False,
       de_class = (case d_type d of
           LIMITLESS \<Rightarrow> DirectoryEntryLimitless False (d_limitless_software_trap_penalty d)
         | _ \<Rightarrow> DirectoryEntryLimitedNoBroadcast 1)\<rparr>,
      d\<lparr>d_created := d_created d + 1,
        d_use_max_hw_sharers := (if d_type d = FULL_MAP then d_max_num_sharers d else d_use_max_hw_sharers d)\<rparr>)"

definition Directory_getDirectoryEntry :: "u32 \<Rightarrow> Directory \<Rightarrow> (DirectoryEntry \<times> Directory) option" where
  "Directory_getDirectoryEntry entry_num d =
     (if unat entry_num < unat (d_num_entries d) \<and> unat entry_num < length (d_entry_list d) then
        (case d_entry_list d ! unat entry_num of
           Some e \<Rightarrow> Some (e, d)
         | None \<Rightarrow> (let (e, d) = createDirectoryEntry d in
             Some (e, d\<lparr>d_entry_list := (d_entry_list d)[unat entry_num := Some e],
                        d_num_entries_allocated := d_num_entries_allocated d + 1\<rparr>)))
      else None)"

definition setDirectoryEntry :: "u32 \<Rightarrow> DirectoryEntry \<Rightarrow> Directory \<Rightarrow> Directory option" where
  "setDirectoryEntry entry_num e d =
     (if unat entry_num < length (d_entry_list d) then Some (d\<lparr>d_entry_list := (d_entry_list d)[unat entry_num := Some e]\<rparr>) else None)"

section \<open>The cache of entries\<close>

record DramDirectoryCache =
  dc_directory :: Directory
  dc_replacement_ptrs :: "u32 list"
  dc_replaced :: "DirectoryEntry list"
  dc_total_entries :: u32
  dc_associativity :: u32
  dc_num_sets :: u32
  dc_cache_block_size :: u32
  dc_log_num_sets :: u32
  dc_log_cache_block_size :: u32
  dc_access_time :: u64

definition DramDirectoryCache_new ::
  "(nat \<Rightarrow> int) \<Rightarrow> (nat \<Rightarrow> u32) \<Rightarrow> u64 \<Rightarrow> string \<Rightarrow> u32 \<Rightarrow> u32 \<Rightarrow> u32 \<Rightarrow> u32 \<Rightarrow> u32 \<Rightarrow> u64 \<Rightarrow> DramDirectoryCache option" where
  "DramDirectoryCache_new uninit uninit_ptr penalty type_str total_entries associativity cache_block_size max_hw_sharers max_num_sharers access_time = do {
     num_sets \<leftarrow> udiv total_entries associativity;
     d \<leftarrow> Directory_new uninit penalty type_str total_entries max_hw_sharers max_num_sharers;
     Some \<lparr>dc_directory = d, dc_replacement_ptrs = map uninit_ptr [0..<unat num_sets], dc_replaced = [],
       dc_total_entries = total_entries, dc_associativity = associativity, dc_num_sets = num_sets,
       dc_cache_block_size = cache_block_size, dc_log_num_sets = of_int (floorLog2 num_sets),
       dc_log_cache_block_size = of_int (floorLog2 cache_block_size), dc_access_time = access_time\<rparr> }"

definition dir_splitAddress :: "DramDirectoryCache \<Rightarrow> u64 \<Rightarrow> (u64 \<times> u32) option" where
  "dir_splitAddress c address = do {
     cache_block_address \<leftarrow> shr address (unat (dc_log_cache_block_size c));
     tag \<leftarrow> shr cache_block_address (unat (dc_log_num_sets c));
     Some (tag, (ucast cache_block_address :: u32) AND (dc_num_sets c - 1)) }"

text \<open>\<^verbatim>\<open>ShmemPerfModel::incrElapsedTime\<close>: the time of the simulation thread, with its overflow check.\<close>

definition incrElapsedTime :: "u64 \<Rightarrow> u64 \<Rightarrow> u64 option" where
  "incrElapsedTime t now = (if now + t \<ge> now then Some (now + t) else None)"

text \<open>
  A loop over the ways of a set that stops at the first entry with a property. Looking at an entry makes it when it
  does not exist. The result is the index of the entry in the table.
\<close>

fun way_scan :: "(DirectoryEntry \<Rightarrow> bool) \<Rightarrow> u32 \<Rightarrow> nat \<Rightarrow> nat \<Rightarrow> Directory \<Rightarrow> (nat option \<times> Directory) option" where
  "way_scan P base i 0 d = Some (None, d)"
| "way_scan P base i (Suc n) d = do {
     (e, d) \<leftarrow> Directory_getDirectoryEntry (base + of_nat i) d;
     (if P e then Some (Some (unat (base + of_nat i)), d) else way_scan P base (Suc i) n d) }"

text \<open>A pointer to an entry: into the table or into the list of replaced entries.\<close>

datatype entry_ref = In_table nat | In_replaced nat

fun deref :: "DramDirectoryCache \<Rightarrow> entry_ref \<Rightarrow> DirectoryEntry option" where
  "deref c (In_table k) = (if k < length (d_entry_list (dc_directory c)) then d_entry_list (dc_directory c) ! k else None)"
| "deref c (In_replaced k) = (if k < length (dc_replaced c) then Some (dc_replaced c ! k) else None)"

fun set_entry :: "entry_ref \<Rightarrow> DirectoryEntry \<Rightarrow> DramDirectoryCache \<Rightarrow> DramDirectoryCache" where
  "set_entry (In_table k) e c =
     c\<lparr>dc_directory := (dc_directory c)\<lparr>d_entry_list := (d_entry_list (dc_directory c))[k := Some e]\<rparr>\<rparr>"
| "set_entry (In_replaced k) e c = c\<lparr>dc_replaced := (dc_replaced c)[k := e]\<rparr>"

fun find_index :: "('a \<Rightarrow> bool) \<Rightarrow> 'a list \<Rightarrow> nat option" where
  "find_index P [] = None"
| "find_index P (x # xs) = (if P x then Some 0 else map_option Suc (find_index P xs))"

definition getDirectoryEntry :: "u64 \<Rightarrow> bool \<Rightarrow> DramDirectoryCache \<Rightarrow> u64 \<Rightarrow> (entry_ref option \<times> DramDirectoryCache \<times> u64) option" where
  "getDirectoryEntry address modeled c now = do {
     now \<leftarrow> (if modeled then incrElapsedTime (dc_access_time c) now else Some now);
     (tag, set_index) \<leftarrow> dir_splitAddress c address;
     let base = set_index * dc_associativity c;
     (hit, d) \<leftarrow> way_scan (\<lambda>e. de_address e = address) base 0 (unat (dc_associativity c)) (dc_directory c);
     let c = c\<lparr>dc_directory := d\<rparr>;
     (case hit of
        Some k \<Rightarrow> do {
          e \<leftarrow> deref c (In_table k);
          now \<leftarrow> (if modeled then incrElapsedTime (entry_getLatency e) now else Some now);
          Some (Some (In_table k), c, now) }
      | None \<Rightarrow> do {
          (free, d) \<leftarrow> way_scan (\<lambda>e. de_address e = INVALID_ADDRESS) base 0 (unat (dc_associativity c)) d;
          let c = c\<lparr>dc_directory := d\<rparr>;
          (case free of
             Some k \<Rightarrow> do {
               e \<leftarrow> deref c (In_table k);
               Some (Some (In_table k), set_entry (In_table k) (e\<lparr>de_address := address\<rparr>) c, now) }
           | None \<Rightarrow> Some (map_option In_replaced (find_index (\<lambda>e. de_address e = address) (dc_replaced c)), c, now)) }) }"

fun candidates :: "u32 \<Rightarrow> u32 \<Rightarrow> u32 \<Rightarrow> nat \<Rightarrow> nat \<Rightarrow> Directory \<Rightarrow> ((nat \<times> DirectoryEntry) list \<times> Directory) option" where
  "candidates base ptr assoc i 0 d = Some ([], d)"
| "candidates base ptr assoc i (Suc n) d = do {
     r \<leftarrow> umod (of_nat i + ptr) assoc;
     (e, d) \<leftarrow> Directory_getDirectoryEntry (base + r) d;
     (es, d) \<leftarrow> candidates base ptr assoc (Suc i) n d;
     Some ((unat (base + r), e) # es, d) }"

definition getReplacementCandidates :: "u64 \<Rightarrow> DramDirectoryCache \<Rightarrow> ((nat \<times> DirectoryEntry) list \<times> DramDirectoryCache) option" where
  "getReplacementCandidates address c = do {
     (r, c, now) \<leftarrow> getDirectoryEntry address False c 0;
     (if r = None then Some () else None);
     (tag, set_index) \<leftarrow> dir_splitAddress c address;
     (if unat set_index < length (dc_replacement_ptrs c) then Some () else None);
     let ptr = dc_replacement_ptrs c ! unat set_index;
     (es, d) \<leftarrow> candidates (set_index * dc_associativity c) ptr (dc_associativity c) 0 (unat (dc_associativity c)) (dc_directory c);
     Some (es, c\<lparr>dc_directory := d, dc_replacement_ptrs := (dc_replacement_ptrs c)[unat set_index := ptr + 1]\<rparr>) }"

definition replaceDirectoryEntry :: "u64 \<Rightarrow> u64 \<Rightarrow> bool \<Rightarrow> DramDirectoryCache \<Rightarrow> u64 \<Rightarrow> (entry_ref \<times> DramDirectoryCache \<times> u64) option" where
  "replaceDirectoryEntry replaced_address address modeled c now = do {
     now \<leftarrow> (if modeled then incrElapsedTime (dc_access_time c) now else Some now);
     (tag, set_index) \<leftarrow> dir_splitAddress c replaced_address;
     (hit, d) \<leftarrow> way_scan (\<lambda>e. de_address e = replaced_address) (set_index * dc_associativity c) 0 (unat (dc_associativity c)) (dc_directory c);
     k \<leftarrow> hit;
     let c = c\<lparr>dc_directory := d\<rparr>;
     old \<leftarrow> deref c (In_table k);
     let (e, d) = createDirectoryEntry (dc_directory c);
     d \<leftarrow> setDirectoryEntry (of_nat k) (e\<lparr>de_address := address\<rparr>) d;
     Some (In_table k, c\<lparr>dc_directory := d, dc_replaced := dc_replaced c @ [old]\<rparr>, now) }"

definition invalidateDirectoryEntry :: "u64 \<Rightarrow> DramDirectoryCache \<Rightarrow> DramDirectoryCache option" where
  "invalidateDirectoryEntry address c = do {
     k \<leftarrow> find_index (\<lambda>e. de_address e = address) (dc_replaced c);
     Some (c\<lparr>dc_replaced := take k (dc_replaced c) @ drop (Suc k) (dc_replaced c)\<rparr>) }"

definition getMaxHwSharers :: "DramDirectoryCache \<Rightarrow> u32" where
  "getMaxHwSharers c = d_use_max_hw_sharers (dc_directory c)"


section \<open>Scanning the ways of a set\<close>

text \<open>A slot that was never looked at counts as free: the entry made for it has no address yet.\<close>

definition addr_at :: "Directory \<Rightarrow> nat \<Rightarrow> u64" where
  "addr_at d k = (case d_entry_list d ! k of Some e \<Rightarrow> de_address e | None \<Rightarrow> INVALID_ADDRESS)"

definition fresh_entry :: "Directory \<Rightarrow> DirectoryEntry \<Rightarrow> bool" where
  "fresh_entry d e \<longleftrightarrow> de_dstate e = D_UNCACHED \<and> de_owner e = INVALID_CORE_ID
     \<and> de_sharers e = replicate (sharers_size (d_max_num_sharers d)) False"

text \<open>\<open>grown d d'\<close>: some missing entries were made.\<close>

definition grown :: "Directory \<Rightarrow> Directory \<Rightarrow> bool" where
  "grown d d' \<longleftrightarrow> length (d_entry_list d') = length (d_entry_list d) \<and> d_num_entries d' = d_num_entries d
     \<and> d_type d' = d_type d \<and> d_max_num_sharers d' = d_max_num_sharers d
     \<and> (\<forall>k < length (d_entry_list d). d_entry_list d' ! k = d_entry_list d ! k
          \<or> (d_entry_list d ! k = None \<and> (\<exists>e. d_entry_list d' ! k = Some e \<and> de_address e = INVALID_ADDRESS \<and> fresh_entry d e)))"

lemma grown_refl [simp]: "grown d d"
  by (simp add: grown_def)

lemma fresh_entry_cong: "d_max_num_sharers d' = d_max_num_sharers d \<Longrightarrow> fresh_entry d' e = fresh_entry d e"
  by (simp add: fresh_entry_def)

lemma grown_trans: "grown d d' \<Longrightarrow> grown d' d'' \<Longrightarrow> grown d d''"
  unfolding grown_def by (metis fresh_entry_cong option.distinct(1))

lemma grown_addr_at: "grown d d' \<Longrightarrow> k < length (d_entry_list d) \<Longrightarrow> addr_at d' k = addr_at d k"
  by (auto simp: grown_def addr_at_def split: option.splits)

lemma createDirectoryEntry_fresh:
  assumes "createDirectoryEntry d = (e, d')"
  shows "fresh_entry d e" "de_address e = INVALID_ADDRESS" "d_entry_list d' = d_entry_list d" "d_num_entries d' = d_num_entries d"
    "d_type d' = d_type d" "d_max_num_sharers d' = d_max_num_sharers d"
  using assms by (auto simp: createDirectoryEntry_def fresh_entry_def)

lemma Directory_getDirectoryEntry_spec:
  assumes "length (d_entry_list d) = unat (d_num_entries d)" and "unat n < length (d_entry_list d)"
  obtains e d' where "Directory_getDirectoryEntry n d = Some (e, d')" "grown d d'" "d_entry_list d' ! unat n = Some e"
    "de_address e = addr_at d (unat n)"
proof (cases "d_entry_list d ! unat n")
  case None
  obtain e d1 where c: "createDirectoryEntry d = (e, d1)" by fastforce
  note f = createDirectoryEntry_fresh [OF c]
  let ?d = "d1\<lparr>d_entry_list := (d_entry_list d1)[unat n := Some e], d_num_entries_allocated := d_num_entries_allocated d1 + 1\<rparr>"
  have "Directory_getDirectoryEntry n d = Some (e, ?d)" using None assms c by (simp add: Directory_getDirectoryEntry_def)
  moreover have "grown d ?d" unfolding grown_def
  proof (intro conjI allI impI)
    fix k assume "k < length (d_entry_list d)"
    then show "d_entry_list ?d ! k = d_entry_list d ! k
        \<or> d_entry_list d ! k = None \<and> (\<exists>e. d_entry_list ?d ! k = Some e \<and> de_address e = INVALID_ADDRESS \<and> fresh_entry d e)"
      using None f by (cases "k = unat n") auto
  qed (use f in auto)
  moreover have "de_address e = addr_at d (unat n)" using None f by (simp add: addr_at_def)
  ultimately show ?thesis using that assms f by simp
next
  case (Some e)
  then show ?thesis using that [of e d] assms by (simp add: Directory_getDirectoryEntry_def addr_at_def)
qed

lemma way_index: "unat base + i < 2 ^ 32 \<Longrightarrow> unat ((base :: u32) + of_nat i) = unat base + i"
  by (simp add: unat_word_ariths take_bit_nat_eq_self unsigned_of_nat)

lemma way_scan_spec:
  assumes "length (d_entry_list d) = unat (d_num_entries d)" and "unat base + i + n \<le> length (d_entry_list d)"
    and "\<And>e. P e \<longleftrightarrow> Q (de_address e)"
  shows "\<exists>r d'. way_scan P base i n d = Some (r, d') \<and> grown d d'
    \<and> (case r of None \<Rightarrow> \<forall>j < n. \<not> Q (addr_at d (unat base + i + j)) \<and> d_entry_list d' ! (unat base + i + j) \<noteq> None
       | Some k \<Rightarrow> \<exists>j < n. k = unat base + i + j \<and> Q (addr_at d k) \<and> d_entry_list d' ! k \<noteq> None)"
  using assms(1,2)
proof (induction n arbitrary: i d)
  case (Suc n)
  have "unat base + i < 2 ^ 32" using Suc.prems unsigned_less [of "d_num_entries d", where 'a = nat] by simp
  then have u: "unat (base + of_nat i) = unat base + i" by (rule way_index)
  obtain e d1 where g: "Directory_getDirectoryEntry (base + of_nat i) d = Some (e, d1)" "grown d d1"
    "d_entry_list d1 ! (unat base + i) = Some e" "de_address e = addr_at d (unat base + i)"
    by (rule Directory_getDirectoryEntry_spec [of d "base + of_nat i"]) (use Suc.prems u in auto)
  have l: "length (d_entry_list d1) = length (d_entry_list d)" "d_num_entries d1 = d_num_entries d" using g(2) by (auto simp: grown_def)
  show ?case
  proof (cases "P e")
    case True
    then show ?thesis using g u assms(3) by (intro exI [of _ "Some (unat base + i)"] exI [of _ d1]) auto
  next
    case False
    obtain r d' where ih: "way_scan P base (Suc i) n d1 = Some (r, d')" "grown d1 d'"
      "(case r of None \<Rightarrow> \<forall>j < n. \<not> Q (addr_at d1 (unat base + Suc i + j)) \<and> d_entry_list d' ! (unat base + Suc i + j) \<noteq> None
       | Some k \<Rightarrow> \<exists>j < n. k = unat base + Suc i + j \<and> Q (addr_at d1 k) \<and> d_entry_list d' ! k \<noteq> None)"
      using Suc.IH [of d1 "Suc i"] Suc.prems l by auto
    have a: "addr_at d1 k = addr_at d k" if "k < length (d_entry_list d)" for k using grown_addr_at [OF g(2) that] .
    have z: "d_entry_list d' ! (unat base + i) \<noteq> None" 
    proof -
      have "unat base + i < length (d_entry_list d1)" using Suc.prems l by simp
      then show ?thesis using ih(2) g(3) by (fastforce simp: grown_def)
    qed
    show ?thesis
    proof (cases r)
      case None
      have "\<not> Q (addr_at d (unat base + i + j)) \<and> d_entry_list d' ! (unat base + i + j) \<noteq> None" if "j < Suc n" for j
        using that ih(3) None False assms(3) g(4) z a Suc.prems by (cases j) auto
      then show ?thesis using g ih(1,2) None False grown_trans by fastforce
    next
      case (Some k)
      then obtain j where "j < n" "k = unat base + Suc i + j" "Q (addr_at d1 k)" "d_entry_list d' ! k \<noteq> None" using ih(3) by auto
      then show ?thesis using g ih(1,2) Some False grown_trans a [of k] Suc.prems
        by (intro exI [of _ r] exI [of _ d']) (auto intro!: exI [of _ "Suc j"])
    qed
  qed
qed simp


section \<open>The invariant, and the function the cache implements\<close>

definition dir_set :: "DramDirectoryCache \<Rightarrow> u64 \<Rightarrow> nat" where
  "dir_set c address = unat ((ucast (drop_bit (unat (dc_log_cache_block_size c)) address) :: u32) AND (dc_num_sets c - 1))"

definition set_full :: "DramDirectoryCache \<Rightarrow> nat \<Rightarrow> bool" where
  "set_full c s \<longleftrightarrow> (\<forall>j < unat (dc_associativity c). addr_at (dc_directory c) (s * unat (dc_associativity c) + j) \<noteq> INVALID_ADDRESS)"

definition geometry :: "DramDirectoryCache \<Rightarrow> bool" where
  "geometry c \<longleftrightarrow> 0 < unat (dc_associativity c) \<and> 0 < unat (dc_num_sets c)
     \<and> unat (dc_num_sets c) * unat (dc_associativity c) \<le> unat (d_num_entries (dc_directory c))
     \<and> length (d_entry_list (dc_directory c)) = unat (d_num_entries (dc_directory c))
     \<and> length (dc_replacement_ptrs c) = unat (dc_num_sets c)
     \<and> unat (dc_log_cache_block_size c) < 64 \<and> unat (dc_log_num_sets c) < 64"

text \<open>
  Every address has at most one entry, in the table or among the replaced entries; an entry of the table is in the
  set of its address, and was never used when it has none; an entry is replaced only from a full set.
\<close>

definition dir_inv :: "DramDirectoryCache \<Rightarrow> bool" where
  "dir_inv c \<longleftrightarrow> geometry c
     \<and> (\<forall>r r' e e'. deref c r = Some e \<longrightarrow> deref c r' = Some e' \<longrightarrow> de_address e = de_address e' \<longrightarrow> de_address e \<noteq> INVALID_ADDRESS \<longrightarrow> r = r')
     \<and> (\<forall>k e. deref c (In_table k) = Some e \<longrightarrow>
          (if de_address e = INVALID_ADDRESS then fresh_entry (dc_directory c) e
           else \<exists>j < unat (dc_associativity c). k = dir_set c (de_address e) * unat (dc_associativity c) + j))
     \<and> (\<forall>k e. deref c (In_replaced k) = Some e \<longrightarrow> de_address e \<noteq> INVALID_ADDRESS \<and> set_full c (dir_set c (de_address e)))"

definition all_entries :: "DramDirectoryCache \<Rightarrow> DirectoryEntry list" where
  "all_entries c = List.map_filter id (d_entry_list (dc_directory c)) @ dc_replaced c"

definition dir_map :: "DramDirectoryCache \<Rightarrow> u64 \<Rightarrow> DirectoryEntry option" where
  "dir_map c address = (if address = INVALID_ADDRESS then None else List.find (\<lambda>e. de_address e = address) (all_entries c))"

lemma all_entries_iff: "e \<in> set (all_entries c) \<longleftrightarrow> (\<exists>r. deref c r = Some e)"
proof
  assume "e \<in> set (all_entries c)"
  then consider "Some e \<in> set (d_entry_list (dc_directory c))" | "e \<in> set (dc_replaced c)" by (auto simp: all_entries_def map_filter_def)
  then show "\<exists>r. deref c r = Some e"
  proof cases
    case 1
    then obtain k where "k < length (d_entry_list (dc_directory c))" "d_entry_list (dc_directory c) ! k = Some e" by (metis in_set_conv_nth)
    then show ?thesis by (intro exI [of _ "In_table k"]) simp
  next
    case 2
    then obtain k where "k < length (dc_replaced c)" "dc_replaced c ! k = e" by (metis in_set_conv_nth)
    then show ?thesis by (intro exI [of _ "In_replaced k"]) simp
  qed
next
  assume "\<exists>r. deref c r = Some e"
  then obtain r where r: "deref c r = Some e" by blast
  show "e \<in> set (all_entries c)"
  proof (cases r)
    case (In_table k)
    then have "Some e \<in> set (d_entry_list (dc_directory c))" using r by (auto split: if_splits) (metis nth_mem)
    then show ?thesis by (force simp: all_entries_def map_filter_def)
  next
    case (In_replaced k)
    then show ?thesis using r by (auto simp: all_entries_def split: if_splits)
  qed
qed

lemma dir_map_Some:
  assumes "dir_inv c"
  shows "dir_map c a = Some e \<longleftrightarrow> a \<noteq> INVALID_ADDRESS \<and> de_address e = a \<and> (\<exists>r. deref c r = Some e)"
proof
  assume "dir_map c a = Some e"
  then show "a \<noteq> INVALID_ADDRESS \<and> de_address e = a \<and> (\<exists>r. deref c r = Some e)"
    by (auto simp: dir_map_def find_Some_iff all_entries_iff [symmetric] split: if_splits)
next
  assume h: "a \<noteq> INVALID_ADDRESS \<and> de_address e = a \<and> (\<exists>r. deref c r = Some e)"
  then have "List.find (\<lambda>e. de_address e = a) (all_entries c) \<noteq> None" by (auto simp: find_None_iff all_entries_iff)
  then obtain e' where f: "List.find (\<lambda>e. de_address e = a) (all_entries c) = Some e'" by blast
  then have "de_address e' = a" "e' \<in> set (all_entries c)" by (auto simp: find_Some_iff)
  then obtain r' where "deref c r' = Some e'" "de_address e' = a" by (auto simp: all_entries_iff)
  then have "e' = e" using assms h unfolding dir_inv_def by (metis option.inject)
  then show "dir_map c a = Some e" using f h by (simp add: dir_map_def)
qed

lemma dir_map_None: "dir_inv c \<Longrightarrow> a \<noteq> INVALID_ADDRESS \<Longrightarrow> dir_map c a = None \<longleftrightarrow> (\<forall>r e. deref c r = Some e \<longrightarrow> de_address e \<noteq> a)"
  using dir_map_Some [of c a] by (metis not_None_eq)

lemma dir_map_eqI:
  assumes "dir_inv c" and "dir_inv c'" and "\<And>e. de_address e \<noteq> INVALID_ADDRESS \<Longrightarrow> (\<exists>r. deref c' r = Some e) \<longleftrightarrow> (\<exists>r. deref c r = Some e)"
  shows "dir_map c' = dir_map c"
proof
  fix a
  have "dir_map c' a = Some e \<longleftrightarrow> dir_map c a = Some e" for e
    using dir_map_Some [OF assms(1), of a e] dir_map_Some [OF assms(2), of a e] assms(3) [of e] by blast
  then show "dir_map c' a = dir_map c a" by (metis not_None_eq)
qed

text \<open>Two pointers are enough to see what an update of one entry does.\<close>

lemma deref_set_entry:
  "deref c r \<noteq> None \<Longrightarrow> deref (set_entry r e c) r' = (if r' = r then Some e else deref c r')"
  by (cases r; cases r') (auto split: if_splits)

lemma set_entry_same [simp]:
  "dc_associativity (set_entry r e c) = dc_associativity c" "dc_num_sets (set_entry r e c) = dc_num_sets c"
  "dc_log_cache_block_size (set_entry r e c) = dc_log_cache_block_size c" "dc_log_num_sets (set_entry r e c) = dc_log_num_sets c"
  "dc_replacement_ptrs (set_entry r e c) = dc_replacement_ptrs c" "dc_access_time (set_entry r e c) = dc_access_time c"
  "length (d_entry_list (dc_directory (set_entry r e c))) = length (d_entry_list (dc_directory c))"
  "d_num_entries (dc_directory (set_entry r e c)) = d_num_entries (dc_directory c)"
  "d_max_num_sharers (dc_directory (set_entry r e c)) = d_max_num_sharers (dc_directory c)"
  "d_use_max_hw_sharers (dc_directory (set_entry r e c)) = d_use_max_hw_sharers (dc_directory c)"
  "d_type (dc_directory (set_entry r e c)) = d_type (dc_directory c)"
  by (cases r; simp)+

lemma dir_set_cong: "dc_log_cache_block_size c' = dc_log_cache_block_size c \<Longrightarrow> dc_num_sets c' = dc_num_sets c \<Longrightarrow> dir_set c' = dir_set c"
  by (simp add: dir_set_def fun_eq_iff)

lemma geometry_set_entry [simp]: "geometry (set_entry r e c) = geometry c"
  by (simp add: geometry_def)

lemma addr_at_deref: "k < length (d_entry_list (dc_directory c)) \<Longrightarrow>
   addr_at (dc_directory c) k = (case deref c (In_table k) of Some e \<Rightarrow> de_address e | None \<Rightarrow> INVALID_ADDRESS)"
  by (simp add: addr_at_def)

lemma set_position:
  assumes "geometry c" and "j < unat (dc_associativity c)"
  shows "dir_set c a * unat (dc_associativity c) + j < length (d_entry_list (dc_directory c))" and "dir_set c a < unat (dc_num_sets c)"
proof -
  have "(ucast (drop_bit (unat (dc_log_cache_block_size c)) a) :: u32) AND (dc_num_sets c - 1) \<le> dc_num_sets c - 1" by (rule word_and_le1)
  then have "dir_set c a \<le> unat (dc_num_sets c - 1)" by (simp add: dir_set_def word_le_nat_alt)
  also have "unat (dc_num_sets c - 1) = unat (dc_num_sets c) - 1" using assms by (intro unat_minus_one) (auto simp: geometry_def)
  finally show s: "dir_set c a < unat (dc_num_sets c)" using assms by (auto simp: geometry_def)
  have "dir_set c a * unat (dc_associativity c) + j < Suc (dir_set c a) * unat (dc_associativity c)" using assms(2) by simp
  also have "\<dots> \<le> unat (dc_num_sets c) * unat (dc_associativity c)" using s by (intro mult_le_mono1) simp
  finally show "dir_set c a * unat (dc_associativity c) + j < length (d_entry_list (dc_directory c))" using assms by (simp add: geometry_def)
qed

lemma dir_inv_fields:
  assumes "dir_inv c"
  shows "geometry c" "deref c r = Some e \<Longrightarrow> deref c r' = Some e' \<Longrightarrow> de_address e = de_address e' \<Longrightarrow> de_address e \<noteq> INVALID_ADDRESS \<Longrightarrow> r = r'"
    "deref c (In_table k) = Some e \<Longrightarrow> de_address e = INVALID_ADDRESS \<Longrightarrow> fresh_entry (dc_directory c) e"
    "deref c (In_table k) = Some e \<Longrightarrow> de_address e \<noteq> INVALID_ADDRESS \<Longrightarrow> \<exists>j < unat (dc_associativity c). k = dir_set c (de_address e) * unat (dc_associativity c) + j"
    "deref c (In_replaced k) = Some e \<Longrightarrow> de_address e \<noteq> INVALID_ADDRESS" "deref c (In_replaced k) = Some e \<Longrightarrow> set_full c (dir_set c (de_address e))"
  using assms unfolding dir_inv_def by (blast, blast, metis, metis, metis, metis)

end
