(* ===== verification/Sniper_DirMap.thy ===== *)
theory Sniper_DirMap
  imports Sniper_Directory
begin

text \<open>
  The cache of directory entries as a partial function from addresses to entries: every operation of
  \<^verbatim>\<open>dram_directory_cache.cc\<close> keeps the invariant and acts on that function as its name says.
\<close>

text \<open>Making missing entries changes nothing that the function depends on.\<close>

lemma grown_inv:
  assumes inv: "dir_inv c" and g: "grown (dc_directory c) d'" and c': "c' = c\<lparr>dc_directory := d'\<rparr>"
  shows "dir_inv c'" and "dir_map c' = dir_map c" and "dir_set c' = dir_set c" and "set_full c' (dir_set c a) = set_full c (dir_set c a)"
    and "deref c r = Some e \<Longrightarrow> deref c' r = Some e"
proof -
  have l: "length (d_entry_list d') = length (d_entry_list (dc_directory c))" using g by (simp add: grown_def)
  have dr: "deref c' r = deref c r \<or> (deref c r = None \<and> (\<exists>e. deref c' r = Some e \<and> de_address e = INVALID_ADDRESS \<and> fresh_entry (dc_directory c) e))" for r
    using g c' by (cases r) (auto simp: grown_def)
  show ds: "dir_set c' = dir_set c" by (simp add: c' dir_set_def fun_eq_iff)
  have as: "dc_associativity c' = dc_associativity c" by (simp add: c')
  have gm: "geometry c" "geometry c'" using dir_inv_fields(1) [OF inv] g by (auto simp: geometry_def c' grown_def)
  have fe: "fresh_entry (dc_directory c') e = fresh_entry (dc_directory c) e" for e using g by (simp add: c' grown_def fresh_entry_def)
  show sf: "set_full c' (dir_set c a) = set_full c (dir_set c a)" for a
    using grown_addr_at [OF g set_position(1) [OF gm(1)]] by (auto simp: set_full_def c')
  show dk: "deref c r = Some e \<Longrightarrow> deref c' r = Some e" for r and e :: DirectoryEntry using dr [of r] by auto
  have bk: "deref c r = Some e" if "deref c' r = Some e" "de_address e \<noteq> INVALID_ADDRESS" for r and e :: DirectoryEntry using dr [of r] that by auto
  have uq: "r = r'" if h: "deref c' r = Some e" "deref c' r' = Some e'" "de_address e = de_address e'" "de_address e \<noteq> INVALID_ADDRESS"
    for r r' and e e' :: DirectoryEntry
  proof -
    have h': "de_address e' \<noteq> INVALID_ADDRESS" using h(4) unfolding h(3) .
    show ?thesis by (rule dir_inv_fields(2) [OF inv bk [OF h(1,4)] bk [OF h(2) h'] h(3,4)])
  qed
  show inv': "dir_inv c'" unfolding dir_inv_def
  proof (intro conjI allI impI)
    show "geometry c'" using gm(2) by assumption
    show "\<And>r r' e e'. deref c' r = Some e \<Longrightarrow> deref c' r' = Some e' \<Longrightarrow> de_address e = de_address e' \<Longrightarrow> de_address e \<noteq> INVALID_ADDRESS \<Longrightarrow> r = r'"
      by (rule uq)
  next
    fix k and e :: DirectoryEntry assume h: "deref c' (In_table k) = Some e"
    show "if de_address e = INVALID_ADDRESS then fresh_entry (dc_directory c') e
        else \<exists>j < unat (dc_associativity c'). k = dir_set c' (de_address e) * unat (dc_associativity c') + j"
    proof (cases "de_address e = INVALID_ADDRESS")
      case True
      then have "fresh_entry (dc_directory c) e" using h dr [of "In_table k"] dir_inv_fields(3) [OF inv, of k e] by (metis option.inject)
      then show ?thesis using True by (simp add: fe)
    next
      case False
      then show ?thesis using dir_inv_fields(4) [OF inv bk [OF h]] by (simp add: ds as)
    qed
  next
    fix k and e :: DirectoryEntry assume "deref c' (In_replaced k) = Some e"
    then have "deref c (In_replaced k) = Some e" by (simp add: c' split: if_splits)
    then show "de_address e \<noteq> INVALID_ADDRESS" "set_full c' (dir_set c' (de_address e))"
      using dir_inv_fields(5,6) [OF inv] by (auto simp: ds sf)
  qed
  show "dir_map c' = dir_map c"
  proof (rule dir_map_eqI [OF inv inv'])
    fix e :: DirectoryEntry assume "de_address e \<noteq> INVALID_ADDRESS"
    then show "(\<exists>r. deref c' r = Some e) \<longleftrightarrow> (\<exists>r. deref c r = Some e)" using bk dk by blast
  qed
qed

text \<open>Writing an entry through a pointer to it.\<close>

lemma set_entry_inv:
  assumes inv: "dir_inv c" and r: "deref c r = Some e" and a: "de_address e' = de_address e" "de_address e \<noteq> INVALID_ADDRESS"
  shows "dir_inv (set_entry r e' c)" and "dir_map (set_entry r e' c) = (dir_map c)(de_address e \<mapsto> e')"
proof -
  let ?c = "set_entry r e' c"
  have dr: "deref ?c x = (if x = r then Some e' else deref c x)" for x using deref_set_entry [of c r] r by auto
  have ds: "dir_set ?c = dir_set c" by (rule dir_set_cong) simp_all
  have at: "addr_at (dc_directory ?c) k = addr_at (dc_directory c) k" if "k < length (d_entry_list (dc_directory c))" for k
    using that r a addr_at_deref [of k ?c] addr_at_deref [of k c] by (simp add: dr del: deref.simps)
  have sf: "set_full ?c (dir_set c x) = set_full c (dir_set c x)" for x
    using at set_position(1) [OF dir_inv_fields(1) [OF inv]] by (auto simp: set_full_def)
  have fe: "fresh_entry (dc_directory ?c) x = fresh_entry (dc_directory c) x" for x by (rule fresh_entry_cong) simp
  show inv': "dir_inv ?c" unfolding dir_inv_def
  proof (intro conjI allI impI)
    show "geometry ?c" using dir_inv_fields(1) [OF inv] by simp
    fix x x' :: entry_ref and y y' :: DirectoryEntry
    show "deref ?c x = Some y \<Longrightarrow> deref ?c x' = Some y' \<Longrightarrow> de_address y = de_address y' \<Longrightarrow> de_address y \<noteq> INVALID_ADDRESS \<Longrightarrow> x = x'"
      using dir_inv_fields(2) [OF inv r, of x' y'] dir_inv_fields(2) [OF inv r, of x y] dir_inv_fields(2) [OF inv, of x y x' y'] a
      by (auto simp: dr split: if_splits)
  next
    fix k and y :: DirectoryEntry assume h: "deref ?c (In_table k) = Some y"
    show "if de_address y = INVALID_ADDRESS then fresh_entry (dc_directory ?c) y
        else \<exists>j < unat (dc_associativity ?c). k = dir_set ?c (de_address y) * unat (dc_associativity ?c) + j"
      using h dir_inv_fields(3,4) [OF inv, of k] r a by (auto simp: dr fe ds simp del: deref.simps split: if_splits)
  next
    fix k and y :: DirectoryEntry assume h: "deref ?c (In_replaced k) = Some y"
    show "de_address y \<noteq> INVALID_ADDRESS" "set_full ?c (dir_set ?c (de_address y))"
      using h dir_inv_fields(5,6) [OF inv, of k] r a by (auto simp: dr sf ds simp del: deref.simps split: if_splits)
  qed
  show "dir_map ?c = (dir_map c)(de_address e \<mapsto> e')"
  proof
    fix x
    have "dir_map ?c x = Some y \<longleftrightarrow> ((dir_map c)(de_address e \<mapsto> e')) x = Some y" for y
    proof (cases "x = de_address e")
      case True
      have "(\<exists>q. deref ?c q = Some y) \<and> de_address y = de_address e \<longleftrightarrow> y = e'"
        using r a dir_inv_fields(2) [OF inv r, of _ y] by (auto simp: dr split: if_splits)
      then show ?thesis using True a by (auto simp: dir_map_Some [OF inv'])
    next
      case False
      have "(\<exists>q. deref ?c q = Some y) \<longleftrightarrow> (\<exists>q. deref c q = Some y)" if "de_address y = x"
        using that False r a unfolding dr by (metis option.inject)
      then show ?thesis using False by (auto simp: dir_map_Some [OF inv'] dir_map_Some [OF inv] simp del: deref.simps)
    qed
    then show "dir_map ?c x = ((dir_map c)(de_address e \<mapsto> e')) x" by (metis not_None_eq)
  qed
qed


lemma find_index_Some: "find_index P xs = Some k \<Longrightarrow> k < length xs \<and> P (xs ! k)"
  by (induction xs arbitrary: k) (auto split: if_splits)

lemma find_index_None: "find_index P xs = None \<longleftrightarrow> (\<forall>x \<in> set xs. \<not> P x)"
  by (induction xs) auto

lemma dir_split:
  assumes "geometry c"
  obtains t i where "dir_splitAddress c a = Some (t, i)" "unat i = dir_set c a" "unat (i * dc_associativity c) = dir_set c a * unat (dc_associativity c)"
proof -
  let ?i = "(ucast (drop_bit (unat (dc_log_cache_block_size c)) a) :: u32) AND (dc_num_sets c - 1)"
  have i: "unat ?i = dir_set c a" by (simp add: dir_set_def)
  have "dir_set c a * unat (dc_associativity c) + 0 < length (d_entry_list (dc_directory c))"
    using assms by (intro set_position(1)) (auto simp: geometry_def)
  also have "\<dots> < 2 ^ 32" using assms unsigned_less [of "d_num_entries (dc_directory c)", where 'a = nat] by (simp add: geometry_def)
  finally have "unat (?i * dc_associativity c) = dir_set c a * unat (dc_associativity c)"
    unfolding unat_word_ariths(2) i by simp
  then show ?thesis using that i assms by (simp add: dir_splitAddress_def geometry_def)
qed

text \<open>The scan of the set of an address.\<close>

lemma set_scan:
  assumes inv: "dir_inv c" and sp: "dir_splitAddress c a = Some (t, i)" and Q: "\<And>e. P e \<longleftrightarrow> Q (de_address e)"
    and w: "way_scan P (i * dc_associativity c) 0 (unat (dc_associativity c)) (dc_directory c) = Some (r, d')"
  shows "grown (dc_directory c) d'"
    and "r = None \<Longrightarrow> \<forall>j < unat (dc_associativity c). \<not> Q (addr_at (dc_directory c) (dir_set c a * unat (dc_associativity c) + j))"
    and "r = Some k \<Longrightarrow> \<exists>j < unat (dc_associativity c). k = dir_set c a * unat (dc_associativity c) + j \<and> Q (addr_at (dc_directory c) k)
       \<and> (\<exists>e. deref (c\<lparr>dc_directory := d'\<rparr>) (In_table k) = Some e \<and> de_address e = addr_at (dc_directory c) k)"
proof -
  have gm: "geometry c" by (rule dir_inv_fields(1) [OF inv])
  have u: "unat (i * dc_associativity c) = dir_set c a * unat (dc_associativity c)" using dir_split [OF gm, of a] sp by auto
  have le: "dir_set c a * unat (dc_associativity c) + unat (dc_associativity c) \<le> length (d_entry_list (dc_directory c))"
    using set_position(1) [OF gm, of "unat (dc_associativity c) - 1" a] gm by (simp add: geometry_def)
  have len: "length (d_entry_list (dc_directory c)) = unat (d_num_entries (dc_directory c))" using gm by (simp add: geometry_def)
  note ws = way_scan_spec [OF len, of "i * dc_associativity c" 0 "unat (dc_associativity c)" P Q, unfolded u, simplified, OF le Q, simplified w, simplified]
  show g: "grown (dc_directory c) d'" using ws by blast
  show "r = None \<Longrightarrow> \<forall>j < unat (dc_associativity c). \<not> Q (addr_at (dc_directory c) (dir_set c a * unat (dc_associativity c) + j))" using ws by simp
  assume "r = Some k"
  then obtain j where j: "j < unat (dc_associativity c)" "k = dir_set c a * unat (dc_associativity c) + j" "Q (addr_at (dc_directory c) k)"
    "d_entry_list d' ! k \<noteq> None" using ws by auto
  then have kl: "k < length (d_entry_list (dc_directory c))" using le by simp
  then have "k < length (d_entry_list d')" using g by (simp add: grown_def)
  moreover obtain e where e: "d_entry_list d' ! k = Some e" using j(4) by blast
  moreover have "de_address e = addr_at (dc_directory c) k" using grown_addr_at [OF g kl] e by (simp add: addr_at_def)
  ultimately show "\<exists>j < unat (dc_associativity c). k = dir_set c a * unat (dc_associativity c) + j \<and> Q (addr_at (dc_directory c) k)
       \<and> (\<exists>e. deref (c\<lparr>dc_directory := d'\<rparr>) (In_table k) = Some e \<and> de_address e = addr_at (dc_directory c) k)"
    using j by auto
qed

lemma no_entry_in_set:
  assumes inv: "dir_inv c" and "\<forall>j < unat (dc_associativity c). addr_at (dc_directory c) (dir_set c a * unat (dc_associativity c) + j) \<noteq> a"
    and "a \<noteq> INVALID_ADDRESS" and "deref c (In_table k) = Some e"
  shows "de_address e \<noteq> a"
proof
  assume a: "de_address e = a"
  then obtain j where j: "j < unat (dc_associativity c)" "k = dir_set c a * unat (dc_associativity c) + j" using dir_inv_fields(4) [OF inv assms(4)] assms(3) by auto
  have "addr_at (dc_directory c) k = a" using assms(4) a by (auto simp: addr_at_def split: if_splits)
  then show False using assms(2) j by auto
qed

text \<open>A free entry takes an address.\<close>

lemma claim_entry_inv:
  assumes inv: "dir_inv c" and k: "deref c (In_table k) = Some e" "de_address e = INVALID_ADDRESS"
    and a: "dir_map c a = None" "a \<noteq> INVALID_ADDRESS" "de_address e' = a"
    and j: "j < unat (dc_associativity c)" "k = dir_set c a * unat (dc_associativity c) + j"
  shows "dir_inv (set_entry (In_table k) e' c)" and "dir_map (set_entry (In_table k) e' c) = (dir_map c)(a \<mapsto> e')"
proof -
  let ?c = "set_entry (In_table k) e' c"
  have dr: "deref ?c x = (if x = In_table k then Some e' else deref c x)" for x using deref_set_entry [of c "In_table k" e' x] k by auto
  have ds: "dir_set ?c = dir_set c" by (rule dir_set_cong) simp_all
  have na: "de_address y \<noteq> a" if "deref c x = Some y" for x y using a(1,2) that by (auto simp: dir_map_None [OF inv a(2)] simp del: deref.simps)
  have sf: "set_full ?c (dir_set c x)" if "set_full c (dir_set c x)" for x
  proof -
    have "addr_at (dc_directory ?c) m \<noteq> INVALID_ADDRESS" if "addr_at (dc_directory c) m \<noteq> INVALID_ADDRESS" "m < length (d_entry_list (dc_directory c))" for m
      using that a addr_at_deref [of m ?c] addr_at_deref [of m c] by (simp add: dr del: deref.simps set_entry.simps)
    then show ?thesis using that set_position(1) [OF dir_inv_fields(1) [OF inv]] by (auto simp: set_full_def simp del: set_entry.simps)
  qed
  have fe: "fresh_entry (dc_directory ?c) x = fresh_entry (dc_directory c) x" for x by (rule fresh_entry_cong) simp
  show inv': "dir_inv ?c" unfolding dir_inv_def
  proof (intro conjI allI impI)
    show "geometry ?c" using dir_inv_fields(1) [OF inv] by (simp del: set_entry.simps)
    fix x x' :: entry_ref and y y' :: DirectoryEntry
    show "deref ?c x = Some y \<Longrightarrow> deref ?c x' = Some y' \<Longrightarrow> de_address y = de_address y' \<Longrightarrow> de_address y \<noteq> INVALID_ADDRESS \<Longrightarrow> x = x'"
      using dir_inv_fields(2) [OF inv, of x y x' y'] na [of x y] na [of x' y'] a unfolding dr by (auto split: if_splits)
  next
    fix m and y :: DirectoryEntry assume h: "deref ?c (In_table m) = Some y"
    show "if de_address y = INVALID_ADDRESS then fresh_entry (dc_directory ?c) y
        else \<exists>j < unat (dc_associativity ?c). m = dir_set ?c (de_address y) * unat (dc_associativity ?c) + j"
      using h dir_inv_fields(3,4) [OF inv, of m y] a j unfolding dr fe ds set_entry_same by (auto simp del: deref.simps split: if_splits)
  next
    fix m and y :: DirectoryEntry assume h: "deref ?c (In_replaced m) = Some y"
    show "de_address y \<noteq> INVALID_ADDRESS" "set_full ?c (dir_set ?c (de_address y))"
      using h dir_inv_fields(5,6) [OF inv, of m y] sf unfolding dr ds by (auto simp del: deref.simps set_entry.simps)
  qed
  show "dir_map ?c = (dir_map c)(a \<mapsto> e')"
  proof
    fix x
    have "dir_map ?c x = Some y \<longleftrightarrow> ((dir_map c)(a \<mapsto> e')) x = Some y" for y
    proof (cases "x = a")
      case True
      have "(\<exists>q. deref ?c q = Some y) \<and> de_address y = a \<longleftrightarrow> y = e'" using na a(3) unfolding dr by (metis option.inject)
      then show ?thesis using True a by (auto simp: dir_map_Some [OF inv'] simp del: deref.simps set_entry.simps)
    next
      case False
      have "(\<exists>q. deref ?c q = Some y) \<longleftrightarrow> (\<exists>q. deref c q = Some y)" if "de_address y = x" "x \<noteq> INVALID_ADDRESS"
        using that False k a unfolding dr by (metis option.inject)
      then show ?thesis using False by (auto simp: dir_map_Some [OF inv'] dir_map_Some [OF inv] simp del: deref.simps set_entry.simps)
    qed
    then show "dir_map ?c x = ((dir_map c)(a \<mapsto> e')) x" by (metis not_None_eq)
  qed
qed


definition same_dir :: "DramDirectoryCache \<Rightarrow> DramDirectoryCache \<Rightarrow> bool" where
  "same_dir c c' \<longleftrightarrow> dir_set c' = dir_set c \<and> d_max_num_sharers (dc_directory c') = d_max_num_sharers (dc_directory c)
     \<and> d_type (dc_directory c') = d_type (dc_directory c)"

lemma same_dir_refl [simp]: "same_dir c c"
  by (simp add: same_dir_def)

lemma same_dir_trans: "same_dir c c' \<Longrightarrow> same_dir c' c'' \<Longrightarrow> same_dir c c''"
  by (simp add: same_dir_def)

lemma same_dir_set_entry [simp]: "same_dir c (set_entry r e c)"
  unfolding same_dir_def by (intro conjI dir_set_cong) simp_all

lemma same_dir_grown: "grown (dc_directory c) d' \<Longrightarrow> same_dir c (c\<lparr>dc_directory := d'\<rparr>)"
  by (simp add: same_dir_def grown_def dir_set_def fun_eq_iff)

lemma fresh_same_dir: "same_dir c c' \<Longrightarrow> fresh_entry (dc_directory c') = fresh_entry (dc_directory c)"
  by (simp add: same_dir_def fresh_entry_def fun_eq_iff)

text \<open>
  A lookup returns the entry of the address, or claims an unused entry for it; it fails only for an address
  without entry whose set is full.
\<close>

lemma getDirectoryEntry_spec:
  assumes inv: "dir_inv c" and a: "a \<noteq> INVALID_ADDRESS" and g: "getDirectoryEntry a m c now = Some (ro, c', now')"
  shows "dir_inv c'" and "same_dir c c'"
    and "ro = None \<Longrightarrow> dir_map c a = None \<and> dir_map c' = dir_map c \<and> set_full c' (dir_set c' a)"
    and "ro = Some r \<Longrightarrow> \<exists>e. deref c' r = Some e \<and> de_address e = a \<and> dir_map c' = (dir_map c)(a \<mapsto> e)
       \<and> (dir_map c a = Some e \<or> dir_map c a = None \<and> fresh_entry (dc_directory c) e)"
proof -
  have "dir_inv c' \<and> same_dir c c' \<and> (case ro of
     None \<Rightarrow> dir_map c a = None \<and> dir_map c' = dir_map c \<and> set_full c' (dir_set c' a)
   | Some r \<Rightarrow> \<exists>e. deref c' r = Some e \<and> de_address e = a \<and> dir_map c' = (dir_map c)(a \<mapsto> e)
       \<and> (dir_map c a = Some e \<or> dir_map c a = None \<and> fresh_entry (dc_directory c) e))"
  proof -
    obtain t i where sp: "dir_splitAddress c a = Some (t, i)" by (rule dir_split [OF dir_inv_fields(1) [OF inv], of a])
    from g obtain hit d1 where w1: "way_scan (\<lambda>e. de_address e = a) (i * dc_associativity c) 0 (unat (dc_associativity c)) (dc_directory c) = Some (hit, d1)"
      by (auto simp: getDirectoryEntry_def sp Let_def split: bind_splits)
    define c1 where "c1 = c\<lparr>dc_directory := d1\<rparr>"
    note s1 = set_scan [OF inv sp _ w1, where Q = "\<lambda>x. x = a", OF refl]
    note g1 = grown_inv [OF inv s1(1) c1_def]
    have sd1: "same_dir c c1" unfolding c1_def by (rule same_dir_grown [OF s1(1)])
    show ?thesis
    proof (cases hit)
      case (Some k)
      obtain e where e: "deref c1 (In_table k) = Some e" "de_address e = a" using s1(3) [OF Some] unfolding c1_def by auto
      have res: "ro = Some (In_table k)" "c' = c1" using g w1 sp Some unfolding getDirectoryEntry_def by (auto simp: c1_def Let_def split: bind_splits)
      have "dir_map c a = Some e" using dir_map_Some [OF g1(1), of a e] e a by (metis g1(2))
      then show ?thesis using res e sd1 g1(1,2) by (auto simp del: deref.simps)
    next
      case None
      have as: "dc_associativity c1 = dc_associativity c" by (simp add: c1_def)
      have sp1: "dir_splitAddress c1 a = Some (t, i)" using sp by (simp add: c1_def dir_splitAddress_def)
      from g obtain free d2 where w2: "way_scan (\<lambda>e. de_address e = INVALID_ADDRESS) (i * dc_associativity c1) 0 (unat (dc_associativity c1)) (dc_directory c1) = Some (free, d2)"
        unfolding c1_def by (auto simp: getDirectoryEntry_def sp w1 None Let_def split: bind_splits)
      define c2 where "c2 = c1\<lparr>dc_directory := d2\<rparr>"
      note s2 = set_scan [OF g1(1) sp1 _ w2, where Q = "\<lambda>x. x = INVALID_ADDRESS", OF refl]
      note g2 = grown_inv [OF g1(1) s2(1) c2_def]
      have sd2: "same_dir c c2" unfolding c2_def by (rule same_dir_trans [OF sd1 same_dir_grown [OF s2(1)]])
      have ds2: "dir_set c2 = dir_set c1" by (rule g2(3))
      have as2: "dc_associativity c2 = dc_associativity c" by (simp add: c2_def as)
      have m2: "dir_map c2 = dir_map c" using g1(2) g2(2) by simp
      have no: "addr_at (dc_directory c1) (dir_set c1 a * unat (dc_associativity c) + j) \<noteq> a" if "j < unat (dc_associativity c)" for j
        using s1(2) [OF None] that grown_addr_at [OF s1(1) set_position(1) [OF dir_inv_fields(1) [OF inv] that]] by (simp add: c1_def dir_set_def)
      have nt: "de_address e \<noteq> a" if "deref c1 (In_table k) = Some e" for k e
        by (rule no_entry_in_set [OF g1(1) _ a that]) (use no as in simp)
      show ?thesis
      proof (cases free)
        case (Some k)
        obtain j e where j: "j < unat (dc_associativity c)" "k = dir_set c2 a * unat (dc_associativity c) + j" "addr_at (dc_directory c1) k = INVALID_ADDRESS"
          and e: "deref c2 (In_table k) = Some e" "de_address e = INVALID_ADDRESS"
          using s2(3) [OF Some] unfolding c2_def [symmetric] as ds2 by (auto simp del: deref.simps)
        have nr: "de_address x \<noteq> a" if "deref c1 (In_replaced q) = Some x" for q x
        proof
          assume "de_address x = a"
          then have "set_full c1 (dir_set c1 a)" using dir_inv_fields(6) [OF g1(1) that] by simp
          then show False using j ds2 as by (simp add: set_full_def)
        qed
        have "de_address x \<noteq> a" if "deref c1 r = Some x" for r x using that nt nr by (cases r) blast+
        then have mn: "dir_map c2 a = None" using dir_map_None [OF g1(1) a] g2(2) by simp
        let ?e = "e\<lparr>de_address := a\<rparr>"
        have res: "ro = Some (In_table k)" "c' = set_entry (In_table k) ?e c2" using g w1 w2 e sp Some None
          unfolding getDirectoryEntry_def c1_def c2_def by (auto simp: Let_def split: bind_splits simp del: deref.simps set_entry.simps)
        have j2: "j < unat (dc_associativity c2)" "k = dir_set c2 a * unat (dc_associativity c2) + j" using j as2 by simp_all
        have ea: "de_address ?e = a" by simp
        note cl = claim_entry_inv [OF g2(1) e(1,2) mn a ea j2]
        have "fresh_entry (dc_directory c) ?e"
          using dir_inv_fields(3) [OF g2(1) e] fresh_same_dir [OF sd2] by (simp add: fresh_entry_def)
        moreover have "deref c' (In_table k) = Some ?e" using deref_set_entry [of c2 "In_table k" ?e] e(1) res by (simp del: deref.simps set_entry.simps)
        moreover have "same_dir c c'" unfolding res by (rule same_dir_trans [OF sd2 same_dir_set_entry])
        ultimately show ?thesis using res cl mn m2 by (auto simp del: deref.simps set_entry.simps)
      next
        case None2: None
        have full: "set_full c2 (dir_set c2 a)"
        proof -
          have "set_full c1 (dir_set c1 a)" using s2(2) [OF None2] as unfolding set_full_def by simp
          then show ?thesis using g2(4) [of a] ds2 by simp
        qed
        have res: "ro = map_option In_replaced (find_index (\<lambda>e. de_address e = a) (dc_replaced c2))" "c' = c2" using g w1 w2 sp None None2
          unfolding getDirectoryEntry_def c1_def c2_def by (auto simp: Let_def split: bind_splits)
        show ?thesis
        proof (cases "find_index (\<lambda>e. de_address e = a) (dc_replaced c2)")
          case None
          have "de_address x \<noteq> a" if "deref c1 r = Some x" for r x
            using that nt None by (cases r) (auto simp: find_index_None c2_def split: if_splits)
          then have "dir_map c2 a = None" using dir_map_None [OF g1(1) a] g2(2) by simp
          then show ?thesis using res None full g2(1) m2 sd2 by simp
        next
          case (Some k)
          have e: "deref c2 (In_replaced k) = Some (dc_replaced c2 ! k)" "de_address (dc_replaced c2 ! k) = a" using find_index_Some [OF Some] by auto
          then have "dir_map c2 a = Some (dc_replaced c2 ! k)" using dir_map_Some [OF g2(1)] a by blast
          then show ?thesis using res Some e g2(1) m2 sd2 by (auto simp del: deref.simps)
        qed
      qed
    qed
  qed
  then show "dir_inv c'" "same_dir c c'"
    "ro = None \<Longrightarrow> dir_map c a = None \<and> dir_map c' = dir_map c \<and> set_full c' (dir_set c' a)"
    "ro = Some r \<Longrightarrow> \<exists>e. deref c' r = Some e \<and> de_address e = a \<and> dir_map c' = (dir_map c)(a \<mapsto> e)
       \<and> (dir_map c a = Some e \<or> dir_map c a = None \<and> fresh_entry (dc_directory c) e)" by auto
qed


lemma candidates_spec:
  assumes "length (d_entry_list d) = unat (d_num_entries d)" and "unat base + unat assoc \<le> length (d_entry_list d)"
    and "candidates base ptr assoc i n d = Some (es, d')"
  shows "grown d d' \<and> (\<forall>(k, e) \<in> set es. d_entry_list d' ! k = Some e \<and> (\<exists>j < unat assoc. k = unat base + j))"
  using assms
proof (induction n arbitrary: i d es)
  case (Suc n)
  then have az: "assoc \<noteq> 0" by auto
  let ?r = "(of_nat i + ptr) mod assoc"
  have r: "unat ?r < unat assoc" using az by (simp add: unat_mod word_less_nat_alt [symmetric] word_greater_zero_iff unat_gt_0)
  have "unat base + unat ?r < 2 ^ 32" using r Suc.prems(1,2) unsigned_less [of "d_num_entries d", where 'a = nat] by simp
  then have u: "unat (base + ?r) = unat base + unat ?r" using way_index [of base "unat ?r"] by simp
  obtain e d1 where g: "Directory_getDirectoryEntry (base + ?r) d = Some (e, d1)" "grown d d1" "d_entry_list d1 ! unat (base + ?r) = Some e"
    by (rule Directory_getDirectoryEntry_spec [of d "base + ?r"]) (use Suc.prems u r in auto)
  obtain es' where es: "candidates base ptr assoc (Suc i) n d1 = Some (es', d')" "es = (unat (base + ?r), e) # es'"
    using Suc.prems(3) az g(1) by (auto simp: umod_def split: bind_splits)
  have l: "length (d_entry_list d1) = length (d_entry_list d)" "d_num_entries d1 = d_num_entries d" using g(2) by (auto simp: grown_def)
  have ih: "grown d1 d' \<and> (\<forall>(k, e) \<in> set es'. d_entry_list d' ! k = Some e \<and> (\<exists>j < unat assoc. k = unat base + j))"
    by (rule Suc.IH [OF _ _ es(1)]) (use Suc.prems l in auto)
  have "unat base + unat ?r < length (d_entry_list d1)" using Suc.prems(2) r l by simp
  then have "d_entry_list d' ! (unat base + unat ?r) = Some e" using ih g(3) u unfolding grown_def by fastforce
  then show ?case using ih es(2) r grown_trans [OF g(2)] by (auto simp: u)
qed auto

lemma getReplacementCandidates_spec:
  assumes inv: "dir_inv c" and a: "a \<noteq> INVALID_ADDRESS" and g: "getReplacementCandidates a c = Some (es, c')"
  shows "dir_inv c'" and "same_dir c c'" and "dir_map c a = None" and "dir_map c' = dir_map c" and "set_full c' (dir_set c' a)"
    and "(k, e) \<in> set es \<Longrightarrow> deref c' (In_table k) = Some e \<and> de_address e \<noteq> INVALID_ADDRESS \<and> dir_set c' (de_address e) = dir_set c' a"
proof -
  from g obtain c1 now where l: "getDirectoryEntry a False c 0 = Some (None, c1, now)"
    by (auto simp: getReplacementCandidates_def split: bind_splits if_splits)
  note gs = getDirectoryEntry_spec [OF inv a l]
  have gm: "geometry c1" by (rule dir_inv_fields(1) [OF gs(1)])
  obtain t i where sp: "dir_splitAddress c1 a = Some (t, i)" "unat i = dir_set c1 a" "unat (i * dc_associativity c1) = dir_set c1 a * unat (dc_associativity c1)"
    by (rule dir_split [OF gm, of a])
  have il: "unat i < length (dc_replacement_ptrs c1)" using set_position(2) [OF gm, of 0 a] gm sp(2) by (simp add: geometry_def)
  define ptr where "ptr = dc_replacement_ptrs c1 ! unat i"
  obtain d' where cs: "candidates (i * dc_associativity c1) ptr (dc_associativity c1) 0 (unat (dc_associativity c1)) (dc_directory c1) = Some (es, d')"
    and c': "c' = c1\<lparr>dc_directory := d', dc_replacement_ptrs := (dc_replacement_ptrs c1)[unat i := ptr + 1]\<rparr>"
    using g l sp(1) il unfolding ptr_def by (auto simp: getReplacementCandidates_def Let_def split: bind_splits)
  have le: "unat (i * dc_associativity c1) + unat (dc_associativity c1) \<le> length (d_entry_list (dc_directory c1))"
    using set_position(1) [OF gm, of "unat (dc_associativity c1) - 1" a] gm sp(3) by (simp add: geometry_def)
  have len: "length (d_entry_list (dc_directory c1)) = unat (d_num_entries (dc_directory c1))" using gm by (simp add: geometry_def)
  note cd = candidates_spec [OF len le cs]
  define c2 where "c2 = c1\<lparr>dc_directory := d'\<rparr>"
  note g2 = grown_inv [OF gs(1) conjunct1 [OF cd] c2_def]
  have c2': "c' = c2\<lparr>dc_replacement_ptrs := (dc_replacement_ptrs c1)[unat i := ptr + 1]\<rparr>" by (simp add: c' c2_def)
  have dr: "deref c' r = deref c2 r" for r by (cases r) (simp_all add: c2')
  have p: "dir_set c' = dir_set c2" "set_full c' = set_full c2" "dc_directory c' = dc_directory c2" "dc_associativity c' = dc_associativity c2"
    by (simp_all add: c2' dir_set_def set_full_def fun_eq_iff)
  have gm': "geometry c'" using dir_inv_fields(1) [OF g2(1)] by (simp add: c2' geometry_def c2_def)
  show inv': "dir_inv c'" using g2(1) gm' unfolding dir_inv_def dr p by blast
  show "same_dir c c'" using gs(2) same_dir_grown [OF conjunct1 [OF cd]] unfolding c2_def [symmetric] by (simp add: same_dir_def p)
  show "dir_map c a = None" using gs(3) by simp
  have "dir_map c' = dir_map c2" by (simp add: dir_map_def all_entries_def c2' fun_eq_iff)
  then show "dir_map c' = dir_map c" using g2(2) gs(3) by simp
  show sf: "set_full c' (dir_set c' a)" using gs(3) g2(3) g2(4) [of a] by (simp add: p)
  assume "(k, e) \<in> set es"
  then obtain j where k: "d_entry_list d' ! k = Some e" "j < unat (dc_associativity c1)" "k = dir_set c1 a * unat (dc_associativity c1) + j"
    using cd sp(3) by auto
  have ds: "dir_set c' = dir_set c1" "dc_associativity c' = dc_associativity c1" using g2(3) p by (simp_all add: c2_def)
  have kl: "k < length (d_entry_list d')" using k le sp(3) cd by (simp add: grown_def)
  then have d: "deref c' (In_table k) = Some e" using k(1) by (simp add: c')
  have "addr_at (dc_directory c') k = de_address e" using k(1) by (simp add: addr_at_def c')
  then have v: "de_address e \<noteq> INVALID_ADDRESS" using sf k ds by (auto simp: set_full_def)
  obtain j' where "j' < unat (dc_associativity c1)" "k = dir_set c1 (de_address e) * unat (dc_associativity c1) + j'"
    using dir_inv_fields(4) [OF inv' d v] ds by auto
  then have "dir_set c1 (de_address e) = dir_set c1 a" using k(2,3) by (metis div_mult_self3 div_less add.right_neutral mult.commute not_less0)
  then show "deref c' (In_table k) = Some e \<and> de_address e \<noteq> INVALID_ADDRESS \<and> dir_set c' (de_address e) = dir_set c' a" using d v ds by simp
qed


text \<open>The replaced entry leaves the table and stays reachable through the list; its slot holds a new entry.\<close>

lemma replaceDirectoryEntry_spec:
  assumes inv: "dir_inv c" and a: "a \<noteq> INVALID_ADDRESS" "dir_map c a = None" and ra: "ra \<noteq> INVALID_ADDRESS" "dir_set c ra = dir_set c a"
    and full: "set_full c (dir_set c a)" and g: "replaceDirectoryEntry ra a m c now = Some (r, c', now')"
  shows "dir_inv c'" and "same_dir c c'" and "\<exists>k. r = In_table k"
    and "\<exists>e. deref c' r = Some e \<and> de_address e = a \<and> fresh_entry (dc_directory c) e \<and> dir_map c' = (dir_map c)(a \<mapsto> e)"
proof -
  have gm: "geometry c" by (rule dir_inv_fields(1) [OF inv])
  obtain t i where sp: "dir_splitAddress c ra = Some (t, i)" by (rule dir_split [OF gm, of ra])
  from g obtain k d1 where w: "way_scan (\<lambda>e. de_address e = ra) (i * dc_associativity c) 0 (unat (dc_associativity c)) (dc_directory c) = Some (Some k, d1)"
    by (auto simp: replaceDirectoryEntry_def sp Let_def split: bind_splits)
  define c1 where "c1 = c\<lparr>dc_directory := d1\<rparr>"
  note s1 = set_scan [OF inv sp _ w, where Q = "\<lambda>x. x = ra", OF refl]
  note g1 = grown_inv [OF inv s1(1) c1_def]
  have sd1: "same_dir c c1" unfolding c1_def by (rule same_dir_grown [OF s1(1)])
  obtain j old where j: "j < unat (dc_associativity c)" "k = dir_set c a * unat (dc_associativity c) + j"
    and old: "deref c1 (In_table k) = Some old" "de_address old = ra"
    using s1(3) [OF refl] ra(2) unfolding c1_def by auto
  have kl: "k < length (d_entry_list d1)" using old(1) by (simp add: c1_def split: if_splits)
  have ku: "unat (of_nat k :: u32) = k"
    using kl dir_inv_fields(1) [OF g1(1)] unsigned_less [of "d_num_entries d1", where 'a = nat] by (simp add: c1_def geometry_def unsigned_of_nat take_bit_nat_eq_self)
  obtain e d2 where cr: "createDirectoryEntry d1 = (e, d2)" by fastforce
  note fr = createDirectoryEntry_fresh [OF cr]
  define e' where "e' = e\<lparr>de_address := a\<rparr>"
  have r: "r = In_table k"
    and c': "c' = c1\<lparr>dc_directory := d2\<lparr>d_entry_list := (d_entry_list d1)[k := Some e']\<rparr>, dc_replaced := dc_replaced c @ [old]\<rparr>"
    using g w sp old(1) cr kl unfolding c1_def
    by (auto simp: replaceDirectoryEntry_def Let_def setDirectoryEntry_def ku fr(3) e'_def split: bind_splits if_splits)
  have rp: "dc_replaced c1 = dc_replaced c" by (simp add: c1_def)
  have dr: "deref c' x = (if x = In_table k then Some e' else if x = In_replaced (length (dc_replaced c)) then Some old else deref c1 x)" for x
    using kl rp by (cases x) (auto simp: c' fr(3) c1_def nth_append split: if_splits)
  have fe: "fresh_entry (dc_directory c') x = fresh_entry (dc_directory c1) x" for x by (simp add: fresh_entry_def c' fr c1_def)
  have as: "dc_associativity c' = dc_associativity c1" "dc_associativity c1 = dc_associativity c" by (simp_all add: c' c1_def)
  have ds: "dir_set c' = dir_set c1" by (simp add: c' dir_set_def fun_eq_iff c1_def)
  have ds1: "dir_set c1 = dir_set c" by (rule g1(3))
  have at: "addr_at (dc_directory c') x = (if x = k then a else addr_at (dc_directory c1) x)" if "x < length (d_entry_list d1)" for x
    using that kl by (auto simp: addr_at_def c' e'_def c1_def)
  have len: "length (d_entry_list d1) = length (d_entry_list (dc_directory c))" using s1(1) by (simp add: grown_def)
  have sf: "set_full c' (dir_set c x)" if "set_full c (dir_set c x)" for x
  proof -
    have "set_full c1 (dir_set c x)" using that g1(4) [of x] by simp
    then show ?thesis using at set_position(1) [OF gm] a(1) len as by (simp add: set_full_def)
  qed
  have na: "de_address y \<noteq> a" if "deref c1 x = Some y" for x y
    using that a g1(2) dir_map_None [OF g1(1) a(1)] by (auto simp del: deref.simps)
  have uo: "x = In_table k" if "deref c1 x = Some y" "de_address y = ra" for x y
    using dir_inv_fields(2) [OF g1(1) that(1) old(1)] that(2) old(2) ra(1) by simp
  have ea: "de_address e' = a" by (simp add: e'_def)
  have ra': "ra \<noteq> a" using na [OF old(1)] old(2) by simp
  show inv': "dir_inv c'" unfolding dir_inv_def
  proof (intro conjI allI impI)
    show "geometry c'" using dir_inv_fields(1) [OF g1(1)] by (simp add: geometry_def c' fr c1_def)
    fix x x' :: entry_ref and y y' :: DirectoryEntry
    show "deref c' x = Some y \<Longrightarrow> deref c' x' = Some y' \<Longrightarrow> de_address y = de_address y' \<Longrightarrow> de_address y \<noteq> INVALID_ADDRESS \<Longrightarrow> x = x'"
      using dir_inv_fields(2) [OF g1(1), of x y x' y'] na [of x y] na [of x' y'] uo [of x y] uo [of x' y'] ea old(2) ra'
      unfolding dr by (auto split: if_splits simp del: deref.simps)
  next
    fix m and y :: DirectoryEntry assume h: "deref c' (In_table m) = Some y"
    show "if de_address y = INVALID_ADDRESS then fresh_entry (dc_directory c') y
        else \<exists>j < unat (dc_associativity c'). m = dir_set c' (de_address y) * unat (dc_associativity c') + j"
      using h dir_inv_fields(3,4) [OF g1(1), of m y] ea a(1) j unfolding dr fe ds as ds1 by (auto simp del: deref.simps split: if_splits)
  next
    fix m and y :: DirectoryEntry assume h: "deref c' (In_replaced m) = Some y"
    show "de_address y \<noteq> INVALID_ADDRESS" "set_full c' (dir_set c' (de_address y))"
      using h dir_inv_fields(5,6) [OF g1(1), of m y] sf [of "de_address y"] g1(4) [of "de_address y"] old(2) ra full unfolding dr ds ds1 by (auto simp del: deref.simps split: if_splits)
  qed
  have "d_max_num_sharers (dc_directory c') = d_max_num_sharers (dc_directory c1)" "d_type (dc_directory c') = d_type (dc_directory c1)"
    by (simp_all add: c' fr c1_def)
  then show "same_dir c c'" using sd1 ds by (simp add: same_dir_def)
  show "\<exists>k. r = In_table k" using r by simp
  have "dir_map c' = (dir_map c)(a \<mapsto> e')"
  proof
    fix x
    have "dir_map c' x = Some y \<longleftrightarrow> ((dir_map c)(a \<mapsto> e')) x = Some y" for y
    proof (cases "x = a")
      case True
      have "(\<exists>q. deref c' q = Some y) \<and> de_address y = a \<longleftrightarrow> y = e'" using na ea old(2) ra' unfolding dr by (metis option.inject)
      then show ?thesis using True a by (auto simp: dir_map_Some [OF inv'] simp del: deref.simps)
    next
      case False
      have nl: "deref c1 (In_replaced (length (dc_replaced c))) = None" by (simp add: rp)
      have "(\<exists>q. deref c' q = Some y) \<longleftrightarrow> (\<exists>q. deref c1 q = Some y)" if "de_address y = x"
      proof
        assume "\<exists>q. deref c' q = Some y"
        then show "\<exists>q. deref c1 q = Some y" using that False ea old unfolding dr by (auto simp del: deref.simps split: if_splits)
      next
        assume "\<exists>q. deref c1 q = Some y"
        then obtain q where q: "deref c1 q = Some y" by blast
        show "\<exists>q. deref c' q = Some y"
        proof (cases "q = In_table k")
          case True
          then have "deref c' (In_replaced (length (dc_replaced c))) = Some y" using q old unfolding dr by (simp del: deref.simps)
          then show ?thesis by blast
        next
          case False
          then have "deref c' q = Some y" using q nl unfolding dr by (auto simp del: deref.simps)
          then show ?thesis by blast
        qed
      qed
      moreover have "dir_map c x = dir_map c1 x" using g1(2) by simp
      ultimately show ?thesis using False by (auto simp: dir_map_Some [OF inv'] dir_map_Some [OF g1(1)] simp del: deref.simps)
    qed
    then show "dir_map c' x = ((dir_map c)(a \<mapsto> e')) x" by (metis not_None_eq)
  qed
  moreover have "fresh_entry (dc_directory c) e'" using fr(1) s1(1) by (simp add: fresh_entry_def e'_def grown_def)
  ultimately show "\<exists>e. deref c' r = Some e \<and> de_address e = a \<and> fresh_entry (dc_directory c) e \<and> dir_map c' = (dir_map c)(a \<mapsto> e)"
    using r ea unfolding dr by auto
qed


lemma invalidateDirectoryEntry_spec:
  assumes inv: "dir_inv c" and g: "invalidateDirectoryEntry a c = Some c'"
  shows "dir_inv c'" and "same_dir c c'" and "dir_map c' = (dir_map c)(a := None)"
    and "d_use_max_hw_sharers (dc_directory c') = d_use_max_hw_sharers (dc_directory c)" and "deref c' (In_table k) = deref c (In_table k)"
proof -
  from g obtain k where k: "find_index (\<lambda>e. de_address e = a) (dc_replaced c) = Some k"
    and c': "c' = c\<lparr>dc_replaced := take k (dc_replaced c) @ drop (Suc k) (dc_replaced c)\<rparr>" by (auto simp: invalidateDirectoryEntry_def split: bind_splits)
  have kl: "k < length (dc_replaced c)" and ka: "de_address (dc_replaced c ! k) = a" using find_index_Some [OF k] by auto
  have a: "a \<noteq> INVALID_ADDRESS" using dir_inv_fields(5) [OF inv, of k] kl ka by auto
  define f where "f = (\<lambda>x. case x of In_table m \<Rightarrow> In_table m | In_replaced m \<Rightarrow> In_replaced (if m < k then m else Suc m))"
  have df: "deref c' x = deref c (f x)" for x
    using kl by (cases x) (auto simp: c' f_def nth_append min_def)
  have fi: "f x = f y \<Longrightarrow> x = y" for x y by (auto simp: f_def split: entry_ref.splits if_splits)
  have fk: "f x \<noteq> In_replaced k" for x by (auto simp: f_def split: entry_ref.splits)
  have sur: "\<exists>y. f y = x" if "x \<noteq> In_replaced k" for x
  proof (cases x)
    case (In_table m)
    then show ?thesis by (intro exI [of _ "In_table m"]) (simp add: f_def)
  next
    case (In_replaced m)
    then have "f (In_replaced (if m < k then m else m - 1)) = x" using that by (auto simp: f_def)
    then show ?thesis by blast
  qed
  have p: "dir_set c' = dir_set c" "set_full c' = set_full c" "dc_directory c' = dc_directory c" "dc_associativity c' = dc_associativity c"
    by (simp_all add: c' dir_set_def set_full_def fun_eq_iff)
  show inv': "dir_inv c'" unfolding dir_inv_def
  proof (intro conjI allI impI)
    show "geometry c'" using dir_inv_fields(1) [OF inv] by (simp add: geometry_def c')
    fix x x' :: entry_ref and y y' :: DirectoryEntry
    show "deref c' x = Some y \<Longrightarrow> deref c' x' = Some y' \<Longrightarrow> de_address y = de_address y' \<Longrightarrow> de_address y \<noteq> INVALID_ADDRESS \<Longrightarrow> x = x'"
      using dir_inv_fields(2) [OF inv, of "f x" y "f x'" y'] fi unfolding df by blast
  next
    fix m and y :: DirectoryEntry assume h: "deref c' (In_table m) = Some y"
    have "f (In_table m) = In_table m" by (simp add: f_def)
    then show "if de_address y = INVALID_ADDRESS then fresh_entry (dc_directory c') y
        else \<exists>j < unat (dc_associativity c'). m = dir_set c' (de_address y) * unat (dc_associativity c') + j"
      using h dir_inv_fields(3,4) [OF inv, of m y] unfolding df p by (auto simp del: deref.simps)
  next
    fix m and y :: DirectoryEntry assume h: "deref c' (In_replaced m) = Some y"
    obtain m' where "f (In_replaced m) = In_replaced m'" by (simp add: f_def)
    then show "de_address y \<noteq> INVALID_ADDRESS" "set_full c' (dir_set c' (de_address y))"
      using h dir_inv_fields(5,6) [OF inv, of m' y] unfolding df p by (auto simp del: deref.simps)
  qed
  show "same_dir c c'" by (simp add: same_dir_def p)
  show "d_use_max_hw_sharers (dc_directory c') = d_use_max_hw_sharers (dc_directory c)" "deref c' (In_table m) = deref c (In_table m)" for m by (simp_all add: p)
  show "dir_map c' = (dir_map c)(a := None)"
  proof
    fix x
    have "dir_map c' x = Some y \<longleftrightarrow> ((dir_map c)(a := None)) x = Some y" for y
    proof (cases "x = a")
      case True
      have "de_address y \<noteq> a" if "deref c' q = Some y" for q
      proof
        assume "de_address y = a"
        then have "f q = In_replaced k" using that kl ka a by (intro dir_inv_fields(2) [OF inv, of _ y _ "dc_replaced c ! k"]) (auto simp: df)
        then show False using fk by blast
      qed
      then show ?thesis using True by (auto simp: dir_map_Some [OF inv'] simp del: deref.simps)
    next
      case False
      have "(\<exists>q. deref c' q = Some y) \<longleftrightarrow> (\<exists>q. deref c q = Some y)" if "de_address y = x"
      proof
        assume "\<exists>q. deref c q = Some y"
        then obtain q where q: "deref c q = Some y" by blast
        then have "q \<noteq> In_replaced k" using that False ka by (auto split: if_splits)
        then show "\<exists>q. deref c' q = Some y" using sur [of q] q df by metis
      qed (auto simp: df simp del: deref.simps)
      then show ?thesis using False by (auto simp: dir_map_Some [OF inv'] dir_map_Some [OF inv] simp del: deref.simps)
    qed
    then show "dir_map c' x = ((dir_map c)(a := None)) x" by (metis not_None_eq)
  qed
qed

text \<open>A new cache has no entries.\<close>

lemma DramDirectoryCache_new_inv:
  assumes "DramDirectoryCache_new uninit uninit_ptr penalty type_str tot assoc bs hw num time = Some c"
    and "unat assoc \<le> unat tot" and "0 < unat assoc" and "bs \<noteq> 0"
  shows "dir_inv c" and "dir_map c = Map.empty"
proof -
  have az: "assoc \<noteq> 0" using assms(3) by auto
  then have ns: "dc_num_sets c = tot div assoc" "dc_associativity c = assoc" "d_num_entries (dc_directory c) = tot"
    "d_entry_list (dc_directory c) = replicate (unat tot) None" "dc_replaced c = []" "length (dc_replacement_ptrs c) = unat (tot div assoc)"
    "dc_log_cache_block_size c = of_int (floorLog2 bs)" "dc_log_num_sets c = of_int (floorLog2 (tot div assoc))"
    using assms(1) by (auto simp: DramDirectoryCache_new_def Directory_new_def split: bind_splits)
  have u: "unat (tot div assoc) = unat tot div unat assoc" by (simp add: unat_div)
  have pos: "0 < unat tot div unat assoc" using assms(2,3) by (simp add: div_greater_zero_iff)
  then have nz: "tot div assoc \<noteq> 0" using u by auto
  have lg: "unat (of_int (floorLog2 n) :: u32) < 64" if "n \<noteq> 0" for n :: u32
  proof -
    have f: "0 \<le> floorLog2 n" "floorLog2 n < 32" using floorLog2_bounds [OF that] floorLog2_less_32 [OF that] by auto
    then obtain k where k: "floorLog2 n = int k" "k < 32" by (metis nonneg_int_cases of_nat_less_numeral_iff)
    have "unat (of_nat k :: u32) = k" using k(2) by (simp add: unsigned_of_nat take_bit_nat_eq_self)
    then show ?thesis using k by simp
  qed
  have "geometry c" using assms(3) pos lg [OF assms(4)] lg [OF nz] ns u by (auto simp: geometry_def)
  then show "dir_inv c" using ns by (auto simp: dir_inv_def elim: deref.elims split: if_splits)
  show "dir_map c = Map.empty" using ns by (simp add: dir_map_def all_entries_def fun_eq_iff map_filter_def)
qed

section \<open>The contract of a store of entries\<close>

text \<open>
  What the controller relies on: a lookup finds or makes the entry of an address, a write through a pointer replaces
  it, and an invalidation removes it; nothing else changes. A property of all entries thus only has to be checked
  for new entries and for those that are written.
\<close>

locale entry_store =
  fixes inv :: "'c \<Rightarrow> bool" and entry :: "'c \<Rightarrow> 'a \<Rightarrow> 'e option" and valid :: "'a \<Rightarrow> bool" and addr :: "'e \<Rightarrow> 'a" and fresh :: "'c \<Rightarrow> 'e \<Rightarrow> bool"
    and lookup :: "'a \<Rightarrow> bool \<Rightarrow> 'c \<Rightarrow> 't \<Rightarrow> ('r option \<times> 'c \<times> 't) option" and entry_at :: "'c \<Rightarrow> 'r \<Rightarrow> 'e option" and put :: "'r \<Rightarrow> 'e \<Rightarrow> 'c \<Rightarrow> 'c"
    and remove :: "'a \<Rightarrow> 'c \<Rightarrow> 'c option"
  assumes at_entry: "inv c \<Longrightarrow> entry_at c r = Some e \<Longrightarrow> valid (addr e) \<Longrightarrow> entry c (addr e) = Some e"
    and lookup_inv: "inv c \<Longrightarrow> valid a \<Longrightarrow> lookup a m c t = Some (ro, c', t') \<Longrightarrow> inv c'"
    and lookup_None: "inv c \<Longrightarrow> valid a \<Longrightarrow> lookup a m c t = Some (None, c', t') \<Longrightarrow> entry c a = None \<and> entry c' = entry c"
    and lookup_Some: "inv c \<Longrightarrow> valid a \<Longrightarrow> lookup a m c t = Some (Some r, c', t') \<Longrightarrow>
      \<exists>e. entry_at c' r = Some e \<and> addr e = a \<and> entry c' = (entry c)(a \<mapsto> e) \<and> (entry c a = Some e \<or> entry c a = None \<and> fresh c e)"
    and write_inv: "inv c \<Longrightarrow> entry_at c r = Some e \<Longrightarrow> addr e' = addr e \<Longrightarrow> valid (addr e) \<Longrightarrow> inv (put r e' c)"
    and write_entry: "inv c \<Longrightarrow> entry_at c r = Some e \<Longrightarrow> addr e' = addr e \<Longrightarrow> valid (addr e) \<Longrightarrow> entry (put r e' c) = (entry c)(addr e \<mapsto> e')"
    and remove_inv: "inv c \<Longrightarrow> remove a c = Some c' \<Longrightarrow> inv c'" and remove_entry: "inv c \<Longrightarrow> remove a c = Some c' \<Longrightarrow> entry c' = (entry c)(a := None)"
begin

definition every :: "('e \<Rightarrow> bool) \<Rightarrow> 'c \<Rightarrow> bool" where
  "every P c \<longleftrightarrow> inv c \<and> (\<forall>a e. entry c a = Some e \<longrightarrow> P e)"

lemma every_at: "every P c \<Longrightarrow> entry_at c r = Some e \<Longrightarrow> valid (addr e) \<Longrightarrow> P e"
  using at_entry [of c r e] by (simp add: every_def)

lemma every_lookup:
  assumes "every P c" and "valid a" and "lookup a m c t = Some (ro, c', t')" and "\<And>e. fresh c e \<Longrightarrow> P e"
  shows "every P c'"
proof -
  have i: "inv c" using assms(1) by (simp add: every_def)
  show ?thesis
  proof (cases ro)
    case None
    then show ?thesis using lookup_inv [OF i assms(2,3)] lookup_None [OF i assms(2)] assms(1,3) by (auto simp: every_def)
  next
    case (Some r)
    then obtain e where e: "entry c' = (entry c)(a \<mapsto> e)" "entry c a = Some e \<or> entry c a = None \<and> fresh c e"
      using lookup_Some [OF i assms(2)] assms(3) by blast
    then have "P e" using assms(1,4) by (auto simp: every_def)
    then show ?thesis using lookup_inv [OF i assms(2,3)] assms(1) e(1) by (auto simp: every_def)
  qed
qed

lemma every_write:
  assumes "every P c" and "entry_at c r = Some e" and "addr e' = addr e" and "valid (addr e)" and "P e'"
  shows "every P (put r e' c)"
  using assms write_inv [of c r e e'] write_entry [of c r e e'] by (auto simp: every_def)

lemma every_remove: "every P c \<Longrightarrow> remove a c = Some c' \<Longrightarrow> every P c'"
  using remove_inv remove_entry by (auto simp: every_def split: if_splits)

end

interpretation dc: entry_store dir_inv dir_map "\<lambda>a. a \<noteq> INVALID_ADDRESS" de_address "\<lambda>c. fresh_entry (dc_directory c)"
  getDirectoryEntry deref set_entry invalidateDirectoryEntry
proof unfold_locales
  fix c c' :: DramDirectoryCache and r and e e' :: DirectoryEntry and a m t t' ro
  show "dir_inv c \<Longrightarrow> deref c r = Some e \<Longrightarrow> de_address e \<noteq> INVALID_ADDRESS \<Longrightarrow> dir_map c (de_address e) = Some e"
    using dir_map_Some [of c "de_address e" e] by blast
  show "dir_inv c \<Longrightarrow> a \<noteq> INVALID_ADDRESS \<Longrightarrow> getDirectoryEntry a m c t = Some (ro, c', t') \<Longrightarrow> dir_inv c'"
    by (rule getDirectoryEntry_spec(1))
  show "dir_inv c \<Longrightarrow> a \<noteq> INVALID_ADDRESS \<Longrightarrow> getDirectoryEntry a m c t = Some (None, c', t') \<Longrightarrow> dir_map c a = None \<and> dir_map c' = dir_map c"
    using getDirectoryEntry_spec(3) by blast
  show "dir_inv c \<Longrightarrow> a \<noteq> INVALID_ADDRESS \<Longrightarrow> getDirectoryEntry a m c t = Some (Some r, c', t') \<Longrightarrow>
      \<exists>e. deref c' r = Some e \<and> de_address e = a \<and> dir_map c' = (dir_map c)(a \<mapsto> e) \<and> (dir_map c a = Some e \<or> dir_map c a = None \<and> fresh_entry (dc_directory c) e)"
    using getDirectoryEntry_spec(4) by blast
  show "dir_inv c \<Longrightarrow> deref c r = Some e \<Longrightarrow> de_address e' = de_address e \<Longrightarrow> de_address e \<noteq> INVALID_ADDRESS \<Longrightarrow> dir_inv (set_entry r e' c)"
    by (rule set_entry_inv(1))
  show "dir_inv c \<Longrightarrow> deref c r = Some e \<Longrightarrow> de_address e' = de_address e \<Longrightarrow> de_address e \<noteq> INVALID_ADDRESS
      \<Longrightarrow> dir_map (set_entry r e' c) = (dir_map c)(de_address e \<mapsto> e')"
    by (rule set_entry_inv(2))
  show "dir_inv c \<Longrightarrow> invalidateDirectoryEntry a c = Some c' \<Longrightarrow> dir_inv c'" by (rule invalidateDirectoryEntry_spec(1))
  show "dir_inv c \<Longrightarrow> invalidateDirectoryEntry a c = Some c' \<Longrightarrow> dir_map c' = (dir_map c)(a := None)" by (rule invalidateDirectoryEntry_spec(3))
qed

end
