(* ===== verification/Sniper_Nuca.thy ===== *)
theory Sniper_Nuca
  imports Sniper_Cache
begin

text \<open>
  The slice of the last-level cache beside a directory (\<^verbatim>\<open>nuca_cache.cc\<close>), on top of the cache model. The latency of its
  tags and data and the processing time of a transfer are constants of the configuration. The delays of its queue
  model are a parameter: \<open>delays n t\<close> is the result of the \<open>n\<close>-th call, at time \<open>t\<close>.
\<close>

datatype where_t = L1I | L1_OWN | L2_OWN | L3_OWN | L4_OWN | MISS | NUCA_CACHE | DRAM_CACHE | DRAM | DRAM_LOCAL | DRAM_REMOTE | CACHE_REMOTE
  | SIBLING | L1_SIBLING | L2_SIBLING | L3_SIBLING | L4_SIBLING | UNKNOWN | PREDICATE_FALSE | PREFETCH_NO_MAPPING

record NucaCache =
  nc_cache :: Cache
  nc_cache_block_size :: u32
  nc_data_access_time :: u64
  nc_tags_access_time :: u64
  nc_processing_time :: u64
  nc_queue_model :: "(nat \<Rightarrow> u64 \<Rightarrow> u64) option"
  nc_queue_calls :: nat
  nc_reads :: u64
  nc_writes :: u64
  nc_read_misses :: u64
  nc_write_misses :: u64

definition NucaCache_new ::
  "(string \<Rightarrow> int) \<Rightarrow> (nat \<Rightarrow> u32) \<Rightarrow> bool \<Rightarrow> u32 \<Rightarrow> u32 \<Rightarrow> u32 \<Rightarrow> string \<Rightarrow> string \<Rightarrow> AddressHomeLookup option \<Rightarrow> u64 \<Rightarrow> u64 \<Rightarrow> u64
     \<Rightarrow> (nat \<Rightarrow> u64 \<Rightarrow> u64) option \<Rightarrow> NucaCache option" where
  "NucaCache_new cfg seeds fault_manager cache_block_size num_sets associativity policy_name hash_function home_lookup data_time tags_time processing_time queue_model = do {
     h \<leftarrow> parseAddressHash hash_function;
     c \<leftarrow> Cache_new cfg seeds ''nuca-cache'' ''perf_model/nuca/cache'' num_sets associativity cache_block_size policy_name PR_L1_CACHE h None fault_manager home_lookup;
     Some \<lparr>nc_cache = c, nc_cache_block_size = cache_block_size, nc_data_access_time = data_time, nc_tags_access_time = tags_time,
       nc_processing_time = processing_time, nc_queue_model = queue_model, nc_queue_calls = 0,
       nc_reads = 0, nc_writes = 0, nc_read_misses = 0, nc_write_misses = 0\<rparr> }"

definition accessDataArray :: "u64 \<Rightarrow> NucaCache \<Rightarrow> u64 \<times> NucaCache" where
  "accessDataArray t_start n = (case nc_queue_model n of
      Some delays \<Rightarrow>
        (nc_processing_time n + delays (nc_queue_calls n) t_start + nc_data_access_time n, n\<lparr>nc_queue_calls := nc_queue_calls n + 1\<rparr>)
    | None \<Rightarrow> (nc_data_access_time n, n))"

text \<open>A read returns the latency, where it hit, and the bytes copied to the buffer of the caller, if any.\<close>

definition NucaCache_read :: "u64 \<Rightarrow> u64 \<Rightarrow> bool \<Rightarrow> NucaCache \<Rightarrow> (u64 \<times> where_t \<times> u8 list option \<times> NucaCache) option" where
  "NucaCache_read address now count n = do {
     block \<leftarrow> peekSingleLine address (nc_cache n);
     let latency = nc_tags_access_time n;
     (case block of
        Some pos \<Rightarrow> do {
          (pos, out, c) \<leftarrow> accessSingleLine address LOAD (Some []) (nc_cache_block_size n) True (nc_cache n);
          let (d, n) = accessDataArray (now + latency) (n\<lparr>nc_cache := c\<rparr>);
          Some (latency + d, NUCA_CACHE, out, if count then n\<lparr>nc_reads := nc_reads n + 1\<rparr> else n) }
      | None \<Rightarrow> Some (latency, MISS, None,
          if count then n\<lparr>nc_read_misses := nc_read_misses n + 1, nc_reads := nc_reads n + 1\<rparr> else n)) }"

text \<open>
  A write that misses sets the arguments \<^verbatim>\<open>eviction\<close>, \<^verbatim>\<open>evict_address\<close> and \<^verbatim>\<open>evict_buf\<close> of the caller; a write that hits leaves
  them alone. The evicted line is reported only when it is in the state \<^verbatim>\<open>MODIFIED\<close>.
\<close>

definition NucaCache_write ::
  "u64 \<Rightarrow> u8 list option \<Rightarrow> u64 \<Rightarrow> bool \<Rightarrow> NucaCache \<Rightarrow> (u64 \<times> where_t \<times> (bool \<times> u64 \<times> u8 list option) option \<times> NucaCache) option" where
  "NucaCache_write address data_buf now count n = do {
     block \<leftarrow> peekSingleLine address (nc_cache n);
     let latency = nc_tags_access_time n;
     (case block of
        Some pos \<Rightarrow> do {
          c \<leftarrow> edit_line address (setCState MODIFIED) (nc_cache n);
          (pos, out, c) \<leftarrow> accessSingleLine address STORE data_buf (nc_cache_block_size n) True c;
          let (d, n) = accessDataArray (now + latency) (n\<lparr>nc_cache := c\<rparr>);
          Some (latency + d, NUCA_CACHE, None, if count then n\<lparr>nc_writes := nc_writes n + 1\<rparr> else n) }
      | None \<Rightarrow> do {
          (r, evict_address, cn, c) \<leftarrow> insertSingleLine address data_buf (cache_block_create PR_L1_CACHE) True None (nc_cache n);
          let n = n\<lparr>nc_cache := c\<rparr>;
          Some (latency, MISS, Some (ir_eviction r \<and> m_cstate (binfo (ir_evict_block r)) = MODIFIED, evict_address, ir_evict_data r),
            if count then n\<lparr>nc_write_misses := nc_write_misses n + 1, nc_writes := nc_writes n + 1\<rparr> else n) }) }"

end
