(* ===== verification/Sniper_Requests.thy ===== *)
theory Sniper_Requests
  imports Sniper_Nuca
begin

text \<open>
  Messages between caches, directories and memory controllers (\<^verbatim>\<open>shmem_msg.cc\<close>), the requests made from them
  (\<^verbatim>\<open>shmem_req.cc\<close>), and the queues of the requests for each address (\<^verbatim>\<open>req_queue_list_template.h\<close>). The locale
  \<open>request_queues\<close> is the contract of the queues: one first-in first-out list per address.
\<close>

section \<open>Messages\<close>

datatype msg_t = EX_REQ | SH_REQ | UPGRADE_REQ | INV_REQ | FLUSH_REQ | WB_REQ | EX_REP | SH_REP | UPGRADE_REP | INV_REP | FLUSH_REP | WB_REP
  | NULLIFY_REQ | DRAM_READ_REQ | DRAM_WRITE_REQ | DRAM_READ_REP

definition L2_CACHE :: component_t where "L2_CACHE = 4"
definition LAST_LEVEL_CACHE :: component_t where "LAST_LEVEL_CACHE = 20"
definition TAG_DIR :: component_t where "TAG_DIR = 21"
definition DRAM_COMPONENT :: component_t where "DRAM_COMPONENT = 24"

record ShmemMsg =
  sm_type :: msg_t
  sm_sender :: component_t
  sm_receiver :: component_t
  sm_requester :: int
  sm_where :: where_t
  sm_address :: u64
  sm_data :: "u8 list option"
  sm_data_length :: u32

definition ShmemMsg_new :: "msg_t \<Rightarrow> component_t \<Rightarrow> component_t \<Rightarrow> int \<Rightarrow> u64 \<Rightarrow> u8 list option \<Rightarrow> u32 \<Rightarrow> ShmemMsg" where
  "ShmemMsg_new t sender receiver requester address data_buf data_length =
     \<lparr>sm_type = t, sm_sender = sender, sm_receiver = receiver, sm_requester = requester, sm_where = UNKNOWN, sm_address = address,
      sm_data = data_buf, sm_data_length = data_length\<rparr>"

text \<open>The number of bytes charged to the network: a type, an address, and the block where the message carries one.\<close>

definition getModeledLength :: "ShmemMsg \<Rightarrow> u32 option" where
  "getModeledLength m =
     (if sm_type m \<in> {EX_REQ, SH_REQ, INV_REQ, FLUSH_REQ, WB_REQ, UPGRADE_REP, UPGRADE_REQ, INV_REP, DRAM_READ_REQ} then Some 9
      else if sm_type m \<in> {EX_REP, SH_REP, FLUSH_REP, WB_REP, DRAM_WRITE_REQ, DRAM_READ_REP} then Some (9 + sm_data_length m)
      else None)"

section \<open>Requests\<close>

text \<open>A request keeps a copy of its message. The copy leaves out where the data was found, which is not read again.\<close>

record ShmemReq =
  sr_msg :: ShmemMsg
  sr_time :: u64
  sr_wait_for_data :: bool
  sr_forwarding_from :: int

definition ShmemReq_new :: "ShmemMsg \<Rightarrow> u64 \<Rightarrow> ShmemReq option" where
  "ShmemReq_new m time =
     (if sm_data m = None then Some \<lparr>sr_msg = m, sr_time = time, sr_wait_for_data = False, sr_forwarding_from = - 1\<rparr> else None)"

definition isForwarding :: "ShmemReq \<Rightarrow> bool" where
  "isForwarding r \<longleftrightarrow> sr_forwarding_from r \<noteq> - 1"

definition ShmemReq_updateTime :: "u64 \<Rightarrow> ShmemReq \<Rightarrow> ShmemReq" where
  "ShmemReq_updateTime time r = (if time > sr_time r then r\<lparr>sr_time := time\<rparr> else r)"

section \<open>Queues\<close>

type_synonym 'r ReqQueueList = "u64 \<Rightarrow> 'r list option"

definition enqueue :: "u64 \<Rightarrow> 'r \<Rightarrow> 'r ReqQueueList \<Rightarrow> 'r ReqQueueList" where
  "enqueue address req q =
     (let q = (if q address = None then q(address \<mapsto> []) else q) in q(address \<mapsto> the (q address) @ [req]))"

definition dequeue :: "u64 \<Rightarrow> 'r ReqQueueList \<Rightarrow> ('r \<times> 'r ReqQueueList) option" where
  "dequeue address q = (case q address of
      None \<Rightarrow> None
    | Some [] \<Rightarrow> None
    | Some (req # rest) \<Rightarrow> Some (req, if rest = [] then q(address := None) else q(address \<mapsto> rest)))"

definition front :: "u64 \<Rightarrow> 'r ReqQueueList \<Rightarrow> 'r option" where
  "front address q = (case q address of Some (req # rest) \<Rightarrow> Some req | _ \<Rightarrow> None)"

definition queue_back :: "u64 \<Rightarrow> 'r ReqQueueList \<Rightarrow> 'r option" where
  "queue_back address q = (case q address of None \<Rightarrow> None | Some l \<Rightarrow> if l = [] then None else Some (last l))"

definition req_size :: "u64 \<Rightarrow> 'r ReqQueueList \<Rightarrow> nat" where
  "req_size address q = (case q address of None \<Rightarrow> 0 | Some l \<Rightarrow> length l)"

definition req_empty :: "u64 \<Rightarrow> 'r ReqQueueList \<Rightarrow> bool" where
  "req_empty address q \<longleftrightarrow> q address = None"

text \<open>A write through the pointer to the first request.\<close>

definition update_front :: "u64 \<Rightarrow> ('r \<Rightarrow> 'r) \<Rightarrow> 'r ReqQueueList \<Rightarrow> 'r ReqQueueList" where
  "update_front address f q = (case q address of Some (req # rest) \<Rightarrow> q(address \<mapsto> f req # rest) | _ \<Rightarrow> q)"

definition queue_of :: "'r ReqQueueList \<Rightarrow> u64 \<Rightarrow> 'r list" where
  "queue_of q address = (case q address of None \<Rightarrow> [] | Some l \<Rightarrow> l)"

definition queues_inv :: "'r ReqQueueList \<Rightarrow> bool" where
  "queues_inv q \<longleftrightarrow> (\<forall>a. q a \<noteq> Some [])"

locale request_queues =
  fixes enq :: "'a \<Rightarrow> 'r \<Rightarrow> 'q \<Rightarrow> 'q" and deq :: "'a \<Rightarrow> 'q \<Rightarrow> ('r \<times> 'q) option" and first :: "'a \<Rightarrow> 'q \<Rightarrow> 'r option"
    and size_at :: "'a \<Rightarrow> 'q \<Rightarrow> nat" and empty_at :: "'a \<Rightarrow> 'q \<Rightarrow> bool" and upd :: "'a \<Rightarrow> ('r \<Rightarrow> 'r) \<Rightarrow> 'q \<Rightarrow> 'q"
    and inv :: "'q \<Rightarrow> bool" and contents :: "'q \<Rightarrow> 'a \<Rightarrow> 'r list"
  assumes enq_inv: "inv q \<Longrightarrow> inv (enq a r q)" and enq_contents: "contents (enq a r q) = (contents q)(a := contents q a @ [r])"
    and deq_inv: "inv q \<Longrightarrow> deq a q = Some (r, q') \<Longrightarrow> inv q'"
    and deq_Cons: "contents q a = r # l \<Longrightarrow> \<exists>q'. deq a q = Some (r, q') \<and> contents q' = (contents q)(a := l)"
    and deq_Nil: "contents q a = [] \<Longrightarrow> deq a q = None"
    and first_contents: "first a q = (case contents q a of [] \<Rightarrow> None | r # l \<Rightarrow> Some r)"
    and size_contents: "size_at a q = length (contents q a)"
    and empty_contents: "inv q \<Longrightarrow> empty_at a q \<longleftrightarrow> contents q a = []"
    and upd_inv: "inv q \<Longrightarrow> inv (upd a f q)"
    and upd_contents: "contents (upd a f q) = (contents q)(a := (case contents q a of [] \<Rightarrow> [] | r # l \<Rightarrow> f r # l))"
begin

lemma deq_Some_iff: "deq a q = Some (r, q') \<Longrightarrow> contents q a = r # contents q' a \<and> contents q' = (contents q)(a := contents q' a)"
  using deq_Cons [of q a] deq_Nil [of q a] by (cases "contents q a") fastforce+

lemma first_Some_iff: "first a q = Some r \<longleftrightarrow> (\<exists>l. contents q a = r # l)"
  by (auto simp: first_contents split: list.splits)

lemma other_queues: "b \<noteq> a \<Longrightarrow> contents (enq a r q) b = contents q b \<and> contents (upd a f q) b = contents q b"
  by (simp add: enq_contents upd_contents)

text \<open>Requests leave a queue in the order in which they came.\<close>

fun drain :: "nat \<Rightarrow> 'a \<Rightarrow> 'q \<Rightarrow> 'r list" where
  "drain 0 a q = []"
| "drain (Suc n) a q = (case deq a q of None \<Rightarrow> [] | Some (r, q') \<Rightarrow> r # drain n a q')"

lemma drain_contents: "length (contents q a) \<le> n \<Longrightarrow> drain n a q = contents q a"
proof (induction n arbitrary: q)
  case (Suc n)
  show ?case
  proof (cases "contents q a")
    case Nil
    then show ?thesis by (simp add: deq_Nil)
  next
    case (Cons r l)
    then obtain q' where "deq a q = Some (r, q')" "contents q' = (contents q)(a := l)" using deq_Cons by blast
    then show ?thesis using Suc Cons by simp
  qed
qed simp

lemma fifo: "contents q a = [] \<Longrightarrow> drain (length rs) a (fold (enq a) rs q) = rs"
proof -
  assume e: "contents q a = []"
  have "contents (fold (enq a) rs q) a = contents q a @ rs" for q
    by (induction rs arbitrary: q) (auto simp: enq_contents)
  then show ?thesis using drain_contents [of "fold (enq a) rs q" a "length rs"] e by simp
qed

end

interpretation rq: request_queues enqueue dequeue front req_size req_empty update_front queues_inv queue_of
proof unfold_locales
  show "queues_inv q \<Longrightarrow> dequeue a q = Some (r, q') \<Longrightarrow> queues_inv q'" for a r and q q' :: "'r ReqQueueList"
    by (auto simp: queues_inv_def dequeue_def split: option.splits list.splits if_splits)
  show "\<exists>q'. dequeue a q = Some (r, q') \<and> queue_of q' = (queue_of q)(a := l)" if c: "queue_of q a = r # l" for a r l and q :: "'r ReqQueueList"
  proof -
    have "q a = Some (r # l)" using c by (simp add: queue_of_def split: option.splits)
    then have "dequeue a q = Some (r, if l = [] then q(a := None) else q(a \<mapsto> l))" by (simp add: dequeue_def)
    moreover have "queue_of (if l = [] then q(a := None) else q(a \<mapsto> l)) = (queue_of q)(a := l)" by (rule ext) (simp add: queue_of_def)
    ultimately show ?thesis by blast
  qed
qed (auto simp: queues_inv_def enqueue_def queue_of_def dequeue_def front_def req_size_def req_empty_def update_front_def fun_eq_iff Let_def
    split: option.splits list.splits)

end
