(* ===== verification/Sniper_Coherence.thy ===== *)
theory Sniper_Coherence
  imports Sniper_DirMap Sniper_Requests
begin

text \<open>
  The directory controller (\<^verbatim>\<open>dram_directory_cntlr.cc\<close>): it orders the requests for every address, keeps the directory
  entry of a line in step with the copies in the caches, and answers with the data. The controller works on one
  message at a time; its state here includes the messages it has sent, oldest first, and the time of the simulation
  thread. The time breakdown of a message (\<^verbatim>\<open>ShmemPerf\<close>) is left out.

  Functions that process the first request of an address read it from its queue, which is where the pointer that the
  code passes points to. They return whether \<^verbatim>\<open>processNextReqFromL2Cache\<close> is to be called next: in the code that call is
  always the last action.
\<close>

section \<open>State\<close>

datatype protocol_t = MSI | MESI | MESIF

record packet =
  pk_receiver :: "int option"
  pk_msg :: ShmemMsg
  pk_time :: u64

record DramDirectoryCntlr =
  dd_home_lookup :: AddressHomeLookup
  dd_cache :: DramDirectoryCache
  dd_queues :: "ShmemReq ReqQueueList"
  dd_nuca :: "NucaCache option"
  dd_core_id :: int
  dd_cache_block_size :: u32
  dd_protocol :: protocol_t
  dd_evict :: "dstate_t \<Rightarrow> u64"
  dd_forward :: u64
  dd_forward_failed :: u64
  dd_now :: u64
  dd_sent :: "packet list"
  dd_uninit_eviction :: bool
  dd_uninit_address :: u64
  dd_uninit_buf :: "u8 list"

definition DStateString :: "dstate_t \<Rightarrow> char" where
  "DStateString st = (case st of D_UNCACHED \<Rightarrow> CHR ''U'' | D_SHARED \<Rightarrow> CHR ''S'' | D_EXCLUSIVE \<Rightarrow> CHR ''E'' | D_OWNED \<Rightarrow> CHR ''O'' | D_MODIFIED \<Rightarrow> CHR ''M'')"

definition parseProtocol :: "string \<Rightarrow> protocol_t option" where
  "parseProtocol s = (if s = ''msi'' then Some MSI else if s = ''mesi'' then Some MESI else if s = ''mesif'' then Some MESIF else None)"

text \<open>
  \<open>uninit_*\<close> stand for indeterminate values: the counter of evicted uncached entries, which the constructor skips, the
  local variables that a write to the last-level slice may leave unset, and the contents of unset or freed buffers.
\<close>

definition DramDirectoryCntlr_new ::
  "DramDirectoryCache \<Rightarrow> AddressHomeLookup \<Rightarrow> NucaCache option \<Rightarrow> int \<Rightarrow> u32 \<Rightarrow> string \<Rightarrow> u64 \<Rightarrow> bool \<Rightarrow> u64 \<Rightarrow> u8 list \<Rightarrow> DramDirectoryCntlr option" where
  "DramDirectoryCntlr_new cache home nuca core_id cache_block_size protocol uninit_evict uninit_eviction uninit_address uninit_buf = do {
     p \<leftarrow> parseProtocol protocol;
     Some \<lparr>dd_home_lookup = home, dd_cache = cache, dd_queues = (\<lambda>_. None), dd_nuca = nuca, dd_core_id = core_id,
       dd_cache_block_size = cache_block_size, dd_protocol = p, dd_evict = (\<lambda>st. if st = D_UNCACHED then uninit_evict else 0),
       dd_forward = 0, dd_forward_failed = 0, dd_now = 0, dd_sent = [],
       dd_uninit_eviction = uninit_eviction, dd_uninit_address = uninit_address, dd_uninit_buf = uninit_buf\<rparr> }"

section \<open>Sending\<close>

text \<open>\<^verbatim>\<open>MemoryManager::sendMsg\<close> and \<^verbatim>\<open>broadcastMsg\<close>.\<close>

definition sendMsg ::
  "msg_t \<Rightarrow> component_t \<Rightarrow> int \<Rightarrow> int \<Rightarrow> u64 \<Rightarrow> u8 list option \<Rightarrow> u32 \<Rightarrow> where_t \<Rightarrow> DramDirectoryCntlr \<Rightarrow> DramDirectoryCntlr option" where
  "sendMsg t receiver_component requester receiver address data_buf data_length whr s =
     (if (data_buf = None) = (data_length = 0)
      then Some (s\<lparr>dd_sent := dd_sent s @ [\<lparr>pk_receiver = Some receiver,
        pk_msg = (ShmemMsg_new t TAG_DIR receiver_component requester address data_buf data_length)\<lparr>sm_where := whr\<rparr>, pk_time = dd_now s\<rparr>]\<rparr>)
      else None)"

definition broadcastMsg :: "msg_t \<Rightarrow> component_t \<Rightarrow> int \<Rightarrow> u64 \<Rightarrow> DramDirectoryCntlr \<Rightarrow> DramDirectoryCntlr option" where
  "broadcastMsg t receiver_component requester address s =
     Some (s\<lparr>dd_sent := dd_sent s @ [\<lparr>pk_receiver = None, pk_msg = ShmemMsg_new t TAG_DIR receiver_component requester address None 0, pk_time = dd_now s\<rparr>]\<rparr>)"

definition send_all :: "(int \<times> msg_t) list \<Rightarrow> int \<Rightarrow> u64 \<Rightarrow> DramDirectoryCntlr \<Rightarrow> DramDirectoryCntlr option" where
  "send_all rs requester address s =
     fold (\<lambda>(receiver, t) so. so \<bind> sendMsg t L2_CACHE requester receiver address None 0 UNKNOWN) rs (Some s)"

text \<open>Invalidation requests to the sharers; the list is exact for every class of entry, so nothing is broadcast.\<close>

definition invalidate_sharers :: "DirectoryEntry \<Rightarrow> int \<Rightarrow> u64 \<Rightarrow> DramDirectoryCntlr \<Rightarrow> DramDirectoryCntlr option" where
  "invalidate_sharers e requester address s = (let (broadcast, l) = getSharersList e in
     if broadcast then broadcastMsg INV_REQ L2_CACHE requester address s
     else send_all (map (\<lambda>i. (i, INV_REQ)) l) requester address s)"

definition sendDataToNUCA :: "u64 \<Rightarrow> int \<Rightarrow> u8 list option \<Rightarrow> bool \<Rightarrow> DramDirectoryCntlr \<Rightarrow> DramDirectoryCntlr option" where
  "sendDataToNUCA address requester data_buf count s = (case dd_nuca s of
      None \<Rightarrow> Some s
    | Some n \<Rightarrow> do {
        (latency, whr, ev, n) \<leftarrow> NucaCache_write address data_buf (dd_now s) count n;
        let s = s\<lparr>dd_nuca := Some n\<rparr>;
        let (eviction, evict_address, evict_data) = (case ev of
            Some x \<Rightarrow> x | None \<Rightarrow> (dd_uninit_eviction s, dd_uninit_address s, None));
        (if eviction then do {
           dram_node \<leftarrow> getHome (dd_home_lookup s) evict_address;
           sendMsg DRAM_WRITE_REQ DRAM_COMPONENT (dd_core_id s) dram_node evict_address
             (Some (case evict_data of Some d \<Rightarrow> d | None \<Rightarrow> dd_uninit_buf s)) (dd_cache_block_size s) UNKNOWN s }
         else Some s) })"

definition sendDataToDram :: "u64 \<Rightarrow> int \<Rightarrow> u8 list option \<Rightarrow> DramDirectoryCntlr \<Rightarrow> DramDirectoryCntlr option" where
  "sendDataToDram address requester data_buf s = (case dd_nuca s of
      Some n \<Rightarrow> sendDataToNUCA address requester data_buf True s
    | None \<Rightarrow> do {
        dram_node \<leftarrow> getHome (dd_home_lookup s) address;
        sendMsg DRAM_WRITE_REQ DRAM_COMPONENT requester dram_node address data_buf (dd_cache_block_size s) UNKNOWN s })"

section \<open>The entry of an address\<close>

definition lookup_entry :: "u64 \<Rightarrow> bool \<Rightarrow> DramDirectoryCntlr \<Rightarrow> (entry_ref option \<times> DramDirectoryCntlr) option" where
  "lookup_entry address modeled s = do {
     (r, c, now) \<leftarrow> getDirectoryEntry address modeled (dd_cache s) (dd_now s);
     Some (r, s\<lparr>dd_cache := c, dd_now := now\<rparr>) }"

definition write_entry :: "entry_ref \<Rightarrow> DirectoryEntry \<Rightarrow> DramDirectoryCntlr \<Rightarrow> DramDirectoryCntlr" where
  "write_entry r e s = s\<lparr>dd_cache := set_entry r e (dd_cache s)\<rparr>"

text \<open>An entry that must exist.\<close>

definition the_entry :: "u64 \<Rightarrow> DramDirectoryCntlr \<Rightarrow> (entry_ref \<times> DirectoryEntry \<times> DramDirectoryCntlr) option" where
  "the_entry address s = do {
     (ro, s) \<leftarrow> lookup_entry address False s;
     r \<leftarrow> ro;
     e \<leftarrow> deref (dd_cache s) r;
     Some (r, e, s) }"

text \<open>\<^verbatim>\<open>processNullifyReq\<close>\<close>

definition processNullifyReq :: "u64 \<Rightarrow> DramDirectoryCntlr \<Rightarrow> (DramDirectoryCntlr \<times> bool) option" where
  "processNullifyReq address s = do {
     req \<leftarrow> front address (dd_queues s);
     let requester = sm_requester (sr_msg req);
     (r, e, s) \<leftarrow> the_entry address s;
     (case de_dstate e of
        D_OWNED \<Rightarrow> None
      | D_SHARED \<Rightarrow> do { s \<leftarrow> invalidate_sharers e requester address s; Some (s, False) }
      | D_UNCACHED \<Rightarrow> do {
          c \<leftarrow> invalidateDirectoryEntry address (dd_cache s);
          Some (s\<lparr>dd_cache := c\<rparr>, True) }
      | _ \<Rightarrow> do { s \<leftarrow> sendMsg FLUSH_REQ L2_CACHE requester (de_owner e) address None 0 UNKNOWN s; Some (s, False) }) }"

text \<open>
  The candidate with the fewest sharers and no requests, the first of them; its entry is replaced by a new one and
  nullified. The only request in its queue is the one just added, so when it is done there is no next one.
\<close>

definition choose_candidate :: "ShmemReq ReqQueueList \<Rightarrow> (nat \<times> DirectoryEntry) list \<Rightarrow> DirectoryEntry option" where
  "choose_candidate q es = fold (\<lambda>(k, e) best.
     if (case best of None \<Rightarrow> True | Some b \<Rightarrow> getNumSharers b > getNumSharers e) \<and> req_size (de_address e) q = 0 then Some e else best) es None"

definition finish_request :: "u64 \<Rightarrow> DramDirectoryCntlr \<Rightarrow> (ShmemReq option \<times> DramDirectoryCntlr) option" where
  "finish_request address s = do {
     (req, q) \<leftarrow> dequeue address (dd_queues s);
     Some (if req_empty address q then None else front address q, s\<lparr>dd_queues := q\<rparr>) }"

definition nullify_replaced :: "u64 \<Rightarrow> int \<Rightarrow> u64 \<Rightarrow> DramDirectoryCntlr \<Rightarrow> DramDirectoryCntlr option" where
  "nullify_replaced replaced_address requester msg_time s = do {
     nullify_req \<leftarrow> ShmemReq_new (ShmemMsg_new NULLIFY_REQ TAG_DIR TAG_DIR requester replaced_address None 0) msg_time;
     let s = s\<lparr>dd_queues := enqueue replaced_address nullify_req (dd_queues s)\<rparr>;
     (if req_size replaced_address (dd_queues s) = 1 then Some () else None);
     (s, nx) \<leftarrow> processNullifyReq replaced_address s;
     (if nx then do {
        (more, s) \<leftarrow> finish_request replaced_address s;
        (if more = None then Some s else None) }
      else Some s) }"

definition processDirectoryEntryAllocationReq :: "u64 \<Rightarrow> DramDirectoryCntlr \<Rightarrow> (entry_ref \<times> DramDirectoryCntlr) option" where
  "processDirectoryEntryAllocationReq address s = do {
     req \<leftarrow> front address (dd_queues s);
     let requester = sm_requester (sr_msg req);
     let msg_time = dd_now s;
     (es, c) \<leftarrow> getReplacementCandidates address (dd_cache s);
     cand \<leftarrow> choose_candidate (dd_queues s) es;
     let replaced_address = de_address cand;
     (r, c, now) \<leftarrow> replaceDirectoryEntry replaced_address address True c (dd_now s);
     s \<leftarrow> nullify_replaced replaced_address requester msg_time
       (s\<lparr>dd_cache := c, dd_evict := (dd_evict s)(de_dstate cand := dd_evict s (de_dstate cand) + 1), dd_now := now\<rparr>);
     Some (r, s) }"

definition entry_or_allocate :: "u64 \<Rightarrow> DramDirectoryCntlr \<Rightarrow> (entry_ref \<times> DirectoryEntry \<times> DramDirectoryCntlr) option" where
  "entry_or_allocate address s = do {
     (ro, s) \<leftarrow> lookup_entry address False s;
     (r, s) \<leftarrow> (case ro of Some r \<Rightarrow> Some (r, s) | None \<Rightarrow> processDirectoryEntryAllocationReq address s);
     e \<leftarrow> deref (dd_cache s) r;
     Some (r, e, s) }"

section \<open>Data for a request\<close>

text \<open>The bytes in the last-level slice, if there is one and the line is in it.\<close>

definition nuca_lookup :: "u64 \<Rightarrow> DramDirectoryCntlr \<Rightarrow> (u8 list option \<times> DramDirectoryCntlr) option" where
  "nuca_lookup address s = (case dd_nuca s of
      None \<Rightarrow> Some (None, s)
    | Some n \<Rightarrow> do {
        (latency, whr, out, n) \<leftarrow> NucaCache_read address (dd_now s) True n;
        now \<leftarrow> incrElapsedTime latency (dd_now s);
        Some (if whr \<noteq> MISS then Some (case out of Some d \<Rightarrow> d | None \<Rightarrow> dd_uninit_buf s) else None, s\<lparr>dd_nuca := Some n, dd_now := now\<rparr>) })"

text \<open>Ask a sharer (once per request) or the memory for the data.\<close>

definition request_data :: "int \<Rightarrow> u64 \<Rightarrow> DirectoryEntry \<Rightarrow> DramDirectoryCntlr \<Rightarrow> DramDirectoryCntlr option" where
  "request_data receiver address e s = do {
     req \<leftarrow> front address (dd_queues s);
     (if dd_protocol s = MESIF \<and> sr_forwarding_from req = INVALID_CORE_ID \<and> de_dstate e = D_SHARED \<and> de_forwarder e \<noteq> INVALID_CORE_ID
      then sendMsg WB_REQ L2_CACHE receiver (de_forwarder e) address None 0 UNKNOWN
        (s\<lparr>dd_queues := update_front address (sr_forwarding_from_update (\<lambda>_. de_forwarder e)) (dd_queues s)\<rparr>)
      else do {
        dram_node \<leftarrow> getHome (dd_home_lookup s) address;
        sendMsg DRAM_READ_REQ DRAM_COMPONENT receiver dram_node address None 0 UNKNOWN
          (s\<lparr>dd_queues := update_front address (sr_wait_for_data_update (\<lambda>_. True)) (dd_queues s)\<rparr>) }) }"

definition retrieveDataAndSendToL2Cache ::
  "msg_t \<Rightarrow> int \<Rightarrow> u64 \<Rightarrow> u8 list option \<Rightarrow> DramDirectoryCntlr \<Rightarrow> (DramDirectoryCntlr \<times> bool) option" where
  "retrieveDataAndSendToL2Cache reply_msg_type receiver address cached_data_buf s = do {
     (r, e, s) \<leftarrow> the_entry address s;
     (case cached_data_buf of
        Some d \<Rightarrow> do {
          s \<leftarrow> sendMsg reply_msg_type L2_CACHE receiver receiver address (Some d) (dd_cache_block_size s) CACHE_REMOTE
            (write_entry r (e\<lparr>de_forwarder := receiver\<rparr>) s);
          Some (s, True) }
      | None \<Rightarrow> do {
          (hit, s) \<leftarrow> nuca_lookup address s;
          (case hit of
             Some d \<Rightarrow> do {
               s \<leftarrow> sendMsg reply_msg_type L2_CACHE receiver receiver address (Some d) (dd_cache_block_size s) NUCA_CACHE s;
               Some (s, True) }
           | None \<Rightarrow> do { s \<leftarrow> request_data receiver address e s; Some (s, False) }) }) }"

section \<open>Requests\<close>

definition processExReqFromL2Cache :: "u64 \<Rightarrow> u8 list option \<Rightarrow> DramDirectoryCntlr \<Rightarrow> (DramDirectoryCntlr \<times> bool) option" where
  "processExReqFromL2Cache address cached_data_buf s = do {
     req \<leftarrow> front address (dd_queues s);
     let requester = sm_requester (sr_msg req);
     (r, e, s) \<leftarrow> entry_or_allocate address s;
     (case de_dstate e of
        D_OWNED \<Rightarrow> None
      | D_SHARED \<Rightarrow> if cached_data_buf = None then do { s \<leftarrow> invalidate_sharers e requester address s; Some (s, False) } else None
      | D_UNCACHED \<Rightarrow> do {
          (ok, e) \<leftarrow> addSharer requester (getMaxHwSharers (dd_cache s)) e;
          (if ok then Some () else None);
          e \<leftarrow> setOwner_entry requester e;
          let s = write_entry r (e\<lparr>de_dstate := D_MODIFIED\<rparr>) s;
          retrieveDataAndSendToL2Cache EX_REP requester address cached_data_buf s }
      | _ \<Rightarrow> if cached_data_buf = None
             then do { s \<leftarrow> sendMsg FLUSH_REQ L2_CACHE requester (de_owner e) address None 0 UNKNOWN s; Some (s, False) }
             else None) }"

definition processShReqFromL2Cache :: "u64 \<Rightarrow> u8 list option \<Rightarrow> DramDirectoryCntlr \<Rightarrow> (DramDirectoryCntlr \<times> bool) option" where
  "processShReqFromL2Cache address cached_data_buf s = do {
     req \<leftarrow> front address (dd_queues s);
     let requester = sm_requester (sr_msg req);
     (r, e, s) \<leftarrow> entry_or_allocate address s;
     (case de_dstate e of
        D_OWNED \<Rightarrow> None
      | D_EXCLUSIVE \<Rightarrow> if requester \<noteq> de_owner e \<and> cached_data_buf = None
          then do { s \<leftarrow> sendMsg WB_REQ L2_CACHE requester (de_owner e) address None 0 UNKNOWN s; Some (s, False) } else None
      | D_MODIFIED \<Rightarrow> if cached_data_buf = None
          then do { s \<leftarrow> sendMsg WB_REQ L2_CACHE requester (de_owner e) address None 0 UNKNOWN s; Some (s, False) } else None
      | D_SHARED \<Rightarrow> do {
          has \<leftarrow> hasSharer requester e;
          (if has then
             retrieveDataAndSendToL2Cache SH_REP requester address cached_data_buf
               (s\<lparr>dd_forward := dd_forward s + 1,
                  dd_forward_failed := dd_forward_failed s + (if cached_data_buf = None then 1 else 0)\<rparr>)
           else do {
             (ok, e) \<leftarrow> addSharer requester (getMaxHwSharers (dd_cache s)) e;
             (if ok then retrieveDataAndSendToL2Cache SH_REP requester address cached_data_buf (write_entry r e s)
              else do {
                (sharer_id, e) \<leftarrow> getOneSharer e;
                s \<leftarrow> sendMsg INV_REQ L2_CACHE requester sharer_id address None 0 UNKNOWN (write_entry r e s);
                Some (s, False) }) }) }
      | D_UNCACHED \<Rightarrow> do {
          (ok, e) \<leftarrow> addSharer requester (getMaxHwSharers (dd_cache s)) e;
          (if ok then Some () else None);
          e \<leftarrow> setOwner_entry requester e;
          (if dd_protocol s = MSI
           then retrieveDataAndSendToL2Cache SH_REP requester address cached_data_buf (write_entry r (e\<lparr>de_dstate := D_SHARED\<rparr>) s)
           else retrieveDataAndSendToL2Cache EX_REP requester address cached_data_buf (write_entry r (e\<lparr>de_dstate := D_EXCLUSIVE\<rparr>) s)) }) }"

definition processUpgradeReqFromL2Cache :: "u64 \<Rightarrow> u8 list option \<Rightarrow> DramDirectoryCntlr \<Rightarrow> (DramDirectoryCntlr \<times> bool) option" where
  "processUpgradeReqFromL2Cache address cached_data_buf s = do {
     req \<leftarrow> front address (dd_queues s);
     let requester = sm_requester (sr_msg req);
     (r, e, s) \<leftarrow> entry_or_allocate address s;
     let (broadcast, l) = getSharersList e;
     (case de_dstate e of
        D_OWNED \<Rightarrow> None
      | D_SHARED \<Rightarrow>
          if length l = 1 \<and> hd l = requester then do {
            e \<leftarrow> setOwner_entry requester e;
            s \<leftarrow> sendMsg UPGRADE_REP L2_CACHE requester requester address None 0 UNKNOWN (write_entry r (e\<lparr>de_dstate := D_MODIFIED\<rparr>) s);
            Some (s, True) }
          else do {
            has \<leftarrow> hasSharer requester e;
            s \<leftarrow> (if broadcast then broadcastMsg INV_REQ L2_CACHE requester address s
                  else send_all (filter (\<lambda>(i, t). i \<noteq> requester) (zip l ((if has then INV_REQ else FLUSH_REQ) # replicate (length l) INV_REQ))) requester address s);
            Some (s, False) }
      | D_UNCACHED \<Rightarrow> do {
          (if l = [] then Some () else None);
          (ok, e) \<leftarrow> addSharer requester (getMaxHwSharers (dd_cache s)) e;
          (if ok then Some () else None);
          e \<leftarrow> setOwner_entry requester e;
          let s = write_entry r (e\<lparr>de_dstate := D_MODIFIED\<rparr>) s;
          retrieveDataAndSendToL2Cache EX_REP requester address (if cached_data_buf = None then sm_data (sr_msg req) else cached_data_buf) s }
      | _ \<Rightarrow> (case l of
           [] \<Rightarrow> None
         | i # _ \<Rightarrow>
             if i = requester then
               (if de_owner e = requester then do {
                  s \<leftarrow> sendMsg UPGRADE_REP L2_CACHE requester requester address None 0 UNKNOWN s;
                  Some (write_entry r (e\<lparr>de_dstate := D_MODIFIED\<rparr>) s, True) }
                else None)
             else do {
               s \<leftarrow> sendMsg FLUSH_REQ L2_CACHE requester (de_owner e) address None 0 UNKNOWN s;
               Some (s, False) })) }"

text \<open>\<^verbatim>\<open>processNextReqFromL2Cache\<close>: the first request is done; the next one of the address, if any, is started.\<close>

definition process_request :: "u64 \<Rightarrow> msg_t \<Rightarrow> DramDirectoryCntlr \<Rightarrow> (DramDirectoryCntlr \<times> bool) option" where
  "process_request address t s =
     (if t = EX_REQ then processExReqFromL2Cache address None s
      else if t = SH_REQ then processShReqFromL2Cache address None s
      else if t = UPGRADE_REQ then processUpgradeReqFromL2Cache address None s
      else None)"


section \<open>What an operation does to the queues\<close>

text \<open>
  An operation is quiet when it leaves the queues alone and answers no request. \<open>answers s a\<close> are the cores that
  got an answer for an address, in the order of the answers, and \<open>waiting s a\<close> those whose requests are queued.
\<close>

definition is_reply :: "packet \<Rightarrow> bool" where
  "is_reply p \<longleftrightarrow> sm_type (pk_msg p) \<in> {EX_REP, SH_REP, UPGRADE_REP}"

definition answers :: "DramDirectoryCntlr \<Rightarrow> u64 \<Rightarrow> int list" where
  "answers s a = map (sm_requester \<circ> pk_msg) (filter (\<lambda>p. is_reply p \<and> sm_address (pk_msg p) = a) (dd_sent s))"

definition req_key :: "ShmemReq \<Rightarrow> msg_t \<times> int" where
  "req_key r = (sm_type (sr_msg r), sm_requester (sr_msg r))"

definition requesters :: "ShmemReq list \<Rightarrow> int list" where
  "requesters rs = map snd (filter (\<lambda>k. fst k \<in> {EX_REQ, SH_REQ, UPGRADE_REQ}) (map req_key rs))"

definition waiting :: "DramDirectoryCntlr \<Rightarrow> u64 \<Rightarrow> int list" where
  "waiting s a = requesters (queue_of (dd_queues s) a)"

definition quiet :: "DramDirectoryCntlr \<Rightarrow> DramDirectoryCntlr \<Rightarrow> bool" where
  "quiet s s' \<longleftrightarrow> dd_queues s' = dd_queues s \<and> (\<exists>ps. dd_sent s' = dd_sent s @ ps \<and> filter is_reply ps = [])"

lemma quiet_refl [simp]: "quiet s s"
  by (simp add: quiet_def)

lemma quiet_trans: "quiet s s' \<Longrightarrow> quiet s' s'' \<Longrightarrow> quiet s s''"
  unfolding quiet_def by (metis append.assoc append_Nil filter_append)

lemma quiet_answers: "quiet s s' \<Longrightarrow> answers s' = answers s"
  by (auto simp: quiet_def answers_def fun_eq_iff filter_empty_conv)

lemma quiet_queues: "quiet s s' \<Longrightarrow> dd_queues s' = dd_queues s"
  by (simp add: quiet_def)

named_theorems quiet_intros

lemma quiet_sendMsg [quiet_intros]: "sendMsg t rc rq r a d l w s = Some s' \<Longrightarrow> t \<notin> {EX_REP, SH_REP, UPGRADE_REP} \<Longrightarrow> quiet s s'"
  by (auto simp: sendMsg_def quiet_def is_reply_def ShmemMsg_new_def split: if_splits)

lemma quiet_broadcastMsg [quiet_intros]: "broadcastMsg t rc rq a s = Some s' \<Longrightarrow> t \<notin> {EX_REP, SH_REP, UPGRADE_REP} \<Longrightarrow> quiet s s'"
  by (auto simp: broadcastMsg_def quiet_def is_reply_def ShmemMsg_new_def split: if_splits)

lemma send_all_Nil [simp]: "send_all [] rq a s = Some s"
  by (simp add: send_all_def)

lemma send_all_Cons: "send_all ((i, t) # rs) rq a s = (sendMsg t L2_CACHE rq i a None 0 UNKNOWN s \<bind> send_all rs rq a)"
proof -
  have "fold (\<lambda>(receiver, t) so. so \<bind> sendMsg t L2_CACHE rq receiver a None 0 UNKNOWN) rs None = None"
    by (induction rs) auto
  then show ?thesis by (cases "sendMsg t L2_CACHE rq i a None 0 UNKNOWN s") (simp_all add: send_all_def)
qed

lemma quiet_send_all [quiet_intros]:
  "send_all rs rq a s = Some s' \<Longrightarrow> snd ` set rs \<subseteq> {INV_REQ, FLUSH_REQ} \<Longrightarrow> quiet s s'"
proof (induction rs arbitrary: s)
  case (Cons r rs)
  obtain i t where r: "r = (i, t)" by (cases r)
  with Cons obtain s1 where "sendMsg t L2_CACHE rq i a None 0 UNKNOWN s = Some s1" "send_all rs rq a s1 = Some s'"
    by (auto simp: send_all_Cons split: bind_splits)
  moreover have "t \<notin> {EX_REP, SH_REP, UPGRADE_REP}" using Cons.prems r by auto
  ultimately show ?case using Cons quiet_sendMsg quiet_trans by (metis image_subset_iff list.set_intros(2))
qed simp

lemma quiet_invalidate_sharers [quiet_intros]: "invalidate_sharers e rq a s = Some s' \<Longrightarrow> quiet s s'"
  by (auto simp: invalidate_sharers_def getSharersList_def intro!: quiet_send_all)

lemma quiet_nuca: "quiet (s\<lparr>dd_nuca := n\<rparr>) s' = quiet s s'" "quiet s (s'\<lparr>dd_nuca := n\<rparr>) = quiet s s'" "quiet s (s'\<lparr>dd_now := t\<rparr>) = quiet s s'"
  "quiet s (s'\<lparr>dd_cache := c\<rparr>) = quiet s s'" "quiet (s\<lparr>dd_cache := c\<rparr>) s' = quiet s s'" "quiet s (write_entry r e s') = quiet s s'"
  "quiet (write_entry r e s) s' = quiet s s'"
  by (simp_all add: quiet_def write_entry_def)

lemma quiet_sendDataToNUCA [quiet_intros]: "sendDataToNUCA a rq d cnt s = Some s' \<Longrightarrow> quiet s s'"
  by (auto simp: sendDataToNUCA_def Let_def quiet_nuca split: option.splits bind_splits prod.splits if_splits dest!: quiet_sendMsg)

lemma quiet_sendDataToDram [quiet_intros]: "sendDataToDram a rq d s = Some s' \<Longrightarrow> quiet s s'"
  by (auto simp: sendDataToDram_def split: option.splits bind_splits dest!: quiet_sendMsg quiet_sendDataToNUCA)

lemma quiet_nuca_lookup [quiet_intros]: "nuca_lookup a s = Some (hit, s') \<Longrightarrow> quiet s s'"
  by (auto simp: nuca_lookup_def quiet_nuca bind_eq_Some_conv split_beta split: option.splits)

lemma quiet_lookup_entry [quiet_intros]: "lookup_entry a m s = Some (r, s') \<Longrightarrow> quiet s s'"
  by (auto simp: lookup_entry_def quiet_nuca split: bind_splits)

lemma quiet_the_entry [quiet_intros]: "the_entry a s = Some (r, e, s') \<Longrightarrow> quiet s s'"
  by (auto simp: the_entry_def split: bind_splits intro: quiet_lookup_entry)

lemma quiet_processNullifyReq [quiet_intros]: "processNullifyReq a s = Some (s', nx) \<Longrightarrow> quiet s s'"
  by (auto simp: processNullifyReq_def Let_def quiet_nuca split: bind_splits dstate_t.splits
      dest!: quiet_the_entry quiet_invalidate_sharers quiet_sendMsg intro: quiet_trans)

end
