(* ===== verification/Sniper_Protocol.thy ===== *)
theory Sniper_Protocol
  imports Sniper_Coherence
begin

text \<open>
  The messages that reach the directory controller (\<^verbatim>\<open>dram_directory_cntlr.cc\<close>), and its queues: processing a request
  either answers it or leaves it in front of its queue, so that \<^verbatim>\<open>processNextReqFromL2Cache\<close>, which is called after
  every answer, ends.
\<close>

section \<open>Requests are answered or wait\<close>

text \<open>
  \<open>served nx a s s'\<close>: the requests of all addresses are the same, requests to nullify an entry apart, and exactly when
  \<open>nx\<close> holds the first request of \<open>a\<close> was answered.
\<close>

definition served :: "bool \<Rightarrow> u64 \<Rightarrow> DramDirectoryCntlr \<Rightarrow> DramDirectoryCntlr \<Rightarrow> bool" where
  "served nx a s s' \<longleftrightarrow> map req_key (queue_of (dd_queues s') a) = map req_key (queue_of (dd_queues s) a) \<and> waiting s' = waiting s
     \<and> (queues_inv (dd_queues s) \<longrightarrow> queues_inv (dd_queues s'))
     \<and> answers s' = (\<lambda>b. answers s b @ (if nx \<and> b = a then [snd (req_key (hd (queue_of (dd_queues s) a)))] else []))"

lemma quiet_served: "quiet s s' \<Longrightarrow> served False a s s'"
  using quiet_answers [of s s'] quiet_queues [of s s'] by (simp add: served_def waiting_def [abs_def])

lemma served_trans: "served False a s s' \<Longrightarrow> served nx a s' s'' \<Longrightarrow> served nx a s s''"
proof -
  assume s: "served False a s s'" "served nx a s' s''"
  have "snd (req_key (hd (queue_of (dd_queues s') a))) = snd (req_key (hd (queue_of (dd_queues s) a)))" if "queue_of (dd_queues s) a \<noteq> []"
    using s(1) that by (metis (no_types, lifting) hd_map list.map_disc_iff served_def)
  moreover have "queue_of (dd_queues s') a = []" if "queue_of (dd_queues s) a = []" using s(1) that by (simp add: served_def)
  ultimately show ?thesis using s by (cases "queue_of (dd_queues s) a = []") (auto simp: served_def fun_eq_iff)
qed

lemma quiet_served_trans: "quiet s s' \<Longrightarrow> served nx a s' s'' \<Longrightarrow> served nx a s s''"
  by (rule served_trans [OF quiet_served])

text \<open>Changes of other fields.\<close>

lemma served_cong:
  "dd_queues t = dd_queues s \<Longrightarrow> dd_sent t = dd_sent s \<Longrightarrow> served nx a t s' = served nx a s s'"
  "dd_queues t' = dd_queues s' \<Longrightarrow> dd_sent t' = dd_sent s' \<Longrightarrow> served nx a s t' = served nx a s s'"
  by (simp_all add: served_def waiting_def [abs_def] answers_def [abs_def] cong: if_cong)

lemma served_write_entry [simp]: "served nx a (write_entry r e s) s' = served nx a s s'" "served nx a s (write_entry r e s') = served nx a s s'"
  by (rule served_cong; simp add: write_entry_def)+

lemma served_update_front:
  assumes "\<And>r. req_key (f r) = req_key r"
  shows "served False b s (s\<lparr>dd_queues := update_front a f (dd_queues s)\<rparr>)"
  unfolding served_def waiting_def answers_def requesters_def
  using rq.upd_inv [of "dd_queues s" a f] assms by (auto simp: rq.upd_contents fun_eq_iff split: list.splits)

lemma front_hd: "front a q = Some r \<Longrightarrow> queue_of q a \<noteq> [] \<and> hd (queue_of q a) = r"
  by (auto simp: rq.first_Some_iff)

lemma served_reply:
  assumes "sendMsg t L2_CACHE p p a d l w s = Some s'" and "t \<in> {EX_REP, SH_REP, UPGRADE_REP}"
    and "queue_of (dd_queues s) a \<noteq> []" "snd (req_key (hd (queue_of (dd_queues s) a))) = p"
  shows "served True a s s'"
  using assms by (auto simp: sendMsg_def served_def waiting_def answers_def is_reply_def ShmemMsg_new_def fun_eq_iff split: if_splits)

lemma served_nullify_replaced:
  assumes "nullify_replaced b rq t s = Some s'" and "queue_of (dd_queues s) a \<noteq> []"
  shows "served False a s s'"
proof -
  from assms obtain nr s1 s2 nx
    where nr: "ShmemReq_new (ShmemMsg_new NULLIFY_REQ TAG_DIR TAG_DIR rq b None 0) t = Some nr"
    and s1: "s1 = s\<lparr>dd_queues := enqueue b nr (dd_queues s)\<rparr>" "req_size b (dd_queues s1) = 1"
    and pn: "processNullifyReq b s1 = Some (s2, nx)"
    and fin: "(if nx then do { (more, s) \<leftarrow> finish_request b s2; (if more = None then Some s else None) } else Some s2) = Some s'"
    unfolding nullify_replaced_def Let_def by (auto simp: bind_eq_Some_conv split: if_splits)
  have qe: "queue_of (dd_queues s) b = []" using s1 by (simp add: rq.size_contents rq.enq_contents)
  then have ab: "a \<noteq> b" using assms(2) by auto
  have q2: "dd_queues s2 = enqueue b nr (dd_queues s)" "answers s2 = answers s"
    using quiet_queues [OF quiet_processNullifyReq [OF pn]] quiet_answers [OF quiet_processNullifyReq [OF pn]] s1(1) by (simp_all add: answers_def [abs_def])
  have key: "fst (req_key nr) = NULLIFY_REQ" using nr by (auto simp: ShmemReq_new_def ShmemMsg_new_def req_key_def split: if_splits)
  have e: "served False a s s2" unfolding served_def waiting_def requesters_def q2
    using rq.enq_inv [of "dd_queues s" b nr] ab qe key by (auto simp: rq.enq_contents fun_eq_iff)
  show ?thesis
  proof (cases nx)
    case False
    then show ?thesis using fin e by simp
  next
    case True
    then obtain q' x where dq: "dequeue b (dd_queues s2) = Some (x, q')" "s' = s2\<lparr>dd_queues := q'\<rparr>"
      using fin by (auto simp: finish_request_def bind_eq_Some_conv split: if_splits)
    have d: "queue_of (dd_queues s2) b = x # queue_of q' b" "queue_of q' = (queue_of (dd_queues s2))(b := queue_of q' b)"
      using rq.deq_Some_iff [OF dq(1)] by blast+
    have "queue_of q' b = []" using d(1) qe by (simp add: q2 rq.enq_contents)
    then have "queue_of q' = queue_of (dd_queues s)"
      using qe by (subst d(2)) (simp add: q2 rq.enq_contents fun_upd_idem_iff)
    moreover have "queues_inv q'" if "queues_inv (dd_queues s)"
      using rq.deq_inv [OF _ dq(1)] that unfolding q2 by (simp add: rq.enq_inv)
    ultimately show ?thesis using dq(2) q2(2) by (simp add: served_def waiting_def [abs_def] answers_def [abs_def])
  qed
qed

lemma served_allocation:
  assumes "processDirectoryEntryAllocationReq a s = Some (r, s')"
  shows "served False a s s'"
proof -
  from assms obtain req c now and cand :: DirectoryEntry where fr: "front a (dd_queues s) = Some req"
    and nr: "nullify_replaced (de_address cand) (sm_requester (sr_msg req)) (dd_now s)
      (s\<lparr>dd_cache := c, dd_evict := (dd_evict s)(de_dstate cand := dd_evict s (de_dstate cand) + 1), dd_now := now\<rparr>) = Some s'"
    (is "nullify_replaced _ _ _ ?u = _")
    unfolding processDirectoryEntryAllocationReq_def Let_def by (auto simp: bind_eq_Some_conv)
  have "served False a ?u s'" by (rule served_nullify_replaced [OF nr]) (use front_hd [OF fr] in simp)
  then show ?thesis by (simp add: served_cong(1) [of ?u s])
qed

lemma served_entry_or_allocate: "entry_or_allocate a s = Some (r, e, s') \<Longrightarrow> served False a s s'"
  by (auto simp: entry_or_allocate_def simp del: deref.simps split: bind_splits option.splits dest!: quiet_lookup_entry served_allocation)
    (blast intro: quiet_served quiet_served_trans)+

lemma served_request_data: "request_data p a e s = Some s' \<Longrightarrow> served False a s s'"
proof -
  assume rd: "request_data p a e s = Some s'"
  have *: "served False a s s'" if f: "\<And>r. req_key (f r) = req_key r" and tt: "tt \<notin> {EX_REP, SH_REP, UPGRADE_REP}"
    and snd: "sendMsg tt rc p pp a None 0 UNKNOWN (s\<lparr>dd_queues := update_front a f (dd_queues s)\<rparr>) = Some s'" for f tt rc pp
    by (rule served_trans [OF served_update_front [OF f] quiet_served [OF quiet_sendMsg [OF snd tt]]])
  from rd show ?thesis
    by (auto simp: request_data_def bind_eq_Some_conv split: if_splits elim!: * [rotated 2]) (auto simp: req_key_def)
qed

lemma served_retrieve:
  assumes "retrieveDataAndSendToL2Cache t p a d s = Some (s', nx)" and "t \<in> {EX_REP, SH_REP}"
    and "queue_of (dd_queues s) a \<noteq> []" "snd (req_key (hd (queue_of (dd_queues s) a))) = p"
  shows "served nx a s s'"
proof -
  from assms(1) obtain r e s1 where e: "the_entry a s = Some (r, e, s1)"
    by (auto simp: retrieveDataAndSendToL2Cache_def bind_eq_Some_conv)
  have q1: "quiet s s1" by (rule quiet_the_entry [OF e])
  have h1: "queue_of (dd_queues s1) a \<noteq> []" "snd (req_key (hd (queue_of (dd_queues s1) a))) = p"
    using assms(3,4) quiet_queues [OF q1] by simp_all
  have t: "t \<in> {EX_REP, SH_REP, UPGRADE_REP}" using assms(2) by blast
  have "served nx a s1 s'"
  proof (cases d)
    case (Some x)
    then have nx: nx and "sendMsg t L2_CACHE p p a (Some x) (dd_cache_block_size s1) CACHE_REMOTE (write_entry r (e\<lparr>de_forwarder := p\<rparr>) s1) = Some s'"
      using assms(1) by (auto simp: retrieveDataAndSendToL2Cache_def e write_entry_def bind_eq_Some_conv)
    from served_reply [OF this(2) t] have "served True a (write_entry r (e\<lparr>de_forwarder := p\<rparr>) s1) s'"
      using h1 by (simp add: write_entry_def)
    then show ?thesis using nx by simp
  next
    case None
    obtain hit s2 where h: "nuca_lookup a s1 = Some (hit, s2)"
      using assms(1) None by (auto simp: retrieveDataAndSendToL2Cache_def e bind_eq_Some_conv)
    have q2: "quiet s1 s2" by (rule quiet_nuca_lookup [OF h])
    have h2: "queue_of (dd_queues s2) a \<noteq> []" "snd (req_key (hd (queue_of (dd_queues s2) a))) = p" using h1 quiet_queues [OF q2] by simp_all
    have "served nx a s2 s'"
    proof (cases hit)
      case (Some x)
      have nx: nx and "sendMsg t L2_CACHE p p a (Some x) (dd_cache_block_size s2) NUCA_CACHE s2 = Some s'"
        using assms(1) None Some h by (auto simp: retrieveDataAndSendToL2Cache_def e bind_eq_Some_conv)
      from served_reply [OF this(2) t] show ?thesis using h2 nx by simp
    next
      case hn: None
      then have "\<not> nx" "request_data p a e s2 = Some s'"
        using assms(1) None h by (auto simp: retrieveDataAndSendToL2Cache_def e bind_eq_Some_conv)
      then show ?thesis using served_request_data by simp
    qed
    then show ?thesis by (rule quiet_served_trans [OF q2])
  qed
  then show ?thesis by (rule quiet_served_trans [OF q1])
qed

text \<open>A processed request is answered, or waits for other messages.\<close>

lemma served_front:
  assumes "front a (dd_queues s) = Some req" and "served False a s s'"
  shows "queue_of (dd_queues s') a \<noteq> [] \<and> snd (req_key (hd (queue_of (dd_queues s') a))) = sm_requester (sr_msg req)"
proof -
  obtain l where "queue_of (dd_queues s) a = req # l" using assms(1) by (auto simp: rq.first_Some_iff)
  then have "map req_key (queue_of (dd_queues s') a) = req_key req # map req_key l" using assms(2) by (simp add: served_def)
  then show ?thesis by (auto simp: map_eq_Cons_conv req_key_def)
qed

lemma served_retrieve_front:
  assumes "retrieveDataAndSendToL2Cache t (sm_requester (sr_msg req)) a d s1 = Some (s', nx)" and "t \<in> {EX_REP, SH_REP}"
    and "front a (dd_queues s) = Some req" and "served False a s s1"
  shows "served nx a s s'"
  using served_retrieve [OF assms(1,2)] served_front [OF assms(3,4)] served_trans [OF assms(4)] by blast

lemma served_upgrade_front:
  assumes "sendMsg UPGRADE_REP L2_CACHE (sm_requester (sr_msg req)) (sm_requester (sr_msg req)) a d l w s1 = Some s'"
    and "front a (dd_queues s) = Some req" and "served False a s s1"
  shows "served True a s s'"
  using served_reply [OF assms(1)] served_front [OF assms(2,3)] served_trans [OF assms(3)] by blast

lemma served_message_front:
  assumes "sendMsg t rc p i a d l w s1 = Some s'" and "t \<notin> {EX_REP, SH_REP, UPGRADE_REP}" and "served False a s s1"
  shows "served False a s s'"
  by (rule served_trans [OF assms(3) quiet_served [OF quiet_sendMsg [OF assms(1,2)]]])

lemma served_counters:
  "served nx a s (s1\<lparr>dd_forward := x, dd_forward_failed := y\<rparr>) = served nx a s s1" "served nx a s (s1\<lparr>dd_forward := x\<rparr>) = served nx a s s1"
  by (rule served_cong; simp)+

lemma served_invalidate_front: "invalidate_sharers e p a s1 = Some s' \<Longrightarrow> served False a s s1 \<Longrightarrow> served False a s s'"
  by (rule served_trans [OF _ quiet_served [OF quiet_invalidate_sharers]])

lemma served_send_all_front:
  "send_all (filter P (zip l (t # replicate n INV_REQ))) p a s1 = Some s' \<Longrightarrow> t \<in> {INV_REQ, FLUSH_REQ} \<Longrightarrow> served False a s s1 \<Longrightarrow> served False a s s'"
  by (rule served_trans [OF _ quiet_served [OF quiet_send_all]]) (auto dest!: set_zip_rightD)

lemma processReq_front:
  assumes "processExReqFromL2Cache a d s = Some x \<or> processShReqFromL2Cache a d s = Some x \<or> processUpgradeReqFromL2Cache a d s = Some x"
  obtains req r s1 and e :: DirectoryEntry
  where "front a (dd_queues s) = Some req" "entry_or_allocate a s = Some (r, e, s1)"
  using assms by (auto simp: processExReqFromL2Cache_def processShReqFromL2Cache_def processUpgradeReqFromL2Cache_def Let_def bind_eq_Some_conv)

lemma served_processExReq:
  assumes "processExReqFromL2Cache a d s = Some (s', nx)"
  shows "served nx a s s'"
proof -
  obtain req r s1 and e :: DirectoryEntry where fr: "front a (dd_queues s) = Some req" and ea: "entry_or_allocate a s = Some (r, e, s1)"
    by (rule processReq_front [of a d s]) (use assms in auto)
  note s1 = served_entry_or_allocate [OF ea]
  show ?thesis using assms
    by (auto simp: processExReqFromL2Cache_def fr ea bind_eq_Some_conv s1 Let_def split: dstate_t.splits if_splits
        elim!: served_retrieve_front [OF _ _ fr] served_message_front served_invalidate_front)
qed

lemma served_processShReq:
  assumes "processShReqFromL2Cache a d s = Some (s', nx)"
  shows "served nx a s s'"
proof -
  obtain req r s1 and e :: DirectoryEntry where fr: "front a (dd_queues s) = Some req" and ea: "entry_or_allocate a s = Some (r, e, s1)"
    by (rule processReq_front [of a d s]) (use assms in auto)
  note s1 = served_entry_or_allocate [OF ea]
  show ?thesis using assms
    by (auto simp: processShReqFromL2Cache_def fr ea bind_eq_Some_conv s1 Let_def served_counters split: dstate_t.splits if_splits
        elim!: served_retrieve_front [OF _ _ fr] served_message_front)
qed

lemma served_processUpgradeReq:
  assumes "processUpgradeReqFromL2Cache a d s = Some (s', nx)"
  shows "served nx a s s'"
proof -
  obtain req r s1 and e :: DirectoryEntry where fr: "front a (dd_queues s) = Some req" and ea: "entry_or_allocate a s = Some (r, e, s1)"
    by (rule processReq_front [of a d s]) (use assms in auto)
  note s1 = served_entry_or_allocate [OF ea]
  show ?thesis using assms
    by (auto simp: processUpgradeReqFromL2Cache_def fr ea bind_eq_Some_conv s1 Let_def getSharersList_def split: dstate_t.splits if_splits list.splits
        elim!: served_retrieve_front [OF _ _ fr] served_upgrade_front [OF _ fr] served_message_front served_send_all_front)
qed

lemma served_process_request: "process_request a t s = Some (s', nx) \<Longrightarrow> served nx a s s'"
  by (auto simp: process_request_def served_processExReq served_processShReq served_processUpgradeReq split: if_splits)

section \<open>The next request\<close>

text \<open>
  \<^verbatim>\<open>processNextReqFromL2Cache\<close>. It calls itself through the function that processes the next request; every call takes
  one request out of the queue of the address, and processing a request adds none there.
\<close>

lemma finish_request_contents:
  "finish_request a s = Some (nxt, s') \<Longrightarrow>
     queue_of (dd_queues s) a = hd (queue_of (dd_queues s) a) # queue_of (dd_queues s') a
     \<and> queue_of (dd_queues s') = (queue_of (dd_queues s))(a := tl (queue_of (dd_queues s) a))"
  using rq.deq_Some_iff [of a "dd_queues s"] by (auto simp: finish_request_def bind_eq_Some_conv)

lemma finish_request_length: "finish_request a s = Some (nxt, s') \<Longrightarrow> length (queue_of (dd_queues s') a) < length (queue_of (dd_queues s) a)"
  by (drule finish_request_contents) (metis length_Cons lessI)

lemma served_length: "served nx a s s' \<Longrightarrow> length (queue_of (dd_queues s') a) = length (queue_of (dd_queues s) a)"
  unfolding served_def by (metis length_map)

function processNextReqFromL2Cache :: "u64 \<Rightarrow> DramDirectoryCntlr \<Rightarrow> DramDirectoryCntlr option" where
  "processNextReqFromL2Cache address s = (case finish_request address s of
      None \<Rightarrow> None
    | Some (None, s) \<Rightarrow> Some s
    | Some (Some req, s) \<Rightarrow> (case process_request address (sm_type (sr_msg req)) (s\<lparr>dd_now := sr_time req\<rparr>) of
          None \<Rightarrow> None
        | Some (s, nx) \<Rightarrow> if nx then processNextReqFromL2Cache address s else Some s))"
  by pat_completeness auto
termination
proof (relation "measure (\<lambda>(a, s). length (queue_of (dd_queues s) a))", goal_cases)
  case 1
  show ?case by simp
next
  case prems: 2
  then show ?case
    by (auto dest!: served_length [OF served_process_request] finish_request_length)
qed

declare processNextReqFromL2Cache.simps [simp del]

definition process_next_if :: "u64 \<Rightarrow> DramDirectoryCntlr \<times> bool \<Rightarrow> DramDirectoryCntlr option" where
  "process_next_if address p = (if snd p then processNextReqFromL2Cache address (fst p) else Some (fst p))"

section \<open>Messages\<close>

definition dram_reply_type :: "msg_t \<Rightarrow> dstate_t \<Rightarrow> msg_t option" where
  "dram_reply_type t st =
     (if t = SH_REQ then (if st = D_EXCLUSIVE then Some EX_REP else if st = D_SHARED then Some SH_REP else None)
      else if t = EX_REQ then (if st = D_MODIFIED then Some EX_REP else None)
      else if t = UPGRADE_REQ then Some EX_REP
      else None)"

definition dram_hit_where :: "int \<Rightarrow> ShmemMsg \<Rightarrow> where_t" where
  "dram_hit_where sender m =
     (if sm_where m = DRAM then if sender = sm_requester m then DRAM_LOCAL else DRAM_REMOTE else sm_where m)"

definition processDRAMReply :: "int \<Rightarrow> ShmemMsg \<Rightarrow> DramDirectoryCntlr \<Rightarrow> DramDirectoryCntlr option" where
  "processDRAMReply sender m s = do {
     let address = sm_address m;
     req \<leftarrow> front address (dd_queues s);
     let requester = sm_requester (sr_msg req);
     (r, e, s) \<leftarrow> the_entry address s;
     reply_msg_type \<leftarrow> dram_reply_type (sm_type (sr_msg req)) (de_dstate e);
     s \<leftarrow> sendMsg reply_msg_type L2_CACHE requester requester address (sm_data m) (dd_cache_block_size s) (dram_hit_where sender m) s;
     s \<leftarrow> sendDataToNUCA address requester (sm_data m) False s;
     processNextReqFromL2Cache address s }"

text \<open>The time of the first request and of the thread move to the later of the two.\<close>

definition sync_time :: "u64 \<Rightarrow> DramDirectoryCntlr \<Rightarrow> (ShmemReq \<times> DramDirectoryCntlr) option" where
  "sync_time address s = do {
     let s = s\<lparr>dd_queues := update_front address (ShmemReq_updateTime (dd_now s)) (dd_queues s)\<rparr>;
     req \<leftarrow> front address (dd_queues s);
     Some (req, s\<lparr>dd_now := max (dd_now s) (sr_time req)\<rparr>) }"

definition inv_entry :: "int \<Rightarrow> DirectoryEntry \<Rightarrow> DirectoryEntry option" where
  "inv_entry sender e = do {
     (if de_dstate e = D_SHARED \<or> de_dstate e = D_EXCLUSIVE then Some () else None);
     e \<leftarrow> removeSharer sender e;
     let e = (if de_forwarder e = sender then e\<lparr>de_forwarder := INVALID_CORE_ID\<rparr> else e);
     Some (if getNumSharers e = 0 then e\<lparr>de_dstate := D_UNCACHED\<rparr> else e) }"

definition inv_resume :: "int \<Rightarrow> u64 \<Rightarrow> entry_ref \<Rightarrow> DirectoryEntry \<Rightarrow> ShmemReq \<Rightarrow> DramDirectoryCntlr \<Rightarrow> (DramDirectoryCntlr \<times> bool) option" where
  "inv_resume sender address r e req s = (let t = sm_type (sr_msg req) in
     if t = EX_REQ then
       (if de_dstate e = D_UNCACHED then processExReqFromL2Cache address None s else Some (s, False))
     else if t = UPGRADE_REQ then
       (if getNumSharers e = 1 then do {
          has \<leftarrow> hasSharer (sm_requester (sr_msg req)) e;
          (if has then processUpgradeReqFromL2Cache address None s else Some (s, False)) }
        else if getNumSharers e = 0 then processUpgradeReqFromL2Cache address None (write_entry r (e\<lparr>de_dstate := D_UNCACHED\<rparr>) s)
        else Some (s, False))
     else if t = SH_REQ then
       (if sr_wait_for_data req then Some (s, False)
        else if isForwarding req \<and> sender \<noteq> sr_forwarding_from req then Some (s, False)
        else processShReqFromL2Cache address None s)
     else
       (if de_dstate e = D_UNCACHED then processNullifyReq address s else Some (s, False)))"

definition processInvRepFromL2Cache :: "int \<Rightarrow> ShmemMsg \<Rightarrow> DramDirectoryCntlr \<Rightarrow> DramDirectoryCntlr option" where
  "processInvRepFromL2Cache sender m s = do {
     let address = sm_address m;
     (r, e, s) \<leftarrow> the_entry address s;
     e \<leftarrow> inv_entry sender e;
     let s = write_entry r e s;
     (if req_size address (dd_queues s) > 0 then do {
        (req, s) \<leftarrow> sync_time address s;
        p \<leftarrow> inv_resume sender address r e req s;
        process_next_if address p }
      else Some s) }"

text \<open>
  A flushed block that arrives while other copies remain is kept in the request, by its address: the caller frees the
  message and its block right afterwards, so that the bytes found there later are not determined.
\<close>

definition flush_entry :: "int \<Rightarrow> DirectoryEntry \<Rightarrow> DirectoryEntry option" where
  "flush_entry sender e = do {
     e \<leftarrow> removeSharer sender e;
     e \<leftarrow> setOwner_entry INVALID_CORE_ID (e\<lparr>de_forwarder := INVALID_CORE_ID\<rparr>);
     (if getNumSharers e = 0 then Some (e\<lparr>de_dstate := D_UNCACHED\<rparr>) else if de_dstate e = D_SHARED then Some e else None) }"

definition flush_resume :: "ShmemMsg \<Rightarrow> entry_ref \<Rightarrow> DirectoryEntry \<Rightarrow> ShmemReq \<Rightarrow> DramDirectoryCntlr \<Rightarrow> (DramDirectoryCntlr \<times> bool) option" where
  "flush_resume m r e req s = (let address = sm_address m; t = sm_type (sr_msg req) in
     if t = EX_REQ then processExReqFromL2Cache address (sm_data m) s
     else if t = SH_REQ then do {
       s \<leftarrow> sendDataToDram address (sm_requester m) (sm_data m) s;
       processShReqFromL2Cache address (sm_data m) s }
     else if t = UPGRADE_REQ then
       (if getNumSharers e = 0 then processUpgradeReqFromL2Cache address (sm_data m) (write_entry r (e\<lparr>de_dstate := D_UNCACHED\<rparr>) s)
        else Some (s\<lparr>dd_queues := update_front address
          (sr_msg_update (sm_data_update (\<lambda>_. map_option (\<lambda>_. dd_uninit_buf s) (sm_data m)))) (dd_queues s)\<rparr>, False))
     else do {
       s \<leftarrow> sendDataToDram address (sm_requester m) (sm_data m) s;
       processNullifyReq address s })"

definition processFlushRepFromL2Cache :: "int \<Rightarrow> ShmemMsg \<Rightarrow> DramDirectoryCntlr \<Rightarrow> DramDirectoryCntlr option" where
  "processFlushRepFromL2Cache sender m s = do {
     let address = sm_address m;
     (r, e, s) \<leftarrow> the_entry address s;
     e \<leftarrow> flush_entry sender e;
     let s = write_entry r e s;
     (if req_size address (dd_queues s) \<noteq> 0 then do {
        (req, s) \<leftarrow> sync_time address s;
        p \<leftarrow> flush_resume m r e req s;
        process_next_if address p }
      else sendDataToDram address (sm_requester m) (sm_data m) s) }"

definition wb_entry :: "int \<Rightarrow> DirectoryEntry \<Rightarrow> DirectoryEntry option" where
  "wb_entry sender e = do {
     has \<leftarrow> hasSharer sender e;
     (if has then Some () else None);
     e \<leftarrow> setOwner_entry INVALID_CORE_ID e;
     Some (e\<lparr>de_dstate := D_SHARED\<rparr>) }"

definition processWbRepFromL2Cache :: "int \<Rightarrow> ShmemMsg \<Rightarrow> DramDirectoryCntlr \<Rightarrow> DramDirectoryCntlr option" where
  "processWbRepFromL2Cache sender m s = do {
     let address = sm_address m;
     (r, e, s) \<leftarrow> the_entry address s;
     e \<leftarrow> wb_entry sender e;
     let s = write_entry r e s;
     (if req_size address (dd_queues s) \<noteq> 0 then do {
        (req, s) \<leftarrow> sync_time address s;
        (if sm_type (sr_msg req) = SH_REQ then Some () else None);
        p \<leftarrow> processShReqFromL2Cache address (sm_data m) s;
        process_next_if address p }
      else None) }"

definition handleMsgFromL2Cache :: "int \<Rightarrow> ShmemMsg \<Rightarrow> DramDirectoryCntlr \<Rightarrow> DramDirectoryCntlr option" where
  "handleMsgFromL2Cache sender m s = do {
     let msg_time = dd_now s;
     let address = sm_address m;
     (ro, s) \<leftarrow> lookup_entry address True s;
     (if sm_type m \<in> {EX_REQ, SH_REQ, UPGRADE_REQ} then do {
        req \<leftarrow> ShmemReq_new m msg_time;
        let s = s\<lparr>dd_queues := enqueue address req (dd_queues s)\<rparr>;
        (if req_size address (dd_queues s) = 1 then do {
           p \<leftarrow> process_request address (sm_type m) s;
           process_next_if address p }
         else Some s) }
      else if sm_type m = INV_REP then processInvRepFromL2Cache sender m s
      else if sm_type m = FLUSH_REP then processFlushRepFromL2Cache sender m s
      else if sm_type m = WB_REP then processWbRepFromL2Cache sender m s
      else None) }"

definition handleMsgFromDRAM :: "int \<Rightarrow> ShmemMsg \<Rightarrow> DramDirectoryCntlr \<Rightarrow> DramDirectoryCntlr option" where
  "handleMsgFromDRAM sender m s = (if sm_type m = DRAM_READ_REP then processDRAMReply sender m s else None)"

text \<open>\<^verbatim>\<open>MemoryManager::handleMsgFromNetwork\<close>, for a message to the directory.\<close>

definition handleMsgFromNetwork :: "int \<Rightarrow> u64 \<Rightarrow> ShmemMsg \<Rightarrow> DramDirectoryCntlr \<Rightarrow> DramDirectoryCntlr option" where
  "handleMsgFromNetwork sender msg_time m s = (let s = s\<lparr>dd_now := msg_time\<rparr> in
     if sm_sender m = LAST_LEVEL_CACHE then handleMsgFromL2Cache sender m s
     else if sm_sender m = DRAM_COMPONENT then handleMsgFromDRAM sender m s
     else None)"

text \<open>
  The runs of a controller: messages arrive in any order, for addresses of lines. The list holds the messages handled
  so far.
\<close>

inductive dir_run :: "DramDirectoryCntlr \<Rightarrow> ShmemMsg list \<Rightarrow> DramDirectoryCntlr \<Rightarrow> bool" for s0 where
  dir_start: "dir_run s0 [] s0"
| dir_message: "dir_run s0 ms s \<Longrightarrow> sm_address m \<noteq> INVALID_ADDRESS \<Longrightarrow> handleMsgFromNetwork sender t m s = Some s' \<Longrightarrow> dir_run s0 (ms @ [m]) s'"

text \<open>The requests for an address among the messages, in the order of arrival.\<close>

definition requests_for :: "u64 \<Rightarrow> ShmemMsg list \<Rightarrow> int list" where
  "requests_for a ms = map sm_requester (filter (\<lambda>m. sm_sender m = LAST_LEVEL_CACHE \<and> sm_type m \<in> {EX_REQ, SH_REQ, UPGRADE_REQ} \<and> sm_address m = a) ms)"

end
