(* ===== verification/Sniper_Order.thy ===== *)
theory Sniper_Order
  imports Sniper_Protocol
begin

text \<open>
  Requests are answered once and in order: for every address, the cores that were answered followed by those whose
  requests wait are the cores whose requests came in, in the order of arrival.
\<close>

definition account :: "DramDirectoryCntlr \<Rightarrow> u64 \<Rightarrow> int list" where
  "account s a = answers s a @ waiting s a"

text \<open>The first request of the address is done and still in the queue.\<close>

definition first_done :: "u64 \<Rightarrow> (u64 \<Rightarrow> int list) \<Rightarrow> DramDirectoryCntlr \<Rightarrow> bool" where
  "first_done a acc s \<longleftrightarrow> (\<forall>b. b \<noteq> a \<longrightarrow> account s b = acc b) \<and> answers s a @ requesters (tl (queue_of (dd_queues s) a)) = acc a"

lemma served_account: "served False a s s' \<Longrightarrow> account s' = account s"
  by (simp add: served_def account_def [abs_def])

lemma served_first_done:
  assumes "served True a s s'" and "front a (dd_queues s) = Some req" and "sm_type (sr_msg req) \<in> {EX_REQ, SH_REQ, UPGRADE_REQ}"
  shows "first_done a (account s) s'"
proof -
  obtain l where l: "queue_of (dd_queues s) a = req # l" using assms(2) by (auto simp: rq.first_Some_iff)
  then have "map req_key (queue_of (dd_queues s') a) = req_key req # map req_key l" using assms(1) by (simp add: served_def)
  then have "requesters (tl (queue_of (dd_queues s') a)) = requesters l" by (auto simp: requesters_def map_eq_Cons_conv)
  moreover have "waiting s a = sm_requester (sr_msg req) # requesters l" using l assms(3) by (simp add: waiting_def requesters_def req_key_def)
  ultimately show ?thesis using assms(1) l by (auto simp: first_done_def account_def served_def req_key_def)
qed

lemma served_then: "served nx a s s' \<Longrightarrow> served False a s' s'' \<Longrightarrow> served nx a s s''"
  by (auto simp: served_def)

lemma nullify_first_done:
  assumes "quiet s s'" and "front a (dd_queues s) = Some req" and "sm_type (sr_msg req) \<notin> {EX_REQ, SH_REQ, UPGRADE_REQ}"
  shows "first_done a (account s) s'"
proof -
  obtain l where l: "queue_of (dd_queues s) a = req # l" using assms(2) by (auto simp: rq.first_Some_iff)
  then show ?thesis using assms(3) quiet_queues [OF assms(1)] quiet_answers [OF assms(1)]
    by (simp add: first_done_def account_def waiting_def requesters_def req_key_def)
qed

lemma finish_account:
  assumes "first_done a acc s" and "finish_request a s = Some (nxt, s')"
  shows "account s' = acc"
proof
  fix b
  have "answers s' = answers s" using assms(2) by (auto simp: finish_request_def answers_def [abs_def] bind_eq_Some_conv)
  then show "account s' b = acc b" using assms(1) finish_request_contents [OF assms(2)]
    by (cases "b = a") (auto simp: first_done_def account_def waiting_def)
qed

lemma finish_front: "finish_request a s = Some (Some req, s') \<Longrightarrow> front a (dd_queues s') = Some req"
  by (auto simp: finish_request_def bind_eq_Some_conv split: if_splits)

lemma account_now [simp]: "account (s\<lparr>dd_now := t\<rparr>) = account s"
  by (simp add: account_def [abs_def] answers_def waiting_def)

lemma process_request_type: "process_request a t s = Some p \<Longrightarrow> t \<in> {EX_REQ, SH_REQ, UPGRADE_REQ}"
  by (auto simp: process_request_def split: if_splits)

lemma processNext_account:
  "processNextReqFromL2Cache a s = Some s' \<Longrightarrow> first_done a acc s \<Longrightarrow> account s' = acc"
proof (induction a s arbitrary: acc rule: processNextReqFromL2Cache.induct)
  case (1 a s)
  obtain nxt s1 where f: "finish_request a s = Some (nxt, s1)"
    using 1(2) by (subst (asm) processNextReqFromL2Cache.simps) (auto split: option.splits)
  have acc: "account s1 = acc" by (rule finish_account [OF 1(3) f])
  show ?case
  proof (cases nxt)
    case None
    then show ?thesis using 1(2) f acc by (subst (asm) processNextReqFromL2Cache.simps) simp
  next
    case (Some req)
    let ?s = "s1\<lparr>dd_now := sr_time req\<rparr>" and ?t = "sm_type (sr_msg req)"
    obtain s2 nx where p: "process_request a ?t ?s = Some (s2, nx)" and r: "(if nx then processNextReqFromL2Cache a s2 else Some s2) = Some s'"
      using 1(2) f Some by (subst (asm) processNextReqFromL2Cache.simps) (auto split: option.splits)
    have fr: "front a (dd_queues ?s) = Some req" using finish_front f Some by simp
    note sv = served_process_request [OF p]
    show ?thesis
    proof (cases nx)
      case True
      then have "first_done a (account ?s) s2" using served_first_done [OF _ fr process_request_type [OF p]] sv by simp
      then show ?thesis using 1(1) [OF f refl Some p refl True] r True acc by simp
    next
      case False
      then show ?thesis using served_account [of a ?s s2] sv r acc by simp
    qed
  qed
qed

lemma process_next_if_account:
  assumes "process_next_if a (s1, nx) = Some s'" and "served nx a s s1" and "front a (dd_queues s) = Some req" and "sm_type (sr_msg req) \<in> {EX_REQ, SH_REQ, UPGRADE_REQ}"
  shows "account s' = account s"
  using assms processNext_account [OF _ served_first_done] served_account by (auto simp: process_next_if_def split: if_splits)

lemma nullify_next_account:
  assumes "process_next_if a (s1, nx) = Some s'" and "quiet s s1" and "front a (dd_queues s) = Some req" and "sm_type (sr_msg req) \<notin> {EX_REQ, SH_REQ, UPGRADE_REQ}"
  shows "account s' = account s"
  using assms processNext_account [OF _ nullify_first_done] served_account [OF quiet_served] by (auto simp: process_next_if_def split: if_splits)

lemma sync_time_served: "sync_time a s = Some (req, s') \<Longrightarrow> served False a s s' \<and> front a (dd_queues s') = Some req"
proof -
  assume t: "sync_time a s = Some (req, s')"
  let ?s = "s\<lparr>dd_queues := update_front a (ShmemReq_updateTime (dd_now s)) (dd_queues s)\<rparr>"
  have "served False a s ?s" by (rule served_update_front) (simp add: ShmemReq_updateTime_def req_key_def)
  moreover have "s' = ?s\<lparr>dd_now := max (dd_now s) (sr_time req)\<rparr>" "front a (dd_queues ?s) = Some req"
    using t by (auto simp: sync_time_def Let_def bind_eq_Some_conv)
  ultimately show ?thesis using served_cong(2) [of s' ?s False a s] by simp
qed

text \<open>After the directory entry was changed, the first request goes on.\<close>

lemma account_write_entry [simp]: "account (write_entry r e s) = account s"
  by (simp add: account_def [abs_def] answers_def waiting_def write_entry_def)

lemma quiet_account: "quiet s s' \<Longrightarrow> account s' = account s"
  by (rule served_account [OF quiet_served])

lemma front_write_entry [simp]: "dd_queues (write_entry r e s) = dd_queues s"
  by (simp add: write_entry_def)

text \<open>One step of the first request: it is answered, or stays; a request to nullify gets no answer.\<close>

definition progress :: "u64 \<Rightarrow> ShmemReq \<Rightarrow> DramDirectoryCntlr \<Rightarrow> DramDirectoryCntlr \<times> bool \<Rightarrow> bool" where
  "progress a req s p \<longleftrightarrow> (if sm_type (sr_msg req) \<in> {EX_REQ, SH_REQ, UPGRADE_REQ} then served (snd p) a s (fst p) else quiet s (fst p))"

lemma progress_account:
  assumes "progress a req s p" and "front a (dd_queues s) = Some req" and "process_next_if a p = Some s'"
  shows "account s' = account s"
  using assms process_next_if_account [of a "fst p" "snd p" s' s req] nullify_next_account [of a "fst p" "snd p" s' s req]
  by (auto simp: progress_def split: if_splits)

lemma progress_requests:
  "processExReqFromL2Cache a d s = Some p \<Longrightarrow> served (snd p) a s (fst p)"
  "processShReqFromL2Cache a d s = Some p \<Longrightarrow> served (snd p) a s (fst p)"
  "processUpgradeReqFromL2Cache a d s = Some p \<Longrightarrow> served (snd p) a s (fst p)"
  "processNullifyReq a s = Some p \<Longrightarrow> quiet s (fst p)"
  "process_request a t s = Some p \<Longrightarrow> served (snd p) a s (fst p)"
  by (cases p; simp add: served_processExReq served_processShReq served_processUpgradeReq quiet_processNullifyReq served_process_request)+

lemma served_refl [simp]: "served False a s s"
  by (rule quiet_served) simp

lemma inv_resume_progress: "inv_resume sender a r e req s = Some p \<Longrightarrow> progress a req s p"
  by (auto simp: inv_resume_def progress_def Let_def bind_eq_Some_conv split: if_splits dest!: progress_requests)

lemma quiet_served_requests: "quiet s s' \<Longrightarrow> served (snd p) a s' (fst p) \<Longrightarrow> served (snd p) a s (fst p)"
  by (rule quiet_served_trans)

lemma flush_resume_progress: "flush_resume m r e req s = Some p \<Longrightarrow> progress (sm_address m) req s p"
  by (auto simp: flush_resume_def progress_def Let_def bind_eq_Some_conv split: if_splits dest!: progress_requests quiet_sendDataToDram
      intro: quiet_served_trans quiet_trans served_update_front) (auto intro!: served_update_front simp: req_key_def)

text \<open>A reply from a cache: the entry changes, then the first request goes on.\<close>

lemma resume_account:
  assumes "the_entry a s = Some (r, e, s1)" and "sync_time a (write_entry r e' s1) = Some (req, s2)"
    and "progress a req s2 p" and "process_next_if a p = Some s'"
  shows "account s' = account s"
proof -
  have "served False a (write_entry r e' s1) s2" "front a (dd_queues s2) = Some req" using sync_time_served [OF assms(2)] by auto
  then have "account s' = account (write_entry r e' s1)" using progress_account [OF assms(3) _ assms(4)] served_account by metis
  then show ?thesis using quiet_account [OF quiet_the_entry [OF assms(1)]] by simp
qed

lemma idle_account: "the_entry a s = Some (r, e, s1) \<Longrightarrow> account (write_entry r e' s1) = account s"
  using quiet_account [OF quiet_the_entry] by simp

lemma account_processInvRep: "processInvRepFromL2Cache sender m s = Some s' \<Longrightarrow> account s' = account s"
  by (auto simp: processInvRepFromL2Cache_def Let_def bind_eq_Some_conv split: if_splits
      dest!: inv_resume_progress elim: resume_account idle_account)

lemma account_processFlushRep: "processFlushRepFromL2Cache sender m s = Some s' \<Longrightarrow> account s' = account s"
  by (auto simp: processFlushRepFromL2Cache_def Let_def bind_eq_Some_conv split: if_splits
      dest!: flush_resume_progress elim: resume_account) (metis idle_account quiet_account quiet_sendDataToDram)

lemma account_processWbRep: "processWbRepFromL2Cache sender m s = Some s' \<Longrightarrow> account s' = account s"
  by (auto simp: processWbRepFromL2Cache_def Let_def bind_eq_Some_conv split: if_splits
      elim!: resume_account) (auto simp: progress_def dest: progress_requests)

lemma account_processDRAMReply:
  assumes "processDRAMReply sender m s = Some s'"
  shows "account s' = account s"
proof -
  let ?a = "sm_address m"
  from assms obtain req r s1 s2 s3 t w and e :: DirectoryEntry where fr: "front ?a (dd_queues s) = Some req" and te: "the_entry ?a s = Some (r, e, s1)"
    and rt: "dram_reply_type (sm_type (sr_msg req)) (de_dstate e) = Some t"
    and sm: "sendMsg t L2_CACHE (sm_requester (sr_msg req)) (sm_requester (sr_msg req)) ?a (sm_data m) (dd_cache_block_size s1) w s1 = Some s2"
    and dn: "sendDataToNUCA ?a (sm_requester (sr_msg req)) (sm_data m) False s2 = Some s3" and nx: "processNextReqFromL2Cache ?a s3 = Some s'"
    by (auto simp: processDRAMReply_def Let_def bind_eq_Some_conv)
  have t: "t \<in> {EX_REP, SH_REP, UPGRADE_REP}" "sm_type (sr_msg req) \<in> {EX_REQ, SH_REQ, UPGRADE_REQ}"
    using rt by (auto simp: dram_reply_type_def split: if_splits)
  have s1: "served False ?a s s1" by (rule quiet_served [OF quiet_the_entry [OF te]])
  have "served True ?a s1 s2" using served_reply [OF sm t(1)] served_front [OF fr s1] by blast
  moreover have "served False ?a s2 s3" by (rule quiet_served [OF quiet_sendDataToNUCA [OF dn]])
  ultimately have "served True ?a s s3" using served_trans [OF s1] served_then by blast
  then show ?thesis using processNext_account [OF nx served_first_done [OF _ fr t(2)]] by blast
qed

lemma account_enqueue:
  "account (s\<lparr>dd_queues := enqueue a r (dd_queues s)\<rparr>) = (account s)(a := account s a @ requesters [r])"
  by (auto simp: account_def answers_def waiting_def requesters_def rq.enq_contents fun_eq_iff)

lemma ShmemReq_new_msg: "ShmemReq_new m t = Some r \<Longrightarrow> sr_msg r = m"
  by (auto simp: ShmemReq_new_def split: if_splits)

lemma account_request:
  assumes "handleMsgFromL2Cache sender m s = Some s'" and t: "sm_type m \<in> {EX_REQ, SH_REQ, UPGRADE_REQ}"
  shows "account s' = (account s)(sm_address m := account s (sm_address m) @ [sm_requester m])"
proof -
  let ?a = "sm_address m"
  from assms obtain ro s1 r where lk: "lookup_entry ?a True s = Some (ro, s1)" and r: "ShmemReq_new m (dd_now s) = Some r"
    by (auto simp: handleMsgFromL2Cache_def Let_def bind_eq_Some_conv)
  let ?s = "s1\<lparr>dd_queues := enqueue ?a r (dd_queues s1)\<rparr>"
  have rm: "sr_msg r = m" by (rule ShmemReq_new_msg [OF r])
  have acc: "account ?s = (account s)(?a := account s ?a @ [sm_requester m])"
    using t rm quiet_account [OF quiet_lookup_entry [OF lk]] by (auto simp: account_enqueue requesters_def req_key_def)
  show ?thesis
  proof (cases "req_size ?a (dd_queues ?s) = 1")
    case False
    then have "s' = ?s" using assms lk r by (auto simp: handleMsgFromL2Cache_def Let_def bind_eq_Some_conv)
    then show ?thesis using acc by simp
  next
    case True
    then obtain p where p: "process_request ?a (sm_type m) ?s = Some p" "process_next_if ?a p = Some s'"
      using assms lk r by (auto simp: handleMsgFromL2Cache_def Let_def bind_eq_Some_conv)
    have fr: "front ?a (dd_queues ?s) = Some r" using True by (simp add: rq.size_contents rq.first_contents rq.enq_contents)
    have "progress ?a r ?s p" using progress_requests(5) [OF p(1)] t rm by (simp add: progress_def)
    then show ?thesis using progress_account [OF _ fr p(2)] acc by simp
  qed
qed

lemma account_reply:
  assumes "handleMsgFromL2Cache sender m s = Some s'" and t: "sm_type m \<notin> {EX_REQ, SH_REQ, UPGRADE_REQ}"
  shows "account s' = account s"
proof -
  from assms obtain ro s1 where lk: "lookup_entry (sm_address m) True s = Some (ro, s1)"
    and h: "(if sm_type m = INV_REP then processInvRepFromL2Cache sender m s1
      else if sm_type m = FLUSH_REP then processFlushRepFromL2Cache sender m s1
      else if sm_type m = WB_REP then processWbRepFromL2Cache sender m s1
      else None) = Some s'"
    by (auto simp: handleMsgFromL2Cache_def Let_def bind_eq_Some_conv)
  then show ?thesis using quiet_account [OF quiet_lookup_entry [OF lk]]
    by (auto simp: account_processInvRep account_processFlushRep account_processWbRep split: if_splits)
qed

lemma account_step:
  assumes "handleMsgFromNetwork sender t m s = Some s'"
  shows "account s' a = account s a @ requests_for a [m]"
  using assms account_request [of sender m "s\<lparr>dd_now := t\<rparr>" s'] account_reply [of sender m "s\<lparr>dd_now := t\<rparr>" s'] account_processDRAMReply [of sender m "s\<lparr>dd_now := t\<rparr>" s']
  by (cases "sm_type m \<in> {EX_REQ, SH_REQ, UPGRADE_REQ}") (auto simp: handleMsgFromNetwork_def handleMsgFromDRAM_def requests_for_def Let_def LAST_LEVEL_CACHE_def DRAM_COMPONENT_def split: if_splits)

lemma account_run: "dir_run s0 ms s \<Longrightarrow> account s a = account s0 a @ requests_for a ms"
  by (induction rule: dir_run.induct) (auto simp: account_step requests_for_def)

end
