(* ===== verification/Sniper_Owner.thy ===== *)
theory Sniper_Owner
  imports Sniper_Protocol
begin

text \<open>
  The directory keeps one writer or many readers: the state of every entry agrees with its sharers, and a line in
  state modified or exclusive has its owner as the only sharer.
\<close>

section \<open>The sharers of an entry\<close>

definition sharers :: "DirectoryEntry \<Rightarrow> int set" where
  "sharers e = {i. 0 \<le> i \<and> nat i < length (de_sharers e) \<and> de_sharers e ! nat i}"

lemma sharers_list: "set (snd (getSharersList e)) = sharers e" "distinct (snd (getSharersList e))" "length (snd (getSharersList e)) = getNumSharers e"
proof -
  show "set (snd (getSharersList e)) = sharers e" by (force simp: getSharersList_def sharers_def image_iff)
  show "distinct (snd (getSharersList e))" by (simp add: getSharersList_def distinct_map)
  have "length (filter ((!) xs) [0..<length xs]) = length (filter id xs)" for xs :: "bool list"
    by (metis (no_types, lifting) comp_apply filter_cong filter_map id_apply length_map map_nth)
  then show "length (snd (getSharersList e)) = getNumSharers e" by (simp add: getSharersList_def getNumSharers_def)
qed

lemma getNumSharers_card: "getNumSharers e = card (sharers e)"
  using sharers_list [of e] distinct_card by metis

lemma finite_sharers [simp]: "finite (sharers e)"
  unfolding sharers_list(1) [symmetric] by simp

lemma sharers_fields [simp]:
  "sharers (e\<lparr>de_address := a\<rparr>) = sharers e" "sharers (e\<lparr>de_dstate := st\<rparr>) = sharers e" "sharers (e\<lparr>de_owner := i\<rparr>) = sharers e"
  "sharers (e\<lparr>de_forwarder := i\<rparr>) = sharers e" "sharers (e\<lparr>de_class := x\<rparr>) = sharers e"
  by (simp_all add: sharers_def)

lemma hasSharer_iff: "hasSharer i e = Some b \<Longrightarrow> b \<longleftrightarrow> i \<in> sharers e"
  by (auto simp: hasSharer_def sharers_def split: if_splits)

lemma put_sharer_sharers: "hasSharer i e \<noteq> None \<Longrightarrow> sharers (put_sharer i b e) = (if b then insert i (sharers e) else sharers e - {i})"
  by (auto simp: sharers_def put_sharer_def hasSharer_def nth_list_update split: if_splits)

definition same_line :: "DirectoryEntry \<Rightarrow> DirectoryEntry \<Rightarrow> bool" where
  "same_line e e' \<longleftrightarrow> de_address e' = de_address e \<and> de_dstate e' = de_dstate e \<and> de_owner e' = de_owner e"

lemma addSharer_True: "addSharer i n e = Some (True, e') \<Longrightarrow> sharers e' = insert i (sharers e) \<and> i \<notin> sharers e \<and> same_line e e'"
proof -
  assume a: "addSharer i n e = Some (True, e')"
  then have h: "hasSharer i e = Some False" by (auto simp: addSharer_def split: bind_splits if_splits)
  obtain x where x: "e' = put_sharer i True (e\<lparr>de_class := x\<rparr>)"
    using a by (auto simp: addSharer_def split: bind_splits if_splits entry_class.splits) (metis DirectoryEntry.surjective DirectoryEntry.update_convs(6))+
  have "hasSharer i (e\<lparr>de_class := x\<rparr>) \<noteq> None" using h by (simp add: hasSharer_def split: if_splits)
  then have "sharers e' = insert i (sharers e)" unfolding x by (simp add: put_sharer_sharers)
  then show ?thesis using hasSharer_iff [OF h] by (simp add: same_line_def put_sharer_def x)
qed

lemma addSharer_False: "addSharer i n e = Some (False, e') \<Longrightarrow> e' = e"
  by (auto simp: addSharer_def split: bind_splits if_splits entry_class.splits)

lemma removeSharer_spec: "removeSharer i e = Some e' \<Longrightarrow> sharers e' = sharers e - {i} \<and> i \<in> sharers e \<and> same_line e e'"
proof -
  assume "removeSharer i e = Some e'"
  then have h: "hasSharer i e = Some True" "e' = put_sharer i False e" by (auto simp: removeSharer_def split: bind_splits if_splits)
  then show ?thesis using hasSharer_iff [OF h(1)] put_sharer_sharers [of i e False] by (auto simp: same_line_def put_sharer_def)
qed

lemma setOwner_spec: "setOwner_entry i e = Some e' \<Longrightarrow> e' = e\<lparr>de_owner := i\<rparr>"
  by (auto simp: setOwner_entry_def split: bind_splits if_splits)

lemma getOneSharer_spec: "getOneSharer e = Some (i, e') \<Longrightarrow> sharers e' = sharers e \<and> same_line e e'"
  by (auto simp: getOneSharer_def Let_def same_line_def split: entry_class.splits if_splits bind_splits list.splits)

section \<open>The invariant\<close>

definition entry_ok :: "DirectoryEntry \<Rightarrow> bool" where
  "entry_ok e \<longleftrightarrow> (case de_dstate e of
      D_UNCACHED \<Rightarrow> sharers e = {} | D_SHARED \<Rightarrow> sharers e \<noteq> {} | D_OWNED \<Rightarrow> False | _ \<Rightarrow> sharers e = {de_owner e})"

definition coherent_cache :: "DramDirectoryCache \<Rightarrow> bool" where
  "coherent_cache c \<longleftrightarrow> dir_inv c \<and> (\<forall>a e. dir_map c a = Some e \<longrightarrow> entry_ok e)"

lemma coherent_every: "coherent_cache = dc.every entry_ok"
  by (simp add: coherent_cache_def dc.every_def fun_eq_iff)

abbreviation coherent :: "DramDirectoryCntlr \<Rightarrow> bool" where
  "coherent s \<equiv> coherent_cache (dd_cache s)"

lemma fresh_ok: "fresh_entry d e \<Longrightarrow> entry_ok e"
  by (simp add: fresh_entry_def entry_ok_def sharers_def)

lemma entry_ok_forwarder [simp]: "entry_ok (e\<lparr>de_forwarder := f\<rparr>) = entry_ok e"
  by (simp add: entry_ok_def split: dstate_t.splits)

text \<open>A pointer to the entry of an address.\<close>

definition opened :: "u64 \<Rightarrow> entry_ref \<Rightarrow> DirectoryEntry \<Rightarrow> DramDirectoryCache \<Rightarrow> bool" where
  "opened a r e c \<longleftrightarrow> coherent_cache c \<and> a \<noteq> INVALID_ADDRESS \<and> deref c r = Some e \<and> de_address e = a"

lemma opened_ok: "opened a r e c \<Longrightarrow> entry_ok e"
  using dir_map_Some [of c a e] by (auto simp: opened_def coherent_cache_def simp del: deref.simps)

lemma opened_map: "opened a r e c \<Longrightarrow> dir_map c a = Some e"
  using dir_map_Some [of c a e] by (auto simp: opened_def coherent_cache_def simp del: deref.simps)

lemma opened_coherent: "opened a r e c \<Longrightarrow> coherent_cache c"
  by (simp add: opened_def)

lemma opened_set:
  assumes "opened a r e c" and "de_address e' = a" and "entry_ok e'"
  shows "opened a r e' (set_entry r e' c)" and "dir_map (set_entry r e' c) = (dir_map c)(a \<mapsto> e')"
proof -
  have o: "dir_inv c" "deref c r = Some e" "de_address e' = de_address e" "de_address e \<noteq> INVALID_ADDRESS" "de_address e = a"
    using assms by (auto simp: opened_def coherent_cache_def)
  show "dir_map (set_entry r e' c) = (dir_map c)(a \<mapsto> e')" using dc.write_entry [OF o(1-4)] o(5) by simp
  have "coherent_cache (set_entry r e' c)" using dc.every_write [of entry_ok, OF _ o(2-4) assms(3)] assms(1) by (simp add: coherent_every opened_def)
  then show "opened a r e' (set_entry r e' c)" using assms o deref_set_entry [of c r e' r] by (simp add: opened_def)
qed

lemma lookup_opened:
  assumes "coherent_cache c" and "a \<noteq> INVALID_ADDRESS" and "getDirectoryEntry a m c now = Some (ro, c', now')"
  shows "coherent_cache c'" and "ro = Some r \<Longrightarrow> \<exists>e. opened a r e c'"
proof -
  show co: "coherent_cache c'" using assms dc.every_lookup [of entry_ok c a m now ro c' now'] fresh_ok unfolding coherent_every by blast
  have "dir_inv c" using assms(1) by (simp add: coherent_cache_def)
  then show "ro = Some r \<Longrightarrow> \<exists>e. opened a r e c'" using dc.lookup_Some [of c a m now r c' now'] assms(2,3) co by (auto simp: opened_def)
qed

text \<open>A lookup moves no entry that has an address.\<close>

lemma getDirectoryEntry_keeps:
  assumes inv: "dir_inv c" and a: "a \<noteq> INVALID_ADDRESS" and g: "getDirectoryEntry a m c now = Some (ro, c', now')"
    and d: "deref c r = Some e" "de_address e \<noteq> INVALID_ADDRESS"
  shows "deref c' r = Some e"
proof -
  obtain t i where sp: "dir_splitAddress c a = Some (t, i)" by (rule dir_split [OF dir_inv_fields(1) [OF inv], of a])
  from g obtain hit d1 where w1: "way_scan (\<lambda>e. de_address e = a) (i * dc_associativity c) 0 (unat (dc_associativity c)) (dc_directory c) = Some (hit, d1)"
    by (auto simp: getDirectoryEntry_def sp Let_def split: bind_splits)
  define c1 where "c1 = c\<lparr>dc_directory := d1\<rparr>"
  note g1 = grown_inv [OF inv set_scan(1) [OF inv sp _ w1, where Q = "\<lambda>x. x = a", OF refl] c1_def]
  have d1: "deref c1 r = Some e" by (rule g1(5) [OF d(1)])
  show ?thesis
  proof (cases hit)
    case (Some k)
    then have "c' = c1" using g by (auto simp: getDirectoryEntry_def sp Let_def w1 c1_def split: bind_splits)
    then show ?thesis using d1 by simp
  next
    case None
    have sp1: "dir_splitAddress c1 a = Some (t, i)" using sp by (simp add: dir_splitAddress_def c1_def)
    from None g obtain free d2 where w2: "way_scan (\<lambda>e. de_address e = INVALID_ADDRESS) (i * dc_associativity c1) 0 (unat (dc_associativity c1)) (dc_directory c1) = Some (free, d2)"
      by (auto simp: getDirectoryEntry_def sp Let_def w1 c1_def split: bind_splits)
    define c2 where "c2 = c1\<lparr>dc_directory := d2\<rparr>"
    note s2 = set_scan [OF g1(1) sp1 _ w2, where Q = "\<lambda>x. x = INVALID_ADDRESS", OF refl]
    note g2 = grown_inv [OF g1(1) s2(1) c2_def]
    have d2: "deref c2 r = Some e" by (rule g2(5) [OF d1])
    show ?thesis
    proof (cases free)
      case fn: None
      then have "c' = c2" using g None w2 by (auto simp: getDirectoryEntry_def sp Let_def w1 c1_def c2_def split: bind_splits)
      then show ?thesis using d2 by simp
    next
      case (Some k)
      obtain x where x: "deref c2 (In_table k) = Some x" "de_address x = INVALID_ADDRESS" using s2(3) [OF Some] unfolding c2_def by auto
      then have "c' = set_entry (In_table k) (x\<lparr>de_address := a\<rparr>) c2"
        using g None Some w2 by (auto simp: getDirectoryEntry_def sp Let_def w1 c1_def c2_def split: bind_splits)
      moreover have "r \<noteq> In_table k" using x d d2 by (auto simp del: deref.simps)
      ultimately show ?thesis using d2 deref_set_entry [of c2 "In_table k" "x\<lparr>de_address := a\<rparr>" r] x(1) by simp
    qed
  qed
qed

section \<open>The controller\<close>

text \<open>Operations that leave the directory alone.\<close>

lemma dir_kept:
  "sendMsg t rc p i a d l w s = Some s' \<Longrightarrow> dd_cache s' = dd_cache s"
  "sync_time a s = Some (req, s') \<Longrightarrow> dd_cache s' = dd_cache s"
  "finish_request a s = Some (nxt, s') \<Longrightarrow> dd_cache s' = dd_cache s"
  "nuca_lookup a s = Some (hit, s') \<Longrightarrow> dd_cache s' = dd_cache s"
  by (auto simp: sendMsg_def sync_time_def finish_request_def nuca_lookup_def Let_def bind_eq_Some_conv split: if_splits option.splits)

lemma dir_kept_send_all: "send_all rs p a s = Some s' \<Longrightarrow> dd_cache s' = dd_cache s"
proof (induction rs arbitrary: s)
  case (Cons r rs)
  obtain i t where "r = (i, t)" by (cases r)
  then show ?case using Cons by (auto simp: send_all_Cons bind_eq_Some_conv dest: dir_kept(1))
qed simp

lemma dir_kept_data:
  "invalidate_sharers e p a s = Some s' \<Longrightarrow> dd_cache s' = dd_cache s"
  "request_data p a e s = Some s' \<Longrightarrow> dd_cache s' = dd_cache s"
  by (auto simp: invalidate_sharers_def getSharersList_def request_data_def bind_eq_Some_conv
      split: if_splits dest!: dir_kept(1) dir_kept_send_all)

lemma dir_kept_nuca: "sendDataToNUCA a p d cnt s = Some s' \<Longrightarrow> dd_cache s' = dd_cache s"
  by (auto simp: sendDataToNUCA_def Let_def split: option.splits bind_splits prod.splits if_splits dest!: dir_kept(1))

lemma dir_kept_dram: "sendDataToDram a p d s = Some s' \<Longrightarrow> dd_cache s' = dd_cache s"
  by (auto simp: sendDataToDram_def bind_eq_Some_conv split: option.splits dest!: dir_kept(1) dir_kept_nuca)

lemmas dir_keeps = dir_kept dir_kept_send_all dir_kept_data dir_kept_nuca dir_kept_dram

lemma coherent_lookup_entry:
  assumes "coherent s" and "a \<noteq> INVALID_ADDRESS" and "lookup_entry a m s = Some (ro, s')"
  shows "coherent s'" and "ro = Some r \<Longrightarrow> \<exists>e. opened a r e (dd_cache s')"
  using assms lookup_opened [OF assms(1,2)] by (auto simp: lookup_entry_def bind_eq_Some_conv)

lemma opened_the_entry:
  assumes "coherent s" and "a \<noteq> INVALID_ADDRESS" and "the_entry a s = Some (r, e, s')"
  shows "opened a r e (dd_cache s')"
proof -
  from assms(3) have l: "lookup_entry a False s = Some (Some r, s')" "deref (dd_cache s') r = Some e"
    by (auto simp: the_entry_def bind_eq_Some_conv simp del: deref.simps)
  then show ?thesis using coherent_lookup_entry(2) [OF assms(1,2) l(1) refl] by (auto simp: opened_def)
qed

lemma coherent_write:
  assumes "opened a r e (dd_cache s)" and "de_address e' = a" and "entry_ok e'"
  shows "opened a r e' (dd_cache (write_entry r e' s))" and "coherent (write_entry r e' s)"
  using opened_set [OF assms] by (auto simp: write_entry_def dest: opened_coherent)

lemma coherent_nullify:
  assumes "coherent s" and "a \<noteq> INVALID_ADDRESS" and "processNullifyReq a s = Some (s', nx)"
  shows "coherent s'" and "deref (dd_cache s) (In_table k) = Some x \<Longrightarrow> de_address x \<noteq> INVALID_ADDRESS \<Longrightarrow> deref (dd_cache s') (In_table k) = Some x"
proof -
  from assms(3) obtain r e s1 where te: "the_entry a s = Some (r, e, s1)"
    by (auto simp: processNullifyReq_def Let_def bind_eq_Some_conv)
  have c: "dd_cache s' = dd_cache s1 \<or> invalidateDirectoryEntry a (dd_cache s1) = Some (dd_cache s')"
    using assms(3) te by (cases "de_dstate e") (auto simp: processNullifyReq_def Let_def bind_eq_Some_conv dest!: dir_keeps)
  have o: "coherent s1" using opened_the_entry [OF assms(1,2) te] by (rule opened_coherent)
  then have i1: "dir_inv (dd_cache s1)" by (simp add: coherent_cache_def)
  show "coherent s'" using c o dc.every_remove [of entry_ok "dd_cache s1" a "dd_cache s'"] by (auto simp: coherent_every)
  assume x: "deref (dd_cache s) (In_table k) = Some x" "de_address x \<noteq> INVALID_ADDRESS"
  from te obtain now where "getDirectoryEntry a False (dd_cache s) (dd_now s) = Some (Some r, dd_cache s1, now)"
    by (auto simp: the_entry_def lookup_entry_def bind_eq_Some_conv)
  moreover have "dir_inv (dd_cache s)" using assms(1) by (simp add: coherent_cache_def)
  ultimately have "deref (dd_cache s1) (In_table k) = Some x" using getDirectoryEntry_keeps assms(2) x by blast
  then show "deref (dd_cache s') (In_table k) = Some x" using c invalidateDirectoryEntry_spec(5) [OF i1, of a "dd_cache s'" k] by (auto simp del: deref.simps)
qed

lemma choose_candidate_mem: "choose_candidate q es = Some e \<Longrightarrow> \<exists>k. (k, e) \<in> set es"
proof -
  let ?f = "\<lambda>(k, e) best. if (case best of None \<Rightarrow> True | Some b \<Rightarrow> getNumSharers b > getNumSharers e) \<and> req_size (de_address e) q = 0 then Some e else best"
  have "fold ?f es b = Some e \<Longrightarrow> b = Some e \<or> (\<exists>k. (k, e) \<in> set es)" for b
    by (induction es arbitrary: b) (fastforce split: if_splits)+
  then show "choose_candidate q es = Some e \<Longrightarrow> \<exists>k. (k, e) \<in> set es" by (auto simp: choose_candidate_def)
qed

lemma coherent_nullify_replaced:
  assumes "coherent s" and "b \<noteq> INVALID_ADDRESS" and "nullify_replaced b p t s = Some s'"
  shows "coherent s'" and "deref (dd_cache s) (In_table k) = Some x \<Longrightarrow> de_address x \<noteq> INVALID_ADDRESS \<Longrightarrow> deref (dd_cache s') (In_table k) = Some x"
proof -
  from assms(3) obtain nr s2 nx where pn: "processNullifyReq b (s\<lparr>dd_queues := enqueue b nr (dd_queues s)\<rparr>) = Some (s2, nx)" (is "processNullifyReq b ?s = _")
    and c: "dd_cache s' = dd_cache s2"
    unfolding nullify_replaced_def Let_def by (auto simp: bind_eq_Some_conv split: if_splits dest!: dir_keeps)
  have "coherent ?s" using assms(1) by simp
  note cn = coherent_nullify [OF this assms(2) pn]
  show "coherent s'" using cn(1) c by simp
  show "deref (dd_cache s) (In_table k) = Some x \<Longrightarrow> de_address x \<noteq> INVALID_ADDRESS \<Longrightarrow> deref (dd_cache s') (In_table k) = Some x"
    using cn(2) [of k x] c by simp
qed

lemma opened_allocation:
  assumes "coherent s" and "a \<noteq> INVALID_ADDRESS" and "processDirectoryEntryAllocationReq a s = Some (r, s')"
  shows "\<exists>e. opened a r e (dd_cache s')"
proof -
  from assms(3) obtain es c c' now and cand :: DirectoryEntry and req :: ShmemReq where gc: "getReplacementCandidates a (dd_cache s) = Some (es, c)"
    and ch: "choose_candidate (dd_queues s) es = Some cand"
    and rp: "replaceDirectoryEntry (de_address cand) a True c (dd_now s) = Some (r, c', now)"
    and nr: "nullify_replaced (de_address cand) (sm_requester (sr_msg req)) (dd_now s)
      (s\<lparr>dd_cache := c', dd_evict := (dd_evict s)(de_dstate cand := dd_evict s (de_dstate cand) + 1), dd_now := now\<rparr>) = Some s'"
    (is "nullify_replaced _ _ _ ?u = _")
    unfolding processDirectoryEntryAllocationReq_def Let_def by (auto simp: bind_eq_Some_conv)
  have i: "dir_inv (dd_cache s)" using assms(1) by (simp add: coherent_cache_def)
  note sp = getReplacementCandidates_spec [OF i assms(2) gc]
  obtain k where "(k, cand) \<in> set es" using choose_candidate_mem [OF ch] by blast
  then have cd: "de_address cand \<noteq> INVALID_ADDRESS" "dir_set c (de_address cand) = dir_set c a" using sp(6) by blast+
  have na: "dir_map c a = None" using sp(3,4) by simp
  note rs = replaceDirectoryEntry_spec [OF sp(1) assms(2) na cd sp(5) rp]
  obtain e where e: "deref c' r = Some e" "de_address e = a" "fresh_entry (dc_directory c) e" "dir_map c' = (dir_map c)(a \<mapsto> e)" using rs(4) by blast
  have "coherent_cache c'" using assms(1) rs(1) e(3,4) sp(4) fresh_ok by (auto simp: coherent_cache_def split: if_splits)
  then have cu: "coherent ?u" by simp
  note cn = coherent_nullify_replaced [OF cu cd(1) nr]
  obtain n where "r = In_table n" using rs(3) by blast
  then have "deref (dd_cache s') r = Some e" using cn(2) [of n e] e(1,2) assms(2) by simp
  then show ?thesis using cn(1) e(2) assms(2) by (auto simp: opened_def)
qed

lemma opened_entry_or_allocate:
  assumes "coherent s" and "a \<noteq> INVALID_ADDRESS" and "entry_or_allocate a s = Some (r, e, s')"
  shows "opened a r e (dd_cache s')"
proof -
  from assms(3) obtain ro s1 where l: "lookup_entry a False s = Some (ro, s1)"
    and c: "(case ro of Some r \<Rightarrow> Some (r, s1) | None \<Rightarrow> processDirectoryEntryAllocationReq a s1) = Some (r, s')" and d: "deref (dd_cache s') r = Some e"
    by (auto simp: entry_or_allocate_def bind_eq_Some_conv simp del: deref.simps)
  note cl = coherent_lookup_entry [OF assms(1,2) l]
  have "\<exists>e. opened a r e (dd_cache s')"
  proof (cases ro)
    case None
    then show ?thesis using opened_allocation [OF cl(1) assms(2)] c by simp
  next
    case (Some r')
    then show ?thesis using cl(2) [of r'] c by simp
  qed
  then show ?thesis using d by (auto simp: opened_def)
qed

lemma coherent_retrieve:
  assumes "coherent s" and "a \<noteq> INVALID_ADDRESS" and "retrieveDataAndSendToL2Cache t p a d s = Some (s', nx)"
  shows "coherent s'"
proof -
  from assms(3) obtain r e s1 where te: "the_entry a s = Some (r, e, s1)" by (auto simp: retrieveDataAndSendToL2Cache_def bind_eq_Some_conv)
  note o = opened_the_entry [OF assms(1,2) te]
  have w: "coherent (write_entry r (e\<lparr>de_forwarder := p\<rparr>) s1)" by (rule coherent_write(2) [OF o]) (use o opened_ok [OF o] in \<open>auto simp: opened_def\<close>)
  show ?thesis using assms(3) te w opened_coherent [OF o]
    by (auto simp: retrieveDataAndSendToL2Cache_def bind_eq_Some_conv split: option.splits dest!: dir_keeps)
qed

section \<open>Every message\<close>

text \<open>New contents of an entry.\<close>

lemma entry_ok_owner: "sharers e = {} \<Longrightarrow> addSharer p n e = Some (True, e1) \<Longrightarrow> setOwner_entry p e1 = Some e2 \<Longrightarrow> st \<in> {D_MODIFIED, D_EXCLUSIVE, D_SHARED}
   \<Longrightarrow> entry_ok (e2\<lparr>de_dstate := st\<rparr>) \<and> de_address e2 = de_address e"
  by (auto simp: entry_ok_def same_line_def dest!: addSharer_True setOwner_spec)

lemma entry_ok_reader: "entry_ok e \<Longrightarrow> de_dstate e = D_SHARED \<Longrightarrow> addSharer p n e = Some (True, e1) \<Longrightarrow> entry_ok e1 \<and> de_address e1 = de_address e"
  by (auto simp: entry_ok_def same_line_def dest!: addSharer_True)

lemma entry_ok_one_sharer: "entry_ok e \<Longrightarrow> getOneSharer e = Some (i, e1) \<Longrightarrow> entry_ok e1 \<and> de_address e1 = de_address e"
  using getOneSharer_spec [of e i e1] by (cases "de_dstate e") (simp_all add: entry_ok_def same_line_def)

lemma entry_ok_upgrade:
  assumes "length (snd (getSharersList e)) = 1" and "hd (snd (getSharersList e)) = p" and "setOwner_entry p e = Some e1"
  shows "entry_ok (e1\<lparr>de_dstate := D_MODIFIED\<rparr>) \<and> de_address e1 = de_address e"
proof -
  have "snd (getSharersList e) = [p]" using assms(1,2) by (cases "snd (getSharersList e)") auto
  then have "sharers e = {p}" using sharers_list(1) [of e] by simp
  then show ?thesis unfolding setOwner_spec [OF assms(3)] by (simp add: entry_ok_def)
qed

lemma entry_ok_modified: "entry_ok e \<Longrightarrow> de_dstate e \<in> {D_MODIFIED, D_EXCLUSIVE} \<Longrightarrow> entry_ok (e\<lparr>de_dstate := D_MODIFIED\<rparr>)"
  by (auto simp: entry_ok_def)

lemma entry_ok_uncached: "entry_ok e \<Longrightarrow> getNumSharers e = 0 \<Longrightarrow> entry_ok (e\<lparr>de_dstate := D_UNCACHED\<rparr>)"
  by (simp add: entry_ok_def getNumSharers_card)

lemma no_sharers: "getNumSharers e = 0 \<longleftrightarrow> sharers e = {}"
  by (simp add: getNumSharers_card)

lemma inv_entry_ok:
  assumes "entry_ok e" and "inv_entry i e = Some e'"
  shows "entry_ok e' \<and> de_address e' = de_address e"
proof -
  from assms(2) obtain e1 where st: "de_dstate e = D_SHARED \<or> de_dstate e = D_EXCLUSIVE" and e1: "removeSharer i e = Some e1"
    by (auto simp: inv_entry_def bind_eq_Some_conv split: if_splits)
  define e2 where "e2 = (if de_forwarder e1 = i then e1\<lparr>de_forwarder := INVALID_CORE_ID\<rparr> else e1)"
  have e': "e' = (if getNumSharers e2 = 0 then e2\<lparr>de_dstate := D_UNCACHED\<rparr> else e2)"
    using assms(2) st e1 by (auto simp: inv_entry_def e2_def Let_def split: if_splits)
  note rs = removeSharer_spec [OF e1]
  have e2: "sharers e2 = sharers e - {i}" "same_line e e2" using rs by (auto simp: e2_def same_line_def)
  have "sharers e2 = {}" if "de_dstate e = D_EXCLUSIVE" using that assms(1) rs e2(1) by (auto simp: entry_ok_def)
  then show ?thesis using st e2(2) unfolding e' no_sharers by (auto simp: entry_ok_def same_line_def)
qed

lemma flush_entry_ok:
  assumes "flush_entry i e = Some e'"
  shows "entry_ok e' \<and> de_address e' = de_address e"
proof -
  from assms obtain e1 where e1: "removeSharer i e = Some e1" by (auto simp: flush_entry_def bind_eq_Some_conv)
  define e2 where "e2 = e1\<lparr>de_forwarder := INVALID_CORE_ID, de_owner := INVALID_CORE_ID\<rparr>"
  have "(if getNumSharers e2 = 0 then Some (e2\<lparr>de_dstate := D_UNCACHED\<rparr>) else if de_dstate e2 = D_SHARED then Some e2 else None) = Some e'"
    using assms e1 by (auto simp: flush_entry_def e2_def setOwner_entry_def split: if_splits)
  moreover have "de_address e2 = de_address e" using removeSharer_spec [OF e1] by (simp add: e2_def same_line_def)
  ultimately show ?thesis unfolding no_sharers by (auto simp: entry_ok_def split: if_splits)
qed

lemma wb_entry_ok: "wb_entry i e = Some e' \<Longrightarrow> entry_ok e' \<and> de_address e' = de_address e"
  by (auto simp: wb_entry_def bind_eq_Some_conv entry_ok_def split: if_splits dest!: hasSharer_iff setOwner_spec)

text \<open>Requests.\<close>

lemma uncached_sharers: "opened a r e c \<Longrightarrow> de_dstate e = D_UNCACHED \<Longrightarrow> sharers e = {}"
  using opened_ok [of a r e c] by (simp add: entry_ok_def)

lemma coherent_processExReq:
  assumes "coherent s" and "a \<noteq> INVALID_ADDRESS" and "processExReqFromL2Cache a d s = Some (s', nx)"
  shows "coherent s'"
proof -
  from assms(3) obtain req r s1 and e :: DirectoryEntry where fr: "front a (dd_queues s) = Some req" and ea: "entry_or_allocate a s = Some (r, e, s1)"
    by (rule processReq_front [OF disjI1])
  note o = opened_entry_or_allocate [OF assms(1,2) ea]
  have w: "coherent (write_entry r (e2\<lparr>de_dstate := D_MODIFIED\<rparr>) s1)"
    if "de_dstate e = D_UNCACHED" "addSharer p n e = Some (True, e1)" "setOwner_entry p e1 = Some e2" for p n e1 e2
    using coherent_write(2) [OF o] entry_ok_owner [OF uncached_sharers [OF o that(1)] that(2,3), of D_MODIFIED] o by (auto simp: opened_def)
  show ?thesis using assms(3) fr ea w opened_coherent [OF o]
    by (auto simp: processExReqFromL2Cache_def Let_def bind_eq_Some_conv split: dstate_t.splits if_splits dest!: dir_keeps
        elim!: coherent_retrieve [OF _ assms(2), rotated])
qed

lemma coherent_processShReq:
  assumes "coherent s" and "a \<noteq> INVALID_ADDRESS" and "processShReqFromL2Cache a d s = Some (s', nx)"
  shows "coherent s'"
proof -
  obtain req r s1 and e :: DirectoryEntry where fr: "front a (dd_queues s) = Some req" and ea: "entry_or_allocate a s = Some (r, e, s1)"
    by (rule processReq_front [of a d s]) (use assms(3) in auto)
  note o = opened_entry_or_allocate [OF assms(1,2) ea]
  have ok: "entry_ok e" "de_address e = a" using opened_ok [OF o] o by (auto simp: opened_def)
  have w1: "coherent (write_entry r (e2\<lparr>de_dstate := st\<rparr>) s1)"
    if "de_dstate e = D_UNCACHED" "addSharer p n e = Some (True, e1)" "setOwner_entry p e1 = Some e2" "st \<in> {D_SHARED, D_EXCLUSIVE}" for p n e1 e2 st
    using coherent_write(2) [OF o] entry_ok_owner [OF uncached_sharers [OF o that(1)] that(2,3), of st] that(4) ok by auto
  have w2: "coherent (write_entry r e1 s1)" if "de_dstate e = D_SHARED" "addSharer p n e = Some (True, e1)" for p n e1
    using coherent_write(2) [OF o] entry_ok_reader [OF ok(1) that] ok by simp
  have w3: "coherent (write_entry r e2 s1)" if "addSharer p n e = Some (False, e1)" "getOneSharer e1 = Some (i, e2)" for p n e1 i e2
    using coherent_write(2) [OF o] addSharer_False [OF that(1)] entry_ok_one_sharer [of e i e2] ok that(2) by simp
  show ?thesis using assms(3) opened_coherent [OF o] unfolding processShReqFromL2Cache_def Let_def fr ea
    by (auto simp: bind_eq_Some_conv split: dstate_t.splits if_splits dest!: dir_keeps
        elim!: coherent_retrieve [OF _ assms(2), rotated] intro: w1 w2 w3)
qed

lemma coherent_processUpgradeReq:
  assumes "coherent s" and "a \<noteq> INVALID_ADDRESS" and "processUpgradeReqFromL2Cache a d s = Some (s', nx)"
  shows "coherent s'"
proof -
  obtain req r s1 and e :: DirectoryEntry where fr: "front a (dd_queues s) = Some req" and ea: "entry_or_allocate a s = Some (r, e, s1)"
    by (rule processReq_front [of a d s]) (use assms(3) in auto)
  obtain l where l: "getSharersList e = (False, l)" by (simp add: getSharersList_def)
  note o = opened_entry_or_allocate [OF assms(1,2) ea]
  have ok: "entry_ok e" "de_address e = a" using opened_ok [OF o] o by (auto simp: opened_def)
  have w1: "coherent (write_entry r (e2\<lparr>de_dstate := D_MODIFIED\<rparr>) s1)"
    if "de_dstate e = D_UNCACHED" "addSharer p n e = Some (True, e1)" "setOwner_entry p e1 = Some e2" for p n e1 e2
    using coherent_write(2) [OF o] entry_ok_owner [OF uncached_sharers [OF o that(1)] that(2,3), of D_MODIFIED] ok by auto
  have w2: "coherent (write_entry r (e1\<lparr>de_dstate := D_MODIFIED\<rparr>) s1)" if "length l = Suc 0" "hd l = p" "setOwner_entry p e = Some e1" for p e1
    using coherent_write(2) [OF o] entry_ok_upgrade [of e p e1] l ok that by simp
  have w3: "coherent (write_entry r (e\<lparr>de_dstate := D_MODIFIED\<rparr>) s2)" if "de_dstate e \<in> {D_MODIFIED, D_EXCLUSIVE}" "dd_cache s2 = dd_cache s1" for s2
    using coherent_write(2) [of a r e s2] o entry_ok_modified [OF ok(1) that(1)] ok that(2) by simp
  show ?thesis using assms(3) opened_coherent [OF o] unfolding processUpgradeReqFromL2Cache_def Let_def fr ea
    by (auto simp: bind_eq_Some_conv l split: dstate_t.splits if_splits list.splits dest!: dir_keeps
        elim!: coherent_retrieve [OF _ assms(2), rotated] intro: w1 w2 w3)
qed

lemma coherent_process_request: "coherent s \<Longrightarrow> a \<noteq> INVALID_ADDRESS \<Longrightarrow> process_request a t s = Some (s', nx) \<Longrightarrow> coherent s'"
  by (auto simp: process_request_def split: if_splits dest: coherent_processExReq coherent_processShReq coherent_processUpgradeReq)

lemma coherent_processNext: "coherent s \<Longrightarrow> a \<noteq> INVALID_ADDRESS \<Longrightarrow> processNextReqFromL2Cache a s = Some s' \<Longrightarrow> coherent s'"
proof (induction a s rule: processNextReqFromL2Cache.induct)
  case (1 a s)
  obtain nxt s1 where f: "finish_request a s = Some (nxt, s1)"
    using 1(4) by (subst (asm) processNextReqFromL2Cache.simps) (auto split: option.splits)
  have c1: "coherent s1" using 1(2) dir_kept(3) [OF f] by simp
  show ?case
  proof (cases nxt)
    case None
    then show ?thesis using 1(4) f c1 by (subst (asm) processNextReqFromL2Cache.simps) simp
  next
    case (Some req)
    let ?s = "s1\<lparr>dd_now := sr_time req\<rparr>" and ?t = "sm_type (sr_msg req)"
    obtain s2 nx where p: "process_request a ?t ?s = Some (s2, nx)" and r: "(if nx then processNextReqFromL2Cache a s2 else Some s2) = Some s'"
      using 1(4) f Some by (subst (asm) processNextReqFromL2Cache.simps) (auto split: option.splits)
    have c2: "coherent s2" by (rule coherent_process_request [OF _ 1(3) p]) (use c1 in simp)
    then show ?thesis using 1(1) [OF f refl Some p refl _ c2 1(3)] r by (cases nx) auto
  qed
qed

lemma coherent_process_next_if: "coherent (fst p) \<Longrightarrow> a \<noteq> INVALID_ADDRESS \<Longrightarrow> process_next_if a p = Some s' \<Longrightarrow> coherent s'"
  by (auto simp: process_next_if_def coherent_processNext split: if_splits)

lemma opened_sync_time: "opened a r e (dd_cache s) \<Longrightarrow> sync_time a s = Some (req, s') \<Longrightarrow> opened a r e (dd_cache s')"
  using dir_kept(2) by metis

lemmas coherent_requests = coherent_processExReq coherent_processShReq coherent_processUpgradeReq coherent_nullify(1)

lemma coherent_inv_resume:
  assumes "opened a r e (dd_cache s)" and "inv_resume sender a r e req s = Some p"
  shows "coherent (fst p)"
proof -
  have o: "coherent s" "a \<noteq> INVALID_ADDRESS" "entry_ok e" "de_address e = a" using assms(1) opened_ok [OF assms(1)] by (auto simp: opened_def)
  have w: "coherent (write_entry r (e\<lparr>de_dstate := D_UNCACHED\<rparr>) s)" if "getNumSharers e = 0"
    using coherent_write(2) [OF assms(1)] entry_ok_uncached [OF o(3) that] o(4) by simp
  show ?thesis using assms(2) o(1) w unfolding inv_resume_def Let_def
    by (cases p) (auto simp: bind_eq_Some_conv split: if_splits dest: coherent_requests [OF _ o(2)])
qed

lemma coherent_flush_resume:
  assumes "opened (sm_address m) r e (dd_cache s)" and "flush_resume m r e req s = Some p"
  shows "coherent (fst p)"
proof -
  have o: "coherent s" "sm_address m \<noteq> INVALID_ADDRESS" "entry_ok e" "de_address e = sm_address m" using assms(1) opened_ok [OF assms(1)] by (auto simp: opened_def)
  have w: "coherent (write_entry r (e\<lparr>de_dstate := D_UNCACHED\<rparr>) s)" if "getNumSharers e = 0"
    using coherent_write(2) [OF assms(1)] entry_ok_uncached [OF o(3) that] o(4) by simp
  have k: "coherent s1" if "sendDataToDram b q d s = Some s1" for b q d s1 using o(1) dir_kept_dram [OF that] by simp
  show ?thesis using assms(2) o(1) w unfolding flush_resume_def Let_def
    by (cases p) (auto simp: bind_eq_Some_conv split: if_splits dest!: k dest: coherent_requests [OF _ o(2)])
qed

text \<open>A reply from a cache: the entry changes, then the first request goes on.\<close>

lemma opened_reply:
  assumes "coherent s" and "a \<noteq> INVALID_ADDRESS" and "the_entry a s = Some (r, e, s1)"
    and "entry_ok e \<Longrightarrow> entry_ok e' \<and> de_address e' = de_address e"
  shows "opened a r e' (dd_cache (write_entry r e' s1))"
proof -
  note o = opened_the_entry [OF assms(1-3)]
  have "entry_ok e'" "de_address e' = a" using assms(4) [OF opened_ok [OF o]] o by (auto simp: opened_def)
  then show ?thesis using coherent_write(1) [OF o] by blast
qed

lemma coherent_processInvRep:
  assumes "coherent s" and "sm_address m \<noteq> INVALID_ADDRESS" and "processInvRepFromL2Cache sender m s = Some s'"
  shows "coherent s'"
proof -
  let ?a = "sm_address m"
  from assms(3) obtain r e e1 s1 where te: "the_entry ?a s = Some (r, e, s1)" and e1: "inv_entry sender e = Some e1"
    by (auto simp: processInvRepFromL2Cache_def Let_def bind_eq_Some_conv)
  note o = opened_reply [OF assms(1,2) te inv_entry_ok [OF _ e1]]
  show ?thesis using assms(3) te e1 opened_coherent [OF o]
    by (auto simp: processInvRepFromL2Cache_def Let_def bind_eq_Some_conv split: if_splits
        dest!: coherent_inv_resume [OF opened_sync_time [OF o], rotated] elim!: coherent_process_next_if [OF _ assms(2)])
qed

lemma coherent_processFlushRep:
  assumes "coherent s" and "sm_address m \<noteq> INVALID_ADDRESS" and "processFlushRepFromL2Cache sender m s = Some s'"
  shows "coherent s'"
proof -
  let ?a = "sm_address m"
  from assms(3) obtain r e e1 s1 where te: "the_entry ?a s = Some (r, e, s1)" and e1: "flush_entry sender e = Some e1"
    by (auto simp: processFlushRepFromL2Cache_def Let_def bind_eq_Some_conv)
  note o = opened_reply [OF assms(1,2) te flush_entry_ok [OF e1]]
  show ?thesis using assms(3) te e1 opened_coherent [OF o]
    by (auto simp: processFlushRepFromL2Cache_def Let_def bind_eq_Some_conv split: if_splits
        dest!: coherent_flush_resume [OF opened_sync_time [OF o], rotated] dir_kept_dram elim!: coherent_process_next_if [OF _ assms(2)])
qed

lemma coherent_processWbRep:
  assumes "coherent s" and "sm_address m \<noteq> INVALID_ADDRESS" and "processWbRepFromL2Cache sender m s = Some s'"
  shows "coherent s'"
proof -
  let ?a = "sm_address m"
  from assms(3) obtain r e e1 s1 req s2 s3 nx where te: "the_entry ?a s = Some (r, e, s1)" and e1: "wb_entry sender e = Some e1"
    and st: "sync_time ?a (write_entry r e1 s1) = Some (req, s2)" and sh: "processShReqFromL2Cache ?a (sm_data m) s2 = Some (s3, nx)"
    and nx: "process_next_if ?a (s3, nx) = Some s'"
    by (auto simp: processWbRepFromL2Cache_def Let_def bind_eq_Some_conv split: if_splits)
  have "coherent s2" by (rule opened_coherent [OF opened_sync_time [OF opened_reply [OF assms(1,2) te wb_entry_ok [OF e1]] st]])
  then have "coherent (fst (s3, nx))" using coherent_processShReq [OF _ assms(2) sh] by simp
  then show ?thesis by (rule coherent_process_next_if [OF _ assms(2) nx])
qed

lemma coherent_processDRAMReply:
  assumes "coherent s" and "sm_address m \<noteq> INVALID_ADDRESS" and "processDRAMReply sender m s = Some s'"
  shows "coherent s'"
proof -
  let ?a = "sm_address m"
  from assms(3) obtain r e s1 s2 where te: "the_entry ?a s = Some (r, e, s1)" and k: "dd_cache s2 = dd_cache s1" and nx: "processNextReqFromL2Cache ?a s2 = Some s'"
    by (auto simp: processDRAMReply_def Let_def bind_eq_Some_conv dest!: dir_keeps)
  have "coherent s2" using opened_coherent [OF opened_the_entry [OF assms(1,2) te]] k by simp
  then show ?thesis by (rule coherent_processNext [OF _ assms(2) nx])
qed

lemma coherent_handleMsg:
  assumes "coherent s" and "sm_address m \<noteq> INVALID_ADDRESS" and "handleMsgFromL2Cache sender m s = Some s'"
  shows "coherent s'"
proof -
  let ?a = "sm_address m"
  from assms(3) obtain ro s1 where lk: "lookup_entry ?a True s = Some (ro, s1)"
    by (auto simp: handleMsgFromL2Cache_def Let_def bind_eq_Some_conv)
  have c1: "coherent s1" by (rule coherent_lookup_entry(1) [OF assms(1,2) lk])
  have "coherent s'" if "process_request ?a t (s1\<lparr>dd_queues := q\<rparr>) = Some p" "process_next_if ?a p = Some s'" for t q p
    using coherent_process_next_if [OF _ assms(2) that(2)] coherent_process_request [of "s1\<lparr>dd_queues := q\<rparr>" ?a t "fst p" "snd p"] that(1) c1 assms(2) by simp
  then show ?thesis using assms(3) lk c1
    by (auto simp: handleMsgFromL2Cache_def Let_def bind_eq_Some_conv split: if_splits
        dest: coherent_processInvRep [OF _ assms(2)] coherent_processFlushRep [OF _ assms(2)] coherent_processWbRep [OF _ assms(2)])
qed

lemma coherent_step: "coherent s \<Longrightarrow> sm_address m \<noteq> INVALID_ADDRESS \<Longrightarrow> handleMsgFromNetwork sender t m s = Some s' \<Longrightarrow> coherent s'"
  by (auto simp: handleMsgFromNetwork_def handleMsgFromDRAM_def Let_def split: if_splits intro: coherent_handleMsg [rotated 2] coherent_processDRAMReply [rotated 2])

lemma coherent_run: "dir_run s0 ms s \<Longrightarrow> coherent s0 \<Longrightarrow> coherent s"
  by (induction rule: dir_run.induct) (auto dest: coherent_step)

end
