(* ===== verification/Sniper_Grant.thy ===== *)
theory Sniper_Grant
  imports Sniper_Order Sniper_Owner
begin

text \<open>
  What an answer promises: a core that gets a line exclusively is, when the message has been handled, its only sharer
  and the owner; a core that gets it shared is a sharer.
\<close>

definition replies :: "DramDirectoryCntlr \<Rightarrow> packet list" where
  "replies s = filter is_reply (dd_sent s)"

definition owned :: "DirectoryEntry \<Rightarrow> bool" where
  "owned e \<longleftrightarrow> de_dstate e = D_MODIFIED \<or> de_dstate e = D_EXCLUSIVE"

definition reply_fits :: "packet \<Rightarrow> DirectoryEntry \<Rightarrow> bool" where
  "reply_fits p e \<longleftrightarrow> (case pk_receiver p of
      None \<Rightarrow> False
    | Some i \<Rightarrow> i \<in> sharers e \<and> (sm_type (pk_msg p) \<noteq> SH_REP \<longrightarrow> owned e \<and> sharers e = {i}))"

definition granted :: "u64 \<Rightarrow> DramDirectoryCntlr \<Rightarrow> DramDirectoryCntlr \<Rightarrow> bool" where
  "granted a s s' \<longleftrightarrow> (\<exists>ps. replies s' = replies s @ ps
     \<and> (\<forall>p \<in> set ps. sm_address (pk_msg p) = a \<and> (\<exists>e. dir_map (dd_cache s') a = Some e \<and> reply_fits p e)))"

text \<open>While requests are processed, the entry of the address only gains sharers, and keeps an owner.\<close>

definition evolves :: "DirectoryEntry \<Rightarrow> DirectoryEntry \<Rightarrow> bool" where
  "evolves e e' \<longleftrightarrow> sharers e \<subseteq> sharers e' \<and> (owned e \<longrightarrow> owned e' \<and> sharers e' = sharers e)"

definition grants_step :: "u64 \<Rightarrow> DramDirectoryCntlr \<Rightarrow> DramDirectoryCntlr \<Rightarrow> bool" where
  "grants_step a s s' \<longleftrightarrow> granted a s s' \<and> (\<forall>e. dir_map (dd_cache s) a = Some e \<longrightarrow> (\<exists>e'. dir_map (dd_cache s') a = Some e' \<and> evolves e e'))"

lemma evolves_refl [simp]: "evolves e e"
  by (simp add: evolves_def)

lemma evolves_trans: "evolves e e' \<Longrightarrow> evolves e' e'' \<Longrightarrow> evolves e e''"
  by (auto simp: evolves_def)

lemma evolves_fits: "evolves e e' \<Longrightarrow> reply_fits p e \<Longrightarrow> reply_fits p e'"
  by (auto simp: evolves_def reply_fits_def split: option.splits)

lemma grants_step_trans:
  assumes "grants_step a s s'" and "grants_step a s' s''"
  shows "grants_step a s s''"
proof -
  from assms obtain ps ps' where p: "replies s' = replies s @ ps" "replies s'' = replies s' @ ps'"
    and f: "\<And>p. p \<in> set ps \<Longrightarrow> sm_address (pk_msg p) = a \<and> (\<exists>e. dir_map (dd_cache s') a = Some e \<and> reply_fits p e)"
    "\<And>p. p \<in> set ps' \<Longrightarrow> sm_address (pk_msg p) = a \<and> (\<exists>e. dir_map (dd_cache s'') a = Some e \<and> reply_fits p e)"
    by (auto simp: grants_step_def granted_def)
  have ev: "\<And>e. dir_map (dd_cache s) a = Some e \<Longrightarrow> \<exists>e'. dir_map (dd_cache s') a = Some e' \<and> evolves e e'"
    "\<And>e. dir_map (dd_cache s') a = Some e \<Longrightarrow> \<exists>e'. dir_map (dd_cache s'') a = Some e' \<and> evolves e e'"
    using assms by (auto simp: grants_step_def)
  have "sm_address (pk_msg p) = a \<and> (\<exists>e. dir_map (dd_cache s'') a = Some e \<and> reply_fits p e)" if "p \<in> set (ps @ ps')" for p
    using that f ev(2) evolves_fits by (auto; fastforce)
  then have "granted a s s''" unfolding granted_def using p by (intro exI [of _ "ps @ ps'"]) simp
  moreover have "\<exists>e'. dir_map (dd_cache s'') a = Some e' \<and> evolves e e'" if "dir_map (dd_cache s) a = Some e" for e
    using ev that evolves_trans by blast
  ultimately show ?thesis by (simp add: grants_step_def)
qed

lemma grants_step_silent: "replies s' = replies s \<Longrightarrow> dd_cache s' = dd_cache s \<Longrightarrow> grants_step a s s'"
  by (simp add: grants_step_def granted_def)

lemma grants_step_refl [simp]: "grants_step a s s"
  by (simp add: grants_step_silent)

lemma quiet_replies: "quiet s s' \<Longrightarrow> replies s' = replies s"
  by (auto simp: quiet_def replies_def)

lemma grants_step_quiet: "quiet s s' \<Longrightarrow> dd_cache s' = dd_cache s \<Longrightarrow> grants_step a s s'"
  by (simp add: grants_step_silent quiet_replies)

lemma replies_write_entry [simp]: "replies (write_entry r e s) = replies s"
  by (simp add: replies_def write_entry_def)

lemma grants_step_write:
  assumes "opened a r e (dd_cache s)" and "de_address e' = a" and "entry_ok e'" and "evolves e e'"
  shows "grants_step a s (write_entry r e' s)"
proof -
  have "dir_map (dd_cache (write_entry r e' s)) = (dir_map (dd_cache s))(a \<mapsto> e')" using opened_set(2) [OF assms(1-3)] by (simp add: write_entry_def)
  then show ?thesis using opened_map [OF assms(1)] assms(4) by (simp add: grants_step_def granted_def)
qed

lemma grants_step_lookup:
  assumes "coherent s" and "a \<noteq> INVALID_ADDRESS" and "lookup_entry a m s = Some (ro, s')"
  shows "grants_step a s s'"
proof -
  from assms(3) obtain now where g: "getDirectoryEntry a m (dd_cache s) (dd_now s) = Some (ro, dd_cache s', now)"
    by (auto simp: lookup_entry_def bind_eq_Some_conv)
  have "dir_inv (dd_cache s)" using assms(1) by (simp add: coherent_cache_def)
  note sp = getDirectoryEntry_spec [OF this assms(2) g]
  have "\<exists>e'. dir_map (dd_cache s') a = Some e' \<and> evolves e e'" if "dir_map (dd_cache s) a = Some e" for e
    using that sp(3,4) by (cases ro) auto
  then show ?thesis using quiet_replies [OF quiet_lookup_entry [OF assms(3)]] by (simp add: grants_step_def granted_def)
qed

lemma grants_step_the_entry: "coherent s \<Longrightarrow> a \<noteq> INVALID_ADDRESS \<Longrightarrow> the_entry a s = Some (r, e, s') \<Longrightarrow> grants_step a s s'"
  by (auto simp: the_entry_def bind_eq_Some_conv dest: grants_step_lookup)

lemma replies_nullify_replaced: "nullify_replaced b p t s = Some s' \<Longrightarrow> replies s' = replies s"
  unfolding nullify_replaced_def Let_def finish_request_def
  by (auto simp: bind_eq_Some_conv replies_def split: if_splits dest!: quiet_processNullifyReq quiet_replies)

lemma replies_allocation: "processDirectoryEntryAllocationReq a s = Some (r, s') \<Longrightarrow> replies s' = replies s"
  unfolding processDirectoryEntryAllocationReq_def Let_def
  by (auto simp: bind_eq_Some_conv replies_def dest!: replies_nullify_replaced)

lemma grants_step_entry_or_allocate:
  assumes "coherent s" and "a \<noteq> INVALID_ADDRESS" and "entry_or_allocate a s = Some (r, e, s')"
  shows "grants_step a s s'"
proof -
  from assms(3) obtain ro s1 where l: "lookup_entry a False s = Some (ro, s1)"
    and c: "(case ro of Some r \<Rightarrow> Some (r, s1) | None \<Rightarrow> processDirectoryEntryAllocationReq a s1) = Some (r, s')"
    by (auto simp: entry_or_allocate_def bind_eq_Some_conv simp del: deref.simps)
  note sl = grants_step_lookup [OF assms(1,2) l]
  show ?thesis
  proof (cases ro)
    case None
    from l obtain now where g: "getDirectoryEntry a False (dd_cache s) (dd_now s) = Some (ro, dd_cache s1, now)"
      by (auto simp: lookup_entry_def bind_eq_Some_conv)
    have "dir_inv (dd_cache s)" using assms(1) by (simp add: coherent_cache_def)
    then have "dir_map (dd_cache s1) a = None" using getDirectoryEntry_spec(3) [OF _ assms(2) g None] by simp
    moreover have "replies s' = replies s1" using c None replies_allocation by simp
    ultimately have "grants_step a s1 s'" by (simp add: grants_step_def granted_def)
    then show ?thesis by (rule grants_step_trans [OF sl])
  next
    case (Some r')
    then show ?thesis using sl c by simp
  qed
qed

lemma grants_step_reply:
  assumes "sendMsg t L2_CACHE p p a d l w s = Some s'" and "dir_map (dd_cache s) a = Some e" and "p \<in> sharers e" and "t \<noteq> SH_REP \<Longrightarrow> owned e \<and> sharers e = {p}"
  shows "grants_step a s s'"
  using assms by (auto simp: sendMsg_def grants_step_def granted_def replies_def reply_fits_def ShmemMsg_new_def split: if_splits)

lemma grants_step_retrieve:
  assumes "coherent s" and "a \<noteq> INVALID_ADDRESS" and "retrieveDataAndSendToL2Cache t p a d s = Some (s', nx)"
    and "dir_map (dd_cache s) a = Some e" and "p \<in> sharers e" and "t \<noteq> SH_REP \<Longrightarrow> owned e \<and> sharers e = {p}"
  shows "grants_step a s s'"
proof -
  from assms(3) obtain r e1 s1 where te: "the_entry a s = Some (r, e1, s1)" by (auto simp: retrieveDataAndSendToL2Cache_def bind_eq_Some_conv)
  note o = opened_the_entry [OF assms(1,2) te]
  note st = grants_step_the_entry [OF assms(1,2) te]
  have ev: "evolves e e1" using st assms(4) opened_map [OF o] by (auto simp: grants_step_def)
  then have e1: "p \<in> sharers e1" "t \<noteq> SH_REP \<Longrightarrow> owned e1 \<and> sharers e1 = {p}" using assms(5,6) by (auto simp: evolves_def)
  show ?thesis
  proof (cases d)
    case (Some x)
    let ?e = "e1\<lparr>de_forwarder := p\<rparr>"
    have "sendMsg t L2_CACHE p p a (Some x) (dd_cache_block_size s1) CACHE_REMOTE (write_entry r ?e s1) = Some s'"
      using assms(3) te Some by (auto simp: retrieveDataAndSendToL2Cache_def bind_eq_Some_conv)
    moreover have ok: "entry_ok ?e" "de_address ?e = a" "evolves e1 ?e" using opened_ok [OF o] o by (auto simp: opened_def evolves_def owned_def)
    moreover have "dir_map (dd_cache (write_entry r ?e s1)) a = Some ?e" by (rule opened_map [OF coherent_write(1) [OF o ok(2,1)]])
    ultimately have "grants_step a (write_entry r ?e s1) s'" using grants_step_reply e1 by (fastforce simp: owned_def)
    then show ?thesis using grants_step_trans [OF st] grants_step_trans [OF grants_step_write [OF o ok(2,1,3)]] by blast
  next
    case None
    then obtain hit s2 where h: "nuca_lookup a s1 = Some (hit, s2)" using assms(3) te by (auto simp: retrieveDataAndSendToL2Cache_def bind_eq_Some_conv)
    have s2: "grants_step a s1 s2" by (rule grants_step_quiet [OF quiet_nuca_lookup [OF h] dir_kept(4) [OF h]])
    have m: "dir_map (dd_cache s2) a = Some e1" using opened_map [OF o] dir_kept(4) [OF h] by simp
    have "grants_step a s2 s'"
    proof (cases hit)
      case (Some x)
      then have "sendMsg t L2_CACHE p p a (Some x) (dd_cache_block_size s2) NUCA_CACHE s2 = Some s'"
        using assms(3) te None h by (auto simp: retrieveDataAndSendToL2Cache_def bind_eq_Some_conv)
      then show ?thesis using grants_step_reply [OF _ m e1] by blast
    next
      case hn: None
      then have rd: "request_data p a e1 s2 = Some s'" using assms(3) te None h by (auto simp: retrieveDataAndSendToL2Cache_def bind_eq_Some_conv)
      then have "replies s' = replies s2"
        by (auto simp: request_data_def bind_eq_Some_conv replies_def split: if_splits dest!: quiet_sendMsg [THEN quiet_replies])
      then show ?thesis by (rule grants_step_silent) (rule dir_kept_data(2) [OF rd])
    qed
    then show ?thesis using grants_step_trans st s2 by blast
  qed
qed

text \<open>An entry that gets its first sharer, which may be its owner.\<close>

lemma first_sharer:
  assumes "opened a r e (dd_cache s)" and "de_dstate e = D_UNCACHED" and "addSharer p n e = Some (True, e1)" and "setOwner_entry p e1 = Some e2"
    and "st \<in> {D_MODIFIED, D_EXCLUSIVE, D_SHARED}" and "t \<noteq> SH_REP \<Longrightarrow> st \<noteq> D_SHARED"
    and "retrieveDataAndSendToL2Cache t p a d (write_entry r (e2\<lparr>de_dstate := st\<rparr>) s) = Some (s', nx)"
  shows "grants_step a s s'"
proof -
  let ?e = "e2\<lparr>de_dstate := st\<rparr>"
  have n: "sharers e = {}" by (rule uncached_sharers [OF assms(1,2)])
  have a: "de_address e = a" "a \<noteq> INVALID_ADDRESS" using assms(1) by (auto simp: opened_def)
  have e1: "sharers e1 = {p}" using addSharer_True [OF assms(3)] n by simp
  have sh: "sharers ?e = {p}" using e1 setOwner_spec [OF assms(4)] by simp
  have ok: "entry_ok ?e" "de_address ?e = a" using entry_ok_owner [OF n assms(3,4,5)] a by auto
  have ev: "evolves e ?e" using n assms(2) by (simp add: evolves_def owned_def)
  have ow: "t \<noteq> SH_REP \<Longrightarrow> owned ?e" using assms(5,6) by (auto simp: owned_def)
  note cw = coherent_write [OF assms(1) ok(2,1)]
  have "grants_step a (write_entry r ?e s) s'"
    by (rule grants_step_retrieve [OF cw(2) a(2) assms(7) opened_map [OF cw(1)]]) (use sh ow in auto)
  then show ?thesis by (rule grants_step_trans [OF grants_step_write [OF assms(1) ok(2,1) ev]])
qed

lemma grants_step_message: "sendMsg t rc p i a d l w s = Some s' \<Longrightarrow> t \<notin> {EX_REP, SH_REP, UPGRADE_REP} \<Longrightarrow> grants_step b s s'"
  by (rule grants_step_quiet [OF quiet_sendMsg dir_kept(1)])

lemma grants_step_invalidate: "invalidate_sharers e p a s = Some s' \<Longrightarrow> grants_step b s s'"
  by (rule grants_step_quiet [OF quiet_invalidate_sharers dir_kept_data(1)])

lemma grants_step_send_all: "send_all (filter P (zip l (t # replicate n INV_REQ))) p a s = Some s' \<Longrightarrow> t \<in> {INV_REQ, FLUSH_REQ} \<Longrightarrow> grants_step b s s'"
  by (rule grants_step_quiet [OF quiet_send_all dir_kept_send_all]) (auto dest!: set_zip_rightD)

lemmas grants_step_sends = grants_step_message grants_step_invalidate grants_step_send_all

lemma grants_step_processExReq:
  assumes "coherent s" and "a \<noteq> INVALID_ADDRESS" and "processExReqFromL2Cache a d s = Some (s', nx)"
  shows "grants_step a s s'"
proof -
  obtain req r s1 and e :: DirectoryEntry where fr: "front a (dd_queues s) = Some req" and ea: "entry_or_allocate a s = Some (r, e, s1)"
    by (rule processReq_front [of a d s]) (use assms(3) in auto)
  note o = opened_entry_or_allocate [OF assms(1,2) ea]
  have "grants_step a s1 s'" using assms(3) unfolding processExReqFromL2Cache_def Let_def fr ea
    by (auto simp: bind_eq_Some_conv split: dstate_t.splits if_splits elim!: grants_step_sends elim: first_sharer [OF o, where st = D_MODIFIED, rotated -1])
  then show ?thesis by (rule grants_step_trans [OF grants_step_entry_or_allocate [OF assms(1,2) ea]])
qed

text \<open>A further sharer of a shared line.\<close>

lemma next_sharer:
  assumes "opened a r e (dd_cache s)" and "de_dstate e = D_SHARED" and "addSharer p n e = Some (True, e1)"
    and "retrieveDataAndSendToL2Cache SH_REP p a d (write_entry r e1 s) = Some (s', nx)"
  shows "grants_step a s s'"
proof -
  have a: "de_address e = a" "a \<noteq> INVALID_ADDRESS" using assms(1) by (auto simp: opened_def)
  have ok: "entry_ok e1" "de_address e1 = a" using entry_ok_reader [OF opened_ok [OF assms(1)] assms(2,3)] a by auto
  have sh: "sharers e1 = insert p (sharers e)" using addSharer_True [OF assms(3)] by simp
  have ev: "evolves e e1" using sh assms(2) by (auto simp: evolves_def owned_def)
  note cw = coherent_write [OF assms(1) ok(2,1)]
  have "grants_step a (write_entry r e1 s) s'"
    by (rule grants_step_retrieve [OF cw(2) a(2) assms(4) opened_map [OF cw(1)]]) (use sh in auto)
  then show ?thesis by (rule grants_step_trans [OF grants_step_write [OF assms(1) ok(2,1) ev]])
qed

lemma known_sharer:
  assumes "opened a r e (dd_cache s)" and "hasSharer p e = Some True"
    and "retrieveDataAndSendToL2Cache SH_REP p a d (s\<lparr>dd_forward := x, dd_forward_failed := y\<rparr>) = Some (s', nx)"
  shows "grants_step a s s'"
proof -
  let ?s = "s\<lparr>dd_forward := x, dd_forward_failed := y\<rparr>"
  have a: "a \<noteq> INVALID_ADDRESS" "coherent ?s" using assms(1) by (auto simp: opened_def)
  have "grants_step a ?s s'"
    by (rule grants_step_retrieve [OF a(2,1) assms(3), of e]) (use opened_map [OF assms(1)] hasSharer_iff [OF assms(2)] in auto)
  then show ?thesis by (rule grants_step_trans [OF grants_step_silent, rotated -1]) (simp_all add: replies_def)
qed

lemma one_sharer_out:
  assumes "opened a r e (dd_cache s)" and "addSharer p n e = Some (False, e1)" and "getOneSharer e1 = Some (i, e2)"
    and "sendMsg INV_REQ L2_CACHE p i a None 0 UNKNOWN (write_entry r e2 s) = Some s'"
  shows "grants_step a s s'"
proof -
  have a: "de_address e = a" using assms(1) by (auto simp: opened_def)
  have e1: "e1 = e" by (rule addSharer_False [OF assms(2)])
  note g = getOneSharer_spec [OF assms(3)[unfolded e1]]
  have ok: "entry_ok e2" "de_address e2 = a" using entry_ok_one_sharer [OF opened_ok [OF assms(1)] assms(3)[unfolded e1]] a by auto
  have "evolves e e2" using g by (auto simp: evolves_def owned_def same_line_def)
  then show ?thesis using grants_step_trans [OF grants_step_write [OF assms(1) ok(2,1)] grants_step_message [OF assms(4)]] by simp
qed

lemma grants_step_processShReq:
  assumes "coherent s" and "a \<noteq> INVALID_ADDRESS" and "processShReqFromL2Cache a d s = Some (s', nx)"
  shows "grants_step a s s'"
proof -
  obtain req r s1 and e :: DirectoryEntry where fr: "front a (dd_queues s) = Some req" and ea: "entry_or_allocate a s = Some (r, e, s1)"
    by (rule processReq_front [of a d s]) (use assms(3) in auto)
  note o = opened_entry_or_allocate [OF assms(1,2) ea]
  have "grants_step a s1 s'"
  proof (cases "de_dstate e")
    case D_SHARED
    then obtain has where h: "hasSharer (sm_requester (sr_msg req)) e = Some has"
      using assms(3) by (auto simp: processShReqFromL2Cache_def Let_def fr ea bind_eq_Some_conv)
    show ?thesis
    proof (cases has)
      case True
      then have "retrieveDataAndSendToL2Cache SH_REP (sm_requester (sr_msg req)) a d
        (s1\<lparr>dd_forward := dd_forward s1 + 1, dd_forward_failed := dd_forward_failed s1 + (if d = None then 1 else 0)\<rparr>) = Some (s', nx)"
        using assms(3) D_SHARED h by (simp add: processShReqFromL2Cache_def Let_def fr ea)
      then show ?thesis by (rule known_sharer [OF o, rotated]) (use h True in simp)
    next
      case False
      then show ?thesis using assms(3) D_SHARED h
        by (auto simp: processShReqFromL2Cache_def Let_def fr ea bind_eq_Some_conv split: if_splits
            elim: next_sharer [OF o D_SHARED] one_sharer_out [OF o])
    qed
  next
    case D_UNCACHED
    then show ?thesis using assms(3)
      by (auto simp: processShReqFromL2Cache_def Let_def fr ea bind_eq_Some_conv split: if_splits
          elim: first_sharer [OF o D_UNCACHED, where st = D_SHARED, rotated -1] first_sharer [OF o D_UNCACHED, where st = D_EXCLUSIVE, rotated -1])
  qed (use assms(3) in \<open>auto simp: processShReqFromL2Cache_def Let_def fr ea bind_eq_Some_conv split: if_splits elim!: grants_step_sends\<close>)
  then show ?thesis by (rule grants_step_trans [OF grants_step_entry_or_allocate [OF assms(1,2) ea]])
qed

lemma sole_sharer_upgrade:
  assumes "opened a r e (dd_cache s)" and "getSharersList e = (b, l)" "length l = Suc 0" "hd l = p" and "setOwner_entry p e = Some e1"
    and "sendMsg UPGRADE_REP L2_CACHE p p a None 0 UNKNOWN (write_entry r (e1\<lparr>de_dstate := D_MODIFIED\<rparr>) s) = Some s'"
  shows "grants_step a s s'"
proof -
  let ?e = "e1\<lparr>de_dstate := D_MODIFIED\<rparr>"
  have a: "de_address e = a" using assms(1) by (auto simp: opened_def)
  have ok: "entry_ok ?e" "de_address ?e = a" using entry_ok_upgrade [of e p e1] assms(2-5) a by auto
  have "l = [p]" using assms(3,4) by (cases l) auto
  then have "sharers e = {p}" using sharers_list(1) [of e] assms(2) by simp
  then have sh: "sharers ?e = {p}" "evolves e ?e" using setOwner_spec [OF assms(5)] by (auto simp: evolves_def owned_def)
  have "grants_step a (write_entry r ?e s) s'"
    by (rule grants_step_reply [OF assms(6) opened_map [OF coherent_write(1) [OF assms(1) ok(2,1)]]]) (use sh in \<open>auto simp: owned_def\<close>)
  then show ?thesis by (rule grants_step_trans [OF grants_step_write [OF assms(1) ok(2,1) sh(2)]])
qed

lemma owner_upgrade:
  assumes o: "opened a r e (dd_cache s)" and st: "de_dstate e \<in> {D_MODIFIED, D_EXCLUSIVE}" "de_owner e = p"
    and m: "sendMsg UPGRADE_REP L2_CACHE p p a None 0 UNKNOWN s = Some s1"
  shows "grants_step a s (write_entry r (e\<lparr>de_dstate := D_MODIFIED\<rparr>) s1)"
proof -
  let ?e = "e\<lparr>de_dstate := D_MODIFIED\<rparr>"
  have sh: "owned e" "sharers e = {p}" using opened_ok [OF o] st by (auto simp: entry_ok_def owned_def)
  have o1: "opened a r e (dd_cache s1)" using o dir_kept(1) [OF m] by simp
  have "grants_step a s s1" by (rule grants_step_reply [OF m opened_map [OF o]]) (use sh in auto)
  moreover have "grants_step a s1 (write_entry r ?e s1)"
    by (rule grants_step_write [OF o1]) (use o entry_ok_modified [OF opened_ok [OF o] st(1)] in \<open>auto simp: opened_def evolves_def owned_def\<close>)
  ultimately show ?thesis by (rule grants_step_trans)
qed

lemma grants_step_processUpgradeReq:
  assumes "coherent s" and "a \<noteq> INVALID_ADDRESS" and "processUpgradeReqFromL2Cache a d s = Some (s', nx)"
  shows "grants_step a s s'"
proof -
  obtain req r s1 and e :: DirectoryEntry where fr: "front a (dd_queues s) = Some req" and ea: "entry_or_allocate a s = Some (r, e, s1)"
    by (rule processReq_front [of a d s]) (use assms(3) in auto)
  obtain l where l: "getSharersList e = (False, l)" by (simp add: getSharersList_def)
  note o = opened_entry_or_allocate [OF assms(1,2) ea]
  have "grants_step a s1 s'" using assms(3) unfolding processUpgradeReqFromL2Cache_def Let_def fr ea
    by (auto simp: bind_eq_Some_conv l split: dstate_t.splits if_splits list.splits elim!: grants_step_sends
        elim: first_sharer [OF o, where st = D_MODIFIED, rotated -1] sole_sharer_upgrade [OF o l] intro: owner_upgrade [OF o])
  then show ?thesis by (rule grants_step_trans [OF grants_step_entry_or_allocate [OF assms(1,2) ea]])
qed

lemma grants_step_process_request: "coherent s \<Longrightarrow> a \<noteq> INVALID_ADDRESS \<Longrightarrow> process_request a t s = Some (s', nx) \<Longrightarrow> grants_step a s s'"
  by (auto simp: process_request_def split: if_splits dest: grants_step_processExReq grants_step_processShReq grants_step_processUpgradeReq)

lemma grants_step_finish: "finish_request a s = Some (nxt, s') \<Longrightarrow> grants_step b s s'"
  by (rule grants_step_silent [OF _ dir_kept(3)]) (auto simp: finish_request_def replies_def bind_eq_Some_conv)

lemma grants_step_processNext: "coherent s \<Longrightarrow> a \<noteq> INVALID_ADDRESS \<Longrightarrow> processNextReqFromL2Cache a s = Some s' \<Longrightarrow> grants_step a s s'"
proof (induction a s rule: processNextReqFromL2Cache.induct)
  case (1 a s)
  obtain nxt s1 where f: "finish_request a s = Some (nxt, s1)"
    using 1(4) by (subst (asm) processNextReqFromL2Cache.simps) (auto split: option.splits)
  have c1: "coherent s1" using 1(2) dir_kept(3) [OF f] by simp
  note sf = grants_step_finish [OF f, of a]
  show ?case
  proof (cases nxt)
    case None
    then show ?thesis using 1(4) f sf by (subst (asm) processNextReqFromL2Cache.simps) simp
  next
    case (Some req)
    let ?s = "s1\<lparr>dd_now := sr_time req\<rparr>" and ?t = "sm_type (sr_msg req)"
    obtain s2 nx where p: "process_request a ?t ?s = Some (s2, nx)" and r: "(if nx then processNextReqFromL2Cache a s2 else Some s2) = Some s'"
      using 1(4) f Some by (subst (asm) processNextReqFromL2Cache.simps) (auto split: option.splits)
    have cs: "coherent ?s" using c1 by simp
    have c2: "coherent s2" by (rule coherent_process_request [OF cs 1(3) p])
    have "grants_step a s1 ?s" by (rule grants_step_silent) (simp_all add: replies_def)
    then have "grants_step a s s2" using grants_step_process_request [OF cs 1(3) p] sf grants_step_trans by blast
    then show ?thesis using 1(1) [OF f refl Some p refl _ c2 1(3)] r grants_step_trans by (cases nx) auto
  qed
qed

lemma grants_step_next_if:
  assumes "grants_step a s (fst p)" and "coherent (fst p)" and "a \<noteq> INVALID_ADDRESS" and "process_next_if a p = Some s'"
  shows "grants_step a s s'"
  using assms grants_step_trans grants_step_processNext by (auto simp: process_next_if_def split: if_splits)

text \<open>The first request goes on after a reply from a cache; a request to nullify answers nobody.\<close>

lemma granted_replies: "replies s1 = replies s \<Longrightarrow> granted a s1 s' \<Longrightarrow> granted a s s'"
  by (simp add: granted_def)

lemma grants_step_granted: "grants_step a s s' \<Longrightarrow> granted a s s'"
  by (simp add: grants_step_def)

lemma resumed_granted:
  assumes "grants_step a s (fst p) \<or> replies (fst p) = replies s" and "coherent (fst p)" and "a \<noteq> INVALID_ADDRESS" and "process_next_if a p = Some s'"
  shows "granted a s s'"
  using assms(1)
proof
  assume "grants_step a s (fst p)"
  then show ?thesis by (rule grants_step_granted [OF grants_step_next_if [OF _ assms(2-4)]])
next
  assume "replies (fst p) = replies s"
  then show ?thesis by (rule granted_replies [OF _ grants_step_granted [OF grants_step_next_if [OF grants_step_refl assms(2-4)]]])
qed

lemma grants_step_uncached:
  assumes "opened a r e (dd_cache s)" and "getNumSharers e = 0"
  shows "grants_step a s (write_entry r (e\<lparr>de_dstate := D_UNCACHED\<rparr>) s)"
proof -
  have "entry_ok e" "sharers e = {}" using opened_ok [OF assms(1)] assms(2) no_sharers by auto
  then have "\<not> owned e" by (auto simp: owned_def entry_ok_def)
  then have "evolves e (e\<lparr>de_dstate := D_UNCACHED\<rparr>)" by (simp add: evolves_def)
  then show ?thesis using grants_step_write [OF assms(1)] entry_ok_uncached [OF opened_ok [OF assms(1)] assms(2)] assms(1) by (simp add: opened_def)
qed

lemma grants_step_requests:
  "coherent s \<Longrightarrow> a \<noteq> INVALID_ADDRESS \<Longrightarrow> processExReqFromL2Cache a d s = Some p \<Longrightarrow> grants_step a s (fst p)"
  "coherent s \<Longrightarrow> a \<noteq> INVALID_ADDRESS \<Longrightarrow> processShReqFromL2Cache a d s = Some p \<Longrightarrow> grants_step a s (fst p)"
  "coherent s \<Longrightarrow> a \<noteq> INVALID_ADDRESS \<Longrightarrow> processUpgradeReqFromL2Cache a d s = Some p \<Longrightarrow> grants_step a s (fst p)"
  "coherent s \<Longrightarrow> a \<noteq> INVALID_ADDRESS \<Longrightarrow> process_request a t s = Some p \<Longrightarrow> grants_step a s (fst p)"
  by (cases p; simp add: grants_step_processExReq grants_step_processShReq grants_step_processUpgradeReq grants_step_process_request)+

lemma replies_processNullify: "processNullifyReq a s = Some p \<Longrightarrow> replies (fst p) = replies s"
  by (cases p) (auto dest: quiet_processNullifyReq quiet_replies)

lemma grants_step_inv_resume:
  assumes "opened a r e (dd_cache s)" and "inv_resume sender a r e req s = Some p"
  shows "grants_step a s (fst p) \<or> replies (fst p) = replies s"
proof -
  have c: "coherent s" "a \<noteq> INVALID_ADDRESS" using assms(1) by (auto simp: opened_def)
  have w: "coherent (write_entry r (e\<lparr>de_dstate := D_UNCACHED\<rparr>) s)" if "getNumSharers e = 0"
    using coherent_write(2) [OF assms(1)] entry_ok_uncached [OF opened_ok [OF assms(1)] that] assms(1) by (simp add: opened_def)
  show ?thesis using assms(2) c unfolding inv_resume_def Let_def
    by (auto simp: bind_eq_Some_conv split: if_splits dest: grants_step_requests replies_processNullify
        intro: grants_step_trans [OF grants_step_uncached [OF assms(1)] grants_step_requests(3) [OF w c(2)]])
qed

lemma grants_step_dram: "sendDataToDram a p d s = Some s' \<Longrightarrow> grants_step b s s'"
  by (rule grants_step_quiet [OF quiet_sendDataToDram dir_kept_dram])

lemma grants_step_flush_resume:
  assumes "opened (sm_address m) r e (dd_cache s)" and "flush_resume m r e req s = Some p"
  shows "grants_step (sm_address m) s (fst p) \<or> replies (fst p) = replies s"
proof -
  let ?a = "sm_address m"
  have c: "coherent s" "?a \<noteq> INVALID_ADDRESS" using assms(1) by (auto simp: opened_def)
  have w: "coherent (write_entry r (e\<lparr>de_dstate := D_UNCACHED\<rparr>) s)" if "getNumSharers e = 0"
    using coherent_write(2) [OF assms(1)] entry_ok_uncached [OF opened_ok [OF assms(1)] that] assms(1) by (simp add: opened_def)
  have k: "coherent s1 \<and> grants_step ?a s s1 \<and> replies s1 = replies s" if "sendDataToDram b q d s = Some s1" for b q d s1
    using c dir_kept_dram [OF that] grants_step_dram [OF that] quiet_replies [OF quiet_sendDataToDram [OF that]] by simp
  consider (ex) "sm_type (sr_msg req) = EX_REQ" | (sh) "sm_type (sr_msg req) = SH_REQ" | (up) "sm_type (sr_msg req) = UPGRADE_REQ"
    | (nl) "sm_type (sr_msg req) \<notin> {EX_REQ, SH_REQ, UPGRADE_REQ}" by blast
  then show ?thesis
  proof cases
    case ex
    then show ?thesis using assms(2) grants_step_requests(1) [OF c] by (simp add: flush_resume_def)
  next
    case sh
    then obtain s1 where "sendDataToDram ?a (sm_requester m) (sm_data m) s = Some s1" "processShReqFromL2Cache ?a (sm_data m) s1 = Some p"
      using assms(2) by (auto simp: flush_resume_def Let_def bind_eq_Some_conv)
    then show ?thesis using k grants_step_requests(2) [OF _ c(2)] grants_step_trans by blast
  next
    case up
    then show ?thesis using assms(2) unfolding flush_resume_def Let_def
      by (auto simp: replies_def split: if_splits intro: grants_step_trans [OF grants_step_uncached [OF assms(1)] grants_step_requests(3) [OF w c(2)]])
  next
    case nl
    then obtain s1 where "sendDataToDram ?a (sm_requester m) (sm_data m) s = Some s1" "processNullifyReq ?a s1 = Some p"
      using assms(2) by (auto simp: flush_resume_def Let_def bind_eq_Some_conv)
    then show ?thesis using k replies_processNullify by simp
  qed
qed

lemma replies_sync_time: "sync_time a s = Some (req, s') \<Longrightarrow> replies s' = replies s"
  by (auto simp: sync_time_def Let_def replies_def bind_eq_Some_conv)

lemma granted_processInvRep:
  assumes "coherent s" and "sm_address m \<noteq> INVALID_ADDRESS" and "processInvRepFromL2Cache sender m s = Some s'"
  shows "granted (sm_address m) s s'"
proof -
  let ?a = "sm_address m"
  from assms(3) obtain r e e1 s1 where te: "the_entry ?a s = Some (r, e, s1)" and e1: "inv_entry sender e = Some e1"
    by (auto simp: processInvRepFromL2Cache_def Let_def bind_eq_Some_conv)
  let ?s = "write_entry r e1 s1"
  note o = opened_reply [OF assms(1,2) te inv_entry_ok [OF _ e1]]
  have q: "replies ?s = replies s" using quiet_replies [OF quiet_the_entry [OF te]] by simp
  have "granted ?a ?s s'"
  proof (cases "req_size ?a (dd_queues ?s) > 0")
    case True
    then obtain req s2 p where st: "sync_time ?a ?s = Some (req, s2)" and p: "inv_resume sender ?a r e1 req s2 = Some p" "process_next_if ?a p = Some s'"
      using assms(3) te e1 by (auto simp: processInvRepFromL2Cache_def Let_def bind_eq_Some_conv)
    note o2 = opened_sync_time [OF o st]
    show ?thesis using granted_replies [OF replies_sync_time [OF st]]
        resumed_granted [OF grants_step_inv_resume [OF o2 p(1)] coherent_inv_resume [OF o2 p(1)] assms(2) p(2)] by blast
  next
    case False
    then have "s' = ?s" using assms(3) te e1 by (auto simp: processInvRepFromL2Cache_def Let_def bind_eq_Some_conv)
    then show ?thesis using grants_step_granted [OF grants_step_refl] by simp
  qed
  then show ?thesis by (rule granted_replies [OF q])
qed

lemma granted_processFlushRep:
  assumes "coherent s" and "sm_address m \<noteq> INVALID_ADDRESS" and "processFlushRepFromL2Cache sender m s = Some s'"
  shows "granted (sm_address m) s s'"
proof -
  let ?a = "sm_address m"
  from assms(3) obtain r e e1 s1 where te: "the_entry ?a s = Some (r, e, s1)" and e1: "flush_entry sender e = Some e1"
    by (auto simp: processFlushRepFromL2Cache_def Let_def bind_eq_Some_conv)
  let ?s = "write_entry r e1 s1"
  note o = opened_reply [OF assms(1,2) te flush_entry_ok [OF e1]]
  have q: "replies ?s = replies s" using quiet_replies [OF quiet_the_entry [OF te]] by simp
  have "granted ?a ?s s'"
  proof (cases "req_size ?a (dd_queues ?s) = 0")
    case False
    then obtain req s2 p where st: "sync_time ?a ?s = Some (req, s2)" and p: "flush_resume m r e1 req s2 = Some p" "process_next_if ?a p = Some s'"
      using assms(3) te e1 by (auto simp: processFlushRepFromL2Cache_def Let_def bind_eq_Some_conv)
    note o2 = opened_sync_time [OF o st]
    show ?thesis using granted_replies [OF replies_sync_time [OF st]]
        resumed_granted [OF grants_step_flush_resume [OF o2 p(1)] coherent_flush_resume [OF o2 p(1)] assms(2) p(2)] by blast
  next
    case True
    then have "sendDataToDram ?a (sm_requester m) (sm_data m) ?s = Some s'" using assms(3) te e1 by (auto simp: processFlushRepFromL2Cache_def Let_def bind_eq_Some_conv)
    then show ?thesis by (rule grants_step_granted [OF grants_step_dram])
  qed
  then show ?thesis by (rule granted_replies [OF q])
qed

lemma granted_processWbRep:
  assumes "coherent s" and "sm_address m \<noteq> INVALID_ADDRESS" and "processWbRepFromL2Cache sender m s = Some s'"
  shows "granted (sm_address m) s s'"
proof -
  let ?a = "sm_address m"
  from assms(3) obtain r e e1 s1 req s2 p where te: "the_entry ?a s = Some (r, e, s1)" and e1: "wb_entry sender e = Some e1"
    and st: "sync_time ?a (write_entry r e1 s1) = Some (req, s2)" and sh: "processShReqFromL2Cache ?a (sm_data m) s2 = Some p"
    and nx: "process_next_if ?a p = Some s'"
    by (auto simp: processWbRepFromL2Cache_def Let_def bind_eq_Some_conv split: if_splits)
  have c: "coherent s2" by (rule opened_coherent [OF opened_sync_time [OF opened_reply [OF assms(1,2) te wb_entry_ok [OF e1]] st]])
  have "coherent (fst p)" using coherent_processShReq [OF c assms(2)] sh by (cases p) simp
  then have "granted ?a s2 s'" using resumed_granted [OF disjI1 [OF grants_step_requests(2) [OF c assms(2) sh]] _ assms(2) nx] by blast
  moreover have "replies s2 = replies s" using replies_sync_time [OF st] quiet_replies [OF quiet_the_entry [OF te]] by simp
  ultimately show ?thesis by (rule granted_replies [rotated])
qed

text \<open>
  The memory sends a block only for the first request of its line, whose core was made a sharer when the block was
  asked for (and the owner, unless the request was for a shared copy); no reply from that core is expected before.
\<close>

definition data_expected :: "u64 \<Rightarrow> DramDirectoryCntlr \<Rightarrow> bool" where
  "data_expected a s \<longleftrightarrow> (case (front a (dd_queues s), dir_map (dd_cache s) a) of
      (Some req, Some e) \<Rightarrow> sm_requester (sr_msg req) \<in> sharers e \<and> (sm_type (sr_msg req) = UPGRADE_REQ \<longrightarrow> owned e)
    | _ \<Rightarrow> False)"

lemma granted_processDRAMReply:
  assumes "coherent s" and "sm_address m \<noteq> INVALID_ADDRESS" and "data_expected (sm_address m) s" and "processDRAMReply sender m s = Some s'"
  shows "granted (sm_address m) s s'"
proof -
  let ?a = "sm_address m"
  from assms(4) obtain req r s1 s2 s3 t w and e :: DirectoryEntry where fr: "front ?a (dd_queues s) = Some req" and te: "the_entry ?a s = Some (r, e, s1)"
    and rt: "dram_reply_type (sm_type (sr_msg req)) (de_dstate e) = Some t"
    and sm: "sendMsg t L2_CACHE (sm_requester (sr_msg req)) (sm_requester (sr_msg req)) ?a (sm_data m) (dd_cache_block_size s1) w s1 = Some s2"
    and dn: "sendDataToNUCA ?a (sm_requester (sr_msg req)) (sm_data m) False s2 = Some s3" and nx: "processNextReqFromL2Cache ?a s3 = Some s'"
    by (auto simp: processDRAMReply_def Let_def bind_eq_Some_conv)
  let ?p = "sm_requester (sr_msg req)"
  note o = opened_the_entry [OF assms(1,2) te]
  note st = grants_step_the_entry [OF assms(1,2) te]
  obtain e0 where e0: "dir_map (dd_cache s) ?a = Some e0" "?p \<in> sharers e0" "sm_type (sr_msg req) = UPGRADE_REQ \<Longrightarrow> owned e0"
    using assms(3) fr by (auto simp: data_expected_def split: option.splits)
  have ev: "evolves e0 e" using st e0(1) opened_map [OF o] by (auto simp: grants_step_def)
  have p: "?p \<in> sharers e" using ev e0(2) by (auto simp: evolves_def)
  have ow: "owned e" if "t \<noteq> SH_REP" using that rt ev e0(3) by (auto simp: dram_reply_type_def owned_def evolves_def split: if_splits)
  have "sharers e = {?p}" if "owned e" using opened_ok [OF o] that p by (auto simp: entry_ok_def owned_def)
  then have s2: "grants_step ?a s1 s2" by (intro grants_step_reply [OF sm opened_map [OF o] p]) (use ow in auto)
  have s3: "grants_step ?a s2 s3" by (rule grants_step_quiet [OF quiet_sendDataToNUCA [OF dn] dir_kept_nuca [OF dn]])
  have "coherent s3" using opened_coherent [OF o] dir_kept(1) [OF sm] dir_kept_nuca [OF dn] by simp
  then have "grants_step ?a s3 s'" by (rule grants_step_processNext [OF _ assms(2) nx])
  then show ?thesis using grants_step_trans [OF st] grants_step_trans [OF s2] grants_step_trans [OF s3] grants_step_granted by blast
qed

lemma granted_handleMsg:
  assumes "coherent s" and "sm_address m \<noteq> INVALID_ADDRESS" and "handleMsgFromL2Cache sender m s = Some s'"
  shows "granted (sm_address m) s s'"
proof -
  let ?a = "sm_address m"
  from assms(3) obtain ro s1 where lk: "lookup_entry ?a True s = Some (ro, s1)"
    by (auto simp: handleMsgFromL2Cache_def Let_def bind_eq_Some_conv)
  have c1: "coherent s1" by (rule coherent_lookup_entry(1) [OF assms(1,2) lk])
  have q: "replies s1 = replies s" by (rule quiet_replies [OF quiet_lookup_entry [OF lk]])
  show ?thesis
  proof (cases "sm_type m \<in> {EX_REQ, SH_REQ, UPGRADE_REQ}")
    case True
    then obtain req where r: "ShmemReq_new m (dd_now s) = Some req"
      using assms(3) lk by (auto simp: handleMsgFromL2Cache_def Let_def bind_eq_Some_conv)
    let ?s = "s1\<lparr>dd_queues := enqueue ?a req (dd_queues s1)\<rparr>"
    have qs: "replies ?s = replies s" "coherent ?s" using q c1 by (simp_all add: replies_def)
    show ?thesis
    proof (cases "req_size ?a (dd_queues ?s) = 1")
      case one: True
      then obtain p where p: "process_request ?a (sm_type m) ?s = Some p" "process_next_if ?a p = Some s'"
        using assms(3) lk r True by (auto simp: handleMsgFromL2Cache_def Let_def bind_eq_Some_conv)
      have "coherent (fst p)" using coherent_process_request [OF qs(2) assms(2)] p(1) by (cases p) simp
      then have "granted ?a ?s s'" using resumed_granted [OF disjI1 [OF grants_step_requests(4) [OF qs(2) assms(2) p(1)]] _ assms(2) p(2)] by blast
      then show ?thesis by (rule granted_replies [OF qs(1)])
    next
      case False
      then have "s' = ?s" using assms(3) lk r True by (auto simp: handleMsgFromL2Cache_def Let_def bind_eq_Some_conv)
      then show ?thesis using qs(1) by (simp add: granted_def)
    qed
  next
    case False
    then have "granted ?a s1 s'" using assms(3) lk
      by (auto simp: handleMsgFromL2Cache_def Let_def bind_eq_Some_conv split: if_splits
          dest: granted_processInvRep [OF c1 assms(2)] granted_processFlushRep [OF c1 assms(2)] granted_processWbRep [OF c1 assms(2)])
    then show ?thesis by (rule granted_replies [OF q])
  qed
qed

lemma granted_step:
  assumes "coherent s" and "sm_address m \<noteq> INVALID_ADDRESS" and "sm_sender m = DRAM_COMPONENT \<Longrightarrow> data_expected (sm_address m) s"
    and "handleMsgFromNetwork sender t m s = Some s'"
  shows "granted (sm_address m) s s'"
proof -
  let ?s = "s\<lparr>dd_now := t\<rparr>"
  have s: "coherent ?s" "replies ?s = replies s" "data_expected (sm_address m) ?s = data_expected (sm_address m) s"
    using assms(1) by (simp_all add: replies_def data_expected_def)
  have "granted (sm_address m) ?s s'"
    using assms(4) granted_handleMsg [OF s(1) assms(2)] granted_processDRAMReply [OF s(1) assms(2)] assms(3) s(3)
    by (auto simp: handleMsgFromNetwork_def handleMsgFromDRAM_def Let_def split: if_splits)
  then show ?thesis by (rule granted_replies [OF s(2)])
qed

end
