(* ===== verification/Sniper_Coherence_Properties.thy ===== *)
theory Sniper_Coherence_Properties
  imports Sniper_Grant Sniper_Properties
begin

text \<open>
  The properties of the tag directory and its controller: the directory cache as a partial function, one writer or
  many readers of every line, answers in the order of the requests, and what an answer promises. The examples are a
  directory of two sets with one way each, without a last-level slice.
\<close>

definition demo_directory :: DramDirectoryCache where
  "demo_directory = the (DramDirectoryCache_new (\<lambda>_. 0) (\<lambda>_. 0) 0 ''full_map'' 2 1 64 64 4 1)"

definition demo_cntlr :: "string \<Rightarrow> u8 list \<Rightarrow> DramDirectoryCntlr" where
  "demo_cntlr protocol freed = the (DramDirectoryCntlr_new demo_directory demo_ahl None 0 4 protocol 0 False 0 freed)"

definition demo_msg :: "msg_t \<Rightarrow> int \<Rightarrow> u8 list option \<Rightarrow> ShmemMsg" where
  "demo_msg t requester d =
     ShmemMsg_new t (if t = DRAM_READ_REP then DRAM_COMPONENT else LAST_LEVEL_CACHE) TAG_DIR requester 0x1000 d (case d of None \<Rightarrow> 0 | Some b \<Rightarrow> of_nat (length b))"

definition demo_waiting :: DramDirectoryCntlr where
  "demo_waiting = the (handleMsgFromNetwork 3 10 (demo_msg EX_REQ 3 None) (demo_cntlr ''mesi'' []))"

definition demo_answered :: DramDirectoryCntlr where
  "demo_answered = the (handleMsgFromNetwork 0 20 (demo_msg DRAM_READ_REP 3 (Some [1, 2, 3, 4])) demo_waiting)"

lemma demo_directory_new: "DramDirectoryCache_new (\<lambda>_. 0) (\<lambda>_. 0) 0 ''full_map'' 2 1 64 64 4 1 = Some demo_directory"
proof -
  have "DramDirectoryCache_new (\<lambda>_. 0) (\<lambda>_. 0) 0 ''full_map'' 2 1 64 64 4 1 \<noteq> None" by code_simp
  then show ?thesis by (auto simp: demo_directory_def)
qed

lemma demo_cntlr_new: "DramDirectoryCntlr_new demo_directory demo_ahl None 0 4 ''mesi'' 0 False 0 [] = Some (demo_cntlr ''mesi'' [])"
proof -
  have "DramDirectoryCntlr_new demo_directory demo_ahl None 0 4 ''mesi'' 0 False 0 [] \<noteq> None" by code_simp
  then show ?thesis by (auto simp: demo_cntlr_def)
qed

lemma demo_steps:
  "handleMsgFromNetwork 3 10 (demo_msg EX_REQ 3 None) (demo_cntlr ''mesi'' []) = Some demo_waiting"
  "handleMsgFromNetwork 0 20 (demo_msg DRAM_READ_REP 3 (Some [1, 2, 3, 4])) demo_waiting = Some demo_answered"
proof -
  have "handleMsgFromNetwork 3 10 (demo_msg EX_REQ 3 None) (demo_cntlr ''mesi'' []) \<noteq> None" by code_simp
  then show "handleMsgFromNetwork 3 10 (demo_msg EX_REQ 3 None) (demo_cntlr ''mesi'' []) = Some demo_waiting" by (auto simp: demo_waiting_def)
  have "handleMsgFromNetwork 0 20 (demo_msg DRAM_READ_REP 3 (Some [1, 2, 3, 4])) demo_waiting \<noteq> None" by code_simp
  then show "handleMsgFromNetwork 0 20 (demo_msg DRAM_READ_REP 3 (Some [1, 2, 3, 4])) demo_waiting = Some demo_answered" by (auto simp: demo_answered_def)
qed

lemma demo_address: "sm_address (demo_msg t i d) = 0x1000" "(0x1000 :: u64) \<noteq> INVALID_ADDRESS"
proof -
  show "sm_address (demo_msg t i d) = 0x1000" by (simp add: demo_msg_def ShmemMsg_new_def)
  show "(0x1000 :: u64) \<noteq> INVALID_ADDRESS" by code_simp
qed

lemma demo_run:
  "dir_run (demo_cntlr ''mesi'' []) [demo_msg EX_REQ 3 None] demo_waiting"
  "dir_run (demo_cntlr ''mesi'' []) [demo_msg EX_REQ 3 None, demo_msg DRAM_READ_REP 3 (Some [1, 2, 3, 4])] demo_answered"
proof -
  show w: "dir_run (demo_cntlr ''mesi'' []) [demo_msg EX_REQ 3 None] demo_waiting"
    using dir_message [OF dir_start _ demo_steps(1)] demo_address by simp
  show "dir_run (demo_cntlr ''mesi'' []) [demo_msg EX_REQ 3 None, demo_msg DRAM_READ_REP 3 (Some [1, 2, 3, 4])] demo_answered"
    using dir_message [OF w _ demo_steps(2)] demo_address by simp
qed

section \<open>The controller\<close>

lemma new_cntlr:
  assumes "DramDirectoryCntlr_new c home nuca core bs protocol ev u1 u2 u3 = Some s"
  shows "dd_cache s = c" "dd_queues s = (\<lambda>_. None)" "dd_sent s = []"
  using assms by (auto simp: DramDirectoryCntlr_new_def bind_eq_Some_conv)

lemma coherent_new:
  assumes "DramDirectoryCache_new uf up penalty ty total_entries assoc bs hw num time = Some c" and "0 < unat assoc" "unat assoc \<le> unat total_entries" "bs \<noteq> 0"
    and "DramDirectoryCntlr_new c home nuca core cbs protocol ev u1 u2 u3 = Some s"
  shows "coherent s"
  using DramDirectoryCache_new_inv [OF assms(1,3,2,4)] new_cntlr [OF assms(5)] by (simp add: coherent_cache_def)

lemma single_sharer: "sharers e = {i} \<Longrightarrow> snd (getSharersList e) = [i]"
proof -
  assume s: "sharers e = {i}"
  then have "length (snd (getSharersList e)) = 1" using sharers_list(3) [of e] getNumSharers_card [of e] by simp
  then show ?thesis using sharers_list(1) [of e] s by (auto simp: length_Suc_conv)
qed

text \<open>C1: one writer or many readers. Whatever messages a directory controller has handled, the entry of an address
  is uncached exactly when no core has a copy; an entry in state modified or exclusive has its owner as the only
  sharer; and no entry is in the state owned, which the controller does not support.\<close>

theorem single_writer_or_readers:
  assumes "DramDirectoryCache_new uf up penalty ty total_entries assoc bs hw num time = Some c" and "0 < unat assoc" "unat assoc \<le> unat total_entries" "bs \<noteq> 0"
    and "DramDirectoryCntlr_new c home nuca core cbs protocol ev u1 u2 u3 = Some s0"
    and "dir_run s0 ms s" and "dir_map (dd_cache s) a = Some e"
  shows "de_dstate e \<noteq> D_OWNED \<and> (de_dstate e = D_UNCACHED \<longleftrightarrow> getNumSharers e = 0)
    \<and> (de_dstate e = D_MODIFIED \<or> de_dstate e = D_EXCLUSIVE \<longrightarrow> snd (getSharersList e) = [de_owner e])"
proof -
  have "coherent s" by (rule coherent_run [OF assms(6) coherent_new [OF assms(1-5)]])
  then have "entry_ok e" using assms(7) by (simp add: coherent_cache_def)
  then show ?thesis using single_sharer [of e] no_sharers [of e] by (cases "de_dstate e") (auto simp: entry_ok_def)
qed

theorem single_writer_or_readers_witness:
  "\<exists>e. dir_map (dd_cache demo_answered) 0x1000 = Some e \<and> de_dstate e = D_MODIFIED \<and> snd (getSharersList e) = [de_owner e]"
proof -
  have "map_option de_dstate (dir_map (dd_cache demo_answered) 0x1000) = Some D_MODIFIED" by code_simp
  then obtain e where e: "dir_map (dd_cache demo_answered) 0x1000 = Some e" "de_dstate e = D_MODIFIED" by auto
  have "0 < unat (1 :: u32)" "unat (1 :: u32) \<le> unat (2 :: u32)" "(64 :: u32) \<noteq> 0" by simp_all
  from single_writer_or_readers [OF demo_directory_new this demo_cntlr_new demo_run(2) e(1)] e show ?thesis by simp
qed

text \<open>C3: first come, first served. For every address, the cores that were answered followed by those whose requests
  are still queued are exactly the cores whose requests arrived, in the order of arrival: no request is lost,
  answered twice or overtaken.\<close>

theorem requests_answered_in_order:
  assumes "DramDirectoryCntlr_new c home nuca core cbs protocol ev u1 u2 u3 = Some s0" and "dir_run s0 ms s"
  shows "answers s a @ waiting s a = requests_for a ms"
  using account_run [OF assms(2), of a] new_cntlr [OF assms(1)]
  by (simp add: account_def answers_def waiting_def requesters_def queue_of_def)

theorem requests_answered_in_order_witness: "answers demo_answered 0x1000 = [3] \<and> waiting demo_answered 0x1000 = []"
proof -
  have "requests_for 0x1000 [demo_msg EX_REQ 3 None, demo_msg DRAM_READ_REP 3 (Some [1, 2, 3, 4])] = [3]" by code_simp
  moreover have "waiting demo_answered 0x1000 = []" by code_simp
  ultimately show ?thesis using requests_answered_in_order [OF demo_cntlr_new demo_run(2), of "0x1000"] by simp
qed



section \<open>The directory cache\<close>

text \<open>C12: the directory cache implements a partial function from addresses to entries. A lookup returns a pointer to the
  entry of the address, or makes a new entry for it, uncached and without sharers; it returns nothing only for
  an address that has no entry. No other address is affected.\<close>

theorem directory_lookup_refines:
  assumes "dir_inv c" and "a \<noteq> INVALID_ADDRESS" and "getDirectoryEntry a m c now = Some (ro, c', now')"
  shows "dir_inv c' \<and> (case ro of
      None \<Rightarrow> dir_map c a = None \<and> dir_map c' = dir_map c
    | Some r \<Rightarrow> \<exists>e. deref c' r = Some e \<and> de_address e = a \<and> dir_map c' = (dir_map c)(a \<mapsto> e)
        \<and> (dir_map c a = Some e \<or> dir_map c a = None \<and> de_dstate e = D_UNCACHED \<and> getNumSharers e = 0))"
proof -
  note sp = getDirectoryEntry_spec [OF assms]
  have n: "de_dstate e = D_UNCACHED \<and> getNumSharers e = 0" if "fresh_entry (dc_directory c) e" for e
    using that by (simp add: fresh_entry_def getNumSharers_def)
  show ?thesis
  proof (cases ro)
    case None
    then show ?thesis using sp(1,3) by simp
  next
    case (Some r)
    then show ?thesis using sp(1) sp(4) [OF Some] n by fastforce
  qed
qed

definition demo_used :: DramDirectoryCache where
  "demo_used = fst (snd (the (getDirectoryEntry 0x1000 False demo_directory 0)))"

lemma demo_directory_inv: "dir_inv demo_directory" "dir_map demo_directory = Map.empty"
  using DramDirectoryCache_new_inv [OF demo_directory_new] by simp_all

lemma demo_lookup: "getDirectoryEntry 0x1000 False demo_directory 0 = Some (Some (In_table 0), demo_used, 0)"
proof -
  have "map_option (\<lambda>(r, c, t). (r, t)) (getDirectoryEntry 0x1000 False demo_directory 0) = Some (Some (In_table 0), 0)" by code_simp
  then show ?thesis by (auto simp: demo_used_def)
qed

theorem directory_lookup_refines_witness: "\<exists>e. dir_map demo_used 0x1000 = Some e \<and> de_dstate e = D_UNCACHED"
  using directory_lookup_refines [OF demo_directory_inv(1) demo_address(2) demo_lookup] demo_directory_inv(2) by auto

text \<open>C13: replacement. When an address has no entry and its set is full, every candidate for replacement has an
  address of its own; after it is replaced the address has a new uncached entry, and the replaced entry is still found
  under its address with its state and sharers, until it is invalidated.\<close>

theorem directory_replacement_keeps_victim:
  assumes "dir_inv c" and "a \<noteq> INVALID_ADDRESS" and "getReplacementCandidates a c = Some (es, c1)" and "(k, v) \<in> set es"
    and "replaceDirectoryEntry (de_address v) a m c1 now = Some (r, c2, now')"
  shows "dir_map c a = None \<and> dir_inv c2 \<and> dir_map c2 (de_address v) = Some v
    \<and> (\<exists>e. deref c2 r = Some e \<and> de_address e = a \<and> de_dstate e = D_UNCACHED \<and> dir_map c2 = (dir_map c)(a \<mapsto> e))
    \<and> (\<forall>c3. invalidateDirectoryEntry (de_address v) c2 = Some c3 \<longrightarrow> dir_inv c3 \<and> dir_map c3 = (dir_map c2)(de_address v := None))"
proof -
  note gs = getReplacementCandidates_spec [OF assms(1-3)]
  have v: "deref c1 (In_table k) = Some v" "de_address v \<noteq> INVALID_ADDRESS" "dir_set c1 (de_address v) = dir_set c1 a" using gs(6) [OF assms(4)] by blast+
  have m: "dir_map c (de_address v) = Some v" using dir_map_Some [OF gs(1)] v(1,2) gs(4) by metis
  have n: "dir_map c1 a = None" using gs(3,4) by simp
  note rs = replaceDirectoryEntry_spec [OF gs(1) assms(2) n v(2,3) gs(5) assms(5)]
  obtain e where e: "deref c2 r = Some e" "de_address e = a" "fresh_entry (dc_directory c1) e" "dir_map c2 = (dir_map c1)(a \<mapsto> e)" using rs(4) by blast
  have "a \<noteq> de_address v" using m gs(3) by auto
  then have "dir_map c2 (de_address v) = Some v" using e(4) m gs(4) by simp
  then show ?thesis using gs(3,4) rs(1) e invalidateDirectoryEntry_spec(1,3) [OF rs(1)] by (auto simp: fresh_entry_def)
qed

theorem directory_replacement_keeps_victim_witness:
  "\<exists>es c1 v r c2 t. getReplacementCandidates 0x2000 demo_used = Some (es, c1) \<and> replaceDirectoryEntry (de_address v) 0x2000 True c1 0 = Some (r, c2, t)
    \<and> de_address v = 0x1000 \<and> dir_map c2 0x1000 = Some v \<and> dir_map c2 0x2000 \<noteq> None"
proof -
  have i: "dir_inv demo_used" using getDirectoryEntry_spec(1) [OF demo_directory_inv(1) demo_address(2) demo_lookup] .
  have "map_option (\<lambda>(es, c). map (\<lambda>(k, e). (k, de_address e)) es) (getReplacementCandidates 0x2000 demo_used) = Some [(0, 0x1000)]" by code_simp
  then obtain v c1 where g: "getReplacementCandidates 0x2000 demo_used = Some ([(0, v)], c1)" "de_address v = 0x1000"
    by (auto simp: map_eq_Cons_conv)
  have "(case getReplacementCandidates 0x2000 demo_used of Some (es, c1) \<Rightarrow> replaceDirectoryEntry 0x1000 0x2000 True c1 0 \<noteq> None | None \<Rightarrow> False)" by code_simp
  then obtain r c2 t where r: "replaceDirectoryEntry (de_address v) 0x2000 True c1 0 = Some (r, c2, t)" using g by auto
  have a: "(0x2000 :: u64) \<noteq> INVALID_ADDRESS" by code_simp
  from directory_replacement_keeps_victim [OF i a g(1) _ r] have "dir_map c2 0x1000 = Some v" "dir_map c2 0x2000 \<noteq> None" using g(2) by auto
  then show ?thesis using g r by blast
qed

section \<open>Data that is lost\<close>

definition deliver :: "(int \<times> ShmemMsg) list \<Rightarrow> DramDirectoryCntlr \<Rightarrow> DramDirectoryCntlr option" where
  "deliver ms s = fold (\<lambda>(sender, m) so. so \<bind> handleMsgFromNetwork sender 0 m) ms (Some s)"


definition demo_nuca :: NucaCache where
  "demo_nuca = the (NucaCache_new demo_cfg (\<lambda>_. 0) True 4 1 1 ''lru'' ''mask'' None 0 0 0 None)"


end
