(* ===== verification/Spec2Isabelle.thy ===== *)
theory Spec2Isabelle
  imports Orion_Module Orion_Permu Popnet_Clock Sniper_Properties Sniper_Coherence_Properties
begin

text \<open>
  \<^bold>\<open>Verification library for the chiplet simulator: the network simulator popnet, the Orion power models it uses, and the
  caches and the coherence directory of the multicore simulator Sniper.\<close>

  \<^medskip>
  \<^bold>\<open>The program.\<close> \<^verbatim>\<open>src/popnet\<close> simulates a network of routers cycle by cycle. The main program (\<^verbatim>\<open>main.cc\<close>) reads the options
  (\<^verbatim>\<open>configuration.cc\<close>), builds one router per address of a cube (\<^verbatim>\<open>sim_foundation.cc\<close>), and runs the event loop
  (\<^verbatim>\<open>mess_queue.cc\<close>). An event is a packet of the trace, a cycle of all routers, a flit that arrives over a wire, or a
  credit. A router (\<^verbatim>\<open>sim_router.cc\<close>, \<^verbatim>\<open>sim_routing.cc\<close>, \<^verbatim>\<open>sim_vcarb.cc\<close>) buffers flits per port and virtual channel and moves
  them through five pipeline stages; it tells its power module about every buffer, crossbar, arbiter and link access,
  and the power module counts the transitions with the Orion models (\<^verbatim>\<open>orion_power_beta_mar2003/power\<close>).

  \<^verbatim>\<open>src/sniper\<close> simulates the cores whose traffic the network carries. Its memory subsystem
  (\<^verbatim>\<open>common/core/memory_subsystem\<close>) has caches built from sets with a replacement policy (\<^verbatim>\<open>cache\<close>), and a
  directory at the home node of every line. The directory controller (\<^verbatim>\<open>dram_directory_cntlr.cc\<close>) takes requests and replies
  from the caches and data from the memory, orders the requests of every address in a queue, keeps the entry of a
  line (\<^verbatim>\<open>directory_schemes\<close>, \<^verbatim>\<open>dram_directory_cache.cc\<close>) in step with the copies in the caches, and answers with data from
  another cache, from its slice of the last-level cache (\<^verbatim>\<open>nuca_cache.cc\<close>) or from memory.

  \<^medskip>
  \<^bold>\<open>Conventions.\<close> Machine integers of the power models are words (\<^typ>\<open>u8\<close>, \<^typ>\<open>u32\<close>, \<^typ>\<open>u64\<close>); \<^verbatim>\<open>long\<close> values of the
  simulator are integers, \<^verbatim>\<open>double\<close> values are real numbers. An operation returns \<^term>\<open>None\<close> where the program aborts,
  throws, or leaves the defined part of the language: an index out of range, a failing assertion, a null pointer, an
  uninitialised value. A theorem that an operation returns \<^term>\<open>Some\<close> value thus says that none of this happens.

  \<^medskip>
  \<^bold>\<open>Orion.\<close>
  \<^item> \<open>Prelude\<close>, \<open>Orion_Util\<close>: bit counting, Hamming distances, logarithm, reshaping, report paths
    (\<^verbatim>\<open>SIM_power_util.c\<close>).
  \<^item> \<open>Orion_Meter\<close>: the locale \<open>energy_meter\<close>: counters that only grow, a report that is their weighted sum. Every counting
    structure below interprets it.
  \<^item> \<open>Orion_Tech\<close>: technology constants, capacitances, resistances, driver sizing (\<^verbatim>\<open>SIM_power.h\<close>, the first part of
    \<^verbatim>\<open>SIM_power_time.c\<close>).
  \<^item> \<open>Orion_Misc\<close>, \<open>Orion_Cam\<close>, \<open>Orion_Cells\<close>, \<open>Orion_Array\<close>: buses, flip-flops, selection logic, cells and whole arrays.
  \<^item> \<open>Orion_Router\<close>, \<open>Orion_Module\<close>, \<open>Orion_Permu\<close>: crossbar, arbiter, router, the parameter file with the module wrappers, and
    the permutation units.

  The lemmas show that initialisation is defined, that a report is the energy of the recorded transitions, that an
  optimised routine computes its reference, and which inputs break the code.

  \<^medskip>
  \<^bold>\<open>Popnet.\<close>
  \<^item> \<open>Popnet_Base\<close>: enumerations, flits, events, random numbers; bounds-checked vectors and sequential loops.
  \<^item> \<open>Popnet_Queue\<close>: the ordered multiset of events; the locale \<open>event_queue\<close> is the contract of a stable priority queue,
    interpreted on it.
  \<^item> \<open>Popnet_Routing\<close>: neighbours, ports and the routing algorithms; they lead every packet to its destination.
  \<^item> \<open>Popnet_Router\<close>: the definitions of a router, operation by operation.
  \<^item> \<open>Popnet_Channels\<close>: the abstraction of a router's nested vectors to functions on channels, and the symbolic execution
    of the operations on it.
  \<^item> \<open>Popnet_Invariant\<close>: the invariant of a router and its preservation by every stage, with an account of the flits.
  \<^item> \<open>Popnet_Reach\<close>: arriving flits and credits, injection, reachable routers, and the properties of a router.
  \<^item> \<open>Popnet_Power\<close>: the power module on top of the Orion models.
  \<^item> \<open>Popnet_Config\<close>: options, string conversion, Gaussian numbers.
  \<^item> \<open>Popnet_Network\<close>: construction of the network, message handlers, the step of the event loop, results.
  \<^item> \<open>Popnet_Clock\<close>: what a step may schedule; termination of the loop; monotonicity of time.

  \<^medskip>
  \<^bold>\<open>Sniper.\<close>
  \<^item> \<open>Sniper_Base\<close>: integer utilities, the pseudo random generators with their periods, homes of addresses.
  \<^item> \<open>Sniper_Block\<close>, \<open>Sniper_Set\<close>: cache lines and sets; the locale \<open>replacement_policy\<close> is the contract of a policy, and
    what a set does with it is proved there.
  \<^item> \<open>Sniper_LRU\<close>, \<open>Sniper_Policies\<close>, \<open>Sniper_Index\<close>: the eight policies and the dispatch over them as interpretations of the
    contract; least recently used as a move-to-front list; the seven hash functions of the set index.
  \<^item> \<open>Sniper_Cache\<close>, \<open>Sniper_Properties\<close>: caches as partial functions from blocks to lines, fault injection, the
    properties of the cache components.
  \<^item> \<open>Sniper_Directory\<close>, \<open>Sniper_DirMap\<close>: directory entries, the table that makes them, the cache of entries with the list
    of replaced ones; the locale \<open>entry_store\<close> states what the controller relies on, interpreted on that cache.
  \<^item> \<open>Sniper_Nuca\<close>, \<open>Sniper_Requests\<close>: the last-level slice; messages, requests and the queues per address with their
    contract \<open>request_queues\<close>.
  \<^item> \<open>Sniper_Coherence\<close>, \<open>Sniper_Protocol\<close>: the directory controller, from the processing of a request to the handlers of all
    messages, and the runs of the controller over arbitrary sequences of messages (\<open>dir_run\<close>).
  \<^item> \<open>Sniper_Order\<close>, \<open>Sniper_Owner\<close>, \<open>Sniper_Grant\<close>: every request is answered once and in order; the entry of a line always has
    one writer or many readers; an exclusive answer goes to the only sharer.
  \<^item> \<open>Sniper_Coherence_Properties\<close>: these properties on the controller as it is constructed, and two ways in which it
    loses data.

  \<^medskip>
  \<^bold>\<open>Bounds and fuel.\<close> No definition uses fuel. Loops are structural or have a measure; the event loop terminates by a
  lexicographic order on the rest of the trace, the end of the simulated time, and the multiset of times left for the
  pending events; the directory controller goes on to the next request of an address by the length of its queue. The
  searches of the random and the round-robin policy may not end in the code: they are partial functions whose
  value is \<^term>\<open>None\<close> then. The random search is shown to end whenever a line may be replaced.

  \<^medskip>
  \<^bold>\<open>Parameters.\<close> The results of the C library's \<^verbatim>\<open>random\<close>, the results of \<^verbatim>\<open>getopt\<close>, the contents of files, the value of
  conversions that the language leaves open, and the memory behind a table that the code reads past its end. For Sniper,
  the configuration, the delays of the queue model of the last-level slice, and the values of members and buffers that
  the code reads uninitialised or freed.

  \<^medskip>
  \<^bold>\<open>Not modelled.\<close> Rounding of floating-point numbers; text that is only printed; the delay formulas of
  \<^verbatim>\<open>SIM_power_time.c\<close>, the ALU and the clock tree of Orion, which the simulator does not call. Of Sniper: the private cache
  controllers, which share state between host threads under locks, and the memory controllers, so that the caches
  that send messages to the directory are not constrained here; the time breakdown of messages; the core and network
  timing models; scheduling, system calls, traces and instrumentation.
\<close>

end
